(* ===== verification/Prelude.thy ===== *)
theory Prelude
  imports Main "HOL-Library.Word" "HOL-Library.Char_ord" "HOL-Library.List_Lexorder"
    "HOL-Library.Product_Lexorder" "HOL-Library.Option_ord"
begin

text \<open>
  Shared vocabulary of the development: machine integers and byte strings, Rust's
  \<^verbatim>\<open>Result\<close> with the \<^verbatim>\<open>?\<close> operator (pure and state-threading), little-endian integers,
  the tag/length/bytes field encoding that every hash and signature pre-image of the
  workspace uses, and ordered association lists (Rust's \<^verbatim>\<open>BTreeMap\<close>).
\<close>

named_theorems result_simps \<open>unfolding rules for the result and state-result combinators\<close>
named_theorems codec_simps \<open>round-trip and length rules of the byte codecs\<close>

section \<open>Machine integers and byte strings\<close>

type_synonym byte = "8 word"
type_synonym bytes = "byte list"
type_synonym u8 = "8 word"
type_synonym u16 = "16 word"
type_synonym u32 = "32 word"
type_synonym u64 = "64 word"

text \<open>\<^verbatim>\<open>str::as_bytes\<close>: a Rust string is its sequence of UTF-8 bytes, a HOL \<^typ>\<open>string\<close> a
  sequence of 8-bit characters, so the conversion is character by character.\<close>

definition as_bytes :: "string \<Rightarrow> bytes" where
  "as_bytes s = map of_char s"

definition of_bytes :: "bytes \<Rightarrow> string" where
  "of_bytes b = map (\<lambda>x. char_of (unat x)) b"

lemma unat_bound: "unat (w :: 'a::len word) < 2 ^ LENGTH('a)"
  by (rule unsigned_less)

lemma unat_of_char [simp]: "unat (of_char c :: byte) = of_char c"
proof -
  have "(of_char c :: byte) = of_nat (of_char c)" by (simp add: of_nat_of_char)
  moreover have "(of_char c :: nat) < 256" by (rule nat_of_char_less_256)
  ultimately show ?thesis by (simp add: unat_of_nat)
qed

lemma of_bytes_as_bytes [simp, codec_simps]: "of_bytes (as_bytes s) = s"
  by (simp add: of_bytes_def as_bytes_def comp_def)

lemma as_bytes_of_bytes [simp, codec_simps]: "as_bytes (of_bytes b) = b"
proof -
  have "(of_char (char_of (unat x)) :: byte) = x" for x :: byte
    using unat_bound [of x] by (simp add: word_unat_eq_iff)
  then show ?thesis by (simp add: of_bytes_def as_bytes_def comp_def)
qed

lemma as_bytes_inject [simp]: "as_bytes s = as_bytes t \<longleftrightarrow> s = t"
  by (metis of_bytes_as_bytes)

lemma length_as_bytes [simp, codec_simps]: "length (as_bytes s) = length s"
  by (simp add: as_bytes_def)

lemma as_bytes_append [simp]: "as_bytes (s @ t) = as_bytes s @ as_bytes t"
  by (simp add: as_bytes_def)

section \<open>Results and the question-mark operator\<close>

text \<open>\<^verbatim>\<open>Result<T, E>\<close> is the sum \<open>'e + 'a\<close>: \<open>Inl\<close> is \<^verbatim>\<open>Err\<close>, \<open>Inr\<close> is \<^verbatim>\<open>Ok\<close>.
  A function that takes \<^verbatim>\<open>&self\<close> and writes through it returns its result together with
  the state it leaves, on the error branch too: what was written before an early return
  stays written.\<close>

type_synonym ('e, 'a) result = "'e + 'a"
type_synonym ('s, 'e, 'a) action = "'s \<Rightarrow> ('e + 'a) \<times> 's"

definition rbind :: "('e, 'a) result \<Rightarrow> ('a \<Rightarrow> ('e, 'b) result) \<Rightarrow> ('e, 'b) result" where
  "rbind r f = (case r of Inl e \<Rightarrow> Inl e | Inr x \<Rightarrow> f x)"

definition map_err :: "('e \<Rightarrow> 'f) \<Rightarrow> ('e, 'a) result \<Rightarrow> ('f, 'a) result" where
  "map_err g r = (case r of Inl e \<Rightarrow> Inl (g e) | Inr x \<Rightarrow> Inr x)"

definition ok_or :: "'e \<Rightarrow> 'a option \<Rightarrow> ('e, 'a) result" where
  "ok_or e x = (case x of None \<Rightarrow> Inl e | Some v \<Rightarrow> Inr v)"

definition sbind :: "('s, 'e, 'a) action \<Rightarrow> ('a \<Rightarrow> ('s, 'e, 'b) action) \<Rightarrow> ('s, 'e, 'b) action"
  where
  "sbind m f s = (case m s of (Inl e, s') \<Rightarrow> (Inl e, s') | (Inr x, s') \<Rightarrow> f x s')"

definition sok :: "'a \<Rightarrow> ('s, 'e, 'a) action" where
  "sok x s = (Inr x, s)"

definition serr :: "'e \<Rightarrow> ('s, 'e, 'a) action" where
  "serr e s = (Inl e, s)"

definition sread :: "('s \<Rightarrow> ('e, 'a) result) \<Rightarrow> ('s, 'e, 'a) action" where
  "sread f s = (f s, s)"

definition slift :: "('e, 'a) result \<Rightarrow> ('s, 'e, 'a) action" where
  "slift r s = (r, s)"

definition smap_err :: "('e \<Rightarrow> 'f) \<Rightarrow> ('s, 'e, 'a) action \<Rightarrow> ('s, 'f, 'a) action" where
  "smap_err g m s = (case m s of (r, s') \<Rightarrow> (map_err g r, s'))"

text \<open>A \<^verbatim>\<open>for\<close> loop over a list whose body may write and may return early.\<close>

fun sfold :: "('b \<Rightarrow> 'a \<Rightarrow> ('s, 'e, 'a) action) \<Rightarrow> 'b list \<Rightarrow> 'a \<Rightarrow> ('s, 'e, 'a) action" where
  "sfold f [] a = sok a"
| "sfold f (x # xs) a = sbind (f x a) (sfold f xs)"

fun rfold :: "('b \<Rightarrow> 'a \<Rightarrow> ('e, 'a) result) \<Rightarrow> 'b list \<Rightarrow> 'a \<Rightarrow> ('e, 'a) result" where
  "rfold f [] a = Inr a"
| "rfold f (x # xs) a = rbind (f x a) (rfold f xs)"

lemma rbind_simps [simp, result_simps]:
  "rbind (Inl e) f = Inl e" "rbind (Inr x) f = f x"
  by (simp_all add: rbind_def)

lemma map_err_simps [simp, result_simps]:
  "map_err g (Inl e) = Inl (g e)" "map_err g (Inr x) = Inr x"
  by (simp_all add: map_err_def)

lemma ok_or_simps [simp, result_simps]: "ok_or e None = Inl e" "ok_or e (Some v) = Inr v"
  by (simp_all add: ok_or_def)

lemma rbind_eq_Inr [simp]: "rbind r f = Inr y \<longleftrightarrow> (\<exists>x. r = Inr x \<and> f x = Inr y)"
  by (cases r) auto

lemma rbind_eq_Inl: "rbind r f = Inl e \<longleftrightarrow> r = Inl e \<or> (\<exists>x. r = Inr x \<and> f x = Inl e)"
  by (cases r) auto

lemma map_err_eq_Inr [simp]: "map_err g r = Inr x \<longleftrightarrow> r = Inr x"
  by (cases r) auto

lemma map_err_eq_Inl: "map_err g r = Inl e \<longleftrightarrow> (\<exists>e'. r = Inl e' \<and> e = g e')"
  by (cases r) auto

lemma ok_or_eq_Inr [simp]: "ok_or e x = Inr v \<longleftrightarrow> x = Some v"
  by (cases x) auto

lemma sok_eq [simp, result_simps]: "sok x s = (Inr x, s)"
  by (simp add: sok_def)

lemma serr_eq [simp, result_simps]: "serr e s = (Inl e, s)"
  by (simp add: serr_def)

lemma sread_eq [simp, result_simps]: "sread f s = (f s, s)"
  by (simp add: sread_def)

lemma slift_eq [simp, result_simps]: "slift r s = (r, s)"
  by (simp add: slift_def)

lemma sbind_Inr_iff:
  "sbind m f s = (Inr y, s'') \<longleftrightarrow> (\<exists>x s'. m s = (Inr x, s') \<and> f x s' = (Inr y, s''))"
  by (auto simp: sbind_def split: prod.splits sum.splits)

lemma sbind_Inl_iff:
  "sbind m f s = (Inl e, s'') \<longleftrightarrow>
     m s = (Inl e, s'') \<or> (\<exists>x s'. m s = (Inr x, s') \<and> f x s' = (Inl e, s''))"
  by (auto simp: sbind_def split: prod.splits sum.splits)

lemma sbind_eval [result_simps]:
  "m s = (Inr x, s') \<Longrightarrow> sbind m f s = f x s'"
  "m s = (Inl e, s') \<Longrightarrow> sbind m f s = (Inl e, s')"
  by (simp_all add: sbind_def)

lemma smap_err_iff [simp]:
  "smap_err g m s = (Inr x, s') \<longleftrightarrow> m s = (Inr x, s')"
  by (auto simp: smap_err_def map_err_def split: prod.splits sum.splits)

lemma smap_err_Inl: "smap_err g m s = (Inl e, s') \<longleftrightarrow> (\<exists>x. m s = (Inl x, s') \<and> e = g x)"
  by (cases "m s") (auto simp: smap_err_def map_err_eq_Inl)

text \<open>An invariant that every read-modify-write step keeps is kept by a loop, whether the
  loop runs to its end or returns early.\<close>

lemma sfold_invariant:
  assumes step: "\<And>x a s r s'. x \<in> set xs \<Longrightarrow> I s \<Longrightarrow> f x a s = (r, s') \<Longrightarrow> I s'"
    and start: "I s" and run: "sfold f xs a s = (r, s')"
  shows "I s'"
  using assms
proof (induction xs arbitrary: a s)
  case Nil
  then show ?case by simp
next
  case (Cons x xs)
  obtain q t where q: "f x a s = (q, t)" by (cases "f x a s")
  with Cons.prems have t: "I t" by (meson list.set_intros(1))
  show ?case
  proof (cases q)
    case (Inl e)
    with Cons.prems(3) q t show ?thesis by (simp add: sbind_def)
  next
    case (Inr b)
    with Cons.prems(3) q have "sfold f xs b t = (r, s')" by (simp add: sbind_def)
    with Cons.IH [OF _ t] Cons.prems(1) show ?thesis by (meson list.set_intros(2))
  qed
qed

lemma rfold_invariant:
  assumes "\<And>x a b. x \<in> set xs \<Longrightarrow> I a \<Longrightarrow> f x a = Inr b \<Longrightarrow> I b" "I a" "rfold f xs a = Inr b"
  shows "I b"
  using assms
proof (induction xs arbitrary: a)
  case (Cons x xs)
  from Cons.prems(3) obtain c where "f x a = Inr c" "rfold f xs c = Inr b" by auto
  moreover have "I c" by (rule Cons.prems(1) [OF _ Cons.prems(2) calculation(1)]) simp
  ultimately show ?case using Cons.IH [of c] Cons.prems(1) by (meson list.set_intros(2))
qed simp

lemma sfold_error:
  "sfold f xs a s = (Inl e, s') \<Longrightarrow> \<exists>x b q. f x b q = (Inl e, s')"
  by (induction xs arbitrary: a s) (auto simp: sbind_Inl_iff)

section \<open>Text\<close>

text \<open>\<^verbatim>\<open>std::str::from_utf8\<close> accepts exactly the well-formed sequences of the Unicode standard:
  no overlong forms, no surrogates, nothing above U+10FFFF.\<close>

definition utf8_cont :: "byte \<Rightarrow> bool" where
  "utf8_cont b \<longleftrightarrow> 0x80 \<le> b \<and> b \<le> 0xBF"

fun utf8_valid :: "bytes \<Rightarrow> bool" where
  "utf8_valid [] \<longleftrightarrow> True"
| "utf8_valid (a # bs) \<longleftrightarrow>
     (if a < 0x80 then utf8_valid bs
      else if 0xC2 \<le> a \<and> a \<le> 0xDF then
        (case bs of b # r \<Rightarrow> utf8_cont b \<and> utf8_valid r | _ \<Rightarrow> False)
      else if 0xE0 \<le> a \<and> a \<le> 0xEF then
        (case bs of b # c # r \<Rightarrow>
           utf8_cont b \<and> utf8_cont c \<and> (a = 0xE0 \<longrightarrow> 0xA0 \<le> b) \<and> (a = 0xED \<longrightarrow> b \<le> 0x9F) \<and> utf8_valid r
         | _ \<Rightarrow> False)
      else if 0xF0 \<le> a \<and> a \<le> 0xF4 then
        (case bs of b # c # d # r \<Rightarrow>
           utf8_cont b \<and> utf8_cont c \<and> utf8_cont d \<and> (a = 0xF0 \<longrightarrow> 0x90 \<le> b) \<and>
           (a = 0xF4 \<longrightarrow> b \<le> 0x8F) \<and> utf8_valid r
         | _ \<Rightarrow> False)
      else False)"

text \<open>\<^verbatim>\<open>trim().is_empty()\<close>: nothing but Unicode white space.\<close>

fun all_white :: "bytes \<Rightarrow> bool" where
  "all_white [] \<longleftrightarrow> True"
| "all_white (a # bs) \<longleftrightarrow>
     (if (9 \<le> a \<and> a \<le> 13) \<or> a = 32 then all_white bs
      else if a = 0xC2 then
        (case bs of b # r \<Rightarrow> (b = 0x85 \<or> b = 0xA0) \<and> all_white r | _ \<Rightarrow> False)
      else if a = 0xE1 then
        (case bs of b # c # r \<Rightarrow> b = 0x9A \<and> c = 0x80 \<and> all_white r | _ \<Rightarrow> False)
      else if a = 0xE2 then
        (case bs of b # c # r \<Rightarrow>
           ((b = 0x80 \<and> (0x80 \<le> c \<and> c \<le> 0x8A \<or> c = 0xA8 \<or> c = 0xA9 \<or> c = 0xAF)) \<or>
            (b = 0x81 \<and> c = 0x9F)) \<and> all_white r
         | _ \<Rightarrow> False)
      else if a = 0xE3 then
        (case bs of b # c # r \<Rightarrow> b = 0x80 \<and> c = 0x80 \<and> all_white r | _ \<Rightarrow> False)
      else False)"

text \<open>\<^verbatim>\<open>BufRead::lines\<close>: the pieces between newlines, without the newline and without a carriage
  return in front of it; a last piece without a newline counts if it is not empty.\<close>

definition chomp :: "bytes \<Rightarrow> bytes" where
  "chomp l = (if l \<noteq> [] \<and> last l = 13 then butlast l else l)"

fun lines_from :: "bytes \<Rightarrow> bytes \<Rightarrow> bytes list" where
  "lines_from cur [] = (if cur = [] then [] else [cur])"
| "lines_from cur (b # bs) = (if b = 10 then chomp cur # lines_from [] bs else lines_from (cur @ [b]) bs)"

definition lines :: "bytes \<Rightarrow> bytes list" where
  "lines b = lines_from [] b"

lemma lines_from_line:
  "10 \<notin> set l \<Longrightarrow> lines_from cur (l @ 10 # rest) = chomp (cur @ l) # lines_from [] rest"
  by (induction l arbitrary: cur) auto

lemma lines_line: "10 \<notin> set l \<Longrightarrow> lines (l @ 10 # rest) = chomp l # lines rest"
  by (simp add: lines_def lines_from_line)

lemma lines_Nil [simp]: "lines [] = []"
  by (simp add: lines_def)

section \<open>Little-endian integers\<close>

text \<open>\<open>nat_le k n\<close> is the \<open>k\<close> low bytes of \<open>n\<close>, least significant first:
  \<^verbatim>\<open>to_le_bytes\<close> of an integer of \<open>k\<close> bytes. A larger \<open>n\<close> is cut as an \<^verbatim>\<open>as\<close> cast
  cuts it.\<close>

fun nat_le :: "nat \<Rightarrow> nat \<Rightarrow> bytes" where
  "nat_le 0 n = []"
| "nat_le (Suc k) n = of_nat n # nat_le k (n div 256)"

fun nat_of_le :: "bytes \<Rightarrow> nat" where
  "nat_of_le [] = 0"
| "nat_of_le (b # bs) = unat b + 256 * nat_of_le bs"

lemma length_nat_le [simp, codec_simps]: "length (nat_le k n) = k"
  by (induction k arbitrary: n) auto

lemma nat_of_le_nat_le: "nat_of_le (nat_le k n) = n mod 256 ^ k"
proof (induction k arbitrary: n)
  case 0
  then show ?case by simp
next
  case (Suc k)
  have "n mod 256 ^ Suc k = n mod 256 + 256 * (n div 256 mod 256 ^ k)"
    by (simp add: mod_mult2_eq add.commute)
  with Suc.IH [of "n div 256"] show ?case by (simp add: unat_of_nat)
qed

lemma nat_le_inject:
  "m < 256 ^ k \<Longrightarrow> n < 256 ^ k \<Longrightarrow> nat_le k m = nat_le k n \<longleftrightarrow> m = n"
  by (metis mod_less nat_of_le_nat_le)

lemma nat_of_le_bound: "nat_of_le bs < 256 ^ length bs"
proof (induction bs)
  case Nil
  then show ?case by simp
next
  case (Cons b bs)
  have "unat b < 256" using unat_bound [of b] by simp
  with Cons show ?case by simp
qed

lemma nat_le_nat_of_le: "nat_le (length bs) (nat_of_le bs) = bs"
proof (induction bs)
  case Nil
  then show ?case by simp
next
  case (Cons b bs)
  have b: "unat b < 256" using unat_bound [of b] by simp
  then have "(unat b + 256 * nat_of_le bs) div 256 = nat_of_le bs" by simp
  moreover have "(of_nat (unat b + 256 * nat_of_le bs) :: byte) = b"
    using b by (simp add: word_unat_eq_iff unat_of_nat del: of_nat_add)
  ultimately show ?case using Cons by simp
qed

definition u16_le :: "u16 \<Rightarrow> bytes" where
  "u16_le v = nat_le 2 (unat v)"

definition u64_le :: "u64 \<Rightarrow> bytes" where
  "u64_le v = nat_le 8 (unat v)"

lemma length_u16_le [simp, codec_simps]: "length (u16_le v) = 2"
  by (simp add: u16_le_def)

lemma length_u64_le [simp, codec_simps]: "length (u64_le v) = 8"
  by (simp add: u64_le_def)

lemma u16_le_inject [simp]: "u16_le v = u16_le w \<longleftrightarrow> v = w"
  using unat_bound [of v] unat_bound [of w] by (simp add: u16_le_def nat_le_inject word_unat_eq_iff)

lemma u64_le_inject [simp]: "u64_le v = u64_le w \<longleftrightarrow> v = w"
  using unat_bound [of v] unat_bound [of w] by (simp add: u64_le_def nat_le_inject word_unat_eq_iff)

section \<open>Tag, length, bytes: the field encoding\<close>

text \<open>Every pre-image the workspace hashes or signs is a sequence of fields, each written as
  a tag byte, the field's length as a little-endian \<^verbatim>\<open>u64\<close>, and the field's bytes. Such a
  sequence can be read back in only one way, as long as no field has \<open>2 ^ 64\<close> bytes or more
  (Rust allows no vector that long).\<close>

definition tlv :: "u8 \<Rightarrow> bytes \<Rightarrow> bytes" where
  "tlv tag b = tag # nat_le 8 (length b) @ b"

definition tlvs :: "(u8 \<times> bytes) list \<Rightarrow> bytes" where
  "tlvs fs = concat (map (\<lambda>(t, b). tlv t b) fs)"

definition fits :: "bytes \<Rightarrow> bool" where
  "fits b \<longleftrightarrow> length b < 2 ^ 64"

lemma tlvs_simps [simp]:
  "tlvs [] = []" "tlvs ((t, b) # fs) = tlv t b @ tlvs fs" "tlvs (fs @ gs) = tlvs fs @ tlvs gs"
  by (simp_all add: tlvs_def)

lemma tlv_append_eq:
  assumes "fits a" "fits b" and eq: "tlv s a @ x = tlv t b @ y"
  shows "s = t \<and> a = b \<and> x = y"
proof -
  have st: "s = t" and rest: "nat_le 8 (length a) @ a @ x = nat_le 8 (length b) @ b @ y"
    using eq by (auto simp: tlv_def)
  then have "nat_le 8 (length a) = nat_le 8 (length b)" and axby: "a @ x = b @ y"
    by (simp_all add: append_eq_append_conv)
  with assms(1,2) have "length a = length b" by (simp add: fits_def nat_le_inject)
  with axby st show ?thesis by simp
qed

lemma tlvs_inject:
  assumes "list_all (fits \<circ> snd) fs" "list_all (fits \<circ> snd) gs" "tlvs fs = tlvs gs"
  shows "fs = gs"
  using assms
proof (induction fs arbitrary: gs)
  case Nil
  then show ?case by (cases gs) (auto simp: tlv_def)
next
  case (Cons f fs)
  obtain t a where f: "f = (t, a)" by (cases f)
  with Cons.prems(3) obtain u b gs' where gs: "gs = (u, b) # gs'"
    by (cases gs) (auto simp: tlv_def)
  with f Cons.prems have "tlv t a @ tlvs fs = tlv u b @ tlvs gs'" "fits a" "fits b"
    by simp_all
  then have "t = u" "a = b" "tlvs fs = tlvs gs'"
    using tlv_append_eq by blast+
  with Cons.IH [of gs'] Cons.prems f gs show ?case by simp
qed

lemma u16_le_fits [simp]: "fits (u16_le v)" and u64_le_fits [simp]: "fits (u64_le w)"
  by (simp_all add: fits_def)

section \<open>Ordered association lists\<close>

text \<open>Rust's \<^verbatim>\<open>BTreeMap\<close> as a strictly sorted association list: \<open>map_of\<close> is \<^verbatim>\<open>get\<close>, the list
  itself is what iteration yields.\<close>

fun bt_insert :: "'k::linorder \<Rightarrow> 'v \<Rightarrow> ('k \<times> 'v) list \<Rightarrow> ('k \<times> 'v) list" where
  "bt_insert k v [] = [(k, v)]"
| "bt_insert k v ((a, b) # m) =
     (if k < a then (k, v) # (a, b) # m
      else if k = a then (k, v) # m
      else (a, b) # bt_insert k v m)"

fun bt_remove :: "'k::linorder \<Rightarrow> ('k \<times> 'v) list \<Rightarrow> ('k \<times> 'v) list" where
  "bt_remove k [] = []"
| "bt_remove k ((a, b) # m) = (if k = a then m else (a, b) # bt_remove k m)"

definition bt_ok :: "('k::linorder \<times> 'v) list \<Rightarrow> bool" where
  "bt_ok m \<longleftrightarrow> sorted_wrt (<) (map fst m)"

lemma bt_ok_Nil [simp]: "bt_ok []"
  by (simp add: bt_ok_def)

lemma bt_ok_Cons [simp]: "bt_ok ((k, v) # m) \<longleftrightarrow> (\<forall>x \<in> fst ` set m. k < x) \<and> bt_ok m"
  by (auto simp: bt_ok_def)

lemma fst_set_bt_insert [simp]: "fst ` set (bt_insert k v m) = insert k (fst ` set m)"
  by (induction k v m rule: bt_insert.induct) auto

lemma map_of_bt_insert [simp]: "map_of (bt_insert k v m) = (map_of m)(k \<mapsto> v)"
  by (induction k v m rule: bt_insert.induct) (auto simp: fun_eq_iff)

lemma bt_ok_insert [simp]: "bt_ok m \<Longrightarrow> bt_ok (bt_insert k v m)"
  by (induction k v m rule: bt_insert.induct) fastforce+

lemma fst_set_bt_remove: "fst ` set (bt_remove k m) \<subseteq> fst ` set m"
  by (induction k m rule: bt_remove.induct) auto

lemma bt_ok_remove [simp]: "bt_ok m \<Longrightarrow> bt_ok (bt_remove k m)"
  by (induction k m rule: bt_remove.induct) (use fst_set_bt_remove in fastforce)+

lemma bt_ok_map_of_None: "bt_ok ((k, v) # m) \<Longrightarrow> map_of m k = None"
  by (auto simp: map_of_eq_None_iff)

lemma map_of_bt_remove [simp]: "bt_ok m \<Longrightarrow> map_of (bt_remove k m) = (map_of m)(k := None)"
  by (induction k m rule: bt_remove.induct) (auto simp: fun_eq_iff map_of_eq_None_iff)

lemma bt_ok_distinct: "bt_ok m \<Longrightarrow> distinct (map fst m)"
  by (simp add: bt_ok_def strict_sorted_iff)

lemma bt_ok_mem_iff: "bt_ok m \<Longrightarrow> (k, v) \<in> set m \<longleftrightarrow> map_of m k = Some v"
  by (simp add: bt_ok_distinct)

end
