(* ===== verification/Crdt.thy ===== *)
theory Crdt
  imports Prelude
begin

text \<open>
  The contract of a state-based replicated value: a merge that is associative, commutative
  and idempotent on a carrier it does not leave. What a replica needs from it is proved
  here once: the state after receiving any sequence of updates depends on which updates
  arrived, never on their order or on how often each was delivered. The advisory fields of
  a node, the confidence vectors and whole nodes are the instances.
\<close>

locale crdt_join =
  fixes merge :: "'a \<Rightarrow> 'a \<Rightarrow> 'a"
    and ok :: "'a \<Rightarrow> bool"
  assumes merge_ok: "ok a \<Longrightarrow> ok b \<Longrightarrow> ok (merge a b)"
    and merge_assoc: "ok a \<Longrightarrow> ok b \<Longrightarrow> ok c \<Longrightarrow> merge (merge a b) c = merge a (merge b c)"
    and merge_commute: "ok a \<Longrightarrow> ok b \<Longrightarrow> merge a b = merge b a"
    and merge_idem: "ok a \<Longrightarrow> merge a a = a"
begin

lemma merge_left_commute:
  assumes "ok a" "ok b" "ok c"
  shows "merge (merge a b) c = merge (merge a c) b"
  using assms by (metis merge_assoc merge_commute)

lemma merge_absorb:
  assumes "ok a" "ok b"
  shows "merge (merge a b) b = merge a b"
  using assms by (metis merge_assoc merge_idem)

text \<open>\<open>foldl merge a xs\<close>: a replica in state \<open>a\<close> receives the updates \<open>xs\<close> in order.\<close>

lemma fold_ok: "ok a \<Longrightarrow> (\<forall>x \<in> set xs. ok x) \<Longrightarrow> ok (foldl merge a xs)"
  by (induction xs arbitrary: a) (auto simp: merge_ok)

lemma fold_swap:
  "ok a \<Longrightarrow> ok b \<Longrightarrow> (\<forall>x \<in> set xs. ok x) \<Longrightarrow>
     foldl merge (merge a b) xs = merge (foldl merge a xs) b"
proof (induction xs arbitrary: a)
  case Nil
  then show ?case by simp
next
  case (Cons x xs)
  then have "foldl merge (merge (merge a x) b) xs = merge (foldl merge (merge a x) xs) b"
    by (simp add: merge_ok)
  moreover from Cons.prems have "merge (merge a b) x = merge (merge a x) b"
    by (simp add: merge_left_commute)
  ultimately show ?case by simp
qed

lemma fold_absorb:
  "ok a \<Longrightarrow> (\<forall>x \<in> set xs. ok x) \<Longrightarrow> b \<in> set xs \<Longrightarrow> merge (foldl merge a xs) b = foldl merge a xs"
proof (induction xs arbitrary: a)
  case Nil
  then show ?case by simp
next
  case (Cons x xs)
  show ?case
  proof (cases "b \<in> set xs")
    case True
    with Cons show ?thesis by (simp add: merge_ok)
  next
    case False
    with Cons.prems have x: "b = x" by simp
    with Cons.prems have "merge (foldl merge (merge a x) xs) x = foldl merge (merge (merge a x) x) xs"
      by (simp add: fold_swap merge_ok)
    with x Cons.prems show ?thesis by (simp add: merge_absorb)
  qed
qed

lemma fold_insert:
  assumes "ok a" "\<forall>x \<in> set xs. ok x" "b \<in> set xs"
  shows "foldl merge (merge a b) xs = foldl merge a xs"
  using assms by (simp add: fold_swap fold_absorb)

lemma fold_append_absorb:
  assumes "ok a" "\<forall>x \<in> set xs. ok x" "set ys \<subseteq> set xs"
  shows "foldl merge (foldl merge a xs) ys = foldl merge a xs"
  using assms(3)
proof (induction ys)
  case Nil
  then show ?case by simp
next
  case (Cons y ys)
  with assms show ?case by (simp add: fold_absorb)
qed

lemma fold_comm:
  assumes "ok a" "\<forall>x \<in> set xs. ok x" "\<forall>y \<in> set ys. ok y"
  shows "foldl merge (foldl merge a xs) ys = foldl merge (foldl merge a ys) xs"
  using assms(3)
proof (induction ys arbitrary: rule: rev_induct)
  case Nil
  then show ?case by simp
next
  case (snoc y ys)
  with assms show ?case by (simp add: fold_swap fold_ok)
qed

text \<open>Strong convergence: two replicas that start from the same state and have received the
  same set of updates are in the same state.\<close>

theorem converge:
  assumes "ok a" "\<forall>x \<in> set xs. ok x" "set xs = set ys"
  shows "foldl merge a xs = foldl merge a ys"
proof -
  have "foldl merge a xs = foldl merge (foldl merge a xs) ys"
    using assms by (simp add: fold_append_absorb)
  also have "\<dots> = foldl merge (foldl merge a ys) xs"
    using assms by (simp add: fold_comm)
  also have "\<dots> = foldl merge a ys"
    using assms by (simp add: fold_append_absorb)
  finally show ?thesis .
qed

end

end
