(* ===== verification/Belnap.thy ===== *)
theory Belnap
  imports Crdt
begin

text \<open>
  Belnap's four truth values and the confidence vectors built from them
  (\<^verbatim>\<open>crates/mem-core/src/belnap.rs\<close>): \<open>join\<close> is the federation's merge of evidence, so it
  must be a least upper bound of the knowledge order and satisfy the contract of
  \<^verbatim>\<open>crdt_join\<close>.
\<close>

datatype belnap_value = BTrue | BFalse | Both | Neither

fun join :: "belnap_value \<Rightarrow> belnap_value \<Rightarrow> belnap_value" where
  "join Neither x = x"
| "join x Neither = x"
| "join Both _ = Both"
| "join _ Both = Both"
| "join BTrue BTrue = BTrue"
| "join BFalse BFalse = BFalse"
| "join BTrue BFalse = Both"
| "join BFalse BTrue = Both"

fun meet :: "belnap_value \<Rightarrow> belnap_value \<Rightarrow> belnap_value" where
  "meet Both x = x"
| "meet x Both = x"
| "meet Neither _ = Neither"
| "meet _ Neither = Neither"
| "meet BTrue BTrue = BTrue"
| "meet BFalse BFalse = BFalse"
| "meet BTrue BFalse = Neither"
| "meet BFalse BTrue = Neither"

definition is_contradiction :: "belnap_value \<Rightarrow> bool" where
  "is_contradiction b \<longleftrightarrow> b = Both"

definition is_unknown :: "belnap_value \<Rightarrow> bool" where
  "is_unknown b \<longleftrightarrow> b = Neither"

text \<open>\<^verbatim>\<open>a.get(i).copied().unwrap_or_default()\<close>: the default of the enum is \<open>Neither\<close>.\<close>

definition get_or_neither :: "belnap_value list \<Rightarrow> nat \<Rightarrow> belnap_value" where
  "get_or_neither a i = (if i < length a then a ! i else Neither)"

definition join_confidence :: "belnap_value list \<Rightarrow> belnap_value list \<Rightarrow> belnap_value list" where
  "join_confidence a b =
     map (\<lambda>i. join (get_or_neither a i) (get_or_neither b i)) [0..<max (length a) (length b)]"

section \<open>The lattice\<close>

lemma join_commute: "join a b = join b a"
  by (cases a; cases b) auto

lemma join_assoc: "join (join a b) c = join a (join b c)"
  by (cases a; cases b; cases c) auto

lemma join_idem [simp]: "join a a = a"
  by (cases a) auto

lemma join_Neither [simp]: "join a Neither = a"
  by (cases a) auto

text \<open>The knowledge order of the module's documentation: no evidence at the bottom, a
  contradiction at the top, the two classical values incomparable.\<close>

definition knows_le :: "belnap_value \<Rightarrow> belnap_value \<Rightarrow> bool" where
  "knows_le a b \<longleftrightarrow> a = b \<or> a = Neither \<or> b = Both"

interpretation belnap_merge: crdt_join join "\<lambda>_. True"
  by unfold_locales (rule TrueI join_assoc join_commute join_idem)+

text \<open>\<open>join\<close> is the least upper bound and \<open>meet\<close> the greatest lower bound of the knowledge
  order, so combining evidence never loses any and never invents any.\<close>

theorem belnap_lattice:
  "(knows_le (join a b) c \<longleftrightarrow> knows_le a c \<and> knows_le b c) \<and>
   (knows_le c (meet a b) \<longleftrightarrow> knows_le c a \<and> knows_le c b)"
  by (cases a; cases b; cases c) (auto simp: knows_le_def)

section \<open>Confidence vectors\<close>

lemma length_join_confidence [simp]:
  "length (join_confidence a b) = max (length a) (length b)"
  by (simp add: join_confidence_def)

lemma get_join_confidence [simp]:
  "get_or_neither (join_confidence a b) i = join (get_or_neither a i) (get_or_neither b i)"
  by (auto simp: join_confidence_def get_or_neither_def)

lemma confidence_eqI:
  assumes "length a = length b" and "\<And>i. get_or_neither a i = get_or_neither b i"
  shows "a = b"
proof (rule nth_equalityI)
  fix i assume "i < length a"
  with assms(1) assms(2) [of i] show "a ! i = b ! i" by (simp add: get_or_neither_def)
qed (rule assms(1))

lemma join_confidence_commute: "join_confidence a b = join_confidence b a"
  by (rule confidence_eqI) (auto simp: join_commute)

lemma join_confidence_assoc:
  "join_confidence (join_confidence a b) c = join_confidence a (join_confidence b c)"
  by (rule confidence_eqI) (auto simp: join_assoc)

lemma join_confidence_idem [simp]: "join_confidence a a = a"
  by (rule confidence_eqI) auto

interpretation confidence_merge: crdt_join join_confidence "\<lambda>_. True"
  by unfold_locales
    (rule TrueI join_confidence_assoc join_confidence_commute join_confidence_idem)+

text \<open>A dimension of a merged vector is contradictory exactly when one side already was, or
  the two sides hold opposite evidence.\<close>

lemma join_contradiction_iff:
  "is_contradiction (join a b) \<longleftrightarrow>
     is_contradiction a \<or> is_contradiction b \<or> {a, b} = {BTrue, BFalse}"
  by (cases a; cases b) (auto simp: is_contradiction_def doubleton_eq_iff)

end
