(* ===== verification/Identity.thy ===== *)
theory Identity
  imports Prelude
begin

text \<open>
  Content-addressed identity (\<^verbatim>\<open>crates/mem-core/src/identity.rs\<close>). A \<^verbatim>\<open>ContentHash\<close> is a
  32-byte array, modelled as a 256-bit word whose bytes are its big-endian digits, so that
  the derived order of the array is the order of the word. BLAKE3 is not part of the
  repository: it is the parameter \<open>H\<close>, a function of the bytes fed to the hasher. An
  \<^verbatim>\<open>IdBuilder\<close> is therefore the bytes fed so far. The \<^verbatim>\<open>hex\<close> crate is a pair of parameters.
\<close>

type_synonym content_hash = "256 word"
type_synonym hash_fun = "bytes \<Rightarrow> content_hash"
type_synonym hex_encode_fun = "bytes \<Rightarrow> string"
type_synonym hex_decode_fun = "string \<Rightarrow> bytes option"

definition hash_bytes :: "content_hash \<Rightarrow> bytes" where
  "hash_bytes h = rev (nat_le 32 (unat h))"

text \<open>\<^verbatim>\<open>Vec<u8>::try_into\<close> a 32-byte array: \<open>None\<close> unless there are exactly 32 bytes.\<close>

definition try_into_32 :: "bytes \<Rightarrow> content_hash option" where
  "try_into_32 b = (if length b = 32 then Some (of_nat (nat_of_le (rev b))) else None)"

definition to_hex :: "hex_encode_fun \<Rightarrow> content_hash \<Rightarrow> string" where
  "to_hex enc h = enc (hash_bytes h)"

definition from_hex :: "hex_decode_fun \<Rightarrow> string \<Rightarrow> content_hash option" where
  "from_hex dec s = Option.bind (dec s) try_into_32"

section \<open>The identity builder\<close>

definition feed_raw :: "bytes \<Rightarrow> u8 \<Rightarrow> bytes \<Rightarrow> bytes" where
  "feed_raw hasher tag b = hasher @ [tag] @ nat_le 8 (length b) @ b"

definition new_builder :: "string \<Rightarrow> bytes" where
  "new_builder domain = feed_raw [] 0 (as_bytes domain)"

definition field :: "u8 \<Rightarrow> bytes \<Rightarrow> bytes \<Rightarrow> bytes" where
  "field tag b builder = feed_raw builder tag b"

definition field_str :: "u8 \<Rightarrow> string \<Rightarrow> bytes \<Rightarrow> bytes" where
  "field_str tag s builder = field tag (as_bytes s) builder"

definition field_u16 :: "u8 \<Rightarrow> u16 \<Rightarrow> bytes \<Rightarrow> bytes" where
  "field_u16 tag v builder = field tag (u16_le v) builder"

definition finish :: "hash_fun \<Rightarrow> bytes \<Rightarrow> content_hash" where
  "finish H builder = H builder"

section \<open>Lemmas\<close>

lemma length_hash_bytes [simp, codec_simps]: "length (hash_bytes h) = 32"
  by (simp add: hash_bytes_def)

lemma try_into_32_hash_bytes [simp, codec_simps]: "try_into_32 (hash_bytes h) = Some h"
proof -
  have "unat h < 256 ^ 32" using unat_bound [of h] by simp
  then show ?thesis by (simp add: try_into_32_def hash_bytes_def nat_of_le_nat_le)
qed

lemma hash_bytes_inject [simp]: "hash_bytes g = hash_bytes h \<longleftrightarrow> g = h"
  by (metis option.inject try_into_32_hash_bytes)

lemma try_into_32_Some: "try_into_32 b = Some h \<longleftrightarrow> b = hash_bytes h"
proof
  assume "try_into_32 b = Some h"
  then have len: "length b = 32" and h: "h = of_nat (nat_of_le (rev b))"
    by (auto simp: try_into_32_def split: if_splits)
  have "nat_of_le (rev b) < 2 ^ 256" using nat_of_le_bound [of "rev b"] len by simp
  then have "unat h = nat_of_le (rev b)" by (simp add: h unat_of_nat)
  with nat_le_nat_of_le [of "rev b"] len show "b = hash_bytes h"
    by (simp add: hash_bytes_def)
qed simp

lemma hash_bytes_append_inject [simp]:
  "hash_bytes g @ x = hash_bytes h @ y \<longleftrightarrow> g = h \<and> x = y"
  by (simp add: append_eq_append_conv)

lemma feed_raw_tlv: "feed_raw hasher tag b = hasher @ tlv tag b"
  by (simp add: feed_raw_def tlv_def)

lemmas builder_defs = new_builder_def field_str_def field_u16_def field_def feed_raw_tlv

text \<open>Printing a content hash as hex and parsing it back gives the hash, and parsing
  accepts nothing but 32-byte values: a parsed hash prints back to a string with the same
  bytes. The hypotheses are the round trip of the \<^verbatim>\<open>hex\<close> crate.\<close>

theorem content_hash_hex_roundtrip:
  assumes hex: "\<And>b. dec (enc b) = Some b"
  shows "from_hex dec (to_hex enc h) = Some h \<and>
    (from_hex dec s = Some h \<longleftrightarrow> dec s = Some (hash_bytes h))"
  by (auto simp: from_hex_def to_hex_def hex try_into_32_Some bind_eq_Some_conv)

text \<open>At the concrete codec that writes one character per byte.\<close>

theorem content_hash_hex_roundtrip_witness:
  "from_hex (\<lambda>s. Some (as_bytes s)) (to_hex of_bytes 5) = Some 5"
proof -
  have "\<And>b. Some (as_bytes (of_bytes b)) = Some b"
    by simp
  then show ?thesis
    using content_hash_hex_roundtrip [of "\<lambda>s. Some (as_bytes s)" of_bytes 5 "[]"] by simp
qed

end
