(* ===== verification/Node.thy ===== *)
theory Node
  imports Belnap Identity
begin

text \<open>
  The ontology (\<^verbatim>\<open>crates/mem-core/src/node.rs\<close> and \<^verbatim>\<open>edge.rs\<close>): nodes, edges, source
  references and the content-addressed node id. Floating point numbers are kept as their
  IEEE-754 bit patterns (\<^typ>\<open>u32\<close>); the derived \<^verbatim>\<open>PartialEq\<close> of a node compares floats as
  numbers, which \<open>f32_eq\<close> writes out.
\<close>

section \<open>Enumerations\<close>

type_synonym timestamp = u64

definition SCHEMA_VERSION :: u16 where
  "SCHEMA_VERSION = 1"

definition ID_DOMAIN :: string where
  "ID_DOMAIN = ''memory-node:v1''"

datatype plane = Derived | Asserted

fun plane_tag :: "plane \<Rightarrow> string" where
  "plane_tag Derived = ''derived''"
| "plane_tag Asserted = ''asserted''"

datatype trust_tier = DerivedDeterministic | HumanConfirmed | AgentAsserted | InferredAdvisory

datatype status = Active | Superseded | Archived

datatype sprint_phase = Kickoff | Daily | Close

datatype narrative_kind = Journal | Essay | CaseStudy

datatype claim_status = Confirmed | Corrected | Refined

datatype node_kind =
    Commit | Pr | Sprint sprint_phase | Adr | Audit | Finding | Handoff
  | Narrative narrative_kind | Claim claim_status | ManifestChange | PinBump | DriftEvent
  | Benchmark | AgentAction | Blocker | TechDebt | WorkPackage | Rationale
  | AnalogyHypothesis | Doc | Tenant | ChainNetwork | ChainContract | ChainEvent
  | ChainCheckpoint | Branch

text \<open>The \<^verbatim>\<open>Debug\<close> names of the payload enums, and \<^verbatim>\<open>to_lowercase\<close> on the ASCII letters they
  are made of.\<close>

fun phase_debug :: "sprint_phase \<Rightarrow> string" where
  "phase_debug Kickoff = ''Kickoff''"
| "phase_debug Daily = ''Daily''"
| "phase_debug Close = ''Close''"

fun narrative_debug :: "narrative_kind \<Rightarrow> string" where
  "narrative_debug Journal = ''Journal''"
| "narrative_debug Essay = ''Essay''"
| "narrative_debug CaseStudy = ''CaseStudy''"

fun claim_debug :: "claim_status \<Rightarrow> string" where
  "claim_debug Confirmed = ''Confirmed''"
| "claim_debug Corrected = ''Corrected''"
| "claim_debug Refined = ''Refined''"

definition to_lowercase :: "string \<Rightarrow> string" where
  "to_lowercase s =
     map (\<lambda>c. if CHR ''A'' \<le> c \<and> c \<le> CHR ''Z'' then char_of (of_char c + 32 :: nat) else c) s"

fun discriminant :: "node_kind \<Rightarrow> string" where
  "discriminant Commit = ''commit''"
| "discriminant Pr = ''pr''"
| "discriminant (Sprint p) = to_lowercase (''sprint:'' @ phase_debug p)"
| "discriminant Adr = ''adr''"
| "discriminant Audit = ''audit''"
| "discriminant Finding = ''finding''"
| "discriminant Handoff = ''handoff''"
| "discriminant (Narrative k) = to_lowercase (''narrative:'' @ narrative_debug k)"
| "discriminant (Claim s) = to_lowercase (''claim:'' @ claim_debug s)"
| "discriminant ManifestChange = ''manifest_change''"
| "discriminant PinBump = ''pin_bump''"
| "discriminant DriftEvent = ''drift_event''"
| "discriminant Benchmark = ''benchmark''"
| "discriminant AgentAction = ''agent_action''"
| "discriminant Blocker = ''blocker''"
| "discriminant TechDebt = ''tech_debt''"
| "discriminant WorkPackage = ''work_package''"
| "discriminant Rationale = ''rationale''"
| "discriminant AnalogyHypothesis = ''analogy_hypothesis''"
| "discriminant Doc = ''doc''"
| "discriminant Tenant = ''tenant''"
| "discriminant ChainNetwork = ''chain_network''"
| "discriminant ChainContract = ''chain_contract''"
| "discriminant ChainEvent = ''chain_event''"
| "discriminant ChainCheckpoint = ''chain_checkpoint''"
| "discriminant Branch = ''branch''"

section \<open>Source references\<close>

datatype source_ref =
    Artifact (sr_repo: string) (sr_path: string) (sr_git_sha: string)
      (sr_byte_start: u64) (sr_byte_end: u64)
  | GitCommit (gc_repo: string) (gc_sha: string)
  | DagNative (dn_key: string)

text \<open>\<^verbatim>\<open>str::replace\<close> of one character by a string.\<close>

definition replace_char :: "char \<Rightarrow> string \<Rightarrow> string \<Rightarrow> string" where
  "replace_char c r s = concat (map (\<lambda>x. if x = c then r else [x]) s)"

abbreviation bslash :: char where "bslash \<equiv> CHR 0x5C"
abbreviation bar :: char where "bar \<equiv> CHR ''|''"

definition esc :: "string \<Rightarrow> string" where
  "esc s = replace_char bar [bslash, bar] (replace_char bslash [bslash, bslash] s)"

text \<open>Decimal digits, as \<^verbatim>\<open>format!\<close> prints an unsigned integer.\<close>

fun decimal :: "nat \<Rightarrow> string" where
  "decimal n = (if n < 10 then [char_of (48 + n)] else decimal (n div 10) @ [char_of (48 + n mod 10)])"

declare decimal.simps [simp del]

fun canonical_bytes :: "source_ref \<Rightarrow> bytes" where
  "canonical_bytes (Artifact repo path git_sha byte_start byte_end) =
     as_bytes (''artifact|'' @ esc repo @ ''|'' @ esc path @ ''|'' @ esc git_sha @ ''|'' @
       decimal (unat byte_start) @ ''|'' @ decimal (unat byte_end))"
| "canonical_bytes (GitCommit repo sha) =
     as_bytes (''git_commit|'' @ esc repo @ ''|'' @ esc sha)"
| "canonical_bytes (DagNative key) = as_bytes (''dag_native|'' @ esc key)"

section \<open>Nodes\<close>

record code_anchor =
  ca_repo :: string
  ca_path :: string
  ca_symbol :: "string option"
  ca_line_start :: u32
  ca_line_end :: u32

record versioned_vector =
  vv_model :: string
  vv_data :: "u32 list"

record memory_node =
  n_schema_version :: u16
  n_plane :: plane
  n_kind :: node_kind
  n_repo :: string
  n_author :: string
  n_source_ref :: source_ref
  n_content :: bytes
  n_valid_from :: timestamp
  n_valid_to :: "timestamp option"
  n_observed_at :: timestamp
  n_trust_tier :: trust_tier
  n_signature :: "bytes option"
  n_embedding :: "versioned_vector option"
  n_confidence :: "belnap_value list"
  n_anchors :: "code_anchor list"
  n_status :: status

definition id_preimage :: "memory_node \<Rightarrow> bytes" where
  "id_preimage n =
     field 7 (n_content n)
      (field 6 (canonical_bytes (n_source_ref n))
       (field_str 5 (n_author n)
        (field_str 4 (n_repo n)
         (field_str 3 (discriminant (n_kind n))
          (field_str 2 (plane_tag (n_plane n))
           (field_u16 1 (n_schema_version n) (new_builder ID_DOMAIN)))))))"

definition compute_id :: "hash_fun \<Rightarrow> memory_node \<Rightarrow> content_hash" where
  "compute_id H n = finish H (id_preimage n)"

section \<open>Edges\<close>

datatype edge_kind =
    TemporalNext | MergeParent | Supersedes | DependsOn | CausedBy | Motivates | Implements
  | Decides | Refutes | Contradicts | DerivedFrom | AnalogousTo | References | AnchoredTo
  | Emits | Touches | BranchContains

fun edge_kind_tag :: "edge_kind \<Rightarrow> u8" where
  "edge_kind_tag TemporalNext = 1"
| "edge_kind_tag MergeParent = 2"
| "edge_kind_tag Supersedes = 3"
| "edge_kind_tag DependsOn = 4"
| "edge_kind_tag CausedBy = 5"
| "edge_kind_tag Motivates = 6"
| "edge_kind_tag Implements = 7"
| "edge_kind_tag Decides = 8"
| "edge_kind_tag Refutes = 9"
| "edge_kind_tag Contradicts = 10"
| "edge_kind_tag DerivedFrom = 11"
| "edge_kind_tag AnalogousTo = 12"
| "edge_kind_tag References = 13"
| "edge_kind_tag AnchoredTo = 14"
| "edge_kind_tag Emits = 15"
| "edge_kind_tag Touches = 16"
| "edge_kind_tag BranchContains = 17"

datatype edge_method = Trailer | Ingest | Nlp | Analogy | Manual

record edge_provenance =
  p_method :: edge_method
  p_asserter :: string
  p_at :: timestamp
  p_evidence :: "string option"

record edge =
  e_from :: content_hash
  e_to :: content_hash
  e_kind :: edge_kind
  e_plane :: plane
  e_trust_tier :: trust_tier
  e_provenance :: edge_provenance
  e_confidence :: "belnap_value list"
  e_quarantined :: bool
  e_signature :: "bytes option"

definition edge_key :: "edge \<Rightarrow> bytes" where
  "edge_key e = hash_bytes (e_from e) @ hash_bytes (e_to e) @ [edge_kind_tag (e_kind e)]"

section \<open>Derived equality\<close>

text \<open>\<^verbatim>\<open>PartialEq\<close> on \<^verbatim>\<open>f32\<close>: a NaN equals nothing, the two zeros equal each other, every other
  value equals itself only. A NaN has an all-ones exponent and a non-zero fraction.\<close>

definition f32_magnitude :: "u32 \<Rightarrow> nat" where
  "f32_magnitude b = unat b mod 2 ^ 31"

definition f32_is_nan :: "u32 \<Rightarrow> bool" where
  "f32_is_nan b \<longleftrightarrow> 255 * 2 ^ 23 < f32_magnitude b"

definition f32_eq :: "u32 \<Rightarrow> u32 \<Rightarrow> bool" where
  "f32_eq a b \<longleftrightarrow> \<not> f32_is_nan a \<and> \<not> f32_is_nan b \<and>
     (a = b \<or> f32_magnitude a = 0 \<and> f32_magnitude b = 0)"

definition vector_eq :: "versioned_vector \<Rightarrow> versioned_vector \<Rightarrow> bool" where
  "vector_eq v w \<longleftrightarrow> vv_model v = vv_model w \<and> list_all2 f32_eq (vv_data v) (vv_data w)"

definition node_eq :: "memory_node \<Rightarrow> memory_node \<Rightarrow> bool" where
  "node_eq m n \<longleftrightarrow> m\<lparr>n_embedding := None\<rparr> = n\<lparr>n_embedding := None\<rparr> \<and>
     rel_option vector_eq (n_embedding m) (n_embedding n)"

section \<open>Injectivity of the encodings\<close>

definition all_kinds :: "node_kind list" where
  "all_kinds = [Commit, Pr, Sprint Kickoff, Sprint Daily, Sprint Close, Adr, Audit, Finding,
     Handoff, Narrative Journal, Narrative Essay, Narrative CaseStudy, Claim Confirmed,
     Claim Corrected, Claim Refined, ManifestChange, PinBump, DriftEvent, Benchmark,
     AgentAction, Blocker, TechDebt, WorkPackage, Rationale, AnalogyHypothesis, Doc, Tenant,
     ChainNetwork, ChainContract, ChainEvent, ChainCheckpoint, Branch]"

lemma mem_all_kinds: "k \<in> set all_kinds"
proof (cases k)
  case (Sprint p)
  then show ?thesis by (cases p) (simp_all add: all_kinds_def)
next
  case (Narrative p)
  then show ?thesis by (cases p) (simp_all add: all_kinds_def)
next
  case (Claim p)
  then show ?thesis by (cases p) (simp_all add: all_kinds_def)
qed (simp_all add: all_kinds_def)

lemma distinct_discriminants: "distinct (map discriminant all_kinds)"
  by code_simp

lemma discriminant_inject [simp]: "discriminant k = discriminant l \<longleftrightarrow> k = l"
  using distinct_discriminants mem_all_kinds by (auto simp: distinct_map dest: inj_onD)

lemma plane_tag_inject [simp]: "plane_tag p = plane_tag q \<longleftrightarrow> p = q"
  by (cases p; cases q) auto

lemma edge_kind_tag_inject [simp]: "edge_kind_tag k = edge_kind_tag l \<longleftrightarrow> k = l"
  by (cases k; cases l) simp_all

lemma length_edge_key [simp, codec_simps]: "length (edge_key e) = 65"
  by (simp add: edge_key_def)

lemma edge_key_inject:
  "edge_key d = edge_key e \<longleftrightarrow> e_from d = e_from e \<and> e_to d = e_to e \<and> e_kind d = e_kind e"
  by (auto simp: edge_key_def)

subsection \<open>Escaping\<close>

text \<open>The two passes of \<open>esc\<close> act on each character alone.\<close>

fun esc_char :: "char \<Rightarrow> string" where
  "esc_char c = (if c = bslash then [bslash, bslash] else if c = bar then [bslash, bar] else [c])"

lemma replace_char_append [simp]: "replace_char c r (s @ t) = replace_char c r s @ replace_char c r t"
  by (simp add: replace_char_def)

lemma replace_char_simps [simp]:
  "replace_char c r [] = []"
  "replace_char c r (x # s) = (if x = c then r else [x]) @ replace_char c r s"
  by (simp_all add: replace_char_def)

lemma esc_Nil [simp]: "esc [] = []"
  by (simp add: esc_def)

lemma esc_Cons [simp]: "esc (c # s) = esc_char c @ esc s"
  by (auto simp: esc_def)

text \<open>Reading an escaped field back: up to the first bar that no backslash protects.\<close>

fun unesc :: "string \<Rightarrow> string \<times> string option" where
  "unesc [] = ([], None)"
| "unesc (c # s) =
     (if c = bar then ([], Some s)
      else if c = bslash then
        (case s of [] \<Rightarrow> ([], None) | d # s' \<Rightarrow> (case unesc s' of (f, r) \<Rightarrow> (d # f, r)))
      else (case unesc s of (f, r) \<Rightarrow> (c # f, r)))"

lemma unesc_esc [simp]: "unesc (esc s) = (s, None)"
  by (induction s) auto

lemma unesc_esc_bar [simp]: "unesc (esc s @ bar # t) = (s, Some t)"
  by (induction s) auto

lemma esc_inject [simp]: "esc s = esc t \<longleftrightarrow> s = t"
  by (metis prod.inject unesc_esc)

lemma esc_bar_inject: "esc s @ bar # u = esc t @ bar # v \<longleftrightarrow> s = t \<and> u = v"
  by (metis option.inject prod.inject unesc_esc_bar)

subsection \<open>Decimal numbers\<close>

fun digits_value :: "string \<Rightarrow> nat" where
  "digits_value s = foldl (\<lambda>a c. 10 * a + (of_char c - 48)) 0 s"

lemma decimal_value [simp]: "digits_value (decimal n) = n"
proof (induction n rule: decimal.induct)
  case (1 n)
  show ?case
  proof (cases "n < 10")
    case True
    then show ?thesis by (simp add: decimal.simps [of n])
  next
    case False
    with 1 have "digits_value (decimal (n div 10)) = n div 10" by simp
    with False show ?thesis by (simp add: decimal.simps [of n])
  qed
qed

lemma decimal_inject [simp]: "decimal m = decimal n \<longleftrightarrow> m = n"
  by (metis decimal_value)

lemma decimal_no_bar: "bar \<notin> set (decimal n)"
proof (induction n rule: decimal.induct)
  case (1 n)
  have digit: "char_of (48 + k) \<noteq> bar" if "k < 10" for k :: nat
  proof
    assume "char_of (48 + k) = bar"
    then have "(of_char (char_of (48 + k) :: char) :: nat) = of_char bar" by simp
    with that show False by simp
  qed
  show ?case
  proof (cases "n < 10")
    case True
    with digit [of n] show ?thesis by (auto simp: decimal.simps [of n])
  next
    case False
    with 1 digit [of "n mod 10"] show ?thesis by (auto simp: decimal.simps [of n])
  qed
qed

lemma bar_split_inject:
  assumes "bar \<notin> set s" "bar \<notin> set t"
  shows "s @ bar # u = t @ bar # v \<longleftrightarrow> s = t \<and> u = v"
  using assms
proof (induction s arbitrary: t)
  case Nil
  then show ?case by (cases t) auto
next
  case (Cons c s)
  then show ?case by (cases t) auto
qed

lemma canonical_bytes_inject [simp]: "canonical_bytes r = canonical_bytes s \<longleftrightarrow> r = s"
proof
  assume eq: "canonical_bytes r = canonical_bytes s"
  show "r = s"
  proof (cases r; cases s)
    fix a b c i j a' b' c' i' j'
    assume r: "r = Artifact a b c i j" and s: "s = Artifact a' b' c' i' j'"
    from eq have "a = a' \<and> b = b' \<and> c = c' \<and> unat i = unat i' \<and> unat j = unat j'"
      by (simp add: r s esc_bar_inject bar_split_inject decimal_no_bar)
    then show ?thesis by (simp add: r s word_unat_eq_iff)
  qed (use eq in \<open>simp_all add: esc_bar_inject\<close>)
qed simp

section \<open>What a node id depends on\<close>

text \<open>The identity set of the documentation of \<^verbatim>\<open>compute_id\<close>.\<close>

definition identity_of ::
    "memory_node \<Rightarrow> u16 \<times> plane \<times> node_kind \<times> string \<times> string \<times> source_ref \<times> bytes" where
  "identity_of n = (n_schema_version n, n_plane n, n_kind n, n_repo n, n_author n,
     n_source_ref n, n_content n)"

definition node_fits :: "memory_node \<Rightarrow> bool" where
  "node_fits n \<longleftrightarrow> fits (as_bytes (n_repo n)) \<and> fits (as_bytes (n_author n)) \<and>
     fits (canonical_bytes (n_source_ref n)) \<and> fits (n_content n)"

lemma discriminant_fits [simp]: "fits (as_bytes (discriminant k))"
proof -
  have "list_all (\<lambda>k. length (discriminant k) < 100) all_kinds" by code_simp
  with mem_all_kinds [of k] have "length (discriminant k) < 100" by (simp add: list_all_iff)
  then show ?thesis by (simp add: fits_def)
qed

lemma plane_tag_fits [simp]: "fits (as_bytes (plane_tag p))"
  by (cases p) (simp_all add: fits_def)

lemma id_preimage_tlvs:
  "id_preimage n = tlvs [(0, as_bytes ID_DOMAIN), (1, u16_le (n_schema_version n)),
     (2, as_bytes (plane_tag (n_plane n))), (3, as_bytes (discriminant (n_kind n))),
     (4, as_bytes (n_repo n)), (5, as_bytes (n_author n)),
     (6, canonical_bytes (n_source_ref n)), (7, n_content n)]"
  by (simp add: id_preimage_def builder_defs)

text \<open>C7. The bytes hashed into a node id determine, and are determined by, the node's schema
  version, plane, kind, repository, author, source reference and content: two nodes that
  differ in any of them, whatever their strings contain (a bar, a backslash, a length that
  shifts a field boundary), are hashed from different bytes, and no other field of the node
  reaches the hash.\<close>

theorem id_preimage_injective:
  assumes "node_fits m" "node_fits n"
  shows "id_preimage m = id_preimage n \<longleftrightarrow> identity_of m = identity_of n"
proof
  assume eq: "id_preimage m = id_preimage n"
  have dom: "fits (as_bytes ID_DOMAIN)" by (simp add: fits_def ID_DOMAIN_def)
  from tlvs_inject [OF _ _ eq [unfolded id_preimage_tlvs]] assms dom
  show "identity_of m = identity_of n"
    by (simp add: node_fits_def identity_of_def)
next
  assume "identity_of m = identity_of n"
  then show "id_preimage m = id_preimage n"
    by (simp add: identity_of_def id_preimage_def)
qed

text \<open>A small node of the repository's own test suite, used by the witnesses.\<close>

definition sample_node :: memory_node where
  "sample_node = \<lparr>n_schema_version = SCHEMA_VERSION, n_plane = Asserted, n_kind = Claim Confirmed,
     n_repo = ''citrate-chain'', n_author = ''aa'', n_source_ref = DagNative ''assert:1'',
     n_content = [104, 105], n_valid_from = 1000, n_valid_to = None, n_observed_at = 2000,
     n_trust_tier = AgentAsserted, n_signature = None, n_embedding = None,
     n_confidence = [BTrue], n_anchors = [], n_status = Active\<rparr>"

lemma sample_node_fits: "node_fits sample_node"
  by (simp add: node_fits_def sample_node_def fits_def)

text \<open>C7, at two nodes whose paths and commit ids move a bar across the field boundary.\<close>

theorem id_preimage_injective_witness:
  "id_preimage (sample_node\<lparr>n_source_ref := GitCommit ''a|b'' ''c''\<rparr>) \<noteq>
   id_preimage (sample_node\<lparr>n_source_ref := GitCommit ''a'' ''b|c''\<rparr>)"
proof -
  have "node_fits (sample_node\<lparr>n_source_ref := GitCommit ''a|b'' ''c''\<rparr>)"
    "node_fits (sample_node\<lparr>n_source_ref := GitCommit ''a'' ''b|c''\<rparr>)"
    by (simp_all add: node_fits_def sample_node_def fits_def)
  from id_preimage_injective [OF this] show ?thesis by (simp add: identity_of_def)
qed

lemma compute_id_cong: "identity_of m = identity_of n \<Longrightarrow> compute_id H m = compute_id H n"
  by (simp add: compute_id_def identity_of_def id_preimage_def)

lemma compute_id_updates [simp]:
  "compute_id H (n\<lparr>n_valid_from := a\<rparr>) = compute_id H n"
  "compute_id H (n\<lparr>n_valid_to := b\<rparr>) = compute_id H n"
  "compute_id H (n\<lparr>n_observed_at := c\<rparr>) = compute_id H n"
  "compute_id H (n\<lparr>n_trust_tier := d\<rparr>) = compute_id H n"
  "compute_id H (n\<lparr>n_signature := e\<rparr>) = compute_id H n"
  "compute_id H (n\<lparr>n_embedding := f\<rparr>) = compute_id H n"
  "compute_id H (n\<lparr>n_confidence := g\<rparr>) = compute_id H n"
  "compute_id H (n\<lparr>n_anchors := h\<rparr>) = compute_id H n"
  "compute_id H (n\<lparr>n_status := i\<rparr>) = compute_id H n"
  by (rule compute_id_cong, simp add: identity_of_def)+

end
