(* ===== verification/Kv.thy ===== *)
theory Kv
  imports Prelude
begin

text \<open>
  The key-value backend (\<^verbatim>\<open>crates/mem-store/src/kv.rs\<close>): the operations of the \<^verbatim>\<open>KvStore\<close>
  trait on \<^verbatim>\<open>InMemoryKv\<close>, a two-level \<^verbatim>\<open>BTreeMap\<close> behind a lock. A poisoned lock makes every
  operation return its error and change nothing. The locale \<^verbatim>\<open>kv_contract\<close> states what the
  trait promises to its client, the DAG store; \<^verbatim>\<open>InMemoryKv\<close> is its instance. The RocksDB
  backend implements the same trait over a library outside the repository.
\<close>

type_synonym cf_rows = "(bytes \<times> bytes) list"

record in_memory_kv =
  kv_data :: "(string \<times> cf_rows) list"
  kv_poisoned :: bool

datatype kv_op = Put string bytes bytes | Delete string bytes

definition kv_new :: in_memory_kv where
  "kv_new = \<lparr>kv_data = [], kv_poisoned = False\<rparr>"

text \<open>The lock guard: \<open>Err\<close> when poisoned.\<close>

definition kv_read :: "in_memory_kv \<Rightarrow> (string, (string \<times> cf_rows) list) result" where
  "kv_read s = (if kv_poisoned s then Inl ''kv lock poisoned'' else Inr (kv_data s))"

definition kv_get :: "string \<Rightarrow> bytes \<Rightarrow> in_memory_kv \<Rightarrow> (string, bytes option) result" where
  "kv_get cf key s = rbind (kv_read s) (\<lambda>data. Inr (Option.bind (map_of data cf) (\<lambda>m. map_of m key)))"

text \<open>\<^verbatim>\<open>data.entry(cf).or_default().insert(key, value)\<close>, and the removal.\<close>

definition entry_insert ::
    "string \<Rightarrow> bytes \<Rightarrow> bytes \<Rightarrow> (string \<times> cf_rows) list \<Rightarrow> (string \<times> cf_rows) list" where
  "entry_insert cf key v data =
     bt_insert cf (bt_insert key v (case map_of data cf of None \<Rightarrow> [] | Some m \<Rightarrow> m)) data"

definition entry_remove ::
    "string \<Rightarrow> bytes \<Rightarrow> (string \<times> cf_rows) list \<Rightarrow> (string \<times> cf_rows) list" where
  "entry_remove cf key data =
     (case map_of data cf of None \<Rightarrow> data | Some m \<Rightarrow> bt_insert cf (bt_remove key m) data)"

definition kv_put :: "string \<Rightarrow> bytes \<Rightarrow> bytes \<Rightarrow> (in_memory_kv, string, unit) action" where
  "kv_put cf key v = sbind (sread kv_read)
     (\<lambda>data s. (Inr (), s\<lparr>kv_data := entry_insert cf key v data\<rparr>))"

definition kv_delete :: "string \<Rightarrow> bytes \<Rightarrow> (in_memory_kv, string, unit) action" where
  "kv_delete cf key = sbind (sread kv_read)
     (\<lambda>data s. (Inr (), s\<lparr>kv_data := entry_remove cf key data\<rparr>))"

definition kv_exists :: "string \<Rightarrow> bytes \<Rightarrow> in_memory_kv \<Rightarrow> (string, bool) result" where
  "kv_exists cf key s = rbind (kv_read s)
     (\<lambda>data. Inr (case map_of data cf of None \<Rightarrow> False | Some m \<Rightarrow> map_of m key \<noteq> None))"

definition kv_iter_cf :: "string \<Rightarrow> in_memory_kv \<Rightarrow> (string, cf_rows) result" where
  "kv_iter_cf cf s = rbind (kv_read s)
     (\<lambda>data. Inr (case map_of data cf of None \<Rightarrow> [] | Some m \<Rightarrow> m))"

fun apply_op :: "kv_op \<Rightarrow> (string \<times> cf_rows) list \<Rightarrow> (string \<times> cf_rows) list" where
  "apply_op (Put cf key v) data = entry_insert cf key v data"
| "apply_op (Delete cf key) data = entry_remove cf key data"

definition kv_write_batch :: "kv_op list \<Rightarrow> (in_memory_kv, string, unit) action" where
  "kv_write_batch ops = sbind (sread kv_read)
     (\<lambda>data s. (Inr (), s\<lparr>kv_data := fold apply_op ops data\<rparr>))"

text \<open>The trait's default batch: the operations one after the other, stopping at the first
  error.\<close>

fun kv_write_default :: "kv_op list \<Rightarrow> (in_memory_kv, string, unit) action" where
  "kv_write_default [] = sok ()"
| "kv_write_default (Put cf key v # ops) = sbind (kv_put cf key v) (\<lambda>_. kv_write_default ops)"
| "kv_write_default (Delete cf key # ops) = sbind (kv_delete cf key) (\<lambda>_. kv_write_default ops)"

definition kv_checkpoint :: "string \<Rightarrow> in_memory_kv \<Rightarrow> (string, unit) result" where
  "kv_checkpoint dest s = Inl ''checkpoint not supported by this backend''"

section \<open>The contract of the trait\<close>

text \<open>The abstract content of a backend: one partial map per column family.\<close>

type_synonym kv_view = "string \<Rightarrow> bytes \<rightharpoonup> bytes"

fun view_op :: "kv_op \<Rightarrow> kv_view \<Rightarrow> kv_view" where
  "view_op (Put cf key v) w = w(cf := (w cf)(key \<mapsto> v))"
| "view_op (Delete cf key) w = w(cf := (w cf)(key := None))"

locale kv_contract =
  fixes get :: "string \<Rightarrow> bytes \<Rightarrow> 's \<Rightarrow> (string, bytes option) result"
    and put :: "string \<Rightarrow> bytes \<Rightarrow> bytes \<Rightarrow> ('s, string, unit) action"
    and delete :: "string \<Rightarrow> bytes \<Rightarrow> ('s, string, unit) action"
    and contains :: "string \<Rightarrow> bytes \<Rightarrow> 's \<Rightarrow> (string, bool) result"
    and iter :: "string \<Rightarrow> 's \<Rightarrow> (string, cf_rows) result"
    and batch :: "kv_op list \<Rightarrow> ('s, string, unit) action"
    and live :: "'s \<Rightarrow> bool"
    and view :: "'s \<Rightarrow> kv_view"
  assumes get_live: "live s \<Longrightarrow> get cf k s = Inr (view s cf k)"
    and contains_live: "live s \<Longrightarrow> contains cf k s = Inr (view s cf k \<noteq> None)"
    and iter_live: "live s \<Longrightarrow> \<exists>rows. iter cf s = Inr rows \<and> bt_ok rows \<and> map_of rows = view s cf"
    and put_live: "live s \<Longrightarrow>
      \<exists>s'. put cf k v s = (Inr (), s') \<and> live s' \<and> view s' = view_op (Put cf k v) (view s)"
    and delete_live: "live s \<Longrightarrow>
      \<exists>s'. delete cf k s = (Inr (), s') \<and> live s' \<and> view s' = view_op (Delete cf k) (view s)"
    and batch_live: "live s \<Longrightarrow>
      \<exists>s'. batch ops s = (Inr (), s') \<and> live s' \<and> view s' = fold view_op ops (view s)"
begin

lemma putE:
  assumes "live s"
  obtains s' where "put cf k v s = (Inr (), s')" "live s'" "view s' = view_op (Put cf k v) (view s)"
  using put_live [OF assms] by blast

lemma batchE:
  assumes "live s"
  obtains s' where "batch ops s = (Inr (), s')" "live s'" "view s' = fold view_op ops (view s)"
  using batch_live [OF assms] by blast

lemma iterE:
  assumes "live s"
  obtains rows where "iter cf s = Inr rows" "bt_ok rows" "map_of rows = view s cf"
  using iter_live [OF assms] by blast

lemma iter_mem:
  assumes "live s" "iter cf s = Inr rows"
  shows "(k, v) \<in> set rows \<longleftrightarrow> view s cf k = Some v"
  using assms by (metis bt_ok_mem_iff iter_live sum.inject(2))

lemma put_then_get:
  assumes "live s" "put cf k v s = (r, s')"
  shows "get cf' k' s' = Inr (if cf' = cf \<and> k' = k then Some v else view s cf' k')"
proof -
  from assms have "live s'" "view s' = view_op (Put cf k v) (view s)"
    using put_live [of s cf k v] by auto
  then show ?thesis by (simp add: get_live)
qed

lemma batch_append:
  assumes "live s" "batch ops s = (r, t)" "batch ops' t = (r', t')" "batch (ops @ ops') s = (q, u)"
  shows "view u = view t'"
proof -
  from assms(1,2) have t: "live t" "view t = fold view_op ops (view s)"
    using batch_live [of s ops] by auto
  with assms(3) have "view t' = fold view_op ops' (view t)"
    using batch_live [of t ops'] by auto
  with t assms(1,4) show ?thesis
    using batch_live [of s "ops @ ops'"] by auto
qed

end

section \<open>The in-memory backend satisfies it\<close>

definition kv_live :: "in_memory_kv \<Rightarrow> bool" where
  "kv_live s \<longleftrightarrow> \<not> kv_poisoned s \<and> bt_ok (kv_data s) \<and>
     list_all (\<lambda>(cf, m). bt_ok m) (kv_data s)"

definition kv_view :: "in_memory_kv \<Rightarrow> kv_view" where
  "kv_view s cf = (case map_of (kv_data s) cf of None \<Rightarrow> Map.empty | Some m \<Rightarrow> map_of m)"

lemma list_all_bt_insert:
  assumes "list_all (\<lambda>(cf, m). P m) data" "P x"
  shows "list_all (\<lambda>(cf, m). P m) (bt_insert cf x data)"
  using assms by (induction cf x data rule: bt_insert.induct) auto

lemma cf_rows_ok:
  assumes "list_all (\<lambda>(cf, m). bt_ok m) data" "map_of data cf = Some m"
  shows "bt_ok m"
  using map_of_SomeD [OF assms(2)] assms(1) by (auto simp: list_all_iff)

lemma entry_insert_ok:
  assumes "bt_ok data" "list_all (\<lambda>(cf, m). bt_ok m) data"
  shows "bt_ok (entry_insert cf k v data)"
    and "list_all (\<lambda>(cf, m). bt_ok m) (entry_insert cf k v data)"
  using assms by (auto simp: entry_insert_def intro!: list_all_bt_insert bt_ok_insert
      dest: cf_rows_ok split: option.split)

lemma entry_remove_ok:
  assumes "bt_ok data" "list_all (\<lambda>(cf, m). bt_ok m) data"
  shows "bt_ok (entry_remove cf k data)"
    and "list_all (\<lambda>(cf, m). bt_ok m) (entry_remove cf k data)"
  using assms by (auto simp: entry_remove_def intro!: list_all_bt_insert bt_ok_insert bt_ok_remove
      dest: cf_rows_ok split: option.split)

lemma view_entry_insert:
  "kv_view (s\<lparr>kv_data := entry_insert cf k v (kv_data s)\<rparr>) = view_op (Put cf k v) (kv_view s)"
  by (auto simp: kv_view_def entry_insert_def fun_eq_iff split: option.splits)

lemma view_entry_remove:
  assumes "list_all (\<lambda>(cf, m). bt_ok m) (kv_data s)"
  shows "kv_view (s\<lparr>kv_data := entry_remove cf k (kv_data s)\<rparr>) = view_op (Delete cf k) (kv_view s)"
  using assms
  by (auto simp: kv_view_def entry_remove_def fun_eq_iff cf_rows_ok split: option.splits)

lemma apply_op_live:
  assumes "kv_live s"
  shows "kv_live (s\<lparr>kv_data := apply_op p (kv_data s)\<rparr>)"
    and "kv_view (s\<lparr>kv_data := apply_op p (kv_data s)\<rparr>) = view_op p (kv_view s)"
  using assms
  by (cases p; auto simp: kv_live_def entry_insert_ok entry_remove_ok view_entry_insert
      view_entry_remove simp del: view_op.simps)+

lemma fold_apply_op_live:
  assumes "kv_live s"
  shows "kv_live (s\<lparr>kv_data := fold apply_op ops (kv_data s)\<rparr>) \<and>
    kv_view (s\<lparr>kv_data := fold apply_op ops (kv_data s)\<rparr>) = fold view_op ops (kv_view s)"
  using assms
proof (induction ops arbitrary: s)
  case Nil
  then show ?case by simp
next
  case (Cons p ops)
  from Cons.IH [OF apply_op_live(1) [OF Cons.prems, of p]] apply_op_live(2) [OF Cons.prems, of p]
  show ?case by simp
qed

lemma kv_read_live [simp]: "kv_live s \<Longrightarrow> kv_read s = Inr (kv_data s)"
  by (simp add: kv_read_def kv_live_def)

interpretation mem_kv: kv_contract kv_get kv_put kv_delete kv_exists kv_iter_cf kv_write_batch
  kv_live kv_view
proof unfold_locales
  fix s cf k v ops
  assume live: "kv_live s"
  show "kv_get cf k s = Inr (kv_view s cf k)"
    using live by (auto simp: kv_get_def kv_view_def split: option.split)
  show "kv_exists cf k s = Inr (kv_view s cf k \<noteq> None)"
    using live by (auto simp: kv_exists_def kv_view_def split: option.split)
  show "\<exists>rows. kv_iter_cf cf s = Inr rows \<and> bt_ok rows \<and> map_of rows = kv_view s cf"
    using live cf_rows_ok [of "kv_data s" cf]
    by (auto simp: kv_iter_cf_def kv_view_def kv_live_def kv_read_def split: option.split)
  show "\<exists>s'. kv_put cf k v s = (Inr (), s') \<and> kv_live s' \<and>
      kv_view s' = view_op (Put cf k v) (kv_view s)"
    using live apply_op_live [OF live, of "Put cf k v"] by (simp add: kv_put_def sbind_def)
  show "\<exists>s'. kv_delete cf k s = (Inr (), s') \<and> kv_live s' \<and>
      kv_view s' = view_op (Delete cf k) (kv_view s)"
    using live apply_op_live [OF live, of "Delete cf k"] by (simp add: kv_delete_def sbind_def)
  show "\<exists>s'. kv_write_batch ops s = (Inr (), s') \<and> kv_live s' \<and>
      kv_view s' = fold view_op ops (kv_view s)"
    using live fold_apply_op_live [OF live, of ops] by (simp add: kv_write_batch_def sbind_def)
qed

lemma kv_new_live [simp]: "kv_live kv_new" "kv_view kv_new cf = Map.empty"
  by (simp_all add: kv_live_def kv_new_def kv_view_def)

text \<open>Writing a batch under one lock has the effect of the trait's default, the operations
  one at a time, on every column family; and when the lock is poisoned it reports the error
  and writes nothing, so no prefix of a batch is ever visible.\<close>

theorem batch_is_sequential_and_atomic:
  "kv_write_batch ops s =
     (if kv_poisoned s then (Inl ''kv lock poisoned'', s) else kv_write_default ops s)"
proof (cases "kv_poisoned s")
  case True
  then show ?thesis by (simp add: kv_write_batch_def kv_read_def sbind_def)
next
  case False
  then have "kv_write_batch ops s = kv_write_default ops s"
  proof (induction ops arbitrary: s)
    case Nil
    then show ?case by (simp add: kv_write_batch_def kv_read_def sbind_def)
  next
    case (Cons p ops)
    have "kv_write_batch ops (s\<lparr>kv_data := apply_op p (kv_data s)\<rparr>) =
        kv_write_default ops (s\<lparr>kv_data := apply_op p (kv_data s)\<rparr>)"
      using Cons by simp
    with Cons.prems show ?case
      by (cases p) (simp_all add: kv_write_batch_def kv_put_def kv_delete_def kv_read_def sbind_def)
  qed
  with False show ?thesis by simp
qed

end
