(* ===== verification/Shred.thy ===== *)
theory Shred
  imports Node Kv
begin

text \<open>
  Per-tenant sealing at rest (\<^verbatim>\<open>crates/mem-store/src/shred.rs\<close>). The record
  \<^verbatim>\<open>externals\<close> holds every function of the crates the repository only calls: BLAKE3, the
  XChaCha20-Poly1305 cipher, \<^verbatim>\<open>hex\<close>, \<^verbatim>\<open>serde_json\<close> on the stored types, ed25519 and the
  operating system's random source. Definitions take it as an argument \<open>X\<close>; the laws the
  store relies on are collected in \<^verbatim>\<open>externals_ok\<close>, and \<^verbatim>\<open>ideal_externals\<close> shows that they
  can hold together.
\<close>

section \<open>Data\<close>

datatype store_error = Backend string | Serde string | Crypto string

type_synonym key256 = "256 word"

definition NONCE_LEN :: nat where
  "NONCE_LEN = 24"

definition CIPHER_CONTEXT :: string where
  "CIPHER_CONTEXT = ''citrate-memories mem-store shred cipher v1''"

definition NONCE_CONTEXT :: string where
  "NONCE_CONTEXT = ''citrate-memories mem-store shred nonce v1''"

record envelope =
  env_enc :: u8
  env_tenant :: string
  env_kgen :: u32
  env_nonce :: string
  env_ct :: string

record keyring_entry =
  kr_gen :: u32
  kr_key :: "string option"

record externals =
  blake3 :: hash_fun
  blake3_derive_key :: "string \<Rightarrow> key256 \<Rightarrow> key256"
  blake3_keyed_xof24 :: "key256 \<Rightarrow> bytes \<Rightarrow> bytes"
  aead_encrypt :: "key256 \<Rightarrow> bytes \<Rightarrow> bytes \<Rightarrow> bytes \<Rightarrow> bytes option"
  aead_decrypt :: "key256 \<Rightarrow> bytes \<Rightarrow> bytes \<Rightarrow> bytes \<Rightarrow> bytes option"
  hex_encode :: "bytes \<Rightarrow> string"
  hex_decode :: "string \<Rightarrow> (string, bytes) result"
  getrandom :: "nat \<Rightarrow> (string, key256) result"
  node_to_json :: "memory_node \<Rightarrow> (string, bytes) result"
  node_from_json :: "bytes \<Rightarrow> (string, memory_node) result"
  edge_to_json :: "edge \<Rightarrow> (string, bytes) result"
  edge_from_json :: "bytes \<Rightarrow> (string, edge) result"
  envelope_to_json :: "envelope \<Rightarrow> (string, bytes) result"
  envelope_from_json :: "bytes \<Rightarrow> (string, envelope) result"
  keyring_to_json :: "keyring_entry \<Rightarrow> (string, bytes) result"
  keyring_from_json :: "bytes \<Rightarrow> (string, keyring_entry) result"
  ed25519_public :: "key256 \<Rightarrow> key256"
  ed25519_sign :: "key256 \<Rightarrow> bytes \<Rightarrow> bytes"
  ed25519_key_ok :: "key256 \<Rightarrow> bool"
  ed25519_verify_strict :: "key256 \<Rightarrow> bytes \<Rightarrow> bytes \<Rightarrow> bool"

section \<open>Operations\<close>

definition key_bytes :: "externals \<Rightarrow> keyring_entry \<Rightarrow> (store_error, key256 option) result" where
  "key_bytes X e =
     (case kr_key e of
        None \<Rightarrow> Inr None
      | Some k \<Rightarrow>
          rbind (map_err (\<lambda>m. Crypto (''keyring hex: '' @ m)) (hex_decode X k)) (\<lambda>b.
          rbind (ok_or (Crypto ''keyring entry has wrong length'') (try_into_32 b)) (\<lambda>key.
          Inr (Some key))))"

definition parse_envelope :: "externals \<Rightarrow> bytes \<Rightarrow> envelope option" where
  "parse_envelope X b =
     (case envelope_from_json X b of
        Inl _ \<Rightarrow> None
      | Inr env \<Rightarrow> if env_enc env = 1 then Some env else None)"

text \<open>The \<open>n\<close>-th draw from the operating system's random source.\<close>

definition generate_key :: "externals \<Rightarrow> nat \<Rightarrow> (store_error, key256) result" where
  "generate_key X n = map_err (\<lambda>e. Crypto (''os rng: '' @ e)) (getrandom X n)"

definition aad :: "string \<Rightarrow> content_hash \<Rightarrow> bytes" where
  "aad tenant nid = as_bytes tenant @ [0] @ hash_bytes nid"

definition aad_at :: "string \<Rightarrow> string \<Rightarrow> bytes \<Rightarrow> bytes" where
  "aad_at tenant cf key = as_bytes tenant @ [0] @ as_bytes cf @ [0] @ key"

definition derive_nonce_parts :: "externals \<Rightarrow> key256 \<Rightarrow> bytes list \<Rightarrow> bytes \<Rightarrow> bytes" where
  "derive_nonce_parts X master parts plaintext =
     blake3_keyed_xof24 X (blake3_derive_key X NONCE_CONTEXT master) (concat parts @ plaintext)"

definition derive_nonce :: "externals \<Rightarrow> key256 \<Rightarrow> content_hash \<Rightarrow> bytes \<Rightarrow> bytes" where
  "derive_nonce X master nid plaintext = derive_nonce_parts X master [hash_bytes nid] plaintext"

definition cipher :: "externals \<Rightarrow> key256 \<Rightarrow> key256" where
  "cipher X master = blake3_derive_key X CIPHER_CONTEXT master"

definition seal ::
    "externals \<Rightarrow> key256 \<Rightarrow> string \<Rightarrow> u32 \<Rightarrow> content_hash \<Rightarrow> bytes \<Rightarrow> (store_error, bytes) result"
  where
  "seal X master tenant kgen nid plaintext =
     (let nonce = derive_nonce X master nid plaintext in
      rbind (ok_or (Crypto ''seal failed'')
        (aead_encrypt X (cipher X master) nonce (aad tenant nid) plaintext)) (\<lambda>ct.
      map_err Serde (envelope_to_json X
        \<lparr>env_enc = 1, env_tenant = tenant, env_kgen = kgen, env_nonce = hex_encode X nonce,
          env_ct = hex_encode X ct\<rparr>)))"

definition seal_at ::
    "externals \<Rightarrow> key256 \<Rightarrow> string \<Rightarrow> u32 \<Rightarrow> string \<Rightarrow> bytes \<Rightarrow> bytes \<Rightarrow> (store_error, bytes) result"
  where
  "seal_at X master tenant kgen cf key plaintext =
     (let nonce = derive_nonce_parts X master [as_bytes cf, [0], key] plaintext in
      rbind (ok_or (Crypto ''seal failed'')
        (aead_encrypt X (cipher X master) nonce (aad_at tenant cf key) plaintext)) (\<lambda>ct.
      map_err Serde (envelope_to_json X
        \<lparr>env_enc = 1, env_tenant = tenant, env_kgen = kgen, env_nonce = hex_encode X nonce,
          env_ct = hex_encode X ct\<rparr>)))"

definition open_with_aad ::
    "externals \<Rightarrow> key256 \<Rightarrow> envelope \<Rightarrow> bytes \<Rightarrow> (store_error, bytes) result" where
  "open_with_aad X master env a =
     rbind (map_err (\<lambda>e. Crypto (''bad nonce hex: '' @ e)) (hex_decode X (env_nonce env))) (\<lambda>nonce.
     if length nonce \<noteq> NONCE_LEN
     then Inl (Crypto (''nonce length '' @ decimal (length nonce) @ '' != '' @ decimal NONCE_LEN))
     else
       rbind (map_err (\<lambda>e. Crypto (''bad ciphertext hex: '' @ e)) (hex_decode X (env_ct env))) (\<lambda>ct.
       ok_or (Crypto ''decryption failed: tampered, swapped, or wrong key'')
         (aead_decrypt X (cipher X master) nonce a ct)))"

definition open_env ::
    "externals \<Rightarrow> key256 \<Rightarrow> envelope \<Rightarrow> content_hash \<Rightarrow> (store_error, bytes) result" where
  "open_env X master env nid = open_with_aad X master env (aad (env_tenant env) nid)"

definition open_at ::
    "externals \<Rightarrow> key256 \<Rightarrow> envelope \<Rightarrow> string \<Rightarrow> bytes \<Rightarrow> (store_error, bytes) result" where
  "open_at X master env cf key = open_with_aad X master env (aad_at (env_tenant env) cf key)"

section \<open>What is assumed of the called crates\<close>

text \<open>The documented behaviour the store relies on: decoding inverts encoding (for a node whose
  embedding holds finite numbers only: JSON has no NaN or infinity), decryption inverts
  encryption under the same key, nonce and associated data, the extendable output fills the
  24-byte nonce buffer, and the JSON of a node or an edge is not the JSON of an envelope
  (an envelope has the required fields \<^verbatim>\<open>enc\<close> and \<^verbatim>\<open>ct\<close>, which neither has).\<close>

definition f32_finite :: "u32 \<Rightarrow> bool" where
  "f32_finite b \<longleftrightarrow> f32_magnitude b < 255 * 2 ^ 23"

definition json_safe :: "memory_node \<Rightarrow> bool" where
  "json_safe n \<longleftrightarrow> (case n_embedding n of None \<Rightarrow> True | Some v \<Rightarrow> list_all f32_finite (vv_data v))"

definition externals_ok :: "externals \<Rightarrow> bool" where
  "externals_ok X \<longleftrightarrow>
     (\<forall>b. hex_decode X (hex_encode X b) = Inr b) \<and>
     (\<forall>k m. length (blake3_keyed_xof24 X k m) = NONCE_LEN) \<and>
     (\<forall>k n a m c. aead_encrypt X k n a m = Some c \<longrightarrow> aead_decrypt X k n a c = Some m) \<and>
     (\<forall>n b. node_to_json X n = Inr b \<and> json_safe n \<longrightarrow> node_from_json X b = Inr n) \<and>
     (\<forall>e b. edge_to_json X e = Inr b \<longrightarrow> edge_from_json X b = Inr e) \<and>
     (\<forall>e b. envelope_to_json X e = Inr b \<longrightarrow> envelope_from_json X b = Inr e) \<and>
     (\<forall>e b. keyring_to_json X e = Inr b \<longrightarrow> keyring_from_json X b = Inr e) \<and>
     (\<forall>n b. node_to_json X n = Inr b \<longrightarrow> (\<exists>m. envelope_from_json X b = Inl m)) \<and>
     (\<forall>e b. edge_to_json X e = Inr b \<longrightarrow> (\<exists>m. envelope_from_json X b = Inl m))"

lemma externals_okD:
  assumes "externals_ok X"
  shows "hex_decode X (hex_encode X b) = Inr b"
    and "length (blake3_keyed_xof24 X k m) = NONCE_LEN"
    and "aead_encrypt X k n a m = Some c \<Longrightarrow> aead_decrypt X k n a c = Some m"
    and "node_to_json X nd = Inr b \<Longrightarrow> json_safe nd \<Longrightarrow> node_from_json X b = Inr nd"
    and "edge_to_json X e = Inr b \<Longrightarrow> edge_from_json X b = Inr e"
    and "envelope_to_json X env = Inr b \<Longrightarrow> envelope_from_json X b = Inr env"
    and "keyring_to_json X kr = Inr b \<Longrightarrow> keyring_from_json X b = Inr kr"
  using assms by (simp_all add: externals_ok_def)

lemma plain_not_envelope:
  assumes "externals_ok X"
  shows "node_to_json X nd = Inr b \<Longrightarrow> parse_envelope X b = None"
    and "edge_to_json X e = Inr b \<Longrightarrow> parse_envelope X b = None"
proof -
  have shape: "(\<forall>n b. node_to_json X n = Inr b \<longrightarrow> (\<exists>m. envelope_from_json X b = Inl m)) \<and>
      (\<forall>e b. edge_to_json X e = Inr b \<longrightarrow> (\<exists>m. envelope_from_json X b = Inl m))"
    using assms by (simp add: externals_ok_def)
  show "parse_envelope X b = None" if "node_to_json X nd = Inr b"
    using shape that by (force simp: parse_envelope_def)
  show "parse_envelope X b = None" if "edge_to_json X e = Inr b"
    using shape that by (force simp: parse_envelope_def)
qed

text \<open>The calls that can fail only for reasons outside the program (no entropy, a cipher that
  refuses its input, a serialiser error on plain data) do not fail.\<close>

definition externals_total :: "externals \<Rightarrow> bool" where
  "externals_total X \<longleftrightarrow>
     (\<forall>i. \<exists>k. getrandom X i = Inr k) \<and> (\<forall>k n a m. \<exists>c. aead_encrypt X k n a m = Some c) \<and>
     (\<forall>n. \<exists>b. node_to_json X n = Inr b) \<and> (\<forall>e. \<exists>b. edge_to_json X e = Inr b) \<and>
     (\<forall>e. \<exists>b. envelope_to_json X e = Inr b) \<and> (\<forall>e. \<exists>b. keyring_to_json X e = Inr b)"

lemma externals_totalD:
  assumes "externals_total X"
  shows "\<exists>k. getrandom X i = Inr k" "\<exists>c. aead_encrypt X k n a m = Some c"
    "\<exists>b. node_to_json X nd = Inr b" "\<exists>b. edge_to_json X e = Inr b"
    "\<exists>b. envelope_to_json X env = Inr b" "\<exists>b. keyring_to_json X kr = Inr b"
  using assms by (simp_all add: externals_total_def)

lemma seal_total:
  assumes "externals_total X"
  shows "\<exists>b. seal X k t g nid p = Inr b" "\<exists>b. seal_at X k t g cf key p = Inr b"
proof -
  obtain c where "aead_encrypt X (cipher X k) (derive_nonce X k nid p) (aad t nid) p = Some c"
    using externals_totalD(2) [OF assms] by blast
  then show "\<exists>b. seal X k t g nid p = Inr b"
    using externals_totalD(5) [OF assms] by (fastforce simp: seal_def Let_def)
  obtain c' where "aead_encrypt X (cipher X k)
      (derive_nonce_parts X k [as_bytes cf, [0], key] p) (aad_at t cf key) p = Some c'"
    using externals_totalD(2) [OF assms] by blast
  then show "\<exists>b. seal_at X k t g cf key p = Inr b"
    using externals_totalD(5) [OF assms] by (fastforce simp: seal_at_def Let_def)
qed

text \<open>A signature made with a key verifies under its public key.\<close>

definition ed25519_ok :: "externals \<Rightarrow> bool" where
  "ed25519_ok X \<longleftrightarrow> (\<forall>sk m. length (ed25519_sign X sk m) = 64 \<and> ed25519_key_ok X (ed25519_public X sk) \<and>
     ed25519_verify_strict X (ed25519_public X sk) m (ed25519_sign X sk m))"

lemma ed25519_okD:
  assumes "ed25519_ok X"
  shows "length (ed25519_sign X sk m) = 64" "ed25519_key_ok X (ed25519_public X sk)"
    "ed25519_verify_strict X (ed25519_public X sk) m (ed25519_sign X sk m)"
  using assms by (simp_all add: ed25519_ok_def)

section \<open>Sealing and opening\<close>

lemma open_with_aad_sealed:
  assumes "externals_ok X" "length nonce = NONCE_LEN"
    and "aead_encrypt X (cipher X master) nonce a p = Some ct"
    and "env_nonce env = hex_encode X nonce" "env_ct env = hex_encode X ct"
  shows "open_with_aad X master env a = Inr p"
  using assms externals_okD [OF assms(1)] by (simp add: open_with_aad_def)

lemma seal_opens:
  assumes X: "externals_ok X" and s: "seal X master tenant kgen nid p = Inr b"
  obtains env where "parse_envelope X b = Some env" "env_tenant env = tenant"
    "env_kgen env = kgen" "open_env X master env nid = Inr p"
proof -
  let ?nonce = "derive_nonce X master nid p"
  from s obtain ct where ct: "aead_encrypt X (cipher X master) ?nonce (aad tenant nid) p = Some ct"
    and j: "envelope_to_json X \<lparr>env_enc = 1, env_tenant = tenant, env_kgen = kgen,
        env_nonce = hex_encode X ?nonce, env_ct = hex_encode X ct\<rparr> = Inr b"
    by (auto simp: seal_def Let_def)
  have "length ?nonce = NONCE_LEN"
    by (simp add: derive_nonce_def derive_nonce_parts_def externals_okD [OF X])
  with that externals_okD(6) [OF X j] ct X show ?thesis
    by (auto simp: parse_envelope_def open_env_def open_with_aad_sealed)
qed

lemma seal_at_opens:
  assumes X: "externals_ok X" and s: "seal_at X master tenant kgen cf k p = Inr b"
  obtains env where "parse_envelope X b = Some env" "env_tenant env = tenant"
    "env_kgen env = kgen" "open_at X master env cf k = Inr p"
proof -
  let ?nonce = "derive_nonce_parts X master [as_bytes cf, [0], k] p"
  from s obtain ct where ct: "aead_encrypt X (cipher X master) ?nonce (aad_at tenant cf k) p = Some ct"
    and j: "envelope_to_json X \<lparr>env_enc = 1, env_tenant = tenant, env_kgen = kgen,
        env_nonce = hex_encode X ?nonce, env_ct = hex_encode X ct\<rparr> = Inr b"
    by (auto simp: seal_at_def Let_def)
  have "length ?nonce = NONCE_LEN"
    by (simp add: derive_nonce_parts_def externals_okD [OF X])
  with that externals_okD(6) [OF X j] ct X show ?thesis
    by (auto simp: parse_envelope_def open_at_def open_with_aad_sealed)
qed

section \<open>Slot binding\<close>

text \<open>A tenant name or a column family name is text without a NUL byte, which is what
  separates the parts of the associated data.\<close>

definition nul_free :: "string \<Rightarrow> bool" where
  "nul_free s \<longleftrightarrow> 0 \<notin> set (as_bytes s)"

lemma nul_split_inject:
  assumes "(0::byte) \<notin> set s" "0 \<notin> set t"
  shows "s @ 0 # u = t @ 0 # v \<longleftrightarrow> s = t \<and> u = v"
  using assms
proof (induction s arbitrary: t)
  case Nil
  then show ?case by (cases t) auto
next
  case (Cons c s)
  then show ?case by (cases t) auto
qed

text \<open>The associated data of a sealed value names its slot exactly: for NUL-free tenant
  and column family names, equal associated data means the same tenant, the same column
  family and the same storage key, and the node form binds tenant and node id in the same
  way. A ciphertext moved to another slot is therefore always opened with different
  associated data.\<close>

theorem associated_data_binds_slot:
  assumes "nul_free t" "nul_free t'" "nul_free cf" "nul_free cf'"
  shows "(aad_at t cf k = aad_at t' cf' k' \<longleftrightarrow> t = t' \<and> cf = cf' \<and> k = k') \<and>
    (aad t i = aad t' i' \<longleftrightarrow> t = t' \<and> i = i')"
  using assms by (simp add: aad_at_def aad_def nul_free_def nul_split_inject)

theorem associated_data_binds_slot_witness:
  "aad_at ''a'' ''mem_edges_out'' [1] \<noteq> aad_at ''a'' ''mem_edges_in'' [1]"
proof -
  have "nul_free ''a''" "nul_free ''mem_edges_out''" "nul_free ''mem_edges_in''"
    by (simp_all add: nul_free_def as_bytes_def)
  then show ?thesis
    using associated_data_binds_slot [of "''a''" "''a''" "''mem_edges_out''" "''mem_edges_in''"
        "[1]" "[1]"] by simp
qed

end
