(* ===== verification/Store.thy ===== *)
theory Store
  imports Shred
begin

text \<open>
  The content-addressed DAG store (\<^verbatim>\<open>crates/mem-store/src/lib.rs\<close>): \<^verbatim>\<open>MemoryDagStore\<close> over
  the in-memory backend, every operation with its error branches. The state is the backend,
  the sealing mode, and the number of keys drawn from the random source so far. Reads are
  functions of the state; operations that write are actions, which keep what was written
  before an early return (a tenant key minted for a batch that is then refused stays in the
  keyring). This theory holds the definitions; their properties are in the theories
  \<^verbatim>\<open>Store_Inv\<close> and \<^verbatim>\<open>Supersession\<close>.
\<close>

section \<open>State and column families\<close>

definition NODES :: string where "NODES = ''mem_nodes''"
definition EDGES_OUT :: string where "EDGES_OUT = ''mem_edges_out''"
definition EDGES_IN :: string where "EDGES_IN = ''mem_edges_in''"
definition META :: string where "META = ''mem_meta''"
definition KEYS :: string where "KEYS = ''mem_keys''"

record dag_store =
  ds_kv :: in_memory_kv
  ds_encrypt :: bool
  ds_draws :: nat

datatype supersession_error =
    NotSupersedes edge_kind | SelfSupersede | MissingNode string | Cycle | Quarantined
  | PlaneViolation | StoreErr store_error

record seal_migration_report =
  mr_already_done :: bool
  mr_edges_sealed :: nat
  mr_meta_sealed :: nat
  mr_skipped_unknown_tenant :: nat

definition SEAL_V2_MARKER_KEY :: bytes where
  "SEAL_V2_MARKER_KEY = as_bytes ''__shred_seal_v2_done''"

type_synonym 'a reader = "dag_store \<Rightarrow> (store_error, 'a) result"
type_synonym 'a writer = "(dag_store, store_error, 'a) action"

text \<open>Backend calls with \<^verbatim>\<open>map_err(StoreError::Backend)\<close>.\<close>

definition kv_rd :: "(in_memory_kv \<Rightarrow> (string, 'a) result) \<Rightarrow> 'a reader" where
  "kv_rd f s = map_err Backend (f (ds_kv s))"

definition kv_wr :: "(in_memory_kv, string, 'a) action \<Rightarrow> 'a writer" where
  "kv_wr m s = (case m (ds_kv s) of (r, k) \<Rightarrow> (map_err Backend r, s\<lparr>ds_kv := k\<rparr>))"

definition new :: "in_memory_kv \<Rightarrow> dag_store" where
  "new kv = \<lparr>ds_kv = kv, ds_encrypt = False, ds_draws = 0\<rparr>"

definition new_encrypted :: "in_memory_kv \<Rightarrow> dag_store" where
  "new_encrypted kv = \<lparr>ds_kv = kv, ds_encrypt = True, ds_draws = 0\<rparr>"

definition is_encrypted_at_rest :: "dag_store \<Rightarrow> bool" where
  "is_encrypted_at_rest s = ds_encrypt s"

section \<open>The keyring\<close>

definition keyring_entry_of :: "externals \<Rightarrow> string \<Rightarrow> keyring_entry option reader" where
  "keyring_entry_of X tenant s =
     rbind (kv_rd (kv_get KEYS (as_bytes tenant)) s) (\<lambda>v.
       case v of
         None \<Rightarrow> Inr None
       | Some b \<Rightarrow> rbind (map_err Serde (keyring_from_json X b)) (\<lambda>e. Inr (Some e)))"

definition put_keyring_entry :: "externals \<Rightarrow> string \<Rightarrow> keyring_entry \<Rightarrow> unit writer" where
  "put_keyring_entry X tenant entry =
     sbind (slift (map_err Serde (keyring_to_json X entry))) (\<lambda>b.
     kv_wr (kv_put KEYS (as_bytes tenant) b))"

definition draw_key :: "externals \<Rightarrow> key256 writer" where
  "draw_key X s = (generate_key X (ds_draws s), s\<lparr>ds_draws := Suc (ds_draws s)\<rparr>)"

definition ensure_tenant_key :: "externals \<Rightarrow> string \<Rightarrow> (u32 \<times> key256) writer" where
  "ensure_tenant_key X tenant =
     sbind (sread (keyring_entry_of X tenant)) (\<lambda>eo.
     sbind (slift (case eo of
                Some e \<Rightarrow> rbind (key_bytes X e) (\<lambda>k. Inr (kr_gen e, k))
              | None \<Rightarrow> Inr (0, None))) (\<lambda>(gen, existing).
     case existing of
       Some key \<Rightarrow> sok (gen, key)
     | None \<Rightarrow>
         sbind (draw_key X) (\<lambda>key.
         sbind (put_keyring_entry X tenant
            \<lparr>kr_gen = gen + 1, kr_key = Some (hex_encode X (hash_bytes key))\<rparr>) (\<lambda>_.
         sok (gen + 1, key)))))"

definition shred_tenant :: "externals \<Rightarrow> string \<Rightarrow> bool writer" where
  "shred_tenant X tenant =
     sbind (sread (keyring_entry_of X tenant)) (\<lambda>eo.
     case eo of
       None \<Rightarrow> sok False
     | Some e \<Rightarrow>
         sbind (put_keyring_entry X tenant \<lparr>kr_gen = kr_gen e, kr_key = None\<rparr>) (\<lambda>_.
         sok (kr_key e \<noteq> None)))"

section \<open>Encoding and decoding nodes\<close>

abbreviation node_id :: "externals \<Rightarrow> memory_node \<Rightarrow> content_hash" where
  "node_id X n \<equiv> compute_id (blake3 X) n"

abbreviation tenant_of :: "memory_node \<Rightarrow> string" where
  "tenant_of n \<equiv> n_repo n"

definition encode_node :: "externals \<Rightarrow> memory_node \<Rightarrow> bytes writer" where
  "encode_node X node =
     sbind (slift (map_err Serde (node_to_json X node))) (\<lambda>plain s.
       if \<not> ds_encrypt s then sok plain s
       else sbind (ensure_tenant_key X (tenant_of node)) (\<lambda>(gen, key).
            slift (seal X key (tenant_of node) gen (node_id X node) plain)) s)"

definition decode_node :: "externals \<Rightarrow> content_hash \<Rightarrow> bytes \<Rightarrow> memory_node option reader" where
  "decode_node X nid b s =
     (case parse_envelope X b of
        None \<Rightarrow> rbind (map_err Serde (node_from_json X b)) (\<lambda>n. Inr (Some n))
      | Some env \<Rightarrow>
          rbind (keyring_entry_of X (env_tenant env) s) (\<lambda>eo.
          case eo of
            None \<Rightarrow> Inr None
          | Some entry \<Rightarrow>
              rbind (key_bytes X entry) (\<lambda>ko.
              case ko of
                None \<Rightarrow> Inr None
              | Some key \<Rightarrow>
                  if kr_gen entry \<noteq> env_kgen env then Inr None
                  else rbind (open_env X key env nid) (\<lambda>plain.
                       rbind (map_err Serde (node_from_json X plain)) (\<lambda>n. Inr (Some n))))))"

section \<open>Edge and meta sealing\<close>

definition stored_node_tenant :: "externals \<Rightarrow> content_hash \<Rightarrow> string option reader" where
  "stored_node_tenant X nid s =
     rbind (kv_rd (kv_get NODES (hash_bytes nid)) s) (\<lambda>v.
       case v of
         None \<Rightarrow> Inr None
       | Some b \<Rightarrow>
           (case parse_envelope X b of
              Some env \<Rightarrow> Inr (Some (env_tenant env))
            | None \<Rightarrow> rbind (map_err Serde (node_from_json X b)) (\<lambda>n. Inr (Some (tenant_of n)))))"

definition edge_tenant ::
    "externals \<Rightarrow> edge \<Rightarrow> (content_hash \<rightharpoonup> string) \<Rightarrow> string reader" where
  "edge_tenant X edge batch s =
     (let endpoint = (\<lambda>nid. case batch nid of
           Some t \<Rightarrow> Inr (Some t)
         | None \<Rightarrow> stored_node_tenant X nid s)
      in rbind (endpoint (e_from edge)) (\<lambda>r.
         case r of
           Some t \<Rightarrow> Inr t
         | None \<Rightarrow> rbind (endpoint (e_to edge)) (\<lambda>r'.
             case r' of
               Some t \<Rightarrow> Inr t
             | None \<Rightarrow> Inl (Crypto (''cannot seal edge '' @ to_hex (hex_encode X) (e_from edge) @
                 '' -> '' @ to_hex (hex_encode X) (e_to edge) @
                 '': neither endpoint is in the store, so no tenant key applies'')))))"

definition in_key :: "edge \<Rightarrow> bytes" where
  "in_key e = hash_bytes (e_to e) @ hash_bytes (e_from e) @ [edge_kind_tag (e_kind e)]"

definition edge_put_ops ::
    "externals \<Rightarrow> edge \<Rightarrow> (content_hash \<rightharpoonup> string) \<Rightarrow> kv_op list writer" where
  "edge_put_ops X edge batch =
     sbind (slift (map_err Serde (edge_to_json X edge))) (\<lambda>plain s.
     sbind (if ds_encrypt s then
              sbind (sread (edge_tenant X edge batch)) (\<lambda>tenant.
              sbind (ensure_tenant_key X tenant) (\<lambda>(gen, key).
              sbind (slift (seal_at X key tenant gen EDGES_OUT (edge_key edge) plain)) (\<lambda>out_val.
              sbind (slift (seal_at X key tenant gen EDGES_IN (in_key edge) plain)) (\<lambda>in_val.
              sok (out_val, in_val)))))
            else sok (plain, plain)) (\<lambda>(out_val, in_val).
     sok [Put EDGES_OUT (edge_key edge) out_val, Put EDGES_IN (in_key edge) in_val]) s)"

text \<open>The keyring cache of one scan: the live generation and key of each tenant seen.\<close>

type_synonym key_cache = "string \<rightharpoonup> (u32 \<times> key256) option"

definition live_key :: "externals \<Rightarrow> string \<Rightarrow> (u32 \<times> key256) option reader" where
  "live_key X tenant s =
     rbind (keyring_entry_of X tenant s) (\<lambda>eo.
       case eo of
         None \<Rightarrow> Inr None
       | Some e \<Rightarrow> rbind (key_bytes X e) (\<lambda>ko. Inr (map_option (\<lambda>k. (kr_gen e, k)) ko)))"

definition decode_edge ::
    "externals \<Rightarrow> string \<Rightarrow> bytes \<Rightarrow> bytes \<Rightarrow> key_cache \<Rightarrow> (edge option \<times> key_cache) reader" where
  "decode_edge X cf key b keys s =
     (case parse_envelope X b of
        None \<Rightarrow> rbind (map_err Serde (edge_from_json X b)) (\<lambda>e. Inr (Some e, keys))
      | Some env \<Rightarrow>
          rbind (case keys (env_tenant env) of
              Some cached \<Rightarrow> Inr (cached, keys)
            | None \<Rightarrow> rbind (live_key X (env_tenant env) s) (\<lambda>live.
                Inr (live, keys(env_tenant env \<mapsto> live)))) (\<lambda>(live, keys').
          case live of
            None \<Rightarrow> Inr (None, keys')
          | Some (gen, master) \<Rightarrow>
              if gen \<noteq> env_kgen env then Inr (None, keys')
              else rbind (open_at X master env cf key) (\<lambda>plain.
                   rbind (map_err Serde (edge_from_json X plain)) (\<lambda>e. Inr (Some e, keys')))))"

section \<open>Nodes\<close>

definition put_node :: "externals \<Rightarrow> memory_node \<Rightarrow> content_hash writer" where
  "put_node X node =
     sbind (encode_node X node) (\<lambda>b.
     sbind (kv_wr (kv_put NODES (hash_bytes (node_id X node)) b)) (\<lambda>_.
     sok (node_id X node)))"

definition get_node :: "externals \<Rightarrow> content_hash \<Rightarrow> memory_node option reader" where
  "get_node X nid s =
     rbind (kv_rd (kv_get NODES (hash_bytes nid)) s) (\<lambda>v.
       case v of None \<Rightarrow> Inr None | Some b \<Rightarrow> decode_node X nid b s)"

definition has_node :: "content_hash \<Rightarrow> bool reader" where
  "has_node nid s = kv_rd (kv_exists NODES (hash_bytes nid)) s"

definition node_count :: "nat reader" where
  "node_count s = rbind (kv_rd (kv_iter_cf NODES) s) (\<lambda>rows. Inr (length rows))"

definition edge_count :: "nat reader" where
  "edge_count s = rbind (kv_rd (kv_iter_cf EDGES_OUT) s) (\<lambda>rows. Inr (length rows))"

definition checkpoint :: "string \<Rightarrow> unit reader" where
  "checkpoint dest s = kv_rd (kv_checkpoint dest) s"

definition all_nodes :: "externals \<Rightarrow> memory_node list reader" where
  "all_nodes X s =
     rbind (kv_rd (kv_iter_cf NODES) s) (\<lambda>rows.
     rfold (\<lambda>(k, v) acc.
        rbind (ok_or (Serde ''node key is not a 32-byte content hash'') (try_into_32 k)) (\<lambda>nid.
        rbind (decode_node X nid v s) (\<lambda>r.
        Inr (case r of Some n \<Rightarrow> acc @ [n] | None \<Rightarrow> acc)))) rows [])"

section \<open>Operational meta\<close>

definition put_meta :: "externals \<Rightarrow> string \<Rightarrow> bytes \<Rightarrow> bytes \<Rightarrow> unit writer" where
  "put_meta X tenant key v =
     sbind (\<lambda>s. if ds_encrypt s then
                sbind (ensure_tenant_key X tenant) (\<lambda>(gen, master).
                slift (seal_at X master tenant gen META key v)) s
              else sok v s) (\<lambda>b.
     kv_wr (kv_put META key b))"

definition get_meta :: "externals \<Rightarrow> bytes \<Rightarrow> bytes option reader" where
  "get_meta X key s =
     rbind (kv_rd (kv_get META key) s) (\<lambda>v.
       case v of
         None \<Rightarrow> Inr None
       | Some b \<Rightarrow>
           (case parse_envelope X b of
              None \<Rightarrow> Inr (Some b)
            | Some env \<Rightarrow>
                rbind (keyring_entry_of X (env_tenant env) s) (\<lambda>eo.
                case eo of
                  None \<Rightarrow> Inr None
                | Some entry \<Rightarrow>
                    rbind (key_bytes X entry) (\<lambda>ko.
                    case ko of
                      None \<Rightarrow> Inr None
                    | Some master \<Rightarrow>
                        if kr_gen entry \<noteq> env_kgen env then Inr None
                        else rbind (open_at X master env META key) (\<lambda>p. Inr (Some p))))))"

section \<open>Edges\<close>

definition scan_prefix :: "externals \<Rightarrow> string \<Rightarrow> bytes \<Rightarrow> edge list reader" where
  "scan_prefix X cf prefix s =
     rbind (kv_rd (kv_iter_cf cf) s) (\<lambda>rows.
     rbind (rfold (\<lambda>(k, v) (out, keys).
          if take (length prefix) k = prefix then
            rbind (decode_edge X cf k v keys s) (\<lambda>(r, keys').
            Inr (case r of Some e \<Rightarrow> out @ [e] | None \<Rightarrow> out, keys'))
          else Inr (out, keys)) rows ([], Map.empty)) (\<lambda>(out, keys).
     Inr out))"

definition out_edges :: "externals \<Rightarrow> content_hash \<Rightarrow> edge list reader" where
  "out_edges X nid s = scan_prefix X EDGES_OUT (hash_bytes nid) s"

definition in_edges :: "externals \<Rightarrow> content_hash \<Rightarrow> edge list reader" where
  "in_edges X nid s = scan_prefix X EDGES_IN (hash_bytes nid) s"

definition all_edges :: "externals \<Rightarrow> edge list reader" where
  "all_edges X s = scan_prefix X EDGES_OUT [] s"

definition stored_edge :: "externals \<Rightarrow> edge \<Rightarrow> edge option reader" where
  "stored_edge X edge s =
     rbind (out_edges X (e_from edge) s) (\<lambda>es.
     Inr (List.find (\<lambda>e. e_to e = e_to edge \<and> e_kind e = e_kind edge) es))"

definition is_demoting_write :: "externals \<Rightarrow> edge \<Rightarrow> bool reader" where
  "is_demoting_write X edge s =
     (if \<not> e_quarantined edge then Inr False
      else rbind (stored_edge X edge s) (\<lambda>r.
        Inr (case r of Some existing \<Rightarrow> \<not> e_quarantined existing | None \<Rightarrow> False)))"

definition add_edge :: "externals \<Rightarrow> edge \<Rightarrow> unit writer" where
  "add_edge X edge =
     sbind (sread (is_demoting_write X edge)) (\<lambda>demoting.
     if demoting then sok ()
     else sbind (edge_put_ops X edge Map.empty) (\<lambda>ops. kv_wr (kv_write_batch ops)))"

definition commit_node ::
    "externals \<Rightarrow> memory_node \<Rightarrow> kv_op list \<times> (content_hash \<rightharpoonup> string) \<Rightarrow>
     (kv_op list \<times> (content_hash \<rightharpoonup> string)) writer" where
  "commit_node X n = (\<lambda>(ops, batch).
     sbind (encode_node X n) (\<lambda>b.
     sok (ops @ [Put NODES (hash_bytes (node_id X n)) b], batch(node_id X n \<mapsto> tenant_of n))))"

definition commit_edge ::
    "externals \<Rightarrow> (content_hash \<rightharpoonup> string) \<Rightarrow> edge \<Rightarrow> kv_op list \<Rightarrow> kv_op list writer" where
  "commit_edge X batch e ops =
     sbind (sread (is_demoting_write X e)) (\<lambda>demoting.
     if demoting then sok ops
     else sbind (edge_put_ops X e batch) (\<lambda>new_ops. sok (ops @ new_ops)))"

definition commit :: "externals \<Rightarrow> memory_node list \<Rightarrow> edge list \<Rightarrow> unit writer" where
  "commit X nodes edges =
     sbind (sfold (commit_node X) nodes ([], Map.empty)) (\<lambda>(ops, batch).
     sbind (sfold (commit_edge X batch) edges ops) (\<lambda>ops'.
     kv_wr (kv_write_batch ops')))"

section \<open>Reachability\<close>

definition visit ::
    "edge_kind \<Rightarrow> edge \<Rightarrow> content_hash set \<times> content_hash list \<times> content_hash list \<Rightarrow>
     content_hash set \<times> content_hash list \<times> content_hash list" where
  "visit kind e = (\<lambda>(seen, queue, found).
     if e_kind e = kind \<and> e_to e \<notin> seen
     then (insert (e_to e) seen, queue @ [e_to e], found @ [e_to e])
     else (seen, queue, found))"

lemma visit_measure:
  "fold (visit kind) es (seen, queue, found) = (seen', queue', found') \<Longrightarrow>
     card (- seen') + length queue' = card (- seen) + length queue"
proof (induction es arbitrary: seen queue found)
  case Nil
  then show ?case by simp
next
  case (Cons e es)
  show ?case
  proof (cases "e_kind e = kind \<and> e_to e \<notin> seen")
    case True
    then have eq: "- seen = insert (e_to e) (- insert (e_to e) seen)" by auto
    have "card (- seen) = Suc (card (- insert (e_to e) seen))"
      by (subst eq) (rule card_insert_disjoint, simp_all)
    moreover from Cons.prems True have "fold (visit kind) es
        (insert (e_to e) seen, queue @ [e_to e], found @ [e_to e]) = (seen', queue', found')"
      by (simp add: visit_def [of kind e])
    ultimately show ?thesis using Cons.IH by fastforce
  next
    case False
    with Cons.prems have "fold (visit kind) es (seen, queue, found) = (seen', queue', found')"
      by (simp add: visit_def [of kind e])
    then show ?thesis by (rule Cons.IH)
  qed
qed

function reach_loop ::
    "externals \<Rightarrow> edge_kind \<Rightarrow> dag_store \<Rightarrow>
     content_hash set \<Rightarrow> content_hash list \<Rightarrow> content_hash list \<Rightarrow>
     (store_error, content_hash list) result" where
  "reach_loop X kind s seen [] found = Inr found"
| "reach_loop X kind s seen (cur # queue) found =
     (case out_edges X cur s of
        Inl e \<Rightarrow> Inl e
      | Inr es \<Rightarrow>
          (case fold (visit kind) es (seen, queue, found) of (seen', queue', found') \<Rightarrow>
             reach_loop X kind s seen' queue' found'))"
  by pat_completeness auto
termination
  by (relation "measure (\<lambda>(X, kind, s, seen, queue, found). card (- seen) + length queue)")
    (auto split: prod.splits dest: visit_measure)

definition reachable_via :: "externals \<Rightarrow> content_hash \<Rightarrow> edge_kind \<Rightarrow> content_hash list reader" where
  "reachable_via X start kind s = reach_loop X kind s {start} [start] []"

definition would_cycle_supersedes ::
    "externals \<Rightarrow> content_hash \<Rightarrow> content_hash \<Rightarrow> bool reader" where
  "would_cycle_supersedes X src tgt s =
     rbind (reachable_via X tgt Supersedes s) (\<lambda>r. Inr (src \<in> set r))"

section \<open>Supersession, confirmation, status\<close>

definition ss_rd :: "'a reader \<Rightarrow> (dag_store, supersession_error, 'a) action" where
  "ss_rd f s = (map_err StoreErr (f s), s)"

definition supersede_target :: "edge \<Rightarrow> memory_node \<Rightarrow> memory_node" where
  "supersede_target edge target =
     target\<lparr>n_status := Superseded,
            n_valid_to := Some (max (p_at (e_provenance edge)) (n_valid_from target))\<rparr>"

definition apply_supersession ::
    "externals \<Rightarrow> edge \<Rightarrow> (dag_store, supersession_error, bool) action" where
  "apply_supersession X edge =
     (if e_kind edge \<noteq> Supersedes then serr (NotSupersedes (e_kind edge))
      else if e_quarantined edge then serr Quarantined
      else if e_from edge = e_to edge then serr SelfSupersede
      else
        sbind (ss_rd (has_node (e_from edge))) (\<lambda>has.
        if \<not> has then serr (MissingNode (to_hex (hex_encode X) (e_from edge)))
        else
          sbind (ss_rd (get_node X (e_to edge))) (\<lambda>found.
          case found of
            None \<Rightarrow> serr (MissingNode (to_hex (hex_encode X) (e_to edge)))
          | Some target \<Rightarrow>
              if e_plane edge = Asserted \<and> n_plane target = Derived then serr PlaneViolation
              else
                sbind (ss_rd (would_cycle_supersedes X (e_from edge) (e_to edge))) (\<lambda>cyc.
                if cyc then serr Cycle
                else
                  sbind (smap_err StoreErr (edge_put_ops X edge Map.empty)) (\<lambda>ops.
                  sbind (if n_status target = Active then
                           sbind (smap_err StoreErr (encode_node X (supersede_target edge target))) (\<lambda>b.
                           sok (ops @ [Put NODES (hash_bytes (e_to edge)) b]))
                         else sok ops) (\<lambda>ops'.
                  sbind (smap_err StoreErr (kv_wr (kv_write_batch ops'))) (\<lambda>_.
                  sok (n_status target = Active))))))))"

datatype confirm_outcome = ConfirmedNow | AlreadyConfirmed | NotFound

definition confirm_edge ::
    "externals \<Rightarrow> content_hash \<Rightarrow> content_hash \<Rightarrow> edge_kind \<Rightarrow> u64 \<Rightarrow>
     (dag_store, supersession_error, confirm_outcome) action" where
  "confirm_edge X src tgt kind now_ms =
     sbind (ss_rd (out_edges X src)) (\<lambda>es.
     case List.find (\<lambda>e. e_to e = tgt \<and> e_kind e = kind) es of
       None \<Rightarrow> sok NotFound
     | Some edge \<Rightarrow>
         if \<not> e_quarantined edge then sok AlreadyConfirmed
         else
           sbind (let edge' = edge\<lparr>e_quarantined := False\<rparr> in
              if e_kind edge' = Supersedes then
                sbind (apply_supersession X
                  (edge'\<lparr>e_provenance := (e_provenance edge')\<lparr>p_at := now_ms\<rparr>\<rparr>)) (\<lambda>_. sok ())
              else smap_err StoreErr (add_edge X edge')) (\<lambda>_.
           sok ConfirmedNow))"

definition set_node_status ::
    "externals \<Rightarrow> content_hash \<Rightarrow> status \<Rightarrow> timestamp option \<Rightarrow> bool writer" where
  "set_node_status X nid st valid_to =
     sbind (sread (get_node X nid)) (\<lambda>found.
     case found of
       None \<Rightarrow> sok False
     | Some node \<Rightarrow>
         if n_status node = st then sok False
         else
           (let node' = node\<lparr>n_status := st\<rparr>;
                node'' = (if valid_to \<noteq> None then node'\<lparr>n_valid_to := valid_to\<rparr> else node')
            in sbind (encode_node X node'') (\<lambda>b.
               sbind (kv_wr (kv_write_batch [Put NODES (hash_bytes nid) b])) (\<lambda>_.
               sok True))))"

end
