(* ===== verification/Join.thy ===== *)
theory Join
  imports Node Belnap
begin

text \<open>
  The merge of two copies of one content-addressed node (\<^verbatim>\<open>crates/mem-assert/src/join.rs\<close>),
  used by federation and by diff application. Every field outside the content id is folded
  by a rule of its own; the theory shows that the whole is a state-based replicated value in
  the sense of theory \<^verbatim>\<open>Crdt\<close>, so replicas converge whatever the order of gossip.
\<close>

section \<open>Operations\<close>

fun status_rank :: "status \<Rightarrow> u8" where
  "status_rank Active = 0"
| "status_rank Superseded = 1"
| "status_rank Archived = 2"

fun trust_conservatism :: "trust_tier \<Rightarrow> u8" where
  "trust_conservatism InferredAdvisory = 0"
| "trust_conservatism AgentAsserted = 1"
| "trust_conservatism HumanConfirmed = 2"
| "trust_conservatism DerivedDeterministic = 3"

definition less_trusted :: "trust_tier \<Rightarrow> trust_tier \<Rightarrow> trust_tier" where
  "less_trusted a b = (if trust_conservatism a \<le> trust_conservatism b then a else b)"

definition embedding_key :: "versioned_vector \<Rightarrow> string \<times> u32 list" where
  "embedding_key v = (vv_model v, vv_data v)"

definition min_embedding ::
    "versioned_vector option \<Rightarrow> versioned_vector option \<Rightarrow> versioned_vector option" where
  "min_embedding a b =
     (case (a, b) of
        (None, x) \<Rightarrow> x
      | (x, None) \<Rightarrow> x
      | (Some x, Some y) \<Rightarrow> if embedding_key x \<le> embedding_key y then Some x else Some y)"

definition min_opt_bytes :: "bytes option \<Rightarrow> bytes option \<Rightarrow> bytes option" where
  "min_opt_bytes a b =
     (case (a, b) of
        (None, x) \<Rightarrow> x
      | (x, None) \<Rightarrow> x
      | (Some x, Some y) \<Rightarrow> if x \<le> y then Some x else Some y)"

definition anchor_key :: "code_anchor \<Rightarrow> string \<times> string \<times> string option \<times> u32 \<times> u32" where
  "anchor_key c = (ca_repo c, ca_path c, ca_symbol c, ca_line_start c, ca_line_end c)"

fun dedup_by_key :: "code_anchor list \<Rightarrow> code_anchor list" where
  "dedup_by_key (x # y # r) =
     (if anchor_key x = anchor_key y then dedup_by_key (x # r) else x # dedup_by_key (y # r))"
| "dedup_by_key r = r"

definition union_anchors :: "code_anchor list \<Rightarrow> code_anchor list \<Rightarrow> code_anchor list" where
  "union_anchors a b = dedup_by_key (sort_key anchor_key (a @ b))"

definition merge_valid_to :: "timestamp option \<Rightarrow> timestamp option \<Rightarrow> timestamp option" where
  "merge_valid_to a b =
     (case (a, b) of
        (Some x, Some y) \<Rightarrow> Some (min x y)
      | (Some x, None) \<Rightarrow> Some x
      | (None, b) \<Rightarrow> b)"

definition merge_node :: "memory_node \<Rightarrow> memory_node \<Rightarrow> memory_node \<times> bool \<times> nat" where
  "merge_node local remote =
     (let joined = join_confidence (n_confidence local) (n_confidence remote);
          contradictions = length (filter (\<lambda>i. is_contradiction (joined ! i) \<and>
             \<not> is_contradiction (get_or_neither (n_confidence local) i)) [0..<length joined]);
          merged = local\<lparr>n_confidence := joined\<rparr>;
          merged =
            (if status_rank (n_status remote) > status_rank (n_status merged)
             then merged\<lparr>n_status := n_status remote, n_valid_to := n_valid_to remote\<rparr>
             else if n_status remote = n_status merged
             then merged\<lparr>n_valid_to := merge_valid_to (n_valid_to merged) (n_valid_to remote)\<rparr>
             else merged);
          merged = merged\<lparr>
            n_trust_tier := less_trusted (n_trust_tier local) (n_trust_tier remote),
            n_embedding := min_embedding (n_embedding local) (n_embedding remote),
            n_signature := min_opt_bytes (n_signature local) (n_signature remote),
            n_anchors := union_anchors (n_anchors local) (n_anchors remote),
            n_valid_from := min (n_valid_from local) (n_valid_from remote),
            n_observed_at := min (n_observed_at local) (n_observed_at remote)\<rparr>
      in (merged, \<not> node_eq merged local, contradictions))"

section \<open>The field rules\<close>

lemma status_rank_inject [simp]: "status_rank a = status_rank b \<longleftrightarrow> a = b"
  by (cases a; cases b) simp_all

lemma trust_conservatism_inject [simp]: "trust_conservatism a = trust_conservatism b \<longleftrightarrow> a = b"
  by (cases a; cases b) simp_all

lemma less_trusted_laws:
  "less_trusted a a = a" "less_trusted a b = less_trusted b a"
  "less_trusted (less_trusted a b) c = less_trusted a (less_trusted b c)"
proof -
  show "less_trusted a a = a" by (simp add: less_trusted_def)
  show "less_trusted a b = less_trusted b a" by (auto simp: less_trusted_def)
  show "less_trusted (less_trusted a b) c = less_trusted a (less_trusted b c)"
    by (auto simp: less_trusted_def)
qed

lemma embedding_key_inject [simp]: "embedding_key v = embedding_key w \<longleftrightarrow> v = w"
  by (cases v; cases w) (simp add: embedding_key_def)

text \<open>Both option rules are the minimum of an injective key with absence as the neutral element.\<close>

definition opt_min :: "('a \<Rightarrow> 'k::linorder) \<Rightarrow> 'a option \<Rightarrow> 'a option \<Rightarrow> 'a option" where
  "opt_min f a b =
     (case a of None \<Rightarrow> b
      | Some x \<Rightarrow> (case b of None \<Rightarrow> a | Some y \<Rightarrow> if f x \<le> f y then a else b))"

lemma opt_min_laws:
  assumes "inj f"
  shows "opt_min f a a = a" "opt_min f a b = opt_min f b a"
    "opt_min f (opt_min f a b) c = opt_min f a (opt_min f b c)"
proof -
  show "opt_min f a a = a" by (simp add: opt_min_def split: option.split)
  show "opt_min f a b = opt_min f b a"
    using injD [OF assms] by (auto simp: opt_min_def split: option.split)
  show "opt_min f (opt_min f a b) c = opt_min f a (opt_min f b c)"
    by (auto simp: opt_min_def split: option.split)
qed

lemma min_embedding_eq: "min_embedding = opt_min embedding_key"
  by (auto simp: fun_eq_iff min_embedding_def opt_min_def split: option.split)

lemma min_opt_bytes_eq: "min_opt_bytes = opt_min (\<lambda>b. b)"
  by (auto simp: fun_eq_iff min_opt_bytes_def opt_min_def split: option.split)

lemma merge_valid_to_eq: "merge_valid_to = opt_min (\<lambda>b. b)"
  by (auto simp: fun_eq_iff merge_valid_to_def opt_min_def split: option.split)

lemma anchor_key_inject [simp]: "anchor_key c = anchor_key d \<longleftrightarrow> c = d"
  by (cases c; cases d) (simp add: anchor_key_def)

lemma inj_keys: "inj embedding_key" "inj (\<lambda>b. b)" "inj anchor_key"
  by (auto simp: inj_def)

lemmas option_rules = min_embedding_eq min_opt_bytes_eq merge_valid_to_eq

section \<open>Anchors as a sorted set\<close>

definition anchors_ok :: "code_anchor list \<Rightarrow> bool" where
  "anchors_ok l \<longleftrightarrow> sorted_wrt (<) (map anchor_key l)"

lemma dedup_set [simp]: "set (dedup_by_key l) = set l"
  by (induction l rule: dedup_by_key.induct) auto

lemma dedup_hd: "l \<noteq> [] \<Longrightarrow> dedup_by_key l \<noteq> [] \<and> hd (dedup_by_key l) = hd l"
  by (induction l rule: dedup_by_key.induct) auto

lemma dedup_sorted: "sorted (map anchor_key l) \<Longrightarrow> anchors_ok (dedup_by_key l)"
proof (induction l rule: dedup_by_key.induct)
  case (1 x y r)
  show ?case
  proof (cases "x = y")
    case True
    with 1 show ?thesis by simp
  next
    case False
    with 1 have ok: "anchors_ok (dedup_by_key (y # r))" and lt: "anchor_key x < anchor_key y" by (auto simp: less_le)
    have "anchor_key x < anchor_key z" if "z \<in> set (dedup_by_key (y # r))" for z
    proof -
      have "anchor_key y \<le> anchor_key z" using that 1(3) by auto
      with lt show ?thesis by simp
    qed
    with ok False show ?thesis by (simp add: anchors_ok_def)
  qed
qed (simp_all add: anchors_ok_def)

lemma union_anchors_ok [simp]: "anchors_ok (union_anchors a b)"
  by (simp add: union_anchors_def dedup_sorted)

lemma union_anchors_set [simp]: "set (union_anchors a b) = set a \<union> set b"
  by (simp add: union_anchors_def)

lemma anchors_unique:
  assumes "anchors_ok a" "anchors_ok b" "set a = set b"
  shows "a = b"
proof -
  have "map anchor_key a = map anchor_key b"
    by (rule strict_sorted_equal) (use assms in \<open>simp_all add: anchors_ok_def\<close>)
  with inj_keys(3) show ?thesis by (simp add: inj_map_eq_map)
qed

lemma union_anchors_laws:
  "anchors_ok a \<Longrightarrow> union_anchors a a = a" "union_anchors a b = union_anchors b a"
  "union_anchors (union_anchors a b) c = union_anchors a (union_anchors b c)"
  by (rule anchors_unique; auto)+

section \<open>The node merge is a join\<close>

abbreviation node_join :: "memory_node \<Rightarrow> memory_node \<Rightarrow> memory_node" where
  "node_join a b \<equiv> fst (merge_node a b)"

text \<open>Status and end of validity move together: the higher rank wins, equal ranks keep the
  earliest end.\<close>

definition join_status ::
    "status \<times> timestamp option \<Rightarrow> status \<times> timestamp option \<Rightarrow> status \<times> timestamp option" where
  "join_status p q =
     (if status_rank (fst q) > status_rank (fst p) then q
      else if fst q = fst p then (fst p, merge_valid_to (snd p) (snd q)) else p)"

lemma join_status_laws:
  "join_status p p = p" "join_status p q = join_status q p"
  "join_status (join_status p q) r = join_status p (join_status q r)"
proof -
  note laws = opt_min_laws [OF inj_keys(2)]
  show "join_status p p = p" by (cases p) (simp add: join_status_def option_rules laws(1))
  show "join_status p q = join_status q p"
    by (cases p; cases q) (auto simp: join_status_def option_rules laws(2))
  show "join_status (join_status p q) r = join_status p (join_status q r)"
    by (cases p; cases q; cases r) (auto simp: join_status_def option_rules laws(3))
qed

lemma node_join_fields:
  "identity_of (node_join a b) = identity_of a"
  "n_confidence (node_join a b) = join_confidence (n_confidence a) (n_confidence b)"
  "(n_status (node_join a b), n_valid_to (node_join a b)) =
     join_status (n_status a, n_valid_to a) (n_status b, n_valid_to b)"
  "n_trust_tier (node_join a b) = less_trusted (n_trust_tier a) (n_trust_tier b)"
  "n_embedding (node_join a b) = min_embedding (n_embedding a) (n_embedding b)"
  "n_signature (node_join a b) = min_opt_bytes (n_signature a) (n_signature b)"
  "n_anchors (node_join a b) = union_anchors (n_anchors a) (n_anchors b)"
  "n_valid_from (node_join a b) = min (n_valid_from a) (n_valid_from b)"
  "n_observed_at (node_join a b) = min (n_observed_at a) (n_observed_at b)"
  by (auto simp: merge_node_def Let_def identity_of_def join_status_def)

lemma node_eqI:
  assumes "identity_of a = identity_of b" "n_confidence a = n_confidence b"
    "(n_status a, n_valid_to a) = (n_status b, n_valid_to b)" "n_trust_tier a = n_trust_tier b"
    "n_embedding a = n_embedding b" "n_signature a = n_signature b" "n_anchors a = n_anchors b"
    "n_valid_from a = n_valid_from b" "n_observed_at a = n_observed_at b"
  shows "a = (b :: memory_node)"
  using assms by (cases a; cases b) (simp add: identity_of_def)

definition mergeable :: "memory_node \<Rightarrow> memory_node \<Rightarrow> bool" where
  "mergeable k n \<longleftrightarrow> identity_of n = identity_of k \<and> anchors_ok (n_anchors n)"

interpretation node_merge: crdt_join node_join "mergeable k" for k
proof
  note laws = opt_min_laws [OF inj_keys(1)] opt_min_laws [OF inj_keys(2)]
  fix a b c
  show "mergeable k (node_join a b)" if "mergeable k a" "mergeable k b"
    using that by (simp add: mergeable_def node_join_fields)
  show "node_join (node_join a b) c = node_join a (node_join b c)"
    if "mergeable k a" "mergeable k b" "mergeable k c"
    by (rule node_eqI) (simp_all only: node_join_fields join_status_laws(3) join_confidence_assoc
        less_trusted_laws(3) union_anchors_laws(3) option_rules laws(3,6) min.assoc prod.collapse)
  show "node_join a b = node_join b a" if "mergeable k a" "mergeable k b"
    by (rule node_eqI) (use that in \<open>simp_all only: node_join_fields join_status_laws(2)
        join_confidence_commute less_trusted_laws(2) union_anchors_laws(2) option_rules laws(2,5) min.commute mergeable_def\<close>)
  show "node_join a a = a" if "mergeable k a"
    by (rule node_eqI) (use that in \<open>simp_all add: node_join_fields join_status_laws(1)
        less_trusted_laws(1) union_anchors_laws(1) option_rules laws(1,4) mergeable_def\<close>)
qed

text \<open>C27. Replicas converge: two replicas that hold the same copy of a node and have merged the same
  set of remote copies of it, in any order, with any repetitions, hold equal nodes. Every
  field takes part: confidence, status, validity, trust tier, embedding, signature and
  anchors.\<close>

theorem node_merge_converges:
  assumes "mergeable k a" "\<forall>x \<in> set xs. mergeable k x" "set xs = set ys"
  shows "foldl (\<lambda>m n. fst (merge_node m n)) a xs = foldl (\<lambda>m n. fst (merge_node m n)) a ys"
  by (rule node_merge.converge [OF assms])

text \<open>C27, at a correction and a weaker observation arriving in both orders, one of them twice.\<close>

theorem node_merge_converges_witness:
  "foldl (\<lambda>m n. fst (merge_node m n)) sample_node
     [sample_node\<lparr>n_status := Superseded, n_valid_to := Some 9\<rparr>, sample_node\<lparr>n_confidence := [BFalse]\<rparr>] =
   foldl (\<lambda>m n. fst (merge_node m n)) sample_node
     [sample_node\<lparr>n_confidence := [BFalse]\<rparr>, sample_node\<lparr>n_status := Superseded, n_valid_to := Some 9\<rparr>,
      sample_node\<lparr>n_confidence := [BFalse]\<rparr>]"
  by (rule node_merge_converges [where k = sample_node])
    (auto simp: mergeable_def identity_of_def anchors_ok_def sample_node_def)

lemma less_trusted_le:
  "trust_conservatism (less_trusted a b) = min (trust_conservatism a) (trust_conservatism b)"
  by (auto simp: less_trusted_def min_def)

lemma join_status_rank:
  "status_rank (fst (join_status p q)) = max (status_rank (fst p)) (status_rank (fst q))"
  by (auto simp: join_status_def max_def)

text \<open>A merge only moves a node one way: its content id stays, its status never returns to an
  earlier stage, it is trusted no more than its less trusted copy, no anchor and no evidence
  is lost, and a dimension reads as contradictory exactly when a side already was or the two
  sides disagree; the count returned is the number of dimensions that became contradictory.\<close>

theorem node_merge_is_monotone:
  "compute_id H (fst (merge_node a b)) = compute_id H a \<and>
   status_rank (n_status (fst (merge_node a b))) = max (status_rank (n_status a)) (status_rank (n_status b)) \<and>
   trust_conservatism (n_trust_tier (fst (merge_node a b))) =
     min (trust_conservatism (n_trust_tier a)) (trust_conservatism (n_trust_tier b)) \<and>
   set (n_anchors (fst (merge_node a b))) = set (n_anchors a) \<union> set (n_anchors b) \<and>
   knows_le (get_or_neither (n_confidence a) i) (get_or_neither (n_confidence (fst (merge_node a b))) i) \<and>
   knows_le (get_or_neither (n_confidence b) i) (get_or_neither (n_confidence (fst (merge_node a b))) i) \<and>
   snd (snd (merge_node a b)) = card {j. is_contradiction (get_or_neither (n_confidence (fst (merge_node a b))) j) \<and>
     \<not> is_contradiction (get_or_neither (n_confidence a) j)}"
proof (intro conjI)
  let ?j = "join_confidence (n_confidence a) (n_confidence b)"
  show "compute_id H (fst (merge_node a b)) = compute_id H a"
    by (rule compute_id_cong) (simp add: node_join_fields)
  show "status_rank (n_status (fst (merge_node a b))) = max (status_rank (n_status a)) (status_rank (n_status b))"
    using node_join_fields(3) [of a b] join_status_rank [of "(n_status a, n_valid_to a)" "(n_status b, n_valid_to b)"]
    by (metis fst_conv)
  show "knows_le (get_or_neither (n_confidence a) i) (get_or_neither (n_confidence (fst (merge_node a b))) i)"
    "knows_le (get_or_neither (n_confidence b) i) (get_or_neither (n_confidence (fst (merge_node a b))) i)"
    by (simp_all add: node_join_fields)
      (cases "get_or_neither (n_confidence a) i"; cases "get_or_neither (n_confidence b) i"; simp add: knows_le_def)+
  have "{j. is_contradiction (get_or_neither ?j j) \<and> \<not> is_contradiction (get_or_neither (n_confidence a) j)} =
      set (filter (\<lambda>i. is_contradiction (?j ! i) \<and> \<not> is_contradiction (get_or_neither (n_confidence a) i)) [0..<length ?j])"
    by (auto simp: get_or_neither_def is_contradiction_def simp del: length_join_confidence split: if_splits)
  moreover have "snd (snd (merge_node a b)) = length (filter (\<lambda>i. is_contradiction (?j ! i) \<and>
      \<not> is_contradiction (get_or_neither (n_confidence a) i)) [0..<length ?j])"
    by (simp add: merge_node_def Let_def)
  ultimately show "snd (snd (merge_node a b)) = card {j. is_contradiction (get_or_neither (n_confidence (fst (merge_node a b))) j) \<and>
     \<not> is_contradiction (get_or_neither (n_confidence a) j)}"
    by (simp only: node_join_fields) (rule distinct_card [symmetric], simp)
qed (simp_all add: node_join_fields less_trusted_le)

end
