(* ===== verification/Asserter.thy ===== *)
theory Asserter
  imports Store Join
begin

text \<open>
  The Asserted-plane write path (\<^verbatim>\<open>crates/mem-assert/src/lib.rs\<close>): signing identities, signed
  nodes and edges, their verification, session diffs, and \<^verbatim>\<open>apply_diff\<close> with all its checks.
  The wall clock is the argument \<open>now\<close>. The checks only read the store, so the operation is
  written as two plans (what nodes and what edges to write) followed by the writes, in the
  order the code makes them.
\<close>

section \<open>Data\<close>

datatype assert_error =
    Unsigned | BadSignature | BadAuthor | StoreError store_error | SupersessionError supersession_error
  | SerdeError string | NotAssertable string | NotAuthor string | EdgePromotion string

record asserter =
  as_pubkey_hex :: string
  as_sk :: key256

record blame_answer =
  bl_author :: string
  bl_plane :: plane
  bl_trust_tier :: trust_tier

record memory_diff =
  md_author :: string
  md_created_at_ms :: u64
  md_nodes :: "memory_node list"
  md_edges :: "edge list"

record merge_report =
  mg_nodes :: nat
  mg_edges :: nat
  mg_superseded :: nat
  mg_unembedded :: nat

section \<open>Signing\<close>

definition new_asserter :: "externals \<Rightarrow> key256 \<Rightarrow> asserter" where
  "new_asserter X sk = \<lparr>as_pubkey_hex = hex_encode X (hash_bytes (ed25519_public X sk)), as_sk = sk\<rparr>"

definition principal_preimage :: "key256 \<Rightarrow> string \<Rightarrow> bytes" where
  "principal_preimage gateway_sk sub =
     as_bytes ''mem-assert:principal-subkey:v1'' @ hash_bytes gateway_sk @ nat_le 8 (length sub) @ as_bytes sub"

definition for_principal :: "externals \<Rightarrow> key256 \<Rightarrow> string \<Rightarrow> asserter" where
  "for_principal X gateway_sk sub = new_asserter X (blake3 X (principal_preimage gateway_sk sub))"

definition assert_node_with ::
    "externals \<Rightarrow> asserter \<Rightarrow> string \<Rightarrow> node_kind \<Rightarrow> string \<Rightarrow> u64 \<Rightarrow> u64 \<Rightarrow>
     versioned_vector option \<Rightarrow> memory_node" where
  "assert_node_with X self repo kind content valid_from_ms observed_at_ms embedding =
     (let key = ''assert:'' @ take 16 (hex_encode X (hash_bytes (blake3 X (as_bytes content))));
          node = \<lparr>n_schema_version = SCHEMA_VERSION, n_plane = Asserted, n_kind = kind, n_repo = repo,
            n_author = as_pubkey_hex self, n_source_ref = DagNative key, n_content = as_bytes content,
            n_valid_from = valid_from_ms, n_valid_to = None, n_observed_at = observed_at_ms,
            n_trust_tier = AgentAsserted, n_signature = None, n_embedding = embedding,
            n_confidence = [BTrue], n_anchors = [], n_status = Active\<rparr>
      in node\<lparr>n_signature := Some (ed25519_sign X (as_sk self) (hash_bytes (node_id X node)))\<rparr>)"

definition assert_node ::
    "externals \<Rightarrow> asserter \<Rightarrow> string \<Rightarrow> node_kind \<Rightarrow> string \<Rightarrow> u64 \<Rightarrow> memory_node" where
  "assert_node X self repo kind content now_ms = assert_node_with X self repo kind content now_ms now_ms None"

definition assert_edge ::
    "externals \<Rightarrow> asserter \<Rightarrow> content_hash \<Rightarrow> content_hash \<Rightarrow> edge_kind \<Rightarrow> u64 \<Rightarrow> edge" where
  "assert_edge X self src tgt kind now_ms =
     (let edge = \<lparr>e_from = src, e_to = tgt, e_kind = kind, e_plane = Asserted, e_trust_tier = AgentAsserted,
            e_provenance = \<lparr>p_method = Manual, p_asserter = as_pubkey_hex self, p_at = now_ms, p_evidence = None\<rparr>,
            e_confidence = [BTrue], e_quarantined = False, e_signature = None\<rparr>
      in edge\<lparr>e_signature := Some (ed25519_sign X (as_sk self) (edge_key edge))\<rparr>)"

definition propose_edge ::
    "externals \<Rightarrow> asserter \<Rightarrow> content_hash \<Rightarrow> content_hash \<Rightarrow> edge_kind \<Rightarrow> edge_method \<Rightarrow>
     string option \<Rightarrow> u64 \<Rightarrow> edge" where
  "propose_edge X self src tgt kind meth evidence now_ms =
     (let edge = \<lparr>e_from = src, e_to = tgt, e_kind = kind, e_plane = Asserted, e_trust_tier = InferredAdvisory,
            e_provenance = \<lparr>p_method = meth, p_asserter = as_pubkey_hex self, p_at = now_ms, p_evidence = evidence\<rparr>,
            e_confidence = [BTrue], e_quarantined = True, e_signature = None\<rparr>
      in edge\<lparr>e_signature := Some (ed25519_sign X (as_sk self) (edge_key edge))\<rparr>)"

section \<open>Verification\<close>

definition verify_sig :: "externals \<Rightarrow> string \<Rightarrow> bytes \<Rightarrow> bytes option \<Rightarrow> (assert_error, unit) result" where
  "verify_sig X pubkey_hex msg sig =
     rbind (ok_or Unsigned sig) (\<lambda>sig.
     rbind (map_err (\<lambda>_. BadAuthor) (hex_decode X pubkey_hex)) (\<lambda>pk_bytes.
     rbind (ok_or BadAuthor (try_into_32 pk_bytes)) (\<lambda>pk.
     if length sig \<noteq> 64 then Inl BadSignature
     else if \<not> ed25519_key_ok X pk then Inl BadAuthor
     else if ed25519_verify_strict X pk msg sig then Inr () else Inl BadSignature)))"

fun plane_debug :: "plane \<Rightarrow> string" where
  "plane_debug Derived = ''Derived''"
| "plane_debug Asserted = ''Asserted''"

fun tier_debug :: "trust_tier \<Rightarrow> string" where
  "tier_debug DerivedDeterministic = ''DerivedDeterministic''"
| "tier_debug AgentAsserted = ''AgentAsserted''"
| "tier_debug InferredAdvisory = ''InferredAdvisory''"
| "tier_debug HumanConfirmed = ''HumanConfirmed''"

definition assertable_plane_and_tier :: "plane \<Rightarrow> trust_tier \<Rightarrow> (assert_error, unit) result" where
  "assertable_plane_and_tier pl tier =
     (if pl \<noteq> Asserted then
        Inl (NotAssertable (''plane must be Asserted on the assert path, got '' @ plane_debug pl))
      else if tier \<notin> {AgentAsserted, InferredAdvisory} then
        Inl (NotAssertable (''trust_tier must be AgentAsserted or InferredAdvisory, got '' @ tier_debug tier))
      else Inr ())"

definition verify_node :: "externals \<Rightarrow> memory_node \<Rightarrow> (assert_error, unit) result" where
  "verify_node X node =
     rbind (assertable_plane_and_tier (n_plane node) (n_trust_tier node)) (\<lambda>_.
     verify_sig X (n_author node) (hash_bytes (node_id X node)) (n_signature node))"

definition verify_edge :: "externals \<Rightarrow> edge \<Rightarrow> (assert_error, unit) result" where
  "verify_edge X edge =
     rbind (assertable_plane_and_tier (e_plane edge) (e_trust_tier edge)) (\<lambda>_.
     verify_sig X (p_asserter (e_provenance edge)) (edge_key edge) (e_signature edge))"

definition blame :: "memory_node \<Rightarrow> blame_answer" where
  "blame node = \<lparr>bl_author = n_author node, bl_plane = n_plane node, bl_trust_tier = n_trust_tier node\<rparr>"

section \<open>Diffs\<close>

definition new_diff :: "string \<Rightarrow> u64 \<Rightarrow> memory_diff" where
  "new_diff author now_ms = \<lparr>md_author = author, md_created_at_ms = now_ms, md_nodes = [], md_edges = []\<rparr>"

definition diff_add_node :: "memory_node \<Rightarrow> memory_diff \<Rightarrow> memory_diff" where
  "diff_add_node n d = d\<lparr>md_nodes := md_nodes d @ [n]\<rparr>"

definition diff_add_edge :: "edge \<Rightarrow> memory_diff \<Rightarrow> memory_diff" where
  "diff_add_edge e d = d\<lparr>md_edges := md_edges d @ [e]\<rparr>"

definition verify_diff :: "externals \<Rightarrow> memory_diff \<Rightarrow> (assert_error, unit) result" where
  "verify_diff X d =
     rbind (rfold (\<lambda>n _. verify_node X n) (md_nodes d) ()) (\<lambda>_.
     rfold (\<lambda>e _. verify_edge X e) (md_edges d) ())"

section \<open>Applying a diff\<close>

definition inserted_by_key :: "edge \<Rightarrow> bytes" where
  "inserted_by_key e = as_bytes ''edge-inserted-by:'' @ edge_key e"

definition needs_second_party :: "edge_kind \<Rightarrow> bool" where
  "needs_second_party kind \<longleftrightarrow> kind \<in> {Supersedes, Refutes, Contradicts}"

definition RELAY_CLOCK_SKEW_MS :: u64 where
  "RELAY_CLOCK_SKEW_MS = 300000"

definition saturating_add :: "u64 \<Rightarrow> u64 \<Rightarrow> u64" where
  "saturating_add a b = (if unat a + unat b < 2 ^ 64 then a + b else - 1)"

definition saturating_sub :: "u64 \<Rightarrow> u64 \<Rightarrow> u64" where
  "saturating_sub a b = (if b \<le> a then a - b else 0)"

definition abs_diff :: "u64 \<Rightarrow> u64 \<Rightarrow> u64" where
  "abs_diff a b = (if a \<le> b then b - a else a - b)"

definition is_as_asserted :: "memory_node \<Rightarrow> u64 \<Rightarrow> bool" where
  "is_as_asserted n now_ms \<longleftrightarrow>
     n_status n = Active \<and> n_valid_to n = None \<and> n_confidence n = [BTrue] \<and>
     n_trust_tier n = AgentAsserted \<and> n_anchors n = [] \<and> n_valid_from n \<le> n_observed_at n \<and>
     n_observed_at n \<le> saturating_add now_ms RELAY_CLOCK_SKEW_MS"

definition incoming_node :: "u64 \<Rightarrow> bool \<Rightarrow> memory_node \<Rightarrow> memory_node" where
  "incoming_node now own n =
     (if own then n
      else let floor = saturating_sub now RELAY_CLOCK_SKEW_MS
           in n\<lparr>n_embedding := None, n_valid_from := max (n_valid_from n) floor,
                n_observed_at := max (n_observed_at n) floor\<rparr>)"

definition plan_node ::
    "externals \<Rightarrow> u64 \<Rightarrow> string option \<Rightarrow> dag_store \<Rightarrow> memory_node \<Rightarrow> memory_node list \<times> nat \<Rightarrow>
     (assert_error, memory_node list \<times> nat) result" where
  "plan_node X now caller s n = (\<lambda>(to_write, unembedded).
     let nid = node_id X n;
         own = (caller = Some (n_author n));
         incoming = incoming_node now own n
     in rbind (map_err StoreError (get_node X nid s)) (\<lambda>found.
        case found of
          None \<Rightarrow>
            if \<not> own \<and> \<not> is_as_asserted n now then
              Inl (NotAuthor (''node '' @ take 12 (to_hex (hex_encode X) nid) @
                '' (first insert by a non-author must carry the as-asserted state)''))
            else Inr (to_write @ [incoming],
                      if \<not> own \<and> n_embedding n \<noteq> None then unembedded + 1 else unembedded)
        | Some stored \<Rightarrow>
            (case merge_node stored incoming of (joined, changed, _) \<Rightarrow>
               if \<not> changed then Inr (to_write, unembedded)
               else if \<not> own then Inl (NotAuthor (''node '' @ take 12 (to_hex (hex_encode X) nid)))
               else Inr (to_write @ [joined], unembedded))))"

fun edge_kind_debug :: "edge_kind \<Rightarrow> string" where
  "edge_kind_debug TemporalNext = ''TemporalNext''"
| "edge_kind_debug MergeParent = ''MergeParent''"
| "edge_kind_debug Supersedes = ''Supersedes''"
| "edge_kind_debug DependsOn = ''DependsOn''"
| "edge_kind_debug CausedBy = ''CausedBy''"
| "edge_kind_debug Motivates = ''Motivates''"
| "edge_kind_debug Implements = ''Implements''"
| "edge_kind_debug Decides = ''Decides''"
| "edge_kind_debug Refutes = ''Refutes''"
| "edge_kind_debug Contradicts = ''Contradicts''"
| "edge_kind_debug DerivedFrom = ''DerivedFrom''"
| "edge_kind_debug AnalogousTo = ''AnalogousTo''"
| "edge_kind_debug References = ''References''"
| "edge_kind_debug AnchoredTo = ''AnchoredTo''"
| "edge_kind_debug Emits = ''Emits''"
| "edge_kind_debug Touches = ''Touches''"
| "edge_kind_debug BranchContains = ''BranchContains''"

text \<open>The \<^verbatim>\<open>Display\<close> texts of the errors.\<close>

fun store_error_text :: "store_error \<Rightarrow> string" where
  "store_error_text (Backend m) = ''backend error: '' @ m"
| "store_error_text (Serde m) = ''serialization error: '' @ m"
| "store_error_text (Crypto m) = ''crypto error: '' @ m"

fun supersession_error_text :: "supersession_error \<Rightarrow> string" where
  "supersession_error_text (NotSupersedes k) = ''edge kind is '' @ edge_kind_debug k @ '', not Supersedes''"
| "supersession_error_text SelfSupersede = ''a node cannot supersede itself''"
| "supersession_error_text (MissingNode h) = ''node '' @ h @ '' not in store''"
| "supersession_error_text Cycle = ''edge would close a supersession cycle''"
| "supersession_error_text Quarantined = ''edge is quarantined (a proposal, not a load-bearing supersession)''"
| "supersession_error_text PlaneViolation = ''an Asserted-plane edge cannot supersede a Derived-plane node''"
| "supersession_error_text (StoreErr e) = store_error_text e"

fun assert_error_text :: "assert_error \<Rightarrow> string" where
  "assert_error_text Unsigned = ''assertion is unsigned''"
| "assert_error_text BadSignature = ''signature invalid''"
| "assert_error_text BadAuthor = ''author pubkey malformed''"
| "assert_error_text (StoreError e) = ''store error: '' @ store_error_text e"
| "assert_error_text (SupersessionError e) = ''supersession rejected: '' @ supersession_error_text e"
| "assert_error_text (SerdeError m) = ''serialization error: '' @ m"
| "assert_error_text (NotAssertable m) = ''not assertable: '' @ m"
| "assert_error_text (NotAuthor w) =
     ''not the author of existing '' @ w @ ''; refusing to change another principal's signed state''"
| "assert_error_text (EdgePromotion w) = ''diff may not promote quarantined edge '' @ w @ ''; use confirm_edge''"

definition label :: "externals \<Rightarrow> edge \<Rightarrow> string" where
  "label X e = ''edge '' @ take 10 (to_hex (hex_encode X) (e_from e)) @ ''->'' @
     take 10 (to_hex (hex_encode X) (e_to e)) @ '' '' @ edge_kind_debug (e_kind e)"

definition diff_node :: "externals \<Rightarrow> memory_diff \<Rightarrow> content_hash \<Rightarrow> memory_node option" where
  "diff_node X diff nid = List.find (\<lambda>n. node_id X n = nid) (md_nodes diff)"

definition target_author :: "externals \<Rightarrow> memory_diff \<Rightarrow> edge \<Rightarrow> dag_store \<Rightarrow> (assert_error, string option) result" where
  "target_author X diff e s =
     (if needs_second_party (e_kind e) then
        (case diff_node X diff (e_to e) of
           Some n \<Rightarrow> Inr (Some (n_author n))
         | None \<Rightarrow> rbind (map_err StoreError (get_node X (e_to e) s)) (\<lambda>r. Inr (map_option n_author r)))
      else Inr None)"

text \<open>The checks on the copy of the edge that is already stored: refuse, skip, or go on.\<close>

datatype edge_verdict = Skip | GoOn | Refuse assert_error

definition stored_verdict :: "externals \<Rightarrow> string option \<Rightarrow> edge option \<Rightarrow> edge \<Rightarrow> edge_verdict" where
  "stored_verdict X caller stored e =
     (case stored of
        None \<Rightarrow> GoOn
      | Some st \<Rightarrow>
          if st = e then Skip
          else
            let by_asserter = (caller = Some (p_asserter (e_provenance st)))
            in if e_quarantined st \<and> \<not> e_quarantined e \<and> \<not> by_asserter then Refuse (EdgePromotion (label X e))
               else if e_quarantined e \<and> \<not> e_quarantined st then Skip
               else if \<not> by_asserter then Refuse (NotAuthor (label X e))
               else GoOn)"

definition proposal_refusal ::
    "externals \<Rightarrow> u64 \<Rightarrow> string option \<Rightarrow> edge \<Rightarrow> string option \<Rightarrow> assert_error option" where
  "proposal_refusal X now caller e author_opt =
     (if needs_second_party (e_kind e) \<and> e_quarantined e then
        (case author_opt of
           None \<Rightarrow> None
         | Some author \<Rightarrow>
             if e_kind e = Supersedes \<and> caller \<noteq> Some author \<and>
                abs_diff (p_at (e_provenance e)) now > RELAY_CLOCK_SKEW_MS then
               Some (NotAuthor (label X e @ '' (supersedes proposal on another principal's node must be timestamped now)''))
             else if caller \<noteq> Some author \<and> caller \<noteq> Some (p_asserter (e_provenance e)) then
               Some (NotAuthor (label X e @ '' (proposal contesting another principal's node must be signed by the caller)''))
             else None)
      else None)"

definition plan_edge ::
    "externals \<Rightarrow> u64 \<Rightarrow> string option \<Rightarrow> memory_diff \<Rightarrow> dag_store \<Rightarrow> edge \<Rightarrow> edge list \<times> edge list \<Rightarrow>
     (assert_error, edge list \<times> edge list) result" where
  "plan_edge X now caller diff s e = (\<lambda>(plain, supersessions).
     rbind (map_err StoreError (out_edges X (e_from e) s)) (\<lambda>es.
     let stored = List.find (\<lambda>x. e_to x = e_to e \<and> e_kind x = e_kind e) es in
     case stored_verdict X caller stored e of
       Skip \<Rightarrow> Inr (plain, supersessions)
     | Refuse err \<Rightarrow> Inl err
     | GoOn \<Rightarrow>
         rbind (target_author X diff e s) (\<lambda>author_opt.
         case proposal_refusal X now caller e author_opt of
           Some err \<Rightarrow> Inl err
         | None \<Rightarrow>
             if e_kind e = Supersedes \<and> \<not> e_quarantined e then
               (if (\<exists>author. author_opt = Some author \<and> caller \<noteq> Some author)
                then Inl (NotAuthor (label X e @ '' (supersedes another principal's node)''))
                else Inr (plain, supersessions @ [e]))
             else if stored = None \<and> \<not> e_quarantined e \<and> caller \<noteq> Some (p_asserter (e_provenance e)) then
               Inl (NotAuthor (label X e @ '' (relayed load-bearing edge)''))
             else Inr (plain @ [e], supersessions))))"

definition record_inserter ::
    "externals \<Rightarrow> memory_diff \<Rightarrow> string \<Rightarrow> edge \<Rightarrow> unit \<Rightarrow> (dag_store, assert_error, unit) action" where
  "record_inserter X diff c e _ =
     sbind (case diff_node X diff (e_to e) of
              Some n \<Rightarrow> sok (Some (n_repo n))
            | None \<Rightarrow> (\<lambda>s. (map_err StoreError (rbind (get_node X (e_to e) s)
                (\<lambda>r. Inr (map_option n_repo r))), s))) (\<lambda>tenant.
     case tenant of
       None \<Rightarrow> sok ()
     | Some t \<Rightarrow> smap_err StoreError (put_meta X t (inserted_by_key e) (as_bytes c)))"

definition apply_one_supersession ::
    "externals \<Rightarrow> edge \<Rightarrow> nat \<Rightarrow> (dag_store, assert_error, nat) action" where
  "apply_one_supersession X e count =
     sbind (smap_err SupersessionError (apply_supersession X e)) (\<lambda>transitioned.
     sok (if transitioned then count + 1 else count))"

definition plan_diff ::
    "externals \<Rightarrow> u64 \<Rightarrow> memory_diff \<Rightarrow> string option \<Rightarrow> dag_store \<Rightarrow>
     (assert_error, (memory_node list \<times> nat) \<times> edge list \<times> edge list) result" where
  "plan_diff X now diff caller s =
     rbind (verify_diff X diff) (\<lambda>_.
     rbind (rfold (plan_node X now caller s) (md_nodes diff) ([], 0)) (\<lambda>np.
     rbind (rfold (plan_edge X now caller diff s) (md_edges diff) ([], [])) (\<lambda>ep.
     Inr (np, ep))))"

definition apply_diff ::
    "externals \<Rightarrow> u64 \<Rightarrow> memory_diff \<Rightarrow> string option \<Rightarrow> (dag_store, assert_error, merge_report) action" where
  "apply_diff X now diff caller =
     sbind (sread (plan_diff X now diff caller)) (\<lambda>((to_write, unembedded), plain, supersessions).
     sbind (smap_err StoreError (commit X to_write plain)) (\<lambda>_.
     sbind (case caller of
              None \<Rightarrow> sok ()
            | Some c \<Rightarrow> sfold (record_inserter X diff c)
                (filter (\<lambda>e. needs_second_party (e_kind e) \<and> e_quarantined e) plain) ()) (\<lambda>_.
     sbind (sfold (apply_one_supersession X) supersessions 0) (\<lambda>superseded.
     sok \<lparr>mg_nodes = length (md_nodes diff), mg_edges = length (md_edges diff),
          mg_superseded = superseded, mg_unembedded = unembedded\<rparr>))))"

end
