(* ===== verification/Ideal.thy ===== *)
theory Ideal
  imports Shred "HOL-Library.Countable"
begin

text \<open>
  A model of the called crates in which every law of \<^verbatim>\<open>externals_ok\<close> holds, so that no
  theorem of the development with that hypothesis is empty. Each stored type is countable;
  a value is written as a type tag followed by its number in unary, and read back from the
  length. Encryption appends nothing and authenticates by carrying key, nonce and associated
  data along. None of this is meant to resemble the real crates beyond the laws.
\<close>

section \<open>Counting the stored types\<close>

instance plane :: countable
  by countable_datatype

instance trust_tier :: countable
  by countable_datatype

instance status :: countable
  by countable_datatype

instance sprint_phase :: countable
  by countable_datatype

instance narrative_kind :: countable
  by countable_datatype

instance claim_status :: countable
  by countable_datatype

instance node_kind :: countable
  by countable_datatype

instance source_ref :: countable
  by countable_datatype

instance belnap_value :: countable
  by countable_datatype

instance edge_kind :: countable
  by countable_datatype

instance edge_method :: countable
  by countable_datatype

section \<open>Numbering the records\<close>

definition anchor_nat :: "code_anchor \<Rightarrow> nat" where
  "anchor_nat a = to_nat (ca_repo a, ca_path a, ca_symbol a, ca_line_start a, ca_line_end a)"

definition nat_anchor :: "nat \<Rightarrow> code_anchor" where
  "nat_anchor k = (case from_nat k of (a, b, c, d, e) \<Rightarrow>
     \<lparr>ca_repo = a, ca_path = b, ca_symbol = c, ca_line_start = d, ca_line_end = e\<rparr>)"

lemma nat_anchor_nat [simp]: "nat_anchor (anchor_nat a) = a"
  by (simp add: nat_anchor_def anchor_nat_def)

definition vector_nat :: "versioned_vector \<Rightarrow> nat" where
  "vector_nat v = to_nat (vv_model v, vv_data v)"

definition nat_vector :: "nat \<Rightarrow> versioned_vector" where
  "nat_vector k = (case from_nat k of (a, b) \<Rightarrow> \<lparr>vv_model = a, vv_data = b\<rparr>)"

lemma nat_vector_nat [simp]: "nat_vector (vector_nat v) = v"
  by (simp add: nat_vector_def vector_nat_def)

definition node_nat :: "memory_node \<Rightarrow> nat" where
  "node_nat n = to_nat (n_schema_version n, n_plane n, n_kind n, n_repo n, n_author n,
     n_source_ref n, n_content n, n_valid_from n, n_valid_to n, n_observed_at n,
     n_trust_tier n, n_signature n, map_option vector_nat (n_embedding n), n_confidence n,
     map anchor_nat (n_anchors n), n_status n)"

definition nat_node :: "nat \<Rightarrow> memory_node" where
  "nat_node k = (case from_nat k of (a, b, c, d, e, f, g, h, i, j, l, m, o', p, q, r) \<Rightarrow>
     \<lparr>n_schema_version = a, n_plane = b, n_kind = c, n_repo = d, n_author = e,
      n_source_ref = f, n_content = g, n_valid_from = h, n_valid_to = i, n_observed_at = j,
      n_trust_tier = l, n_signature = m, n_embedding = map_option nat_vector o',
      n_confidence = p, n_anchors = map nat_anchor q, n_status = r\<rparr>)"

lemma nat_node_nat [simp]: "nat_node (node_nat n) = n"
  by (simp add: nat_node_def node_nat_def comp_def option.map_comp option.map_ident)

definition edge_nat :: "edge \<Rightarrow> nat" where
  "edge_nat e = to_nat (e_from e, e_to e, e_kind e, e_plane e, e_trust_tier e,
     p_method (e_provenance e), p_asserter (e_provenance e), p_at (e_provenance e),
     p_evidence (e_provenance e), e_confidence e, e_quarantined e, e_signature e)"

definition nat_edge :: "nat \<Rightarrow> edge" where
  "nat_edge k = (case from_nat k of (a, b, c, d, e, f, g, h, i, j, l, m) \<Rightarrow>
     \<lparr>e_from = a, e_to = b, e_kind = c, e_plane = d, e_trust_tier = e,
      e_provenance = \<lparr>p_method = f, p_asserter = g, p_at = h, p_evidence = i\<rparr>,
      e_confidence = j, e_quarantined = l, e_signature = m\<rparr>)"

lemma nat_edge_nat [simp]: "nat_edge (edge_nat e) = e"
  by (simp add: nat_edge_def edge_nat_def)

definition env_nat :: "envelope \<Rightarrow> nat" where
  "env_nat e = to_nat (env_enc e, env_tenant e, env_kgen e, env_nonce e, env_ct e)"

definition nat_env :: "nat \<Rightarrow> envelope" where
  "nat_env k = (case from_nat k of (a, b, c, d, e) \<Rightarrow>
     \<lparr>env_enc = a, env_tenant = b, env_kgen = c, env_nonce = d, env_ct = e\<rparr>)"

lemma nat_env_nat [simp]: "nat_env (env_nat e) = e"
  by (simp add: nat_env_def env_nat_def)

definition keyring_nat :: "keyring_entry \<Rightarrow> nat" where
  "keyring_nat e = to_nat (kr_gen e, kr_key e)"

definition nat_keyring :: "nat \<Rightarrow> keyring_entry" where
  "nat_keyring k = (case from_nat k of (a, b) \<Rightarrow> \<lparr>kr_gen = a, kr_key = b\<rparr>)"

lemma nat_keyring_nat [simp]: "nat_keyring (keyring_nat e) = e"
  by (simp add: nat_keyring_def keyring_nat_def)

section \<open>The ideal crates\<close>

definition tagged :: "byte \<Rightarrow> nat \<Rightarrow> bytes" where
  "tagged t n = t # replicate n 0"

definition untag :: "byte \<Rightarrow> bytes \<Rightarrow> (string, nat) result" where
  "untag t b = (case b of [] \<Rightarrow> Inl ''eof'' | c # r \<Rightarrow> if c = t then Inr (length r) else Inl ''shape'')"

lemma untag_tagged [simp]: "untag t (tagged u n) = (if t = u then Inr n else Inl ''shape'')"
  by (simp add: untag_def tagged_def)

definition ideal_externals :: externals where
  "ideal_externals =
    \<lparr>blake3 = (\<lambda>b. of_nat (nat_of_le (rev b))),
     blake3_derive_key = (\<lambda>c k. k),
     blake3_keyed_xof24 = (\<lambda>k m. replicate NONCE_LEN 0),
     aead_encrypt = (\<lambda>k n a m. Some (tagged 0 (to_nat (k, n, a, m)))),
     aead_decrypt = (\<lambda>k n a c. (case untag 0 c of Inl _ \<Rightarrow> None
        | Inr i \<Rightarrow> (case from_nat i of (k', n', a', m) \<Rightarrow>
            if k' = k \<and> n' = n \<and> a' = a then Some m else None))),
     hex_encode = of_bytes,
     hex_decode = (\<lambda>s. Inr (as_bytes s)),
     getrandom = (\<lambda>i. Inr (of_nat i)),
     node_to_json = (\<lambda>n. Inr (tagged 1 (node_nat n))),
     node_from_json = (\<lambda>b. rbind (untag 1 b) (\<lambda>i. Inr (nat_node i))),
     edge_to_json = (\<lambda>n. Inr (tagged 2 (edge_nat n))),
     edge_from_json = (\<lambda>b. rbind (untag 2 b) (\<lambda>i. Inr (nat_edge i))),
     envelope_to_json = (\<lambda>n. Inr (tagged 3 (env_nat n))),
     envelope_from_json = (\<lambda>b. rbind (untag 3 b) (\<lambda>i. Inr (nat_env i))),
     keyring_to_json = (\<lambda>n. Inr (tagged 4 (keyring_nat n))),
     keyring_from_json = (\<lambda>b. rbind (untag 4 b) (\<lambda>i. Inr (nat_keyring i))),
     ed25519_public = (\<lambda>k. k),
     ed25519_sign = (\<lambda>k m. hash_bytes k @ replicate 32 0),
     ed25519_key_ok = (\<lambda>k. True),
     ed25519_verify_strict = (\<lambda>k m s. s = hash_bytes k @ replicate 32 0)\<rparr>"

lemma ideal_externals_ok: "externals_ok ideal_externals"
  by (simp add: externals_ok_def ideal_externals_def)

lemma ideal_externals_total: "externals_total ideal_externals"
  by (simp add: externals_total_def ideal_externals_def)

lemma ideal_ed25519_ok: "ed25519_ok ideal_externals"
  by (simp add: ed25519_ok_def ideal_externals_def)

text \<open>The ideal hash keeps the last byte of the content, which tells the sample nodes apart.\<close>

lemma ideal_id_last:
  assumes "n_content n = c @ [x]"
  shows "unat (compute_id (blake3 ideal_externals) n) mod 256 = unat x"
proof -
  have "\<exists>p. id_preimage n = p @ [x]"
    by (simp add: id_preimage_def field_def feed_raw_def assms)
  then obtain p where p: "id_preimage n = p @ [x]" by blast
  define k where "k = nat_of_le (rev (p @ [x]))"
  have "unat (of_nat k :: 256 word) mod 256 = k mod 256" by (simp add: unat_of_nat mod_mod_cancel)
  moreover have "k mod 256 = unat x" using unat_bound [of x] by (simp add: k_def)
  ultimately show ?thesis by (simp add: compute_id_def finish_def ideal_externals_def p k_def [symmetric] del: rev_append)
qed

end
