(* ===== verification/Grant.thy ===== *)
theory Grant
  imports Shred Ideal
begin

text \<open>
  Signed capability grants (\<^verbatim>\<open>crates/mem-authz/src/grant.rs\<close>): the signed encoding, signing and
  verification, and the authorization gate. ed25519 is a parameter (record \<^verbatim>\<open>externals\<close>);
  what is needed of it is that a signature made with a key verifies under it. Resistance to
  tampering is stated as a reduction: two different grants accepted under one signature
  exhibit two different messages that one ed25519 signature verifies.
\<close>

section \<open>Data\<close>

datatype op = Read | Write

datatype authz_error =
    Revoked | Expired | Unsigned | BadSignature | ResourceDenied string | OperationDenied op

record resource_scope =
  rs_resource_id :: string
  rs_can_read :: bool
  rs_can_write :: bool

datatype policy_profile = ReadOnly | Guided | Operator | Maintainer

record delegation_step =
  dl_delegator :: string
  dl_at_ms :: u64

record capability_grant =
  cg_id :: string
  cg_issuer :: string
  cg_recipient :: string
  cg_allowed_resources :: "resource_scope list"
  cg_policy :: policy_profile
  cg_expires_at_ms :: u64
  cg_revoked :: bool
  cg_delegation_chain :: "delegation_step list"
  cg_issuer_pubkey :: bytes
  cg_signature :: bytes

section \<open>Operations\<close>

definition feed :: "bytes \<Rightarrow> u8 \<Rightarrow> bytes \<Rightarrow> bytes" where
  "feed buf tag b = buf @ [tag] @ nat_le 8 (length b) @ b"

definition resource_matches :: "string \<Rightarrow> string \<Rightarrow> bool" where
  "resource_matches scope requested \<longleftrightarrow> scope = ''*'' \<or> scope = requested"

fun policy_debug :: "policy_profile \<Rightarrow> string" where
  "policy_debug ReadOnly = ''ReadOnly''"
| "policy_debug Guided = ''Guided''"
| "policy_debug Operator = ''Operator''"
| "policy_debug Maintainer = ''Maintainer''"

definition bool_byte :: "bool \<Rightarrow> byte" where
  "bool_byte b = (if b then 1 else 0)"

definition signing_preimage :: "capability_grant \<Rightarrow> bytes" where
  "signing_preimage g =
     (let buf = feed [] 0 (as_bytes ''mem-authz:grant:v1'');
          buf = feed buf 1 (as_bytes (cg_id g));
          buf = feed buf 2 (as_bytes (cg_issuer g));
          buf = feed buf 3 (as_bytes (cg_recipient g));
          buf = fold (\<lambda>r buf. feed (feed buf 4 (as_bytes (rs_resource_id r))) 5
                  [bool_byte (rs_can_read r), bool_byte (rs_can_write r)]) (cg_allowed_resources g) buf;
          buf = feed buf 6 (as_bytes (policy_debug (cg_policy g)));
          buf = feed buf 7 (u64_le (cg_expires_at_ms g));
          buf = fold (\<lambda>d buf. feed (feed buf 8 (as_bytes (dl_delegator d))) 9 (u64_le (dl_at_ms d)))
                  (cg_delegation_chain g) buf;
          buf = feed buf 10 (cg_issuer_pubkey g)
      in if cg_revoked g then feed buf 11 (as_bytes ''revoked'') else buf)"

definition sign_with :: "externals \<Rightarrow> key256 \<Rightarrow> capability_grant \<Rightarrow> capability_grant" where
  "sign_with X sk g =
     (let g' = g\<lparr>cg_issuer_pubkey := hash_bytes (ed25519_public X sk)\<rparr>
      in g'\<lparr>cg_signature := ed25519_sign X sk (signing_preimage g')\<rparr>)"

definition verify_signature :: "externals \<Rightarrow> capability_grant \<Rightarrow> (authz_error, unit) result" where
  "verify_signature X g =
     (if cg_signature g = [] \<or> cg_issuer_pubkey g = [] then Inl Unsigned
      else rbind (ok_or BadSignature (try_into_32 (cg_issuer_pubkey g))) (\<lambda>pk.
           if length (cg_signature g) \<noteq> 64 then Inl BadSignature
           else if \<not> ed25519_key_ok X pk then Inl BadSignature
           else if ed25519_verify_strict X pk (signing_preimage g) (cg_signature g) then Inr ()
           else Inl BadSignature))"

definition check ::
    "externals \<Rightarrow> capability_grant \<Rightarrow> string \<Rightarrow> op \<Rightarrow> u64 \<Rightarrow> (authz_error, unit) result" where
  "check X g resource_id operation now_ms =
     (if cg_revoked g then Inl Revoked
      else if now_ms \<ge> cg_expires_at_ms g then Inl Expired
      else rbind (verify_signature X g) (\<lambda>_.
           rbind (ok_or (ResourceDenied resource_id)
             (List.find (\<lambda>r. resource_matches (rs_resource_id r) resource_id) (cg_allowed_resources g)))
             (\<lambda>scope.
           let allowed = (case operation of Read \<Rightarrow> rs_can_read scope | Write \<Rightarrow> rs_can_write scope)
           in if allowed then Inr () else Inl (OperationDenied operation))))"

section \<open>The signed encoding\<close>

text \<open>The pre-image as one sequence of tagged fields.\<close>

definition scope_fields :: "resource_scope \<Rightarrow> (u8 \<times> bytes) list" where
  "scope_fields r = [(4, as_bytes (rs_resource_id r)), (5, [bool_byte (rs_can_read r), bool_byte (rs_can_write r)])]"

definition step_fields :: "delegation_step \<Rightarrow> (u8 \<times> bytes) list" where
  "step_fields d = [(8, as_bytes (dl_delegator d)), (9, u64_le (dl_at_ms d))]"

definition grant_fields :: "capability_grant \<Rightarrow> (u8 \<times> bytes) list" where
  "grant_fields g =
     [(0, as_bytes ''mem-authz:grant:v1''), (1, as_bytes (cg_id g)), (2, as_bytes (cg_issuer g)),
      (3, as_bytes (cg_recipient g))] @ concat (map scope_fields (cg_allowed_resources g)) @
     [(6, as_bytes (policy_debug (cg_policy g))), (7, u64_le (cg_expires_at_ms g))] @
     concat (map step_fields (cg_delegation_chain g)) @
     (10, cg_issuer_pubkey g) # (if cg_revoked g then [(11, as_bytes ''revoked'')] else [])"

lemma feed_tlv: "feed buf t b = buf @ tlv t b"
  by (simp add: feed_def tlv_def)

lemma fold_feed:
  "fold (\<lambda>r buf. feed (feed buf 4 (as_bytes (rs_resource_id r))) 5
      [bool_byte (rs_can_read r), bool_byte (rs_can_write r)]) rs buf = buf @ tlvs (concat (map scope_fields rs))"
  "fold (\<lambda>d buf. feed (feed buf 8 (as_bytes (dl_delegator d))) 9 (u64_le (dl_at_ms d))) ds buf =
      buf @ tlvs (concat (map step_fields ds))"
  by (induction rs arbitrary: buf, simp_all add: scope_fields_def feed_tlv)
    (induction ds arbitrary: buf, simp_all add: step_fields_def feed_tlv)

lemma signing_preimage_fields: "signing_preimage g = tlvs (grant_fields g)"
  by (simp only: signing_preimage_def Let_def fold_feed) (simp add: grant_fields_def feed_tlv)

lemma bool_byte_inject [simp]: "bool_byte a = bool_byte b \<longleftrightarrow> a = b"
  by (simp add: bool_byte_def)

lemma policy_debug_inject [simp]: "policy_debug p = policy_debug q \<longleftrightarrow> p = q"
  by (cases p; cases q) simp_all

text \<open>A run of groups, each opening with the same tag and followed by a field with another tag,
  can be split in one way.\<close>

lemma groups_inject:
  assumes f: "\<And>x y u v. f x @ u = f y @ v \<longleftrightarrow> x = y \<and> u = v" and hd: "\<And>x. \<exists>b r. f x = (t, b) # r"
    and uv: "fst u \<noteq> t" "fst v \<noteq> t"
  shows "concat (map f xs) @ u # us = concat (map f ys) @ v # vs \<longleftrightarrow> xs = ys \<and> u = v \<and> us = vs"
proof (induction xs arbitrary: ys)
  case Nil
  then show ?case
  proof (cases ys)
    case (Cons y ys')
    obtain b r where "f y = (t, b) # r" using hd by blast
    with Cons uv show ?thesis by auto
  qed simp
next
  case (Cons x xs)
  show ?case
  proof (cases ys)
    case Nil
    obtain b r where "f x = (t, b) # r" using hd by blast
    with Nil uv show ?thesis by auto
  next
    case (Cons y ys')
    with Cons.IH f show ?thesis by auto
  qed
qed

lemma scope_fields_inject: "scope_fields x @ u = scope_fields y @ v \<longleftrightarrow> x = y \<and> u = v"
  by (auto simp: scope_fields_def)

lemma step_fields_inject: "step_fields x @ u = step_fields y @ v \<longleftrightarrow> x = y \<and> u = v"
  by (auto simp: step_fields_def)

lemma scopes_inject:
  "concat (map scope_fields xs) @ (6, b) # us = concat (map scope_fields ys) @ (6, c) # vs \<longleftrightarrow>
     xs = ys \<and> b = c \<and> us = vs"
  by (subst groups_inject [where t = 4]) (auto simp: scope_fields_inject, auto simp: scope_fields_def)

lemma steps_inject:
  "concat (map step_fields xs) @ (10, b) # us = concat (map step_fields ys) @ (10, c) # vs \<longleftrightarrow>
     xs = ys \<and> b = c \<and> us = vs"
  by (subst groups_inject [where t = 8]) (auto simp: step_fields_inject, auto simp: step_fields_def)

lemma grant_fields_inject:
  assumes "grant_fields g = grant_fields h"
  shows "g\<lparr>cg_signature := s\<rparr> = h\<lparr>cg_signature := s\<rparr>"
  using assms by (simp add: grant_fields_def scopes_inject steps_inject split: if_splits)

definition grant_fits :: "capability_grant \<Rightarrow> bool" where
  "grant_fits g \<longleftrightarrow> list_all (fits \<circ> snd) (grant_fields g)"

lemma preimage_inject:
  assumes "grant_fits g" "grant_fits h" "signing_preimage g = signing_preimage h"
  shows "g\<lparr>cg_signature := s\<rparr> = h\<lparr>cg_signature := s\<rparr>"
  by (rule grant_fields_inject, rule tlvs_inject)
    (use assms in \<open>simp_all add: grant_fits_def signing_preimage_fields\<close>)

section \<open>Signatures\<close>

lemma hash_bytes_not_Nil [simp]: "hash_bytes h \<noteq> []"
  by (metis length_hash_bytes list.size(3) zero_neq_numeral)

lemma hash_bytes_not_Nil' [simp]: "[] \<noteq> hash_bytes h"
  by (metis hash_bytes_not_Nil)

lemma preimage_signature [simp]: "signing_preimage (g\<lparr>cg_signature := s\<rparr>) = signing_preimage g"
  by (simp add: signing_preimage_fields grant_fields_def)

lemma sign_with_verifies:
  assumes "ed25519_ok X"
  shows "verify_signature X (sign_with X sk g) = Inr ()"
proof -
  have "ed25519_sign X sk m \<noteq> []" for m using ed25519_okD(1) [OF assms, of sk m] by auto
  then show ?thesis
    by (simp add: verify_signature_def sign_with_def Let_def ed25519_okD [OF assms])
qed

lemma verify_signature_ok:
  "verify_signature X g = Inr () \<longleftrightarrow> (\<exists>pk. cg_issuer_pubkey g = hash_bytes pk \<and> length (cg_signature g) = 64 \<and>
     ed25519_key_ok X pk \<and> ed25519_verify_strict X pk (signing_preimage g) (cg_signature g))"
  by (auto simp: verify_signature_def try_into_32_Some)

lemma verify_signature_error:
  "verify_signature X g = Inl e \<Longrightarrow> e = Unsigned \<or> e = BadSignature"
  by (auto simp: verify_signature_def rbind_eq_Inl ok_or_def split: if_splits option.splits)

section \<open>The gate\<close>

definition scope_allows :: "resource_scope \<Rightarrow> op \<Rightarrow> bool" where
  "scope_allows r operation = (case operation of Read \<Rightarrow> rs_can_read r | Write \<Rightarrow> rs_can_write r)"

definition first_scope :: "capability_grant \<Rightarrow> string \<Rightarrow> resource_scope option" where
  "first_scope g resource_id =
     List.find (\<lambda>r. resource_matches (rs_resource_id r) resource_id) (cg_allowed_resources g)"


section \<open>Signing and tampering\<close>

text \<open>A grant its issuer signed is accepted for whatever it covers: signing never invalidates
  a grant, and the decision is the one of the unsigned scopes.\<close>

theorem signed_grant_is_accepted:
  assumes "ed25519_ok X" "\<not> cg_revoked g" "now_ms < cg_expires_at_ms g"
    and "first_scope g resource_id = Some r" "scope_allows r operation"
  shows "check X (sign_with X sk g) resource_id operation now_ms = Inr ()"
proof -
  have "cg_revoked (sign_with X sk g) = cg_revoked g" "cg_expires_at_ms (sign_with X sk g) = cg_expires_at_ms g"
    "cg_allowed_resources (sign_with X sk g) = cg_allowed_resources g"
    by (simp_all add: sign_with_def Let_def)
  with assms sign_with_verifies [OF assms(1), of sk g] show ?thesis
    by (simp add: check_def first_scope_def scope_allows_def Let_def not_le)
qed

definition sample_grant :: capability_grant where
  "sample_grant = \<lparr>cg_id = ''g1'', cg_issuer = ''root'', cg_recipient = ''agent'',
     cg_allowed_resources = [\<lparr>rs_resource_id = ''repo:a/memory'', rs_can_read = True, rs_can_write = False\<rparr>],
     cg_policy = ReadOnly, cg_expires_at_ms = 1000, cg_revoked = False, cg_delegation_chain = [],
     cg_issuer_pubkey = [], cg_signature = []\<rparr>"

text \<open>At a read-only grant.\<close>

theorem signed_grant_is_accepted_witness:
  "check ideal_externals (sign_with ideal_externals 5 sample_grant) ''repo:a/memory'' Read 10 = Inr ()"
  by (rule signed_grant_is_accepted [OF ideal_ed25519_ok,
        where r = "\<lparr>rs_resource_id = ''repo:a/memory'', rs_can_read = True, rs_can_write = False\<rparr>"])
    (simp_all add: sample_grant_def first_scope_def scope_allows_def resource_matches_def)

text \<open>A tampered grant is a forgery: two grants that carry the same signature and both pass
  signature verification differ in no field, or else that ed25519 signature verifies the two
  different signed encodings of the grants under the issuer key. In particular no scope, expiry, recipient,
  delegation hop or revocation flag can be changed under a kept signature.\<close>

theorem tampered_grant_is_forgery:
  assumes "grant_fits g" "grant_fits h" "verify_signature X g = Inr ()" "verify_signature X h = Inr ()"
    and "cg_signature g = cg_signature h" "cg_issuer_pubkey g = cg_issuer_pubkey h"
  shows "g = h \<or> (signing_preimage g \<noteq> signing_preimage h \<and> (\<exists>pk. cg_issuer_pubkey g = hash_bytes pk \<and>
    ed25519_verify_strict X pk (signing_preimage g) (cg_signature g) \<and>
    ed25519_verify_strict X pk (signing_preimage h) (cg_signature g)))"
proof (cases "signing_preimage g = signing_preimage h")
  case True
  from preimage_inject [OF assms(1,2) True, of "cg_signature g"] assms(5)
  have "g = h" by (metis capability_grant.surjective capability_grant.update_convs(10))
  then show ?thesis ..
next
  case False
  from assms(3,4,6) obtain pk where "cg_issuer_pubkey g = hash_bytes pk"
      "ed25519_verify_strict X pk (signing_preimage g) (cg_signature g)"
      "ed25519_verify_strict X pk (signing_preimage h) (cg_signature h)"
    by (auto simp: verify_signature_ok)
  with False assms(5) show ?thesis by auto
qed

text \<open>At the sample grant and the grant under another id, in a model whose signatures do not
  depend on the message: the two signed encodings differ.\<close>

theorem tampered_grant_is_forgery_witness:
  "let g = sign_with ideal_externals 5 sample_grant; h = sign_with ideal_externals 5 (sample_grant\<lparr>cg_id := ''g2''\<rparr>)
   in cg_signature g = cg_signature h \<and> g \<noteq> h \<and> signing_preimage g \<noteq> signing_preimage h"
proof -
  let ?g = "sign_with ideal_externals 5 sample_grant" and ?h = "sign_with ideal_externals 5 (sample_grant\<lparr>cg_id := ''g2''\<rparr>)"
  have fits: "grant_fits ?g" "grant_fits ?h"
    by (simp_all add: grant_fits_def grant_fields_def sign_with_def Let_def sample_grant_def scope_fields_def fits_def)
  have same: "cg_signature ?g = cg_signature ?h" "cg_issuer_pubkey ?g = cg_issuer_pubkey ?h"
    by (simp_all add: sign_with_def Let_def ideal_externals_def)
  have "?g \<noteq> ?h" by (simp add: sign_with_def Let_def sample_grant_def)
  with tampered_grant_is_forgery [OF fits sign_with_verifies [OF ideal_ed25519_ok] sign_with_verifies [OF ideal_ed25519_ok] same]
  have "signing_preimage ?g \<noteq> signing_preimage ?h" by blast
  with same(1) \<open>?g \<noteq> ?h\<close> show ?thesis by (simp add: Let_def)
qed

end
