(* ===== verification/Sync.thy ===== *)
theory Sync
  imports Asserter Grant
begin

text \<open>
  Federation sync (\<^verbatim>\<open>crates/mem-sync/src/lib.rs\<close>): exporting a tenant, authorizing and merging a
  bundle, the Merkle root of a tenant's state, and hash-chained anchors. The JSON codecs of
  the exchanged records are the parameter \<open>C\<close>. This theory holds the definitions; their
  properties are in the theories \<^verbatim>\<open>Sync_Safety\<close> and \<^verbatim>\<open>Anchor\<close>.
\<close>

section \<open>Data\<close>

datatype sync_error =
    SyncStore store_error | SyncSerde string | Chain string | Denied authz_error
  | UnresolvableEndpoint string | UntrustedIssuer | Entropy string

record sync_bundle =
  sb_repo :: string
  sb_exported_at_ms :: u64
  sb_nodes :: "memory_node list"
  sb_edges :: "edge list"

record merge_outcome =
  mo_nodes_added :: nat
  mo_nodes_merged :: nat
  mo_edges_added :: nat
  mo_edges_merged :: nat
  mo_superseded :: nat
  mo_rejected_supersessions :: nat
  mo_rejected_signatures :: nat
  mo_contradictions :: nat

record anchor_record =
  an_repo :: string
  an_root :: string
  an_node_count :: nat
  an_edge_count :: nat
  an_anchored_at_ms :: u64
  an_prev :: "string option"

record anchor_codec =
  anchor_to_json :: "anchor_record \<Rightarrow> (string, bytes) result"
  anchor_from_json :: "bytes \<Rightarrow> (string, anchor_record) result"

definition resource_for :: "string \<Rightarrow> string" where
  "resource_for repo = ''repo:'' @ repo @ ''/memory''"

definition default_outcome :: merge_outcome where
  "default_outcome = \<lparr>mo_nodes_added = 0, mo_nodes_merged = 0, mo_edges_added = 0, mo_edges_merged = 0,
     mo_superseded = 0, mo_rejected_supersessions = 0, mo_rejected_signatures = 0, mo_contradictions = 0\<rparr>"

section \<open>Export\<close>

text \<open>\<^verbatim>\<open>dedup_by_key\<close> drops an element whose key equals that of the last one kept.\<close>

fun dedup_edges :: "edge list \<Rightarrow> edge list" where
  "dedup_edges (a # b # es) =
     (if edge_key a = edge_key b then dedup_edges (a # es) else a # dedup_edges (b # es))"
| "dedup_edges es = es"

abbreviation id_key :: "externals \<Rightarrow> memory_node \<Rightarrow> bytes" where
  "id_key X n \<equiv> hash_bytes (node_id X n)"

definition tenant_state ::
    "externals \<Rightarrow> string \<Rightarrow> dag_store \<Rightarrow> (sync_error, memory_node list \<times> edge list) result" where
  "tenant_state X repo s =
     rbind (map_err SyncStore (all_nodes X s)) (\<lambda>all.
     let nodes = sort_key (id_key X) (filter (\<lambda>n. n_repo n = repo) all) in
     rbind (rfold (\<lambda>n edges. rbind (map_err SyncStore (out_edges X (node_id X n) s)) (\<lambda>es.
        Inr (edges @ es))) nodes []) (\<lambda>edges.
     Inr (nodes, dedup_edges (sort_key edge_key edges))))"

definition export_tenant :: "externals \<Rightarrow> string \<Rightarrow> u64 \<Rightarrow> dag_store \<Rightarrow> (sync_error, sync_bundle) result" where
  "export_tenant X repo now_ms s =
     rbind (tenant_state X repo s) (\<lambda>(nodes, edges).
     Inr \<lparr>sb_repo = repo, sb_exported_at_ms = now_ms, sb_nodes = nodes, sb_edges = edges\<rparr>)"

section \<open>Authorization\<close>

definition endpoint_repo ::
    "externals \<Rightarrow> (content_hash \<rightharpoonup> string) \<Rightarrow> content_hash \<Rightarrow> dag_store \<Rightarrow> (sync_error, string option) result" where
  "endpoint_repo X in_bundle endpoint s =
     (case in_bundle endpoint of
        Some repo \<Rightarrow> Inr (Some repo)
      | None \<Rightarrow> rbind (map_err SyncStore (get_node X endpoint s)) (\<lambda>r. Inr (map_option n_repo r)))"

definition bundle_repos :: "externals \<Rightarrow> memory_node list \<Rightarrow> content_hash \<rightharpoonup> string" where
  "bundle_repos X nodes = map_of (rev (map (\<lambda>n. (node_id X n, n_repo n)) nodes))"

definition edge_endpoints :: "edge list \<Rightarrow> content_hash list" where
  "edge_endpoints edges = concat (map (\<lambda>e. [e_from e, e_to e]) edges)"

definition touch_endpoint ::
    "externals \<Rightarrow> (content_hash \<rightharpoonup> string) \<Rightarrow> dag_store \<Rightarrow> content_hash \<Rightarrow> string set \<Rightarrow>
     (sync_error, string set) result" where
  "touch_endpoint X in_bundle s endpoint repos =
     rbind (endpoint_repo X in_bundle endpoint s) (\<lambda>r.
     case r of
       Some repo \<Rightarrow> Inr (insert repo repos)
     | None \<Rightarrow> Inl (UnresolvableEndpoint (to_hex (hex_encode X) endpoint)))"

definition authorize_bundle ::
    "externals \<Rightarrow> capability_grant \<Rightarrow> bytes \<Rightarrow> sync_bundle \<Rightarrow> u64 \<Rightarrow> dag_store \<Rightarrow> (sync_error, unit) result" where
  "authorize_bundle X grant trust_root bundle now_ms s =
     (if cg_issuer_pubkey grant \<noteq> trust_root then Inl UntrustedIssuer
      else
        let in_bundle = bundle_repos X (sb_nodes bundle) in
        rbind (rfold (touch_endpoint X in_bundle s) (edge_endpoints (sb_edges bundle))
          (set (map n_repo (sb_nodes bundle)))) (\<lambda>repos.
        rfold (\<lambda>repo _. map_err Denied (check X grant (resource_for repo) Write now_ms))
          (sorted_list_of_set repos) ()))"

section \<open>Merging\<close>

fun plane_rank :: "plane \<Rightarrow> u8" where
  "plane_rank Derived = 0"
| "plane_rank Asserted = 1"

fun method_rank :: "edge_method \<Rightarrow> u8" where
  "method_rank Trailer = 0"
| "method_rank Ingest = 1"
| "method_rank Nlp = 2"
| "method_rank Analogy = 3"
| "method_rank Manual = 4"

definition edge_advisory_key :: "edge \<Rightarrow> u8 \<times> u8 \<times> u8 \<times> string \<times> u64 \<times> string \<times> bytes" where
  "edge_advisory_key e =
     (trust_conservatism (e_trust_tier e), plane_rank (e_plane e), method_rank (p_method (e_provenance e)),
      p_asserter (e_provenance e), p_at (e_provenance e),
      (case p_evidence (e_provenance e) of None \<Rightarrow> [] | Some t \<Rightarrow> t),
      (case e_signature e of None \<Rightarrow> [] | Some b \<Rightarrow> b))"

definition merge_edge :: "edge \<Rightarrow> edge \<Rightarrow> edge" where
  "merge_edge local remote =
     (let merged = local\<lparr>e_quarantined := e_quarantined local \<and> e_quarantined remote,
            e_confidence := join_confidence (e_confidence local) (e_confidence remote)\<rparr>
      in if edge_advisory_key remote < edge_advisory_key local
         then merged\<lparr>e_trust_tier := e_trust_tier remote, e_plane := e_plane remote,
                e_provenance := e_provenance remote, e_signature := e_signature remote\<rparr>
         else merged)"

definition unsigned_node :: "externals \<Rightarrow> memory_node \<Rightarrow> bool" where
  "unsigned_node X n \<longleftrightarrow> n_plane n = Asserted \<and> verify_node X n \<noteq> Inr ()"

definition unsigned_edge :: "externals \<Rightarrow> edge \<Rightarrow> bool" where
  "unsigned_edge X e \<longleftrightarrow> e_plane e = Asserted \<and> verify_edge X e \<noteq> Inr ()"

definition reject_signature :: "merge_outcome \<Rightarrow> merge_outcome" where
  "reject_signature out = out\<lparr>mo_rejected_signatures := mo_rejected_signatures out + 1\<rparr>"

definition import_node ::
    "externals \<Rightarrow> memory_node \<Rightarrow> merge_outcome \<Rightarrow> (dag_store, sync_error, merge_outcome) action" where
  "import_node X remote out =
     (if unsigned_node X remote then sok (reject_signature out)
      else
        sbind (smap_err SyncStore (sread (get_node X (node_id X remote)))) (\<lambda>found.
        case found of
          None \<Rightarrow>
            sbind (smap_err SyncStore (put_node X remote)) (\<lambda>_.
            sok (out\<lparr>mo_nodes_added := mo_nodes_added out + 1\<rparr>))
        | Some local \<Rightarrow>
            (case merge_node local remote of (merged, changed, contradictions) \<Rightarrow>
               let out = out\<lparr>mo_contradictions := mo_contradictions out + contradictions\<rparr> in
               if changed then
                 sbind (smap_err SyncStore (put_node X merged)) (\<lambda>_.
                 sok (out\<lparr>mo_nodes_merged := mo_nodes_merged out + 1\<rparr>))
               else sok out)))"

definition import_edge ::
    "externals \<Rightarrow> edge \<Rightarrow> merge_outcome \<Rightarrow> (dag_store, sync_error, merge_outcome) action" where
  "import_edge X remote out =
     (if unsigned_edge X remote then sok (reject_signature out)
      else
        sbind (smap_err SyncStore (sread (out_edges X (e_from remote)))) (\<lambda>es.
        case List.find (\<lambda>e. e_to e = e_to remote \<and> e_kind e = e_kind remote) es of
          None \<Rightarrow>
            sbind (smap_err SyncStore (add_edge X remote)) (\<lambda>_.
            sok (out\<lparr>mo_edges_added := mo_edges_added out + 1\<rparr>))
        | Some local \<Rightarrow>
            if merge_edge local remote \<noteq> local then
              sbind (smap_err SyncStore (add_edge X (merge_edge local remote))) (\<lambda>_.
              sok (out\<lparr>mo_edges_merged := mo_edges_merged out + 1\<rparr>))
            else sok out))"

definition import_supersession ::
    "externals \<Rightarrow> edge \<Rightarrow> merge_outcome \<Rightarrow> (dag_store, sync_error, merge_outcome) action" where
  "import_supersession X remote out =
     (if unsigned_edge X remote then sok (reject_signature out)
      else
        sbind (smap_err SyncStore (sread (out_edges X (e_from remote)))) (\<lambda>es s.
        let existed = (\<exists>e \<in> set es. e_to e = e_to remote \<and> e_kind e = e_kind remote) in
        case apply_supersession X remote s of
          (Inr transitioned, s') \<Rightarrow>
            (Inr (out\<lparr>mo_superseded := mo_superseded out + (if transitioned then 1 else 0),
                     mo_edges_added := mo_edges_added out + (if existed then 0 else 1)\<rparr>), s')
        | (Inl (StoreErr e), s') \<Rightarrow> (Inl (SyncStore e), s')
        | (Inl _, s') \<Rightarrow> (Inr (out\<lparr>mo_rejected_supersessions := mo_rejected_supersessions out + 1\<rparr>), s')))"

definition is_supersession :: "edge \<Rightarrow> bool" where
  "is_supersession e \<longleftrightarrow> e_kind e = Supersedes \<and> \<not> e_quarantined e"

definition merge_bundle ::
    "externals \<Rightarrow> sync_bundle \<Rightarrow> capability_grant \<Rightarrow> bytes \<Rightarrow> u64 \<Rightarrow>
     (dag_store, sync_error, merge_outcome) action" where
  "merge_bundle X bundle grant trust_root now_ms =
     sbind (sread (authorize_bundle X grant trust_root bundle now_ms)) (\<lambda>_.
     sbind (sfold (import_node X) (sort_key (id_key X) (sb_nodes bundle)) default_outcome) (\<lambda>out.
     let edges = sort_key edge_key (sb_edges bundle);
         supersessions = filter is_supersession edges;
         plain = filter (Not \<circ> is_supersession) edges
     in sbind (sfold (import_edge X) plain out) (\<lambda>out.
        sfold (import_supersession X) supersessions out)))"

text \<open>The seed of the throwaway key is the \<open>i\<close>-th draw from the random source.\<close>

definition trusted_local_grant :: "externals \<Rightarrow> nat \<Rightarrow> (sync_error, capability_grant) result" where
  "trusted_local_grant X i =
     rbind (map_err Entropy (getrandom X i)) (\<lambda>sk.
     Inr (sign_with X sk
       \<lparr>cg_id = ''mem-sync:trusted-local-ingest'', cg_issuer = ''mem-sync'', cg_recipient = ''mem-sync:local'',
         cg_allowed_resources = [\<lparr>rs_resource_id = ''*'', rs_can_read = True, rs_can_write = True\<rparr>],
         cg_policy = Maintainer, cg_expires_at_ms = - 1, cg_revoked = False, cg_delegation_chain = [],
         cg_issuer_pubkey = [], cg_signature = []\<rparr>))"

definition merge_bundle_trusted ::
    "externals \<Rightarrow> nat \<Rightarrow> sync_bundle \<Rightarrow> (dag_store, sync_error, merge_outcome) action" where
  "merge_bundle_trusted X i bundle =
     sbind (slift (trusted_local_grant X i)) (\<lambda>grant.
     merge_bundle X bundle grant (cg_issuer_pubkey grant) 0)"

section \<open>The Merkle root\<close>

definition node_leaf :: "externals \<Rightarrow> memory_node \<Rightarrow> bytes" where
  "node_leaf X n = hash_bytes (node_id X n) @ [status_rank (n_status n)] @
     u64_le (case n_valid_to n of None \<Rightarrow> 0 | Some t \<Rightarrow> t)"

definition edge_leaf :: "edge \<Rightarrow> bytes" where
  "edge_leaf e = edge_key e @ [if e_quarantined e then 1 else 0]"

fun merkle_level :: "externals \<Rightarrow> content_hash list \<Rightarrow> content_hash list" where
  "merkle_level X (a # b # rest) = blake3 X (hash_bytes a @ hash_bytes b) # merkle_level X rest"
| "merkle_level X [a] = [blake3 X (hash_bytes a)]"
| "merkle_level X [] = []"

lemma length_merkle_level [simp]: "length (merkle_level X ls) = (length ls + 1) div 2"
  by (induction X ls rule: merkle_level.induct) auto

function merkle_root :: "externals \<Rightarrow> content_hash list \<Rightarrow> content_hash" where
  "merkle_root X ls = (if length ls > 1 then merkle_root X (merkle_level X ls) else hd ls)"
  by pat_completeness auto
termination
  by (relation "measure (\<lambda>(X, ls). length ls)") auto

declare merkle_root.simps [simp del]

definition tenant_leaves :: "externals \<Rightarrow> memory_node list \<times> edge list \<Rightarrow> bytes list" where
  "tenant_leaves X st = map (node_leaf X) (fst st) @ map edge_leaf (snd st)"

definition tenant_root :: "externals \<Rightarrow> string \<Rightarrow> dag_store \<Rightarrow> (sync_error, content_hash) result" where
  "tenant_root X repo s =
     rbind (tenant_state X repo s) (\<lambda>st.
     let leaves = map (blake3 X) (tenant_leaves X st) in
     Inr (if leaves = [] then blake3 X (as_bytes repo) else merkle_root X leaves))"

section \<open>Anchors\<close>

definition anchor_meta_key :: "string \<Rightarrow> bytes" where
  "anchor_meta_key repo = as_bytes (''anchor:'' @ repo)"

definition latest_anchor ::
    "externals \<Rightarrow> anchor_codec \<Rightarrow> string \<Rightarrow> dag_store \<Rightarrow> (sync_error, anchor_record option) result" where
  "latest_anchor X C repo s =
     rbind (map_err SyncStore (get_meta X (anchor_meta_key repo) s)) (\<lambda>v.
     case v of
       None \<Rightarrow> Inr None
     | Some b \<Rightarrow> rbind (map_err SyncSerde (anchor_from_json C b)) (\<lambda>r. Inr (Some r)))"

definition prev_link :: "externals \<Rightarrow> bytes option \<Rightarrow> string option" where
  "prev_link X = map_option (\<lambda>b. to_hex (hex_encode X) (blake3 X b))"

definition anchor_tenant ::
    "externals \<Rightarrow> anchor_codec \<Rightarrow> string \<Rightarrow> u64 \<Rightarrow> (dag_store, sync_error, anchor_record) action" where
  "anchor_tenant X C repo now_ms =
     sbind (sread (tenant_root X repo)) (\<lambda>root.
     sbind (smap_err SyncStore (sread (get_meta X (anchor_meta_key repo)))) (\<lambda>prev.
     sbind (sread (tenant_state X repo)) (\<lambda>(nodes, edges).
     let rec = \<lparr>an_repo = repo, an_root = to_hex (hex_encode X) root, an_node_count = length nodes,
          an_edge_count = length edges, an_anchored_at_ms = now_ms, an_prev = prev_link X prev\<rparr>
     in sbind (slift (map_err SyncSerde (anchor_to_json C rec))) (\<lambda>b.
        sbind (smap_err SyncStore (put_meta X repo (anchor_meta_key repo) b)) (\<lambda>_.
        sok rec)))))"

definition verify_anchor ::
    "externals \<Rightarrow> anchor_codec \<Rightarrow> string \<Rightarrow> dag_store \<Rightarrow> (sync_error, bool option) result" where
  "verify_anchor X C repo s =
     rbind (latest_anchor X C repo s) (\<lambda>r.
     case r of
       None \<Rightarrow> Inr None
     | Some rec \<Rightarrow> rbind (tenant_root X repo s) (\<lambda>root. Inr (Some (to_hex (hex_encode X) root = an_root rec))))"

end
