(* ===== verification/Store_Inv.thy ===== *)
theory Store_Inv
  imports Store
begin

text \<open>
  The well-formedness invariant of the DAG store and the effect of each operation on its
  abstract content: the node a content hash reads as, and the edge a storage key reads as.
  Reads depend on the state only through the rows of the backend and the key material each
  tenant can still use, so the theory first reduces decoding to a function of the usable
  keys, then describes how the keyring evolves, and last how a batch of well-formed rows
  changes what is read.
\<close>

section \<open>The keyring as a function\<close>

abbreviation rows :: "dag_store \<Rightarrow> string \<Rightarrow> bytes \<rightharpoonup> bytes" where
  "rows s \<equiv> kv_view (ds_kv s)"

definition keyring_at :: "externals \<Rightarrow> dag_store \<Rightarrow> string \<Rightarrow> keyring_entry option" where
  "keyring_at X s t =
     (case rows s KEYS (as_bytes t) of
        None \<Rightarrow> None
      | Some b \<Rightarrow> (case keyring_from_json X b of Inl _ \<Rightarrow> None | Inr e \<Rightarrow> Some e))"

text \<open>The key that opens what tenant \<open>t\<close> sealed under generation \<open>g\<close>, if it still exists.\<close>

definition usable :: "externals \<Rightarrow> dag_store \<Rightarrow> string \<Rightarrow> u32 \<Rightarrow> key256 option" where
  "usable X s t g =
     (case keyring_at X s t of
        None \<Rightarrow> None
      | Some e \<Rightarrow> if kr_gen e = g then (case key_bytes X e of Inl _ \<Rightarrow> None | Inr k \<Rightarrow> k) else None)"

text \<open>A keyring row parses, its key material has the right shape, and a shredded tenant is not
  at the last representable generation, so the next key gets a fresh one.\<close>

definition keyring_row_ok :: "externals \<Rightarrow> bytes \<Rightarrow> bool" where
  "keyring_row_ok X b \<longleftrightarrow> (\<exists>e k. keyring_from_json X b = Inr e \<and> key_bytes X e = Inr k \<and>
     (k = None \<longrightarrow> kr_gen e < kr_gen e + 1))"

definition keyring_ok :: "externals \<Rightarrow> dag_store \<Rightarrow> bool" where
  "keyring_ok X s \<longleftrightarrow> kv_live (ds_kv s) \<and> (\<forall>k b. rows s KEYS k = Some b \<longrightarrow> keyring_row_ok X b)"

lemma keyring_ok_live [simp]: "keyring_ok X s \<Longrightarrow> kv_live (ds_kv s)"
  by (simp add: keyring_ok_def)

lemma kv_rd_get [simp]: "kv_live (ds_kv s) \<Longrightarrow> kv_rd (kv_get cf k) s = Inr (rows s cf k)"
  by (simp add: kv_rd_def mem_kv.get_live)

lemma kv_rd_exists [simp]:
  "kv_live (ds_kv s) \<Longrightarrow> kv_rd (kv_exists cf k) s = Inr (rows s cf k \<noteq> None)"
  by (simp add: kv_rd_def mem_kv.contains_live)

lemma keyring_entry_of_eq:
  assumes "keyring_ok X s"
  shows "keyring_entry_of X t s = Inr (keyring_at X s t)"
proof (cases "rows s KEYS (as_bytes t)")
  case None
  with assms show ?thesis by (simp add: keyring_entry_of_def keyring_at_def)
next
  case (Some b)
  with assms obtain e where "keyring_from_json X b = Inr e"
    by (auto simp: keyring_ok_def keyring_row_ok_def)
  with Some assms show ?thesis by (simp add: keyring_entry_of_def keyring_at_def)
qed

lemma keyring_at_ok:
  assumes "keyring_ok X s" "keyring_at X s t = Some e"
  obtains k where "key_bytes X e = Inr k" "k = None \<longrightarrow> kr_gen e < kr_gen e + 1"
proof -
  from assms(2) obtain b where "rows s KEYS (as_bytes t) = Some b" and b: "keyring_from_json X b = Inr e"
    by (auto simp: keyring_at_def split: option.splits sum.splits)
  with assms(1) have "keyring_row_ok X b" by (auto simp: keyring_ok_def)
  with b that show ?thesis by (auto simp: keyring_row_ok_def)
qed

lemma live_key_eq:
  assumes "keyring_ok X s"
  shows "live_key X t s = Inr (Option.bind (keyring_at X s t)
      (\<lambda>e. map_option (\<lambda>k. (kr_gen e, k)) (usable X s t (kr_gen e))))"
proof (cases "keyring_at X s t")
  case None
  with assms show ?thesis by (simp add: live_key_def keyring_entry_of_eq)
next
  case (Some e)
  with assms obtain k where "key_bytes X e = Inr k" by (rule keyring_at_ok)
  with Some assms show ?thesis by (simp add: live_key_def keyring_entry_of_eq usable_def)
qed

section \<open>Decoding as a function of the usable keys\<close>

definition open_node ::
    "externals \<Rightarrow> (string \<Rightarrow> u32 \<Rightarrow> key256 option) \<Rightarrow> content_hash \<Rightarrow> bytes \<Rightarrow>
     (store_error, memory_node option) result" where
  "open_node X u nid b =
     (case parse_envelope X b of
        None \<Rightarrow> rbind (map_err Serde (node_from_json X b)) (\<lambda>n. Inr (Some n))
      | Some env \<Rightarrow>
          (case u (env_tenant env) (env_kgen env) of
             None \<Rightarrow> Inr None
           | Some key \<Rightarrow> rbind (open_env X key env nid) (\<lambda>plain.
               rbind (map_err Serde (node_from_json X plain)) (\<lambda>n. Inr (Some n)))))"

definition open_edge ::
    "externals \<Rightarrow> (string \<Rightarrow> u32 \<Rightarrow> key256 option) \<Rightarrow> string \<Rightarrow> bytes \<Rightarrow> bytes \<Rightarrow>
     (store_error, edge option) result" where
  "open_edge X u cf k b =
     (case parse_envelope X b of
        None \<Rightarrow> rbind (map_err Serde (edge_from_json X b)) (\<lambda>e. Inr (Some e))
      | Some env \<Rightarrow>
          (case u (env_tenant env) (env_kgen env) of
             None \<Rightarrow> Inr None
           | Some key \<Rightarrow> rbind (open_at X key env cf k) (\<lambda>plain.
               rbind (map_err Serde (edge_from_json X plain)) (\<lambda>e. Inr (Some e)))))"

lemma decode_node_eq:
  assumes "keyring_ok X s"
  shows "decode_node X nid b s = open_node X (usable X s) nid b"
proof (cases "parse_envelope X b")
  case None
  then show ?thesis by (simp add: decode_node_def open_node_def)
next
  case (Some env)
  show ?thesis
  proof (cases "keyring_at X s (env_tenant env)")
    case None
    with Some assms show ?thesis
      by (simp add: decode_node_def open_node_def keyring_entry_of_eq usable_def)
  next
    case kr: (Some e)
    with assms obtain k where "key_bytes X e = Inr k" by (rule keyring_at_ok)
    with kr Some assms show ?thesis
      by (cases k) (simp_all add: decode_node_def open_node_def keyring_entry_of_eq usable_def)
  qed
qed

text \<open>A cache is faithful when every entry is what the keyring would answer.\<close>

definition cache_ok :: "externals \<Rightarrow> dag_store \<Rightarrow> key_cache \<Rightarrow> bool" where
  "cache_ok X s keys \<longleftrightarrow> (\<forall>t v. keys t = Some v \<longrightarrow> live_key X t s = Inr v)"

lemma cache_ok_empty [simp]: "cache_ok X s Map.empty"
  by (simp add: cache_ok_def)

lemma decode_edge_eq:
  assumes ok: "keyring_ok X s" and cache: "cache_ok X s keys"
  obtains keys' where "cache_ok X s keys'"
    "decode_edge X cf k b keys s = rbind (open_edge X (usable X s) cf k b) (\<lambda>r. Inr (r, keys'))"
proof (cases "parse_envelope X b")
  case None
  show ?thesis
    by (rule that [OF cache], cases "edge_from_json X b")
      (simp_all add: None decode_edge_def open_edge_def)
next
  case (Some env)
  let ?t = "env_tenant env"
  define live where "live = Option.bind (keyring_at X s ?t)
      (\<lambda>e. map_option (\<lambda>k. (kr_gen e, k)) (usable X s ?t (kr_gen e)))"
  have lk: "live_key X ?t s = Inr live" by (simp add: live_def live_key_eq [OF ok])
  define keys' where "keys' = (case keys ?t of Some _ \<Rightarrow> keys | None \<Rightarrow> keys(?t \<mapsto> live))"
  have ok': "cache_ok X s keys'"
    using cache lk by (auto simp: cache_ok_def keys'_def split: option.splits)
  have lookup: "(case keys ?t of Some cached \<Rightarrow> Inr (cached, keys)
      | None \<Rightarrow> rbind (live_key X ?t s) (\<lambda>live. Inr (live, keys(?t \<mapsto> live)))) = Inr (live, keys')"
    using cache lk by (auto simp: cache_ok_def keys'_def split: option.splits)
  have use: "usable X s ?t g = (case live of None \<Rightarrow> None | Some (g', k) \<Rightarrow> if g' = g then Some k else None)"
    for g
    by (auto simp: live_def usable_def split: option.splits sum.splits)
  show ?thesis
  proof (rule that [OF ok'])
    show "decode_edge X cf k b keys s = rbind (open_edge X (usable X s) cf k b) (\<lambda>r. Inr (r, keys'))"
    proof (cases live)
      case None
      then show ?thesis by (simp add: decode_edge_def open_edge_def Some lookup use)
    next
      case (Some p)
      obtain g m where "live = Some (g, m)" using Some by (cases p) auto
      then show ?thesis
        by (auto simp: decode_edge_def open_edge_def \<open>parse_envelope X b = Some env\<close> lookup use rbind_def
            split: sum.splits)
    qed
  qed
qed

section \<open>How the keyring evolves\<close>

text \<open>\<open>keys_grow X s s'\<close>: from \<open>s\<close> to \<open>s'\<close> only the keyring changed, no tenant went back a
  generation, and every generation a tenant had reached opens with the same key as before
  (or with none, as before).\<close>

definition keys_grow :: "externals \<Rightarrow> dag_store \<Rightarrow> dag_store \<Rightarrow> bool" where
  "keys_grow X s s' \<longleftrightarrow> keyring_ok X s' \<and> ds_encrypt s' = ds_encrypt s \<and>
     (\<forall>cf. cf \<noteq> KEYS \<longrightarrow> rows s' cf = rows s cf) \<and>
     (\<forall>t e. keyring_at X s t = Some e \<longrightarrow>
        (\<exists>e'. keyring_at X s' t = Some e' \<and> kr_gen e \<le> kr_gen e' \<and>
          (\<forall>g \<le> kr_gen e. usable X s' t g = usable X s t g)))"

lemma keys_grow_refl [simp]: "keyring_ok X s \<Longrightarrow> keys_grow X s s"
  by (simp add: keys_grow_def)

lemma keys_grow_trans:
  assumes "keys_grow X s s'" "keys_grow X s' s''"
  shows "keys_grow X s s''"
  unfolding keys_grow_def
proof (intro conjI allI impI)
  fix t e
  assume "keyring_at X s t = Some e"
  with assms(1) obtain e' where e': "keyring_at X s' t = Some e'" "kr_gen e \<le> kr_gen e'"
      "\<forall>g \<le> kr_gen e. usable X s' t g = usable X s t g"
    unfolding keys_grow_def by blast
  moreover from e'(1) assms(2) obtain e'' where "keyring_at X s'' t = Some e''"
      "kr_gen e' \<le> kr_gen e''" "\<forall>g \<le> kr_gen e'. usable X s'' t g = usable X s' t g"
    unfolding keys_grow_def by blast
  ultimately show "\<exists>e''. keyring_at X s'' t = Some e'' \<and> kr_gen e \<le> kr_gen e'' \<and>
      (\<forall>g \<le> kr_gen e. usable X s'' t g = usable X s t g)"
    by (metis order.trans)
qed (use assms in \<open>simp_all add: keys_grow_def\<close>)

lemma keys_grow_ok: "keys_grow X s s' \<Longrightarrow> keyring_ok X s'"
  by (simp add: keys_grow_def)

lemma KEYS_neq [simp]: "NODES \<noteq> KEYS" "EDGES_OUT \<noteq> KEYS" "EDGES_IN \<noteq> KEYS" "META \<noteq> KEYS"
  "KEYS \<noteq> NODES" "KEYS \<noteq> EDGES_OUT" "KEYS \<noteq> EDGES_IN" "KEYS \<noteq> META"
  by (simp_all add: KEYS_def NODES_def EDGES_OUT_def EDGES_IN_def META_def)

lemma cf_neq [simp]: "NODES \<noteq> EDGES_OUT" "NODES \<noteq> EDGES_IN" "NODES \<noteq> META" "EDGES_OUT \<noteq> EDGES_IN"
  "EDGES_OUT \<noteq> META" "EDGES_IN \<noteq> META" "EDGES_OUT \<noteq> NODES" "EDGES_IN \<noteq> NODES" "META \<noteq> NODES"
  "EDGES_IN \<noteq> EDGES_OUT" "META \<noteq> EDGES_OUT" "META \<noteq> EDGES_IN"
  by (simp_all add: NODES_def EDGES_OUT_def EDGES_IN_def META_def)

lemma kv_wr_put:
  assumes "kv_live (ds_kv s)"
  obtains s' where "kv_wr (kv_put cf k v) s = (Inr (), s')" "kv_live (ds_kv s')"
    "rows s' = (rows s)(cf := (rows s cf)(k \<mapsto> v))" "ds_encrypt s' = ds_encrypt s"
    "ds_draws s' = ds_draws s"
proof (rule mem_kv.putE [OF assms, of cf k v])
  fix kv'
  assume "kv_put cf k v (ds_kv s) = (Inr (), kv')" "kv_live kv'"
    "kv_view kv' = view_op (Put cf k v) (kv_view (ds_kv s))"
  then show thesis by (intro that [of "s\<lparr>ds_kv := kv'\<rparr>"]) (simp_all add: kv_wr_def)
qed

lemma put_keyring_entry_cases:
  assumes X: "externals_ok X" and ok: "keyring_ok X s"
    and e: "key_bytes X e = Inr k" "k = None \<Longrightarrow> kr_gen e < kr_gen e + 1"
    and run: "put_keyring_entry X t e s = (r, s')"
  shows "(\<exists>m. r = Inl (Serde m) \<and> s' = s) \<or>
    (r = Inr () \<and> keyring_ok X s' \<and> ds_encrypt s' = ds_encrypt s \<and>
     (\<forall>cf. cf \<noteq> KEYS \<longrightarrow> rows s' cf = rows s cf) \<and> keyring_at X s' t = Some e \<and>
     (\<forall>t'. t' \<noteq> t \<longrightarrow> keyring_at X s' t' = keyring_at X s t'))"
proof (cases "keyring_to_json X e")
  case (Inl m)
  with run show ?thesis by (auto simp: put_keyring_entry_def sbind_def)
next
  case (Inr b)
  then have b: "keyring_from_json X b = Inr e" using externals_okD(7) [OF X] by simp
  have "kv_live (ds_kv s)" using ok by simp
  then obtain q where q: "kv_wr (kv_put KEYS (as_bytes t) b) s = (Inr (), q)" "kv_live (ds_kv q)"
      "rows q = (rows s)(KEYS := (rows s KEYS)(as_bytes t \<mapsto> b))" "ds_encrypt q = ds_encrypt s"
    by (rule kv_wr_put)
  with run Inr have rs: "r = Inr ()" "s' = q" by (simp_all add: put_keyring_entry_def sbind_def)
  have row: "keyring_row_ok X b" unfolding keyring_row_ok_def using b e by blast
  have "keyring_ok X q"
    unfolding keyring_ok_def
  proof (intro conjI allI impI)
    fix k b'
    assume "rows q KEYS k = Some b'"
    then have "b' = b \<or> rows s KEYS k = Some b'" by (simp add: q(3) split: if_splits)
    with row ok show "keyring_row_ok X b'" by (auto simp: keyring_ok_def)
  qed (rule q(2))
  moreover have "keyring_at X q t = Some e" by (simp add: keyring_at_def q(3) b)
  moreover have "keyring_at X q t' = keyring_at X s t'" if "t' \<noteq> t" for t'
    using that by (simp add: keyring_at_def q(3))
  moreover have "rows q cf = rows s cf" if "cf \<noteq> KEYS" for cf
    using that by (simp add: q(3))
  ultimately show ?thesis using rs q(4) by simp
qed

lemma keyring_at_cong: "rows s' KEYS = rows s KEYS \<Longrightarrow> keyring_at X s' t = keyring_at X s t"
  by (simp add: keyring_at_def)

lemma draw_key_frame:
  assumes "draw_key X s = (r, s')"
  shows "rows s' = rows s" "ds_kv s' = ds_kv s" "ds_encrypt s' = ds_encrypt s"
    "keyring_at X' s' = keyring_at X' s" "keyring_ok X' s' = keyring_ok X' s"
    "usable X' s' = usable X' s"
  using assms by (auto simp: draw_key_def keyring_ok_def keyring_at_def usable_def fun_eq_iff)

lemma key_bytes_minted:
  "externals_ok X \<Longrightarrow> key_bytes X \<lparr>kr_gen = g, kr_key = Some (hex_encode X (hash_bytes k))\<rparr> = Inr (Some k)"
  by (simp add: key_bytes_def externals_okD)

text \<open>Minting or fetching a tenant's key never disturbs what could be read before, and the key
  handed out is the one the keyring will answer with.\<close>

lemma mint_grows:
  assumes at: "keyring_at X s t = eo" "\<And>e. eo = Some e \<Longrightarrow> key_bytes X e = Inr None \<and> kr_gen e < kr_gen e + 1"
    and new: "keyring_at X s' t = Some \<lparr>kr_gen = g + 1, kr_key = kk\<rparr>" "eo = Some e0 \<Longrightarrow> kr_gen e0 = g"
    and others: "\<forall>t'. t' \<noteq> t \<longrightarrow> keyring_at X s' t' = keyring_at X s t'"
    and frame: "keyring_ok X s'" "ds_encrypt s' = ds_encrypt s" "\<forall>cf. cf \<noteq> KEYS \<longrightarrow> rows s' cf = rows s cf"
    and eo: "eo = None \<or> eo = Some e0"
  shows "keys_grow X s s'"
  unfolding keys_grow_def
proof (intro conjI allI impI)
  fix t' e
  assume e: "keyring_at X s t' = Some e"
  show "\<exists>e'. keyring_at X s' t' = Some e' \<and> kr_gen e \<le> kr_gen e' \<and>
      (\<forall>g\<le>kr_gen e. usable X s' t' g = usable X s t' g)"
  proof (cases "t' = t")
    case False
    with others e show ?thesis by (auto simp: usable_def)
  next
    case True
    with e at(1) eo have "e = e0" "eo = Some e0" by auto
    with at(2) new(2) have lt: "kr_gen e < g + 1" "key_bytes X e = Inr None" by auto
    with True new(1) e show ?thesis by (auto simp: usable_def)
  qed
qed (use frame in auto)

definition mint_key :: "externals \<Rightarrow> string \<Rightarrow> u32 \<Rightarrow> (u32 \<times> key256) writer" where
  "mint_key X t g =
     sbind (draw_key X) (\<lambda>key.
     sbind (put_keyring_entry X t \<lparr>kr_gen = g, kr_key = Some (hex_encode X (hash_bytes key))\<rparr>) (\<lambda>_.
     sok (g, key)))"

lemma mint_key_cases:
  assumes X: "externals_ok X" and ok: "keyring_ok X s" and run: "mint_key X t (g + 1) s = (r, s')"
    and old: "\<And>e. keyring_at X s t = Some e \<Longrightarrow>
      key_bytes X e = Inr None \<and> kr_gen e < kr_gen e + 1 \<and> kr_gen e = g"
  shows "keys_grow X s s' \<and> (\<forall>g' k. r = Inr (g', k) \<longrightarrow>
    (\<exists>e. keyring_at X s' t = Some e \<and> kr_gen e = g') \<and> usable X s' t g' = Some k)"
proof -
  obtain d q where d: "draw_key X s = (d, q)" by (cases "draw_key X s")
  note fr = draw_key_frame [OF d]
  have grow_q: "keys_grow X s q" using ok fr by (auto simp: keys_grow_def)
  show ?thesis
  proof (cases d)
    case (Inl m)
    with run d grow_q show ?thesis by (auto simp: mint_key_def sbind_def)
  next
    case (Inr key)
    let ?e = "\<lparr>kr_gen = g + 1, kr_key = Some (hex_encode X (hash_bytes key))\<rparr>"
    obtain p w where p: "put_keyring_entry X t ?e q = (p, w)"
      by (cases "put_keyring_entry X t ?e q")
    have kb: "key_bytes X ?e = Inr (Some key)" by (rule key_bytes_minted [OF X])
    have "keyring_ok X q" using ok fr by simp
    from put_keyring_entry_cases [OF X this kb _ p]
    consider m where "p = Inl (Serde m)" "w = q"
      | "p = Inr ()" "keyring_ok X w" "ds_encrypt w = ds_encrypt q"
        "\<forall>cf. cf \<noteq> KEYS \<longrightarrow> rows w cf = rows q cf" "keyring_at X w t = Some ?e"
        "\<forall>t'. t' \<noteq> t \<longrightarrow> keyring_at X w t' = keyring_at X q t'"
      by auto
    then show ?thesis
    proof cases
      case 1
      with run d Inr p grow_q show ?thesis by (auto simp: mint_key_def sbind_def)
    next
      case 2
      then have "r = Inr (g + 1, key)" "s' = w"
        using run d Inr p by (auto simp: mint_key_def sbind_def)
      moreover have "keys_grow X s w"
      proof (rule mint_grows [where eo = "keyring_at X s t" and t = t and g = g])
        show "keyring_at X s t = None \<or> keyring_at X s t = Some (the (keyring_at X s t))"
          by (cases "keyring_at X s t") auto
      qed (use 2 fr old in auto)
      moreover have "usable X w t (g + 1) = Some key" using 2 kb by (simp add: usable_def)
      ultimately show ?thesis using 2 by auto
    qed
  qed
qed

lemma ensure_tenant_key_cases:
  assumes X: "externals_ok X" and ok: "keyring_ok X s" and run: "ensure_tenant_key X t s = (r, s')"
  shows "keys_grow X s s' \<and> (\<forall>g k. r = Inr (g, k) \<longrightarrow>
    (\<exists>e. keyring_at X s' t = Some e \<and> kr_gen e = g) \<and> usable X s' t g = Some k)"
proof (cases "keyring_at X s t")
  case None
  have "mint_key X t (0 + 1) s = (r, s')"
    using run by (simp add: ensure_tenant_key_def mint_key_def sbind_def keyring_entry_of_eq [OF ok] None)
  from mint_key_cases [OF X ok this] None show ?thesis by simp
next
  case (Some e)
  with ok obtain k where k: "key_bytes X e = Inr k" "k = None \<longrightarrow> kr_gen e < kr_gen e + 1"
    by (rule keyring_at_ok)
  show ?thesis
  proof (cases k)
    case None
    have "mint_key X t (kr_gen e + 1) s = (r, s')"
      using run Some k None
      by (simp add: ensure_tenant_key_def mint_key_def sbind_def keyring_entry_of_eq [OF ok])
    from mint_key_cases [OF X ok this] Some k None show ?thesis by simp
  next
    case key: (Some m)
    with run Some k ok have "r = Inr (kr_gen e, m)" "s' = s"
      by (auto simp: ensure_tenant_key_def sbind_def keyring_entry_of_eq)
    with key Some k ok show ?thesis by (auto simp: usable_def)
  qed
qed

section \<open>Well-formed rows\<close>

definition seal_tag :: "externals \<Rightarrow> bytes \<Rightarrow> (string \<times> u32) option" where
  "seal_tag X b = map_option (\<lambda>env. (env_tenant env, env_kgen env)) (parse_envelope X b)"

definition sealed_ok :: "externals \<Rightarrow> dag_store \<Rightarrow> bytes \<Rightarrow> bool" where
  "sealed_ok X s b \<longleftrightarrow> (\<forall>t g. seal_tag X b = Some (t, g) \<longrightarrow>
     (\<exists>e. keyring_at X s t = Some e \<and> g \<le> kr_gen e))"

definition node_row_ok :: "externals \<Rightarrow> dag_store \<Rightarrow> bytes \<Rightarrow> bytes \<Rightarrow> bool" where
  "node_row_ok X s k b \<longleftrightarrow> sealed_ok X s b \<and>
     (\<exists>nid r. k = hash_bytes nid \<and> open_node X (usable X s) nid b = Inr r \<and>
        (\<forall>n. r = Some n \<longrightarrow> node_id X n = nid \<and> json_safe n))"

definition edge_row_ok ::
    "externals \<Rightarrow> dag_store \<Rightarrow> string \<Rightarrow> (edge \<Rightarrow> bytes) \<Rightarrow> bytes \<Rightarrow> bytes \<Rightarrow> bool" where
  "edge_row_ok X s cf rk k b \<longleftrightarrow> sealed_ok X s b \<and>
     (\<exists>r. open_edge X (usable X s) cf k b = Inr r \<and> (\<forall>e. r = Some e \<longrightarrow> rk e = k))"

text \<open>The abstract content: what a content hash and a storage key read as.\<close>

definition readable :: "(store_error, 'a option) result \<Rightarrow> 'a option" where
  "readable r = (case r of Inl _ \<Rightarrow> None | Inr x \<Rightarrow> x)"

lemma readable_simps [simp]: "readable (Inl e) = None" "readable (Inr x) = x"
  by (simp_all add: readable_def)

lemma readable_eq_Some [simp]: "readable r = Some x \<longleftrightarrow> r = Inr (Some x)"
  by (cases r) auto

definition node_view :: "externals \<Rightarrow> dag_store \<Rightarrow> content_hash \<Rightarrow> memory_node option" where
  "node_view X s nid =
     Option.bind (rows s NODES (hash_bytes nid)) (\<lambda>b. readable (open_node X (usable X s) nid b))"

definition row_view :: "externals \<Rightarrow> dag_store \<Rightarrow> string \<Rightarrow> bytes \<Rightarrow> edge option" where
  "row_view X s cf k =
     Option.bind (rows s cf k) (\<lambda>b. readable (open_edge X (usable X s) cf k b))"

abbreviation edge_view :: "externals \<Rightarrow> dag_store \<Rightarrow> bytes \<Rightarrow> edge option" where
  "edge_view X s \<equiv> row_view X s EDGES_OUT"

text \<open>The two adjacency tables mirror each other: the same edge under the same seal.\<close>

definition mirrored :: "externals \<Rightarrow> dag_store \<Rightarrow> edge \<Rightarrow> bool" where
  "mirrored X s e \<longleftrightarrow>
     map_option (seal_tag X) (rows s EDGES_OUT (edge_key e)) =
       map_option (seal_tag X) (rows s EDGES_IN (in_key e)) \<and>
     row_view X s EDGES_OUT (edge_key e) = row_view X s EDGES_IN (in_key e)"

definition store_ok :: "externals \<Rightarrow> dag_store \<Rightarrow> bool" where
  "store_ok X s \<longleftrightarrow> keyring_ok X s \<and>
     (\<forall>k b. rows s NODES k = Some b \<longrightarrow> node_row_ok X s k b) \<and>
     (\<forall>k b. rows s EDGES_OUT k = Some b \<longrightarrow> edge_row_ok X s EDGES_OUT edge_key k b) \<and>
     (\<forall>k b. rows s EDGES_IN k = Some b \<longrightarrow> edge_row_ok X s EDGES_IN in_key k b) \<and>
     (\<forall>e. mirrored X s e)"

lemma store_okD:
  assumes "store_ok X s"
  shows "keyring_ok X s" "kv_live (ds_kv s)"
    "rows s NODES k = Some b \<Longrightarrow> node_row_ok X s k b"
    "rows s EDGES_OUT k = Some b \<Longrightarrow> edge_row_ok X s EDGES_OUT edge_key k b"
    "rows s EDGES_IN k = Some b \<Longrightarrow> edge_row_ok X s EDGES_IN in_key k b"
    "mirrored X s e"
  using assms unfolding store_ok_def by (blast intro: keyring_ok_live)+

lemma store_okI:
  assumes "keyring_ok X s"
    "\<And>k b. rows s NODES k = Some b \<Longrightarrow> node_row_ok X s k b"
    "\<And>k b. rows s EDGES_OUT k = Some b \<Longrightarrow> edge_row_ok X s EDGES_OUT edge_key k b"
    "\<And>k b. rows s EDGES_IN k = Some b \<Longrightarrow> edge_row_ok X s EDGES_IN in_key k b"
    "\<And>e. mirrored X s e"
  shows "store_ok X s"
  using assms unfolding store_ok_def by blast

section \<open>Reads\<close>

lemma get_node_eq:
  assumes "store_ok X s"
  shows "get_node X nid s = Inr (node_view X s nid)"
proof (cases "rows s NODES (hash_bytes nid)")
  case None
  with assms show ?thesis by (simp add: get_node_def node_view_def store_okD)
next
  case (Some b)
  with store_okD(3) [OF assms] obtain r where "open_node X (usable X s) nid b = Inr r"
    by (fastforce simp: node_row_ok_def)
  with Some assms show ?thesis
    by (simp add: get_node_def node_view_def store_okD decode_node_eq)
qed

lemma node_view_id:
  assumes "store_ok X s" "node_view X s nid = Some n"
  shows "node_id X n = nid" "json_safe n"
proof -
  from assms(2) obtain b where b: "rows s NODES (hash_bytes nid) = Some b"
      "open_node X (usable X s) nid b = Inr (Some n)"
    by (auto simp: node_view_def bind_eq_Some_conv)
  with store_okD(3) [OF assms(1) b(1)] show "node_id X n = nid" "json_safe n"
    by (auto simp: node_row_ok_def)
qed

lemma has_node_eq:
  "store_ok X s \<Longrightarrow> has_node nid s = Inr (rows s NODES (hash_bytes nid) \<noteq> None)"
  by (simp add: has_node_def store_okD)

definition opened :: "externals \<Rightarrow> dag_store \<Rightarrow> string \<Rightarrow> bytes \<times> bytes \<Rightarrow> edge option" where
  "opened X s cf p = readable (open_edge X (usable X s) cf (fst p) (snd p))"

lemma scan_loop:
  assumes ok: "keyring_ok X s" and cache: "cache_ok X s keys"
    and rows: "\<forall>(k, b) \<in> set rs. \<exists>r. open_edge X (usable X s) cf k b = Inr r"
  shows "\<exists>keys'. rfold (\<lambda>(k, v) (out, keys).
          if take (length p) k = p then
            rbind (decode_edge X cf k v keys s) (\<lambda>(r, keys').
            Inr (case r of Some e \<Rightarrow> out @ [e] | None \<Rightarrow> out, keys'))
          else Inr (out, keys)) rs (out, keys) =
     Inr (out @ List.map_filter (\<lambda>q. if take (length p) (fst q) = p then opened X s cf q else None) rs,
       keys')"
  using cache rows
proof (induction rs arbitrary: out keys)
  case Nil
  then show ?case by (simp add: List.map_filter_def)
next
  case (Cons q rs)
  obtain k b where q: "q = (k, b)" by (cases q)
  with Cons.prems obtain r where r: "open_edge X (usable X s) cf k b = Inr r" by auto
  obtain keys' where keys': "cache_ok X s keys'"
      "decode_edge X cf k b keys s = rbind (open_edge X (usable X s) cf k b) (\<lambda>r. Inr (r, keys'))"
    by (rule decode_edge_eq [OF ok Cons.prems(1)])
  have rest: "\<forall>(k, b) \<in> set rs. \<exists>r. open_edge X (usable X s) cf k b = Inr r"
    using Cons.prems(2) by simp
  show ?case
    using Cons.IH [OF keys'(1) rest, of "case r of Some e \<Rightarrow> out @ [e] | None \<Rightarrow> out"]
      Cons.IH [OF Cons.prems(1) rest, of out] q r keys'(2)
    by (auto simp: List.map_filter_def opened_def split: option.splits)
qed

lemma distinct_map_filter:
  assumes "distinct (map fst rs)" and "\<And>q e. q \<in> set rs \<Longrightarrow> f q = Some e \<Longrightarrow> rk e = fst q"
  shows "distinct (map rk (List.map_filter f rs)) \<and>
    rk ` set (List.map_filter f rs) \<subseteq> fst ` set rs"
  using assms
proof (induction rs)
  case Nil
  then show ?case by (simp add: List.map_filter_def)
next
  case (Cons q rs)
  then have IH: "distinct (map rk (List.map_filter f rs))"
      "rk ` set (List.map_filter f rs) \<subseteq> fst ` set rs"
    by auto
  show ?case
  proof (cases "f q")
    case None
    with IH show ?thesis by (auto simp: List.map_filter_simps)
  next
    case (Some e)
    with Cons.prems have "rk e = fst q" "fst q \<notin> fst ` set rs" by auto
    with IH Some show ?thesis by (auto simp: List.map_filter_simps)
  qed
qed

lemma scan_prefix_spec:
  assumes ok: "keyring_ok X s" and rows: "\<And>k b. rows s cf k = Some b \<Longrightarrow> edge_row_ok X s cf rk k b"
  obtains es where "scan_prefix X cf p s = Inr es" "distinct (map rk es)"
    "\<And>e. e \<in> set es \<longleftrightarrow> row_view X s cf (rk e) = Some e \<and> take (length p) (rk e) = p"
proof -
  have "kv_live (ds_kv s)" using ok by simp
  then obtain rs where rs: "kv_iter_cf cf (ds_kv s) = Inr rs" "bt_ok rs" "map_of rs = rows s cf"
    by (rule mem_kv.iterE)
  have mem: "(k, b) \<in> set rs \<longleftrightarrow> rows s cf k = Some b" for k b
    using rs by (simp add: bt_ok_mem_iff)
  let ?f = "\<lambda>q. if take (length p) (fst q) = p then opened X s cf q else None"
  have "\<forall>(k, b) \<in> set rs. \<exists>r. open_edge X (usable X s) cf k b = Inr r"
    using rows mem unfolding edge_row_ok_def by fast
  from scan_loop [OF ok cache_ok_empty this, of p "[]"] rs(1)
  have scan: "scan_prefix X cf p s = Inr (List.map_filter ?f rs)"
    by (auto simp: scan_prefix_def kv_rd_def)
  have key: "rk e = fst q" if "q \<in> set rs" "opened X s cf q = Some e" for q e
    using that rows [of "fst q" "snd q"] mem [of "fst q" "snd q"]
    by (auto simp: opened_def edge_row_ok_def split: sum.splits)
  then have key': "\<And>q e. q \<in> set rs \<Longrightarrow> ?f q = Some e \<Longrightarrow> rk e = fst q"
    by (auto split: if_splits)
  have dist: "distinct (map rk (List.map_filter ?f rs))"
    using distinct_map_filter [OF bt_ok_distinct [OF rs(2)], of ?f rk] key'
    by blast
  have view: "row_view X s cf k = (case rows s cf k of None \<Rightarrow> None | Some b \<Rightarrow> opened X s cf (k, b))" for k
    by (cases "rows s cf k") (simp_all add: row_view_def opened_def)
  have "e \<in> set (List.map_filter ?f rs) \<longleftrightarrow>
      row_view X s cf (rk e) = Some e \<and> take (length p) (rk e) = p" for e
  proof
    assume "e \<in> set (List.map_filter ?f rs)"
    then obtain k b where "(k, b) \<in> set rs" "take (length p) k = p" "opened X s cf (k, b) = Some e"
      by (auto simp: List.map_filter_def split: if_splits)
    with key [of "(k, b)" e] mem view show "row_view X s cf (rk e) = Some e \<and> take (length p) (rk e) = p"
      by simp
  next
    assume "row_view X s cf (rk e) = Some e \<and> take (length p) (rk e) = p"
    then obtain b where "(rk e, b) \<in> set rs" "opened X s cf (rk e, b) = Some e" "take (length p) (rk e) = p"
      using mem view by (auto split: option.splits)
    then show "e \<in> set (List.map_filter ?f rs)"
      by (force simp: List.map_filter_def)
  qed
  with that scan dist show ?thesis by blast
qed

lemma length_in_key [simp]: "length (in_key e) = 65"
  by (simp add: in_key_def)

lemma in_key_inject:
  "in_key d = in_key e \<longleftrightarrow> e_from d = e_from e \<and> e_to d = e_to e \<and> e_kind d = e_kind e"
  by (auto simp: in_key_def)

lemma key_iff: "in_key d = in_key e \<longleftrightarrow> edge_key d = edge_key e"
  by (simp add: in_key_inject edge_key_inject)

lemma take_keys [simp]:
  "take 32 (edge_key e) = hash_bytes h \<longleftrightarrow> e_from e = h"
  "take 32 (in_key e) = hash_bytes h \<longleftrightarrow> e_to e = h"
  by (simp_all add: edge_key_def in_key_def)

lemma out_edges_spec:
  assumes "store_ok X s"
  obtains es where "out_edges X nid s = Inr es" "distinct (map edge_key es)"
    "\<And>e. e \<in> set es \<longleftrightarrow> edge_view X s (edge_key e) = Some e \<and> e_from e = nid"
  by (rule scan_prefix_spec [OF store_okD(1,4) [OF assms], of "hash_bytes nid"])
    (use that in \<open>auto simp: out_edges_def\<close>)

lemma in_edges_spec:
  assumes "store_ok X s"
  obtains es where "in_edges X nid s = Inr es" "distinct (map in_key es)"
    "\<And>e. e \<in> set es \<longleftrightarrow> edge_view X s (edge_key e) = Some e \<and> e_to e = nid"
proof (rule scan_prefix_spec [OF store_okD(1,5) [OF assms], of "hash_bytes nid"])
  fix es
  assume "scan_prefix X EDGES_IN (hash_bytes nid) s = Inr es" "distinct (map in_key es)"
    "\<And>e. e \<in> set es \<longleftrightarrow> row_view X s EDGES_IN (in_key e) = Some e \<and>
      take (length (hash_bytes nid)) (in_key e) = hash_bytes nid"
  moreover have "row_view X s EDGES_IN (in_key e) = edge_view X s (edge_key e)" for e
    using store_okD(6) [OF assms, of e] by (simp add: mirrored_def)
  ultimately show thesis by (intro that [of es]) (simp_all add: in_edges_def)
qed

section \<open>Writing well-formed rows\<close>

text \<open>One logical write of a batch and the backend operations it stands for.\<close>

datatype item = INode memory_node | IEdge edge

fun good_ops :: "externals \<Rightarrow> dag_store \<Rightarrow> item \<Rightarrow> kv_op list \<Rightarrow> bool" where
  "good_ops X s (INode n) ops \<longleftrightarrow>
     (\<exists>b. ops = [Put NODES (hash_bytes (node_id X n)) b] \<and> sealed_ok X s b \<and> json_safe n \<and>
        open_node X (usable X s) (node_id X n) b = Inr (Some n))"
| "good_ops X s (IEdge e) ops \<longleftrightarrow>
     (\<exists>ob ib. ops = [Put EDGES_OUT (edge_key e) ob, Put EDGES_IN (in_key e) ib] \<and>
        sealed_ok X s ob \<and> sealed_ok X s ib \<and> seal_tag X ob = seal_tag X ib \<and>
        open_edge X (usable X s) EDGES_OUT (edge_key e) ob = Inr (Some e) \<and>
        open_edge X (usable X s) EDGES_IN (in_key e) ib = Inr (Some e))"

fun node_upd :: "externals \<Rightarrow> item \<Rightarrow> (content_hash \<rightharpoonup> memory_node) \<Rightarrow> (content_hash \<rightharpoonup> memory_node)" where
  "node_upd X (INode n) m = m(node_id X n \<mapsto> n)"
| "node_upd X (IEdge e) m = m"

fun edge_upd :: "item \<Rightarrow> (bytes \<rightharpoonup> edge) \<Rightarrow> (bytes \<rightharpoonup> edge)" where
  "edge_upd (INode n) m = m"
| "edge_upd (IEdge e) m = m(edge_key e \<mapsto> e)"

subsection \<open>Growing the keyring changes nothing that is read\<close>

lemma sealed_ok_grow: "keys_grow X s s' \<Longrightarrow> sealed_ok X s b \<Longrightarrow> sealed_ok X s' b"
  unfolding sealed_ok_def keys_grow_def by (meson order.trans)

lemma usable_grow:
  assumes "keys_grow X s s'" "sealed_ok X s b" "parse_envelope X b = Some env"
  shows "usable X s' (env_tenant env) (env_kgen env) = usable X s (env_tenant env) (env_kgen env)"
proof -
  from assms(2,3) obtain e where "keyring_at X s (env_tenant env) = Some e" "env_kgen env \<le> kr_gen e"
    by (auto simp: sealed_ok_def seal_tag_def)
  with assms(1) show ?thesis unfolding keys_grow_def by metis
qed

lemma open_node_grow:
  "keys_grow X s s' \<Longrightarrow> sealed_ok X s b \<Longrightarrow>
     open_node X (usable X s') nid b = open_node X (usable X s) nid b"
  by (cases "parse_envelope X b") (simp_all add: open_node_def usable_grow)

lemma open_edge_grow:
  "keys_grow X s s' \<Longrightarrow> sealed_ok X s b \<Longrightarrow>
     open_edge X (usable X s') cf k b = open_edge X (usable X s) cf k b"
  by (cases "parse_envelope X b") (simp_all add: open_edge_def usable_grow)

lemmas grow_simps = sealed_ok_grow open_node_grow open_edge_grow

lemma good_ops_grow: "keys_grow X s s' \<Longrightarrow> good_ops X s it ops \<Longrightarrow> good_ops X s' it ops"
  by (cases it) (auto simp: grow_simps)

lemma views_grow:
  assumes "store_ok X s" "keys_grow X s s'"
  shows "node_view X s' = node_view X s" "edge_view X s' = edge_view X s"
    "row_view X s' EDGES_IN = row_view X s EDGES_IN"
proof -
  have rows: "rows s' cf = rows s cf" if "cf \<noteq> KEYS" for cf
    using assms(2) that by (simp add: keys_grow_def)
  have sealed: "rows s NODES k = Some b \<Longrightarrow> sealed_ok X s b"
    "rows s EDGES_OUT k = Some b \<Longrightarrow> sealed_ok X s b"
    "rows s EDGES_IN k = Some b \<Longrightarrow> sealed_ok X s b" for k b
    using store_okD(3-5) [OF assms(1)] unfolding node_row_ok_def edge_row_ok_def by blast+
  show "node_view X s' = node_view X s"
  proof
    fix nid
    show "node_view X s' nid = node_view X s nid"
      using sealed(1) by (cases "rows s NODES (hash_bytes nid)")
        (simp_all add: node_view_def rows open_node_grow [OF assms(2)])
  qed
  have "row_view X s' cf = row_view X s cf" if cf: "cf \<noteq> KEYS"
    and ok: "\<And>k b. rows s cf k = Some b \<Longrightarrow> sealed_ok X s b" for cf
  proof
    fix k
    show "row_view X s' cf k = row_view X s cf k"
      using ok by (cases "rows s cf k")
        (simp_all add: row_view_def rows [OF cf] open_edge_grow [OF assms(2)])
  qed
  with sealed show "edge_view X s' = edge_view X s" "row_view X s' EDGES_IN = row_view X s EDGES_IN"
    by simp_all
qed

lemma store_ok_grow:
  assumes "store_ok X s" "keys_grow X s s'"
  shows "store_ok X s'"
proof -
  have rows: "rows s' cf = rows s cf" if "cf \<noteq> KEYS" for cf
    using assms(2) that by (simp add: keys_grow_def)
  have "mirrored X s' e" for e
    using store_okD(6) [OF assms(1), of e] by (simp add: mirrored_def rows views_grow [OF assms])
  moreover have "node_row_ok X s' k b" if "rows s NODES k = Some b" for k b
    using store_okD(3) [OF assms(1) that] unfolding node_row_ok_def by (metis assms(2) grow_simps(1,2))
  moreover have "edge_row_ok X s' EDGES_OUT edge_key k b" if "rows s EDGES_OUT k = Some b" for k b
    using store_okD(4) [OF assms(1) that] unfolding edge_row_ok_def by (metis assms(2) grow_simps(1,3))
  moreover have "edge_row_ok X s' EDGES_IN in_key k b" if "rows s EDGES_IN k = Some b" for k b
    using store_okD(5) [OF assms(1) that] unfolding edge_row_ok_def by (metis assms(2) grow_simps(1,3))
  ultimately show ?thesis
    using assms(2) by (simp add: store_ok_def rows keys_grow_ok)
qed

subsection \<open>Applying a batch\<close>

lemma same_keys:
  assumes "rows s' KEYS = rows s KEYS"
  shows "keyring_at X s' = keyring_at X s" "usable X s' = usable X s"
    "sealed_ok X s' = sealed_ok X s" "good_ops X s' = good_ops X s"
proof -
  show at: "keyring_at X s' = keyring_at X s" using assms by (simp add: keyring_at_def fun_eq_iff)
  then show u: "usable X s' = usable X s" by (simp add: usable_def fun_eq_iff)
  show se: "sealed_ok X s' = sealed_ok X s" by (simp add: sealed_ok_def at fun_eq_iff)
  show "good_ops X s' = good_ops X s"
  proof (intro ext)
    fix it ops
    show "good_ops X s' it ops = good_ops X s it ops" by (cases it) (simp_all add: u se)
  qed
qed

lemma keyring_ok_same:
  assumes "keyring_ok X s" "kv_live (ds_kv s')" "rows s' KEYS = rows s KEYS"
  shows "keyring_ok X s'"
  using assms by (simp add: keyring_ok_def)

lemma row_ok_same:
  assumes "rows s' KEYS = rows s KEYS"
  shows "node_row_ok X s' = node_row_ok X s" "edge_row_ok X s' = edge_row_ok X s"
  by (simp_all add: node_row_ok_def edge_row_ok_def same_keys [OF assms] fun_eq_iff)

lemma apply_node_row:
  assumes ok: "store_ok X s" and good: "good_ops X s (INode n) ops"
    and live: "kv_live (ds_kv s')" and rows: "rows s' = fold view_op ops (rows s)"
  shows "store_ok X s' \<and> node_view X s' = node_upd X (INode n) (node_view X s) \<and>
    edge_view X s' = edge_view X s \<and> rows s' KEYS = rows s KEYS"
proof -
  from good obtain b where b: "ops = [Put NODES (hash_bytes (node_id X n)) b]" "sealed_ok X s b"
      "json_safe n" "open_node X (usable X s) (node_id X n) b = Inr (Some n)"
    by auto
  have r: "rows s' = (rows s)(NODES := (rows s NODES)(hash_bytes (node_id X n) \<mapsto> b))"
    by (simp add: rows b(1))
  then have keys: "rows s' KEYS = rows s KEYS" and out: "rows s' EDGES_OUT = rows s EDGES_OUT"
    and inn: "rows s' EDGES_IN = rows s EDGES_IN"
    by simp_all
  note same = same_keys [OF keys] row_ok_same [OF keys]
  have ev: "row_view X s' cf = row_view X s cf" if "rows s' cf = rows s cf" for cf
    by (simp add: row_view_def fun_eq_iff that same)
  have nv: "node_view X s' = node_upd X (INode n) (node_view X s)"
    by (auto simp: node_view_def r same b(4) fun_eq_iff)
  have new: "node_row_ok X s (hash_bytes (node_id X n)) b"
    using b by (auto simp: node_row_ok_def)
  have "store_ok X s'"
  proof (rule store_okI)
    show "keyring_ok X s'" using store_okD(1) [OF ok] live keys by (rule keyring_ok_same)
    show "node_row_ok X s' k c" if "rows s' NODES k = Some c" for k c
      using that new store_okD(3) [OF ok] by (auto simp: r same split: if_splits)
    show "mirrored X s' e" for e
      using store_okD(6) [OF ok, of e] by (simp add: mirrored_def ev out inn)
  qed (use store_okD(4,5) [OF ok] in \<open>simp_all add: same out inn\<close>)
  with nv ev out keys show ?thesis by simp
qed

lemma apply_edge_rows:
  assumes ok: "store_ok X s" and good: "good_ops X s (IEdge e) ops"
    and live: "kv_live (ds_kv s')" and rows: "rows s' = fold view_op ops (rows s)"
  shows "store_ok X s' \<and> node_view X s' = node_view X s \<and>
    edge_view X s' = edge_upd (IEdge e) (edge_view X s) \<and> rows s' KEYS = rows s KEYS"
proof -
  from good obtain ob ib where b: "ops = [Put EDGES_OUT (edge_key e) ob, Put EDGES_IN (in_key e) ib]"
      "sealed_ok X s ob" "sealed_ok X s ib" "seal_tag X ob = seal_tag X ib"
      "open_edge X (usable X s) EDGES_OUT (edge_key e) ob = Inr (Some e)"
      "open_edge X (usable X s) EDGES_IN (in_key e) ib = Inr (Some e)"
    by auto
  have r: "rows s' NODES = rows s NODES" "rows s' EDGES_OUT = (rows s EDGES_OUT)(edge_key e \<mapsto> ob)"
    "rows s' EDGES_IN = (rows s EDGES_IN)(in_key e \<mapsto> ib)" and keys: "rows s' KEYS = rows s KEYS"
    by (simp_all add: rows b(1))
  note same = same_keys [OF keys] row_ok_same [OF keys]
  have ov: "edge_view X s' = (edge_view X s)(edge_key e \<mapsto> e)"
    by (auto simp: row_view_def r same b(5) fun_eq_iff)
  have iv: "row_view X s' EDGES_IN = (row_view X s EDGES_IN)(in_key e \<mapsto> e)"
    by (auto simp: row_view_def r same b(6) fun_eq_iff)
  have nv: "node_view X s' = node_view X s" by (simp add: node_view_def r same fun_eq_iff)
  have mir: "mirrored X s' d" for d
    using store_okD(6) [OF ok, of d] by (auto simp: mirrored_def ov iv r key_iff b(4))
  have new: "edge_row_ok X s EDGES_OUT edge_key (edge_key e) ob"
    "edge_row_ok X s EDGES_IN in_key (in_key e) ib"
    using b by (auto simp: edge_row_ok_def)
  have "store_ok X s'"
  proof (rule store_okI)
    show "keyring_ok X s'" using store_okD(1) [OF ok] live keys by (rule keyring_ok_same)
    show "edge_row_ok X s' EDGES_OUT edge_key k c" if "rows s' EDGES_OUT k = Some c" for k c
      using that new(1) store_okD(4) [OF ok] by (auto simp: r same split: if_splits)
    show "edge_row_ok X s' EDGES_IN in_key k c" if "rows s' EDGES_IN k = Some c" for k c
      using that new(2) store_okD(5) [OF ok] by (auto simp: r same split: if_splits)
  qed (use store_okD(3) [OF ok] mir in \<open>simp_all add: same r(1)\<close>)
  with nv ov keys show ?thesis by simp
qed

lemma same_rows:
  assumes ok: "store_ok X s" and live: "kv_live (ds_kv s')" and r: "rows s' = rows s"
  shows "store_ok X s' \<and> node_view X s' = node_view X s \<and> edge_view X s' = edge_view X s"
proof -
  have keys: "rows s' KEYS = rows s KEYS" by (simp add: r)
  note same = same_keys [OF keys] row_ok_same [OF keys]
  have views: "node_view X s' = node_view X s" "row_view X s' = row_view X s"
    by (simp_all add: node_view_def row_view_def r same fun_eq_iff)
  have "store_ok X s'"
  proof (rule store_okI)
    show "keyring_ok X s'" using store_okD(1) [OF ok] live keys by (rule keyring_ok_same)
    show "mirrored X s' e" for e
      using store_okD(6) [OF ok, of e] by (simp add: mirrored_def views r)
  qed (use store_okD(3-5) [OF ok] in \<open>simp_all add: same r\<close>)
  with views show ?thesis by simp
qed

lemma apply_item:
  assumes "store_ok X s" "good_ops X s it ops" "kv_live (ds_kv s')" "rows s' = fold view_op ops (rows s)"
  shows "store_ok X s' \<and> node_view X s' = node_upd X it (node_view X s) \<and>
    edge_view X s' = edge_upd it (edge_view X s) \<and> rows s' KEYS = rows s KEYS"
  using assms by (cases it) (auto dest: apply_node_row apply_edge_rows simp del: good_ops.simps)

lemma apply_items:
  assumes "store_ok X s" "list_all2 (good_ops X s) its opss" "kv_live (ds_kv s')"
    and "rows s' = fold view_op (concat opss) (rows s)"
  shows "store_ok X s' \<and> node_view X s' = fold (node_upd X) its (node_view X s) \<and>
    edge_view X s' = fold edge_upd its (edge_view X s) \<and> rows s' KEYS = rows s KEYS"
  using assms(1,2,4)
proof (induction its arbitrary: opss s)
  case Nil
  then have "rows s' = rows s" by simp
  with same_rows [OF Nil.prems(1) assms(3)] show ?case by simp
next
  case (Cons it its)
  then obtain ops opss' where opss: "opss = ops # opss'" "good_ops X s it ops"
      "list_all2 (good_ops X s) its opss'"
    by (auto simp: list_all2_Cons1)
  obtain kv' where kv': "kv_live kv'" "kv_view kv' = fold view_op ops (rows s)"
    using mem_kv.batchE [OF store_okD(2) [OF Cons.prems(1)], of ops] by blast
  let ?q = "s\<lparr>ds_kv := kv'\<rparr>"
  have step: "store_ok X ?q \<and> node_view X ?q = node_upd X it (node_view X s) \<and>
      edge_view X ?q = edge_upd it (edge_view X s) \<and> rows ?q KEYS = rows s KEYS"
    by (rule apply_item [OF Cons.prems(1) opss(2)]) (simp_all add: kv')
  then have g: "good_ops X ?q = good_ops X s" by (intro same_keys(4)) blast
  have all: "list_all2 (good_ops X ?q) its opss'" using opss(3) by (simp only: g)
  have "rows s' = fold view_op (concat opss') (rows ?q)"
    using Cons.prems(3) kv'(2) opss(1) by simp
  with Cons.IH [OF _ all] step show ?case by (simp only: fold_Cons comp_apply)
qed

end
