(* ===== verification/Store_Ops.thy ===== *)
theory Store_Ops
  imports Store_Inv Ideal
begin

text \<open>
  The effect of every writing operation of the DAG store. \<open>effect X s s' its\<close> says that the
  invariant holds in \<open>s'\<close> and that what is read from \<open>s'\<close> is what was read from \<open>s\<close> with
  the logical writes \<open>its\<close> applied in order. On an error every operation has the empty
  effect: it may have minted a key, but nothing that is read has changed. A key generation
  is retired once its tenant has reached it and its key is gone; no operation ever brings a
  retired generation back.
\<close>

definition retired :: "externals \<Rightarrow> dag_store \<Rightarrow> string \<Rightarrow> u32 \<Rightarrow> bool" where
  "retired X s t g \<longleftrightarrow>
     (\<exists>e. keyring_at X s t = Some e \<and> g \<le> kr_gen e) \<and> usable X s t g = None"

lemma retired_grow: "keys_grow X s s' \<Longrightarrow> retired X s t g \<Longrightarrow> retired X s' t g"
  by (fastforce simp: keys_grow_def retired_def)

lemma retired_same: "rows s' KEYS = rows s KEYS \<Longrightarrow> retired X s' t g = retired X s t g"
  using same_keys(1,2) [of s' s X] by (simp add: retired_def)

definition present :: "dag_store \<Rightarrow> content_hash set" where
  "present s = {nid. rows s NODES (hash_bytes nid) \<noteq> None}"

fun item_ids :: "externals \<Rightarrow> item \<Rightarrow> content_hash set" where
  "item_ids X (INode n) = {node_id X n}"
| "item_ids X (IEdge e) = {}"

definition effect :: "externals \<Rightarrow> dag_store \<Rightarrow> dag_store \<Rightarrow> item list \<Rightarrow> bool" where
  "effect X s s' its \<longleftrightarrow> store_ok X s' \<and> ds_encrypt s' = ds_encrypt s \<and>
     node_view X s' = fold (node_upd X) its (node_view X s) \<and>
     edge_view X s' = fold edge_upd its (edge_view X s) \<and>
     present s' = present s \<union> (\<Union>it \<in> set its. item_ids X it) \<and>
     (\<forall>t g. retired X s t g \<longrightarrow> retired X s' t g)"

lemma present_grow: "keys_grow X s s' \<Longrightarrow> present s' = present s"
  by (simp add: present_def keys_grow_def)

lemma present_batch:
  assumes "list_all2 (good_ops X s) its opss" "rows s' = fold view_op (concat opss) (rows q)"
  shows "present s' = present q \<union> (\<Union>it \<in> set its. item_ids X it)"
proof -
  have "{nid. fold view_op (concat opss) R NODES (hash_bytes nid) \<noteq> None} =
      {nid. R NODES (hash_bytes nid) \<noteq> None} \<union> (\<Union>it \<in> set its. item_ids X it)" for R
    using assms(1)
  proof (induction arbitrary: R rule: list_all2_induct)
    case Nil
    then show ?case by simp
  next
    case (Cons it its ops opss)
    have "{nid. fold view_op ops R NODES (hash_bytes nid) \<noteq> None} =
        {nid. R NODES (hash_bytes nid) \<noteq> None} \<union> item_ids X it"
      using Cons.hyps(1) by (cases it) auto
    with Cons.IH [of "fold view_op ops R"] show ?case by auto
  qed
  then show ?thesis by (simp add: present_def assms(2))
qed

lemma keys_grow_encrypt: "keys_grow X s s' \<Longrightarrow> ds_encrypt s' = ds_encrypt s"
  by (simp add: keys_grow_def)

lemma effect_refl [simp]: "store_ok X s \<Longrightarrow> effect X s s []"
  by (simp add: effect_def)

lemma effect_grow: "store_ok X s \<Longrightarrow> keys_grow X s s' \<Longrightarrow> effect X s s' []"
  by (simp add: effect_def store_ok_grow views_grow retired_grow keys_grow_encrypt present_grow)

lemma effect_trans: "effect X s s' its \<Longrightarrow> effect X s' s'' its' \<Longrightarrow> effect X s s'' (its @ its')"
  by (simp add: effect_def Un_assoc)

lemma effect_ok: "effect X s s' its \<Longrightarrow> store_ok X s'"
  by (simp add: effect_def)

section \<open>Encoding rows\<close>

lemma slift_bind: "sbind (slift r) f s = (case r of Inl e \<Rightarrow> (Inl e, s) | Inr x \<Rightarrow> f x s)"
  by (simp add: sbind_def split: sum.split)

lemma sread_bind: "sbind (sread g) f s = (case g s of Inl e \<Rightarrow> (Inl e, s) | Inr x \<Rightarrow> f x s)"
  by (simp add: sbind_def split: sum.split)

lemmas bind_simps = slift_bind sread_bind

lemma node_row_plain:
  assumes "externals_ok X" "node_to_json X n = Inr b" "json_safe n"
  shows "good_ops X s (INode n) [Put NODES (hash_bytes (node_id X n)) b]"
  using assms externals_okD(4) [OF assms(1,2)] plain_not_envelope(1) [OF assms(1,2)]
  by (simp add: open_node_def sealed_ok_def seal_tag_def)

lemma node_row_sealed:
  assumes X: "externals_ok X" and "node_to_json X n = Inr p" "json_safe n"
    and "seal X k t g (node_id X n) p = Inr b" and "usable X s t g = Some k"
    and "keyring_at X s t = Some e" "kr_gen e = g"
  shows "good_ops X s (INode n) [Put NODES (hash_bytes (node_id X n)) b]"
proof -
  from seal_opens [OF X assms(4)] obtain env where env: "parse_envelope X b = Some env"
      "env_tenant env = t" "env_kgen env = g" "open_env X k env (node_id X n) = Inr p" .
  then have "open_node X (usable X s) (node_id X n) b = Inr (Some n)"
    using assms externals_okD(4) [OF X assms(2,3)] by (simp add: open_node_def)
  moreover have "sealed_ok X s b" using env assms(6,7) by (auto simp: sealed_ok_def seal_tag_def)
  ultimately show ?thesis using assms(3) by simp
qed

lemma encode_node_cases:
  assumes X: "externals_ok X" and ok: "keyring_ok X s" and run: "encode_node X n s = (r, s')"
  shows "keys_grow X s s'"
    and "r = Inr b \<Longrightarrow> json_safe n \<Longrightarrow>
      good_ops X s' (INode n) [Put NODES (hash_bytes (node_id X n)) b]"
proof -
  have "keys_grow X s s' \<and> (\<forall>b. r = Inr b \<longrightarrow> json_safe n \<longrightarrow>
      good_ops X s' (INode n) [Put NODES (hash_bytes (node_id X n)) b])"
  proof (cases "node_to_json X n")
    case (Inl m)
    with run ok show ?thesis by (auto simp: encode_node_def bind_simps)
  next
    case (Inr p)
    show ?thesis
    proof (cases "ds_encrypt s")
      case False
      with run ok Inr have "r = Inr p" "s' = s" by (auto simp: encode_node_def bind_simps)
      with ok show ?thesis using node_row_plain [OF X Inr] by simp
    next
      case True
      obtain q t where q: "ensure_tenant_key X (n_repo n) s = (q, t)"
        by (cases "ensure_tenant_key X (n_repo n) s")
      note key = ensure_tenant_key_cases [OF X ok q]
      show ?thesis
      proof (cases q)
        case (Inl m)
        with run True Inr q key show ?thesis by (auto simp: encode_node_def bind_simps sbind_def)
      next
        case q': (Inr gk)
        obtain g k where gk: "gk = (g, k)" by (cases gk)
        have "s' = t" "r = seal X k (n_repo n) g (node_id X n) p"
          using run True Inr q q' gk by (auto simp: encode_node_def bind_simps sbind_def)
        with key q' gk show ?thesis using node_row_sealed [OF X Inr] by metis
      qed
    qed
  qed
  then show "keys_grow X s s'" "r = Inr b \<Longrightarrow> json_safe n \<Longrightarrow>
      good_ops X s' (INode n) [Put NODES (hash_bytes (node_id X n)) b]"
    by auto
qed

lemma edge_rows_plain:
  assumes "externals_ok X" "edge_to_json X e = Inr b"
  shows "good_ops X s (IEdge e) [Put EDGES_OUT (edge_key e) b, Put EDGES_IN (in_key e) b]"
  using assms externals_okD(5) [OF assms] plain_not_envelope(2) [OF assms]
  by (simp add: open_edge_def sealed_ok_def seal_tag_def)

lemma edge_row_sealed:
  assumes X: "externals_ok X" and "edge_to_json X e = Inr p"
    and "seal_at X k t g cf key p = Inr b" and "usable X s t g = Some k"
    and "keyring_at X s t = Some kr" "kr_gen kr = g"
  shows "open_edge X (usable X s) cf key b = Inr (Some e) \<and> sealed_ok X s b \<and> seal_tag X b = Some (t, g)"
proof -
  from seal_at_opens [OF X assms(3)] obtain env where env: "parse_envelope X b = Some env"
      "env_tenant env = t" "env_kgen env = g" "open_at X k env cf key = Inr p" .
  then show ?thesis
    using assms externals_okD(5) [OF X assms(2)] by (simp add: open_edge_def sealed_ok_def seal_tag_def)
qed

lemma edge_put_ops_cases:
  assumes X: "externals_ok X" and ok: "keyring_ok X s" and run: "edge_put_ops X e batch s = (r, s')"
  shows "keys_grow X s s'" and "r = Inr ops \<Longrightarrow> good_ops X s' (IEdge e) ops"
proof -
  have "keys_grow X s s' \<and> (\<forall>ops. r = Inr ops \<longrightarrow> good_ops X s' (IEdge e) ops)"
  proof (cases "edge_to_json X e")
    case (Inl m)
    with run ok show ?thesis by (auto simp: edge_put_ops_def bind_simps)
  next
    case (Inr p)
    show ?thesis
    proof (cases "ds_encrypt s")
      case False
      with run ok Inr have "r = Inr [Put EDGES_OUT (edge_key e) p, Put EDGES_IN (in_key e) p]" "s' = s"
        by (auto simp: edge_put_ops_def bind_simps sbind_def)
      with ok show ?thesis using edge_rows_plain [OF X Inr] by auto
    next
      case True
      show ?thesis
      proof (cases "edge_tenant X e batch s")
        case (Inl m)
        with run True Inr ok show ?thesis by (auto simp: edge_put_ops_def bind_simps sbind_def)
      next
        case tn: (Inr tn)
        obtain q t where q: "ensure_tenant_key X tn s = (q, t)"
          by (cases "ensure_tenant_key X tn s")
        note key = ensure_tenant_key_cases [OF X ok q]
        show ?thesis
        proof (cases q)
          case (Inl m)
          with run True Inr tn q key show ?thesis by (auto simp: edge_put_ops_def bind_simps sbind_def)
        next
          case q': (Inr gk)
          obtain g k where gk: "gk = (g, k)" by (cases gk)
          have "s' = t" and res: "\<forall>ops. r = Inr ops \<longrightarrow> (\<exists>ob ib.
              seal_at X k tn g EDGES_OUT (edge_key e) p = Inr ob \<and>
              seal_at X k tn g EDGES_IN (in_key e) p = Inr ib \<and>
              ops = [Put EDGES_OUT (edge_key e) ob, Put EDGES_IN (in_key e) ib])"
            using run True Inr tn q q' gk
            by (auto simp: edge_put_ops_def bind_simps sbind_def split: sum.splits)
          from key q' gk obtain kr where "keyring_at X t tn = Some kr" "kr_gen kr = g"
              "usable X t tn g = Some k"
            by auto
          note sealed = edge_row_sealed [OF X Inr _ this(3,1,2)]
          from res have "good_ops X t (IEdge e) ops" if "r = Inr ops" for ops
            using that sealed by fastforce
          with \<open>s' = t\<close> key show ?thesis by simp
        qed
      qed
    qed
  qed
  then show "keys_grow X s s'" "r = Inr ops \<Longrightarrow> good_ops X s' (IEdge e) ops" by auto
qed

section \<open>Node writes\<close>

lemma kv_wr_batch:
  assumes "kv_live (ds_kv s)"
  obtains s' where "kv_wr (kv_write_batch ops) s = (Inr (), s')" "kv_live (ds_kv s')"
    "rows s' = fold view_op ops (rows s)" "ds_encrypt s' = ds_encrypt s"
proof (rule mem_kv.batchE [OF assms, of ops])
  fix kv'
  assume "kv_write_batch ops (ds_kv s) = (Inr (), kv')" "kv_live kv'"
    "kv_view kv' = fold view_op ops (kv_view (ds_kv s))"
  then show thesis by (intro that [of "s\<lparr>ds_kv := kv'\<rparr>"]) (simp_all add: kv_wr_def)
qed

lemma write_items:
  assumes "store_ok X s" "list_all2 (good_ops X s) its opss"
    and "kv_wr (kv_write_batch (concat opss)) s = (r, s')"
  shows "r = Inr () \<and> effect X s s' its"
proof -
  obtain q where q: "kv_wr (kv_write_batch (concat opss)) s = (Inr (), q)" "kv_live (ds_kv q)"
      "rows q = fold view_op (concat opss) (rows s)" "ds_encrypt q = ds_encrypt s"
    by (rule kv_wr_batch [OF store_okD(2) [OF assms(1)]])
  have "store_ok X q" "node_view X q = fold (node_upd X) its (node_view X s)"
      "edge_view X q = fold edge_upd its (edge_view X s)" "rows q KEYS = rows s KEYS"
    using apply_items [OF assms(1,2) q(2,3)] by simp_all
  moreover from this(4) have "retired X q t g = retired X s t g" for t g by (rule retired_same)
  moreover have "present q = present s \<union> (\<Union>it \<in> set its. item_ids X it)"
    by (rule present_batch [OF assms(2) q(3)])
  ultimately show ?thesis using q(1,4) assms(3) by (simp add: effect_def)
qed

lemma write_item:
  assumes "store_ok X s" "good_ops X s it ops" "kv_wr (kv_write_batch ops) s = (r, s')"
  shows "r = Inr () \<and> effect X s s' [it]"
  using write_items [OF assms(1), of "[it]" "[ops]"] assms(2,3) by simp

lemma kv_put_batch: "kv_put cf k v = kv_write_batch [Put cf k v]"
  by (simp add: kv_put_def kv_write_batch_def)

lemma put_node_effect:
  assumes X: "externals_ok X" and ok: "store_ok X s" and safe: "json_safe n"
    and run: "put_node X n s = (r, s')"
  shows "(\<exists>e. r = Inl e \<and> effect X s s' []) \<or> (r = Inr (node_id X n) \<and> effect X s s' [INode n])"
proof -
  obtain q t where q: "encode_node X n s = (q, t)" by (cases "encode_node X n s")
  note enc = encode_node_cases [OF X store_okD(1) [OF ok] q]
  have t: "effect X s t []" by (rule effect_grow [OF ok enc(1)])
  show ?thesis
  proof (cases q)
    case (Inl e)
    with run q t show ?thesis by (auto simp: put_node_def sbind_def)
  next
    case (Inr b)
    obtain w u where w: "kv_wr (kv_write_batch [Put NODES (hash_bytes (node_id X n)) b]) t = (w, u)"
      by (cases "kv_wr (kv_write_batch [Put NODES (hash_bytes (node_id X n)) b]) t")
    have "w = Inr () \<and> effect X t u [INode n]"
      by (rule write_item [OF effect_ok [OF t] enc(2) [OF Inr safe] w])
    with run q Inr w effect_trans [OF t] show ?thesis
      by (fastforce simp: put_node_def sbind_def kv_put_batch)
  qed
qed

subsection \<open>Progress\<close>

text \<open>When the called crates do not fail, neither does a node write: the error branches of the
  theorems below are only reached through theirs.\<close>

lemma put_keyring_entry_total:
  assumes "externals_total X" "keyring_ok X s"
  shows "\<exists>s'. put_keyring_entry X t e s = (Inr (), s')"
proof -
  obtain b where "keyring_to_json X e = Inr b" using externals_totalD(6) [OF assms(1)] by blast
  moreover obtain s' where "kv_wr (kv_put KEYS (as_bytes t) b) s = (Inr (), s')"
    by (rule kv_wr_put [OF keyring_ok_live [OF assms(2)]])
  ultimately show ?thesis by (simp add: put_keyring_entry_def bind_simps)
qed

lemma ensure_tenant_key_total:
  assumes X: "externals_ok X" "externals_total X" and ok: "keyring_ok X s"
  shows "\<exists>gk s'. ensure_tenant_key X t s = (Inr gk, s')"
proof -
  obtain k where "getrandom X (ds_draws s) = Inr k" using externals_totalD(1) [OF X(2)] by blast
  then obtain q where d: "draw_key X s = (Inr k, q)" by (simp add: draw_key_def generate_key_def)
  have "keyring_ok X q" using draw_key_frame(5) [OF d] ok by simp
  note put = put_keyring_entry_total [OF X(2) this, of t]
  show ?thesis
  proof (cases "keyring_at X s t")
    case None
    obtain s' where "put_keyring_entry X t
        \<lparr>kr_gen = 0 + 1, kr_key = Some (hex_encode X (hash_bytes k))\<rparr> q = (Inr (), s')"
      using put by blast
    with None d show ?thesis
      by (simp add: ensure_tenant_key_def bind_simps keyring_entry_of_eq [OF ok] sbind_def)
  next
    case (Some e)
    with ok obtain m where m: "key_bytes X e = Inr m" by (rule keyring_at_ok)
    obtain s' where "put_keyring_entry X t
        \<lparr>kr_gen = kr_gen e + 1, kr_key = Some (hex_encode X (hash_bytes k))\<rparr> q = (Inr (), s')"
      using put by blast
    with Some m d show ?thesis
      by (cases m) (simp_all add: ensure_tenant_key_def bind_simps keyring_entry_of_eq [OF ok] sbind_def)
  qed
qed

lemma encode_node_total:
  assumes X: "externals_ok X" "externals_total X" and ok: "keyring_ok X s"
  shows "\<exists>b s'. encode_node X n s = (Inr b, s')"
proof -
  obtain p where p: "node_to_json X n = Inr p" using externals_totalD(3) [OF X(2)] by blast
  obtain g k s' where k: "ensure_tenant_key X (n_repo n) s = (Inr (g, k), s')"
    using ensure_tenant_key_total [OF X ok] by (metis surj_pair)
  obtain b where "seal X k (n_repo n) g (node_id X n) p = Inr b"
    using seal_total(1) [OF X(2)] by blast
  with p k show ?thesis by (simp add: encode_node_def bind_simps) (simp add: sbind_def)
qed

lemma put_node_total:
  assumes X: "externals_ok X" "externals_total X" and ok: "store_ok X s"
  shows "\<exists>s'. put_node X n s = (Inr (node_id X n), s')"
proof -
  obtain b q where q: "encode_node X n s = (Inr b, q)"
    using encode_node_total [OF X store_okD(1) [OF ok]] by blast
  have "kv_live (ds_kv q)"
    using encode_node_cases(1) [OF X(1) store_okD(1) [OF ok] q] keys_grow_ok by fastforce
  then obtain s' where "kv_wr (kv_put NODES (hash_bytes (node_id X n)) b) q = (Inr (), s')"
    by (rule kv_wr_put)
  with q show ?thesis by (simp add: put_node_def sbind_def)
qed

text \<open>Putting a node and reading its id back gives the node, in a plaintext store and in a
  sealing one alike; every other id and every edge reads as before; and a put that fails
  leaves everything that is read as it was. The invariant of the store is kept in each
  case, and a put fails only when one of the called crates does.\<close>

theorem put_node_get_node:
  assumes X: "externals_ok X" and ok: "store_ok X s" and "json_safe n" "put_node X n s = (r, s')"
  shows "store_ok X s' \<and>
    (\<forall>nid. get_node X nid s' = (if r = Inr nid then Inr (Some n) else get_node X nid s)) \<and>
    (\<forall>nid. r = Inr nid \<longrightarrow> nid = compute_id (blake3 X) n) \<and>
    edge_view X s' = edge_view X s \<and>
    (externals_total X \<longrightarrow> (\<exists>nid. r = Inr nid))"
proof -
  have "externals_total X \<Longrightarrow> \<exists>nid. r = Inr nid"
    using put_node_total [OF X _ ok, of n] assms(4) by auto
  with put_node_effect [OF assms] show ?thesis
    by (elim disjE exE conjE) (auto simp: effect_def get_node_eq ok)
qed

lemma new_encrypted_store_ok [simp]: "store_ok X (new_encrypted kv_new)"
  by (rule store_okI) (simp_all add: new_encrypted_def keyring_ok_def mirrored_def row_view_def)

lemma new_store_ok [simp]: "store_ok X (new kv_new)"
  by (rule store_okI) (simp_all add: new_def keyring_ok_def mirrored_def row_view_def)

lemma sample_node_safe [simp]: "json_safe sample_node"
  by (simp add: json_safe_def sample_node_def)

text \<open>On a fresh sealing store over the model crates of theory \<^verbatim>\<open>Ideal\<close>.\<close>

theorem put_node_get_node_witness:
  "\<exists>s'. put_node ideal_externals sample_node (new_encrypted kv_new) =
       (Inr (node_id ideal_externals sample_node), s') \<and>
     get_node ideal_externals (node_id ideal_externals sample_node) s' = Inr (Some sample_node)"
proof -
  let ?X = ideal_externals
  obtain r s' where run: "put_node ?X sample_node (new_encrypted kv_new) = (r, s')"
    by (cases "put_node ?X sample_node (new_encrypted kv_new)")
  from put_node_get_node [OF ideal_externals_ok new_encrypted_store_ok sample_node_safe run]
  show ?thesis using run ideal_externals_total by metis
qed

section \<open>Edge writes\<close>

lemma find_by_key:
  assumes "distinct (map edge_key es)" "d \<in> set es" "edge_key d = edge_key e"
  shows "List.find (\<lambda>x. e_to x = e_to e \<and> e_kind x = e_kind e) (filter (\<lambda>x. e_from x = e_from e) es) = Some d"
  using assms
proof (induction es)
  case Nil
  then show ?case by simp
next
  case (Cons x es)
  show ?case
  proof (cases "x = d")
    case True
    with Cons.prems(3) show ?thesis by (simp add: edge_key_inject)
  next
    case False
    with Cons.prems have d: "d \<in> set es" by simp
    moreover from Cons.prems(1,3) d have "edge_key x \<noteq> edge_key e"
      by (metis distinct.simps(2) image_eqI list.set_map list.simps(9))
    ultimately show ?thesis using Cons by (auto simp: edge_key_inject)
  qed
qed

lemma find_edge:
  assumes "store_ok X s" "out_edges X (e_from e) s = Inr es"
  shows "List.find (\<lambda>x. e_to x = e_to e \<and> e_kind x = e_kind e) es = edge_view X s (edge_key e)"
proof -
  obtain es' where es': "out_edges X (e_from e) s = Inr es'" "distinct (map edge_key es')"
      "\<And>d. d \<in> set es' \<longleftrightarrow> edge_view X s (edge_key d) = Some d \<and> e_from d = e_from e"
    by (rule out_edges_spec [OF assms(1)]) blast
  then have eq: "es' = es" and fil: "filter (\<lambda>x. e_from x = e_from e) es = es"
    using assms(2) by (auto simp: filter_id_conv)
  show ?thesis
  proof (cases "edge_view X s (edge_key e)")
    case None
    then have "\<not> (\<exists>d \<in> set es. e_to d = e_to e \<and> e_kind d = e_kind e)"
      using es'(3) eq by (auto simp: edge_key_def)
    with None show ?thesis by (auto simp: find_None_iff)
  next
    case (Some d)
    then obtain b where "rows s EDGES_OUT (edge_key e) = Some b"
        "open_edge X (usable X s) EDGES_OUT (edge_key e) b = Inr (Some d)"
      by (auto simp: row_view_def bind_eq_Some_conv)
    with store_okD(4) [OF assms(1)] have key: "edge_key d = edge_key e"
      by (fastforce simp: edge_row_ok_def)
    with Some es'(3) [of d] eq have "d \<in> set es" by (simp add: edge_key_inject)
    with find_by_key [OF es'(2) [unfolded eq] this key] Some show ?thesis by (simp add: fil)
  qed
qed

lemma stored_edge_eq:
  assumes "store_ok X s"
  shows "stored_edge X e s = Inr (edge_view X s (edge_key e))"
proof -
  obtain es where "out_edges X (e_from e) s = Inr es" by (rule out_edges_spec [OF assms])
  with find_edge [OF assms this] show ?thesis by (simp add: stored_edge_def)
qed

definition demoting :: "externals \<Rightarrow> dag_store \<Rightarrow> edge \<Rightarrow> bool" where
  "demoting X s e \<longleftrightarrow> e_quarantined e \<and>
     (\<exists>d. edge_view X s (edge_key e) = Some d \<and> \<not> e_quarantined d)"

lemma is_demoting_write_eq:
  "store_ok X s \<Longrightarrow> is_demoting_write X e s = Inr (demoting X s e)"
  by (auto simp: is_demoting_write_def stored_edge_eq demoting_def split: option.splits)

lemma add_edge_effect:
  assumes X: "externals_ok X" and ok: "store_ok X s" and run: "add_edge X e s = (r, s')"
  shows "(\<exists>m. r = Inl m \<and> effect X s s' []) \<or>
    (r = Inr () \<and> effect X s s' (if demoting X s e then [] else [IEdge e]))"
proof (cases "demoting X s e")
  case True
  with run ok show ?thesis by (auto simp: add_edge_def bind_simps is_demoting_write_eq)
next
  case False
  obtain q t where q: "edge_put_ops X e Map.empty s = (q, t)"
    by (cases "edge_put_ops X e Map.empty s")
  note enc = edge_put_ops_cases [OF X store_okD(1) [OF ok] q]
  have t: "effect X s t []" by (rule effect_grow [OF ok enc(1)])
  show ?thesis
  proof (cases q)
    case (Inl m)
    with run q t False ok show ?thesis
      by (auto simp: add_edge_def bind_simps is_demoting_write_eq sbind_def)
  next
    case (Inr ops)
    obtain w u where w: "kv_wr (kv_write_batch ops) t = (w, u)"
      by (cases "kv_wr (kv_write_batch ops) t")
    have "w = Inr () \<and> effect X t u [IEdge e]"
      by (rule write_item [OF effect_ok [OF t] enc(2) [OF Inr] w])
    with run q Inr w effect_trans [OF t] False ok show ?thesis
      by (fastforce simp: add_edge_def bind_simps is_demoting_write_eq sbind_def)
  qed
qed

section \<open>Atomic commits\<close>

lemma sfold_Cons_run:
  "sfold f (x # xs) a s = (r, s') \<Longrightarrow>
     (\<exists>e. f x a s = (Inl e, s') \<and> r = Inl e) \<or> (\<exists>b q. f x a s = (Inr b, q) \<and> sfold f xs b q = (r, s'))"
  by (cases "f x a s"; cases "fst (f x a s)") (auto simp: sbind_def)

lemma good_ops_all_grow:
  "keys_grow X s s' \<Longrightarrow> list_all2 (good_ops X s) its opss \<Longrightarrow> list_all2 (good_ops X s') its opss"
  by (erule list_all2_mono) (rule good_ops_grow)

lemma commit_nodes_run:
  assumes X: "externals_ok X" and "keyring_ok X s" "\<forall>n \<in> set ns. json_safe n"
    and "sfold (commit_node X) ns (ops, batch) s = (r, s')"
  shows "keys_grow X s s' \<and> (\<forall>ops' batch'. r = Inr (ops', batch') \<longrightarrow>
    (\<exists>opss. ops' = ops @ concat opss \<and> list_all2 (good_ops X s') (map INode ns) opss))"
  using assms(2-4)
proof (induction ns arbitrary: ops batch s)
  case Nil
  then show ?case by (auto simp: sok_def intro: exI [of _ "[]"])
next
  case (Cons n ns)
  obtain q t where q: "encode_node X n s = (q, t)" by (cases "encode_node X n s")
  note enc = encode_node_cases [OF X Cons.prems(1) q]
  show ?case
  proof (cases q)
    case (Inl e)
    with sfold_Cons_run [OF Cons.prems(3)] q enc(1) show ?thesis
      by (auto simp: commit_node_def [of X n] sbind_def)
  next
    case (Inr b)
    let ?op = "[Put NODES (hash_bytes (node_id X n)) b]"
    from sfold_Cons_run [OF Cons.prems(3)] q Inr
    have run: "sfold (commit_node X) ns (ops @ ?op, batch(node_id X n \<mapsto> tenant_of n)) t = (r, s')"
      by (auto simp: commit_node_def [of X n] sbind_def sok_def)
    have IH: "keys_grow X t s' \<and> (\<forall>ops' batch'. r = Inr (ops', batch') \<longrightarrow>
        (\<exists>opss. ops' = (ops @ ?op) @ concat opss \<and> list_all2 (good_ops X s') (map INode ns) opss))"
      by (rule Cons.IH [OF keys_grow_ok [OF enc(1)] _ run]) (use Cons.prems(2) in simp)
    have "good_ops X s' (INode n) ?op"
      by (rule good_ops_grow [OF conjunct1 [OF IH] enc(2) [OF Inr]]) (use Cons.prems(2) in simp)
    with IH keys_grow_trans [OF enc(1)] show ?thesis
      by (fastforce simp del: good_ops.simps intro: exI [of _ "?op # _"])
  qed
qed

lemma demoting_grow: "store_ok X s \<Longrightarrow> keys_grow X s s' \<Longrightarrow> demoting X s' = demoting X s"
  by (simp add: demoting_def views_grow fun_eq_iff)

lemma commit_edges_run:
  assumes X: "externals_ok X" and "store_ok X s"
    and "sfold (commit_edge X batch) es ops s = (r, s')"
  shows "keys_grow X s s' \<and> (\<forall>ops'. r = Inr ops' \<longrightarrow>
    (\<exists>opss. ops' = ops @ concat opss \<and>
      list_all2 (good_ops X s') (map IEdge (filter (\<lambda>e. \<not> demoting X s e) es)) opss))"
  using assms(2,3)
proof (induction es arbitrary: ops s)
  case Nil
  then show ?case by (auto simp: sok_def store_okD intro: exI [of _ "[]"])
next
  case (Cons e es)
  note dem = is_demoting_write_eq [OF Cons.prems(1), of e]
  show ?case
  proof (cases "demoting X s e")
    case True
    with sfold_Cons_run [OF Cons.prems(2)] have "sfold (commit_edge X batch) es ops s = (r, s')"
      by (auto simp: commit_edge_def [of X batch e] bind_simps dem sok_def)
    from Cons.IH [OF Cons.prems(1) this] True show ?thesis by simp
  next
    case False
    obtain q t where q: "edge_put_ops X e batch s = (q, t)" by (cases "edge_put_ops X e batch s")
    note enc = edge_put_ops_cases [OF X store_okD(1) [OF Cons.prems(1)] q]
    note t_ok = store_ok_grow [OF Cons.prems(1) enc(1)]
    show ?thesis
    proof (cases q)
      case (Inl m)
      with sfold_Cons_run [OF Cons.prems(2)] q enc(1) False show ?thesis
        by (auto simp: commit_edge_def [of X batch e] bind_simps dem sbind_def)
    next
      case (Inr nops)
      from sfold_Cons_run [OF Cons.prems(2)] q Inr False
      have run: "sfold (commit_edge X batch) es (ops @ nops) t = (r, s')"
        by (auto simp: commit_edge_def [of X batch e] bind_simps dem sbind_def sok_def)
      note IH = Cons.IH [OF t_ok run, unfolded demoting_grow [OF Cons.prems(1) enc(1)]]
      have "good_ops X s' (IEdge e) nops"
        by (rule good_ops_grow [OF conjunct1 [OF IH] enc(2) [OF Inr]])
      with IH keys_grow_trans [OF enc(1)] False show ?thesis
        by (fastforce simp del: good_ops.simps intro: exI [of _ "nops # _"])
    qed
  qed
qed

definition commit_items :: "externals \<Rightarrow> dag_store \<Rightarrow> memory_node list \<Rightarrow> edge list \<Rightarrow> item list" where
  "commit_items X s nodes edges =
     map INode nodes @ map IEdge (filter (\<lambda>e. \<not> demoting X s e) edges)"

lemma commit_effect:
  assumes X: "externals_ok X" and ok: "store_ok X s" and safe: "\<forall>n \<in> set nodes. json_safe n"
    and run: "commit X nodes edges s = (r, s')"
  shows "(\<exists>m. r = Inl m \<and> effect X s s' []) \<or> (r = Inr () \<and> effect X s s' (commit_items X s nodes edges))"
proof -
  obtain q t where q: "sfold (commit_node X) nodes ([], Map.empty) s = (q, t)"
    by (cases "sfold (commit_node X) nodes ([], Map.empty) s")
  note nodes = commit_nodes_run [OF X store_okD(1) [OF ok] safe q]
  have t: "effect X s t []" using nodes effect_grow [OF ok] by blast
  note dem = demoting_grow [OF ok nodes [THEN conjunct1]]
  show ?thesis
  proof (cases q)
    case (Inl m)
    with run q t show ?thesis by (auto simp: commit_def sbind_def)
  next
    case (Inr p)
    obtain ops batch where p: "p = (ops, batch)" by (cases p)
    obtain q' u where q': "sfold (commit_edge X batch) edges ops t = (q', u)"
      by (cases "sfold (commit_edge X batch) edges ops t")
    note edges = commit_edges_run [OF X effect_ok [OF t] q', unfolded dem]
    have u: "effect X s u []" using effect_trans [OF t effect_grow [OF effect_ok [OF t]]] edges by simp
    show ?thesis
    proof (cases q')
      case (Inl m)
      with run q Inr p q' u show ?thesis by (auto simp: commit_def sbind_def)
    next
      case ops': (Inr ops')
      from nodes Inr p obtain o1 where o1: "ops = concat o1" "list_all2 (good_ops X t) (map INode nodes) o1"
        by auto
      from edges ops' obtain o2 where o2: "ops' = ops @ concat o2"
          "list_all2 (good_ops X u) (map IEdge (filter (\<lambda>e. \<not> demoting X s e) edges)) o2"
        by auto
      have all: "list_all2 (good_ops X u) (commit_items X s nodes edges) (o1 @ o2)"
        unfolding commit_items_def
        by (rule list_all2_appendI [OF good_ops_all_grow [OF _ o1(2)] o2(2)]) (use edges in blast)
      obtain w v where w: "kv_wr (kv_write_batch (concat (o1 @ o2))) u = (w, v)"
        by (cases "kv_wr (kv_write_batch (concat (o1 @ o2))) u")
      from write_items [OF effect_ok [OF u] all w] effect_trans [OF u] run q Inr p q' ops' w o1 o2
      show ?thesis by (auto simp: commit_def sbind_def)
    qed
  qed
qed

section \<open>Status changes\<close>

definition with_status :: "status \<Rightarrow> timestamp option \<Rightarrow> memory_node \<Rightarrow> memory_node" where
  "with_status st vt n =
     (let n' = n\<lparr>n_status := st\<rparr> in if vt \<noteq> None then n'\<lparr>n_valid_to := vt\<rparr> else n')"

lemma with_status_id [simp]: "node_id X (with_status st vt n) = node_id X n"
  by (simp add: with_status_def Let_def compute_id_updates)

lemma with_status_safe [simp]: "json_safe (with_status st vt n) = json_safe n"
  by (simp add: with_status_def Let_def json_safe_def)

lemma write_node_effect:
  assumes X: "externals_ok X" and ok: "store_ok X s" and safe: "json_safe n" and nid: "node_id X n = nid"
    and run: "sbind (encode_node X n) (\<lambda>b. sbind (kv_wr (kv_write_batch [Put NODES (hash_bytes nid) b]))
        (\<lambda>_. sok True)) s = (r, s')"
  shows "(\<exists>m. r = Inl m \<and> effect X s s' []) \<or> (r = Inr True \<and> effect X s s' [INode n])"
proof -
  obtain q u where q: "put_node X n s = (q, u)" by (cases "put_node X n s")
  have "s' = u" "r = rbind q (\<lambda>_. Inr True)"
    using q run nid
    by (auto simp: put_node_def sbind_def kv_put_batch split: prod.splits sum.splits)
  with put_node_effect [OF X ok safe q] show ?thesis by auto
qed

lemma set_node_status_effect:
  assumes X: "externals_ok X" and ok: "store_ok X s" and run: "set_node_status X nid st vt s = (r, s')"
  shows "(\<exists>m. r = Inl m \<and> effect X s s' []) \<or>
    (r = Inr False \<and> s' = s \<and> (\<forall>n. node_view X s nid = Some n \<longrightarrow> n_status n = st)) \<or>
    (r = Inr True \<and> (\<exists>n. node_view X s nid = Some n \<and> n_status n \<noteq> st \<and>
       effect X s s' [INode (with_status st vt n)]))"
proof (cases "node_view X s nid")
  case None
  with run ok show ?thesis by (auto simp: set_node_status_def bind_simps get_node_eq sok_def)
next
  case (Some n)
  show ?thesis
  proof (cases "n_status n = st")
    case True
    with Some run ok show ?thesis by (auto simp: set_node_status_def bind_simps get_node_eq sok_def)
  next
    case False
    note n = node_view_id [OF ok Some]
    have "sbind (encode_node X (with_status st vt n)) (\<lambda>b.
        sbind (kv_wr (kv_write_batch [Put NODES (hash_bytes nid) b])) (\<lambda>_. sok True)) s = (r, s')"
      using run Some False ok
      by (simp add: set_node_status_def bind_simps get_node_eq with_status_def Let_def)
    from write_node_effect [OF X ok _ _ this] n Some False show ?thesis by auto
  qed
qed

end
