(* ===== verification/Dag_Spec.thy ===== *)
theory Dag_Spec
  imports Store_Ops
begin

text \<open>
  The contract of the DAG store, stated over an abstract graph: a map from content hashes to
  nodes and a map from edge keys to edges. Sealing, envelopes, key rotation and the two
  adjacency tables are gone; \<open>abs_dag\<close> is the abstraction of a store state and the theorems
  show that reads and writes of \<^verbatim>\<open>MemoryDagStore\<close> implement the abstract operations.
\<close>

record dag =
  dg_nodes :: "content_hash \<rightharpoonup> memory_node"
  dg_edges :: "bytes \<rightharpoonup> edge"

definition abs_dag :: "externals \<Rightarrow> dag_store \<Rightarrow> dag" where
  "abs_dag X s = \<lparr>dg_nodes = node_view X s, dg_edges = edge_view X s\<rparr>"

definition dag_demotes :: "dag \<Rightarrow> edge \<Rightarrow> bool" where
  "dag_demotes d e \<longleftrightarrow> e_quarantined e \<and>
     (case dg_edges d (edge_key e) of None \<Rightarrow> False | Some old \<Rightarrow> \<not> e_quarantined old)"

definition dag_commit ::
    "(memory_node \<Rightarrow> content_hash) \<Rightarrow> memory_node list \<Rightarrow> edge list \<Rightarrow> dag \<Rightarrow> dag" where
  "dag_commit idf nodes edges d =
     \<lparr>dg_nodes = fold (\<lambda>n m. m(idf n \<mapsto> n)) nodes (dg_nodes d),
      dg_edges = fold (\<lambda>e m. m(edge_key e \<mapsto> e)) (filter (\<lambda>e. \<not> dag_demotes d e) edges) (dg_edges d)\<rparr>"

definition dag_out :: "dag \<Rightarrow> content_hash \<Rightarrow> edge set" where
  "dag_out d nid = {e. dg_edges d (edge_key e) = Some e \<and> e_from e = nid}"

definition dag_in :: "dag \<Rightarrow> content_hash \<Rightarrow> edge set" where
  "dag_in d nid = {e. dg_edges d (edge_key e) = Some e \<and> e_to e = nid}"

lemma abs_dag_sel [simp]:
  "dg_nodes (abs_dag X s) = node_view X s" "dg_edges (abs_dag X s) = edge_view X s"
  by (simp_all add: abs_dag_def)

lemma dag_demotes_abs: "dag_demotes (abs_dag X s) e \<longleftrightarrow> demoting X s e"
  by (auto simp: dag_demotes_def demoting_def split: option.splits)

lemma fold_node_items [simp]:
  "fold (node_upd X) (map INode ns) m = fold (\<lambda>n m. m(node_id X n \<mapsto> n)) ns m"
  "fold (node_upd X) (map IEdge es) m = m"
  by (induction ns arbitrary: m, simp_all, induction es arbitrary: m, simp_all)

lemma fold_edge_items [simp]:
  "fold edge_upd (map INode ns) m' = m'"
  "fold edge_upd (map IEdge es) m' = fold (\<lambda>e m. m(edge_key e \<mapsto> e)) es m'"
  by (induction ns arbitrary: m', simp_all, induction es arbitrary: m', simp_all)

lemma effect_abs:
  assumes "effect X s s' its"
  shows "abs_dag X s' = \<lparr>dg_nodes = fold (node_upd X) its (node_view X s),
    dg_edges = fold edge_upd its (edge_view X s)\<rparr>"
  using assms by (simp add: effect_def abs_dag_def)

lemma commit_items_abs:
  assumes "effect X s s' (commit_items X s nodes edges)"
  shows "abs_dag X s' = dag_commit (node_id X) nodes edges (abs_dag X s)"
  using effect_abs [OF assms] by (simp add: commit_items_def dag_commit_def dag_demotes_abs)

lemma effect_nil_abs: "effect X s s' [] \<Longrightarrow> abs_dag X s' = abs_dag X s"
  by (simp add: effect_def abs_dag_def)

section \<open>Reads\<close>

text \<open>C5. Reads implement the abstract graph: \<^verbatim>\<open>get_node\<close> answers the node map, and the two
  adjacency tables, kept and sealed separately, answer exactly the edges leaving and entering
  a node, each edge once.\<close>

theorem reads_refine_dag:
  assumes "store_ok X s"
  shows "get_node X nid s = Inr (dg_nodes (abs_dag X s) nid) \<and>
    (\<exists>es. out_edges X nid s = Inr es \<and> distinct es \<and> set es = dag_out (abs_dag X s) nid) \<and>
    (\<exists>es. in_edges X nid s = Inr es \<and> distinct es \<and> set es = dag_in (abs_dag X s) nid)"
proof (intro conjI)
  show "get_node X nid s = Inr (dg_nodes (abs_dag X s) nid)"
    by (simp add: get_node_eq [OF assms])
  show "\<exists>es. out_edges X nid s = Inr es \<and> distinct es \<and> set es = dag_out (abs_dag X s) nid"
    by (rule out_edges_spec [OF assms, of nid]) (auto simp: dag_out_def distinct_map)
  show "\<exists>es. in_edges X nid s = Inr es \<and> distinct es \<and> set es = dag_in (abs_dag X s) nid"
    by (rule in_edges_spec [OF assms, of nid]) (auto simp: dag_in_def distinct_map)
qed

text \<open>C5, on an empty sealing store.\<close>

theorem reads_refine_dag_witness:
  "store_ok ideal_externals (new_encrypted kv_new) \<and>
   get_node ideal_externals 7 (new_encrypted kv_new) =
     Inr (dg_nodes (abs_dag ideal_externals (new_encrypted kv_new)) 7)"
  using reads_refine_dag [OF new_encrypted_store_ok [of ideal_externals], of 7] by simp

section \<open>Commits\<close>

text \<open>A commit makes progress when the called crates do: with a plaintext store, or when every
  edge leaves a node of the same commit, so that its tenant is known.\<close>

lemma edge_put_ops_total:
  assumes X: "externals_ok X" "externals_total X" and ok: "keyring_ok X s"
    and tenant: "\<not> ds_encrypt s \<or> batch (e_from e) \<noteq> None"
  shows "\<exists>ops s'. edge_put_ops X e batch s = (Inr ops, s')"
proof -
  obtain p where p: "edge_to_json X e = Inr p" using externals_totalD(4) [OF X(2)] by blast
  show ?thesis
  proof (cases "ds_encrypt s")
    case False
    with p show ?thesis by (simp add: edge_put_ops_def bind_simps) (simp add: sbind_def)
  next
    case True
    with tenant obtain tn where tn: "batch (e_from e) = Some tn" by auto
    obtain g k s' where k: "ensure_tenant_key X tn s = (Inr (g, k), s')"
      using ensure_tenant_key_total [OF X ok] by (metis surj_pair)
    obtain ob ib where "seal_at X k tn g EDGES_OUT (edge_key e) p = Inr ob"
        "seal_at X k tn g EDGES_IN (in_key e) p = Inr ib"
      using seal_total(2) [OF X(2)] by meson
    moreover have "edge_tenant X e batch s = Inr tn" by (simp add: edge_tenant_def Let_def tn)
    ultimately show ?thesis using True p k
      by (simp add: edge_put_ops_def bind_simps) (simp add: sbind_def)
  qed
qed

lemma sfold_total:
  assumes "\<And>x a s. x \<in> set xs \<Longrightarrow> I a s \<Longrightarrow> \<exists>b s'. f x a s = (Inr b, s') \<and> I b s'" "I a s"
  shows "\<exists>b s'. sfold f xs a s = (Inr b, s') \<and> I b s'"
  using assms
proof (induction xs arbitrary: a s)
  case Nil
  then show ?case by (simp add: sok_def)
next
  case (Cons x xs)
  obtain b q where q: "f x a s = (Inr b, q)" "I b q"
    using Cons.prems(1) [of x a s] Cons.prems(2) by auto
  moreover have "\<exists>c s'. sfold f xs b q = (Inr c, s') \<and> I c s'"
    by (rule Cons.IH) (use Cons.prems(1) q(2) in auto)
  ultimately show ?case by (simp add: sbind_def)
qed

lemma commit_nodes_total:
  assumes X: "externals_ok X" "externals_total X" and ok: "keyring_ok X s"
  shows "\<exists>ops batch s'. sfold (commit_node X) ns (ops0, batch0) s = (Inr (ops, batch), s') \<and>
    (\<forall>i. i \<in> node_id X ` set ns \<or> batch0 i \<noteq> None \<longrightarrow> batch i \<noteq> None)"
  using ok
proof (induction ns arbitrary: ops0 batch0 s)
  case Nil
  then show ?case by (simp add: sok_def)
next
  case (Cons n ns)
  obtain b q where q: "encode_node X n s = (Inr b, q)"
    using encode_node_total [OF X Cons.prems] by blast
  have "keyring_ok X q" using encode_node_cases(1) [OF X(1) Cons.prems q] by (rule keys_grow_ok)
  then obtain ops batch s' where IH: "sfold (commit_node X) ns
        (ops0 @ [Put NODES (hash_bytes (node_id X n)) b], batch0(node_id X n \<mapsto> tenant_of n)) q =
        (Inr (ops, batch), s')"
      "\<And>i. i \<in> node_id X ` set ns \<or> (batch0(node_id X n \<mapsto> tenant_of n)) i \<noteq> None \<Longrightarrow> batch i \<noteq> None"
    using Cons.IH by blast
  have "batch i \<noteq> None" if "i \<in> node_id X ` set (n # ns) \<or> batch0 i \<noteq> None" for i
    by (rule IH(2)) (use that in auto)
  with IH(1) q show ?case by (simp add: commit_node_def [of X n] sbind_def sok_def)
qed

lemma commit_edge_total:
  assumes X: "externals_ok X" "externals_total X" and ok: "store_ok X s"
    and tenant: "\<not> ds_encrypt s \<or> batch (e_from e) \<noteq> None"
  shows "\<exists>ops' s'. commit_edge X batch e ops s = (Inr ops', s') \<and> store_ok X s' \<and>
    ds_encrypt s' = ds_encrypt s"
proof -
  obtain nops q where q: "edge_put_ops X e batch s = (Inr nops, q)"
    using edge_put_ops_total [OF X store_okD(1) [OF ok], of batch e] tenant by blast
  note grow = edge_put_ops_cases(1) [OF X(1) store_okD(1) [OF ok] q]
  have "store_ok X q" "ds_encrypt q = ds_encrypt s"
    by (simp_all add: store_ok_grow [OF ok grow] keys_grow_encrypt [OF grow])
  with q ok show ?thesis
    by (cases "demoting X s e")
      (simp_all add: commit_edge_def bind_simps is_demoting_write_eq sbind_def sok_def)
qed

lemma commit_total:
  assumes X: "externals_ok X" "externals_total X" and ok: "store_ok X s"
    and tenant: "\<not> ds_encrypt s \<or> e_from ` set edges \<subseteq> node_id X ` set nodes"
    and safe: "\<forall>n \<in> set nodes. json_safe n"
  shows "\<exists>s'. commit X nodes edges s = (Inr (), s')"
proof -
  obtain ops batch q where q: "sfold (commit_node X) nodes ([], Map.empty) s = (Inr (ops, batch), q)"
      "\<forall>i. i \<in> node_id X ` set nodes \<longrightarrow> batch i \<noteq> None"
    using commit_nodes_total [OF X store_okD(1) [OF ok], of nodes "[]" Map.empty]
    by (elim exE conjE) (erule that, simp)
  note grow = commit_nodes_run [OF X(1) store_okD(1) [OF ok] safe q(1), THEN conjunct1]
  have "\<exists>ops' u. sfold (commit_edge X batch) edges ops q = (Inr ops', u) \<and>
      store_ok X u \<and> ds_encrypt u = ds_encrypt s"
  proof (rule sfold_total [where I = "\<lambda>_ u. store_ok X u \<and> ds_encrypt u = ds_encrypt s"])
    show "store_ok X q \<and> ds_encrypt q = ds_encrypt s"
      by (simp add: store_ok_grow [OF ok grow] keys_grow_encrypt [OF grow])
    show "\<exists>b s'. commit_edge X batch e a u = (Inr b, s') \<and> store_ok X s' \<and> ds_encrypt s' = ds_encrypt s"
      if "e \<in> set edges" "store_ok X u \<and> ds_encrypt u = ds_encrypt s" for e a u
    proof -
      have "\<not> ds_encrypt u \<or> batch (e_from e) \<noteq> None"
        using that tenant q(2) by (cases "ds_encrypt s") auto
      from commit_edge_total [OF X conjunct1 [OF that(2)], of batch e a] this that(2)
      show ?thesis by simp
    qed
  qed
  then obtain ops' u where u: "sfold (commit_edge X batch) edges ops q = (Inr ops', u)" "store_ok X u"
    by blast
  obtain v where "kv_wr (kv_write_batch ops') u = (Inr (), v)"
    by (rule kv_wr_batch [OF store_okD(2) [OF u(2)]])
  with q(1) u(1) show ?thesis by (simp add: commit_def sbind_def)
qed


text \<open>The sample node and a confirmed edge from it to an id that is not stored.\<close>

definition sample_edge :: edge where
  "sample_edge = \<lparr>e_from = node_id ideal_externals sample_node, e_to = 7, e_kind = Implements,
     e_plane = Asserted, e_trust_tier = AgentAsserted,
     e_provenance = \<lparr>p_method = Manual, p_asserter = ''aa'', p_at = 5, p_evidence = None\<rparr>,
     e_confidence = [BTrue], e_quarantined = False, e_signature = None\<rparr>"


lemma fold_confirmed:
  assumes "m k = Some d" "\<not> e_quarantined d"
    and "\<forall>e \<in> set es. edge_key e = k \<longrightarrow> \<not> e_quarantined e"
  shows "\<exists>d'. fold (\<lambda>e m. m(edge_key e \<mapsto> e)) es m k = Some d' \<and> \<not> e_quarantined d'"
  using assms
proof (induction es arbitrary: m d)
  case Nil
  then show ?case by simp
next
  case (Cons e es)
  show ?case
  proof (cases "edge_key e = k")
    case True
    with Cons.prems show ?thesis using Cons.IH [of "m(edge_key e \<mapsto> e)" e] by simp
  next
    case False
    with Cons.prems show ?thesis using Cons.IH [of "m(edge_key e \<mapsto> e)" d] by simp
  qed
qed

lemma commit_keeps_confirmed:
  assumes "dg_edges d k = Some e" "\<not> e_quarantined e"
  shows "\<exists>e'. dg_edges (dag_commit idf nodes edges d) k = Some e' \<and> \<not> e_quarantined e'"
  unfolding dag_commit_def dag.simps
  by (rule fold_confirmed [where d = e]) (use assms in \<open>auto simp: dag_demotes_def\<close>)

lemma edge_view_key:
  assumes "store_ok X s" "edge_view X s k = Some e"
  shows "edge_key e = k"
proof -
  from assms(2) obtain b where "rows s EDGES_OUT k = Some b"
      "open_edge X (usable X s) EDGES_OUT k b = Inr (Some e)"
    by (auto simp: row_view_def bind_eq_Some_conv)
  with store_okD(4) [OF assms(1)] show ?thesis by (fastforce simp: edge_row_ok_def)
qed

text \<open>A confirmed edge is never demoted: once an edge is confirmed, no later commit or
  \<^verbatim>\<open>add_edge\<close>, successful or refused, in particular no replay of the original quarantined
  assertion, makes \<^verbatim>\<open>out_edges\<close> answer it as quarantined again.\<close>

theorem confirmed_edge_not_demoted:
  assumes X: "externals_ok X" and ok: "store_ok X s" and safe: "\<forall>n \<in> set nodes. json_safe n"
    and conf: "out_edges X nid s = Inr es" "e \<in> set es" "\<not> e_quarantined e"
    and step: "commit X nodes edges s = (r, s') \<or> add_edge X edge s = (r', s')"
  shows "\<exists>es' e'. out_edges X nid s' = Inr es' \<and> e' \<in> set es' \<and> edge_key e' = edge_key e \<and>
    \<not> e_quarantined e'"
proof -
  have e: "edge_view X s (edge_key e) = Some e" "e_from e = nid"
    using out_edges_spec [OF ok, of nid] conf(1,2) by (metis Inr_inject)+
  have "store_ok X s' \<and> (\<exists>e'. edge_view X s' (edge_key e) = Some e' \<and> \<not> e_quarantined e')"
    using step
  proof
    assume run: "commit X nodes edges s = (r, s')"
    have keep: "\<exists>e'. dg_edges (dag_commit (node_id X) nodes edges (abs_dag X s)) (edge_key e) = Some e' \<and>
        \<not> e_quarantined e'"
      by (rule commit_keeps_confirmed [where e = e]) (use e conf(3) in simp_all)
    from commit_effect [OF X ok safe run] show ?thesis
    proof
      assume "\<exists>m. r = Inl m \<and> effect X s s' []"
      with e conf(3) show ?thesis by (auto simp: effect_def)
    next
      assume eff: "r = Inr () \<and> effect X s s' (commit_items X s nodes edges)"
      with commit_items_abs have "abs_dag X s' = dag_commit (node_id X) nodes edges (abs_dag X s)" by blast
      with keep eff show ?thesis by (metis abs_dag_sel(2) effect_ok)
    qed
  next
    assume "add_edge X edge s = (r', s')"
    from add_edge_effect [OF X ok this] e conf(3) show ?thesis
      by (auto simp: effect_def demoting_def split: if_splits)
  qed
  then obtain e' where ok': "store_ok X s'" and e': "edge_view X s' (edge_key e) = Some e'" "\<not> e_quarantined e'"
    by blast
  have key: "edge_key e' = edge_key e" by (rule edge_view_key [OF ok' e'(1)])
  then have "e_from e' = nid" using e(2) by (simp add: edge_key_inject)
  with out_edges_spec [OF ok', of nid] e' key show ?thesis by metis
qed

lemma add_edge_plain_total:
  assumes X: "externals_ok X" "externals_total X" and ok: "store_ok X s" and "\<not> ds_encrypt s"
  shows "\<exists>s'. add_edge X e s = (Inr (), s')"
proof -
  obtain ops q where q: "edge_put_ops X e Map.empty s = (Inr ops, q)"
    using edge_put_ops_total [OF X store_okD(1) [OF ok]] assms(4) by blast
  have "kv_live (ds_kv q)"
    using edge_put_ops_cases(1) [OF X(1) store_okD(1) [OF ok] q] keys_grow_ok by fastforce
  then obtain s' where "kv_wr (kv_write_batch ops) q = (Inr (), s')" by (rule kv_wr_batch)
  with q ok show ?thesis
    by (cases "demoting X s e")
      (simp_all add: add_edge_def bind_simps is_demoting_write_eq sbind_def sok_def)
qed

lemma sample_edge_added:
  "\<exists>s. add_edge ideal_externals sample_edge (new kv_new) = (Inr (), s) \<and> store_ok ideal_externals s \<and>
     edge_view ideal_externals s (edge_key sample_edge) = Some sample_edge"
proof -
  let ?X = ideal_externals
  have "\<not> ds_encrypt (new kv_new)" by (simp add: new_def)
  then obtain s where s: "add_edge ?X sample_edge (new kv_new) = (Inr (), s)"
    using add_edge_plain_total [OF ideal_externals_ok ideal_externals_total new_store_ok] by blast
  moreover have "\<not> demoting ?X (new kv_new) sample_edge" by (simp add: demoting_def sample_edge_def)
  ultimately show ?thesis
    using add_edge_effect [OF ideal_externals_ok new_store_ok s] by (auto simp: effect_def)
qed

text \<open>At the quarantined replay of a confirmed edge.\<close>

theorem confirmed_edge_not_demoted_witness:
  "\<exists>s s' r. add_edge ideal_externals sample_edge (new kv_new) = (Inr (), s) \<and>
     add_edge ideal_externals (sample_edge\<lparr>e_quarantined := True\<rparr>) s = (r, s') \<and>
     (\<exists>es e. out_edges ideal_externals (e_from sample_edge) s' = Inr es \<and> e \<in> set es \<and>
        edge_key e = edge_key sample_edge \<and> \<not> e_quarantined e)"
proof -
  let ?X = ideal_externals
  obtain s where s: "add_edge ?X sample_edge (new kv_new) = (Inr (), s)" "store_ok ?X s"
      "edge_view ?X s (edge_key sample_edge) = Some sample_edge"
    using sample_edge_added by blast
  obtain es where es: "out_edges ?X (e_from sample_edge) s = Inr es" "sample_edge \<in> set es"
    using out_edges_spec [OF s(2), of "e_from sample_edge"] s(3) by metis
  obtain r s' where run: "add_edge ?X (sample_edge\<lparr>e_quarantined := True\<rparr>) s = (r, s')"
    by (cases "add_edge ?X (sample_edge\<lparr>e_quarantined := True\<rparr>) s")
  have "\<not> e_quarantined sample_edge" by (simp add: sample_edge_def)
  with confirmed_edge_not_demoted [OF ideal_externals_ok s(2) _ es, where nodes = "[]"] run s(1)
  show ?thesis by fastforce
qed

end
