(* ===== verification/Superseded_Dag.thy ===== *)
theory Superseded_Dag
  imports Node
begin

text \<open>
  The abstract state machine of \<^verbatim>\<open>specs/SupersededDag.tla\<close>: a grow-only set of nodes, the
  supersedes relation, and a status per node. \<open>add_node\<close> and \<open>supersede\<close> are the two actions of
  the specification. The store also takes two steps the specification does not have, and
  they are stated here so that the refinement is exact: \<open>relink\<close> adds a supersedes edge to a
  node that is no longer active, and \<open>retire\<close> moves a node to a status other than active.
  Both invariants of the specification survive them.
\<close>

record 'n tla_state =
  tla_present :: "'n set"
  tla_supersedes :: "('n \<times> 'n) set"
  tla_status :: "'n \<Rightarrow> status option"

definition tla_init :: "'n tla_state" where
  "tla_init = \<lparr>tla_present = {}, tla_supersedes = {}, tla_status = (\<lambda>_. None)\<rparr>"

inductive tla_next :: "'n tla_state \<Rightarrow> 'n tla_state \<Rightarrow> bool" where
  add_node: "tla_status t n = None \<Longrightarrow>
     tla_next t \<lparr>tla_present = insert n (tla_present t), tla_supersedes = tla_supersedes t,
       tla_status = (tla_status t)(n \<mapsto> Active)\<rparr>"
| supersede: "a \<in> tla_present t \<Longrightarrow> b \<in> tla_present t \<Longrightarrow> a \<noteq> b \<Longrightarrow> tla_status t b = Some Active \<Longrightarrow>
     (b, a) \<notin> (tla_supersedes t)\<^sup>+ \<Longrightarrow>
     tla_next t \<lparr>tla_present = tla_present t, tla_supersedes = insert (a, b) (tla_supersedes t),
       tla_status = (tla_status t)(b \<mapsto> Superseded)\<rparr>"

inductive store_next :: "'n tla_state \<Rightarrow> 'n tla_state \<Rightarrow> bool" where
  by_spec: "tla_next t t' \<Longrightarrow> store_next t t'"
| relink: "a \<in> tla_present t \<Longrightarrow> b \<in> tla_present t \<Longrightarrow> a \<noteq> b \<Longrightarrow> tla_status t b \<noteq> Some Active \<Longrightarrow>
     (b, a) \<notin> (tla_supersedes t)\<^sup>+ \<Longrightarrow>
     store_next t \<lparr>tla_present = tla_present t, tla_supersedes = insert (a, b) (tla_supersedes t),
       tla_status = tla_status t\<rparr>"
| retire: "n \<in> tla_present t \<Longrightarrow> st \<noteq> Active \<Longrightarrow>
     store_next t \<lparr>tla_present = tla_present t, tla_supersedes = tla_supersedes t,
       tla_status = (tla_status t)(n \<mapsto> st)\<rparr>"

inductive_cases tla_nextE: "tla_next t t'"
inductive_cases store_nextE: "store_next t t'"

definition type_ok :: "'n tla_state \<Rightarrow> bool" where
  "type_ok t \<longleftrightarrow> tla_supersedes t \<subseteq> tla_present t \<times> tla_present t \<and>
     tla_present t = dom (tla_status t)"

definition latest_well_defined :: "'n tla_state \<Rightarrow> bool" where
  "latest_well_defined t \<longleftrightarrow> (\<forall>n m. tla_status t n = Some Active \<longrightarrow> (m, n) \<notin> tla_supersedes t)"

definition tla_inv :: "'n tla_state \<Rightarrow> bool" where
  "tla_inv t \<longleftrightarrow> type_ok t \<and> acyclic (tla_supersedes t) \<and> latest_well_defined t"

lemma tla_init_inv: "tla_inv tla_init"
  by (simp add: tla_inv_def tla_init_def type_ok_def latest_well_defined_def acyclic_def)

lemma acyclic_insert_trancl:
  assumes "acyclic r" "a \<noteq> b" "(b, a) \<notin> r\<^sup>+"
  shows "acyclic (insert (a, b) r)"
  using assms by (simp add: acyclic_insert rtrancl_eq_or_trancl)

lemma add_node_inv:
  assumes "tla_inv t" "tla_status t n = None"
  shows "tla_inv \<lparr>tla_present = insert n (tla_present t), tla_supersedes = tla_supersedes t,
    tla_status = (tla_status t)(n \<mapsto> Active)\<rparr>"
  using assms by (auto simp: tla_inv_def type_ok_def latest_well_defined_def)

lemma link_inv:
  assumes "tla_inv t" "a \<in> tla_present t" "b \<in> tla_present t" "a \<noteq> b" "(b, a) \<notin> (tla_supersedes t)\<^sup>+"
    and "\<And>n. st n = Some Active \<Longrightarrow> n \<noteq> b \<and> tla_status t n = Some Active" "dom st = dom (tla_status t)"
  shows "tla_inv \<lparr>tla_present = tla_present t, tla_supersedes = insert (a, b) (tla_supersedes t),
    tla_status = st\<rparr>"
  using assms acyclic_insert_trancl [OF _ assms(4,5)]
  by (auto simp: tla_inv_def type_ok_def latest_well_defined_def)

lemma store_next_inv:
  assumes "store_next t t'" "tla_inv t"
  shows "tla_inv t' \<and> tla_present t \<subseteq> tla_present t'"
  using assms(1)
proof cases
  case by_spec
  then show ?thesis
  proof cases
    case (add_node n)
    then show ?thesis using add_node_inv [OF assms(2)] by auto
  next
    case (supersede a b)
    have "tla_inv t'" unfolding supersede(1)
      by (rule link_inv [OF assms(2) supersede(2,3,4,6)]) (use supersede(5) in \<open>auto split: if_splits\<close>)
    with supersede(1) show ?thesis by simp
  qed
next
  case (relink a b)
  have "tla_inv t'" unfolding relink(1)
    by (rule link_inv [OF assms(2) relink(2,3,4,6)]) (use relink(5) in auto)
  with relink(1) show ?thesis by simp
next
  case (retire n st)
  with assms(2) show ?thesis
    by (auto simp: tla_inv_def type_ok_def latest_well_defined_def split: if_splits)
qed

end
