(* ===== verification/Supersession.thy ===== *)
theory Supersession
  imports Dag_Spec Superseded_Dag
begin

text \<open>
  Reachability and supersession over the DAG store: the breadth-first search of
  \<^verbatim>\<open>reachable_via\<close> computes exactly the reachable nodes, \<^verbatim>\<open>apply_supersession\<close> keeps the
  Supersedes relation acyclic, and what it writes is one atomic transition of the target.
\<close>

section \<open>Breadth-first search\<close>

definition links :: "externals \<Rightarrow> dag_store \<Rightarrow> edge_kind \<Rightarrow> (content_hash \<times> content_hash) set" where
  "links X s kind = {(a, b). \<exists>e. edge_view X s (edge_key e) = Some e \<and> e_kind e = kind \<and>
     e_from e = a \<and> e_to e = b}"

lemma visit_fold:
  "\<exists>fresh. fold (visit kind) es (seen, queue, found) = (seen \<union> set fresh, queue @ fresh, found @ fresh) \<and>
     distinct fresh \<and> set fresh = {e_to e | e. e \<in> set es \<and> e_kind e = kind} - seen"
proof (induction es arbitrary: seen queue found)
  case Nil
  then show ?case by simp
next
  case (Cons e es)
  show ?case
  proof (cases "e_kind e = kind \<and> e_to e \<notin> seen")
    case True
    obtain fresh where "fold (visit kind) es (insert (e_to e) seen, queue @ [e_to e], found @ [e_to e]) =
        (insert (e_to e) seen \<union> set fresh, (queue @ [e_to e]) @ fresh, (found @ [e_to e]) @ fresh)"
        "distinct fresh" "set fresh = {e_to e | e. e \<in> set es \<and> e_kind e = kind} - insert (e_to e) seen"
      using Cons.IH by blast
    with True show ?thesis by (intro exI [of _ "e_to e # fresh"]) (auto simp: visit_def [of kind e])
  next
    case False
    obtain fresh where "fold (visit kind) es (seen, queue, found) = (seen \<union> set fresh, queue @ fresh, found @ fresh)"
        "distinct fresh" "set fresh = {e_to e | e. e \<in> set es \<and> e_kind e = kind} - seen"
      using Cons.IH by blast
    with False show ?thesis by (intro exI [of _ fresh]) (auto simp: visit_def [of kind e])
  qed
qed

text \<open>The loop invariant: what was found is what was seen besides the start, everything seen is
  reachable, and the successors of everything seen and no longer queued were seen.\<close>

definition bfs_inv ::
    "('a \<times> 'a) set \<Rightarrow> 'a \<Rightarrow> 'a set \<Rightarrow> 'a list \<Rightarrow> 'a list \<Rightarrow> bool" where
  "bfs_inv R start seen queue found \<longleftrightarrow>
     seen = insert start (set found) \<and> start \<notin> set found \<and> distinct found \<and> set queue \<subseteq> seen \<and>
     seen \<subseteq> R\<^sup>* `` {start} \<and> (\<forall>a \<in> seen - set queue. R `` {a} \<subseteq> seen)"

lemma bfs_done:
  assumes "bfs_inv R start seen [] found"
  shows "set found = R\<^sup>* `` {start} - {start} \<and> distinct found"
proof -
  have "b \<in> seen" if "(start, b) \<in> R\<^sup>*" for b
    using that assms by (induction rule: rtrancl_induct) (auto simp: bfs_inv_def)
  with assms show ?thesis by (auto simp: bfs_inv_def)
qed

lemma bfs_step:
  assumes inv: "bfs_inv R start seen (cur # queue) found"
    and fresh: "distinct fresh" "set fresh = R `` {cur} - seen"
  shows "bfs_inv R start (seen \<union> set fresh) (queue @ fresh) (found @ fresh)"
proof -
  have "cur \<in> R\<^sup>* `` {start}" using inv by (auto simp: bfs_inv_def)
  then have "set fresh \<subseteq> R\<^sup>* `` {start}" using fresh(2) by (auto intro: rtrancl_into_rtrancl)
  with inv fresh show ?thesis unfolding bfs_inv_def by auto
qed

lemma reach_loop_spec:
  assumes "store_ok X s" "bfs_inv (links X s kind) start seen queue found"
  shows "\<exists>r. reach_loop X kind s seen queue found = Inr r \<and>
    set r = (links X s kind)\<^sup>* `` {start} - {start} \<and> distinct r"
  using assms
proof (induction X kind s seen queue found rule: reach_loop.induct)
  case (1 X kind s seen found)
  from bfs_done [OF 1(2)] show ?case by simp
next
  case (2 X kind s seen cur queue found)
  obtain es where es: "out_edges X cur s = Inr es"
      "\<And>e. e \<in> set es \<longleftrightarrow> edge_view X s (edge_key e) = Some e \<and> e_from e = cur"
    by (rule out_edges_spec [OF 2(2), of cur]) (rule that)
  obtain fresh where fresh: "fold (visit kind) es (seen, queue, found) = (seen \<union> set fresh, queue @ fresh, found @ fresh)"
      "distinct fresh" "set fresh = {e_to e | e. e \<in> set es \<and> e_kind e = kind} - seen"
    using visit_fold [of kind es seen queue found] by (elim exE conjE) (rule that)
  have "{e_to e | e. e \<in> set es \<and> e_kind e = kind} = links X s kind `` {cur}"
    by (auto simp: es(2) links_def)
  with bfs_step [OF 2(3) fresh(2)] fresh(3)
  have "bfs_inv (links X s kind) start (seen \<union> set fresh) (queue @ fresh) (found @ fresh)" by simp
  from 2(1) [OF es(1) fresh(1) [symmetric] refl 2(2) this] es(1) fresh(1) show ?case by simp
qed

lemma reachable_via_spec:
  assumes "store_ok X s"
  shows "\<exists>r. reachable_via X start kind s = Inr r \<and>
    set r = (links X s kind)\<^sup>* `` {start} - {start} \<and> distinct r"
  unfolding reachable_via_def by (rule reach_loop_spec [OF assms]) (auto simp: bfs_inv_def)

text \<open>C6. \<^verbatim>\<open>reachable_via\<close> always returns, and returns every node that a chain of edges of the
  given kind leads to from the start, each once, the start itself excepted: also on a cyclic
  graph.\<close>

theorem reachable_via_complete:
  assumes "store_ok X s"
  shows "\<exists>r. reachable_via X start kind s = Inr r \<and> distinct r \<and>
    set r = (links X s kind)\<^sup>* `` {start} - {start}"
  using reachable_via_spec [OF assms] by blast

text \<open>C6, on a store with one edge.\<close>

theorem reachable_via_complete_witness:
  "\<exists>s r. add_edge ideal_externals sample_edge (new kv_new) = (Inr (), s) \<and>
     reachable_via ideal_externals (e_from sample_edge) Implements s = Inr r \<and>
     (e_from sample_edge \<noteq> 7 \<longrightarrow> 7 \<in> set r)"
proof -
  let ?X = ideal_externals
  obtain s where s: "add_edge ?X sample_edge (new kv_new) = (Inr (), s)" "store_ok ?X s"
      "edge_view ?X s (edge_key sample_edge) = Some sample_edge"
    using sample_edge_added by blast
  have "(e_from sample_edge, 7) \<in> links ?X s Implements"
    using s(3) by (force simp: links_def sample_edge_def)
  then have "7 \<in> (links ?X s Implements)\<^sup>* `` {e_from sample_edge}" by blast
  with reachable_via_complete [OF s(2), of "e_from sample_edge" Implements] s(1) show ?thesis by fastforce
qed

lemma would_cycle_eq:
  assumes "store_ok X s"
  shows "would_cycle_supersedes X a b s = Inr ((b, a) \<in> (links X s Supersedes)\<^sup>* \<and> a \<noteq> b)"
proof -
  obtain r where "reachable_via X b Supersedes s = Inr r"
      "set r = (links X s Supersedes)\<^sup>* `` {b} - {b}"
    using reachable_via_spec [OF assms] by blast
  then show ?thesis by (auto simp: would_cycle_supersedes_def)
qed

section \<open>Applying a supersession\<close>

definition supersede_items :: "edge \<Rightarrow> memory_node \<Rightarrow> item list" where
  "supersede_items e target =
     IEdge e # (if n_status target = Active then [INode (supersede_target e target)] else [])"

lemma supersede_target_id [simp]: "node_id X (supersede_target e n) = node_id X n"
  by (simp add: supersede_target_def)

lemma supersede_target_safe [simp]: "json_safe (supersede_target e n) = json_safe n"
  by (simp add: supersede_target_def json_safe_def)

text \<open>The writing part, after all checks.\<close>

definition supersede_write ::
    "externals \<Rightarrow> edge \<Rightarrow> memory_node \<Rightarrow> (dag_store, supersession_error, bool) action" where
  "supersede_write X edge target =
     sbind (smap_err StoreErr (edge_put_ops X edge Map.empty)) (\<lambda>ops.
     sbind (if n_status target = Active then
              sbind (smap_err StoreErr (encode_node X (supersede_target edge target))) (\<lambda>b.
              sok (ops @ [Put NODES (hash_bytes (e_to edge)) b]))
            else sok ops) (\<lambda>ops'.
     sbind (smap_err StoreErr (kv_wr (kv_write_batch ops'))) (\<lambda>_.
     sok (n_status target = Active))))"

lemma supersede_write_ops:
  assumes X: "externals_ok X" and ok: "store_ok X s" and target: "node_view X s (e_to e) = Some target"
    and ops: "edge_put_ops X e Map.empty s = (Inr ops, q)"
    and run: "(if n_status target = Active then
              sbind (smap_err StoreErr (encode_node X (supersede_target e target))) (\<lambda>b.
              sok (ops @ [Put NODES (hash_bytes (e_to e)) b]))
            else sok ops) q = (r, u)"
  shows "keys_grow X s u \<and> (\<forall>ops'. r = Inr ops' \<longrightarrow>
    (\<exists>opss. ops' = concat opss \<and> list_all2 (good_ops X u) (supersede_items e target) opss))"
proof -
  note put = edge_put_ops_cases [OF X store_okD(1) [OF ok] ops]
  note tg = node_view_id [OF ok target]
  show ?thesis
  proof (cases "n_status target = Active")
    case False
    with run have "r = Inr ops" "u = q" by (simp_all add: sok_def)
    moreover have "list_all2 (good_ops X q) (supersede_items e target) [ops]"
      using False put(2) [OF refl] by (simp add: supersede_items_def del: good_ops.simps)
    ultimately show ?thesis using put(1) by (auto intro: exI [of _ "[ops]"] simp del: good_ops.simps)
  next
    case True
    obtain b w where b: "encode_node X (supersede_target e target) q = (b, w)"
      by (cases "encode_node X (supersede_target e target) q")
    note enc = encode_node_cases [OF X keys_grow_ok [OF put(1)] b]
    have grow: "keys_grow X s w" by (rule keys_grow_trans [OF put(1) enc(1)])
    show ?thesis
    proof (cases b)
      case (Inl m)
      with run True b grow show ?thesis by (auto simp: sbind_def smap_err_def)
    next
      case (Inr c)
      let ?op = "[Put NODES (hash_bytes (e_to e)) c]"
      have "r = Inr (ops @ ?op)" "u = w"
        using run True b Inr by (auto simp: sbind_def smap_err_def sok_def)
      moreover have "list_all2 (good_ops X w) (supersede_items e target) [ops, ?op]"
        using True good_ops_grow [OF enc(1) put(2) [OF refl]] enc(2) [OF Inr] tg
        by (simp add: supersede_items_def del: good_ops.simps)
      ultimately show ?thesis using grow by (auto intro: exI [of _ "[ops, ?op]"] simp del: good_ops.simps)
    qed
  qed
qed

lemma supersede_write_effect:
  assumes X: "externals_ok X" and ok: "store_ok X s" and target: "node_view X s (e_to e) = Some target"
    and run: "supersede_write X e target s = (r, s')"
  shows "(\<exists>m. r = Inl m \<and> effect X s s' []) \<or>
    (r = Inr (n_status target = Active) \<and> effect X s s' (supersede_items e target))"
proof -
  obtain p q where p: "edge_put_ops X e Map.empty s = (p, q)" by (cases "edge_put_ops X e Map.empty s")
  have q: "effect X s q []"
    by (rule effect_grow [OF ok edge_put_ops_cases(1) [OF X store_okD(1) [OF ok] p]])
  show ?thesis
  proof (cases p)
    case (Inl m)
    with run p q show ?thesis by (auto simp: supersede_write_def sbind_def smap_err_def)
  next
    case (Inr ops)
    let ?node = "if n_status target = Active then
              sbind (smap_err StoreErr (encode_node X (supersede_target e target))) (\<lambda>b.
              sok (ops @ [Put NODES (hash_bytes (e_to e)) b]))
            else sok ops"
    obtain v u where u: "?node q = (v, u)" by (cases "?node q")
    note wr = supersede_write_ops [OF X ok target p [unfolded Inr] u]
    have eu: "effect X s u []" by (rule effect_grow [OF ok conjunct1 [OF wr]])
    show ?thesis
    proof (cases v)
      case (Inl m)
      with run p Inr u eu show ?thesis by (auto simp: supersede_write_def sbind_def smap_err_def)
    next
      case ops': (Inr ops')
      with wr obtain opss where opss: "ops' = concat opss"
          "list_all2 (good_ops X u) (supersede_items e target) opss"
        by auto
      obtain w x where w: "kv_wr (kv_write_batch (concat opss)) u = (w, x)"
        by (cases "kv_wr (kv_write_batch (concat opss)) u")
      from write_items [OF effect_ok [OF eu] opss(2) w] effect_trans [OF eu]
      have "w = Inr ()" "effect X s x (supersede_items e target)" by auto
      with run p Inr u ops' opss(1) w show ?thesis
        by (auto simp: supersede_write_def sbind_def smap_err_def sok_def)
    qed
  qed
qed

lemma ss_rd_bind: "sbind (ss_rd g) f s = (case g s of Inl e \<Rightarrow> (Inl (StoreErr e), s) | Inr x \<Rightarrow> f x s)"
  by (simp add: sbind_def ss_rd_def split: sum.split)

text \<open>Every check of \<^verbatim>\<open>apply_supersession\<close>, in the order the code makes them.\<close>

definition supersede_refusal :: "externals \<Rightarrow> dag_store \<Rightarrow> edge \<Rightarrow> supersession_error option" where
  "supersede_refusal X s e =
     (if e_kind e \<noteq> Supersedes then Some (NotSupersedes (e_kind e))
      else if e_quarantined e then Some Quarantined
      else if e_from e = e_to e then Some SelfSupersede
      else if e_from e \<notin> present s then Some (MissingNode (to_hex (hex_encode X) (e_from e)))
      else case node_view X s (e_to e) of
        None \<Rightarrow> Some (MissingNode (to_hex (hex_encode X) (e_to e)))
      | Some target \<Rightarrow>
          if e_plane e = Asserted \<and> n_plane target = Derived then Some PlaneViolation
          else if (e_to e, e_from e) \<in> (links X s Supersedes)\<^sup>* then Some Cycle
          else None)"

lemma apply_supersession_eq:
  assumes "store_ok X s"
  shows "apply_supersession X e s =
    (case supersede_refusal X s e of
       Some m \<Rightarrow> (Inl m, s)
     | None \<Rightarrow> supersede_write X e (the (node_view X s (e_to e))) s)"
  by (cases "node_view X s (e_to e)")
    (simp_all add: apply_supersession_def supersede_refusal_def ss_rd_bind has_node_eq [OF assms] present_def
      get_node_eq [OF assms] would_cycle_eq [OF assms] supersede_write_def)

lemma supersede_refusal_None:
  assumes "supersede_refusal X s e = None"
  obtains target where "e_kind e = Supersedes" "\<not> e_quarantined e" "e_from e \<noteq> e_to e"
    "e_from e \<in> present s" "node_view X s (e_to e) = Some target"
    "\<not> (e_plane e = Asserted \<and> n_plane target = Derived)"
    "(e_to e, e_from e) \<notin> (links X s Supersedes)\<^sup>*"
  using assms by (auto simp: supersede_refusal_def split: if_splits option.splits)

lemma apply_supersession_effect:
  assumes X: "externals_ok X" and ok: "store_ok X s" and run: "apply_supersession X e s = (r, s')"
  shows "(\<exists>m. r = Inl m \<and> effect X s s' []) \<or>
    (\<exists>target. supersede_refusal X s e = None \<and> node_view X s (e_to e) = Some target \<and>
       r = Inr (n_status target = Active) \<and> effect X s s' (supersede_items e target))"
proof (cases "supersede_refusal X s e")
  case None
  then obtain target where "node_view X s (e_to e) = Some target" by (rule supersede_refusal_None)
  with None run supersede_write_effect [OF X ok this] show ?thesis
    by (auto simp: apply_supersession_eq [OF ok])
next
  case (Some m)
  with run ok show ?thesis by (auto simp: apply_supersession_eq)
qed

section \<open>Confirming a proposal\<close>

definition confirmed_form :: "edge \<Rightarrow> u64 \<Rightarrow> edge" where
  "confirmed_form e now = (let e' = e\<lparr>e_quarantined := False\<rparr> in
     if e_kind e = Supersedes then e'\<lparr>e_provenance := (e_provenance e')\<lparr>p_at := now\<rparr>\<rparr> else e')"

text \<open>\<^verbatim>\<open>confirm_edge\<close> leaves the store alone, or applies the stored proposal with its quarantine
  lifted, through the supersession checks when it is a Supersedes edge.\<close>

lemma confirm_edge_cases:
  assumes ok: "store_ok X s" and run: "confirm_edge X a b k now s = (r, s')"
  shows "(s' = s \<and> (r = Inr NotFound \<or> r = Inr AlreadyConfirmed)) \<or>
    (\<exists>e q. edge_view X s (edge_key e) = Some e \<and> e_from e = a \<and> e_to e = b \<and> e_kind e = k \<and>
       e_quarantined e \<and> r = rbind q (\<lambda>_. Inr ConfirmedNow) \<and>
       (if k = Supersedes then \<exists>p. apply_supersession X (confirmed_form e now) s = (p, s') \<and> q = rbind p (\<lambda>_. Inr ())
        else \<exists>p. add_edge X (confirmed_form e now) s = (p, s') \<and> q = map_err StoreErr p))"
proof -
  obtain es where es: "out_edges X a s = Inr es"
      "\<And>e. e \<in> set es \<longleftrightarrow> edge_view X s (edge_key e) = Some e \<and> e_from e = a"
    by (rule out_edges_spec [OF ok, of a]) (rule that)
  show ?thesis
  proof (cases "List.find (\<lambda>e. e_to e = b \<and> e_kind e = k) es")
    case None
    with run es(1) show ?thesis by (simp add: confirm_edge_def ss_rd_bind)
  next
    case (Some e)
    then have e: "edge_view X s (edge_key e) = Some e" "e_from e = a" "e_to e = b" "e_kind e = k"
      using es(2) [of e] by (auto simp: find_Some_iff)
    show ?thesis
    proof (cases "e_quarantined e")
      case False
      with run es(1) Some show ?thesis by (simp add: confirm_edge_def ss_rd_bind)
    next
      case True
      let ?m = "if k = Supersedes
          then sbind (apply_supersession X (confirmed_form e now)) (\<lambda>_. sok ())
          else smap_err StoreErr (add_edge X (confirmed_form e now))"
      have run': "sbind ?m (\<lambda>_. sok ConfirmedNow) s = (r, s')"
        using run es(1) Some True e(4)
        by (simp add: confirm_edge_def ss_rd_bind confirmed_form_def Let_def split: if_splits)
      have "\<exists>q. r = rbind q (\<lambda>_. Inr ConfirmedNow) \<and>
         (if k = Supersedes then \<exists>p. apply_supersession X (confirmed_form e now) s = (p, s') \<and> q = rbind p (\<lambda>_. Inr ())
          else \<exists>p. add_edge X (confirmed_form e now) s = (p, s') \<and> q = map_err StoreErr p)"
        using run' by (auto simp: sbind_def smap_err_def split: prod.splits sum.splits if_splits)
      with e True show ?thesis by blast
    qed
  qed
qed

lemma confirmed_form_simps [simp]:
  "e_from (confirmed_form e now) = e_from e" "e_to (confirmed_form e now) = e_to e"
  "e_kind (confirmed_form e now) = e_kind e" "\<not> e_quarantined (confirmed_form e now)"
  "edge_key (confirmed_form e now) = edge_key e"
  by (simp_all add: confirmed_form_def Let_def edge_key_def)

section \<open>Refinement of the specification\<close>

definition sup_rel :: "externals \<Rightarrow> dag_store \<Rightarrow> (content_hash \<times> content_hash) set" where
  "sup_rel X s = {(a, b). \<exists>e. edge_view X s (edge_key e) = Some e \<and> e_kind e = Supersedes \<and>
     \<not> e_quarantined e \<and> e_from e = a \<and> e_to e = b}"

definition abs_tla :: "externals \<Rightarrow> dag_store \<Rightarrow> content_hash tla_state" where
  "abs_tla X s = \<lparr>tla_present = present s, tla_supersedes = sup_rel X s,
     tla_status = (\<lambda>n. map_option n_status (node_view X s n))\<rparr>"

text \<open>The operations through which nodes, proposals and supersessions enter the store: a new
  node, an edge that is a proposal or not a supersession at all, a supersession, the
  confirmation of a proposal, a node taken out of service. Each may fail.\<close>

inductive dag_step :: "externals \<Rightarrow> dag_store \<Rightarrow> dag_store \<Rightarrow> bool" for X where
  put: "has_node (node_id X n) s = Inr False \<Longrightarrow> n_status n = Active \<Longrightarrow> json_safe n \<Longrightarrow>
     put_node X n s = (r, s') \<Longrightarrow> dag_step X s s'"
| link: "e_kind e \<noteq> Supersedes \<or> e_quarantined e \<Longrightarrow> add_edge X e s = (r, s') \<Longrightarrow> dag_step X s s'"
| supersede: "apply_supersession X e s = (r, s') \<Longrightarrow> dag_step X s s'"
| confirm: "confirm_edge X a b k now s = (r, s') \<Longrightarrow> dag_step X s s'"
| restatus: "st \<noteq> Active \<Longrightarrow> set_node_status X nid st vt s = (r, s') \<Longrightarrow> dag_step X s s'"

lemma sup_rel_links: "sup_rel X s \<subseteq> links X s Supersedes"
  by (auto simp: sup_rel_def links_def)

lemma sup_rel_add:
  assumes upd: "edge_view X s' = (edge_view X s)(edge_key e \<mapsto> e)"
    and e: "e_kind e = Supersedes" "\<not> e_quarantined e"
  shows "sup_rel X s' = insert (e_from e, e_to e) (sup_rel X s)"
proof
  show "sup_rel X s' \<subseteq> insert (e_from e, e_to e) (sup_rel X s)"
    using e by (auto simp: sup_rel_def upd edge_key_inject split: if_splits)
  have "(e_from e, e_to e) \<in> sup_rel X s'"
    unfolding sup_rel_def using e by (auto simp: upd intro: exI [of _ e])
  moreover have "(e_from d, e_to d) \<in> sup_rel X s'"
    if "edge_view X s (edge_key d) = Some d" "e_kind d = Supersedes" "\<not> e_quarantined d" for d
  proof (cases "edge_key d = edge_key e")
    case True
    with \<open>(e_from e, e_to e) \<in> sup_rel X s'\<close> show ?thesis by (simp add: edge_key_inject)
  next
    case False
    with that have "edge_view X s' (edge_key d) = Some d" by (simp add: upd)
    with that(2,3) show ?thesis unfolding sup_rel_def by blast
  qed
  ultimately show "insert (e_from e, e_to e) (sup_rel X s) \<subseteq> sup_rel X s'"
    by (auto simp: sup_rel_def [of X s])
qed

lemma sup_rel_keep:
  assumes upd: "edge_view X s' = (edge_view X s)(edge_key e \<mapsto> e)"
    and e: "e_kind e \<noteq> Supersedes \<or> e_quarantined e" and dem: "\<not> demoting X s e"
  shows "sup_rel X s' = sup_rel X s"
proof -
  have "edge_view X s' (edge_key d) = Some d \<longleftrightarrow> edge_view X s (edge_key d) = Some d"
    if "e_kind d = Supersedes" "\<not> e_quarantined d" for d
  proof (cases "edge_key d = edge_key e")
    case True
    then have "e_kind e = Supersedes" using that(1) by (simp add: edge_key_inject)
    with e have "e_quarantined e" by simp
    with dem True that(2) have "edge_view X s (edge_key d) \<noteq> Some d" by (auto simp: demoting_def)
    moreover have "e \<noteq> d" using \<open>e_quarantined e\<close> that(2) by auto
    ultimately show ?thesis using True by (simp add: upd)
  next
    case False
    then show ?thesis by (simp add: upd)
  qed
  then show ?thesis unfolding sup_rel_def by blast
qed

lemma effect_nil_tla: "effect X s s' [] \<Longrightarrow> abs_tla X s' = abs_tla X s"
  by (simp add: effect_def abs_tla_def sup_rel_def)

definition stutters :: "externals \<Rightarrow> dag_store \<Rightarrow> dag_store \<Rightarrow> bool" where
  "stutters X s s' \<longleftrightarrow> abs_tla X s' = abs_tla X s \<or> store_next (abs_tla X s) (abs_tla X s')"

lemma put_simulates:
  assumes "node_id X n \<notin> present s" "present s = dom (node_view X s)" "n_status n = Active"
    and "effect X s s' [INode n]"
  shows "stutters X s s'"
proof -
  have "tla_next (abs_tla X s) \<lparr>tla_present = insert (node_id X n) (tla_present (abs_tla X s)),
      tla_supersedes = tla_supersedes (abs_tla X s),
      tla_status = (tla_status (abs_tla X s))(node_id X n \<mapsto> Active)\<rparr>"
    by (rule tla_next.add_node) (use assms(1,2) in \<open>auto simp: abs_tla_def\<close>)
  moreover have "abs_tla X s' = \<lparr>tla_present = insert (node_id X n) (tla_present (abs_tla X s)),
      tla_supersedes = tla_supersedes (abs_tla X s),
      tla_status = (tla_status (abs_tla X s))(node_id X n \<mapsto> Active)\<rparr>"
    using assms(3,4) by (auto simp: abs_tla_def effect_def sup_rel_def fun_eq_iff)
  ultimately show ?thesis by (simp add: stutters_def store_next.by_spec)
qed

lemma link_simulates:
  assumes X: "externals_ok X" and ok: "store_ok X s" and e: "e_kind e \<noteq> Supersedes \<or> e_quarantined e"
    and run: "add_edge X e s = (r, s')"
  shows "stutters X s s'"
proof -
  from add_edge_effect [OF X ok run]
  have "effect X s s' [] \<or> (\<not> demoting X s e \<and> effect X s s' [IEdge e])"
    by (cases "demoting X s e") auto
  then show ?thesis
  proof
    assume "effect X s s' []"
    then show ?thesis by (simp add: stutters_def effect_nil_tla)
  next
    assume eff: "\<not> demoting X s e \<and> effect X s s' [IEdge e]"
    then have "sup_rel X s' = sup_rel X s" using sup_rel_keep [OF _ e] by (simp add: effect_def)
    with eff show ?thesis by (simp add: stutters_def abs_tla_def effect_def)
  qed
qed

lemma supersede_simulates:
  assumes X: "externals_ok X" and ok: "store_ok X s" and dom: "present s = dom (node_view X s)"
    and run: "apply_supersession X e s = (r, s')"
  shows "stutters X s s'"
  using apply_supersession_effect [OF X ok run]
proof
  assume "\<exists>m. r = Inl m \<and> effect X s s' []"
  then show ?thesis by (auto simp: stutters_def effect_nil_tla)
next
  assume "\<exists>target. supersede_refusal X s e = None \<and> node_view X s (e_to e) = Some target \<and>
       r = Inr (n_status target = Active) \<and> effect X s s' (supersede_items e target)"
  then obtain target where none: "supersede_refusal X s e = None"
    and tg: "node_view X s (e_to e) = Some target" and eff: "effect X s s' (supersede_items e target)"
    by blast
  from none have e: "e_kind e = Supersedes" "\<not> e_quarantined e" "e_from e \<noteq> e_to e" "e_from e \<in> present s"
      "(e_to e, e_from e) \<notin> (links X s Supersedes)\<^sup>*"
    by (auto elim: supersede_refusal_None)
  have guard: "(e_to e, e_from e) \<notin> (sup_rel X s)\<^sup>+"
    using e(5) trancl_mono [OF _ sup_rel_links] by (meson trancl_into_rtrancl)
  have mem: "e_to e \<in> present s" using tg dom by auto
  have nid: "node_id X target = e_to e" by (rule node_view_id [OF ok tg])
  have sup: "sup_rel X s' = insert (e_from e, e_to e) (sup_rel X s)"
    by (rule sup_rel_add [OF _ e(1,2)]) (use eff in \<open>simp add: effect_def supersede_items_def split: if_splits\<close>)
  have pres: "present s' = present s"
    using eff mem nid by (auto simp: effect_def supersede_items_def split: if_splits)
  show ?thesis
  proof (cases "n_status target = Active")
    case True
    then have "node_view X s' = (node_view X s)(e_to e \<mapsto> supersede_target e target)"
      using eff nid by (simp add: effect_def supersede_items_def)
    then have "abs_tla X s' = \<lparr>tla_present = tla_present (abs_tla X s),
        tla_supersedes = insert (e_from e, e_to e) (tla_supersedes (abs_tla X s)),
        tla_status = (tla_status (abs_tla X s))(e_to e \<mapsto> Superseded)\<rparr>"
      by (auto simp: abs_tla_def sup pres supersede_target_def fun_eq_iff)
    moreover have "tla_next (abs_tla X s) \<dots>"
      by (rule tla_next.supersede) (use e mem guard tg True in \<open>simp_all add: abs_tla_def\<close>)
    ultimately show ?thesis by (simp add: stutters_def store_next.by_spec)
  next
    case False
    then have "node_view X s' = node_view X s" using eff by (simp add: effect_def supersede_items_def)
    then have "abs_tla X s' = \<lparr>tla_present = tla_present (abs_tla X s),
        tla_supersedes = insert (e_from e, e_to e) (tla_supersedes (abs_tla X s)),
        tla_status = tla_status (abs_tla X s)\<rparr>"
      by (simp add: abs_tla_def sup pres)
    moreover have "store_next (abs_tla X s) \<dots>"
      by (rule store_next.relink) (use e mem guard tg False in \<open>simp_all add: abs_tla_def\<close>)
    ultimately show ?thesis by (simp add: stutters_def)
  qed
qed

lemma confirm_simulates:
  assumes X: "externals_ok X" and ok: "store_ok X s" and dom: "present s = dom (node_view X s)"
    and run: "confirm_edge X a b k now s = (r, s')"
  shows "stutters X s s'"
  using confirm_edge_cases [OF ok run]
proof (elim disjE conjE exE)
  assume "s' = s"
  then show ?thesis by (simp add: stutters_def)
next
  fix e q
  assume k: "e_kind e = k" and step: "if k = Supersedes
      then \<exists>p. apply_supersession X (confirmed_form e now) s = (p, s') \<and> q = rbind p (\<lambda>_. Inr ())
      else \<exists>p. add_edge X (confirmed_form e now) s = (p, s') \<and> q = map_err StoreErr p"
  show ?thesis
  proof (cases "k = Supersedes")
    case True
    with step supersede_simulates [OF X ok dom] show ?thesis by auto
  next
    case False
    with step k link_simulates [OF X ok, of "confirmed_form e now"] show ?thesis by auto
  qed
qed (simp add: stutters_def)

lemma restatus_simulates:
  assumes X: "externals_ok X" and ok: "store_ok X s" and dom: "present s = dom (node_view X s)"
    and st: "st \<noteq> Active" and run: "set_node_status X nid st vt s = (r, s')"
  shows "stutters X s s'"
  using set_node_status_effect [OF X ok run]
proof (elim disjE conjE exE)
  fix n
  assume n: "node_view X s nid = Some n" and eff: "effect X s s' [INode (with_status st vt n)]"
  have nid: "node_id X n = nid" by (rule node_view_id [OF ok n])
  have mem: "nid \<in> present s" using n dom by auto
  have "abs_tla X s' = \<lparr>tla_present = tla_present (abs_tla X s), tla_supersedes = tla_supersedes (abs_tla X s),
      tla_status = (tla_status (abs_tla X s))(nid \<mapsto> st)\<rparr>"
    using eff mem nid
    by (auto simp: abs_tla_def effect_def sup_rel_def fun_eq_iff with_status_def Let_def)
  moreover have "store_next (abs_tla X s) \<dots>"
    by (rule store_next.retire) (use mem st in \<open>simp_all add: abs_tla_def\<close>)
  ultimately show ?thesis by (simp add: stutters_def)
qed (simp_all add: stutters_def effect_nil_tla)

lemma effect_dom:
  assumes "effect X s s' its" "present s = dom (node_view X s)"
  shows "present s' = dom (node_view X s')"
proof -
  have "dom (fold (node_upd X) its m) = dom m \<union> (\<Union>it \<in> set its. item_ids X it)" for m
  proof (induction its arbitrary: m)
    case Nil
    then show ?case by simp
  next
    case (Cons it its)
    then show ?case by (cases it) auto
  qed
  with assms show ?thesis by (simp add: effect_def)
qed

lemma add_edge_some_effect:
  assumes "externals_ok X" "store_ok X s" "add_edge X e s = (r, s')"
  shows "\<exists>its. effect X s s' its"
  using add_edge_effect [OF assms] by blast

lemma apply_supersession_some_effect:
  assumes "externals_ok X" "store_ok X s" "apply_supersession X e s = (r, s')"
  shows "\<exists>its. effect X s s' its"
  using apply_supersession_effect [OF assms] by blast

lemma confirm_edge_some_effect:
  assumes "externals_ok X" "store_ok X s" "confirm_edge X a b k now s = (r, s')"
  shows "\<exists>its. effect X s s' its"
  using confirm_edge_cases [OF assms(2,3)]
proof (elim disjE conjE exE)
  fix e q
  assume "if k = Supersedes
      then \<exists>p. apply_supersession X (confirmed_form e now) s = (p, s') \<and> q = rbind p (\<lambda>_. Inr ())
      else \<exists>p. add_edge X (confirmed_form e now) s = (p, s') \<and> q = map_err StoreErr p"
  then show ?thesis
    using add_edge_some_effect [OF assms(1,2)] apply_supersession_some_effect [OF assms(1,2)]
    by (auto split: if_splits)
qed (use assms(2) effect_refl in blast)+

lemma dag_step_effect:
  assumes X: "externals_ok X" and ok: "store_ok X s" and "dag_step X s s'"
  shows "\<exists>its. effect X s s' its"
  using assms(3)
proof cases
  case (put n r)
  from put_node_effect [OF X ok put(3,4)] show ?thesis by blast
next
  case (link e r)
  then show ?thesis using add_edge_some_effect [OF X ok] by blast
next
  case (supersede e r)
  then show ?thesis using apply_supersession_some_effect [OF X ok] by blast
next
  case (confirm a b k now r)
  then show ?thesis using confirm_edge_some_effect [OF X ok] by blast
next
  case (restatus st nid vt r)
  from set_node_status_effect [OF X ok restatus(2)] ok effect_refl show ?thesis by blast
qed

lemma dag_step_simulates:
  assumes X: "externals_ok X" and ok: "store_ok X s" and dom: "present s = dom (node_view X s)"
    and step: "dag_step X s s'"
  shows "stutters X s s'"
  using step
proof cases
  case (put n r)
  have "node_id X n \<notin> present s" using put(1) by (simp add: has_node_eq [OF ok] present_def)
  with put_node_effect [OF X ok put(3,4)] put_simulates [OF _ dom put(2)] show ?thesis
    by (auto simp: stutters_def effect_nil_tla)
qed (use link_simulates [OF X ok] supersede_simulates [OF X ok dom] confirm_simulates [OF X ok dom]
    restatus_simulates [OF X ok dom] in blast)+

definition dag_inv :: "externals \<Rightarrow> dag_store \<Rightarrow> bool" where
  "dag_inv X s \<longleftrightarrow> store_ok X s \<and> tla_inv (abs_tla X s)"

lemma dag_inv_dom: "dag_inv X s \<Longrightarrow> present s = dom (node_view X s)"
  by (simp add: dag_inv_def tla_inv_def type_ok_def abs_tla_def dom_def)

lemma dag_inv_step:
  assumes X: "externals_ok X" and inv: "dag_inv X s" and step: "dag_step X s s'"
  shows "dag_inv X s' \<and> present s \<subseteq> present s'"
proof -
  have ok: "store_ok X s" using inv by (simp add: dag_inv_def)
  obtain its where "effect X s s' its" using dag_step_effect [OF X ok step] by blast
  then have ok': "store_ok X s'" by (rule effect_ok)
  have "stutters X s s'" by (rule dag_step_simulates [OF X ok dag_inv_dom [OF inv] step])
  then have "tla_inv (abs_tla X s') \<and> tla_present (abs_tla X s) \<subseteq> tla_present (abs_tla X s')"
    using inv store_next_inv by (auto simp: stutters_def dag_inv_def)
  with ok' show ?thesis by (simp add: dag_inv_def abs_tla_def)
qed

lemma dag_inv_start: "dag_inv X (new kv_new)" "dag_inv X (new_encrypted kv_new)"
proof -
  have "abs_tla X (new kv_new) = tla_init" "abs_tla X (new_encrypted kv_new) = tla_init"
    by (simp_all add: abs_tla_def tla_init_def present_def sup_rel_def node_view_def row_view_def
        new_def new_encrypted_def)
  then show "dag_inv X (new kv_new)" "dag_inv X (new_encrypted kv_new)"
    using tla_init_inv by (simp_all add: dag_inv_def)
qed

lemma dag_inv_reachable:
  assumes X: "externals_ok X" and "(dag_step X)\<^sup>*\<^sup>* s s'" "dag_inv X s"
  shows "dag_inv X s'"
  using assms(2,3) by (induction rule: rtranclp_induct) (use dag_inv_step [OF X] in blast)+

section \<open>A sample run\<close>

text \<open>Two nodes and a supersession between them, in a plaintext store: the concrete run the
  witnesses below are taken from.\<close>

lemma supersede_write_total:
  assumes X: "externals_ok X" "externals_total X" and ok: "store_ok X s" and plain: "\<not> ds_encrypt s"
  shows "\<exists>s'. supersede_write X e target s = (Inr (n_status target = Active), s')"
proof -
  obtain ops q where q: "edge_put_ops X e Map.empty s = (Inr ops, q)"
    using edge_put_ops_total [OF X store_okD(1) [OF ok]] plain by blast
  have kq: "keyring_ok X q"
    by (rule keys_grow_ok [OF edge_put_ops_cases(1) [OF X(1) store_okD(1) [OF ok] q]])
  obtain b u where u: "encode_node X (supersede_target e target) q = (Inr b, u)"
    using encode_node_total [OF X kq] by blast
  have ku: "keyring_ok X u" by (rule keys_grow_ok [OF encode_node_cases(1) [OF X(1) kq u]])
  show ?thesis
  proof (cases "n_status target = Active")
    case True
    obtain v where "kv_wr (kv_write_batch (ops @ [Put NODES (hash_bytes (e_to e)) b])) u = (Inr (), v)"
      by (rule kv_wr_batch [OF keyring_ok_live [OF ku]])
    with True q u show ?thesis by (simp add: supersede_write_def sbind_def smap_err_def)
  next
    case False
    obtain v where "kv_wr (kv_write_batch ops) q = (Inr (), v)"
      by (rule kv_wr_batch [OF keyring_ok_live [OF kq]])
    with False q show ?thesis by (simp add: supersede_write_def sbind_def smap_err_def)
  qed
qed

definition newer_node :: memory_node where
  "newer_node = sample_node\<lparr>n_content := [104, 106]\<rparr>"

definition sample_supersedes :: edge where
  "sample_supersedes = sample_edge\<lparr>e_from := node_id ideal_externals newer_node,
     e_to := node_id ideal_externals sample_node, e_kind := Supersedes\<rparr>"

lemma sample_ids_differ: "node_id ideal_externals newer_node \<noteq> node_id ideal_externals sample_node"
proof -
  have "unat (node_id ideal_externals newer_node) mod 256 = unat (106 :: byte)"
    by (rule ideal_id_last [of _ "[104]"]) (simp add: newer_node_def)
  moreover have "unat (node_id ideal_externals sample_node) mod 256 = unat (105 :: byte)"
    by (rule ideal_id_last [of _ "[104]"]) (simp add: sample_node_def)
  ultimately show ?thesis by auto
qed

lemma put_fresh:
  assumes "store_ok ideal_externals s" "json_safe n"
  obtains s' where "put_node ideal_externals n s = (Inr (node_id ideal_externals n), s')"
    "effect ideal_externals s s' [INode n]"
proof -
  obtain s' where run: "put_node ideal_externals n s = (Inr (node_id ideal_externals n), s')"
    using put_node_total [OF ideal_externals_ok ideal_externals_total assms(1)] by blast
  with put_node_effect [OF ideal_externals_ok assms run] that show ?thesis by auto
qed

lemma sample_two_nodes:
  obtains s\<^sub>1 s\<^sub>2 where "put_node ideal_externals sample_node (new kv_new) = (Inr (node_id ideal_externals sample_node), s\<^sub>1)"
    "put_node ideal_externals newer_node s\<^sub>1 = (Inr (node_id ideal_externals newer_node), s\<^sub>2)"
    "store_ok ideal_externals s\<^sub>1" "store_ok ideal_externals s\<^sub>2" "\<not> ds_encrypt s\<^sub>2"
    "present s\<^sub>1 = {node_id ideal_externals sample_node}"
    "present s\<^sub>2 = {node_id ideal_externals sample_node, node_id ideal_externals newer_node}"
    "node_view ideal_externals s\<^sub>2 (node_id ideal_externals sample_node) = Some sample_node"
    "edge_view ideal_externals s\<^sub>2 = Map.empty"
proof -
  let ?X = ideal_externals
  have empty: "present (new kv_new) = {}" "edge_view ?X (new kv_new) = Map.empty" "\<not> ds_encrypt (new kv_new)"
    by (simp_all add: present_def row_view_def new_def fun_eq_iff)
  obtain s\<^sub>1 where s1: "put_node ?X sample_node (new kv_new) = (Inr (node_id ?X sample_node), s\<^sub>1)"
      "effect ?X (new kv_new) s\<^sub>1 [INode sample_node]"
    by (rule put_fresh [OF new_store_ok sample_node_safe])
  have safe: "json_safe newer_node" by (simp add: newer_node_def json_safe_def sample_node_def)
  obtain s\<^sub>2 where s2: "put_node ?X newer_node s\<^sub>1 = (Inr (node_id ?X newer_node), s\<^sub>2)"
      "effect ?X s\<^sub>1 s\<^sub>2 [INode newer_node]"
    by (rule put_fresh [OF effect_ok [OF s1(2)] safe])
  from s1 s2 empty sample_ids_differ show thesis
    by (intro that [OF s1(1) s2(1)]) (auto simp: effect_def)
qed

lemma sample_run:
  obtains s\<^sub>1 s\<^sub>2 s\<^sub>3 where
    "dag_step ideal_externals (new kv_new) s\<^sub>1" "dag_step ideal_externals s\<^sub>1 s\<^sub>2"
    "store_ok ideal_externals s\<^sub>2" "apply_supersession ideal_externals sample_supersedes s\<^sub>2 = (Inr True, s\<^sub>3)"
proof (rule sample_two_nodes)
  let ?X = ideal_externals
  fix s\<^sub>1 s\<^sub>2
  assume s: "put_node ?X sample_node (new kv_new) = (Inr (node_id ?X sample_node), s\<^sub>1)"
    "put_node ?X newer_node s\<^sub>1 = (Inr (node_id ?X newer_node), s\<^sub>2)"
    "store_ok ?X s\<^sub>1" "store_ok ?X s\<^sub>2" "\<not> ds_encrypt s\<^sub>2"
    "present s\<^sub>1 = {node_id ?X sample_node}"
    "present s\<^sub>2 = {node_id ?X sample_node, node_id ?X newer_node}"
    "node_view ?X s\<^sub>2 (node_id ?X sample_node) = Some sample_node"
    "edge_view ?X s\<^sub>2 = Map.empty"
  have safe: "json_safe newer_node" by (simp add: newer_node_def json_safe_def sample_node_def)
  have h1: "has_node (node_id ?X sample_node) (new kv_new) = Inr False"
    by (simp add: has_node_eq [OF new_store_ok]) (simp add: new_def)
  have h2: "has_node (node_id ?X newer_node) s\<^sub>1 = Inr False"
    using s(6) sample_ids_differ by (auto simp: has_node_eq [OF s(3)] present_def)
  have st: "n_status sample_node = Active" "n_status newer_node = Active"
    by (simp_all add: newer_node_def sample_node_def)
  have step1: "dag_step ?X (new kv_new) s\<^sub>1" by (rule dag_step.put [OF h1 st(1) sample_node_safe s(1)])
  have step2: "dag_step ?X s\<^sub>1 s\<^sub>2" by (rule dag_step.put [OF h2 st(2) safe s(2)])
  have "links ?X s\<^sub>2 Supersedes = {}" by (simp add: links_def s(9))
  then have ref: "supersede_refusal ?X s\<^sub>2 sample_supersedes = None"
    using s(7,8) sample_ids_differ
    by (auto simp: supersede_refusal_def sample_supersedes_def sample_edge_def sample_node_def)
  obtain s\<^sub>3 where "supersede_write ?X sample_supersedes sample_node s\<^sub>2 = (Inr True, s\<^sub>3)"
    using supersede_write_total [OF ideal_externals_ok ideal_externals_total s(4,5)] st(1) by metis
  then have "apply_supersession ?X sample_supersedes s\<^sub>2 = (Inr True, s\<^sub>3)"
    using ref s(8) by (simp add: apply_supersession_eq [OF s(4)] sample_supersedes_def)
  with step1 step2 s(4) show thesis by (rule that)
qed

section \<open>The contract\<close>





text \<open>\<^verbatim>\<open>apply_supersession\<close> on every branch: the first check that fails decides the error and
  nothing readable changes; otherwise edge and transition become visible together: an active
  target reads back superseded, its validity closed at the edge's time but never before it
  began, and a target that was no longer active keeps its status and validity.\<close>

theorem apply_supersession_contract:
  assumes "externals_ok X" "store_ok X s" "apply_supersession X e s = (r, s')"
  shows "(\<forall>m. supersede_refusal X s e = Some m \<longrightarrow> r = Inl m \<and> s' = s) \<and>
    (\<forall>m. r = Inl m \<longrightarrow> abs_dag X s' = abs_dag X s) \<and>
    (\<forall>transitioned. r = Inr transitioned \<longrightarrow>
      (\<exists>target. get_node X (e_to e) s = Inr (Some target) \<and>
        transitioned = (n_status target = Active) \<and>
        get_node X (e_to e) s' = Inr (Some (if transitioned then supersede_target e target else target)) \<and>
        (\<forall>nid. nid \<noteq> e_to e \<longrightarrow> get_node X nid s' = get_node X nid s) \<and>
        edge_view X s' = (edge_view X s)(edge_key e \<mapsto> e)))"
proof (intro conjI allI impI)
  note ok = assms(2) and eff = apply_supersession_effect [OF assms]
  show "r = Inl m" if "supersede_refusal X s e = Some m" for m
    using assms(3) that by (simp add: apply_supersession_eq [OF ok])
  show "s' = s" if "supersede_refusal X s e = Some m" for m
    using assms(3) that by (simp add: apply_supersession_eq [OF ok])
  show "abs_dag X s' = abs_dag X s" if "r = Inl m" for m using eff that by (auto simp: effect_nil_abs)
  fix transitioned
  assume "r = Inr transitioned"
  with eff obtain target where tg: "node_view X s (e_to e) = Some target" "transitioned = (n_status target = Active)"
    and ef: "effect X s s' (supersede_items e target)"
    by auto
  have nid: "node_id X target = e_to e" by (rule node_view_id [OF ok tg(1)])
  have "node_view X s' = (if transitioned then (node_view X s)(e_to e \<mapsto> supersede_target e target) else node_view X s)"
    "edge_view X s' = (edge_view X s)(edge_key e \<mapsto> e)"
    using ef tg(2) nid by (simp_all add: effect_def supersede_items_def)
  with tg show "\<exists>target. get_node X (e_to e) s = Inr (Some target) \<and>
        transitioned = (n_status target = Active) \<and>
        get_node X (e_to e) s' = Inr (Some (if transitioned then supersede_target e target else target)) \<and>
        (\<forall>nid. nid \<noteq> e_to e \<longrightarrow> get_node X nid s' = get_node X nid s) \<and>
        edge_view X s' = (edge_view X s)(edge_key e \<mapsto> e)"
    by (auto simp: get_node_eq [OF ok] get_node_eq [OF effect_ok [OF ef]])
qed

text \<open>At the sample supersession: the older node reads back superseded.\<close>

theorem apply_supersession_contract_witness:
  "\<exists>s s' node. apply_supersession ideal_externals sample_supersedes s = (Inr True, s') \<and>
     get_node ideal_externals (node_id ideal_externals sample_node) s' = Inr (Some node) \<and>
     n_status node = Superseded"
proof (rule sample_run)
  fix s\<^sub>2 s\<^sub>3
  assume ok: "store_ok ideal_externals s\<^sub>2"
    and run: "apply_supersession ideal_externals sample_supersedes s\<^sub>2 = (Inr True, s\<^sub>3)"
  have tgt: "e_to sample_supersedes = node_id ideal_externals sample_node" by (simp add: sample_supersedes_def)
  note apply_supersession_contract [OF ideal_externals_ok ok run, THEN conjunct2, THEN conjunct2,
      THEN spec, THEN mp, OF refl]
  then obtain target where
    "get_node ideal_externals (node_id ideal_externals sample_node) s\<^sub>3 =
       Inr (Some (supersede_target sample_supersedes target))"
    unfolding tgt if_True by (elim exE conjE) (rule that)
  moreover have "n_status (supersede_target sample_supersedes target) = Superseded"
    by (simp add: supersede_target_def)
  ultimately show ?thesis by (intro exI conjI) (rule run)
qed

end
