(* ===== verification/Erasure.thy ===== *)
theory Erasure
  imports Supersession
begin

text \<open>
  Cryptographic erasure (\<^verbatim>\<open>MemoryDagStore::shred_tenant\<close>) and the tampering contract. Shredding
  a tenant destroys the key of its current generation; the rows stay where they are and read
  as absent from then on, in every later state, whatever is written in between, while other
  tenants and plaintext rows read as before.
\<close>

section \<open>Shredding one tenant\<close>

text \<open>The one precondition is that the generation counter of the tenant is not exhausted
  (\<open>u32::MAX\<close> generations): the next key must get a number of its own.\<close>

definition gen_left :: "externals \<Rightarrow> dag_store \<Rightarrow> string \<Rightarrow> bool" where
  "gen_left X s t \<longleftrightarrow> (\<forall>e. keyring_at X s t = Some e \<longrightarrow> kr_gen e < kr_gen e + 1)"

lemma usable_other: "keyring_at X s' t = keyring_at X s t \<Longrightarrow> usable X s' t g = usable X s t g"
  by (simp add: usable_def)

text \<open>\<open>shredded X t s s'\<close>: only the keyring changed, tenant \<open>t\<close> kept its generation and lost its
  key, every other tenant kept both.\<close>

definition shredded :: "externals \<Rightarrow> string \<Rightarrow> dag_store \<Rightarrow> dag_store \<Rightarrow> bool" where
  "shredded X t s s' \<longleftrightarrow> keyring_ok X s' \<and> ds_encrypt s' = ds_encrypt s \<and>
     (\<forall>cf. cf \<noteq> KEYS \<longrightarrow> rows s' cf = rows s cf) \<and>
     map_option kr_gen (keyring_at X s' t) = map_option kr_gen (keyring_at X s t) \<and>
     (\<forall>g. usable X s' t g = None) \<and>
     (\<forall>t'. t' \<noteq> t \<longrightarrow> keyring_at X s' t' = keyring_at X s t')"

lemma shred_tenant_cases:
  assumes X: "externals_ok X" and ok: "keyring_ok X s" and left: "gen_left X s t"
    and run: "shred_tenant X t s = (r, s')"
  shows "(\<exists>m. r = Inl (Serde m) \<and> s' = s) \<or>
    (r = Inr (Option.bind (keyring_at X s t) kr_key \<noteq> None) \<and> shredded X t s s')"
proof (cases "keyring_at X s t")
  case None
  with run ok show ?thesis
    by (auto simp: shred_tenant_def bind_simps keyring_entry_of_eq sok_def shredded_def usable_def)
next
  case (Some e)
  let ?e = "\<lparr>kr_gen = kr_gen e, kr_key = None\<rparr>"
  obtain p q where p: "put_keyring_entry X t ?e s = (p, q)" by (cases "put_keyring_entry X t ?e s")
  have kb: "key_bytes X ?e = Inr None" by (simp add: key_bytes_def)
  have lt: "kr_gen ?e < kr_gen ?e + 1" using left Some by (simp add: gen_left_def)
  from put_keyring_entry_cases [OF X ok kb _ p] lt
  consider m where "p = Inl (Serde m)" "q = s"
    | "p = Inr ()" "keyring_ok X q" "ds_encrypt q = ds_encrypt s"
      "\<forall>cf. cf \<noteq> KEYS \<longrightarrow> rows q cf = rows s cf" "keyring_at X q t = Some ?e"
      "\<forall>t'. t' \<noteq> t \<longrightarrow> keyring_at X q t' = keyring_at X s t'"
    by auto
  then show ?thesis
  proof cases
    case 1
    with run Some p ok show ?thesis
      by (auto simp: shred_tenant_def bind_simps keyring_entry_of_eq sbind_def)
  next
    case 2
    then have "shredded X t s q" using Some kb by (simp add: shredded_def usable_def)
    moreover have "r = Inr (kr_key e \<noteq> None)" "s' = q"
      using run Some p ok 2(1) by (auto simp: shred_tenant_def bind_simps keyring_entry_of_eq sbind_def)
    ultimately show ?thesis using Some by simp
  qed
qed

lemma shredded_sealed_ok:
  assumes "shredded X t s s'" "sealed_ok X s b"
  shows "sealed_ok X s' b"
  unfolding sealed_ok_def
proof (intro allI impI)
  fix u g
  assume "seal_tag X b = Some (u, g)"
  with assms(2) obtain e where e: "keyring_at X s u = Some e" "g \<le> kr_gen e"
    by (auto simp: sealed_ok_def)
  show "\<exists>e. keyring_at X s' u = Some e \<and> g \<le> kr_gen e"
  proof (cases "u = t")
    case True
    with assms(1) e have "map_option kr_gen (keyring_at X s' u) = Some (kr_gen e)"
      by (simp add: shredded_def)
    with e(2) show ?thesis by auto
  next
    case False
    with assms(1) e show ?thesis by (simp add: shredded_def)
  qed
qed

text \<open>What a row reads as after the shred: absent when the tenant sealed it, else as before.\<close>

definition sealed_by :: "externals \<Rightarrow> string \<Rightarrow> bytes \<Rightarrow> bool" where
  "sealed_by X t b \<longleftrightarrow> (\<exists>g. seal_tag X b = Some (t, g))"

lemma shredded_open:
  assumes "shredded X t s s'"
  shows "open_node X (usable X s') nid b = (if sealed_by X t b then Inr None else open_node X (usable X s) nid b)"
    and "open_edge X (usable X s') cf k b = (if sealed_by X t b then Inr None else open_edge X (usable X s) cf k b)"
proof -
  have u: "usable X s' t' g = (if t' = t then None else usable X s t' g)" for t' g
    using assms by (auto simp: shredded_def intro: usable_other)
  show "open_node X (usable X s') nid b = (if sealed_by X t b then Inr None else open_node X (usable X s) nid b)"
    "open_edge X (usable X s') cf k b = (if sealed_by X t b then Inr None else open_edge X (usable X s) cf k b)"
    by (cases "parse_envelope X b"; simp add: open_node_def open_edge_def sealed_by_def seal_tag_def u)+
qed

lemma shredded_views:
  assumes "shredded X t s s'"
  shows "node_view X s' nid = Option.bind (rows s NODES (hash_bytes nid))
      (\<lambda>b. if sealed_by X t b then None else readable (open_node X (usable X s) nid b))"
    and "cf \<noteq> KEYS \<Longrightarrow> row_view X s' cf k = Option.bind (rows s cf k)
      (\<lambda>b. if sealed_by X t b then None else readable (open_edge X (usable X s) cf k b))"
proof -
  have rows: "cf \<noteq> KEYS \<Longrightarrow> rows s' cf = rows s cf" for cf using assms by (simp add: shredded_def)
  show "node_view X s' nid = Option.bind (rows s NODES (hash_bytes nid))
      (\<lambda>b. if sealed_by X t b then None else readable (open_node X (usable X s) nid b))"
    by (cases "rows s NODES (hash_bytes nid)") (simp_all add: node_view_def rows shredded_open [OF assms])
  show "row_view X s' cf k = Option.bind (rows s cf k)
      (\<lambda>b. if sealed_by X t b then None else readable (open_edge X (usable X s) cf k b))"
    if "cf \<noteq> KEYS"
    using that by (cases "rows s cf k") (simp_all add: row_view_def rows shredded_open [OF assms])
qed

lemma shredded_mirrored:
  assumes "shredded X t s s'" "mirrored X s e"
  shows "mirrored X s' e"
proof -
  have rows: "cf \<noteq> KEYS \<Longrightarrow> rows s' cf = rows s cf" for cf using assms(1) by (simp add: shredded_def)
  have tags: "map_option (seal_tag X) (rows s EDGES_OUT (edge_key e)) =
      map_option (seal_tag X) (rows s EDGES_IN (in_key e))"
    and views: "row_view X s EDGES_OUT (edge_key e) = row_view X s EDGES_IN (in_key e)"
    using assms(2) by (simp_all add: mirrored_def)
  have "row_view X s' EDGES_OUT (edge_key e) = row_view X s' EDGES_IN (in_key e)"
    using tags views unfolding shredded_views(2) [OF assms(1) KEYS_neq(2)] shredded_views(2) [OF assms(1) KEYS_neq(3)]
    by (cases "rows s EDGES_OUT (edge_key e)"; cases "rows s EDGES_IN (in_key e)")
      (auto simp: sealed_by_def row_view_def)
  with tags show ?thesis by (simp add: mirrored_def rows)
qed

lemma shredded_store_ok:
  assumes ok: "store_ok X s" and sh: "shredded X t s s'"
  shows "store_ok X s'"
proof (rule store_okI)
  have rows: "cf \<noteq> KEYS \<Longrightarrow> rows s' cf = rows s cf" for cf using sh by (simp add: shredded_def)
  note so = shredded_sealed_ok [OF sh] and op = shredded_open [OF sh]
  show "keyring_ok X s'" using sh by (simp add: shredded_def)
  show "node_row_ok X s' k b" if "rows s' NODES k = Some b" for k b
    using store_okD(3) [OF ok, of k b] that so by (auto simp: rows node_row_ok_def op)
  show "edge_row_ok X s' EDGES_OUT edge_key k b" if "rows s' EDGES_OUT k = Some b" for k b
    using store_okD(4) [OF ok, of k b] that so by (auto simp: rows edge_row_ok_def op)
  show "edge_row_ok X s' EDGES_IN in_key k b" if "rows s' EDGES_IN k = Some b" for k b
    using store_okD(5) [OF ok, of k b] that so by (auto simp: rows edge_row_ok_def op)
  show "mirrored X s' e" for e by (rule shredded_mirrored [OF sh store_okD(6) [OF ok]])
qed

text \<open>Shredding a tenant makes everything it sealed unreadable and nothing else: afterwards a
  node, an edge or a meta value whose row the tenant sealed reads as absent (and not as an
  error), every other row reads as before, the row itself still exists, and the answer says
  whether there was a key to destroy. The invariant of the store is kept.\<close>

theorem shred_tenant_erases:
  assumes X: "externals_ok X" and ok: "store_ok X s" and left: "gen_left X s t"
    and run: "shred_tenant X t s = (Inr destroyed, s')"
  shows "store_ok X s' \<and>
    destroyed = (\<exists>e. keyring_at X s t = Some e \<and> kr_key e \<noteq> None) \<and>
    (\<forall>nid row. rows s NODES (hash_bytes nid) = Some row \<longrightarrow> has_node nid s' = Inr True \<and>
       get_node X nid s' = (if sealed_by X t row then Inr None else get_node X nid s)) \<and>
    (\<forall>e row. rows s EDGES_OUT (edge_key e) = Some row \<longrightarrow>
       stored_edge X e s' = (if sealed_by X t row then Inr None else stored_edge X e s))"
proof -
  from shred_tenant_cases [OF X store_okD(1) [OF ok] left run]
  have sh: "shredded X t s s'" and d: "destroyed = (Option.bind (keyring_at X s t) kr_key \<noteq> None)" by auto
  have ok': "store_ok X s'" by (rule shredded_store_ok [OF ok sh])
  have rows: "rows s' NODES = rows s NODES" using sh by (simp add: shredded_def)
  have "has_node nid s' = Inr True \<and>
      get_node X nid s' = (if sealed_by X t row then Inr None else get_node X nid s)"
    if "rows s NODES (hash_bytes nid) = Some row" for nid row
    using that by (simp add: has_node_eq [OF ok'] get_node_eq [OF ok'] get_node_eq [OF ok] rows
        shredded_views(1) [OF sh] node_view_def [of X s])
  moreover have "stored_edge X e s' = (if sealed_by X t row then Inr None else stored_edge X e s)"
    if "rows s EDGES_OUT (edge_key e) = Some row" for e row
    using that by (simp add: stored_edge_eq [OF ok'] stored_edge_eq [OF ok]
        shredded_views(2) [OF sh] row_view_def [of X s])
  moreover have "destroyed = (\<exists>e. keyring_at X s t = Some e \<and> kr_key e \<noteq> None)"
    using d by (cases "keyring_at X s t") auto
  ultimately show ?thesis using ok' by blast
qed

subsection \<open>A sealing store seals\<close>

lemma encode_node_sealed:
  assumes X: "externals_ok X" and ok: "keyring_ok X s" and enc: "ds_encrypt s"
    and run: "encode_node X n s = (Inr b, s')"
  obtains e where "seal_tag X b = Some (tenant_of n, kr_gen e)" "keyring_at X s' (tenant_of n) = Some e"
    "usable X s' (tenant_of n) (kr_gen e) \<noteq> None" "keyring_at X s (tenant_of n) = None \<Longrightarrow> kr_gen e = 1"
proof -
  obtain p where p: "node_to_json X n = Inr p"
    using run by (cases "node_to_json X n") (auto simp: encode_node_def bind_simps)
  obtain q u where q: "ensure_tenant_key X (n_repo n) s = (q, u)" by (cases "ensure_tenant_key X (n_repo n) s")
  obtain g k where gk: "q = Inr (g, k)" "s' = u" "seal X k (n_repo n) g (node_id X n) p = Inr b"
    using run p enc q by (auto simp: encode_node_def bind_simps sbind_def split: sum.splits)
  obtain env where "parse_envelope X b = Some env" "env_tenant env = n_repo n" "env_kgen env = g"
    by (rule seal_opens [OF X gk(3)])
  then have tag: "seal_tag X b = Some (n_repo n, g)" by (simp add: seal_tag_def)
  obtain e where e: "keyring_at X u (n_repo n) = Some e" "kr_gen e = g" "usable X u (n_repo n) g = Some k"
    using ensure_tenant_key_cases [OF X ok q] gk(1) by blast
  have "g = 1" if "keyring_at X s (n_repo n) = None"
    using q gk(1) that
    by (auto simp: ensure_tenant_key_def bind_simps keyring_entry_of_eq [OF ok] sbind_def
        split: prod.splits sum.splits)
  with tag e gk(2) show ?thesis by (intro that [of e]) simp_all
qed

text \<open>In a sealing store no node row is plaintext: the row a successful \<^verbatim>\<open>put_node\<close> leaves is an
  envelope of the node's tenant under its current key generation, and once that tenant is
  shredded the node reads as absent.\<close>

theorem sealed_put_then_shred:
  assumes X: "externals_ok X" and ok: "store_ok X s" and enc: "ds_encrypt s" and safe: "json_safe n"
    and put: "put_node X n s = (Inr nid, s\<^sub>1)" and left: "gen_left X s\<^sub>1 (n_repo n)"
    and shred: "shred_tenant X (n_repo n) s\<^sub>1 = (Inr destroyed, s\<^sub>2)"
  shows "\<exists>row e. rows s\<^sub>1 NODES (hash_bytes nid) = Some row \<and> keyring_at X s\<^sub>1 (n_repo n) = Some e \<and>
    seal_tag X row = Some (n_repo n, kr_gen e) \<and>
    get_node X nid s\<^sub>1 = Inr (Some n) \<and> destroyed \<and> get_node X nid s\<^sub>2 = Inr None"
proof -
  obtain b q where q: "encode_node X n s = (Inr b, q)"
      "kv_wr (kv_put NODES (hash_bytes (node_id X n)) b) q = (Inr (), s\<^sub>1)" "nid = node_id X n"
    using put by (auto simp: put_node_def sbind_Inr_iff)
  obtain e where e: "seal_tag X b = Some (n_repo n, kr_gen e)" "keyring_at X q (n_repo n) = Some e"
      "usable X q (n_repo n) (kr_gen e) \<noteq> None"
    by (rule encode_node_sealed [OF X store_okD(1) [OF ok] enc q(1)]) (rule that)
  have "kv_live (ds_kv q)"
    by (rule keyring_ok_live [OF keys_grow_ok [OF encode_node_cases(1) [OF X store_okD(1) [OF ok] q(1)]]])
  then obtain v where "kv_wr (kv_put NODES (hash_bytes (node_id X n)) b) q = (Inr (), v)"
      "rows v = (rows q)(NODES := (rows q NODES)(hash_bytes (node_id X n) \<mapsto> b))"
    by (rule kv_wr_put)
  then have row: "rows s\<^sub>1 NODES (hash_bytes nid) = Some b" and keys: "rows s\<^sub>1 KEYS = rows q KEYS"
    using q(2,3) by simp_all
  from put_node_effect [OF X ok safe put] have eff: "effect X s s\<^sub>1 [INode n]" by auto
  note ok1 = effect_ok [OF eff]
  from shred_tenant_cases [OF X store_okD(1) [OF ok1] left shred]
  have sh: "shredded X (n_repo n) s\<^sub>1 s\<^sub>2"
    and d: "destroyed = (Option.bind (keyring_at X s\<^sub>1 (n_repo n)) kr_key \<noteq> None)" by auto
  have at: "keyring_at X s\<^sub>1 (n_repo n) = Some e" using e(2) same_keys(1) [OF keys, of X] by simp
  have "kr_key e \<noteq> None" using e(2,3) by (cases "kr_key e") (auto simp: usable_def key_bytes_def)
  then have destroyed using d at by simp
  moreover have "get_node X nid s\<^sub>1 = Inr (Some n)"
    using eff q(3) by (simp add: get_node_eq [OF ok1] effect_def)
  moreover have "get_node X nid s\<^sub>2 = Inr None"
    using row e(1) by (simp add: get_node_eq [OF shredded_store_ok [OF ok1 sh]] shredded_views(1) [OF sh] sealed_by_def)
  ultimately show ?thesis using row at e(1) by blast
qed

lemma shred_total:
  assumes "externals_total X" "keyring_ok X s"
  shows "\<exists>d s'. shred_tenant X t s = (Inr d, s')"
proof (cases "keyring_at X s t")
  case None
  with assms(2) have "shred_tenant X t s = (Inr False, s)"
    by (simp add: shred_tenant_def bind_simps keyring_entry_of_eq)
  then show ?thesis by blast
next
  case (Some e)
  obtain s' where "put_keyring_entry X t \<lparr>kr_gen = kr_gen e, kr_key = None\<rparr> s = (Inr (), s')"
    using put_keyring_entry_total [OF assms] by blast
  with Some assms(2) show ?thesis by (simp add: shred_tenant_def bind_simps keyring_entry_of_eq sbind_def)
qed

text \<open>The sample node in a sealing store, its row, and the shredded store.\<close>

lemma sample_shred:
  obtains s\<^sub>1 d s\<^sub>2 row e where
    "put_node ideal_externals sample_node (new_encrypted kv_new) = (Inr (node_id ideal_externals sample_node), s\<^sub>1)"
    "store_ok ideal_externals s\<^sub>1" "gen_left ideal_externals s\<^sub>1 (n_repo sample_node)"
    "shred_tenant ideal_externals (n_repo sample_node) s\<^sub>1 = (Inr d, s\<^sub>2)"
    "rows s\<^sub>1 NODES (hash_bytes (node_id ideal_externals sample_node)) = Some row"
    "seal_tag ideal_externals row = Some (n_repo sample_node, kr_gen e)"
    "keyring_at ideal_externals s\<^sub>1 (n_repo sample_node) = Some e"
proof -
  let ?X = ideal_externals and ?t = "n_repo sample_node" and ?s = "new_encrypted kv_new"
  note X = ideal_externals_ok and ok = new_encrypted_store_ok [of ideal_externals]
  obtain s\<^sub>1 where s1: "put_node ?X sample_node ?s = (Inr (node_id ?X sample_node), s\<^sub>1)"
      "effect ?X ?s s\<^sub>1 [INode sample_node]"
    by (rule put_fresh [OF ok sample_node_safe])
  obtain b q where q: "encode_node ?X sample_node ?s = (Inr b, q)"
      "kv_wr (kv_put NODES (hash_bytes (node_id ?X sample_node)) b) q = (Inr (), s\<^sub>1)"
    using s1(1) by (auto simp: put_node_def sbind_Inr_iff)
  have "ds_encrypt ?s" and none: "keyring_at ?X ?s ?t = None"
    by (simp_all add: new_encrypted_def keyring_at_def)
  then obtain e where e: "seal_tag ?X b = Some (?t, kr_gen e)" "keyring_at ?X q ?t = Some e" "kr_gen e = 1"
    using encode_node_sealed [OF X store_okD(1) [OF ok] _ q(1)] by metis
  have "kv_live (ds_kv q)"
    by (rule keyring_ok_live [OF keys_grow_ok [OF encode_node_cases(1) [OF X store_okD(1) [OF ok] q(1)]]])
  then obtain v where "kv_wr (kv_put NODES (hash_bytes (node_id ?X sample_node)) b) q = (Inr (), v)"
      "rows v = (rows q)(NODES := (rows q NODES)(hash_bytes (node_id ?X sample_node) \<mapsto> b))"
    by (rule kv_wr_put)
  then have row: "rows s\<^sub>1 NODES (hash_bytes (node_id ?X sample_node)) = Some b"
    and at: "keyring_at ?X s\<^sub>1 ?t = Some e"
    using q(2) e(2) same_keys(1) [of s\<^sub>1 q ?X] by simp_all
  have left: "gen_left ?X s\<^sub>1 ?t" using at e(3) by (simp add: gen_left_def)
  obtain d s\<^sub>2 where "shred_tenant ?X ?t s\<^sub>1 = (Inr d, s\<^sub>2)"
    using shred_total [OF ideal_externals_total store_okD(1) [OF effect_ok [OF s1(2)]]] by blast
  from that [OF s1(1) effect_ok [OF s1(2)] left this row e(1) at] show thesis .
qed

text \<open>At the sample node in a sealing store.\<close>

theorem sealed_put_then_shred_witness:
  "\<exists>nid s\<^sub>1 s\<^sub>2 d. put_node ideal_externals sample_node (new_encrypted kv_new) = (Inr nid, s\<^sub>1) \<and>
     shred_tenant ideal_externals (n_repo sample_node) s\<^sub>1 = (Inr d, s\<^sub>2) \<and>
     get_node ideal_externals nid s\<^sub>1 = Inr (Some sample_node) \<and> get_node ideal_externals nid s\<^sub>2 = Inr None"
proof (rule sample_shred)
  fix s\<^sub>1 d s\<^sub>2
  assume s: "put_node ideal_externals sample_node (new_encrypted kv_new) = (Inr (node_id ideal_externals sample_node), s\<^sub>1)"
    "gen_left ideal_externals s\<^sub>1 (n_repo sample_node)"
    "shred_tenant ideal_externals (n_repo sample_node) s\<^sub>1 = (Inr d, s\<^sub>2)"
  have "ds_encrypt (new_encrypted kv_new)" by (simp add: new_encrypted_def)
  from sealed_put_then_shred [OF ideal_externals_ok new_encrypted_store_ok this sample_node_safe s] s
  show ?thesis by blast
qed

text \<open>At the sample node.\<close>

theorem shred_tenant_erases_witness:
  "\<exists>s s' d. shred_tenant ideal_externals (n_repo sample_node) s = (Inr d, s') \<and>
     has_node (node_id ideal_externals sample_node) s' = Inr True \<and>
     get_node ideal_externals (node_id ideal_externals sample_node) s' = Inr None"
proof (rule sample_shred)
  fix s\<^sub>1 d s\<^sub>2 row e
  assume ok: "store_ok ideal_externals s\<^sub>1" and left: "gen_left ideal_externals s\<^sub>1 (n_repo sample_node)"
    and run: "shred_tenant ideal_externals (n_repo sample_node) s\<^sub>1 = (Inr d, s\<^sub>2)"
    and row: "rows s\<^sub>1 NODES (hash_bytes (node_id ideal_externals sample_node)) = Some row"
      "seal_tag ideal_externals row = Some (n_repo sample_node, kr_gen e)"
  have "sealed_by ideal_externals (n_repo sample_node) row" using row(2) by (simp add: sealed_by_def)
  with shred_tenant_erases [OF ideal_externals_ok ok left run] row(1) run show ?thesis by metis
qed

section \<open>Operational meta\<close>

lemma meta_frame:
  assumes ok: "store_ok X s" and live: "kv_live (ds_kv s')" and enc: "ds_encrypt s' = ds_encrypt s"
    and r: "\<And>cf. cf \<noteq> META \<Longrightarrow> rows s' cf = rows s cf"
  shows "effect X s s' []"
proof -
  have keys: "rows s' KEYS = rows s KEYS" by (simp add: r)
  note same = same_keys [OF keys] row_ok_same [OF keys]
  have views: "node_view X s' = node_view X s" "cf \<noteq> META \<Longrightarrow> row_view X s' cf = row_view X s cf" for cf
    by (simp_all add: node_view_def row_view_def r same fun_eq_iff)
  have "store_ok X s'"
  proof (rule store_okI)
    show "keyring_ok X s'" using store_okD(1) [OF ok] live keys by (rule keyring_ok_same)
    show "mirrored X s' e" for e
      using store_okD(6) [OF ok, of e] by (simp add: mirrored_def views r)
  qed (use store_okD(3-5) [OF ok] in \<open>simp_all add: same r\<close>)
  then show ?thesis
    using retired_same [OF keys] by (simp add: effect_def views enc present_def r)
qed

lemma kv_put_meta_effect:
  assumes ok: "store_ok X s" and run: "kv_wr (kv_put META k b) s = (r, s')"
  shows "r = Inr () \<and> effect X s s' [] \<and> rows s' META k = Some b \<and> rows s' KEYS = rows s KEYS"
proof -
  obtain q where q: "kv_wr (kv_put META k b) s = (Inr (), q)" "kv_live (ds_kv q)"
      "rows q = (rows s)(META := (rows s META)(k \<mapsto> b))" "ds_encrypt q = ds_encrypt s"
    by (rule kv_wr_put [OF store_okD(2) [OF ok]])
  then have "effect X s q []" by (intro meta_frame [OF ok]) simp_all
  with q run show ?thesis by simp
qed

text \<open>The value \<^verbatim>\<open>put_meta\<close> stores, and the keyring step it takes for it.\<close>

definition meta_encode :: "externals \<Rightarrow> string \<Rightarrow> bytes \<Rightarrow> bytes \<Rightarrow> bytes writer" where
  "meta_encode X t k v s =
     (if ds_encrypt s then
        sbind (ensure_tenant_key X t) (\<lambda>(gen, master). slift (seal_at X master t gen META k v)) s
      else sok v s)"

lemma put_meta_eq: "put_meta X t k v = sbind (meta_encode X t k v) (\<lambda>b. kv_wr (kv_put META k b))"
  by (simp add: put_meta_def meta_encode_def [abs_def])

definition meta_view :: "externals \<Rightarrow> (string \<Rightarrow> u32 \<Rightarrow> key256 option) \<Rightarrow> bytes \<Rightarrow> bytes \<Rightarrow> (store_error, bytes option) result" where
  "meta_view X u k b =
     (case parse_envelope X b of
        None \<Rightarrow> Inr (Some b)
      | Some env \<Rightarrow> (case u (env_tenant env) (env_kgen env) of
          None \<Rightarrow> Inr None
        | Some master \<Rightarrow> rbind (open_at X master env META k) (\<lambda>p. Inr (Some p))))"

lemma get_meta_eq:
  assumes ok: "keyring_ok X s"
  shows "get_meta X k s = (case rows s META k of None \<Rightarrow> Inr None | Some b \<Rightarrow> meta_view X (usable X s) k b)"
proof (cases "rows s META k")
  case None
  with ok show ?thesis by (simp add: get_meta_def)
next
  case (Some b)
  show ?thesis
  proof (cases "parse_envelope X b")
    case None
    with Some ok show ?thesis by (simp add: get_meta_def meta_view_def)
  next
    case env: (Some env)
    show ?thesis
    proof (cases "keyring_at X s (env_tenant env)")
      case None
      with Some env ok show ?thesis
        by (simp add: get_meta_def meta_view_def keyring_entry_of_eq usable_def)
    next
      case kr: (Some e)
      with ok obtain m where "key_bytes X e = Inr m" by (rule keyring_at_ok)
      with kr Some env ok show ?thesis
        by (cases m) (simp_all add: get_meta_def meta_view_def keyring_entry_of_eq usable_def)
    qed
  qed
qed

lemma meta_encode_cases:
  assumes X: "externals_ok X" and ok: "keyring_ok X s" and run: "meta_encode X t k v s = (r, s')"
  shows "keys_grow X s s'"
    and "r = Inr b \<Longrightarrow> ds_encrypt s \<or> parse_envelope X v = None \<Longrightarrow> meta_view X (usable X s') k b = Inr (Some v)"
proof -
  have "keys_grow X s s' \<and> (\<forall>b. r = Inr b \<longrightarrow> ds_encrypt s \<or> parse_envelope X v = None \<longrightarrow>
      meta_view X (usable X s') k b = Inr (Some v))"
  proof (cases "ds_encrypt s")
    case False
    with run ok show ?thesis by (auto simp: meta_encode_def meta_view_def)
  next
    case True
    obtain q u where q: "ensure_tenant_key X t s = (q, u)" by (cases "ensure_tenant_key X t s")
    note key = ensure_tenant_key_cases [OF X ok q]
    show ?thesis
    proof (cases q)
      case (Inl m)
      with run True q key show ?thesis by (auto simp: meta_encode_def sbind_def)
    next
      case (Inr gk)
      obtain g m where gk: "gk = (g, m)" by (cases gk)
      have r: "s' = u" "r = seal_at X m t g META k v"
        using run True q Inr gk by (auto simp: meta_encode_def sbind_def)
      have "meta_view X (usable X u) k b = Inr (Some v)" if b: "r = Inr b" for b
      proof -
        obtain env where "parse_envelope X b = Some env" "env_tenant env = t" "env_kgen env = g"
            "open_at X m env META k = Inr v"
          by (rule seal_at_opens [OF X b [unfolded r(2)]])
        with key Inr gk show ?thesis by (simp add: meta_view_def)
      qed
      with key r(1) show ?thesis by blast
    qed
  qed
  then show "keys_grow X s s'" "r = Inr b \<Longrightarrow> ds_encrypt s \<or> parse_envelope X v = None \<Longrightarrow>
      meta_view X (usable X s') k b = Inr (Some v)"
    by blast+
qed

lemma put_meta_effect:
  assumes X: "externals_ok X" and ok: "store_ok X s" and run: "put_meta X t k v s = (r, s')"
  shows "effect X s s' [] \<and>
    (r = Inr () \<longrightarrow> ds_encrypt s \<or> parse_envelope X v = None \<longrightarrow> get_meta X k s' = Inr (Some v))"
proof -
  obtain q u where q: "meta_encode X t k v s = (q, u)" by (cases "meta_encode X t k v s")
  note enc = meta_encode_cases [OF X store_okD(1) [OF ok] q]
  have u: "effect X s u []" by (rule effect_grow [OF ok enc(1)])
  show ?thesis
  proof (cases q)
    case (Inl m)
    with run q u show ?thesis by (auto simp: put_meta_eq sbind_def)
  next
    case (Inr b)
    then have wr: "kv_wr (kv_put META k b) u = (r, s')" using run q by (simp add: put_meta_eq sbind_def)
    note w = kv_put_meta_effect [OF effect_ok [OF u] wr]
    then have eff: "effect X s s' []" using effect_trans [OF u, of s' "[]"] by simp
    have "usable X s' = usable X u" using w same_keys(2) [of s' u X] by blast
    with w enc(2) [OF Inr] get_meta_eq [OF store_okD(1) [OF effect_ok [OF eff]], of k] eff
    show ?thesis by simp
  qed
qed

text \<open>Meta slots are independent: a write to one leaves what the others read as.\<close>

definition meta_ok :: "externals \<Rightarrow> dag_store \<Rightarrow> bool" where
  "meta_ok X s \<longleftrightarrow> (\<forall>k b. rows s META k = Some b \<longrightarrow> sealed_ok X s b)"

lemma meta_encode_sealed:
  assumes X: "externals_ok X" and ok: "keyring_ok X s" and run: "meta_encode X t k v s = (Inr b, u)"
    and v: "ds_encrypt s \<or> parse_envelope X v = None"
  shows "sealed_ok X u b"
proof (cases "ds_encrypt s")
  case False
  with run v show ?thesis by (auto simp: meta_encode_def sealed_ok_def seal_tag_def)
next
  case True
  with run obtain g m where q: "ensure_tenant_key X t s = (Inr (g, m), u)" "seal_at X m t g META k v = Inr b"
    by (auto simp: meta_encode_def sbind_Inr_iff)
  obtain env where env: "parse_envelope X b = Some env" "env_tenant env = t" "env_kgen env = g"
    by (rule seal_at_opens [OF X q(2)])
  from ensure_tenant_key_cases [OF X ok q(1)] obtain e where "keyring_at X u t = Some e" "kr_gen e = g" by auto
  with env show ?thesis by (auto simp: sealed_ok_def seal_tag_def)
qed

lemma meta_view_grow:
  "keys_grow X s u \<Longrightarrow> sealed_ok X s b \<Longrightarrow> meta_view X (usable X u) k b = meta_view X (usable X s) k b"
  by (cases "parse_envelope X b") (auto simp: meta_view_def usable_grow)

lemma put_meta_other:
  assumes X: "externals_ok X" and ok: "store_ok X s" and m: "meta_ok X s"
    and v: "ds_encrypt s \<or> parse_envelope X v = None" and run: "put_meta X t k v s = (Inr (), s')"
  shows "meta_ok X s'" and "k' \<noteq> k \<Longrightarrow> get_meta X k' s' = get_meta X k' s"
proof -
  from run obtain b u where enc: "meta_encode X t k v s = (Inr b, u)" and wr: "kv_wr (kv_put META k b) u = (Inr (), s')"
    by (auto simp: put_meta_eq sbind_Inr_iff)
  have g: "keys_grow X s u" by (rule meta_encode_cases(1) [OF X store_okD(1) [OF ok] enc])
  have oku: "store_ok X u" by (rule store_ok_grow [OF ok g])
  obtain q where q: "kv_wr (kv_put META k b) u = (Inr (), q)" "rows q = (rows u)(META := (rows u META)(k \<mapsto> b))"
    by (rule kv_wr_put [OF store_okD(2) [OF oku], of META k b]) (rule that)
  then have rows: "rows s' = (rows u)(META := (rows u META)(k \<mapsto> b))" using wr by simp
  have keys: "rows s' KEYS = rows u KEYS" by (simp add: rows)
  have meta: "rows u META = rows s META" using g by (simp add: keys_grow_def)
  have sb: "sealed_ok X u b" by (rule meta_encode_sealed [OF X store_okD(1) [OF ok] enc v])
  have old: "sealed_ok X u c" if "rows s META j = Some c" for j c
    using sealed_ok_grow [OF g] m that by (auto simp: meta_ok_def)
  show "meta_ok X s'"
    using sb old by (auto simp: meta_ok_def rows meta same_keys(3) [OF keys] split: if_splits)
  show "get_meta X k' s' = get_meta X k' s" if "k' \<noteq> k"
  proof -
    have ok': "keyring_ok X s'"
      by (rule store_okD(1) [OF effect_ok [OF conjunct1 [OF put_meta_effect [OF X ok run]]]])
    have "meta_view X (usable X s') k' c = meta_view X (usable X s) k' c" if "rows s META k' = Some c" for c
      using meta_view_grow [OF g, of c k'] m that same_keys(2) [OF keys] by (simp add: meta_ok_def)
    then show ?thesis
      using \<open>k' \<noteq> k\<close> by (simp add: get_meta_eq [OF ok'] get_meta_eq [OF store_okD(1) [OF ok]] rows meta split: option.split)
  qed
qed

text \<open>A meta value reads back as it was written, in a sealing store and in a plaintext one;
  the one exception, which the hypothesis names, is a plaintext store and a value that
  itself parses as an envelope. Nodes and edges are untouched.\<close>

theorem put_meta_get_meta:
  assumes "externals_ok X" "store_ok X s" "put_meta X t k v s = (Inr (), s')"
    and "ds_encrypt s \<or> parse_envelope X v = None"
  shows "get_meta X k s' = Inr (Some v) \<and> abs_dag X s' = abs_dag X s \<and> store_ok X s'"
  using put_meta_effect [OF assms(1-3)] assms(4) by (auto simp: effect_nil_abs effect_ok)

lemma put_meta_total:
  assumes X: "externals_ok X" "externals_total X" and ok: "store_ok X s"
  shows "\<exists>s'. put_meta X t k v s = (Inr (), s')"
proof -
  obtain g m q where q: "ensure_tenant_key X t s = (Inr (g, m), q)"
    using ensure_tenant_key_total [OF X store_okD(1) [OF ok]] by (metis surj_pair)
  obtain b where "seal_at X m t g META k v = Inr b" using seal_total(2) [OF X(2)] by blast
  with q have "\<exists>b u. meta_encode X t k v s = (Inr b, u)"
    by (cases "ds_encrypt s") (simp_all add: meta_encode_def sbind_def)
  then obtain b u where u: "meta_encode X t k v s = (Inr b, u)" by blast
  have "kv_live (ds_kv u)"
    by (rule keyring_ok_live [OF keys_grow_ok [OF meta_encode_cases(1) [OF X(1) store_okD(1) [OF ok] u]]])
  then obtain s' where "kv_wr (kv_put META k b) u = (Inr (), s')" by (rule kv_wr_put)
  with u show ?thesis by (simp add: put_meta_eq sbind_def)
qed

text \<open>At a value written into an empty sealing store.\<close>

theorem put_meta_get_meta_witness:
  "\<exists>s'. put_meta ideal_externals ''acme'' [1] [2, 3] (new_encrypted kv_new) = (Inr (), s') \<and>
     get_meta ideal_externals [1] s' = Inr (Some [2, 3])"
proof -
  obtain s' where run: "put_meta ideal_externals ''acme'' [1] [2, 3] (new_encrypted kv_new) = (Inr (), s')"
    using put_meta_total [OF ideal_externals_ok ideal_externals_total new_encrypted_store_ok] by blast
  have "ds_encrypt (new_encrypted kv_new) \<or> parse_envelope ideal_externals [2, 3] = None"
    by (simp add: new_encrypted_def)
  from put_meta_get_meta [OF ideal_externals_ok new_encrypted_store_ok run this] run show ?thesis by blast
qed

section \<open>Erasure is permanent\<close>

text \<open>Every writing operation of the store, successful or not.\<close>

inductive store_step :: "externals \<Rightarrow> dag_store \<Rightarrow> dag_store \<Rightarrow> bool" for X where
  put: "json_safe n \<Longrightarrow> put_node X n s = (r, s') \<Longrightarrow> store_step X s s'"
| link: "add_edge X e s = (r, s') \<Longrightarrow> store_step X s s'"
| batch: "\<forall>n \<in> set ns. json_safe n \<Longrightarrow> commit X ns es s = (r, s') \<Longrightarrow> store_step X s s'"
| supersede: "apply_supersession X e s = (r, s') \<Longrightarrow> store_step X s s'"
| confirm: "confirm_edge X a b k now s = (r, s') \<Longrightarrow> store_step X s s'"
| restatus: "set_node_status X nid st vt s = (r, s') \<Longrightarrow> store_step X s s'"
| meta: "put_meta X t key v s = (r, s') \<Longrightarrow> store_step X s s'"
| shred: "gen_left X s t \<Longrightarrow> shred_tenant X t s = (r, s') \<Longrightarrow> store_step X s s'"

lemma shredded_retired:
  assumes "shredded X t s s'" "retired X s u g"
  shows "retired X s' u g"
proof (cases "u = t")
  case True
  from assms(2) obtain e where "keyring_at X s u = Some e" "g \<le> kr_gen e" by (auto simp: retired_def)
  moreover from this True assms(1) have "map_option kr_gen (keyring_at X s' t) = Some (kr_gen e)"
    by (simp add: shredded_def)
  moreover from assms(1) have "usable X s' t g = None" by (simp add: shredded_def)
  ultimately show ?thesis using True by (auto simp: retired_def)
next
  case False
  with assms(1) have at: "keyring_at X s' u = keyring_at X s u" by (simp add: shredded_def)
  from assms(2) show ?thesis by (simp add: retired_def at usable_other [OF at])
qed

lemma effect_step:
  "effect X s s' its \<Longrightarrow> store_ok X s' \<and> (\<forall>t g. retired X s t g \<longrightarrow> retired X s' t g)"
  by (simp add: effect_def)

lemma store_step_effect:
  assumes X: "externals_ok X" and ok: "store_ok X s" and step: "store_step X s s'"
  shows "(\<exists>its. effect X s s' its) \<or> (\<exists>t. shredded X t s s')"
  using step
proof cases
  case (put n r)
  from put_node_effect [OF X ok put] show ?thesis by blast
next
  case (link e r)
  from add_edge_some_effect [OF X ok link] show ?thesis ..
next
  case (batch ns es r)
  from commit_effect [OF X ok batch] show ?thesis by blast
next
  case (supersede e r)
  from apply_supersession_some_effect [OF X ok supersede] show ?thesis ..
next
  case (confirm a b k now r)
  from confirm_edge_some_effect [OF X ok confirm] show ?thesis ..
next
  case (restatus nid st vt r)
  from set_node_status_effect [OF X ok restatus] effect_refl [OF ok] show ?thesis by (elim disjE exE conjE) (simp_all, blast+)
next
  case (meta t key v r)
  from put_meta_effect [OF X ok meta] show ?thesis by blast
next
  case (shred t r)
  from shred_tenant_cases [OF X store_okD(1) [OF ok] shred] effect_refl [OF ok] show ?thesis by blast
qed

lemma store_step_keeps:
  assumes X: "externals_ok X" and ok: "store_ok X s" and step: "store_step X s s'"
  shows "store_ok X s' \<and> (\<forall>t g. retired X s t g \<longrightarrow> retired X s' t g)"
  using store_step_effect [OF assms]
proof
  assume "\<exists>its. effect X s s' its"
  then show ?thesis by (auto dest: effect_step)
next
  assume "\<exists>t. shredded X t s s'"
  then obtain t where sh: "shredded X t s s'" ..
  show ?thesis using shredded_store_ok [OF ok sh] shredded_retired [OF sh] by simp
qed

lemma store_run_keeps:
  assumes X: "externals_ok X" and run: "(store_step X)\<^sup>*\<^sup>* s s'" and ok: "store_ok X s"
  shows "store_ok X s' \<and> (\<forall>t g. retired X s t g \<longrightarrow> retired X s' t g)"
  using run
proof (induction rule: rtranclp_induct)
  case base
  show ?case using ok by simp
next
  case (step u v)
  with store_step_keeps [OF X] show ?case by blast
qed

lemma retired_unreadable:
  assumes "retired X s t g" "seal_tag X b = Some (t, g)"
  shows "open_node X (usable X s) nid b = Inr None" "open_edge X (usable X s) cf k b = Inr None"
    "meta_view X (usable X s) k b = Inr None"
  using assms by (auto simp: retired_def seal_tag_def open_node_def open_edge_def meta_view_def)

text \<open>C2. Erasure is permanent: once a tenant is shredded, every node and edge row it sealed up to
  then decodes as absent in every later state, after any sequence of writes, new keys for
  the same tenant, confirmations and further shreddings, wherever the row is kept and
  whichever key cache a scan starts from. The invariant of the store holds throughout.\<close>

theorem erasure_is_permanent:
  assumes X: "externals_ok X" and ok: "store_ok X s" and left: "gen_left X s t"
    and shred: "shred_tenant X t s = (Inr destroyed, s\<^sub>1)" and run: "(store_step X)\<^sup>*\<^sup>* s\<^sub>1 s\<^sub>2"
    and sealed: "seal_tag X row = Some (t, g)" "keyring_at X s t = Some e" "g \<le> kr_gen e"
  shows "store_ok X s\<^sub>2 \<and> decode_node X nid row s\<^sub>2 = Inr None \<and>
    (\<exists>keys. decode_edge X cf k row Map.empty s\<^sub>2 = Inr (None, keys)) \<and>
    (rows s\<^sub>2 META k = Some row \<longrightarrow> get_meta X k s\<^sub>2 = Inr None)"
proof -
  from shred_tenant_cases [OF X store_okD(1) [OF ok] left shred] have sh: "shredded X t s s\<^sub>1" by auto
  have ok1: "store_ok X s\<^sub>1" by (rule shredded_store_ok [OF ok sh])
  from sh sealed(2) have "map_option kr_gen (keyring_at X s\<^sub>1 t) = Some (kr_gen e)" "usable X s\<^sub>1 t g = None"
    by (simp_all add: shredded_def)
  with sealed(3) have "retired X s\<^sub>1 t g" by (auto simp: retired_def)
  with store_run_keeps [OF X run ok1] have ok2: "store_ok X s\<^sub>2" and ret: "retired X s\<^sub>2 t g" by auto
  note kr = store_okD(1) [OF ok2] and gone = retired_unreadable [OF ret sealed(1)]
  have "decode_node X nid row s\<^sub>2 = Inr None" by (simp add: decode_node_eq [OF kr] gone)
  moreover have "\<exists>keys. decode_edge X cf k row Map.empty s\<^sub>2 = Inr (None, keys)"
    by (rule decode_edge_eq [OF kr cache_ok_empty, of cf k row]) (simp add: gone)
  moreover have "rows s\<^sub>2 META k = Some row \<longrightarrow> get_meta X k s\<^sub>2 = Inr None"
    by (simp add: get_meta_eq [OF kr] gone)
  ultimately show ?thesis using ok2 by blast
qed

text \<open>C2, at the sample node, after the tenant was given a new key by a second write.\<close>

theorem erasure_is_permanent_witness:
  "\<exists>s\<^sub>1 d s\<^sub>2 s\<^sub>3 r row. shred_tenant ideal_externals (n_repo sample_node) s\<^sub>1 = (Inr d, s\<^sub>2) \<and>
     put_node ideal_externals newer_node s\<^sub>2 = (r, s\<^sub>3) \<and>
     rows s\<^sub>1 NODES (hash_bytes (node_id ideal_externals sample_node)) = Some row \<and>
     decode_node ideal_externals (node_id ideal_externals sample_node) row s\<^sub>3 = Inr None"
proof (rule sample_shred)
  fix s\<^sub>1 d s\<^sub>2 row e
  assume ok: "store_ok ideal_externals s\<^sub>1" and left: "gen_left ideal_externals s\<^sub>1 (n_repo sample_node)"
    and run: "shred_tenant ideal_externals (n_repo sample_node) s\<^sub>1 = (Inr d, s\<^sub>2)"
    and row: "rows s\<^sub>1 NODES (hash_bytes (node_id ideal_externals sample_node)) = Some row"
      "seal_tag ideal_externals row = Some (n_repo sample_node, kr_gen e)"
      "keyring_at ideal_externals s\<^sub>1 (n_repo sample_node) = Some e"
  obtain r s\<^sub>3 where put: "put_node ideal_externals newer_node s\<^sub>2 = (r, s\<^sub>3)"
    by (cases "put_node ideal_externals newer_node s\<^sub>2")
  have "json_safe newer_node" by (simp add: newer_node_def json_safe_def sample_node_def)
  from store_step.put [OF this put] have "(store_step ideal_externals)\<^sup>*\<^sup>* s\<^sub>2 s\<^sub>3" by (rule r_into_rtranclp)
  note erasure_is_permanent [OF ideal_externals_ok ok left run this row(2,3) order.refl, THEN conjunct2, THEN conjunct1]
  with run put row(1) show ?thesis by blast
qed

section \<open>Moved and altered rows\<close>

text \<open>What an authenticated cipher promises about associated data: a ciphertext does not open
  under any other.\<close>

definition aead_binds :: "externals \<Rightarrow> bool" where
  "aead_binds X \<longleftrightarrow> (\<forall>k n a a' m c. aead_encrypt X k n a m = Some c \<and> a' \<noteq> a \<longrightarrow> aead_decrypt X k n a' c = None)"

definition tamper_error :: store_error where
  "tamper_error = Crypto ''decryption failed: tampered, swapped, or wrong key''"

lemma sealed_elsewhere:
  assumes X: "externals_ok X" "aead_binds X" and len: "length nonce = NONCE_LEN"
    and "aead_encrypt X (cipher X master) nonce a p = Some ct" "a' \<noteq> a"
    and "env_nonce env = hex_encode X nonce" "env_ct env = hex_encode X ct"
  shows "open_with_aad X master env a' = Inl tamper_error"
proof -
  have "aead_decrypt X (cipher X master) nonce a' ct = None" using assms unfolding aead_binds_def by blast
  then show ?thesis
    using assms externals_okD(1) [OF X(1)] by (simp add: open_with_aad_def tamper_error_def)
qed

lemma nonce_length: "externals_ok X \<Longrightarrow> length (derive_nonce_parts X m parts p) = NONCE_LEN"
  by (simp add: derive_nonce_parts_def externals_okD(2))

text \<open>A sealed row that is moved to another slot is a hard error there, never another
  node's content and never silently absent: while the tenant's key is live, decoding a node
  row under any id but its own, or an adjacency row under any other column family or key,
  fails with the tampering error.\<close>

theorem moved_row_is_refused:
  assumes X: "externals_ok X" "aead_binds X" and ok: "keyring_ok X s"
    and key: "usable X s t g = Some master" and tn: "nul_free t" "nul_free cf" "nul_free cf'"
  shows "(seal X master t g nid p = Inr row \<and> nid' \<noteq> nid \<longrightarrow>
      decode_node X nid' row s = Inl tamper_error) \<and>
    (seal_at X master t g cf k p = Inr row \<and> (cf', k') \<noteq> (cf, k) \<longrightarrow>
      decode_edge X cf' k' row Map.empty s = Inl tamper_error)"
proof (intro conjI impI; elim conjE)
  assume row: "seal X master t g nid p = Inr row" and ne: "nid' \<noteq> nid"
  let ?nonce = "derive_nonce X master nid p"
  from row obtain ct where ct: "aead_encrypt X (cipher X master) ?nonce (aad t nid) p = Some ct"
    and j: "envelope_to_json X \<lparr>env_enc = 1, env_tenant = t, env_kgen = g,
        env_nonce = hex_encode X ?nonce, env_ct = hex_encode X ct\<rparr> = Inr row"
    by (auto simp: seal_def Let_def)
  have ne': "aad t nid' \<noteq> aad t nid" using ne by (simp add: aad_def)
  have "open_env X master \<lparr>env_enc = 1, env_tenant = t, env_kgen = g,
      env_nonce = hex_encode X ?nonce, env_ct = hex_encode X ct\<rparr> nid' = Inl tamper_error"
    unfolding open_env_def
    by (rule sealed_elsewhere [OF X _ ct]) (simp_all add: ne' derive_nonce_def nonce_length [OF X(1)])
  with externals_okD(6) [OF X(1) j] key show "decode_node X nid' row s = Inl tamper_error"
    by (simp add: decode_node_eq [OF ok] open_node_def parse_envelope_def)
next
  assume row: "seal_at X master t g cf k p = Inr row" and ne: "(cf', k') \<noteq> (cf, k)"
  let ?nonce = "derive_nonce_parts X master [as_bytes cf, [0], k] p"
  from row obtain ct where ct: "aead_encrypt X (cipher X master) ?nonce (aad_at t cf k) p = Some ct"
    and j: "envelope_to_json X \<lparr>env_enc = 1, env_tenant = t, env_kgen = g,
        env_nonce = hex_encode X ?nonce, env_ct = hex_encode X ct\<rparr> = Inr row"
    by (auto simp: seal_at_def Let_def)
  have ne': "aad_at t cf' k' \<noteq> aad_at t cf k"
    using ne tn by (auto simp: aad_at_def nul_free_def nul_split_inject)
  have "open_at X master \<lparr>env_enc = 1, env_tenant = t, env_kgen = g,
      env_nonce = hex_encode X ?nonce, env_ct = hex_encode X ct\<rparr> cf' k' = Inl tamper_error"
    unfolding open_at_def
    by (rule sealed_elsewhere [OF X _ ct]) (simp_all add: ne' nonce_length [OF X(1)])
  with externals_okD(6) [OF X(1) j] key have "open_edge X (usable X s) cf' k' row = Inl tamper_error"
    by (simp add: open_edge_def parse_envelope_def)
  moreover obtain keys where "decode_edge X cf' k' row Map.empty s =
      rbind (open_edge X (usable X s) cf' k' row) (\<lambda>r. Inr (r, keys))"
    by (rule decode_edge_eq [OF ok cache_ok_empty])
  ultimately show "decode_edge X cf' k' row Map.empty s = Inl tamper_error" by simp
qed

lemma ideal_aead_binds: "aead_binds ideal_externals"
  by (simp add: aead_binds_def ideal_externals_def)

text \<open>At a row of the sample node's tenant read under a neighbouring id.\<close>

theorem moved_row_is_refused_witness:
  "\<exists>s row. decode_node ideal_externals 8 row s = Inl tamper_error"
proof -
  let ?X = ideal_externals and ?s = "new_encrypted kv_new"
  obtain g k s where run: "ensure_tenant_key ?X ''acme'' ?s = (Inr (g, k), s)"
    using ensure_tenant_key_total [OF ideal_externals_ok ideal_externals_total
        store_okD(1) [OF new_encrypted_store_ok]] by (metis surj_pair)
  note cases = ensure_tenant_key_cases [OF ideal_externals_ok store_okD(1) [OF new_encrypted_store_ok] run]
  have ok: "keyring_ok ?X s" by (rule keys_grow_ok [OF conjunct1 [OF cases]])
  have key: "usable ?X s ''acme'' g = Some k" using cases by simp
  obtain row where row: "seal ?X k ''acme'' g 7 [1] = Inr row"
    using seal_total(1) [OF ideal_externals_total] by blast
  have nf: "nul_free ''acme''" by (simp add: nul_free_def as_bytes_def)
  have "decode_node ?X 8 row s = Inl tamper_error"
    by (rule moved_row_is_refused [OF ideal_externals_ok ideal_aead_binds ok key nf nf nf,
        THEN conjunct1, rule_format, OF conjI, OF row]) simp
  then show ?thesis by blast
qed

end
