(* ===== verification/Write_Policy.thy ===== *)
theory Write_Policy
  imports Supersession Erasure
begin

text \<open>
  What a sequence of store operations may write, as a policy on items: \<open>allowed_effect X P s s'\<close>
  says that \<open>s'\<close> is \<open>s\<close> after writing only nodes and edges that satisfy \<open>P\<close>. Every operation
  that the clients of the store call keeps the policy if the items it is given satisfy it.
  The clients (\<^verbatim>\<open>apply_diff\<close>, \<^verbatim>\<open>merge_bundle\<close>) state their guarantees as such policies.
\<close>

definition allowed_effect :: "externals \<Rightarrow> (item \<Rightarrow> bool) \<Rightarrow> dag_store \<Rightarrow> dag_store \<Rightarrow> bool" where
  "allowed_effect X P s s' \<longleftrightarrow> (\<exists>its. effect X s s' its \<and> (\<forall>it \<in> set its. P it))"

lemma allowed_refl: "store_ok X s \<Longrightarrow> allowed_effect X P s s"
  unfolding allowed_effect_def by (rule exI [of _ "[]"]) simp

lemma allowed_ok: "allowed_effect X P s s' \<Longrightarrow> store_ok X s'"
  by (auto simp: allowed_effect_def dest: effect_ok)

lemma allowed_encrypt: "allowed_effect X P s s' \<Longrightarrow> ds_encrypt s' = ds_encrypt s"
  by (auto simp: allowed_effect_def effect_def)

lemma allowed_step:
  assumes "allowed_effect X P s q" "effect X q s' its" "\<forall>it \<in> set its. P it"
  shows "allowed_effect X P s s'"
proof -
  from assms(1) obtain its\<^sub>0 where "effect X s q its\<^sub>0" "\<forall>it \<in> set its\<^sub>0. P it"
    by (auto simp: allowed_effect_def)
  with effect_trans [OF this(1) assms(2)] assms(3) show ?thesis
    unfolding allowed_effect_def by (intro exI [of _ "its\<^sub>0 @ its"]) auto
qed

lemma allowed_mono: "allowed_effect X P s s' \<Longrightarrow> (\<And>it. P it \<Longrightarrow> Q it) \<Longrightarrow> allowed_effect X Q s s'"
  by (auto simp: allowed_effect_def)

section \<open>Operations under a policy\<close>

lemma allowed_put_node:
  assumes "externals_ok X" "allowed_effect X P s q" "json_safe n" "P (INode n)" "put_node X n q = (r, q')"
  shows "allowed_effect X P s q'"
  using put_node_effect [OF assms(1) allowed_ok [OF assms(2)] assms(3,5)] assms(4)
    allowed_step [OF assms(2), of q' "[]"] allowed_step [OF assms(2), of q' "[INode n]"] by auto

lemma allowed_add_edge:
  assumes "externals_ok X" "allowed_effect X P s q" "P (IEdge e)" "add_edge X e q = (r, q')"
  shows "allowed_effect X P s q'"
  using add_edge_effect [OF assms(1) allowed_ok [OF assms(2)] assms(4)] assms(3)
    allowed_step [OF assms(2), of q' "[]"] allowed_step [OF assms(2), of q' "[IEdge e]"]
  by (auto split: if_splits)

lemma allowed_commit:
  assumes "externals_ok X" "allowed_effect X P s q" "\<forall>n \<in> set ns. json_safe n \<and> P (INode n)"
    and "\<forall>e \<in> set es. P (IEdge e)" "commit X ns es q = (r, q')"
  shows "allowed_effect X P s q'"
proof -
  have "\<forall>it \<in> set (commit_items X q ns es). P it" using assms(3,4) by (auto simp: commit_items_def)
  with commit_effect [OF assms(1) allowed_ok [OF assms(2)] _ assms(5)] assms(3) show ?thesis
    using allowed_step [OF assms(2), of q' "[]"] allowed_step [OF assms(2)] by auto
qed

lemma allowed_put_meta:
  assumes "externals_ok X" "allowed_effect X P s q" "put_meta X t k v q = (r, q')"
  shows "allowed_effect X P s q'"
  using put_meta_effect [OF assms(1) allowed_ok [OF assms(2)] assms(3)]
    allowed_step [OF assms(2), of q' "[]"] by simp

lemma allowed_supersession:
  assumes "externals_ok X" "allowed_effect X P s q" "P (IEdge e)"
    and target: "\<And>t. node_view X q (e_to e) = Some t \<Longrightarrow> P (INode (supersede_target e t))"
    and "apply_supersession X e q = (r, q')"
  shows "allowed_effect X P s q'"
proof -
  from apply_supersession_effect [OF assms(1) allowed_ok [OF assms(2)] assms(5)]
  consider "effect X q q' []"
    | t where "node_view X q (e_to e) = Some t" "effect X q q' (supersede_items e t)"
    by blast
  then show ?thesis
  proof cases
    case 2
    then have "\<forall>it \<in> set (supersede_items e t). P it"
      using assms(3) target by (auto simp: supersede_items_def)
    then show ?thesis by (rule allowed_step [OF assms(2) 2(2)])
  qed (auto intro: allowed_step [OF assms(2)])
qed

section \<open>What a policy protects\<close>

lemma fold_items_other:
  "\<forall>n. INode n \<in> set its \<longrightarrow> node_id X n \<noteq> k \<Longrightarrow> fold (node_upd X) its m k = m k"
  "\<forall>e. IEdge e \<in> set its \<longrightarrow> edge_key e \<noteq> k' \<Longrightarrow> fold edge_upd its m' k' = m' k'"
proof (induction its arbitrary: m m')
  case (Cons it its)
  { case 1 with Cons.IH(1) show ?case by (cases it) auto }
  { case 2 with Cons.IH(2) show ?case by (cases it) auto }
qed simp_all

lemma allowed_protects:
  assumes "allowed_effect X P s s'"
  shows "(\<And>n. P (INode n) \<Longrightarrow> node_id X n \<noteq> nid) \<Longrightarrow> node_view X s' nid = node_view X s nid"
    and "(\<And>e. P (IEdge e) \<Longrightarrow> edge_key e \<noteq> k) \<Longrightarrow> edge_view X s' k = edge_view X s k"
proof -
  from assms obtain its where its: "effect X s s' its" "\<forall>it \<in> set its. P it"
    by (auto simp: allowed_effect_def)
  show "node_view X s' nid = node_view X s nid" if "\<And>n. P (INode n) \<Longrightarrow> node_id X n \<noteq> nid"
  proof -
    have "fold (node_upd X) its (node_view X s) nid = node_view X s nid"
      by (rule fold_items_other) (use that its(2) in auto)
    with its(1) show ?thesis by (simp add: effect_def)
  qed
  show "edge_view X s' k = edge_view X s k" if "\<And>e. P (IEdge e) \<Longrightarrow> edge_key e \<noteq> k"
  proof -
    have "fold edge_upd its (edge_view X s) k = edge_view X s k"
      by (rule fold_items_other) (use that its(2) in auto)
    with its(1) show ?thesis by (simp add: effect_def)
  qed
qed

lemma fold_items_from:
  "fold (node_upd X) its m k = Some n \<Longrightarrow> m k = Some n \<or> INode n \<in> set its"
  "fold edge_upd its m' k' = Some e \<Longrightarrow> m' k' = Some e \<or> IEdge e \<in> set its"
proof (induction its arbitrary: m m')
  case (Cons it its)
  { case 1
    then have "node_upd X it m k = Some n \<or> INode n \<in> set its" using Cons.IH(1) by simp
    then show ?case by (cases it) (auto split: if_splits) }
  { case 2
    then have "edge_upd it m' k' = Some e \<or> IEdge e \<in> set its" using Cons.IH(2) by simp
    then show ?case by (cases it) (auto split: if_splits) }
qed simp_all

lemma allowed_origin:
  assumes "allowed_effect X P s s'"
  shows "node_view X s' nid = Some n \<Longrightarrow> node_view X s nid = Some n \<or> P (INode n)"
    and "edge_view X s' k = Some e \<Longrightarrow> edge_view X s k = Some e \<or> P (IEdge e)"
  using assms fold_items_from by (fastforce simp: allowed_effect_def effect_def)+

end
