(* ===== verification/Diff_Safety.thy ===== *)
theory Diff_Safety
  imports Asserter Write_Policy
begin

text \<open>
  What the Asserted-plane write path guarantees (\<^verbatim>\<open>crates/mem-assert/src/lib.rs\<close>): what an asserter
  signs verifies and lands, a refused diff writes nothing, and no diff changes the state of a
  node or an edge of another principal. The last is proved over the effect lists of the store:
  every write a diff makes is an \<open>owned_write\<close> against the store the diff met.
\<close>

section \<open>What verification accepts\<close>

lemma verify_sig_ok:
  "verify_sig X pub msg sig = Inr () \<longleftrightarrow>
     (\<exists>pk s. hex_decode X pub = Inr (hash_bytes pk) \<and> sig = Some s \<and> length s = 64 \<and>
       ed25519_key_ok X pk \<and> ed25519_verify_strict X pk msg s)"
  by (auto simp: verify_sig_def try_into_32_Some)

lemma assertable_ok:
  "assertable_plane_and_tier p t = Inr () \<longleftrightarrow> p = Asserted \<and> t \<in> {AgentAsserted, InferredAdvisory}"
  by (simp add: assertable_plane_and_tier_def)

lemma verify_sig_signed:
  assumes "externals_ok X" "ed25519_ok X"
  shows "verify_sig X (as_pubkey_hex (new_asserter X sk)) msg (Some (ed25519_sign X sk msg)) = Inr ()"
  using externals_okD [OF assms(1)] ed25519_okD [OF assms(2)]
  by (auto simp: verify_sig_ok new_asserter_def)

lemma verify_signed_node:
  assumes "externals_ok X" "ed25519_ok X" "n_plane n = Asserted" "n_trust_tier n = AgentAsserted"
    "n_author n = as_pubkey_hex (new_asserter X sk)"
  shows "verify_node X (n\<lparr>n_signature := Some (ed25519_sign X sk (hash_bytes (node_id X n)))\<rparr>) = Inr ()"
  using assms(3-5) by (simp add: verify_node_def assertable_ok verify_sig_signed [OF assms(1,2)])

lemma verify_signed_edge:
  assumes "externals_ok X" "ed25519_ok X" "e_plane e = Asserted" "e_trust_tier e \<in> {AgentAsserted, InferredAdvisory}"
    "p_asserter (e_provenance e) = as_pubkey_hex (new_asserter X sk)"
  shows "verify_edge X (e\<lparr>e_signature := Some (ed25519_sign X sk (edge_key e))\<rparr>) = Inr ()"
proof -
  have "edge_key (e\<lparr>e_signature := z\<rparr>) = edge_key e" for z by (simp add: edge_key_def)
  moreover have "assertable_plane_and_tier (e_plane e) (e_trust_tier e) = Inr ()"
    using assms(3,4) by (simp add: assertable_ok)
  ultimately show ?thesis
    using assms(5) by (simp add: verify_edge_def verify_sig_signed [OF assms(1,2)])
qed

lemma saturating_add_ge: "a \<le> saturating_add a b"
proof (cases "unat a + unat b < 2 ^ 64")
  case True
  then have "unat (a + b) = unat a + unat b"
    by (subst unat_plus_if') simp
  with True show ?thesis by (simp add: saturating_add_def word_le_nat_alt)
qed (simp add: saturating_add_def)

lemma signed_assertion:
  assumes "externals_ok X" "ed25519_ok X"
  shows "verify_node X (assert_node_with X (new_asserter X sk) repo kind content vf obs emb) = Inr ()"
    and "vf \<le> obs \<and> obs \<le> now \<Longrightarrow>
      is_as_asserted (assert_node_with X (new_asserter X sk) repo kind content vf obs emb) now"
proof -
  have sk: "as_sk (new_asserter X sk) = sk" by (simp add: new_asserter_def)
  show "verify_node X (assert_node_with X (new_asserter X sk) repo kind content vf obs emb) = Inr ()"
    unfolding assert_node_with_def Let_def sk by (rule verify_signed_node [OF assms(1,2)]) simp_all
  show "is_as_asserted (assert_node_with X (new_asserter X sk) repo kind content vf obs emb) now"
    if "vf \<le> obs \<and> obs \<le> now"
    using that saturating_add_ge [of now RELAY_CLOCK_SKEW_MS]
    by (auto simp: is_as_asserted_def assert_node_with_def Let_def)
qed

text \<open>What an asserter signs verifies, under its own public key and at the tier it may mint:
  nodes as load-bearing assertions, direct edges likewise, proposals as quarantined advisory
  edges. The embedding plays no part. A node minted by now passes the as-asserted check of
  a relay.\<close>

theorem signed_assertions_verify:
  assumes "externals_ok X" "ed25519_ok X" "self = new_asserter X sk"
  shows "verify_node X (assert_node_with X self repo kind content vf obs emb) = Inr () \<and>
    blame (assert_node_with X self repo kind content vf obs emb) =
      \<lparr>bl_author = as_pubkey_hex self, bl_plane = Asserted, bl_trust_tier = AgentAsserted\<rparr> \<and>
    (vf \<le> obs \<and> obs \<le> now \<longrightarrow> is_as_asserted (assert_node_with X self repo kind content vf obs emb) now) \<and>
    verify_edge X (assert_edge X self a b ek now) = Inr () \<and> \<not> e_quarantined (assert_edge X self a b ek now) \<and>
    verify_edge X (propose_edge X self a b ek meth ev now) = Inr () \<and>
    e_quarantined (propose_edge X self a b ek meth ev now)"
proof (intro conjI impI)
  have sk: "as_sk self = sk" by (simp add: assms(3) new_asserter_def)
  show "verify_node X (assert_node_with X self repo kind content vf obs emb) = Inr ()"
    unfolding assms(3) by (rule signed_assertion [OF assms(1,2)])
  show "verify_edge X (assert_edge X self a b ek now) = Inr ()"
    unfolding assert_edge_def Let_def sk by (rule verify_signed_edge [OF assms(1,2)]) (simp_all add: assms(3))
  show "verify_edge X (propose_edge X self a b ek meth ev now) = Inr ()"
    unfolding propose_edge_def Let_def sk by (rule verify_signed_edge [OF assms(1,2)]) (simp_all add: assms(3))
  show "is_as_asserted (assert_node_with X self repo kind content vf obs emb) now" if "vf \<le> obs \<and> obs \<le> now"
    unfolding assms(3) by (rule signed_assertion(2) [OF assms(1,2) that])
qed (simp_all add: blame_def assert_node_with_def assert_edge_def propose_edge_def Let_def)

section \<open>What a diff may write\<close>

text \<open>A write on behalf of a caller respects the authors of what is stored: a stored node may be
  replaced by its author only, a stored edge by its asserter only.\<close>

fun owned_write :: "externals \<Rightarrow> string option \<Rightarrow> dag_store \<Rightarrow> item \<Rightarrow> bool" where
  "owned_write X caller s (INode n) \<longleftrightarrow>
     (\<forall>m. node_view X s (node_id X n) = Some m \<longrightarrow> caller = Some (n_author m))"
| "owned_write X caller s (IEdge e) \<longleftrightarrow>
     (\<forall>d. edge_view X s (edge_key e) = Some d \<longrightarrow> caller = Some (p_asserter (e_provenance d)))"

abbreviation owned_effect :: "externals \<Rightarrow> string option \<Rightarrow> dag_store \<Rightarrow> dag_store \<Rightarrow> bool" where
  "owned_effect X caller s s' \<equiv> allowed_effect X (owned_write X caller s) s s'"

text \<open>A node of the diff and a stored node are a collision of the node id.\<close>

definition diff_collides :: "externals \<Rightarrow> memory_diff \<Rightarrow> dag_store \<Rightarrow> bool" where
  "diff_collides X diff s \<longleftrightarrow>
     (\<exists>n \<in> set (md_nodes diff). \<exists>m. get_node X (node_id X n) s = Inr (Some m) \<and> identity_of m \<noteq> identity_of n)"

lemma diff_same_author:
  assumes "store_ok X s" "\<not> diff_collides X diff s" "n \<in> set (md_nodes diff)" "node_view X s (node_id X n) = Some m"
  shows "n_author m = n_author n"
proof -
  have "get_node X (node_id X n) s = Inr (Some m)" using assms(1,4) by (simp add: get_node_eq)
  with assms(2,3) have "identity_of m = identity_of n" by (auto simp: diff_collides_def)
  then show ?thesis by (simp add: identity_of_def)
qed

lemma owned_effect_foreign:
  assumes "owned_effect X caller s s'"
  shows "node_view X s nid = Some m \<Longrightarrow> caller \<noteq> Some (n_author m) \<Longrightarrow> node_view X s' nid = Some m"
    and "edge_view X s k = Some d \<Longrightarrow> caller \<noteq> Some (p_asserter (e_provenance d)) \<Longrightarrow> edge_view X s' k = Some d"
  using allowed_protects(1) [OF assms, of nid] allowed_protects(2) [OF assms, of k] by auto

lemma joined_safe:
  assumes "json_safe a" "json_safe b"
  shows "json_safe (fst (merge_node a b))"
proof -
  have "n_embedding (fst (merge_node a b)) \<in> {n_embedding a, n_embedding b}"
    by (auto simp: node_join_fields min_embedding_def split: option.splits)
  with assms show ?thesis by (auto simp: json_safe_def)
qed

definition planned_node :: "externals \<Rightarrow> string option \<Rightarrow> dag_store \<Rightarrow> memory_node \<Rightarrow> bool" where
  "planned_node X caller s n \<longleftrightarrow> json_safe n \<and> owned_write X caller s (INode n)"

lemma incoming_safe: "json_safe n \<Longrightarrow> json_safe (incoming_node now own n)"
  by (simp add: incoming_node_def Let_def json_safe_def)

lemma incoming_id [simp]: "node_id X (incoming_node now own n) = node_id X n"
  by (simp add: incoming_node_def Let_def)

lemma plan_node_owned:
  assumes ok: "store_ok X s" and nc: "\<not> diff_collides X diff s" and n: "n \<in> set (md_nodes diff)" "json_safe n"
    and run: "plan_node X now caller s n (w, u) = Inr (w', u')" and w: "\<forall>x \<in> set w. planned_node X caller s x"
  shows "\<forall>x \<in> set w'. planned_node X caller s x"
proof (cases "node_view X s (node_id X n)")
  case None
  then have "w' = w @ [incoming_node now (caller = Some (n_author n)) n]"
    using run by (auto simp: plan_node_def Let_def get_node_eq [OF ok] split: if_splits)
  with w None n(2) show ?thesis by (auto simp: planned_node_def incoming_safe)
next
  case (Some m)
  let ?j = "fst (merge_node m (incoming_node now (caller = Some (n_author n)) n))"
  have "w' = w \<or> w' = w @ [?j] \<and> caller = Some (n_author n)"
    using run Some by (auto simp: plan_node_def Let_def get_node_eq [OF ok] split: if_splits prod.splits)
  moreover have "n_author m = n_author n" by (rule diff_same_author [OF ok nc n(1) Some])
  moreover have "node_id X ?j = node_id X n"
    using compute_id_cong [of ?j m "blake3 X"] node_view_id(1) [OF ok Some] by (simp add: node_join_fields)
  moreover have "json_safe ?j" by (rule joined_safe [OF node_view_id(2) [OF ok Some] incoming_safe [OF n(2)]])
  ultimately show ?thesis using w Some by (auto simp: planned_node_def)
qed

lemma plan_nodes_owned:
  assumes "store_ok X s" "\<not> diff_collides X diff s" "\<forall>n \<in> set (md_nodes diff). json_safe n"
    and "rfold (plan_node X now caller s) (md_nodes diff) ([], 0) = Inr np"
  shows "\<forall>x \<in> set (fst np). planned_node X caller s x"
  by (rule rfold_invariant [where I = "\<lambda>np. \<forall>x \<in> set (fst np). planned_node X caller s x", OF _ _ assms(4)])
    (use assms(1-3) plan_node_owned in fastforce)+

text \<open>The edges a plan keeps: none replaces another principal's edge, and a supersession retires
  the caller's own node only.\<close>

definition planned_edge :: "externals \<Rightarrow> string option \<Rightarrow> dag_store \<Rightarrow> edge \<Rightarrow> bool" where
  "planned_edge X caller s e \<longleftrightarrow> owned_write X caller s (IEdge e)"

definition planned_supersession :: "externals \<Rightarrow> string option \<Rightarrow> dag_store \<Rightarrow> edge \<Rightarrow> bool" where
  "planned_supersession X caller s e \<longleftrightarrow> planned_edge X caller s e \<and>
     (\<forall>m. node_view X s (e_to e) = Some m \<longrightarrow> caller = Some (n_author m))"

lemma target_author_stored:
  assumes ok: "store_ok X s" and nc: "\<not> diff_collides X diff s" and k: "needs_second_party (e_kind e)"
    and run: "target_author X diff e s = Inr ao" and m: "node_view X s (e_to e) = Some m"
  shows "ao = Some (n_author m)"
proof (cases "diff_node X diff (e_to e)")
  case None
  with run k m show ?thesis by (simp add: target_author_def get_node_eq [OF ok])
next
  case (Some n)
  then have n: "n \<in> set (md_nodes diff)" "node_id X n = e_to e"
    by (auto simp: diff_node_def find_Some_iff)
  have "n_author m = n_author n" by (rule diff_same_author [OF ok nc n(1)]) (simp add: n(2) m)
  with run k Some show ?thesis by (simp add: target_author_def)
qed

lemma stored_verdict_GoOn:
  assumes "stored_verdict X caller st e = GoOn" "st = Some d"
  shows "caller = Some (p_asserter (e_provenance d))"
  using assms by (auto simp: stored_verdict_def Let_def split: if_splits)

lemma plan_edge_owned:
  assumes ok: "store_ok X s" and nc: "\<not> diff_collides X diff s"
    and run: "plan_edge X now caller diff s e (p, q) = Inr (p', q')"
    and I: "\<forall>x \<in> set p. planned_edge X caller s x" "\<forall>x \<in> set q. planned_supersession X caller s x"
  shows "(\<forall>x \<in> set p'. planned_edge X caller s x) \<and> (\<forall>x \<in> set q'. planned_supersession X caller s x)"
proof -
  obtain es where es: "out_edges X (e_from e) s = Inr es" by (rule out_edges_spec [OF ok])
  let ?v = "stored_verdict X caller (edge_view X s (edge_key e)) e"
  have own: "planned_edge X caller s e" if "?v = GoOn"
    using stored_verdict_GoOn [OF that] by (simp add: planned_edge_def)
  have tgt: "caller = Some (n_author m)" if "target_author X diff e s = Inr ao" "e_kind e = Supersedes"
      "\<not> (\<exists>a. ao = Some a \<and> caller \<noteq> Some a)" "node_view X s (e_to e) = Some m" for ao m
    using target_author_stored [OF ok nc _ that(1,4)] that(2,3) by (auto simp: needs_second_party_def)
  have "(p', q') = (p, q) \<or> ?v = GoOn \<and> (p', q') = (p @ [e], q) \<or>
      ?v = GoOn \<and> (p', q') = (p, q @ [e]) \<and> (\<forall>m. node_view X s (e_to e) = Some m \<longrightarrow> caller = Some (n_author m))"
    using run tgt unfolding plan_edge_def es
    by (auto simp: find_edge [OF ok es] Let_def split: edge_verdict.splits option.splits if_splits)
  with I own show ?thesis by (auto simp: planned_supersession_def)
qed

lemma plan_edges_owned:
  assumes "store_ok X s" "\<not> diff_collides X diff s"
    and "rfold (plan_edge X now caller diff s) (md_edges diff) ([], []) = Inr ep"
  shows "(\<forall>x \<in> set (fst ep). planned_edge X caller s x) \<and> (\<forall>x \<in> set (snd ep). planned_supersession X caller s x)"
  by (rule rfold_invariant [where I = "\<lambda>ep. (\<forall>x \<in> set (fst ep). planned_edge X caller s x) \<and>
        (\<forall>x \<in> set (snd ep). planned_supersession X caller s x)", OF _ _ assms(3)])
    (use plan_edge_owned [OF assms(1,2)] in \<open>force, simp\<close>)

section \<open>The writes of a diff\<close>

lemma record_inserter_allowed:
  assumes X: "externals_ok X" and I: "allowed_effect X P s q" and run: "record_inserter X diff c e u q = (r, q')"
  shows "allowed_effect X P s q'"
proof -
  have "q' = q \<or> (\<exists>t k v p. put_meta X t k v q = (p, q'))"
    using run by (auto simp: record_inserter_def sbind_def smap_err_def split: option.splits sum.splits prod.splits)
  then show ?thesis using I allowed_put_meta [OF X I] by auto
qed

lemma apply_one_supersession_run:
  assumes "apply_one_supersession X e c q = (r, q')"
  obtains p where "apply_supersession X e q = (p, q')"
  using assms that by (auto simp: apply_one_supersession_def sbind_def smap_err_def split: prod.splits sum.splits)

text \<open>A policy that holds of all a plan lists is kept by the writes of the diff.\<close>

lemma planned_writes_allowed:
  assumes X: "externals_ok X" and ok: "store_ok X s" and plan: "plan_diff X now diff caller s = Inr ((w, u), p, q)"
    and w: "\<forall>n \<in> set w. json_safe n \<and> P (INode n)" and es: "\<forall>e \<in> set p \<union> set q. P (IEdge e)"
    and sup: "\<And>e z t. e \<in> set q \<Longrightarrow> allowed_effect X P s z \<Longrightarrow> node_view X z (e_to e) = Some t \<Longrightarrow>
      P (INode (supersede_target e t))"
    and run: "apply_diff X now diff caller s = (r, s')"
  shows "allowed_effect X P s s'"
proof -
  obtain r1 s1 where c: "commit X w p s = (r1, s1)" by (cases "commit X w p s")
  have I1: "allowed_effect X P s s1" by (rule allowed_commit [OF X allowed_refl [OF ok] w _ c]) (use es in simp)
  define rec where "rec = (case caller of None \<Rightarrow> sok () | Some c \<Rightarrow> sfold (record_inserter X diff c)
    (filter (\<lambda>e. needs_second_party (e_kind e) \<and> e_quarantined e) p) ())"
  obtain r2 s2 where rc: "rec s1 = (r2, s2)" by (cases "rec s1")
  have I2: "allowed_effect X P s s2"
  proof (cases caller)
    case None
    with rc I1 show ?thesis by (simp add: rec_def)
  next
    case (Some c)
    show ?thesis
      by (rule sfold_invariant [where I = "allowed_effect X P s", OF _ I1 rc [unfolded rec_def Some option.case]])
        (rule record_inserter_allowed [OF X])
  qed
  obtain r3 s3 where sp: "sfold (apply_one_supersession X) q 0 s2 = (r3, s3)"
    by (cases "sfold (apply_one_supersession X) q 0 s2")
  have I3: "allowed_effect X P s s3"
  proof (rule sfold_invariant [where I = "allowed_effect X P s", OF _ I2 sp])
    fix e k z r z'
    assume e: "e \<in> set q" and I: "allowed_effect X P s z" and "apply_one_supersession X e k z = (r, z')"
    from apply_one_supersession_run [OF this(3)] obtain x where x: "apply_supersession X e z = (x, z')" .
    have "P (IEdge e)" using e es by simp
    then show "allowed_effect X P s z'" by (rule allowed_supersession [OF X I _ sup [OF e I] x])
  qed
  have "s' \<in> {s1, s2, s3}"
    using run c rc sp by (auto simp: apply_diff_def sread_bind plan rec_def [symmetric] sbind_def smap_err_def
        split: prod.splits sum.splits)
  with I1 I2 I3 show ?thesis by blast
qed

lemma plan_diff_Inr:
  assumes "plan_diff X now diff caller s = Inr ((w, u), p, q)"
  shows "verify_diff X diff = Inr ()" "rfold (plan_node X now caller s) (md_nodes diff) ([], 0) = Inr (w, u)"
    "rfold (plan_edge X now caller diff s) (md_edges diff) ([], []) = Inr (p, q)"
  using assms by (auto simp: plan_diff_def)

lemma refused_diff: "plan_diff X now diff caller s = Inl e \<Longrightarrow> apply_diff X now diff caller s = (Inl e, s)"
  by (simp add: apply_diff_def sread_bind)

lemma apply_diff_owned:
  assumes X: "externals_ok X" and ok: "store_ok X s" and nc: "\<not> diff_collides X diff s"
    and safe: "\<forall>n \<in> set (md_nodes diff). json_safe n" and run: "apply_diff X now diff caller s = (r, s')"
  shows "owned_effect X caller s s'"
proof (cases "plan_diff X now diff caller s")
  case (Inl err)
  with run allowed_refl [OF ok] show ?thesis by (simp add: refused_diff)
next
  case (Inr plan)
  then obtain w u p q where plan: "plan_diff X now diff caller s = Inr ((w, u), p, q)" by (metis surj_pair)
  have w: "\<forall>n \<in> set w. json_safe n \<and> owned_write X caller s (INode n)"
    using plan_nodes_owned [OF ok nc safe plan_diff_Inr(2) [OF plan]] by (simp add: planned_node_def)
  have es: "\<forall>e \<in> set p. planned_edge X caller s e" "\<forall>e \<in> set q. planned_supersession X caller s e"
    using plan_edges_owned [OF ok nc plan_diff_Inr(3) [OF plan]] by simp_all
  show ?thesis
  proof (rule planned_writes_allowed [OF X ok plan w _ _ run])
    show "\<forall>e \<in> set p \<union> set q. owned_write X caller s (IEdge e)"
      using es by (auto simp: planned_edge_def planned_supersession_def)
    fix e z t
    assume e: "e \<in> set q" and I: "owned_effect X caller s z" and t: "node_view X z (e_to e) = Some t"
    have "node_id X t = e_to e" by (rule node_view_id(1) [OF allowed_ok [OF I] t])
    with es(2) e show "owned_write X caller s (INode (supersede_target e t))"
      by (auto simp: planned_supersession_def)
  qed
qed

section \<open>Properties of the write path\<close>

text \<open>C8. A diff changes nobody else's state: whatever a diff contains and whatever it returns, every
  stored node whose author is not the caller and every stored edge whose asserter is not the
  caller reads the same afterwards: no status, validity, confidence, embedding, tier or
  quarantine flag of theirs moves. The one way out is a node of the diff that collides
  with a stored node of another identity under the hash of the node id.\<close>

theorem diff_respects_ownership:
  assumes "externals_ok X" "store_ok X s" "\<forall>n \<in> set (md_nodes diff). json_safe n"
    and "apply_diff X now diff caller s = (r, s')"
  shows "diff_collides X diff s \<or>
    (store_ok X s' \<and>
     (\<forall>nid m. get_node X nid s = Inr (Some m) \<and> caller \<noteq> Some (n_author m) \<longrightarrow> get_node X nid s' = Inr (Some m)) \<and>
     (\<forall>e d. stored_edge X e s = Inr (Some d) \<and> caller \<noteq> Some (p_asserter (e_provenance d)) \<longrightarrow>
        stored_edge X e s' = Inr (Some d)))"
proof (cases "diff_collides X diff s")
  case False
  have I: "owned_effect X caller s s'" by (rule apply_diff_owned [OF assms(1,2) False assms(3,4)])
  note ok' = allowed_ok [OF I]
  show ?thesis
    using owned_effect_foreign [OF I] ok'
    by (simp add: get_node_eq [OF assms(2)] get_node_eq [OF ok'] stored_edge_eq [OF assms(2)] stored_edge_eq [OF ok'])
qed simp

text \<open>C8, a relay tries to retire the stored sample node of another author.\<close>

theorem diff_respects_ownership_witness:
  "\<exists>s r s'. get_node ideal_externals (node_id ideal_externals sample_node) s = Inr (Some sample_node) \<and>
     apply_diff ideal_externals 0 (diff_add_node (sample_node\<lparr>n_status := Superseded\<rparr>) (new_diff ''bb'' 0)) (Some ''bb'') s = (r, s') \<and>
     get_node ideal_externals (node_id ideal_externals sample_node) s' = Inr (Some sample_node)"
proof -
  let ?X = ideal_externals and ?d = "diff_add_node (sample_node\<lparr>n_status := Superseded\<rparr>) (new_diff ''bb'' 0)"
  obtain s where "put_node ?X sample_node (new kv_new) = (Inr (node_id ?X sample_node), s)"
    using put_node_total [OF ideal_externals_ok ideal_externals_total new_store_ok] by blast
  from put_node_effect [OF ideal_externals_ok new_store_ok sample_node_safe this]
  have eff: "effect ?X (new kv_new) s [INode sample_node]" by auto
  have ok: "store_ok ?X s" by (rule effect_ok [OF eff])
  have got: "get_node ?X (node_id ?X sample_node) s = Inr (Some sample_node)"
    using eff by (simp add: get_node_eq [OF ok] effect_def)
  obtain r s' where run: "apply_diff ?X 0 ?d (Some ''bb'') s = (r, s')" by (cases "apply_diff ?X 0 ?d (Some ''bb'') s")
  have safe: "\<forall>n \<in> set (md_nodes ?d). json_safe n"
    using sample_node_safe by (simp add: diff_add_node_def new_diff_def json_safe_def)
  have "\<not> diff_collides ?X ?d s"
    by (auto simp: diff_collides_def diff_add_node_def new_diff_def got identity_of_def)
  moreover have "Some ''bb'' \<noteq> Some (n_author sample_node)" by (simp add: sample_node_def)
  ultimately have "get_node ?X (node_id ?X sample_node) s' = Inr (Some sample_node)"
    using diff_respects_ownership [OF ideal_externals_ok ok safe run] got by blast
  with got run show ?thesis by blast
qed

lemma record_inserter_error: "record_inserter X diff c e u q = (Inl err, q') \<Longrightarrow> \<exists>m. err = StoreError m"
  by (auto simp: record_inserter_def sbind_Inl_iff smap_err_Inl map_err_eq_Inl split: option.splits)

lemma apply_one_supersession_error:
  "apply_one_supersession X e k q = (Inl err, q') \<Longrightarrow> \<exists>m. err = SupersessionError m"
  by (auto simp: apply_one_supersession_def sbind_Inl_iff smap_err_Inl)

lemma written_errors:
  assumes "plan_diff X now diff caller s = Inr plan" "apply_diff X now diff caller s = (Inl e, s')"
  shows "(\<exists>m. e = StoreError m) \<or> (\<exists>m. e = SupersessionError m)"
proof -
  obtain w u p q where plan: "plan = ((w, u), p, q)" by (metis surj_pair)
  from assms(2) show ?thesis
    by (auto simp: apply_diff_def sread_bind assms(1) plan sbind_Inl_iff smap_err_Inl
        split: option.splits dest!: sfold_error record_inserter_error apply_one_supersession_error)
qed

text \<open>A refused diff writes nothing: an unsigned or badly signed item, a plane or tier that may
  not be asserted, a change to another author's item or the promotion of a proposal leaves
  the store exactly as it was, and the first failed verification is the error returned.
  Only a failure of the store or a rejected supersession can follow a write.\<close>

theorem refused_diff_writes_nothing:
  assumes "apply_diff X now diff caller s = (Inl e, s')"
    and "e \<in> {Unsigned, BadSignature, BadAuthor} \<or> (\<exists>m. e \<in> {SerdeError m, NotAssertable m, NotAuthor m, EdgePromotion m})"
  shows "s' = s \<and> plan_diff X now diff caller s = Inl e \<and> (\<forall>v. verify_diff X diff = Inl v \<longrightarrow> e = v)"
proof (cases "plan_diff X now diff caller s")
  case (Inl err)
  with assms(1) show ?thesis by (auto simp: apply_diff_def sread_bind plan_diff_def)
next
  case (Inr plan)
  with written_errors [OF Inr assms(1)] assms(2) show ?thesis by auto
qed

text \<open>A node without a signature.\<close>

theorem refused_diff_writes_nothing_witness:
  "apply_diff ideal_externals 0 (diff_add_node sample_node (new_diff ''aa'' 0)) (Some ''aa'') (new kv_new) =
     (Inl Unsigned, new kv_new)"
proof -
  let ?d = "diff_add_node sample_node (new_diff ''aa'' 0)"
  have "verify_diff ideal_externals ?d = Inl Unsigned"
    by (simp add: verify_diff_def verify_node_def assertable_plane_and_tier_def verify_sig_def diff_add_node_def
        new_diff_def sample_node_def)
  then obtain s' where run: "apply_diff ideal_externals 0 ?d (Some ''aa'') (new kv_new) = (Inl Unsigned, s')"
    by (simp add: apply_diff_def sread_bind plan_diff_def)
  with refused_diff_writes_nothing [OF run] show ?thesis by simp
qed

text \<open>An asserter over the ideal signature scheme.\<close>

theorem signed_assertions_verify_witness:
  "verify_node ideal_externals (assert_node_with ideal_externals (new_asserter ideal_externals 3)
     ''acme'' (Claim Confirmed) ''hi'' 1 2 None) = Inr ()"
  using signed_assertions_verify [OF ideal_externals_ok ideal_ed25519_ok refl, of 3] by blast

lemma commit_node_lands:
  assumes X: "externals_ok X" "externals_total X" and ok: "store_ok X s" and safe: "json_safe n"
  obtains s' where "commit X [n] [] s = (Inr (), s')" "get_node X (node_id X n) s' = Inr (Some n)"
proof -
  obtain s' where run: "commit X [n] [] s = (Inr (), s')"
    using commit_total [OF X ok, of "[]" "[n]"] safe by auto
  from commit_effect [OF X(1) ok _ this] safe have eff: "effect X s s' (commit_items X s [n] [])" by auto
  then have "get_node X (node_id X n) s' = Inr (Some n)"
    by (simp add: get_node_eq [OF effect_ok [OF eff]] effect_def commit_items_def)
  with run that show ?thesis by blast
qed

text \<open>A handoff lands: a diff with one node that an asserter minted, not stored yet, is accepted from
  its author, and from a relay when the node carries no future timestamp; it then reads
  back as minted, except that a relayed copy has lost its unsigned embedding (counted in
  the report) and its times are floored at five minutes before now.\<close>

theorem handoff_lands:
  assumes X: "externals_ok X" "externals_total X" "ed25519_ok X" and ok: "store_ok X s"
    and n: "n = assert_node_with X (new_asserter X sk) repo kind content vf obs emb" "json_safe n"
    and fresh: "get_node X (node_id X n) s = Inr None"
    and times: "own = (caller = Some (n_author n))" "own \<or> vf \<le> obs \<and> obs \<le> now"
  shows "\<exists>s'. apply_diff X now (diff_add_node n (new_diff author t)) caller s =
      (Inr \<lparr>mg_nodes = 1, mg_edges = 0, mg_superseded = 0,
        mg_unembedded = (if \<not> own \<and> emb \<noteq> None then 1 else 0)\<rparr>, s') \<and>
    get_node X (node_id X n) s' = Inr (Some (incoming_node now own n))"
proof -
  let ?d = "diff_add_node n (new_diff author t)" and ?i = "incoming_node now own n"
  note signed = signed_assertion [OF X(1,3), where sk = sk]
  have v: "verify_diff X ?d = Inr ()"
    using signed(1) n(1) by (simp add: verify_diff_def diff_add_node_def new_diff_def)
  have as: "is_as_asserted n now" if "\<not> own" using signed(2) n(1) times(2) that by blast
  have emb: "n_embedding n = emb" by (simp add: n(1) assert_node_with_def Let_def)
  have "plan_node X now caller s n ([], 0) = Inr ([?i], if \<not> own \<and> emb \<noteq> None then 1 else 0)"
    using as emb by (auto simp: plan_node_def Let_def fresh times(1))
  then have plan: "plan_diff X now ?d caller s = Inr (([?i], if \<not> own \<and> emb \<noteq> None then 1 else 0), [], [])"
    by (simp add: plan_diff_def v) (simp add: diff_add_node_def new_diff_def)
  obtain s' where s': "commit X [?i] [] s = (Inr (), s')" "get_node X (node_id X ?i) s' = Inr (Some ?i)"
    by (rule commit_node_lands [OF X(1,2) ok incoming_safe [OF n(2)]])
  have "apply_diff X now ?d caller s = (Inr \<lparr>mg_nodes = 1, mg_edges = 0, mg_superseded = 0,
      mg_unembedded = (if \<not> own \<and> emb \<noteq> None then 1 else 0)\<rparr>, s')"
    by (simp add: apply_diff_def sread_bind plan sbind_def smap_err_def s'(1) split: option.split)
      (simp add: diff_add_node_def new_diff_def)
  with s'(2) show ?thesis by simp
qed

text \<open>A relayed node with an embedding, into an empty sealing store.\<close>

theorem handoff_lands_witness:
  "\<exists>n s'. apply_diff ideal_externals 9 (diff_add_node n (new_diff ''bb'' 9)) None (new_encrypted kv_new) =
      (Inr \<lparr>mg_nodes = 1, mg_edges = 0, mg_superseded = 0, mg_unembedded = 1\<rparr>, s')"
proof -
  define n where "n = assert_node_with ideal_externals (new_asserter ideal_externals 3) ''acme'' (Claim Confirmed) ''hi'' 1 2
    (Some \<lparr>vv_model = ''m'', vv_data = []\<rparr>)"
  have "json_safe n" by (simp add: n_def json_safe_def assert_node_with_def Let_def)
  moreover have "node_view ideal_externals (new_encrypted kv_new) i = None" for i
    by (simp add: node_view_def new_encrypted_def)
  ultimately have "\<exists>s'. apply_diff ideal_externals 9 (diff_add_node n (new_diff ''bb'' 9)) None (new_encrypted kv_new) =
      (Inr \<lparr>mg_nodes = 1, mg_edges = 0, mg_superseded = 0, mg_unembedded = 1\<rparr>, s')"
    using handoff_lands [OF ideal_externals_ok ideal_externals_total ideal_ed25519_ok new_encrypted_store_ok n_def,
        of False None 9 "''bb''" 9]
    by (fastforce simp: get_node_eq [OF new_encrypted_store_ok])
  then show ?thesis by blast
qed

end
