(* ===== verification/Sync_Safety.thy ===== *)
theory Sync_Safety
  imports Sync Write_Policy Diff_Safety
begin

text \<open>
  What a federation merge may do to a replica (\<^verbatim>\<open>crates/mem-sync/src/lib.rs\<close>): it writes only
  into repositories that the grant covers, only under a grant of the trust root, and lets no
  unsigned item into the Asserted plane. All of it is one policy on the items written, kept
  by each of the three import loops.
\<close>

section \<open>The authorization gate\<close>

abbreviation granted :: "externals \<Rightarrow> capability_grant \<Rightarrow> u64 \<Rightarrow> string \<Rightarrow> bool" where
  "granted X grant now repo \<equiv> check X grant (resource_for repo) Write now = Inr ()"

lemma rfold_unit: "rfold (\<lambda>x _. f x) xs () = Inr () \<longleftrightarrow> (\<forall>x \<in> set xs. f x = Inr ())"
  by (induction xs) auto

lemma touch_endpoints:
  assumes "rfold (touch_endpoint X ib s) eps repos = Inr repos'" "finite repos"
  shows "finite repos' \<and> repos \<subseteq> repos' \<and>
    (\<forall>ep \<in> set eps. \<exists>repo \<in> repos'. endpoint_repo X ib ep s = Inr (Some repo))"
  using assms
proof (induction eps arbitrary: repos)
  case (Cons ep eps)
  from Cons.prems(1) obtain repo where repo: "endpoint_repo X ib ep s = Inr (Some repo)"
      "rfold (touch_endpoint X ib s) eps (insert repo repos) = Inr repos'"
    by (auto simp: touch_endpoint_def [of X ib s ep] split: option.splits)
  with Cons.IH [OF repo(2)] Cons.prems(2) show ?case by auto
qed simp

lemma authorize_bundle_ok:
  assumes "authorize_bundle X grant root b now s = Inr ()"
  shows "cg_issuer_pubkey grant = root"
    and "n \<in> set (sb_nodes b) \<Longrightarrow> granted X grant now (n_repo n)"
    and "e \<in> set (sb_edges b) \<Longrightarrow> ep = e_from e \<or> ep = e_to e \<Longrightarrow>
      \<exists>repo. endpoint_repo X (bundle_repos X (sb_nodes b)) ep s = Inr (Some repo) \<and> granted X grant now repo"
proof -
  let ?ib = "bundle_repos X (sb_nodes b)"
  from assms obtain repos where root: "cg_issuer_pubkey grant = root"
      and t: "rfold (touch_endpoint X ?ib s) (edge_endpoints (sb_edges b)) (set (map n_repo (sb_nodes b))) = Inr repos"
      and c: "rfold (\<lambda>repo _. map_err Denied (check X grant (resource_for repo) Write now)) (sorted_list_of_set repos) () = Inr ()"
    by (auto simp: authorize_bundle_def Let_def split: if_splits)
  from touch_endpoints [OF t] have fin: "finite repos" and sub: "set (map n_repo (sb_nodes b)) \<subseteq> repos"
      and eps: "\<forall>ep \<in> set (edge_endpoints (sb_edges b)). \<exists>repo \<in> repos. endpoint_repo X ?ib ep s = Inr (Some repo)"
    by auto
  have g: "granted X grant now repo" if "repo \<in> repos" for repo
    using c [unfolded rfold_unit] that fin by simp
  show "cg_issuer_pubkey grant = root" by (rule root)
  show "granted X grant now (n_repo n)" if "n \<in> set (sb_nodes b)" using g sub that by auto
  show "\<exists>repo. endpoint_repo X ?ib ep s = Inr (Some repo) \<and> granted X grant now repo"
    if "e \<in> set (sb_edges b)" "ep = e_from e \<or> ep = e_to e"
  proof -
    have "ep \<in> set (edge_endpoints (sb_edges b))" using that by (auto simp: edge_endpoints_def)
    with eps g show ?thesis by blast
  qed
qed

text \<open>A bundle collides with a store when a node of it has the id of another node, stored or in
  the bundle, of a different identity.\<close>

definition bundle_collides :: "externals \<Rightarrow> sync_bundle \<Rightarrow> dag_store \<Rightarrow> bool" where
  "bundle_collides X b s \<longleftrightarrow> (\<exists>n \<in> set (sb_nodes b).
     (\<exists>m. get_node X (node_id X n) s = Inr (Some m) \<and> identity_of m \<noteq> identity_of n) \<or>
     (\<exists>m \<in> set (sb_nodes b). node_id X m = node_id X n \<and> identity_of m \<noteq> identity_of n))"

lemma bundle_collidesD:
  assumes "\<not> bundle_collides X b s" "store_ok X s" "n \<in> set (sb_nodes b)"
  shows "node_view X s (node_id X n) = Some m \<Longrightarrow> identity_of m = identity_of n"
    and "m \<in> set (sb_nodes b) \<Longrightarrow> node_id X m = node_id X n \<Longrightarrow> identity_of m = identity_of n"
proof -
  show "identity_of m = identity_of n" if "node_view X s (node_id X n) = Some m"
  proof -
    have "get_node X (node_id X n) s = Inr (Some m)" by (simp only: get_node_eq [OF assms(2)] that)
    with assms(1,3) show ?thesis unfolding bundle_collides_def by blast
  qed
  show "identity_of m = identity_of n" if "m \<in> set (sb_nodes b)" "node_id X m = node_id X n"
    using assms(1,3) that unfolding bundle_collides_def by blast
qed

lemma identity_repo: "identity_of m = identity_of n \<Longrightarrow> n_repo m = n_repo n \<and> n_plane m = n_plane n \<and> n_author m = n_author n"
  by (simp add: identity_of_def)

lemma endpoint_granted:
  assumes "endpoint_repo X (bundle_repos X ns) ep s = Inr (Some repo)" "store_ok X s" "node_view X s ep = Some m"
    and same: "\<And>n. n \<in> set ns \<Longrightarrow> node_id X n = ep \<Longrightarrow> identity_of m = identity_of n"
  shows "n_repo m = repo"
proof (cases "bundle_repos X ns ep")
  case None
  with assms show ?thesis by (simp add: endpoint_repo_def get_node_eq)
next
  case (Some r)
  from map_of_SomeD [OF Some [unfolded bundle_repos_def]]
  obtain n where n: "n \<in> set ns" "node_id X n = ep" "n_repo n = r" by auto
  have "n_repo m = n_repo n" using identity_repo [OF same [OF n(1,2)]] by simp
  with n(3) assms(1) Some show ?thesis by (simp add: endpoint_repo_def)
qed

section \<open>Signatures under merging\<close>

definition signed_store :: "externals \<Rightarrow> dag_store \<Rightarrow> bool" where
  "signed_store X s \<longleftrightarrow> (\<forall>nid n. get_node X nid s = Inr (Some n) \<longrightarrow> \<not> unsigned_node X n) \<and>
     (\<forall>e d. stored_edge X e s = Inr (Some d) \<longrightarrow> \<not> unsigned_edge X d)"

lemma signed_storeD:
  assumes "signed_store X s" "store_ok X s"
  shows "node_view X s nid = Some n \<Longrightarrow> \<not> unsigned_node X n"
    and "edge_view X s (edge_key e) = Some d \<Longrightarrow> \<not> unsigned_edge X d"
  using assms(1) unfolding signed_store_def get_node_eq [OF assms(2)] stored_edge_eq [OF assms(2)] by blast+

lemma merged_node_signed:
  assumes "identity_of l = identity_of r" "\<not> unsigned_node X l" "\<not> unsigned_node X r"
  shows "\<not> unsigned_node X (fst (merge_node l r))"
proof -
  let ?m = "fst (merge_node l r)"
  have same: "identity_of ?m = identity_of l" by (simp add: node_join_fields)
  have id: "node_id X ?m = node_id X l" "node_id X r = node_id X l"
    using compute_id_cong [OF same] compute_id_cong [OF assms(1)] by auto
  have sig: "n_signature ?m \<in> {n_signature l, n_signature r}"
    by (auto simp: node_join_fields min_opt_bytes_def split: option.splits)
  have tier: "n_trust_tier ?m \<in> {n_trust_tier l, n_trust_tier r}"
    by (auto simp: node_join_fields less_trusted_def)
  note [simp] = identity_repo [OF same] identity_repo [OF assms(1)]
  show ?thesis
  proof (cases "n_plane l = Asserted")
    case True
    then have "verify_node X l = Inr ()" "verify_node X r = Inr ()"
      using assms(2,3) identity_repo [OF assms(1)] by (simp_all add: unsigned_node_def)
    then have "verify_node X ?m = Inr ()"
      using sig tier identity_repo [OF same] identity_repo [OF assms(1)]
      by (auto simp: verify_node_def assertable_ok id)
    then show ?thesis by (simp add: unsigned_node_def)
  qed (use identity_repo [OF same] in \<open>simp add: unsigned_node_def\<close>)
qed

lemma merge_edge_cases:
  "edge_key (merge_edge l r) = edge_key l"
  "(e_plane (merge_edge l r), e_trust_tier (merge_edge l r), e_provenance (merge_edge l r), e_signature (merge_edge l r)) \<in>
     {(e_plane l, e_trust_tier l, e_provenance l, e_signature l), (e_plane r, e_trust_tier r, e_provenance r, e_signature r)}"
  by (auto simp: merge_edge_def Let_def edge_key_def)

lemma merged_edge_signed:
  assumes "edge_key l = edge_key r" "\<not> unsigned_edge X l" "\<not> unsigned_edge X r"
  shows "\<not> unsigned_edge X (merge_edge l r)"
  using merge_edge_cases [of l r] assms by (auto simp: unsigned_edge_def verify_edge_def)

lemma superseded_signed: "unsigned_node X (supersede_target e n) = unsigned_node X n"
  by (simp add: unsigned_node_def verify_node_def supersede_target_def)

section \<open>The merge policy\<close>

fun merge_policy ::
    "externals \<Rightarrow> (string \<Rightarrow> bool) \<Rightarrow> sync_bundle \<Rightarrow> dag_store \<Rightarrow> item \<Rightarrow> bool" where
  "merge_policy X G b s (INode n) \<longleftrightarrow> G (n_repo n) \<and>
     (\<forall>m. node_view X s (node_id X n) = Some m \<longrightarrow> identity_of m = identity_of n) \<and>
     (\<forall>m \<in> set (sb_nodes b). node_id X m = node_id X n \<longrightarrow> identity_of m = identity_of n) \<and>
     (signed_store X s \<longrightarrow> \<not> unsigned_node X n)"
| "merge_policy X G b s (IEdge e) \<longleftrightarrow>
     (\<forall>m. node_view X s (e_from e) = Some m \<or> node_view X s (e_to e) = Some m \<longrightarrow> G (n_repo m)) \<and>
     (signed_store X s \<longrightarrow> \<not> unsigned_edge X e)"

lemma merge_policy_cong:
  assumes "identity_of n = identity_of l" "unsigned_node X n = unsigned_node X l"
  shows "merge_policy X G b s (INode n) = merge_policy X G b s (INode l)"
  using assms identity_repo [OF assms(1)] compute_id_cong [OF assms(1), of "blake3 X"] by simp

text \<open>A node met while merging, under an id that the bundle writes to, is itself of the policy.\<close>

lemma met_node_policy:
  assumes ok: "store_ok X s" and I: "allowed_effect X (merge_policy X G b s) s z"
    and nc: "\<not> bundle_collides X b s" and l: "node_view X z nid = Some l"
    and G: "\<And>m. node_view X s nid = Some m \<Longrightarrow> G (n_repo m)"
  shows "merge_policy X G b s (INode l)"
proof -
  have id: "node_id X l = nid" by (rule node_view_id(1) [OF allowed_ok [OF I] l])
  from allowed_origin(1) [OF I l] show ?thesis
  proof
    assume old: "node_view X s nid = Some l"
    have "identity_of m = identity_of l" if "m \<in> set (sb_nodes b)" "node_id X m = nid" for m
      using bundle_collidesD(1) [OF nc ok that(1), of l] old that(2) by simp
    with old id G [OF old] signed_storeD(1) [OF _ ok old] show ?thesis by auto
  qed
qed

lemma import_node_policy:
  assumes X: "externals_ok X" and ok: "store_ok X s" and nc: "\<not> bundle_collides X b s"
    and n: "n \<in> set (sb_nodes b)" "json_safe n" "G (n_repo n)"
    and I: "allowed_effect X (merge_policy X G b s) s z" and run: "import_node X n out z = (r, z')"
  shows "allowed_effect X (merge_policy X G b s) s z'"
proof (cases "unsigned_node X n")
  case True
  with run I show ?thesis by (auto simp: import_node_def)
next
  case False
  note same = bundle_collidesD [OF nc ok n(1)]
  have pn: "merge_policy X G b s (INode n)"
    using same n(3) False by (auto dest: identity_repo)
  have okz: "store_ok X z" by (rule allowed_ok [OF I])
  show ?thesis
  proof (cases "node_view X z (node_id X n)")
    case None
    then obtain p where "put_node X n z = (p, z')"
      using run False by (auto simp: import_node_def sbind_def smap_err_def get_node_eq [OF okz] split: prod.splits sum.splits)
    then show ?thesis by (rule allowed_put_node [OF X I n(2) pn])
  next
    case (Some l)
    have "G (n_repo m)" if "node_view X s (node_id X n) = Some m" for m
      using same(1) [OF that] n(3) identity_repo by metis
    then have pl: "merge_policy X G b s (INode l)" by (rule met_node_policy [OF ok I nc Some])
    have idl: "node_id X l = node_id X n" by (rule node_view_id(1) [OF okz Some])
    with pl n(1) have eq: "identity_of l = identity_of n" by auto
    let ?j = "fst (merge_node l n)"
    have "identity_of ?j = identity_of l" by (simp add: node_join_fields)
    moreover have "\<not> unsigned_node X ?j" if "signed_store X s"
      by (rule merged_node_signed [OF eq _ False]) (use pl that in simp)
    ultimately have pj: "merge_policy X G b s (INode ?j)"
      using pl identity_repo [of ?j l] compute_id_cong [of ?j l "blake3 X"] by simp
    have sj: "json_safe ?j" by (rule joined_safe [OF node_view_id(2) [OF okz Some] n(2)])
    have "z' = z \<or> (\<exists>p. put_node X ?j z = (p, z'))"
      using run False Some by (auto simp: import_node_def sbind_def smap_err_def get_node_eq [OF okz] Let_def
          split: prod.splits sum.splits if_splits)
    then show ?thesis using I allowed_put_node [OF X I sj pj] by auto
  qed
qed

lemma edge_ends:
  assumes "edge_key d = edge_key e"
  shows "e_from d = e_from e" "e_to d = e_to e" "e_kind d = e_kind e"
  using assms in_key_inject [of d e] key_iff [of d e] by auto

definition ends_granted :: "externals \<Rightarrow> (string \<Rightarrow> bool) \<Rightarrow> dag_store \<Rightarrow> edge \<Rightarrow> bool" where
  "ends_granted X G s e \<longleftrightarrow>
     (\<forall>m. node_view X s (e_from e) = Some m \<or> node_view X s (e_to e) = Some m \<longrightarrow> G (n_repo m))"

lemma import_edge_policy:
  assumes X: "externals_ok X" and ok: "store_ok X s" and e: "ends_granted X G s e"
    and I: "allowed_effect X (merge_policy X G b s) s z" and run: "import_edge X e out z = (r, z')"
  shows "allowed_effect X (merge_policy X G b s) s z'"
proof (cases "unsigned_edge X e")
  case True
  with run I show ?thesis by (auto simp: import_edge_def)
next
  case False
  have okz: "store_ok X z" by (rule allowed_ok [OF I])
  obtain es where es: "out_edges X (e_from e) z = Inr es" by (rule out_edges_spec [OF okz])
  note find = find_edge [OF okz es]
  have pe: "merge_policy X G b s (IEdge e)" using e False by (simp add: ends_granted_def)
  show ?thesis
  proof (cases "edge_view X z (edge_key e)")
    case None
    then obtain p where "add_edge X e z = (p, z')"
      using run False by (auto simp: import_edge_def sbind_def smap_err_def es find split: prod.splits sum.splits)
    then show ?thesis by (rule allowed_add_edge [OF X I pe])
  next
    case (Some l)
    have key: "edge_key l = edge_key e" by (rule edge_view_key [OF okz Some])
    have "\<not> unsigned_edge X l" if signed: "signed_store X s"
      using allowed_origin(2) [OF I Some] signed_storeD(2) [OF signed ok] signed by auto
    then have "\<not> unsigned_edge X (merge_edge l e)" if "signed_store X s"
      using merged_edge_signed [OF key _ False] that by blast
    moreover have "edge_key (merge_edge l e) = edge_key e" by (simp add: merge_edge_cases key)
    ultimately have pm: "merge_policy X G b s (IEdge (merge_edge l e))"
      using e by (simp add: ends_granted_def edge_ends [of "merge_edge l e" e])
    have "z' = z \<or> (\<exists>p. add_edge X (merge_edge l e) z = (p, z'))"
      using run False Some by (auto simp: import_edge_def sbind_def smap_err_def es find
          split: prod.splits sum.splits if_splits)
    then show ?thesis using I allowed_add_edge [OF X I pm] by auto
  qed
qed

lemma import_supersession_run:
  assumes "import_supersession X e out z = (r, z')" "store_ok X z" "\<not> unsigned_edge X e"
  obtains p where "apply_supersession X e z = (p, z')"
proof -
  obtain es where "out_edges X (e_from e) z = Inr es" by (rule out_edges_spec [OF assms(2)])
  with assms that show ?thesis
    by (auto simp: import_supersession_def sbind_def smap_err_def Let_def
        split: prod.splits sum.splits supersession_error.splits)
qed

lemma import_supersession_policy:
  assumes X: "externals_ok X" and ok: "store_ok X s" and nc: "\<not> bundle_collides X b s"
    and e: "ends_granted X G s e"
    and I: "allowed_effect X (merge_policy X G b s) s z" and run: "import_supersession X e out z = (r, z')"
  shows "allowed_effect X (merge_policy X G b s) s z'"
proof (cases "unsigned_edge X e")
  case True
  with run I show ?thesis by (auto simp: import_supersession_def)
next
  case False
  have pe: "merge_policy X G b s (IEdge e)" using e False by (simp add: ends_granted_def)
  have pt: "merge_policy X G b s (INode (supersede_target e t))" if t: "node_view X z (e_to e) = Some t" for t
  proof -
    have "merge_policy X G b s (INode t)"
      by (rule met_node_policy [OF ok I nc t]) (use e in \<open>auto simp: ends_granted_def\<close>)
    moreover have "identity_of (supersede_target e t) = identity_of t"
      by (simp add: identity_of_def supersede_target_def)
    ultimately show ?thesis using merge_policy_cong superseded_signed by blast
  qed
  obtain p where p: "apply_supersession X e z = (p, z')"
    by (rule import_supersession_run [OF run allowed_ok [OF I] False])
  show ?thesis by (rule allowed_supersession [OF X I pe _ p]) (rule pt)
qed

lemma merge_bundle_policy:
  assumes X: "externals_ok X" and ok: "store_ok X s" and nc: "\<not> bundle_collides X b s"
    and safe: "\<forall>n \<in> set (sb_nodes b). json_safe n" and run: "merge_bundle X b grant root now s = (r, s')"
  shows "allowed_effect X (merge_policy X (granted X grant now) b s) s s'"
proof (cases "authorize_bundle X grant root b now s")
  case (Inl e)
  with run allowed_refl [OF ok] show ?thesis by (simp add: merge_bundle_def sread_bind)
next
  case (Inr u)
  then have auth: "authorize_bundle X grant root b now s = Inr ()" by simp
  note A = authorize_bundle_ok [OF auth]
  let ?I = "allowed_effect X (merge_policy X (granted X grant now) b s) s"
  have ends: "ends_granted X (granted X grant now) s e" if "e \<in> set (sb_edges b)" for e
  proof -
    have "granted X grant now (n_repo m)" if ep: "ep = e_from e \<or> ep = e_to e" and m: "node_view X s ep = Some m" for ep m
    proof -
      obtain repo where r: "endpoint_repo X (bundle_repos X (sb_nodes b)) ep s = Inr (Some repo)" "granted X grant now repo"
        using A(3) [OF \<open>e \<in> set (sb_edges b)\<close> ep] by blast
      have "n_repo m = repo"
        by (rule endpoint_granted [OF r(1) ok m]) (use bundle_collidesD(1) [OF nc ok] m in blast)
      with r(2) show ?thesis by simp
    qed
    then show ?thesis unfolding ends_granted_def by blast
  qed
  let ?es = "sort_key edge_key (sb_edges b)"
  obtain r1 s1 where n: "sfold (import_node X) (sort_key (id_key X) (sb_nodes b)) default_outcome s = (r1, s1)"
    by (cases "sfold (import_node X) (sort_key (id_key X) (sb_nodes b)) default_outcome s")
  have I1: "?I s1"
    by (rule sfold_invariant [where I = ?I, OF _ allowed_refl [OF ok] n])
      (rule import_node_policy [OF X ok nc], use safe A(2) in auto)
  have keep: "?I q'" if "?I q" "sfold (import_edge X) (filter (Not \<circ> is_supersession) ?es) out q = (x, q')" for out q x q'
    by (rule sfold_invariant [where I = ?I, OF _ that]) (rule import_edge_policy [OF X ok], use ends in auto)
  have keep': "?I q'" if "?I q" "sfold (import_supersession X) (filter is_supersession ?es) out q = (x, q')" for out q x q'
    by (rule sfold_invariant [where I = ?I, OF _ that]) (rule import_supersession_policy [OF X ok nc], use ends in auto)
  show ?thesis
    using run n I1 by (auto simp: merge_bundle_def sread_bind auth sbind_def Let_def split: prod.splits sum.splits
        dest!: keep [rotated] dest: keep' [rotated])
qed

section \<open>Properties of a merge\<close>

text \<open>C9. A merge stays inside the repositories its grant covers, whatever the bundle holds and whatever
  it returns: a stored node of a repository the grant may not write reads the same
  afterwards, so does every edge with such a node at an end, every node that appears belongs
  to a covered repository, and a grant that the trust root did not issue changes nothing. The
  one way out is a collision of node ids with the bundle.\<close>

theorem merge_stays_in_granted_repos:
  assumes "externals_ok X" "store_ok X s" "\<not> bundle_collides X b s" "\<forall>n \<in> set (sb_nodes b). json_safe n"
    and "merge_bundle X b grant root now s = (r, s')"
  shows "store_ok X s' \<and>
    (\<forall>nid m. get_node X nid s = Inr (Some m) \<and> check X grant (resource_for (n_repo m)) Write now \<noteq> Inr () \<longrightarrow>
       get_node X nid s' = Inr (Some m)) \<and>
    (\<forall>nid m. get_node X nid s = Inr None \<and> get_node X nid s' = Inr (Some m) \<longrightarrow>
       check X grant (resource_for (n_repo m)) Write now = Inr ()) \<and>
    (\<forall>e m. (get_node X (e_from e) s = Inr (Some m) \<or> get_node X (e_to e) s = Inr (Some m)) \<and>
       check X grant (resource_for (n_repo m)) Write now \<noteq> Inr () \<longrightarrow> stored_edge X e s' = stored_edge X e s) \<and>
    (cg_issuer_pubkey grant \<noteq> root \<longrightarrow> r = Inl UntrustedIssuer \<and> s' = s)"
proof -
  note I = merge_bundle_policy [OF assms]
  note ok' = allowed_ok [OF I]
  have old: "node_view X s' nid = Some m" if "node_view X s nid = Some m" "\<not> granted X grant now (n_repo m)" for nid m
  proof -
    have "node_view X s' nid = node_view X s nid"
    proof (rule allowed_protects(1) [OF I])
      fix n
      assume n: "merge_policy X (granted X grant now) b s (INode n)"
      show "node_id X n \<noteq> nid"
      proof
        assume "node_id X n = nid"
        with n that(1) have "granted X grant now (n_repo n)" "identity_of m = identity_of n" by simp_all
        with that(2) identity_repo [of m n] show False by simp
      qed
    qed
    with that(1) show ?thesis by simp
  qed
  have fresh: "granted X grant now (n_repo m)" if "node_view X s nid = None" "node_view X s' nid = Some m" for nid m
    using allowed_origin(1) [OF I that(2)] that(1) by auto
  have edges: "edge_view X s' (edge_key e) = edge_view X s (edge_key e)"
    if "node_view X s (e_from e) = Some m \<or> node_view X s (e_to e) = Some m" "\<not> granted X grant now (n_repo m)" for e m
  proof (rule allowed_protects(2) [OF I])
    fix d
    assume d: "merge_policy X (granted X grant now) b s (IEdge d)"
    show "edge_key d \<noteq> edge_key e"
    proof
      assume "edge_key d = edge_key e"
      from edge_ends [OF this] d that show False by auto
    qed
  qed
  have root: "cg_issuer_pubkey grant \<noteq> root \<longrightarrow> r = Inl UntrustedIssuer \<and> s' = s"
    using assms(5) by (auto simp: merge_bundle_def sread_bind authorize_bundle_def)
  show ?thesis
    unfolding get_node_eq [OF assms(2)] get_node_eq [OF ok'] stored_edge_eq [OF assms(2)] stored_edge_eq [OF ok'] sum.inject
  proof (intro conjI allI impI)
    fix nid m
    show "node_view X s' nid = Some m" if "node_view X s nid = Some m \<and> \<not> granted X grant now (n_repo m)"
      using old that by blast
    show "granted X grant now (n_repo m)" if "node_view X s nid = None \<and> node_view X s' nid = Some m"
      using fresh that by blast
  next
    fix e :: edge and m
    assume "(node_view X s (e_from e) = Some m \<or> node_view X s (e_to e) = Some m) \<and> \<not> granted X grant now (n_repo m)"
    then show "edge_view X s' (edge_key e) = edge_view X s (edge_key e)" using edges by blast
  qed (use ok' root in auto)
qed

lemma sample_stored:
  obtains s where "store_ok ideal_externals s" "\<not> ds_encrypt s"
    "get_node ideal_externals (node_id ideal_externals sample_node) s = Inr (Some sample_node)"
    "\<And>nid. nid \<noteq> node_id ideal_externals sample_node \<Longrightarrow> get_node ideal_externals nid s = Inr None"
    "\<And>e. stored_edge ideal_externals e s = Inr None"
proof -
  let ?X = ideal_externals
  obtain s where "put_node ?X sample_node (new kv_new) = (Inr (node_id ?X sample_node), s)"
    using put_node_total [OF ideal_externals_ok ideal_externals_total new_store_ok] by blast
  from put_node_effect [OF ideal_externals_ok new_store_ok sample_node_safe this]
  have eff: "effect ?X (new kv_new) s [INode sample_node]" by auto
  have ok: "store_ok ?X s" by (rule effect_ok [OF eff])
  have empty: "node_view ?X (new kv_new) = Map.empty" "edge_view ?X (new kv_new) = Map.empty"
    by (auto simp: node_view_def row_view_def new_def)
  show ?thesis
  proof (rule that [OF ok])
    show "\<not> ds_encrypt s" using eff by (simp add: effect_def new_def)
  qed (use eff in \<open>simp_all add: get_node_eq [OF ok] stored_edge_eq [OF ok] effect_def empty\<close>)
qed

text \<open>C9, a peer whose grant reads one other repository pushes a retired copy of the stored node.\<close>

theorem merge_stays_in_granted_repos_witness:
  "\<exists>s r s'. let X = ideal_externals; g = sign_with X 5 sample_grant;
       b = \<lparr>sb_repo = ''citrate-chain'', sb_exported_at_ms = 0, sb_nodes = [sample_node\<lparr>n_status := Superseded\<rparr>], sb_edges = []\<rparr>
     in get_node X (node_id X sample_node) s = Inr (Some sample_node) \<and>
        merge_bundle X b g (cg_issuer_pubkey g) 0 s = (r, s') \<and> get_node X (node_id X sample_node) s' = Inr (Some sample_node)"
proof (rule sample_stored)
  fix s
  let ?X = ideal_externals and ?g = "sign_with ideal_externals 5 sample_grant"
  let ?b = "\<lparr>sb_repo = ''citrate-chain'', sb_exported_at_ms = 0, sb_nodes = [sample_node\<lparr>n_status := Superseded\<rparr>], sb_edges = []\<rparr>"
  assume ok: "store_ok ?X s" and got: "get_node ?X (node_id ?X sample_node) s = Inr (Some sample_node)"
  obtain r s' where run: "merge_bundle ?X ?b ?g (cg_issuer_pubkey ?g) 0 s = (r, s')"
    by (cases "merge_bundle ?X ?b ?g (cg_issuer_pubkey ?g) 0 s")
  have nc: "\<not> bundle_collides ?X ?b s" by (auto simp: bundle_collides_def got identity_of_def)
  have safe: "\<forall>n \<in> set (sb_nodes ?b). json_safe n" using sample_node_safe by (simp add: json_safe_def)
  have "check ?X ?g (resource_for (n_repo sample_node)) Write 0 \<noteq> Inr ()"
    by (simp add: check_def sign_with_def Let_def sample_grant_def sample_node_def resource_for_def resource_matches_def)
  with merge_stays_in_granted_repos [OF ideal_externals_ok ok nc safe run] got
  have "get_node ?X (node_id ?X sample_node) s' = Inr (Some sample_node)" by blast
  with got run show ?thesis unfolding Let_def by blast
qed

section \<open>The Asserted plane stays signed\<close>

abbreviation signed_item :: "externals \<Rightarrow> item \<Rightarrow> bool" where
  "signed_item X it \<equiv> (case it of INode n \<Rightarrow> \<not> unsigned_node X n | IEdge e \<Rightarrow> \<not> unsigned_edge X e)"

lemma signed_effect:
  assumes "signed_store X s" "store_ok X s" "allowed_effect X (signed_item X) s s'"
  shows "signed_store X s'"
proof -
  note ok' = allowed_ok [OF assms(3)] and D = signed_storeD [OF assms(1,2)] and O = allowed_origin [OF assms(3)]
  have "\<not> unsigned_node X n" if "node_view X s' nid = Some n" for nid n
    using O(1) [OF that] D(1) by auto
  moreover have "\<not> unsigned_edge X d" if "edge_view X s' (edge_key e) = Some d" for e d
    using O(2) [OF that] D(2) by auto
  ultimately show ?thesis
    unfolding signed_store_def get_node_eq [OF ok'] stored_edge_eq [OF ok'] by simp
qed

lemma verified_diff:
  assumes "verify_diff X diff = Inr ()"
  shows "n \<in> set (md_nodes diff) \<Longrightarrow> \<not> unsigned_node X n" and "e \<in> set (md_edges diff) \<Longrightarrow> \<not> unsigned_edge X e"
  using assms by (auto simp: verify_diff_def rfold_unit unsigned_node_def unsigned_edge_def)

lemma incoming_signed: "unsigned_node X (incoming_node now own n) = unsigned_node X n"
  by (simp add: unsigned_node_def verify_node_def incoming_node_def Let_def)

lemma plan_node_signed:
  assumes ok: "store_ok X s" and signed: "signed_store X s" and nc: "\<not> diff_collides X diff s"
    and n: "n \<in> set (md_nodes diff)" "json_safe n" "\<not> unsigned_node X n"
    and run: "plan_node X now caller s n (w, u) = Inr (w', u')" and w: "\<forall>x \<in> set w. json_safe x \<and> \<not> unsigned_node X x"
  shows "\<forall>x \<in> set w'. json_safe x \<and> \<not> unsigned_node X x"
proof (cases "node_view X s (node_id X n)")
  case None
  then have "w' = w @ [incoming_node now (caller = Some (n_author n)) n]"
    using run by (auto simp: plan_node_def Let_def get_node_eq [OF ok] split: if_splits)
  with w n show ?thesis by (auto simp: incoming_safe incoming_signed)
next
  case (Some m)
  let ?i = "incoming_node now (caller = Some (n_author n)) n"
  have "get_node X (node_id X n) s = Inr (Some m)" by (simp only: get_node_eq [OF ok] Some)
  with nc n(1) have "identity_of m = identity_of n" unfolding diff_collides_def by blast
  then have "identity_of m = identity_of ?i" by (simp add: incoming_node_def Let_def identity_of_def)
  from merged_node_signed [OF this signed_storeD(1) [OF signed ok Some]] n(3)
  have "\<not> unsigned_node X (fst (merge_node m ?i))" by (simp add: incoming_signed)
  moreover have "json_safe (fst (merge_node m ?i))"
    by (rule joined_safe [OF node_view_id(2) [OF ok Some] incoming_safe [OF n(2)]])
  moreover have "w' = w \<or> w' = w @ [fst (merge_node m ?i)]"
    using run Some by (auto simp: plan_node_def Let_def get_node_eq [OF ok] split: if_splits prod.splits)
  ultimately show ?thesis using w by auto
qed

lemma plan_edge_adds:
  assumes "plan_edge X now caller diff s e (p, q) = Inr r"
  shows "r \<in> {(p, q), (p @ [e], q), (p, q @ [e])}"
proof (cases "out_edges X (e_from e) s")
  case (Inl m)
  with assms show ?thesis by (simp add: plan_edge_def)
next
  case (Inr es)
  then show ?thesis using assms unfolding plan_edge_def
    by (auto simp: Let_def split: edge_verdict.splits option.splits if_splits)
qed

lemma plan_edges_subset:
  assumes "rfold (plan_edge X now caller diff s) es ([], []) = Inr ep"
  shows "set (fst ep) \<union> set (snd ep) \<subseteq> set es"
  by (rule rfold_invariant [where I = "\<lambda>ep. set (fst ep) \<union> set (snd ep) \<subseteq> set es", OF _ _ assms])
    (auto dest!: plan_edge_adds)

lemma apply_diff_signed:
  assumes X: "externals_ok X" and ok: "store_ok X s" and signed: "signed_store X s" and nc: "\<not> diff_collides X diff s"
    and safe: "\<forall>n \<in> set (md_nodes diff). json_safe n" and run: "apply_diff X now diff caller s = (r, s')"
  shows "allowed_effect X (signed_item X) s s'"
proof (cases "plan_diff X now diff caller s")
  case (Inl err)
  with run allowed_refl [OF ok] show ?thesis by (simp add: refused_diff)
next
  case (Inr plan)
  then obtain w u p q where plan: "plan_diff X now diff caller s = Inr ((w, u), p, q)" by (metis surj_pair)
  note V = verified_diff [OF plan_diff_Inr(1) [OF plan]]
  have w: "\<forall>n \<in> set (fst (w, u)). json_safe n \<and> \<not> unsigned_node X n"
  proof (rule rfold_invariant [where I = "\<lambda>np. \<forall>n \<in> set (fst np). json_safe n \<and> \<not> unsigned_node X n",
        OF _ _ plan_diff_Inr(2) [OF plan]])
    fix n a c
    assume n: "n \<in> set (md_nodes diff)" and a: "\<forall>x \<in> set (fst a). json_safe x \<and> \<not> unsigned_node X x"
      and run: "plan_node X now caller s n a = Inr c"
    have eta: "plan_node X now caller s n (fst a, snd a) = Inr (fst c, snd c)" using run by simp
    have "json_safe n" using safe n by blast
    from plan_node_signed [OF ok signed nc n this V(1) [OF n] eta a]
    show "\<forall>x \<in> set (fst c). json_safe x \<and> \<not> unsigned_node X x" .
  qed simp
  have es: "set p \<union> set q \<subseteq> set (md_edges diff)" using plan_edges_subset [OF plan_diff_Inr(3) [OF plan]] by simp
  show ?thesis
  proof (rule planned_writes_allowed [OF X ok plan _ _ _ run])
    show "\<forall>n \<in> set w. json_safe n \<and> signed_item X (INode n)" using w by simp
    show "\<forall>e \<in> set p \<union> set q. signed_item X (IEdge e)" using es V(2) by auto
    show "signed_item X (INode (supersede_target e t))"
      if I: "allowed_effect X (signed_item X) s z" and t: "node_view X z (e_to e) = Some t" for e z t
      using signed_storeD(1) [OF signed_effect [OF signed ok I] allowed_ok [OF I] t] by (simp add: superseded_signed)
  qed
qed

text \<open>C10. Nothing unsigned enters the Asserted plane: if every Asserted node and edge of a replica
  verifies under the key of its author (and has a tier that may be asserted), then the same
  holds after any federation merge and after any session diff, accepted or refused, hash
  collisions apart. Merged copies keep verifying although their fields come from two
  replicas.\<close>

theorem asserted_plane_stays_signed:
  assumes "externals_ok X" "store_ok X s" "signed_store X s"
    and "(\<exists>r. merge_bundle X b grant root now s = (r, s')) \<and> \<not> bundle_collides X b s \<and>
           (\<forall>n \<in> set (sb_nodes b). json_safe n) \<or>
         (\<exists>r. apply_diff X now diff caller s = (r, s')) \<and> \<not> diff_collides X diff s \<and>
           (\<forall>n \<in> set (md_nodes diff). json_safe n)"
  shows "signed_store X s'"
  using assms(4)
proof (elim disjE conjE exE)
  fix r
  assume "merge_bundle X b grant root now s = (r, s')" "\<not> bundle_collides X b s" "\<forall>n \<in> set (sb_nodes b). json_safe n"
  then have "allowed_effect X (merge_policy X (granted X grant now) b s) s s'"
    by (intro merge_bundle_policy [OF assms(1,2)])
  then have "allowed_effect X (signed_item X) s s'"
    by (rule allowed_mono) (use assms(3) in \<open>auto split: item.splits elim: merge_policy.elims\<close>)
  then show ?thesis by (rule signed_effect [OF assms(3,2)])
next
  fix r
  assume "apply_diff X now diff caller s = (r, s')" "\<not> diff_collides X diff s" "\<forall>n \<in> set (md_nodes diff). json_safe n"
  then have "allowed_effect X (signed_item X) s s'" by (intro apply_diff_signed [OF assms(1-3)])
  then show ?thesis by (rule signed_effect [OF assms(3,2)])
qed

text \<open>C10, an unsigned node pushed into an empty replica.\<close>

theorem asserted_plane_stays_signed_witness:
  "\<exists>r s'. merge_bundle ideal_externals
       \<lparr>sb_repo = ''citrate-chain'', sb_exported_at_ms = 0, sb_nodes = [sample_node], sb_edges = []\<rparr>
       (sign_with ideal_externals 5 sample_grant) [] 0 (new kv_new) = (r, s') \<and> signed_store ideal_externals s'"
proof -
  let ?X = ideal_externals and ?b = "\<lparr>sb_repo = ''citrate-chain'', sb_exported_at_ms = 0, sb_nodes = [sample_node], sb_edges = []\<rparr>"
  have empty: "node_view ?X (new kv_new) = Map.empty" "edge_view ?X (new kv_new) = Map.empty"
    by (auto simp: node_view_def row_view_def new_def)
  have signed: "signed_store ?X (new kv_new)" and nc: "\<not> bundle_collides ?X ?b (new kv_new)"
    by (simp_all add: signed_store_def bundle_collides_def get_node_eq [OF new_store_ok] stored_edge_eq [OF new_store_ok] empty)
  obtain r s' where run: "merge_bundle ?X ?b (sign_with ?X 5 sample_grant) [] 0 (new kv_new) = (r, s')"
    by (cases "merge_bundle ?X ?b (sign_with ?X 5 sample_grant) [] 0 (new kv_new)")
  have "signed_store ?X s'"
    by (rule asserted_plane_stays_signed [OF ideal_externals_ok new_store_ok signed]) (use run nc in auto)
  with run show ?thesis by blast
qed

end
