(* ===== verification/Text.thy ===== *)
theory Text
  imports Prelude
begin

text \<open>
  The string functions of Rust's standard library that the network-facing code uses, on UTF-8
  bytes: trimming, prefixes, ASCII case, white-space splitting, and parsing and printing of
  unsigned integers.
\<close>

section \<open>White space\<close>

text \<open>The number of bytes of the white-space character a text starts with, 0 when there is none.\<close>

fun white_len :: "bytes \<Rightarrow> nat" where
  "white_len [] = 0"
| "white_len (a # bs) =
     (if (9 \<le> a \<and> a \<le> 13) \<or> a = 32 then 1
      else if all_white (take 2 (a # bs)) \<and> length bs \<ge> 1 then 2
      else if all_white (take 3 (a # bs)) \<and> length bs \<ge> 2 then 3
      else 0)"

function trim_start :: "bytes \<Rightarrow> bytes" where
  "trim_start b = (if white_len b = 0 \<or> b = [] then b else trim_start (drop (white_len b) b))"
  by pat_completeness auto
termination
  by (relation "measure length") auto

declare trim_start.simps [simp del]

text \<open>In well-formed UTF-8 the rest after a cut is all white only if the cut is at a character.\<close>

definition trim_end :: "bytes \<Rightarrow> bytes" where
  "trim_end b = (case List.find (\<lambda>k. all_white (drop k b)) [0..<length b] of None \<Rightarrow> b | Some k \<Rightarrow> take k b)"

definition trim :: "string \<Rightarrow> string" where
  "trim s = of_bytes (trim_end (trim_start (as_bytes s)))"

text \<open>\<^verbatim>\<open>split_whitespace\<close>: the maximal runs of characters that are not white space.\<close>

function split_white :: "bytes \<Rightarrow> bytes \<Rightarrow> bytes list" where
  "split_white cur b =
     (if b = [] then (if cur = [] then [] else [cur])
      else if white_len b = 0 then split_white (cur @ [hd b]) (tl b)
      else (if cur = [] then [] else [cur]) @ split_white [] (drop (white_len b) b))"
  by pat_completeness auto
termination
  by (relation "measure (\<lambda>(cur, b). length b)") auto

declare split_white.simps [simp del]

section \<open>Prefixes and case\<close>

definition strip_prefix :: "string \<Rightarrow> string \<Rightarrow> string option" where
  "strip_prefix p s = (if take (length p) s = p then Some (drop (length p) s) else None)"

lemma strip_prefix_append [simp]: "strip_prefix p (p @ s) = Some s"
  by (simp add: strip_prefix_def)

definition to_lower_char :: "char \<Rightarrow> char" where
  "to_lower_char c = (let n = of_char c :: nat in if 65 \<le> n \<and> n \<le> 90 then char_of (n + 32) else c)"

definition to_ascii_lowercase :: "string \<Rightarrow> string" where
  "to_ascii_lowercase s = map to_lower_char s"

section \<open>Unsigned integers\<close>

datatype parse_int_error = EmptyInt | InvalidDigit | PosOverflow

fun parse_int_text :: "parse_int_error \<Rightarrow> string" where
  "parse_int_text EmptyInt = ''cannot parse integer from empty string''"
| "parse_int_text InvalidDigit = ''invalid digit found in string''"
| "parse_int_text PosOverflow = ''number too large to fit in target type''"

definition to_digit :: "nat \<Rightarrow> char \<Rightarrow> nat option" where
  "to_digit radix c =
     (let n = of_char c :: nat;
          d = (if 48 \<le> n \<and> n \<le> 57 then Some (n - 48)
               else if 97 \<le> n \<and> n \<le> 122 then Some (n - 87)
               else if 65 \<le> n \<and> n \<le> 90 then Some (n - 55)
               else None)
      in case d of None \<Rightarrow> None | Some v \<Rightarrow> if v < radix then Some v else None)"

fun parse_digits :: "nat \<Rightarrow> nat \<Rightarrow> string \<Rightarrow> (parse_int_error, nat) result" where
  "parse_digits radix acc [] = Inr acc"
| "parse_digits radix acc (c # cs) =
     (case to_digit radix c of
        None \<Rightarrow> Inl InvalidDigit
      | Some d \<Rightarrow>
          if acc * radix \<ge> 2 ^ 64 then Inl PosOverflow
          else if acc * radix + d \<ge> 2 ^ 64 then Inl PosOverflow
          else parse_digits radix (acc * radix + d) cs)"

text \<open>\<^verbatim>\<open>u64::from_str_radix\<close> and \<^verbatim>\<open>str::parse::<usize>\<close> (64-bit): an optional plus sign, then at least
  one digit.\<close>

definition from_str_radix :: "nat \<Rightarrow> string \<Rightarrow> (parse_int_error, u64) result" where
  "from_str_radix radix s =
     (if s = [] then Inl EmptyInt
      else if s = ''+'' \<or> s = ''-'' then Inl InvalidDigit
      else rbind (parse_digits radix 0 (if hd s = CHR ''+'' then tl s else s)) (\<lambda>n. Inr (of_nat n)))"

fun digit_char :: "nat \<Rightarrow> char" where
  "digit_char d = char_of (if d < 10 then 48 + d else 87 + d)"

text \<open>Printing in a radix, as \<^verbatim>\<open>{:x}\<close> does for radix 16.\<close>

function print_radix :: "nat \<Rightarrow> nat \<Rightarrow> string" where
  "print_radix radix n =
     (if radix < 2 \<or> n < radix then [digit_char n] else print_radix radix (n div radix) @ [digit_char (n mod radix)])"
  by pat_completeness auto
termination
  by (relation "measure snd") auto

declare print_radix.simps [simp del]

lemma to_digit_digit_char:
  assumes "d < radix" "radix \<le> 16"
  shows "to_digit radix (digit_char d) = Some d"
proof -
  have "of_char (digit_char d) = (if d < 10 then 48 + d else 87 + d)" using assms by simp
  then show ?thesis using assms by (auto simp: to_digit_def Let_def)
qed

lemma parse_digits_append:
  "parse_digits radix acc (s @ t) = rbind (parse_digits radix acc s) (\<lambda>a. parse_digits radix a t)"
  by (induction radix acc s rule: parse_digits.induct) (auto split: option.splits)

lemma parse_print:
  assumes "2 \<le> radix" "radix \<le> 16" "n < 2 ^ 64"
  shows "parse_digits radix 0 (print_radix radix n) = Inr n"
  using assms
proof (induction n rule: less_induct)
  case (less n)
  show ?case
  proof (cases "n < radix")
    case True
    have "to_digit radix (digit_char n) = Some n" by (rule to_digit_digit_char [OF True less.prems(2)])
    with True less.prems show ?thesis by (simp add: print_radix.simps [of radix n])
  next
    case False
    have n: "n div radix * radix + n mod radix = n" by simp
    have lt: "n div radix < n" using False less.prems(1) by simp
    then have IH: "parse_digits radix 0 (print_radix radix (n div radix)) = Inr (n div radix)"
      by (rule less.IH) (use less.prems lt in simp_all)
    have "n mod radix < radix" using less.prems(1) by simp
    then have "to_digit radix (digit_char (n mod radix)) = Some (n mod radix)"
      using less.prems(2) by (rule to_digit_digit_char)
    moreover have "n div radix * radix < 2 ^ 64" using less.prems(3) n by linarith
    ultimately show ?thesis
      using False less.prems n by (simp add: print_radix.simps [of radix n] parse_digits_append IH del: div_mult_mod_eq)
  qed
qed

text \<open>The value of a digit string, without a bound.\<close>

fun digits_value :: "nat \<Rightarrow> nat \<Rightarrow> string \<Rightarrow> nat option" where
  "digits_value radix acc [] = Some acc"
| "digits_value radix acc (c # cs) =
     (case to_digit radix c of None \<Rightarrow> None | Some d \<Rightarrow> digits_value radix (acc * radix + d) cs)"

lemma digits_value_ge: "0 < radix \<Longrightarrow> digits_value radix acc s = Some n \<Longrightarrow> acc \<le> n"
proof (induction radix acc s rule: digits_value.induct)
  case (2 radix acc c cs)
  then obtain d where d: "to_digit radix c = Some d" "digits_value radix (acc * radix + d) cs = Some n"
    by (auto split: option.splits)
  from 2(1) [OF d(1) 2(2) d(2)] 2(2) have "acc * radix + d \<le> n" by simp
  moreover have "acc \<le> acc * radix" using 2(2) by simp
  ultimately show ?case by linarith
qed simp

lemma parse_digits_value:
  assumes "0 < radix" "acc < 2 ^ 64"
  shows "parse_digits radix acc s = Inr n \<longleftrightarrow> digits_value radix acc s = Some n \<and> n < 2 ^ 64"
  using assms
proof (induction radix acc s rule: parse_digits.induct)
  case (2 radix acc c cs)
  show ?case
  proof (cases "to_digit radix c")
    case (Some d)
    show ?thesis
    proof (cases "acc * radix + d < 2 ^ 64")
      case True
      then show ?thesis using 2 Some by simp
    next
      case False
      then show ?thesis using Some digits_value_ge [OF 2(2), of "acc * radix + d" cs n] by auto
    qed
  qed simp
qed auto

end
