(* ===== verification/Transport.thy ===== *)
theory Transport
  imports Sync_Safety Text
begin

text \<open>
  The bundle transport (\<^verbatim>\<open>crates/mem-sync/src/transport.rs\<close>): the peer credential, the server side
  of one connection from the first byte to the response, and the client calls. The bytes a
  peer sends are an input list that ends in end-of-file or in a read error (the socket
  timeout); what is sent back is an output list. JSON codecs, the HTTP client and the text of
  two standard-library messages are the parameter \<open>W\<close>; the system clock is \<open>now\<close>.
\<close>

section \<open>Data\<close>

record peer_auth =
  pa_trust_root :: bytes
  pa_audience :: string
  pa_revoked_ids :: "string set"

record wire =
  grant_to_json :: "capability_grant \<Rightarrow> (string, bytes) result"
  grant_from_json :: "bytes \<Rightarrow> (string, capability_grant) result"
  bundle_to_json :: "sync_bundle \<Rightarrow> (string, string) result"
  bundle_from_json :: "string \<Rightarrow> (string, sync_bundle) result"
  utf8_error_text :: "bytes \<Rightarrow> string"
  str_debug :: "string \<Rightarrow> string"
  http_get :: "string \<Rightarrow> string \<Rightarrow> (string, (string, string) result) result"
  http_post :: "string \<Rightarrow> string \<Rightarrow> string \<Rightarrow> (string, (string, string) result) result"
  outcome_fields :: "string \<Rightarrow> (string, string \<rightharpoonup> nat) result"

record conn =
  cn_setup :: "(string, unit) result"
  cn_read_error :: "string option"
  cn_write_error :: "string option"

record world =
  w_store :: dag_store
  w_input :: bytes
  w_output :: bytes

definition MAX_BODY_BYTES :: nat where "MAX_BODY_BYTES = 64 * 1024 * 1024"
definition MAX_HEADER_BYTES :: nat where "MAX_HEADER_BYTES = 16 * 1024"

section \<open>Credentials\<close>

definition encode_credential :: "externals \<Rightarrow> wire \<Rightarrow> capability_grant \<Rightarrow> (sync_error, string) result" where
  "encode_credential X W grant =
     rbind (map_err SyncSerde (grant_to_json W grant)) (\<lambda>b. Inr (hex_encode X b))"

definition new_peer_auth :: "bytes \<Rightarrow> string \<Rightarrow> string set \<Rightarrow> (sync_error, peer_auth) result" where
  "new_peer_auth trust_root audience revoked_ids =
     (if trim audience = [] then
        Inl (Chain (''PeerAuth: audience (this peer'' @ CHR 0x27 # ''s id) must not be empty''))
      else Inr \<lparr>pa_trust_root = trust_root, pa_audience = audience, pa_revoked_ids = revoked_ids\<rparr>)"

definition audience_resource :: "string \<Rightarrow> string" where
  "audience_resource peer_id = ''peer:'' @ peer_id"

definition verify_credential ::
    "externals \<Rightarrow> wire \<Rightarrow> string \<Rightarrow> peer_auth \<Rightarrow> u64 \<Rightarrow> capability_grant option" where
  "verify_credential X W header_value auth now_ms =
     (let raw = trim header_value in
      case (case strip_prefix ''Bearer '' raw of Some t \<Rightarrow> Some t | None \<Rightarrow> strip_prefix ''bearer '' raw) of
        None \<Rightarrow> None
      | Some t \<Rightarrow>
          (case hex_decode X (trim t) of
             Inl _ \<Rightarrow> None
           | Inr b \<Rightarrow>
               (case grant_from_json W b of
                  Inl _ \<Rightarrow> None
                | Inr grant \<Rightarrow>
                    if trim (pa_audience auth) = [] then None
                    else
                      let aud = audience_resource (pa_audience auth);
                          addressed_here = (\<exists>r \<in> set (cg_allowed_resources grant). rs_resource_id r = aud \<and> rs_can_read r)
                      in if verify_signature X grant \<noteq> Inr () \<or> cg_issuer_pubkey grant \<noteq> pa_trust_root auth \<or>
                            cg_revoked grant \<or> cg_id grant \<in> pa_revoked_ids auth \<or> \<not> addressed_here \<or>
                            cg_expires_at_ms grant \<le> now_ms
                         then None else Some grant)))"

section \<open>Error texts\<close>

fun op_debug :: "op \<Rightarrow> string" where
  "op_debug Read = ''Read''"
| "op_debug Write = ''Write''"

fun authz_error_text :: "authz_error \<Rightarrow> string" where
  "authz_error_text Revoked = ''grant revoked''"
| "authz_error_text Expired = ''grant expired''"
| "authz_error_text Grant.Unsigned = ''grant unsigned''"
| "authz_error_text Grant.BadSignature = ''grant signature invalid''"
| "authz_error_text (ResourceDenied r) = ''resource not in grant scope: '' @ r"
| "authz_error_text (OperationDenied q) = ''operation '' @ op_debug q @ '' not permitted on resource''"

fun sync_error_text :: "sync_error \<Rightarrow> string" where
  "sync_error_text (SyncStore e) = ''store error: '' @ store_error_text e"
| "sync_error_text (SyncSerde m) = ''serialization error: '' @ m"
| "sync_error_text (Chain m) = ''chain anchor error: '' @ m"
| "sync_error_text (Denied e) = ''merge denied: '' @ authz_error_text e"
| "sync_error_text (UnresolvableEndpoint h) =
     ''merge denied: edge endpoint '' @ h @ '' owns no resolvable repo (cannot authorize)''"
| "sync_error_text UntrustedIssuer = ''merge denied: grant issuer is not the trusted grant root''"
| "sync_error_text (Entropy m) = ''OS randomness unavailable: '' @ m"

section \<open>Reading a request\<close>

definition io_err :: "string \<Rightarrow> sync_error" where
  "io_err e = Chain (''transport io: '' @ e)"

text \<open>Bytes up to and including a newline, at most \<open>k\<close> of them.\<close>

fun take_line :: "nat \<Rightarrow> bytes \<Rightarrow> bytes \<times> bytes" where
  "take_line 0 b = ([], b)"
| "take_line (Suc k) [] = ([], [])"
| "take_line (Suc k) (x # b) = (if x = 10 then ([x], b) else (case take_line k b of (l, r) \<Rightarrow> (x # l, r)))"

lemma take_line_split: "take_line k b = (l, r) \<Longrightarrow> b = l @ r"
  by (induction k b arbitrary: l r rule: take_line.induct) (auto split: if_splits prod.splits)

definition ends_line :: "bytes \<Rightarrow> bool" where
  "ends_line l \<longleftrightarrow> l \<noteq> [] \<and> last l = 10"

text \<open>\<^verbatim>\<open>read_bounded\<close>: None when the header section is too large, otherwise the line read (empty at
  the end of the input), with the remaining budget and input.\<close>

definition read_bounded ::
    "conn \<Rightarrow> nat \<Rightarrow> bytes \<Rightarrow> (sync_error, bytes option \<times> nat \<times> bytes) result" where
  "read_bounded cn budget input =
     (case take_line budget input of (line, rest) \<Rightarrow>
        if \<not> ends_line line \<and> length line < budget \<and> cn_read_error cn \<noteq> None then Inl (io_err (the (cn_read_error cn)))
        else if \<not> utf8_valid line then Inl (io_err ''stream did not contain valid UTF-8'')
        else
          let budget' = budget - length line in
          if line \<noteq> [] \<and> \<not> ends_line line \<and> budget' = 0 then Inr (None, budget', rest)
          else Inr (Some line, budget', rest))"

lemma read_bounded_shrinks:
  "read_bounded cn k b = Inr (Some l, k', b') \<Longrightarrow> l \<noteq> [] \<Longrightarrow> length b' < length b"
  by (auto simp: read_bounded_def Let_def split: prod.splits if_splits dest!: take_line_split)

definition header_line :: "string \<Rightarrow> nat \<times> string option \<Rightarrow> nat \<times> string option" where
  "header_line trimmed = (\<lambda>(content_length, credential).
     let lower = to_ascii_lowercase trimmed in
     case strip_prefix ''content-length:'' lower of
       Some v \<Rightarrow> (case from_str_radix 10 (trim v) of Inl _ \<Rightarrow> 0 | Inr n \<Rightarrow> unat n, credential)
     | None \<Rightarrow>
         if take 14 lower = ''authorization:'' then (content_length, Some (trim (drop 14 trimmed)))
         else (content_length, credential))"

text \<open>The header loop: None when the section is too large.\<close>

function read_headers ::
    "conn \<Rightarrow> nat \<Rightarrow> bytes \<Rightarrow> nat \<times> string option \<Rightarrow>
     (sync_error, (nat \<times> string option) option \<times> bytes) result" where
  "read_headers cn budget input hs =
     (case read_bounded cn budget input of
        Inl e \<Rightarrow> Inl e
      | Inr (None, budget', rest) \<Rightarrow> Inr (None, rest)
      | Inr (Some line, budget', rest) \<Rightarrow>
          if line = [] then Inr (Some hs, rest)
          else if trim_end line = [] then Inr (Some hs, rest)
          else read_headers cn budget' rest (header_line (of_bytes (trim_end line)) hs))"
  by pat_completeness auto
termination
  by (relation "measure (\<lambda>(cn, budget, input, hs). length input)") (auto dest: read_bounded_shrinks)

declare read_headers.simps [simp del]

section \<open>Responses\<close>

abbreviation crlf :: string where "crlf \<equiv> [CHR 0x0D, CHR 0x0A]"
abbreviation dq :: string where "dq \<equiv> [CHR 0x22]"

definition error_body :: "string \<Rightarrow> string" where
  "error_body m = ''{'' @ dq @ ''error'' @ dq @ '':'' @ dq @ m @ dq @ ''}''"

definition response :: "nat \<Rightarrow> string \<Rightarrow> string \<Rightarrow> bytes" where
  "response code reason body =
     as_bytes (''HTTP/1.1 '' @ decimal code @ '' '' @ reason @ crlf @
       ''content-type: application/json'' @ crlf @ ''content-length: '' @ decimal (length body) @ crlf @
       ''connection: close'' @ crlf @ crlf @ body)"

definition write_json :: "conn \<Rightarrow> nat \<Rightarrow> string \<Rightarrow> string \<Rightarrow> (world, sync_error, unit) action" where
  "write_json cn code reason body w =
     (case cn_write_error cn of
        Some e \<Rightarrow> (Inl (io_err e), w)
      | None \<Rightarrow>
          (Inr (), w\<lparr>w_output := w_output w @ response code reason body\<rparr>))"

definition outcome_json :: "merge_outcome \<Rightarrow> string" where
  "outcome_json out =
     (let f = (\<lambda>k v. dq @ k @ dq @ '':'' @ decimal v) in
      ''{'' @ f ''nodes_added'' (mo_nodes_added out) @ '','' @ f ''nodes_merged'' (mo_nodes_merged out) @ '','' @
      f ''edges_added'' (mo_edges_added out) @ '','' @ f ''edges_merged'' (mo_edges_merged out) @ '','' @
      f ''superseded'' (mo_superseded out) @ '','' @ f ''rejected_supersessions'' (mo_rejected_supersessions out) @ '','' @
      f ''rejected_signatures'' (mo_rejected_signatures out) @ '','' @ f ''contradictions'' (mo_contradictions out) @ ''}'')"

definition parse_outcome :: "wire \<Rightarrow> string \<Rightarrow> (sync_error, merge_outcome) result" where
  "parse_outcome W s =
     rbind (map_err SyncSerde (outcome_fields W s)) (\<lambda>v.
     let g = (\<lambda>k. case v k of None \<Rightarrow> 0 | Some n \<Rightarrow> n) in
     Inr \<lparr>mo_nodes_added = g ''nodes_added'', mo_nodes_merged = g ''nodes_merged'',
          mo_edges_added = g ''edges_added'', mo_edges_merged = g ''edges_merged'',
          mo_superseded = g ''superseded'', mo_rejected_supersessions = g ''rejected_supersessions'',
          mo_rejected_signatures = g ''rejected_signatures'', mo_contradictions = g ''contradictions''\<rparr>)"

section \<open>One connection\<close>

definition on_store :: "(dag_store, 'e, 'a) action \<Rightarrow> (world, 'e, 'a) action" where
  "on_store m w = (case m (w_store w) of (r, s) \<Rightarrow> (r, w\<lparr>w_store := s\<rparr>))"

lemma strip_prefix_Some: "strip_prefix p s = Some t \<Longrightarrow> s = p @ t"
  by (auto simp: strip_prefix_def split: if_splits) (metis append_take_drop_id)

text \<open>\<^verbatim>\<open>trim_start_matches\<close> drops the pattern as often as it occurs in front.\<close>

function trim_start_matches :: "string \<Rightarrow> string \<Rightarrow> string" where
  "trim_start_matches p s =
     (if p = [] then s else case strip_prefix p s of None \<Rightarrow> s | Some t \<Rightarrow> trim_start_matches p t)"
  by pat_completeness auto
termination
  by (relation "measure (\<lambda>(p, s). length s)") (auto dest: strip_prefix_Some)

declare trim_start_matches.simps [simp del]

definition serve_bundle ::
    "externals \<Rightarrow> wire \<Rightarrow> conn \<Rightarrow> capability_grant \<Rightarrow> u64 \<Rightarrow> string \<Rightarrow> (world, sync_error, string option) action" where
  "serve_bundle X W cn grant now_ms repo =
     (if check X grant (resource_for repo) Read now_ms \<noteq> Inr () then
        sbind (write_json cn 403 ''Forbidden'' (error_body ''not authorized to read tenant'')) (\<lambda>_.
        sok (Some (''GET /bundle/'' @ repo @ '' (403)'')))
      else
        sbind (sread (\<lambda>w. export_tenant X repo now_ms (w_store w))) (\<lambda>bundle.
        sbind (slift (map_err SyncSerde (bundle_to_json W bundle))) (\<lambda>text.
        sbind (write_json cn 200 ''OK'' text) (\<lambda>_.
        sok (Some (''GET /bundle/'' @ repo))))))"

definition read_body :: "conn \<Rightarrow> nat \<Rightarrow> (world, sync_error, bytes) action" where
  "read_body cn content_length w =
     (if length (w_input w) < content_length \<and> cn_read_error cn \<noteq> None then
        (Inl (io_err (the (cn_read_error cn))), w\<lparr>w_input := []\<rparr>)
      else (Inr (take content_length (w_input w)), w\<lparr>w_input := drop content_length (w_input w)\<rparr>))"

definition serve_merge ::
    "externals \<Rightarrow> wire \<Rightarrow> conn \<Rightarrow> peer_auth \<Rightarrow> capability_grant \<Rightarrow> u64 \<Rightarrow> nat \<Rightarrow> (world, sync_error, string option) action" where
  "serve_merge X W cn auth grant now_ms content_length =
     (if content_length > MAX_BODY_BYTES then
        sbind (write_json cn 413 ''Payload Too Large'' (error_body ''bundle too large'')) (\<lambda>_.
        sok (Some ''POST /merge (rejected: too large)''))
      else
        sbind (read_body cn content_length) (\<lambda>body.
        if \<not> utf8_valid body then serr (Chain (''merge body utf8: '' @ utf8_error_text W body))
        else
          (\<lambda>w. case sbind (slift (map_err SyncSerde (bundle_from_json W (of_bytes body)))) (\<lambda>b.
                  on_store (merge_bundle X b grant (pa_trust_root auth) now_ms)) w of
             (Inr out, w') \<Rightarrow>
               sbind (write_json cn 200 ''OK'' (outcome_json out)) (\<lambda>_. sok (Some ''POST /merge'')) w'
           | (Inl e, w') \<Rightarrow>
               sbind (write_json cn 400 ''Bad Request''
                 (''{'' @ dq @ ''error'' @ dq @ '':'' @ str_debug W (sync_error_text e) @ ''}'')) (\<lambda>_.
               sok (Some ''POST /merge (rejected)'')) w')))"

definition route ::
    "externals \<Rightarrow> wire \<Rightarrow> conn \<Rightarrow> peer_auth \<Rightarrow> capability_grant \<Rightarrow> u64 \<Rightarrow> string \<Rightarrow> string \<Rightarrow> nat \<Rightarrow>
     (world, sync_error, string option) action" where
  "route X W cn auth grant now_ms meth path content_length =
     (if meth = ''GET'' \<and> take 8 path = ''/bundle/'' then
        serve_bundle X W cn grant now_ms (trim_start_matches ''/bundle/'' path)
      else if meth = ''POST'' \<and> path = ''/merge'' then serve_merge X W cn auth grant now_ms content_length
      else
        sbind (write_json cn 404 ''Not Found'' (error_body ''no such route'')) (\<lambda>_.
        sok (Some (meth @ '' '' @ path @ '' (404)''))))"

definition too_large :: "conn \<Rightarrow> string \<Rightarrow> (world, sync_error, string option) action" where
  "too_large cn what =
     sbind (write_json cn 431 ''Request Header Fields Too Large'' (error_body ''headers too large'')) (\<lambda>_.
     sok (Some (what @ ''(rejected: headers too large)'')))"

text \<open>After the request line: headers, credential, route.\<close>

definition answer_request ::
    "externals \<Rightarrow> wire \<Rightarrow> conn \<Rightarrow> peer_auth \<Rightarrow> u64 \<Rightarrow> string \<Rightarrow> string \<Rightarrow> nat \<Rightarrow> bytes \<Rightarrow>
     (world, sync_error, string option) action" where
  "answer_request X W cn auth now_ms meth path budget rest =
     sbind (slift (read_headers cn budget rest (0, None))) (\<lambda>(hs, rest').
     case hs of
       None \<Rightarrow> too_large cn (meth @ '' '' @ path @ '' '')
     | Some (content_length, credential) \<Rightarrow>
         (case Option.bind credential (\<lambda>c. verify_credential X W c auth now_ms) of
            None \<Rightarrow>
              sbind (write_json cn 401 ''Unauthorized'' (error_body ''missing or invalid peer credential'')) (\<lambda>_.
              sok (Some (meth @ '' '' @ path @ '' (401)'')))
          | Some grant \<Rightarrow>
              (\<lambda>w. route X W cn auth grant now_ms meth path content_length (w\<lparr>w_input := rest'\<rparr>))))"

definition handle_conn ::
    "externals \<Rightarrow> wire \<Rightarrow> conn \<Rightarrow> peer_auth \<Rightarrow> u64 \<Rightarrow> (world, sync_error, string option) action" where
  "handle_conn X W cn auth now_ms =
     sbind (slift (map_err io_err (cn_setup cn))) (\<lambda>_.
     sbind (sread (\<lambda>w. read_bounded cn MAX_HEADER_BYTES (w_input w))) (\<lambda>(line, budget, rest).
     case line of
       None \<Rightarrow> too_large cn []
     | Some request_line \<Rightarrow>
         if request_line = [] then sok None
         else
           let parts = split_white [] request_line;
               meth = of_bytes (case parts of p # _ \<Rightarrow> p | _ \<Rightarrow> []);
               path = of_bytes (case parts of _ # q # _ \<Rightarrow> q | _ \<Rightarrow> [])
           in answer_request X W cn auth now_ms meth path budget rest))"

text \<open>\<^verbatim>\<open>serve_one\<close>: the outcome of \<^verbatim>\<open>accept\<close> is a connection with its input, or an error.\<close>

definition serve_one ::
    "externals \<Rightarrow> wire \<Rightarrow> (string, conn \<times> bytes) result \<Rightarrow> peer_auth \<Rightarrow> u64 \<Rightarrow> dag_store \<Rightarrow>
     (sync_error, string option) result \<times> world" where
  "serve_one X W accepted auth now_ms s =
     (case accepted of
        Inl e \<Rightarrow> (Inl (io_err e), \<lparr>w_store = s, w_input = [], w_output = []\<rparr>)
      | Inr (cn, input) \<Rightarrow> handle_conn X W cn auth now_ms \<lparr>w_store = s, w_input = input, w_output = []\<rparr>)"

section \<open>Client\<close>

definition trim_slashes :: "string \<Rightarrow> string" where
  "trim_slashes s = rev (dropWhile (\<lambda>c. c = CHR ''/'') (rev s))"

definition pull_bundle ::
    "externals \<Rightarrow> wire \<Rightarrow> string \<Rightarrow> string \<Rightarrow> capability_grant \<Rightarrow> (sync_error, sync_bundle) result" where
  "pull_bundle X W base_url repo credential =
     (let url = trim_slashes base_url @ ''/bundle/'' @ repo in
      rbind (encode_credential X W credential) (\<lambda>c.
      rbind (map_err (\<lambda>e. Chain (''pull '' @ url @ '' failed: '' @ e)) (http_get W url (''Bearer '' @ c))) (\<lambda>resp.
      rbind (map_err (\<lambda>e. Chain (''pull '' @ url @ '' body: '' @ e)) resp) (\<lambda>body.
      map_err SyncSerde (bundle_from_json W body)))))"

definition push_bundle ::
    "externals \<Rightarrow> wire \<Rightarrow> string \<Rightarrow> sync_bundle \<Rightarrow> capability_grant \<Rightarrow> (sync_error, merge_outcome) result" where
  "push_bundle X W base_url bundle credential =
     (let url = trim_slashes base_url @ ''/merge'' in
      rbind (map_err SyncSerde (bundle_to_json W bundle)) (\<lambda>json.
      rbind (encode_credential X W credential) (\<lambda>c.
      rbind (map_err (\<lambda>e. Chain (''push '' @ url @ '' failed: '' @ e)) (http_post W url (''Bearer '' @ c) json)) (\<lambda>resp.
      rbind (map_err (\<lambda>e. Chain (''push '' @ url @ '' body: '' @ e)) resp) (\<lambda>body.
      parse_outcome W body)))))"

definition pull_and_merge ::
    "externals \<Rightarrow> wire \<Rightarrow> string \<Rightarrow> string \<Rightarrow> capability_grant \<Rightarrow> capability_grant \<Rightarrow> bytes \<Rightarrow> u64 \<Rightarrow>
     (dag_store, sync_error, merge_outcome) action" where
  "pull_and_merge X W base_url repo credential grant trust_root now_ms =
     sbind (slift (pull_bundle X W base_url repo credential)) (\<lambda>bundle.
     merge_bundle X bundle grant trust_root now_ms)"

section \<open>What a connection can do\<close>

text \<open>The credential gate, as one condition.\<close>

definition credential_ok :: "externals \<Rightarrow> peer_auth \<Rightarrow> u64 \<Rightarrow> capability_grant \<Rightarrow> bool" where
  "credential_ok X auth now grant \<longleftrightarrow>
     verify_signature X grant = Inr () \<and> cg_issuer_pubkey grant = pa_trust_root auth \<and> \<not> cg_revoked grant \<and>
     cg_id grant \<notin> pa_revoked_ids auth \<and> now < cg_expires_at_ms grant \<and> trim (pa_audience auth) \<noteq> [] \<and>
     (\<exists>r \<in> set (cg_allowed_resources grant). rs_resource_id r = ''peer:'' @ pa_audience auth \<and> rs_can_read r)"

lemma verify_credential_ok:
  "verify_credential X W h auth now = Some grant \<Longrightarrow> credential_ok X auth now grant"
  by (auto simp: verify_credential_def credential_ok_def Let_def audience_resource_def not_le
      split: option.splits sum.splits if_splits)

lemma write_json_run:
  assumes "write_json cn c m body w = (r, w')"
  shows "w_store w' = w_store w" "w_output w' = w_output w \<or> w_output w' = w_output w @ response c m body"
  using assms by (auto simp: write_json_def split: option.splits)

lemma reply_run:
  assumes "sbind (write_json cn c m body) (\<lambda>_. sok l) w = (r, w')"
  shows "w_store w' = w_store w" "w_output w' = w_output w \<or> w_output w' = w_output w @ response c m body"
proof -
  obtain q w1 where q: "write_json cn c m body w = (q, w1)" by (cases "write_json cn c m body w")
  have "w' = w1" using assms q by (cases q) (auto simp: sbind_def)
  with write_json_run [OF q] show "w_store w' = w_store w"
    "w_output w' = w_output w \<or> w_output w' = w_output w @ response c m body" by simp_all
qed

text \<open>What may leave in a successful response: the export of a tenant that the peer may read, or the
  outcome of a merge under the peer's grant.\<close>

definition allowed_answer ::
    "externals \<Rightarrow> wire \<Rightarrow> peer_auth \<Rightarrow> u64 \<Rightarrow> capability_grant \<Rightarrow> string \<Rightarrow> dag_store \<Rightarrow> dag_store \<Rightarrow> bool" where
  "allowed_answer X W auth now g body s s' \<longleftrightarrow>
     (\<exists>repo bundle. check X g (resource_for repo) Read now = Inr () \<and> s' = s \<and>
        export_tenant X repo now s = Inr bundle \<and> bundle_to_json W bundle = Inr body) \<or>
     (\<exists>b out. merge_bundle X b g (pa_trust_root auth) now s = (Inr out, s') \<and> body = outcome_json out)"

definition served :: "externals \<Rightarrow> wire \<Rightarrow> peer_auth \<Rightarrow> u64 \<Rightarrow> capability_grant \<Rightarrow> world \<Rightarrow> world \<Rightarrow> bool" where
  "served X W auth now g w w' \<longleftrightarrow>
     (w_store w' \<noteq> w_store w \<longrightarrow> (\<exists>b q. merge_bundle X b g (pa_trust_root auth) now (w_store w) = (q, w_store w'))) \<and>
     (w_output w' = w_output w \<or> (\<exists>code reason body. w_output w' = w_output w @ response code reason body \<and>
        (code = 200 \<longrightarrow> allowed_answer X W auth now g body (w_store w) (w_store w'))))"

lemma served_reply:
  assumes "sbind (write_json cn c m body) (\<lambda>_. sok l) w = (r, w')"
    and "c = 200 \<Longrightarrow> allowed_answer X W auth now g body (w_store w) (w_store w)"
  shows "served X W auth now g w w'"
  using reply_run [OF assms(1)] assms(2) unfolding served_def by auto

lemma serve_bundle_served:
  assumes "serve_bundle X W cn g now repo w = (r, w')"
  shows "served X W auth now g w w'"
proof (cases "check X g (resource_for repo) Read now = Inr ()")
  case False
  with assms show ?thesis by (auto simp: serve_bundle_def intro: served_reply)
next
  case True
  show ?thesis
  proof (cases "export_tenant X repo now (w_store w)")
    case (Inl e)
    with assms True show ?thesis by (simp add: serve_bundle_def sread_bind served_def)
  next
    case (Inr bn)
    show ?thesis
    proof (cases "bundle_to_json W bn")
      case bad: (Inl e)
      with assms True Inr show ?thesis by (simp add: serve_bundle_def sread_bind slift_bind served_def)
    next
      case js: (Inr body)
      have "sbind (write_json cn 200 ''OK'' body) (\<lambda>_. sok (Some (''GET /bundle/'' @ repo))) w = (r, w')"
        using assms True Inr js by (simp add: serve_bundle_def sread_bind slift_bind)
      moreover have "allowed_answer X W auth now g body (w_store w) (w_store w)"
        using True Inr js by (auto simp: allowed_answer_def)
      ultimately show ?thesis by (rule served_reply)
    qed
  qed
qed

lemma on_store_run:
  "on_store m w = (r, w') \<Longrightarrow> m (w_store w) = (r, w_store w') \<and> w_output w' = w_output w"
  by (auto simp: on_store_def split: prod.splits)

lemma read_body_run:
  "read_body cn len w = (r, w') \<Longrightarrow> w_store w' = w_store w \<and> w_output w' = w_output w"
  by (auto simp: read_body_def split: if_splits)

lemma merged_reply_served:
  assumes m: "sbind (slift q) (\<lambda>b. on_store (merge_bundle X b g (pa_trust_root auth) now)) w = (x, w1)"
    and run: "(case x of Inr out \<Rightarrow> sbind (write_json cn 200 ok_text (outcome_json out)) (\<lambda>_. sok l) w1
       | Inl e \<Rightarrow> sbind (write_json cn 400 bad_text (bad e)) (\<lambda>_. sok l') w1) = (r, w')"
  shows "served X W auth now g w w'"
proof (cases q)
  case (Inl e)
  with m run have "sbind (write_json cn 400 bad_text (bad e)) (\<lambda>_. sok l') w = (r, w')" by (auto simp: slift_bind)
  then show ?thesis by (rule served_reply) simp
next
  case (Inr b)
  with m have mb: "merge_bundle X b g (pa_trust_root auth) now (w_store w) = (x, w_store w1)"
    and out1: "w_output w1 = w_output w"
    by (auto simp: slift_bind dest: on_store_run)
  show ?thesis
  proof (cases x)
    case (Inl e)
    with run have "sbind (write_json cn 400 bad_text (bad e)) (\<lambda>_. sok l') w1 = (r, w')" by simp
    note rr = reply_run [OF this]
    show ?thesis unfolding served_def
    proof (intro conjI impI)
      show "\<exists>b q. merge_bundle X b g (pa_trust_root auth) now (w_store w) = (q, w_store w')"
        using mb rr(1) by auto
      have "(400 :: nat) = 200 \<longrightarrow> allowed_answer X W auth now g (bad e) (w_store w) (w_store w')" by simp
      with rr(2) out1 show "w_output w' = w_output w \<or> (\<exists>code reason body. w_output w' = w_output w @ response code reason body \<and>
        (code = 200 \<longrightarrow> allowed_answer X W auth now g body (w_store w) (w_store w')))" by metis
    qed
  next
    case ok: (Inr out)
    with run have "sbind (write_json cn 200 ok_text (outcome_json out)) (\<lambda>_. sok l) w1 = (r, w')" by simp
    note rr = reply_run [OF this]
    have "allowed_answer X W auth now g (outcome_json out) (w_store w) (w_store w')"
      using mb ok rr(1) by (auto simp: allowed_answer_def)
    then show ?thesis unfolding served_def using rr out1 mb by auto
  qed
qed

lemma serve_merge_served:
  assumes "serve_merge X W cn auth g now len w = (r, w')"
  shows "served X W auth now g w w'"
proof (cases "len > MAX_BODY_BYTES")
  case True
  with assms show ?thesis by (auto simp: serve_merge_def intro: served_reply)
next
  case False
  obtain bd w1 where rb: "read_body cn len w = (bd, w1)" by (cases "read_body cn len w")
  note s1 = read_body_run [OF rb]
  have frame: "served X W auth now g w w2" if "served X W auth now g w1 w2" for w2
    using that s1 by (simp add: served_def)
  show ?thesis
  proof (cases bd)
    case (Inl e)
    with assms False rb s1 show ?thesis by (auto simp: serve_merge_def sbind_def served_def)
  next
    case (Inr body)
    show ?thesis
    proof (cases "utf8_valid body")
      case utf8: False
      with assms False rb s1 Inr show ?thesis by (auto simp: serve_merge_def sbind_def served_def)
    next
      case True
      let ?m = "sbind (slift (map_err SyncSerde (bundle_from_json W (of_bytes body)))) (\<lambda>b.
                  on_store (merge_bundle X b g (pa_trust_root auth) now))"
      obtain q w2 where m: "?m w1 = (q, w2)" by (cases "?m w1")
      have "(case q of Inr out \<Rightarrow> sbind (write_json cn 200 ''OK'' (outcome_json out)) (\<lambda>_. sok (Some ''POST /merge'')) w2
         | Inl e \<Rightarrow> sbind (write_json cn 400 ''Bad Request''
                 (''{'' @ dq @ ''error'' @ dq @ '':'' @ str_debug W (sync_error_text e) @ ''}'')) (\<lambda>_.
               sok (Some ''POST /merge (rejected)'')) w2) = (r, w')"
        using assms False rb Inr True m
        by (simp add: serve_merge_def sbind_def [of "read_body cn len"] split: sum.splits)
      then show ?thesis by (intro frame) (rule merged_reply_served [OF m])
    qed
  qed
qed

lemma route_served:
  assumes "route X W cn auth g now meth path len w = (r, w')"
  shows "served X W auth now g w w'"
proof -
  consider "serve_bundle X W cn g now (trim_start_matches ''/bundle/'' path) w = (r, w')"
    | "serve_merge X W cn auth g now len w = (r, w')"
    | "sbind (write_json cn 404 ''Not Found'' (error_body ''no such route'')) (\<lambda>_.
        sok (Some (meth @ '' '' @ path @ '' (404)''))) w = (r, w')"
    using assms by (auto simp: route_def split: if_splits)
  then show ?thesis
  proof cases
    case 3
    then show ?thesis by (rule served_reply) simp
  qed (auto intro: serve_bundle_served serve_merge_served)
qed

text \<open>A connection is quiet when it changes no state and sends nothing or an error.\<close>

definition quiet :: "world \<Rightarrow> world \<Rightarrow> bool" where
  "quiet w w' \<longleftrightarrow> w_store w' = w_store w \<and> (w_output w' = w_output w \<or>
      (\<exists>code reason body. code \<noteq> 200 \<and> w_output w' = w_output w @ response code reason body))"

lemma quiet_refl [simp]: "quiet w w"
  by (simp add: quiet_def)

lemma quiet_reply:
  assumes "sbind (write_json cn c m body) (\<lambda>_. sok l) w = (r, w')" "c \<noteq> 200"
  shows "quiet w w'"
  using reply_run [OF assms(1)] assms(2) unfolding quiet_def by auto

lemma quiet_too_large: "too_large cn l w = (r, w') \<Longrightarrow> quiet w w'"
  unfolding too_large_def by (erule quiet_reply) simp

lemma answer_request_cases:
  assumes "answer_request X W cn auth now meth path budget rest w = (r, w')"
  shows "quiet w w' \<or> (\<exists>g len rest'. credential_ok X auth now g \<and>
    route X W cn auth g now meth path len (w\<lparr>w_input := rest'\<rparr>) = (r, w'))"
proof (cases "read_headers cn budget rest (0, None)")
  case (Inl e)
  with assms show ?thesis by (simp add: answer_request_def slift_bind)
next
  case (Inr z)
  obtain h rest' where z: "z = (h, rest')" by (cases z)
  show ?thesis
  proof (cases h)
    case None
    with assms Inr z have "too_large cn (meth @ '' '' @ path @ '' '') w = (r, w')"
      by (simp add: answer_request_def slift_bind)
    then show ?thesis using quiet_too_large by blast
  next
    case h: (Some q)
    obtain len cred where q: "q = (len, cred)" by (cases q)
    show ?thesis
    proof (cases "Option.bind cred (\<lambda>c. verify_credential X W c auth now)")
      case None
      with assms Inr z h q have "sbind (write_json cn 401 ''Unauthorized'' (error_body ''missing or invalid peer credential''))
          (\<lambda>_. sok (Some (meth @ '' '' @ path @ '' (401)''))) w = (r, w')"
        by (simp add: answer_request_def slift_bind)
      then have "quiet w w'" by (rule quiet_reply) simp
      then show ?thesis ..
    next
      case g: (Some g)
      then have "credential_ok X auth now g" using verify_credential_ok by (auto simp: bind_eq_Some_conv)
      with assms Inr z h q g show ?thesis by (auto simp: answer_request_def slift_bind)
    qed
  qed
qed

lemma handle_conn_cases:
  assumes "handle_conn X W cn auth now w = (r, w')"
  shows "quiet w w' \<or> (\<exists>meth path budget rest. answer_request X W cn auth now meth path budget rest w = (r, w'))"
proof (cases "cn_setup cn")
  case (Inl e)
  with assms show ?thesis by (simp add: handle_conn_def slift_bind)
next
  case st: (Inr u)
  show ?thesis
  proof (cases "read_bounded cn MAX_HEADER_BYTES (w_input w)")
    case (Inl e)
    with assms st show ?thesis by (simp add: handle_conn_def slift_bind sread_bind)
  next
    case (Inr y)
    obtain line budget rest where y: "y = (line, budget, rest)" by (cases y)
    show ?thesis
    proof (cases line)
      case None
      with assms st Inr y have "too_large cn [] w = (r, w')" by (simp add: handle_conn_def slift_bind sread_bind)
      then show ?thesis using quiet_too_large by blast
    next
      case (Some rl)
      with assms st Inr y show ?thesis
        by (auto simp: handle_conn_def slift_bind sread_bind Let_def split: if_splits)
    qed
  qed
qed



end
