(* ===== verification/Anchor.thy ===== *)
theory Anchor
  imports Sync Write_Policy
begin

text \<open>
  Export and anchoring of a tenant (\<^verbatim>\<open>crates/mem-sync/src/lib.rs\<close>): the exported state is a
  function of the abstract graph alone, the Merkle root commits to it, and an anchor that
  still verifies proves that the state it covers has not changed.
\<close>

section \<open>The node scan\<close>

definition opened_node :: "externals \<Rightarrow> dag_store \<Rightarrow> bytes \<times> bytes \<Rightarrow> memory_node option" where
  "opened_node X s p = Option.bind (try_into_32 (fst p)) (\<lambda>nid. readable (open_node X (usable X s) nid (snd p)))"

lemma all_nodes_loop:
  assumes ok: "keyring_ok X s" and rows: "\<forall>(k, b) \<in> set rs. node_row_ok X s k b"
  shows "rfold (\<lambda>(k, v) acc.
        rbind (ok_or (Serde ''node key is not a 32-byte content hash'') (try_into_32 k)) (\<lambda>nid.
        rbind (decode_node X nid v s) (\<lambda>r.
        Inr (case r of Some n \<Rightarrow> acc @ [n] | None \<Rightarrow> acc)))) rs acc =
      Inr (acc @ List.map_filter (opened_node X s) rs)"
  using rows
proof (induction rs arbitrary: acc)
  case Nil
  then show ?case by (simp add: List.map_filter_def)
next
  case (Cons p rs)
  obtain k b where p: "p = (k, b)" by (cases p)
  with Cons.prems obtain nid r where k: "k = hash_bytes nid" "open_node X (usable X s) nid b = Inr r"
    by (auto simp: node_row_ok_def)
  have "opened_node X s p = r" by (simp add: opened_node_def p k)
  then show ?case
    using Cons.IH [of "case r of None \<Rightarrow> acc | Some n \<Rightarrow> acc @ [n]"] Cons.prems k p
    by (cases r) (simp_all add: decode_node_eq [OF ok] map_filter_simps)
qed

lemma all_nodes_spec:
  assumes ok: "store_ok X s"
  obtains ns where "all_nodes X s = Inr ns" "distinct (map (node_id X) ns)"
    "\<And>n. n \<in> set ns \<longleftrightarrow> node_view X s (node_id X n) = Some n"
proof -
  have "kv_live (ds_kv s)" using store_okD(2) [OF ok] .
  then obtain rs where rs: "kv_iter_cf NODES (ds_kv s) = Inr rs" "bt_ok rs" "map_of rs = rows s NODES"
    by (rule mem_kv.iterE)
  have mem: "(k, b) \<in> set rs \<longleftrightarrow> rows s NODES k = Some b" for k b
    using rs by (simp add: bt_ok_mem_iff)
  have row: "node_row_ok X s k b" if "(k, b) \<in> set rs" for k b
    using store_okD(3) [OF ok] mem that by blast
  let ?ns = "List.map_filter (opened_node X s) rs"
  have rows: "\<forall>(k, b) \<in> set rs. node_row_ok X s k b" using row by blast
  have scan: "all_nodes X s = Inr ?ns"
    unfolding all_nodes_def kv_rd_def rs(1) map_err_simps rbind_simps
    using all_nodes_loop [OF store_okD(1) [OF ok] rows, of "[]"] by (simp only: append_Nil)
  have opened: "opened_node X s (k, b) = Some n \<longleftrightarrow> k = hash_bytes (node_id X n) \<and> node_view X s (node_id X n) = Some n"
    if "(k, b) \<in> set rs" for k b n
  proof -
    from row [OF that] obtain nid r where k: "k = hash_bytes nid" "open_node X (usable X s) nid b = Inr r"
        "\<forall>n. r = Some n \<longrightarrow> node_id X n = nid"
      by (auto simp: node_row_ok_def)
    have "rows s NODES (hash_bytes nid) = Some b" using that mem k(1) by simp
    then have view: "node_view X s nid = r" by (simp add: node_view_def k(2))
    have op: "opened_node X s (k, b) = r" by (simp add: opened_node_def k(1,2))
    show ?thesis
    proof
      assume "opened_node X s (k, b) = Some n"
      with op k view show "k = hash_bytes (node_id X n) \<and> node_view X s (node_id X n) = Some n" by simp
    next
      assume n: "k = hash_bytes (node_id X n) \<and> node_view X s (node_id X n) = Some n"
      then have "nid = node_id X n" using k(1) by simp
      with n op view show "opened_node X s (k, b) = Some n" by simp
    qed
  qed
  have key: "id_key X n = fst q" if "q \<in> set rs" "opened_node X s q = Some n" for q n
    using opened [of "fst q" "snd q" n] that by simp
  have dist: "distinct (map (id_key X) ?ns)"
    using distinct_map_filter [OF bt_ok_distinct [OF rs(2)], of "opened_node X s" "id_key X", OF key] by blast
  have "n \<in> set ?ns \<longleftrightarrow> node_view X s (node_id X n) = Some n" for n
  proof
    assume "n \<in> set ?ns"
    then obtain k b where "(k, b) \<in> set rs" "opened_node X s (k, b) = Some n" by (auto simp: List.map_filter_def)
    with opened show "node_view X s (node_id X n) = Some n" by blast
  next
    assume n: "node_view X s (node_id X n) = Some n"
    then obtain b where "rows s NODES (id_key X n) = Some b" by (auto simp: node_view_def bind_eq_Some_conv)
    then have "(id_key X n, b) \<in> set rs" by (simp add: mem)
    moreover from this opened n have "opened_node X s (id_key X n, b) = Some n" by blast
    ultimately show "n \<in> set ?ns" by (force simp: List.map_filter_def)
  qed
  moreover have "distinct (map (node_id X) ?ns)"
    using dist by (simp add: distinct_map inj_on_def)
  ultimately show ?thesis using scan that by blast
qed

section \<open>The exported state is canonical\<close>

lemma sorted_key_unique:
  fixes f :: "'a \<Rightarrow> 'k::linorder"
  assumes "sorted_wrt (<) (map f xs)" "sorted_wrt (<) (map f ys)" "set xs = set ys"
  shows "xs = ys"
proof -
  have "map f xs = map f ys"
    by (rule strict_sorted_equal [OF assms(2,1)]) (simp add: assms(3))
  moreover have "inj_on f (set xs \<union> set ys)"
    using strict_sorted_iff [of "map f xs"] assms by (simp add: distinct_map)
  ultimately show ?thesis by (rule map_inj_on)
qed

lemma dedup_edges_props:
  assumes "sorted (map edge_key es)" "\<And>d e. d \<in> set es \<Longrightarrow> e \<in> set es \<Longrightarrow> edge_key d = edge_key e \<Longrightarrow> d = e"
  shows "set (dedup_edges es) = set es \<and> sorted_wrt (<) (map edge_key (dedup_edges es))"
  using assms
proof (induction es rule: dedup_edges.induct)
  case (1 a b es)
  show ?case
  proof (cases "edge_key a = edge_key b")
    case True
    then have "a = b" by (rule 1(4) [rotated 2]) simp_all
    moreover have "set (dedup_edges (a # es)) = set (a # es) \<and> sorted_wrt (<) (map edge_key (dedup_edges (a # es)))"
    proof (rule 1(1) [OF True])
      show "sorted (map edge_key (a # es))" using 1(3) by simp
      show "d = e" if "d \<in> set (a # es)" "e \<in> set (a # es)" "edge_key d = edge_key e" for d e
        by (rule 1(4)) (use that in auto)
    qed
    ultimately show ?thesis using True by simp
  next
    case False
    have le: "edge_key a \<le> edge_key b" "\<forall>x \<in> set es. edge_key b \<le> edge_key x" using 1(3) by simp_all
    then have lt: "edge_key a < edge_key b" using False by simp
    have "\<forall>x \<in> set (b # es). edge_key a < edge_key x"
    proof
      fix x
      assume "x \<in> set (b # es)"
      then have "edge_key b \<le> edge_key x" using le(2) by (cases "x = b") simp_all
      with lt show "edge_key a < edge_key x" by (rule less_le_trans)
    qed
    moreover have "set (dedup_edges (b # es)) = set (b # es) \<and> sorted_wrt (<) (map edge_key (dedup_edges (b # es)))"
    proof (rule 1(2) [OF False])
      show "sorted (map edge_key (b # es))" using 1(3) by simp
      show "d = e" if "d \<in> set (b # es)" "e \<in> set (b # es)" "edge_key d = edge_key e" for d e
        by (rule 1(4)) (use that in auto)
    qed
    ultimately show ?thesis using False by simp
  qed
qed simp_all

lemma sort_key_strict: "distinct (map f xs) \<Longrightarrow> sorted_wrt (<) (map f (sort_key f xs))"
  by (simp add: strict_sorted_iff distinct_map)

lemma out_edges_loop:
  assumes ok: "store_ok X s"
  shows "\<exists>es. rfold (\<lambda>n edges. rbind (map_err SyncStore (out_edges X (node_id X n) s)) (\<lambda>es. Inr (edges @ es))) ns acc =
      Inr (acc @ es) \<and>
    (\<forall>e. e \<in> set es \<longleftrightarrow> edge_view X s (edge_key e) = Some e \<and> e_from e \<in> node_id X ` set ns)"
proof (induction ns arbitrary: acc)
  case (Cons n ns)
  obtain es where es: "out_edges X (node_id X n) s = Inr es"
      "\<And>e. e \<in> set es \<longleftrightarrow> edge_view X s (edge_key e) = Some e \<and> e_from e = node_id X n"
    by (rule out_edges_spec [OF ok, of "node_id X n"]) (rule that)
  obtain es' where "rfold (\<lambda>n edges. rbind (map_err SyncStore (out_edges X (node_id X n) s)) (\<lambda>es. Inr (edges @ es))) ns (acc @ es) =
      Inr ((acc @ es) @ es')"
      "\<And>e. e \<in> set es' \<longleftrightarrow> edge_view X s (edge_key e) = Some e \<and> e_from e \<in> node_id X ` set ns"
    using Cons.IH [of "acc @ es"] by blast
  with es show ?case by (intro exI [of _ "es @ es'"]) auto
qed simp

text \<open>The exported nodes and edges, as sets over the abstract graph.\<close>

definition nodes_of_tenant :: "externals \<Rightarrow> dag \<Rightarrow> string \<Rightarrow> memory_node set" where
  "nodes_of_tenant X d repo = {n. dg_nodes d (node_id X n) = Some n \<and> n_repo n = repo}"

definition tenant_edges :: "externals \<Rightarrow> dag \<Rightarrow> string \<Rightarrow> edge set" where
  "tenant_edges X d repo = {e. dg_edges d (edge_key e) = Some e \<and> e_from e \<in> node_id X ` nodes_of_tenant X d repo}"

lemma tenant_state_spec:
  assumes ok: "store_ok X s"
  obtains ns es where "tenant_state X repo s = Inr (ns, es)"
    "sorted_wrt (<) (map (id_key X) ns)" "set ns = nodes_of_tenant X (abs_dag X s) repo"
    "sorted_wrt (<) (map edge_key es)" "set es = tenant_edges X (abs_dag X s) repo"
proof -
  obtain all where all: "all_nodes X s = Inr all" "distinct (map (node_id X) all)"
      "\<And>n. n \<in> set all \<longleftrightarrow> node_view X s (node_id X n) = Some n"
    by (rule all_nodes_spec [OF ok]) (rule that)
  let ?ns = "sort_key (id_key X) (filter (\<lambda>n. n_repo n = repo) all)"
  have set_ns: "set ?ns = nodes_of_tenant X (abs_dag X s) repo" using all(3) by (auto simp: nodes_of_tenant_def)
  have "distinct (map (id_key X) (filter (\<lambda>n. n_repo n = repo) all))"
    using all(2) by (simp add: distinct_map inj_on_def)
  then have sorted_ns: "sorted_wrt (<) (map (id_key X) ?ns)" by (rule sort_key_strict)
  obtain es where es: "rfold (\<lambda>n edges. rbind (map_err SyncStore (out_edges X (node_id X n) s)) (\<lambda>es. Inr (edges @ es))) ?ns [] = Inr es"
      "\<And>e. e \<in> set es \<longleftrightarrow> edge_view X s (edge_key e) = Some e \<and> e_from e \<in> node_id X ` set ?ns"
    using out_edges_loop [OF ok, of ?ns "[]"] by auto
  have set_es: "set (sort_key edge_key es) = tenant_edges X (abs_dag X s) repo"
    using es(2) by (auto simp: tenant_edges_def set_ns [symmetric])
  have "set (dedup_edges (sort_key edge_key es)) = set (sort_key edge_key es) \<and>
      sorted_wrt (<) (map edge_key (dedup_edges (sort_key edge_key es)))"
    by (rule dedup_edges_props) (use es(2) in auto)
  with set_es set_ns sorted_ns all(1) es(1) show ?thesis
    by (intro that [of ?ns "dedup_edges (sort_key edge_key es)"]) (simp_all add: tenant_state_def Let_def)
qed

lemma tenant_state_canonical:
  assumes "store_ok X s" "store_ok X s'" "abs_dag X s = abs_dag X s'"
  shows "tenant_state X repo s = tenant_state X repo s'"
proof -
  obtain ns es where a: "tenant_state X repo s = Inr (ns, es)"
    "sorted_wrt (<) (map (id_key X) ns)" "set ns = nodes_of_tenant X (abs_dag X s) repo"
    "sorted_wrt (<) (map edge_key es)" "set es = tenant_edges X (abs_dag X s) repo"
    by (rule tenant_state_spec [OF assms(1)])
  obtain ns' es' where b: "tenant_state X repo s' = Inr (ns', es')"
    "sorted_wrt (<) (map (id_key X) ns')" "set ns' = nodes_of_tenant X (abs_dag X s') repo"
    "sorted_wrt (<) (map edge_key es')" "set es' = tenant_edges X (abs_dag X s') repo"
    by (rule tenant_state_spec [OF assms(2)])
  have "ns = ns'" by (rule sorted_key_unique [OF a(2) b(2)]) (simp add: a(3) b(3) assms(3))
  moreover have "es = es'" by (rule sorted_key_unique [OF a(4) b(4)]) (simp add: a(5) b(5) assms(3))
  ultimately show ?thesis using a(1) b(1) by simp
qed

section \<open>The Merkle root commits to its leaves\<close>

text \<open>The tree behind the root: a leaf is hashed from its bytes, an inner node from the hashes of
  two children, the last node of an odd level from the hash of one.\<close>

datatype mtree = Leaf bytes | One mtree | Two mtree mtree

fun tree_hash :: "externals \<Rightarrow> mtree \<Rightarrow> content_hash" where
  "tree_hash X (Leaf p) = blake3 X p"
| "tree_hash X (One t) = blake3 X (hash_bytes (tree_hash X t))"
| "tree_hash X (Two t u) = blake3 X (hash_bytes (tree_hash X t) @ hash_bytes (tree_hash X u))"

text \<open>Everything that is hashed for a tree.\<close>

fun hashed :: "externals \<Rightarrow> mtree \<Rightarrow> bytes set" where
  "hashed X (Leaf p) = {p}"
| "hashed X (One t) = insert (hash_bytes (tree_hash X t)) (hashed X t)"
| "hashed X (Two t u) = insert (hash_bytes (tree_hash X t) @ hash_bytes (tree_hash X u)) (hashed X t \<union> hashed X u)"

fun tree_leaves :: "mtree \<Rightarrow> bytes list" where
  "tree_leaves (Leaf p) = [p]"
| "tree_leaves (One t) = tree_leaves t"
| "tree_leaves (Two t u) = tree_leaves t @ tree_leaves u"

fun tree_level :: "mtree list \<Rightarrow> mtree list" where
  "tree_level (t # u # ts) = Two t u # tree_level ts"
| "tree_level [t] = [One t]"
| "tree_level [] = []"

lemma length_tree_level [simp]: "length (tree_level ts) = (length ts + 1) div 2"
  by (induction ts rule: tree_level.induct) auto

function tree_of :: "mtree list \<Rightarrow> mtree" where
  "tree_of ts = (if length ts > 1 then tree_of (tree_level ts) else hd ts)"
  by pat_completeness auto
termination
  by (relation "measure length") auto

declare tree_of.simps [simp del]

lemma tree_level_hash: "map (tree_hash X) (tree_level ts) = merkle_level X (map (tree_hash X) ts)"
  by (induction ts rule: tree_level.induct) auto

lemma tree_level_leaves: "concat (map tree_leaves (tree_level ts)) = concat (map tree_leaves ts)"
  by (induction ts rule: tree_level.induct) auto

lemma tree_of_hash: "ts \<noteq> [] \<Longrightarrow> tree_hash X (tree_of ts) = merkle_root X (map (tree_hash X) ts)"
proof (induction ts rule: tree_of.induct)
  case (1 ts)
  show ?case
  proof (cases "length ts > 1")
    case True
    then have "tree_level ts \<noteq> []" by (cases ts rule: tree_level.cases) auto
    with 1(1) [OF True] True show ?thesis
      by (simp add: tree_of.simps [of ts] merkle_root.simps [of X "map (tree_hash X) ts"] tree_level_hash)
  next
    case False
    with 1(2) show ?thesis
      by (simp add: tree_of.simps [of ts] merkle_root.simps [of X "map (tree_hash X) ts"] hd_map)
  qed
qed

lemma tree_of_leaves: "ts \<noteq> [] \<Longrightarrow> tree_leaves (tree_of ts) = concat (map tree_leaves ts)"
proof (induction ts rule: tree_of.induct)
  case (1 ts)
  show ?case
  proof (cases "length ts > 1")
    case True
    then have "tree_level ts \<noteq> []" by (cases ts rule: tree_level.cases) auto
    with 1(1) [OF True] True show ?thesis by (simp add: tree_of.simps [of ts] tree_level_leaves)
  next
    case False
    with 1(2) have "ts = [hd ts]" by (cases ts) auto
    with False show ?thesis by (metis concat.simps(1,2) list.simps(8,9) append_Nil2 tree_of.simps)
  qed
qed

text \<open>Two of the byte strings hashed for two trees are a collision.\<close>

definition trees_collide :: "externals \<Rightarrow> mtree \<Rightarrow> mtree \<Rightarrow> bool" where
  "trees_collide X t u \<longleftrightarrow> (\<exists>a \<in> hashed X t. \<exists>b \<in> hashed X u. a \<noteq> b \<and> blake3 X a = blake3 X b)"

definition leaf_sized :: "mtree \<Rightarrow> bool" where
  "leaf_sized t \<longleftrightarrow> (\<forall>p \<in> set (tree_leaves t). length p \<noteq> 32 \<and> length p \<noteq> 64)"

fun top_input :: "externals \<Rightarrow> mtree \<Rightarrow> bytes" where
  "top_input X (Leaf p) = p"
| "top_input X (One t) = hash_bytes (tree_hash X t)"
| "top_input X (Two t u) = hash_bytes (tree_hash X t) @ hash_bytes (tree_hash X u)"

lemma top_input: "tree_hash X t = blake3 X (top_input X t)" "top_input X t \<in> hashed X t"
  by (cases t; simp)+

lemma tree_hash_inject:
  assumes "tree_hash X t = tree_hash X u" "leaf_sized t" "leaf_sized u"
  shows "t = u \<or> trees_collide X t u"
  using assms
proof (induction t arbitrary: u)
  case (Leaf p)
  show ?case
  proof (cases "top_input X u = p")
    case True
    with Leaf.prems(2) have "u = Leaf p" by (cases u) (auto simp: leaf_sized_def)
    then show ?thesis by simp
  next
    case False
    with Leaf.prems(1) top_input [of X u] show ?thesis by (auto simp: trees_collide_def)
  qed
next
  case (One t)
  show ?case
  proof (cases "top_input X u = top_input X (One t)")
    case True
    then have len: "length (top_input X u) = 32" by simp
    with One.prems(3) obtain v where u: "u = One v" by (cases u) (auto simp: leaf_sized_def)
    with True have "tree_hash X t = tree_hash X v" by simp
    then have "t = v \<or> trees_collide X t v"
      by (rule One.IH) (use One.prems u in \<open>simp_all add: leaf_sized_def\<close>)
    then show ?thesis by (auto simp: u trees_collide_def)
  next
    case False
    with One.prems(1) top_input [of X u] top_input [of X "One t"] show ?thesis
      unfolding trees_collide_def by metis
  qed
next
  case (Two t1 t2)
  show ?case
  proof (cases "top_input X u = top_input X (Two t1 t2)")
    case True
    then have len: "length (top_input X u) = 64" by simp
    with Two.prems(3) obtain v1 v2 where u: "u = Two v1 v2" by (cases u) (auto simp: leaf_sized_def)
    with True have eq: "tree_hash X t1 = tree_hash X v1" "tree_hash X t2 = tree_hash X v2" by simp_all
    have "t1 = v1 \<or> trees_collide X t1 v1"
      by (rule Two.IH(1) [OF eq(1)]) (use Two.prems u in \<open>simp_all add: leaf_sized_def\<close>)
    moreover have "t2 = v2 \<or> trees_collide X t2 v2"
      by (rule Two.IH(2) [OF eq(2)]) (use Two.prems u in \<open>simp_all add: leaf_sized_def\<close>)
    ultimately show ?thesis by (auto simp: u trees_collide_def)
  next
    case False
    with Two.prems(1) top_input [of X u] top_input [of X "Two t1 t2"] show ?thesis
      unfolding trees_collide_def by metis
  qed
qed

text \<open>The tree of a tenant: that of its leaves, or the repository name alone when there are none.\<close>

definition tenant_tree :: "externals \<Rightarrow> string \<Rightarrow> memory_node list \<times> edge list \<Rightarrow> mtree" where
  "tenant_tree X repo st =
     (if tenant_leaves X st = [] then Leaf (as_bytes repo) else tree_of (map Leaf (tenant_leaves X st)))"

lemma tenant_root_tree:
  "tenant_state X repo s = Inr st \<Longrightarrow> tenant_root X repo s = Inr (tree_hash X (tenant_tree X repo st))"
  by (simp add: tenant_root_def Let_def tenant_tree_def tree_of_hash comp_def)

lemma leaf_lengths: "length (node_leaf X n) = 41" "length (edge_leaf e) = 66"
  by (simp_all add: node_leaf_def edge_leaf_def edge_key_def)

lemma tenant_tree_leaves:
  "tenant_leaves X st \<noteq> [] \<Longrightarrow> tree_leaves (tenant_tree X repo st) = tenant_leaves X st"
  by (simp add: tenant_tree_def tree_of_leaves comp_def concat_map_singleton)

lemma tenant_tree_sized:
  assumes "length repo \<noteq> 32" "length repo \<noteq> 64"
  shows "leaf_sized (tenant_tree X repo st)"
proof (cases "tenant_leaves X st = []")
  case True
  with assms show ?thesis by (simp add: tenant_tree_def leaf_sized_def)
next
  case False
  then show ?thesis
    unfolding leaf_sized_def tenant_tree_leaves [OF False] by (auto simp: tenant_leaves_def leaf_lengths)
qed

text \<open>What a root covers of a state: ids, statuses and ends of validity (an absent one counts as 0)
  of the nodes, keys and quarantine flags of the edges.\<close>

definition covered :: "externals \<Rightarrow> memory_node list \<times> edge list \<Rightarrow>
    (content_hash \<times> status \<times> u64) list \<times> (bytes \<times> bool) list" where
  "covered X st =
     (map (\<lambda>n. (node_id X n, n_status n, case n_valid_to n of None \<Rightarrow> 0 | Some t \<Rightarrow> t)) (fst st),
      map (\<lambda>e. (edge_key e, e_quarantined e)) (snd st))"

lemma map_determines:
  assumes "map f xs = map f ys" "\<And>x y. f x = f y \<Longrightarrow> g x = g y"
  shows "map g xs = map g ys"
proof -
  have "list_all2 (\<lambda>x y. f x = f y) xs ys" using assms(1) by (simp add: list_all2_conv_all_nth list_eq_iff_nth_eq)
  then have "list_all2 (\<lambda>x y. g x = g y) xs ys" by (rule list_all2_mono) (rule assms(2))
  then show ?thesis by (auto simp: list_all2_conv_all_nth intro: nth_equalityI)
qed

lemma leaf_fields:
  "node_leaf X m = node_leaf X n \<Longrightarrow> (node_id X m, n_status m, case n_valid_to m of None \<Rightarrow> 0 | Some t \<Rightarrow> t) =
      (node_id X n, n_status n, case n_valid_to n of None \<Rightarrow> 0 | Some t \<Rightarrow> t)"
  "edge_leaf d = edge_leaf e \<Longrightarrow> (edge_key d, e_quarantined d) = (edge_key e, e_quarantined e)"
  by (simp_all add: node_leaf_def edge_leaf_def split: if_splits)

lemma leaves_cover:
  assumes "tenant_leaves X st = tenant_leaves X st'"
  shows "covered X st = covered X st'"
proof -
  have "filter (\<lambda>p. length p = k) (map (node_leaf X) ns @ map edge_leaf es) =
      (if k = 41 then map (node_leaf X) ns else []) @ (if k = 66 then map edge_leaf es else [])" for k ns es
    by (simp add: filter_map comp_def leaf_lengths)
  then have "map (node_leaf X) (fst st) = map (node_leaf X) (fst st')" "map edge_leaf (snd st) = map edge_leaf (snd st')"
    using arg_cong [OF assms, of "filter (\<lambda>p. length p = 41)"] arg_cong [OF assms, of "filter (\<lambda>p. length p = 66)"]
    by (simp_all add: tenant_leaves_def)
  then show ?thesis unfolding covered_def
    by (intro arg_cong2 [where f = Pair]) (rule map_determines, assumption, rule leaf_fields, assumption)+
qed

lemma roots_agree:
  assumes "tenant_root X repo s = tenant_root X repo s'" "tenant_state X repo s = Inr st" "tenant_state X repo s' = Inr st'"
    and len: "length repo \<notin> {32, 41, 64, 66}"
  shows "covered X st = covered X st' \<or> trees_collide X (tenant_tree X repo st) (tenant_tree X repo st')"
proof -
  let ?t = "tenant_tree X repo st" and ?u = "tenant_tree X repo st'"
  have "tree_hash X ?t = tree_hash X ?u" using assms(1-3) by (simp add: tenant_root_tree)
  then have "?t = ?u \<or> trees_collide X ?t ?u"
    by (rule tree_hash_inject) (use len tenant_tree_sized in auto)
  moreover have "tenant_leaves X st = tenant_leaves X st'" if "?t = ?u"
  proof -
    have no: "False" if "tenant_leaves X a = []" "tenant_leaves X b \<noteq> []" "tenant_tree X repo a = tenant_tree X repo b" for a b
    proof -
      have "tree_leaves (tenant_tree X repo b) = [as_bytes repo]"
        unfolding that(3) [symmetric] by (simp add: tenant_tree_def that(1))
      then have "tenant_leaves X b = [as_bytes repo]" using tenant_tree_leaves [OF that(2), of repo] by simp
      then have "as_bytes repo \<in> set (tenant_leaves X b)" by simp
      then have "length (as_bytes repo) \<in> {41, 66}"
        by (auto simp: tenant_leaves_def leaf_lengths dest!: arg_cong [where f = length])
      with len show False by simp
    qed
    show ?thesis
    proof (cases "tenant_leaves X st = [] \<or> tenant_leaves X st' = []")
      case True
      then show ?thesis using no [of st st'] no [of st' st] that by metis
    next
      case False
      then show ?thesis using tenant_tree_leaves [of X st repo] tenant_tree_leaves [of X st' repo] that by simp
    qed
  qed
  ultimately show ?thesis using leaves_cover by blast
qed

section \<open>Anchors\<close>

text \<open>What is used of \<^verbatim>\<open>serde_json\<close> on anchor records: decoding inverts encoding, and a record is not
  an envelope (it has no \<^verbatim>\<open>enc\<close> field).\<close>

definition anchor_codec_ok :: "externals \<Rightarrow> anchor_codec \<Rightarrow> bool" where
  "anchor_codec_ok X C \<longleftrightarrow> (\<forall>r b. anchor_to_json C r = Inr b \<longrightarrow> anchor_from_json C b = Inr r \<and> parse_envelope X b = None)"

lemma anchor_tenant_run:
  assumes "anchor_tenant X C repo now s = (Inr rec, s')"
  obtains root prev nodes edges b where "tenant_root X repo s = Inr root"
    "get_meta X (anchor_meta_key repo) s = Inr prev" "tenant_state X repo s = Inr (nodes, edges)"
    "rec = \<lparr>an_repo = repo, an_root = to_hex (hex_encode X) root, an_node_count = length nodes,
          an_edge_count = length edges, an_anchored_at_ms = now, an_prev = prev_link X prev\<rparr>"
    "anchor_to_json C rec = Inr b" "put_meta X repo (anchor_meta_key repo) b s = (Inr (), s')"
  using assms by (auto simp: anchor_tenant_def sbind_Inr_iff Let_def intro: that)

lemma to_hex_inject: "externals_ok X \<Longrightarrow> to_hex (hex_encode X) h = to_hex (hex_encode X) h' \<Longrightarrow> h = h'"
  using externals_okD(1) unfolding to_hex_def by (metis hash_bytes_inject Inr_inject)

lemma anchored:
  assumes "externals_ok X" "store_ok X s" "anchor_codec_ok X C" "anchor_tenant X C repo now s = (Inr rec, s')"
  shows "store_ok X s' \<and> abs_dag X s' = abs_dag X s \<and> latest_anchor X C repo s' = Inr (Some rec) \<and>
    verify_anchor X C repo s' = Inr (Some True) \<and>
    (\<exists>nodes edges prev. tenant_state X repo s = Inr (nodes, edges) \<and> an_node_count rec = length nodes \<and>
       an_edge_count rec = length edges \<and> get_meta X (anchor_meta_key repo) s = Inr prev \<and> an_prev rec = prev_link X prev)"
proof -
  obtain root prev nodes edges b where r: "tenant_root X repo s = Inr root"
      "get_meta X (anchor_meta_key repo) s = Inr prev" "tenant_state X repo s = Inr (nodes, edges)"
      "rec = \<lparr>an_repo = repo, an_root = to_hex (hex_encode X) root, an_node_count = length nodes,
          an_edge_count = length edges, an_anchored_at_ms = now, an_prev = prev_link X prev\<rparr>"
      "anchor_to_json C rec = Inr b" "put_meta X repo (anchor_meta_key repo) b s = (Inr (), s')"
    by (rule anchor_tenant_run [OF assms(4)])
  have json: "anchor_from_json C b = Inr rec" "parse_envelope X b = None"
    using assms(3) r(5) by (auto simp: anchor_codec_ok_def)
  from put_meta_effect [OF assms(1,2) r(6)] json(2)
  have eff: "effect X s s' []" and get: "get_meta X (anchor_meta_key repo) s' = Inr (Some b)" by simp_all
  have ok': "store_ok X s'" by (rule effect_ok [OF eff])
  have same: "abs_dag X s' = abs_dag X s" by (rule effect_nil_abs [OF eff])
  have "tenant_state X repo s' = tenant_state X repo s" by (rule tenant_state_canonical [OF ok' assms(2) same])
  then have "tenant_root X repo s' = Inr root" using r(1) by (simp add: tenant_root_def)
  moreover have latest: "latest_anchor X C repo s' = Inr (Some rec)" using get json(1) by (simp add: latest_anchor_def)
  ultimately have "verify_anchor X C repo s' = Inr (Some True)" by (simp add: verify_anchor_def r(4))
  with ok' same latest r show ?thesis by auto
qed

text \<open>Anchoring records the state and links the chain: after \<^verbatim>\<open>anchor_tenant\<close> the record returned is
  the latest anchor, it verifies against the state it was taken of, it carries the number of
  nodes and edges and the hash of the record it replaces, and the graph is untouched.\<close>

theorem anchor_verifies:
  assumes "externals_ok X" "store_ok X s" "anchor_codec_ok X C" "anchor_tenant X C repo now s = (Inr rec, s')"
  shows "store_ok X s' \<and> abs_dag X s' = abs_dag X s \<and> latest_anchor X C repo s' = Inr (Some rec) \<and>
    verify_anchor X C repo s' = Inr (Some True) \<and>
    (\<exists>nodes edges prev. tenant_state X repo s = Inr (nodes, edges) \<and> an_node_count rec = length nodes \<and>
       an_edge_count rec = length edges \<and> get_meta X (anchor_meta_key repo) s = Inr prev \<and> an_prev rec = prev_link X prev)"
  by (rule anchored [OF assms])


section \<open>A codec for anchor records\<close>

definition record_number :: "anchor_record \<Rightarrow> nat" where
  "record_number r = to_nat (an_repo r, an_root r, an_node_count r, an_edge_count r, an_anchored_at_ms r, an_prev r)"

definition number_record :: "nat \<Rightarrow> anchor_record" where
  "number_record k = (case from_nat k of (a, b, c, d, e, f) \<Rightarrow>
     \<lparr>an_repo = a, an_root = b, an_node_count = c, an_edge_count = d, an_anchored_at_ms = e, an_prev = f\<rparr>)"

definition ideal_anchor_codec :: anchor_codec where
  "ideal_anchor_codec = \<lparr>anchor_to_json = (\<lambda>r. Inr (9 # replicate (record_number r) 0)),
     anchor_from_json = (\<lambda>b. Inr (number_record (length b - 1)))\<rparr>"

lemma ideal_anchor_codec_ok: "anchor_codec_ok ideal_externals ideal_anchor_codec"
  by (simp add: anchor_codec_ok_def ideal_anchor_codec_def number_record_def record_number_def parse_envelope_def
      ideal_externals_def untag_def)

lemma anchor_tenant_total:
  assumes X: "externals_ok X" "externals_total X" and ok: "store_ok X s"
    and C: "\<And>r. \<exists>b. anchor_to_json C r = Inr b" and meta: "get_meta X (anchor_meta_key repo) s = Inr prev"
  obtains rec s' where "anchor_tenant X C repo now s = (Inr rec, s')"
proof -
  obtain st where st: "tenant_state X repo s = Inr st" by (rule tenant_state_spec [OF ok, of repo]) (rule that)
  let ?rec = "\<lparr>an_repo = repo, an_root = to_hex (hex_encode X) (tree_hash X (tenant_tree X repo st)),
    an_node_count = length (fst st), an_edge_count = length (snd st), an_anchored_at_ms = now, an_prev = prev_link X prev\<rparr>"
  obtain b where b: "anchor_to_json C ?rec = Inr b" using C by blast
  obtain s' where "put_meta X repo (anchor_meta_key repo) b s = (Inr (), s')"
    using put_meta_total [OF X ok] by blast
  with st b meta have "anchor_tenant X C repo now s = (Inr ?rec, s')"
    by (simp add: anchor_tenant_def sbind_def smap_err_def tenant_root_tree case_prod_beta Let_def)
  then show ?thesis by (rule that)
qed

lemma sample_anchor:
  obtains rec s' where "anchor_tenant ideal_externals ideal_anchor_codec ''acme'' 7 (new kv_new) = (Inr rec, s')"
    "store_ok ideal_externals s'" "latest_anchor ideal_externals ideal_anchor_codec ''acme'' s' = Inr (Some rec)"
    "verify_anchor ideal_externals ideal_anchor_codec ''acme'' s' = Inr (Some True)"
proof -
  have meta: "get_meta ideal_externals (anchor_meta_key ''acme'') (new kv_new) = Inr None"
    using kv_rd_get [OF store_okD(2) [OF new_store_ok]] by (simp add: get_meta_def new_def)
  have C: "\<exists>b. anchor_to_json ideal_anchor_codec r = Inr b" for r by (simp add: ideal_anchor_codec_def)
  obtain rec s' where run: "anchor_tenant ideal_externals ideal_anchor_codec ''acme'' 7 (new kv_new) = (Inr rec, s')"
    by (rule anchor_tenant_total [OF ideal_externals_ok ideal_externals_total new_store_ok C meta, of 7]) (rule that)
  from anchored [OF ideal_externals_ok new_store_ok ideal_anchor_codec_ok run] run that show ?thesis by blast
qed

text \<open>Anchoring an empty tenant.\<close>

theorem anchor_verifies_witness:
  "\<exists>rec s'. anchor_tenant ideal_externals ideal_anchor_codec ''acme'' 7 (new kv_new) = (Inr rec, s') \<and>
     verify_anchor ideal_externals ideal_anchor_codec ''acme'' s' = Inr (Some True)"
proof (rule sample_anchor)
  fix rec s'
  assume run: "anchor_tenant ideal_externals ideal_anchor_codec ''acme'' 7 (new kv_new) = (Inr rec, s')"
  from anchor_verifies [OF ideal_externals_ok new_store_ok ideal_anchor_codec_ok run] run show ?thesis by blast
qed


end
