(* ===== verification/Chain_Anchor.thy ===== *)
theory Chain_Anchor
  imports Anchor Text
begin

text \<open>
  Binding a tenant root to a chain block (\<^verbatim>\<open>crates/mem-sync/src/chain.rs\<close>). The HTTP client and
  the JSON text of a value are the parameter \<open>N\<close> (crates \<^verbatim>\<open>ureq\<close> and \<^verbatim>\<open>serde_json\<close>): a request
  fails, or its body fails to parse, or it gives a JSON value. Everything that interprets the
  answer is modelled, down to the hexadecimal quantities.
\<close>

section \<open>Data\<close>

datatype json = JNull | JBool bool | JNum string | JStr string | JArr "json list" | JObj "(string \<times> json) list"

record chain_checkpoint =
  cc_chain_id :: u64
  cc_block_number :: u64
  cc_block_hash :: string
  cc_fetched_at_ms :: u64

record chain_anchor_record =
  ca_anchor :: anchor_record
  ca_checkpoint :: chain_checkpoint

record chain_codec =
  chain_to_json :: "chain_anchor_record \<Rightarrow> (string, bytes) result"
  chain_from_json :: "bytes \<Rightarrow> (string, chain_anchor_record) result"

record rpc_env =
  http_post_json :: "string \<Rightarrow> json \<Rightarrow> (string, (string, json) result) result"
  json_text :: "json \<Rightarrow> string"

fun json_get :: "string \<Rightarrow> json \<Rightarrow> json option" where
  "json_get k (JObj kvs) = map_of kvs k"
| "json_get k _ = None"

fun json_as_str :: "json \<Rightarrow> string option" where
  "json_as_str (JStr s) = Some s"
| "json_as_str _ = None"

definition anchor_chain_key :: "string \<Rightarrow> bytes" where
  "anchor_chain_key repo = as_bytes (''chain_anchor:'' @ repo)"

definition external_checkpoint_key :: "string \<Rightarrow> bytes" where
  "external_checkpoint_key repo = as_bytes (''ext_checkpoint:'' @ repo)"

definition MAX_EXTERNAL_ROOT_LEN :: nat where
  "MAX_EXTERNAL_ROOT_LEN = 256"

section \<open>The checkpoint\<close>

definition rpc_call :: "rpc_env \<Rightarrow> string \<Rightarrow> string \<Rightarrow> json \<Rightarrow> (sync_error, json) result" where
  "rpc_call N rpc_url meth params =
     (let body = JObj [(''jsonrpc'', JStr ''2.0''), (''id'', JNum ''1''), (''method'', JStr meth), (''params'', params)] in
      rbind (map_err (\<lambda>e. Chain (meth @ '' RPC failed: '' @ e)) (http_post_json N rpc_url body)) (\<lambda>r.
      rbind (map_err (\<lambda>e. Chain (meth @ '' response not JSON: '' @ e)) r) (\<lambda>resp.
      case json_get ''error'' resp of
        Some err \<Rightarrow> Inl (Chain (meth @ '' RPC error: '' @ json_text N err))
      | None \<Rightarrow> ok_or (Chain (meth @ '' response missing '' @ CHR 0x27 # ''result'' @ [CHR 0x27])) (json_get ''result'' resp))))"

definition hex_to_u64 :: "string \<Rightarrow> (sync_error, u64) result" where
  "hex_to_u64 s =
     (let stripped = (case strip_prefix ''0x'' s of Some t \<Rightarrow> t | None \<Rightarrow> s) in
      map_err (\<lambda>e. Chain (''bad hex quantity '' @ CHR 0x27 # s @ CHR 0x27 # '': '' @ parse_int_text e))
        (from_str_radix 16 stripped))"

definition fetch_chain_checkpoint :: "rpc_env \<Rightarrow> string \<Rightarrow> u64 \<Rightarrow> u64 \<Rightarrow> (sync_error, chain_checkpoint) result" where
  "fetch_chain_checkpoint N rpc_url expected_chain_id now_ms =
     rbind (rpc_call N rpc_url ''eth_chainId'' (JArr [])) (\<lambda>v.
     rbind (ok_or (Chain ''eth_chainId result not a string'') (json_as_str v)) (\<lambda>s.
     rbind (hex_to_u64 s) (\<lambda>chain_id.
     if chain_id \<noteq> expected_chain_id then
       Inl (Chain (''chain id mismatch: RPC is '' @ decimal (unat chain_id) @ '', expected '' @ decimal (unat expected_chain_id)))
     else
       rbind (rpc_call N rpc_url ''eth_blockNumber'' (JArr [])) (\<lambda>v.
       rbind (ok_or (Chain ''eth_blockNumber result not a string'') (json_as_str v)) (\<lambda>s.
       rbind (hex_to_u64 s) (\<lambda>block_number.
       rbind (rpc_call N rpc_url ''eth_getBlockByNumber''
          (JArr [JStr (''0x'' @ print_radix 16 (unat block_number)), JBool False])) (\<lambda>block.
       rbind (ok_or (Chain ''block has no hash'') (Option.bind (json_get ''hash'' block) json_as_str)) (\<lambda>block_hash.
       Inr \<lparr>cc_chain_id = chain_id, cc_block_number = block_number, cc_block_hash = block_hash,
            cc_fetched_at_ms = now_ms\<rparr>))))))))"

section \<open>Bound records\<close>

definition anchor_tenant_to_chain ::
    "externals \<Rightarrow> anchor_codec \<Rightarrow> chain_codec \<Rightarrow> rpc_env \<Rightarrow> string \<Rightarrow> string \<Rightarrow> u64 \<Rightarrow> u64 \<Rightarrow>
     (dag_store, sync_error, chain_anchor_record) action" where
  "anchor_tenant_to_chain X C D N repo rpc_url expected_chain_id now_ms =
     sbind (slift (fetch_chain_checkpoint N rpc_url expected_chain_id now_ms)) (\<lambda>checkpoint.
     sbind (anchor_tenant X C repo now_ms) (\<lambda>anchor.
     let rec = \<lparr>ca_anchor = anchor, ca_checkpoint = checkpoint\<rparr> in
     sbind (slift (map_err SyncSerde (chain_to_json D rec))) (\<lambda>b.
     sbind (smap_err SyncStore (put_meta X repo (anchor_chain_key repo) b)) (\<lambda>_.
     sok rec))))"

definition latest_record ::
    "externals \<Rightarrow> chain_codec \<Rightarrow> bytes \<Rightarrow> dag_store \<Rightarrow> (sync_error, chain_anchor_record option) result" where
  "latest_record X D key s =
     rbind (map_err SyncStore (get_meta X key s)) (\<lambda>v.
     case v of
       None \<Rightarrow> Inr None
     | Some b \<Rightarrow> rbind (map_err SyncSerde (chain_from_json D b)) (\<lambda>r. Inr (Some r)))"

definition latest_chain_anchor ::
    "externals \<Rightarrow> chain_codec \<Rightarrow> string \<Rightarrow> dag_store \<Rightarrow> (sync_error, chain_anchor_record option) result" where
  "latest_chain_anchor X D repo s = latest_record X D (anchor_chain_key repo) s"

definition latest_external_checkpoint ::
    "externals \<Rightarrow> chain_codec \<Rightarrow> string \<Rightarrow> dag_store \<Rightarrow> (sync_error, chain_anchor_record option) result" where
  "latest_external_checkpoint X D repo s = latest_record X D (external_checkpoint_key repo) s"

definition checkpoint_external_root ::
    "externals \<Rightarrow> chain_codec \<Rightarrow> rpc_env \<Rightarrow> string \<Rightarrow> string \<Rightarrow> string \<Rightarrow> u64 \<Rightarrow> u64 \<Rightarrow>
     (dag_store, sync_error, chain_anchor_record) action" where
  "checkpoint_external_root X D N repo external_root rpc_url expected_chain_id now_ms =
     (let root = trim external_root in
      if root = [] then serr (Chain ''external root required'')
      else if length root > MAX_EXTERNAL_ROOT_LEN then
        serr (Chain (''external root too long ('' @ decimal (length root) @ '' > '' @ decimal MAX_EXTERNAL_ROOT_LEN @ '')''))
      else
        sbind (slift (fetch_chain_checkpoint N rpc_url expected_chain_id now_ms)) (\<lambda>checkpoint.
        sbind (smap_err SyncStore (sread (get_meta X (external_checkpoint_key repo)))) (\<lambda>prev.
        let rec = \<lparr>ca_anchor = \<lparr>an_repo = repo, an_root = root, an_node_count = 0, an_edge_count = 0,
               an_anchored_at_ms = now_ms, an_prev = prev_link X prev\<rparr>, ca_checkpoint = checkpoint\<rparr> in
        sbind (slift (map_err SyncSerde (chain_to_json D rec))) (\<lambda>b.
        sbind (smap_err SyncStore (put_meta X repo (external_checkpoint_key repo) b)) (\<lambda>_.
        sok rec)))))"

section \<open>Quantities\<close>

lemma print_radix_ne [simp]: "print_radix r n \<noteq> []"
  by (subst print_radix.simps) simp

lemma hd_print_radix: "\<exists>d < 16. hd (print_radix 16 n) = digit_char d"
proof (induction n rule: less_induct)
  case (less n)
  show ?case
  proof (cases "n < 16")
    case True
    then show ?thesis by (auto simp: print_radix.simps [of 16 n])
  next
    case False
    then have "n div 16 < n" by simp
    from less.IH [OF this] False show ?thesis by (simp add: print_radix.simps [of 16 n])
  qed
qed

lemma digit_char_not_sign: "d < 16 \<Longrightarrow> digit_char d \<noteq> CHR ''+'' \<and> digit_char d \<noteq> CHR ''-''"
  using to_digit_digit_char [of d 16] by (auto simp: to_digit_def Let_def simp del: digit_char.simps)

text \<open>C39. Quantities are read exactly: \<^verbatim>\<open>hex_to_u64\<close> gives back every 64-bit number from its printed form,
  and it accepts a text only if, after an optional \<^verbatim>\<open>0x\<close> and an optional plus sign, it is a
  non-empty string of hexadecimal digits whose value fits into 64 bits, which is then the
  result: nothing wraps around.\<close>

theorem hex_quantity_exact:
  "hex_to_u64 (''0x'' @ print_radix 16 (unat n)) = Inr n \<and>
   (hex_to_u64 s = Inr v \<longleftrightarrow>
     (let t = (case strip_prefix ''0x'' s of Some t \<Rightarrow> t | None \<Rightarrow> s);
          ds = (if t \<noteq> [] \<and> hd t = CHR ''+'' then tl t else t)
      in t \<noteq> [] \<and> ds \<noteq> [] \<and> (\<exists>k < 2 ^ 64. digits_value 16 0 ds = Some k \<and> v = of_nat k)))"
proof
  obtain d where d: "d < 16" "hd (print_radix 16 (unat n)) = digit_char d" using hd_print_radix by blast
  note ns = digit_char_not_sign [OF d(1)]
  have "print_radix 16 (unat n) \<noteq> ''+''" "print_radix 16 (unat n) \<noteq> ''-''" using d(2) ns by force+
  moreover have "unat n < 2 ^ 64" using unat_bound [of n] by simp
  ultimately show "hex_to_u64 (''0x'' @ print_radix 16 (unat n)) = Inr n"
    using d(2) ns parse_print [of 16 "unat n"]
    by (simp add: hex_to_u64_def Let_def from_str_radix_def strip_prefix_def del: digit_char.simps)
next
  let ?t = "case strip_prefix ''0x'' s of Some t \<Rightarrow> t | None \<Rightarrow> s"
  have minus: "digits_value 16 0 ''-'' = None" by (simp add: to_digit_def)
  show "hex_to_u64 s = Inr v \<longleftrightarrow>
     (let t = ?t; ds = (if t \<noteq> [] \<and> hd t = CHR ''+'' then tl t else t)
      in t \<noteq> [] \<and> ds \<noteq> [] \<and> (\<exists>k < 2 ^ 64. digits_value 16 0 ds = Some k \<and> v = of_nat k))"
  proof (cases "?t = ''+'' \<or> ?t = ''-''")
    case True
    then show ?thesis using minus by (auto simp: hex_to_u64_def Let_def from_str_radix_def)
  next
    case False
    then have "tl ?t \<noteq> []" if "?t \<noteq> []" "hd ?t = CHR ''+''" using that by (cases ?t) auto
    with False show ?thesis
      by (auto simp: hex_to_u64_def Let_def from_str_radix_def parse_digits_value)
  qed
qed

section \<open>Meta slots are independent\<close>

lemma meta_keys_differ [simp]:
  "anchor_meta_key r \<noteq> anchor_chain_key r'" "anchor_meta_key r \<noteq> external_checkpoint_key r'"
  "anchor_chain_key r \<noteq> external_checkpoint_key r'"
  by (simp_all add: anchor_meta_key_def anchor_chain_key_def external_checkpoint_key_def del: as_bytes_append)

section \<open>Chain anchors\<close>

definition chain_codec_ok :: "externals \<Rightarrow> chain_codec \<Rightarrow> bool" where
  "chain_codec_ok X D \<longleftrightarrow> (\<forall>r b. chain_to_json D r = Inr b \<longrightarrow> chain_from_json D b = Inr r \<and> parse_envelope X b = None)"

lemma fetched_chain_id:
  "fetch_chain_checkpoint N url c now = Inr cp \<Longrightarrow> cc_chain_id cp = c \<and> cc_fetched_at_ms cp = now"
  by (auto simp: fetch_chain_checkpoint_def split: if_splits)

lemma latest_anchor_cong:
  "get_meta X (anchor_meta_key repo) s' = get_meta X (anchor_meta_key repo) s \<Longrightarrow>
     latest_anchor X C repo s' = latest_anchor X C repo s"
  by (simp add: latest_anchor_def)

lemma put_record:
  assumes X: "externals_ok X" and ok: "store_ok X s" and D: "chain_codec_ok X D"
    and b: "chain_to_json D rec = Inr b" and put: "put_meta X repo k b s = (Inr (), s')"
  shows "store_ok X s'" "abs_dag X s' = abs_dag X s" "latest_record X D k s' = Inr (Some rec)"
    "meta_ok X s \<Longrightarrow> meta_ok X s'" "meta_ok X s \<Longrightarrow> k' \<noteq> k \<Longrightarrow> get_meta X k' s' = get_meta X k' s"
proof -
  have j: "chain_from_json D b = Inr rec" "parse_envelope X b = None" using D b by (auto simp: chain_codec_ok_def)
  note eff = put_meta_effect [OF X ok put]
  show "store_ok X s'" "abs_dag X s' = abs_dag X s" using eff effect_ok effect_nil_abs by blast+
  show "latest_record X D k s' = Inr (Some rec)" using eff j by (simp add: latest_record_def)
  show "meta_ok X s \<Longrightarrow> meta_ok X s'" "meta_ok X s \<Longrightarrow> k' \<noteq> k \<Longrightarrow> get_meta X k' s' = get_meta X k' s"
    using put_meta_other [OF X ok _ _ put] j(2) by blast+
qed

text \<open>C37. A chain anchor is bound or absent. When the checkpoint cannot be fetched and verified (request,
  body, missing field, malformed quantity, wrong chain) nothing at all is written, not even
  the local anchor. When the operation succeeds the checkpoint names the expected chain, the
  record is the latest chain anchor, its local part is the latest local anchor and verifies
  against the state, and the graph is untouched.\<close>

theorem chain_anchor_bound_or_absent:
  assumes "externals_ok X" "store_ok X s" "meta_ok X s" "anchor_codec_ok X C" "chain_codec_ok X D"
  shows "(\<forall>e. fetch_chain_checkpoint N url cid now = Inl e \<longrightarrow>
      anchor_tenant_to_chain X C D N repo url cid now s = (Inl e, s)) \<and>
    (\<forall>rec s'. anchor_tenant_to_chain X C D N repo url cid now s = (Inr rec, s') \<longrightarrow>
      cc_chain_id (ca_checkpoint rec) = cid \<and> fetch_chain_checkpoint N url cid now = Inr (ca_checkpoint rec) \<and>
      latest_chain_anchor X D repo s' = Inr (Some rec) \<and> latest_anchor X C repo s' = Inr (Some (ca_anchor rec)) \<and>
      verify_anchor X C repo s' = Inr (Some True) \<and> abs_dag X s' = abs_dag X s \<and> store_ok X s')"
proof (intro conjI allI impI)
  show "anchor_tenant_to_chain X C D N repo url cid now s = (Inl e, s)" if "fetch_chain_checkpoint N url cid now = Inl e" for e
    using that by (simp add: anchor_tenant_to_chain_def slift_bind)
next
  fix rec s'
  assume "anchor_tenant_to_chain X C D N repo url cid now s = (Inr rec, s')"
  then obtain cp a s1 b where f: "fetch_chain_checkpoint N url cid now = Inr cp"
      and a: "anchor_tenant X C repo now s = (Inr a, s1)" and rec: "rec = \<lparr>ca_anchor = a, ca_checkpoint = cp\<rparr>"
      and b: "chain_to_json D rec = Inr b" and put: "put_meta X repo (anchor_chain_key repo) b s1 = (Inr (), s')"
    by (auto simp: anchor_tenant_to_chain_def sbind_Inr_iff Let_def)
  note A = anchored [OF assms(1,2,4) a]
  from A have ok1: "store_ok X s1" by blast
  obtain ab where ab: "anchor_to_json C a = Inr ab" "put_meta X repo (anchor_meta_key repo) ab s = (Inr (), s1)"
    by (rule anchor_tenant_run [OF a]) (rule that)
  have "parse_envelope X ab = None" using assms(4) ab(1) by (auto simp: anchor_codec_ok_def)
  then have m1: "meta_ok X s1" using put_meta_other(1) [OF assms(1-3) _ ab(2)] by blast
  note P = put_record [OF assms(1) ok1 assms(5) b put]
  have "get_meta X (anchor_meta_key repo) s' = get_meta X (anchor_meta_key repo) s1" by (rule P(5) [OF m1]) simp
  then have la: "latest_anchor X C repo s' = Inr (Some a)" using A latest_anchor_cong by metis
  have "tenant_state X repo s' = tenant_state X repo s1" by (rule tenant_state_canonical [OF P(1) ok1 P(2)])
  then have "tenant_root X repo s' = tenant_root X repo s1" by (simp add: tenant_root_def)
  then have "verify_anchor X C repo s' = verify_anchor X C repo s1" using la A by (simp add: verify_anchor_def)
  with A la f rec P(1-3) fetched_chain_id [OF f]
  show "cc_chain_id (ca_checkpoint rec) = cid" "fetch_chain_checkpoint N url cid now = Inr (ca_checkpoint rec)"
    "latest_chain_anchor X D repo s' = Inr (Some rec)" "latest_anchor X C repo s' = Inr (Some (ca_anchor rec))"
    "verify_anchor X C repo s' = Inr (Some True)" "abs_dag X s' = abs_dag X s" "store_ok X s'"
    by (simp_all add: latest_chain_anchor_def)
qed

text \<open>External checkpoints keep to their own slot: a root that is empty or longer than 256 bytes after
  trimming, or an unverified chain, writes nothing; a recorded checkpoint carries the trimmed
  root, names the expected chain, links to the one before it, is read back as the latest,
  and leaves the graph, the local anchors and the chain anchors of every tenant as they were.\<close>

theorem external_checkpoint_contract:
  assumes "externals_ok X" "store_ok X s" "meta_ok X s" "chain_codec_ok X D"
    and "checkpoint_external_root X D N repo ext url cid now s = (r, s')"
  shows "(trim ext = [] \<or> length (trim ext) > 256 \<or> (\<exists>e. fetch_chain_checkpoint N url cid now = Inl e) \<longrightarrow>
      (\<exists>e. r = Inl e) \<and> s' = s) \<and>
    (\<forall>rec. r = Inr rec \<longrightarrow>
      an_root (ca_anchor rec) = trim ext \<and> 0 < length (trim ext) \<and> length (trim ext) \<le> 256 \<and>
      cc_chain_id (ca_checkpoint rec) = cid \<and>
      (\<exists>prev. get_meta X (external_checkpoint_key repo) s = Inr prev \<and> an_prev (ca_anchor rec) = prev_link X prev) \<and>
      latest_external_checkpoint X D repo s' = Inr (Some rec) \<and> abs_dag X s' = abs_dag X s \<and>
      (\<forall>t C. latest_anchor X C t s' = latest_anchor X C t s \<and>
         latest_chain_anchor X D t s' = latest_chain_anchor X D t s))"
proof (intro conjI)
  show "trim ext = [] \<or> length (trim ext) > 256 \<or> (\<exists>e. fetch_chain_checkpoint N url cid now = Inl e) \<longrightarrow>
      (\<exists>e. r = Inl e) \<and> s' = s"
    using assms(5) by (auto simp: checkpoint_external_root_def Let_def MAX_EXTERNAL_ROOT_LEN_def slift_bind split: if_splits)
  show "\<forall>rec. r = Inr rec \<longrightarrow>
      an_root (ca_anchor rec) = trim ext \<and> 0 < length (trim ext) \<and> length (trim ext) \<le> 256 \<and>
      cc_chain_id (ca_checkpoint rec) = cid \<and>
      (\<exists>prev. get_meta X (external_checkpoint_key repo) s = Inr prev \<and> an_prev (ca_anchor rec) = prev_link X prev) \<and>
      latest_external_checkpoint X D repo s' = Inr (Some rec) \<and> abs_dag X s' = abs_dag X s \<and>
      (\<forall>t C. latest_anchor X C t s' = latest_anchor X C t s \<and>
         latest_chain_anchor X D t s' = latest_chain_anchor X D t s)"
  proof (intro allI impI)
    fix rec
    assume "r = Inr rec"
    with assms(5) obtain cp prev b where len: "trim ext \<noteq> []" "length (trim ext) \<le> 256"
        and f: "fetch_chain_checkpoint N url cid now = Inr cp" and prev: "get_meta X (external_checkpoint_key repo) s = Inr prev"
        and rec: "rec = \<lparr>ca_anchor = \<lparr>an_repo = repo, an_root = trim ext, an_node_count = 0, an_edge_count = 0,
               an_anchored_at_ms = now, an_prev = prev_link X prev\<rparr>, ca_checkpoint = cp\<rparr>"
        and b: "chain_to_json D rec = Inr b" and put: "put_meta X repo (external_checkpoint_key repo) b s = (Inr (), s')"
      by (auto simp: checkpoint_external_root_def Let_def MAX_EXTERNAL_ROOT_LEN_def sbind_Inr_iff split: if_splits)
    note P = put_record [OF assms(1,2,4) b put]
    have "get_meta X (anchor_meta_key t) s' = get_meta X (anchor_meta_key t) s"
      "get_meta X (anchor_chain_key t) s' = get_meta X (anchor_chain_key t) s" for t
      by (rule P(5) [OF assms(3)], simp)+
    with len f prev rec P(2,3) fetched_chain_id [OF f]
    show "an_root (ca_anchor rec) = trim ext \<and> 0 < length (trim ext) \<and> length (trim ext) \<le> 256 \<and>
      cc_chain_id (ca_checkpoint rec) = cid \<and>
      (\<exists>prev. get_meta X (external_checkpoint_key repo) s = Inr prev \<and> an_prev (ca_anchor rec) = prev_link X prev) \<and>
      latest_external_checkpoint X D repo s' = Inr (Some rec) \<and> abs_dag X s' = abs_dag X s \<and>
      (\<forall>t C. latest_anchor X C t s' = latest_anchor X C t s \<and>
         latest_chain_anchor X D t s' = latest_chain_anchor X D t s)"
      by (simp add: latest_anchor_def latest_chain_anchor_def latest_external_checkpoint_def latest_record_def [of X D "anchor_chain_key _"])
  qed
qed

section \<open>A sample chain\<close>

definition checkpoint_number :: "chain_checkpoint \<Rightarrow> nat" where
  "checkpoint_number c = to_nat (cc_chain_id c, cc_block_number c, cc_block_hash c, cc_fetched_at_ms c)"

definition number_checkpoint :: "nat \<Rightarrow> chain_checkpoint" where
  "number_checkpoint k = (case from_nat k of (a, b, c, d) \<Rightarrow>
     \<lparr>cc_chain_id = a, cc_block_number = b, cc_block_hash = c, cc_fetched_at_ms = d\<rparr>)"

definition ideal_chain_codec :: chain_codec where
  "ideal_chain_codec = \<lparr>chain_to_json = (\<lambda>r. Inr (9 # replicate
       (to_nat (record_number (ca_anchor r), checkpoint_number (ca_checkpoint r))) 0)),
     chain_from_json = (\<lambda>b. Inr (case from_nat (length b - 1) of (i, j) \<Rightarrow>
       \<lparr>ca_anchor = number_record i, ca_checkpoint = number_checkpoint j\<rparr>))\<rparr>"

lemma ideal_chain_codec_ok: "chain_codec_ok ideal_externals ideal_chain_codec"
  by (simp add: chain_codec_ok_def ideal_chain_codec_def number_record_def record_number_def number_checkpoint_def
      checkpoint_number_def parse_envelope_def ideal_externals_def untag_def)

definition sample_rpc :: rpc_env where
  "sample_rpc = \<lparr>http_post_json = (\<lambda>url body. Inr (Inr (JObj [(''result'',
       if json_get ''method'' body = Some (JStr ''eth_getBlockByNumber'') then JObj [(''hash'', JStr ''0xab'')]
       else JStr ''0x9d0c'')]))), json_text = (\<lambda>_. [])\<rparr>"

lemma sample_fetch:
  "fetch_chain_checkpoint sample_rpc url 40204 now =
     Inr \<lparr>cc_chain_id = 40204, cc_block_number = 40204, cc_block_hash = ''0xab'', cc_fetched_at_ms = now\<rparr>"
proof -
  have h: "hex_to_u64 ''0x9d0c'' = Inr 40204"
    by (simp add: hex_to_u64_def strip_prefix_def from_str_radix_def to_digit_def)
  show ?thesis by (simp add: fetch_chain_checkpoint_def rpc_call_def Let_def sample_rpc_def h)
qed

lemma meta_ok_new: "meta_ok X (new kv_new)"
  by (simp add: meta_ok_def new_def)

text \<open>C37, an empty tenant anchored to a block of chain 40204.\<close>

theorem chain_anchor_bound_or_absent_witness:
  "\<exists>rec s'. anchor_tenant_to_chain ideal_externals ideal_anchor_codec ideal_chain_codec sample_rpc ''acme'' [] 40204 7 (new kv_new) =
      (Inr rec, s') \<and> latest_chain_anchor ideal_externals ideal_chain_codec ''acme'' s' = Inr (Some rec)"
proof (rule sample_anchor)
  fix a s1
  let ?X = ideal_externals
  assume a: "anchor_tenant ?X ideal_anchor_codec ''acme'' 7 (new kv_new) = (Inr a, s1)" and ok: "store_ok ?X s1"
  let ?rec = "\<lparr>ca_anchor = a, ca_checkpoint =
    \<lparr>cc_chain_id = 40204, cc_block_number = 40204, cc_block_hash = ''0xab'', cc_fetched_at_ms = 7\<rparr>\<rparr>"
  obtain b where b: "chain_to_json ideal_chain_codec ?rec = Inr b" by (simp add: ideal_chain_codec_def)
  obtain s' where "put_meta ?X ''acme'' (anchor_chain_key ''acme'') b s1 = (Inr (), s')"
    using put_meta_total [OF ideal_externals_ok ideal_externals_total ok] by blast
  then have run: "anchor_tenant_to_chain ?X ideal_anchor_codec ideal_chain_codec sample_rpc ''acme'' [] 40204 7 (new kv_new) = (Inr ?rec, s')"
    using a b by (simp add: anchor_tenant_to_chain_def sample_fetch sbind_def smap_err_def)
  from chain_anchor_bound_or_absent [OF ideal_externals_ok new_store_ok meta_ok_new ideal_anchor_codec_ok ideal_chain_codec_ok] run
  show ?thesis by blast
qed

text \<open>An external root of spaces only.\<close>

theorem external_checkpoint_contract_witness:
  "\<exists>e. checkpoint_external_root ideal_externals ideal_chain_codec sample_rpc ''acme'' ''  '' [] 40204 7 (new kv_new) =
     (Inl e, new kv_new)"
proof -
  obtain r s' where run: "checkpoint_external_root ideal_externals ideal_chain_codec sample_rpc ''acme'' ''  '' [] 40204 7 (new kv_new) = (r, s')"
    by (cases "checkpoint_external_root ideal_externals ideal_chain_codec sample_rpc ''acme'' ''  '' [] 40204 7 (new kv_new)")
  have "trim ''  '' = []" by (simp add: trim_def as_bytes_def trim_start.simps trim_end_def of_bytes_def)
  with external_checkpoint_contract [OF ideal_externals_ok new_store_ok meta_ok_new ideal_chain_codec_ok run] run
  show ?thesis by auto
qed

end
