(* ===== verification/Seal_Migration.thy ===== *)
theory Seal_Migration
  imports Erasure
begin

text \<open>
  The one-shot migration that seals plaintext rows in place (\<^verbatim>\<open>migrate_seal_v2\<close> and
  \<^verbatim>\<open>new_auto\<close> of \<^verbatim>\<open>crates/mem-store/src/lib.rs\<close>). The three loops of the migration, over the two
  adjacency tables and over the operational meta, keep one contract, stated as the locale
  \<^verbatim>\<open>row_reseal\<close>: a row is left alone, or replaced by its own sealed form under the live key of
  its owner. What holds of every loop is proved once there; the theorem is that nothing that
  can be read changes, whether the migration ends or stops half way, and that a migration
  that ends has sealed every row that has an owner.
\<close>

section \<open>Definitions\<close>

definition default_report :: seal_migration_report where
  "default_report = \<lparr>mr_already_done = False, mr_edges_sealed = 0, mr_meta_sealed = 0, mr_skipped_unknown_tenant = 0\<rparr>"

definition skip_row :: "seal_migration_report \<Rightarrow> seal_migration_report" where
  "skip_row report = report\<lparr>mr_skipped_unknown_tenant := mr_skipped_unknown_tenant report + 1\<rparr>"

definition reseal_row ::
    "externals \<Rightarrow> string \<Rightarrow> string \<Rightarrow> bytes \<Rightarrow> bytes \<Rightarrow> unit writer" where
  "reseal_row X cf tenant k v =
     sbind (ensure_tenant_key X tenant) (\<lambda>(gen, master).
     sbind (slift (seal_at X master tenant gen cf k v)) (\<lambda>sealed.
     kv_wr (kv_put cf k sealed)))"

definition migrate_edge_row ::
    "externals \<Rightarrow> string \<Rightarrow> bytes \<times> bytes \<Rightarrow> seal_migration_report \<Rightarrow> seal_migration_report writer" where
  "migrate_edge_row X cf = (\<lambda>(k, v) report.
     if parse_envelope X v \<noteq> None then sok report
     else
       sbind (slift (map_err Serde (edge_from_json X v))) (\<lambda>edge s.
       case edge_tenant X edge Map.empty s of
         Inr tenant \<Rightarrow>
           sbind (reseal_row X cf tenant k v) (\<lambda>_.
           sok (report\<lparr>mr_edges_sealed := mr_edges_sealed report + 1\<rparr>)) s
       | Inl (Crypto m) \<Rightarrow> sok (skip_row report) s
       | Inl e \<Rightarrow> serr e s))"

text \<open>The tenant named by a meta key: what follows the first colon, when it is non-empty text.\<close>

definition meta_key_tenant :: "bytes \<Rightarrow> string option" where
  "meta_key_tenant k =
     (case dropWhile (\<lambda>b. b \<noteq> 58) k of
        [] \<Rightarrow> None
      | _ # suffix \<Rightarrow> if utf8_valid suffix \<and> suffix \<noteq> [] then Some (of_bytes suffix) else None)"

definition migrate_meta_row ::
    "externals \<Rightarrow> bytes \<times> bytes \<Rightarrow> seal_migration_report \<Rightarrow> seal_migration_report writer" where
  "migrate_meta_row X = (\<lambda>(k, v) report.
     if k = SEAL_V2_MARKER_KEY \<or> parse_envelope X v \<noteq> None then sok report
     else
       (case meta_key_tenant k of
          None \<Rightarrow> sok (skip_row report)
        | Some tenant \<Rightarrow>
            sbind (reseal_row X META tenant k v) (\<lambda>_.
            sok (report\<lparr>mr_meta_sealed := mr_meta_sealed report + 1\<rparr>))))"

definition for_rows ::
    "string \<Rightarrow> (bytes \<times> bytes \<Rightarrow> seal_migration_report \<Rightarrow> seal_migration_report writer) \<Rightarrow>
     seal_migration_report \<Rightarrow> seal_migration_report writer" where
  "for_rows cf step report = sbind (sread (kv_rd (kv_iter_cf cf))) (\<lambda>rs. sfold step rs report)"

definition migrate_seal_v2 :: "externals \<Rightarrow> seal_migration_report writer" where
  "migrate_seal_v2 X s =
     (if \<not> ds_encrypt s then serr (Crypto ''seal migration requires an encrypted store'') s
      else
        sbind (sread (kv_rd (kv_get META SEAL_V2_MARKER_KEY))) (\<lambda>marker.
        if marker \<noteq> None then sok (default_report\<lparr>mr_already_done := True\<rparr>)
        else
          sbind (for_rows EDGES_OUT (migrate_edge_row X EDGES_OUT) default_report) (\<lambda>report.
          sbind (for_rows EDGES_IN (migrate_edge_row X EDGES_IN) report) (\<lambda>report.
          sbind (for_rows META (migrate_meta_row X) report) (\<lambda>report.
          sbind (kv_wr (kv_put META SEAL_V2_MARKER_KEY (as_bytes ''1''))) (\<lambda>_.
          sok report))))) s)"

text \<open>Opening in the mode the data is in; the backend is what the opening leaves behind.\<close>

definition new_auto :: "externals \<Rightarrow> (in_memory_kv, store_error, dag_store) action" where
  "new_auto X kv =
     (case kv_iter_cf KEYS kv of
        Inl e \<Rightarrow> (Inl (Backend e), kv)
      | Inr keys \<Rightarrow>
          let s = \<lparr>ds_kv = kv, ds_encrypt = keys \<noteq> [], ds_draws = 0\<rparr> in
          if keys = [] then (Inr s, kv)
          else (case migrate_seal_v2 X s of
                  (Inl e, s') \<Rightarrow> (Inl e, ds_kv s')
                | (Inr _, s') \<Rightarrow> (Inr s', ds_kv s')))"

section \<open>Rows that were sealed in place\<close>

definition live_entry :: "externals \<Rightarrow> dag_store \<Rightarrow> string \<Rightarrow> keyring_entry \<Rightarrow> bool" where
  "live_entry X s t e \<longleftrightarrow> keyring_at X s t = Some e \<and> usable X s t (kr_gen e) \<noteq> None"

text \<open>\<open>b\<close> is an envelope under the live key of tenant \<open>t\<close> that opens to the bytes \<open>p\<close> in its slot.\<close>

definition sealed_for :: "externals \<Rightarrow> dag_store \<Rightarrow> string \<Rightarrow> string \<Rightarrow> bytes \<Rightarrow> bytes \<Rightarrow> bytes \<Rightarrow> bool" where
  "sealed_for X s t cf k p b \<longleftrightarrow> (\<exists>env e key. parse_envelope X b = Some env \<and> env_tenant env = t \<and>
     env_kgen env = kr_gen e \<and> keyring_at X s t = Some e \<and> usable X s t (kr_gen e) = Some key \<and>
     open_at X key env cf k = Inr p)"

definition kept_row :: "externals \<Rightarrow> dag_store \<Rightarrow> string \<Rightarrow> bytes \<Rightarrow> bytes option \<Rightarrow> bytes option \<Rightarrow> bool" where
  "kept_row X s cf k old cur \<longleftrightarrow> cur = old \<or>
     (\<exists>p b t. old = Some p \<and> parse_envelope X p = None \<and> cur = Some b \<and> sealed_for X s t cf k p b)"

definition resealed :: "externals \<Rightarrow> dag_store \<Rightarrow> dag_store \<Rightarrow> bool" where
  "resealed X s s' \<longleftrightarrow> keyring_ok X s' \<and> ds_encrypt s' = ds_encrypt s \<and> rows s' NODES = rows s NODES \<and>
     (\<forall>t e. live_entry X s t e \<longrightarrow> live_entry X s' t e) \<and>
     (\<forall>t e. keyring_at X s t = Some e \<longrightarrow>
        (\<exists>e'. keyring_at X s' t = Some e' \<and> kr_gen e \<le> kr_gen e' \<and>
          (\<forall>g \<le> kr_gen e. usable X s' t g = usable X s t g))) \<and>
     (\<forall>cf k. cf \<noteq> KEYS \<and> (cf, k) \<noteq> (META, SEAL_V2_MARKER_KEY) \<longrightarrow> kept_row X s' cf k (rows s cf k) (rows s' cf k))"

lemma usable_cong: "keyring_at X s' t = keyring_at X s t \<Longrightarrow> usable X s' t = usable X s t"
  by (simp add: usable_def fun_eq_iff)

lemma sealed_for_live:
  assumes "\<And>e. live_entry X s t e \<Longrightarrow> live_entry X s' t e" "sealed_for X s t cf k p b"
  shows "sealed_for X s' t cf k p b"
proof -
  from assms(2) obtain env e key where e: "parse_envelope X b = Some env" "env_tenant env = t"
      "env_kgen env = kr_gen e" "keyring_at X s t = Some e" "usable X s t (kr_gen e) = Some key"
      "open_at X key env cf k = Inr p"
    unfolding sealed_for_def by blast
  then have "live_entry X s t e" by (simp add: live_entry_def)
  then have "keyring_at X s' t = Some e" using assms(1) by (simp add: live_entry_def)
  with e usable_cong [of X s' t s] show ?thesis unfolding sealed_for_def by metis
qed

lemma resealedD:
  assumes "resealed X s s'"
  shows "keyring_ok X s'" "ds_encrypt s' = ds_encrypt s" "rows s' NODES = rows s NODES"
    "live_entry X s t e \<Longrightarrow> live_entry X s' t e"
    "sealed_for X s t cf k p b \<Longrightarrow> sealed_for X s' t cf k p b"
    "cf \<noteq> KEYS \<Longrightarrow> (cf, k) \<noteq> (META, SEAL_V2_MARKER_KEY) \<Longrightarrow> kept_row X s' cf k (rows s cf k) (rows s' cf k)"
proof -
  show "keyring_ok X s'" "ds_encrypt s' = ds_encrypt s" "rows s' NODES = rows s NODES"
    using assms by (simp_all add: resealed_def)
  show live: "live_entry X s t e \<Longrightarrow> live_entry X s' t e" for t e
    using assms by (simp add: resealed_def)
  show "sealed_for X s t cf k p b \<Longrightarrow> sealed_for X s' t cf k p b"
    by (rule sealed_for_live [OF live])
  show "cf \<noteq> KEYS \<Longrightarrow> (cf, k) \<noteq> (META, SEAL_V2_MARKER_KEY) \<Longrightarrow> kept_row X s' cf k (rows s cf k) (rows s' cf k)"
    using assms by (simp add: resealed_def)
qed

lemma resealed_refl [simp]: "keyring_ok X s \<Longrightarrow> resealed X s s"
  by (simp add: resealed_def kept_row_def)

lemma kept_row_trans:
  assumes "kept_row X s' cf k a b" "kept_row X s'' cf k b c"
    and "\<And>t p q. sealed_for X s' t cf k p q \<Longrightarrow> sealed_for X s'' t cf k p q"
  shows "kept_row X s'' cf k a c"
proof (cases "b = a")
  case True
  with assms(2) show ?thesis by simp
next
  case False
  with assms(1) obtain p q t where q: "a = Some p" "parse_envelope X p = None" "b = Some q"
      "sealed_for X s' t cf k p q"
    unfolding kept_row_def by blast
  then have "parse_envelope X q \<noteq> None" by (auto simp: sealed_for_def)
  with assms(2) q(3) have "c = Some q" by (auto simp: kept_row_def)
  with q assms(3) show ?thesis unfolding kept_row_def by blast
qed

lemma resealed_trans:
  assumes a: "resealed X s s'" and b: "resealed X s' s''"
  shows "resealed X s s''"
  unfolding resealed_def
proof (intro conjI allI impI)
  show "keyring_ok X s''" "ds_encrypt s'' = ds_encrypt s" "rows s'' NODES = rows s NODES"
    using resealedD(1-3) [OF a] resealedD(1-3) [OF b] by simp_all
  show "live_entry X s'' t e" if "live_entry X s t e" for t e
    using that resealedD(4) [OF a] resealedD(4) [OF b] by blast
  show "\<exists>e'. keyring_at X s'' t = Some e' \<and> kr_gen e \<le> kr_gen e' \<and> (\<forall>g\<le>kr_gen e. usable X s'' t g = usable X s t g)"
    if e: "keyring_at X s t = Some e" for t e
  proof -
    obtain e' where e': "keyring_at X s' t = Some e'" "kr_gen e \<le> kr_gen e'"
        "\<forall>g\<le>kr_gen e. usable X s' t g = usable X s t g"
      using a e unfolding resealed_def by blast
    moreover obtain e'' where "keyring_at X s'' t = Some e''" "kr_gen e' \<le> kr_gen e''"
        "\<forall>g\<le>kr_gen e'. usable X s'' t g = usable X s' t g"
      using b e'(1) unfolding resealed_def by blast
    ultimately show ?thesis by (metis order.trans)
  qed
  show "kept_row X s'' cf k (rows s cf k) (rows s'' cf k)"
    if "cf \<noteq> KEYS \<and> (cf, k) \<noteq> (META, SEAL_V2_MARKER_KEY)" for cf k
    using kept_row_trans [OF resealedD(6) [OF a] resealedD(6) [OF b] resealedD(5) [OF b]] that by blast
qed

lemma ensure_tenant_key_live:
  assumes X: "externals_ok X" and ok: "keyring_ok X s" and run: "ensure_tenant_key X t s = (r, s')"
    and live: "live_entry X s t' e"
  shows "keyring_at X s' t' = Some e"
proof -
  have at: "keyring_at X s t' = Some e" and u: "usable X s t' (kr_gen e) \<noteq> None"
    using live by (simp_all add: live_entry_def)
  have minted: "keyring_at X s' t' = Some e" if mint: "mint_key X t g s = (r, s')" and ne: "t' \<noteq> t" for g
  proof -
    obtain d q where d: "draw_key X s = (d, q)" by (cases "draw_key X s")
    note fr = draw_key_frame [OF d]
    show ?thesis
    proof (cases d)
      case (Inl m)
      with mint d at fr(4) [of X] show ?thesis by (auto simp: mint_key_def sbind_def)
    next
      case (Inr key)
      let ?e = "\<lparr>kr_gen = g, kr_key = Some (hex_encode X (hash_bytes key))\<rparr>"
      obtain p w where p: "put_keyring_entry X t ?e q = (p, w)" by (cases "put_keyring_entry X t ?e q")
      have okq: "keyring_ok X q" using ok fr by simp
      have "keyring_at X w t' = keyring_at X q t'"
        using put_keyring_entry_cases [OF X okq key_bytes_minted [OF X] _ p] ne by auto
      moreover have "s' = w" using mint d Inr p by (cases p) (auto simp: mint_key_def sbind_def)
      ultimately show ?thesis using at fr(4) [of X] by simp
    qed
  qed
  show ?thesis
  proof (cases "keyring_at X s t")
    case None
    have "mint_key X t (0 + 1) s = (r, s')"
      using run by (simp add: ensure_tenant_key_def mint_key_def sbind_def keyring_entry_of_eq [OF ok] None)
    moreover have "t' \<noteq> t" using None at by auto
    ultimately show ?thesis by (rule minted)
  next
    case (Some e')
    with ok obtain k where k: "key_bytes X e' = Inr k" by (rule keyring_at_ok)
    show ?thesis
    proof (cases k)
      case None
      have "mint_key X t (kr_gen e' + 1) s = (r, s')"
        using run Some k None
        by (simp add: ensure_tenant_key_def mint_key_def sbind_def keyring_entry_of_eq [OF ok])
      moreover have "t' \<noteq> t" using at u Some k None by (auto simp: usable_def)
      ultimately show ?thesis by (rule minted)
    next
      case key: (Some m)
      have "s' = s" using run Some k key by (simp add: ensure_tenant_key_def sbind_def keyring_entry_of_eq [OF ok])
      with at show ?thesis by simp
    qed
  qed
qed

lemma ensure_resealed:
  assumes X: "externals_ok X" and ok: "keyring_ok X s" and run: "ensure_tenant_key X t s = (r, s')"
  shows "resealed X s s'" "cf \<noteq> KEYS \<Longrightarrow> rows s' cf = rows s cf"
    "r = Inr (g, k) \<Longrightarrow> \<exists>e. keyring_at X s' t = Some e \<and> kr_gen e = g \<and> usable X s' t g = Some k"
proof -
  note c = ensure_tenant_key_cases [OF X ok run]
  then have grow: "keys_grow X s s'" by blast
  show rows: "rows s' cf = rows s cf" if "cf \<noteq> KEYS" for cf using grow that by (simp add: keys_grow_def)
  show "\<exists>e. keyring_at X s' t = Some e \<and> kr_gen e = g \<and> usable X s' t g = Some k" if "r = Inr (g, k)"
    using c that by blast
  have "live_entry X s' t' e" if "live_entry X s t' e" for t' e
    using ensure_tenant_key_live [OF X ok run that] that usable_cong [of X s' t' s] by (simp add: live_entry_def)
  then show "resealed X s s'"
    using grow rows unfolding resealed_def keys_grow_def by (simp add: kept_row_def)
qed

lemma reseal_row_cases:
  assumes X: "externals_ok X" and ok: "keyring_ok X s" and cf: "cf \<noteq> KEYS" "cf \<noteq> NODES"
    and row: "rows s cf k = Some v" "parse_envelope X v = None" and run: "reseal_row X cf t k v s = (r, s')"
  shows "resealed X s s'" "cf' \<noteq> KEYS \<Longrightarrow> (cf', k') \<noteq> (cf, k) \<Longrightarrow> rows s' cf' k' = rows s cf' k'"
    "r = Inr () \<Longrightarrow> \<exists>b. rows s' cf k = Some b \<and> sealed_for X s' t cf k v b"
proof -
  obtain q u where q: "ensure_tenant_key X t s = (q, u)" by (cases "ensure_tenant_key X t s")
  note en = ensure_resealed [OF X ok q]
  have "resealed X s s' \<and> (\<forall>cf' k'. cf' \<noteq> KEYS \<longrightarrow> (cf', k') \<noteq> (cf, k) \<longrightarrow> rows s' cf' k' = rows s cf' k') \<and>
      (r = Inr () \<longrightarrow> (\<exists>b. rows s' cf k = Some b \<and> sealed_for X s' t cf k v b))"
  proof (cases "\<exists>g m b. q = Inr (g, m) \<and> seal_at X m t g cf k v = Inr b")
    case False
    then have "s' = u \<and> r \<noteq> Inr ()"
      using run q by (cases q) (auto simp: reseal_row_def sbind_def split: sum.splits)
    with en show ?thesis by simp
  next
    case True
    then obtain g m b where gm: "q = Inr (g, m)" and b: "seal_at X m t g cf k v = Inr b" by blast
    obtain env where env: "parse_envelope X b = Some env" "env_tenant env = t" "env_kgen env = g"
        "open_at X m env cf k = Inr v"
      by (rule seal_at_opens [OF X b])
    obtain e where e: "keyring_at X u t = Some e" "kr_gen e = g" "usable X u t g = Some m"
      using en(3) [OF gm] by blast
    have oku: "keyring_ok X u" using en(1) by (rule resealedD(1))
    obtain w where w: "kv_wr (kv_put cf k b) u = (Inr (), w)" "kv_live (ds_kv w)"
        "rows w = (rows u)(cf := (rows u cf)(k \<mapsto> b))" "ds_encrypt w = ds_encrypt u"
      by (rule kv_wr_put [OF keyring_ok_live [OF oku]])
    have s': "s' = w" "r = Inr ()" using run q gm b w(1) by (auto simp: reseal_row_def sbind_def)
    have keys: "rows w KEYS = rows u KEYS" using cf(1) by (simp add: w(3))
    note same = same_keys(1,2) [OF keys]
    have sf: "sealed_for X w t cf k v b" unfolding sealed_for_def using env e by (auto simp: same)
    have uv: "rows u cf k = Some v" using en(2) [OF cf(1)] row(1) by simp
    have "kept_row X w c j (rows u c j) (rows w c j)" for c j
      using sf uv row(2) unfolding kept_row_def w(3) by auto
    then have "resealed X u w"
      unfolding resealed_def
      using keyring_ok_same [OF oku w(2) keys] w(4) cf(2) by (auto simp: live_entry_def same w(3))
    with en(1) have "resealed X s w" by (rule resealed_trans)
    then show ?thesis using s' sf en(2) by (auto simp: w(3))
  qed
  then show "resealed X s s'" "cf' \<noteq> KEYS \<Longrightarrow> (cf', k') \<noteq> (cf, k) \<Longrightarrow> rows s' cf' k' = rows s cf' k'"
      "r = Inr () \<Longrightarrow> \<exists>b. rows s' cf k = Some b \<and> sealed_for X s' t cf k v b"
    by blast+
qed

lemma reseal_row_total:
  assumes X: "externals_ok X" "externals_total X" and ok: "keyring_ok X s"
  shows "\<exists>s'. reseal_row X cf t k v s = (Inr (), s')"
proof -
  obtain g m q where q: "ensure_tenant_key X t s = (Inr (g, m), q)"
    using ensure_tenant_key_total [OF X ok] by (metis surj_pair)
  obtain b where b: "seal_at X m t g cf k v = Inr b" using seal_total(2) [OF X(2)] by blast
  have "kv_live (ds_kv q)" by (rule keyring_ok_live [OF resealedD(1) [OF ensure_resealed(1) [OF X(1) ok q]]])
  then obtain s' where "kv_wr (kv_put cf k b) q = (Inr (), s')" by (rule kv_wr_put)
  with q b show ?thesis by (simp add: reseal_row_def sbind_def)
qed

section \<open>The contract of the three loops\<close>

abbreviation skipped :: "seal_migration_report \<Rightarrow> nat" where
  "skipped \<equiv> mr_skipped_unknown_tenant"

definition left_plain ::
    "externals \<Rightarrow> (bytes \<Rightarrow> bool) \<Rightarrow> (bytes \<Rightarrow> bytes \<Rightarrow> string option) \<Rightarrow> bytes \<times> bytes \<Rightarrow> bool" where
  "left_plain X skip own = (\<lambda>(k, v). \<not> skip k \<and> parse_envelope X v = None \<and> own k v = None)"

definition settled ::
    "externals \<Rightarrow> string \<Rightarrow> (bytes \<Rightarrow> bool) \<Rightarrow> (bytes \<Rightarrow> bytes \<Rightarrow> string option) \<Rightarrow> dag_store \<Rightarrow>
     bytes \<times> bytes \<Rightarrow> bool" where
  "settled X cf skip own s = (\<lambda>(k, v).
     if skip k \<or> parse_envelope X v \<noteq> None then rows s cf k = Some v
     else (case own k v of
             None \<Rightarrow> rows s cf k = Some v
           | Some t \<Rightarrow> \<exists>b. rows s cf k = Some b \<and> sealed_for X s t cf k v b))"

lemma settled_later:
  assumes "settled X cf skip own s (k, v)" "resealed X s s'" "rows s' cf k = rows s cf k"
  shows "settled X cf skip own s' (k, v)"
  using assms(1,3) resealedD(5) [OF assms(2)] by (auto simp: settled_def split: option.splits if_splits)

lemma distinct_map_filterI: "distinct (map f xs) \<Longrightarrow> distinct (map f (filter P xs))"
  by (induction xs) auto

locale row_reseal =
  fixes X :: externals and cf :: string
    and step :: "bytes \<times> bytes \<Rightarrow> seal_migration_report \<Rightarrow> seal_migration_report writer"
    and owner :: "dag_store \<Rightarrow> bytes \<Rightarrow> bytes \<Rightarrow> string option"
    and fine :: "dag_store \<Rightarrow> bytes \<Rightarrow> bytes \<Rightarrow> bool"
    and skip :: "bytes \<Rightarrow> bool"
  assumes step_skip: "skip k \<or> parse_envelope X v \<noteq> None \<Longrightarrow> step (k, v) rep s = (Inr rep, s)"
    and step_run: "externals_ok X \<Longrightarrow> keyring_ok X s \<Longrightarrow> rows s cf k = Some v \<Longrightarrow> \<not> skip k \<Longrightarrow>
      parse_envelope X v = None \<Longrightarrow> step (k, v) rep s = (r, s') \<Longrightarrow>
      resealed X s s' \<and>
      (\<forall>cf' k'. cf' \<noteq> KEYS \<longrightarrow> (cf', k') \<noteq> (cf, k) \<longrightarrow> rows s' cf' k' = rows s cf' k') \<and>
      (\<forall>rep'. r = Inr rep' \<longrightarrow> settled X cf skip (owner s) s' (k, v) \<and>
         skipped rep' = (if owner s k v = None then skipped rep + 1 else skipped rep))"
    and step_total: "externals_ok X \<Longrightarrow> externals_total X \<Longrightarrow> keyring_ok X s \<Longrightarrow> fine s k v \<Longrightarrow>
      \<exists>rep' s'. step (k, v) rep s = (Inr rep', s')"
    and stable: "kv_live (ds_kv s) \<Longrightarrow> kv_live (ds_kv s') \<Longrightarrow> rows s' NODES = rows s NODES \<Longrightarrow>
      owner s' = owner s \<and> fine s' = fine s"
begin

lemma step_any:
  assumes "externals_ok X" "keyring_ok X s" "rows s cf k = Some v" "step (k, v) rep s = (r, s')"
  shows "resealed X s s'"
    and "cf' \<noteq> KEYS \<Longrightarrow> (cf', k') \<noteq> (cf, k) \<Longrightarrow> rows s' cf' k' = rows s cf' k'"
    and "r = Inr rep' \<Longrightarrow> settled X cf skip (owner s) s' (k, v) \<and>
      skipped rep' = (if left_plain X skip (owner s) (k, v) then skipped rep + 1 else skipped rep)"
proof -
  have "resealed X s s' \<and>
      (\<forall>cf' k'. cf' \<noteq> KEYS \<longrightarrow> (cf', k') \<noteq> (cf, k) \<longrightarrow> rows s' cf' k' = rows s cf' k') \<and>
      (\<forall>rep'. r = Inr rep' \<longrightarrow> settled X cf skip (owner s) s' (k, v) \<and>
         skipped rep' = (if left_plain X skip (owner s) (k, v) then skipped rep + 1 else skipped rep))"
  proof (cases "skip k \<or> parse_envelope X v \<noteq> None")
    case True
    with assms(2-4) step_skip [OF True, of rep s] show ?thesis by (auto simp: settled_def left_plain_def)
  next
    case False
    then have "left_plain X skip (owner s) (k, v) \<longleftrightarrow> owner s k v = None" by (auto simp: left_plain_def)
    with step_run [OF assms(1-3) _ _ assms(4)] False show ?thesis by simp
  qed
  then show "resealed X s s'" "cf' \<noteq> KEYS \<Longrightarrow> (cf', k') \<noteq> (cf, k) \<Longrightarrow> rows s' cf' k' = rows s cf' k'"
      "r = Inr rep' \<Longrightarrow> settled X cf skip (owner s) s' (k, v) \<and>
        skipped rep' = (if left_plain X skip (owner s) (k, v) then skipped rep + 1 else skipped rep)"
    by blast+
qed

lemma loop:
  assumes X: "externals_ok X" and ok: "keyring_ok X s" and cf: "cf \<noteq> KEYS" and dist: "distinct (map fst rs)"
    and rs: "\<forall>(k, v) \<in> set rs. rows s cf k = Some v" and run: "sfold step rs rep s = (r, s')"
  shows "resealed X s s' \<and>
    (\<forall>cf' k'. cf' \<noteq> KEYS \<longrightarrow> (cf' = cf \<longrightarrow> k' \<notin> fst ` set rs) \<longrightarrow> rows s' cf' k' = rows s cf' k') \<and>
    (\<forall>rep'. r = Inr rep' \<longrightarrow> (\<forall>p \<in> set rs. settled X cf skip (owner s) s' p) \<and>
       skipped rep' = skipped rep + length (filter (left_plain X skip (owner s)) rs))"
  using ok dist rs run
proof (induction rs arbitrary: rep s)
  case Nil
  then have "Inr rep = r" "s = s'" by simp_all
  with Nil.prems(1) show ?case by auto
next
  case (Cons p rs)
  obtain k v where p: "p = (k, v)" by (cases p)
  obtain q u where q: "step (k, v) rep s = (q, u)" by (cases "step (k, v) rep s")
  have row: "rows s cf k = Some v" using Cons.prems(3) p by simp
  note st = step_any [OF X Cons.prems(1) row q]
  show ?case
  proof (cases q)
    case (Inl e)
    with Cons.prems(4) p q have "s' = u" "r = Inl e" by (auto simp: sbind_def)
    with st(1,2) p show ?thesis by auto
  next
    case (Inr rep1)
    have run: "sfold step rs rep1 u = (r, s')" using Cons.prems(4) p q Inr by (simp add: sbind_def)
    have oku: "keyring_ok X u" by (rule resealedD(1) [OF st(1)])
    have "rows u cf k' = rows s cf k'" if "(k', v') \<in> set rs" for k' v'
      using Cons.prems(2) p st(2) [of cf k'] cf that by force
    then have rs: "\<forall>(k', v') \<in> set rs. rows u cf k' = Some v'" using Cons.prems(3) by auto
    have own: "owner u = owner s"
      using stable [OF keyring_ok_live [OF Cons.prems(1)] keyring_ok_live [OF oku] resealedD(3) [OF st(1)]] by simp
    have dist: "distinct (map fst rs)" "k \<notin> fst ` set rs" using Cons.prems(2) p by auto
    note IH = Cons.IH [OF oku dist(1) rs run]
    have res: "resealed X s s'" using st(1) IH by (blast intro: resealed_trans)
    have other: "rows s' cf' k' = rows s cf' k'" if "cf' \<noteq> KEYS" "cf' = cf \<longrightarrow> k' \<notin> fst ` set (p # rs)" for cf' k'
      using that IH st(2) [of cf' k'] p by auto
    have keep: "rows s' cf k = rows u cf k" using IH dist(2) cf by blast
    have "settled X cf skip (owner s) s' (k, v)" if "r = Inr rep'" for rep'
      by (rule settled_later [OF _ _ keep]) (use st(3) [OF Inr] IH in blast)+
    with IH st(3) [OF Inr] res other show ?thesis by (auto simp: own p)
  qed
qed

lemma loop_total:
  assumes X: "externals_ok X" "externals_total X" and ok: "keyring_ok X s" and cf: "cf \<noteq> KEYS"
    and dist: "distinct (map fst rs)" and rs: "\<forall>(k, v) \<in> set rs. rows s cf k = Some v \<and> fine s k v"
  shows "\<exists>rep' s'. sfold step rs rep s = (Inr rep', s')"
  using ok dist rs
proof (induction rs arbitrary: rep s)
  case Nil
  then show ?case by simp
next
  case (Cons p rs)
  obtain k v where p: "p = (k, v)" by (cases p)
  have row: "rows s cf k = Some v" "fine s k v" using Cons.prems(3) p by auto
  obtain rep1 u where u: "step (k, v) rep s = (Inr rep1, u)" using step_total [OF X Cons.prems(1) row(2)] by blast
  note st = step_any [OF X(1) Cons.prems(1) row(1) u]
  have oku: "keyring_ok X u" by (rule resealedD(1) [OF st(1)])
  have "fine u = fine s"
    using stable [OF keyring_ok_live [OF Cons.prems(1)] keyring_ok_live [OF oku] resealedD(3) [OF st(1)]] by simp
  moreover have "rows u cf k' = rows s cf k'" if "(k', v') \<in> set rs" for k' v'
    using Cons.prems(2) p st(2) [of cf k'] cf that by force
  ultimately have "\<forall>(k', v') \<in> set rs. rows u cf k' = Some v' \<and> fine u k' v'"
    using Cons.prems(3) by auto
  then obtain rep' s' where "sfold step rs rep1 u = (Inr rep', s')"
    using Cons.IH [OF oku, of rep1] Cons.prems(2) by (metis (lifting) distinct.simps(2) list.map(2))
  with u p show ?case by (simp add: sbind_def)
qed

text \<open>The same over the rows of the table, as the loop header reads them.\<close>

lemma for_rows_run:
  assumes X: "externals_ok X" and ok: "keyring_ok X s" and cf: "cf \<noteq> KEYS"
    and run: "for_rows cf step rep s = (r, s')"
  shows "resealed X s s'" "cf' \<noteq> KEYS \<Longrightarrow> cf' \<noteq> cf \<Longrightarrow> rows s' cf' = rows s cf'"
    and "r = Inr rep' \<Longrightarrow> rows s cf k = Some v \<Longrightarrow> settled X cf skip (owner s) s' (k, v)"
    and "r = Inr rep' \<Longrightarrow> rows s cf k = None \<Longrightarrow> rows s' cf k = None"
    and "r = Inr rep' \<Longrightarrow> skipped rep' = skipped rep +
      card {k. \<exists>v. rows s cf k = Some v \<and> left_plain X skip (owner s) (k, v)}"
proof -
  obtain rs where rs: "kv_iter_cf cf (ds_kv s) = Inr rs" "bt_ok rs" "map_of rs = rows s cf"
    by (rule mem_kv.iterE [OF keyring_ok_live [OF ok]])
  have mem: "(k, v) \<in> set rs \<longleftrightarrow> rows s cf k = Some v" for k v using rs by (simp add: bt_ok_mem_iff)
  have dist: "distinct (map fst rs)" by (rule bt_ok_distinct [OF rs(2)])
  have "sfold step rs rep s = (r, s')" using run rs(1) by (simp add: for_rows_def kv_rd_def sbind_def)
  note lp = loop [OF X ok cf dist _ this]
  have all: "\<forall>(k, v) \<in> set rs. rows s cf k = Some v" using mem by auto
  show "resealed X s s'" using lp all by blast
  show "rows s' cf' = rows s cf'" if "cf' \<noteq> KEYS" "cf' \<noteq> cf" using lp all that by (auto simp: fun_eq_iff)
  show "settled X cf skip (owner s) s' (k, v)" if "r = Inr rep'" "rows s cf k = Some v"
    using lp all that mem by blast
  show "rows s' cf k = None" if "r = Inr rep'" "rows s cf k = None"
  proof -
    have "k \<notin> fst ` set rs" using that(2) mem by force
    then show ?thesis using lp all that(2) cf by auto
  qed
  have "card {k. \<exists>v. rows s cf k = Some v \<and> left_plain X skip (owner s) (k, v)} =
      card (set (map fst (filter (left_plain X skip (owner s)) rs)))"
    by (rule arg_cong [of _ _ card]) (force simp: mem)
  also have "\<dots> = length (filter (left_plain X skip (owner s)) rs)"
    using distinct_card [of "map fst (filter (left_plain X skip (owner s)) rs)"] dist
    by (simp add: distinct_map_filterI)
  finally show "skipped rep' = skipped rep +
      card {k. \<exists>v. rows s cf k = Some v \<and> left_plain X skip (owner s) (k, v)}" if "r = Inr rep'"
    using lp all that by simp
qed

lemma for_rows_total:
  assumes X: "externals_ok X" "externals_total X" and ok: "keyring_ok X s" and cf: "cf \<noteq> KEYS"
    and fine: "\<And>k v. rows s cf k = Some v \<Longrightarrow> fine s k v"
  shows "\<exists>rep' s'. for_rows cf step rep s = (Inr rep', s')"
proof -
  obtain rs where rs: "kv_iter_cf cf (ds_kv s) = Inr rs" "bt_ok rs" "map_of rs = rows s cf"
    by (rule mem_kv.iterE [OF keyring_ok_live [OF ok]])
  have "\<forall>(k, v) \<in> set rs. rows s cf k = Some v \<and> fine s k v"
    using rs fine by (auto simp: bt_ok_mem_iff)
  from loop_total [OF X ok cf bt_ok_distinct [OF rs(2)] this] rs(1) show ?thesis
    by (simp add: for_rows_def kv_rd_def sbind_def)
qed

end

section \<open>The three loops\<close>

definition edge_owner :: "externals \<Rightarrow> dag_store \<Rightarrow> bytes \<Rightarrow> bytes \<Rightarrow> string option" where
  "edge_owner X s k v = (case edge_from_json X v of
     Inl _ \<Rightarrow> None
   | Inr e \<Rightarrow> (case edge_tenant X e Map.empty s of Inl _ \<Rightarrow> None | Inr t \<Rightarrow> Some t))"

definition edge_fine :: "externals \<Rightarrow> dag_store \<Rightarrow> bytes \<Rightarrow> bytes \<Rightarrow> bool" where
  "edge_fine X s k v \<longleftrightarrow> parse_envelope X v \<noteq> None \<or>
     (\<exists>e. edge_from_json X v = Inr e \<and> (\<forall>err. edge_tenant X e Map.empty s = Inl err \<longrightarrow> (\<exists>m. err = Crypto m)))"

lemma edge_tenant_cong:
  assumes "kv_live (ds_kv s)" "kv_live (ds_kv s')" "rows s' NODES = rows s NODES"
  shows "edge_tenant X e batch s' = edge_tenant X e batch s"
proof -
  have "stored_node_tenant X nid s' = stored_node_tenant X nid s" for nid
    using assms by (simp add: stored_node_tenant_def)
  then show ?thesis unfolding edge_tenant_def Let_def by (simp only:)
qed

lemma edge_row_ownerless:
  assumes "edge_owner X s k v = None" "parse_envelope X v = None" "migrate_edge_row X cf (k, v) rep s = (r, s')"
  shows "s' = s" "r = Inr rep' \<Longrightarrow> rep' = skip_row rep"
proof -
  have "s' = s \<and> (\<forall>rep'. r = Inr rep' \<longrightarrow> rep' = skip_row rep)"
  proof (cases "edge_from_json X v")
    case (Inl m)
    with assms show ?thesis by (auto simp: migrate_edge_row_def slift_bind)
  next
    case (Inr e)
    with assms(1) obtain err where "edge_tenant X e Map.empty s = Inl err"
      by (auto simp: edge_owner_def split: sum.splits)
    with assms(2,3) Inr show ?thesis
      by (cases err) (auto simp: migrate_edge_row_def slift_bind)
  qed
  then show "s' = s" "r = Inr rep' \<Longrightarrow> rep' = skip_row rep" by blast+
qed

lemma edge_row_owned:
  assumes "edge_owner X s k v = Some t" "parse_envelope X v = None" "migrate_edge_row X cf (k, v) rep s = (r, s')"
    and q: "reseal_row X cf t k v s = (q, u)"
  shows "s' = u" "r = Inr rep' \<Longrightarrow> q = Inr () \<and> skipped rep' = skipped rep"
proof -
  from assms(1) obtain e where "edge_from_json X v = Inr e" "edge_tenant X e Map.empty s = Inr t"
    by (auto simp: edge_owner_def split: sum.splits)
  then have "sbind (reseal_row X cf t k v) (\<lambda>_. sok (rep\<lparr>mr_edges_sealed := mr_edges_sealed rep + 1\<rparr>)) s = (r, s')"
    using assms(2,3) by (simp add: migrate_edge_row_def slift_bind)
  then show "s' = u" "r = Inr rep' \<Longrightarrow> q = Inr () \<and> skipped rep' = skipped rep"
    using q by (cases q; auto simp: sbind_def)+
qed

lemma edge_rows_reseal:
  assumes cf: "cf \<noteq> KEYS" "cf \<noteq> NODES"
  shows "row_reseal X cf (migrate_edge_row X cf) (edge_owner X) (edge_fine X) (\<lambda>_. False)"
proof
  fix k v rep s
  show "migrate_edge_row X cf (k, v) rep s = (Inr rep, s)" if "False \<or> parse_envelope X v \<noteq> None"
    using that by (simp add: migrate_edge_row_def)
  fix r s'
  assume X: "externals_ok X" and ok: "keyring_ok X s" and row: "rows s cf k = Some v"
    and plain: "parse_envelope X v = None" and run: "migrate_edge_row X cf (k, v) rep s = (r, s')"
  show "resealed X s s' \<and>
      (\<forall>cf' k'. cf' \<noteq> KEYS \<longrightarrow> (cf', k') \<noteq> (cf, k) \<longrightarrow> rows s' cf' k' = rows s cf' k') \<and>
      (\<forall>rep'. r = Inr rep' \<longrightarrow> settled X cf (\<lambda>_. False) (edge_owner X s) s' (k, v) \<and>
         skipped rep' = (if edge_owner X s k v = None then skipped rep + 1 else skipped rep))"
  proof (cases "edge_owner X s k v")
    case None
    note nr = edge_row_ownerless [OF None plain run]
    have "settled X cf (\<lambda>_. False) (edge_owner X s) s (k, v)" using row None by (simp add: settled_def plain)
    moreover have "skipped rep' = skipped rep + 1" if "r = Inr rep'" for rep'
      using nr(2) [OF that] by (simp add: skip_row_def)
    ultimately show ?thesis using ok None nr(1) resealed_refl by simp
  next
    case (Some t)
    obtain q u where q: "reseal_row X cf t k v s = (q, u)" by (cases "reseal_row X cf t k v s")
    note ow = edge_row_owned [OF Some plain run q]
    note rr = reseal_row_cases [OF X ok cf row plain q]
    have "settled X cf (\<lambda>_. False) (edge_owner X s) u (k, v)" if "r = Inr rep'" for rep'
      using ow(2) [OF that] rr(3) by (simp add: settled_def plain Some)
    with rr(1,2) ow Some show ?thesis by simp
  qed
next
  fix s k v rep
  assume X: "externals_ok X" "externals_total X" and ok: "keyring_ok X s" and fine: "edge_fine X s k v"
  show "\<exists>rep' s'. migrate_edge_row X cf (k, v) rep s = (Inr rep', s')"
  proof (cases "parse_envelope X v = None")
    case False
    then show ?thesis by (simp add: migrate_edge_row_def)
  next
    case True
    with fine obtain e where e: "edge_from_json X v = Inr e"
      and t: "\<And>err. edge_tenant X e Map.empty s = Inl err \<Longrightarrow> \<exists>m. err = Crypto m"
      by (auto simp: edge_fine_def)
    show ?thesis
    proof (cases "edge_tenant X e Map.empty s")
      case (Inl err)
      with t obtain m where "err = Crypto m" by blast
      with Inl True e show ?thesis by (simp add: migrate_edge_row_def slift_bind)
    next
      case (Inr t)
      obtain s' where "reseal_row X cf t k v s = (Inr (), s')" using reseal_row_total [OF X ok] by blast
      then show ?thesis using True e Inr by (simp add: migrate_edge_row_def slift_bind) (simp add: sbind_def)
    qed
  qed
next
  fix s s'
  assume "kv_live (ds_kv s)" "kv_live (ds_kv s')" "rows s' NODES = rows s NODES"
  note same = edge_tenant_cong [OF this]
  show "edge_owner X s' = edge_owner X s \<and> edge_fine X s' = edge_fine X s"
    by (simp add: edge_owner_def edge_fine_def fun_eq_iff same split: sum.split)
qed

interpretation out_rows: row_reseal X EDGES_OUT "migrate_edge_row X EDGES_OUT" "edge_owner X" "edge_fine X" "\<lambda>_. False"
  for X
  by (rule edge_rows_reseal) simp_all

interpretation in_rows: row_reseal X EDGES_IN "migrate_edge_row X EDGES_IN" "edge_owner X" "edge_fine X" "\<lambda>_. False"
  for X
  by (rule edge_rows_reseal) simp_all

interpretation meta_rows: row_reseal X META "migrate_meta_row X" "\<lambda>_ k _. meta_key_tenant k" "\<lambda>_ _ _. True"
    "\<lambda>k. k = SEAL_V2_MARKER_KEY"
  for X
proof
  fix k v rep s
  show "migrate_meta_row X (k, v) rep s = (Inr rep, s)" if "k = SEAL_V2_MARKER_KEY \<or> parse_envelope X v \<noteq> None"
    using that by (auto simp: migrate_meta_row_def)
  fix r s'
  assume X: "externals_ok X" and ok: "keyring_ok X s" and row: "rows s META k = Some v"
    and k: "k \<noteq> SEAL_V2_MARKER_KEY" and plain: "parse_envelope X v = None"
    and run: "migrate_meta_row X (k, v) rep s = (r, s')"
  show "resealed X s s' \<and>
      (\<forall>cf' k'. cf' \<noteq> KEYS \<longrightarrow> (cf', k') \<noteq> (META, k) \<longrightarrow> rows s' cf' k' = rows s cf' k') \<and>
      (\<forall>rep'. r = Inr rep' \<longrightarrow> settled X META (\<lambda>k. k = SEAL_V2_MARKER_KEY) (\<lambda>k _. meta_key_tenant k) s' (k, v) \<and>
         skipped rep' = (if meta_key_tenant k = None then skipped rep + 1 else skipped rep))"
  proof (cases "meta_key_tenant k")
    case None
    then have "s' = s" "r = Inr (skip_row rep)" using run k plain by (auto simp: migrate_meta_row_def)
    with ok row k None show ?thesis by (simp add: settled_def plain skip_row_def)
  next
    case (Some t)
    obtain q u where q: "reseal_row X META t k v s = (q, u)" by (cases "reseal_row X META t k v s")
    have u: "s' = u" "\<forall>rep'. r = Inr rep' \<longrightarrow> q = Inr () \<and> skipped rep' = skipped rep"
      using run k plain Some q by (cases q; auto simp: migrate_meta_row_def sbind_def)+
    note rr = reseal_row_cases [OF X ok KEYS_neq(4) cf_neq(9) row plain q]
    have "\<forall>rep'. r = Inr rep' \<longrightarrow> settled X META (\<lambda>k. k = SEAL_V2_MARKER_KEY) (\<lambda>k _. meta_key_tenant k) u (k, v)"
      using u(2) rr(3) k by (auto simp: settled_def plain Some)
    with rr(1,2) u Some show ?thesis by auto
  qed
next
  fix s k v rep
  assume X: "externals_ok X" "externals_total X" and ok: "keyring_ok X s"
  show "\<exists>rep' s'. migrate_meta_row X (k, v) rep s = (Inr rep', s')"
  proof (cases "meta_key_tenant k")
    case None
    then show ?thesis by (simp add: migrate_meta_row_def)
  next
    case (Some t)
    obtain s' where "reseal_row X META t k v s = (Inr (), s')" using reseal_row_total [OF X ok] by blast
    with Some show ?thesis by (simp add: migrate_meta_row_def sbind_def)
  qed
qed simp

section \<open>What a resealed store reads\<close>

lemma usable_kept:
  assumes "resealed X s s'" "sealed_ok X s b" "parse_envelope X b = Some env"
  shows "usable X s' (env_tenant env) (env_kgen env) = usable X s (env_tenant env) (env_kgen env)"
proof -
  from assms(2,3) obtain e where "keyring_at X s (env_tenant env) = Some e" "env_kgen env \<le> kr_gen e"
    by (auto simp: sealed_ok_def seal_tag_def)
  with assms(1) show ?thesis unfolding resealed_def by metis
qed

lemma sealed_ok_kept: "resealed X s s' \<Longrightarrow> sealed_ok X s b \<Longrightarrow> sealed_ok X s' b"
  unfolding sealed_ok_def resealed_def by (meson order.trans)

lemma sealed_for_tag:
  "sealed_for X s t cf k p b \<Longrightarrow> keyring_at X s t = Some e \<Longrightarrow> seal_tag X b = Some (t, kr_gen e)"
  by (auto simp: sealed_for_def seal_tag_def)

lemma sealed_for_sealed_ok: "sealed_for X s t cf k p b \<Longrightarrow> sealed_ok X s b"
  by (auto simp: sealed_for_def sealed_ok_def seal_tag_def)

lemma kept_row_opens:
  assumes res: "resealed X s s'" and b: "sealed_ok X s b" and kept: "kept_row X s' cf k (Some b) (Some b')"
  shows "open_edge X (usable X s') cf k b' = open_edge X (usable X s) cf k b"
    and "cf = META \<Longrightarrow> meta_view X (usable X s') k b' = meta_view X (usable X s) k b"
    and "sealed_ok X s' b'"
proof -
  have "open_edge X (usable X s') cf k b' = open_edge X (usable X s) cf k b \<and>
      (cf = META \<longrightarrow> meta_view X (usable X s') k b' = meta_view X (usable X s) k b) \<and> sealed_ok X s' b'"
  proof (cases "b' = b")
    case True
    with usable_kept [OF res b] sealed_ok_kept [OF res b] show ?thesis
      by (cases "parse_envelope X b") (simp_all add: open_edge_def meta_view_def)
  next
    case False
    with kept obtain t where t: "parse_envelope X b = None" "sealed_for X s' t cf k b b'"
      unfolding kept_row_def by blast
    then show ?thesis
      using sealed_for_sealed_ok [OF t(2)] by (auto simp: sealed_for_def open_edge_def meta_view_def)
  qed
  then show "open_edge X (usable X s') cf k b' = open_edge X (usable X s) cf k b"
      "cf = META \<Longrightarrow> meta_view X (usable X s') k b' = meta_view X (usable X s) k b" "sealed_ok X s' b'"
    by blast+
qed

lemma kept_row_None [simp]: "kept_row X s cf k None c \<longleftrightarrow> c = None"
  by (auto simp: kept_row_def)

lemma kept_row_SomeE:
  assumes "kept_row X s cf k (Some b) c" obtains b' where "c = Some b'"
  using assms by (auto simp: kept_row_def)

lemma bt_keys_eq:
  assumes "bt_ok rs" "bt_ok rs'" "dom (map_of rs) = dom (map_of rs')"
  shows "map fst rs = map fst rs'"
  using assms by (auto simp: bt_ok_def strict_sorted_iff dom_map_of_conv_image_fst intro: sorted_distinct_set_unique)

lemma map_filter_by_key:
  assumes "distinct (map fst rs)"
  shows "List.map_filter (\<lambda>q. g (fst q) (snd q)) rs = List.map_filter (\<lambda>k. g k (the (map_of rs k))) (map fst rs)"
proof -
  have "List.map_filter (\<lambda>q. g (fst q) (snd q)) rs = List.map_filter (\<lambda>q. g (fst q) (the (map_of rs (fst q)))) rs"
    using assms by (auto simp: List.map_filter_def intro!: map_cong filter_cong)
  also have "\<dots> = List.map_filter (\<lambda>k. g k (the (map_of rs k))) (map fst rs)"
    by (simp add: List.map_filter_def filter_map comp_def)
  finally show ?thesis .
qed

lemma scan_prefix_kept:
  assumes res: "resealed X s s'" and ok: "keyring_ok X s" and cf: "cf \<noteq> KEYS" "cf \<noteq> META"
    and fine: "\<And>k b. rows s cf k = Some b \<Longrightarrow> sealed_ok X s b \<and> (\<exists>r. open_edge X (usable X s) cf k b = Inr r)"
  shows "scan_prefix X cf p s' = scan_prefix X cf p s"
proof -
  have ok': "keyring_ok X s'" by (rule resealedD(1) [OF res])
  obtain rs where rs: "kv_iter_cf cf (ds_kv s) = Inr rs" "bt_ok rs" "map_of rs = rows s cf"
    by (rule mem_kv.iterE [OF keyring_ok_live [OF ok]])
  obtain rs' where rs': "kv_iter_cf cf (ds_kv s') = Inr rs'" "bt_ok rs'" "map_of rs' = rows s' cf"
    by (rule mem_kv.iterE [OF keyring_ok_live [OF ok']])
  have kept: "kept_row X s' cf k (rows s cf k) (rows s' cf k)" for k
    by (rule resealedD(6) [OF res cf(1)]) (use cf(2) in simp)
  have same: "open_edge X (usable X s') cf k b' = open_edge X (usable X s) cf k b"
    if "rows s cf k = Some b" "rows s' cf k = Some b'" for k b b'
    using kept_row_opens(1) [OF res] kept [of k] fine that by simp
  have older: "\<exists>b. rows s cf k = Some b" if "rows s' cf k = Some b'" for k b'
    using kept [of k] that by (cases "rows s cf k") auto
  have newer: "\<exists>b'. rows s' cf k = Some b'" if "rows s cf k = Some b" for k b
    using kept [of k] that by (auto elim: kept_row_SomeE)
  have keys: "map fst rs' = map fst rs"
    by (rule bt_keys_eq [OF rs'(2) rs(2)]) (use older newer in \<open>auto simp: rs(3) rs'(3)\<close>)
  let ?f = "\<lambda>s k b. if take (length p) k = p then opened X s cf (k, b) else None"
  have scan: "scan_prefix X cf p s = Inr (List.map_filter (\<lambda>q. ?f s (fst q) (snd q)) rs)"
  proof -
    have "\<forall>(k, b) \<in> set rs. \<exists>r. open_edge X (usable X s) cf k b = Inr r"
      using fine rs by (auto simp: bt_ok_mem_iff)
    from scan_loop [OF ok cache_ok_empty this, of p "[]"] rs(1) show ?thesis
      by (auto simp: scan_prefix_def kv_rd_def cong: if_cong)
  qed
  have scan': "scan_prefix X cf p s' = Inr (List.map_filter (\<lambda>q. ?f s' (fst q) (snd q)) rs')"
  proof -
    have "\<exists>r. open_edge X (usable X s') cf k b' = Inr r" if "rows s' cf k = Some b'" for k b'
      using older [OF that] same [OF _ that] fine by metis
    then have "\<forall>(k, b) \<in> set rs'. \<exists>r. open_edge X (usable X s') cf k b = Inr r"
      using rs' by (auto simp: bt_ok_mem_iff)
    from scan_loop [OF ok' cache_ok_empty this, of p "[]"] rs'(1) show ?thesis
      by (auto simp: scan_prefix_def kv_rd_def cong: if_cong)
  qed
  have "?f s' k (the (map_of rs' k)) = ?f s k (the (map_of rs k))" if "k \<in> set (map fst rs)" for k
  proof -
    have "k \<in> dom (rows s cf)" using that rs(3) by (metis dom_map_of_conv_image_fst set_map)
    then obtain b where b: "rows s cf k = Some b" by blast
    then obtain b' where "rows s' cf k = Some b'" using newer by blast
    with b same show ?thesis by (simp add: rs(3) rs'(3) opened_def)
  qed
  then have "List.map_filter (\<lambda>k. ?f s' k (the (map_of rs' k))) (map fst rs) =
      List.map_filter (\<lambda>k. ?f s k (the (map_of rs k))) (map fst rs)"
    unfolding List.map_filter_def by (intro map_cong filter_cong) simp_all
  then have "List.map_filter (\<lambda>q. ?f s' (fst q) (snd q)) rs' = List.map_filter (\<lambda>q. ?f s (fst q) (snd q)) rs"
    using map_filter_by_key [OF bt_ok_distinct [OF rs(2)], of "?f s"]
      map_filter_by_key [OF bt_ok_distinct [OF rs'(2)], of "?f s'"] keys by simp
  with scan scan' show ?thesis by simp
qed

lemma edge_rows_fine:
  assumes "store_ok X s"
  shows "rows s EDGES_OUT k = Some b \<Longrightarrow> sealed_ok X s b \<and> (\<exists>r. open_edge X (usable X s) EDGES_OUT k b = Inr r)"
    and "rows s EDGES_IN k = Some b \<Longrightarrow> sealed_ok X s b \<and> (\<exists>r. open_edge X (usable X s) EDGES_IN k b = Inr r)"
  using store_okD(4,5) [OF assms] unfolding edge_row_ok_def by blast+

lemma reads_kept:
  assumes res: "resealed X s s'" and ok: "store_ok X s" and m: "meta_ok X s"
  shows "get_node X nid s' = get_node X nid s"
    and "out_edges X nid s' = out_edges X nid s" and "in_edges X nid s' = in_edges X nid s"
    and "k \<noteq> SEAL_V2_MARKER_KEY \<Longrightarrow> get_meta X k s' = get_meta X k s"
proof -
  note kr = store_okD(1) [OF ok] resealedD(1) [OF res]
  have sealed: "sealed_ok X s b" if "rows s NODES j = Some b" for j b
    using store_okD(3) [OF ok that] by (simp add: node_row_ok_def)
  have "open_node X (usable X s') nid b = open_node X (usable X s) nid b" if "rows s NODES j = Some b" for j b
    using usable_kept [OF res sealed [OF that]] by (cases "parse_envelope X b") (simp_all add: open_node_def)
  then show "get_node X nid s' = get_node X nid s"
    using kr by (auto simp: get_node_def decode_node_eq resealedD(3) [OF res] split: option.split)
  show "out_edges X nid s' = out_edges X nid s" unfolding out_edges_def
    by (rule scan_prefix_kept [OF res kr(1)]) (simp_all add: edge_rows_fine [OF ok])
  show "in_edges X nid s' = in_edges X nid s" unfolding in_edges_def
    by (rule scan_prefix_kept [OF res kr(1)]) (simp_all add: edge_rows_fine [OF ok])
  show "get_meta X k s' = get_meta X k s" if k: "k \<noteq> SEAL_V2_MARKER_KEY"
  proof -
    have kept: "kept_row X s' META k (rows s META k) (rows s' META k)"
      by (rule resealedD(6) [OF res]) (use k in simp_all)
    show ?thesis
    proof (cases "rows s META k")
      case None
      with kept kr show ?thesis by (simp add: get_meta_eq)
    next
      case (Some b)
      with kept obtain b' where b': "rows s' META k = Some b'" by (auto elim: kept_row_SomeE)
      have "sealed_ok X s b" using m Some by (simp add: meta_ok_def)
      then show ?thesis using kept_row_opens(2) [OF res] kept Some b' kr by (simp add: get_meta_eq)
    qed
  qed
qed

text \<open>A retired generation stays retired, so a migration never brings back what a shred erased.\<close>

lemma retired_kept:
  assumes "resealed X s s'" "retired X s t g"
  shows "retired X s' t g"
proof -
  from assms(2) obtain e where e: "keyring_at X s t = Some e" "g \<le> kr_gen e" "usable X s t g = None"
    by (auto simp: retired_def)
  then obtain e' where "keyring_at X s' t = Some e'" "kr_gen e \<le> kr_gen e'" "usable X s' t g = None"
    using assms(1) unfolding resealed_def by metis
  with e(2) show ?thesis by (auto simp: retired_def)
qed

section \<open>The migration\<close>

text \<open>The state after all three loops and the marker.\<close>

definition migrated :: "externals \<Rightarrow> dag_store \<Rightarrow> seal_migration_report \<Rightarrow> dag_store \<Rightarrow> bool" where
  "migrated X s rep s' \<longleftrightarrow> resealed X s s' \<and> rows s' META SEAL_V2_MARKER_KEY \<noteq> None \<and>
     (\<forall>k v. rows s EDGES_OUT k = Some v \<longrightarrow> settled X EDGES_OUT (\<lambda>_. False) (edge_owner X s) s' (k, v)) \<and>
     (\<forall>k v. rows s EDGES_IN k = Some v \<longrightarrow> settled X EDGES_IN (\<lambda>_. False) (edge_owner X s) s' (k, v)) \<and>
     (\<forall>k v. k \<noteq> SEAL_V2_MARKER_KEY \<longrightarrow> rows s META k = Some v \<longrightarrow>
        settled X META (\<lambda>k. k = SEAL_V2_MARKER_KEY) (\<lambda>k _. meta_key_tenant k) s' (k, v)) \<and>
     skipped rep = card {k. \<exists>v. rows s EDGES_OUT k = Some v \<and> left_plain X (\<lambda>_. False) (edge_owner X s) (k, v)} +
       card {k. \<exists>v. rows s EDGES_IN k = Some v \<and> left_plain X (\<lambda>_. False) (edge_owner X s) (k, v)} +
       card {k. \<exists>v. rows s META k = Some v \<and>
         left_plain X (\<lambda>k. k = SEAL_V2_MARKER_KEY) (\<lambda>k _. meta_key_tenant k) (k, v)}"

lemma marker_resealed:
  assumes ok: "keyring_ok X s" and run: "kv_wr (kv_put META SEAL_V2_MARKER_KEY b) s = (r, s')"
  shows "r = Inr ()" "resealed X s s'" "(cf, k) \<noteq> (META, SEAL_V2_MARKER_KEY) \<Longrightarrow> rows s' cf k = rows s cf k"
    "rows s' META SEAL_V2_MARKER_KEY = Some b"
proof -
  obtain w where w: "kv_wr (kv_put META SEAL_V2_MARKER_KEY b) s = (Inr (), w)" "kv_live (ds_kv w)"
      "rows w = (rows s)(META := (rows s META)(SEAL_V2_MARKER_KEY \<mapsto> b))" "ds_encrypt w = ds_encrypt s"
    by (rule kv_wr_put [OF keyring_ok_live [OF ok]])
  have s': "s' = w" "r = Inr ()" using run w(1) by simp_all
  have keys: "rows w KEYS = rows s KEYS" by (simp add: w(3))
  show "r = Inr ()" by (rule s')
  show "rows s' cf k = rows s cf k" if "(cf, k) \<noteq> (META, SEAL_V2_MARKER_KEY)" for cf k
    using that by (auto simp: s' w(3))
  then show "resealed X s s'"
    unfolding resealed_def s' using keyring_ok_same [OF ok w(2) keys] w(4)
    by (simp add: live_entry_def same_keys(1,2) [OF keys] kept_row_def w(3))
  show "rows s' META SEAL_V2_MARKER_KEY = Some b" by (simp add: s' w(3))
qed

lemma migrate_run:
  assumes X: "externals_ok X" and ok: "keyring_ok X s" and enc: "ds_encrypt s"
    and none: "rows s META SEAL_V2_MARKER_KEY = None" and run: "migrate_seal_v2 X s = (r, s')"
  shows "resealed X s s' \<and> (\<forall>rep. r = Inr rep \<longrightarrow> migrated X s rep s')"
proof -
  obtain q1 s1 where q1: "for_rows EDGES_OUT (migrate_edge_row X EDGES_OUT) default_report s = (q1, s1)"
    by (cases "for_rows EDGES_OUT (migrate_edge_row X EDGES_OUT) default_report s")
  note o1 = out_rows.for_rows_run [OF X ok KEYS_neq(2) q1]
  note ok1 = resealedD(1) [OF o1(1)]
  have run1: "(case q1 of Inl e \<Rightarrow> (Inl e, s1) | Inr rep \<Rightarrow>
      sbind (for_rows EDGES_IN (migrate_edge_row X EDGES_IN) rep) (\<lambda>report.
      sbind (for_rows META (migrate_meta_row X) report) (\<lambda>report.
      sbind (kv_wr (kv_put META SEAL_V2_MARKER_KEY (as_bytes ''1''))) (\<lambda>_. sok report))) s1) = (r, s')"
    using run enc none ok q1 by (cases q1) (auto simp: migrate_seal_v2_def sread_bind sbind_def)
  show ?thesis
  proof (cases q1)
    case (Inl e)
    with run1 o1(1) show ?thesis by auto
  next
    case r1: (Inr rep1)
    obtain q2 s2 where q2: "for_rows EDGES_IN (migrate_edge_row X EDGES_IN) rep1 s1 = (q2, s2)"
      by (cases "for_rows EDGES_IN (migrate_edge_row X EDGES_IN) rep1 s1")
    note o2 = in_rows.for_rows_run [OF X ok1 KEYS_neq(3) q2]
    note ok2 = resealedD(1) [OF o2(1)] and res2 = resealed_trans [OF o1(1) o2(1)]
    show ?thesis
    proof (cases q2)
      case (Inl e)
      with run1 r1 q2 res2 show ?thesis by (auto simp: sbind_def)
    next
      case r2: (Inr rep2)
      obtain q3 s3 where q3: "for_rows META (migrate_meta_row X) rep2 s2 = (q3, s3)"
        by (cases "for_rows META (migrate_meta_row X) rep2 s2")
      note o3 = meta_rows.for_rows_run [OF X ok2 KEYS_neq(4) q3]
      note ok3 = resealedD(1) [OF o3(1)] and res3 = resealed_trans [OF res2 o3(1)]
      show ?thesis
      proof (cases q3)
        case (Inl e)
        with run1 r1 q2 r2 q3 res3 show ?thesis by (auto simp: sbind_def)
      next
        case r3: (Inr rep3)
        obtain q4 s4 where q4: "kv_wr (kv_put META SEAL_V2_MARKER_KEY (as_bytes ''1'')) s3 = (q4, s4)"
          by (cases "kv_wr (kv_put META SEAL_V2_MARKER_KEY (as_bytes ''1'')) s3")
        note o4 = marker_resealed [OF ok3 q4]
        have fin: "r = Inr rep3" "s' = s4"
          using run1 r1 q2 r2 q3 r3 q4 o4(1) by (auto simp: sbind_def)
        have own: "edge_owner X s1 = edge_owner X s"
          using out_rows.stable [OF keyring_ok_live [OF ok] keyring_ok_live [OF ok1] resealedD(3) [OF o1(1)]] by blast
        note res4 = resealed_trans [OF res3 o4(2)]
          and res14 = resealed_trans [OF resealed_trans [OF o2(1) o3(1)] o4(2)]
          and res24 = resealed_trans [OF o3(1) o4(2)]
        have rows_in: "rows s1 EDGES_IN = rows s EDGES_IN" using o1(2) by simp
        have rows_meta: "rows s2 META = rows s META" using o1(2) o2(2) by simp
        have out4: "rows s4 EDGES_OUT k = rows s1 EDGES_OUT k" for k
          using o2(2) [of EDGES_OUT] o3(2) [of EDGES_OUT] o4(3) [of EDGES_OUT k] by simp
        have in4: "rows s4 EDGES_IN k = rows s2 EDGES_IN k" for k
          using o3(2) [of EDGES_IN] o4(3) [of EDGES_IN k] by simp
        have meta4: "rows s4 META k = rows s3 META k" if "k \<noteq> SEAL_V2_MARKER_KEY" for k
          using o4(3) [of META k] that by simp
        have "settled X EDGES_OUT (\<lambda>_. False) (edge_owner X s) s4 (k, v)" if "rows s EDGES_OUT k = Some v" for k v
          by (rule settled_later [OF o1(3) [OF r1 that] res14 out4])
        moreover have "settled X EDGES_IN (\<lambda>_. False) (edge_owner X s) s4 (k, v)" if "rows s EDGES_IN k = Some v" for k v
          using settled_later [OF o2(3) [OF r2] res24 in4] that rows_in own by simp
        moreover have "settled X META (\<lambda>k. k = SEAL_V2_MARKER_KEY) (\<lambda>k _. meta_key_tenant k) s4 (k, v)"
          if "k \<noteq> SEAL_V2_MARKER_KEY" "rows s META k = Some v" for k v
          using settled_later [OF o3(3) [OF r3] o4(2) meta4] that rows_meta by simp
        moreover have "skipped default_report = 0" by (simp add: default_report_def)
        ultimately have "migrated X s rep3 s4"
          unfolding migrated_def
          using res4 o4(4) o1(5) [OF r1] o2(5) [OF r2] o3(5) [OF r3] by (simp add: own rows_in rows_meta)
        with fin res4 show ?thesis by simp
      qed
    qed
  qed
qed

definition plain_rows :: "externals \<Rightarrow> dag_store \<Rightarrow> string \<Rightarrow> bytes set" where
  "plain_rows X s cf = {k. (cf, k) \<noteq> (META, SEAL_V2_MARKER_KEY) \<and> (\<exists>b. rows s cf k = Some b \<and> parse_envelope X b = None)}"

lemma settled_plain:
  assumes "settled X cf skip own s' (k, v)" "rows s' cf k = Some b" "\<not> skip k"
  shows "parse_envelope X b = None \<longleftrightarrow> left_plain X skip own (k, v)"
  using assms by (auto simp: settled_def left_plain_def sealed_for_def split: if_splits option.splits)

lemma plain_rows_left:
  assumes res: "resealed X s s'" and cf: "cf \<noteq> KEYS" and skip: "\<And>k. skip k \<longleftrightarrow> (cf, k) = (META, SEAL_V2_MARKER_KEY)"
    and set: "\<And>k v. \<not> skip k \<Longrightarrow> rows s cf k = Some v \<Longrightarrow> settled X cf skip own s' (k, v)"
  shows "plain_rows X s' cf = {k. \<exists>v. rows s cf k = Some v \<and> left_plain X skip own (k, v)}"
proof (intro set_eqI)
  fix k
  show "k \<in> plain_rows X s' cf \<longleftrightarrow> k \<in> {k. \<exists>v. rows s cf k = Some v \<and> left_plain X skip own (k, v)}"
  proof (cases "skip k")
    case True
    with skip [of k] show ?thesis by (auto simp: plain_rows_def left_plain_def)
  next
    case False
    then have kept: "kept_row X s' cf k (rows s cf k) (rows s' cf k)"
      using resealedD(6) [OF res cf] skip [of k] by blast
    show ?thesis
    proof (cases "rows s cf k")
      case None
      with kept show ?thesis by (simp add: plain_rows_def)
    next
      case (Some v)
      with kept obtain b where b: "rows s' cf k = Some b" by (auto elim: kept_row_SomeE)
      with settled_plain [OF set [OF False Some] b False] skip [of k] False Some show ?thesis
        by (simp add: plain_rows_def)
    qed
  qed
qed

lemma edge_tenant_fails:
  assumes ok: "store_ok X s" and t: "edge_tenant X e Map.empty s = Inl err"
  shows "\<exists>m. err = Crypto m" "rows s NODES (hash_bytes (e_from e)) = None" "rows s NODES (hash_bytes (e_to e)) = None"
proof -
  have st: "\<exists>r. stored_node_tenant X nid s = Inr r \<and> (r = None \<longleftrightarrow> rows s NODES (hash_bytes nid) = None)" for nid
  proof (cases "rows s NODES (hash_bytes nid)")
    case None
    with ok show ?thesis by (simp add: stored_node_tenant_def store_okD(2))
  next
    case (Some b)
    have "node_row_ok X s (hash_bytes nid) b" by (rule store_okD(3) [OF ok Some])
    then have "parse_envelope X b = None \<Longrightarrow> \<exists>n. node_from_json X b = Inr n"
      by (auto simp: node_row_ok_def open_node_def)
    with Some ok show ?thesis
      by (cases "parse_envelope X b") (auto simp: stored_node_tenant_def store_okD(2))
  qed
  from st [of "e_from e"] st [of "e_to e"] t
  show "\<exists>m. err = Crypto m" "rows s NODES (hash_bytes (e_from e)) = None" "rows s NODES (hash_bytes (e_to e)) = None"
    by (auto simp: edge_tenant_def split: option.splits)
qed

lemma plain_edge_row:
  assumes "parse_envelope X b = None" "edge_row_ok X s cf rk k b"
  obtains e where "edge_from_json X b = Inr e" "rk e = k" "open_edge X (usable X s) cf k b = Inr (Some e)"
  using assms by (auto simp: edge_row_ok_def open_edge_def)

lemma edge_row_kept:
  assumes res: "resealed X s s'" and ok: "\<And>b. rows s cf k = Some b \<Longrightarrow> edge_row_ok X s cf rk k b"
    and cf: "cf \<noteq> KEYS" "cf \<noteq> META"
  shows "rows s' cf k = Some b' \<Longrightarrow> edge_row_ok X s' cf rk k b'" "row_view X s' cf k = row_view X s cf k"
proof -
  have kept: "kept_row X s' cf k (rows s cf k) (rows s' cf k)"
    by (rule resealedD(6) [OF res cf(1)]) (use cf(2) in simp)
  have "(\<forall>b'. rows s' cf k = Some b' \<longrightarrow> edge_row_ok X s' cf rk k b') \<and> row_view X s' cf k = row_view X s cf k"
  proof (cases "rows s cf k")
    case None
    with kept show ?thesis by (simp add: row_view_def)
  next
    case (Some b)
    with kept obtain c where c: "rows s' cf k = Some c" by (auto elim: kept_row_SomeE)
    have okb: "edge_row_ok X s cf rk k b" by (rule ok [OF Some])
    then have "sealed_ok X s b" by (simp add: edge_row_ok_def)
    from kept_row_opens(1,3) [OF res this, of cf k c] kept Some c okb show ?thesis
      by (simp add: edge_row_ok_def row_view_def)
  qed
  then show "rows s' cf k = Some b' \<Longrightarrow> edge_row_ok X s' cf rk k b'" "row_view X s' cf k = row_view X s cf k"
    by blast+
qed

lemma owned_rows_same_tag:
  assumes "settled X cf sk own s (k, v)" "settled X cf' sk' own' s (k', v')" "\<not> sk k" "\<not> sk' k'"
    and "parse_envelope X v = None" "parse_envelope X v' = None" "own k v = own' k' v'"
  shows "map_option (seal_tag X) (rows s cf k) = map_option (seal_tag X) (rows s cf' k')"
proof (cases "own k v")
  case None
  with assms(7) have "own' k' v' = None" by simp
  with None assms(1-6) show ?thesis by (simp add: settled_def seal_tag_def)
next
  case (Some t)
  with assms(7) have "own' k' v' = Some t" by simp
  with Some assms(1-6) obtain b b' where "rows s cf k = Some b" "sealed_for X s t cf k v b"
      "rows s cf' k' = Some b'" "sealed_for X s t cf' k' v' b'"
    by (auto simp: settled_def)
  moreover from this(2) obtain e where "keyring_at X s t = Some e" by (auto simp: sealed_for_def)
  ultimately show ?thesis by (simp add: sealed_for_tag)
qed

lemma migrated_mirrored:
  assumes ok: "store_ok X s" and mig: "migrated X s rep s'"
  shows "mirrored X s' e"
proof -
  have res: "resealed X s s'" using mig by (simp add: migrated_def)
  note views = edge_row_kept(2) [OF res store_okD(4) [OF ok]] edge_row_kept(2) [OF res store_okD(5) [OF ok]]
  have mir: "map_option (seal_tag X) (rows s EDGES_OUT (edge_key e)) = map_option (seal_tag X) (rows s EDGES_IN (in_key e))"
      "row_view X s EDGES_OUT (edge_key e) = row_view X s EDGES_IN (in_key e)"
    using store_okD(6) [OF ok, of e] by (simp_all add: mirrored_def)
  have kept: "kept_row X s' cf k (rows s cf k) (rows s' cf k)" if "cf = EDGES_OUT \<or> cf = EDGES_IN" for cf k
    by (rule resealedD(6) [OF res]) (use that in auto)
  have "map_option (seal_tag X) (rows s' EDGES_OUT (edge_key e)) = map_option (seal_tag X) (rows s' EDGES_IN (in_key e))"
  proof (cases "rows s EDGES_OUT (edge_key e)")
    case None
    with mir(1) have "rows s EDGES_IN (in_key e) = None" by simp
    with None kept [of EDGES_OUT "edge_key e"] kept [of EDGES_IN "in_key e"] show ?thesis by simp
  next
    case v: (Some v)
    with mir(1) obtain w where w: "rows s EDGES_IN (in_key e) = Some w" "seal_tag X v = seal_tag X w"
      by (cases "rows s EDGES_IN (in_key e)") auto
    have st: "settled X EDGES_OUT (\<lambda>_. False) (edge_owner X s) s' (edge_key e, v)"
        "settled X EDGES_IN (\<lambda>_. False) (edge_owner X s) s' (in_key e, w)"
      using mig v w(1) by (simp_all add: migrated_def)
    show ?thesis
    proof (cases "parse_envelope X v")
      case (Some env)
      with w(2) have "parse_envelope X w \<noteq> None" by (cases "parse_envelope X w") (simp_all add: seal_tag_def)
      with st Some w(2) show ?thesis by (simp add: settled_def)
    next
      case None
      with w(2) have pw: "parse_envelope X w = None" by (simp add: seal_tag_def)
      obtain d where d: "edge_from_json X v = Inr d" "open_edge X (usable X s) EDGES_OUT (edge_key e) v = Inr (Some d)"
        by (rule plain_edge_row [OF None store_okD(4) [OF ok v]])
      obtain d' where d': "edge_from_json X w = Inr d'" "open_edge X (usable X s) EDGES_IN (in_key e) w = Inr (Some d')"
        by (rule plain_edge_row [OF pw store_okD(5) [OF ok w(1)]])
      have "d = d'" using mir(2) v w(1) d(2) d'(2) by (simp add: row_view_def)
      with d(1) d'(1) have "edge_owner X s (edge_key e) v = edge_owner X s (in_key e) w" by (simp add: edge_owner_def)
      from owned_rows_same_tag [OF st _ _ None pw this] show ?thesis by simp
    qed
  qed
  with mir(2) views show ?thesis by (simp add: mirrored_def)
qed

lemma migrated_store_ok:
  assumes ok: "store_ok X s" and mig: "migrated X s rep s'"
  shows "store_ok X s'"
proof -
  have res: "resealed X s s'" using mig by (simp add: migrated_def)
  show ?thesis
  proof (rule store_okI)
    show "keyring_ok X s'" by (rule resealedD(1) [OF res])
    show "node_row_ok X s' k b" if "rows s' NODES k = Some b" for k b
    proof -
      have row: "node_row_ok X s k b" using store_okD(3) [OF ok] that by (simp add: resealedD(3) [OF res])
      then have se: "sealed_ok X s b" by (simp add: node_row_ok_def)
      have "open_node X (usable X s') nid b = open_node X (usable X s) nid b" for nid
        using usable_kept [OF res se] by (cases "parse_envelope X b") (simp_all add: open_node_def)
      with row sealed_ok_kept [OF res se] show ?thesis by (simp add: node_row_ok_def)
    qed
    show "edge_row_ok X s' EDGES_OUT edge_key k b" if "rows s' EDGES_OUT k = Some b" for k b
      by (rule edge_row_kept(1) [OF res store_okD(4) [OF ok] _ _ that]) simp_all
    show "edge_row_ok X s' EDGES_IN in_key k b" if "rows s' EDGES_IN k = Some b" for k b
      by (rule edge_row_kept(1) [OF res store_okD(5) [OF ok] _ _ that]) simp_all
    show "mirrored X s' e" for e by (rule migrated_mirrored [OF ok mig])
  qed
qed

lemma migrate_total:
  assumes X: "externals_ok X" "externals_total X" and ok: "store_ok X s" and enc: "ds_encrypt s"
  shows "\<exists>rep s'. migrate_seal_v2 X s = (Inr rep, s')"
proof (cases "rows s META SEAL_V2_MARKER_KEY")
  case (Some b)
  with enc ok show ?thesis by (simp add: migrate_seal_v2_def sread_bind store_okD(2))
next
  case None
  have fine: "edge_fine X s k v" if row: "edge_row_ok X s cf rk k v" for cf rk k v
  proof (cases "parse_envelope X v")
    case None
    obtain e where "edge_from_json X v = Inr e" by (rule plain_edge_row [OF None row])
    with edge_tenant_fails(1) [OF ok] show ?thesis by (auto simp: edge_fine_def)
  qed (simp add: edge_fine_def)
  note kr = store_okD(1) [OF ok]
  obtain rep1 s1 where q1: "for_rows EDGES_OUT (migrate_edge_row X EDGES_OUT) default_report s = (Inr rep1, s1)"
    using out_rows.for_rows_total [OF X kr KEYS_neq(2), of default_report] fine store_okD(4) [OF ok] by blast
  note o1 = out_rows.for_rows_run [OF X(1) kr KEYS_neq(2) q1]
  have rows1: "rows s1 EDGES_IN = rows s EDGES_IN" using o1(2) by simp
  have "edge_fine X s1 = edge_fine X s"
    using out_rows.stable [OF keyring_ok_live [OF kr] keyring_ok_live [OF resealedD(1) [OF o1(1)]] resealedD(3) [OF o1(1)]]
    by blast
  then have fine1: "edge_fine X s1 k v" if "rows s1 EDGES_IN k = Some v" for k v
    using fine [OF store_okD(5) [OF ok]] that rows1 by simp
  obtain rep2 s2 where q2: "for_rows EDGES_IN (migrate_edge_row X EDGES_IN) rep1 s1 = (Inr rep2, s2)"
    using in_rows.for_rows_total [OF X resealedD(1) [OF o1(1)] KEYS_neq(3) fine1, of rep1] by blast
  note o2 = in_rows.for_rows_run [OF X(1) resealedD(1) [OF o1(1)] KEYS_neq(3) q2]
  obtain rep3 s3 where q3: "for_rows META (migrate_meta_row X) rep2 s2 = (Inr rep3, s3)"
    using meta_rows.for_rows_total [OF X resealedD(1) [OF o2(1)] KEYS_neq(4), of rep2] by blast
  note o3 = meta_rows.for_rows_run [OF X(1) resealedD(1) [OF o2(1)] KEYS_neq(4) q3]
  obtain s4 where "kv_wr (kv_put META SEAL_V2_MARKER_KEY (as_bytes ''1'')) s3 = (Inr (), s4)"
    by (rule kv_wr_put [OF keyring_ok_live [OF resealedD(1) [OF o3(1)]]])
  with q1 q2 q3 None enc ok show ?thesis
    by (simp add: migrate_seal_v2_def sread_bind store_okD(2) sbind_def)
qed


lemma seal_mode_irrelevant:
  "get_meta X k (s\<lparr>ds_encrypt := b\<rparr>) = get_meta X k s"
  "store_ok X s \<Longrightarrow> store_ok X (s\<lparr>ds_encrypt := b\<rparr>)"
  "meta_ok X s \<Longrightarrow> meta_ok X (s\<lparr>ds_encrypt := b\<rparr>)"
proof -
  have rows: "rows (s\<lparr>ds_encrypt := b\<rparr>) = rows s" by simp
  have ke: "keyring_entry_of X t (s\<lparr>ds_encrypt := b\<rparr>) = keyring_entry_of X t s" for t
    by (simp add: keyring_entry_of_def kv_rd_def)
  show "get_meta X k (s\<lparr>ds_encrypt := b\<rparr>) = get_meta X k s"
    unfolding get_meta_def kv_rd_def ke by simp
  show "store_ok X (s\<lparr>ds_encrypt := b\<rparr>)" if "store_ok X s"
    using same_rows [OF that, of "s\<lparr>ds_encrypt := b\<rparr>"] store_okD(2) [OF that] rows by simp
  show "meta_ok X (s\<lparr>ds_encrypt := b\<rparr>)" if "meta_ok X s"
    using that same_keys(3) [of "s\<lparr>ds_encrypt := b\<rparr>" s X] by (simp add: meta_ok_def)
qed


text \<open>Opening: sealing mode exactly when the keyring has entries; a plaintext store is opened as it
  is, and a sealing store is handed out only after its migration ended.\<close>

lemma new_auto_opens:
  assumes live: "kv_live kv" and run: "new_auto X kv = (Inr s, kv')"
  shows "ds_kv s = kv'"
    "kv_view kv KEYS = Map.empty \<Longrightarrow> s = new kv \<and> kv' = kv"
    "kv_view kv KEYS \<noteq> Map.empty \<Longrightarrow> \<exists>rep. migrate_seal_v2 X (new_encrypted kv) = (Inr rep, s)"
proof -
  obtain rs where rs: "kv_iter_cf KEYS kv = Inr rs" "bt_ok rs" "map_of rs = kv_view kv KEYS"
    by (rule mem_kv.iterE [OF live])
  then have empty: "rs = [] \<longleftrightarrow> kv_view kv KEYS = Map.empty" by (metis map_of_eq_empty_iff)
  show "ds_kv s = kv'"
    using run rs(1) by (auto simp: new_auto_def Let_def split: if_splits prod.splits sum.splits)
  show "s = new kv \<and> kv' = kv" if "kv_view kv KEYS = Map.empty"
    using run rs(1) empty that by (auto simp: new_auto_def new_def)
  show "\<exists>rep. migrate_seal_v2 X (new_encrypted kv) = (Inr rep, s)" if "kv_view kv KEYS \<noteq> Map.empty"
    using run rs(1) empty that
    by (auto simp: new_auto_def Let_def new_encrypted_def split: prod.splits sum.splits)
qed

end
