(* ===== verification/Recall.thy ===== *)
theory Recall
  imports Asserter Text
begin

text \<open>
  The read path over the memory graph (\<^verbatim>\<open>crates/mem-query/src/lib.rs\<close>): the recency storyline of a
  repository, the snapshot as of a time, the neighbourhood of a node, resolution of id
  prefixes, provenance verification and the completeness critic, with the in-flight branch
  layer they hide. Every loop keeps the order in which the code reads the store, so that the
  first failing read is the error returned. This theory holds the definitions; the theory
  \<^verbatim>\<open>Recall_Safety\<close> their properties. Semantic search and analogies are in the theory \<^verbatim>\<open>Search\<close>.
\<close>

section \<open>Data\<close>

record watermark =
  wm_repo :: string
  wm_head :: "string option"
  wm_head_count :: nat
  wm_ingested_at_ms :: u64

datatype ingest_error =
    IngestGit string | IngestStore store_error | IngestSerde string | IngestEmbed string | IngestChain string

text \<open>What the read path takes from other crates: the JSON form of a watermark, and the
  single-precision value of \<open>1 / (1 + n)\<close>.\<close>

record query_env =
  watermark_from_json :: "bytes \<Rightarrow> (string, watermark) result"
  f32_inverse_succ :: "nat \<Rightarrow> u32"

record recall_item =
  ri_id :: content_hash
  ri_kind :: node_kind
  ri_repo :: string
  ri_title :: string
  ri_valid_from :: timestamp
  ri_plane :: plane
  ri_trust_tier :: trust_tier
  ri_source :: source_ref
  ri_status :: status
  ri_score :: "u32 option"
  ri_in_flight_branch :: "string option"

record recall_result =
  rr_repo :: string
  rr_watermark :: "watermark option"
  rr_total_in_tenant :: nat
  rr_items :: "recall_item list"

datatype direction = Out | In

record neighbor_item =
  ni_edge_kind :: edge_kind
  ni_direction :: direction
  ni_quarantined :: bool
  ni_node :: "recall_item option"

datatype signature_status = NotApplicableDerived | Valid | Invalid string | Missing

record verification =
  vn_item :: recall_item
  vn_signature :: signature_status
  vn_superseded_by :: "content_hash list"
  vn_refuted_by :: "content_hash list"
  vn_contradicted :: bool

datatype gap =
    TruncatedCoverage (shown: nat) (total: nat) | SupersededInResult "content_hash list"
  | Contradicted content_hash | AdjacentProposal content_hash

record critique =
  cr_gaps :: "gap list"
  cr_watermark_age_ms :: "u64 option"
  cr_completeness :: u32

text \<open>The part of \<^verbatim>\<open>Recall\<close> the modelled queries read: its two switches.\<close>

record recall =
  rc_include_in_flight :: bool
  rc_include_asserted :: bool

definition new_recall :: recall where
  "new_recall = \<lparr>rc_include_in_flight = False, rc_include_asserted = False\<rparr>"

definition with_in_flight :: "bool \<Rightarrow> recall \<Rightarrow> recall" where
  "with_in_flight yes q = q\<lparr>rc_include_in_flight := yes\<rparr>"

definition with_asserted :: "bool \<Rightarrow> recall \<Rightarrow> recall" where
  "with_asserted yes q = q\<lparr>rc_include_asserted := yes\<rparr>"

section \<open>Text\<close>

text \<open>\<^verbatim>\<open>String::from_utf8_lossy\<close>: every maximal prefix of an ill-formed sequence becomes U+FFFD.\<close>

definition replacement :: bytes where
  "replacement = [0xEF, 0xBF, 0xBD]"

definition second_ok :: "byte \<Rightarrow> byte \<Rightarrow> bool" where
  "second_ok a b \<longleftrightarrow> utf8_cont b \<and> (a = 0xE0 \<longrightarrow> 0xA0 \<le> b) \<and> (a = 0xED \<longrightarrow> b \<le> 0x9F) \<and>
     (a = 0xF0 \<longrightarrow> 0x90 \<le> b) \<and> (a = 0xF4 \<longrightarrow> b \<le> 0x8F)"

text \<open>The number of bytes after the first that the sequence should have.\<close>

definition utf8_tail :: "byte \<Rightarrow> nat option" where
  "utf8_tail a =
     (if a < 0x80 then Some 0
      else if 0xC2 \<le> a \<and> a \<le> 0xDF then Some 1
      else if 0xE0 \<le> a \<and> a \<le> 0xEF then Some 2
      else if 0xF0 \<le> a \<and> a \<le> 0xF4 then Some 3
      else None)"

text \<open>How many of the following bytes continue the sequence, at most the number wanted.\<close>

definition utf8_have :: "byte \<Rightarrow> nat \<Rightarrow> bytes \<Rightarrow> nat" where
  "utf8_have a want bs =
     (case bs of
        [] \<Rightarrow> 0
      | b # r \<Rightarrow> if want = 0 \<or> \<not> second_ok a b then 0 else 1 + length (takeWhile utf8_cont (take (want - 1) r)))"

function utf8_lossy :: "bytes \<Rightarrow> bytes" where
  "utf8_lossy [] = []"
| "utf8_lossy (a # bs) =
     (case utf8_tail a of
        None \<Rightarrow> replacement @ utf8_lossy bs
      | Some want \<Rightarrow>
          let have = utf8_have a want bs
          in (if have = want then a # take want bs else replacement) @ utf8_lossy (drop have bs))"
  by pat_completeness auto
termination
  by (relation "measure length") auto

text \<open>\<^verbatim>\<open>rsplit_once\<close>: what stands before and after the last occurrence of a character.\<close>

definition rsplit_once :: "char \<Rightarrow> string \<Rightarrow> (string \<times> string) option" where
  "rsplit_once c s =
     (case dropWhile (\<lambda>x. x \<noteq> c) (rev s) of
        [] \<Rightarrow> None
      | _ # before \<Rightarrow> Some (rev before, rev (takeWhile (\<lambda>x. x \<noteq> c) (rev s))))"

definition title_of :: "memory_node \<Rightarrow> string" where
  "title_of n = of_bytes (utf8_lossy (n_content n))"

definition from_node :: "externals \<Rightarrow> memory_node \<Rightarrow> u32 option \<Rightarrow> recall_item" where
  "from_node X n score =
     \<lparr>ri_id = node_id X n, ri_kind = n_kind n, ri_repo = n_repo n, ri_title = title_of n,
      ri_valid_from = n_valid_from n, ri_plane = n_plane n, ri_trust_tier = n_trust_tier n,
      ri_source = n_source_ref n, ri_status = n_status n, ri_score = score, ri_in_flight_branch = None\<rparr>"

definition is_reference :: "memory_node \<Rightarrow> bool" where
  "is_reference n = (case n_source_ref n of DagNative key \<Rightarrow> strip_prefix ''ref:'' key \<noteq> None | _ \<Rightarrow> False)"

definition detect_embedding_model :: "externals \<Rightarrow> string \<Rightarrow> string option reader" where
  "detect_embedding_model X repo s =
     rbind (all_nodes X s) (\<lambda>all.
     Inr (Option.bind (List.find (\<lambda>n. n_repo n = repo \<and> n_embedding n \<noteq> None) all)
       (\<lambda>n. map_option vv_model (n_embedding n))))"

definition detect_store_embedding_model :: "externals \<Rightarrow> string option reader" where
  "detect_store_embedding_model X s =
     rbind (all_nodes X s) (\<lambda>all.
     Inr (Option.bind (List.find (\<lambda>n. n_embedding n \<noteq> None) all) (\<lambda>n. map_option vv_model (n_embedding n))))"

section \<open>The canonical history and the in-flight layer\<close>

definition watermark_key :: "string \<Rightarrow> bytes" where
  "watermark_key repo = as_bytes (''derived_watermark:'' @ repo)"

definition read_watermark ::
    "externals \<Rightarrow> query_env \<Rightarrow> string \<Rightarrow> dag_store \<Rightarrow> (ingest_error, watermark option) result" where
  "read_watermark X Q repo s =
     rbind (map_err IngestStore (get_meta X (watermark_key repo) s)) (\<lambda>v.
     case v of
       None \<Rightarrow> Inr None
     | Some b \<Rightarrow> rbind (map_err IngestSerde (watermark_from_json Q b)) (\<lambda>w. Inr (Some w)))"

definition watermark_of :: "externals \<Rightarrow> query_env \<Rightarrow> string \<Rightarrow> dag_store \<Rightarrow> watermark option" where
  "watermark_of X Q repo s = (case read_watermark X Q repo s of Inl _ \<Rightarrow> None | Inr w \<Rightarrow> w)"

definition sha_to_id :: "externals \<Rightarrow> string \<Rightarrow> memory_node list \<Rightarrow> string \<rightharpoonup> content_hash" where
  "sha_to_id X repo all =
     fold (\<lambda>n m. case n_source_ref n of
         GitCommit _ sha \<Rightarrow> if n_repo n = repo \<and> n_kind n = Commit then m(sha \<mapsto> node_id X n) else m
       | _ \<Rightarrow> m) all Map.empty"

definition parent_map :: "edge list \<Rightarrow> content_hash \<Rightarrow> content_hash list" where
  "parent_map es =
     fold (\<lambda>e m. if e_kind e = TemporalNext \<or> e_kind e = MergeParent then m(e_from e := m (e_from e) @ [e_to e]) else m)
       es (\<lambda>_. [])"

text \<open>The depth-first walk; the top of the stack is the head of the list.\<close>

function spine :: "(content_hash \<Rightarrow> content_hash list) \<Rightarrow> content_hash set \<Rightarrow> content_hash list \<Rightarrow> content_hash set" where
  "spine parents reachable [] = reachable"
| "spine parents reachable (h # stack) =
     (if h \<in> reachable then spine parents reachable stack
      else spine parents (insert h reachable) (rev (parents h) @ stack))"
  by pat_completeness auto
termination
proof (relation "inv_image (less_than <*lex*> less_than) (\<lambda>(parents, reachable, stack). (card (- reachable), length stack))")
  fix parents :: "content_hash \<Rightarrow> content_hash list" and reachable :: "content_hash set" and h stack
  assume "h \<notin> reachable"
  then have eq: "- reachable = insert h (- insert h reachable)" by auto
  have "card (- reachable) = Suc (card (- insert h reachable))"
    by (subst eq) (rule card_insert_disjoint, simp_all)
  then show "((parents, insert h reachable, rev (parents h) @ stack), (parents, reachable, h # stack))
      \<in> inv_image (less_than <*lex*> less_than) (\<lambda>(parents, reachable, stack). (card (- reachable), length stack))"
    by simp
qed auto

definition canonical_reachable ::
    "externals \<Rightarrow> query_env \<Rightarrow> string \<Rightarrow> memory_node list \<Rightarrow> content_hash set reader" where
  "canonical_reachable X Q repo all s =
     (case Option.bind (watermark_of X Q repo s) wm_head of
        None \<Rightarrow> Inr {}
      | Some head_sha \<Rightarrow>
          (case sha_to_id X repo all head_sha of
             None \<Rightarrow> Inr {}
           | Some head_id \<Rightarrow>
               rbind (all_edges X s) (\<lambda>es. Inr (spine (parent_map es) {} [head_id]))))"

definition branch_name :: "memory_node \<Rightarrow> string" where
  "branch_name n = (case rsplit_once (CHR ''@'') (title_of n) of None \<Rightarrow> '''' | Some (name, _) \<Rightarrow> name)"

definition label_commits ::
    "content_hash set \<Rightarrow> string \<Rightarrow> edge list \<Rightarrow> (content_hash \<rightharpoonup> string) \<Rightarrow> (content_hash \<rightharpoonup> string)" where
  "label_commits reachable branch es m =
     fold (\<lambda>e m. if e_kind e = BranchContains \<and> e_to e \<notin> reachable \<and> m (e_to e) = None
                 then m(e_to e \<mapsto> branch) else m) es m"

definition label_branch ::
    "externals \<Rightarrow> string \<Rightarrow> content_hash set \<Rightarrow> dag_store \<Rightarrow> bool \<Rightarrow> memory_node \<Rightarrow> (content_hash \<rightharpoonup> string) \<Rightarrow>
     (store_error, content_hash \<rightharpoonup> string) result" where
  "label_branch X repo reachable s want_active n m =
     (if n_repo n = repo \<and> n_kind n = Branch \<and> (n_status n = Active) = want_active then
        rbind (out_edges X (node_id X n) s) (\<lambda>es. Inr (label_commits reachable (branch_name n) es m))
      else Inr m)"

definition in_flight_map ::
    "externals \<Rightarrow> query_env \<Rightarrow> string \<Rightarrow> memory_node list \<Rightarrow> (content_hash \<rightharpoonup> string) reader" where
  "in_flight_map X Q repo all s =
     rbind (canonical_reachable X Q repo all s) (\<lambda>reachable.
     rfold (\<lambda>want_active. rfold (label_branch X repo reachable s want_active) all) [True, False] Map.empty)"

definition tenant_scan ::
    "externals \<Rightarrow> query_env \<Rightarrow> recall \<Rightarrow> string \<Rightarrow> (memory_node list \<times> (content_hash \<rightharpoonup> string)) reader" where
  "tenant_scan X Q q repo s =
     rbind (all_nodes X s) (\<lambda>all.
     rbind (in_flight_map X Q repo all s) (\<lambda>in_flight.
     Inr (filter (\<lambda>n. n_repo n = repo \<and> \<not> is_reference n \<and> n_kind n \<noteq> Branch \<and>
            (rc_include_in_flight q \<or> in_flight (node_id X n) = None)) all, in_flight)))"

definition tenant_nodes :: "externals \<Rightarrow> query_env \<Rightarrow> recall \<Rightarrow> string \<Rightarrow> memory_node list reader" where
  "tenant_nodes X Q q repo s = rbind (tenant_scan X Q q repo s) (\<lambda>(nodes, _). Inr nodes)"

section \<open>Storyline and snapshot\<close>

text \<open>Newest first, ties by id: the distance from the largest time turns descending into ascending.\<close>

definition recency_key :: "externals \<Rightarrow> memory_node \<Rightarrow> u64 \<times> bytes" where
  "recency_key X n = (- 1 - n_valid_from n, hash_bytes (node_id X n))"

definition storyline :: "externals \<Rightarrow> query_env \<Rightarrow> recall \<Rightarrow> string \<Rightarrow> nat \<Rightarrow> recall_result reader" where
  "storyline X Q q repo budget s =
     rbind (tenant_scan X Q q repo s) (\<lambda>(nodes, in_flight).
     Inr \<lparr>rr_repo = repo, rr_watermark = watermark_of X Q repo s, rr_total_in_tenant = length nodes,
          rr_items = map (\<lambda>n. (from_node X n None)\<lparr>ri_in_flight_branch := in_flight (node_id X n)\<rparr>)
            (take budget (sort_key (recency_key X) nodes))\<rparr>)"

definition current_at :: "recall \<Rightarrow> timestamp \<Rightarrow> memory_node \<Rightarrow> bool" where
  "current_at q as_of_ms n \<longleftrightarrow> (rc_include_asserted q \<or> n_plane n = Derived) \<and> n_valid_from n \<le> as_of_ms \<and>
     (case n_valid_to n of None \<Rightarrow> True | Some vt \<Rightarrow> vt > as_of_ms)"

definition as_of :: "externals \<Rightarrow> query_env \<Rightarrow> recall \<Rightarrow> string \<Rightarrow> timestamp \<Rightarrow> nat \<Rightarrow> recall_result reader" where
  "as_of X Q q repo as_of_ms budget s =
     rbind (tenant_nodes X Q q repo s) (\<lambda>nodes.
     Inr \<lparr>rr_repo = repo, rr_watermark = watermark_of X Q repo s, rr_total_in_tenant = length nodes,
          rr_items = map (\<lambda>n. from_node X n None)
            (take budget (sort_key (recency_key X) (filter (current_at q as_of_ms) nodes)))\<rparr>)"

section \<open>Neighbourhood\<close>

definition neighbor_of :: "externals \<Rightarrow> direction \<Rightarrow> edge \<Rightarrow> memory_node option \<Rightarrow> neighbor_item" where
  "neighbor_of X dir e node =
     \<lparr>ni_edge_kind = e_kind e, ni_direction = dir, ni_quarantined = e_quarantined e,
      ni_node = map_option (\<lambda>n. from_node X n None) node\<rparr>"

text \<open>One of the two loops of \<^verbatim>\<open>neighbors\<close>; the flag says that it stopped at the budget.\<close>

fun neighbor_loop ::
    "externals \<Rightarrow> nat \<Rightarrow> dag_store \<Rightarrow> direction \<Rightarrow> (edge \<Rightarrow> content_hash) \<Rightarrow> edge list \<Rightarrow> neighbor_item list \<Rightarrow>
     (store_error, bool \<times> neighbor_item list) result" where
  "neighbor_loop X budget s dir far [] out = Inr (False, out)"
| "neighbor_loop X budget s dir far (e # es) out =
     (if length out \<ge> budget then Inr (True, out)
      else rbind (get_node X (far e) s) (\<lambda>node.
           neighbor_loop X budget s dir far es (out @ [neighbor_of X dir e node])))"

definition neighbors :: "externals \<Rightarrow> content_hash \<Rightarrow> nat \<Rightarrow> neighbor_item list reader" where
  "neighbors X nid budget s =
     rbind (out_edges X nid s) (\<lambda>es.
     rbind (neighbor_loop X budget s Out e_to es []) (\<lambda>(full, out).
     if full then Inr out
     else
       rbind (in_edges X nid s) (\<lambda>es'.
       rbind (neighbor_loop X budget s In e_from es' out) (\<lambda>(_, out'). Inr out'))))"

fun readable_loop ::
    "externals \<Rightarrow> nat \<Rightarrow> (string \<Rightarrow> bool) \<Rightarrow> dag_store \<Rightarrow> (content_hash \<times> edge \<times> direction) list \<Rightarrow>
     neighbor_item list \<Rightarrow> (store_error, neighbor_item list) result" where
  "readable_loop X budget can_read s [] out = Inr out"
| "readable_loop X budget can_read s ((far, e, dir) # rest) out =
     (if length out \<ge> budget then Inr out
      else rbind (get_node X far s) (\<lambda>node.
           case node of
             Some n \<Rightarrow>
               if \<not> can_read (n_repo n) then readable_loop X budget can_read s rest out
               else readable_loop X budget can_read s rest (out @ [neighbor_of X dir e (Some n)])
           | None \<Rightarrow> readable_loop X budget can_read s rest (out @ [neighbor_of X dir e None])))"

definition neighbors_readable ::
    "externals \<Rightarrow> content_hash \<Rightarrow> nat \<Rightarrow> (string \<Rightarrow> bool) \<Rightarrow> neighbor_item list reader" where
  "neighbors_readable X nid budget can_read s =
     rbind (out_edges X nid s) (\<lambda>out_es.
     rbind (in_edges X nid s) (\<lambda>in_es.
     readable_loop X budget can_read s
       (map (\<lambda>e. (e_to e, e, Out)) out_es @ map (\<lambda>e. (e_from e, e, In)) in_es) []))"

text \<open>The multiset of directions and kinds of a node's confirmed edges.\<close>

definition edge_signature :: "externals \<Rightarrow> content_hash \<Rightarrow> (u8 \<times> u8 \<Rightarrow> nat) reader" where
  "edge_signature X nid s =
     rbind (out_edges X nid s) (\<lambda>out_es.
     rbind (in_edges X nid s) (\<lambda>in_es.
     let count = (\<lambda>d e sig. if \<not> e_quarantined e then sig((d, edge_kind_tag (e_kind e)) := sig (d, edge_kind_tag (e_kind e)) + 1) else sig)
     in Inr (fold (count 1) in_es (fold (count 0) out_es (\<lambda>_. 0)))))"

section \<open>Resolving a prefix\<close>

fun prefix_loop ::
    "externals \<Rightarrow> string \<Rightarrow> (memory_node \<Rightarrow> bool) \<Rightarrow> memory_node list \<Rightarrow> content_hash option \<Rightarrow> content_hash option" where
  "prefix_loop X prefix visible [] found = found"
| "prefix_loop X prefix visible (n # ns) found =
     (if \<not> visible n then prefix_loop X prefix visible ns found
      else if strip_prefix prefix (to_hex (hex_encode X) (node_id X n)) \<noteq> None then
        (if found \<noteq> None then None else prefix_loop X prefix visible ns (Some (node_id X n)))
      else prefix_loop X prefix visible ns found)"

definition resolve_prefix_where ::
    "externals \<Rightarrow> string \<Rightarrow> (memory_node \<Rightarrow> bool) \<Rightarrow> content_hash option reader" where
  "resolve_prefix_where X prefix visible s =
     rbind (all_nodes X s) (\<lambda>all. Inr (prefix_loop X prefix visible all None))"

definition resolve_prefix :: "externals \<Rightarrow> string \<Rightarrow> content_hash option reader" where
  "resolve_prefix X prefix = resolve_prefix_where X prefix (\<lambda>_. True)"

definition resolve_prefix_in :: "externals \<Rightarrow> string \<Rightarrow> string \<Rightarrow> content_hash option reader" where
  "resolve_prefix_in X repo prefix = resolve_prefix_where X prefix (\<lambda>n. n_repo n = repo)"

section \<open>Verification\<close>

definition signature_of :: "externals \<Rightarrow> memory_node \<Rightarrow> signature_status" where
  "signature_of X node =
     (case n_plane node of
        Derived \<Rightarrow> NotApplicableDerived
      | Asserted \<Rightarrow>
          (case verify_node X node of
             Inr _ \<Rightarrow> Valid
           | Inl Unsigned \<Rightarrow> Missing
           | Inl e \<Rightarrow> Invalid (assert_error_text e)))"

definition has_contradiction :: "memory_node \<Rightarrow> bool" where
  "has_contradiction n = list_ex (\<lambda>c. c = Both) (n_confidence n)"

definition verify_edge_in ::
    "externals \<Rightarrow> (string option \<Rightarrow> bool) \<Rightarrow> dag_store \<Rightarrow> edge \<Rightarrow> content_hash list \<times> content_hash list \<Rightarrow>
     (store_error, content_hash list \<times> content_hash list) result" where
  "verify_edge_in X visible s e = (\<lambda>(superseded_by, refuted_by).
     if e_quarantined e then Inr (superseded_by, refuted_by)
     else
       rbind (get_node X (e_from e) s) (\<lambda>far.
       if \<not> visible (map_option n_repo far) then Inr (superseded_by, refuted_by)
       else Inr (case e_kind e of
           Supersedes \<Rightarrow> (superseded_by @ [e_from e], refuted_by)
         | Refutes \<Rightarrow> (superseded_by, refuted_by @ [e_from e])
         | Contradicts \<Rightarrow> (superseded_by, refuted_by @ [e_from e])
         | _ \<Rightarrow> (superseded_by, refuted_by))))"

definition verify_where ::
    "externals \<Rightarrow> content_hash \<Rightarrow> (string option \<Rightarrow> bool) \<Rightarrow> verification option reader" where
  "verify_where X nid visible s =
     rbind (get_node X nid s) (\<lambda>found.
     case found of
       None \<Rightarrow> Inr None
     | Some node \<Rightarrow>
         rbind (in_edges X nid s) (\<lambda>es.
         rbind (rfold (verify_edge_in X visible s) es ([], [])) (\<lambda>(superseded_by, refuted_by).
         Inr (Some \<lparr>vn_item = from_node X node None, vn_signature = signature_of X node,
           vn_superseded_by = superseded_by, vn_refuted_by = refuted_by,
           vn_contradicted = has_contradiction node\<rparr>))))"

definition verify :: "externals \<Rightarrow> content_hash \<Rightarrow> verification option reader" where
  "verify X nid = verify_where X nid (\<lambda>_. True)"

definition verify_readable :: "externals \<Rightarrow> content_hash \<Rightarrow> (string \<Rightarrow> bool) \<Rightarrow> verification option reader" where
  "verify_readable X nid can_read =
     verify_where X nid (\<lambda>far. case far of None \<Rightarrow> False | Some repo \<Rightarrow> can_read repo)"

definition is_trustworthy :: "verification \<Rightarrow> bool" where
  "is_trustworthy v \<longleftrightarrow> (vn_signature v = NotApplicableDerived \<or> vn_signature v = Valid) \<and>
     vn_superseded_by v = [] \<and> vn_refuted_by v = [] \<and> \<not> vn_contradicted v \<and> ri_status (vn_item v) = Active"

section \<open>Critique\<close>

fun adjacent_proposal ::
    "externals \<Rightarrow> (string option \<Rightarrow> bool) \<Rightarrow> dag_store \<Rightarrow> (content_hash \<times> bool) list \<Rightarrow> (store_error, bool) result" where
  "adjacent_proposal X visible s [] = Inr False"
| "adjacent_proposal X visible s ((far, quarantined) # rest) =
     (if quarantined then
        rbind (get_node X far s) (\<lambda>node.
        if visible (map_option n_repo node) then Inr True else adjacent_proposal X visible s rest)
      else adjacent_proposal X visible s rest)"

definition critique_item ::
    "externals \<Rightarrow> (string option \<Rightarrow> bool) \<Rightarrow> dag_store \<Rightarrow> recall_item \<Rightarrow> gap list \<Rightarrow> (store_error, gap list) result" where
  "critique_item X visible s i gaps =
     rbind (get_node X (ri_id i) s) (\<lambda>found.
     case found of
       None \<Rightarrow> Inr gaps
     | Some n \<Rightarrow>
         let gaps = (if has_contradiction n then gaps @ [Contradicted (ri_id i)] else gaps) in
         rbind (out_edges X (ri_id i) s) (\<lambda>out_es.
         rbind (in_edges X (ri_id i) s) (\<lambda>in_es.
         rbind (adjacent_proposal X visible s
           (map (\<lambda>e. (e_to e, e_quarantined e)) out_es @ map (\<lambda>e. (e_from e, e_quarantined e)) in_es)) (\<lambda>has_quarantined.
         Inr (if has_quarantined then gaps @ [AdjacentProposal (ri_id i)] else gaps)))))"

definition critique_where ::
    "externals \<Rightarrow> query_env \<Rightarrow> recall_result \<Rightarrow> timestamp \<Rightarrow> (string option \<Rightarrow> bool) \<Rightarrow> critique reader" where
  "critique_where X Q result now_ms visible s =
     (let gaps = (if rr_total_in_tenant result > length (rr_items result)
                  then [TruncatedCoverage (length (rr_items result)) (rr_total_in_tenant result)] else []);
          superseded = map ri_id (filter (\<lambda>i. ri_status i = Superseded) (rr_items result));
          gaps = (if superseded \<noteq> [] then gaps @ [SupersededInResult superseded] else gaps)
      in rbind (rfold (critique_item X visible s) (rr_items result) gaps) (\<lambda>gaps.
         Inr \<lparr>cr_gaps = gaps,
              cr_watermark_age_ms = map_option (\<lambda>w. saturating_sub now_ms (wm_ingested_at_ms w)) (rr_watermark result),
              cr_completeness = (if gaps = [] then 0x3F800000 else f32_inverse_succ Q (length gaps))\<rparr>))"

definition critique_of :: "externals \<Rightarrow> query_env \<Rightarrow> recall_result \<Rightarrow> timestamp \<Rightarrow> critique reader" where
  "critique_of X Q result now_ms = critique_where X Q result now_ms (\<lambda>_. True)"

definition critique_readable ::
    "externals \<Rightarrow> query_env \<Rightarrow> recall_result \<Rightarrow> timestamp \<Rightarrow> (string \<Rightarrow> bool) \<Rightarrow> critique reader" where
  "critique_readable X Q result now_ms can_read =
     critique_where X Q result now_ms (\<lambda>far. case far of None \<Rightarrow> False | Some repo \<Rightarrow> can_read repo)"

end
