(* ===== verification/Cite.thy ===== *)
theory Cite
  imports Recall
begin

text \<open>
  Citations of corpus passages (\<^verbatim>\<open>crates/mem-corpus/src/cite.rs\<close>) and the characters of a UTF-8
  text, which the citations and the renderings of the server count. The Unicode tables for
  lower case and letters are the parameter \<open>U\<close>.
\<close>

section \<open>Characters\<close>

text \<open>The characters of a well-formed UTF-8 text, each as its bytes.\<close>

function utf8_chars :: "bytes \<Rightarrow> bytes list" where
  "utf8_chars [] = []"
| "utf8_chars (a # bs) = (a # takeWhile utf8_cont bs) # utf8_chars (dropWhile utf8_cont bs)"
  by pat_completeness auto
termination
  by (relation "measure length") (auto intro: le_imp_less_Suc simp: length_dropWhile_le)

definition chars_count :: "string \<Rightarrow> nat" where
  "chars_count s = length (utf8_chars (as_bytes s))"

definition chars_take :: "nat \<Rightarrow> string \<Rightarrow> string" where
  "chars_take k s = of_bytes (concat (take k (utf8_chars (as_bytes s))))"

lemma utf8_chars_concat: "concat (utf8_chars b) = b"
  by (induction b rule: utf8_chars.induct) auto

lemma chars_take_all: "chars_count s \<le> k \<Longrightarrow> chars_take k s = s"
  by (simp add: chars_take_def chars_count_def utf8_chars_concat)

section \<open>Citations\<close>

record unicode =
  uc_lowercase :: "string \<Rightarrow> string"
  uc_alphanumeric :: "bytes \<Rightarrow> bool"

definition BREADCRUMB_SEP :: string where
  "BREADCRUMB_SEP = '' '' @ of_bytes [0xE2, 0x80, 0xBA] @ '' ''"

definition is_whitespace :: "bytes \<Rightarrow> bool" where
  "is_whitespace c \<longleftrightarrow> c \<noteq> [] \<and> white_len c = length c"

definition slug_char :: "unicode \<Rightarrow> bytes \<Rightarrow> bytes" where
  "slug_char U c =
     (if \<not> (uc_alphanumeric U c \<or> is_whitespace c \<or> c = as_bytes ''_'' \<or> c = as_bytes ''-'') then []
      else if is_whitespace c then as_bytes ''-''
      else c)"

definition slug :: "unicode \<Rightarrow> string \<Rightarrow> string" where
  "slug U heading = of_bytes (concat (map (slug_char U) (utf8_chars (as_bytes (uc_lowercase U (trim heading))))))"

definition repo_relative :: "string \<Rightarrow> string \<Rightarrow> string" where
  "repo_relative prefix rel =
     (let p = dropWhile (\<lambda>c. c = CHR ''/'') (rev (dropWhile (\<lambda>c. c = CHR ''/'') (rev prefix)))
      in if p = [] then rel else p @ ''/'' @ rel)"

text \<open>\<^verbatim>\<open>rsplit_once\<close> with a string pattern: what stands before and after its last occurrence.\<close>

definition rsplit_once_str :: "string \<Rightarrow> string \<Rightarrow> (string \<times> string) option" where
  "rsplit_once_str pat s =
     map_option (\<lambda>i. (take i s, drop (i + length pat) s))
       (List.find (\<lambda>i. take (length pat) (drop i s) = pat) (rev [0..<length s + 1 - length pat]))"

definition section_anchor :: "unicode \<Rightarrow> bytes \<Rightarrow> string option" where
  "section_anchor U content =
     (if \<not> utf8_valid content then None
      else
        case lines content of
          [] \<Rightarrow> None
        | first # _ \<Rightarrow>
            Option.bind (rsplit_once_str BREADCRUMB_SEP (of_bytes first)) (\<lambda>(_, sec).
            let s = slug U sec in if s = [] then None else Some s))"

definition cite :: "unicode \<Rightarrow> source_ref \<Rightarrow> bytes \<Rightarrow> string option" where
  "cite U source content =
     (case source of
        Artifact repo path _ _ _ \<Rightarrow>
          Some (case section_anchor U content of
                  Some a \<Rightarrow> repo @ '':'' @ path @ ''#'' @ a
                | None \<Rightarrow> repo @ '':'' @ path)
      | _ \<Rightarrow> None)"

end
