(* ===== verification/Vector_Index.thy ===== *)
theory Vector_Index
  imports Shred
begin

text \<open>
  Vectors and the exact index (\<^verbatim>\<open>crates/mem-index/src/index.rs\<close>): the model and dimension guard,
  cosine scores, and the brute-force nearest-neighbour search. A 32-bit float is its bit
  pattern; comparisons are computed on the bits, the rounding operations of IEEE arithmetic and
  the behaviour of the standard library's sort on a comparison that is no total order are the
  parameter \<open>F\<close>. A panic is the value \<open>None\<close>.
\<close>

section \<open>Comparing floats\<close>

definition f32_negative :: "u32 \<Rightarrow> bool" where
  "f32_negative b \<longleftrightarrow> 2 ^ 31 \<le> unat b"

definition f32_key :: "u32 \<Rightarrow> int" where
  "f32_key b = (if f32_negative b then - int (f32_magnitude b) else int (f32_magnitude b))"

definition f32_gt :: "u32 \<Rightarrow> u32 \<Rightarrow> bool" where
  "f32_gt a b \<longleftrightarrow> \<not> f32_is_nan a \<and> \<not> f32_is_nan b \<and> f32_key b < f32_key a"

text \<open>\<^verbatim>\<open>f32::total_cmp\<close> compares these keys: the sign, then the magnitude, NaNs outermost.\<close>

definition total_key :: "u32 \<Rightarrow> int" where
  "total_key b = (if f32_negative b then - int (f32_magnitude b) - 1 else int (f32_magnitude b))"

lemma total_key_inject [simp]: "total_key a = total_key b \<longleftrightarrow> a = b"
proof
  assume eq: "total_key a = total_key b"
  have split: "unat w = (if f32_negative w then 2 ^ 31 else 0) + f32_magnitude w" for w :: u32
  proof (cases "f32_negative w")
    case True
    then have "unat w mod 2 ^ 31 = unat w - 2 ^ 31"
      using unat_bound [of w] by (subst le_mod_geq) (simp_all add: f32_negative_def)
    with True show ?thesis by (simp add: f32_magnitude_def f32_negative_def)
  qed (simp add: f32_magnitude_def f32_negative_def)
  from eq have "f32_negative a = f32_negative b" "f32_magnitude a = f32_magnitude b"
    by (auto simp: total_key_def split: if_splits)
  then have "unat a = unat b" by (simp add: split [of a] split [of b])
  then show "a = b" by (simp add: word_unat_eq_iff)
qed simp

section \<open>Data\<close>

datatype index_error = ModelMismatch string string | DimMismatch nat nat | NonFiniteVector

record neighbor =
  nb_id :: content_hash
  nb_score :: u32

text \<open>The rounding operations, the start value of \<^verbatim>\<open>Iterator::sum\<close>, what \<^verbatim>\<open>sort_by\<close> does when the
  comparison is not a total order (it may panic), and the level drawn from 64 uniform bits,
  \<open>floor (- ln ((x + 1) / (2 ^ 64 + 1)) / ln m)\<close> in double precision.\<close>

record f32_env =
  f32_add :: "u32 \<Rightarrow> u32 \<Rightarrow> u32"
  f32_mul :: "u32 \<Rightarrow> u32 \<Rightarrow> u32"
  f32_div :: "u32 \<Rightarrow> u32 \<Rightarrow> u32"
  f32_sqrt :: "u32 \<Rightarrow> u32"
  f32_of_nat :: "nat \<Rightarrow> u32"
  f32_sum_start :: u32
  sort_partial :: "neighbor list \<Rightarrow> neighbor list option"
  f64_level :: "nat \<Rightarrow> nat \<Rightarrow> nat"

definition f32_sum :: "f32_env \<Rightarrow> u32 list \<Rightarrow> u32" where
  "f32_sum F xs = fold (\<lambda>x acc. f32_add F acc x) xs (f32_sum_start F)"

definition dot :: "f32_env \<Rightarrow> u32 list \<Rightarrow> u32 list \<Rightarrow> u32" where
  "dot F a b = f32_sum F (map (\<lambda>(x, y). f32_mul F x y) (zip a b))"

definition norm_of :: "f32_env \<Rightarrow> u32 list \<Rightarrow> u32" where
  "norm_of F a = f32_sqrt F (f32_sum F (map (\<lambda>x. f32_mul F x x) a))"

definition cosine :: "f32_env \<Rightarrow> u32 list \<Rightarrow> u32 list \<Rightarrow> u32" where
  "cosine F a b =
     (let d = dot F a b; na = norm_of F a; nb = norm_of F b
      in if f32_eq na 0 \<or> f32_eq nb 0 then 0 else f32_div F d (f32_mul F na nb))"

definition normalized :: "f32_env \<Rightarrow> u32 list \<Rightarrow> u32 list" where
  "normalized F xs = (let n = norm_of F xs in if f32_gt n 0 then map (\<lambda>x. f32_div F x n) xs else xs)"

section \<open>The feature-hashing embedder\<close>

text \<open>\<^verbatim>\<open>HashingEmbedder\<close> of \<^verbatim>\<open>crates/mem-index/src/embed.rs\<close>. The lower-case alphanumeric tokens of a text depend on
  the Unicode tables and are the argument \<open>tokens\<close>.\<close>

datatype embed_error = Load string | Tokenize string | Inference string

fun embed_error_text :: "embed_error \<Rightarrow> string" where
  "embed_error_text (Load m) = ''embedder load failed: '' @ m"
| "embed_error_text (Tokenize m) = ''tokenization failed: '' @ m"
| "embed_error_text (Inference m) = ''embedding inference failed: '' @ m"

type_synonym embedder = "string \<Rightarrow> (embed_error, versioned_vector) result"

definition EMBED_DIM :: nat where "EMBED_DIM = 256"

definition hashing_model_id :: "nat \<Rightarrow> string" where
  "hashing_model_id dim = ''hashing-v1-d'' @ decimal dim"

definition hash_token :: "externals \<Rightarrow> f32_env \<Rightarrow> nat \<Rightarrow> string \<Rightarrow> u32 list \<Rightarrow> u32 list" where
  "hash_token X F dim tok data =
     (let b = hash_bytes (blake3 X (as_bytes tok));
          i = nat_of_le (take 8 b) mod dim;
          sign = (if even (unat (b ! 8)) then 0x3F800000 else 0xBF800000)
      in data[i := f32_add F (data ! i) sign])"

definition hashing_embed :: "externals \<Rightarrow> f32_env \<Rightarrow> (string \<Rightarrow> string list) \<Rightarrow> nat \<Rightarrow> embedder" where
  "hashing_embed X F tokens dim txt =
     Inr \<lparr>vv_model = hashing_model_id dim,
          vv_data = normalized F (fold (hash_token X F dim) (tokens txt) (replicate dim 0))\<rparr>"

section \<open>The exact index\<close>

record brute_force_index =
  bf_model :: "string option"
  bf_dim :: "nat option"
  bf_items :: "(content_hash \<times> u32 list) list"

definition bf_new :: brute_force_index where
  "bf_new = \<lparr>bf_model = None, bf_dim = None, bf_items = []\<rparr>"

text \<open>The model and dimension guard that both indexes have.\<close>

definition space_check :: "string option \<Rightarrow> nat option \<Rightarrow> versioned_vector \<Rightarrow> (index_error, unit) result" where
  "space_check model dim v =
     (if model \<noteq> None \<and> model \<noteq> Some (vv_model v) then Inl (ModelMismatch (the model) (vv_model v))
      else if dim \<noteq> None \<and> dim \<noteq> Some (length (vv_data v)) then Inl (DimMismatch (the dim) (length (vv_data v)))
      else Inr ())"

definition bf_check :: "brute_force_index \<Rightarrow> versioned_vector \<Rightarrow> (index_error, unit) result" where
  "bf_check ix v =
     (if \<not> list_all f32_finite (vv_data v) then Inl NonFiniteVector else space_check (bf_model ix) (bf_dim ix) v)"

definition get_or_insert :: "'a option \<Rightarrow> 'a \<Rightarrow> 'a option" where
  "get_or_insert cur v = (case cur of None \<Rightarrow> Some v | Some _ \<Rightarrow> cur)"

definition bf_add ::
    "content_hash \<Rightarrow> versioned_vector \<Rightarrow> (brute_force_index, index_error, unit) action" where
  "bf_add nid v ix =
     (case bf_check ix v of
        Inl e \<Rightarrow> (Inl e, ix)
      | Inr _ \<Rightarrow> (Inr (), ix\<lparr>bf_model := get_or_insert (bf_model ix) (vv_model v),
                             bf_dim := get_or_insert (bf_dim ix) (length (vv_data v)),
                             bf_items := bf_items ix @ [(nid, vv_data v)]\<rparr>))"

text \<open>The sort compares with \<^verbatim>\<open>partial_cmp\<close> and takes an incomparable pair as equal, which is a total
  order on scores other than NaN only.\<close>

definition sort_scores :: "f32_env \<Rightarrow> neighbor list \<Rightarrow> neighbor list option" where
  "sort_scores F nbs =
     (if list_ex (\<lambda>nb. f32_is_nan (nb_score nb)) nbs then sort_partial F nbs
      else Some (sort_key (\<lambda>nb. - f32_key (nb_score nb)) nbs))"

definition bf_search ::
    "f32_env \<Rightarrow> brute_force_index \<Rightarrow> versioned_vector \<Rightarrow> nat \<Rightarrow> (index_error, neighbor list) result option" where
  "bf_search F ix q k =
     (case bf_check ix q of
        Inl e \<Rightarrow> Some (Inl e)
      | Inr _ \<Rightarrow>
          map_option (\<lambda>scored. Inr (take k scored))
            (sort_scores F (map (\<lambda>(nid, v). \<lparr>nb_id = nid, nb_score = cosine F (vv_data q) v\<rparr>) (bf_items ix))))"

text \<open>An arithmetic to evaluate with: word arithmetic in place of rounding.\<close>

definition ideal_f32 :: f32_env where
  "ideal_f32 = \<lparr>f32_add = (+), f32_mul = (*), f32_div = (\<lambda>a _. a), f32_sqrt = id, f32_of_nat = of_nat, f32_sum_start = 0,
     sort_partial = Some, f64_level = (\<lambda>_ x. x mod 3)\<rparr>"

end
