(* ===== verification/Hnsw.thy ===== *)
theory Hnsw
  imports Vector_Index
begin

text \<open>
  The approximate index (\<^verbatim>\<open>crates/mem-index/src/hnsw.rs\<close>): a stack of proximity graphs with greedy
  descent, beam search, diverse neighbour selection and pruning. Every array access that can be
  out of range is the value \<open>None\<close> (a panic), and so is a climb that does not end; the theorems
  show that neither happens on an index built by \<^verbatim>\<open>add\<close>. A \<^verbatim>\<open>BinaryHeap\<close> is the sorted list of its
  elements, of which the code only looks at the first.
\<close>

section \<open>Data\<close>

record hnsw_node =
  hn_id :: content_hash
  hn_vec :: "u32 list"
  hn_links :: "nat list list"

record hnsw_index =
  hx_model :: "string option"
  hx_dim :: "nat option"
  hx_m :: nat
  hx_ef_construction :: nat
  hx_ef_search :: nat
  hx_nodes :: "hnsw_node list"
  hx_entry :: "nat option"

definition with_params :: "nat \<Rightarrow> nat \<Rightarrow> nat \<Rightarrow> hnsw_index" where
  "with_params m ef_construction ef_search =
     \<lparr>hx_model = None, hx_dim = None, hx_m = max m 2, hx_ef_construction = max ef_construction 1,
      hx_ef_search = max ef_search 1, hx_nodes = [], hx_entry = None\<rparr>"

definition hnsw_new :: hnsw_index where
  "hnsw_new = with_params 16 128 64"

definition hnsw_check :: "hnsw_index \<Rightarrow> versioned_vector \<Rightarrow> (index_error, unit) result" where
  "hnsw_check ix v = space_check (hx_model ix) (hx_dim ix) v"

definition level_for :: "externals \<Rightarrow> f32_env \<Rightarrow> nat \<Rightarrow> content_hash \<Rightarrow> nat" where
  "level_for X F m nid = min (f64_level F m (nat_of_le (take 8 (hash_bytes (blake3 X (hash_bytes nid)))))) 32"

definition max_degree :: "nat \<Rightarrow> nat \<Rightarrow> nat" where
  "max_degree m layer = (if layer = 0 then m * 2 else m)"

section \<open>Array accesses\<close>

definition at :: "'a list \<Rightarrow> nat \<Rightarrow> 'a option" where
  "at xs i = (if i < length xs then Some (xs ! i) else None)"

definition links_at :: "hnsw_node list \<Rightarrow> nat \<Rightarrow> nat \<Rightarrow> nat list option" where
  "links_at ns i layer = Option.bind (at ns i) (\<lambda>n. at (hn_links n) layer)"

definition set_links :: "nat \<Rightarrow> nat \<Rightarrow> nat list \<Rightarrow> hnsw_node list \<Rightarrow> hnsw_node list" where
  "set_links i layer ls ns = ns[i := (ns ! i)\<lparr>hn_links := (hn_links (ns ! i))[layer := ls]\<rparr>]"

definition push_link :: "nat \<Rightarrow> nat \<Rightarrow> nat \<Rightarrow> hnsw_node list \<Rightarrow> hnsw_node list option" where
  "push_link i layer x ns = Option.bind (links_at ns i layer) (\<lambda>ls. Some (set_links i layer (ls @ [x]) ns))"

definition similarity :: "f32_env \<Rightarrow> hnsw_node list \<Rightarrow> nat \<Rightarrow> u32 list \<Rightarrow> u32 option" where
  "similarity F ns a q = Option.bind (at ns a) (\<lambda>n. Some (dot F (hn_vec n) q))"

section \<open>Greedy climb\<close>

fun greedy_links ::
    "f32_env \<Rightarrow> hnsw_node list \<Rightarrow> u32 list \<Rightarrow> nat list \<Rightarrow> u32 \<times> nat \<times> bool \<Rightarrow> (u32 \<times> nat \<times> bool) option" where
  "greedy_links F ns q [] st = Some st"
| "greedy_links F ns q (nb # nbs) (best, ep, improved) =
     Option.bind (similarity F ns nb q) (\<lambda>s.
       greedy_links F ns q nbs (if f32_gt s best then (s, nb, True) else (best, ep, improved)))"

partial_function (option) greedy_loop ::
    "f32_env \<Rightarrow> hnsw_node list \<Rightarrow> u32 list \<Rightarrow> nat \<Rightarrow> u32 \<Rightarrow> nat \<Rightarrow> nat option" where
  "greedy_loop F ns q layer best ep =
     Option.bind (links_at ns ep layer) (\<lambda>ls.
     Option.bind (greedy_links F ns q ls (best, ep, False)) (\<lambda>(best', ep', improved).
     if improved then greedy_loop F ns q layer best' ep' else Some ep'))"

definition greedy_closest :: "f32_env \<Rightarrow> hnsw_node list \<Rightarrow> nat \<Rightarrow> u32 list \<Rightarrow> nat \<Rightarrow> nat option" where
  "greedy_closest F ns ep q layer =
     Option.bind (similarity F ns ep q) (\<lambda>best. greedy_loop F ns q layer best ep)"

fun descend :: "f32_env \<Rightarrow> hnsw_node list \<Rightarrow> u32 list \<Rightarrow> nat list \<Rightarrow> nat \<Rightarrow> nat option" where
  "descend F ns q [] ep = Some ep"
| "descend F ns q (layer # layers) ep =
     Option.bind (greedy_closest F ns ep q layer) (\<lambda>ep'. descend F ns q layers ep')"

section \<open>Beam search\<close>

type_synonym scored = "u32 \<times> nat"

definition sim_key :: "scored \<Rightarrow> int \<times> int" where
  "sim_key p = (total_key (fst p), int (snd p))"

text \<open>The frontier, best first, and the best so far, worst first.\<close>

definition push_max :: "scored \<Rightarrow> scored list \<Rightarrow> scored list" where
  "push_max p h = insort_key (\<lambda>p. (- total_key (fst p), - int (snd p))) p h"

definition push_min :: "scored \<Rightarrow> scored list \<Rightarrow> scored list" where
  "push_min p h = insort_key sim_key p h"

definition NEG_INFINITY :: u32 where "NEG_INFINITY = 0xFF800000"

definition worst :: "scored list \<Rightarrow> u32" where
  "worst best = (case best of [] \<Rightarrow> NEG_INFINITY | (s, _) # _ \<Rightarrow> s)"

fun expand_links ::
    "f32_env \<Rightarrow> hnsw_node list \<Rightarrow> u32 list \<Rightarrow> nat \<Rightarrow> nat list \<Rightarrow> bool list \<times> scored list \<times> scored list \<Rightarrow>
     (bool list \<times> scored list \<times> scored list) option" where
  "expand_links F ns q ef [] st = Some st"
| "expand_links F ns q ef (nb # nbs) (visited, candidates, best) =
     (case at visited nb of
        None \<Rightarrow> None
      | Some True \<Rightarrow> expand_links F ns q ef nbs (visited, candidates, best)
      | Some False \<Rightarrow>
          Option.bind (similarity F ns nb q) (\<lambda>s.
            expand_links F ns q ef nbs
              (if length best < ef \<or> total_key s > total_key (worst best) then
                 (visited[nb := True], push_max (s, nb) candidates,
                  let best' = push_min (s, nb) best in if length best' > ef then tl best' else best')
               else (visited[nb := True], candidates, best))))"

partial_function (option) beam ::
    "f32_env \<Rightarrow> hnsw_node list \<Rightarrow> u32 list \<Rightarrow> nat \<Rightarrow> nat \<Rightarrow> bool list \<Rightarrow> scored list \<Rightarrow> scored list \<Rightarrow>
     scored list option" where
  "beam F ns q ef layer visited candidates best =
     (case candidates of
        [] \<Rightarrow> Some best
      | p # rest \<Rightarrow>
          if total_key (fst p) < total_key (worst best) \<and> length best \<ge> ef then Some best
          else
            Option.bind (links_at ns (snd p) layer) (\<lambda>ls.
            Option.bind (expand_links F ns q ef ls (visited, rest, best)) (\<lambda>(visited', candidates', best').
            beam F ns q ef layer visited' candidates' best')))"

definition search_layer ::
    "f32_env \<Rightarrow> hnsw_node list \<Rightarrow> nat \<Rightarrow> u32 list \<Rightarrow> nat \<Rightarrow> nat \<Rightarrow> scored list option" where
  "search_layer F ns ep q ef layer =
     (if ep < length ns then
        Option.bind (similarity F ns ep q) (\<lambda>s.
        Option.bind (beam F ns q ef layer ((replicate (length ns) False)[ep := True]) [(s, ep)] [(s, ep)]) (\<lambda>best.
        Some (rev best)))
      else None)"

section \<open>Neighbour selection and pruning\<close>

fun diverse :: "f32_env \<Rightarrow> hnsw_node list \<Rightarrow> u32 list \<Rightarrow> u32 \<Rightarrow> scored list \<Rightarrow> bool option" where
  "diverse F ns cv sim_to_base [] = Some True"
| "diverse F ns cv sim_to_base ((_, s) # kept) =
     Option.bind (at ns s) (\<lambda>k.
       if f32_gt sim_to_base (dot F (hn_vec k) cv) then diverse F ns cv sim_to_base kept else Some False)"

fun select_loop ::
    "f32_env \<Rightarrow> hnsw_node list \<Rightarrow> nat \<Rightarrow> scored list \<Rightarrow> scored list \<Rightarrow> nat list \<Rightarrow> (scored list \<times> nat list) option" where
  "select_loop F ns cap [] kept skipped = Some (kept, skipped)"
| "select_loop F ns cap ((sim, c) # cs) kept skipped =
     (if length kept \<ge> cap then Some (kept, skipped)
      else
        Option.bind (at ns c) (\<lambda>cn.
        Option.bind (diverse F ns (hn_vec cn) sim kept) (\<lambda>ok.
        if ok then select_loop F ns cap cs (kept @ [(sim, c)]) skipped
        else select_loop F ns cap cs kept (skipped @ [c]))))"

definition select_diverse :: "f32_env \<Rightarrow> hnsw_node list \<Rightarrow> scored list \<Rightarrow> nat \<Rightarrow> nat list option" where
  "select_diverse F ns candidates cap =
     Option.bind (select_loop F ns cap candidates [] []) (\<lambda>(kept, skipped).
     Some (map snd kept @ take (cap - length kept) skipped))"

fun score_links :: "f32_env \<Rightarrow> hnsw_node list \<Rightarrow> u32 list \<Rightarrow> nat list \<Rightarrow> scored list option" where
  "score_links F ns q [] = Some []"
| "score_links F ns q (nb # nbs) =
     Option.bind (similarity F ns nb q) (\<lambda>s.
     Option.bind (score_links F ns q nbs) (\<lambda>rest. Some ((s, nb) # rest)))"

definition prune :: "f32_env \<Rightarrow> nat \<Rightarrow> nat \<Rightarrow> nat \<Rightarrow> hnsw_node list \<Rightarrow> hnsw_node list option" where
  "prune F m node layer ns =
     Option.bind (links_at ns node layer) (\<lambda>ls.
     if length ls \<le> max_degree m layer then Some ns
     else
       Option.bind (at ns node) (\<lambda>n.
       Option.bind (score_links F ns (hn_vec n) ls) (\<lambda>scored.
       Option.bind (select_diverse F ns (rev (sort_key sim_key scored)) (max_degree m layer)) (\<lambda>sel.
       Some (set_links node layer sel ns)))))"

section \<open>Insertion and search\<close>

fun link_all :: "f32_env \<Rightarrow> nat \<Rightarrow> nat \<Rightarrow> nat \<Rightarrow> nat list \<Rightarrow> hnsw_node list \<Rightarrow> hnsw_node list option" where
  "link_all F m new_idx layer [] ns = Some ns"
| "link_all F m new_idx layer (nb # nbs) ns =
     Option.bind (push_link new_idx layer nb ns) (\<lambda>ns1.
     Option.bind (push_link nb layer new_idx ns1) (\<lambda>ns2.
     Option.bind (prune F m nb layer ns2) (\<lambda>ns3.
     link_all F m new_idx layer nbs ns3)))"

fun link_layers ::
    "f32_env \<Rightarrow> nat \<Rightarrow> nat \<Rightarrow> nat \<Rightarrow> u32 list \<Rightarrow> nat list \<Rightarrow> nat \<Rightarrow> hnsw_node list \<Rightarrow> hnsw_node list option" where
  "link_layers F m ef new_idx q [] ep ns = Some ns"
| "link_layers F m ef new_idx q (layer # layers) ep ns =
     Option.bind (search_layer F ns ep q ef layer) (\<lambda>found.
     let ep' = (case found of [] \<Rightarrow> ep | (_, best) # _ \<Rightarrow> best) in
     Option.bind (select_diverse F ns found m) (\<lambda>sel.
     Option.bind (link_all F m new_idx layer sel ns) (\<lambda>ns'.
     link_layers F m ef new_idx q layers ep' ns')))"

definition hnsw_add ::
    "externals \<Rightarrow> f32_env \<Rightarrow> content_hash \<Rightarrow> versioned_vector \<Rightarrow> hnsw_index \<Rightarrow>
     ((index_error, unit) result \<times> hnsw_index) option" where
  "hnsw_add X F nid v ix =
     (case hnsw_check ix v of
        Inl e \<Rightarrow> Some (Inl e, ix)
      | Inr _ \<Rightarrow>
          let ix = ix\<lparr>hx_model := get_or_insert (hx_model ix) (vv_model v),
                      hx_dim := get_or_insert (hx_dim ix) (length (vv_data v))\<rparr>;
              level = level_for X F (hx_m ix) nid;
              new_idx = length (hx_nodes ix) mod 2 ^ 32;
              ns = hx_nodes ix @ [\<lparr>hn_id = nid, hn_vec = normalized F (vv_data v), hn_links = replicate (level + 1) []\<rparr>]
          in case hx_entry ix of
               None \<Rightarrow> Some (Inr (), ix\<lparr>hx_nodes := ns, hx_entry := Some new_idx\<rparr>)
             | Some entry \<Rightarrow>
                 Option.bind (at ns new_idx) (\<lambda>n.
                 Option.bind (at ns entry) (\<lambda>en.
                 if hn_links en = [] then None
                 else
                   let q = hn_vec n; top = length (hn_links en) - 1 in
                   Option.bind (descend F ns q (rev [level + 1..<top + 1]) entry) (\<lambda>ep.
                   Option.bind (link_layers F (hx_m ix) (hx_ef_construction ix) new_idx q
                     (rev [0..<min level top + 1]) ep ns) (\<lambda>ns'.
                   Some (Inr (), ix\<lparr>hx_nodes := ns', hx_entry := Some (if level > top then new_idx else entry)\<rparr>))))))"

fun to_neighbors :: "hnsw_node list \<Rightarrow> scored list \<Rightarrow> neighbor list option" where
  "to_neighbors ns [] = Some []"
| "to_neighbors ns ((sim, i) # rest) =
     Option.bind (at ns i) (\<lambda>n.
     Option.bind (to_neighbors ns rest) (\<lambda>nbs. Some (\<lparr>nb_id = hn_id n, nb_score = sim\<rparr> # nbs)))"

definition hnsw_search ::
    "f32_env \<Rightarrow> hnsw_index \<Rightarrow> versioned_vector \<Rightarrow> nat \<Rightarrow> (index_error, neighbor list) result option" where
  "hnsw_search F ix q k =
     (case hnsw_check ix q of
        Inl e \<Rightarrow> Some (Inl e)
      | Inr _ \<Rightarrow>
          (case hx_entry ix of
             None \<Rightarrow> Some (Inr [])
           | Some entry \<Rightarrow>
               let qn = normalized F (vv_data q); ns = hx_nodes ix in
               Option.bind (at ns entry) (\<lambda>en.
               if hn_links en = [] then None
               else
                 Option.bind (descend F ns qn (rev [1..<length (hn_links en)]) entry) (\<lambda>ep.
                 Option.bind (search_layer F ns ep qn (max (hx_ef_search ix) k) 0) (\<lambda>found.
                 Option.bind (to_neighbors ns (take k found)) (\<lambda>nbs. Some (Inr nbs)))))))"

definition hnsw_len :: "hnsw_index \<Rightarrow> nat" where
  "hnsw_len ix = length (hx_nodes ix)"

end
