(* ===== verification/Search.thy ===== *)
theory Search
  imports Recall Hnsw
begin

text \<open>
  Semantic search and cross-tenant analogy (\<^verbatim>\<open>crates/mem-query/src/lib.rs\<close>): search over the exact
  index of one query, search over the shared cache of approximate indexes, and the
  coarse-to-fine analogy ranking. The embedder is an argument, as the trait object of the code
  is. A panic is the value \<open>None\<close>.
\<close>

section \<open>Data\<close>

record cached_tenant_index =
  ci_watermark :: "watermark option"
  ci_node_count :: nat
  ci_tenant_total :: nat
  ci_index :: hnsw_index

record tenant_index_cache =
  tc_entries :: "string \<rightharpoonup> cached_tenant_index"
  tc_poisoned :: bool
  tc_builds :: u64
  tc_hits :: u64

definition new_cache :: tenant_index_cache where
  "new_cache = \<lparr>tc_entries = Map.empty, tc_poisoned = False, tc_builds = 0, tc_hits = 0\<rparr>"

record analogy_candidate =
  an_item :: recall_item
  an_cosine :: u32
  an_structural :: u32
  an_score :: u32

definition ANALOGY_COSINE_WEIGHT :: u32 where "ANALOGY_COSINE_WEIGHT = 0x3F333333"
definition ANALOGY_STRUCTURAL_WEIGHT :: u32 where "ANALOGY_STRUCTURAL_WEIGHT = 0x3E99999A"
definition ANALOGY_SHORTLIST_FACTOR :: nat where "ANALOGY_SHORTLIST_FACTOR = 4"

section \<open>The index cache\<close>

text \<open>The lock is held across the build, so a build that panics poisons it.\<close>

definition get_or_build ::
    "string \<Rightarrow> watermark option \<Rightarrow> nat \<Rightarrow> (store_error, hnsw_index \<times> nat) result option \<Rightarrow> tenant_index_cache \<Rightarrow>
     (store_error, hnsw_index \<times> nat) result option \<times> tenant_index_cache" where
  "get_or_build repo watermark count build c =
     (if tc_poisoned c then (Some (Inl (Backend ''tenant index cache poisoned'')), c)
      else
        let fresh = (case build of
                None \<Rightarrow> (None, c\<lparr>tc_poisoned := True\<rparr>)
              | Some (Inl e) \<Rightarrow> (Some (Inl e), c)
              | Some (Inr (index, tenant_total)) \<Rightarrow>
                  (Some (Inr (index, tenant_total)),
                   c\<lparr>tc_builds := tc_builds c + 1,
                     tc_entries := (tc_entries c)(repo \<mapsto> \<lparr>ci_watermark = watermark, ci_node_count = count,
                       ci_tenant_total = tenant_total, ci_index = index\<rparr>)\<rparr>))
        in case tc_entries c repo of
             None \<Rightarrow> fresh
           | Some e \<Rightarrow>
               if ci_watermark e = watermark \<and> ci_node_count e = count
               then (Some (Inr (ci_index e, ci_tenant_total e)), c\<lparr>tc_hits := tc_hits c + 1\<rparr>)
               else fresh)"

section \<open>Search\<close>

text \<open>The exact index of the tenant's embedded nodes, and the nodes it accepted.\<close>

definition index_node ::
    "externals \<Rightarrow> memory_node \<Rightarrow> brute_force_index \<times> (content_hash \<rightharpoonup> memory_node) \<Rightarrow>
     brute_force_index \<times> (content_hash \<rightharpoonup> memory_node)" where
  "index_node X n = (\<lambda>(index, by_id).
     case n_embedding n of
       None \<Rightarrow> (index, by_id)
     | Some v \<Rightarrow>
         (case bf_add (node_id X n) v index of
            (Inl _, index') \<Rightarrow> (index', by_id)
          | (Inr _, index') \<Rightarrow> (index', by_id(node_id X n \<mapsto> n))))"

definition unwrap_hits :: "(index_error, neighbor list) result \<Rightarrow> neighbor list" where
  "unwrap_hits r = (case r of Inl _ \<Rightarrow> [] | Inr hits \<Rightarrow> hits)"

definition search_exact ::
    "externals \<Rightarrow> query_env \<Rightarrow> f32_env \<Rightarrow> embedder \<Rightarrow> recall \<Rightarrow> string \<Rightarrow> string \<Rightarrow> nat \<Rightarrow> dag_store \<Rightarrow>
     (store_error, recall_result) result option" where
  "search_exact X Q F emb q repo query budget s =
     (case tenant_scan X Q q repo s of
        Inl e \<Rightarrow> Some (Inl e)
      | Inr (nodes, in_flight) \<Rightarrow>
          (case fold (index_node X) nodes (bf_new, Map.empty) of
             (index, by_id) \<Rightarrow>
               (case emb query of
                  Inl e \<Rightarrow> Some (Inl (Backend (embed_error_text e)))
                | Inr qv \<Rightarrow>
                    Option.bind (bf_search F index qv budget) (\<lambda>r.
                    Some (Inr \<lparr>rr_repo = repo, rr_watermark = watermark_of X Q repo s, rr_total_in_tenant = length nodes,
                      rr_items = List.map_filter (\<lambda>nb. map_option (\<lambda>n.
                        (from_node X n (Some (nb_score nb)))\<lparr>ri_in_flight_branch := in_flight (nb_id nb)\<rparr>) (by_id (nb_id nb)))
                        (unwrap_hits r)\<rparr>)))))"

text \<open>The approximate index of the tenant's embedded nodes; a rejected vector is skipped.\<close>

fun build_hnsw :: "externals \<Rightarrow> f32_env \<Rightarrow> memory_node list \<Rightarrow> hnsw_index \<Rightarrow> hnsw_index option" where
  "build_hnsw X F [] index = Some index"
| "build_hnsw X F (n # ns) index =
     (case n_embedding n of
        None \<Rightarrow> build_hnsw X F ns index
      | Some v \<Rightarrow> Option.bind (hnsw_add X F (node_id X n) v index) (\<lambda>(_, index'). build_hnsw X F ns index'))"

definition build_tenant_index ::
    "externals \<Rightarrow> query_env \<Rightarrow> f32_env \<Rightarrow> recall \<Rightarrow> string \<Rightarrow> dag_store \<Rightarrow> (store_error, hnsw_index \<times> nat) result option" where
  "build_tenant_index X Q F q repo s =
     (case tenant_nodes X Q q repo s of
        Inl e \<Rightarrow> Some (Inl e)
      | Inr nodes \<Rightarrow> Option.bind (build_hnsw X F nodes hnsw_new) (\<lambda>index. Some (Inr (index, length nodes))))"

definition resolve_hit :: "externals \<Rightarrow> dag_store \<Rightarrow> neighbor \<Rightarrow> recall_item list \<Rightarrow> (store_error, recall_item list) result" where
  "resolve_hit X s nb items =
     rbind (get_node X (nb_id nb) s) (\<lambda>found.
     Inr (case found of None \<Rightarrow> items | Some n \<Rightarrow> items @ [from_node X n (Some (nb_score nb))]))"

definition search_cached ::
    "externals \<Rightarrow> query_env \<Rightarrow> f32_env \<Rightarrow> embedder \<Rightarrow> recall \<Rightarrow> string \<Rightarrow> string \<Rightarrow> nat \<Rightarrow> dag_store \<Rightarrow> tenant_index_cache \<Rightarrow>
     (store_error, recall_result) result option \<times> tenant_index_cache" where
  "search_cached X Q F emb q repo query budget s c =
     (let watermark = watermark_of X Q repo s in
      case node_count s of
        Inl e \<Rightarrow> (Some (Inl e), c)
      | Inr count \<Rightarrow>
          (case get_or_build repo watermark count (build_tenant_index X Q F q repo s) c of
             (None, c') \<Rightarrow> (None, c')
           | (Some (Inl e), c') \<Rightarrow> (Some (Inl e), c')
           | (Some (Inr (index, tenant_total)), c') \<Rightarrow>
               (case emb query of
                  Inl e \<Rightarrow> (Some (Inl (Backend (embed_error_text e))), c')
                | Inr qv \<Rightarrow>
                    (Option.bind (hnsw_search F index qv budget) (\<lambda>r.
                       Some (rbind (rfold (resolve_hit X s) (unwrap_hits r) []) (\<lambda>items.
                       Inr \<lparr>rr_repo = repo, rr_watermark = watermark, rr_total_in_tenant = tenant_total, rr_items = items\<rparr>))),
                     c'))))"

definition search ::
    "externals \<Rightarrow> query_env \<Rightarrow> f32_env \<Rightarrow> embedder \<Rightarrow> recall \<Rightarrow> string \<Rightarrow> string \<Rightarrow> nat \<Rightarrow> dag_store \<Rightarrow> tenant_index_cache option \<Rightarrow>
     (store_error, recall_result) result option \<times> tenant_index_cache option" where
  "search X Q F emb q repo query budget s cache =
     (case cache of
        None \<Rightarrow> (search_exact X Q F emb q repo query budget s, None)
      | Some c \<Rightarrow>
          if rc_include_in_flight q then (search_exact X Q F emb q repo query budget s, Some c)
          else (case search_cached X Q F emb q repo query budget s c of (r, c') \<Rightarrow> (r, Some c')))"

section \<open>Analogy\<close>

text \<open>The keys a signature can have: a direction and a kind tag.\<close>

definition signature_keys :: "(u8 \<times> u8) list" where
  "signature_keys = List.product [0, 1] (map of_nat [0..<256])"

definition signature_overlap :: "f32_env \<Rightarrow> (u8 \<times> u8 \<Rightarrow> nat) \<Rightarrow> (u8 \<times> u8 \<Rightarrow> nat) \<Rightarrow> u32" where
  "signature_overlap F a b =
     (let inter = sum_list (map (\<lambda>k. min (a k) (b k)) signature_keys);
          union = sum_list (map (\<lambda>k. max (a k) (b k)) signature_keys)
      in if union = 0 then 0 else f32_div F (f32_of_nat F inter) (f32_of_nat F union))"

definition coarse_score ::
    "f32_env \<Rightarrow> memory_node \<Rightarrow> versioned_vector \<Rightarrow> u32 \<Rightarrow> string list \<Rightarrow> memory_node \<Rightarrow> (u32 \<times> memory_node) option" where
  "coarse_score F anchor anchor_vec anchor_norm candidate_repos n =
     (if n_repo n = n_repo anchor \<or> n_repo n \<notin> set candidate_repos \<or> is_reference n then None
      else
        case n_embedding n of
          None \<Rightarrow> None
        | Some v \<Rightarrow>
            if vv_model v \<noteq> vv_model anchor_vec then None
            else
              let d = dot F (vv_data v) (vv_data anchor_vec); norm = norm_of F (vv_data v)
              in if f32_eq norm 0 then None else Some (f32_div F d (f32_mul F norm anchor_norm), n))"

definition fine_score ::
    "externals \<Rightarrow> f32_env \<Rightarrow> (u8 \<times> u8 \<Rightarrow> nat) \<Rightarrow> dag_store \<Rightarrow> u32 \<times> memory_node \<Rightarrow> analogy_candidate list \<Rightarrow>
     (store_error, analogy_candidate list) result" where
  "fine_score X F anchor_sig s = (\<lambda>(cos, n) out.
     rbind (edge_signature X (node_id X n) s) (\<lambda>sig.
     let structural = signature_overlap F anchor_sig sig
     in Inr (out @ [\<lparr>an_item = from_node X n None, an_cosine = cos, an_structural = structural,
          an_score = f32_add F (f32_mul F ANALOGY_COSINE_WEIGHT cos) (f32_mul F ANALOGY_STRUCTURAL_WEIGHT structural)\<rparr>])))"

definition analogies ::
    "externals \<Rightarrow> f32_env \<Rightarrow> content_hash \<Rightarrow> string list \<Rightarrow> nat \<Rightarrow> analogy_candidate list reader" where
  "analogies X F anchor_id candidate_repos budget s =
     rbind (get_node X anchor_id s) (\<lambda>found.
     case found of
       None \<Rightarrow> Inl (Backend ''analogy anchor not in store'')
     | Some anchor \<Rightarrow>
         (case n_embedding anchor of
            None \<Rightarrow> Inr []
          | Some anchor_vec \<Rightarrow>
              let anchor_norm = norm_of F (vv_data anchor_vec) in
              if f32_eq anchor_norm 0 then Inr []
              else
                rbind (all_nodes X s) (\<lambda>all.
                let shortlist = take (max (budget * ANALOGY_SHORTLIST_FACTOR mod 2 ^ 64) budget)
                      (sort_key (\<lambda>(c, n). (- total_key c, hash_bytes (node_id X n)))
                        (List.map_filter (coarse_score F anchor anchor_vec anchor_norm candidate_repos) all))
                in rbind (edge_signature X anchor_id s) (\<lambda>anchor_sig.
                   rbind (rfold (fine_score X F anchor_sig s) shortlist []) (\<lambda>out.
                   Inr (take budget (sort_key (\<lambda>c. (- total_key (an_score c), hash_bytes (ri_id (an_item c)))) out)))))))"

end
