(* ===== verification/Audit_Log.thy ===== *)
theory Audit_Log
  imports Shred Ideal
begin

text \<open>
  The tamper-evident audit log (\<^verbatim>\<open>crates/mem-authz/src/audit.rs\<close>): the hash chain in memory, the
  append-only log and the head file on disk, opening with the full re-walk, and appending
  with the record durable before it is visible. The disk is the content of the two files;
  every file-system call may fail, which one does is the argument \<open>io\<close>, and a failing write
  of the log line may leave a part of it behind. The advisory lock is one of those calls.
\<close>

section \<open>Data\<close>

datatype memory_event = EvRead | EvWrite | EvDenied

record audit_record =
  ar_sequence :: u64
  ar_timestamp_ms :: u64
  ar_prev_hash :: content_hash
  ar_event :: memory_event
  ar_actor :: string
  ar_resource_id :: string
  ar_detail :: string

datatype audit_error = Io string | Corrupt string | Truncated u64 u64 | Locked string

record head =
  hd_len :: u64
  hd_last_hash :: string

text \<open>The in-memory chain; \<open>ac_sink\<close> tells whether it writes through to disk.\<close>

record audit_chain =
  ac_records :: "audit_record list"
  ac_last_hash :: content_hash
  ac_next_seq :: u64
  ac_sink :: bool

text \<open>The two files of a persistent chain.\<close>

record audit_fs =
  fs_log :: "bytes option"
  fs_head :: "bytes option"

text \<open>The file-system calls the code makes, and which of them fail with what message.\<close>

datatype io_step =
    CreateDir | CreateLog | LockLog | OpenRead | ReadLine | ReadHead | OpenAppend
  | LogWrite | LogSync | HeadCreate | HeadWrite | HeadSync | HeadRename

record io_env =
  io_fail :: "io_step \<Rightarrow> string option"
  io_torn :: nat

text \<open>\<^verbatim>\<open>serde_json\<close> on the two stored types.\<close>

record audit_codec =
  record_to_json :: "audit_record \<Rightarrow> (string, bytes) result"
  record_from_json :: "bytes \<Rightarrow> (string, audit_record) result"
  head_to_json :: "head \<Rightarrow> (string, bytes) result"
  head_from_json :: "bytes \<Rightarrow> (string, head) result"

section \<open>Operations\<close>

definition io_call :: "io_env \<Rightarrow> io_step \<Rightarrow> ('s, audit_error, unit) action" where
  "io_call io st = (case io_fail io st of None \<Rightarrow> sok () | Some m \<Rightarrow> serr (Io m))"

definition lock_log_exclusive :: "io_env \<Rightarrow> ('s, audit_error, unit) action" where
  "lock_log_exclusive io = (case io_fail io LockLog of None \<Rightarrow> sok () | Some m \<Rightarrow> serr (Locked m))"

definition hash_feed :: "bytes \<Rightarrow> u8 \<Rightarrow> bytes \<Rightarrow> bytes" where
  "hash_feed h tag b = h @ [tag] @ nat_le 8 (length b) @ b"

fun event_debug :: "memory_event \<Rightarrow> string" where
  "event_debug EvRead = ''Read''"
| "event_debug EvWrite = ''Write''"
| "event_debug EvDenied = ''Denied''"

definition record_hash :: "externals \<Rightarrow> audit_record \<Rightarrow> content_hash" where
  "record_hash X r =
     (let h = hash_feed [] 0 (as_bytes ''mem-authz:audit:v1'');
          h = hash_feed h 1 (u64_le (ar_sequence r));
          h = hash_feed h 2 (u64_le (ar_timestamp_ms r));
          h = hash_feed h 3 (hash_bytes (ar_prev_hash r));
          h = hash_feed h 4 (as_bytes (event_debug (ar_event r)));
          h = hash_feed h 5 (as_bytes (ar_actor r));
          h = hash_feed h 6 (as_bytes (ar_resource_id r));
          h = hash_feed h 7 (as_bytes (ar_detail r))
      in blake3 X h)"

definition write_head ::
    "externals \<Rightarrow> audit_codec \<Rightarrow> io_env \<Rightarrow> u64 \<Rightarrow> content_hash \<Rightarrow> (audit_fs, audit_error, unit) action" where
  "write_head X C io len last_hash =
     sbind (slift (map_err (\<lambda>e. Corrupt (''head serialize: '' @ e))
        (head_to_json C \<lparr>hd_len = len, hd_last_hash = hex_encode X (hash_bytes last_hash)\<rparr>))) (\<lambda>payload.
     sbind (io_call io HeadCreate) (\<lambda>_.
     sbind (io_call io HeadWrite) (\<lambda>_.
     sbind (io_call io HeadSync) (\<lambda>_.
     sbind (io_call io HeadRename) (\<lambda>_ fs.
     sok () (fs\<lparr>fs_head := Some payload\<rparr>))))))"

definition new_chain :: audit_chain where
  "new_chain = \<lparr>ac_records = [], ac_last_hash = 0, ac_next_seq = 0, ac_sink = False\<rparr>"

text \<open>The load loop: records so far, the hash after each, the expected link.\<close>

type_synonym load_state = "audit_record list \<times> content_hash list \<times> content_hash"

definition load_record ::
    "externals \<Rightarrow> nat \<Rightarrow> audit_record \<Rightarrow> load_state \<Rightarrow> (audit_error, load_state) result" where
  "load_record X i r = (\<lambda>(recs, hash_after, expected_prev).
     if ar_sequence r \<noteq> of_nat (length recs) then
       Inl (Corrupt (''sequence break at record '' @ decimal i @ '': expected '' @ decimal (length recs) @
         '', found '' @ decimal (unat (ar_sequence r))))
     else if ar_prev_hash r \<noteq> expected_prev then
       Inl (Corrupt (''prev_hash break at sequence '' @ decimal (unat (ar_sequence r))))
     else Inr (recs @ [r], hash_after @ [record_hash X r], record_hash X r))"

fun load :: "externals \<Rightarrow> audit_codec \<Rightarrow> nat \<Rightarrow> bytes list \<Rightarrow> load_state \<Rightarrow> (audit_error, load_state) result" where
  "load X C i [] st = Inr st"
| "load X C i (line # ls) st =
     (if \<not> utf8_valid line then Inl (Io ''stream did not contain valid UTF-8'')
      else if all_white line then load X C (Suc i) ls st
      else
        rbind (map_err (\<lambda>e. Corrupt (''record '' @ decimal i @ '' unparseable: '' @ e)) (record_from_json C line)) (\<lambda>r.
        rbind (load_record X i r st) (load X C (Suc i) ls)))"

definition em_dash :: string where
  "em_dash = of_bytes [0xE2, 0x80, 0x94]"

definition open_fresh :: "externals \<Rightarrow> audit_codec \<Rightarrow> io_env \<Rightarrow> (audit_fs, audit_error, audit_chain) action" where
  "open_fresh X C io =
     sbind (io_call io CreateDir) (\<lambda>_.
     sbind (io_call io CreateLog) (\<lambda>_ fs.
     sbind (lock_log_exclusive io) (\<lambda>_.
     sbind (write_head X C io 0 0) (\<lambda>_.
     sok \<lparr>ac_records = [], ac_last_hash = 0, ac_next_seq = 0, ac_sink = True\<rparr>)) (fs\<lparr>fs_log := Some []\<rparr>)))"

definition check_head ::
    "externals \<Rightarrow> head \<Rightarrow> u64 \<Rightarrow> content_hash list \<Rightarrow> (audit_error, unit) result" where
  "check_head X h log_len hash_after =
     rbind (ok_or (Corrupt ''head last_hash is not 32 hex bytes'')
        (case hex_decode X (hd_last_hash h) of Inl _ \<Rightarrow> None | Inr v \<Rightarrow> try_into_32 v)) (\<lambda>head_hash.
     if hd_len h > log_len then Inl (Truncated (hd_len h) log_len)
     else if log_len > hd_len h + 1 then
       Inl (Corrupt (''log holds '' @ decimal (unat log_len) @ '' records but head commits to '' @
         decimal (unat (hd_len h)) @ '' '' @ em_dash @ '' more than one in-flight append''))
     else
       let prefix_hash = (if hd_len h = 0 then 0 else hash_after ! (unat (hd_len h) - 1))
       in if prefix_hash \<noteq> head_hash then
            Inl (Corrupt (''head hash does not match the log at length '' @ decimal (unat (hd_len h))))
          else Inr ())"

definition open_existing ::
    "externals \<Rightarrow> audit_codec \<Rightarrow> io_env \<Rightarrow> bytes \<Rightarrow> (audit_fs, audit_error, audit_chain) action" where
  "open_existing X C io content =
     sbind (io_call io OpenRead) (\<lambda>_.
     sbind (io_call io ReadLine) (\<lambda>_.
     sbind (slift (load X C 0 (lines content) ([], [], 0))) (\<lambda>(recs, hash_after, last_hash).
     let log_len = of_nat (length recs) in
     sbind (\<lambda>fs. slift (case (io_fail io ReadHead, fs_head fs) of
          (None, Some b) \<Rightarrow> Inr b
        | (Some m, _) \<Rightarrow> Inl (Corrupt (''head sidecar missing/unreadable ('' @ m @ '') '' @ em_dash @ '' possible tamper''))
        | (None, None) \<Rightarrow> Inl (Corrupt (''head sidecar missing/unreadable ('' @
            ''No such file or directory (os error 2)'' @ '') '' @ em_dash @ '' possible tamper''))) fs) (\<lambda>head_bytes.
     sbind (slift (map_err (\<lambda>e. Corrupt (''head sidecar unparseable: '' @ e)) (head_from_json C head_bytes))) (\<lambda>h.
     sbind (slift (check_head X h log_len hash_after)) (\<lambda>_.
     sbind (io_call io OpenAppend) (\<lambda>_.
     sbind (lock_log_exclusive io) (\<lambda>_.
     sbind (if hd_len h \<noteq> log_len then write_head X C io log_len last_hash else sok ()) (\<lambda>_.
     sok \<lparr>ac_records = recs, ac_last_hash = last_hash, ac_next_seq = log_len, ac_sink = True\<rparr>)))))))))"

definition open_chain :: "externals \<Rightarrow> audit_codec \<Rightarrow> io_env \<Rightarrow> (audit_fs, audit_error, audit_chain) action" where
  "open_chain X C io fs =
     (case fs_log fs of None \<Rightarrow> open_fresh X C io fs | Some content \<Rightarrow> open_existing X C io content fs)"

definition write_log :: "io_env \<Rightarrow> bytes \<Rightarrow> (audit_fs, audit_error, unit) action" where
  "write_log io line fs =
     (case fs_log fs of
        None \<Rightarrow> serr (Io ''No such file or directory (os error 2)'') fs
      | Some content \<Rightarrow>
          (case io_fail io LogWrite of
             Some m \<Rightarrow> serr (Io m) (fs\<lparr>fs_log := Some (content @ take (io_torn io) line)\<rparr>)
           | None \<Rightarrow> sok () (fs\<lparr>fs_log := Some (content @ line)\<rparr>)))"

definition persist ::
    "externals \<Rightarrow> audit_codec \<Rightarrow> io_env \<Rightarrow> audit_record \<Rightarrow> content_hash \<Rightarrow> (audit_fs, audit_error, unit) action" where
  "persist X C io r hash =
     sbind (slift (map_err (\<lambda>e. Corrupt (''record serialize: '' @ e)) (record_to_json C r))) (\<lambda>line.
     sbind (write_log io (line @ [10])) (\<lambda>_.
     sbind (io_call io LogSync) (\<lambda>_.
     write_head X C io (ar_sequence r + 1) hash)))"

definition append_record ::
    "externals \<Rightarrow> audit_codec \<Rightarrow> io_env \<Rightarrow> memory_event \<Rightarrow> string \<Rightarrow> string \<Rightarrow> string \<Rightarrow> u64 \<Rightarrow>
     (audit_chain \<times> audit_fs, audit_error, audit_record) action" where
  "append_record X C io event actor resource_id detail now_ms = (\<lambda>(chain, fs).
     let r = \<lparr>ar_sequence = ac_next_seq chain, ar_timestamp_ms = now_ms, ar_prev_hash = ac_last_hash chain,
              ar_event = event, ar_actor = actor, ar_resource_id = resource_id, ar_detail = detail\<rparr>;
         hash = record_hash X r
     in case (if ac_sink chain then persist X C io r hash fs else (Inr (), fs)) of
          (Inl e, fs') \<Rightarrow> (Inl e, (chain, fs'))
        | (Inr _, fs') \<Rightarrow>
            (Inr r, (chain\<lparr>ac_last_hash := hash, ac_next_seq := ac_next_seq chain + 1,
                           ac_records := ac_records chain @ [r]\<rparr>, fs')))"

fun verify_from :: "externals \<Rightarrow> nat \<Rightarrow> content_hash \<Rightarrow> audit_record list \<Rightarrow> (string, unit) result" where
  "verify_from X i expected_prev [] = Inr ()"
| "verify_from X i expected_prev (r # rs) =
     (if ar_sequence r \<noteq> of_nat i then Inl (''sequence break at '' @ decimal (unat (ar_sequence r)))
      else if ar_prev_hash r \<noteq> expected_prev then
        Inl (''prev_hash break at sequence '' @ decimal (unat (ar_sequence r)))
      else verify_from X (Suc i) (record_hash X r) rs)"

definition verify_integrity :: "externals \<Rightarrow> audit_chain \<Rightarrow> (string, u64) result" where
  "verify_integrity X chain =
     rbind (verify_from X 0 0 (ac_records chain)) (\<lambda>_. Inr (of_nat (length (ac_records chain))))"

definition chain_len :: "audit_chain \<Rightarrow> nat" where
  "chain_len chain = length (ac_records chain)"

definition chain_is_empty :: "audit_chain \<Rightarrow> bool" where
  "chain_is_empty chain \<longleftrightarrow> ac_records chain = []"

section \<open>Chains and logs\<close>

fun linked :: "externals \<Rightarrow> nat \<Rightarrow> content_hash \<Rightarrow> audit_record list \<Rightarrow> bool" where
  "linked X n p [] \<longleftrightarrow> True"
| "linked X n p (r # rs) \<longleftrightarrow>
     ar_sequence r = of_nat n \<and> ar_prev_hash r = p \<and> linked X (Suc n) (record_hash X r) rs"

definition last_link :: "externals \<Rightarrow> content_hash \<Rightarrow> audit_record list \<Rightarrow> content_hash" where
  "last_link X p rs = (if rs = [] then p else record_hash X (last rs))"

lemma last_link_simps [simp]:
  "last_link X p [] = p" "last_link X p (r # rs) = last_link X (record_hash X r) rs"
  "last_link X p (rs @ [r]) = record_hash X r"
  by (simp_all add: last_link_def)

lemma linked_append:
  "linked X n p (rs @ qs) \<longleftrightarrow> linked X n p rs \<and> linked X (n + length rs) (last_link X p rs) qs"
  by (induction rs arbitrary: n p) auto

text \<open>The documented behaviour of \<^verbatim>\<open>serde_json\<close> on the two types: decoding inverts encoding, and an
  encoded record is one line of text that is not blank.\<close>

definition codec_ok :: "audit_codec \<Rightarrow> bool" where
  "codec_ok C \<longleftrightarrow>
     (\<forall>r b. record_to_json C r = Inr b \<longrightarrow> record_from_json C b = Inr r \<and> 10 \<notin> set b \<and> 13 \<notin> set b \<and>
        utf8_valid b \<and> \<not> all_white b) \<and>
     (\<forall>h b. head_to_json C h = Inr b \<longrightarrow> head_from_json C b = Inr h)"

lemma codec_okD:
  assumes "codec_ok C" "record_to_json C r = Inr b"
  shows "record_from_json C b = Inr r" "10 \<notin> set b" "13 \<notin> set b" "utf8_valid b" "\<not> all_white b"
  using assms by (simp_all add: codec_ok_def)

lemma codec_ok_head: "codec_ok C \<Longrightarrow> head_to_json C h = Inr b \<Longrightarrow> head_from_json C b = Inr h"
  by (simp add: codec_ok_def)

definition log_holds :: "audit_codec \<Rightarrow> audit_record list \<Rightarrow> bytes \<Rightarrow> bool" where
  "log_holds C rs content \<longleftrightarrow> (\<exists>bs. list_all2 (\<lambda>r b. record_to_json C r = Inr b) rs bs \<and>
     content = concat (map (\<lambda>b. b @ [10]) bs))"

lemma log_holds_Nil [simp]: "log_holds C [] []"
  by (simp add: log_holds_def)

lemma log_holds_snoc:
  assumes "log_holds C rs content" "record_to_json C r = Inr b"
  shows "log_holds C (rs @ [r]) (content @ b @ [10])"
proof -
  from assms(1) obtain bs where "list_all2 (\<lambda>r b. record_to_json C r = Inr b) rs bs"
      "content = concat (map (\<lambda>b. b @ [10]) bs)"
    by (auto simp: log_holds_def)
  with assms(2) show ?thesis
    unfolding log_holds_def by (intro exI [of _ "bs @ [b]"]) (simp add: list_all2_appendI)
qed

lemma chomp_id: "13 \<notin> set l \<Longrightarrow> chomp l = l"
  using last_in_set by (fastforce simp: chomp_def)

lemma lines_log:
  assumes "codec_ok C" "list_all2 (\<lambda>r b. record_to_json C r = Inr b) rs bs"
  shows "lines (concat (map (\<lambda>b. b @ [10]) bs) @ rest) = bs @ lines rest"
  using assms(2)
proof (induction rule: list_all2_induct)
  case Nil
  then show ?case by simp
next
  case (Cons r rs b bs)
  with codec_okD [OF assms(1) Cons.hyps(1)] show ?case by (simp add: lines_line chomp_id)
qed

lemma load_append:
  "load X C i (ls @ ms) st = rbind (load X C i ls st) (load X C (i + length ls) ms)"
  by (induction X C i ls st rule: load.induct) (auto simp: rbind_def split: sum.splits)

lemma load_linked:
  assumes "codec_ok C" "list_all2 (\<lambda>r b. record_to_json C r = Inr b) rs bs" "linked X (length recs) p rs"
  shows "load X C i bs (recs, hs, p) = Inr (recs @ rs, hs @ map (record_hash X) rs, last_link X p rs)"
  using assms(2,3)
proof (induction arbitrary: i recs hs p rule: list_all2_induct)
  case Nil
  then show ?case by simp
next
  case (Cons r rs b bs)
  have "load X C (Suc i) bs (recs @ [r], hs @ [record_hash X r], record_hash X r) =
      Inr ((recs @ [r]) @ rs, (hs @ [record_hash X r]) @ map (record_hash X) rs, last_link X (record_hash X r) rs)"
    by (rule Cons.IH) (use Cons.prems in simp)
  with codec_okD [OF assms(1) Cons.hyps(1)] Cons.prems show ?case by (simp add: load_record_def)
qed

lemma load_log:
  assumes "codec_ok C" "log_holds C rs content" "linked X 0 0 rs"
  shows "load X C 0 (lines content) ([], [], 0) = Inr (rs, map (record_hash X) rs, last_link X 0 rs)"
proof -
  from assms(2) obtain bs where bs: "list_all2 (\<lambda>r b. record_to_json C r = Inr b) rs bs"
      "content = concat (map (\<lambda>b. b @ [10]) bs)"
    by (auto simp: log_holds_def)
  have "lines content = bs" using lines_log [OF assms(1) bs(1), of "[]"] by (simp add: bs(2))
  with load_linked [OF assms(1) bs(1), of X "[]" 0 0 "[]"] assms(3) show ?thesis by simp
qed

section \<open>What a successful open guarantees\<close>

lemma load_result:
  assumes "load X C i ls (recs, map (record_hash X) recs, p) = Inr (rs, hs, q)" "linked X 0 0 recs" "p = last_link X 0 recs"
  shows "linked X 0 0 rs \<and> hs = map (record_hash X) rs \<and> q = last_link X 0 rs"
  using assms
proof (induction ls arbitrary: i recs p)
  case Nil
  then show ?case by auto
next
  case (Cons l ls)
  show ?case
  proof (cases "all_white l")
    case True
    with Cons.prems have "load X C (Suc i) ls (recs, map (record_hash X) recs, p) = Inr (rs, hs, q)"
      by (auto split: if_splits)
    from Cons.IH [OF this Cons.prems(2,3)] show ?thesis .
  next
    case False
    with Cons.prems(1) obtain r where r: "ar_sequence r = of_nat (length recs)" "ar_prev_hash r = p"
        "load X C (Suc i) ls (recs @ [r], map (record_hash X) (recs @ [r]), record_hash X r) = Inr (rs, hs, q)"
      by (auto simp: load_record_def split: if_splits)
    have "linked X 0 0 (recs @ [r])" using Cons.prems(2,3) r(1,2) by (simp add: linked_append)
    from Cons.IH [OF r(3) this] show ?thesis by simp
  qed
qed

section \<open>The persistent invariant\<close>

definition chain_ok :: "externals \<Rightarrow> audit_chain \<Rightarrow> bool" where
  "chain_ok X chain \<longleftrightarrow> linked X 0 0 (ac_records chain) \<and>
     ac_last_hash chain = last_link X 0 (ac_records chain) \<and>
     ac_next_seq chain = of_nat (length (ac_records chain))"

definition head_is :: "externals \<Rightarrow> audit_codec \<Rightarrow> audit_fs \<Rightarrow> nat \<Rightarrow> content_hash \<Rightarrow> bool" where
  "head_is X C fs n h \<longleftrightarrow> (\<exists>b. fs_head fs = Some b \<and>
     head_from_json C b = Inr \<lparr>hd_len = of_nat n, hd_last_hash = hex_encode X (hash_bytes h)\<rparr>)"

text \<open>The files hold the records \<open>rs\<close> and the head commits to the first \<open>n\<close> of them.\<close>

definition disk_holds :: "externals \<Rightarrow> audit_codec \<Rightarrow> audit_record list \<Rightarrow> nat \<Rightarrow> audit_fs \<Rightarrow> bool" where
  "disk_holds X C rs n fs \<longleftrightarrow> (\<exists>content. fs_log fs = Some content \<and> log_holds C rs content) \<and>
     head_is X C fs n (last_link X 0 (take n rs))"

definition audit_ok :: "externals \<Rightarrow> audit_codec \<Rightarrow> audit_chain \<Rightarrow> audit_fs \<Rightarrow> bool" where
  "audit_ok X C chain fs \<longleftrightarrow> chain_ok X chain \<and> ac_sink chain \<and>
     disk_holds X C (ac_records chain) (length (ac_records chain)) fs"

definition no_fault :: "io_env \<Rightarrow> bool" where
  "no_fault io \<longleftrightarrow> (\<forall>st. io_fail io st = None)"

lemma io_call_ok [simp]: "no_fault io \<Longrightarrow> io_call io st = sok ()" "no_fault io \<Longrightarrow> lock_log_exclusive io = sok ()"
  by (simp_all add: io_call_def lock_log_exclusive_def no_fault_def)

lemma sok_bind [simp]: "sbind (sok x) f = f x"
  by (simp add: sbind_def fun_eq_iff)

lemma write_head_cases:
  assumes "write_head X C io n h fs = (r, fs')"
  shows "(\<exists>e. r = Inl e \<and> fs' = fs) \<or>
    (r = Inr () \<and> fs_log fs' = fs_log fs \<and> (codec_ok C \<longrightarrow> head_is X C fs' (unat n) h))"
proof (cases "head_to_json C \<lparr>hd_len = n, hd_last_hash = hex_encode X (hash_bytes h)\<rparr>")
  case (Inl e)
  with assms show ?thesis by (auto simp: write_head_def sbind_def)
next
  case (Inr b)
  have "r = Inr () \<and> fs' = fs\<lparr>fs_head := Some b\<rparr> \<or> (\<exists>e. r = Inl e \<and> fs' = fs)"
    using assms Inr by (auto simp: write_head_def sbind_def io_call_def split: option.splits)
  with Inr show ?thesis by (auto simp: head_is_def codec_ok_head)
qed

text \<open>What the log and the head can look like after one append: untouched, with a torn line, with
  the whole line and the old head, or both new.\<close>

lemma persist_cases:
  assumes C: "codec_ok C" and log: "fs_log fs = Some content" and run: "persist X C io r h fs = (q, fs')"
  shows "(\<exists>e. q = Inl e \<and> fs' = fs) \<or>
    (\<exists>e line. q = Inl e \<and> record_to_json C r = Inr line \<and> fs_head fs' = fs_head fs \<and>
       (\<exists>k. fs_log fs' = Some (content @ take k (line @ [10])))) \<or>
    (\<exists>line. q = Inr () \<and> record_to_json C r = Inr line \<and> fs_log fs' = Some (content @ line @ [10]) \<and>
       head_is X C fs' (unat (ar_sequence r + 1)) h)"
proof (cases "record_to_json C r")
  case (Inl e)
  with run show ?thesis by (auto simp: persist_def sbind_def)
next
  case (Inr line)
  let ?fs = "fs\<lparr>fs_log := Some (content @ line @ [10])\<rparr>"
  obtain u v where u: "write_head X C io (ar_sequence r + 1) h ?fs = (u, v)"
    by (cases "write_head X C io (ar_sequence r + 1) h ?fs")
  note wh = write_head_cases [OF u]
  have full: "take (length (line @ [10])) (line @ [10]) = line @ [10]" by simp
  consider m where "io_fail io LogWrite = Some m" | m where "io_fail io LogWrite = None" "io_fail io LogSync = Some m"
    | "io_fail io LogWrite = None" "io_fail io LogSync = None"
    by (cases "io_fail io LogWrite"; cases "io_fail io LogSync") auto
  then show ?thesis
  proof cases
    case 1
    with run Inr log show ?thesis by (auto simp: persist_def sbind_def write_log_def)
  next
    case 2
    then have "q = Inl (Io m)" "fs' = ?fs"
      using run Inr log by (auto simp: persist_def sbind_def write_log_def io_call_def)
    with Inr show ?thesis by (auto intro!: exI [of _ "length (line @ [10])"])
  next
    case 3
    then have q: "q = u" "fs' = v"
      using run Inr log u by (auto simp: persist_def sbind_def write_log_def io_call_def)
    from wh show ?thesis
    proof
      assume "\<exists>e. u = Inl e \<and> v = ?fs"
      with q Inr show ?thesis by (auto intro!: exI [of _ "length (line @ [10])"])
    next
      assume "u = Inr () \<and> fs_log v = fs_log ?fs \<and> (codec_ok C \<longrightarrow> head_is X C v (unat (ar_sequence r + 1)) h)"
      with q Inr C show ?thesis by auto
    qed
  qed
qed

section \<open>Appending\<close>

definition next_record :: "audit_chain \<Rightarrow> memory_event \<Rightarrow> string \<Rightarrow> string \<Rightarrow> string \<Rightarrow> u64 \<Rightarrow> audit_record" where
  "next_record chain event actor resource_id detail now_ms =
     \<lparr>ar_sequence = ac_next_seq chain, ar_timestamp_ms = now_ms, ar_prev_hash = ac_last_hash chain,
      ar_event = event, ar_actor = actor, ar_resource_id = resource_id, ar_detail = detail\<rparr>"

definition extended :: "externals \<Rightarrow> audit_chain \<Rightarrow> audit_record \<Rightarrow> audit_chain" where
  "extended X chain r = chain\<lparr>ac_last_hash := record_hash X r, ac_next_seq := ac_next_seq chain + 1,
     ac_records := ac_records chain @ [r]\<rparr>"

lemma append_record_eq:
  "append_record X C io event actor resource_id detail now_ms (chain, fs) =
     (let r = next_record chain event actor resource_id detail now_ms in
      case (if ac_sink chain then persist X C io r (record_hash X r) fs else (Inr (), fs)) of
        (Inl e, fs') \<Rightarrow> (Inl e, (chain, fs'))
      | (Inr _, fs') \<Rightarrow> (Inr r, (extended X chain r, fs')))"
  unfolding append_record_def next_record_def extended_def Let_def by simp

lemma extended_ok:
  assumes "chain_ok X chain"
  shows "chain_ok X (extended X chain (next_record chain event actor resource_id detail now_ms))"
  using assms by (simp add: chain_ok_def extended_def next_record_def linked_append)

lemma unat_succ: "Suc n < 2 ^ 64 \<Longrightarrow> unat (of_nat n + 1 :: u64) = Suc n"
proof -
  assume "Suc n < 2 ^ 64"
  then have "unat (of_nat (Suc n) :: u64) = Suc n" by (simp only: unat_of_nat len_num0 len_bit0 len_num1) simp
  then show ?thesis by (simp add: add.commute)
qed

definition codec_total :: "audit_codec \<Rightarrow> bool" where
  "codec_total C \<longleftrightarrow> (\<forall>r. \<exists>b. record_to_json C r = Inr b) \<and> (\<forall>h. \<exists>b. head_to_json C h = Inr b)"

lemma write_head_total:
  assumes "codec_ok C" "codec_total C" "no_fault io"
  obtains fs' where "write_head X C io n h fs = (Inr (), fs')" "fs_log fs' = fs_log fs"
    "head_is X C fs' (unat n) h"
proof -
  obtain b where b: "head_to_json C \<lparr>hd_len = n, hd_last_hash = hex_encode X (hash_bytes h)\<rparr> = Inr b"
    using assms(2) unfolding codec_total_def by blast
  then have "write_head X C io n h fs = (Inr (), fs\<lparr>fs_head := Some b\<rparr>)"
    by (simp add: write_head_def assms(3) sbind_def)
  with write_head_cases [OF this] assms(1) that show ?thesis by auto
qed

lemma persist_total:
  assumes "codec_ok C" "codec_total C" "no_fault io" "fs_log fs = Some content" "record_to_json C r = Inr line"
  shows "\<exists>fs'. persist X C io r h fs = (Inr (), fs') \<and> fs_log fs' = Some (content @ line @ [10])"
proof -
  let ?fs = "fs\<lparr>fs_log := Some (content @ line @ [10])\<rparr>"
  obtain fs' where "write_head X C io (ar_sequence r + 1) h ?fs = (Inr (), fs')" "fs_log fs' = fs_log ?fs"
    by (rule write_head_total [OF assms(1,2,3)])
  with assms show ?thesis
    by (simp add: persist_def sbind_def write_log_def) (simp add: no_fault_def)
qed

text \<open>C29. An append is durable before it is visible: when it succeeds, the new record is at the
  end of the chain in memory and of the log on disk, the head commits to it, and the
  invariant holds again; when it fails, at whatever file-system call, the chain in memory is
  unchanged and the log is the old one followed by at most one line or a part of one, with
  the old head. When no call fails, the append succeeds.\<close>

theorem append_durable_before_visible:
  assumes C: "codec_ok C" and ok: "audit_ok X C chain fs" and room: "Suc (length (ac_records chain)) < 2 ^ 64"
    and run: "append_record X C io event actor resource_id detail now_ms (chain, fs) = (q, (chain', fs'))"
  shows "(\<forall>r. q = Inr r \<longrightarrow> ac_records chain' = ac_records chain @ [r] \<and> ar_actor r = actor \<and>
      ar_detail r = detail \<and> ar_event r = event \<and> ar_resource_id r = resource_id \<and> audit_ok X C chain' fs') \<and>
    (\<forall>e. q = Inl e \<longrightarrow> chain' = chain \<and> fs_head fs' = fs_head fs \<and>
      (\<exists>old line k. fs_log fs = Some old \<and> fs_log fs' = Some (old @ take k (line @ [10])))) \<and>
    (codec_total C \<and> no_fault io \<longrightarrow> (\<exists>r. q = Inr r))"
proof -
  let ?r = "next_record chain event actor resource_id detail now_ms"
  from ok obtain content where log: "fs_log fs = Some content" "log_holds C (ac_records chain) content"
    and chain: "chain_ok X chain" "ac_sink chain"
    by (auto simp: audit_ok_def disk_holds_def)
  obtain u v where u: "persist X C io ?r (record_hash X ?r) fs = (u, v)"
    by (cases "persist X C io ?r (record_hash X ?r) fs")
  have seq: "unat (ar_sequence ?r + 1) = Suc (length (ac_records chain))"
    using chain(1) unat_succ [OF room] by (simp add: next_record_def chain_ok_def)
  have good: "audit_ok X C (extended X chain ?r) v"
    if "record_to_json C ?r = Inr line" "fs_log v = Some (content @ line @ [10])"
      "head_is X C v (Suc (length (ac_records chain))) (record_hash X ?r)" for line
    using that log_holds_snoc [OF log(2) that(1)] extended_ok [OF chain(1)] chain(2)
    by (auto simp: audit_ok_def disk_holds_def extended_def)
  have live: "codec_total C \<and> no_fault io \<longrightarrow> u = Inr ()"
  proof (intro impI, elim conjE)
    assume total: "codec_total C" and quiet: "no_fault io"
    then obtain line where "record_to_json C ?r = Inr line" unfolding codec_total_def by blast
    from persist_total [OF C total quiet log(1) this, of X "record_hash X ?r"] u show "u = Inr ()" by auto
  qed
  show ?thesis
    using persist_cases [OF C log(1) u]
  proof (elim disjE exE conjE)
    fix e assume "u = Inl e" "v = fs"
    then show ?thesis using run u chain(2) log(1) live
      by (auto simp: append_record_eq Let_def intro: exI [of _ 0])
  next
    fix e line k
    assume "u = Inl e" "fs_head v = fs_head fs" "fs_log v = Some (content @ take k (line @ [10]))"
    then show ?thesis using run u chain(2) log(1) live by (auto simp: append_record_eq Let_def)
  next
    fix line
    assume "u = Inr ()" "record_to_json C ?r = Inr line" "fs_log v = Some (content @ line @ [10])"
      "head_is X C v (unat (ar_sequence ?r + 1)) (record_hash X ?r)"
    moreover from this good seq have "audit_ok X C (extended X chain ?r) v" by simp
    ultimately show ?thesis using run u chain(2)
      by (auto simp: append_record_eq Let_def extended_def next_record_def)
  qed
qed

section \<open>Opening\<close>

lemma check_head_ok:
  assumes X: "externals_ok X" and len: "Suc (length rs) < 2 ^ 64" and n: "n \<le> length rs"
  shows "check_head X \<lparr>hd_len = of_nat n, hd_last_hash = hex_encode X (hash_bytes (last_link X 0 (take n rs)))\<rparr>
      (of_nat (length rs)) (map (record_hash X) rs) =
    (if length rs \<le> Suc n then Inr () else
       Inl (Corrupt (''log holds '' @ decimal (length rs) @ '' records but head commits to '' @
         decimal n @ '' '' @ em_dash @ '' more than one in-flight append'')))"
proof -
  have u: "unat (of_nat (length rs) :: u64) = length rs" "unat (of_nat n :: u64) = n"
    using len n by (simp_all only: unat_of_nat len_num0 len_bit0 len_num1) simp_all
  have le: "\<not> (of_nat (length rs) :: u64) < of_nat n" using n u by (simp add: word_less_nat_alt)
  have "Suc n < 2 ^ 64" using len n by simp
  from unat_succ [OF this] u have lt: "(of_nat n + 1 :: u64) < of_nat (length rs) \<longleftrightarrow> Suc n < length rs"
    by (simp add: word_less_nat_alt)
  have z: "(of_nat n :: u64) = 0 \<longleftrightarrow> n = 0"
    using unat_eq_0 [of "of_nat n :: u64"] by (simp only: u(2))
  have pre: "(if n = 0 then 0 else map (record_hash X) rs ! (n - 1)) = last_link X 0 (take n rs)"
    using n by (cases n) (auto simp: last_link_def take_Suc_conv_app_nth)
  show ?thesis
    unfolding check_head_def Let_def head.simps externals_okD(1) [OF X] u z pre
    using le lt by simp
qed

definition loaded :: "externals \<Rightarrow> audit_record list \<Rightarrow> audit_chain" where
  "loaded X rs = \<lparr>ac_records = rs, ac_last_hash = last_link X 0 rs, ac_next_seq = of_nat (length rs), ac_sink = True\<rparr>"

lemma loaded_ok: "linked X 0 0 rs \<Longrightarrow> chain_ok X (loaded X rs)"
  by (simp add: chain_ok_def loaded_def)

lemma loaded_id: "audit_ok X C chain fs \<Longrightarrow> loaded X (ac_records chain) = chain"
  by (simp add: audit_ok_def chain_ok_def loaded_def)

lemma open_existing_eq:
  assumes C: "codec_ok C" and io: "no_fault io" and log: "log_holds C rs content" "linked X 0 0 rs"
    and head: "fs_head fs = Some b" "head_from_json C b = Inr h"
  shows "open_existing X C io content fs =
    (case check_head X h (of_nat (length rs)) (map (record_hash X) rs) of
       Inl e \<Rightarrow> (Inl e, fs)
     | Inr _ \<Rightarrow> sbind (if hd_len h \<noteq> of_nat (length rs) then write_head X C io (of_nat (length rs)) (last_link X 0 rs) else sok ())
         (\<lambda>_. sok (loaded X rs)) fs)"
proof -
  have rh: "io_fail io ReadHead = None" using io by (simp add: no_fault_def)
  show ?thesis
    using head by (simp add: open_existing_def io load_log [OF C log] Let_def loaded_def rh sbind_eval(1) split: sum.split)
      (auto simp: sbind_def)
qed

lemma open_disk:
  assumes X: "externals_ok X" and C: "codec_ok C" "codec_total C" and io: "no_fault io"
    and disk: "disk_holds X C rs n fs" and rs: "linked X 0 0 rs" "Suc (length rs) < 2 ^ 64"
    and n: "n \<le> length rs" "length rs \<le> Suc n"
  shows "\<exists>fs'. open_chain X C io fs = (Inr (loaded X rs), fs') \<and> audit_ok X C (loaded X rs) fs' \<and>
    fs_log fs' = fs_log fs \<and> (n = length rs \<longrightarrow> fs' = fs)"
proof -
  from disk obtain content b where log: "fs_log fs = Some content" "log_holds C rs content"
    and head: "fs_head fs = Some b" "head_from_json C b =
      Inr \<lparr>hd_len = of_nat n, hd_last_hash = hex_encode X (hash_bytes (last_link X 0 (take n rs)))\<rparr>"
    by (auto simp: disk_holds_def head_is_def)
  have open_eq: "open_chain X C io fs = sbind
      (if (of_nat n :: u64) \<noteq> of_nat (length rs) then write_head X C io (of_nat (length rs)) (last_link X 0 rs) else sok ())
      (\<lambda>_. sok (loaded X rs)) fs"
    using check_head_ok [OF X rs(2) n(1)] n(2)
    by (simp add: open_chain_def log(1) open_existing_eq [OF C(1) io log(2) rs(1) head])
  show ?thesis
  proof (cases "n = length rs")
    case True
    then have "audit_ok X C (loaded X rs) fs"
      using disk loaded_ok [OF rs(1)] by (simp add: audit_ok_def loaded_def)
    with open_eq True show ?thesis by simp
  next
    case False
    have "unat (of_nat (length rs) :: u64) = length rs" "unat (of_nat n :: u64) = n"
      using rs(2) n by (simp_all only: unat_of_nat len_num0 len_bit0 len_num1) simp_all
    with False have ne: "(of_nat n :: u64) \<noteq> of_nat (length rs)" by metis
    obtain fs' where wh: "write_head X C io (of_nat (length rs)) (last_link X 0 rs) fs = (Inr (), fs')"
        "fs_log fs' = fs_log fs" "head_is X C fs' (unat (of_nat (length rs) :: u64)) (last_link X 0 rs)"
      by (rule write_head_total [OF C io])
    have "audit_ok X C (loaded X rs) fs'"
      using wh(2,3) log loaded_ok [OF rs(1)] \<open>unat (of_nat (length rs) :: u64) = length rs\<close>
      by (simp add: audit_ok_def disk_holds_def loaded_def)
    with open_eq ne wh(1,2) False show ?thesis by (simp add: sbind_def)
  qed
qed

text \<open>A restart resumes the chain: opening the files of a chain whose invariant holds gives
  exactly that chain back and leaves the files alone. After a crash between the log write
  and the head replacement, the log being one record ahead, opening accepts the record,
  repairs the head, and the invariant holds again.\<close>

theorem reopen_resumes:
  assumes X: "externals_ok X" and C: "codec_ok C" "codec_total C" and io: "no_fault io"
    and room: "Suc (length (ac_records chain)) < 2 ^ 64" and chain: "chain_ok X chain" "ac_sink chain"
  shows "(disk_holds X C (ac_records chain) (length (ac_records chain)) fs \<longrightarrow>
      open_chain X C io fs = (Inr chain, fs)) \<and>
    (\<forall>n. length (ac_records chain) = Suc n \<and> disk_holds X C (ac_records chain) n fs \<longrightarrow>
      (\<exists>fs'. open_chain X C io fs = (Inr chain, fs') \<and> audit_ok X C chain fs' \<and> fs_log fs' = fs_log fs))"
proof -
  have rs: "linked X 0 0 (ac_records chain)" and id: "loaded X (ac_records chain) = chain"
    using chain by (simp_all add: chain_ok_def loaded_def)
  note op = open_disk [OF X C io _ rs room, unfolded id]
  show ?thesis
  proof (intro conjI impI allI; (elim conjE)?)
    assume "disk_holds X C (ac_records chain) (length (ac_records chain)) fs"
    from op [OF this] show "open_chain X C io fs = (Inr chain, fs)" by auto
  next
    fix n assume "length (ac_records chain) = Suc n" "disk_holds X C (ac_records chain) n fs"
    with op [OF this(2)] show "\<exists>fs'. open_chain X C io fs = (Inr chain, fs') \<and> audit_ok X C chain fs' \<and> fs_log fs' = fs_log fs"
      by auto
  qed
qed

text \<open>A log cut back behind its head is refused as truncated, with the two lengths, whatever
  hash the head carries; nothing is repaired.\<close>

theorem truncated_log_is_refused:
  assumes X: "externals_ok X" and C: "codec_ok C" and io: "no_fault io"
    and log: "fs_log fs = Some content" "log_holds C rs content" "linked X 0 0 rs"
    and head: "head_is X C fs n h" and n: "length rs < n" "n < 2 ^ 64"
  shows "open_chain X C io fs = (Inl (Truncated (of_nat n) (of_nat (length rs))), fs)"
proof -
  from head obtain b where b: "fs_head fs = Some b"
      "head_from_json C b = Inr \<lparr>hd_len = of_nat n, hd_last_hash = hex_encode X (hash_bytes h)\<rparr>"
    by (auto simp: head_is_def)
  have "unat (of_nat (length rs) :: u64) = length rs" "unat (of_nat n :: u64) = n"
    using n by (simp_all only: unat_of_nat len_num0 len_bit0 len_num1) simp_all
  with n have lt: "(of_nat (length rs) :: u64) < of_nat n" by (simp only: word_less_nat_alt)
  have "check_head X \<lparr>hd_len = of_nat n, hd_last_hash = hex_encode X (hash_bytes h)\<rparr> (of_nat (length rs))
      (map (record_hash X) rs) = Inl (Truncated (of_nat n) (of_nat (length rs)))"
    using lt by (simp add: check_head_def externals_okD(1) [OF X])
  then show ?thesis
    by (simp add: open_chain_def log(1) open_existing_eq [OF C io log(2,3) b])
qed

section \<open>Tamper evidence\<close>

definition record_fields :: "audit_record \<Rightarrow> (u8 \<times> bytes) list" where
  "record_fields r = [(0, as_bytes ''mem-authz:audit:v1''), (1, u64_le (ar_sequence r)),
     (2, u64_le (ar_timestamp_ms r)), (3, hash_bytes (ar_prev_hash r)),
     (4, as_bytes (event_debug (ar_event r))), (5, as_bytes (ar_actor r)),
     (6, as_bytes (ar_resource_id r)), (7, as_bytes (ar_detail r))]"

definition record_fits :: "audit_record \<Rightarrow> bool" where
  "record_fits r \<longleftrightarrow> list_all (fits \<circ> snd) (record_fields r)"

lemma record_hash_tlvs: "record_hash X r = blake3 X (tlvs (record_fields r))"
  by (simp add: record_hash_def Let_def record_fields_def hash_feed_def tlv_def)

lemma event_debug_inject [simp]: "event_debug a = event_debug b \<longleftrightarrow> a = b"
  by (cases a; cases b) simp_all

text \<open>Two of the given records are a collision of the hash: their hashed bytes differ and the
  hashes agree.\<close>

definition records_collide :: "externals \<Rightarrow> audit_record list \<Rightarrow> audit_record list \<Rightarrow> bool" where
  "records_collide X rs qs \<longleftrightarrow> (\<exists>r \<in> set rs. \<exists>q \<in> set qs.
     tlvs (record_fields r) \<noteq> tlvs (record_fields q) \<and> record_hash X r = record_hash X q)"

lemma records_collide_mono:
  "records_collide X rs qs \<Longrightarrow> set rs \<subseteq> set rs' \<Longrightarrow> set qs \<subseteq> set qs' \<Longrightarrow> records_collide X rs' qs'"
  unfolding records_collide_def by blast

lemma record_hash_inject:
  assumes "record_fits r" "record_fits q"
  shows "r = q \<or> tlvs (record_fields r) \<noteq> tlvs (record_fields q)"
proof (cases "tlvs (record_fields r) = tlvs (record_fields q)")
  case True
  have "record_fields r = record_fields q"
    by (rule tlvs_inject [OF _ _ True]) (use assms in \<open>simp_all add: record_fits_def\<close>)
  then show ?thesis by (simp add: record_fields_def)
qed simp

text \<open>A chain of a given length is determined by its last hash.\<close>

lemma chain_determined:
  assumes "length rs = length qs" "linked X 0 0 rs" "linked X 0 0 qs" "last_link X 0 rs = last_link X 0 qs"
    and "\<forall>r \<in> set rs \<union> set qs. record_fits r"
  shows "rs = qs \<or> records_collide X rs qs"
  using assms
proof (induction rs arbitrary: qs rule: rev_induct)
  case Nil
  then show ?case by simp
next
  case (snoc r rs)
  then obtain q qs' where qs: "qs = qs' @ [q]" "length rs = length qs'"
    by (cases qs rule: rev_cases) auto
  with snoc.prems have "record_hash X r = record_hash X q" "record_fits r" "record_fits q" by simp_all
  then have "r = q \<or> records_collide X (rs @ [r]) qs"
    using record_hash_inject [of r q] qs by (auto simp: records_collide_def)
  then show ?case
  proof
    assume "r = q"
    with snoc.prems qs have "last_link X 0 rs = last_link X 0 qs'" by (simp add: linked_append)
    with snoc.prems qs have "rs = qs' \<or> records_collide X rs qs'"
      by (intro snoc.IH) (auto simp: linked_append)
    then show ?thesis
    proof
      assume "records_collide X rs qs'"
      then have "records_collide X (rs @ [r]) qs" by (rule records_collide_mono) (auto simp: qs)
      then show ?thesis ..
    qed (simp add: qs \<open>r = q\<close>)
  qed simp
qed

lemma open_success_head:
  assumes "open_chain X C io fs = (Inr chain, fs')" "fs_log fs \<noteq> None"
  obtains b h hh where "fs_head fs = Some b" "head_from_json C b = Inr h"
    "hex_decode X (hd_last_hash h) = Inr (hash_bytes hh)" "linked X 0 0 (ac_records chain)"
    "check_head X h (of_nat (length (ac_records chain))) (map (record_hash X) (ac_records chain)) = Inr ()"
proof -
  from assms obtain content where "fs_log fs = Some content" "open_existing X C io content fs = (Inr chain, fs')"
    by (auto simp: open_chain_def)
  then obtain rs hs q b h where ld: "load X C 0 (lines content) ([], [], 0) = Inr (rs, hs, q)"
      and b: "fs_head fs = Some b" "head_from_json C b = Inr h"
      and ck: "check_head X h (of_nat (length rs)) hs = Inr ()" and ch: "ac_records chain = rs"
    unfolding open_existing_def io_call_def
    by (auto simp: sbind_Inr_iff Let_def split: option.splits if_splits)
  have res: "linked X 0 0 rs \<and> hs = map (record_hash X) rs \<and> q = last_link X 0 rs"
    by (rule load_result [of X C 0 "lines content" "[]" 0]) (use ld in simp_all)
  from ck obtain hh where "hex_decode X (hd_last_hash h) = Inr (hash_bytes hh)"
    by (auto simp: check_head_def try_into_32_Some split: sum.splits)
  with that b res ck ch show ?thesis by blast
qed

lemma check_head_Inr:
  assumes ck: "check_head X h (of_nat (length rs)) (map (record_hash X) rs) = Inr ()" and len: "length rs < 2 ^ 64"
    and hex: "hex_decode X (hd_last_hash h) = Inr (hash_bytes hh)"
  shows "unat (hd_len h) \<le> length rs \<and> last_link X 0 (take (unat (hd_len h)) rs) = hh"
proof -
  have "unat (of_nat (length rs) :: u64) = length rs"
    using len by (simp only: unat_of_nat len_num0 len_bit0 len_num1) simp
  moreover have "\<not> of_nat (length rs) < hd_len h" using ck hex by (auto simp: check_head_def split: if_splits)
  ultimately have le: "unat (hd_len h) \<le> length rs" by (metis linorder_not_less word_less_nat_alt)
  have "(if hd_len h = 0 then 0 else map (record_hash X) rs ! (unat (hd_len h) - 1)) = hh"
    using ck hex by (auto simp: check_head_def Let_def split: if_splits)
  moreover have "(if hd_len h = 0 then 0 else map (record_hash X) rs ! (unat (hd_len h) - 1)) =
      last_link X 0 (take (unat (hd_len h)) rs)"
  proof (cases "unat (hd_len h)")
    case 0
    then have "hd_len h = 0" using unat_eq_0 by blast
    with 0 show ?thesis by simp
  next
    case (Suc k)
    then have "hd_len h \<noteq> 0" by auto
    with Suc le show ?thesis by (auto simp: last_link_def take_Suc_conv_app_nth)
  qed
  ultimately show ?thesis using le by simp
qed

text \<open>C28. The head commits to history: if two versions of a log both open under the same head,
  then the records the head commits to are the same in both, in number, order and every
  field, or a record of one log and a different record of the other have the same BLAKE3 hash. Editing, reordering, removing or
  inserting any committed record is detected on open, even by someone who can recompute
  every link of the log.\<close>

theorem head_commits_to_history:
  assumes op: "open_chain X C io fs = (Inr chain, fs')" "open_chain X C io\<^sub>2 fs\<^sub>2 = (Inr chain\<^sub>2, fs\<^sub>2')"
    and files: "fs_log fs \<noteq> None" "fs_log fs\<^sub>2 \<noteq> None" "fs_head fs = fs_head fs\<^sub>2"
    and head: "fs_head fs = Some b" "head_from_json C b = Inr h"
    and len: "length (ac_records chain) < 2 ^ 64" "length (ac_records chain\<^sub>2) < 2 ^ 64"
    and fits: "\<forall>r \<in> set (ac_records chain) \<union> set (ac_records chain\<^sub>2). record_fits r"
  shows "unat (hd_len h) \<le> length (ac_records chain) \<and> unat (hd_len h) \<le> length (ac_records chain\<^sub>2) \<and>
    (take (unat (hd_len h)) (ac_records chain) = take (unat (hd_len h)) (ac_records chain\<^sub>2) \<or>
     records_collide X (ac_records chain) (ac_records chain\<^sub>2))"
proof -
  let ?n = "unat (hd_len h)" and ?rs = "ac_records chain" and ?qs = "ac_records chain\<^sub>2"
  obtain hh where a: "hex_decode X (hd_last_hash h) = Inr (hash_bytes hh)" "linked X 0 0 ?rs"
      "check_head X h (of_nat (length ?rs)) (map (record_hash X) ?rs) = Inr ()"
    using open_success_head [OF op(1) files(1)] head by (metis Inr_inject option.inject)
  have c: "linked X 0 0 ?qs" "check_head X h (of_nat (length ?qs)) (map (record_hash X) ?qs) = Inr ()"
    using open_success_head [OF op(2) files(2)] head files(3) by (metis Inr_inject option.inject)+
  note r = check_head_Inr [OF a(3) len(1) a(1)] and q = check_head_Inr [OF c(2) len(2) a(1)]
  have lk: "linked X 0 0 (take ?n ?rs)" "linked X 0 0 (take ?n ?qs)"
    using a(2) c(1) linked_append [of X 0 0 "take ?n ?rs" "drop ?n ?rs"]
      linked_append [of X 0 0 "take ?n ?qs" "drop ?n ?qs"] by simp_all
  have "take ?n ?rs = take ?n ?qs \<or> records_collide X (take ?n ?rs) (take ?n ?qs)"
    by (rule chain_determined [OF _ lk]) (use r q fits in \<open>auto dest: in_set_takeD\<close>)
  moreover have "records_collide X (take ?n ?rs) (take ?n ?qs) \<Longrightarrow> records_collide X ?rs ?qs"
    by (rule records_collide_mono [OF _ set_take_subset set_take_subset])
  ultimately show ?thesis using r q by blast
qed

section \<open>Verification in memory\<close>

lemma verify_from_linked: "verify_from X i p rs = Inr () \<longleftrightarrow> linked X i p rs"
  by (induction rs arbitrary: i p) auto

text \<open>\<^verbatim>\<open>verify_integrity\<close> accepts exactly the linked chains, so every chain that appends and opens
  build; and it does not notice an edit of the newest record alone, whose content no later
  record commits to (the head file does, when the chain is persistent).\<close>

theorem verify_integrity_spec:
  "((\<exists>n. verify_integrity X chain = Inr n) \<longleftrightarrow> linked X 0 0 (ac_records chain)) \<and>
   verify_integrity X (chain\<lparr>ac_records := rs @ [r\<lparr>ar_detail := d\<rparr>]\<rparr>) =
     verify_integrity X (chain\<lparr>ac_records := rs @ [r]\<rparr>)"
proof -
  have "verify_from X i p (rs @ [r\<lparr>ar_detail := d\<rparr>]) = verify_from X i p (rs @ [r])" for i p
    by (induction rs arbitrary: i p) auto
  moreover have "(\<exists>n. verify_integrity X chain = Inr n) \<longleftrightarrow> linked X 0 0 (ac_records chain)"
    using verify_from_linked by (auto simp: verify_integrity_def)
  ultimately show ?thesis by (simp add: verify_integrity_def)
qed

section \<open>A failed head write followed by a retry\<close>

lemma load_sequence_break:
  assumes C: "codec_ok C" and log: "log_holds C (rs @ [r, q]) content" and rs: "linked X 0 0 (rs @ [r])"
    and q: "ar_sequence q \<noteq> of_nat (Suc (length rs))"
  shows "\<exists>m. load X C 0 (lines content) ([], [], 0) = Inl (Corrupt m)"
proof -
  from log obtain bs where bs: "list_all2 (\<lambda>r b. record_to_json C r = Inr b) ((rs @ [r]) @ [q]) bs"
      "content = concat (map (\<lambda>b. b @ [10]) bs)"
    by (auto simp: log_holds_def)
  then obtain bs' b where b: "bs = bs' @ [b]" "list_all2 (\<lambda>r b. record_to_json C r = Inr b) (rs @ [r]) bs'"
      "record_to_json C q = Inr b"
    unfolding list_all2_append1 by (auto simp: list_all2_Cons1)
  have "lines content = bs' @ [b]" using lines_log [OF C bs(1), of "[]"] bs(2) b(1) by simp
  moreover have "load X C 0 bs' ([], [], 0) =
      Inr (rs @ [r], map (record_hash X) (rs @ [r]), last_link X 0 (rs @ [r]))"
    using load_linked [OF C b(2), of X "[]" 0 0 "[]"] rs by simp
  ultimately show ?thesis
    using codec_okD [OF C b(3)] q by (simp add: load_append load_record_def)
qed

lemma open_load_error:
  assumes "fs_log fs = Some content" "load X C 0 (lines content) ([], [], 0) = Inl e"
  shows "\<exists>e'. open_chain X C io fs = (Inl e', fs)"
  using assms by (auto simp: open_chain_def open_existing_def sbind_def io_call_def split: option.split)

lemma persist_head_fails:
  assumes "fs_log fs = Some content" "record_to_json C r = Inr line"
    and "io_fail io LogWrite = None" "io_fail io LogSync = None" "io_fail io HeadRename = Some m"
  shows "\<exists>e. persist X C io r h fs = (Inl e, fs\<lparr>fs_log := Some (content @ line @ [10])\<rparr>)"
  using assms by (auto simp: persist_def write_head_def sbind_def write_log_def io_call_def split: sum.splits option.splits)

text \<open>When the head cannot be replaced, the append reports the failure and the chain in
  memory stays as it was, but the line is already in the log: the next append reuses the
  sequence number, succeeds, and leaves a log that no later open accepts. The chain in
  memory and the log on disk have parted.\<close>

theorem failed_head_write_then_retry_bricks_log:
  assumes C: "codec_ok C" "codec_total C" and ok: "audit_ok X C chain fs"
    and room: "Suc (length (ac_records chain)) < 2 ^ 64"
    and io: "io_fail io LogWrite = None" "io_fail io LogSync = None" "io_fail io HeadRename = Some m" "no_fault io\<^sub>2"
    and run: "append_record X C io ev a res d now (chain, fs) = (q\<^sub>1, (chain\<^sub>1, fs\<^sub>1))"
      "append_record X C io\<^sub>2 ev\<^sub>2 a\<^sub>2 res\<^sub>2 d\<^sub>2 now\<^sub>2 (chain\<^sub>1, fs\<^sub>1) = (q\<^sub>2, (chain\<^sub>2, fs\<^sub>2))"
  shows "(\<exists>e. q\<^sub>1 = Inl e) \<and> (\<exists>r. q\<^sub>2 = Inr r) \<and> (\<forall>io'. \<exists>e. open_chain X C io' fs\<^sub>2 = (Inl e, fs\<^sub>2))"
proof -
  let ?r = "next_record chain ev a res d now" and ?q = "next_record chain ev\<^sub>2 a\<^sub>2 res\<^sub>2 d\<^sub>2 now\<^sub>2"
    and ?rs = "ac_records chain"
  from ok obtain content where log: "fs_log fs = Some content" "log_holds C ?rs content"
    and chain: "chain_ok X chain" "ac_sink chain"
    by (auto simp: audit_ok_def disk_holds_def)
  obtain line line\<^sub>2 where line: "record_to_json C ?r = Inr line" "record_to_json C ?q = Inr line\<^sub>2"
    using C(2) unfolding codec_total_def by meson
  obtain e where p1: "persist X C io ?r (record_hash X ?r) fs = (Inl e, fs\<lparr>fs_log := Some (content @ line @ [10])\<rparr>)"
    using persist_head_fails [OF log(1) line(1) io(1-3)] by blast
  then have one: "q\<^sub>1 = Inl e" "chain\<^sub>1 = chain" "fs_log fs\<^sub>1 = Some (content @ line @ [10])"
    using run(1) chain(2) by (auto simp: append_record_eq Let_def)
  obtain v where p2: "persist X C io\<^sub>2 ?q (record_hash X ?q) fs\<^sub>1 = (Inr (), v)"
      "fs_log v = Some ((content @ line @ [10]) @ line\<^sub>2 @ [10])"
    using persist_total [OF C io(4) one(3) line(2)] by blast
  then have two: "q\<^sub>2 = Inr ?q" "fs\<^sub>2 = v"
    using run(2) chain(2) one(2) by (auto simp: append_record_eq Let_def)
  have holds: "log_holds C (?rs @ [?r, ?q]) ((content @ line @ [10]) @ line\<^sub>2 @ [10])"
    using log_holds_snoc [OF log_holds_snoc [OF log(2) line(1)] line(2)] by simp
  have lk: "linked X 0 0 (?rs @ [?r])"
    using extended_ok [OF chain(1), of ev a res d now] by (simp add: chain_ok_def extended_def)
  have len: "Suc (length ?rs) < 2 ^ 64" using room by simp
  have "unat (of_nat (length ?rs) :: u64) = length ?rs"
    using len by (simp only: unat_of_nat len_num0 len_bit0 len_num1) simp
  moreover have "unat (of_nat (Suc (length ?rs)) :: u64) = Suc (length ?rs)"
    using unat_succ [OF len] by (simp add: add.commute)
  ultimately have "(of_nat (length ?rs) :: u64) \<noteq> of_nat (Suc (length ?rs))" by (metis n_not_Suc_n)
  then have "ar_sequence ?q \<noteq> of_nat (Suc (length ?rs))"
    using chain(1) by (simp add: next_record_def chain_ok_def del: of_nat_Suc)
  from load_sequence_break [OF C(1) holds lk this] obtain msg where
    "load X C 0 (lines ((content @ line @ [10]) @ line\<^sub>2 @ [10])) ([], [], 0) = Inl (Corrupt msg)" by blast
  from open_load_error [OF p2(2) this] one(1) two show ?thesis by simp
qed

text \<open>When the creation of a chain is interrupted after the log file exists and before the head
  file does, by a held lock or a failed write, no later open succeeds either: the empty log
  without a head is reported as tampering.\<close>

theorem interrupted_creation_is_refused_later:
  assumes run: "open_chain X C io \<lparr>fs_log = None, fs_head = None\<rparr> = (Inl e, fs')" and log: "fs_log fs' \<noteq> None"
    and io: "no_fault io\<^sub>2"
  shows "\<exists>msg. open_chain X C io\<^sub>2 fs' = (Inl (Corrupt msg), fs')"
proof -
  have "fs' = \<lparr>fs_log = Some [], fs_head = None\<rparr>"
    using run log
    by (auto simp: open_chain_def open_fresh_def sbind_def io_call_def lock_log_exclusive_def write_head_def
        split: option.splits sum.splits)
  with io show ?thesis
    by (simp add: open_chain_def open_existing_def sbind_def) (simp add: no_fault_def)
qed

section \<open>A model codec and witnesses\<close>

instance memory_event :: countable
  by countable_datatype

definition record_nat :: "audit_record \<Rightarrow> nat" where
  "record_nat r = to_nat (ar_sequence r, ar_timestamp_ms r, ar_prev_hash r, ar_event r, ar_actor r,
     ar_resource_id r, ar_detail r)"

definition nat_record :: "nat \<Rightarrow> audit_record" where
  "nat_record k = (case from_nat k of (a, b, c, d, e, f, g) \<Rightarrow>
     \<lparr>ar_sequence = a, ar_timestamp_ms = b, ar_prev_hash = c, ar_event = d, ar_actor = e,
      ar_resource_id = f, ar_detail = g\<rparr>)"

lemma nat_record_nat [simp]: "nat_record (record_nat r) = r"
  by (simp add: nat_record_def record_nat_def)

definition head_nat :: "head \<Rightarrow> nat" where
  "head_nat h = to_nat (hd_len h, hd_last_hash h)"

definition nat_head :: "nat \<Rightarrow> head" where
  "nat_head k = (case from_nat k of (a, b) \<Rightarrow> \<lparr>hd_len = a, hd_last_hash = b\<rparr>)"

lemma nat_head_nat [simp]: "nat_head (head_nat h) = h"
  by (simp add: nat_head_def head_nat_def)

definition ideal_codec :: audit_codec where
  "ideal_codec = \<lparr>record_to_json = (\<lambda>r. Inr (replicate (Suc (record_nat r)) 65)),
     record_from_json = (\<lambda>b. Inr (nat_record (length b - 1))),
     head_to_json = (\<lambda>h. Inr (replicate (head_nat h) 65)),
     head_from_json = (\<lambda>b. Inr (nat_head (length b)))\<rparr>"

lemma utf8_ascii: "utf8_valid (replicate n 65)"
  by (induction n) simp_all

lemma ideal_codec_ok: "codec_ok ideal_codec" "codec_total ideal_codec"
  by (simp_all add: codec_ok_def codec_total_def ideal_codec_def utf8_ascii)

definition quiet_io :: io_env where
  "quiet_io = \<lparr>io_fail = (\<lambda>_. None), io_torn = 0\<rparr>"

lemma quiet_io [simp]: "no_fault quiet_io"
  by (simp add: quiet_io_def no_fault_def)

lemma open_fresh_ok:
  assumes "codec_ok C" "codec_total C" "no_fault io"
  obtains fs where "open_chain X C io \<lparr>fs_log = None, fs_head = None\<rparr> = (Inr (loaded X []), fs)"
    "audit_ok X C (loaded X []) fs"
proof -
  obtain fs where fs: "write_head X C io 0 0 \<lparr>fs_log = Some [], fs_head = None\<rparr> = (Inr (), fs)"
      "fs_log fs = Some []" "head_is X C fs (unat (0 :: u64)) 0"
    by (rule write_head_total [OF assms, of X 0 0 "\<lparr>fs_log = Some [], fs_head = None\<rparr>"]) simp
  have "open_chain X C io \<lparr>fs_log = None, fs_head = None\<rparr> = (Inr (loaded X []), fs)"
    using fs(1) by (simp add: open_chain_def open_fresh_def assms(3) sbind_def loaded_def)
  moreover have "audit_ok X C (loaded X []) fs"
    using fs(2,3) by (simp add: audit_ok_def chain_ok_def disk_holds_def loaded_def)
  ultimately show ?thesis by (rule that)
qed

text \<open>C29, the first record of a fresh chain.\<close>

theorem append_durable_before_visible_witness:
  "\<exists>chain fs r chain' fs'. append_record ideal_externals ideal_codec quiet_io EvRead ''agent'' ''repo:a'' ''q'' 7 (chain, fs) =
       (Inr r, (chain', fs')) \<and> ac_records chain' = [r]"
proof (rule open_fresh_ok [OF ideal_codec_ok quiet_io, of ideal_externals])
  fix fs
  assume ok: "audit_ok ideal_externals ideal_codec (loaded ideal_externals []) fs"
  obtain q chain' fs' where run: "append_record ideal_externals ideal_codec quiet_io EvRead ''agent'' ''repo:a'' ''q'' 7
      (loaded ideal_externals [], fs) = (q, (chain', fs'))"
    by (metis surj_pair)
  have rs: "ac_records (loaded ideal_externals []) = []" by (simp add: loaded_def)
  then have "Suc (length (ac_records (loaded ideal_externals []))) < 2 ^ 64" by simp
  note app = append_durable_before_visible [OF ideal_codec_ok(1) ok this run]
  then obtain r where "q = Inr r" using ideal_codec_ok(2) quiet_io by blast
  moreover from this app have "ac_records chain' = [r]" by (simp add: rs)
  ultimately show ?thesis using run by blast
qed

text \<open>A fresh chain reopened.\<close>

theorem reopen_resumes_witness:
  "\<exists>fs. open_chain ideal_externals ideal_codec quiet_io fs = (Inr (loaded ideal_externals []), fs)"
proof (rule open_fresh_ok [OF ideal_codec_ok quiet_io, of ideal_externals])
  fix fs
  assume ok: "audit_ok ideal_externals ideal_codec (loaded ideal_externals []) fs"
  have room: "Suc (length (ac_records (loaded ideal_externals []))) < 2 ^ 64"
    and chain: "chain_ok ideal_externals (loaded ideal_externals [])" "ac_sink (loaded ideal_externals [])"
    and disk: "disk_holds ideal_externals ideal_codec (ac_records (loaded ideal_externals []))
      (length (ac_records (loaded ideal_externals []))) fs"
    using ok by (simp_all add: audit_ok_def loaded_def)
  from reopen_resumes [OF ideal_externals_ok ideal_codec_ok quiet_io room chain] disk show ?thesis by blast
qed

text \<open>An empty log under a head that commits to one record.\<close>

theorem truncated_log_is_refused_witness:
  "\<exists>fs. open_chain ideal_externals ideal_codec quiet_io fs = (Inl (Truncated 1 0), fs)"
proof -
  let ?h = "\<lparr>hd_len = 1, hd_last_hash = hex_encode ideal_externals (hash_bytes 5)\<rparr>"
  let ?fs = "\<lparr>fs_log = Some [], fs_head = Some (replicate (head_nat ?h) 65)\<rparr>"
  have "head_is ideal_externals ideal_codec ?fs 1 5" by (simp add: head_is_def ideal_codec_def)
  from truncated_log_is_refused [OF ideal_externals_ok ideal_codec_ok(1) quiet_io, of ?fs "[]" "[]" 1 5] this
  show ?thesis by auto
qed

text \<open>C28, one empty log against itself.\<close>

theorem head_commits_to_history_witness:
  "\<exists>fs chain (h :: head). open_chain ideal_externals ideal_codec quiet_io fs = (Inr chain, fs) \<and> unat (hd_len h) \<le> length (ac_records chain)"
proof (rule open_fresh_ok [OF ideal_codec_ok quiet_io, of ideal_externals])
  fix fs
  assume ok: "audit_ok ideal_externals ideal_codec (loaded ideal_externals []) fs"
  then have op: "open_chain ideal_externals ideal_codec quiet_io fs = (Inr (loaded ideal_externals []), fs)"
    using open_disk [OF ideal_externals_ok ideal_codec_ok quiet_io, of "[]" 0 fs]
    by (auto simp: audit_ok_def loaded_def)
  obtain b h where "fs_log fs \<noteq> None" "fs_head fs = Some b" "head_from_json ideal_codec b = Inr h"
    using ok by (auto simp: audit_ok_def disk_holds_def head_is_def)
  note head_commits_to_history [OF op op this(1,1) refl this(2,3)]
  then have "unat (hd_len h) \<le> length (ac_records (loaded ideal_externals []))" by (simp add: loaded_def)
  with op show ?thesis by blast
qed

text \<open>A fresh chain whose first head write fails.\<close>

theorem failed_head_write_then_retry_bricks_log_witness:
  "\<exists>fs. \<forall>io. \<exists>e. open_chain ideal_externals ideal_codec io fs = (Inl e, fs)"
proof (rule open_fresh_ok [OF ideal_codec_ok quiet_io, of ideal_externals])
  fix fs
  let ?io = "\<lparr>io_fail = (\<lambda>st. if st = HeadRename then Some ''disk full'' else None), io_torn = 0\<rparr>"
  assume ok: "audit_ok ideal_externals ideal_codec (loaded ideal_externals []) fs"
  obtain q c f where r1: "append_record ideal_externals ideal_codec ?io EvRead [] [] [] 1
      (loaded ideal_externals [], fs) = (q, (c, f))"
    by (metis surj_pair)
  obtain q2 c2 f2 where r2: "append_record ideal_externals ideal_codec quiet_io EvRead [] [] [] 2 (c, f) = (q2, (c2, f2))"
    by (metis surj_pair)
  have "Suc (length (ac_records (loaded ideal_externals []))) < 2 ^ 64" by (simp add: loaded_def)
  from failed_head_write_then_retry_bricks_log [OF ideal_codec_ok ok this _ _ _ quiet_io r1 r2]
  show ?thesis by auto
qed

text \<open>The lock being held when the chain is created.\<close>

theorem interrupted_creation_is_refused_later_witness:
  "\<exists>fs msg. open_chain ideal_externals ideal_codec quiet_io fs = (Inl (Corrupt msg), fs)"
proof -
  let ?io = "\<lparr>io_fail = (\<lambda>st. if st = LockLog then Some ''held'' else None), io_torn = 0\<rparr>"
  have "open_chain ideal_externals ideal_codec ?io \<lparr>fs_log = None, fs_head = None\<rparr> =
      (Inl (Locked ''held''), \<lparr>fs_log = Some [], fs_head = None\<rparr>)"
    by (simp add: open_chain_def open_fresh_def sbind_def io_call_def lock_log_exclusive_def)
  from interrupted_creation_is_refused_later [OF this _ quiet_io] show ?thesis by auto
qed

end
