(* ===== verification/Mcp.thy ===== *)
theory Mcp
  imports Cite Search Audit_Log Chain_Anchor Transport
begin

text \<open>
  The MCP server (\<^verbatim>\<open>crates/mem-mcp/src/lib.rs\<close>): one JSON-RPC message in, at most one out. The record
  \<open>mcp_server\<close> is the session (its grant, its signing identity and the context of the current
  request), the record \<open>mcp_world\<close> what sessions share: the store, the audit chain with its
  files, the index cache and the two locks. A tool is an action on the world that ends in a
  JSON value, in an early answer (\<^verbatim>\<open>return Ok(..)\<close>), in a JSON-RPC error, or in a panic.
\<close>

section \<open>Data\<close>

record mcp_env =
  me_audit :: audit_codec
  me_query :: query_env
  me_f32 :: f32_env
  me_tokens :: "string \<Rightarrow> string list"
  me_now :: "nat \<Rightarrow> u64"
  me_now_for :: "nat \<Rightarrow> string \<Rightarrow> u64"
  me_io :: "nat \<Rightarrow> io_env"
  me_parse :: "string \<Rightarrow> (string, json) result"
  me_print :: "json \<Rightarrow> (string, string) result"
  me_grant :: "json \<Rightarrow> (string, capability_grant) result"
  me_diff :: "string \<Rightarrow> (string, memory_diff) result"
  me_str_debug :: "string \<Rightarrow> string"
  me_fixed :: "nat \<Rightarrow> u32 \<Rightarrow> string"
  me_unicode :: unicode
  me_version :: string

record mcp_server =
  ms_grant :: capability_grant
  ms_asserter :: "asserter option"
  ms_query_embedder :: "embedder option"
  ms_write_gate :: bool
  ms_req_trace :: "string option"
  ms_req_grant :: "capability_grant option"

record mcp_world =
  mw_store :: dag_store
  mw_chain :: audit_chain
  mw_fs :: audit_fs
  mw_audit_poisoned :: bool
  mw_gate_poisoned :: bool
  mw_cache :: "tenant_index_cache option"
  mw_tick :: nat

datatype mcp_exit = Early json | Rpc int string | Panic

type_synonym 'a tool = "(mcp_world, mcp_exit, 'a) action"

definition PROTOCOL_VERSION :: string where "PROTOCOL_VERSION = ''2024-11-05''"
definition PROTOCOL_VERSION_2026 :: string where "PROTOCOL_VERSION_2026 = ''2026-07-28''"
definition GRANT_META_KEY :: string where "GRANT_META_KEY = ''ai.citrate/grant''"
definition GRANT_REJECTED :: int where "GRANT_REJECTED = -32001"
definition JSON_SCHEMA_2020_12 :: string where
  "JSON_SCHEMA_2020_12 = ''https://json-schema.org/draft/2020-12/schema''"
definition MAX_BUDGET :: nat where "MAX_BUDGET = 500"
definition PASSAGE_MAX_CHARS :: nat where "PASSAGE_MAX_CHARS = 2000"
definition MAX_DIFF_BYTES :: nat where "MAX_DIFF_BYTES = 4 * 1024 * 1024"
definition MAX_DIFF_NODES :: nat where "MAX_DIFF_NODES = 10000"
definition MAX_DIFF_EDGES :: nat where "MAX_DIFF_EDGES = 50000"

section \<open>The server and its builders\<close>

definition new_server :: "capability_grant \<Rightarrow> mcp_server" where
  "new_server grant = \<lparr>ms_grant = grant, ms_asserter = None, ms_query_embedder = None, ms_write_gate = False,
     ms_req_trace = None, ms_req_grant = None\<rparr>"

definition new_with_asserter :: "capability_grant \<Rightarrow> asserter \<Rightarrow> mcp_server" where
  "new_with_asserter grant a = \<lparr>ms_grant = grant, ms_asserter = Some a, ms_query_embedder = None, ms_write_gate = False,
     ms_req_trace = None, ms_req_grant = None\<rparr>"

text \<open>What a new server is bound to: the store and a fresh audit chain in memory.\<close>

definition new_world :: "dag_store \<Rightarrow> mcp_world" where
  "new_world s = \<lparr>mw_store = s, mw_chain = new_chain, mw_fs = \<lparr>fs_log = None, fs_head = None\<rparr>,
     mw_audit_poisoned = False, mw_gate_poisoned = False, mw_cache = None, mw_tick = 0\<rparr>"

definition with_query_embedder :: "embedder \<Rightarrow> mcp_server \<Rightarrow> mcp_server" where
  "with_query_embedder e S = S\<lparr>ms_query_embedder := Some e\<rparr>"

definition with_index_cache :: "tenant_index_cache \<Rightarrow> mcp_world \<Rightarrow> mcp_world" where
  "with_index_cache c w = w\<lparr>mw_cache := Some c\<rparr>"

definition with_write_gate :: "mcp_server \<Rightarrow> mcp_server" where
  "with_write_gate S = S\<lparr>ms_write_gate := True\<rparr>"

definition with_audit_chain :: "audit_chain \<Rightarrow> audit_fs \<Rightarrow> mcp_world \<Rightarrow> mcp_world" where
  "with_audit_chain chain fs w = w\<lparr>mw_chain := chain, mw_fs := fs\<rparr>"

definition audit_of :: "mcp_world \<Rightarrow> (string, audit_chain) result" where
  "audit_of w = (if mw_audit_poisoned w then Inl ''audit chain lock poisoned; refusing to proceed'' else Inr (mw_chain w))"

section \<open>Answers and arguments\<close>

abbreviation nl :: string where "nl \<equiv> [CHR 0x0A]"
abbreviation sq :: string where "sq \<equiv> [CHR 0x27]"

definition warn_sign :: string where "warn_sign = of_bytes [0xE2, 0x9A, 0xA0]"
definition ellipsis :: string where "ellipsis = of_bytes [0xE2, 0x80, 0xA6]"

fun bool_text :: "bool \<Rightarrow> string" where
  "bool_text True = ''true''"
| "bool_text False = ''false''"

definition tool_content :: "string \<Rightarrow> bool \<Rightarrow> json" where
  "tool_content txt is_error =
     JObj [(''content'', JArr [JObj [(''type'', JStr ''text''), (''text'', JStr txt)]]), (''isError'', JBool is_error)]"

definition tool_text :: "string \<Rightarrow> json" where
  "tool_text txt = tool_content txt False"

definition tool_error :: "string \<Rightarrow> json" where
  "tool_error message = tool_content message True"

definition print_int :: "int \<Rightarrow> string" where
  "print_int i = (if i < 0 then ''-'' @ decimal (nat (- i)) else decimal (nat i))"

definition print_or_default :: "mcp_env \<Rightarrow> json \<Rightarrow> string" where
  "print_or_default E v = (case me_print E v of Inl _ \<Rightarrow> [] | Inr s \<Rightarrow> s)"

definition ok_response :: "mcp_env \<Rightarrow> json \<Rightarrow> json \<Rightarrow> string" where
  "ok_response E rid r = print_or_default E (JObj [(''jsonrpc'', JStr ''2.0''), (''id'', rid), (''result'', r)])"

definition err_response :: "mcp_env \<Rightarrow> json \<Rightarrow> int \<Rightarrow> string \<Rightarrow> string" where
  "err_response E rid code message = print_or_default E (JObj [(''jsonrpc'', JStr ''2.0''), (''id'', rid),
     (''error'', JObj [(''code'', JNum (print_int code)), (''message'', JStr message)])])"

fun json_as_u64 :: "json \<Rightarrow> u64 option" where
  "json_as_u64 (JNum t) = (case from_str_radix 10 t of Inl _ \<Rightarrow> None | Inr n \<Rightarrow> Some n)"
| "json_as_u64 _ = None"

fun json_as_bool :: "json \<Rightarrow> bool option" where
  "json_as_bool (JBool b) = Some b"
| "json_as_bool _ = None"

definition arg_str :: "json \<Rightarrow> string \<Rightarrow> (mcp_exit, string) result" where
  "arg_str args key =
     ok_or (Rpc (-32602) (''missing string argument '' @ sq @ key @ sq)) (Option.bind (json_get key args) json_as_str)"

definition arg_str_or :: "json \<Rightarrow> string \<Rightarrow> string \<Rightarrow> string" where
  "arg_str_or args key d = (case arg_str args key of Inl _ \<Rightarrow> d | Inr s \<Rightarrow> s)"

definition arg_usize :: "json \<Rightarrow> string \<Rightarrow> nat \<Rightarrow> nat" where
  "arg_usize args key d = (case Option.bind (json_get key args) json_as_u64 of None \<Rightarrow> d | Some n \<Rightarrow> unat n)"

definition arg_budget :: "json \<Rightarrow> nat \<Rightarrow> nat" where
  "arg_budget args d = min (arg_usize args ''budget'' d) MAX_BUDGET"

definition arg_bool :: "json \<Rightarrow> string \<Rightarrow> bool \<Rightarrow> bool" where
  "arg_bool args key d = (case Option.bind (json_get key args) json_as_bool of None \<Rightarrow> d | Some b \<Rightarrow> b)"

definition store_err :: "store_error \<Rightarrow> mcp_exit" where
  "store_err e = Rpc (-32000) (store_error_text e)"

definition early :: "json \<Rightarrow> 'a tool" where
  "early v = serr (Early v)"

text \<open>Reading the clock, the store and writing the store.\<close>

definition now_ms :: "mcp_env \<Rightarrow> u64 tool" where
  "now_ms E w = (Inr (me_now E (mw_tick w)), w\<lparr>mw_tick := mw_tick w + 1\<rparr>)"

definition store_rd :: "'a reader \<Rightarrow> 'a tool" where
  "store_rd f w = (map_err store_err (f (mw_store w)), w)"

definition store_run :: "('e \<Rightarrow> mcp_exit) \<Rightarrow> (dag_store, 'e, 'a) action \<Rightarrow> 'a tool" where
  "store_run g m w = (case m (mw_store w) of (r, s) \<Rightarrow> (map_err g r, w\<lparr>mw_store := s\<rparr>))"

definition lock_writes :: "mcp_server \<Rightarrow> unit tool" where
  "lock_writes S w =
     (if ms_write_gate S \<and> mw_gate_poisoned w
      then (Inl (Early (tool_error ''write gate poisoned; daemon needs a restart'')), w) else (Inr (), w))"

section \<open>Authorization\<close>

fun audit_error_text :: "audit_error \<Rightarrow> string" where
  "audit_error_text (Io m) = ''audit log io: '' @ m"
| "audit_error_text (Corrupt m) = ''audit log corrupt: '' @ m"
| "audit_error_text (Truncated h l) = ''audit log truncated: head commits to '' @ decimal (unat h) @
     '' records but log holds '' @ decimal (unat l)"
| "audit_error_text (Locked m) = ''audit log is locked by another process: '' @ m"

definition audit_append ::
    "externals \<Rightarrow> mcp_env \<Rightarrow> memory_event \<Rightarrow> string \<Rightarrow> string \<Rightarrow> string \<Rightarrow> u64 \<Rightarrow> (mcp_world, audit_error, audit_record) action" where
  "audit_append X E event actor resource detail now w =
     (case append_record X (me_audit E) (me_io E (mw_tick w)) event actor resource detail now (mw_chain w, mw_fs w) of
        (r, chain, fs) \<Rightarrow> (r, w\<lparr>mw_chain := chain, mw_fs := fs\<rparr>))"

text \<open>The session grant intersected with the grant of the request.\<close>

definition decide :: "externals \<Rightarrow> mcp_server \<Rightarrow> string \<Rightarrow> op \<Rightarrow> u64 \<Rightarrow> (authz_error, unit) result" where
  "decide X S resource operation now =
     rbind (check X (ms_grant S) resource operation now) (\<lambda>_.
     case ms_req_grant S of Some rg \<Rightarrow> check X rg resource operation now | None \<Rightarrow> Inr ())"

definition event_for :: "op \<Rightarrow> memory_event" where
  "event_for operation = (case operation of Read \<Rightarrow> EvRead | Write \<Rightarrow> EvWrite)"

definition traced :: "mcp_server \<Rightarrow> string \<Rightarrow> string" where
  "traced S detail = (case ms_req_trace S of Some t \<Rightarrow> detail @ '' [trace='' @ t @ '']'' | None \<Rightarrow> detail)"

definition authorize :: "externals \<Rightarrow> mcp_env \<Rightarrow> mcp_server \<Rightarrow> op \<Rightarrow> string \<Rightarrow> string \<Rightarrow> unit tool" where
  "authorize X E S operation repo detail =
     sbind (now_ms E) (\<lambda>now w.
     let resource = resource_for repo; actor = cg_recipient (ms_grant S) in
     if mw_audit_poisoned w then (Inl (Early (tool_error ''audit chain lock poisoned; refusing to proceed'')), w)
     else
       case decide X S resource operation now of
         Inr _ \<Rightarrow>
           (case audit_append X E (event_for operation) actor resource (traced S detail) now w of
              (Inl e, w') \<Rightarrow> (Inl (Early (tool_error (''audit append failed; refusing to proceed: '' @ audit_error_text e))), w')
            | (Inr _, w') \<Rightarrow> (Inr (), w'))
       | Inl e \<Rightarrow>
           (case audit_append X E EvDenied actor resource (traced S detail @ '': '' @ authz_error_text e) now w of
              (Inl ae, w') \<Rightarrow> (Inl (Early (tool_error (''authorization denied: '' @ authz_error_text e @
                '' (and the denial could not be audited: '' @ audit_error_text ae @ '')''))), w')
            | (Inr _, w') \<Rightarrow> (Inl (Early (tool_error (''authorization denied: '' @ authz_error_text e))), w')))"

definition authorize_read :: "externals \<Rightarrow> mcp_env \<Rightarrow> mcp_server \<Rightarrow> string \<Rightarrow> string \<Rightarrow> unit tool" where
  "authorize_read X E S = authorize X E S Read"

text \<open>The filter on single items of an answer. The clock is read at each use, so the reading may
  depend on the repository asked about.\<close>

definition can_read :: "externals \<Rightarrow> mcp_env \<Rightarrow> mcp_server \<Rightarrow> nat \<Rightarrow> string \<Rightarrow> bool" where
  "can_read X E S tick repo \<longleftrightarrow>
     (let resource = resource_for repo; now = me_now_for E tick repo in
      check X (ms_grant S) resource Read now = Inr () \<and>
      (case ms_req_grant S of None \<Rightarrow> True | Some rg \<Rightarrow> check X rg resource Read now = Inr ()))"

section \<open>Rendering\<close>

definition title_line :: "nat \<Rightarrow> string \<Rightarrow> string" where
  "title_line limit title =
     (let t = map (\<lambda>c. if c = CHR 0x0A then CHR '' '' else c) title
      in if chars_count t > limit then chars_take (limit - 1) t @ ellipsis else t)"

definition short_id :: "externals \<Rightarrow> nat \<Rightarrow> content_hash \<Rightarrow> string" where
  "short_id X k h = take k (to_hex (hex_encode X) h)"

text \<open>\<^verbatim>\<open>&s[..k]\<close> panics off a character boundary.\<close>

definition str_prefix :: "nat \<Rightarrow> string \<Rightarrow> string option" where
  "str_prefix k s =
     (if k < length s \<and> utf8_cont (as_bytes s ! k) then None else Some (take k s))"

definition render_watermark :: "watermark option \<Rightarrow> string option" where
  "render_watermark wm =
     (case wm of
        None \<Rightarrow> Some (''freshness: (no watermark)'' @ nl)
      | Some w \<Rightarrow>
          let head = (case wm_head w of None \<Rightarrow> ''?'' | Some h \<Rightarrow> h) in
          map_option (\<lambda>h. ''freshness: HEAD '' @ h @ '' ('' @ decimal (wm_head_count w) @ '' commits) ingested @ '' @
            decimal (unat (wm_ingested_at_ms w)) @ ''ms'' @ nl) (str_prefix (min (length head) 12) head))"

fun status_mark :: "status \<Rightarrow> string" where
  "status_mark Active = []"
| "status_mark Superseded = '' '' @ warn_sign @ ''SUPERSEDED''"
| "status_mark Archived = '' (archived)''"

definition render_item :: "externals \<Rightarrow> mcp_env \<Rightarrow> recall_item \<Rightarrow> string" where
  "render_item X E i =
     ''  '' @ short_id X 10 (ri_id i) @ '' '' @
     (case ri_score i of None \<Rightarrow> [] | Some x \<Rightarrow> me_fixed E 3 x @ '' '') @
     ''['' @ discriminant (ri_kind i) @ status_mark (ri_status i) @ ''] '' @ title_line 72 (ri_title i) @
     (case ri_in_flight_branch i of None \<Rightarrow> [] | Some b \<Rightarrow> '' [in-flight: '' @ b @ '']'') @ nl"

definition render_result :: "externals \<Rightarrow> mcp_env \<Rightarrow> recall_result \<Rightarrow> string option" where
  "render_result X E r =
     map_option (\<lambda>freshness. freshness @ ''tenant '' @ sq @ rr_repo r @ sq @ '' '' @ em_dash @ '' '' @
       decimal (rr_total_in_tenant r) @ '' nodes, showing '' @ decimal (length (rr_items r)) @ '':'' @ nl @
       concat (map (render_item X E) (rr_items r))) (render_watermark (rr_watermark r))"

definition quote_line :: "bytes \<Rightarrow> string" where
  "quote_line l = (if trim (of_bytes l) = [] then ''    >'' @ nl else ''    > '' @ of_bytes l @ nl)"

definition render_passage :: "mcp_env \<Rightarrow> recall_item \<Rightarrow> bytes \<Rightarrow> string" where
  "render_passage E i line =
     of_bytes line @ nl @
     (case cite (me_unicode E) (ri_source i) (as_bytes (ri_title i)) of
        None \<Rightarrow> [] | Some c \<Rightarrow> ''    cite: '' @ c @ nl) @
     (let txt = chars_take PASSAGE_MAX_CHARS (ri_title i) @
            (if chars_count (ri_title i) > PASSAGE_MAX_CHARS then ellipsis else [])
      in concat (map quote_line (lines (as_bytes txt))))"

definition render_passages :: "externals \<Rightarrow> mcp_env \<Rightarrow> recall_result \<Rightarrow> string option" where
  "render_passages X E r =
     map_option (\<lambda>base. let ls = lines (as_bytes base) in
       concat (map (\<lambda>l. of_bytes l @ nl) (take 2 ls)) @
       concat (map (\<lambda>(i, l). render_passage E i l) (zip (rr_items r) (drop 2 ls)))) (render_result X E r)"

definition or_panic :: "'a option \<Rightarrow> 'a tool" where
  "or_panic r = (case r of None \<Rightarrow> serr Panic | Some x \<Rightarrow> sok x)"

end
