(* ===== verification/Mcp_Schema.thy ===== *)
theory Mcp_Schema
  imports Mcp "HOL-Library.AList"
begin

text \<open>
  The tool catalogue of the MCP server (\<^verbatim>\<open>tools_list\<close> in \<^verbatim>\<open>crates/mem-mcp/src/lib.rs\<close>): the JSON
  document of each tool, and the stamping of every input schema with its dialect.
\<close>

section \<open>The tools\<close>

definition recall_tool :: json where
  "recall_tool =
     JObj [(''name'', JStr ''memory.recall''),
     (''description'', JStr ''Budget-shaped storyline (most recent N memory nodes) for a repo tenant. Carries provenance + freshness.''),
     (''inputSchema'', JObj [(''type'', JStr ''object''), (''properties'', JObj [
       (''repo'', JObj [(''type'', JStr ''string''), (''description'', JStr ''tenant repo, e.g. citrate-chain'')]),
       (''budget'', JObj [(''type'', JStr ''integer''), (''description'', JStr ''max items''), (''default'', JNum ''15'')]),
       (''include_in_flight'', JObj [(''type'', JStr ''boolean''), (''description'', JStr ''also show unmerged feature-branch work, each labeled [in-flight: <branch>]; default off = canonical merged truth only''), (''default'', JBool False)])]),
       (''required'', JArr [JStr ''repo''])])]"

definition search_tool :: json where
  "search_tool =
     JObj [(''name'', JStr ''memory.search''),
     (''description'', JStr ''Semantic search (cosine over node embeddings) within a repo tenant.''),
     (''inputSchema'', JObj [(''type'', JStr ''object''), (''properties'', JObj [
       (''repo'', JObj [(''type'', JStr ''string'')]),
       (''query'', JObj [(''type'', JStr ''string'')]),
       (''budget'', JObj [(''type'', JStr ''integer''), (''default'', JNum ''10'')]),
       (''include_in_flight'', JObj [(''type'', JStr ''boolean''), (''description'', JStr ''also search unmerged feature-branch work, each hit labeled [in-flight: <branch>]; default off''), (''default'', JBool False)]),
       (''passages'', JObj [(''type'', JStr ''boolean''), (''description'', JStr (''also return each hit'' @ sq @ ''s text and, for documents, a citation (<repo>:<path>#<anchor>) to quote when answering; default off = titles only'')), (''default'', JBool False)])]),
       (''required'', JArr [JStr ''repo'', JStr ''query''])])]"

definition neighbors_tool :: json where
  "neighbors_tool =
     JObj [(''name'', JStr ''memory.neighbors''),
     (''description'', JStr ''Blast-radius: nodes connected by one edge to a node (by id prefix) in a repo tenant.''),
     (''inputSchema'', JObj [(''type'', JStr ''object''), (''properties'', JObj [
       (''repo'', JObj [(''type'', JStr ''string'')]),
       (''id_prefix'', JObj [(''type'', JStr ''string'')]),
       (''budget'', JObj [(''type'', JStr ''integer''), (''default'', JNum ''20'')])]),
       (''required'', JArr [JStr ''repo'', JStr ''id_prefix''])])]"

definition as_of_tool :: json where
  "as_of_tool =
     JObj [(''name'', JStr ''memory.as_of''),
     (''description'', JStr ''Decision-replay: the Derived-plane snapshot of a repo tenant as it stood at a point in time (epoch ms). Shows only nodes that were already valid and not yet retired at that instant. Set include_asserted to also ask what was CLAIMED and still stood at that instant.''),
     (''inputSchema'', JObj [(''type'', JStr ''object''), (''properties'', JObj [
       (''repo'', JObj [(''type'', JStr ''string'')]),
       (''as_of_ms'', JObj [(''type'', JStr ''integer''), (''description'', JStr (''epoch milliseconds '' @ em_dash @ '' the replay instant''))]),
       (''budget'', JObj [(''type'', JStr ''integer''), (''default'', JNum ''15'')]),
       (''include_asserted'', JObj [(''type'', JStr ''boolean''), (''default'', JBool False), (''description'', JStr ''widen to the Asserted plane: signed claims valid at that instant and not since superseded. Off by default because signed claims are not a deterministic projection, so the snapshot stops being a reproducible replay.'')])]),
       (''required'', JArr [JStr ''repo'', JStr ''as_of_ms''])])]"

definition verify_tool :: json where
  "verify_tool =
     JObj [(''name'', JStr ''memory.verify''),
     (''description'', JStr (''Provenance check for one node (by id prefix): signature posture, whether it has been superseded/refuted, and whether a contradiction is recorded '' @ em_dash @ '' so a caller knows if it is safe to act on.'')),
     (''inputSchema'', JObj [(''type'', JStr ''object''), (''properties'', JObj [
       (''repo'', JObj [(''type'', JStr ''string'')]),
       (''id_prefix'', JObj [(''type'', JStr ''string'')])]),
       (''required'', JArr [JStr ''repo'', JStr ''id_prefix''])])]"

definition critique_tool :: json where
  "critique_tool =
     JObj [(''name'', JStr ''memory.critique''),
     (''description'', JStr (''Self-critic completeness pass: runs a storyline (or a search, if '' @ sq @ ''query'' @ sq @ '' is given) and reports what an agent acting on the result might be missing '' @ em_dash @ '' truncated coverage, stale/superseded items, contradictions, adjacent unconfirmed proposals, index staleness.'')),
     (''inputSchema'', JObj [(''type'', JStr ''object''), (''properties'', JObj [
       (''repo'', JObj [(''type'', JStr ''string'')]),
       (''query'', JObj [(''type'', JStr ''string''), (''description'', JStr (''optional '' @ em_dash @ '' critique a search instead of a storyline''))]),
       (''budget'', JObj [(''type'', JStr ''integer''), (''default'', JNum ''15'')])]),
       (''required'', JArr [JStr ''repo''])])]"

definition analogy_tool :: json where
  "analogy_tool =
     JObj [(''name'', JStr ''memory.analogy''),
     (''description'', JStr ''Cross-tenant analogues of a node (coarse embedding shortlist + structural edge-shape verify), searched only across tenants this session may read.''),
     (''inputSchema'', JObj [(''type'', JStr ''object''), (''properties'', JObj [
       (''repo'', JObj [(''type'', JStr ''string''), (''description'', JStr (''the anchor node'' @ sq @ ''s tenant''))]),
       (''id_prefix'', JObj [(''type'', JStr ''string'')]),
       (''budget'', JObj [(''type'', JStr ''integer''), (''default'', JNum ''5'')])]),
       (''required'', JArr [JStr ''repo'', JStr ''id_prefix''])])]"

definition propose_edge_tool :: json where
  "propose_edge_tool =
     JObj [(''name'', JStr ''memory.propose_edge''),
     (''description'', JStr ''Record a signed QUARANTINED edge proposal (advisory until confirmed; never load-bearing on arrival). Requires write scope on both endpoint tenants.''),
     (''inputSchema'', JObj [(''type'', JStr ''object''), (''properties'', JObj [
       (''from_prefix'', JObj [(''type'', JStr ''string'')]),
       (''to_prefix'', JObj [(''type'', JStr ''string'')]),
       (''kind'', JObj [(''type'', JStr ''string''), (''enum'', JArr [JStr ''analogous_to'', JStr ''supersedes'', JStr ''references'', JStr ''depends_on'', JStr ''implements'', JStr ''decides'', JStr ''refutes'', JStr ''contradicts'', JStr ''caused_by'', JStr ''motivates'', JStr ''derived_from'', JStr ''anchored_to'']), (''default'', JStr ''analogous_to'')]),
       (''evidence'', JObj [(''type'', JStr ''string''), (''description'', JStr (''why '' @ em_dash @ '' human-auditable rationale''))])]),
       (''required'', JArr [JStr ''from_prefix'', JStr ''to_prefix''])])]"

definition confirm_edge_tool :: json where
  "confirm_edge_tool =
     JObj [(''name'', JStr ''memory.confirm_edge''),
     (''description'', JStr ''Promote a quarantined edge proposal to load-bearing. A confirmed supersedes edge applies the status transition (cycle-guarded). Requires write scope on both endpoint tenants.''),
     (''inputSchema'', JObj [(''type'', JStr ''object''), (''properties'', JObj [
       (''from_prefix'', JObj [(''type'', JStr ''string'')]),
       (''to_prefix'', JObj [(''type'', JStr ''string'')]),
       (''kind'', JObj [(''type'', JStr ''string''), (''default'', JStr ''analogous_to'')])]),
       (''required'', JArr [JStr ''from_prefix'', JStr ''to_prefix''])])]"

definition assert_tool :: json where
  "assert_tool =
     JObj [(''name'', JStr ''memory.assert''),
     (''description'', JStr (''Append a signed assertion (Asserted plane) '' @ em_dash @ '' a rationale/claim/note that lives nowhere else. Embedded at write time, so it is findable by memory.search. Requires write scope.'')),
     (''inputSchema'', JObj [(''type'', JStr ''object''), (''properties'', JObj [
       (''repo'', JObj [(''type'', JStr ''string'')]),
       (''content'', JObj [(''type'', JStr ''string''), (''description'', JStr ''the assertion text'')]),
       (''kind'', JObj [(''type'', JStr ''string''), (''enum'', JArr [JStr ''rationale'', JStr ''claim'', JStr ''analogy'', JStr ''note'', JStr ''doc'', JStr ''finding'', JStr ''blocker'', JStr ''techdebt'', JStr ''workpackage'', JStr ''adr'', JStr ''handoff'', JStr ''benchmark'', JStr ''agentaction'']), (''default'', JStr ''rationale'')]),
       (''valid_from'', JObj [(''type'', JStr ''integer''), (''description'', JStr (''real-world date this became true, ms since epoch (a proof date, a publish date). Defaults to now. Not the write time '' @ em_dash @ '' that is recorded separately as observed_at.''))])]),
       (''required'', JArr [JStr ''repo'', JStr ''content''])])]"

definition merge_diff_tool :: json where
  "merge_diff_tool =
     JObj [(''name'', JStr ''memory.merge_diff''),
     (''description'', JStr (''Merge a signed memory-diff (a session subgraph) into the graph '' @ em_dash @ '' the '' @ sq @ ''git for agents'' @ sq @ '' handoff. Requires write scope on the diff'' @ sq @ ''s repos; rejected wholesale if any signature fails.'')),
     (''inputSchema'', JObj [(''type'', JStr ''object''), (''properties'', JObj [
       (''diff'', JObj [(''type'', JStr ''string''), (''description'', JStr ''JSON-encoded MemoryDiff'')])]),
       (''required'', JArr [JStr ''diff''])])]"

definition tools_doc :: json where
  "tools_doc = JObj [(''tools'', JArr [recall_tool, search_tool, neighbors_tool, as_of_tool, verify_tool, critique_tool, analogy_tool, propose_edge_tool, confirm_edge_tool, assert_tool, merge_diff_tool])]"

section \<open>Stamping the schemas\<close>

fun stamp_schema :: "json \<Rightarrow> json" where
  "stamp_schema (JObj kvs) =
     (let kvs' = AList.update ''$schema'' (JStr JSON_SCHEMA_2020_12) kvs
      in JObj (if map_of kvs' ''additionalProperties'' = None then kvs' @ [(''additionalProperties'', JBool False)] else kvs'))"
| "stamp_schema v = v"

fun stamp_tool :: "json \<Rightarrow> json" where
  "stamp_tool (JObj kvs) = JObj (AList.map_entry ''inputSchema'' stamp_schema kvs)"
| "stamp_tool v = v"

fun inject_tools :: "json \<Rightarrow> json" where
  "inject_tools (JArr tools) = JArr (map stamp_tool tools)"
| "inject_tools v = v"

fun inject_schema_dialect :: "json \<Rightarrow> json" where
  "inject_schema_dialect (JObj kvs) = JObj (AList.map_entry ''tools'' inject_tools kvs)"
| "inject_schema_dialect v = v"

definition tools_list :: json where
  "tools_list = inject_schema_dialect tools_doc"

end
