(* ===== verification/Mcp_Tools.thy ===== *)
theory Mcp_Tools
  imports Mcp_Schema
begin

text \<open>
  The tools of the MCP server, the dispatch of a JSON-RPC message and the connection loop
  (\<^verbatim>\<open>crates/mem-mcp/src/lib.rs\<close>). Every tool is the whole handler: arguments, authorization with
  its audit record, the query or the write, and the text of the answer.
\<close>

section \<open>Reading tools\<close>

definition call_recall :: "externals \<Rightarrow> mcp_env \<Rightarrow> mcp_server \<Rightarrow> json \<Rightarrow> json tool" where
  "call_recall X E S args =
     sbind (slift (arg_str args ''repo'')) (\<lambda>repo.
     let budget = arg_budget args 15; in_flight = arg_bool args ''include_in_flight'' False in
     sbind (authorize_read X E S repo (''memory.recall budget='' @ decimal budget @ '' in_flight='' @ bool_text in_flight)) (\<lambda>_.
     sbind (store_rd (storyline X (me_query E) (with_in_flight in_flight new_recall) repo budget)) (\<lambda>r.
     sbind (or_panic (render_result X E r)) (\<lambda>txt.
     sok (tool_text txt)))))"

definition embedder_of :: "externals \<Rightarrow> mcp_env \<Rightarrow> mcp_server \<Rightarrow> embedder" where
  "embedder_of X E S =
     (case ms_query_embedder S of Some e \<Rightarrow> e | None \<Rightarrow> hashing_embed X (me_f32 E) (me_tokens E) EMBED_DIM)"

definition run_search ::
    "externals \<Rightarrow> mcp_env \<Rightarrow> mcp_server \<Rightarrow> recall \<Rightarrow> string \<Rightarrow> string \<Rightarrow> nat \<Rightarrow> recall_result tool" where
  "run_search X E S q repo query budget w =
     (case search X (me_query E) (me_f32 E) (embedder_of X E S) q repo query budget (mw_store w) (mw_cache w) of
        (r, c) \<Rightarrow> (case r of None \<Rightarrow> Inl Panic | Some v \<Rightarrow> map_err store_err v, w\<lparr>mw_cache := c\<rparr>))"

definition call_search :: "externals \<Rightarrow> mcp_env \<Rightarrow> mcp_server \<Rightarrow> json \<Rightarrow> json tool" where
  "call_search X E S args =
     sbind (slift (arg_str args ''repo'')) (\<lambda>repo.
     sbind (slift (arg_str args ''query'')) (\<lambda>query.
     let budget = arg_budget args 10; in_flight = arg_bool args ''include_in_flight'' False in
     sbind (authorize_read X E S repo (''memory.search '' @ me_str_debug E query @ '' in_flight='' @ bool_text in_flight)) (\<lambda>_.
     sbind (run_search X E S (with_in_flight in_flight new_recall) repo query budget) (\<lambda>r.
     sbind (or_panic (if arg_bool args ''passages'' False then render_passages X E r else render_result X E r)) (\<lambda>txt.
     sok (tool_text txt))))))"

definition no_unique_node :: "string \<Rightarrow> json" where
  "no_unique_node prefix = tool_error (''no unique node for prefix '' @ sq @ prefix @ sq)"

text \<open>The node a prefix names in the repository of the call, or the answer that hides why not.\<close>

definition resolve_in_repo :: "externals \<Rightarrow> string \<Rightarrow> string \<Rightarrow> content_hash tool" where
  "resolve_in_repo X repo prefix =
     sbind (store_rd (resolve_prefix_in X repo prefix)) (\<lambda>found.
     case found of
       None \<Rightarrow> early (no_unique_node prefix)
     | Some nid \<Rightarrow>
         sbind (store_rd (get_node X nid)) (\<lambda>node.
         case node of
           Some n \<Rightarrow> if n_repo n = repo then sok nid else early (no_unique_node prefix)
         | None \<Rightarrow> early (no_unique_node prefix)))"

definition render_neighbor :: "string \<Rightarrow> neighbor_item \<Rightarrow> string" where
  "render_neighbor repo nb =
     ''  '' @ (case ni_direction nb of Out \<Rightarrow> ''->'' | In \<Rightarrow> ''<-'') @ '' ['' @ edge_kind_debug (ni_edge_kind nb) @
     (if ni_quarantined nb then '' (proposed)'' else []) @ '']'' @
     (case ni_node nb of Some n \<Rightarrow> if ri_repo n \<noteq> repo then '' @'' @ ri_repo n else [] | None \<Rightarrow> []) @ '' '' @
     (case ni_node nb of
        Some n \<Rightarrow> map (\<lambda>c. if c = CHR 0x0A then CHR '' '' else c) (ri_title n)
      | None \<Rightarrow> ''(dangling)'') @ nl"

definition call_neighbors :: "externals \<Rightarrow> mcp_env \<Rightarrow> mcp_server \<Rightarrow> json \<Rightarrow> json tool" where
  "call_neighbors X E S args =
     sbind (slift (arg_str args ''repo'')) (\<lambda>repo.
     sbind (slift (arg_str args ''id_prefix'')) (\<lambda>prefix.
     let budget = arg_budget args 20 in
     sbind (authorize_read X E S repo (''memory.neighbors '' @ prefix)) (\<lambda>_.
     sbind (resolve_in_repo X repo prefix) (\<lambda>nid w.
     sbind (store_rd (neighbors_readable X nid budget (\<lambda>t. t = repo \<or> can_read X E S (mw_tick w) t))) (\<lambda>nbs.
     sok (tool_text (''neighbors of '' @ short_id X 12 nid @ '':'' @ nl @ concat (map (render_neighbor repo) nbs)))) w))))"

definition call_as_of :: "externals \<Rightarrow> mcp_env \<Rightarrow> mcp_server \<Rightarrow> json \<Rightarrow> json tool" where
  "call_as_of X E S args =
     sbind (slift (arg_str args ''repo'')) (\<lambda>repo.
     sbind (slift (ok_or (Rpc (-32602) (''missing integer argument '' @ sq @ ''as_of_ms'' @ sq @ '' (epoch ms)''))
       (Option.bind (json_get ''as_of_ms'' args) json_as_u64))) (\<lambda>as_of_ms.
     let budget = arg_budget args 15; asserted = arg_bool args ''include_asserted'' False in
     sbind (authorize_read X E S repo (''memory.as_of t='' @ decimal (unat as_of_ms) @ '' budget='' @ decimal budget @
       '' asserted='' @ bool_text asserted)) (\<lambda>_.
     sbind (store_rd (as_of X (me_query E) (with_asserted asserted new_recall) repo as_of_ms budget)) (\<lambda>r.
     sbind (or_panic (render_result X E r)) (\<lambda>txt.
     sok (tool_text (''as-of '' @ decimal (unat as_of_ms) @ ''ms '' @ em_dash @ '' '' @
       (if asserted then ''Derived + Asserted'' else ''Derived-plane'') @ '' snapshot:'' @ nl @ txt)))))))"

fun signature_text :: "signature_status \<Rightarrow> string" where
  "signature_text NotApplicableDerived = ''derived (trusted by construction)''"
| "signature_text Valid = ''signature VALID''"
| "signature_text (Invalid e) = ''signature INVALID: '' @ e"
| "signature_text Missing = ''signature MISSING''"

fun status_debug :: "status \<Rightarrow> string" where
  "status_debug Active = ''Active''"
| "status_debug Superseded = ''Superseded''"
| "status_debug Archived = ''Archived''"

definition render_verification :: "externals \<Rightarrow> content_hash \<Rightarrow> verification \<Rightarrow> string" where
  "render_verification X nid v =
     ''verify '' @ short_id X 12 nid @ '':'' @ nl @ ''  trustworthy: '' @ bool_text (is_trustworthy v) @ nl @ ''  '' @
     signature_text (vn_signature v) @ nl @ ''  plane: '' @ plane_debug (ri_plane (vn_item v)) @ ''  tier: '' @
     tier_debug (ri_trust_tier (vn_item v)) @ ''  status: '' @ status_debug (ri_status (vn_item v)) @ nl @
     (if vn_superseded_by v = [] then []
      else ''  '' @ warn_sign @ '' superseded by '' @ decimal (length (vn_superseded_by v)) @ '' node(s)'' @ nl) @
     (if vn_refuted_by v = [] then []
      else ''  '' @ warn_sign @ '' refuted/contradicted by '' @ decimal (length (vn_refuted_by v)) @ '' node(s)'' @ nl) @
     (if vn_contradicted v then ''  '' @ warn_sign @ '' Belnap contradiction (Both) recorded'' @ nl else [])"

definition call_verify :: "externals \<Rightarrow> mcp_env \<Rightarrow> mcp_server \<Rightarrow> json \<Rightarrow> json tool" where
  "call_verify X E S args =
     sbind (slift (arg_str args ''repo'')) (\<lambda>repo.
     sbind (slift (arg_str args ''id_prefix'')) (\<lambda>prefix.
     sbind (authorize_read X E S repo (''memory.verify '' @ prefix)) (\<lambda>_.
     sbind (resolve_in_repo X repo prefix) (\<lambda>nid w.
     sbind (store_rd (verify_readable X nid (can_read X E S (mw_tick w)))) (\<lambda>found.
     case found of
       None \<Rightarrow> early (no_unique_node prefix)
     | Some v \<Rightarrow> sok (tool_text (render_verification X nid v))) w))))"

fun render_gap :: "externals \<Rightarrow> gap \<Rightarrow> string" where
  "render_gap X (TruncatedCoverage a b) = ''  '' @ warn_sign @ '' truncated: showing '' @ decimal a @ '' of '' @ decimal b @
     '' '' @ em_dash @ '' raise budget or narrow the query'' @ nl"
| "render_gap X (SupersededInResult ids) = ''  '' @ warn_sign @ '' '' @ decimal (length ids) @
     '' superseded node(s) in the result '' @ em_dash @ '' stale memory'' @ nl"
| "render_gap X (Contradicted nid) = ''  '' @ warn_sign @ '' contradiction recorded on '' @ short_id X 12 nid @ nl"
| "render_gap X (AdjacentProposal nid) = ''  '' @ warn_sign @ '' unconfirmed proposal adjacent to '' @ short_id X 12 nid @
     '' '' @ em_dash @ '' check memory.neighbors'' @ nl"

definition render_critique :: "externals \<Rightarrow> mcp_env \<Rightarrow> string \<Rightarrow> critique \<Rightarrow> string" where
  "render_critique X E repo c =
     ''self-critic over '' @ sq @ repo @ sq @ '' (completeness '' @ me_fixed E 2 (cr_completeness c) @ ''):'' @ nl @
     (case cr_watermark_age_ms c of
        None \<Rightarrow> [] | Some age \<Rightarrow> ''  freshness: index is '' @ decimal (unat age) @ ''ms behind now'' @ nl) @
     (if cr_gaps c = [] then ''  no completeness gaps found.'' @ nl else []) @ concat (map (render_gap X) (cr_gaps c))"

definition call_critique :: "externals \<Rightarrow> mcp_env \<Rightarrow> mcp_server \<Rightarrow> json \<Rightarrow> json tool" where
  "call_critique X E S args =
     sbind (slift (arg_str args ''repo'')) (\<lambda>repo.
     let budget = arg_budget args 15; query = Option.bind (json_get ''query'' args) json_as_str in
     sbind (authorize_read X E S repo (case query of
         Some q \<Rightarrow> ''memory.critique search '' @ me_str_debug E q @ '' budget='' @ decimal budget
       | None \<Rightarrow> ''memory.critique storyline budget='' @ decimal budget)) (\<lambda>_.
     sbind (case query of
         Some q \<Rightarrow> run_search X E S new_recall repo q budget
       | None \<Rightarrow> store_rd (storyline X (me_query E) new_recall repo budget)) (\<lambda>r.
     sbind (now_ms E) (\<lambda>now w.
     sbind (store_rd (critique_readable X (me_query E) r now (can_read X E S (mw_tick w)))) (\<lambda>c.
     sok (tool_text (render_critique X E repo c))) w))))"

definition readable_repos ::
    "externals \<Rightarrow> mcp_env \<Rightarrow> mcp_server \<Rightarrow> nat \<Rightarrow> string \<Rightarrow> memory_node list \<Rightarrow> string list" where
  "readable_repos X E S tick repo all =
     sorted_list_of_set {r \<in> set (map n_repo all). r \<noteq> repo \<and> can_read X E S tick r}"

definition render_analogy :: "externals \<Rightarrow> mcp_env \<Rightarrow> analogy_candidate \<Rightarrow> string" where
  "render_analogy X E h =
     ''  '' @ short_id X 10 (ri_id (an_item h)) @ '' '' @ me_fixed E 3 (an_score h) @ '' (cos '' @ me_fixed E 3 (an_cosine h) @
     '', struct '' @ me_fixed E 2 (an_structural h) @ '') ['' @ discriminant (ri_kind (an_item h)) @ ''] @'' @
     ri_repo (an_item h) @ '' '' @ title_line 60 (ri_title (an_item h)) @ nl"

definition call_analogy :: "externals \<Rightarrow> mcp_env \<Rightarrow> mcp_server \<Rightarrow> json \<Rightarrow> json tool" where
  "call_analogy X E S args =
     sbind (slift (arg_str args ''repo'')) (\<lambda>repo.
     sbind (slift (arg_str args ''id_prefix'')) (\<lambda>prefix.
     let budget = min (arg_usize args ''budget'' 5) 50 in
     sbind (authorize_read X E S repo (''memory.analogy '' @ prefix)) (\<lambda>_.
     sbind (resolve_in_repo X repo prefix) (\<lambda>nid.
     sbind (store_rd (all_nodes X)) (\<lambda>all w.
     let candidates = readable_repos X E S (mw_tick w) repo all in
     if candidates = [] then sok (tool_text ''no other readable tenants to search for analogues'') w
     else
       sbind (store_rd (analogies X (me_f32 E) nid candidates budget)) (\<lambda>hits.
       sok (tool_text (''analogues of '' @ short_id X 12 nid @ '' across '' @ decimal (length candidates) @
         '' readable tenant(s):'' @ nl @
         (if hits = [] then ''  (none '' @ em_dash @
            '' anchor may lack an embedding, or no candidates share its vector space)'' @ nl else []) @
         concat (map (render_analogy X E) hits) @
         ''(use memory.propose_edge kind=analogous_to to record one as a quarantined proposal)'' @ nl))) w)))))"

section \<open>Writing tools\<close>

definition resolve_readable :: "externals \<Rightarrow> mcp_env \<Rightarrow> mcp_server \<Rightarrow> string \<Rightarrow> (content_hash \<times> memory_node) option tool" where
  "resolve_readable X E S prefix w =
     sbind (store_rd (resolve_prefix_where X prefix (\<lambda>n. can_read X E S (mw_tick w) (n_repo n)))) (\<lambda>found.
     case found of
       None \<Rightarrow> sok None
     | Some nid \<Rightarrow>
         sbind (store_rd (get_node X nid)) (\<lambda>node.
         case node of
           Some n \<Rightarrow> sok (if can_read X E S (mw_tick w) (n_repo n) then Some (nid, n) else None)
         | None \<Rightarrow> sok None)) w"

definition resolve_or_hide :: "externals \<Rightarrow> mcp_env \<Rightarrow> mcp_server \<Rightarrow> string \<Rightarrow> (content_hash \<times> memory_node) tool" where
  "resolve_or_hide X E S prefix =
     sbind (resolve_readable X E S prefix) (\<lambda>found.
     case found of None \<Rightarrow> early (no_unique_node prefix) | Some v \<Rightarrow> sok v)"

definition authorize_writes :: "externals \<Rightarrow> mcp_env \<Rightarrow> mcp_server \<Rightarrow> string set \<Rightarrow> string \<Rightarrow> unit tool" where
  "authorize_writes X E S repos detail =
     sfold (\<lambda>r _. authorize X E S Write r detail) (sorted_list_of_set repos) ()"

definition edge_kind_from_str :: "string \<Rightarrow> edge_kind option" where
  "edge_kind_from_str s =
     (let k = to_ascii_lowercase s in
      if k \<in> {''analogous_to'', ''analogousto'', ''analogy''} then Some AnalogousTo
      else if k = ''supersedes'' then Some Supersedes
      else if k = ''references'' then Some References
      else if k \<in> {''depends_on'', ''dependson''} then Some DependsOn
      else if k = ''implements'' then Some Implements
      else if k = ''decides'' then Some Decides
      else if k = ''refutes'' then Some Refutes
      else if k = ''contradicts'' then Some Contradicts
      else if k \<in> {''caused_by'', ''causedby''} then Some CausedBy
      else if k = ''motivates'' then Some Motivates
      else if k \<in> {''derived_from'', ''derivedfrom''} then Some DerivedFrom
      else if k \<in> {''anchored_to'', ''anchoredto''} then Some AnchoredTo
      else None)"

definition node_kind_from_str :: "string \<Rightarrow> node_kind" where
  "node_kind_from_str s =
     (let k = to_ascii_lowercase s in
      if k = ''claim'' then Claim Confirmed
      else if k \<in> {''analogy'', ''analogy_hypothesis''} then AnalogyHypothesis
      else if k \<in> {''doc'', ''note''} then Doc
      else if k = ''finding'' then Finding
      else if k = ''blocker'' then Blocker
      else if k \<in> {''techdebt'', ''tech_debt''} then TechDebt
      else if k \<in> {''workpackage'', ''work_package''} then WorkPackage
      else if k = ''adr'' then Adr
      else if k = ''handoff'' then Handoff
      else if k = ''benchmark'' then Benchmark
      else if k \<in> {''agentaction'', ''agent_action''} then AgentAction
      else Rationale)"

definition arrow_text :: "externals \<Rightarrow> content_hash \<Rightarrow> string \<Rightarrow> content_hash \<Rightarrow> string" where
  "arrow_text X src middle tgt = short_id X 10 src @ middle @ short_id X 10 tgt"

definition record_proposal ::
    "externals \<Rightarrow> mcp_env \<Rightarrow> mcp_server \<Rightarrow> asserter \<Rightarrow> content_hash \<Rightarrow> content_hash \<Rightarrow> memory_node \<Rightarrow> edge_kind \<Rightarrow> string \<Rightarrow>
     string option \<Rightarrow> json tool" where
  "record_proposal X E S a from_id to_id to_node kind kind_str evidence =
     sbind (now_ms E) (\<lambda>now.
     let edge = propose_edge X a from_id to_id kind Nlp evidence now in
     sbind (lock_writes S) (\<lambda>_.
     sbind (store_rd (out_edges X from_id)) (\<lambda>es.
     if list_ex (\<lambda>e. e_to e = to_id \<and> e_kind e = kind \<and> \<not> e_quarantined e) es then
       sok (tool_text (''a load-bearing '' @ kind_str @ '' edge '' @ arrow_text X from_id '' -> '' to_id @
         '' already exists '' @ em_dash @ '' left intact (not re-proposed)''))
     else
       sbind (store_run store_err (add_edge X edge)) (\<lambda>_.
       sbind (if needs_second_party kind
              then store_run store_err (put_meta X (n_repo to_node) (inserted_by_key edge) (as_bytes (as_pubkey_hex a)))
              else sok ()) (\<lambda>_.
       sok (tool_text (''proposed (quarantined) '' @ arrow_text X from_id ('' -'' @ kind_str @ ''-> '') to_id @
         '' '' @ em_dash @ '' promote with memory.confirm_edge'')))))))"

definition call_propose_edge :: "externals \<Rightarrow> mcp_env \<Rightarrow> mcp_server \<Rightarrow> json \<Rightarrow> json tool" where
  "call_propose_edge X E S args =
     sbind (slift (arg_str args ''from_prefix'')) (\<lambda>from_prefix.
     sbind (slift (arg_str args ''to_prefix'')) (\<lambda>to_prefix.
     let kind_str = arg_str_or args ''kind'' ''analogous_to'';
         evidence = (case arg_str args ''evidence'' of Inl _ \<Rightarrow> None | Inr e \<Rightarrow> Some e) in
     case edge_kind_from_str kind_str of
       None \<Rightarrow> early (tool_error (''unknown edge kind '' @ sq @ kind_str @ sq))
     | Some kind \<Rightarrow>
         (case ms_asserter S of
            None \<Rightarrow> early (tool_error ''server has no signing identity; propose unavailable'')
          | Some a \<Rightarrow>
              sbind (resolve_or_hide X E S from_prefix) (\<lambda>(from_id, from_node).
              sbind (resolve_or_hide X E S to_prefix) (\<lambda>(to_id, to_node).
              sbind (authorize_writes X E S {n_repo from_node, n_repo to_node} (''memory.propose_edge '' @ kind_str)) (\<lambda>_.
              record_proposal X E S a from_id to_id to_node kind kind_str evidence))))))"

text \<open>The second-party rule: who may confirm an edge that contests another principal's node.\<close>

definition may_confirm :: "string option \<Rightarrow> string \<Rightarrow> edge option \<Rightarrow> string option \<Rightarrow> bool" where
  "may_confirm caller author proposal inserter =
     (case caller of
        None \<Rightarrow> False
      | Some c \<Rightarrow> c = author \<or> proposal = None \<or>
          ((\<exists>i. inserter = Some i \<and> i \<noteq> c) \<and> map_option (\<lambda>e. p_asserter (e_provenance e)) proposal \<noteq> Some c))"

definition from_utf8_ok :: "bytes \<Rightarrow> string option" where
  "from_utf8_ok b = (if utf8_valid b then Some (of_bytes b) else None)"

definition second_party ::
    "externals \<Rightarrow> mcp_server \<Rightarrow> content_hash \<Rightarrow> content_hash \<Rightarrow> edge_kind \<Rightarrow> memory_node \<Rightarrow> unit tool" where
  "second_party X S from_id to_id kind to_node =
     (if \<not> needs_second_party kind then sok ()
      else
        sbind (store_rd (out_edges X from_id)) (\<lambda>es.
        let proposal = List.find (\<lambda>e. e_to e = to_id \<and> e_kind e = kind) es in
        sbind (case proposal of
                 Some p \<Rightarrow> sbind (store_rd (get_meta X (inserted_by_key p))) (\<lambda>b. sok (Option.bind b from_utf8_ok))
               | None \<Rightarrow> sok None) (\<lambda>inserter.
        if may_confirm (map_option as_pubkey_hex (ms_asserter S)) (n_author to_node) proposal inserter then sok ()
        else early (tool_error (''a supersedes/refutes/contradicts edge on another principal'' @ sq @
          ''s node must be confirmed by that node'' @ sq @ ''s author or by a writer other than its proposer'')))))"

definition confirm_answer ::
    "externals \<Rightarrow> content_hash \<Rightarrow> content_hash \<Rightarrow> string \<Rightarrow> (supersession_error, confirm_outcome) result \<Rightarrow> json" where
  "confirm_answer X from_id to_id kind_str r =
     (case r of
        Inr ConfirmedNow \<Rightarrow> tool_text (''confirmed '' @ arrow_text X from_id ('' -'' @ kind_str @ ''-> '') to_id @ '' (now load-bearing)'')
      | Inr AlreadyConfirmed \<Rightarrow> tool_text ''edge is already load-bearing''
      | Inr NotFound \<Rightarrow> tool_error ''no such edge''
      | Inl e \<Rightarrow> tool_error (''confirm rejected: '' @ supersession_error_text e))"

definition promote_proposal ::
    "externals \<Rightarrow> mcp_env \<Rightarrow> mcp_server \<Rightarrow> content_hash \<Rightarrow> content_hash \<Rightarrow> memory_node \<Rightarrow> edge_kind \<Rightarrow> string \<Rightarrow> json tool" where
  "promote_proposal X E S from_id to_id to_node kind kind_str =
     sbind (lock_writes S) (\<lambda>_.
     sbind (second_party X S from_id to_id kind to_node) (\<lambda>_.
     sbind (now_ms E) (\<lambda>now w.
     case confirm_edge X from_id to_id kind now (mw_store w) of
       (r, s) \<Rightarrow> (Inr (confirm_answer X from_id to_id kind_str r), w\<lparr>mw_store := s\<rparr>))))"

definition call_confirm_edge :: "externals \<Rightarrow> mcp_env \<Rightarrow> mcp_server \<Rightarrow> json \<Rightarrow> json tool" where
  "call_confirm_edge X E S args =
     sbind (slift (arg_str args ''from_prefix'')) (\<lambda>from_prefix.
     sbind (slift (arg_str args ''to_prefix'')) (\<lambda>to_prefix.
     let kind_str = arg_str_or args ''kind'' ''analogous_to'' in
     case edge_kind_from_str kind_str of
       None \<Rightarrow> early (tool_error (''unknown edge kind '' @ sq @ kind_str @ sq))
     | Some kind \<Rightarrow>
         sbind (resolve_or_hide X E S from_prefix) (\<lambda>(from_id, from_node).
         sbind (resolve_or_hide X E S to_prefix) (\<lambda>(to_id, to_node).
         sbind (authorize_writes X E S {n_repo from_node, n_repo to_node} (''memory.confirm_edge '' @ kind_str)) (\<lambda>_.
         promote_proposal X E S from_id to_id to_node kind kind_str)))))"

definition embed_for_write :: "externals \<Rightarrow> mcp_env \<Rightarrow> mcp_server \<Rightarrow> string \<Rightarrow> versioned_vector option \<times> string option" where
  "embed_for_write X E S content =
     (case embedder_of X E S content of Inr v \<Rightarrow> (Some v, None) | Inl e \<Rightarrow> (None, Some (embed_error_text e)))"

definition record_assertion ::
    "externals \<Rightarrow> mcp_env \<Rightarrow> mcp_server \<Rightarrow> asserter \<Rightarrow> json \<Rightarrow> string \<Rightarrow> string \<Rightarrow> string \<Rightarrow> json tool" where
  "record_assertion X E S a args repo content kind_str =
     sbind (now_ms E) (\<lambda>now.
     let valid_from = (case Option.bind (json_get ''valid_from'' args) json_as_u64 of None \<Rightarrow> now | Some t \<Rightarrow> t);
         (embedding, embed_err) = embed_for_write X E S content;
         node = assert_node_with X a repo (node_kind_from_str kind_str) content valid_from now embedding
     in sbind (lock_writes S) (\<lambda>_.
        sbind (store_run store_err (put_node X node)) (\<lambda>_.
        sok (tool_text (''asserted '' @ short_id X 12 (node_id X node) @ '' ['' @ discriminant (n_kind node) @ ''] in '' @
          repo @ '' by '' @ cg_recipient (ms_grant S) @
          (case embed_err of
             Some e \<Rightarrow> '' '' @ em_dash @ '' WARNING: not embedded ('' @ e @
               ''); this node will NOT be findable by memory.search until backfilled''
           | None \<Rightarrow> []))))))"

definition call_assert :: "externals \<Rightarrow> mcp_env \<Rightarrow> mcp_server \<Rightarrow> json \<Rightarrow> json tool" where
  "call_assert X E S args =
     sbind (slift (arg_str args ''repo'')) (\<lambda>repo.
     sbind (slift (arg_str args ''content'')) (\<lambda>content.
     let kind_str = arg_str_or args ''kind'' ''rationale'' in
     case ms_asserter S of
       None \<Rightarrow> early (tool_error ''server has no signing identity; assert unavailable'')
     | Some a \<Rightarrow>
         sbind (authorize X E S Write repo (''memory.assert '' @ kind_str)) (\<lambda>_.
         record_assertion X E S a args repo content kind_str)))"

text \<open>The repository that owns an endpoint of a diff's edge; the last node with an id wins.\<close>

definition edge_endpoint_repo :: "externals \<Rightarrow> memory_diff \<Rightarrow> content_hash \<Rightarrow> string tool" where
  "edge_endpoint_repo X diff h =
     (case map_of (rev (map (\<lambda>n. (node_id X n, n_repo n)) (md_nodes diff))) h of
        Some r \<Rightarrow> sok r
      | None \<Rightarrow>
          sbind (store_rd (get_node X h)) (\<lambda>node.
          case node of
            Some n \<Rightarrow> sok (n_repo n)
          | None \<Rightarrow> early (tool_error (''edge references unknown node '' @ short_id X 12 h @ ''; cannot authorize''))))"

definition diff_repos :: "externals \<Rightarrow> memory_diff \<Rightarrow> string set tool" where
  "diff_repos X diff =
     sfold (\<lambda>h repos. sbind (edge_endpoint_repo X diff h) (\<lambda>r. sok (insert r repos)))
       (concat (map (\<lambda>e. [e_from e, e_to e]) (md_edges diff))) (set (map n_repo (md_nodes diff)))"

definition diff_size :: "memory_diff \<Rightarrow> string" where
  "diff_size diff = ''('' @ decimal (length (md_nodes diff)) @ '' nodes, '' @ decimal (length (md_edges diff)) @ '' edges)''"

definition merge_answer :: "(assert_error, merge_report) result \<Rightarrow> json" where
  "merge_answer r =
     (case r of
        Inl e \<Rightarrow> tool_error (''merge rejected: '' @ assert_error_text e)
      | Inr rep \<Rightarrow> tool_text (''merged '' @ decimal (mg_nodes rep) @ '' nodes, '' @ decimal (mg_edges rep) @ '' edges'' @
          (if mg_unembedded rep > 0 then '' '' @ em_dash @ '' '' @ decimal (mg_unembedded rep) @
             '' relayed node(s) stored WITHOUT their embedding (only the author may set it); not findable by memory.search until the author merges it or a backfill runs''
           else [])))"

definition merge_authorized :: "externals \<Rightarrow> mcp_env \<Rightarrow> mcp_server \<Rightarrow> memory_diff \<Rightarrow> json tool" where
  "merge_authorized X E S diff =
     sbind (diff_repos X diff) (\<lambda>repos.
     sbind (authorize_writes X E S repos (''memory.merge_diff '' @ diff_size diff)) (\<lambda>_.
     sbind (lock_writes S) (\<lambda>_.
     sbind (now_ms E) (\<lambda>now w.
     case apply_diff X now diff (map_option as_pubkey_hex (ms_asserter S)) (mw_store w) of
       (r, s) \<Rightarrow> (Inr (merge_answer r), w\<lparr>mw_store := s\<rparr>)))))"

definition call_merge_diff :: "externals \<Rightarrow> mcp_env \<Rightarrow> mcp_server \<Rightarrow> json \<Rightarrow> json tool" where
  "call_merge_diff X E S args =
     sbind (slift (arg_str args ''diff'')) (\<lambda>diff_json.
     if length diff_json > MAX_DIFF_BYTES then
       early (tool_error (''diff too large ('' @ decimal (length diff_json) @ '' bytes > '' @ decimal MAX_DIFF_BYTES @ '' cap)''))
     else
       case me_diff E diff_json of
         Inl e \<Rightarrow> early (tool_error (''malformed diff: '' @ assert_error_text (SerdeError e)))
       | Inr diff \<Rightarrow>
           if length (md_nodes diff) > MAX_DIFF_NODES \<or> length (md_edges diff) > MAX_DIFF_EDGES then
             early (tool_error (''diff exceeds size cap '' @ diff_size diff))
           else if md_nodes diff = [] \<and> md_edges diff = [] then early (tool_error ''empty diff (no nodes, no edges)'')
           else merge_authorized X E S diff)"

section \<open>Dispatch\<close>

definition initialize :: "mcp_env \<Rightarrow> json \<Rightarrow> json" where
  "initialize E params =
     (let negotiated = (if Option.bind (json_get ''protocolVersion'' params) json_as_str = Some PROTOCOL_VERSION_2026
            then PROTOCOL_VERSION_2026 else PROTOCOL_VERSION)
      in JObj [(''protocolVersion'', JStr negotiated),
           (''capabilities'', JObj [(''tools'', JObj []), (''experimental'', JObj [
              (''ai.citrate/statelessGrant'', JObj [(''metaKey'', JStr GRANT_META_KEY),
                 (''supportedProtocolVersions'', JArr [JStr PROTOCOL_VERSION_2026, JStr PROTOCOL_VERSION])])])]),
           (''serverInfo'', JObj [(''name'', JStr ''citrate-memories''), (''version'', JStr (me_version E))])])"

definition tool_handlers :: "(string \<times> (externals \<Rightarrow> mcp_env \<Rightarrow> mcp_server \<Rightarrow> json \<Rightarrow> json tool)) list" where
  "tool_handlers =
     [(''memory.recall'', call_recall), (''memory.search'', call_search), (''memory.neighbors'', call_neighbors),
      (''memory.as_of'', call_as_of), (''memory.verify'', call_verify), (''memory.critique'', call_critique),
      (''memory.analogy'', call_analogy), (''memory.assert'', call_assert), (''memory.merge_diff'', call_merge_diff),
      (''memory.propose_edge'', call_propose_edge), (''memory.confirm_edge'', call_confirm_edge)]"

text \<open>An early return is an answer of the tool.\<close>

definition returning :: "json tool \<Rightarrow> json tool" where
  "returning m w = (case m w of (Inl (Early v), w') \<Rightarrow> (Inr v, w') | r \<Rightarrow> r)"

definition tools_call :: "externals \<Rightarrow> mcp_env \<Rightarrow> mcp_server \<Rightarrow> json \<Rightarrow> json tool" where
  "tools_call X E S params =
     (case Option.bind (json_get ''name'' params) json_as_str of
        None \<Rightarrow> serr (Rpc (-32602) ''missing tool name'')
      | Some name \<Rightarrow>
          let args = (case json_get ''arguments'' params of None \<Rightarrow> JObj [] | Some a \<Rightarrow> a) in
          (case map_of tool_handlers name of
             Some h \<Rightarrow> returning (h X E S args)
           | None \<Rightarrow> serr (Rpc (-32602) (''unknown tool: '' @ name))))"

definition dispatch :: "externals \<Rightarrow> mcp_env \<Rightarrow> mcp_server \<Rightarrow> string \<Rightarrow> json \<Rightarrow> json tool" where
  "dispatch X E S meth params =
     (if meth = ''initialize'' then sok (initialize E params)
      else if meth = ''tools/list'' then sok tools_list
      else if meth = ''tools/call'' then tools_call X E S params
      else if meth = ''ping'' then sok (JObj [])
      else serr (Rpc (-32601) (''method not found: '' @ meth)))"

text \<open>The grant a request presents: none, refused with an error, or accepted.\<close>

definition request_grant :: "externals \<Rightarrow> mcp_env \<Rightarrow> mcp_server \<Rightarrow> json option \<Rightarrow> (int \<times> string, capability_grant option) result" where
  "request_grant X E S meta =
     (case Option.bind meta (json_get GRANT_META_KEY) of
        None \<Rightarrow> Inr None
      | Some raw \<Rightarrow>
          (case me_grant E raw of
             Inl e \<Rightarrow> Inl (-32602, ''invalid _meta grant: '' @ e)
           | Inr grant \<Rightarrow>
               (case verify_signature X grant of
                  Inl e \<Rightarrow> Inl (GRANT_REJECTED, ''grant rejected: '' @ authz_error_text e)
                | Inr _ \<Rightarrow>
                    if cg_issuer_pubkey grant \<noteq> cg_issuer_pubkey (ms_grant S) then
                      Inl (GRANT_REJECTED, ''grant rejected: issuer is not the trusted grant root'')
                    else if cg_recipient grant \<noteq> cg_recipient (ms_grant S) then
                      Inl (GRANT_REJECTED, ''grant rejected: recipient is not the authenticated principal'')
                    else Inr (Some grant))))"

definition request_params :: "json \<Rightarrow> json" where
  "request_params req = (case json_get ''params'' req of None \<Rightarrow> JNull | Some p \<Rightarrow> p)"

text \<open>The session with the context of one request, and whether the request brought a grant.\<close>

definition request_context :: "externals \<Rightarrow> mcp_env \<Rightarrow> mcp_server \<Rightarrow> json \<Rightarrow> (int \<times> string, mcp_server \<times> bool) result" where
  "request_context X E S params =
     (let meta = json_get ''_meta'' params;
          S1 = S\<lparr>ms_req_trace := Option.bind (Option.bind meta (json_get ''traceparent'')) json_as_str\<rparr>
      in rbind (request_grant X E S meta) (\<lambda>rg.
         Inr (case rg of None \<Rightarrow> (S1, False) | Some g \<Rightarrow> (S1\<lparr>ms_req_grant := Some g\<rparr>, True))))"

text \<open>One message: the answer (none for a notification), or a panic.\<close>

definition handle_line ::
    "externals \<Rightarrow> mcp_env \<Rightarrow> string \<Rightarrow> mcp_server \<times> mcp_world \<Rightarrow> string option option \<times> mcp_server \<times> mcp_world" where
  "handle_line X E line = (\<lambda>(S, w).
     case me_parse E line of
       Inl e \<Rightarrow> (Some (Some (err_response E JNull (-32700) (''parse error: '' @ e))), S, w)
     | Inr req \<Rightarrow>
         let rid = json_get ''id'' req;
             meth = (case Option.bind (json_get ''method'' req) json_as_str of None \<Rightarrow> [] | Some m \<Rightarrow> m);
             params = request_params req
         in case request_context X E S params of
              Inl (code, msg) \<Rightarrow> (Some (map_option (\<lambda>i. err_response E i code msg) rid), S\<lparr>ms_req_trace := None\<rparr>, w)
            | Inr (S2, has_req_grant) \<Rightarrow>
                (case dispatch X E S2 meth params w of
                   (r, w') \<Rightarrow>
                     let S3 = (if has_req_grant then S2\<lparr>ms_req_grant := None\<rparr> else S2)\<lparr>ms_req_trace := None\<rparr>
                     in case r of
                          Inr v \<Rightarrow> (Some (map_option (\<lambda>i. ok_response E i v) rid), S3, w')
                        | Inl (Rpc code msg) \<Rightarrow> (Some (map_option (\<lambda>i. err_response E i code msg) rid), S3, w')
                        | Inl (Early v) \<Rightarrow> (Some (map_option (\<lambda>i. ok_response E i v) rid), S3, w')
                        | Inl Panic \<Rightarrow> (None, S2, w')))"

section \<open>Connections\<close>

datatype serve_end = Served | ReadFailed string | WriteFailed string | Panicked

text \<open>\<^verbatim>\<open>serve_connection\<close>: each line of the reader, and whether writing the answer fails.\<close>

fun serve_connection ::
    "externals \<Rightarrow> mcp_env \<Rightarrow> (string \<Rightarrow> string option) \<Rightarrow> (string, string) result list \<Rightarrow> mcp_server \<times> mcp_world \<Rightarrow>
     serve_end \<times> string list \<times> mcp_server \<times> mcp_world" where
  "serve_connection X E wr [] Sw = (Served, [], Sw)"
| "serve_connection X E wr (Inl e # ls) Sw = (ReadFailed e, [], Sw)"
| "serve_connection X E wr (Inr line # ls) Sw =
     (if trim line = [] then serve_connection X E wr ls Sw
      else
        case handle_line X E line Sw of
          (None, Sw') \<Rightarrow> (Panicked, [], Sw')
        | (Some None, Sw') \<Rightarrow> serve_connection X E wr ls Sw'
        | (Some (Some resp), Sw') \<Rightarrow>
            (case wr resp of
               Some e \<Rightarrow> (WriteFailed e, [], Sw')
             | None \<Rightarrow> (case serve_connection X E wr ls Sw' of (r, out, Sw'') \<Rightarrow> (r, resp # out, Sw''))))"

end
