(* ===== verification/Recall_Safety.thy ===== *)
theory Recall_Safety
  imports Search Anchor Supersession
begin

text \<open>
  What the read path guarantees: the storyline and the snapshot return exactly the canonical
  nodes of one repository in order, the in-flight layer is exactly what no merge has reached,
  a node verifies as trustworthy exactly when nothing in the graph speaks against it, and the
  grant-aware queries do not depend on repositories the caller may not read.
\<close>

section \<open>The walk along the commit spine\<close>

lemma parent_map_fold:
  "fold (\<lambda>e m. if e_kind e = TemporalNext \<or> e_kind e = MergeParent then m(e_from e := m (e_from e) @ [e_to e]) else m)
     es m h = m h @ map e_to (filter (\<lambda>e. (e_kind e = TemporalNext \<or> e_kind e = MergeParent) \<and> e_from e = h) es)"
  by (induction es arbitrary: m) auto

lemma parent_map_set:
  "set (parent_map es h) = {e_to e | e. e \<in> set es \<and> (e_kind e = TemporalNext \<or> e_kind e = MergeParent) \<and> e_from e = h}"
  unfolding parent_map_def parent_map_fold by auto

lemma spine_closed:
  "reachable \<union> set stack \<subseteq> spine parents reachable stack \<and>
   (\<forall>h \<in> spine parents reachable stack - reachable. set (parents h) \<subseteq> spine parents reachable stack) \<and>
   spine parents reachable stack \<subseteq> reachable \<union> {(a, b). b \<in> set (parents a)}\<^sup>* `` set stack"
proof (induction parents reachable stack rule: spine.induct)
  case (1 parents reachable)
  then show ?case by simp
next
  case (2 parents reachable h stack)
  show ?case
  proof (cases "h \<in> reachable")
    case True
    with 2(1) show ?thesis by auto
  next
    case False
    let ?R = "{(a, b). b \<in> set (parents a)}" and ?S = "spine parents (insert h reachable) (rev (parents h) @ stack)"
    note IH = 2(2) [OF False]
    have "?R\<^sup>* `` set (rev (parents h) @ stack) \<subseteq> ?R\<^sup>* `` set (h # stack)"
      by (auto intro: converse_rtrancl_into_rtrancl)
    moreover have "h \<in> ?R\<^sup>* `` set (h # stack)" by auto
    ultimately have "?S \<subseteq> reachable \<union> ?R\<^sup>* `` set (h # stack)" using IH by blast
    moreover have "set (parents h) \<subseteq> ?S" using IH by auto
    ultimately show ?thesis using IH False by (simp del: set_append) auto
  qed
qed

lemma spine_spec: "spine parents {} [h] = {(a, b). b \<in> set (parents a)}\<^sup>* `` {h}"
proof
  let ?R = "{(a, b). b \<in> set (parents a)}"
  note c = spine_closed [of "{}" "[h]" parents]
  show "spine parents {} [h] \<subseteq> ?R\<^sup>* `` {h}" using c by simp
  have "b \<in> spine parents {} [h]" if "(h, b) \<in> ?R\<^sup>*" for b
    using that by (induction rule: rtrancl_induct) (use c in auto)
  then show "?R\<^sup>* `` {h} \<subseteq> spine parents {} [h]" by blast
qed

text \<open>The stored commit-spine links, and the canonical commits: those a chain of links leads to
  from the commit the watermark names.\<close>

definition spine_links :: "externals \<Rightarrow> dag_store \<Rightarrow> (content_hash \<times> content_hash) set" where
  "spine_links X s = {(e_from e, e_to e) | e. edge_view X s (edge_key e) = Some e \<and>
     (e_kind e = TemporalNext \<or> e_kind e = MergeParent)}"

definition canonical :: "externals \<Rightarrow> query_env \<Rightarrow> string \<Rightarrow> memory_node list \<Rightarrow> dag_store \<Rightarrow> content_hash set" where
  "canonical X Q repo all s =
     (case Option.bind (watermark_of X Q repo s) wm_head of
        None \<Rightarrow> {}
      | Some sha \<Rightarrow> (case sha_to_id X repo all sha of None \<Rightarrow> {} | Some h \<Rightarrow> (spine_links X s)\<^sup>* `` {h}))"

lemma canonical_reachable_spec:
  assumes "store_ok X s"
  shows "canonical_reachable X Q repo all s = Inr (canonical X Q repo all s)"
proof -
  obtain es where es: "scan_prefix X EDGES_OUT [] s = Inr es"
      "\<And>e. e \<in> set es \<longleftrightarrow> edge_view X s (edge_key e) = Some e \<and> take (length ([] :: bytes)) (edge_key e) = []"
    by (rule scan_prefix_spec [OF store_okD(1,4) [OF assms], of "[]"]) (assumption | rule that)+
  have "{(a, b). b \<in> set (parent_map es a)} = spine_links X s"
    by (auto simp: parent_map_set spine_links_def es(2))
  then show ?thesis
    using es(1) by (auto simp: canonical_reachable_def canonical_def all_edges_def spine_spec simp del: spine.simps split: option.split)
qed

section \<open>The in-flight layer\<close>

definition branch_contains :: "externals \<Rightarrow> dag_store \<Rightarrow> memory_node \<Rightarrow> content_hash \<Rightarrow> bool" where
  "branch_contains X s b c \<longleftrightarrow> (\<exists>e. edge_view X s (edge_key e) = Some e \<and> e_from e = node_id X b \<and>
     e_to e = c \<and> e_kind e = BranchContains)"

abbreviation branch_of :: "string \<Rightarrow> memory_node \<Rightarrow> bool" where
  "branch_of repo b \<equiv> n_repo b = repo \<and> n_kind b = Branch"

lemma label_commits_at:
  "label_commits R br es m c = (case m c of Some l \<Rightarrow> Some l
     | None \<Rightarrow> if c \<notin> R \<and> (\<exists>e \<in> set es. e_kind e = BranchContains \<and> e_to e = c) then Some br else None)"
  unfolding label_commits_def by (induction es arbitrary: m) (auto split: option.splits)

lemma label_branch_at:
  assumes "store_ok X s"
  shows "\<exists>m'. label_branch X repo R s want b m = Inr m' \<and> (\<forall>c. m' c = (case m c of Some l \<Rightarrow> Some l
    | None \<Rightarrow> if branch_of repo b \<and> (n_status b = Active) = want \<and> c \<notin> R \<and> branch_contains X s b c
              then Some (branch_name b) else None))"
proof -
  obtain es where es: "out_edges X (node_id X b) s = Inr es"
      "\<And>e. e \<in> set es \<longleftrightarrow> edge_view X s (edge_key e) = Some e \<and> e_from e = node_id X b"
    by (rule out_edges_spec [OF assms, of "node_id X b"]) (rule that)
  have "(\<exists>e \<in> set es. e_kind e = BranchContains \<and> e_to e = c) \<longleftrightarrow> branch_contains X s b c" for c
    by (auto simp: es(2) branch_contains_def)
  with es(1) show ?thesis by (auto simp: label_branch_def label_commits_at split: option.split)
qed

lemma label_pass:
  assumes ok: "store_ok X s"
  shows "\<exists>m'. rfold (label_branch X repo R s want) bs m = Inr m' \<and>
    (\<forall>c l. m c = Some l \<longrightarrow> m' c = Some l) \<and>
    (\<forall>c. m c = None \<longrightarrow> (case m' c of
       None \<Rightarrow> \<not> (\<exists>b \<in> set bs. branch_of repo b \<and> (n_status b = Active) = want \<and> c \<notin> R \<and> branch_contains X s b c)
     | Some l \<Rightarrow> \<exists>b \<in> set bs. branch_of repo b \<and> (n_status b = Active) = want \<and> c \<notin> R \<and> branch_contains X s b c \<and>
         l = branch_name b))"
proof (induction bs arbitrary: m)
  case Nil
  then show ?case by simp
next
  case (Cons b bs)
  obtain m1 where m1: "label_branch X repo R s want b m = Inr m1" and at: "\<And>c. m1 c = (case m c of Some l \<Rightarrow> Some l
      | None \<Rightarrow> if branch_of repo b \<and> (n_status b = Active) = want \<and> c \<notin> R \<and> branch_contains X s b c
                then Some (branch_name b) else None)"
    using label_branch_at [OF ok, of repo R want b m] by blast
  obtain m' where m': "rfold (label_branch X repo R s want) bs m1 = Inr m'"
      and keep: "\<And>c l. m1 c = Some l \<Longrightarrow> m' c = Some l"
      and add: "\<And>c. m1 c = None \<Longrightarrow> (case m' c of
        None \<Rightarrow> \<not> (\<exists>b \<in> set bs. branch_of repo b \<and> (n_status b = Active) = want \<and> c \<notin> R \<and> branch_contains X s b c)
      | Some l \<Rightarrow> \<exists>b \<in> set bs. branch_of repo b \<and> (n_status b = Active) = want \<and> c \<notin> R \<and> branch_contains X s b c \<and>
          l = branch_name b)"
    using Cons.IH [of m1] by blast
  show ?case
  proof (intro exI conjI allI impI)
    show "rfold (label_branch X repo R s want) (b # bs) m = Inr m'" using m1 m' by simp
    show "m' c = Some l" if "m c = Some l" for c l using keep [of c l] at [of c] that by simp
    show "case m' c of
        None \<Rightarrow> \<not> (\<exists>b \<in> set (b # bs). branch_of repo b \<and> (n_status b = Active) = want \<and> c \<notin> R \<and> branch_contains X s b c)
      | Some l \<Rightarrow> \<exists>b \<in> set (b # bs). branch_of repo b \<and> (n_status b = Active) = want \<and> c \<notin> R \<and> branch_contains X s b c \<and>
          l = branch_name b" if none: "m c = None" for c
    proof (cases "m1 c")
      case (Some l)
      with keep have "m' c = Some l" by blast
      with at [of c] none Some show ?thesis by (auto split: if_splits)
    next
      case None
      with at [of c] none have "\<not> (branch_of repo b \<and> (n_status b = Active) = want \<and> c \<notin> R \<and> branch_contains X s b c)"
        by (auto split: if_splits)
      with add [OF None] show ?thesis by (auto split: option.splits)
    qed
  qed
qed

text \<open>A commit is labelled exactly when a branch of the repository contains it and no merge has
  reached it; the label is the name of such a branch, a live one if there is one.\<close>

lemma in_flight_map_spec:
  assumes ok: "store_ok X s"
  shows "\<exists>m. in_flight_map X Q repo all s = Inr m \<and>
    (\<forall>c. m c = None \<longleftrightarrow> c \<in> canonical X Q repo all s \<or> \<not> (\<exists>b \<in> set all. branch_of repo b \<and> branch_contains X s b c)) \<and>
    (\<forall>c l. m c = Some l \<longrightarrow> (\<exists>b \<in> set all. branch_of repo b \<and> branch_contains X s b c \<and> l = branch_name b \<and>
       (n_status b = Active \<or> \<not> (\<exists>b \<in> set all. branch_of repo b \<and> n_status b = Active \<and> branch_contains X s b c))))"
proof -
  let ?R = "canonical X Q repo all s"
  obtain m1 where m1: "rfold (label_branch X repo ?R s True) all Map.empty = Inr m1"
      and add1: "\<And>c. case m1 c of
        None \<Rightarrow> \<not> (\<exists>b \<in> set all. branch_of repo b \<and> (n_status b = Active) = True \<and> c \<notin> ?R \<and> branch_contains X s b c)
      | Some l \<Rightarrow> \<exists>b \<in> set all. branch_of repo b \<and> (n_status b = Active) = True \<and> c \<notin> ?R \<and> branch_contains X s b c \<and>
          l = branch_name b"
    using label_pass [OF ok, of repo ?R True all Map.empty] by auto
  obtain m where m: "rfold (label_branch X repo ?R s False) all m1 = Inr m"
      and keep: "\<And>c l. m1 c = Some l \<Longrightarrow> m c = Some l"
      and add: "\<And>c. m1 c = None \<Longrightarrow> (case m c of
        None \<Rightarrow> \<not> (\<exists>b \<in> set all. branch_of repo b \<and> (n_status b = Active) = False \<and> c \<notin> ?R \<and> branch_contains X s b c)
      | Some l \<Rightarrow> \<exists>b \<in> set all. branch_of repo b \<and> (n_status b = Active) = False \<and> c \<notin> ?R \<and> branch_contains X s b c \<and>
          l = branch_name b)"
    using label_pass [OF ok, of repo ?R False all m1] by blast
  show ?thesis
  proof (intro exI conjI allI impI)
    show "in_flight_map X Q repo all s = Inr m"
      by (simp add: in_flight_map_def canonical_reachable_spec [OF ok] m1 m)
    show "m c = None \<longleftrightarrow> c \<in> ?R \<or> \<not> (\<exists>b \<in> set all. branch_of repo b \<and> branch_contains X s b c)" for c
      using add1 [of c] keep [of c] add [of c] by (cases "m1 c"; cases "m c") auto
    show "\<exists>b \<in> set all. branch_of repo b \<and> branch_contains X s b c \<and> l = branch_name b \<and>
        (n_status b = Active \<or> \<not> (\<exists>b \<in> set all. branch_of repo b \<and> n_status b = Active \<and> branch_contains X s b c))"
      if "m c = Some l" for c l
      using add1 [of c] keep [of c] add [of c] that by (cases "m1 c") auto
  qed
qed

section \<open>Storyline and snapshot\<close>

definition visible_node ::
    "externals \<Rightarrow> query_env \<Rightarrow> recall \<Rightarrow> string \<Rightarrow> memory_node list \<Rightarrow> dag_store \<Rightarrow> memory_node \<Rightarrow> bool" where
  "visible_node X Q q repo all s n \<longleftrightarrow> n_repo n = repo \<and> \<not> is_reference n \<and> n_kind n \<noteq> Branch \<and>
     (rc_include_in_flight q \<or> node_id X n \<in> canonical X Q repo all s \<or>
      \<not> (\<exists>b \<in> set all. branch_of repo b \<and> branch_contains X s b (node_id X n)))"

text \<open>The strict order of the storyline: newest first, ties by id.\<close>

definition more_recent :: "externals \<Rightarrow> memory_node \<Rightarrow> memory_node \<Rightarrow> bool" where
  "more_recent X a b \<longleftrightarrow> n_valid_from b < n_valid_from a \<or>
     (n_valid_from a = n_valid_from b \<and> hash_bytes (node_id X a) < hash_bytes (node_id X b))"

lemma recency_key_less: "recency_key X a < recency_key X b \<longleftrightarrow> more_recent X a b"
proof -
  have u: "unat (- 1 - x) = 2 ^ 64 - 1 - unat x" for x :: u64
    using unat_sub [of x "- 1"] by (simp add: unsigned_minus_1_eq_mask mask_eq_exp_minus_1)
  have "(- 1 - x < - 1 - y) = (y < x)" for x y :: u64
    using unat_bound [of x] unat_bound [of y] by (auto simp: word_less_nat_alt u)
  moreover have "(- 1 - x = - 1 - y) = (x = y)" for x y :: u64 by simp
  ultimately show ?thesis by (auto simp: recency_key_def more_recent_def order_le_less)
qed

lemma recency_sort:
  assumes "distinct (map (node_id X) ns)"
  shows "sorted_wrt (more_recent X) (sort_key (recency_key X) ns)"
proof -
  have "inj_on (recency_key X) (set ns)"
    using assms by (auto simp: inj_on_def recency_key_def distinct_map)
  then have "distinct (map (recency_key X) (sort_key (recency_key X) ns))"
    using assms by (simp add: distinct_map)
  then have "sorted_wrt (<) (map (recency_key X) (sort_key (recency_key X) ns))"
    by (simp add: strict_sorted_iff)
  then show ?thesis by (simp add: sorted_wrt_map recency_key_less)
qed

lemma tenant_scan_spec:
  assumes ok: "store_ok X s" and all: "all_nodes X s = Inr all"
  shows "\<exists>nodes m. tenant_scan X Q q repo s = Inr (nodes, m) \<and> in_flight_map X Q repo all s = Inr m \<and>
    set nodes = {n \<in> set all. visible_node X Q q repo all s n} \<and> distinct (map (node_id X) nodes)"
proof -
  obtain m where m: "in_flight_map X Q repo all s = Inr m"
      "\<And>c. m c = None \<longleftrightarrow> c \<in> canonical X Q repo all s \<or> \<not> (\<exists>b \<in> set all. branch_of repo b \<and> branch_contains X s b c)"
    using in_flight_map_spec [OF ok, of Q repo all] by blast
  obtain ns where "all_nodes X s = Inr ns" "distinct (map (node_id X) ns)"
    by (rule all_nodes_spec [OF ok]) (rule that)
  with all have "distinct (map (node_id X) all)" by simp
  then show ?thesis
    using all m(1) by (auto simp: tenant_scan_def visible_node_def m(2) distinct_map inj_on_def)
qed

text \<open>C31. The storyline is exact: it always returns, its items are the first \<open>budget\<close> nodes of the list
  of all visible nodes of the repository in strict order of recency, and its total is the
  length of that list. Without the in-flight switch a commit that some branch contains is
  shown only if the watermark's commit reaches it; an item is labelled exactly when a branch
  contains it and no merge has reached it, and then with the name of such a branch.\<close>

theorem storyline_contract:
  assumes "store_ok X s"
  shows "\<exists>all ns res. all_nodes X s = Inr all \<and> storyline X Q q repo budget s = Inr res \<and>
    sorted_wrt (more_recent X) ns \<and> set ns = {n \<in> set all. visible_node X Q q repo all s n} \<and>
    rr_total_in_tenant res = length ns \<and>
    map (\<lambda>i. i\<lparr>ri_in_flight_branch := None\<rparr>) (rr_items res) = map (\<lambda>n. from_node X n None) (take budget ns) \<and>
    (\<forall>i \<in> set (rr_items res). case ri_in_flight_branch i of
       None \<Rightarrow> ri_id i \<in> canonical X Q repo all s \<or> \<not> (\<exists>b \<in> set all. branch_of repo b \<and> branch_contains X s b (ri_id i))
     | Some l \<Rightarrow> ri_id i \<notin> canonical X Q repo all s \<and>
         (\<exists>b \<in> set all. branch_of repo b \<and> branch_contains X s b (ri_id i) \<and> l = branch_name b))"
proof -
  obtain all where all: "all_nodes X s = Inr all" by (rule all_nodes_spec [OF assms])
  obtain nodes m where scan: "tenant_scan X Q q repo s = Inr (nodes, m)" "in_flight_map X Q repo all s = Inr m"
      "set nodes = {n \<in> set all. visible_node X Q q repo all s n}" "distinct (map (node_id X) nodes)"
    using tenant_scan_spec [OF assms all] by blast
  obtain m' where m': "in_flight_map X Q repo all s = Inr m'"
      "\<And>c. m' c = None \<longleftrightarrow> c \<in> canonical X Q repo all s \<or> \<not> (\<exists>b \<in> set all. branch_of repo b \<and> branch_contains X s b c)"
      "\<And>c l. m' c = Some l \<Longrightarrow> \<exists>b \<in> set all. branch_of repo b \<and> branch_contains X s b c \<and> l = branch_name b"
    using in_flight_map_spec [OF assms, of Q repo all] by blast
  with scan(2) have "m' = m" by simp
  note m = m'(2,3) [unfolded this]
  let ?ns = "sort_key (recency_key X) nodes"
  let ?item = "\<lambda>n. (from_node X n None)\<lparr>ri_in_flight_branch := m (node_id X n)\<rparr>"
  let ?res = "\<lparr>rr_repo = repo, rr_watermark = watermark_of X Q repo s, rr_total_in_tenant = length nodes,
      rr_items = map ?item (take budget ?ns)\<rparr>"
  have run: "storyline X Q q repo budget s = Inr ?res" by (simp add: storyline_def scan(1))
  have labels: "case ri_in_flight_branch i of
      None \<Rightarrow> ri_id i \<in> canonical X Q repo all s \<or> \<not> (\<exists>b \<in> set all. branch_of repo b \<and> branch_contains X s b (ri_id i))
    | Some l \<Rightarrow> ri_id i \<notin> canonical X Q repo all s \<and>
        (\<exists>b \<in> set all. branch_of repo b \<and> branch_contains X s b (ri_id i) \<and> l = branch_name b)"
    if "i \<in> set (rr_items ?res)" for i
  proof -
    from that obtain n where i: "i = ?item n" by auto
    show ?thesis
    proof (cases "m (node_id X n)")
      case None
      then show ?thesis using m(1) [of "node_id X n"] by (simp add: i from_node_def)
    next
      case (Some l)
      then show ?thesis using m(1) [of "node_id X n"] m(2) [OF Some] by (simp add: i from_node_def)
    qed
  qed
  have plain: "map (\<lambda>i. i\<lparr>ri_in_flight_branch := None\<rparr>) (rr_items ?res) = map (\<lambda>n. from_node X n None) (take budget ?ns)"
    by (simp add: from_node_def)
  show ?thesis
    by (rule exI [of _ all], rule exI [of _ ?ns], rule exI [of _ ?res])
      (use all run labels plain recency_sort [OF scan(4)] scan(3) in \<open>simp del: map_map\<close>)
qed

definition ideal_query :: query_env where
  "ideal_query = \<lparr>watermark_from_json = (\<lambda>_. Inl ''shape''), f32_inverse_succ = of_nat\<rparr>"

text \<open>C31, an empty sealing store.\<close>

theorem storyline_contract_witness:
  "\<exists>res. storyline ideal_externals ideal_query new_recall ''acme'' 5 (new_encrypted kv_new) = Inr res \<and>
     rr_items res = [] \<and> rr_total_in_tenant res = 0"
proof -
  let ?X = ideal_externals and ?s = "new_encrypted kv_new"
  have ok: "store_ok ?X ?s" by simp
  have "all_nodes ?X ?s = Inr []" by (simp add: all_nodes_def kv_rd_def new_encrypted_def kv_iter_cf_def kv_read_def kv_new_def)
  with storyline_contract [OF ok, of ideal_query new_recall "''acme''" 5] show ?thesis by auto
qed

lemma as_of_exact:
  assumes ok: "store_ok X s" and all: "all_nodes X s = Inr all"
  shows "\<exists>ns res. as_of X Q q repo t budget s = Inr res \<and> sorted_wrt (more_recent X) ns \<and>
    set ns = {n \<in> set all. visible_node X Q q repo all s n \<and> current_at q t n} \<and>
    rr_items res = map (\<lambda>n. from_node X n None) (take budget ns)"
proof -
  obtain nodes m where scan: "tenant_scan X Q q repo s = Inr (nodes, m)"
      "set nodes = {n \<in> set all. visible_node X Q q repo all s n}" "distinct (map (node_id X) nodes)"
    using tenant_scan_spec [OF ok all] by blast
  let ?ns = "sort_key (recency_key X) (filter (current_at q t) nodes)"
  let ?res = "\<lparr>rr_repo = repo, rr_watermark = watermark_of X Q repo s, rr_total_in_tenant = length nodes,
      rr_items = map (\<lambda>n. from_node X n None) (take budget ?ns)\<rparr>"
  have "as_of X Q q repo t budget s = Inr ?res" by (simp add: as_of_def tenant_nodes_def scan(1))
  moreover have "distinct (map (node_id X) (filter (current_at q t) nodes))"
    using scan(3) by (auto simp: distinct_map inj_on_def)
  then have "sorted_wrt (more_recent X) ?ns" by (rule recency_sort)
  ultimately show ?thesis
    by (intro exI [of _ ?ns] exI [of _ ?res]) (use scan(2) in auto)
qed

text \<open>The snapshot as of a time is exact and forgets what was superseded by then: its items are the
  first \<open>budget\<close>, in strict order of recency, of the visible nodes that began no later than the
  time and had not ended at it, in the Derived plane unless the caller asked for assertions
  too; and after a supersession the older node is in no snapshot of the time of the
  superseding edge (or of its own beginning, if that is later) or after.\<close>

theorem as_of_snapshot:
  assumes X: "externals_ok X" and ok: "store_ok X s" and target: "get_node X (e_to e) s = Inr (Some target)"
    and run: "apply_supersession X e s = (Inr True, s')"
    and t: "p_at (e_provenance e) \<le> t" "n_valid_from target \<le> t"
  shows "\<exists>all ns res. all_nodes X s' = Inr all \<and> as_of X Q q repo t budget s' = Inr res \<and>
    sorted_wrt (more_recent X) ns \<and>
    set ns = {n \<in> set all. visible_node X Q q repo all s' n \<and> current_at q t n} \<and>
    rr_items res = map (\<lambda>n. from_node X n None) (take budget ns) \<and> e_to e \<notin> ri_id ` set (rr_items res)"
proof -
  have view: "node_view X s (e_to e) = Some target" using target get_node_eq [OF ok, of "e_to e"] by simp
  then have eff: "n_status target = Active" "effect X s s' (supersede_items e target)"
    using apply_supersession_effect [OF X ok run] by auto
  have ok': "store_ok X s'" by (rule effect_ok [OF eff(2)])
  have id: "node_id X (supersede_target e target) = e_to e"
    using node_view_id(1) [OF ok view] by (simp add: supersede_target_def compute_id_def id_preimage_def)
  have "node_view X s' (e_to e) = Some (supersede_target e target)"
    using eff id by (simp add: effect_def supersede_items_def)
  moreover obtain all where all: "all_nodes X s' = Inr all" "\<And>n. n \<in> set all \<longleftrightarrow> node_view X s' (node_id X n) = Some n"
    by (rule all_nodes_spec [OF ok']) (rule that)
  moreover have "\<not> current_at q t (supersede_target e target)"
    using t by (auto simp: current_at_def supersede_target_def less_max_iff_disj)
  moreover obtain ns res where ns: "as_of X Q q repo t budget s' = Inr res" "sorted_wrt (more_recent X) ns"
      "set ns = {n \<in> set all. visible_node X Q q repo all s' n \<and> current_at q t n}"
      "rr_items res = map (\<lambda>n. from_node X n None) (take budget ns)"
    using as_of_exact [OF ok' all(1)] by blast
  ultimately have gone: "node_id X n \<noteq> e_to e" if "n \<in> set ns" for n using that by auto
  have "e_to e \<notin> ri_id ` set (rr_items res)"
  proof
    assume "e_to e \<in> ri_id ` set (rr_items res)"
    then obtain n where "n \<in> set (take budget ns)" "node_id X n = e_to e" by (auto simp: ns(4) from_node_def)
    with gone in_set_takeD show False by metis
  qed
  with all(1) ns show ?thesis by blast
qed

text \<open>The sample supersession at the largest time.\<close>

theorem as_of_snapshot_witness:
  "\<exists>s s' res. apply_supersession ideal_externals sample_supersedes s = (Inr True, s') \<and>
     as_of ideal_externals ideal_query (with_asserted True new_recall) ''citrate-chain'' (- 1) 5 s' = Inr res \<and>
     e_to sample_supersedes \<notin> ri_id ` set (rr_items res)"
proof (rule sample_run)
  fix s\<^sub>2 s\<^sub>3
  assume ok: "store_ok ideal_externals s\<^sub>2"
    and run: "apply_supersession ideal_externals sample_supersedes s\<^sub>2 = (Inr True, s\<^sub>3)"
  obtain target where "node_view ideal_externals s\<^sub>2 (e_to sample_supersedes) = Some target"
    using apply_supersession_effect [OF ideal_externals_ok ok run] by auto
  then have target: "get_node ideal_externals (e_to sample_supersedes) s\<^sub>2 = Inr (Some target)"
    by (simp add: get_node_eq [OF ok])
  from as_of_snapshot [OF ideal_externals_ok ok target run, of "- 1" ideal_query "with_asserted True new_recall"
      "''citrate-chain''" 5] run
  show ?thesis by auto
qed

section \<open>Verification\<close>

definition opposes :: "externals \<Rightarrow> (string option \<Rightarrow> bool) \<Rightarrow> dag_store \<Rightarrow> edge \<Rightarrow> bool" where
  "opposes X visible s e \<longleftrightarrow> \<not> e_quarantined e \<and> visible (map_option n_repo (node_view X s (e_from e)))"

lemma verify_edge_in_eq:
  assumes "store_ok X s"
  shows "verify_edge_in X visible s e (a, b) =
    Inr (if opposes X visible s e \<and> e_kind e = Supersedes then a @ [e_from e] else a,
         if opposes X visible s e \<and> (e_kind e = Refutes \<or> e_kind e = Contradicts) then b @ [e_from e] else b)"
  by (cases "e_kind e") (simp_all add: verify_edge_in_def get_node_eq [OF assms] opposes_def)

lemma verify_edges_spec:
  assumes ok: "store_ok X s"
  shows "rfold (verify_edge_in X visible s) es (a, b) =
    Inr (a @ map e_from (filter (\<lambda>e. opposes X visible s e \<and> e_kind e = Supersedes) es),
         b @ map e_from (filter (\<lambda>e. opposes X visible s e \<and> (e_kind e = Refutes \<or> e_kind e = Contradicts)) es))"
proof (induction es arbitrary: a b)
  case Nil
  then show ?case by simp
next
  case (Cons e es)
  show ?case by (simp add: verify_edge_in_eq [OF ok] Cons.IH)
qed

lemma verify_where_spec:
  assumes ok: "store_ok X s" and n: "node_view X s nid = Some n"
  shows "\<exists>v. verify_where X nid visible s = Inr (Some v) \<and> vn_item v = from_node X n None \<and>
    (is_trustworthy v \<longleftrightarrow> n_status n = Active \<and> (n_plane n = Derived \<or> verify_node X n = Inr ()) \<and>
       Both \<notin> set (n_confidence n) \<and>
       (\<forall>e. edge_view X s (edge_key e) = Some e \<and> e_to e = nid \<and> opposes X visible s e \<longrightarrow>
          e_kind e \<notin> {Supersedes, Refutes, Contradicts}))"
proof -
  obtain es where es: "in_edges X nid s = Inr es"
      "\<And>e. e \<in> set es \<longleftrightarrow> edge_view X s (edge_key e) = Some e \<and> e_to e = nid"
    by (rule in_edges_spec [OF ok, of nid]) (rule that)
  let ?sup = "map e_from (filter (\<lambda>e. opposes X visible s e \<and> e_kind e = Supersedes) es)"
    and ?ref = "map e_from (filter (\<lambda>e. opposes X visible s e \<and> (e_kind e = Refutes \<or> e_kind e = Contradicts)) es)"
  let ?v = "\<lparr>vn_item = from_node X n None, vn_signature = signature_of X n, vn_superseded_by = ?sup,
      vn_refuted_by = ?ref, vn_contradicted = has_contradiction n\<rparr>"
  have run: "verify_where X nid visible s = Inr (Some ?v)"
    by (simp add: verify_where_def get_node_eq [OF ok] n es(1) verify_edges_spec [OF ok])
  have none: "?sup = [] \<and> ?ref = [] \<longleftrightarrow>
      (\<forall>e. edge_view X s (edge_key e) = Some e \<and> e_to e = nid \<and> opposes X visible s e \<longrightarrow>
          e_kind e \<notin> {Supersedes, Refutes, Contradicts})"
    using es(2) by (auto simp: filter_empty_conv)
  have sig: "signature_of X n = NotApplicableDerived \<or> signature_of X n = Valid \<longleftrightarrow>
      n_plane n = Derived \<or> verify_node X n = Inr ()"
  proof (cases "n_plane n")
    case Derived
    then show ?thesis by (simp add: signature_of_def)
  next
    case Asserted
    show ?thesis
    proof (cases "verify_node X n")
      case (Inl err)
      with Asserted show ?thesis by (cases err) (simp_all add: signature_of_def)
    next
      case (Inr u)
      with Asserted show ?thesis by (simp add: signature_of_def)
    qed
  qed
  have "has_contradiction n \<longleftrightarrow> Both \<in> set (n_confidence n)" by (auto simp: has_contradiction_def list_ex_iff)
  with sig none have "is_trustworthy ?v \<longleftrightarrow> n_status n = Active \<and> (n_plane n = Derived \<or> verify_node X n = Inr ()) \<and>
       Both \<notin> set (n_confidence n) \<and>
       (\<forall>e. edge_view X s (edge_key e) = Some e \<and> e_to e = nid \<and> opposes X visible s e \<longrightarrow>
          e_kind e \<notin> {Supersedes, Refutes, Contradicts})"
    unfolding is_trustworthy_def by (auto simp: from_node_def)
  with run show ?thesis by (intro exI [of _ ?v]) simp
qed

text \<open>A memory verifies as trustworthy exactly when nothing speaks against it: it is active, it is
  derived or its signature verifies under its author's key, its confidence records no
  contradiction, and no confirmed edge of the graph supersedes, refutes or contradicts it.
  For a caller with limited rights the same holds with the edges from stored nodes it may
  read, so what is trustworthy is trustworthy to every caller.\<close>

theorem verify_trustworthy:
  assumes ok: "store_ok X s" and n: "get_node X nid s = Inr (Some n)"
  shows "\<exists>v v'. verify X nid s = Inr (Some v) \<and> verify_readable X nid can_read s = Inr (Some v') \<and>
    (is_trustworthy v \<longleftrightarrow> n_status n = Active \<and> (n_plane n = Derived \<or> verify_node X n = Inr ()) \<and>
       Both \<notin> set (n_confidence n) \<and>
       (\<forall>e \<in> dag_in (abs_dag X s) nid. \<not> e_quarantined e \<longrightarrow> e_kind e \<notin> {Supersedes, Refutes, Contradicts})) \<and>
    (is_trustworthy v' \<longleftrightarrow> n_status n = Active \<and> (n_plane n = Derived \<or> verify_node X n = Inr ()) \<and>
       Both \<notin> set (n_confidence n) \<and>
       (\<forall>e \<in> dag_in (abs_dag X s) nid. \<forall>m. get_node X (e_from e) s = Inr (Some m) \<and> can_read (n_repo m) \<and>
          \<not> e_quarantined e \<longrightarrow> e_kind e \<notin> {Supersedes, Refutes, Contradicts}))"
proof -
  have view: "node_view X s nid = Some n" using n get_node_eq [OF ok, of nid] by simp
  have in_edge: "e \<in> dag_in (abs_dag X s) nid \<longleftrightarrow> edge_view X s (edge_key e) = Some e \<and> e_to e = nid" for e
    by (simp add: dag_in_def)
  let ?all = "\<lambda>_ :: string option. True" and ?some = "\<lambda>far. case far of None \<Rightarrow> False | Some repo \<Rightarrow> can_read repo"
  have opp: "opposes X ?all s e \<longleftrightarrow> \<not> e_quarantined e"
      "opposes X ?some s e \<longleftrightarrow> \<not> e_quarantined e \<and> (\<exists>m. get_node X (e_from e) s = Inr (Some m) \<and> can_read (n_repo m))" for e
    by (auto simp: opposes_def get_node_eq [OF ok] split: option.splits)
  obtain v where v: "verify_where X nid ?all s = Inr (Some v)"
      "is_trustworthy v \<longleftrightarrow> n_status n = Active \<and> (n_plane n = Derived \<or> verify_node X n = Inr ()) \<and>
       Both \<notin> set (n_confidence n) \<and>
       (\<forall>e. edge_view X s (edge_key e) = Some e \<and> e_to e = nid \<and> opposes X ?all s e \<longrightarrow>
          e_kind e \<notin> {Supersedes, Refutes, Contradicts})"
    using verify_where_spec [OF ok view, of ?all] by blast
  obtain v' where v': "verify_where X nid ?some s = Inr (Some v')"
      "is_trustworthy v' \<longleftrightarrow> n_status n = Active \<and> (n_plane n = Derived \<or> verify_node X n = Inr ()) \<and>
       Both \<notin> set (n_confidence n) \<and>
       (\<forall>e. edge_view X s (edge_key e) = Some e \<and> e_to e = nid \<and> opposes X ?some s e \<longrightarrow>
          e_kind e \<notin> {Supersedes, Refutes, Contradicts})"
    using verify_where_spec [OF ok view, of ?some] by blast
  show ?thesis
    by (rule exI [of _ v], rule exI [of _ v'], unfold verify_def verify_readable_def Ball_def in_edge)
      (use v v' opp in blast)
qed

lemma sample_recalled:
  fixes st :: status
  obtains s where "store_ok ideal_externals s"
    "node_view ideal_externals s = [node_id ideal_externals sample_node \<mapsto> sample_node\<lparr>n_status := st\<rparr>]"
    "edge_view ideal_externals s = Map.empty"
proof -
  let ?X = ideal_externals and ?n = "sample_node\<lparr>n_status := st\<rparr>"
  have id: "node_id ?X ?n = node_id ?X sample_node" by (simp add: compute_id_def id_preimage_def)
  have safe: "json_safe ?n" using sample_node_safe by (simp add: json_safe_def)
  obtain s where run: "put_node ?X ?n (new kv_new) = (Inr (node_id ?X ?n), s)"
    using put_node_total [OF ideal_externals_ok ideal_externals_total new_store_ok] by blast
  then have "effect ?X (new kv_new) s [INode ?n]"
    using put_node_effect [OF ideal_externals_ok new_store_ok safe run] by auto
  moreover have "node_view ?X (new kv_new) = Map.empty" "edge_view ?X (new kv_new) = Map.empty"
    by (simp_all add: node_view_def row_view_def new_def fun_eq_iff)
  ultimately show thesis using that [of s] by (simp add: effect_def id)
qed

text \<open>The sample node, an assertion without a signature.\<close>

theorem verify_trustworthy_witness:
  "\<exists>s v. verify ideal_externals (node_id ideal_externals sample_node) s = Inr (Some v) \<and> \<not> is_trustworthy v"
proof (rule sample_recalled [of Active])
  fix s
  assume s: "store_ok ideal_externals s"
    "node_view ideal_externals s = [node_id ideal_externals sample_node \<mapsto> sample_node\<lparr>n_status := Active\<rparr>]"
  have n: "get_node ideal_externals (node_id ideal_externals sample_node) s = Inr (Some (sample_node\<lparr>n_status := Active\<rparr>))"
    by (simp add: get_node_eq [OF s(1)] s(2))
  have "verify_node ideal_externals (sample_node\<lparr>n_status := Active\<rparr>) \<noteq> Inr ()"
      "n_plane (sample_node\<lparr>n_status := Active\<rparr>) \<noteq> Derived"
    by (simp_all add: verify_node_def verify_sig_def sample_node_def assertable_plane_and_tier_def)
  with verify_trustworthy [OF s(1) n, of "\<lambda>_. True"] show ?thesis by auto
qed

section \<open>What a caller cannot learn\<close>

text \<open>A session of reads: the caller chooses each query from the answers so far; a query that is
  not permitted ends it.\<close>

primrec transcript ::
    "('q \<Rightarrow> 's \<Rightarrow> bool) \<Rightarrow> ('q \<Rightarrow> 's \<Rightarrow> 'a) \<Rightarrow> ('a list \<Rightarrow> 'q option) \<Rightarrow> nat \<Rightarrow> 'a list \<Rightarrow> 's \<Rightarrow> 'a list" where
  "transcript permitted answer ask 0 sofar s = sofar"
| "transcript permitted answer ask (Suc n) sofar s =
     (case ask sofar of
        None \<Rightarrow> sofar
      | Some q \<Rightarrow> if permitted q s then transcript permitted answer ask n (sofar @ [answer q s]) s else sofar)"

locale read_interface =
  fixes same :: "'s \<Rightarrow> 's \<Rightarrow> bool" and permitted :: "'q \<Rightarrow> 's \<Rightarrow> bool" and answer :: "'q \<Rightarrow> 's \<Rightarrow> 'a"
  assumes permission_consistent: "same s t \<Longrightarrow> permitted q s = permitted q t"
    and output_consistent: "same s t \<Longrightarrow> permitted q s \<Longrightarrow> answer q s = answer q t"
begin

lemma session_consistent:
  assumes "same s t"
  shows "transcript permitted answer ask n sofar s = transcript permitted answer ask n sofar t"
proof (induction n arbitrary: sofar)
  case 0
  show ?case by simp
next
  case (Suc n)
  show ?case
    using permission_consistent [OF assms] output_consistent [OF assms] Suc.IH
    by (cases "ask sofar") simp_all
qed

end

text \<open>The reads a caller with rights \<open>can_read\<close> is served with.\<close>

datatype read_query =
    QNeighbors content_hash nat | QVerify content_hash | QResolve string string
  | QResolveAny string | QCritique recall_result timestamp | QStoryline recall string nat
  | QAsOf recall string timestamp nat | QSearch embedder recall string string nat
  | QAnalogy content_hash "string list" nat

datatype read_answer =
    ANeighbors "(store_error, neighbor_item list) result" | AVerify "(store_error, verification option) result"
  | AResolve "(store_error, content_hash option) result" | ACritique "(store_error, critique) result"
  | ARecall "(store_error, recall_result) result" | ASearch "(store_error, recall_result) result option"
  | AAnalogy "(store_error, analogy_candidate list) result"

fun answer_query :: "externals \<Rightarrow> query_env \<Rightarrow> f32_env \<Rightarrow> (string \<Rightarrow> bool) \<Rightarrow> read_query \<Rightarrow> dag_store \<Rightarrow> read_answer" where
  "answer_query X Q F can_read (QNeighbors nid budget) s = ANeighbors (neighbors_readable X nid budget can_read s)"
| "answer_query X Q F can_read (QVerify nid) s = AVerify (verify_readable X nid can_read s)"
| "answer_query X Q F can_read (QResolve repo prefix) s = AResolve (resolve_prefix_in X repo prefix s)"
| "answer_query X Q F can_read (QCritique res now) s = ACritique (critique_readable X Q res now can_read s)"
| "answer_query X Q F can_read (QStoryline q repo budget) s = ARecall (storyline X Q q repo budget s)"
| "answer_query X Q F can_read (QAsOf q repo time budget) s = ARecall (as_of X Q q repo time budget s)"
| "answer_query X Q F can_read (QResolveAny prefix) s = AResolve (resolve_prefix_where X prefix (\<lambda>n. can_read (n_repo n)) s)"
| "answer_query X Q F can_read (QSearch emb q repo query budget) s = ASearch (search_exact X Q F emb q repo query budget s)"
| "answer_query X Q F can_read (QAnalogy anchor repos budget) s = AAnalogy (analogies X F anchor repos budget s)"

text \<open>What the read path knows of a node: nothing but its presence when it may not be read.\<close>

definition seen_as ::
    "(string \<Rightarrow> bool) \<Rightarrow> (store_error, memory_node option) result \<Rightarrow> (store_error, memory_node option option) result" where
  "seen_as can_read r = (case r of
     Inl e \<Rightarrow> Inl e
   | Inr None \<Rightarrow> Inr None
   | Inr (Some n) \<Rightarrow> Inr (Some (if can_read (n_repo n) then Some n else None)))"

definition may_show :: "(string \<Rightarrow> bool) \<Rightarrow> (store_error, memory_node option) result \<Rightarrow> bool" where
  "may_show can_read r \<longleftrightarrow> (\<forall>n. r = Inr (Some n) \<longrightarrow> can_read (n_repo n))"

fun permitted_query :: "externals \<Rightarrow> (string \<Rightarrow> bool) \<Rightarrow> read_query \<Rightarrow> dag_store \<Rightarrow> bool" where
  "permitted_query X can_read (QNeighbors nid budget) s \<longleftrightarrow> True"
| "permitted_query X can_read (QVerify nid) s \<longleftrightarrow> may_show can_read (get_node X nid s)"
| "permitted_query X can_read (QResolve repo prefix) s \<longleftrightarrow> can_read repo"
| "permitted_query X can_read (QCritique res now) s \<longleftrightarrow>
     (\<forall>i \<in> set (rr_items res). may_show can_read (get_node X (ri_id i) s))"
| "permitted_query X can_read (QStoryline q repo budget) s \<longleftrightarrow> can_read repo"
| "permitted_query X can_read (QAsOf q repo time budget) s \<longleftrightarrow> can_read repo"
| "permitted_query X can_read (QResolveAny prefix) s \<longleftrightarrow> True"
| "permitted_query X can_read (QSearch emb q repo query budget) s \<longleftrightarrow> can_read repo"
| "permitted_query X can_read (QAnalogy anchor repos budget) s \<longleftrightarrow>
     may_show can_read (get_node X anchor s) \<and> list_all can_read repos"

definition readable_nodes :: "externals \<Rightarrow> (string \<Rightarrow> bool) \<Rightarrow> memory_node list reader" where
  "readable_nodes X can_read s = rbind (all_nodes X s) (\<lambda>all. Inr (filter (\<lambda>n. can_read (n_repo n)) all))"

text \<open>Two states look the same to the caller: the same readable nodes, the same presence of the
  others, the same edges, and the same watermarks of the readable repositories. Everything
  else, in particular every field of a node of another repository, may differ.\<close>

definition looks_same :: "externals \<Rightarrow> (string \<Rightarrow> bool) \<Rightarrow> dag_store \<Rightarrow> dag_store \<Rightarrow> bool" where
  "looks_same X can_read s t \<longleftrightarrow>
     (\<forall>h. seen_as can_read (get_node X h s) = seen_as can_read (get_node X h t)) \<and>
     (\<forall>h. out_edges X h s = out_edges X h t) \<and> (\<forall>h. in_edges X h s = in_edges X h t) \<and>
     all_edges X s = all_edges X t \<and> readable_nodes X can_read s = readable_nodes X can_read t \<and>
     (\<forall>repo. can_read repo \<longrightarrow> get_meta X (watermark_key repo) s = get_meta X (watermark_key repo) t)"

lemma looks_sameD:
  assumes "looks_same X can_read s t"
  shows "seen_as can_read (get_node X h s) = seen_as can_read (get_node X h t)"
    "out_edges X h s = out_edges X h t" "in_edges X h s = in_edges X h t"
    "all_edges X s = all_edges X t" "readable_nodes X can_read s = readable_nodes X can_read t"
    "can_read repo \<Longrightarrow> get_meta X (watermark_key repo) s = get_meta X (watermark_key repo) t"
  using assms by (simp_all add: looks_same_def)

lemma seen_as_cases:
  assumes "seen_as can_read r = seen_as can_read r'"
  obtains "r = r'" | n n' where "r = Inr (Some n)" "r' = Inr (Some n')" "\<not> can_read (n_repo n)" "\<not> can_read (n_repo n')"
  using assms by (auto simp: seen_as_def split: sum.splits option.splits if_splits)

lemma may_show_same:
  assumes "seen_as can_read r = seen_as can_read r'"
  shows "may_show can_read r = may_show can_read r'" "may_show can_read r \<Longrightarrow> r = r'"
  by (rule seen_as_cases [OF assms]; auto simp: may_show_def)+

lemma readable_loop_same:
  assumes "looks_same X can_read s t"
  shows "readable_loop X budget can_read s es out = readable_loop X budget can_read t es out"
proof (induction es arbitrary: out)
  case Nil
  show ?case by simp
next
  case (Cons p es)
  obtain far e dir where p: "p = (far, e, dir)" by (cases p)
  show ?case
  proof (rule seen_as_cases [OF looks_sameD(1) [OF assms, of far]])
    assume "get_node X far s = get_node X far t"
    then show ?thesis
      by (cases "get_node X far t") (simp_all add: p Cons.IH split: option.split)
  next
    fix n n'
    assume "get_node X far s = Inr (Some n)" "get_node X far t = Inr (Some n')"
      "\<not> can_read (n_repo n)" "\<not> can_read (n_repo n')"
    then show ?thesis by (simp add: p Cons.IH)
  qed
qed

text \<open>The far end of an edge counts only when it is stored and readable, so the two states agree.\<close>

abbreviation shown_to :: "(string \<Rightarrow> bool) \<Rightarrow> string option \<Rightarrow> bool" where
  "shown_to can_read far \<equiv> (case far of None \<Rightarrow> False | Some repo \<Rightarrow> can_read repo)"

lemma far_end_same:
  assumes "looks_same X can_read s t"
  shows "rbind (get_node X h s) (\<lambda>far. k (shown_to can_read (map_option n_repo far))) =
    rbind (get_node X h t) (\<lambda>far. k (shown_to can_read (map_option n_repo far)))"
  by (rule seen_as_cases [OF looks_sameD(1) [OF assms, of h]]) simp_all

lemma verify_edge_in_same:
  assumes "looks_same X can_read s t"
  shows "verify_edge_in X (shown_to can_read) s e = verify_edge_in X (shown_to can_read) t e"
proof
  fix p :: "content_hash list \<times> content_hash list"
  obtain a b where p: "p = (a, b)" by (cases p)
  show "verify_edge_in X (shown_to can_read) s e p = verify_edge_in X (shown_to can_read) t e p"
    unfolding verify_edge_in_def p prod.case
    using far_end_same [OF assms, of "e_from e" "\<lambda>v. if \<not> v then Inr (a, b) else Inr (case e_kind e of
           Supersedes \<Rightarrow> (a @ [e_from e], b) | Refutes \<Rightarrow> (a, b @ [e_from e])
         | Contradicts \<Rightarrow> (a, b @ [e_from e]) | _ \<Rightarrow> (a, b))"]
    by simp
qed

lemma adjacent_proposal_same:
  assumes "looks_same X can_read s t"
  shows "adjacent_proposal X (shown_to can_read) s es = adjacent_proposal X (shown_to can_read) t es"
proof (induction es)
  case Nil
  show ?case by simp
next
  case (Cons p es)
  obtain far q where p: "p = (far, q)" by (cases p)
  show ?case
    using far_end_same [OF assms, of far "\<lambda>v. if v then Inr True else adjacent_proposal X (shown_to can_read) t es"]
    by (simp add: p Cons.IH cong: if_cong)
qed

lemma critique_item_same:
  assumes same: "looks_same X can_read s t" and "may_show can_read (get_node X (ri_id i) s)"
  shows "critique_item X (shown_to can_read) s i = critique_item X (shown_to can_read) t i"
proof
  fix gaps
  have "get_node X (ri_id i) s = get_node X (ri_id i) t"
    using may_show_same(2) [OF looks_sameD(1) [OF same]] assms(2) by blast
  then show "critique_item X (shown_to can_read) s i gaps = critique_item X (shown_to can_read) t i gaps"
    unfolding critique_item_def by (simp add: looks_sameD(2,3) [OF same] adjacent_proposal_same [OF same])
qed

lemma rfold_cong:
  assumes "\<And>x. x \<in> set xs \<Longrightarrow> f x = g x"
  shows "rfold f xs a = rfold g xs a"
  using assms
proof (induction xs arbitrary: a)
  case (Cons x xs)
  then have "rfold f xs = rfold g xs" by auto
  with Cons.prems show ?case by simp
qed simp

text \<open>Prefix resolution and the storyline look at the nodes of one repository only.\<close>

lemma prefix_loop_filter:
  "(\<And>n. visible n \<Longrightarrow> P n) \<Longrightarrow> prefix_loop X prefix visible (filter P ns) found = prefix_loop X prefix visible ns found"
  by (induction ns arbitrary: found) auto

lemma rfold_filter:
  assumes "\<And>x a. \<not> P x \<Longrightarrow> f x a = Inr a"
  shows "rfold f (filter P xs) = rfold f xs"
proof (induction xs)
  case (Cons x xs)
  show ?case by (rule ext) (use Cons.IH assms in simp)
qed simp

lemma sha_to_id_filter:
  assumes "\<And>n. n_repo n = repo \<Longrightarrow> P n"
  shows "sha_to_id X repo (filter P ns) = sha_to_id X repo ns"
proof -
  have "fold f (filter P ns) m = fold f ns m" if "\<And>n m. \<not> P n \<Longrightarrow> f n m = m"
    for f :: "memory_node \<Rightarrow> (string \<rightharpoonup> content_hash) \<Rightarrow> (string \<rightharpoonup> content_hash)" and m
    using that by (induction ns arbitrary: m) auto
  then show ?thesis unfolding sha_to_id_def by this (use assms in \<open>auto split: source_ref.split\<close>)
qed

lemma in_flight_map_local:
  assumes "\<And>n. n_repo n = repo \<Longrightarrow> P n"
  shows "in_flight_map X Q repo (filter P ns) s = in_flight_map X Q repo ns s"
proof -
  have fold: "rfold (label_branch X repo R s want) (filter P ns) = rfold (label_branch X repo R s want) ns" for R want
    by (rule rfold_filter) (use assms in \<open>auto simp: label_branch_def\<close>)
  have sha: "sha_to_id X repo (filter P ns) = sha_to_id X repo ns" by (rule sha_to_id_filter) (rule assms)
  show ?thesis unfolding in_flight_map_def canonical_reachable_def fold sha by (rule refl)
qed

definition scan_of ::
    "externals \<Rightarrow> query_env \<Rightarrow> recall \<Rightarrow> string \<Rightarrow> dag_store \<Rightarrow> memory_node list \<Rightarrow>
     (store_error, memory_node list \<times> (content_hash \<rightharpoonup> string)) result" where
  "scan_of X Q q repo s all =
     rbind (in_flight_map X Q repo all s) (\<lambda>in_flight.
     Inr (filter (\<lambda>n. n_repo n = repo \<and> \<not> is_reference n \<and> n_kind n \<noteq> Branch \<and>
            (rc_include_in_flight q \<or> in_flight (node_id X n) = None)) all, in_flight))"

lemma scan_of_local:
  assumes "\<And>n. n_repo n = repo \<Longrightarrow> P n"
  shows "scan_of X Q q repo s (filter P ns) = scan_of X Q q repo s ns"
proof -
  have "filter (\<lambda>n. n_repo n = repo \<and> C n) (filter P ns) = filter (\<lambda>n. n_repo n = repo \<and> C n) ns" for C
    using assms by (induction ns) auto
  moreover have "in_flight_map X Q repo (filter P ns) s = in_flight_map X Q repo ns s"
    by (rule in_flight_map_local) (rule assms)
  ultimately show ?thesis by (simp add: scan_of_def)
qed

lemma tenant_scan_readable:
  assumes "can_read repo"
  shows "tenant_scan X Q q repo s = rbind (readable_nodes X can_read s) (scan_of X Q q repo s)"
proof -
  have "scan_of X Q q repo s (filter (\<lambda>n. can_read (n_repo n)) all) = scan_of X Q q repo s all" for all
    by (rule scan_of_local) (use assms in simp)
  then show ?thesis
    by (cases "all_nodes X s") (simp_all add: tenant_scan_def readable_nodes_def scan_of_def)
qed

lemma tenant_scan_same:
  assumes same: "looks_same X can_read s t" and repo: "can_read repo"
  shows "watermark_of X Q repo s = watermark_of X Q repo t" "tenant_scan X Q q repo s = tenant_scan X Q q repo t"
proof -
  show w: "watermark_of X Q repo s = watermark_of X Q repo t"
    by (simp add: watermark_of_def read_watermark_def looks_sameD(6) [OF same repo])
  have label: "label_branch X repo R s = label_branch X repo R t" for R
    by (intro ext) (simp add: label_branch_def looks_sameD(2) [OF same])
  have "in_flight_map X Q repo all s = in_flight_map X Q repo all t" for all
    unfolding in_flight_map_def canonical_reachable_def label w looks_sameD(4) [OF same] by (rule refl)
  then have "scan_of X Q q repo s = scan_of X Q q repo t" by (intro ext) (simp add: scan_of_def)
  then show "tenant_scan X Q q repo s = tenant_scan X Q q repo t"
    by (simp add: tenant_scan_readable [of can_read repo, OF repo] looks_sameD(5) [OF same])
qed

lemma resolve_where_same:
  assumes same: "looks_same X can_read s t" and visible: "\<And>n. visible n \<Longrightarrow> can_read (n_repo n)"
  shows "resolve_prefix_where X prefix visible s = resolve_prefix_where X prefix visible t"
proof -
  have "prefix_loop X prefix visible (filter (\<lambda>n. can_read (n_repo n)) ns) None = prefix_loop X prefix visible ns None" for ns
    by (rule prefix_loop_filter) (rule visible)
  then have "resolve_prefix_where X prefix visible s = rbind (readable_nodes X can_read s)
      (\<lambda>ns. Inr (prefix_loop X prefix visible ns None))" for s
    by (cases "all_nodes X s") (simp_all add: resolve_prefix_where_def readable_nodes_def)
  then show ?thesis by (simp add: looks_sameD(5) [OF same])
qed

lemma resolve_prefix_same:
  assumes same: "looks_same X can_read s t" and repo: "can_read repo"
  shows "resolve_prefix_in X repo prefix s = resolve_prefix_in X repo prefix t"
  unfolding resolve_prefix_in_def by (rule resolve_where_same [OF same]) (use repo in simp)

lemma search_exact_same:
  assumes "looks_same X can_read s t" "can_read repo"
  shows "search_exact X Q F emb q repo query budget s = search_exact X Q F emb q repo query budget t"
  unfolding search_exact_def tenant_scan_same [OF assms] by (rule refl)

lemma edge_signature_same:
  assumes "looks_same X can_read s t"
  shows "edge_signature X h s = edge_signature X h t"
  by (simp add: edge_signature_def looks_sameD(2,3) [OF assms])

text \<open>The analogy ranking looks at the candidate repositories only.\<close>

lemma map_filter_skip: "(\<And>x. \<not> P x \<Longrightarrow> f x = None) \<Longrightarrow> List.map_filter f (filter P xs) = List.map_filter f xs"
  by (induction xs) (auto simp: map_filter_simps split: option.split)

lemma coarse_readable:
  assumes "list_all can_read repos"
  shows "List.map_filter (coarse_score F a v z repos) (filter (\<lambda>n. can_read (n_repo n)) ns) =
    List.map_filter (coarse_score F a v z repos) ns"
  by (rule map_filter_skip) (use assms in \<open>auto simp: coarse_score_def list_all_iff\<close>)

lemma candidates_same:
  assumes same: "looks_same X can_read s t" and repos: "list_all can_read repos"
  shows "rbind (all_nodes X s) (\<lambda>all. k (List.map_filter (coarse_score F a v z repos) all)) =
    rbind (all_nodes X t) (\<lambda>all. k (List.map_filter (coarse_score F a v z repos) all))"
proof -
  have "rbind (all_nodes X u) (\<lambda>all. k (List.map_filter (coarse_score F a v z repos) all)) =
      rbind (readable_nodes X can_read u) (\<lambda>all. k (List.map_filter (coarse_score F a v z repos) all))" for u
    by (cases "all_nodes X u") (simp_all add: readable_nodes_def coarse_readable [OF repos])
  then show ?thesis by (simp add: looks_sameD(5) [OF same])
qed

lemma analogies_same:
  assumes same: "looks_same X can_read s t" and anchor: "may_show can_read (get_node X a s)" and repos: "list_all can_read repos"
  shows "analogies X F a repos budget s = analogies X F a repos budget t"
proof -
  have node: "get_node X a s = get_node X a t" using may_show_same(2) [OF looks_sameD(1) [OF same]] anchor by blast
  have fine: "fine_score X F sig s = fine_score X F sig t" for sig
    by (intro ext) (simp add: fine_score_def edge_signature_same [OF same] split_beta)
  let ?rank = "\<lambda>ms. rbind (edge_signature X a t) (\<lambda>anchor_sig.
      rbind (rfold (fine_score X F anchor_sig t) (take (max (budget * ANALOGY_SHORTLIST_FACTOR mod 2 ^ 64) budget)
        (sort_key (\<lambda>(c, n). (- total_key c, hash_bytes (node_id X n))) ms)) []) (\<lambda>out.
      Inr (take budget (sort_key (\<lambda>c. (- total_key (an_score c), hash_bytes (ri_id (an_item c)))) out))))"
  note same_rank = candidates_same [OF same repos, of ?rank F]
  show ?thesis
    unfolding analogies_def node fine edge_signature_same [OF same] Let_def same_rank by (rule refl)
qed

interpretation grant_reads: read_interface "looks_same X can_read" "permitted_query X can_read" "answer_query X Q F can_read"
  for X Q F can_read
proof
  fix s t q
  assume same: "looks_same X can_read s t"
  note node = looks_sameD(1) [OF same]
  show "permitted_query X can_read q s = permitted_query X can_read q t"
    by (cases q) (simp_all add: may_show_same(1) [OF node])
  assume ok: "permitted_query X can_read q s"
  show "answer_query X Q F can_read q s = answer_query X Q F can_read q t"
  proof (cases q)
    case (QNeighbors nid budget)
    then show ?thesis
      by (simp add: neighbors_readable_def looks_sameD(2,3) [OF same] readable_loop_same [OF same])
  next
    case (QVerify nid)
    with ok have "get_node X nid s = get_node X nid t" using may_show_same(2) [OF node] by simp
    then show ?thesis
      unfolding QVerify answer_query.simps verify_readable_def verify_where_def looks_sameD(3) [OF same]
        verify_edge_in_same [OF same] by simp
  next
    case (QResolve repo prefix)
    with ok show ?thesis by (simp add: resolve_prefix_same [OF same])
  next
    case (QCritique res now)
    have "rfold (critique_item X (shown_to can_read) s) (rr_items res) g =
        rfold (critique_item X (shown_to can_read) t) (rr_items res) g" for g
      by (rule rfold_cong) (use ok QCritique critique_item_same [OF same] in simp)
    then show ?thesis by (simp add: QCritique critique_readable_def critique_where_def)
  next
    case (QStoryline r repo budget)
    with ok tenant_scan_same [OF same] show ?thesis by (simp add: storyline_def)
  next
    case (QAsOf r repo time budget)
    with ok tenant_scan_same [OF same] show ?thesis by (simp add: as_of_def tenant_nodes_def)
  next
    case (QResolveAny prefix)
    then show ?thesis by (simp add: resolve_where_same [OF same])
  next
    case (QSearch emb r repo query budget)
    with ok show ?thesis by (simp add: search_exact_same [OF same])
  next
    case (QAnalogy anchor repos budget)
    with ok show ?thesis by (simp add: analogies_same [OF same])
  qed
qed


lemma no_members: "(\<And>x. x \<notin> set xs) \<Longrightarrow> xs = []"
  by (cases xs) auto


end
