(* ===== verification/Hnsw_Safety.thy ===== *)
theory Hnsw_Safety
  imports Hnsw Ideal "HOL-Library.Multiset"
begin

text \<open>
  Safety of the approximate index: on every index that a sequence of \<^verbatim>\<open>add\<close> calls builds, each array
  access is in range, each climb and each beam search ends, the graph invariant holds, and a
  search returns indexed nodes only, with their scores, best first.
\<close>

section \<open>Accesses in range\<close>

text \<open>A set of nodes of one layer that the links of the layer do not leave.\<close>

definition layer_closed :: "hnsw_node list \<Rightarrow> nat \<Rightarrow> nat set \<Rightarrow> bool" where
  "layer_closed ns l R \<longleftrightarrow>
     (\<forall>i \<in> R. i < length ns \<and> l < length (hn_links (ns ! i)) \<and> set (hn_links (ns ! i) ! l) \<subseteq> R)"

lemma at_in_range [simp]: "i < length xs \<Longrightarrow> at xs i = Some (xs ! i)"
  by (simp add: at_def)

lemma links_at_in_range [simp]:
  "i < length ns \<Longrightarrow> l < length (hn_links (ns ! i)) \<Longrightarrow> links_at ns i l = Some (hn_links (ns ! i) ! l)"
  by (simp add: links_at_def)

lemma similarity_in_range [simp]: "i < length ns \<Longrightarrow> similarity F ns i q = Some (dot F (hn_vec (ns ! i)) q)"
  by (simp add: similarity_def)

lemma layer_closedD:
  assumes "layer_closed ns l R" "i \<in> R"
  shows "i < length ns" "l < length (hn_links (ns ! i))" "set (hn_links (ns ! i) ! l) \<subseteq> R"
  using assms by (simp_all add: layer_closed_def)

section \<open>The climb ends\<close>

lemma f32_gt_trans: "f32_gt a b \<Longrightarrow> f32_gt b c \<Longrightarrow> f32_gt a c"
  by (auto simp: f32_gt_def)

lemma greedy_links_total:
  assumes "\<forall>i \<in> set ls. i < length ns"
  shows "\<exists>best' ep' improved'. greedy_links F ns q ls (best, ep, improved) = Some (best', ep', improved') \<and>
     (ep' = ep \<or> ep' \<in> set ls) \<and> (best' = best \<and> improved' = improved \<or> improved' \<and> f32_gt best' best)"
  using assms
proof (induction ls arbitrary: best ep improved)
  case (Cons nb ls)
  let ?s = "dot F (hn_vec (ns ! nb)) q"
  show ?case
  proof (cases "f32_gt ?s best")
    case True
    have "\<forall>i \<in> set ls. i < length ns" using Cons.prems by simp
    from Cons.IH [OF this, of ?s nb True] obtain b e i where
        "greedy_links F ns q ls (?s, nb, True) = Some (b, e, i)" "e = nb \<or> e \<in> set ls"
        "b = ?s \<and> i \<or> i \<and> f32_gt b ?s"
      by auto
    with True Cons.prems f32_gt_trans [of b ?s best] show ?thesis by auto
  next
    case False
    have "\<forall>i \<in> set ls. i < length ns" using Cons.prems by simp
    from Cons.IH [OF this, of best ep improved] False Cons.prems show ?thesis by auto
  qed
qed simp

definition above :: "u32 \<Rightarrow> nat" where
  "above best = card {w. f32_gt w best}"

lemma above_less: "f32_gt a b \<Longrightarrow> above a < above b"
proof -
  assume ab: "f32_gt a b"
  have "{w. f32_gt w a} \<subset> {w. f32_gt w b}" using ab f32_gt_trans by (auto simp: f32_gt_def)
  then show ?thesis unfolding above_def by (intro psubset_card_mono) simp_all
qed

lemma greedy_loop_total:
  assumes R: "layer_closed ns l R" and ep: "ep \<in> R"
  shows "\<exists>r \<in> R. greedy_loop F ns q l best ep = Some r"
  using ep
proof (induction "above best" arbitrary: best ep rule: less_induct)
  case less
  note in_R = layer_closedD [OF R less.prems]
  have "\<forall>i \<in> set (hn_links (ns ! ep) ! l). i < length ns" using in_R(3) R by (auto simp: layer_closed_def)
  from greedy_links_total [OF this, of F q best ep False] obtain b e i where
      run: "greedy_links F ns q (hn_links (ns ! ep) ! l) (best, ep, False) = Some (b, e, i)"
      and e: "e = ep \<or> e \<in> set (hn_links (ns ! ep) ! l)" and i: "i \<Longrightarrow> f32_gt b best"
    by auto
  have "e \<in> R" using e in_R(3) less.prems by auto
  then show ?case
  proof (cases i)
    case True
    from less.hyps [OF above_less [OF i [OF True]] \<open>e \<in> R\<close>] show ?thesis
      by (subst greedy_loop.simps) (simp add: in_R run True)
  next
    case False
    with \<open>e \<in> R\<close> show ?thesis by (subst greedy_loop.simps) (simp add: in_R run)
  qed
qed

lemma greedy_closest_total:
  assumes "layer_closed ns l R" "ep \<in> R"
  shows "\<exists>r \<in> R. greedy_closest F ns ep q l = Some r"
  using greedy_loop_total [OF assms, of F q] layer_closedD(1) [OF assms] by (simp add: greedy_closest_def)

section \<open>The beam search ends\<close>

abbreviation score :: "f32_env \<Rightarrow> hnsw_node list \<Rightarrow> u32 list \<Rightarrow> nat \<Rightarrow> u32" where
  "score F ns q i \<equiv> dot F (hn_vec (ns ! i)) q"

definition unvisited :: "bool list \<Rightarrow> nat" where
  "unvisited v = card {i. i < length v \<and> \<not> v ! i}"

lemma unvisited_mark:
  assumes "i < length v" "\<not> v ! i"
  shows "Suc (unvisited (v[i := True])) = unvisited v"
proof -
  have "{j. j < length v \<and> \<not> v ! j} = insert i {j. j < length v \<and> \<not> v[i := True] ! j}"
    using assms by (auto simp: nth_list_update)
  moreover have "i \<notin> {j. j < length v \<and> \<not> v[i := True] ! j}" using assms by simp
  ultimately show ?thesis unfolding unvisited_def by simp
qed

definition met :: "f32_env \<Rightarrow> hnsw_node list \<Rightarrow> u32 list \<Rightarrow> nat set \<Rightarrow> bool list \<Rightarrow> scored \<Rightarrow> bool" where
  "met F ns q R visited p \<longleftrightarrow> snd p \<in> R \<and> snd p < length visited \<and> visited ! snd p \<and> fst p = score F ns q (snd p)"

definition beam_ok ::
    "f32_env \<Rightarrow> hnsw_node list \<Rightarrow> u32 list \<Rightarrow> nat set \<Rightarrow> nat \<Rightarrow> bool list \<times> scored list \<times> scored list \<Rightarrow> bool" where
  "beam_ok F ns q R ef = (\<lambda>(visited, candidates, best).
     length visited = length ns \<and> (\<forall>p \<in> set candidates \<union> set best. met F ns q R visited p) \<and>
     sorted (map sim_key best) \<and> distinct (map snd best) \<and> best \<noteq> [] \<and> length best \<le> ef)"

lemma met_mark: "met F ns q R v p \<Longrightarrow> met F ns q R (v[i := True]) p"
  by (cases "i = snd p") (simp_all add: met_def)

lemma push_min_props:
  "set (push_min p h) = insert p (set h)" "length (push_min p h) = Suc (length h)"
  "sorted (map sim_key h) \<Longrightarrow> sorted (map sim_key (push_min p h))"
  "distinct (map snd h) \<Longrightarrow> snd p \<notin> snd ` set h \<Longrightarrow> distinct (map snd (push_min p h))"
proof -
  show "set (push_min p h) = insert p (set h)" "length (push_min p h) = Suc (length h)"
    by (simp_all add: push_min_def set_insort_key)
  show "sorted (map sim_key h) \<Longrightarrow> sorted (map sim_key (push_min p h))"
    by (simp add: push_min_def sorted_insort_key)
  assume "distinct (map snd h)" "snd p \<notin> snd ` set h"
  then have "card (snd ` set (push_min p h)) = length (push_min p h)"
    using distinct_card [of "map snd h"] by (simp add: push_min_def set_insort_key)
  then show "distinct (map snd (push_min p h))" by (intro card_distinct) simp
qed

lemma push_max_props: "set (push_max p h) = insert p (set h)" "length (push_max p h) = Suc (length h)"
  by (simp_all add: push_max_def set_insort_key)

lemma beam_ok_keep:
  assumes "beam_ok F ns q R ef (v, c, b)"
  shows "beam_ok F ns q R ef (v[i := True], c, b)"
  using assms by (auto simp: beam_ok_def intro: met_mark)

lemma beam_ok_take:
  assumes ok: "beam_ok F ns q R ef (v, c, b)" and i: "i \<in> R" "i < length v" "\<not> v ! i"
  defines "b' \<equiv> push_min (score F ns q i, i) b"
  shows "beam_ok F ns q R ef (v[i := True], push_max (score F ns q i, i) c, if length b' > ef then tl b' else b')"
proof -
  have old: "met F ns q R (v[i := True]) p" if "p \<in> set c \<union> set b" for p
    using ok that by (auto simp: beam_ok_def intro: met_mark)
  have new: "met F ns q R (v[i := True]) (score F ns q i, i)" using i by (simp add: met_def)
  have "i \<notin> snd ` set b" using ok i(3) by (auto simp: beam_ok_def met_def)
  then have b': "sorted (map sim_key b')" "distinct (map snd b')" "set b' = insert (score F ns q i, i) (set b)"
      "length b' = Suc (length b)"
    using ok push_min_props [where p = "(score F ns q i, i)" and h = b] by (simp_all add: b'_def beam_ok_def)
  have tl: "sorted (map sim_key (tl b'))" "distinct (map snd (tl b'))" "set (tl b') \<subseteq> set b'" "length (tl b') = length b"
    using b' by (cases b'; auto)+
  have len: "b \<noteq> []" "length b \<le> ef" "length v = length ns" using ok by (simp_all add: beam_ok_def)
  have all: "met F ns q R (v[i := True]) p" if "p \<in> set (push_max (score F ns q i, i) c) \<union> set b'" for p
    using that old [of p] new b'(3) by (simp add: push_max_props) metis
  show ?thesis
  proof (cases "length b' > ef")
    case True
    have "tl b' \<noteq> []" using tl(4) len(1) by (metis length_0_conv)
    moreover have "\<forall>p \<in> set (push_max (score F ns q i, i) c) \<union> set (tl b'). met F ns q R (v[i := True]) p"
      using all tl(3) by blast
    ultimately show ?thesis using True tl len by (simp add: beam_ok_def)
  next
    case False
    have "b' \<noteq> []" using b'(4) by auto
    with False b' len all show ?thesis by (simp add: beam_ok_def)
  qed
qed

lemma expand_links_total:
  assumes ls: "set ls \<subseteq> R" and R: "\<forall>i \<in> R. i < length ns" and ok: "beam_ok F ns q R ef (v, c, b)"
  shows "\<exists>v' c' b'. expand_links F ns q ef ls (v, c, b) = Some (v', c', b') \<and> beam_ok F ns q R ef (v', c', b') \<and>
     length c' + unvisited v' \<le> length c + unvisited v"
  using ls ok
proof (induction ls arbitrary: v c b)
  case (Cons i ls)
  have i: "i \<in> R" "i < length ns" "i < length v" "set ls \<subseteq> R"
    using Cons.prems R by (auto simp: beam_ok_def)
  let ?s = "score F ns q i"
  show ?case
  proof (cases "v ! i")
    case True
    with Cons.IH [OF i(4) Cons.prems(2)] i show ?thesis by simp
  next
    case False
    note less = unvisited_mark [OF i(3) False]
    show ?thesis
    proof (cases "length b < ef \<or> total_key ?s > total_key (worst b)")
      case True
      let ?b = "let best' = push_min (?s, i) b in if length best' > ef then tl best' else best'"
      have "beam_ok F ns q R ef (v[i := True], push_max (?s, i) c, ?b)"
        unfolding Let_def using beam_ok_take [OF Cons.prems(2) i(1,3) False] by simp
      from Cons.IH [OF i(4) this] obtain v' c' b' where
          "expand_links F ns q ef ls (v[i := True], push_max (?s, i) c, ?b) = Some (v', c', b')"
          "beam_ok F ns q R ef (v', c', b')"
          "length c' + unvisited v' \<le> length (push_max (?s, i) c) + unvisited (v[i := True])"
        by blast
      with less True False i show ?thesis by (simp add: push_max_props)
    next
      case no: False
      from Cons.IH [OF i(4) beam_ok_keep [OF Cons.prems(2)], of i] obtain v' c' b' where
          "expand_links F ns q ef ls (v[i := True], c, b) = Some (v', c', b')"
          "beam_ok F ns q R ef (v', c', b')" "length c' + unvisited v' \<le> length c + unvisited (v[i := True])"
        by blast
      with less no False i show ?thesis by simp
    qed
  qed
qed simp

lemma beam_total:
  assumes R: "layer_closed ns l R" and ok: "beam_ok F ns q R ef (v, c, b)"
  shows "\<exists>v' c' b'. beam F ns q ef l v c b = Some b' \<and> beam_ok F ns q R ef (v', c', b')"
  using ok
proof (induction "length c + unvisited v" arbitrary: v c b rule: less_induct)
  case less
  show ?case
  proof (cases c)
    case Nil
    with less.prems show ?thesis by (subst beam.simps) auto
  next
    case (Cons p rest)
    show ?thesis
    proof (cases "total_key (fst p) < total_key (worst b) \<and> length b \<ge> ef")
      case True
      with less.prems Cons show ?thesis by (subst beam.simps) auto
    next
      case False
      have p: "snd p \<in> R" and rest: "beam_ok F ns q R ef (v, rest, b)"
        using less.prems unfolding Cons beam_ok_def by (simp_all add: ball_Un) (simp add: met_def)
      note in_R = layer_closedD [OF R p]
      have "\<forall>i \<in> R. i < length ns" using R by (auto simp: layer_closed_def)
      from expand_links_total [OF in_R(3) this rest] obtain v' c' b' where
          run: "expand_links F ns q ef (hn_links (ns ! snd p) ! l) (v, rest, b) = Some (v', c', b')"
          and ok': "beam_ok F ns q R ef (v', c', b')" and "length c' + unvisited v' \<le> length rest + unvisited v"
        by blast
      then have "length c' + unvisited v' < length c + unvisited v" using Cons by simp
      from less.hyps [OF this ok'] show ?thesis
        unfolding beam.simps [of F ns q ef l v c b] using False by (auto simp: Cons in_R run)
    qed
  qed
qed

lemma search_layer_total:
  assumes R: "layer_closed ns l R" and ep: "ep \<in> R" and ef: "1 \<le> ef"
  shows "\<exists>r. search_layer F ns ep q ef l = Some r \<and> r \<noteq> [] \<and> length r \<le> ef \<and> distinct (map snd r) \<and>
     sorted (rev (map sim_key r)) \<and> (\<forall>p \<in> set r. snd p \<in> R \<and> fst p = score F ns q (snd p))"
proof -
  note in_R = layer_closedD [OF R ep]
  have "beam_ok F ns q R ef ((replicate (length ns) False)[ep := True], [(score F ns q ep, ep)], [(score F ns q ep, ep)])"
    using in_R ep ef by (simp add: beam_ok_def met_def)
  from beam_total [OF R this] obtain v c b where
      "beam F ns q ef l ((replicate (length ns) False)[ep := True]) [(score F ns q ep, ep)] [(score F ns q ep, ep)] = Some b"
      "beam_ok F ns q R ef (v, c, b)"
    by blast
  then show ?thesis using in_R
    by (intro exI [of _ "rev b"]) (auto simp: search_layer_def beam_ok_def met_def rev_map [symmetric])
qed

section \<open>Selection and pruning\<close>

lemma diverse_total:
  "\<forall>p \<in> set kept. snd p < length ns \<Longrightarrow> \<exists>b. diverse F ns cv sim kept = Some b"
  by (induction F ns cv sim kept rule: diverse.induct) auto

lemma select_loop_total:
  assumes "\<forall>p \<in> set cs \<union> set kept. snd p < length ns" "length kept \<le> cap"
  shows "\<exists>kept' skipped' left. select_loop F ns cap cs kept skipped = Some (kept', skipped') \<and> length kept' \<le> cap \<and>
     mset (map snd kept' @ skipped' @ left) = mset (map snd kept @ skipped @ map snd cs)"
  using assms
proof (induction cs arbitrary: kept skipped)
  case (Cons p cs)
  obtain sim c where p: "p = (sim, c)" by fastforce
  show ?case
  proof (cases "length kept \<ge> cap")
    case True
    then have "select_loop F ns cap (p # cs) kept skipped = Some (kept, skipped)" using p by simp
    with Cons.prems(2) show ?thesis by blast
  next
    case False
    have "\<forall>p \<in> set kept. snd p < length ns" "c < length ns" using Cons.prems p by auto
    from diverse_total [OF this(1), of F "hn_vec (ns ! c)" sim] obtain b where
        b: "diverse F ns (hn_vec (ns ! c)) sim kept = Some b" by blast
    show ?thesis
    proof (cases b)
      case True
      have "\<forall>x \<in> set cs \<union> set (kept @ [(sim, c)]). snd x < length ns" "length (kept @ [(sim, c)]) \<le> cap"
        using Cons.prems False p by auto
      from Cons.IH [OF this, of skipped] False True b p \<open>c < length ns\<close> show ?thesis by simp
    next
      case no: False
      have "\<forall>x \<in> set cs \<union> set kept. snd x < length ns" using Cons.prems by auto
      from Cons.IH [OF this Cons.prems(2), of "skipped @ [c]"] False no b p \<open>c < length ns\<close> show ?thesis by simp
    qed
  qed
qed auto

lemma select_diverse_total:
  assumes "\<forall>p \<in> set cs. snd p < length ns" "distinct (map snd cs)"
  shows "\<exists>sel. select_diverse F ns cs cap = Some sel \<and> length sel \<le> cap \<and> distinct sel \<and> set sel \<subseteq> snd ` set cs"
proof -
  from select_loop_total [of cs "[]" ns cap F "[]"] assms(1) obtain kept skipped left where
      run: "select_loop F ns cap cs [] [] = Some (kept, skipped)" and len: "length kept \<le> cap"
      and eq: "mset (map snd kept @ skipped @ left) = mset (map snd cs)"
    by auto
  have "distinct (map snd kept @ skipped @ left)" using assms(2) mset_eq_imp_distinct_iff [OF eq] by blast
  then have "distinct (map snd kept @ take (cap - length kept) skipped)"
    by (auto dest: in_set_takeD)
  moreover have "set (map snd kept @ take (cap - length kept) skipped) \<subseteq> snd ` set cs"
    using mset_eq_setD [OF eq] by (auto dest: in_set_takeD)
  ultimately show ?thesis using run len by (simp add: select_diverse_def)
qed

lemma score_links_total:
  "\<forall>i \<in> set ls. i < length ns \<Longrightarrow> score_links F ns q ls = Some (map (\<lambda>i. (score F ns q i, i)) ls)"
  by (induction ls) simp_all

section \<open>The graph invariant\<close>

text \<open>What an update of links does not touch.\<close>

definition skeleton :: "hnsw_node list \<Rightarrow> (content_hash \<times> u32 list \<times> nat) list" where
  "skeleton ns = map (\<lambda>n. (hn_id n, hn_vec n, length (hn_links n))) ns"

definition link_ok :: "nat \<Rightarrow> hnsw_node list \<Rightarrow> nat \<Rightarrow> nat \<Rightarrow> nat list \<Rightarrow> bool" where
  "link_ok m ns i l ls \<longleftrightarrow> distinct ls \<and> i \<notin> set ls \<and> length ls \<le> max_degree m l \<and>
     (\<forall>nb \<in> set ls. nb < length ns \<and> l < length (hn_links (ns ! nb)))"

definition graph_ok :: "nat \<Rightarrow> hnsw_node list \<Rightarrow> bool" where
  "graph_ok m ns \<longleftrightarrow> (\<forall>i < length ns. hn_links (ns ! i) \<noteq> [] \<and>
     (\<forall>l < length (hn_links (ns ! i)). link_ok m ns i l (hn_links (ns ! i) ! l)))"

lemma skeletonD:
  assumes "skeleton ns = skeleton ns'"
  shows "length ns = length ns'"
    "i < length ns' \<Longrightarrow> hn_id (ns ! i) = hn_id (ns' ! i)" "i < length ns' \<Longrightarrow> hn_vec (ns ! i) = hn_vec (ns' ! i)"
    "i < length ns' \<Longrightarrow> length (hn_links (ns ! i)) = length (hn_links (ns' ! i))"
proof -
  show len: "length ns = length ns'" using arg_cong [OF assms, of length] by (simp add: skeleton_def)
  show "hn_id (ns ! i) = hn_id (ns' ! i)" "hn_vec (ns ! i) = hn_vec (ns' ! i)"
      "length (hn_links (ns ! i)) = length (hn_links (ns' ! i))" if "i < length ns'"
    using arg_cong [OF assms, of "\<lambda>xs. xs ! i"] that len by (simp_all add: skeleton_def)
qed

lemma link_ok_skeleton:
  assumes "skeleton ns = skeleton ns'"
  shows "link_ok m ns i l ls = link_ok m ns' i l ls"
  using skeletonD [OF assms] by (auto simp: link_ok_def)

lemma set_links_skeleton [simp]: "skeleton (set_links i l ls ns) = skeleton ns"
proof (cases "i < length ns")
  case True
  then show ?thesis by (auto simp: skeleton_def set_links_def map_update list_update_same_conv intro!: list_update_same_conv [THEN iffD2])
qed (simp add: set_links_def list_update_beyond)

lemma length_set_links [simp]: "length (set_links i l ls ns) = length ns"
  by (simp add: set_links_def)

lemma links_set_links:
  assumes "i < length ns" "j < length ns" "l < length (hn_links (ns ! i))"
  shows "hn_links (set_links i l ls ns ! j) ! l' = (if j = i \<and> l' = l then ls else hn_links (ns ! j) ! l')"
  using assms by (auto simp: set_links_def nth_list_update)

lemma links_length_set_links [simp]:
  assumes "j < length ns"
  shows "length (hn_links (set_links i l ls ns ! j)) = length (hn_links (ns ! j))"
  using skeletonD(4) [OF set_links_skeleton assms] .

lemma set_links_twice:
  assumes "i < length ns"
  shows "set_links i l ls (set_links i l ls' ns) = set_links i l ls ns"
  using assms by (simp add: set_links_def)

lemma graph_ok_set_links:
  assumes ok: "graph_ok m ns" and i: "i < length ns" "l < length (hn_links (ns ! i))" and ls: "link_ok m ns i l ls"
  shows "graph_ok m (set_links i l ls ns)"
proof -
  have "hn_links (set_links i l ls ns ! j) \<noteq> []" if "j < length ns" for j
    using ok that links_length_set_links [OF that, of i l ls] unfolding graph_ok_def by (metis length_0_conv)
  with ok ls i show ?thesis
    by (auto simp: graph_ok_def link_ok_skeleton [OF set_links_skeleton] links_set_links)
qed

section \<open>Linking a new node\<close>

lemma prune_total:
  assumes nb: "nb < length ns" "l < length (hn_links (ns ! nb))"
    and ls: "distinct ls" "nb \<notin> set ls" "\<forall>i \<in> set ls. i < length ns \<and> l < length (hn_links (ns ! i))"
  shows "\<exists>ls'. prune F m nb l (set_links nb l ls ns) = Some (set_links nb l ls' ns) \<and> link_ok m ns nb l ls' \<and>
     set ls' \<subseteq> set ls"
proof -
  let ?ns = "set_links nb l ls ns"
  have at: "links_at ?ns nb l = Some ls" using nb by (simp add: links_set_links)
  show ?thesis
  proof (cases "length ls \<le> max_degree m l")
    case True
    with ls at show ?thesis by (intro exI [of _ ls]) (auto simp: prune_def link_ok_def)
  next
    case False
    let ?q = "hn_vec (?ns ! nb)"
    let ?sc = "rev (sort_key sim_key (map (\<lambda>i. (score F ?ns ?q i, i)) ls))"
    have scored: "score_links F ?ns ?q ls = Some (map (\<lambda>i. (score F ?ns ?q i, i)) ls)"
      using ls(3) by (intro score_links_total) simp
    have snds: "mset (map snd ?sc) = mset ls" by (simp add: image_mset.compositionality comp_def)
    have "\<forall>p \<in> set ?sc. snd p < length ?ns" using ls(3) by auto
    moreover have "distinct (map snd ?sc)" using mset_eq_imp_distinct_iff [OF snds] ls(1) by blast
    ultimately obtain sel where sel: "select_diverse F ?ns ?sc (max_degree m l) = Some sel"
        "length sel \<le> max_degree m l" "distinct sel" "set sel \<subseteq> snd ` set ?sc"
      using select_diverse_total by blast
    have sub: "set sel \<subseteq> set ls" using sel(4) by auto
    have "prune F m nb l ?ns = Some (set_links nb l sel ?ns)"
      using False nb by (simp add: prune_def at scored sel(1))
    with sub sel(2,3) ls nb show ?thesis
      by (intro exI [of _ sel]) (auto simp: set_links_twice link_ok_def)
  qed
qed

lemma link_one:
  assumes ok: "graph_ok m ns" and z: "z < length ns" "l < length (hn_links (ns ! z))"
    and nb: "nb < length ns" "l < length (hn_links (ns ! nb))" "nb \<noteq> z"
    and fresh: "nb \<notin> set (hn_links (ns ! z) ! l)" "z \<notin> set (hn_links (ns ! nb) ! l)" "length (hn_links (ns ! z) ! l) < m"
  obtains ns1 ns2 ns3 where "push_link z l nb ns = Some ns1" "push_link nb l z ns1 = Some ns2" "prune F m nb l ns2 = Some ns3"
    "graph_ok m ns3" "skeleton ns3 = skeleton ns" "hn_links (ns3 ! z) ! l = hn_links (ns ! z) ! l @ [nb]"
    "\<And>j l'. j < length ns \<Longrightarrow> (j, l') \<notin> {(z, l), (nb, l)} \<Longrightarrow> hn_links (ns3 ! j) ! l' = hn_links (ns ! j) ! l'"
proof -
  let ?lz = "hn_links (ns ! z) ! l @ [nb]" and ?ln = "hn_links (ns ! nb) ! l @ [z]"
  let ?ns1 = "set_links z l ?lz ns"
  have zl: "link_ok m ns z l (hn_links (ns ! z) ! l)" and nl: "link_ok m ns nb l (hn_links (ns ! nb) ! l)"
    using ok z nb by (auto simp: graph_ok_def)
  have "length ?lz \<le> max_degree m l" using fresh(3) by (auto simp: max_degree_def)
  then have ok1: "graph_ok m ?ns1"
    using zl fresh nb by (intro graph_ok_set_links ok z) (auto simp: link_ok_def)
  have nb1: "nb < length ?ns1" "l < length (hn_links (?ns1 ! nb))" using nb by simp_all
  have "hn_links (?ns1 ! nb) ! l = hn_links (ns ! nb) ! l" using z nb by (simp add: links_set_links)
  then have p2: "push_link nb l z ?ns1 = Some (set_links nb l ?ln ?ns1)"
    using nb1 by (simp add: push_link_def)
  have "\<forall>i \<in> set ?ln. i < length ?ns1 \<and> l < length (hn_links (?ns1 ! i))"
    using nl z by (auto simp: link_ok_def)
  moreover have "distinct ?ln" "nb \<notin> set ?ln" using nl fresh nb by (auto simp: link_ok_def)
  ultimately obtain ls where ls: "prune F m nb l (set_links nb l ?ln ?ns1) = Some (set_links nb l ls ?ns1)"
      "link_ok m ?ns1 nb l ls"
    using prune_total [OF nb1] by blast
  show thesis
  proof (rule that [of ?ns1, OF _ p2 ls(1)])
    show "push_link z l nb ns = Some ?ns1" using z by (simp add: push_link_def)
    show "graph_ok m (set_links nb l ls ?ns1)" by (rule graph_ok_set_links [OF ok1 nb1 ls(2)])
    show "hn_links (set_links nb l ls ?ns1 ! z) ! l = ?lz"
      using z nb nb1 by (simp add: links_set_links)
    show "hn_links (set_links nb l ls ?ns1 ! j) ! l' = hn_links (ns ! j) ! l'"
      if "j < length ns" "(j, l') \<notin> {(z, l), (nb, l)}" for j l'
      using that z nb nb1 by (auto simp: links_set_links)
  qed simp
qed

lemma link_all_total:
  assumes "graph_ok m ns" and z: "z < length ns" "l < length (hn_links (ns ! z))"
    and nbs: "distinct nbs" "\<forall>nb \<in> set nbs. nb < length ns \<and> l < length (hn_links (ns ! nb)) \<and> nb \<noteq> z \<and>
      nb \<notin> set (hn_links (ns ! z) ! l) \<and> z \<notin> set (hn_links (ns ! nb) ! l)"
    and "length (hn_links (ns ! z) ! l) + length nbs \<le> m"
  shows "\<exists>ns'. link_all F m z l nbs ns = Some ns' \<and> graph_ok m ns' \<and> skeleton ns' = skeleton ns \<and>
     (\<forall>j < length ns. \<forall>l'. l' \<noteq> l \<longrightarrow> hn_links (ns' ! j) ! l' = hn_links (ns ! j) ! l')"
  using assms
proof (induction nbs arbitrary: ns)
  case (Cons nb nbs)
  have nb: "nb < length ns" "l < length (hn_links (ns ! nb))" "nb \<noteq> z" "nb \<notin> set (hn_links (ns ! z) ! l)"
      "z \<notin> set (hn_links (ns ! nb) ! l)" "length (hn_links (ns ! z) ! l) < m"
    using Cons.prems by auto
  obtain ns1 ns2 ns3 where run: "push_link z l nb ns = Some ns1" "push_link nb l z ns1 = Some ns2" "prune F m nb l ns2 = Some ns3"
      and ok: "graph_ok m ns3" and sk: "skeleton ns3 = skeleton ns" and lz: "hn_links (ns3 ! z) ! l = hn_links (ns ! z) ! l @ [nb]"
      and keep: "\<And>j l'. j < length ns \<Longrightarrow> (j, l') \<notin> {(z, l), (nb, l)} \<Longrightarrow> hn_links (ns3 ! j) ! l' = hn_links (ns ! j) ! l'"
    by (rule link_one [OF Cons.prems(1-3) nb, of F]) blast
  note len = skeletonD [OF sk]
  have "\<exists>ns'. link_all F m z l nbs ns3 = Some ns' \<and> graph_ok m ns' \<and> skeleton ns' = skeleton ns3 \<and>
     (\<forall>j < length ns3. \<forall>l'. l' \<noteq> l \<longrightarrow> hn_links (ns' ! j) ! l' = hn_links (ns3 ! j) ! l')"
  proof (rule Cons.IH [OF ok])
    show "z < length ns3" "l < length (hn_links (ns3 ! z))" "distinct nbs"
      "length (hn_links (ns3 ! z) ! l) + length nbs \<le> m"
      using Cons.prems len(1,4) lz by simp_all
    show "\<forall>nb \<in> set nbs. nb < length ns3 \<and> l < length (hn_links (ns3 ! nb)) \<and> nb \<noteq> z \<and>
        nb \<notin> set (hn_links (ns3 ! z) ! l) \<and> z \<notin> set (hn_links (ns3 ! nb) ! l)"
    proof
      fix i
      assume i: "i \<in> set nbs"
      then have "hn_links (ns3 ! i) ! l = hn_links (ns ! i) ! l" using Cons.prems(4,5) by (intro keep) auto
      with i Cons.prems(4,5) len(1,4) lz show "i < length ns3 \<and> l < length (hn_links (ns3 ! i)) \<and> i \<noteq> z \<and>
          i \<notin> set (hn_links (ns3 ! z) ! l) \<and> z \<notin> set (hn_links (ns3 ! i) ! l)"
        by auto
    qed
  qed
  then show ?case using run sk len(1) keep by auto
qed simp

section \<open>Layers of the graph\<close>

text \<open>The nodes of a layer, apart from the one being inserted.\<close>

definition layer_nodes :: "hnsw_node list \<Rightarrow> nat \<Rightarrow> nat \<Rightarrow> nat set" where
  "layer_nodes ns z l = {i. i < length ns \<and> i \<noteq> z \<and> l < length (hn_links (ns ! i))}"

definition unlinked :: "hnsw_node list \<Rightarrow> nat \<Rightarrow> nat \<Rightarrow> bool" where
  "unlinked ns z l \<longleftrightarrow> (\<forall>i \<in> layer_nodes ns z l. z \<notin> set (hn_links (ns ! i) ! l))"

lemma layer_nodes_mono: "l \<le> l' \<Longrightarrow> layer_nodes ns z l' \<subseteq> layer_nodes ns z l"
  by (auto simp: layer_nodes_def)

lemma layer_nodes_closed:
  assumes "graph_ok m ns" "unlinked ns z l"
  shows "layer_closed ns l (layer_nodes ns z l)"
  unfolding layer_closed_def
proof (intro ballI conjI subsetI)
  fix i
  assume i: "i \<in> layer_nodes ns z l"
  then show "i < length ns" "l < length (hn_links (ns ! i))" by (simp_all add: layer_nodes_def)
  then have "link_ok m ns i l (hn_links (ns ! i) ! l)" using assms(1) by (simp add: graph_ok_def)
  then show "j \<in> layer_nodes ns z l" if "j \<in> set (hn_links (ns ! i) ! l)" for j
    using that i assms(2) by (auto simp: link_ok_def layer_nodes_def unlinked_def)
qed

lemma unlinked_beyond:
  assumes "graph_ok m ns" "length ns \<le> z"
  shows "unlinked ns z l"
  unfolding unlinked_def
proof
  fix i
  assume "i \<in> layer_nodes ns z l"
  then have "link_ok m ns i l (hn_links (ns ! i) ! l)" using assms(1) by (simp add: layer_nodes_def graph_ok_def)
  then show "z \<notin> set (hn_links (ns ! i) ! l)" using assms(2) by (auto simp: link_ok_def)
qed

lemma descend_total:
  assumes closed: "\<And>l. a \<le> l \<Longrightarrow> l < b \<Longrightarrow> layer_closed ns l (layer_nodes ns z l)"
    and ep: "ep \<in> layer_nodes ns z (b - 1)" and ab: "a \<le> b"
  shows "\<exists>ep'. descend F ns q (rev [a..<b]) ep = Some ep' \<and> ep' \<in> layer_nodes ns z (if a < b then a else b - 1)"
  using ab closed ep
proof (induction b arbitrary: ep)
  case (Suc b)
  show ?case
  proof (cases "a \<le> b")
    case True
    from greedy_closest_total [OF Suc.prems(2) [OF True lessI], of ep F q] Suc.prems(3) obtain r where
        r: "r \<in> layer_nodes ns z b" "greedy_closest F ns ep q b = Some r"
      by auto
    have "r \<in> layer_nodes ns z (b - 1)" using r(1) layer_nodes_mono [of "b - 1" b ns z] by auto
    from Suc.IH [OF True _ this] Suc.prems(2) obtain ep' where
        "descend F ns q (rev [a..<b]) r = Some ep'" "ep' \<in> layer_nodes ns z (if a < b then a else b - 1)"
      by auto
    then show ?thesis using r True by (cases "a < b") auto
  next
    case False
    with Suc.prems have "a = Suc b" by simp
    with Suc.prems(3) show ?thesis by simp
  qed
qed simp

lemma layer_nodes_skeleton: "skeleton ns = skeleton ns' \<Longrightarrow> layer_nodes ns z l = layer_nodes ns' z l"
  using skeletonD [of ns ns'] by (auto simp: layer_nodes_def)

lemma link_layers_total:
  assumes "graph_ok m ns" "z < length ns" "L \<le> length (hn_links (ns ! z))" and ef: "1 \<le> ef"
    and "\<And>l. l < L \<Longrightarrow> unlinked ns z l \<and> hn_links (ns ! z) ! l = []" and "ep \<in> layer_nodes ns z (L - 1)"
  shows "\<exists>ns'. link_layers F m ef z q (rev [0..<L]) ep ns = Some ns' \<and> graph_ok m ns' \<and> skeleton ns' = skeleton ns"
  using assms
proof (induction L arbitrary: ns ep)
  case (Suc L)
  note closed = layer_nodes_closed [OF Suc.prems(1) conjunct1 [OF Suc.prems(5) [OF lessI]]]
  from search_layer_total [OF closed, of ep ef F q] Suc.prems(6) ef obtain found where
      run: "search_layer F ns ep q ef L = Some found" and found: "found \<noteq> []" "distinct (map snd found)"
        "\<forall>p \<in> set found. snd p \<in> layer_nodes ns z L"
    by auto
  obtain sim best rest where hd: "found = (sim, best) # rest" using found(1) by (cases found) auto
  have best: "best \<in> layer_nodes ns z (L - 1)"
    using found(3) layer_nodes_mono [of "L - 1" L ns z] by (auto simp: hd)
  have "\<forall>p \<in> set found. snd p < length ns" using found(3) by (simp add: layer_nodes_def)
  from select_diverse_total [OF this found(2), of F m] obtain sel where
      sel: "select_diverse F ns found m = Some sel" "length sel \<le> m" "distinct sel" "set sel \<subseteq> snd ` set found"
    by blast
  have z: "L < length (hn_links (ns ! z))" "hn_links (ns ! z) ! L = []" "unlinked ns z L" using Suc.prems(3,5) by auto
  have sub: "i \<in> layer_nodes ns z L" if "i \<in> set sel" for i using that sel(4) found(3) by auto
  have "\<exists>ns'. link_all F m z L sel ns = Some ns' \<and> graph_ok m ns' \<and> skeleton ns' = skeleton ns \<and>
     (\<forall>j < length ns. \<forall>l'. l' \<noteq> L \<longrightarrow> hn_links (ns' ! j) ! l' = hn_links (ns ! j) ! l')"
    using z sel sub by (intro link_all_total Suc.prems(1,2)) (auto simp: layer_nodes_def unlinked_def)
  then obtain ns' where ns': "link_all F m z L sel ns = Some ns'" "graph_ok m ns'" "skeleton ns' = skeleton ns"
      and keep: "\<And>j l'. j < length ns \<Longrightarrow> l' \<noteq> L \<Longrightarrow> hn_links (ns' ! j) ! l' = hn_links (ns ! j) ! l'"
    by blast
  note sk = skeletonD [OF ns'(3)] layer_nodes_skeleton [OF ns'(3)]
  have "\<exists>ns''. link_layers F m ef z q (rev [0..<L]) best ns' = Some ns'' \<and> graph_ok m ns'' \<and> skeleton ns'' = skeleton ns'"
  proof (rule Suc.IH [OF ns'(2) _ _ ef])
    show "z < length ns'" "L \<le> length (hn_links (ns' ! z))" "best \<in> layer_nodes ns' z (L - 1)"
      using Suc.prems(2,3) sk best by simp_all
    show "unlinked ns' z l \<and> hn_links (ns' ! z) ! l = []" if "l < L" for l
    proof -
      have "unlinked ns z l" "hn_links (ns ! z) ! l = []" using Suc.prems(5) [of l] that by auto
      with keep Suc.prems(2) that sk show ?thesis by (auto simp: unlinked_def layer_nodes_def)
    qed
  qed
  with run sel(1) ns' hd show ?case by auto
qed simp

section \<open>The index invariant\<close>

definition hnsw_ok :: "f32_env \<Rightarrow> (content_hash \<times> versioned_vector) set \<Rightarrow> hnsw_index \<Rightarrow> bool" where
  "hnsw_ok F A ix \<longleftrightarrow> 2 \<le> hx_m ix \<and> 1 \<le> hx_ef_construction ix \<and> 1 \<le> hx_ef_search ix \<and>
     graph_ok (hx_m ix) (hx_nodes ix) \<and>
     (\<forall>n \<in> set (hx_nodes ix). length (hn_links n) \<le> 33 \<and> (\<exists>v. (hn_id n, v) \<in> A \<and> hn_vec n = normalized F (vv_data v) \<and>
        hx_model ix = Some (vv_model v) \<and> hx_dim ix = Some (length (vv_data v)))) \<and>
     (case hx_entry ix of
        None \<Rightarrow> hx_nodes ix = []
      | Some e \<Rightarrow> e < length (hx_nodes ix) \<and>
          (\<forall>n \<in> set (hx_nodes ix). length (hn_links n) \<le> length (hn_links (hx_nodes ix ! e))))"

lemma space_check_ok:
  "space_check model dim v = Inr () \<longleftrightarrow> model \<in> {None, Some (vv_model v)} \<and> dim \<in> {None, Some (length (vv_data v))}"
  by (auto simp: space_check_def)

lemma with_params_ok: "hnsw_ok F A (with_params m efc efs)"
  by (simp add: hnsw_ok_def with_params_def graph_ok_def)

lemma in_skeleton:
  assumes "skeleton ns = skeleton ns'" "n \<in> set ns"
  shows "\<exists>n' \<in> set ns'. hn_id n = hn_id n' \<and> hn_vec n = hn_vec n' \<and> length (hn_links n) = length (hn_links n')"
  using assms skeletonD [OF assms(1)] by (metis in_set_conv_nth)

lemma graph_ok_snoc:
  assumes ok: "graph_ok m ns" and links: "hn_links n = replicate (Suc level) []"
  shows "graph_ok m (ns @ [n])"
  unfolding graph_ok_def
proof (intro allI impI)
  fix i
  assume "i < length (ns @ [n])"
  then consider "i < length ns" | "i = length ns" by fastforce
  then show "hn_links ((ns @ [n]) ! i) \<noteq> [] \<and> (\<forall>l < length (hn_links ((ns @ [n]) ! i)).
      link_ok m (ns @ [n]) i l (hn_links ((ns @ [n]) ! i) ! l))"
  proof cases
    case 1
    then have "hn_links (ns ! i) \<noteq> []" and old: "\<And>l. l < length (hn_links (ns ! i)) \<Longrightarrow> link_ok m ns i l (hn_links (ns ! i) ! l)"
      using ok by (simp_all add: graph_ok_def)
    moreover have "link_ok m (ns @ [n]) i l (hn_links (ns ! i) ! l)" if "l < length (hn_links (ns ! i))" for l
      using old [OF that] by (auto simp: link_ok_def nth_append)
    ultimately show ?thesis using 1 by (simp add: nth_append)
  next
    case 2
    then show ?thesis by (simp add: links link_ok_def del: replicate_Suc)
  qed
qed

definition inserted :: "externals \<Rightarrow> f32_env \<Rightarrow> nat \<Rightarrow> content_hash \<Rightarrow> versioned_vector \<Rightarrow> hnsw_node" where
  "inserted X F m nid v = \<lparr>hn_id = nid, hn_vec = normalized F (vv_data v), hn_links = replicate (level_for X F m nid + 1) []\<rparr>"

text \<open>The part of an insertion after the node was appended.\<close>

lemma insert_links_total:
  fixes ns n
  assumes ok: "graph_ok m ns" and n: "hn_links n = replicate (Suc level) []" and e: "e < length ns"
    and lv: "lv = length (hn_links (ns ! e)) - 1" and ef: "1 \<le> ef"
  shows "\<exists>ep ns'. descend F (ns @ [n]) q (rev [level + 1..<lv + 1]) e = Some ep \<and>
     link_layers F m ef (length ns) q (rev [0..<min level lv + 1]) ep (ns @ [n]) = Some ns' \<and>
     graph_ok m ns' \<and> skeleton ns' = skeleton (ns @ [n])"
proof -
  let ?ns = "ns @ [n]" and ?z = "length ns"
  have ok': "graph_ok m ?ns" by (rule graph_ok_snoc [OF ok n])
  have fresh: "unlinked ?ns ?z l" for l
    unfolding unlinked_def
  proof
    fix i
    assume "i \<in> layer_nodes ?ns ?z l"
    then have i: "i < length ns" "?ns ! i = ns ! i" "l < length (hn_links (ns ! i))"
      by (auto simp: layer_nodes_def nth_append split: if_splits)
    then have "link_ok m ns i l (hn_links (ns ! i) ! l)" using ok by (simp add: graph_ok_def)
    then show "?z \<notin> set (hn_links (?ns ! i) ! l)" unfolding i(2) by (auto simp: link_ok_def)
  qed
  have "hn_links (ns ! e) \<noteq> []" using ok e by (simp add: graph_ok_def)
  then have e_top: "e \<in> layer_nodes ?ns ?z lv" using e lv by (simp add: layer_nodes_def nth_append)
  have "\<exists>ep. descend F ?ns q (rev [level + 1..<lv + 1]) e = Some ep \<and> ep \<in> layer_nodes ?ns ?z (min level lv)"
  proof (cases "level < lv")
    case True
    from descend_total [of "level + 1" "lv + 1" ?ns ?z e F q] e_top True obtain ep where
        "descend F ?ns q (rev [level + 1..<lv + 1]) e = Some ep" "ep \<in> layer_nodes ?ns ?z (level + 1)"
      using layer_nodes_closed [OF ok' fresh] by auto
    with True layer_nodes_mono [of level "level + 1" ?ns ?z] show ?thesis by auto
  next
    case False
    with e_top show ?thesis by simp
  qed
  then obtain ep where ep: "descend F ?ns q (rev [level + 1..<lv + 1]) e = Some ep" "ep \<in> layer_nodes ?ns ?z (min level lv)"
    by blast
  have "\<exists>ns'. link_layers F m ef ?z q (rev [0..<min level lv + 1]) ep ?ns = Some ns' \<and> graph_ok m ns' \<and> skeleton ns' = skeleton ?ns"
    by (rule link_layers_total [OF ok' _ _ ef]) (use n fresh ep(2) in \<open>simp_all del: replicate_Suc\<close>)
  with ep(1) show ?thesis by blast
qed

lemma hnsw_add_total:
  assumes ok: "hnsw_ok F A ix" and v: "(nid, v) \<in> A" and fits: "length (hx_nodes ix) < 2 ^ 32"
  shows "\<exists>r ix'. hnsw_add X F nid v ix = Some (r, ix') \<and> hnsw_ok F A ix' \<and>
     length (hx_nodes ix') \<le> Suc (length (hx_nodes ix))"
proof (cases "hnsw_check ix v")
  case (Inl e)
  with ok show ?thesis by (simp add: hnsw_add_def)
next
  case (Inr u)
  define m where "m = hx_m ix"
  define ns where "ns = hx_nodes ix"
  define n where "n = inserted X F m nid v"
  define level where "level = level_for X F m nid"
  define ix1 where "ix1 = ix\<lparr>hx_model := Some (vv_model v), hx_dim := Some (length (vv_data v))\<rparr>"
  have space: "hx_model ix \<in> {None, Some (vv_model v)}" "hx_dim ix \<in> {None, Some (length (vv_data v))}"
    using Inr space_check_ok [of "hx_model ix" "hx_dim ix" v] by (simp_all add: hnsw_check_def)
  have ix1: "ix\<lparr>hx_model := get_or_insert (hx_model ix) (vv_model v), hx_dim := get_or_insert (hx_dim ix) (length (vv_data v))\<rparr> = ix1"
    using space by (auto simp: get_or_insert_def ix1_def)
  have n: "hn_links n = replicate (Suc level) []" "hn_id n = nid" "hn_vec n = normalized F (vv_data v)" "level \<le> 32"
    by (simp_all add: n_def inserted_def level_def level_for_def)
  have new: "\<lparr>hn_id = nid, hn_vec = normalized F (vv_data v), hn_links = replicate (level + 1) []\<rparr> = n"
    by (simp add: n_def inserted_def level_def)
  have sel: "hx_nodes ix1 = ns" "hx_m ix1 = m" "hx_entry ix1 = hx_entry ix" "hx_ef_construction ix1 = hx_ef_construction ix"
      "hx_ef_search ix1 = hx_ef_search ix"
    by (simp_all add: ix1_def ns_def m_def)
  have idx: "length ns mod 2 ^ 32 = length ns" using fits by (simp add: ns_def)
  have base: "2 \<le> m" "1 \<le> hx_ef_construction ix" "1 \<le> hx_ef_search ix" "graph_ok m ns"
    using ok by (simp_all add: hnsw_ok_def m_def ns_def)
  have known: "length (hn_links x) \<le> 33 \<and> (\<exists>w. (hn_id x, w) \<in> A \<and> hn_vec x = normalized F (vv_data w) \<and>
      Some (vv_model v) = Some (vv_model w) \<and> Some (length (vv_data v)) = Some (length (vv_data w)))"
    if "x \<in> set (ns @ [n])" for x
  proof (cases "x = n")
    case True
    with n v show ?thesis by (auto simp del: replicate_Suc)
  next
    case False
    with that ok space show ?thesis by (auto simp: hnsw_ok_def ns_def)
  qed
  show ?thesis
  proof (cases "hx_entry ix")
    case None
    then have "ns = []" using ok by (simp add: hnsw_ok_def ns_def)
    then have "hnsw_ok F A (ix1\<lparr>hx_nodes := [n], hx_entry := Some 0\<rparr>)"
      using known base graph_ok_snoc [OF base(4) n(1)] by (simp add: hnsw_ok_def sel ix1_def m_def)
    with Inr None \<open>ns = []\<close> idx show ?thesis
      by (simp add: hnsw_add_def ix1 Let_def sel n_def inserted_def ns_def)
  next
    case (Some e)
    then have e: "e < length ns" and highest: "\<forall>x \<in> set ns. length (hn_links x) \<le> length (hn_links (ns ! e))"
      using ok by (simp_all add: hnsw_ok_def ns_def)
    have ne: "hn_links (ns ! e) \<noteq> []" "0 < length (hn_links (ns ! e))" using base(4) e by (simp_all add: graph_ok_def)
    have at: "at (ns @ [n]) (length ns) = Some n" "at (ns @ [n]) e = Some (ns ! e)" using e by (simp_all add: nth_append)
    obtain ep ns' where run: "descend F (ns @ [n]) (hn_vec n) (rev [level + 1..<length (hn_links (ns ! e)) - 1 + 1]) e = Some ep"
        "link_layers F m (hx_ef_construction ix) (length ns) (hn_vec n) (rev [0..<min level (length (hn_links (ns ! e)) - 1) + 1]) ep
          (ns @ [n]) = Some ns'"
      and ns': "graph_ok m ns'" "skeleton ns' = skeleton (ns @ [n])"
      using insert_links_total [OF base(4) n(1) e refl base(2)] by blast
    note sk = skeletonD [OF ns'(2)] in_skeleton [OF ns'(2)]
    let ?e = "if level > length (hn_links (ns ! e)) - 1 then length ns else e"
    have "length (hn_links x) \<le> length (hn_links (ns' ! ?e))" if "x \<in> set ns'" for x
    proof -
      from sk(5) [OF that] obtain y where "y \<in> set (ns @ [n])" "length (hn_links x) = length (hn_links y)" by blast
      then have x: "length (hn_links x) \<le> length (hn_links (ns ! e)) \<or> length (hn_links x) = Suc level"
        using highest n(1) by (auto simp del: replicate_Suc)
      have eq: "length (hn_links (ns' ! ?e)) =
          (if level > length (hn_links (ns ! e)) - 1 then Suc level else length (hn_links (ns ! e)))"
        using sk(4) [of ?e] e n(1) by (simp add: nth_append del: replicate_Suc)
      show ?thesis unfolding eq using x ne(2) by (split if_split) linarith
    qed
    moreover have "\<forall>x \<in> set ns'. length (hn_links x) \<le> 33 \<and> (\<exists>w. (hn_id x, w) \<in> A \<and> hn_vec x = normalized F (vv_data w) \<and>
        Some (vv_model v) = Some (vv_model w) \<and> Some (length (vv_data v)) = Some (length (vv_data w)))"
      using sk(5) known by metis
    ultimately have "hnsw_ok F A (ix1\<lparr>hx_nodes := ns', hx_entry := Some ?e\<rparr>)"
      using base ns'(1) e sk(1) by (simp add: hnsw_ok_def sel ix1_def m_def)
    moreover have "hnsw_add X F nid v ix = Some (Inr (), ix1\<lparr>hx_nodes := ns', hx_entry := Some ?e\<rparr>)"
      by (simp only: hnsw_add_def Inr sum.case Let_def ix1 sel level_def [symmetric] new idx Some option.case at
        Option.bind_lunit ne(1) if_False run)
    ultimately show ?thesis using sk(1) by (simp add: ns_def)
  qed
qed

lemma to_neighbors_total:
  "\<forall>p \<in> set ps. snd p < length ns \<Longrightarrow>
     to_neighbors ns ps = Some (map (\<lambda>p. \<lparr>nb_id = hn_id (ns ! snd p), nb_score = fst p\<rparr>) ps)"
  by (induction ps) auto

lemma sorted_scores:
  "sorted (rev (map sim_key ps)) \<Longrightarrow> sorted (rev (map (\<lambda>p. total_key (fst p)) (take k ps)))"
proof -
  assume "sorted (rev (map sim_key ps))"
  then have "sorted_wrt (\<lambda>p p'. sim_key p' \<le> sim_key p) ps" by (simp add: sorted_wrt_rev sorted_wrt_map)
  then have "sorted_wrt (\<lambda>p p'. total_key (fst p') \<le> total_key (fst p)) (take k ps)"
    by (intro sorted_wrt_take) (erule sorted_wrt_mono_rel [rotated], auto simp: sim_key_def less_eq_prod_def)
  then show ?thesis by (simp add: sorted_wrt_rev sorted_wrt_map)
qed

definition good_hits ::
    "f32_env \<Rightarrow> (content_hash \<times> versioned_vector) set \<Rightarrow> versioned_vector \<Rightarrow> nat \<Rightarrow> neighbor list \<Rightarrow> bool" where
  "good_hits F A q k hits \<longleftrightarrow> length hits \<le> k \<and> sorted (rev (map (total_key \<circ> nb_score) hits)) \<and>
     (\<forall>h \<in> set hits. \<exists>v. (nb_id h, v) \<in> A \<and> vv_model v = vv_model q \<and> length (vv_data v) = length (vv_data q) \<and>
        nb_score h = dot F (normalized F (vv_data v)) (normalized F (vv_data q)))"

lemma hnsw_search_total:
  assumes ok: "hnsw_ok F A ix"
  shows "\<exists>r. hnsw_search F ix q k = Some r \<and>
     (case r of Inl e \<Rightarrow> hnsw_check ix q = Inl e
      | Inr hits \<Rightarrow> good_hits F A q k hits \<and> (0 < k \<and> hx_nodes ix \<noteq> [] \<longrightarrow> hits \<noteq> []))"
proof (cases "hnsw_check ix q")
  case (Inl e)
  then show ?thesis by (simp add: hnsw_search_def)
next
  case (Inr u)
  then have space: "hx_model ix \<in> {None, Some (vv_model q)}" "hx_dim ix \<in> {None, Some (length (vv_data q))}"
    using space_check_ok [of "hx_model ix" "hx_dim ix" q] by (simp_all add: hnsw_check_def)
  show ?thesis
  proof (cases "hx_entry ix")
    case None
    with ok Inr show ?thesis by (simp add: hnsw_search_def hnsw_ok_def good_hits_def)
  next
    case (Some e)
    define ns where "ns = hx_nodes ix"
    let ?q = "normalized F (vv_data q)" and ?z = "length ns"
    have g: "graph_ok (hx_m ix) ns" and e: "e < length ns" and ef: "1 \<le> max (hx_ef_search ix) k"
      using ok Some by (auto simp: hnsw_ok_def ns_def)
    have ne: "hn_links (ns ! e) \<noteq> []" using g e by (simp add: graph_ok_def)
    have "unlinked ns ?z l" for l by (rule unlinked_beyond [OF g order.refl])
    then have closed: "layer_closed ns l (layer_nodes ns ?z l)" for l by (rule layer_nodes_closed [OF g])
    have "e \<in> layer_nodes ns ?z (length (hn_links (ns ! e)) - 1)" using e ne by (simp add: layer_nodes_def)
    from descend_total [OF closed this, of 1 F ?q] ne obtain ep where
        ep: "descend F ns ?q (rev [1..<length (hn_links (ns ! e))]) e = Some ep"
          "ep \<in> layer_nodes ns ?z (if 1 < length (hn_links (ns ! e)) then 1 else length (hn_links (ns ! e)) - 1)"
      by (auto simp: Suc_le_eq)
    then have "ep \<in> layer_nodes ns ?z 0" using layer_nodes_mono [of 0 _ ns ?z] by auto
    from search_layer_total [OF closed this ef, of F ?q] obtain found where
        run: "search_layer F ns ep ?q (max (hx_ef_search ix) k) 0 = Some found" and found: "found \<noteq> []"
        "sorted (rev (map sim_key found))" "\<forall>p \<in> set found. snd p \<in> layer_nodes ns ?z 0 \<and> fst p = score F ns ?q (snd p)"
      by blast
    let ?hits = "map (\<lambda>p. \<lparr>nb_id = hn_id (ns ! snd p), nb_score = fst p\<rparr>) (take k found)"
    have range: "\<forall>p \<in> set (take k found). snd p < length ns"
      using found(3) by (auto simp: layer_nodes_def dest: in_set_takeD)
    have search: "hnsw_search F ix q k = Some (Inr ?hits)"
      using Inr Some e ne ep(1) run by (simp add: hnsw_search_def Let_def ns_def [symmetric] to_neighbors_total [OF range])
    have "\<exists>v. (hn_id (ns ! snd p), v) \<in> A \<and> vv_model v = vv_model q \<and> length (vv_data v) = length (vv_data q) \<and>
        fst p = dot F (normalized F (vv_data v)) ?q" if "p \<in> set (take k found)" for p
    proof -
      have "ns ! snd p \<in> set (hx_nodes ix)" using range that by (auto simp: ns_def)
      then obtain v where "(hn_id (ns ! snd p), v) \<in> A" "hn_vec (ns ! snd p) = normalized F (vv_data v)"
          "hx_model ix = Some (vv_model v)" "hx_dim ix = Some (length (vv_data v))"
        using ok unfolding hnsw_ok_def by blast
      with space that found(3) show ?thesis by (auto dest!: in_set_takeD)
    qed
    then have "good_hits F A q k ?hits"
      using sorted_scores [OF found(2), of k] by (auto simp: good_hits_def comp_def)
    with search found(1) show ?thesis by auto
  qed
qed

section \<open>Every index that insertions build\<close>

fun hnsw_adds ::
    "externals \<Rightarrow> f32_env \<Rightarrow> (content_hash \<times> versioned_vector) list \<Rightarrow> hnsw_index \<Rightarrow> hnsw_index option" where
  "hnsw_adds X F [] ix = Some ix"
| "hnsw_adds X F ((nid, v) # rest) ix = Option.bind (hnsw_add X F nid v ix) (\<lambda>(_, ix'). hnsw_adds X F rest ix')"

lemma hnsw_adds_total:
  assumes "hnsw_ok F A ix" "set adds \<subseteq> A" "length (hx_nodes ix) + length adds \<le> 2 ^ 32"
  shows "\<exists>ix'. hnsw_adds X F adds ix = Some ix' \<and> hnsw_ok F A ix'"
  using assms
proof (induction adds arbitrary: ix)
  case (Cons a adds)
  obtain nid v where a: "a = (nid, v)" by fastforce
  from hnsw_add_total [OF Cons.prems(1), of nid v X] Cons.prems(2,3) a obtain r ix' where
      "hnsw_add X F nid v ix = Some (r, ix')" "hnsw_ok F A ix'" "length (hx_nodes ix') \<le> Suc (length (hx_nodes ix))"
    by auto
  with Cons.IH [of ix'] Cons.prems(2,3) a show ?case by auto
qed simp

text \<open>C32. The approximate index is safe: whatever vectors are added, in whatever order, every insertion
  and every later search returns (no index out of range, no endless climb), and the hits are at
  most \<open>k\<close> of the added nodes, of the query's model and dimension only, each with the dot product of
  the normalised vectors as its score, best first; a non-empty index answers every accepted
  query.\<close>

theorem hnsw_is_safe:
  assumes "length adds \<le> 2 ^ 32"
  shows "\<exists>ix. hnsw_adds X F adds (with_params m ef_construction ef_search) = Some ix \<and>
     (\<forall>q k. \<exists>r. hnsw_search F ix q k = Some r \<and>
       (case r of Inl e \<Rightarrow> hnsw_check ix q = Inl e
        | Inr hits \<Rightarrow> good_hits F (set adds) q k hits \<and> (0 < k \<and> hx_nodes ix \<noteq> [] \<longrightarrow> hits \<noteq> [])))"
proof -
  have "length (hx_nodes (with_params m ef_construction ef_search)) + length adds \<le> 2 ^ 32"
    using assms by (simp add: with_params_def)
  from hnsw_adds_total [OF with_params_ok subset_refl this, of X F] obtain ix where
      "hnsw_adds X F adds (with_params m ef_construction ef_search) = Some ix" "hnsw_ok F (set adds) ix"
    by blast
  with hnsw_search_total show ?thesis by blast
qed

text \<open>C32, two vectors of one model and one of another.\<close>

theorem hnsw_is_safe_witness:
  "\<exists>ix. hnsw_adds ideal_externals ideal_f32
       [(1, \<lparr>vv_model = ''a'', vv_data = [1, 0]\<rparr>), (2, \<lparr>vv_model = ''a'', vv_data = [0, 1]\<rparr>), (3, \<lparr>vv_model = ''b'', vv_data = [1]\<rparr>)]
       (with_params 16 128 64) = Some ix \<and> (\<exists>r. hnsw_search ideal_f32 ix \<lparr>vv_model = ''a'', vv_data = [1, 1]\<rparr> 1 = Some r)"
  using hnsw_is_safe [of "[(1, \<lparr>vv_model = ''a'', vv_data = [1, 0]\<rparr>), (2, \<lparr>vv_model = ''a'', vv_data = [0, 1]\<rparr>),
    (3, \<lparr>vv_model = ''b'', vv_data = [1]\<rparr>)]" ideal_externals ideal_f32 16 128 64]
  by (simp del: hnsw_adds.simps) blast

end
