(* ===== verification/Search_Safety.thy ===== *)
theory Search_Safety
  imports Recall_Safety Hnsw_Safety
begin

text \<open>
  Properties of semantic search: over the exact index it returns the best nodes of the tenant; over
  the shared cache of approximate indexes it never panics, keeps the cache well formed and
  stays in the tenant.
\<close>

section \<open>The exact index of a tenant\<close>

text \<open>A vector the exact index compares with vectors of the given model and dimension.\<close>

definition comparable :: "string \<Rightarrow> nat \<Rightarrow> memory_node \<Rightarrow> bool" where
  "comparable model dim n \<longleftrightarrow> (case n_embedding n of
     None \<Rightarrow> False
   | Some v \<Rightarrow> list_all f32_finite (vv_data v) \<and> vv_model v = model \<and> length (vv_data v) = dim)"

definition vector_of :: "memory_node \<Rightarrow> u32 list" where
  "vector_of n = (case n_embedding n of None \<Rightarrow> [] | Some v \<Rightarrow> vv_data v)"

definition indexes ::
    "externals \<Rightarrow> string \<Rightarrow> nat \<Rightarrow> memory_node list \<Rightarrow> brute_force_index \<Rightarrow> (content_hash \<rightharpoonup> memory_node) \<Rightarrow>
     brute_force_index \<times> (content_hash \<rightharpoonup> memory_node) \<Rightarrow> bool" where
  "indexes X model dim ns ix by_id r \<longleftrightarrow>
     fst r = ix\<lparr>bf_items := bf_items ix @ map (\<lambda>n. (node_id X n, vector_of n)) (filter (comparable model dim) ns)\<rparr> \<and>
     (\<forall>n \<in> set ns. comparable model dim n \<longrightarrow> snd r (node_id X n) = Some n) \<and>
     (\<forall>h. h \<notin> node_id X ` set ns \<longrightarrow> snd r h = by_id h)"

lemma indexes_skip:
  assumes "indexes X model dim ns ix by_id r" "\<not> comparable model dim n"
  shows "indexes X model dim (n # ns) ix by_id r"
  using assms by (simp add: indexes_def)

lemma indexes_add:
  assumes "indexes X model dim ns (ix\<lparr>bf_items := bf_items ix @ [(node_id X n, vector_of n)]\<rparr>) (by_id(node_id X n \<mapsto> n)) r"
    "comparable model dim n" "node_id X n \<notin> node_id X ` set ns"
  shows "indexes X model dim (n # ns) ix by_id r"
  using assms by (simp add: indexes_def)

lemma index_nodes_bound:
  assumes "bf_model ix = Some model" "bf_dim ix = Some dim" "distinct (map (node_id X) ns)"
  shows "indexes X model dim ns ix by_id (fold (index_node X) ns (ix, by_id))"
  using assms
proof (induction ns arbitrary: ix by_id)
  case Nil
  show ?case by (simp add: indexes_def)
next
  case (Cons n ns)
  show ?case
  proof (cases "comparable model dim n")
    case True
    then obtain v where v: "n_embedding n = Some v" "list_all f32_finite (vv_data v)" "vv_model v = model" "length (vv_data v) = dim"
      by (auto simp: comparable_def split: option.splits)
    let ?ix = "ix\<lparr>bf_items := bf_items ix @ [(node_id X n, vector_of n)]\<rparr>"
    have "index_node X n (ix, by_id) = (?ix, by_id(node_id X n \<mapsto> n))"
      using v Cons.prems(1,2) by (simp add: index_node_def bf_add_def bf_check_def space_check_def get_or_insert_def vector_of_def)
    moreover have "indexes X model dim ns ?ix (by_id(node_id X n \<mapsto> n)) (fold (index_node X) ns (?ix, by_id(node_id X n \<mapsto> n)))"
      by (rule Cons.IH) (use Cons.prems in simp_all)
    ultimately show ?thesis using indexes_add [OF _ True] Cons.prems(3) by simp
  next
    case False
    have "index_node X n (ix, by_id) = (ix, by_id)"
      using False Cons.prems(1,2)
      by (auto simp: comparable_def index_node_def bf_add_def bf_check_def space_check_def split: option.splits)
    with indexes_skip [OF _ False] Cons.IH [of ix by_id] Cons.prems show ?thesis by simp
  qed
qed

text \<open>The index binds to the first vector it accepts.\<close>

definition first_space :: "memory_node list \<Rightarrow> (string \<times> nat) option" where
  "first_space ns = Option.bind (List.find (\<lambda>n. case n_embedding n of None \<Rightarrow> False | Some v \<Rightarrow> list_all f32_finite (vv_data v)) ns)
     (\<lambda>n. map_option (\<lambda>v. (vv_model v, length (vv_data v))) (n_embedding n))"

lemma index_nodes_none:
  "first_space ns = None \<Longrightarrow> fold (index_node X) ns (bf_new, m) = (bf_new, m)"
proof (induction ns)
  case (Cons n ns)
  then have "case n_embedding n of None \<Rightarrow> True | Some v \<Rightarrow> \<not> list_all f32_finite (vv_data v)" "first_space ns = None"
    by (auto simp: first_space_def split: option.splits if_splits)
  with Cons.IH show ?case
    by (auto simp: index_node_def bf_add_def bf_check_def split: option.splits)
qed simp

lemma index_nodes_some:
  assumes "first_space ns = Some (model, dim)" "distinct (map (node_id X) ns)"
  shows "indexes X model dim ns (bf_new\<lparr>bf_model := Some model, bf_dim := Some dim\<rparr>) Map.empty
    (fold (index_node X) ns (bf_new, Map.empty))"
  using assms
proof (induction ns)
  case (Cons n ns)
  show ?case
  proof (cases "\<exists>v. n_embedding n = Some v \<and> list_all f32_finite (vv_data v)")
    case True
    then obtain v where v: "n_embedding n = Some v" "list_all f32_finite (vv_data v)" "vv_model v = model" "length (vv_data v) = dim"
      using Cons.prems(1) by (auto simp: first_space_def)
    let ?ix = "bf_new\<lparr>bf_model := Some model, bf_dim := Some dim, bf_items := bf_items bf_new @ [(node_id X n, vector_of n)]\<rparr>"
    have n: "comparable model dim n" using v by (simp add: comparable_def)
    have "index_node X n (bf_new, Map.empty) = (?ix, [node_id X n \<mapsto> n])"
      using v by (simp add: index_node_def bf_add_def bf_check_def space_check_def get_or_insert_def vector_of_def bf_new_def)
    moreover have "indexes X model dim ns ?ix [node_id X n \<mapsto> n] (fold (index_node X) ns (?ix, [node_id X n \<mapsto> n]))"
      by (rule index_nodes_bound) (use Cons.prems(2) in simp_all)
    ultimately show ?thesis
      using indexes_add [of X model dim ns "bf_new\<lparr>bf_model := Some model, bf_dim := Some dim\<rparr>" n Map.empty] n Cons.prems(2)
      by (simp add: bf_new_def)
  next
    case False
    then have "first_space ns = Some (model, dim)" "index_node X n (bf_new, Map.empty) = (bf_new, Map.empty)"
        "\<not> comparable model dim n"
      using Cons.prems(1)
      by (auto simp: first_space_def index_node_def bf_add_def bf_check_def comparable_def split: option.splits if_splits)
    with Cons.IH Cons.prems(2) indexes_skip show ?thesis by simp
  qed
qed (simp add: first_space_def)

lemma sort_key_map: "sort_key f (map g xs) = map g (sort_key (f \<circ> g) xs)"
proof -
  have "insort_key f (g x) (map g ys) = map g (insort_key (f \<circ> g) x ys)" for x ys
    by (induction ys) auto
  then show ?thesis by (induction xs) simp_all
qed

lemma map_filter_Some: "(\<And>x. x \<in> set xs \<Longrightarrow> f (g x) = Some (h x)) \<Longrightarrow> List.map_filter f (map g xs) = map h xs"
  by (induction xs) (simp_all add: map_filter_simps)

definition score_of :: "f32_env \<Rightarrow> versioned_vector \<Rightarrow> memory_node \<Rightarrow> u32" where
  "score_of F qv n = cosine F (vv_data qv) (vector_of n)"

abbreviation same_space :: "versioned_vector \<Rightarrow> memory_node \<Rightarrow> bool" where
  "same_space qv \<equiv> comparable (vv_model qv) (length (vv_data qv))"

definition ranked :: "f32_env \<Rightarrow> versioned_vector \<Rightarrow> memory_node list \<Rightarrow> memory_node list" where
  "ranked F qv nodes = (if first_space nodes = Some (vv_model qv, length (vv_data qv))
     then sort_key (\<lambda>n. - f32_key (score_of F qv n)) (filter (same_space qv) nodes) else [])"

lemma ranked_props:
  assumes "distinct (map (node_id X) nodes)"
  shows "sorted_wrt (\<lambda>m n. f32_key (score_of F qv n) \<le> f32_key (score_of F qv m)) (ranked F qv nodes)"
    "distinct (map (node_id X) (ranked F qv nodes))"
    "set (ranked F qv nodes) = {n \<in> set nodes. same_space qv n \<and> first_space nodes = Some (vv_model qv, length (vv_data qv))}"
proof -
  let ?ns = "sort_key (\<lambda>n. - f32_key (score_of F qv n)) (filter (same_space qv) nodes)"
  have "sorted (map (\<lambda>n. - f32_key (score_of F qv n)) ?ns)" by (rule sorted_sort_key)
  then show "sorted_wrt (\<lambda>m n. f32_key (score_of F qv n) \<le> f32_key (score_of F qv m)) (ranked F qv nodes)"
    by (simp add: ranked_def sorted_wrt_map)
  have "distinct ?ns" "inj_on (node_id X) (set ?ns)"
    using assms by (auto simp: distinct_map inj_on_def distinct_sort)
  then show "distinct (map (node_id X) (ranked F qv nodes))" by (simp add: ranked_def distinct_map)
  show "set (ranked F qv nodes) = {n \<in> set nodes. same_space qv n \<and> first_space nodes = Some (vv_model qv, length (vv_data qv))}"
    by (auto simp: ranked_def)
qed

lemma bf_search_bound:
  assumes "bf_check ix qv = Inr ()" "bf_items ix = map (\<lambda>n. (node_id X n, vector_of n)) ns"
    and "\<And>n. n \<in> set ns \<Longrightarrow> \<not> f32_is_nan (score_of F qv n)"
  shows "bf_search F ix qv k = Some (Inr (map (\<lambda>n. \<lparr>nb_id = node_id X n, nb_score = score_of F qv n\<rparr>)
    (take k (sort_key (\<lambda>n. - f32_key (score_of F qv n)) ns))))"
proof -
  let ?g = "\<lambda>n. \<lparr>nb_id = node_id X n, nb_score = score_of F qv n\<rparr>"
  have "map (\<lambda>(nid, v). \<lparr>nb_id = nid, nb_score = cosine F (vv_data qv) v\<rparr>) (bf_items ix) = map ?g ns"
    by (simp add: assms(2) score_of_def)
  moreover have "sort_scores F (map ?g ns) = Some (map ?g (sort_key (\<lambda>n. - f32_key (score_of F qv n)) ns))"
    using assms(3) by (simp add: sort_scores_def list_ex_iff sort_key_map comp_def)
  ultimately show ?thesis by (simp add: bf_search_def assms(1) take_map)
qed

lemma search_exact_run:
  assumes scan: "tenant_scan X Q q repo s = Inr (nodes, m)" and d: "distinct (map (node_id X) nodes)"
    and emb: "emb query = Inr qv" and fin: "list_all f32_finite (vv_data qv)"
    and nan: "\<And>n. n \<in> set nodes \<Longrightarrow> same_space qv n \<Longrightarrow> \<not> f32_is_nan (score_of F qv n)"
  shows "search_exact X Q F emb q repo query budget s =
    Some (Inr \<lparr>rr_repo = repo, rr_watermark = watermark_of X Q repo s, rr_total_in_tenant = length nodes,
      rr_items = map (\<lambda>n. (from_node X n (Some (score_of F qv n)))\<lparr>ri_in_flight_branch := m (node_id X n)\<rparr>)
        (take budget (ranked F qv nodes))\<rparr>)"
proof -
  obtain ix by_id where r: "fold (index_node X) nodes (bf_new, Map.empty) = (ix, by_id)" by fastforce
  show ?thesis
  proof (cases "first_space nodes = Some (vv_model qv, length (vv_data qv))")
    case True
    let ?ns = "sort_key (\<lambda>n. - f32_key (score_of F qv n)) (filter (same_space qv) nodes)"
    from index_nodes_some [OF True d] r have ix: "ix = bf_new\<lparr>bf_model := Some (vv_model qv), bf_dim := Some (length (vv_data qv)),
          bf_items := map (\<lambda>n. (node_id X n, vector_of n)) (filter (same_space qv) nodes)\<rparr>"
        and ids: "\<forall>n \<in> set nodes. same_space qv n \<longrightarrow> by_id (node_id X n) = Some n"
      by (simp_all add: indexes_def bf_new_def)
    have "bf_check ix qv = Inr ()" using fin by (simp add: ix bf_check_def space_check_def)
    then have hits: "bf_search F ix qv budget = Some (Inr (map (\<lambda>n. \<lparr>nb_id = node_id X n, nb_score = score_of F qv n\<rparr>) (take budget ?ns)))"
      by (rule bf_search_bound) (use nan in \<open>simp_all add: ix\<close>)
    have "List.map_filter (\<lambda>nb. map_option (\<lambda>n.
          (from_node X n (Some (nb_score nb)))\<lparr>ri_in_flight_branch := m (nb_id nb)\<rparr>) (by_id (nb_id nb)))
          (map (\<lambda>n. \<lparr>nb_id = node_id X n, nb_score = score_of F qv n\<rparr>) (take budget ?ns)) =
        map (\<lambda>n. (from_node X n (Some (score_of F qv n)))\<lparr>ri_in_flight_branch := m (node_id X n)\<rparr>) (take budget ?ns)"
      by (rule map_filter_Some) (use ids in \<open>auto dest!: in_set_takeD\<close>)
    with True show ?thesis by (simp add: search_exact_def scan r emb hits unwrap_hits_def ranked_def)
  next
    case False
    have "\<exists>res. bf_search F ix qv budget = Some res \<and> unwrap_hits res = []"
    proof (cases "first_space nodes")
      case None
      with index_nodes_none [OF None, of X Map.empty] r have "ix = bf_new" by simp
      with fin show ?thesis
        by (simp add: bf_search_def bf_check_def space_check_def bf_new_def sort_scores_def unwrap_hits_def)
    next
      case (Some p)
      obtain model dim where p: "p = (model, dim)" by fastforce
      from index_nodes_some [OF Some [unfolded p] d] r have "bf_model ix = Some model" "bf_dim ix = Some dim"
        by (simp_all add: indexes_def)
      with False Some p fin show ?thesis
        by (auto simp: bf_search_def bf_check_def space_check_def unwrap_hits_def)
    qed
    with False show ?thesis by (auto simp: search_exact_def scan r emb ranked_def map_filter_simps)
  qed
qed


section \<open>The shared cache\<close>

text \<open>Every cached index was built from embedded nodes of its repository; \<open>N\<close> holds the nodes that
  were ever stored.\<close>

definition indexable :: "externals \<Rightarrow> memory_node set \<Rightarrow> string \<Rightarrow> (content_hash \<times> versioned_vector) set" where
  "indexable X N repo = {(node_id X n, v) | n v. n \<in> N \<and> n_repo n = repo \<and> n_embedding n = Some v}"

definition index_cache_ok :: "externals \<Rightarrow> f32_env \<Rightarrow> memory_node set \<Rightarrow> tenant_index_cache \<Rightarrow> bool" where
  "index_cache_ok X F N c \<longleftrightarrow> (\<forall>repo e. tc_entries c repo = Some e \<longrightarrow> hnsw_ok F (indexable X N repo) (ci_index e))"

lemma build_hnsw_total:
  assumes "hnsw_ok F A ix" "\<And>n v. n \<in> set ns \<Longrightarrow> n_embedding n = Some v \<Longrightarrow> (node_id X n, v) \<in> A"
    "length (hx_nodes ix) + length ns \<le> 2 ^ 32"
  shows "\<exists>ix'. build_hnsw X F ns ix = Some ix' \<and> hnsw_ok F A ix'"
  using assms
proof (induction ns arbitrary: ix)
  case (Cons n ns)
  show ?case
  proof (cases "n_embedding n")
    case None
    with Cons show ?thesis by simp
  next
    case (Some v)
    from hnsw_add_total [OF Cons.prems(1), of "node_id X n" v X] Some Cons.prems(2,3) obtain r ix' where
        "hnsw_add X F (node_id X n) v ix = Some (r, ix')" "hnsw_ok F A ix'" "length (hx_nodes ix') \<le> Suc (length (hx_nodes ix))"
      by auto
    with Cons.IH [of ix'] Cons.prems(2,3) Some show ?thesis by auto
  qed
qed simp

lemma build_tenant_index_total:
  assumes ok: "store_ok X s" and all: "all_nodes X s = Inr all" "set all \<subseteq> N" "length all \<le> 2 ^ 32"
  shows "\<exists>ix k. build_tenant_index X Q F q repo s = Some (Inr (ix, k)) \<and> hnsw_ok F (indexable X N repo) ix"
proof -
  obtain nodes m where scan: "tenant_scan X Q q repo s = Inr (nodes, m)"
      "set nodes = {n \<in> set all. visible_node X Q q repo all s n}" "distinct (map (node_id X) nodes)"
    using tenant_scan_spec [OF ok all(1)] by blast
  have "length nodes = card (set nodes)" using scan(3) by (simp add: distinct_card distinct_map)
  also have "\<dots> \<le> card (set all)" using scan(2) by (intro card_mono) auto
  also have "\<dots> \<le> length all" by (rule card_length)
  finally have len: "length nodes \<le> 2 ^ 32" using all(3) by simp
  have "\<exists>ix. build_hnsw X F nodes hnsw_new = Some ix \<and> hnsw_ok F (indexable X N repo) ix"
  proof (rule build_hnsw_total)
    show "hnsw_ok F (indexable X N repo) hnsw_new" by (simp add: hnsw_new_def with_params_ok)
    show "(node_id X n, v) \<in> indexable X N repo" if "n \<in> set nodes" "n_embedding n = Some v" for n v
      using that scan(2) all(2) by (auto simp: indexable_def visible_node_def)
    show "length (hx_nodes hnsw_new) + length nodes \<le> 2 ^ 32" using len by (simp add: hnsw_new_def with_params_def)
  qed
  then show ?thesis by (auto simp: build_tenant_index_def tenant_nodes_def scan(1))
qed

lemma get_or_build_ok:
  assumes c: "index_cache_ok X F N c" "\<not> tc_poisoned c" and b: "build = Some (Inr (ix, k))" "hnsw_ok F (indexable X N repo) ix"
  obtains ix' k' c' where "get_or_build repo w cnt build c = (Some (Inr (ix', k')), c')"
    "hnsw_ok F (indexable X N repo) ix'" "index_cache_ok X F N c'" "\<not> tc_poisoned c'"
    "get_or_build repo w cnt build c' = (Some (Inr (ix', k')), c'\<lparr>tc_hits := tc_hits c' + 1\<rparr>)"
proof -
  consider e where "tc_entries c repo = Some e" "ci_watermark e = w" "ci_node_count e = cnt"
    | "\<And>e. tc_entries c repo = Some e \<Longrightarrow> \<not> (ci_watermark e = w \<and> ci_node_count e = cnt)"
    by blast
  then show thesis
  proof cases
    case (1 e)
    then show thesis
      using c by (intro that [of "ci_index e" "ci_tenant_total e" "c\<lparr>tc_hits := tc_hits c + 1\<rparr>"])
        (auto simp: get_or_build_def index_cache_ok_def)
  next
    case 2
    let ?e = "\<lparr>ci_watermark = w, ci_node_count = cnt, ci_tenant_total = k, ci_index = ix\<rparr>"
    let ?c = "c\<lparr>tc_builds := tc_builds c + 1, tc_entries := (tc_entries c)(repo \<mapsto> ?e)\<rparr>"
    have miss: "get_or_build repo w cnt build c = (Some (Inr (ix, k)), ?c)"
      using 2 c(2) b(1) by (cases "tc_entries c repo") (auto simp: get_or_build_def Let_def)
    have ok: "index_cache_ok X F N ?c" using c(1) b(2) by (auto simp: index_cache_ok_def)
    have "get_or_build repo w cnt build ?c = (Some (Inr (ix, k)), ?c\<lparr>tc_hits := tc_hits ?c + 1\<rparr>)" "\<not> tc_poisoned ?c"
      using c(2) by (simp_all add: get_or_build_def)
    then show thesis using that [OF miss b(2) ok] by blast
  qed
qed

lemma resolve_hits:
  assumes ok: "store_ok X s" and hit: "\<And>h m. h \<in> set hits \<Longrightarrow> node_view X s (nb_id h) = Some m \<Longrightarrow> n_repo m = repo"
  shows "\<exists>items. rfold (resolve_hit X s) hits acc = Inr (acc @ items) \<and> length items \<le> length hits \<and>
     (\<forall>i \<in> set items. \<exists>n. get_node X (ri_id i) s = Inr (Some n) \<and> n_repo n = repo \<and> i = from_node X n (ri_score i))"
  using hit
proof (induction hits arbitrary: acc)
  case (Cons h hits)
  have IH: "\<exists>items. rfold (resolve_hit X s) hits acc = Inr (acc @ items) \<and> length items \<le> length hits \<and>
     (\<forall>i \<in> set items. \<exists>n. get_node X (ri_id i) s = Inr (Some n) \<and> n_repo n = repo \<and> i = from_node X n (ri_score i))" for acc
    by (rule Cons.IH) (use Cons.prems in auto)
  show ?case
  proof (cases "node_view X s (nb_id h)")
    case None
    from IH [of acc] obtain items where "rfold (resolve_hit X s) hits acc = Inr (acc @ items)" "length items \<le> length hits"
        "\<forall>i \<in> set items. \<exists>n. get_node X (ri_id i) s = Inr (Some n) \<and> n_repo n = repo \<and> i = from_node X n (ri_score i)"
      by blast
    moreover have "resolve_hit X s h acc = Inr acc" using None by (simp add: resolve_hit_def get_node_eq [OF ok])
    ultimately show ?thesis by (intro exI [of _ items]) simp
  next
    case (Some n)
    let ?i = "from_node X n (Some (nb_score h))"
    from IH [of "acc @ [?i]"] obtain items where items: "rfold (resolve_hit X s) hits (acc @ [?i]) = Inr (acc @ ?i # items)"
        "length items \<le> length hits"
        "\<forall>i \<in> set items. \<exists>n. get_node X (ri_id i) s = Inr (Some n) \<and> n_repo n = repo \<and> i = from_node X n (ri_score i)"
      by auto
    have "get_node X (ri_id ?i) s = Inr (Some n)" "?i = from_node X n (ri_score ?i)"
      using Some node_view_id [OF ok Some] by (simp_all add: from_node_def get_node_eq [OF ok])
    moreover have "n_repo n = repo" using Cons.prems [of h n] Some by simp
    moreover have "resolve_hit X s h acc = Inr (acc @ [?i])" using Some by (simp add: resolve_hit_def get_node_eq [OF ok])
    ultimately show ?thesis using items by (intro exI [of _ "?i # items"]) auto
  qed
qed simp

text \<open>Search over the shared cache is safe: from a well-formed cache a search never panics and
  leaves the cache well formed; unless the cache is poisoned or the embedder fails it returns
  at most \<open>budget\<close> items, each a node stored now, of the searched repository; and the same search
  again is answered from the cache with the same result.\<close>

theorem cached_search_is_safe:
  assumes ok: "store_ok X s" and all: "all_nodes X s = Inr all" "set all \<subseteq> N" "length all \<le> 2 ^ 32"
    and c: "index_cache_ok X F N c" "\<not> tc_poisoned c" and emb: "emb query = Inr qv"
    and ids: "\<forall>m \<in> N. \<forall>n \<in> N. node_id X m = node_id X n \<longrightarrow> n_repo m = n_repo n"
  shows "\<exists>res c'. search_cached X Q F emb q repo query budget s c = (Some (Inr res), c') \<and>
    index_cache_ok X F N c' \<and> \<not> tc_poisoned c' \<and> rr_repo res = repo \<and> length (rr_items res) \<le> budget \<and>
    (\<forall>i \<in> set (rr_items res). \<exists>n. get_node X (ri_id i) s = Inr (Some n) \<and> n_repo n = repo \<and> i = from_node X n (ri_score i)) \<and>
    search_cached X Q F emb q repo query budget s c' = (Some (Inr res), c'\<lparr>tc_hits := tc_hits c' + 1\<rparr>)"
proof -
  have "kv_live (ds_kv s)" using store_okD(2) [OF ok] .
  then obtain rs where "kv_iter_cf NODES (ds_kv s) = Inr rs" by (rule mem_kv.iterE)
  then have cnt: "node_count s = Inr (length rs)" by (simp add: node_count_def kv_rd_def)
  obtain ix0 k0 where b: "build_tenant_index X Q F q repo s = Some (Inr (ix0, k0))" "hnsw_ok F (indexable X N repo) ix0"
    using build_tenant_index_total [OF ok all] by blast
  obtain ix k c' where run: "get_or_build repo (watermark_of X Q repo s) (length rs) (build_tenant_index X Q F q repo s) c =
        (Some (Inr (ix, k)), c')"
      and ix: "hnsw_ok F (indexable X N repo) ix" and c': "index_cache_ok X F N c'" "\<not> tc_poisoned c'"
      and again: "get_or_build repo (watermark_of X Q repo s) (length rs) (build_tenant_index X Q F q repo s) c' =
        (Some (Inr (ix, k)), c'\<lparr>tc_hits := tc_hits c' + 1\<rparr>)"
    by (rule get_or_build_ok [OF c b])
  from hnsw_search_total [OF ix, of qv budget] obtain r where r: "hnsw_search F ix qv budget = Some r"
      and h: "case r of Inl e \<Rightarrow> hnsw_check ix qv = Inl e
        | Inr hits \<Rightarrow> good_hits F (indexable X N repo) qv budget hits \<and> (0 < budget \<and> hx_nodes ix \<noteq> [] \<longrightarrow> hits \<noteq> [])"
    by blast
  have hits: "case r of Inl e \<Rightarrow> True | Inr hits \<Rightarrow> good_hits F (indexable X N repo) qv budget hits"
    using h by (cases r) simp_all
  have repo: "n_repo m = repo" if h: "h \<in> set (unwrap_hits r)" and m: "node_view X s (nb_id h) = Some m" for h m
  proof -
    obtain n where n: "n \<in> N" "node_id X n = nb_id h" "n_repo n = repo"
      using hits h by (auto simp: unwrap_hits_def good_hits_def indexable_def split: sum.splits)
    obtain ns where "all_nodes X s = Inr ns" "\<And>n. n \<in> set ns \<longleftrightarrow> node_view X s (node_id X n) = Some n"
      by (rule all_nodes_spec [OF ok]) (rule that)
    then have "m \<in> set all" using all(1) m node_view_id [OF ok m] by simp
    with all(2) n ids node_view_id [OF ok m] show ?thesis by (metis subset_iff)
  qed
  have len: "length (unwrap_hits r) \<le> budget"
    using hits by (auto simp: unwrap_hits_def good_hits_def split: sum.splits)
  have "\<exists>items. rfold (resolve_hit X s) (unwrap_hits r) [] = Inr ([] @ items) \<and> length items \<le> length (unwrap_hits r) \<and>
      (\<forall>i \<in> set items. \<exists>n. get_node X (ri_id i) s = Inr (Some n) \<and> n_repo n = repo \<and> i = from_node X n (ri_score i))"
    by (rule resolve_hits [OF ok]) (rule repo)
  then obtain items where items: "rfold (resolve_hit X s) (unwrap_hits r) [] = Inr items" "length items \<le> length (unwrap_hits r)"
      "\<forall>i \<in> set items. \<exists>n. get_node X (ri_id i) s = Inr (Some n) \<and> n_repo n = repo \<and> i = from_node X n (ri_score i)"
    by auto
  show ?thesis
    using len items c' by (simp add: search_cached_def Let_def cnt run again emb r)
qed


text \<open>A new cache over an empty sealing store.\<close>

theorem cached_search_is_safe_witness:
  "\<exists>res c'. search_cached ideal_externals ideal_query ideal_f32 (\<lambda>_. Inr \<lparr>vv_model = ''m'', vv_data = [1]\<rparr>) new_recall ''acme'' ''q'' 5
     (new_encrypted kv_new) new_cache = (Some (Inr res), c') \<and> length (rr_items res) \<le> 5"
proof -
  let ?X = ideal_externals and ?s = "new_encrypted kv_new" and ?v = "\<lparr>vv_model = ''m'', vv_data = [1]\<rparr>"
  have all: "all_nodes ?X ?s = Inr []" by (simp add: all_nodes_def kv_rd_def new_encrypted_def kv_iter_cf_def kv_read_def kv_new_def)
  have ok: "store_ok ?X ?s" by simp
  have c: "index_cache_ok ?X ideal_f32 {} new_cache" "\<not> tc_poisoned new_cache" by (simp_all add: index_cache_ok_def new_cache_def)
  show ?thesis
    using cached_search_is_safe [where emb = "\<lambda>_. Inr ?v" and query = "''q''", OF ok all _ _ c refl,
        of ideal_query new_recall "''acme''" 5]
    by auto
qed

end
