(* ===== verification/Mcp_Safety.thy ===== *)
theory Mcp_Safety
  imports Mcp_Tools Search_Safety
begin

text \<open>
  What a session over the MCP server can and cannot do: every change of the store is covered by
  a write right of the session and of the request and recorded in the audit log, no tool
  succeeds without such a record, a request leaves no trace in the session, and the
  catalogue advertises exactly what the dispatch handles.
\<close>

section \<open>How the world moves\<close>

definition log_extends :: "mcp_world \<Rightarrow> mcp_world \<Rightarrow> bool" where
  "log_extends w w' \<longleftrightarrow> mw_tick w \<le> mw_tick w' \<and> (\<exists>rs. ac_records (mw_chain w') = ac_records (mw_chain w) @ rs)"

lemma log_extends_refl [simp]: "log_extends w w"
  by (simp add: log_extends_def)

lemma log_extends_trans: "log_extends u v \<Longrightarrow> log_extends v w \<Longrightarrow> log_extends u w"
  by (auto simp: log_extends_def)

text \<open>An operation was allowed at a clock reading between two worlds, and the record of it is in
  the log of the second and not of the first.\<close>

definition authorized_in ::
    "externals \<Rightarrow> mcp_env \<Rightarrow> mcp_server \<Rightarrow> op \<Rightarrow> string \<Rightarrow> mcp_world \<Rightarrow> mcp_world \<Rightarrow> bool" where
  "authorized_in X E S operation repo w w' \<longleftrightarrow>
     (\<exists>t. mw_tick w \<le> t \<and> t < mw_tick w' \<and> decide X S (resource_for repo) operation (me_now E t) = Inr () \<and>
        (\<exists>r \<in> set (drop (length (ac_records (mw_chain w))) (ac_records (mw_chain w'))).
           ar_event r = event_for operation \<and> ar_resource_id r = resource_for repo \<and>
           ar_actor r = cg_recipient (ms_grant S) \<and> ar_timestamp_ms r = me_now E t))"

lemma authorized_mono:
  assumes "authorized_in X E S operation repo v w" "log_extends u v" "log_extends w z"
  shows "authorized_in X E S operation repo u z"
proof -
  from assms(1) obtain t r where t: "mw_tick v \<le> t" "t < mw_tick w" "decide X S (resource_for repo) operation (me_now E t) = Inr ()"
    and r: "r \<in> set (drop (length (ac_records (mw_chain v))) (ac_records (mw_chain w)))" "ar_event r = event_for operation"
      "ar_resource_id r = resource_for repo" "ar_actor r = cg_recipient (ms_grant S)" "ar_timestamp_ms r = me_now E t"
    unfolding authorized_in_def by blast
  from assms(2) obtain rs where rs: "mw_tick u \<le> mw_tick v" "ac_records (mw_chain v) = ac_records (mw_chain u) @ rs"
    by (auto simp: log_extends_def)
  from assms(3) obtain qs where qs: "mw_tick w \<le> mw_tick z" "ac_records (mw_chain z) = ac_records (mw_chain w) @ qs"
    by (auto simp: log_extends_def)
  have "r \<in> set (drop (length (ac_records (mw_chain u))) (ac_records (mw_chain w)))"
    using r(1) set_drop_subset_set_drop [of "length (ac_records (mw_chain u))" "length (ac_records (mw_chain v))"
        "ac_records (mw_chain w)"] rs(2) by auto
  then have "r \<in> set (drop (length (ac_records (mw_chain u))) (ac_records (mw_chain z)))" by (simp add: qs(2))
  with t r(2-) rs(1) qs(1) show ?thesis
    unfolding authorized_in_def by (intro exI [of _ t] conjI bexI [of _ r]) auto
qed

section \<open>Tools that leave the store alone\<close>

definition extending :: "'a tool \<Rightarrow> bool" where
  "extending m \<longleftrightarrow> (\<forall>w. log_extends w (snd (m w)))"

definition quiet :: "'a tool \<Rightarrow> bool" where
  "quiet m \<longleftrightarrow> extending m \<and> (\<forall>w. mw_store (snd (m w)) = mw_store w)"

text \<open>An answer that does not report an error.\<close>

definition succeeds :: "json \<Rightarrow> bool" where
  "succeeds v \<longleftrightarrow> json_get ''isError'' v = Some (JBool False)"

definition silent :: "'a tool \<Rightarrow> bool" where
  "silent m \<longleftrightarrow> extending m \<and> (\<forall>w v. fst (m w) = Inl (Early v) \<longrightarrow> \<not> succeeds v)"

named_theorems quiet_rules
named_theorems silent_rules

lemma sbind_run:
  assumes "sbind m f w = (r, w')"
  obtains e where "m w = (Inl e, w')" "r = Inl e"
    | x w1 where "m w = (Inr x, w1)" "f x w1 = (r, w')"
  using assms by (auto simp: sbind_def split: prod.splits sum.splits)

lemma extending_sbind: "extending m \<Longrightarrow> (\<And>x. extending (f x)) \<Longrightarrow> extending (sbind m f)"
proof (unfold extending_def, rule allI)
  fix w :: mcp_world
  assume m: "\<forall>w. log_extends w (snd (m w))" and f: "\<And>x. \<forall>w. log_extends w (snd (f x w))"
  obtain r w' where run: "sbind m f w = (r, w')" by (cases "sbind m f w")
  from run have "log_extends w w'"
  proof (cases rule: sbind_run)
    case (1 e)
    with m [rule_format, of w] show ?thesis by simp
  next
    case (2 x w1)
    with m [rule_format, of w] f [rule_format, of w1 x] show ?thesis by (auto intro: log_extends_trans)
  qed
  with run show "log_extends w (snd (sbind m f w))" by simp
qed

lemma quiet_extending: "quiet m \<Longrightarrow> extending m"
  by (simp add: quiet_def)

lemma quiet_sbind [quiet_rules]:
  assumes m: "quiet m" and f: "\<And>x. quiet (f x)"
  shows "quiet (sbind m f)"
proof -
  have "mw_store (snd (sbind m f w)) = mw_store w" for w
    using m f by (auto simp: quiet_def sbind_def split: prod.splits sum.splits) (metis snd_conv)+
  with extending_sbind [OF quiet_extending [OF m] quiet_extending [OF f]] show ?thesis by (simp add: quiet_def)
qed

lemma quiet_basic [quiet_rules]:
  "quiet (sok x)" "quiet (serr e)" "quiet (slift r)" "quiet (early v)" "quiet (or_panic p)" "quiet (now_ms E)"
  "quiet (store_rd f)" "quiet (lock_writes S)"
  by (simp_all add: quiet_def extending_def sok_def serr_def slift_def early_def or_panic_def now_ms_def store_rd_def
      lock_writes_def log_extends_def split: option.splits)

lemma quiet_at: "(\<And>v. quiet (g v)) \<Longrightarrow> quiet (\<lambda>w. g w w)"
  by (simp add: quiet_def extending_def)

lemma silent_sbind [silent_rules]:
  assumes m: "silent m" and f: "\<And>x. silent (f x)"
  shows "silent (sbind m f)"
proof -
  have "extending (sbind m f)" using m f by (simp add: silent_def extending_sbind)
  moreover have "\<not> succeeds v" if "fst (sbind m f w) = Inl (Early v)" for w v
  proof -
    obtain r w' where run: "sbind m f w = (r, w')" by (cases "sbind m f w")
    from run show ?thesis
    proof (cases rule: sbind_run)
      case (1 e)
      with that run have "fst (m w) = Inl (Early v)" by simp
      with m show ?thesis by (simp add: silent_def)
    next
      case (2 x w1)
      with that run have "fst (f x w1) = Inl (Early v)" by simp
      with f [of x] show ?thesis by (simp add: silent_def)
    qed
  qed
  ultimately show ?thesis by (simp add: silent_def)
qed

lemma tool_error_fails [simp]: "\<not> succeeds (tool_error m)" "\<not> succeeds (no_unique_node p)"
  by (simp_all add: succeeds_def tool_error_def no_unique_node_def tool_content_def)

lemma silent_early [silent_rules]: "silent (early (tool_error m))" "silent (early (no_unique_node p))"
  by (simp_all add: silent_def extending_def early_def serr_def)

lemma silent_basic [silent_rules]:
  "silent (sok x)" "silent (now_ms E)" "silent (store_rd f)" "silent (lock_writes S)" "silent (or_panic p)"
  "silent (slift (arg_str args k))"
  by (auto simp: silent_def extending_def sok_def now_ms_def store_rd_def store_err_def lock_writes_def slift_def arg_str_def
      ok_or_def or_panic_def serr_def map_err_def log_extends_def split: option.splits sum.splits)

lemma silent_at: "(\<And>v. silent (g v)) \<Longrightarrow> silent (\<lambda>w. g w w)"
  by (simp add: silent_def extending_def)

section \<open>Authorization\<close>

lemma audit_append_run:
  assumes "audit_append X E event actor resource detail now w = (r, w')"
  shows "mw_store w' = mw_store w" "mw_tick w' = mw_tick w"
    and "r = Inl e \<Longrightarrow> ac_records (mw_chain w') = ac_records (mw_chain w)"
    and "r = Inr q \<Longrightarrow> ac_records (mw_chain w') = ac_records (mw_chain w) @ [q] \<and> ar_event q = event \<and>
      ar_actor q = actor \<and> ar_resource_id q = resource \<and> ar_timestamp_ms q = now"
  using assms by (auto simp: audit_append_def append_record_eq extended_def next_record_def Let_def split: prod.splits sum.splits)

lemma authorize_cases:
  assumes "authorize X E S operation repo detail w = (r, w')"
  obtains v where "r = Inl (Early v)" "\<not> succeeds v" "log_extends w w'" "mw_store w' = mw_store w"
    | "r = Inr ()" "authorized_in X E S operation repo w w'" "log_extends w w'" "mw_store w' = mw_store w"
proof -
  define w1 where "w1 = w\<lparr>mw_tick := mw_tick w + 1\<rparr>"
  define now where "now = me_now E (mw_tick w)"
  define res where "res = resource_for repo"
  define actor where "actor = cg_recipient (ms_grant S)"
  have w1: "log_extends w w1" "mw_store w1 = mw_store w" "ac_records (mw_chain w1) = ac_records (mw_chain w)" "mw_tick w1 = mw_tick w + 1"
    by (simp_all add: w1_def log_extends_def)
  note run = assms [unfolded authorize_def sbind_def now_ms_def prod.case sum.case Let_def, folded w1_def now_def res_def actor_def]
  show thesis
  proof (cases "mw_audit_poisoned w1")
    case True
    with run w1 show thesis by (intro that(1)) auto
  next
    case np: False
    show thesis
    proof (cases "decide X S res operation now")
      case (Inl e)
      obtain a w2 where a: "audit_append X E EvDenied actor res (traced S detail @ '': '' @ authz_error_text e) now w1 = (a, w2)"
        by fastforce
      note A = audit_append_run [OF a]
      have "log_extends w1 w2" using A by (cases a) (auto simp: log_extends_def)
      with run np Inl a A w1 show thesis
        by (cases a) (auto intro!: that(1) intro: log_extends_trans)
    next
      case (Inr u)
      obtain a w2 where a: "audit_append X E (event_for operation) actor res (traced S detail) now w1 = (a, w2)" by fastforce
      note A = audit_append_run [OF a]
      have ext: "log_extends w1 w2" using A by (cases a) (auto simp: log_extends_def)
      show thesis
      proof (cases a)
        case (Inl e)
        with run np Inr a A w1 ext show thesis by (auto intro!: that(1) intro: log_extends_trans)
      next
        case (Inr q)
        with run np \<open>decide X S res operation now = Inr u\<close> a have r: "r = Inr ()" "w' = w2" by simp_all
        have "authorized_in X E S operation repo w w2"
          unfolding authorized_in_def
          using A(2) A(4) [OF Inr] w1 \<open>decide X S res operation now = Inr u\<close>
          by (intro exI [of _ "mw_tick w"]) (auto simp: now_def res_def actor_def)
        with r A(1) w1 ext show thesis by (intro that(2)) (auto intro: log_extends_trans)
      qed
    qed
  qed
qed

lemma authorize_quiet [quiet_rules]: "quiet (authorize X E S operation repo detail)"
  and authorize_silent [silent_rules]: "silent (authorize X E S operation repo detail)"
proof -
  have "log_extends w (snd (authorize X E S operation repo detail w)) \<and>
      mw_store (snd (authorize X E S operation repo detail w)) = mw_store w \<and>
      (\<forall>v. fst (authorize X E S operation repo detail w) = Inl (Early v) \<longrightarrow> \<not> succeeds v)" for w
    by (cases "authorize X E S operation repo detail w") (auto elim!: authorize_cases)
  then show "quiet (authorize X E S operation repo detail)" "silent (authorize X E S operation repo detail)"
    by (auto simp: quiet_def silent_def extending_def)
qed

lemma sfold_rules:
  shows quiet_sfold [quiet_rules]: "(\<And>x a. quiet (f x a)) \<Longrightarrow> quiet (sfold f xs a)"
    and silent_sfold [silent_rules]: "(\<And>x a. silent (f x a)) \<Longrightarrow> silent (sfold f xs a)"
  by (induction xs arbitrary: a) (auto intro: quiet_rules silent_rules)

lemma authorize_writes_run:
  assumes "authorize_writes X E S repos detail w = (Inr u, w')" "finite repos" "repo \<in> repos"
  shows "authorized_in X E S Write repo w w'"
proof -
  have "authorized_in X E S Write repo w w'"
    if "sfold (\<lambda>r _. authorize X E S Write r detail) rs () w = (Inr u, w')" "repo \<in> set rs" for rs w
    using that
  proof (induction rs arbitrary: w)
    case (Cons r rs)
    from Cons.prems(1) obtain w1 where a: "authorize X E S Write r detail w = (Inr (), w1)"
      and rest: "sfold (\<lambda>r _. authorize X E S Write r detail) rs () w1 = (Inr u, w')"
      by (auto elim!: sbind_run)
    have ext: "log_extends w1 w'"
      using quiet_sfold [of "\<lambda>r _. authorize X E S Write r detail" rs "()"] authorize_quiet [of X E S Write _ detail] rest
      by (auto simp: quiet_def extending_def) (metis snd_conv)
    from a have "authorized_in X E S Write r w w1" "log_extends w w1" by (auto elim: authorize_cases)
    moreover have "authorized_in X E S Write repo w1 w'" if "repo \<in> set rs" by (rule Cons.IH [OF rest that])
    ultimately show ?case using Cons.prems(2) ext authorized_mono log_extends_refl by (metis set_ConsD)
  qed simp
  with assms show ?thesis by (simp add: authorize_writes_def)
qed

section \<open>The tools\<close>

lemma quiet_case [quiet_rules]:
  "quiet a \<Longrightarrow> (\<And>x. quiet (f x)) \<Longrightarrow> quiet (case p of None \<Rightarrow> a | Some x \<Rightarrow> f x)"
  "quiet a \<Longrightarrow> quiet b \<Longrightarrow> quiet (if c then a else b)"
  by (simp_all split: option.splits)

lemma silent_case [silent_rules]:
  "silent a \<Longrightarrow> (\<And>x. silent (f x)) \<Longrightarrow> silent (case p of None \<Rightarrow> a | Some x \<Rightarrow> f x)"
  "silent a \<Longrightarrow> silent b \<Longrightarrow> silent (if c then a else b)"
  by (simp_all split: option.splits)

lemma extending_run: "extending (store_run g m)"
  by (simp add: extending_def store_run_def log_extends_def split: prod.splits)

lemma run_search_quiet [quiet_rules]: "quiet (run_search X E S q repo query budget)"
  by (simp add: quiet_def extending_def run_search_def log_extends_def split: prod.splits)

lemma resolve_in_repo_quiet [quiet_rules]: "quiet (resolve_in_repo X repo prefix)"
  unfolding resolve_in_repo_def by (intro quiet_rules)

lemma resolve_or_hide_rules [quiet_rules, silent_rules]:
  "quiet (resolve_or_hide X E S prefix)" "silent (resolve_or_hide X E S prefix)"
proof -
  define g where "g = (\<lambda>v :: mcp_world. sbind (store_rd (resolve_prefix_where X prefix (\<lambda>n. can_read X E S (mw_tick v) (n_repo n)))) (\<lambda>found.
     case found of
       None \<Rightarrow> sok None
     | Some nid \<Rightarrow>
         sbind (store_rd (get_node X nid)) (\<lambda>node.
         case node of
           Some n \<Rightarrow> sok (if can_read X E S (mw_tick v) (n_repo n) then Some (nid, n) else None)
         | None \<Rightarrow> sok None)))"
  have g: "quiet (g v)" "silent (g v)" for v unfolding g_def by (intro quiet_rules silent_rules)+
  have "resolve_readable X E S prefix = (\<lambda>w. g w w)"
    by (rule ext) (simp add: resolve_readable_def g_def)
  with quiet_at [of g, OF g(1)] silent_at [of g, OF g(2)]
  have r: "quiet (resolve_readable X E S prefix)" "silent (resolve_readable X E S prefix)" by simp_all
  show "quiet (resolve_or_hide X E S prefix)" unfolding resolve_or_hide_def by (intro quiet_rules r)
  show "silent (resolve_or_hide X E S prefix)" unfolding resolve_or_hide_def by (intro silent_rules r)
qed

lemma authorize_writes_rules [quiet_rules, silent_rules]:
  "quiet (authorize_writes X E S repos detail)" "silent (authorize_writes X E S repos detail)"
  unfolding authorize_writes_def by (intro quiet_rules silent_rules)+

text \<open>Actions that look at the world they run in.\<close>

lemma tail_quiet [quiet_rules]:
  "quiet (\<lambda>w. sbind (store_rd (f (mw_tick w))) k w)" if "\<And>x. quiet (k x)"
  by (rule quiet_at) (intro quiet_rules that)

lemma analogy_tail_quiet [quiet_rules]:
  "quiet (\<lambda>w. if P (mw_tick w) then sok (a (mw_tick w)) w else sbind (store_rd (f (mw_tick w))) (\<lambda>x. sok (k (mw_tick w) x)) w)"
proof -
  have "quiet (if P t then sok (a t) else sbind (store_rd (f t)) (\<lambda>x. sok (k t x)))" for t by (intro quiet_rules)
  from quiet_at [of "\<lambda>w. if P (mw_tick w) then sok (a (mw_tick w)) else sbind (store_rd (f (mw_tick w))) (\<lambda>x. sok (k (mw_tick w) x))", OF this]
  show ?thesis by (simp add: if_distrib [of "\<lambda>m. m w" for w] cong: if_cong)
qed

lemma second_party_quiet [quiet_rules]: "quiet (second_party X S a b kind n)"
  unfolding second_party_def Let_def by (intro quiet_rules)

lemma diff_repos_rules [quiet_rules, silent_rules]: "quiet (diff_repos X diff)" "silent (diff_repos X diff)"
  unfolding diff_repos_def edge_endpoint_repo_def by (intro quiet_rules silent_rules)+

lemmas read_tool_defs = call_recall_def call_search_def call_neighbors_def call_as_of_def call_verify_def call_critique_def
  call_analogy_def authorize_read_def Let_def

lemma read_tools_quiet:
  "quiet (call_recall X E S args)" "quiet (call_search X E S args)" "quiet (call_as_of X E S args)"
  "quiet (call_neighbors X E S args)" "quiet (call_verify X E S args)" "quiet (call_critique X E S args)"
  "quiet (call_analogy X E S args)"
  unfolding read_tool_defs by (intro quiet_rules)+

section \<open>No success without a record\<close>

definition answered :: "(mcp_exit, json) result \<Rightarrow> json option" where
  "answered r = (case r of Inr v \<Rightarrow> Some v | Inl (Early v) \<Rightarrow> Some v | Inl _ \<Rightarrow> None)"

definition covered :: "externals \<Rightarrow> mcp_env \<Rightarrow> mcp_server \<Rightarrow> json tool \<Rightarrow> bool" where
  "covered X E S m \<longleftrightarrow> (\<forall>w r w' v. m w = (r, w') \<and> answered r = Some v \<and> succeeds v \<longrightarrow>
     (\<exists>operation repo. authorized_in X E S operation repo w w'))"

lemma coveredI:
  assumes "\<And>w r w' v. m w = (r, w') \<Longrightarrow> answered r = Some v \<Longrightarrow> succeeds v \<Longrightarrow>
    \<exists>operation repo. authorized_in X E S operation repo w w'"
  shows "covered X E S m"
  using assms unfolding covered_def by blast

lemma coveredD:
  "covered X E S m \<Longrightarrow> m w = (r, w') \<Longrightarrow> answered r = Some v \<Longrightarrow> succeeds v \<Longrightarrow>
    \<exists>operation repo. authorized_in X E S operation repo w w'"
  unfolding covered_def by blast

lemma answered_Inl: "answered (Inl e) = Some v \<longleftrightarrow> e = Early v"
  by (cases e) (auto simp: answered_def)

named_theorems covered_rules

lemma covered_sbind [covered_rules]:
  assumes m: "silent m" and f: "\<And>x. covered X E S (f x)"
  shows "covered X E S (sbind m f)"
proof (rule coveredI)
  fix w r w' v
  assume run: "sbind m f w = (r, w')" and v: "answered r = Some v" "succeeds v"
  from run show "\<exists>operation repo. authorized_in X E S operation repo w w'"
  proof (cases rule: sbind_run)
    case (1 e)
    with v have "fst (m w) = Inl (Early v)" by (simp add: answered_Inl)
    with m v(2) show ?thesis by (simp add: silent_def)
  next
    case (2 x w1)
    with f [of x] v obtain operation repo where "authorized_in X E S operation repo w1 w'"
      unfolding covered_def by blast
    moreover have "log_extends w w1" using m 2(1) by (auto simp: silent_def extending_def) (metis snd_conv)
    ultimately show ?thesis using authorized_mono log_extends_refl by blast
  qed
qed

lemma covered_failing [covered_rules]:
  "covered X E S (early (tool_error m))" "covered X E S (early (no_unique_node p))"
  by (auto simp: covered_def early_def serr_def answered_def)

lemma covered_case [covered_rules]:
  "covered X E S a \<Longrightarrow> (\<And>x. covered X E S (f x)) \<Longrightarrow> covered X E S (case p of None \<Rightarrow> a | Some x \<Rightarrow> f x)"
  "covered X E S a \<Longrightarrow> (\<And>x. covered X E S (g x)) \<Longrightarrow> covered X E S (case q of Inl e \<Rightarrow> a | Inr x \<Rightarrow> g x)"
  "(\<And>x y. covered X E S (h x y)) \<Longrightarrow> covered X E S (case z of (x, y) \<Rightarrow> h x y)"
  "covered X E S a \<Longrightarrow> covered X E S b \<Longrightarrow> covered X E S (if c then a else b)"
  by (simp_all split: option.splits sum.splits prod.splits)

lemma covered_after:
  assumes f: "\<And>x. extending (f x)"
    and m: "\<And>w x w1. m w = (Inr x, w1) \<Longrightarrow> \<exists>operation repo. authorized_in X E S operation repo w w1"
    and s: "silent m"
  shows "covered X E S (sbind m f)"
proof (rule coveredI)
  fix w r w' v
  assume run: "sbind m f w = (r, w')" and v: "answered r = Some v" "succeeds v"
  from run show "\<exists>operation repo. authorized_in X E S operation repo w w'"
  proof (cases rule: sbind_run)
    case (1 e)
    with v have "fst (m w) = Inl (Early v)" by (simp add: answered_Inl)
    with s v(2) show ?thesis by (simp add: silent_def)
  next
    case (2 x w1)
    from m [OF 2(1)] obtain operation repo where "authorized_in X E S operation repo w w1" by blast
    moreover have "log_extends w1 w'" using f [of x] 2(2) by (auto simp: extending_def) (metis snd_conv)
    ultimately show ?thesis using authorized_mono log_extends_refl by blast
  qed
qed

lemma covered_authorize [covered_rules]:
  assumes "\<And>x. extending (f x)"
  shows "covered X E S (sbind (authorize X E S operation repo detail) f)"
proof (rule covered_after [OF assms])
  fix w x w1
  assume "authorize X E S operation repo detail w = (Inr x, w1)"
  then show "\<exists>operation repo. authorized_in X E S operation repo w w1" by (auto elim!: authorize_cases)
qed (rule authorize_silent)

lemma covered_authorize_writes:
  assumes "\<And>x. extending (f x)" "finite repos" "repos \<noteq> {}"
  shows "covered X E S (sbind (authorize_writes X E S repos detail) f)"
proof (rule covered_after [OF assms(1)])
  fix w x w1
  assume "authorize_writes X E S repos detail w = (Inr x, w1)"
  with assms(2,3) show "\<exists>operation repo. authorized_in X E S operation repo w w1"
    using authorize_writes_run by blast
qed (rule authorize_writes_rules)

text \<open>The ends of the writing tools.\<close>

named_theorems extending_rules

lemmas extending_quiet [extending_rules] = quiet_basic [THEN quiet_extending] second_party_quiet [THEN quiet_extending]
  authorize_writes_rules(1) [THEN quiet_extending] resolve_or_hide_rules(1) [THEN quiet_extending]

declare extending_run [extending_rules] extending_sbind [extending_rules]

lemma extending_case [extending_rules]:
  "extending a \<Longrightarrow> extending b \<Longrightarrow> extending (if c then a else b)"
  "(\<And>x y. extending (h x y)) \<Longrightarrow> extending (case z of (x, y) \<Rightarrow> h x y)"
  by (simp_all split: prod.splits)

lemma extending_direct [extending_rules]:
  "extending (\<lambda>w. case f (mw_store w) of (r, s) \<Rightarrow> (Inr (g r), w\<lparr>mw_store := s\<rparr>))"
  by (simp add: extending_def log_extends_def split: prod.splits)

lemma silent_pairs [silent_rules]: "(\<And>x y. silent (h x y)) \<Longrightarrow> silent (case z of (x, y) \<Rightarrow> h x y)"
  by (simp split: prod.splits)

lemma silent_arg_int [silent_rules]: "silent (slift (ok_or (Rpc c m) p))"
  by (auto simp: silent_def extending_def slift_def ok_or_def split: option.splits)

lemma write_tools_covered:
  "covered X E S (call_propose_edge X E S args)" "covered X E S (call_confirm_edge X E S args)"
  "covered X E S (call_assert X E S args)"
  unfolding call_propose_edge_def record_proposal_def call_confirm_edge_def promote_proposal_def call_assert_def record_assertion_def Let_def
  by (intro covered_rules silent_rules covered_authorize_writes extending_rules finite.intros insert_not_empty)+

lemma read_tools_covered:
  "covered X E S (call_recall X E S args)" "covered X E S (call_search X E S args)" "covered X E S (call_as_of X E S args)"
  "covered X E S (call_neighbors X E S args)" "covered X E S (call_verify X E S args)" "covered X E S (call_critique X E S args)"
  "covered X E S (call_analogy X E S args)"
  unfolding read_tool_defs
  by (intro covered_authorize covered_sbind silent_basic silent_arg_int; rule quiet_extending, intro quiet_rules)+

lemma edge_endpoint_repo_run:
  assumes "edge_endpoint_repo X diff h w = (Inr r, w')"
  shows "w' = w" "(\<exists>n \<in> set (md_nodes diff). node_id X n = h \<and> n_repo n = r) \<or> (\<exists>n. get_node X h (mw_store w) = Inr (Some n) \<and> n_repo n = r)"
proof -
  have m: "\<exists>n \<in> set (md_nodes diff). node_id X n = h \<and> n_repo n = r'"
    if "map_of (rev (map (\<lambda>n. (node_id X n, n_repo n)) (md_nodes diff))) h = Some r'" for r'
    using map_of_SomeD [OF that] by auto
  show "w' = w" "(\<exists>n \<in> set (md_nodes diff). node_id X n = h \<and> n_repo n = r) \<or> (\<exists>n. get_node X h (mw_store w) = Inr (Some n) \<and> n_repo n = r)"
    using assms m by (auto simp: edge_endpoint_repo_def sok_def sbind_def store_rd_def early_def serr_def map_err_def
        split: option.splits sum.splits)
qed

lemma diff_repos_run:
  assumes "diff_repos X diff w = (Inr repos, w')"
  shows "w' = w" "finite repos" "n_repo ` set (md_nodes diff) \<subseteq> repos"
    and "e \<in> set (md_edges diff) \<Longrightarrow> h \<in> {e_from e, e_to e} \<Longrightarrow> \<exists>r \<in> repos.
      (\<exists>n \<in> set (md_nodes diff). node_id X n = h \<and> n_repo n = r) \<or> (\<exists>n. get_node X h (mw_store w) = Inr (Some n) \<and> n_repo n = r)"
proof -
  let ?owns = "\<lambda>h r. (\<exists>n \<in> set (md_nodes diff). node_id X n = h \<and> n_repo n = r) \<or> (\<exists>n. get_node X h (mw_store w) = Inr (Some n) \<and> n_repo n = r)"
  define step where "step = (\<lambda>h repos. sbind (edge_endpoint_repo X diff h) (\<lambda>r. sok (insert r repos)))"
  have step: "step h rs w = (Inr qs, w1) \<Longrightarrow> \<exists>r. edge_endpoint_repo X diff h w = (Inr r, w1) \<and> qs = insert r rs" for h rs qs w w1
    by (auto simp: step_def elim!: sbind_run)
  have "w' = w \<and> finite repos \<and> rs \<subseteq> repos \<and> (\<forall>h \<in> set hs. \<exists>r \<in> repos. ?owns h r)"
    if "sfold step hs rs w = (Inr repos, w')" "finite rs" for hs rs
    using that
  proof (induction hs arbitrary: rs)
    case Nil
    then show ?case by (simp add: sok_def)
  next
    case (Cons h hs)
    from Cons.prems(1) obtain qs w1 where "step h rs w = (Inr qs, w1)" "sfold step hs qs w1 = (Inr repos, w')"
      by (auto elim!: sbind_run)
    then obtain r where r: "edge_endpoint_repo X diff h w = (Inr r, w1)" and rest: "sfold step hs (insert r rs) w1 = (Inr repos, w')"
      using step by blast
    note R = edge_endpoint_repo_run [OF r]
    have "w' = w \<and> finite repos \<and> insert r rs \<subseteq> repos \<and> (\<forall>h \<in> set hs. \<exists>r \<in> repos. ?owns h r)"
      by (rule Cons.IH) (use rest Cons.prems(2) R(1) in simp_all)
    with R(2) show ?case by auto
  qed
  from this [OF assms [unfolded diff_repos_def, folded step_def]]
  have all: "w' = w \<and> finite repos \<and> set (map n_repo (md_nodes diff)) \<subseteq> repos \<and>
      (\<forall>h \<in> set (concat (map (\<lambda>e. [e_from e, e_to e]) (md_edges diff))). \<exists>r \<in> repos. ?owns h r)" by simp
  then show "w' = w" "finite repos" "n_repo ` set (md_nodes diff) \<subseteq> repos" by auto
  show "\<exists>r \<in> repos. ?owns h r" if "e \<in> set (md_edges diff)" "h \<in> {e_from e, e_to e}"
    using all that by auto
qed

lemma merge_authorized_covered:
  assumes ne: "md_nodes diff \<noteq> [] \<or> md_edges diff \<noteq> []"
  shows "covered X E S (merge_authorized X E S diff)"
proof (rule coveredI)
  fix w r w' v
  assume run: "merge_authorized X E S diff w = (r, w')" and v: "answered r = Some v" "succeeds v"
  from run [unfolded merge_authorized_def] show "\<exists>operation repo. authorized_in X E S operation repo w w'"
  proof (cases rule: sbind_run)
    case (1 e)
    with v have "fst (diff_repos X diff w) = Inl (Early v)" by (simp add: answered_Inl)
    with diff_repos_rules(2) [of X diff] v(2) show ?thesis by (simp add: silent_def)
  next
    case (2 repos w1)
    note R = diff_repos_run [OF 2(1)]
    obtain e where "md_nodes diff \<noteq> [] \<or> e \<in> set (md_edges diff)" using ne by (cases "md_edges diff") auto
    then have ne': "repos \<noteq> {}" using R(3) R(4) [of e "e_from e"] by auto
    show ?thesis
      by (rule coveredD [OF covered_authorize_writes [OF _ R(2) ne'] 2(2) [unfolded R(1)] v]) (intro extending_rules)
  qed
qed

lemma merge_diff_covered: "covered X E S (call_merge_diff X E S args)"
proof -
  have "covered X E S (if b then early (tool_error m) else case me_diff E j of Inl e \<Rightarrow> early (tool_error (f e))
      | Inr diff \<Rightarrow> if P diff then early (tool_error (g diff)) else
          if md_nodes diff = [] \<and> md_edges diff = [] then early (tool_error c) else merge_authorized X E S diff)" for b m j f P g c
    by (cases "me_diff E j") (auto intro!: covered_failing merge_authorized_covered)
  then show ?thesis unfolding call_merge_diff_def Let_def by (intro covered_sbind silent_basic)
qed

lemma tools_covered: "map_of tool_handlers name = Some h \<Longrightarrow> covered X E S (h X E S args)"
  using read_tools_covered write_tools_covered merge_diff_covered
  by (auto simp: tool_handlers_def split: if_splits)

text \<open>C13. No tool succeeds in secret: whatever a \<^verbatim>\<open>tools/call\<close> request asks for, an answer that does not report
  an error means that some operation on some repository was allowed by the session grant, and
  by the grant of the request if it carries one, at a clock reading during the call, and that
  the audit log has a new record of that operation, repository, reading and caller.\<close>

theorem no_success_without_audit:
  assumes "tools_call X E S params w = (Inr v, w')" "json_get ''isError'' v = Some (JBool False)"
  shows "\<exists>operation repo t. mw_tick w \<le> t \<and> t < mw_tick w' \<and>
    check X (ms_grant S) (resource_for repo) operation (me_now E t) = Inr () \<and>
    (\<forall>rg. ms_req_grant S = Some rg \<longrightarrow> check X rg (resource_for repo) operation (me_now E t) = Inr ()) \<and>
    (\<exists>r \<in> set (drop (length (ac_records (mw_chain w))) (ac_records (mw_chain w'))).
       ar_event r = event_for operation \<and> ar_resource_id r = resource_for repo \<and>
       ar_actor r = cg_recipient (ms_grant S) \<and> ar_timestamp_ms r = me_now E t)"
proof -
  from assms(1) obtain name h args r where h: "map_of tool_handlers name = Some h" "h X E S args w = (r, w')" "answered r = Some v"
    by (auto simp: tools_call_def returning_def serr_def answered_def Let_def split: option.splits prod.splits sum.splits mcp_exit.splits)
  with tools_covered [OF h(1), of X E S args] assms(2) obtain operation repo where "authorized_in X E S operation repo w w'"
    unfolding covered_def succeeds_def by blast
  then show ?thesis
    unfolding authorized_in_def decide_def by (elim exE) (auto split: option.splits intro!: exI)
qed

section \<open>What a session may write\<close>

fun session_policy :: "externals \<Rightarrow> (string \<Rightarrow> bool) \<Rightarrow> dag_store \<Rightarrow> item \<Rightarrow> bool" where
  "session_policy X G s (INode n) \<longleftrightarrow> G (n_repo n)"
| "session_policy X G s (IEdge e) \<longleftrightarrow> ends_granted X G s e"

lemma session_policy_mono: "session_policy X G s it \<Longrightarrow> (\<And>r. G r \<Longrightarrow> H r) \<Longrightarrow> session_policy X H s it"
  by (cases it) (auto simp: ends_granted_def)

definition confined :: "externals \<Rightarrow> (item \<Rightarrow> bool) \<Rightarrow> dag_store \<Rightarrow> 'a tool \<Rightarrow> bool" where
  "confined X P s m \<longleftrightarrow> (\<forall>w r w'. mw_store w = s \<and> m w = (r, w') \<longrightarrow> allowed_effect X P s (mw_store w'))"

definition keeps_policy :: "externals \<Rightarrow> (item \<Rightarrow> bool) \<Rightarrow> dag_store \<Rightarrow> 'a tool \<Rightarrow> bool" where
  "keeps_policy X P s m \<longleftrightarrow> (\<forall>w r w'. allowed_effect X P s (mw_store w) \<and> m w = (r, w') \<longrightarrow> allowed_effect X P s (mw_store w'))"

lemma quiet_run: "quiet m \<Longrightarrow> m w = (r, w') \<Longrightarrow> mw_store w' = mw_store w \<and> log_extends w w'"
  by (auto simp: quiet_def extending_def) (metis snd_conv)+

lemma keeps_sbind: "keeps_policy X P s m \<Longrightarrow> (\<And>x. keeps_policy X P s (f x)) \<Longrightarrow> keeps_policy X P s (sbind m f)"
  unfolding keeps_policy_def by (blast elim: sbind_run)

lemma keeps_quiet: "quiet m \<Longrightarrow> keeps_policy X P s m"
  by (auto simp: keeps_policy_def dest: quiet_run)

lemma keeps_if: "keeps_policy X P s a \<Longrightarrow> keeps_policy X P s b \<Longrightarrow> keeps_policy X P s (if c then a else b)"
  by simp

lemma keeps_run:
  assumes "\<And>q r q'. allowed_effect X P s q \<Longrightarrow> m q = (r, q') \<Longrightarrow> allowed_effect X P s q'"
  shows "keeps_policy X P s (store_run g m)"
  using assms by (auto simp: keeps_policy_def store_run_def split: prod.splits)

lemma keeps_confined: "store_ok X s \<Longrightarrow> keeps_policy X P s m \<Longrightarrow> confined X P s m"
  unfolding keeps_policy_def confined_def using allowed_refl by blast

lemma confined_sbind:
  assumes "quiet m" "\<And>x. confined X P s (f x)" "store_ok X s"
  shows "confined X P s (sbind m f)"
  unfolding confined_def
proof (intro allI impI, elim conjE)
  fix w r w'
  assume w: "mw_store w = s" and "sbind m f w = (r, w')"
  from this(2) show "allowed_effect X P s (mw_store w')"
  proof (cases rule: sbind_run)
    case (1 e)
    with w quiet_run [OF assms(1) 1(1)] allowed_refl [OF assms(3)] show ?thesis by simp
  next
    case (2 x w1)
    with w quiet_run [OF assms(1) 2(1)] assms(2) [of x] show ?thesis by (auto simp: confined_def)
  qed
qed

text \<open>The changes between two worlds are covered by rights exercised and recorded in between.\<close>

definition writes_covered :: "externals \<Rightarrow> mcp_env \<Rightarrow> mcp_server \<Rightarrow> mcp_world \<Rightarrow> mcp_world \<Rightarrow> bool" where
  "writes_covered X E S w w' \<longleftrightarrow>
     allowed_effect X (session_policy X (\<lambda>repo. authorized_in X E S Write repo w w') (mw_store w)) (mw_store w) (mw_store w')"

definition guarded :: "externals \<Rightarrow> mcp_env \<Rightarrow> mcp_server \<Rightarrow> (dag_store \<Rightarrow> bool) \<Rightarrow> 'a tool \<Rightarrow> bool" where
  "guarded X E S K m \<longleftrightarrow> (\<forall>w r w'. store_ok X (mw_store w) \<and> K (mw_store w) \<and> m w = (r, w') \<longrightarrow> writes_covered X E S w w')"

named_theorems guarded_rules

lemma guarded_quiet: "quiet m \<Longrightarrow> guarded X E S K m"
  by (auto simp: guarded_def writes_covered_def dest!: quiet_run intro: allowed_refl)

lemma guarded_sbind:
  assumes m: "quiet m" and f: "\<And>x. guarded X E S (\<lambda>s. K s \<and> (\<exists>u u'. m u = (Inr x, u') \<and> mw_store u = s)) (f x)"
  shows "guarded X E S K (sbind m f)"
  unfolding guarded_def
proof (intro allI impI, elim conjE)
  fix w r w'
  assume w: "store_ok X (mw_store w)" "K (mw_store w)" and "sbind m f w = (r, w')"
  from this(3) show "writes_covered X E S w w'"
  proof (cases rule: sbind_run)
    case (1 e)
    with w quiet_run [OF m 1(1)] allowed_refl show ?thesis by (simp add: writes_covered_def)
  next
    case (2 x w1)
    note q = quiet_run [OF m 2(1)]
    have "writes_covered X E S w1 w'"
      using f [of x] w q 2 unfolding guarded_def by (metis (no_types, lifting))
    then show ?thesis
      unfolding writes_covered_def q [THEN conjunct1]
      by (rule allowed_mono) (auto elim!: session_policy_mono intro: authorized_mono q [THEN conjunct2])
  qed
qed

lemma guarded_authorize_writes:
  assumes fin: "finite repos" and ext: "\<And>x. extending (f x)"
    and f: "\<And>x s. store_ok X s \<Longrightarrow> K s \<Longrightarrow> confined X (session_policy X (\<lambda>r. r \<in> repos) s) s (f x)"
  shows "guarded X E S K (sbind (authorize_writes X E S repos d) f)"
  unfolding guarded_def
proof (intro allI impI, elim conjE)
  fix w r w'
  assume w: "store_ok X (mw_store w)" "K (mw_store w)" and "sbind (authorize_writes X E S repos d) f w = (r, w')"
  from this(3) show "writes_covered X E S w w'"
  proof (cases rule: sbind_run)
    case (1 e)
    with w quiet_run [OF authorize_writes_rules(1) 1(1)] allowed_refl show ?thesis by (simp add: writes_covered_def)
  next
    case (2 x w1)
    note q = quiet_run [OF authorize_writes_rules(1) 2(1)]
    have "log_extends w1 w'" using ext [of x] 2(2) by (auto simp: extending_def) (metis snd_conv)
    then have auth: "authorized_in X E S Write repo w w'" if "repo \<in> repos" for repo
      using authorize_writes_run [OF 2(1) fin that] authorized_mono log_extends_refl by blast
    have "allowed_effect X (session_policy X (\<lambda>r. r \<in> repos) (mw_store w)) (mw_store w) (mw_store w')"
      using f [OF w] 2(2) q unfolding confined_def by metis
    then show ?thesis
      unfolding writes_covered_def by (rule allowed_mono) (auto elim!: session_policy_mono intro: auth)
  qed
qed

lemma guarded_case [guarded_rules]:
  "guarded X E S K a \<Longrightarrow> (\<And>x. guarded X E S K (f x)) \<Longrightarrow> guarded X E S K (case p of None \<Rightarrow> a | Some x \<Rightarrow> f x)"
  "(\<And>x y. guarded X E S K (h x y)) \<Longrightarrow> guarded X E S K (case z of (x, y) \<Rightarrow> h x y)"
  "guarded X E S K a \<Longrightarrow> guarded X E S K b \<Longrightarrow> guarded X E S K (if c then a else b)"
  by (simp_all split: option.splits prod.splits)

lemma resolve_or_hide_run:
  assumes "resolve_or_hide X E S prefix w = (Inr (nid, n), w')" "store_ok X (mw_store w)"
  shows "node_view X (mw_store w) nid = Some n"
  using assms(1) by (auto simp: resolve_or_hide_def resolve_readable_def sbind_def store_rd_def early_def serr_def sok_def
      map_err_def get_node_eq [OF assms(2)] split: prod.splits sum.splits option.splits if_splits)

lemma edge_tool_guarded:
  assumes ext: "\<And>a n b m u. extending (T a n b m u)"
    and T: "\<And>s a n b m u. store_ok X s \<Longrightarrow> node_view X s a = Some n \<Longrightarrow> node_view X s b = Some m \<Longrightarrow>
      confined X (session_policy X (\<lambda>r. r \<in> {n_repo n, n_repo m}) s) s (T a n b m u)"
  shows "guarded X E S K (sbind (resolve_or_hide X E S p) (\<lambda>(a, n). sbind (resolve_or_hide X E S q) (\<lambda>(b, m).
    sbind (authorize_writes X E S {n_repo n, n_repo m} d) (T a n b m))))"
proof (intro guarded_sbind resolve_or_hide_rules)
  fix x :: "content_hash \<times> memory_node"
  obtain a n where x: "x = (a, n)" by (cases x)
  show "guarded X E S (\<lambda>s. K s \<and> (\<exists>u u'. resolve_or_hide X E S p u = (Inr x, u') \<and> mw_store u = s))
     (case x of (a, n) \<Rightarrow> sbind (resolve_or_hide X E S q) (\<lambda>(b, m).
        sbind (authorize_writes X E S {n_repo n, n_repo m} d) (T a n b m)))"
    unfolding x prod.case
  proof (intro guarded_sbind resolve_or_hide_rules)
    fix y :: "content_hash \<times> memory_node"
    obtain b m where y: "y = (b, m)" by (cases y)
    show "guarded X E S (\<lambda>s. (K s \<and> (\<exists>u u'. resolve_or_hide X E S p u = (Inr (a, n), u') \<and> mw_store u = s)) \<and>
        (\<exists>u u'. resolve_or_hide X E S q u = (Inr y, u') \<and> mw_store u = s))
      (case y of (b, m) \<Rightarrow> sbind (authorize_writes X E S {n_repo n, n_repo m} d) (T a n b m))"
      unfolding y prod.case
      by (rule guarded_authorize_writes [OF _ ext T]) (auto dest: resolve_or_hide_run)
  qed
qed

lemma ends_in:
  assumes "node_view X s (e_from e) = Some n" "node_view X s (e_to e) = Some m"
  shows "ends_granted X (\<lambda>r. r \<in> {n_repo n, n_repo m}) s e"
  using assms by (auto simp: ends_granted_def)

lemma record_proposal_confined:
  assumes X: "externals_ok X" and ok: "store_ok X s" and n: "node_view X s a = Some n" "node_view X s b = Some m"
  shows "confined X (session_policy X (\<lambda>r. r \<in> {n_repo n, n_repo m}) s) s (record_proposal X E S as a b m kind ks ev)"
proof (rule keeps_confined [OF ok])
  let ?P = "session_policy X (\<lambda>r. r \<in> {n_repo n, n_repo m}) s"
  have "?P (IEdge (propose_edge X as a b kind Nlp ev now))" for now
    using n by (auto simp: propose_edge_def Let_def ends_granted_def)
  then have e: "keeps_policy X ?P s (store_run g (add_edge X (propose_edge X as a b kind Nlp ev now)))" for g now
    by (intro keeps_run) (rule allowed_add_edge [where P = ?P, OF X])
  have p: "keeps_policy X ?P s (store_run g (put_meta X t k v))" for g t k v
    by (intro keeps_run) (rule allowed_put_meta [OF X])
  show "keeps_policy X ?P s (record_proposal X E S as a b m kind ks ev)"
    unfolding record_proposal_def Let_def
    by (intro keeps_sbind keeps_if e p keeps_quiet quiet_rules)
qed

lemma promote_proposal_confined:
  assumes X: "externals_ok X" and ok: "store_ok X s" and n: "node_view X s a = Some n" "node_view X s b = Some m"
  shows "confined X (session_policy X (\<lambda>r. r \<in> {n_repo n, n_repo m}) s) s (promote_proposal X E S a b m kind ks)"
proof -
  let ?P = "session_policy X (\<lambda>r. r \<in> {n_repo n, n_repo m}) s"
  have "allowed_effect X ?P s s'" if "confirm_edge X a b kind now s = (r, s')" for now r s'
    using confirm_edge_cases [OF ok that]
  proof (elim disjE conjE exE)
    fix e q
    assume e: "e_from e = a" "e_to e = b" and step: "if kind = Supersedes
        then \<exists>p. apply_supersession X (confirmed_form e now) s = (p, s') \<and> q = rbind p (\<lambda>_. Inr ())
        else \<exists>p. add_edge X (confirmed_form e now) s = (p, s') \<and> q = map_err StoreErr p"
    have pe: "?P (IEdge (confirmed_form e now))" using n e by (auto simp: ends_granted_def)
    have pt: "?P (INode (supersede_target (confirmed_form e now) t))" if "node_view X s (e_to (confirmed_form e now)) = Some t" for t
      using that n e by (simp add: supersede_target_def)
    show ?thesis
      using step allowed_add_edge [where P = ?P, OF X allowed_refl [OF ok] pe]
        allowed_supersession [where P = ?P, OF X allowed_refl [OF ok] pe pt]
      by (auto split: if_splits)
  qed (use allowed_refl [OF ok] in simp_all)
  then have "confined X ?P s (\<lambda>w. case confirm_edge X a b kind now (mw_store w) of
      (r, s) \<Rightarrow> (Inr (confirm_answer X a b ks r), w\<lparr>mw_store := s\<rparr>))" for now
    by (auto simp: confined_def split: prod.splits)
  then show ?thesis unfolding promote_proposal_def by (intro confined_sbind quiet_rules ok)
qed

lemma proposal_extending:
  "extending (record_proposal X E S as a b m kind ks ev)" "extending (promote_proposal X E S a b m kind ks)"
  unfolding record_proposal_def promote_proposal_def Let_def by (intro extending_rules)+

lemma edge_tools_guarded:
  assumes X: "externals_ok X"
  shows "guarded X E S K (call_propose_edge X E S args)" "guarded X E S K (call_confirm_edge X E S args)"
proof -
  show "guarded X E S K (call_propose_edge X E S args)"
    unfolding call_propose_edge_def Let_def
    by (rule guarded_sbind [OF quiet_basic(3)], rule guarded_sbind [OF quiet_basic(3)], intro guarded_rules;
        ((rule edge_tool_guarded, rule proposal_extending, erule (2) record_proposal_confined [OF X])
        | (rule guarded_quiet, intro quiet_rules)))
  show "guarded X E S K (call_confirm_edge X E S args)"
    unfolding call_confirm_edge_def Let_def
    by (rule guarded_sbind [OF quiet_basic(3)], rule guarded_sbind [OF quiet_basic(3)], intro guarded_rules;
        ((rule edge_tool_guarded, rule proposal_extending, erule (2) promote_proposal_confined [OF X])
        | (rule guarded_quiet, intro quiet_rules)))
qed

text \<open>The writes of a diff, by repository.\<close>

lemma diff_same_repo:
  assumes "store_ok X s" "\<not> diff_collides X diff s" "n \<in> set (md_nodes diff)" "node_view X s (node_id X n) = Some m"
  shows "n_repo m = n_repo n"
proof -
  have "get_node X (node_id X n) s = Inr (Some m)" using assms(1,4) by (simp add: get_node_eq)
  with assms(2,3) have "identity_of m = identity_of n" by (auto simp: diff_collides_def)
  then show ?thesis by (rule identity_repo [THEN conjunct1])
qed

lemma plan_node_repo:
  assumes ok: "store_ok X s" and nc: "\<not> diff_collides X diff s" and n: "n \<in> set (md_nodes diff)" "json_safe n"
    and run: "plan_node X now caller s n (w, u) = Inr (w', u')"
    and w: "\<forall>x \<in> set w. json_safe x \<and> n_repo x \<in> n_repo ` set (md_nodes diff)"
  shows "\<forall>x \<in> set w'. json_safe x \<and> n_repo x \<in> n_repo ` set (md_nodes diff)"
proof (cases "node_view X s (node_id X n)")
  case None
  then have "w' = w @ [incoming_node now (caller = Some (n_author n)) n]"
    using run by (auto simp: plan_node_def Let_def get_node_eq [OF ok] split: if_splits)
  moreover have "n_repo (incoming_node now b n) = n_repo n" for b by (simp add: incoming_node_def Let_def)
  ultimately show ?thesis using w n by (auto simp: incoming_safe)
next
  case (Some m)
  let ?j = "fst (merge_node m (incoming_node now (caller = Some (n_author n)) n))"
  have "w' = w \<or> w' = w @ [?j]"
    using run Some by (auto simp: plan_node_def Let_def get_node_eq [OF ok] split: if_splits prod.splits)
  moreover have "n_repo ?j = n_repo m" by (rule identity_repo [THEN conjunct1]) (rule node_join_fields)
  moreover have "n_repo m = n_repo n" by (rule diff_same_repo [OF ok nc n(1) Some])
  moreover have "json_safe ?j" by (rule joined_safe [OF node_view_id(2) [OF ok Some] incoming_safe [OF n(2)]])
  ultimately show ?thesis using w n by auto
qed

lemma plan_nodes_repo:
  assumes "store_ok X s" "\<not> diff_collides X diff s" "\<forall>n \<in> set (md_nodes diff). json_safe n"
    and "rfold (plan_node X now caller s) (md_nodes diff) ([], 0) = Inr np"
  shows "\<forall>x \<in> set (fst np). json_safe x \<and> n_repo x \<in> n_repo ` set (md_nodes diff)"
proof (rule rfold_invariant [where I = "\<lambda>np. \<forall>x \<in> set (fst np). json_safe x \<and> n_repo x \<in> n_repo ` set (md_nodes diff)", OF _ _ assms(4)])
  fix n and a b :: "memory_node list \<times> nat"
  assume n: "n \<in> set (md_nodes diff)" and a: "\<forall>x \<in> set (fst a). json_safe x \<and> n_repo x \<in> n_repo ` set (md_nodes diff)"
    and run: "plan_node X now caller s n a = Inr b"
  from run have r: "plan_node X now caller s n (fst a, snd a) = Inr (fst b, snd b)" by simp
  show "\<forall>x \<in> set (fst b). json_safe x \<and> n_repo x \<in> n_repo ` set (md_nodes diff)"
    by (rule plan_node_repo [OF assms(1,2) n _ r a]) (use n assms(3) in simp)
qed simp

lemma plan_edges_of:
  assumes "rfold (plan_edge X now caller diff s) es ([], []) = Inr ep"
  shows "set (fst ep) \<union> set (snd ep) \<subseteq> set es"
proof (rule rfold_invariant [where I = "\<lambda>ep. set (fst ep) \<union> set (snd ep) \<subseteq> set es", OF _ _ assms])
  fix e and a b :: "edge list \<times> edge list"
  assume "e \<in> set es" "set (fst a) \<union> set (snd a) \<subseteq> set es" "plan_edge X now caller diff s e a = Inr b"
  then show "set (fst b) \<union> set (snd b) \<subseteq> set es"
    by (cases a) (auto simp: plan_edge_def rbind_def Let_def split: sum.splits edge_verdict.splits option.splits if_splits)
qed simp

lemma diff_stays_in_repos:
  assumes X: "externals_ok X" and ok: "store_ok X s" and nc: "\<not> diff_collides X diff s"
    and safe: "\<forall>n \<in> set (md_nodes diff). json_safe n" and nodes: "n_repo ` set (md_nodes diff) \<subseteq> repos"
    and ends: "\<And>e h. e \<in> set (md_edges diff) \<Longrightarrow> h \<in> {e_from e, e_to e} \<Longrightarrow> \<exists>r \<in> repos.
      (\<exists>n \<in> set (md_nodes diff). node_id X n = h \<and> n_repo n = r) \<or> (\<exists>n. get_node X h s = Inr (Some n) \<and> n_repo n = r)"
    and run: "apply_diff X now diff caller s = (r, s')"
  shows "allowed_effect X (session_policy X (\<lambda>r. r \<in> repos) s) s s'"
proof (cases "plan_diff X now diff caller s")
  case (Inl e)
  with run allowed_refl [OF ok] show ?thesis by (simp add: refused_diff)
next
  case (Inr plan)
  obtain w u p q where "plan = ((w, u), p, q)" by (metis prod.exhaust)
  with Inr have plan: "plan_diff X now diff caller s = Inr ((w, u), p, q)" by simp
  note P = plan_diff_Inr [OF plan]
  let ?P = "session_policy X (\<lambda>r. r \<in> repos) s"
  have stored: "n_repo m \<in> repos" if e: "e \<in> set (md_edges diff)" "h \<in> {e_from e, e_to e}" and m: "node_view X s h = Some m" for e h m
  proof -
    obtain r where r: "r \<in> repos" "(\<exists>n \<in> set (md_nodes diff). node_id X n = h \<and> n_repo n = r) \<or> (\<exists>n. get_node X h s = Inr (Some n) \<and> n_repo n = r)"
      using ends [OF e] by blast
    have "n_repo m = n_repo n" if "n \<in> set (md_nodes diff)" "node_id X n = h" for n
      by (rule diff_same_repo [OF ok nc that(1)]) (simp add: that(2) m)
    with r m show ?thesis by (auto simp: get_node_eq [OF ok])
  qed
  have edge: "?P (IEdge e)" if "e \<in> set (md_edges diff)" for e
    using stored [OF that] by (auto simp: ends_granted_def)
  have pq: "set p \<union> set q \<subseteq> set (md_edges diff)" using plan_edges_of [OF P(3)] by simp
  show ?thesis
  proof (rule planned_writes_allowed [OF X ok plan _ _ _ run])
    show "\<forall>n \<in> set w. json_safe n \<and> ?P (INode n)" using plan_nodes_repo [OF ok nc safe P(2)] nodes by auto
    show "\<forall>e \<in> set p \<union> set q. ?P (IEdge e)" using edge pq by blast
    fix e z t
    assume e: "e \<in> set q" and I: "allowed_effect X ?P s z" and t: "node_view X z (e_to e) = Some t"
    have "n_repo t \<in> repos" using allowed_origin(1) [OF I t] stored [of e "e_to e" t] e pq by auto
    then show "?P (INode (supersede_target e t))" by (simp add: supersede_target_def)
  qed
qed

section \<open>Every write is authorized and audited\<close>

lemma authorize_single: "authorize_writes X E S {repo} d = authorize X E S Write repo d"
  by (rule ext) (auto simp: authorize_writes_def sbind_def sok_def split: prod.splits sum.splits)

lemma record_assertion_confined:
  assumes X: "externals_ok X" and emb: "\<forall>txt v. embedder_of X E S txt = Inr v \<longrightarrow> list_all f32_finite (vv_data v)"
    and ok: "store_ok X s"
  shows "confined X (session_policy X (\<lambda>r. r \<in> {repo}) s) s (record_assertion X E S a args repo content ks)"
proof (rule keeps_confined [OF ok])
  let ?P = "session_policy X (\<lambda>r. r \<in> {repo}) s"
  have node: "json_safe (assert_node_with X a repo kind content vf now (fst (embed_for_write X E S content)))"
      "?P (INode (assert_node_with X a repo kind content vf now (fst (embed_for_write X E S content))))" for kind vf now
    using emb by (auto simp: assert_node_with_def Let_def json_safe_def embed_for_write_def split: sum.splits)
  have p: "keeps_policy X ?P s (store_run g (put_node X (assert_node_with X a repo kind content vf now (fst (embed_for_write X E S content)))))"
    for g kind vf now
    by (intro keeps_run) (erule allowed_put_node [where P = ?P, OF X _ node])
  show "keeps_policy X ?P s (record_assertion X E S a args repo content ks)"
    unfolding record_assertion_def Let_def split_beta
    by (rule keeps_sbind [OF keeps_quiet [OF quiet_basic(6)]], rule keeps_sbind [OF keeps_quiet [OF quiet_basic(8)]],
        rule keeps_sbind [OF p keeps_quiet [OF quiet_basic(1)]])
qed

lemma assertion_extending: "extending (record_assertion X E S a args repo content ks)"
  unfolding record_assertion_def Let_def by (intro extending_rules)

lemma assert_guarded:
  assumes X: "externals_ok X" and emb: "\<forall>txt v. embedder_of X E S txt = Inr v \<longrightarrow> list_all f32_finite (vv_data v)"
  shows "guarded X E S K (call_assert X E S args)"
proof -
  have "guarded X E S K' (sbind (authorize_writes X E S {repo} d) (\<lambda>_. record_assertion X E S a args repo content ks))"
    for K' repo d a content ks
    by (rule guarded_authorize_writes [OF _ assertion_extending record_assertion_confined [OF X emb]]) simp_all
  then show ?thesis
    unfolding call_assert_def Let_def authorize_single [symmetric]
    by (intro guarded_sbind [OF quiet_basic(3)] guarded_rules guarded_quiet [OF quiet_basic(4)])
qed

text \<open>The diff in the arguments of a call.\<close>

definition args_diff :: "mcp_env \<Rightarrow> json \<Rightarrow> memory_diff option" where
  "args_diff E args = Option.bind (Option.bind (json_get ''diff'' args) json_as_str)
     (\<lambda>j. case me_diff E j of Inl _ \<Rightarrow> None | Inr diff \<Rightarrow> Some diff)"

definition diff_fresh :: "externals \<Rightarrow> mcp_env \<Rightarrow> json \<Rightarrow> dag_store \<Rightarrow> bool" where
  "diff_fresh X E args s \<longleftrightarrow> (\<forall>diff. args_diff E args = Some diff \<longrightarrow>
     \<not> diff_collides X diff s \<and> (\<forall>n \<in> set (md_nodes diff). json_safe n))"

lemma merge_authorized_guarded:
  assumes X: "externals_ok X"
  shows "guarded X E S (\<lambda>s. \<not> diff_collides X diff s \<and> (\<forall>n \<in> set (md_nodes diff). json_safe n)) (merge_authorized X E S diff)"
  unfolding merge_authorized_def
proof (rule guarded_sbind [OF diff_repos_rules(1)])
  fix repos
  let ?K = "\<lambda>s. (\<not> diff_collides X diff s \<and> (\<forall>n \<in> set (md_nodes diff). json_safe n)) \<and>
    (\<exists>u u'. diff_repos X diff u = (Inr repos, u') \<and> mw_store u = s)"
  have conf: "confined X (session_policy X (\<lambda>r. r \<in> repos) s) s (\<lambda>w. case apply_diff X now diff c (mw_store w) of
      (r, s) \<Rightarrow> (Inr (merge_answer r), w\<lparr>mw_store := s\<rparr>))" if ok: "store_ok X s" and K: "?K s" for s now c
  proof -
    from K obtain u u' where u: "diff_repos X diff u = (Inr repos, u')" "mw_store u = s" by blast
    note R = diff_repos_run [OF u(1), unfolded u(2)]
    show ?thesis
      using diff_stays_in_repos [OF X ok _ _ R(3,4)] K by (auto simp: confined_def split: prod.splits)
  qed
  show "guarded X E S ?K (sbind (authorize_writes X E S repos (''memory.merge_diff '' @ diff_size diff)) (\<lambda>_.
     sbind (lock_writes S) (\<lambda>_. sbind (now_ms E) (\<lambda>now w.
     case apply_diff X now diff (map_option as_pubkey_hex (ms_asserter S)) (mw_store w) of
       (r, s) \<Rightarrow> (Inr (merge_answer r), w\<lparr>mw_store := s\<rparr>)))))"
  proof (cases "finite repos")
    case True
    then show ?thesis
      by (rule guarded_authorize_writes) (intro extending_rules, intro confined_sbind quiet_rules conf)
  next
    case False
    then have "\<not> ?K s" for s using diff_repos_run(2) by blast
    then show ?thesis unfolding guarded_def by blast
  qed
qed

lemma merge_guarded:
  assumes X: "externals_ok X"
  shows "guarded X E S (diff_fresh X E args) (call_merge_diff X E S args)"
  unfolding call_merge_diff_def
proof (rule guarded_sbind [OF quiet_basic(3)])
  fix j
  let ?K = "\<lambda>s. diff_fresh X E args s \<and> (\<exists>u u'. (slift (arg_str args ''diff'') :: string tool) u = (Inr j, u') \<and> mw_store u = s)"
  have weaken: "guarded X E S K m \<Longrightarrow> (\<And>s. H s \<Longrightarrow> K s) \<Longrightarrow> guarded X E S H m" for K H and m :: "json tool"
    unfolding guarded_def by blast
  have "guarded X E S ?K (merge_authorized X E S diff)" if d: "me_diff E j = Inr diff" for diff
  proof (rule weaken [OF merge_authorized_guarded [OF X]])
    fix s
    assume K: "?K s"
    then have "arg_str args ''diff'' = Inr j" by (auto simp: slift_def)
    then have "Option.bind (json_get ''diff'' args) json_as_str = Some j" by (auto simp: arg_str_def ok_or_def split: option.splits)
    then have "args_diff E args = Some diff" unfolding args_diff_def by (simp only: Option.bind_lunit d sum.case)
    with K show "\<not> diff_collides X diff s \<and> (\<forall>n \<in> set (md_nodes diff). json_safe n)" by (simp add: diff_fresh_def)
  qed
  then have "guarded X E S ?K (case me_diff E j of Inl e \<Rightarrow> early (f e)
      | Inr diff \<Rightarrow> if P diff then early (g diff) else if Q diff then early c else merge_authorized X E S diff)" for f P g Q c
    by (cases "me_diff E j") (auto intro: guarded_quiet quiet_basic)
  then show "guarded X E S ?K (if length j > MAX_DIFF_BYTES then
       early (tool_error (''diff too large ('' @ decimal (length j) @ '' bytes > '' @ decimal MAX_DIFF_BYTES @ '' cap)''))
     else
       case me_diff E j of
         Inl e \<Rightarrow> early (tool_error (''malformed diff: '' @ assert_error_text (SerdeError e)))
       | Inr diff \<Rightarrow>
           if length (md_nodes diff) > MAX_DIFF_NODES \<or> length (md_edges diff) > MAX_DIFF_EDGES then
             early (tool_error (''diff exceeds size cap '' @ diff_size diff))
           else if md_nodes diff = [] \<and> md_edges diff = [] then early (tool_error ''empty diff (no nodes, no edges)'')
           else merge_authorized X E S diff)"
    by (intro guarded_rules guarded_quiet [OF quiet_basic(4)])
qed

lemma tools_guarded:
  assumes "externals_ok X" "\<forall>txt v. embedder_of X E S txt = Inr v \<longrightarrow> list_all f32_finite (vv_data v)"
    and "map_of tool_handlers name = Some h"
  shows "guarded X E S (diff_fresh X E args) (h X E S args)"
  using assms(3) read_tools_quiet [THEN guarded_quiet, of X E S "diff_fresh X E args" X E S] edge_tools_guarded [OF assms(1)]
    assert_guarded [OF assms(1,2)] merge_guarded [OF assms(1)]
  by (auto simp: tool_handlers_def split: if_splits)

text \<open>The arguments of the call in a message.\<close>

definition call_args :: "json \<Rightarrow> json" where
  "call_args params = (case json_get ''arguments'' params of None \<Rightarrow> JObj [] | Some a \<Rightarrow> a)"

lemma dispatch_guarded:
  assumes X: "externals_ok X" and emb: "\<forall>txt v. embedder_of X E S txt = Inr v \<longrightarrow> list_all f32_finite (vv_data v)"
  shows "guarded X E S (diff_fresh X E (call_args params)) (dispatch X E S meth params)"
proof -
  let ?K = "diff_fresh X E (call_args params)"
  have ret: "guarded X E S ?K (returning m)" if "guarded X E S ?K m" for m
    unfolding guarded_def
  proof (intro allI impI, elim conjE)
    fix w r w'
    assume w: "store_ok X (mw_store w)" "?K (mw_store w)" and "returning m w = (r, w')"
    from this(3) obtain q where "m w = (q, w')"
      by (auto simp: returning_def split: prod.splits sum.splits mcp_exit.splits)
    with that w show "writes_covered X E S w w'" unfolding guarded_def by blast
  qed
  have "guarded X E S ?K (case map_of tool_handlers name of Some h \<Rightarrow> returning (h X E S (call_args params))
      | None \<Rightarrow> serr e)" for name e
    by (cases "map_of tool_handlers name")
      (simp_all add: guarded_quiet [OF quiet_basic(2)] ret tools_guarded [OF assms])
  then have "guarded X E S ?K (tools_call X E S params)"
    unfolding tools_call_def Let_def call_args_def [symmetric]
    by (cases "Option.bind (json_get ''name'' params) json_as_str") (simp_all add: guarded_quiet [OF quiet_basic(2)])
  then show ?thesis
    unfolding dispatch_def by (simp add: guarded_quiet [OF quiet_basic(1)] guarded_quiet [OF quiet_basic(2)])
qed

lemma request_context_session:
  assumes "request_context X E S params = Inr (S2, b)"
  shows "ms_grant S2 = ms_grant S" "ms_query_embedder S2 = ms_query_embedder S" "ms_asserter S2 = ms_asserter S"
    "ms_write_gate S2 = ms_write_gate S"
  using assms by (auto simp: request_context_def Let_def rbind_def split: sum.splits option.splits)

lemma allowed_dom:
  assumes "allowed_effect X P s s'"
  shows "dom (node_view X s) \<subseteq> dom (node_view X s')"
proof -
  have "dom m \<subseteq> dom (fold (node_upd X) its m)" for its m
  proof (induction its arbitrary: m)
    case (Cons it its)
    have "dom m \<subseteq> dom (node_upd X it m)" by (cases it) auto
    with Cons [of "node_upd X it m"] show ?case by simp
  qed simp
  then show ?thesis using assms unfolding allowed_effect_def effect_def by metis
qed

text \<open>A right to write, exercised under the context of a message and recorded.\<close>

definition write_recorded ::
    "externals \<Rightarrow> mcp_env \<Rightarrow> mcp_server \<Rightarrow> string \<Rightarrow> mcp_world \<Rightarrow> mcp_world \<Rightarrow> string \<Rightarrow> bool" where
  "write_recorded X E S line w w' repo \<longleftrightarrow>
     (\<exists>req S2 b. me_parse E line = Inr req \<and> request_context X E S (request_params req) = Inr (S2, b) \<and>
        authorized_in X E S2 Write repo w w')"

lemma handle_line_covered:
  assumes X: "externals_ok X" and ok: "store_ok X (mw_store w)"
    and fresh: "\<forall>req. me_parse E line = Inr req \<longrightarrow> diff_fresh X E (call_args (request_params req)) (mw_store w)"
    and emb: "\<forall>txt v. embedder_of X E S txt = Inr v \<longrightarrow> list_all f32_finite (vv_data v)"
    and run: "handle_line X E line (S, w) = (r, S', w')"
  shows "allowed_effect X (session_policy X (write_recorded X E S line w w') (mw_store w)) (mw_store w) (mw_store w')"
proof (cases "me_parse E line")
  case (Inl e)
  with run allowed_refl [OF ok] show ?thesis by (simp add: handle_line_def)
next
  case req: (Inr req)
  show ?thesis
  proof (cases "request_context X E S (request_params req)")
    case (Inl e)
    with run req allowed_refl [OF ok] show ?thesis by (cases e) (simp add: handle_line_def Let_def)
  next
    case (Inr c)
    then obtain S2 b where c: "request_context X E S (request_params req) = Inr (S2, b)" by (cases c) simp
    obtain meth q where d: "dispatch X E S2 meth (request_params req) w = (q, w')"
      using run req c by (auto simp: handle_line_def Let_def split: prod.splits sum.splits mcp_exit.splits)
    have "embedder_of X E S2 = embedder_of X E S" by (simp add: embedder_of_def request_context_session [OF c])
    with emb have emb2: "\<forall>txt v. embedder_of X E S2 txt = Inr v \<longrightarrow> list_all f32_finite (vv_data v)" by simp
    have "writes_covered X E S2 w w'"
      using dispatch_guarded [OF X emb2, of "request_params req" meth] ok fresh req d unfolding guarded_def by blast
    then show ?thesis
      unfolding writes_covered_def
      by (rule allowed_mono) (auto elim!: session_policy_mono simp: write_recorded_def req c)
  qed
qed

text \<open>C12. Whatever line a client sends, every change of the store is covered: a stored node that reads
  differently afterwards, or an edge at it that does, and a node that appears, belong to a
  repository that the session grant may write (and the grant of the request, when it brings
  one) at a clock reading during the call, and the audit log has a new \<^verbatim>\<open>Write\<close> record of that
  repository, reading and caller. The only way out is an assertion whose node id collides with
  a stored node of another identity.\<close>

theorem every_write_is_authorized_and_audited:
  assumes "externals_ok X" "store_ok X (mw_store w)"
    and "\<forall>req. me_parse E line = Inr req \<longrightarrow> diff_fresh X E (call_args (request_params req)) (mw_store w)"
    and "\<forall>txt v. embedder_of X E S txt = Inr v \<longrightarrow> list_all f32_finite (vv_data v)"
    and "handle_line X E line (S, w) = (r, S', w')"
  shows "store_ok X (mw_store w') \<and>
    (\<forall>nid m. get_node X nid (mw_store w) = Inr (Some m) \<and> get_node X nid (mw_store w') \<noteq> Inr (Some m) \<longrightarrow>
       write_recorded X E S line w w' (n_repo m) \<or>
       (\<exists>n. get_node X nid (mw_store w') = Inr (Some n) \<and> node_id X n = node_id X m \<and> identity_of n \<noteq> identity_of m)) \<and>
    (\<forall>nid m. get_node X nid (mw_store w) = Inr None \<and> get_node X nid (mw_store w') = Inr (Some m) \<longrightarrow>
       write_recorded X E S line w w' (n_repo m)) \<and>
    (\<forall>e m. (get_node X (e_from e) (mw_store w) = Inr (Some m) \<or> get_node X (e_to e) (mw_store w) = Inr (Some m)) \<and>
       stored_edge X e (mw_store w') \<noteq> stored_edge X e (mw_store w) \<longrightarrow> write_recorded X E S line w w' (n_repo m))"
proof -
  let ?s = "mw_store w" and ?s' = "mw_store w'" and ?G = "write_recorded X E S line w w'"
  note I = handle_line_covered [OF assms]
  note ok = assms(2) and ok' = allowed_ok [OF I]
  show ?thesis
    unfolding get_node_eq [OF ok] get_node_eq [OF ok'] stored_edge_eq [OF ok] stored_edge_eq [OF ok'] sum.inject
  proof (intro conjI allI impI ok')
    fix nid m
    assume m: "node_view X ?s nid = Some m \<and> node_view X ?s' nid \<noteq> Some m"
    have "dom (node_view X ?s) \<subseteq> dom (node_view X ?s')" by (rule allowed_dom [OF I])
    with m obtain n where n: "node_view X ?s' nid = Some n" by (auto dest: domD)
    have "?G (n_repo n)" using allowed_origin(1) [OF I n] m n by auto
    moreover have "node_id X n = node_id X m"
      using node_view_id(1) [OF ok m [THEN conjunct1]] node_view_id(1) [OF ok' n] by simp
    ultimately show "?G (n_repo m) \<or> (\<exists>n. node_view X ?s' nid = Some n \<and> node_id X n = node_id X m \<and> identity_of n \<noteq> identity_of m)"
      using n identity_repo [of n m] by metis
  next
    fix nid m
    assume "node_view X ?s nid = None \<and> node_view X ?s' nid = Some m"
    then show "?G (n_repo m)" using allowed_origin(1) [OF I, of nid m] by auto
  next
    fix e :: edge and m
    assume m: "(node_view X ?s (e_from e) = Some m \<or> node_view X ?s (e_to e) = Some m) \<and>
      edge_view X ?s' (edge_key e) \<noteq> edge_view X ?s (edge_key e)"
    show "?G (n_repo m)"
    proof (rule ccontr)
      assume "\<not> ?G (n_repo m)"
      then have "edge_key d \<noteq> edge_key e" if "session_policy X ?G ?s (IEdge d)" for d
        using that m edge_ends [of d e] by (auto simp: ends_granted_def)
      with allowed_protects(2) [OF I, of "edge_key e"] m show False by blast
    qed
  qed
qed

section \<open>Concrete sessions\<close>

text \<open>An environment for the server whose parser answers with a fixed request, and whose clock
  counts the readings.\<close>

definition fixed_request :: "json \<Rightarrow> mcp_env" where
  "fixed_request req = \<lparr>me_audit = ideal_codec, me_query = ideal_query, me_f32 = ideal_f32, me_tokens = (\<lambda>s. [s]),
     me_now = of_nat, me_now_for = (\<lambda>k _. of_nat k), me_io = (\<lambda>_. quiet_io), me_parse = (\<lambda>_. Inr req),
     me_print = (\<lambda>_. Inr ''{}''), me_grant = (\<lambda>_. Inr (sign_with ideal_externals 6 sample_grant)),
     me_diff = (\<lambda>_. Inl ''no diff''), me_str_debug = id, me_fixed = (\<lambda>_ _. ''0''),
     me_unicode = \<lparr>uc_lowercase = id, uc_alphanumeric = (\<lambda>_. True)\<rparr>, me_version = ''0.1.0''\<rparr>"

abbreviation sample_session :: mcp_server where
  "sample_session \<equiv> new_server (sign_with ideal_externals 5 sample_grant)"

lemma sample_session_reads:
  "check ideal_externals (sign_with ideal_externals 5 sample_grant) (resource_for ''a'') Read 0 = Inr ()"
  using sign_with_verifies [OF ideal_ed25519_ok, of 5 sample_grant]
  by (simp add: check_def resource_for_def resource_matches_def sign_with_def Let_def sample_grant_def)

lemma sample_session_never_writes:
  "check ideal_externals (sign_with ideal_externals 5 sample_grant) res Write now \<noteq> Inr ()"
  by (auto simp: check_def resource_matches_def sign_with_def Let_def sample_grant_def rbind_def ok_or_def split: sum.splits)

text \<open>C13, a reader of repository \<open>a\<close> asks for its storyline in an empty sealing store.\<close>

theorem no_success_without_audit_witness:
  "\<exists>v w'. tools_call ideal_externals (fixed_request JNull) sample_session
       (JObj [(''name'', JStr ''memory.recall''), (''arguments'', JObj [(''repo'', JStr ''a'')])])
       (new_world (new_encrypted kv_new)) = (Inr v, w') \<and>
     json_get ''isError'' v = Some (JBool False) \<and> (\<exists>r \<in> set (ac_records (mw_chain w')). ar_actor r = ''agent'')"
proof -
  let ?X = ideal_externals and ?E = "fixed_request JNull" and ?s = "new_encrypted kv_new" and ?S = sample_session
  let ?params = "JObj [(''name'', JStr ''memory.recall''), (''arguments'', JObj [(''repo'', JStr ''a'')])]"
  obtain r w1 where auth: "authorize ?X ?E ?S Read ''a'' (''memory.recall budget='' @ decimal 15 @ '' in_flight='' @ bool_text False)
      (new_world ?s) = (r, w1)" by fastforce
  have r: "r = Inr ()" "mw_store w1 = ?s"
    using auth sample_session_reads
    by (auto simp: authorize_def sbind_def now_ms_def Let_def new_world_def decide_def new_server_def fixed_request_def
        audit_append_def append_record_eq new_chain_def split: prod.splits)
  have all: "all_nodes ?X ?s = Inr []"
    by (simp add: all_nodes_def kv_rd_def new_encrypted_def kv_iter_cf_def kv_read_def kv_new_def)
  have wm: "watermark_of ?X ideal_query ''a'' ?s = None"
    by (auto simp: watermark_of_def read_watermark_def ideal_query_def rbind_def map_err_def split: sum.splits option.splits)
  obtain res where res: "storyline ?X ideal_query new_recall ''a'' 15 ?s = Inr res" "rr_watermark res = None"
    by (simp add: storyline_def tenant_scan_def all in_flight_map_def canonical_reachable_def wm)
  obtain rendered where ren: "render_result ?X ?E res = Some rendered" by (simp add: render_result_def render_watermark_def res(2))
  have "tools_call ?X ?E ?S ?params (new_world ?s) = (Inr (tool_text rendered), w1)"
    using r auth res ren
    by (simp add: tools_call_def tool_handlers_def returning_def call_recall_def arg_str_def ok_or_def slift_def sbind_def Let_def
        arg_budget_def arg_usize_def MAX_BUDGET_def arg_bool_def authorize_read_def store_rd_def fixed_request_def
        with_in_flight_def new_recall_def or_panic_def)
  moreover have "json_get ''isError'' (tool_text rendered) = Some (JBool False)" by (simp add: tool_text_def tool_content_def)
  ultimately show ?thesis
    using no_success_without_audit [of ?X ?E ?S ?params "new_world ?s"]
    by (fastforce simp: new_world_def new_chain_def new_server_def sign_with_def Let_def sample_grant_def)
qed

text \<open>C12, a session with a read-only grant asserts into an empty sealing store, and no node appears.\<close>

theorem every_write_is_authorized_and_audited_witness:
  "\<exists>r S' w'. handle_line ideal_externals (fixed_request (JObj [(''id'', JNum ''1''), (''method'', JStr ''tools/call''),
       (''params'', JObj [(''name'', JStr ''memory.assert''),
          (''arguments'', JObj [(''repo'', JStr ''a''), (''content'', JStr ''hello'')])])])) []
       (with_query_embedder (\<lambda>_. Inr \<lparr>vv_model = ''m'', vv_data = [0]\<rparr>)
         (new_with_asserter (sign_with ideal_externals 5 sample_grant) (new_asserter ideal_externals 9)), new_world (new_encrypted kv_new)) =
       (r, S', w') \<and> (\<forall>nid. get_node ideal_externals nid (mw_store w') = Inr None)"
proof -
  let ?X = ideal_externals and ?s = "new_encrypted kv_new" and ?g = "sign_with ideal_externals 5 sample_grant"
  let ?req = "JObj [(''id'', JNum ''1''), (''method'', JStr ''tools/call''), (''params'', JObj [(''name'', JStr ''memory.assert''),
      (''arguments'', JObj [(''repo'', JStr ''a''), (''content'', JStr ''hello'')])])]"
  let ?E = "fixed_request ?req" 
    and ?S = "with_query_embedder (\<lambda>_. Inr \<lparr>vv_model = ''m'', vv_data = [0]\<rparr>) (new_with_asserter ?g (new_asserter ideal_externals 9))"
  obtain r S' w' where run: "handle_line ?X ?E [] (?S, new_world ?s) = (r, S', w')" by (metis prod.exhaust)
  have fresh: "\<forall>req. me_parse ?E [] = Inr req \<longrightarrow> diff_fresh ?X ?E (call_args (request_params req)) (mw_store (new_world ?s))"
    by (auto simp: diff_fresh_def args_diff_def fixed_request_def bind_eq_Some_conv)
  have emb: "\<forall>txt v. embedder_of ?X ?E ?S txt = Inr v \<longrightarrow> list_all f32_finite (vv_data v)"
    by (auto simp: embedder_of_def with_query_embedder_def f32_finite_def f32_magnitude_def)
  have "\<not> write_recorded ?X ?E ?S [] (new_world ?s) w' repo" for repo
    using sample_session_never_writes
    by (auto simp: write_recorded_def authorized_in_def decide_def rbind_def new_with_asserter_def with_query_embedder_def
        dest!: request_context_session(1) split: sum.splits)
  with every_write_is_authorized_and_audited [OF ideal_externals_ok _ fresh emb run]
  have "\<forall>nid m. \<not> (get_node ?X nid ?s = Inr None \<and> get_node ?X nid (mw_store w') = Inr (Some m))" "store_ok ?X (mw_store w')"
    by (auto simp: new_world_def)
  moreover have "get_node ?X nid ?s = Inr None" for nid
    by (simp add: get_node_def kv_rd_def new_encrypted_def kv_get_def kv_read_def kv_new_def)
  ultimately have "get_node ?X nid (mw_store w') = Inr None" for nid
    by (simp add: get_node_eq)
  with run show ?thesis by blast
qed

end
