(* ===== verification/Mcp_Session.thy ===== *)
theory Mcp_Session
  imports Mcp_Safety
begin

text \<open>
  Sessions of the MCP server: what a request leaves behind, what the catalogue of tools promises, who
  may confirm an edge that contests a node, and what a refused merge tells.
\<close>

section \<open>Requests and the session\<close>

lemma request_context_idle:
  assumes "ms_req_grant S = None" "ms_req_trace S = None" "request_context X E S params = Inr (S2, b)"
  shows "(if b then S2\<lparr>ms_req_grant := None\<rparr> else S2)\<lparr>ms_req_trace := None\<rparr> = S"
  using assms by (auto simp: request_context_def Let_def rbind_def split: sum.splits option.splits)

lemma handle_line_idle:
  assumes idle: "ms_req_grant S = None" "ms_req_trace S = None" and run: "handle_line X E line (S, w) = (Some a, S', w')"
  shows "S' = S"
proof (cases "me_parse E line")
  case (Inl e)
  with run show ?thesis by (simp add: handle_line_def)
next
  case req: (Inr req)
  show ?thesis
  proof (cases "request_context X E S (request_params req)")
    case (Inl e)
    with run req idle show ?thesis by (cases e) (auto simp: handle_line_def Let_def)
  next
    case (Inr c)
    then obtain S2 b where c: "request_context X E S (request_params req) = Inr (S2, b)" by (cases c) simp
    with run req have "S' = (if b then S2\<lparr>ms_req_grant := None\<rparr> else S2)\<lparr>ms_req_trace := None\<rparr>"
      by (auto simp: handle_line_def Let_def split: prod.splits sum.splits mcp_exit.splits)
    with request_context_idle [OF idle c] show ?thesis by simp
  qed
qed

lemma serve_connection_idle:
  assumes "ms_req_grant S = None" "ms_req_trace S = None"
    and "serve_connection X E wr ls (S, w) = (e, out, S', w')" "e \<noteq> Panicked"
  shows "S' = S"
  using assms(3,4)
proof (induction ls arbitrary: w out)
  case (Cons l ls)
  show ?case
  proof (cases l)
    case (Inl m)
    with Cons.prems show ?thesis by simp
  next
    case (Inr line)
    obtain q S1 w1 where h: "handle_line X E line (S, w) = (q, S1, w1)" by (cases "handle_line X E line (S, w)")
    have S1: "S1 = S" if "q = Some a" for a using handle_line_idle [OF assms(1,2)] h that by simp
    show ?thesis
      using Cons.prems Cons.IH S1 h Inr
      by (auto split: if_splits option.splits prod.splits)
  qed
qed simp

text \<open>A request can narrow the authority of its session for itself and never widen it or leave
  anything behind: after any sequence of messages the session is as it was; a grant presented
  in a request is used only if its signature verifies under the issuer key of the session
  grant and it names the same principal, and then an operation is allowed exactly when both
  grants allow it; any other presented grant is answered with an error and nothing happens.\<close>

theorem request_grants_only_narrow:
  assumes "ms_req_grant S = None" "ms_req_trace S = None"
  shows "(\<forall>e out S' w'. serve_connection X E wr ls (S, w) = (e, out, S', w') \<and> e \<noteq> Panicked \<longrightarrow> S' = S) \<and>
    (\<forall>params raw. Option.bind (json_get ''_meta'' params) (json_get GRANT_META_KEY) = Some raw \<longrightarrow>
       (case request_context X E S params of
          Inr (S2, b) \<Rightarrow> \<exists>g. me_grant E raw = Inr g \<and> verify_signature X g = Inr () \<and>
            cg_issuer_pubkey g = cg_issuer_pubkey (ms_grant S) \<and> cg_recipient g = cg_recipient (ms_grant S) \<and>
            (\<forall>res operation now. decide X S2 res operation now = Inr () \<longleftrightarrow>
               check X (ms_grant S) res operation now = Inr () \<and> check X g res operation now = Inr ())
        | Inl (code, msg) \<Rightarrow> \<forall>line req. me_parse E line = Inr req \<and> request_params req = params \<longrightarrow>
            handle_line X E line (S, w) = (Some (map_option (\<lambda>i. err_response E i code msg) (json_get ''id'' req)), S, w)))"
proof (intro conjI allI impI)
  fix e out S' w'
  assume "serve_connection X E wr ls (S, w) = (e, out, S', w') \<and> e \<noteq> Panicked"
  then show "S' = S" using serve_connection_idle [OF assms] by blast
next
  fix params raw
  assume raw: "Option.bind (json_get ''_meta'' params) (json_get GRANT_META_KEY) = Some raw"
  show "case request_context X E S params of
      Inr (S2, b) \<Rightarrow> \<exists>g. me_grant E raw = Inr g \<and> verify_signature X g = Inr () \<and>
        cg_issuer_pubkey g = cg_issuer_pubkey (ms_grant S) \<and> cg_recipient g = cg_recipient (ms_grant S) \<and>
        (\<forall>res operation now. decide X S2 res operation now = Inr () \<longleftrightarrow>
           check X (ms_grant S) res operation now = Inr () \<and> check X g res operation now = Inr ())
    | Inl (code, msg) \<Rightarrow> \<forall>line req. me_parse E line = Inr req \<and> request_params req = params \<longrightarrow>
        handle_line X E line (S, w) = (Some (map_option (\<lambda>i. err_response E i code msg) (json_get ''id'' req)), S, w)"
  proof (cases "request_context X E S params")
    case (Inl e)
    then show ?thesis using assms by (cases e) (auto simp: handle_line_def Let_def)
  next
    case (Inr c)
    then obtain S2 b where c: "request_context X E S params = Inr (S2, b)" by (cases c) simp
    obtain g where g: "request_grant X E S (json_get ''_meta'' params) = Inr (Some g)" "me_grant E raw = Inr g"
      "verify_signature X g = Inr ()" "cg_issuer_pubkey g = cg_issuer_pubkey (ms_grant S)" "cg_recipient g = cg_recipient (ms_grant S)"
      using c by (auto simp: request_context_def request_grant_def raw Let_def split: sum.splits if_splits)
    then have "ms_grant S2 = ms_grant S" "ms_req_grant S2 = Some g" using c by (auto simp: request_context_def Let_def)
    then have "decide X S2 res operation now = Inr () \<longleftrightarrow>
        check X (ms_grant S) res operation now = Inr () \<and> check X g res operation now = Inr ()" for res operation now
      by (auto simp: decide_def rbind_def split: sum.splits)
    with g c show ?thesis by auto
  qed
qed


section \<open>The catalogue\<close>

definition catalogue :: "(json option \<times> json option \<times> json option \<times> json option) list" where
  "catalogue = (case json_get ''tools'' tools_list of
     Some (JArr ts) \<Rightarrow> map (\<lambda>t. (json_get ''name'' t, Option.bind (json_get ''inputSchema'' t) (json_get ''required''),
       Option.bind (json_get ''inputSchema'' t) (json_get ''$schema''),
       Option.bind (json_get ''inputSchema'' t) (json_get ''additionalProperties''))) ts
   | _ \<Rightarrow> [])"

abbreviation advertised :: "string \<Rightarrow> string list \<Rightarrow> json option \<times> json option \<times> json option \<times> json option" where
  "advertised name required \<equiv> (Some (JStr name), Some (JArr (map JStr required)), Some (JStr JSON_SCHEMA_2020_12), Some (JBool False))"

definition required_args :: "(string \<times> string list) list" where
  "required_args = [(''memory.recall'', [''repo'']), (''memory.search'', [''repo'', ''query'']),
     (''memory.neighbors'', [''repo'', ''id_prefix'']), (''memory.as_of'', [''repo'', ''as_of_ms'']),
     (''memory.verify'', [''repo'', ''id_prefix'']), (''memory.critique'', [''repo'']),
     (''memory.analogy'', [''repo'', ''id_prefix'']), (''memory.propose_edge'', [''from_prefix'', ''to_prefix'']),
     (''memory.confirm_edge'', [''from_prefix'', ''to_prefix'']), (''memory.assert'', [''repo'', ''content'']),
     (''memory.merge_diff'', [''diff''])]"

lemma catalogue_eval: "catalogue = map (\<lambda>(name, required). advertised name required) required_args"
  by code_simp

lemma required_names: "set (map fst required_args) = set (map fst tool_handlers)" "length required_args = length tool_handlers"
  by (simp_all add: required_args_def tool_handlers_def insert_commute)

definition rejects :: "json tool \<Rightarrow> bool" where
  "rejects m \<longleftrightarrow> (\<forall>w. \<exists>msg. m w = (Inl (Rpc (-32602) msg), w))"

lemma rejects_arg: "json_get k args = None \<Longrightarrow> rejects (sbind (slift (arg_str args k)) f)"
  by (simp add: rejects_def arg_str_def ok_or_def slift_def sbind_def)

lemma rejects_later: "(\<And>x. rejects (f x)) \<Longrightarrow> rejects (sbind (slift (arg_str args k)) f)"
  by (auto simp: rejects_def arg_str_def ok_or_def slift_def sbind_def split: option.splits)

lemma rejects_int: "json_get k args = None \<Longrightarrow> rejects (sbind (slift (ok_or (Rpc (-32602) m) (Option.bind (json_get k args) g))) f)"
  by (simp add: rejects_def ok_or_def slift_def sbind_def)

lemma rejects_one:
  "json_get ''repo'' args = None \<Longrightarrow> rejects (call_recall X E S args)"
  "json_get ''repo'' args = None \<Longrightarrow> rejects (call_critique X E S args)"
  "json_get ''diff'' args = None \<Longrightarrow> rejects (call_merge_diff X E S args)"
  unfolding call_recall_def call_critique_def call_merge_diff_def
  by (rule rejects_arg, assumption)+

lemma rejects_search: "json_get ''repo'' args = None \<or> json_get ''query'' args = None \<Longrightarrow> rejects (call_search X E S args)"
  unfolding call_search_def by (elim disjE) (rule rejects_arg, assumption, rule rejects_later, rule rejects_arg)

lemma rejects_neighbors: "json_get ''repo'' args = None \<or> json_get ''id_prefix'' args = None \<Longrightarrow> rejects (call_neighbors X E S args)"
  unfolding call_neighbors_def by (elim disjE) (rule rejects_arg, assumption, rule rejects_later, rule rejects_arg)

lemma rejects_verify: "json_get ''repo'' args = None \<or> json_get ''id_prefix'' args = None \<Longrightarrow> rejects (call_verify X E S args)"
  unfolding call_verify_def by (elim disjE) (rule rejects_arg, assumption, rule rejects_later, rule rejects_arg)

lemma rejects_analogy: "json_get ''repo'' args = None \<or> json_get ''id_prefix'' args = None \<Longrightarrow> rejects (call_analogy X E S args)"
  unfolding call_analogy_def by (elim disjE) (rule rejects_arg, assumption, rule rejects_later, rule rejects_arg)

lemma rejects_propose_edge: "json_get ''from_prefix'' args = None \<or> json_get ''to_prefix'' args = None \<Longrightarrow> rejects (call_propose_edge X E S args)"
  unfolding call_propose_edge_def by (elim disjE) (rule rejects_arg, assumption, rule rejects_later, rule rejects_arg)

lemma rejects_confirm_edge: "json_get ''from_prefix'' args = None \<or> json_get ''to_prefix'' args = None \<Longrightarrow> rejects (call_confirm_edge X E S args)"
  unfolding call_confirm_edge_def by (elim disjE) (rule rejects_arg, assumption, rule rejects_later, rule rejects_arg)

lemma rejects_assert: "json_get ''repo'' args = None \<or> json_get ''content'' args = None \<Longrightarrow> rejects (call_assert X E S args)"
  unfolding call_assert_def by (elim disjE) (rule rejects_arg, assumption, rule rejects_later, rule rejects_arg)

lemma rejects_as_of:
  "json_get ''repo'' args = None \<or> json_get ''as_of_ms'' args = None \<Longrightarrow> rejects (call_as_of X E S args)"
  unfolding call_as_of_def
  by (elim disjE) (rule rejects_arg, assumption, rule rejects_later, rule rejects_int)

lemmas tools_reject = rejects_one rejects_as_of rejects_search rejects_neighbors rejects_verify rejects_analogy rejects_propose_edge rejects_confirm_edge rejects_assert

lemma handlers_reject:
  assumes "(name, required) \<in> set required_args" "k \<in> set required" "json_get k args = None" "map_of tool_handlers name = Some h"
  shows "rejects (h X E S args)"
proof -
  have "\<forall>(name, required) \<in> set required_args. \<forall>k \<in> set required. json_get k args = None \<longrightarrow>
      rejects (the (map_of tool_handlers name) X E S args)"
    unfolding required_args_def by (simp add: tool_handlers_def tools_reject)
  with assms show ?thesis by fastforce
qed



section \<open>The second party\<close>

lemma promote_run:
  assumes "promote_proposal X E S a b m kind ks w = (r, w')"
  obtains "mw_store w' = mw_store w"
    | u v now q where "second_party X S a b kind m u = (Inr (), v)" "mw_store u = mw_store w"
        "confirm_edge X a b kind now (mw_store w) = (q, mw_store w')"
  using assms [unfolded promote_proposal_def]
proof (cases rule: sbind_run)
  case (1 e)
  with quiet_run [OF quiet_basic(8) 1(1)] that show thesis by simp
next
  case (2 x u)
  note u = quiet_run [OF quiet_basic(8) 2(1), THEN conjunct1]
  from 2(2) show thesis
  proof (cases rule: sbind_run)
    case (1 e)
    with quiet_run [OF second_party_quiet 1(1)] u that show thesis by simp
  next
    case (2 y v)
    note v = quiet_run [OF second_party_quiet 2(1), THEN conjunct1]
    obtain q where "confirm_edge X a b kind (me_now E (mw_tick v)) (mw_store w) = (q, mw_store w')"
      using 2(2) u v by (auto simp: sbind_def now_ms_def split: prod.splits)
    with 2(1) u that show thesis by simp
  qed
qed

lemma promote_changes:
  assumes X: "externals_ok X" and ok: "store_ok X (mw_store w)" and run: "promote_proposal X E S a b m kind ks w = (r, w')"
    and ch: "edge_view X (mw_store w') (edge_key e) \<noteq> edge_view X (mw_store w) (edge_key e)"
  shows "e_from e = a \<and> e_to e = b \<and> e_kind e = kind \<and> (\<exists>u v. second_party X S a b kind m u = (Inr (), v) \<and> mw_store u = mw_store w)"
proof -
  let ?s = "mw_store w"
  from run ch obtain u v now q where sp: "second_party X S a b kind m u = (Inr (), v)" "mw_store u = ?s"
      and q: "confirm_edge X a b kind now ?s = (q, mw_store w')"
    by (auto elim: promote_run)
  have "e_from e = a \<and> e_to e = b \<and> e_kind e = kind"
    using confirm_edge_cases [OF ok q]
  proof (elim disjE conjE exE)
    fix d p
    assume d: "e_from d = a" "e_to d = b" "e_kind d = kind" and step: "if kind = Supersedes
        then \<exists>q. apply_supersession X (confirmed_form d now) ?s = (q, mw_store w') \<and> p = rbind q (\<lambda>_. Inr ())
        else \<exists>q. add_edge X (confirmed_form d now) ?s = (q, mw_store w') \<and> p = map_err StoreErr q"
    let ?P = "\<lambda>it. case it of INode _ \<Rightarrow> True | IEdge x \<Rightarrow> edge_key x = edge_key d"
    have pe: "?P (IEdge (confirmed_form d now))" by simp
    have "allowed_effect X ?P ?s (mw_store w')"
      using step allowed_add_edge [where P = ?P, OF X allowed_refl [OF ok] pe]
        allowed_supersession [where P = ?P, OF X allowed_refl [OF ok] pe]
      by (auto split: if_splits)
    then have "edge_key e = edge_key d" using allowed_protects(2) [of X ?P ?s "mw_store w'" "edge_key e"] ch by force
    from edge_ends [OF this] d show ?thesis by simp
  qed (use ch in simp_all)
  with sp show ?thesis by blast
qed


lemma quiet_step:
  assumes "sbind m f w = (r, w')" "quiet m"
  obtains "mw_store w' = mw_store w" | x u where "m w = (Inr x, u)" "mw_store u = mw_store w" "f x u = (r, w')"
  using assms by (elim sbind_run) (auto dest!: quiet_run)

lemma slift_bind_value: "sbind (slift (Inr x)) f = f x" "sbind (slift (Inl e)) f = serr e"
  by (rule ext, simp add: sbind_def slift_def serr_def)+

lemma edge_tool_run:
  assumes ok: "store_ok X (mw_store w)" and run: "sbind (resolve_or_hide X E S p) (\<lambda>(a, n). sbind (resolve_or_hide X E S q) (\<lambda>(b, m).
      sbind (authorize_writes X E S {n_repo n, n_repo m} d) (T a n b m))) w = (r, w')"
  obtains "mw_store w' = mw_store w"
    | u a n b m x where "T a n b m x u = (r, w')" "mw_store u = mw_store w" "node_view X (mw_store w) b = Some m"
proof (rule quiet_step [OF run resolve_or_hide_rules(1)])
  fix y :: "content_hash \<times> memory_node" and u1 :: mcp_world
  assume u1: "mw_store u1 = mw_store w"
  obtain a n where y: "y = (a, n)" by (cases y)
  assume "(case y of (a, n) \<Rightarrow> sbind (resolve_or_hide X E S q) (\<lambda>(b, m).
      sbind (authorize_writes X E S {n_repo n, n_repo m} d) (T a n b m))) u1 = (r, w')"
  then have run1: "sbind (resolve_or_hide X E S q) (\<lambda>(b, m). sbind (authorize_writes X E S {n_repo n, n_repo m} d) (T a n b m)) u1 = (r, w')"
    by (simp add: y)
  show thesis
  proof (rule quiet_step [OF run1 resolve_or_hide_rules(1)])
    fix z :: "content_hash \<times> memory_node" and u2 :: mcp_world
    assume z': "resolve_or_hide X E S q u1 = (Inr z, u2)" and u2: "mw_store u2 = mw_store u1"
    obtain b m where z: "z = (b, m)" by (cases z)
    assume "(case z of (b, m) \<Rightarrow> sbind (authorize_writes X E S {n_repo n, n_repo m} d) (T a n b m)) u2 = (r, w')"
    then have run2: "sbind (authorize_writes X E S {n_repo n, n_repo m} d) (T a n b m) u2 = (r, w')" by (simp add: z)
    have "node_view X (mw_store w) b = Some m" using resolve_or_hide_run [OF z' [unfolded z]] u1 ok by simp
    with u1 u2 that show thesis by (auto intro: quiet_step [OF run2 authorize_writes_rules(1)])
  qed (use u1 that(1) in simp)
qed (rule that(1))

lemma confirm_run:
  assumes ok: "store_ok X (mw_store w)" and run: "call_confirm_edge X E S args w = (r, w')"
  obtains "mw_store w' = mw_store w"
    | u a b m kind ks where "promote_proposal X E S a b m kind ks u = (r, w')" "mw_store u = mw_store w"
        "node_view X (mw_store w) b = Some m"
proof (cases "mw_store w' = mw_store w")
  case False
  let ?ks = "arg_str_or args ''kind'' ''analogous_to''"
  from run False obtain p q kind where "sbind (resolve_or_hide X E S p) (\<lambda>(a, n). sbind (resolve_or_hide X E S q) (\<lambda>(b, m).
      sbind (authorize_writes X E S {n_repo n, n_repo m} (''memory.confirm_edge '' @ ?ks))
        (\<lambda>_. promote_proposal X E S a b m kind ?ks))) w = (r, w')"
    unfolding call_confirm_edge_def
    by (cases "arg_str args ''from_prefix''"; cases "arg_str args ''to_prefix''"; cases "edge_kind_from_str ?ks")
      (auto simp: slift_bind_value early_def serr_def Let_def)
  from edge_tool_run [OF ok this] False that(2) show thesis by (metis (no_types, lifting))
qed (rule that(1))

lemma second_party_passed:
  assumes ok: "store_ok X (mw_store u)" and sp: "second_party X S a b kind m u = (Inr (), v)" and k: "needs_second_party kind"
    and e: "edge_view X (mw_store u) (edge_key e) = Some e" "e_from e = a" "e_to e = b" "e_kind e = kind"
  shows "\<exists>as. ms_asserter S = Some as \<and> (as_pubkey_hex as = n_author m \<or>
    as_pubkey_hex as \<noteq> p_asserter (e_provenance e) \<and>
    (\<exists>x. get_meta X (inserted_by_key e) (mw_store u) = Inr (Some x) \<and> utf8_valid x \<and> of_bytes x \<noteq> as_pubkey_hex as))"
proof -
  obtain es where es: "out_edges X a (mw_store u) = Inr es" by (rule out_edges_spec [OF ok])
  have "List.find (\<lambda>x. e_to x = b \<and> e_kind x = kind) es = Some e"
    using find_edge [OF ok, of e es] es e by simp
  with sp k es obtain i where i: "may_confirm (map_option as_pubkey_hex (ms_asserter S)) (n_author m) (Some e) i"
      "\<exists>x. get_meta X (inserted_by_key e) (mw_store u) = Inr x \<and> i = Option.bind x from_utf8_ok"
    by (auto simp: second_party_def sbind_def store_rd_def map_err_def Let_def sok_def early_def serr_def
        split: sum.splits prod.splits if_splits)
  then show ?thesis
    by (auto simp: may_confirm_def from_utf8_ok_def bind_eq_Some_conv split: option.splits if_splits)
qed

text \<open>C14. An edge that contests a node needs a second party: \<^verbatim>\<open>memory.confirm_edge\<close> leaves a stored Supersedes,
  Refutes or Contradicts edge as it is, unless the session has a signing key that is the key of
  the contested node's author, or that differs both from the key that signed the edge and from
  the recorded key that inserted it; with no recorded inserter only the author may.\<close>

theorem contested_edge_needs_second_party:
  assumes "externals_ok X" "store_ok X (mw_store w)" "call_confirm_edge X E S args w = (r, w')"
    and "stored_edge X e (mw_store w) = Inr (Some e)" "needs_second_party (e_kind e)"
    and "\<forall>m a. get_node X (e_to e) (mw_store w) = Inr (Some m) \<and> ms_asserter S = Some a \<longrightarrow>
      as_pubkey_hex a \<noteq> n_author m \<and> (as_pubkey_hex a = p_asserter (e_provenance e) \<or>
        (\<forall>x. get_meta X (inserted_by_key e) (mw_store w) = Inr (Some x) \<and> utf8_valid x \<longrightarrow> of_bytes x = as_pubkey_hex a))"
  shows "stored_edge X e (mw_store w') = Inr (Some e)"
proof (rule ccontr)
  assume ch: "stored_edge X e (mw_store w') \<noteq> Inr (Some e)"
  note ok = assms(2)
  have e: "edge_view X (mw_store w) (edge_key e) = Some e" using assms(4) by (simp add: stored_edge_eq [OF ok])
  from ok assms(3) show False
  proof (cases rule: confirm_run)
    case 1
    with assms(4) ch show ?thesis by simp
  next
    case (2 u a b m kind ks)
    have ok': "store_ok X (mw_store w')"
      using edge_tools_guarded(2) [OF assms(1), of E S "\<lambda>_. True" args] ok assms(3)
      unfolding guarded_def writes_covered_def by (meson allowed_ok)
    have "edge_view X (mw_store w') (edge_key e) \<noteq> edge_view X (mw_store u) (edge_key e)"
      using ch e 2(2) by (simp add: stored_edge_eq [OF ok'])
    then have c: "e_from e = a" "e_to e = b" "e_kind e = kind" "\<exists>z v. second_party X S a b kind m z = (Inr (), v) \<and> mw_store z = mw_store u"
      using promote_changes [OF assms(1) _ 2(1), of e] ok 2(2) by auto
    then obtain z v where z: "second_party X S a b kind m z = (Inr (), v)" "mw_store z = mw_store w" using 2(2) by auto
    have "get_node X (e_to e) (mw_store w) = Inr (Some m)" using 2(3) c(2) by (simp add: get_node_eq [OF ok])
    with second_party_passed [OF _ z(1) _ _ c(1-3)] ok e assms(5,6) c(3) z(2) show ?thesis by auto
  qed
qed

section \<open>What a refused merge tells\<close>

lemma sbind_stops: "m u = (Inl e, u') \<Longrightarrow> sbind m f u = (Inl e, u')"
  and sbind_goes: "m u = (Inr x, u') \<Longrightarrow> sbind m f u = f x u'"
  by (simp_all add: sbind_def)

text \<open>A refused \<^verbatim>\<open>memory.merge_diff\<close> tells the caller about nodes it may not read: a diff whose only edge runs
  from a hash to itself is refused as referencing an unknown node when nothing is stored under
  that hash, and as lacking a right on \<^verbatim>\<open>repo:<name>/memory\<close>, with the name of the repository, when
  a node of a repository outside the session's grant is.\<close>

theorem refused_merge_names_hidden_tenant:
  assumes diff: "me_diff E j = Inr diff" "md_nodes diff = []" "md_edges diff = [e]" "e_from e = h" "e_to e = h"
    and args: "json_get ''diff'' args = Some (JStr j)" "length j \<le> MAX_DIFF_BYTES"
    and hidden: "get_node X h (mw_store w) = Inr (Some n)"
      "check X (ms_grant S) (resource_for (n_repo n)) Write (me_now E (mw_tick w)) = Inl (ResourceDenied (resource_for (n_repo n)))"
    and log: "\<not> mw_audit_poisoned w" "\<not> ac_sink (mw_chain w)"
    and none: "get_node X h (mw_store v) = Inr None"
  shows "fst (call_merge_diff X E S args w) =
      Inl (Early (tool_error (''authorization denied: resource not in grant scope: repo:'' @ n_repo n @ ''/memory''))) \<and>
    fst (call_merge_diff X E S args v) =
      Inl (Early (tool_error (''edge references unknown node '' @ short_id X 12 h @ ''; cannot authorize'')))"
proof -
  have call: "call_merge_diff X E S args u = merge_authorized X E S diff u" for u
    using diff args by (simp add: call_merge_diff_def arg_str_def ok_or_def slift_bind_value MAX_DIFF_NODES_def MAX_DIFF_EDGES_def)
  have repos: "diff_repos X diff w = (Inr {n_repo n}, w)"
    by (simp add: diff_repos_def edge_endpoint_repo_def diff hidden(1) sbind_def store_rd_def map_err_def)
  obtain w1 where auth: "authorize X E S Write (n_repo n) (''memory.merge_diff '' @ diff_size diff) w =
      (Inl (Early (tool_error (''authorization denied: '' @ authz_error_text (ResourceDenied (resource_for (n_repo n)))))), w1)"
    using hidden(2) log
    by (simp add: authorize_def sbind_def now_ms_def Let_def decide_def audit_append_def append_record_eq split: prod.splits)
  have "fst (merge_authorized X E S diff w) =
      Inl (Early (tool_error (''authorization denied: '' @ authz_error_text (ResourceDenied (resource_for (n_repo n))))))"
    unfolding merge_authorized_def sbind_goes [where m = "diff_repos X diff" and u = w, OF repos] authorize_single
      sbind_stops [where m = "authorize X E S Write (n_repo n) (''memory.merge_diff '' @ diff_size diff)" and u = w, OF auth]
    by (simp only: fst_conv)
  then have w: "fst (call_merge_diff X E S args w) =
      Inl (Early (tool_error (''authorization denied: resource not in grant scope: repo:'' @ n_repo n @ ''/memory'')))"
    by (simp add: call resource_for_def)
  have none': "diff_repos X diff v = (Inl (Early (tool_error (''edge references unknown node '' @ short_id X 12 h @ ''; cannot authorize''))), v)"
    by (simp add: diff_repos_def edge_endpoint_repo_def diff none sbind_def store_rd_def map_err_def early_def)
  have "fst (call_merge_diff X E S args v) =
      Inl (Early (tool_error (''edge references unknown node '' @ short_id X 12 h @ ''; cannot authorize'')))"
    unfolding call merge_authorized_def sbind_stops [where m = "diff_repos X diff" and u = v, OF none'] by (simp only: fst_conv)
  with w show ?thesis by blast
qed

section \<open>Concrete sessions\<close>

text \<open>A request that brings a grant signed by a stranger.\<close>

theorem request_grants_only_narrow_witness:
  "handle_line ideal_externals (fixed_request (JObj [(''id'', JNum ''1''), (''method'', JStr ''ping''),
       (''params'', JObj [(''_meta'', JObj [(GRANT_META_KEY, JNull)])])])) [] (sample_session, new_world (new kv_new)) =
     (Some (Some ''{}''), sample_session, new_world (new kv_new))"
proof -
  let ?X = ideal_externals and ?g = "sign_with ideal_externals 5 sample_grant" and ?h = "sign_with ideal_externals 6 sample_grant"
  let ?req = "JObj [(''id'', JNum ''1''), (''method'', JStr ''ping''), (''params'', JObj [(''_meta'', JObj [(GRANT_META_KEY, JNull)])])]"
  let ?params = "JObj [(''_meta'', JObj [(GRANT_META_KEY, JNull)])]"
  let ?E = "fixed_request ?req" and ?w = "new_world (new kv_new)"
  have "cg_issuer_pubkey ?h \<noteq> cg_issuer_pubkey ?g"
    by (simp add: sign_with_def Let_def ideal_externals_def hash_bytes_inject)
  then have rej: "request_context ?X ?E sample_session ?params =
      Inl (GRANT_REJECTED, ''grant rejected: issuer is not the trusted grant root'')"
    using sign_with_verifies [OF ideal_ed25519_ok, of 6 sample_grant]
    by (simp add: request_context_def request_grant_def fixed_request_def new_server_def)
  have idle: "ms_req_grant sample_session = None" "ms_req_trace sample_session = None" by (simp_all add: new_server_def)
  have raw: "Option.bind (json_get ''_meta'' ?params) (json_get GRANT_META_KEY) = Some JNull" by simp
  have line: "me_parse ?E [] = Inr ?req \<and> request_params ?req = ?params" by (simp add: fixed_request_def request_params_def)
  note H = request_grants_only_narrow [OF idle, of ?X ?E "\<lambda>_. None" "[]" ?w, THEN conjunct2, rule_format, OF raw]
  have "\<forall>line req. me_parse ?E line = Inr req \<and> request_params req = ?params \<longrightarrow> handle_line ?X ?E line (sample_session, ?w) =
      (Some (map_option (\<lambda>i. err_response ?E i GRANT_REJECTED ''grant rejected: issuer is not the trusted grant root'') (json_get ''id'' req)),
       sample_session, ?w)"
    using H by (simp only: rej sum.case prod.case)
  from this [rule_format, OF line]
  have "handle_line ?X ?E [] (sample_session, ?w) =
      (Some (map_option (\<lambda>i. err_response ?E i GRANT_REJECTED ''grant rejected: issuer is not the trusted grant root'') (json_get ''id'' ?req)),
       sample_session, ?w)" .
  then show ?thesis by (simp add: err_response_def print_or_default_def fixed_request_def)
qed


text \<open>C14, a session without a signing key on a stored proposal to refute a node.\<close>

theorem contested_edge_needs_second_party_witness:
  "\<exists>s r w'. let e = sample_edge\<lparr>e_kind := Refutes, e_quarantined := True\<rparr> in
     stored_edge ideal_externals e s = Inr (Some e) \<and>
     call_confirm_edge ideal_externals (fixed_request JNull) sample_session
       (JObj [(''from_prefix'', JStr ''0''), (''to_prefix'', JStr ''0''), (''kind'', JStr ''refutes'')]) (new_world s) = (r, w') \<and>
     stored_edge ideal_externals e (mw_store w') = Inr (Some e)"
proof -
  let ?X = ideal_externals and ?e = "sample_edge\<lparr>e_kind := Refutes, e_quarantined := True\<rparr>"
  have "\<not> ds_encrypt (new kv_new)" by (simp add: new_def)
  then obtain s where s: "add_edge ?X ?e (new kv_new) = (Inr (), s)"
    using add_edge_plain_total [OF ideal_externals_ok ideal_externals_total new_store_ok] by blast
  have "edge_view ?X (new kv_new) = Map.empty" by (auto simp: row_view_def new_def)
  then have "\<not> demoting ?X (new kv_new) ?e" by (simp add: demoting_def)
  then have ok: "store_ok ?X s" and e: "stored_edge ?X ?e s = Inr (Some ?e)"
    using add_edge_effect [OF ideal_externals_ok new_store_ok s] by (auto simp: effect_def stored_edge_eq)
  let ?args = "JObj [(''from_prefix'', JStr ''0''), (''to_prefix'', JStr ''0''), (''kind'', JStr ''refutes'')]"
  obtain r w' where run: "call_confirm_edge ?X (fixed_request JNull) sample_session ?args (new_world s) = (r, w')" by fastforce
  have "stored_edge ?X ?e (mw_store w') = Inr (Some ?e)"
    using contested_edge_needs_second_party [OF ideal_externals_ok _ run, of ?e] ok e
    by (simp add: new_world_def needs_second_party_def new_server_def)
  with e run show ?thesis unfolding Let_def by blast
qed

text \<open>A reader of repository \<open>a\<close> probes for a node of another repository.\<close>

theorem refused_merge_names_hidden_tenant_witness:
  "\<exists>E s n. get_node ideal_externals (node_id ideal_externals sample_node) s = Inr (Some n) \<and>
     fst (call_merge_diff ideal_externals E sample_session (JObj [(''diff'', JStr [])]) (new_world s)) =
       Inl (Early (tool_error (''authorization denied: resource not in grant scope: repo:'' @ n_repo n @ ''/memory''))) \<and>
     fst (call_merge_diff ideal_externals E sample_session (JObj [(''diff'', JStr [])]) (new_world (new kv_new))) \<noteq>
       fst (call_merge_diff ideal_externals E sample_session (JObj [(''diff'', JStr [])]) (new_world s))"
proof (rule sample_stored)
  let ?X = ideal_externals and ?h = "node_id ideal_externals sample_node"
  fix s
  assume got: "get_node ?X ?h s = Inr (Some sample_node)"
  let ?e = "sample_edge\<lparr>e_to := ?h\<rparr>"
  let ?diff = "\<lparr>md_author = [], md_created_at_ms = 0, md_nodes = [], md_edges = [?e]\<rparr>"
  let ?E = "(fixed_request JNull)\<lparr>me_diff := \<lambda>_. Inr ?diff\<rparr>"
  have diff: "me_diff ?E [] = Inr ?diff" "md_nodes ?diff = []" "md_edges ?diff = [?e]" "e_from ?e = ?h" "e_to ?e = ?h"
    by (simp_all add: sample_edge_def)
  have "verify_signature ?X (sign_with ?X 5 sample_grant) = Inr ()" by (rule sign_with_verifies [OF ideal_ed25519_ok])
  then have den: "check ?X (ms_grant sample_session) (resource_for (n_repo sample_node)) Write (me_now ?E (mw_tick (new_world s))) =
      Inl (ResourceDenied (resource_for (n_repo sample_node)))"
    by (simp add: check_def new_server_def new_world_def fixed_request_def resource_matches_def sign_with_def Let_def sample_grant_def
        sample_node_def resource_for_def ok_or_def)
  have log: "\<not> mw_audit_poisoned (new_world s)" "\<not> ac_sink (mw_chain (new_world s))" by (simp_all add: new_world_def new_chain_def)
  have none: "get_node ?X ?h (mw_store (new_world (new kv_new))) = Inr None"
    by (simp add: new_world_def get_node_def kv_rd_def new_def kv_get_def kv_read_def kv_new_def)
  have "fst (call_merge_diff ?X ?E sample_session (JObj [(''diff'', JStr [])]) (new_world s)) =
      Inl (Early (tool_error (''authorization denied: resource not in grant scope: repo:'' @ n_repo sample_node @ ''/memory''))) \<and>
    fst (call_merge_diff ?X ?E sample_session (JObj [(''diff'', JStr [])]) (new_world (new kv_new))) =
      Inl (Early (tool_error (''edge references unknown node '' @ short_id ?X 12 ?h @ ''; cannot authorize'')))"
    by (rule refused_merge_names_hidden_tenant [OF diff _ _ _ den log none]) (simp_all add: new_world_def got)
  with got show ?thesis by (intro exI [of _ ?E] exI [of _ s] exI [of _ sample_node]) (simp add: tool_error_def tool_content_def)
qed

end
