(* ===== verification/Control.thy ===== *)
theory Control
  imports Grant Text
begin

text \<open>
  The gateway's control plane (\<^verbatim>\<open>crates/mem-gateway/src/control.rs\<close>): organisations and memberships
  with their file; the team allowlist (\<^verbatim>\<open>allowlist.rs\<close>); and the grant minted for a membership
  (\<^verbatim>\<open>auth.rs\<close>). The JSON of the two files is a parameter, and the file system is an explicit state
  with the outcome of each operation as an argument. Shown here: a save is atomic and reads
  back, and a minted grant holds exactly the authority of the membership.
\<close>

section \<open>Data\<close>

datatype control_error = ControlIo string | ControlParse string

datatype org_status = OrgActive | OrgSuspended

datatype role = OrgOwner | Admin | Member | ReadOnlyMember

fun can_administer :: "role \<Rightarrow> bool" where
  "can_administer OrgOwner = True"
| "can_administer Admin = True"
| "can_administer Member = False"
| "can_administer ReadOnlyMember = False"

record scope =
  sc_resource_id :: string
  sc_can_read :: bool
  sc_can_write :: bool

record org =
  og_id :: string
  og_name :: string
  og_created_at_ms :: u64
  og_store_path :: string
  og_status :: org_status

record membership =
  mb_sub :: string
  mb_org :: string
  mb_role :: role
  mb_scopes :: "scope list"
  mb_parent :: "string option"

record control =
  ct_orgs :: "org list"
  ct_memberships :: "membership list"

definition empty_control :: control where
  "empty_control = \<lparr>ct_orgs = [], ct_memberships = []\<rparr>"

section \<open>The control file\<close>

text \<open>The file and the temporary file beside it; the JSON of the control plane; and what the file
  system answers: an error of a read other than a missing file, of creating the directory, of
  writing the temporary file (with what the failed write leaves in it) and of the rename.\<close>

record control_disk =
  cd_live :: "string option"
  cd_tmp :: "string option"

record control_codec =
  cc_print :: "control \<Rightarrow> (string, string) result"
  cc_parse :: "string \<Rightarrow> (string, control) result"

record control_io =
  ci_read :: "string option"
  ci_mkdir :: "string option"
  ci_write :: "string option"
  ci_partial :: "string option"
  ci_rename :: "string option"

definition load_control :: "control_codec \<Rightarrow> control_io \<Rightarrow> control_disk \<Rightarrow> (control_error, control) result" where
  "load_control C io d =
     (case ci_read io of
        Some e \<Rightarrow> Inl (ControlIo e)
      | None \<Rightarrow>
          (case cd_live d of
             None \<Rightarrow> Inr empty_control
           | Some s \<Rightarrow> map_err ControlParse (cc_parse C s)))"

definition save_control :: "control_codec \<Rightarrow> control_io \<Rightarrow> control \<Rightarrow> (control_disk, control_error, unit) action" where
  "save_control C io c d =
     (case ci_mkdir io of
        Some e \<Rightarrow> (Inl (ControlIo e), d)
      | None \<Rightarrow>
          (case cc_print C c of
             Inl e \<Rightarrow> (Inl (ControlParse e), d)
           | Inr json \<Rightarrow>
               (case ci_write io of
                  Some e \<Rightarrow> (Inl (ControlIo e), d\<lparr>cd_tmp := ci_partial io\<rparr>)
                | None \<Rightarrow>
                    (case ci_rename io of
                       Some e \<Rightarrow> (Inl (ControlIo e), d\<lparr>cd_tmp := Some json\<rparr>)
                     | None \<Rightarrow> (Inr (), d\<lparr>cd_live := Some json, cd_tmp := None\<rparr>)))))"

section \<open>Orgs and memberships\<close>

definition find_org :: "string \<Rightarrow> control \<Rightarrow> org option" where
  "find_org oid c = List.find (\<lambda>o'. og_id o' = oid) (ct_orgs c)"

definition find_membership :: "string \<Rightarrow> string \<Rightarrow> control \<Rightarrow> membership option" where
  "find_membership sub oid c = List.find (\<lambda>m. mb_sub m = sub \<and> mb_org m = oid) (ct_memberships c)"

definition ensure_org :: "string \<Rightarrow> string \<Rightarrow> u64 \<Rightarrow> control \<Rightarrow> bool \<times> control" where
  "ensure_org oid store_path now_ms c =
     (if find_org oid c \<noteq> None then (False, c)
      else (True, c\<lparr>ct_orgs := ct_orgs c @ [\<lparr>og_id = oid, og_name = oid, og_created_at_ms = now_ms,
              og_store_path = store_path, og_status = OrgActive\<rparr>]\<rparr>))"

text \<open>\<^verbatim>\<open>iter_mut().find(p)\<close> followed by an update of what was found.\<close>

fun update_first :: "('a \<Rightarrow> bool) \<Rightarrow> ('a \<Rightarrow> 'a) \<Rightarrow> 'a list \<Rightarrow> 'a list" where
  "update_first p f [] = []"
| "update_first p f (x # xs) = (if p x then f x # xs else x # update_first p f xs)"

definition upsert_membership :: "string \<Rightarrow> string \<Rightarrow> role \<Rightarrow> control \<Rightarrow> bool \<times> control" where
  "upsert_membership sub oid r c =
     (case find_membership sub oid c of
        Some m \<Rightarrow>
          if mb_role m = r then (False, c)
          else (True, c\<lparr>ct_memberships := update_first (\<lambda>m. mb_sub m = sub \<and> mb_org m = oid)
                  (\<lambda>m. m\<lparr>mb_role := r\<rparr>) (ct_memberships c)\<rparr>)
      | None \<Rightarrow> (True, c\<lparr>ct_memberships := ct_memberships c @
            [\<lparr>mb_sub = sub, mb_org = oid, mb_role = r, mb_scopes = [], mb_parent = None\<rparr>]\<rparr>))"

definition upsert_membership_full :: "string \<Rightarrow> string \<Rightarrow> role \<Rightarrow> scope list \<Rightarrow> control \<Rightarrow> bool \<times> control" where
  "upsert_membership_full sub oid r scopes c =
     (case find_membership sub oid c of
        Some m \<Rightarrow>
          (mb_role m \<noteq> r \<or> mb_scopes m \<noteq> scopes,
           c\<lparr>ct_memberships := update_first (\<lambda>m. mb_sub m = sub \<and> mb_org m = oid)
                  (\<lambda>m. m\<lparr>mb_role := r, mb_scopes := scopes\<rparr>) (ct_memberships c)\<rparr>)
      | None \<Rightarrow> (True, c\<lparr>ct_memberships := ct_memberships c @
            [\<lparr>mb_sub = sub, mb_org = oid, mb_role = r, mb_scopes = scopes, mb_parent = None\<rparr>]\<rparr>))"

section \<open>The team allowlist\<close>

record allow_entry =
  ae_name :: "string option"
  ae_email :: "string option"
  ae_wallet :: "string option"
  ae_role :: role
  ae_scopes :: "scope list"

definition norm :: "string \<Rightarrow> string" where
  "norm s = to_ascii_lowercase (trim s)"

definition claimed_id :: "string option \<Rightarrow> string option" where
  "claimed_id x = (case map_option norm x of Some s \<Rightarrow> if s = [] then None else Some s | None \<Rightarrow> None)"

text \<open>The content of the allowlist file, when it can be read, and its JSON.\<close>

definition load_or_empty :: "(string \<Rightarrow> (string, allow_entry list) result) \<Rightarrow> string option \<Rightarrow> allow_entry list" where
  "load_or_empty parse file =
     (case file of None \<Rightarrow> [] | Some s \<Rightarrow> (case parse s of Inl _ \<Rightarrow> [] | Inr members \<Rightarrow> members))"

definition entry_hit :: "string option \<Rightarrow> string option \<Rightarrow> allow_entry \<Rightarrow> bool" where
  "entry_hit want_email want_wallet m \<longleftrightarrow>
     (want_email \<noteq> None \<and> claimed_id (ae_email m) = want_email) \<or>
     (want_wallet \<noteq> None \<and> claimed_id (ae_wallet m) = want_wallet)"

definition match_identity :: "allow_entry list \<Rightarrow> string option \<Rightarrow> bool \<Rightarrow> string option \<Rightarrow> allow_entry option" where
  "match_identity members email email_verified wallet =
     (let want_email = (if email_verified then claimed_id email else None);
          want_wallet = claimed_id wallet
      in if want_email = None \<and> want_wallet = None then None
         else List.find (entry_hit want_email want_wallet) members)"

section \<open>Minting a grant\<close>

definition signing_key_from_seed :: "externals \<Rightarrow> string \<Rightarrow> key256" where
  "signing_key_from_seed X seed = blake3 X (as_bytes seed)"

fun policy_for :: "role \<Rightarrow> policy_profile" where
  "policy_for OrgOwner = Maintainer"
| "policy_for Admin = Operator"
| "policy_for Member = Guided"
| "policy_for ReadOnlyMember = ReadOnly"

definition repo_resource :: "string \<Rightarrow> string" where
  "repo_resource tenant = ''repo:'' @ tenant @ ''/memory''"

definition normalize_resource :: "string \<Rightarrow> string" where
  "normalize_resource rid = (if rid = ''*'' \<or> strip_prefix ''repo:'' rid \<noteq> None then rid else repo_resource rid)"

definition resources_for :: "membership \<Rightarrow> resource_scope list" where
  "resources_for m =
     (case mb_role m of
        OrgOwner \<Rightarrow> [\<lparr>rs_resource_id = ''*'', rs_can_read = True, rs_can_write = True\<rparr>]
      | Admin \<Rightarrow> [\<lparr>rs_resource_id = ''*'', rs_can_read = True, rs_can_write = True\<rparr>]
      | Member \<Rightarrow> map (\<lambda>s. \<lparr>rs_resource_id = normalize_resource (sc_resource_id s),
          rs_can_read = sc_can_read s, rs_can_write = sc_can_write s\<rparr>) (mb_scopes m)
      | ReadOnlyMember \<Rightarrow> map (\<lambda>s. \<lparr>rs_resource_id = normalize_resource (sc_resource_id s),
          rs_can_read = sc_can_read s, rs_can_write = False\<rparr>) (mb_scopes m))"

definition saturating_add_u64 :: "u64 \<Rightarrow> u64 \<Rightarrow> u64" where
  "saturating_add_u64 a b = (if unat a + unat b < 2 ^ 64 then a + b else - 1)"

definition mint_grant :: "externals \<Rightarrow> key256 \<Rightarrow> string \<Rightarrow> membership \<Rightarrow> u64 \<Rightarrow> u64 \<Rightarrow> capability_grant" where
  "mint_grant X sk issuer m now_ms ttl_ms =
     sign_with X sk
       \<lparr>cg_id = ''gw:'' @ mb_org m @ '':'' @ decimal (unat now_ms), cg_issuer = issuer, cg_recipient = mb_sub m,
        cg_allowed_resources = resources_for m, cg_policy = policy_for (mb_role m),
        cg_expires_at_ms = saturating_add_u64 now_ms ttl_ms, cg_revoked = False,
        cg_delegation_chain = [], cg_issuer_pubkey = [], cg_signature = []\<rparr>"

section \<open>Lookups and updates\<close>

lemma find_update_first:
  assumes "\<And>x. p x \<Longrightarrow> p (f x)" "List.find p xs = Some x"
  shows "List.find p (update_first p f xs) = Some (f x)"
  using assms(2) by (induction xs) (auto simp: assms(1) split: if_splits)

lemma find_update_first_other:
  assumes "\<And>x. q x \<longleftrightarrow> q (f x)" "\<And>x. p x \<Longrightarrow> \<not> q x"
  shows "List.find q (update_first p f xs) = List.find q xs"
  by (induction xs) (use assms in auto)

lemma find_append: "List.find p (xs @ ys) = (case List.find p xs of None \<Rightarrow> List.find p ys | Some x \<Rightarrow> Some x)"
  by (induction xs) auto

lemma find_membership_sub: "find_membership sub oid c = Some m \<Longrightarrow> mb_sub m = sub \<and> mb_org m = oid"
  by (auto simp: find_membership_def find_Some_iff)

text \<open>An upsert sets the membership of its principal and no other one.\<close>

lemma upsert_membership_full_find:
  "find_membership s' o' (snd (upsert_membership_full sub oid r scopes c)) =
     (if s' = sub \<and> o' = oid
      then Some \<lparr>mb_sub = sub, mb_org = oid, mb_role = r, mb_scopes = scopes,
             mb_parent = Option.bind (find_membership sub oid c) mb_parent\<rparr>
      else find_membership s' o' c)"
proof (cases "find_membership sub oid c")
  case None
  then show ?thesis
    by (auto simp: upsert_membership_full_def find_membership_def find_append split: option.splits)
next
  case (Some m)
  let ?p = "\<lambda>m. mb_sub m = sub \<and> mb_org m = oid" and ?f = "\<lambda>m. m\<lparr>mb_role := r, mb_scopes := scopes\<rparr>"
  have "List.find ?p (update_first ?p ?f (ct_memberships c)) = Some (?f m)"
    by (rule find_update_first) (use Some in \<open>auto simp: find_membership_def\<close>)
  moreover have "List.find (\<lambda>m. mb_sub m = s' \<and> mb_org m = o') (update_first ?p ?f (ct_memberships c)) =
      List.find (\<lambda>m. mb_sub m = s' \<and> mb_org m = o') (ct_memberships c)" if "\<not> (s' = sub \<and> o' = oid)"
    by (rule find_update_first_other) (use that in auto)
  ultimately show ?thesis
    using Some find_membership_sub [OF Some]
    by (auto simp: upsert_membership_full_def find_membership_def)
qed

lemma match_identity_hit:
  assumes "match_identity members email verified wallet = Some entry"
  shows "entry \<in> set members \<and>
    ((verified \<and> claimed_id email \<noteq> None \<and> claimed_id (ae_email entry) = claimed_id email) \<or>
     (claimed_id wallet \<noteq> None \<and> claimed_id (ae_wallet entry) = claimed_id wallet))"
proof -
  from assms have "List.find (entry_hit (if verified then claimed_id email else None) (claimed_id wallet)) members = Some entry"
    by (auto simp: match_identity_def Let_def split: if_splits)
  then have "entry \<in> set members" "entry_hit (if verified then claimed_id email else None) (claimed_id wallet) entry"
    by (auto simp: find_Some_iff)
  then show ?thesis by (auto simp: entry_hit_def split: if_splits)
qed

section \<open>The control file is replaced as a whole\<close>

text \<open>Saving is all or nothing, wherever it stops: an error leaves the file that a load reads as it
  was, and a success makes the next load return the control plane that was saved.\<close>

theorem save_is_atomic:
  assumes "save_control C io c d = (r, d')" "\<forall>j. cc_print C c = Inr j \<longrightarrow> cc_parse C j = Inr c"
  shows "(\<forall>e io'. r = Inl e \<longrightarrow> load_control C io' d' = load_control C io' d) \<and>
    (\<forall>io'. r = Inr () \<and> ci_read io' = None \<longrightarrow> load_control C io' d' = Inr c)"
  using assms by (auto simp: save_control_def load_control_def split: option.splits sum.splits)

section \<open>What a minted grant allows\<close>

lemma unat_saturating_add: "unat (saturating_add_u64 a b) = min (unat a + unat b) (2 ^ 64 - 1)"
proof (cases "unat a + unat b < 2 ^ 64")
  case True
  then have "unat (a + b) = unat a + unat b" by (simp add: unat_word_ariths)
  with True show ?thesis by (simp add: saturating_add_u64_def)
next
  case False
  have "unat (- 1 :: u64) = 2 ^ 64 - 1" by (simp add: unsigned_minus_1_eq_mask mask_eq_exp_minus_1)
  with False show ?thesis by (simp add: saturating_add_u64_def)
qed

lemma check_ok:
  "check X g res operation t = Inr () \<longleftrightarrow>
     \<not> cg_revoked g \<and> t < cg_expires_at_ms g \<and> verify_signature X g = Inr () \<and>
     (\<exists>r. first_scope g res = Some r \<and> scope_allows r operation)"
proof (cases "cg_revoked g \<or> cg_expires_at_ms g \<le> t")
  case True
  then show ?thesis by (auto simp: check_def)
next
  case False
  then show ?thesis
    by (cases "verify_signature X g"; cases "first_scope g res")
      (auto simp: check_def first_scope_def scope_allows_def Let_def)
qed

lemma sign_with_fields [simp]:
  "cg_recipient (sign_with X sk g) = cg_recipient g" "cg_revoked (sign_with X sk g) = cg_revoked g"
  "cg_expires_at_ms (sign_with X sk g) = cg_expires_at_ms g"
  "cg_allowed_resources (sign_with X sk g) = cg_allowed_resources g"
  "first_scope (sign_with X sk g) res = first_scope g res"
  by (simp_all add: sign_with_def Let_def first_scope_def)

lemma find_map: "List.find p (map f xs) = map_option f (List.find (\<lambda>x. p (f x)) xs)"
  by (induction xs) auto

text \<open>The scope of a membership that decides about a resource is the first one that names it.\<close>

definition deciding_scope :: "membership \<Rightarrow> string \<Rightarrow> scope option" where
  "deciding_scope m res = List.find (\<lambda>s. resource_matches (normalize_resource (sc_resource_id s)) res) (mb_scopes m)"

definition may_do :: "membership \<Rightarrow> op \<Rightarrow> string \<Rightarrow> bool" where
  "may_do m operation res \<longleftrightarrow> can_administer (mb_role m) \<or>
     (\<exists>s. deciding_scope m res = Some s \<and>
        (case operation of Read \<Rightarrow> sc_can_read s | Write \<Rightarrow> mb_role m = Member \<and> sc_can_write s))"

lemma resources_for_decide:
  "(\<exists>r. List.find (\<lambda>r. resource_matches (rs_resource_id r) res) (resources_for m) = Some r \<and> scope_allows r operation) \<longleftrightarrow>
     may_do m operation res"
  by (cases "mb_role m"; cases operation)
    (auto simp: resources_for_def may_do_def deciding_scope_def find_map scope_allows_def resource_matches_def)

text \<open>The grant minted for a member holds exactly the authority of the membership, no more and
  no less, for exactly the time to live it was minted with: an owner or an administrator may do
  anything; any other member what the first of its scopes that names the resource allows, a
  read-only member never a write. It names the member as its recipient, and it verifies under
  the key of the gateway.\<close>

theorem minted_grant_is_the_membership:
  assumes "ed25519_ok X"
  shows "(check X (mint_grant X sk issuer m now ttl) res operation t = Inr () \<longleftrightarrow>
      unat t < min (unat now + unat ttl) (2 ^ 64 - 1) \<and> may_do m operation res) \<and>
    cg_recipient (mint_grant X sk issuer m now ttl) = mb_sub m \<and>
    verify_signature X (mint_grant X sk issuer m now ttl) = Inr ()"
proof -
  have v: "verify_signature X (mint_grant X sk issuer m now ttl) = Inr ()"
    unfolding mint_grant_def by (rule sign_with_verifies [OF assms])
  have "t < saturating_add_u64 now ttl \<longleftrightarrow> unat t < min (unat now + unat ttl) (2 ^ 64 - 1)"
    by (simp only: word_less_nat_alt unat_saturating_add)
  then show ?thesis
    using v by (simp add: check_ok mint_grant_def first_scope_def flip: resources_for_decide)
qed

text \<open>A member who may write one repository writes it.\<close>

theorem minted_grant_is_the_membership_witness:
  "check ideal_externals (mint_grant ideal_externals 5 ''gw'' \<lparr>mb_sub = ''ann'', mb_org = ''org'', mb_role = Member,
      mb_scopes = [\<lparr>sc_resource_id = ''chain'', sc_can_read = True, sc_can_write = True\<rparr>], mb_parent = None\<rparr> 10 60)
     ''repo:chain/memory'' Write 20 = Inr ()"
  by (subst conjunct1 [OF minted_grant_is_the_membership [OF ideal_ed25519_ok]])
    (simp add: may_do_def deciding_scope_def resource_matches_def normalize_resource_def repo_resource_def strip_prefix_def)

end
