(* ===== verification/Split.thy ===== *)
theory Split
  imports Text
begin

text \<open>
  Splitting of Rust strings at an ASCII separator, on UTF-8 bytes: \<^verbatim>\<open>split\<close>, \<^verbatim>\<open>splitn\<close>, \<^verbatim>\<open>split_once\<close>,
  \<^verbatim>\<open>rsplit_once\<close> and \<^verbatim>\<open>lines\<close>.
\<close>

fun split_char :: "char \<Rightarrow> string \<Rightarrow> string list" where
  "split_char c [] = [[]]"
| "split_char c (x # xs) =
     (if x = c then [] # split_char c xs else (x # hd (split_char c xs)) # tl (split_char c xs))"

definition split_once_char :: "char \<Rightarrow> string \<Rightarrow> (string \<times> string) option" where
  "split_once_char c s =
     (if c \<in> set s then Some (takeWhile (\<lambda>x. x \<noteq> c) s, tl (dropWhile (\<lambda>x. x \<noteq> c) s)) else None)"

definition rsplit_once_char :: "char \<Rightarrow> string \<Rightarrow> (string \<times> string) option" where
  "rsplit_once_char c s = map_option (\<lambda>(a, b). (rev b, rev a)) (split_once_char c (rev s))"

text \<open>At most \<open>n\<close> pieces, the last one with the separators it still holds.\<close>

fun splitn_char :: "nat \<Rightarrow> char \<Rightarrow> string \<Rightarrow> string list" where
  "splitn_char 0 c s = []"
| "splitn_char (Suc 0) c s = [s]"
| "splitn_char (Suc n) c s =
     (case split_once_char c s of None \<Rightarrow> [s] | Some (a, b) \<Rightarrow> a # splitn_char n c b)"

definition str_lines :: "string \<Rightarrow> string list" where
  "str_lines s = map of_bytes (lines (as_bytes s))"

definition starts_with :: "string \<Rightarrow> string \<Rightarrow> bool" where
  "starts_with p s \<longleftrightarrow> take (length p) s = p"

lemma split_char_ne [simp]: "split_char c s \<noteq> []"
  by (cases s) auto

lemma split_char_none: "c \<notin> set s \<Longrightarrow> split_char c s = [s]"
  by (induction s) auto

lemma split_char_append: "c \<notin> set s \<Longrightarrow> split_char c (s @ c # t) = s # split_char c t"
  by (induction s) auto

lemma split_once_append: "c \<notin> set s \<Longrightarrow> split_once_char c (s @ c # t) = Some (s, t)"
  unfolding split_once_char_def by (induction s) auto

lemma split_once_parts: "split_once_char c s = Some (a, b) \<Longrightarrow> s = a @ c # b \<and> c \<notin> set a"
proof -
  assume "split_once_char c s = Some (a, b)"
  then have c: "c \<in> set s" "a = takeWhile (\<lambda>x. x \<noteq> c) s" "b = tl (dropWhile (\<lambda>x. x \<noteq> c) s)"
    by (auto simp: split_once_char_def split: if_splits)
  then have "dropWhile (\<lambda>x. x \<noteq> c) s \<noteq> []" by (simp add: dropWhile_eq_Nil_conv)
  then have "dropWhile (\<lambda>x. x \<noteq> c) s = c # b"
    using hd_dropWhile [of "\<lambda>x. x \<noteq> c" s] c by (metis list.collapse)
  then have "s = a @ c # b" using takeWhile_dropWhile_id [of "\<lambda>x. x \<noteq> c" s] c by simp
  moreover have "c \<notin> set a" using c set_takeWhileD by fastforce
  ultimately show ?thesis by simp
qed

lemma rsplit_once_parts: "rsplit_once_char c s = Some (a, b) \<Longrightarrow> s = a @ c # b \<and> c \<notin> set b"
proof -
  assume "rsplit_once_char c s = Some (a, b)"
  then obtain x y where "split_once_char c (rev s) = Some (x, y)" "a = rev y" "b = rev x"
    by (auto simp: rsplit_once_char_def)
  moreover from this(1) have "rev s = x @ c # y" "c \<notin> set x" by (auto dest: split_once_parts)
  then have "rev (rev s) = rev (x @ c # y)" "c \<notin> set x" by simp_all
  ultimately show ?thesis by simp
qed

lemma rsplit_once_append: "c \<notin> set t \<Longrightarrow> rsplit_once_char c (s @ c # t) = Some (s, t)"
  by (simp add: rsplit_once_char_def split_once_append)

lemma join_split_char: "concat (map (\<lambda>p. p @ [c]) (split_char c s)) = s @ [c]"
proof (induction s)
  case (Cons x s)
  then show ?case by (cases "split_char c s") auto
qed simp

end
