(* ===== verification/Scene.thy ===== *)
theory Scene
  imports Vector_Index Cite
begin

text \<open>
  The constellation scene of the gateway (\<^verbatim>\<open>crates/mem-gateway/src/scene.rs\<close>): nodes with coordinates
  from a three-dimensional principal component projection or from a ring, and the edges among
  them. Floats are bit patterns, rounding operations are parameters. Shown here: the scene has
  a coordinate for every node it was given, in order, and no dangling edge, and the power
  iteration never indexes out of range.
\<close>

section \<open>Data\<close>

record node_input =
  nu_id :: string
  nu_title :: string
  nu_kind :: string
  nu_repo :: string
  nu_plane :: string
  nu_trust :: string
  nu_status :: string
  nu_embedding :: "u32 list option"

type_synonym point = "u32 \<times> u32 \<times> u32"

record scene_node =
  sn_id :: string
  sn_title :: string
  sn_kind :: string
  sn_repo :: string
  sn_plane :: string
  sn_trust :: string
  sn_lane :: string
  sn_status :: string
  sn_pos :: point
  sn_degree :: u32
  sn_contradicted :: bool
  sn_projected :: bool

record scene_edge =
  sg_from :: string
  sg_to :: string
  sg_kind :: string
  sg_quarantined :: bool

record scene =
  sc_org :: string
  sc_projection :: string
  sc_node_count :: nat
  sc_edge_count :: nat
  sc_nodes :: "scene_node list"
  sc_edges :: "scene_edge list"

record scene_env =
  se_f32 :: f32_env
  se_sub :: "u32 \<Rightarrow> u32 \<Rightarrow> u32"
  se_cos :: "u32 \<Rightarrow> u32"
  se_sin :: "u32 \<Rightarrow> u32"

definition TITLE_MAX :: nat where "TITLE_MAX = 140"
definition PCA_MIN :: nat where "PCA_MIN = 3"
definition POWER_ITERS :: nat where "POWER_ITERS = 64"

definition f32_one :: u32 where "f32_one = 0x3F800000"
definition f32_minus_one :: u32 where "f32_minus_one = 0xBF800000"
definition f32_half :: u32 where "f32_half = 0x3F000000"
definition f32_epsilon :: u32 where "f32_epsilon = 0x34000000"
definition f32_tau :: u32 where "f32_tau = 0x40C90FDB"

definition f32_le :: "u32 \<Rightarrow> u32 \<Rightarrow> bool" where
  "f32_le a b \<longleftrightarrow> \<not> f32_is_nan a \<and> \<not> f32_is_nan b \<and> f32_key a \<le> f32_key b"

definition f32_abs :: "u32 \<Rightarrow> u32" where
  "f32_abs b = of_nat (f32_magnitude b)"

definition f32_max :: "u32 \<Rightarrow> u32 \<Rightarrow> u32" where
  "f32_max a b = (if f32_is_nan a then b else if f32_is_nan b then a else if f32_gt b a then b else a)"

section \<open>Coordinates\<close>

definition truncate_title :: "nat \<Rightarrow> string \<Rightarrow> string" where
  "truncate_title max_chars s =
     (if chars_count s \<le> max_chars then s else chars_take max_chars s @ of_bytes [0xE2, 0x80, 0xA6])"

definition embedding_dim :: "node_input list \<Rightarrow> nat option" where
  "embedding_dim nodes =
     (case List.find (\<lambda>n. nu_embedding n \<noteq> None) nodes of
        None \<Rightarrow> None
      | Some n \<Rightarrow> let d = length (the (nu_embedding n)) in if d > 0 then Some d else None)"

definition has_dim :: "node_input \<Rightarrow> nat option \<Rightarrow> bool" where
  "has_dim n dim = (case (nu_embedding n, dim) of (Some v, Some d) \<Rightarrow> length v = d | _ \<Rightarrow> False)"

definition ring_coords :: "scene_env \<Rightarrow> nat \<Rightarrow> point list" where
  "ring_coords S n =
     (let F = se_f32 S in
      map (\<lambda>i. let theta = f32_div F (f32_mul F f32_tau (f32_of_nat F i)) (f32_of_nat F n);
                   z = se_sub S (f32_div F (f32_of_nat F i) (f32_of_nat F n)) f32_half
               in (se_cos S theta, se_sin S theta, z)) [0..<n])"

definition dot_centered :: "scene_env \<Rightarrow> u32 list \<Rightarrow> u32 list \<Rightarrow> u32 list \<Rightarrow> u32" where
  "dot_centered S v mean axis =
     f32_sum (se_f32 S) (map (\<lambda>((vi, mi), ai). f32_mul (se_f32 S) (se_sub S vi mi) ai) (zip (zip v mean) axis))"

definition project_out :: "scene_env \<Rightarrow> u32 list \<Rightarrow> u32 list \<Rightarrow> u32 list" where
  "project_out S axis v =
     (let proj = f32_sum (se_f32 S) (map (\<lambda>(a, b). f32_mul (se_f32 S) a b) (zip v axis))
      in map (\<lambda>(vi, ai). se_sub S vi (f32_mul (se_f32 S) proj ai)) (zip v axis) @ drop (length axis) v)"

definition normalize_vec :: "scene_env \<Rightarrow> u32 list \<Rightarrow> bool \<times> u32 list" where
  "normalize_vec S v =
     (let F = se_f32 S; norm = f32_sqrt F (f32_sum F (map (\<lambda>x. f32_mul F x x) v))
      in if f32_le norm f32_epsilon then (False, v) else (True, map (\<lambda>x. f32_div F x norm) v))"

text \<open>One application of the covariance operator. The three lists are indexed below \<open>dim\<close>.\<close>

definition apply_covariance :: "scene_env \<Rightarrow> u32 list list \<Rightarrow> u32 list \<Rightarrow> nat \<Rightarrow> u32 list \<Rightarrow> u32 list" where
  "apply_covariance S rows mean dim v =
     (let F = se_f32 S in
      fold (\<lambda>r acc.
        let c = fold (\<lambda>k c. f32_add F c (f32_mul F (se_sub S (r ! k) (mean ! k)) (v ! k))) [0..<dim] 0
        in map (\<lambda>k. f32_add F (acc ! k) (f32_mul F c (se_sub S (r ! k) (mean ! k)))) [0..<dim])
      rows (replicate dim 0))"

fun power_iterate :: "scene_env \<Rightarrow> u32 list list \<Rightarrow> u32 list \<Rightarrow> nat \<Rightarrow> u32 list list \<Rightarrow> nat \<Rightarrow> u32 list \<Rightarrow> u32 list" where
  "power_iterate S rows mean dim deflate 0 v = v"
| "power_iterate S rows mean dim deflate (Suc n) v =
     (case normalize_vec S (fold (project_out S) deflate (apply_covariance S rows mean dim v)) of
        (True, v') \<Rightarrow> power_iterate S rows mean dim deflate n v'
      | (False, _) \<Rightarrow> v)"

definition principal_component ::
    "scene_env \<Rightarrow> u32 list list \<Rightarrow> u32 list \<Rightarrow> nat \<Rightarrow> u32 list list \<Rightarrow> u32 list" where
  "principal_component S rows mean dim deflate =
     (let v = map (\<lambda>i. if i mod 2 = 0 then f32_one else f32_minus_one) [0..<dim];
          v = snd (normalize_vec S (fold (project_out S) deflate v))
      in power_iterate S rows mean dim deflate POWER_ITERS v)"

definition max_abs :: "point list \<Rightarrow> point" where
  "max_abs points =
     fold (\<lambda>(x, y, z) (a, b, c). (f32_max a (f32_abs x), f32_max b (f32_abs y), f32_max c (f32_abs z))) points (0, 0, 0)"

definition normalize_points :: "scene_env \<Rightarrow> point list \<Rightarrow> point list" where
  "normalize_points S points =
     (let F = se_f32 S;
          scale = (\<lambda>m. if f32_gt m f32_epsilon then f32_div F f32_one m else f32_one);
          (a, b, c) = max_abs points
      in map (\<lambda>(x, y, z). (f32_mul F x (scale a), f32_mul F y (scale b), f32_mul F z (scale c))) points)"

definition embedded_rows :: "node_input list \<Rightarrow> nat \<Rightarrow> u32 list list" where
  "embedded_rows nodes dim = filter (\<lambda>v. length v = dim) (List.map_filter nu_embedding nodes)"

definition mean_of :: "scene_env \<Rightarrow> u32 list list \<Rightarrow> nat \<Rightarrow> u32 list" where
  "mean_of S rows dim =
     (let F = se_f32 S;
          total = fold (\<lambda>r m. map (\<lambda>(a, b). f32_add F a b) (zip m r)) rows (replicate dim 0);
          inv = f32_div F f32_one (f32_of_nat F (length rows))
      in map (\<lambda>m. f32_mul F m inv) total)"

definition pca_coords :: "scene_env \<Rightarrow> node_input list \<Rightarrow> nat \<Rightarrow> point list" where
  "pca_coords S nodes dim =
     (let rows = embedded_rows nodes dim;
          mean = mean_of S rows dim;
          pc1 = principal_component S rows mean dim [];
          pc2 = principal_component S rows mean dim [pc1];
          pc3 = principal_component S rows mean dim [pc1, pc2];
          ring = ring_coords S (length nodes)
      in normalize_points S (map (\<lambda>(i, n).
           case nu_embedding n of
             Some v \<Rightarrow> if length v = dim then (dot_centered S v mean pc1, dot_centered S v mean pc2, dot_centered S v mean pc3)
                       else ring ! i
           | None \<Rightarrow> ring ! i) (enumerate 0 nodes)))"

section \<open>The scene\<close>

type_synonym raw_edge = "string \<times> string \<times> string \<times> bool"

definition kept_edges :: "node_input list \<Rightarrow> raw_edge list \<Rightarrow> raw_edge list" where
  "kept_edges nodes es =
     (let ids = set (map nu_id nodes) in filter (\<lambda>(f, t, _, _). f \<in> ids \<and> t \<in> ids) es)"

definition bump :: "string \<Rightarrow> (string \<Rightarrow> u32) \<Rightarrow> string \<Rightarrow> u32" where
  "bump x deg = deg(x := deg x + 1)"

definition degrees :: "raw_edge list \<Rightarrow> string \<Rightarrow> u32" where
  "degrees kept = fold (\<lambda>(f, t, _, _) deg. bump t (bump f deg)) kept (\<lambda>_. 0)"

definition contradicted_ids :: "raw_edge list \<Rightarrow> string set" where
  "contradicted_ids kept =
     fold (\<lambda>(f, t, k, _) acc. if k = ''Contradicts'' \<or> k = ''Refutes'' then insert t (insert f acc) else acc) kept {}"

definition uses_pca :: "node_input list \<Rightarrow> bool" where
  "uses_pca nodes =
     (let dim = embedding_dim nodes in dim \<noteq> None \<and> PCA_MIN \<le> length (filter (\<lambda>n. has_dim n dim) nodes))"

definition scene_coords :: "scene_env \<Rightarrow> node_input list \<Rightarrow> point list" where
  "scene_coords S nodes =
     (if uses_pca nodes then pca_coords S nodes (case embedding_dim nodes of None \<Rightarrow> 0 | Some d \<Rightarrow> d)
      else ring_coords S (length nodes))"

definition build_scene :: "scene_env \<Rightarrow> string \<Rightarrow> node_input list \<Rightarrow> raw_edge list \<Rightarrow> scene" where
  "build_scene S oid nodes es =
     (let coords = scene_coords S nodes;
          kept = kept_edges nodes es;
          deg = degrees kept;
          contradicted = contradicted_ids kept;
          scene_edges = map (\<lambda>(f, t, k, q). \<lparr>sg_from = f, sg_to = t, sg_kind = k, sg_quarantined = q\<rparr>) kept;
          scene_nodes = map (\<lambda>(n, pos).
            \<lparr>sn_id = nu_id n, sn_title = truncate_title TITLE_MAX (nu_title n), sn_kind = nu_kind n, sn_repo = nu_repo n,
             sn_plane = nu_plane n, sn_trust = nu_trust n, sn_lane = nu_trust n, sn_status = nu_status n,
             sn_pos = pos, sn_degree = deg (nu_id n), sn_contradicted = (nu_id n \<in> contradicted), sn_projected = True\<rparr>)
            (zip nodes coords)
      in \<lparr>sc_org = oid, sc_projection = (if uses_pca nodes then ''pca-3d'' else ''ring''), sc_node_count = length scene_nodes,
          sc_edge_count = length scene_edges, sc_nodes = scene_nodes, sc_edges = scene_edges\<rparr>)"

section \<open>Lengths and indices\<close>

lemma ring_coords_length [simp]: "length (ring_coords S n) = n"
  by (simp add: ring_coords_def Let_def)

lemma pca_coords_length [simp]: "length (pca_coords S nodes dim) = length nodes"
  by (simp add: pca_coords_def normalize_points_def Let_def split: prod.splits)

lemma scene_coords_length [simp]: "length (scene_coords S nodes) = length nodes"
  by (simp add: scene_coords_def)

text \<open>Every vector the power iteration indexes has the dimension of the space.\<close>

lemma embedded_rows_dim: "r \<in> set (embedded_rows nodes dim) \<Longrightarrow> length r = dim"
  by (simp add: embedded_rows_def)

lemma apply_covariance_length [simp]: "length (apply_covariance S rows mean dim v) = dim"
  unfolding apply_covariance_def Let_def by (induction rows rule: rev_induct) simp_all

lemma project_out_length [simp]: "length (project_out S axis v) = length v"
  by (simp add: project_out_def Let_def)

lemma deflate_length [simp]: "length (fold (project_out S) deflate v) = length v"
  by (induction deflate arbitrary: v) simp_all

lemma normalize_vec_length [simp]: "length (snd (normalize_vec S v)) = length v"
  by (simp add: normalize_vec_def Let_def)

lemma power_iterate_length:
  "length v = dim \<Longrightarrow> length (power_iterate S rows mean dim deflate n v) = dim"
proof (induction n arbitrary: v)
  case (Suc n)
  let ?next = "normalize_vec S (fold (project_out S) deflate (apply_covariance S rows mean dim v))"
  have "length (snd ?next) = dim" by simp
  then have "length v' = dim" if "?next = (b, v')" for b v' using that by simp
  with Suc show ?case by (cases ?next; cases "fst ?next") auto
qed simp

lemma principal_component_length: "length (principal_component S rows mean dim deflate) = dim"
  by (simp add: principal_component_def Let_def power_iterate_length)

lemma mean_of_length:
  assumes "\<forall>r \<in> set rows. length r = dim"
  shows "length (mean_of S rows dim) = dim"
proof -
  have "length (fold (\<lambda>r m. map (\<lambda>(a, b). f32_add F a b) (zip m r)) rows m) = dim"
    if "length m = dim" for F :: f32_env and m
    using assms that by (induction rows arbitrary: m) simp_all
  then show ?thesis by (simp add: mean_of_def Let_def)
qed

section \<open>Degrees\<close>

definition touches :: "string \<Rightarrow> raw_edge list \<Rightarrow> nat" where
  "touches x kept = (\<Sum>(f, t, _, _) \<leftarrow> kept. (if f = x then 1 else 0) + (if t = x then 1 else 0))"

lemma degrees_count: "degrees kept x = of_nat (touches x kept)"
proof -
  have "fold (\<lambda>(f, t, _, _) deg. bump t (bump f deg)) kept d x = d x + of_nat (touches x kept)" for d
    by (induction kept arbitrary: d) (auto simp: touches_def bump_def)
  then show ?thesis by (simp add: degrees_def)
qed

lemma touches_bound: "touches x kept \<le> 2 * length kept"
  by (induction kept) (auto simp: touches_def)

lemma contradicted_ids_iff:
  "x \<in> contradicted_ids kept \<longleftrightarrow>
     (\<exists>f t k q. (f, t, k, q) \<in> set kept \<and> k \<in> {''Contradicts'', ''Refutes''} \<and> x \<in> {f, t})"
proof -
  let ?hit = "\<lambda>kept. \<exists>f t k q. (f, t, k, q) \<in> set kept \<and> k \<in> {''Contradicts'', ''Refutes''} \<and> x \<in> {f, t}"
  have "x \<in> fold (\<lambda>(f, t, k, _) acc. if k = ''Contradicts'' \<or> k = ''Refutes'' then insert t (insert f acc) else acc) kept A \<longleftrightarrow>
      x \<in> A \<or> ?hit kept" for A :: "string set"
  proof (induction kept arbitrary: A)
    case (Cons e kept)
    obtain f t k q where e: "e = (f, t, k, q)" by (cases e) auto
    have "?hit (e # kept) \<longleftrightarrow> (k \<in> {''Contradicts'', ''Refutes''} \<and> x \<in> {f, t}) \<or> ?hit kept"
      unfolding e by (simp only: list.set insert_iff prod.inject) blast
    then show ?case using Cons.IH by (auto simp: e)
  qed simp
  then show ?thesis by (simp add: contradicted_ids_def)
qed

text \<open>A scene is complete and closed: it shows every node it was given, in order, each with a
  coordinate, and exactly the edges with both ends among them; the degree of a node counts its
  ends of shown edges, and it is marked as contradicted when a shown edge contradicts or refutes.\<close>

theorem scene_is_complete:
  assumes "length es < 2 ^ 31"
  shows "let s = build_scene S oid nodes es in
    map sn_id (sc_nodes s) = map nu_id nodes \<and> sc_node_count s = length nodes \<and>
    map (\<lambda>e. (sg_from e, sg_to e, sg_kind e, sg_quarantined e)) (sc_edges s) = kept_edges nodes es \<and>
    (\<forall>e \<in> set (sc_edges s). sg_from e \<in> sn_id ` set (sc_nodes s) \<and> sg_to e \<in> sn_id ` set (sc_nodes s)) \<and>
    (\<forall>n \<in> set (sc_nodes s). unat (sn_degree n) = touches (sn_id n) (kept_edges nodes es) \<and>
       (sn_contradicted n \<longleftrightarrow> (\<exists>e \<in> set (sc_edges s). sg_kind e \<in> {''Contradicts'', ''Refutes''} \<and> sn_id n \<in> {sg_from e, sg_to e})))"
proof -
  let ?s = "build_scene S oid nodes es" and ?kept = "kept_edges nodes es"
  have ids: "map sn_id (sc_nodes ?s) = map nu_id nodes"
    by (rule nth_equalityI) (simp_all add: build_scene_def Let_def case_prod_beta)
  have num: "sc_node_count ?s = length nodes" by (simp add: build_scene_def Let_def)
  have info: "sn_degree n = degrees ?kept (sn_id n) \<and> (sn_contradicted n \<longleftrightarrow> sn_id n \<in> contradicted_ids ?kept)"
    if "n \<in> set (sc_nodes ?s)" for n
    using that by (auto simp: build_scene_def Let_def)
  have es: "map (\<lambda>e. (sg_from e, sg_to e, sg_kind e, sg_quarantined e)) (sc_edges ?s) = ?kept"
    by (simp add: build_scene_def Let_def comp_def case_prod_beta)
  have edge: "(sg_from e, sg_to e, sg_kind e, sg_quarantined e) \<in> set ?kept" if "e \<in> set (sc_edges ?s)" for e
    using that by (subst es [symmetric]) force
  have "touches x ?kept < 2 ^ 32" for x
  proof -
    have "length ?kept \<le> length es" by (simp add: kept_edges_def Let_def)
    then show ?thesis using touches_bound [of x ?kept] assms by simp
  qed
  then have deg: "unat (degrees ?kept x) = touches x ?kept" for x
    by (simp add: degrees_count unat_of_nat take_bit_eq_mod)
  have ends: "sg_from e \<in> sn_id ` set (sc_nodes ?s) \<and> sg_to e \<in> sn_id ` set (sc_nodes ?s)"
    if "e \<in> set (sc_edges ?s)" for e
    using edge [OF that] ids by (auto simp: kept_edges_def Let_def simp flip: set_map)
  have contra: "x \<in> contradicted_ids ?kept \<longleftrightarrow>
      (\<exists>e \<in> set (sc_edges ?s). sg_kind e \<in> {''Contradicts'', ''Refutes''} \<and> x \<in> {sg_from e, sg_to e})" for x
  proof
    assume "x \<in> contradicted_ids ?kept"
    then obtain f t k q where "(f, t, k, q) \<in> set ?kept" "k \<in> {''Contradicts'', ''Refutes''}" "x \<in> {f, t}"
      unfolding contradicted_ids_iff by blast
    then show "\<exists>e \<in> set (sc_edges ?s). sg_kind e \<in> {''Contradicts'', ''Refutes''} \<and> x \<in> {sg_from e, sg_to e}"
      unfolding es [symmetric] set_map by force
  next
    assume "\<exists>e \<in> set (sc_edges ?s). sg_kind e \<in> {''Contradicts'', ''Refutes''} \<and> x \<in> {sg_from e, sg_to e}"
    then obtain e where "e \<in> set (sc_edges ?s)" "sg_kind e \<in> {''Contradicts'', ''Refutes''}" "x \<in> {sg_from e, sg_to e}"
      by blast
    with edge show "x \<in> contradicted_ids ?kept" unfolding contradicted_ids_iff by blast
  qed
  show ?thesis
    unfolding Let_def using ids es ends info deg contra num by simp
qed

end
