(* ===== verification/Gateway_Gate.thy ===== *)
theory Gateway_Gate
  imports Control Split Scene Mcp_Tools
begin

text \<open>
  Who a request of the HTTP gateway acts for and what it may do (\<^verbatim>\<open>crates/mem-gateway/src/auth.rs\<close>,
  \<^verbatim>\<open>http.rs\<close>): verification of OIDC and connect tokens, just-in-time membership, the audited gate
  in front of every route, the attenuation of a grant by a connect token, and the work bounds
  of the bring-your-own-model route. The JWT library is the parameter \<^verbatim>\<open>jwt_env\<close>.
\<close>

section \<open>Tokens\<close>

type_synonym rsa_key = "string \<times> string"

record principal =
  pr_sub :: string
  pr_email :: "string option"
  pr_email_verified :: bool
  pr_wallet_address :: "string option"

record claims =
  cl_sub :: string
  cl_email :: "string option"
  cl_email_verified :: "bool option"
  cl_wallet_address :: "string option"

record jwk =
  jk_kty :: string
  jk_kid :: "string option"
  jk_n :: "string option"
  jk_e :: "string option"

record connect_claims =
  cn_sub :: string
  cn_scope :: "string option"
  cn_tenants :: "string list option"
  cn_org :: "string option"

record mint_claims =
  mc_sub :: string
  mc_exp :: u64
  mc_scope :: "string option"
  mc_tenants :: "string list"
  mc_org :: string

datatype auth_error = Jwks string | NoKeys | Token string | NoMatchingKey

text \<open>What the JWT library answers: the JSON of a key set, whether RSA components make a key, the
  key id in the header of a token, the claims of a token that verifies under a key at a time
  (RS256 with issuer and audience, HS256 with a secret), a minted token, and the iteration
  order of the map of keys.\<close>

record jwt_env =
  jw_key_set :: "string \<Rightarrow> (string, jwk list) result"
  jw_rsa :: "rsa_key \<Rightarrow> (string, unit) result"
  jw_header_kid :: "string \<Rightarrow> (string, string option) result"
  jw_decode_rs256 :: "rsa_key \<Rightarrow> string \<Rightarrow> string \<Rightarrow> nat \<Rightarrow> string \<Rightarrow> (string, claims) result"
  jw_decode_hs256 :: "string \<Rightarrow> nat \<Rightarrow> string \<Rightarrow> (string, connect_claims) result"
  jw_encode_hs256 :: "string \<Rightarrow> mint_claims \<Rightarrow> (string, string) result"
  jw_order :: "rsa_key list \<Rightarrow> rsa_key list"

record oidc_verifier =
  ov_issuer :: string
  ov_audience :: string
  ov_by_kid :: "(string \<times> rsa_key) list"
  ov_anonymous :: "rsa_key list"

definition add_jwk :: "jwt_env \<Rightarrow> jwk \<Rightarrow> (string \<times> rsa_key) list \<times> rsa_key list \<Rightarrow>
    (auth_error, (string \<times> rsa_key) list \<times> rsa_key list) result" where
  "add_jwk J k acc =
     (if jk_kty k \<noteq> ''RSA'' then Inr acc
      else case (jk_n k, jk_e k) of
        (Some n, Some e) \<Rightarrow>
          rbind (map_err Jwks (jw_rsa J (n, e))) (\<lambda>_.
          Inr (case jk_kid k of
                 Some kid \<Rightarrow> (AList.update kid (n, e) (fst acc), snd acc)
               | None \<Rightarrow> (fst acc, snd acc @ [(n, e)])))
      | _ \<Rightarrow> Inr acc)"

definition from_jwks :: "jwt_env \<Rightarrow> string \<Rightarrow> string \<Rightarrow> string \<Rightarrow> (auth_error, oidc_verifier) result" where
  "from_jwks J issuer audience jwks_json =
     rbind (map_err Jwks (jw_key_set J jwks_json)) (\<lambda>keys.
     rbind (rfold (add_jwk J) keys ([], [])) (\<lambda>(by_kid, anonymous).
     if by_kid = [] \<and> anonymous = [] then Inl NoKeys
     else Inr \<lparr>ov_issuer = issuer, ov_audience = audience, ov_by_kid = by_kid, ov_anonymous = anonymous\<rparr>))"

definition candidates :: "jwt_env \<Rightarrow> oidc_verifier \<Rightarrow> string option \<Rightarrow> (auth_error, rsa_key list) result" where
  "candidates J V kid =
     (case kid of
        Some k \<Rightarrow>
          (case map_of (ov_by_kid V) k of
             Some key \<Rightarrow> Inr [key]
           | None \<Rightarrow> if ov_anonymous V \<noteq> [] then Inr (ov_anonymous V) else Inl NoMatchingKey)
      | None \<Rightarrow> Inr (ov_anonymous V @ jw_order J (map snd (ov_by_kid V))))"

fun try_keys :: "jwt_env \<Rightarrow> oidc_verifier \<Rightarrow> nat \<Rightarrow> string \<Rightarrow> auth_error \<Rightarrow> rsa_key list \<Rightarrow> (auth_error, principal) result" where
  "try_keys J V tick token latest [] = Inl latest"
| "try_keys J V tick token latest (key # keys) =
     (case jw_decode_rs256 J key (ov_issuer V) (ov_audience V) tick token of
        Inr c \<Rightarrow> Inr \<lparr>pr_sub = cl_sub c, pr_email = cl_email c,
          pr_email_verified = (case cl_email_verified c of None \<Rightarrow> False | Some b \<Rightarrow> b),
          pr_wallet_address = cl_wallet_address c\<rparr>
      | Inl e \<Rightarrow> try_keys J V tick token (Token e) keys)"

definition verify_principal :: "jwt_env \<Rightarrow> oidc_verifier \<Rightarrow> nat \<Rightarrow> string \<Rightarrow> (auth_error, principal) result" where
  "verify_principal J V tick token =
     rbind (map_err Token (jw_header_kid J token)) (\<lambda>kid.
     rbind (candidates J V kid) (try_keys J V tick token NoMatchingKey))"

definition verify_connect_token :: "jwt_env \<Rightarrow> string \<Rightarrow> nat \<Rightarrow> string \<Rightarrow> (auth_error, connect_claims) result" where
  "verify_connect_token J secret tick token = map_err Token (jw_decode_hs256 J secret tick token)"

definition mint_connect_token ::
    "jwt_env \<Rightarrow> string \<Rightarrow> string \<Rightarrow> string \<Rightarrow> string option \<Rightarrow> string list \<Rightarrow> u64 \<Rightarrow> u64 \<Rightarrow> (auth_error, string) result" where
  "mint_connect_token J secret oid sub scope tenants now_secs ttl_secs =
     map_err Token (jw_encode_hs256 J secret \<lparr>mc_sub = sub, mc_exp = saturating_add_u64 now_secs ttl_secs,
       mc_scope = scope, mc_tenants = tenants, mc_org = oid\<rparr>)"

section \<open>State\<close>

text \<open>The configuration of a gateway; the state its requests share, around the store, the index
  cache and the audit chain of \<^verbatim>\<open>mcp_world\<close>; and the outside: the parameters of the MCP server, the
  JWT library, the two JSON files with the file system under them, the webhook's MAC and
  environment variables, the chain RPC, JSON of floats and records, the embedded connector
  script, and the text of the error of a task that panicked.\<close>

record app =
  ap_embedder :: "(string \<times> embedder) option"
  ap_signing_key :: key256
  ap_org_id :: string
  ap_store_path :: string
  ap_chain_rpc :: "string option"
  ap_issuer :: string
  ap_oidc :: "oidc_verifier option"
  ap_connect_secret :: "string option"
  ap_allow_dev_auth :: bool
  ap_team_allowlist_path :: "string option"

record push_event =
  pe_repo :: string
  pe_git_ref :: string
  pe_after :: string

record gw_world =
  gw_mcp :: mcp_world
  gw_control :: control
  gw_disk :: control_disk
  gw_layout :: "scene option"
  gw_queue :: "push_event list"
  gw_buckets :: "string \<rightharpoonup> u64 \<times> u64"
  gw_inflight :: "string \<rightharpoonup> nat"

text \<open>Double-precision arithmetic on bit patterns, as the call budget uses it.\<close>

record f64_env =
  f64_of_nat :: "nat \<Rightarrow> u64"
  f64_add :: "u64 \<Rightarrow> u64 \<Rightarrow> u64"
  f64_sub :: "u64 \<Rightarrow> u64 \<Rightarrow> u64"
  f64_mul :: "u64 \<Rightarrow> u64 \<Rightarrow> u64"
  f64_div :: "u64 \<Rightarrow> u64 \<Rightarrow> u64"
  f64_min :: "u64 \<Rightarrow> u64 \<Rightarrow> u64"
  f64_less :: "u64 \<Rightarrow> u64 \<Rightarrow> bool"

record gw_env =
  ge_mcp :: mcp_env
  ge_jwt :: jwt_env
  ge_control :: control_codec
  ge_control_io :: "nat \<Rightarrow> control_io"
  ge_allow_parse :: "string \<Rightarrow> (string, allow_entry list) result"
  ge_allow_file :: "nat \<Rightarrow> string \<Rightarrow> string option"
  ge_hmac_sha256 :: "bytes \<Rightarrow> bytes \<Rightarrow> bytes"
  ge_webhook_secret :: string
  ge_allowed_owner :: "string option"
  ge_rpc :: rpc_env
  ge_chain :: chain_codec
  ge_record_json :: "chain_anchor_record \<Rightarrow> json"
  ge_f32_json :: "u32 \<Rightarrow> json"
  ge_scene :: scene_env
  ge_connector_script :: string
  ge_join_error :: string
  ge_f64 :: f64_env

datatype gw_exit = Api nat string | GwPanic

type_synonym 'a gw = "(gw_world, gw_exit, 'a) action"
type_synonym headers = "string \<Rightarrow> string option"

abbreviation tick_of :: "gw_world \<Rightarrow> nat" where
  "tick_of w \<equiv> mw_tick (gw_mcp w)"

definition unauthorized :: "string \<Rightarrow> gw_exit" where "unauthorized m = Api 401 m"
definition forbidden :: "string \<Rightarrow> gw_exit" where "forbidden m = Api 403 m"
definition not_found :: "string \<Rightarrow> gw_exit" where "not_found m = Api 404 m"
definition bad_request :: "string \<Rightarrow> gw_exit" where "bad_request m = Api 400 m"
definition ise :: "string \<Rightarrow> gw_exit" where "ise e = Api 500 (''internal: '' @ e)"

definition gw_now :: "gw_env \<Rightarrow> u64 gw" where
  "gw_now E w = (Inr (me_now (ge_mcp E) (tick_of w)), w\<lparr>gw_mcp := (gw_mcp w)\<lparr>mw_tick := tick_of w + 1\<rparr>\<rparr>)"

definition gw_store_rd :: "'a reader \<Rightarrow> 'a gw" where
  "gw_store_rd f w = (map_err (\<lambda>e. ise (store_error_text e)) (f (mw_store (gw_mcp w))), w)"

section \<open>The principal\<close>

definition bearer :: "headers \<Rightarrow> string option" where
  "bearer H =
     Option.bind (H ''authorization'') (\<lambda>raw.
     map_option trim (case strip_prefix ''Bearer '' raw of Some t \<Rightarrow> Some t | None \<Rightarrow> strip_prefix ''bearer '' raw))"

definition authenticate_principal :: "gw_env \<Rightarrow> app \<Rightarrow> headers \<Rightarrow> principal gw" where
  "authenticate_principal E app H w =
     (case ap_oidc app of
        Some V \<Rightarrow>
          (case bearer H of
             None \<Rightarrow> (Inl (unauthorized ''missing bearer token''), w)
           | Some token \<Rightarrow>
               (map_err (\<lambda>_. unauthorized ''token rejected'') (verify_principal (ge_jwt E) V (tick_of w) token), w))
      | None \<Rightarrow>
          if ap_allow_dev_auth app then
            (case H ''x-dev-sub'' of
               Some s \<Rightarrow>
                 if s = [] then (Inl (unauthorized ''missing x-dev-sub (dev-auth)''), w)
                 else (Inr \<lparr>pr_sub = s, pr_email = None, pr_email_verified = False, pr_wallet_address = None\<rparr>, w)
             | None \<Rightarrow> (Inl (unauthorized ''missing x-dev-sub (dev-auth)''), w))
          else (Inl (unauthorized ''authentication not configured''), w))"

definition authenticate :: "gw_env \<Rightarrow> app \<Rightarrow> headers \<Rightarrow> string gw" where
  "authenticate E app H = sbind (authenticate_principal E app H) (\<lambda>p. sok (pr_sub p))"

text \<open>Just-in-time membership: the control plane is changed in memory and then saved.\<close>

definition jit_provision :: "gw_env \<Rightarrow> app \<Rightarrow> principal \<Rightarrow> string \<Rightarrow> membership option gw" where
  "jit_provision E app p oid w =
     (case ap_team_allowlist_path app of
        None \<Rightarrow> (Inr None, w)
      | Some path \<Rightarrow>
          (case match_identity (load_or_empty (ge_allow_parse E) (ge_allow_file E (tick_of w) path))
                  (pr_email p) (pr_email_verified p) (pr_wallet_address p) of
             None \<Rightarrow> (Inr None, w)
           | Some entry \<Rightarrow>
               if find_membership (pr_sub p) oid (gw_control w) = None then
                 let c = snd (upsert_membership_full (pr_sub p) oid (ae_role entry) (ae_scopes entry) (gw_control w)) in
                 (case save_control (ge_control E) (ge_control_io E (tick_of w)) c (gw_disk w) of
                    (Inl _, d) \<Rightarrow> (Inr None, w\<lparr>gw_control := c, gw_disk := d\<rparr>)
                  | (Inr _, d) \<Rightarrow> (Inr (find_membership (pr_sub p) oid c), w\<lparr>gw_control := c, gw_disk := d\<rparr>))
               else (Inr (find_membership (pr_sub p) oid (gw_control w)), w)))"

section \<open>The gate\<close>

definition audit_event :: "externals \<Rightarrow> gw_env \<Rightarrow> memory_event \<Rightarrow> string \<Rightarrow> string \<Rightarrow> string \<Rightarrow> unit gw" where
  "audit_event X E ev actor resource detail =
     sbind (gw_now E) (\<lambda>now w.
     case audit_append X (ge_mcp E) ev actor resource detail now (gw_mcp w) of
       (Inl e, m) \<Rightarrow> (Inl (ise (''audit append failed; refusing to proceed: '' @ audit_error_text e)), w\<lparr>gw_mcp := m\<rparr>)
     | (Inr _, m) \<Rightarrow> (Inr (), w\<lparr>gw_mcp := m\<rparr>))"

text \<open>\<^verbatim>\<open>let _ = ...\<close>: the effect of an action without its result.\<close>

definition best_effort :: "'a gw \<Rightarrow> unit gw" where
  "best_effort m w = (Inr (), snd (m w))"

definition check_org :: "string \<Rightarrow> unit gw" where
  "check_org oid w =
     (case find_org oid (gw_control w) of
        Some o' \<Rightarrow> if og_status o' = OrgActive then (Inr (), w) else (Inl (forbidden ''org suspended''), w)
      | None \<Rightarrow> (Inl (not_found ''unknown org''), w))"

definition GRANT_TTL_MS :: u64 where "GRANT_TTL_MS = 3600000"

definition existing_membership :: "string \<Rightarrow> string \<Rightarrow> membership option gw" where
  "existing_membership sub oid w = (Inr (find_membership sub oid (gw_control w)), w)"

definition gate_membership :: "externals \<Rightarrow> gw_env \<Rightarrow> app \<Rightarrow> principal \<Rightarrow> string \<Rightarrow> string \<Rightarrow> membership gw" where
  "gate_membership X E app p oid resource =
     sbind (check_org oid) (\<lambda>_.
     sbind (existing_membership (pr_sub p) oid) (\<lambda>existing.
     case existing of
       Some m \<Rightarrow> sok m
     | None \<Rightarrow>
         sbind (jit_provision E app p oid) (\<lambda>provisioned.
         case provisioned of
           Some m \<Rightarrow>
             sbind (best_effort (audit_event X E EvWrite (pr_sub p) resource ''jit-provision membership'')) (\<lambda>_. sok m)
         | None \<Rightarrow>
             sbind (best_effort (audit_event X E EvDenied (pr_sub p) resource ''no membership'')) (\<lambda>_.
             serr (forbidden ''no membership in org'')))))"

definition gate_with_grant ::
    "externals \<Rightarrow> gw_env \<Rightarrow> app \<Rightarrow> headers \<Rightarrow> string \<Rightarrow> string \<Rightarrow> op \<Rightarrow> string \<Rightarrow> (string \<times> capability_grant) gw" where
  "gate_with_grant X E app H oid resource operation detail =
     (if oid \<noteq> ap_org_id app then serr (not_found ''unknown org on this gateway'')
      else
        sbind (authenticate_principal E app H) (\<lambda>p.
        sbind (gate_membership X E app p oid resource) (\<lambda>m.
        sbind (gw_now E) (\<lambda>now.
        let grant = mint_grant X (ap_signing_key app) (ap_issuer app) m now GRANT_TTL_MS in
        case check X grant resource operation now of
          Inr _ \<Rightarrow>
            sbind (audit_event X E (event_for operation) (pr_sub p) resource detail) (\<lambda>_.
            sok (pr_sub p, grant))
        | Inl e \<Rightarrow>
            sbind (best_effort (audit_event X E EvDenied (pr_sub p) resource (authz_error_text e))) (\<lambda>_.
            serr (forbidden ''not authorized for resource''))))))"

definition gate :: "externals \<Rightarrow> gw_env \<Rightarrow> app \<Rightarrow> headers \<Rightarrow> string \<Rightarrow> string \<Rightarrow> op \<Rightarrow> string \<Rightarrow> string gw" where
  "gate X E app H oid resource operation detail =
     sbind (gate_with_grant X E app H oid resource operation detail) (\<lambda>(sub, _). sok sub)"

section \<open>Attenuation\<close>

definition token_allows_write :: "connect_claims \<Rightarrow> bool" where
  "token_allows_write c =
     (case cn_scope c of
        None \<Rightarrow> False
      | Some s \<Rightarrow> list_ex (\<lambda>t. trim t = ''write'' \<or> trim t = ''propose'') (split_char (CHR '','') s))"

definition tenant_scope :: "externals \<Rightarrow> capability_grant \<Rightarrow> bool \<Rightarrow> u64 \<Rightarrow> string \<Rightarrow> resource_scope" where
  "tenant_scope X grant writes now t =
     (let rid = repo_resource t in
      \<lparr>rs_resource_id = rid, rs_can_read = (check X grant rid Read now = Inr ()),
       rs_can_write = (writes \<and> check X grant rid Write now = Inr ())\<rparr>)"

definition attenuate_grant :: "externals \<Rightarrow> u64 \<Rightarrow> capability_grant \<Rightarrow> connect_claims \<Rightarrow> key256 \<Rightarrow> capability_grant" where
  "attenuate_grant X now grant c sk =
     (let writes = token_allows_write c;
          narrowed = grant\<lparr>cg_allowed_resources :=
            (case cn_tenants c of
               Some tenants \<Rightarrow> map (tenant_scope X grant writes now) tenants
             | None \<Rightarrow> map (\<lambda>r. r\<lparr>rs_can_write := (rs_can_write r \<and> writes)\<rparr>) (cg_allowed_resources grant))\<rparr>;
          narrowed = (if writes then narrowed else narrowed\<lparr>cg_policy := ReadOnly\<rparr>)
      in sign_with X sk narrowed)"

section \<open>Work bounds\<close>

definition BYOM_MAX_LINES :: nat where "BYOM_MAX_LINES = 32"
definition BYOM_BURST_CALLS :: nat where "BYOM_BURST_CALLS = 128"
definition BYOM_REFILL_PER_SEC :: nat where "BYOM_REFILL_PER_SEC = 2"
definition BYOM_MAX_CONCURRENT_PER_PRINCIPAL :: nat where "BYOM_MAX_CONCURRENT_PER_PRINCIPAL = 2"

text \<open>Claiming an execution of a principal and releasing it.\<close>

definition try_enter :: "string \<Rightarrow> gw_world \<Rightarrow> bool \<times> gw_world" where
  "try_enter sub w =
     (let n = (case gw_inflight w sub of None \<Rightarrow> 0 | Some n \<Rightarrow> n) in
      if n \<ge> BYOM_MAX_CONCURRENT_PER_PRINCIPAL then (False, w\<lparr>gw_inflight := (gw_inflight w)(sub \<mapsto> n)\<rparr>)
      else (True, w\<lparr>gw_inflight := (gw_inflight w)(sub \<mapsto> n + 1)\<rparr>))"

definition leave :: "string \<Rightarrow> gw_world \<Rightarrow> gw_world" where
  "leave sub w =
     (case gw_inflight w sub of
        None \<Rightarrow> w
      | Some n \<Rightarrow> w\<lparr>gw_inflight := (gw_inflight w)(sub := (if n - 1 = 0 then None else Some (n - 1)))\<rparr>)"

definition try_spend :: "gw_env \<Rightarrow> string \<Rightarrow> nat \<Rightarrow> u64 \<Rightarrow> gw_world \<Rightarrow> bool \<times> gw_world" where
  "try_spend E sub calls now w =
     (let F = ge_f64 E;
          burst = f64_of_nat F BYOM_BURST_CALLS;
          (tokens, since) = (case gw_buckets w sub of None \<Rightarrow> (burst, now) | Some b \<Rightarrow> b);
          elapsed_s = f64_div F (f64_of_nat F (unat now - unat since)) (f64_of_nat F 1000);
          tokens = f64_min F (f64_add F tokens (f64_mul F elapsed_s (f64_of_nat F BYOM_REFILL_PER_SEC))) burst;
          need = f64_of_nat F calls
      in if f64_less F tokens need then (False, w\<lparr>gw_buckets := (gw_buckets w)(sub \<mapsto> (tokens, now))\<rparr>)
         else (True, w\<lparr>gw_buckets := (gw_buckets w)(sub \<mapsto> (f64_sub F tokens need, now))\<rparr>))"

end
