(* ===== verification/Gateway.thy ===== *)
theory Gateway
  imports Gateway_Gate
begin

text \<open>
  The routes of the HTTP gateway (\<^verbatim>\<open>crates/mem-gateway/src/http.rs\<close>) and the GitHub webhook
  (\<^verbatim>\<open>webhook.rs\<close>). A route is the whole handler after the framework has decoded the path, the query
  and the body: parameters, gate with its audit record, query or write, and the JSON of the
  answer. A handler runs to its end as one action; two requests interleave only between the
  locks, and no theorem here speaks about two at a time.
\<close>

section \<open>JSON of answers\<close>

datatype gw_response = GwJson nat json | GwText string | GwNoContent

type_synonym query = "string \<Rightarrow> string option"

abbreviation jnat :: "nat \<Rightarrow> json" where "jnat n \<equiv> JNum (decimal n)"

definition jopt :: "('a \<Rightarrow> json) \<Rightarrow> 'a option \<Rightarrow> json" where
  "jopt f x = (case x of None \<Rightarrow> JNull | Some v \<Rightarrow> f v)"

definition qparam :: "query \<Rightarrow> string \<Rightarrow> string option" where
  "qparam q key = (case q key of Some s \<Rightarrow> if s = [] then None else Some s | None \<Rightarrow> None)"

definition gw_budget :: "query \<Rightarrow> nat \<Rightarrow> nat" where
  "gw_budget q d =
     (case q ''budget'' of
        None \<Rightarrow> d
      | Some s \<Rightarrow>
          (case from_str_radix 10 s of
             Inl _ \<Rightarrow> d
           | Inr n \<Rightarrow> if 0 < unat n \<and> unat n \<le> 500 then unat n else d))"

definition in_flight_param :: "query \<Rightarrow> bool" where
  "in_flight_param q = (case q ''include_in_flight'' of None \<Rightarrow> False | Some v \<Rightarrow> v = ''true'' \<or> v = ''1'')"

definition item_json :: "externals \<Rightarrow> gw_env \<Rightarrow> recall_item \<Rightarrow> json" where
  "item_json X E it = JObj
     [(''id'', JStr (to_hex (hex_encode X) (ri_id it))), (''kind'', JStr (discriminant (ri_kind it))), (''repo'', JStr (ri_repo it)),
      (''title'', JStr (ri_title it)), (''valid_from'', jnat (unat (ri_valid_from it))),
      (''plane'', JStr (plane_debug (ri_plane it))), (''trust_tier'', JStr (tier_debug (ri_trust_tier it))),
      (''status'', JStr (status_debug (ri_status it))), (''score'', jopt (ge_f32_json E) (ri_score it)),
      (''in_flight_branch'', jopt JStr (ri_in_flight_branch it))]"

definition watermark_debug :: "gw_env \<Rightarrow> watermark \<Rightarrow> string" where
  "watermark_debug E w =
     ''Watermark { repo: '' @ me_str_debug (ge_mcp E) (wm_repo w) @ '', head: '' @
     (case wm_head w of None \<Rightarrow> ''None'' | Some h \<Rightarrow> ''Some('' @ me_str_debug (ge_mcp E) h @ '')'') @
     '', head_count: '' @ decimal (wm_head_count w) @ '', ingested_at_ms: '' @ decimal (unat (wm_ingested_at_ms w)) @ '' }''"

definition result_json :: "externals \<Rightarrow> gw_env \<Rightarrow> recall_result \<Rightarrow> json" where
  "result_json X E r = JObj
     [(''repo'', JStr (rr_repo r)), (''watermark'', jopt (\<lambda>w. JStr (watermark_debug E w)) (rr_watermark r)),
      (''total_in_tenant'', jnat (rr_total_in_tenant r)), (''count'', jnat (length (rr_items r))),
      (''items'', JArr (map (item_json X E) (rr_items r)))]"

fun direction_debug :: "direction \<Rightarrow> string" where
  "direction_debug Out = ''Out''"
| "direction_debug In = ''In''"

definition neighbor_json :: "externals \<Rightarrow> gw_env \<Rightarrow> neighbor_item \<Rightarrow> json" where
  "neighbor_json X E n = JObj
     [(''edge_kind'', JStr (edge_kind_debug (ni_edge_kind n))), (''direction'', JStr (direction_debug (ni_direction n))),
      (''quarantined'', JBool (ni_quarantined n)), (''node'', jopt (item_json X E) (ni_node n))]"

definition parse_kind :: "string \<Rightarrow> node_kind" where
  "parse_kind s =
     (if s = ''finding'' then Finding
      else if s = ''doc'' then Doc
      else if s = ''blocker'' then Blocker
      else if s = ''techdebt'' \<or> s = ''tech_debt'' then TechDebt
      else if s = ''workpackage'' \<or> s = ''work_package'' then WorkPackage
      else if s = ''adr'' then Adr
      else if s = ''handoff'' then Handoff
      else if s = ''benchmark'' then Benchmark
      else if s = ''agentaction'' \<or> s = ''agent_action'' then AgentAction
      else Rationale)"

section \<open>Reading routes\<close>

definition need_param :: "query \<Rightarrow> string \<Rightarrow> string gw" where
  "need_param q key = slift (ok_or (bad_request (key @ '' query param required'')) (qparam q key))"

definition gw_embedder :: "externals \<Rightarrow> gw_env \<Rightarrow> app \<Rightarrow> embedder" where
  "gw_embedder X E app =
     (case ap_embedder app of
        Some (_, e) \<Rightarrow> e
      | None \<Rightarrow> hashing_embed X (me_f32 (ge_mcp E)) (me_tokens (ge_mcp E)) EMBED_DIM)"

definition route_recall :: "externals \<Rightarrow> gw_env \<Rightarrow> app \<Rightarrow> headers \<Rightarrow> string \<Rightarrow> query \<Rightarrow> gw_response gw" where
  "route_recall X E app H oid q =
     sbind (need_param q ''repo'') (\<lambda>repo.
     sbind (gate X E app H oid (repo_resource repo) Read ''recall'') (\<lambda>_.
     sbind (gw_store_rd (storyline X (me_query (ge_mcp E)) (with_in_flight (in_flight_param q) new_recall) repo (gw_budget q 15))) (\<lambda>r.
     sok (GwJson 200 (result_json X E r)))))"

definition gw_search ::
    "externals \<Rightarrow> gw_env \<Rightarrow> app \<Rightarrow> recall \<Rightarrow> string \<Rightarrow> string \<Rightarrow> nat \<Rightarrow> recall_result gw" where
  "gw_search X E app rc repo query budget w =
     (let m = gw_mcp w in
      case search X (me_query (ge_mcp E)) (me_f32 (ge_mcp E)) (gw_embedder X E app) rc repo query budget (mw_store m) (mw_cache m) of
        (r, c) \<Rightarrow> (case r of None \<Rightarrow> Inl GwPanic | Some v \<Rightarrow> map_err (\<lambda>e. ise (store_error_text e)) v,
                   w\<lparr>gw_mcp := m\<lparr>mw_cache := c\<rparr>\<rparr>))"

definition route_search :: "externals \<Rightarrow> gw_env \<Rightarrow> app \<Rightarrow> headers \<Rightarrow> string \<Rightarrow> query \<Rightarrow> gw_response gw" where
  "route_search X E app H oid q =
     sbind (need_param q ''repo'') (\<lambda>repo.
     sbind (need_param q ''q'') (\<lambda>query.
     sbind (gate X E app H oid (repo_resource repo) Read ''search'') (\<lambda>_.
     sbind (gw_search X E app (with_in_flight (in_flight_param q) new_recall) repo query (gw_budget q 10)) (\<lambda>r.
     sok (GwJson 200 (result_json X E r))))))"

definition unresolved :: gw_exit where
  "unresolved = not_found ''node id prefix did not resolve''"

definition resolve_in_tenant :: "externals \<Rightarrow> string \<Rightarrow> string \<Rightarrow> (content_hash \<times> memory_node) gw" where
  "resolve_in_tenant X repo prefix =
     sbind (gw_store_rd (resolve_prefix_in X repo prefix)) (\<lambda>found.
     sbind (slift (ok_or unresolved found)) (\<lambda>nid.
     sbind (gw_store_rd (get_node X nid)) (\<lambda>node.
     case node of
       Some n \<Rightarrow> if n_repo n = repo then sok (nid, n) else serr unresolved
     | None \<Rightarrow> serr unresolved)))"

definition grant_can_read :: "externals \<Rightarrow> gw_env \<Rightarrow> capability_grant \<Rightarrow> nat \<Rightarrow> string \<Rightarrow> bool" where
  "grant_can_read X E grant tick repo \<longleftrightarrow> check X grant (repo_resource repo) Read (me_now_for (ge_mcp E) tick repo) = Inr ()"

definition readable_neighbors ::
    "externals \<Rightarrow> gw_env \<Rightarrow> capability_grant \<Rightarrow> string \<Rightarrow> content_hash \<Rightarrow> nat \<Rightarrow> neighbor_item list gw" where
  "readable_neighbors X E grant repo nid budget w =
     gw_store_rd (neighbors_readable X nid budget (\<lambda>t. t = repo \<or> grant_can_read X E grant (tick_of w) t)) w"

definition route_neighbors :: "externals \<Rightarrow> gw_env \<Rightarrow> app \<Rightarrow> headers \<Rightarrow> string \<Rightarrow> query \<Rightarrow> gw_response gw" where
  "route_neighbors X E app H oid q =
     sbind (need_param q ''repo'') (\<lambda>repo.
     sbind (need_param q ''id'') (\<lambda>prefix.
     sbind (gate_with_grant X E app H oid (repo_resource repo) Read ''neighbors'') (\<lambda>(_, grant).
     sbind (resolve_in_tenant X repo prefix) (\<lambda>(nid, _).
     sbind (readable_neighbors X E grant repo nid (gw_budget q 20)) (\<lambda>ns.
     sok (GwJson 200 (JObj [(''id'', JStr (to_hex (hex_encode X) nid)), (''count'', jnat (length ns)),
       (''neighbors'', JArr (map (neighbor_json X E) ns))])))))))"

definition is_superseded :: "memory_node \<Rightarrow> neighbor_item list \<Rightarrow> bool" where
  "is_superseded node ns \<longleftrightarrow> n_status node = Superseded \<or>
     list_ex (\<lambda>n. ni_edge_kind n = Supersedes \<and> ni_direction n = In \<and> \<not> ni_quarantined n) ns"

definition is_contradicted :: "neighbor_item list \<Rightarrow> bool" where
  "is_contradicted ns \<longleftrightarrow>
     list_ex (\<lambda>n. (ni_edge_kind n = Contradicts \<or> ni_edge_kind n = Refutes) \<and> \<not> ni_quarantined n) ns"

definition verdict :: "bool \<Rightarrow> bool \<Rightarrow> string" where
  "verdict superseded contradicted =
     (if superseded then ''superseded'' else if contradicted then ''contradicted'' else ''current'')"

definition verify_item :: "content_hash \<Rightarrow> memory_node \<Rightarrow> recall_item" where
  "verify_item nid n = \<lparr>ri_id = nid, ri_kind = n_kind n, ri_repo = n_repo n,
     ri_title = of_bytes (utf8_lossy (n_content n)), ri_valid_from = n_valid_from n, ri_plane = n_plane n,
     ri_trust_tier = n_trust_tier n, ri_source = n_source_ref n, ri_status = n_status n, ri_score = None,
     ri_in_flight_branch = None\<rparr>"

definition route_verify :: "externals \<Rightarrow> gw_env \<Rightarrow> app \<Rightarrow> headers \<Rightarrow> string \<Rightarrow> query \<Rightarrow> gw_response gw" where
  "route_verify X E app H oid q =
     sbind (need_param q ''repo'') (\<lambda>repo.
     sbind (need_param q ''id'') (\<lambda>prefix.
     sbind (gate_with_grant X E app H oid (repo_resource repo) Read ''verify'') (\<lambda>(_, grant).
     sbind (resolve_in_tenant X repo prefix) (\<lambda>(nid, node).
     sbind (readable_neighbors X E grant repo nid 64) (\<lambda>ns.
     let superseded = is_superseded node ns; contradicted = is_contradicted ns; item = verify_item nid node in
     sok (GwJson 200 (JObj [(''id'', JStr (to_hex (hex_encode X) nid)), (''verdict'', JStr (verdict superseded contradicted)),
       (''superseded'', JBool superseded), (''contradicted'', JBool contradicted), (''node'', item_json X E item),
       (''neighbors'', JArr (map (neighbor_json X E) ns))])))))))"

definition route_review :: "externals \<Rightarrow> gw_env \<Rightarrow> app \<Rightarrow> headers \<Rightarrow> string \<Rightarrow> query \<Rightarrow> gw_response gw" where
  "route_review X E app H oid q =
     sbind (need_param q ''repo'') (\<lambda>repo.
     sbind (gate X E app H oid (repo_resource repo) Read ''review'') (\<lambda>_.
     let want = gw_budget q 25 in
     sbind (gw_store_rd (storyline X (me_query (ge_mcp E)) new_recall repo (min (want * 4) 500))) (\<lambda>r.
     let items = take want (filter (\<lambda>it. ri_trust_tier it = InferredAdvisory \<or> ri_status it \<noteq> Active) (rr_items r)) in
     sok (GwJson 200 (JObj [(''repo'', JStr (rr_repo r)), (''total_in_tenant'', jnat (rr_total_in_tenant r)),
       (''count'', jnat (length items)), (''items'', JArr (map (item_json X E) items))])))))"

definition route_org_health :: "externals \<Rightarrow> gw_env \<Rightarrow> app \<Rightarrow> headers \<Rightarrow> string \<Rightarrow> gw_response gw" where
  "route_org_health X E app H oid =
     sbind (gate X E app H oid ''*'' Read ''health'') (\<lambda>_.
     sok (GwJson 200 (JObj [(''ok'', JBool True), (''org'', JStr oid)])))"

definition CHAIN_ID_40204 :: u64 where "CHAIN_ID_40204 = 40204"

definition chain_note :: string where
  "chain_note = ''external-root checkpoints bind to the live 40204 head (read-only); the on-chain WRITE (root '' @
     of_bytes [0xE2, 0x86, 0x92] @ '' AnchorRegistry) is the deferred WP-5.3 follow-up (needs a funded signer + Rule-8).''"

definition route_ops :: "externals \<Rightarrow> gw_env \<Rightarrow> app \<Rightarrow> headers \<Rightarrow> gw_response gw" where
  "route_ops X E app H =
     sbind (gate X E app H (ap_org_id app) ''*'' Read ''ops'') (\<lambda>_.
     sbind (gw_store_rd node_count) (\<lambda>nodes.
     sbind (gw_store_rd edge_count) (\<lambda>edges w.
     (Inr (GwJson 200 (JObj [(''org'', JStr (ap_org_id app)), (''store_path'', JStr (ap_store_path app)),
        (''encrypted_at_rest'', JBool (is_encrypted_at_rest (mw_store (gw_mcp w)))), (''node_count'', jnat nodes),
        (''edge_count'', jnat edges), (''audit_records'', jnat (chain_len (mw_chain (gw_mcp w)))),
        (''embedder'', jopt (\<lambda>(model, _). JStr model) (ap_embedder app)), (''oidc'', JBool (ap_oidc app \<noteq> None)),
        (''dev_auth'', JBool (ap_allow_dev_auth app)),
        (''chain'', JObj [(''checkpoint_binding'', JBool (ap_chain_rpc app \<noteq> None)),
           (''chain_id'', jnat (unat CHAIN_ID_40204)), (''note'', JStr chain_note)])])), w))))"

section \<open>The layout\<close>

definition LAYOUT_CAP :: nat where "LAYOUT_CAP = 1500"

definition node_input_of :: "externals \<Rightarrow> memory_node \<Rightarrow> node_input" where
  "node_input_of X n = \<lparr>nu_id = to_hex (hex_encode X) (node_id X n), nu_title = of_bytes (utf8_lossy (n_content n)),
     nu_kind = discriminant (n_kind n), nu_repo = n_repo n, nu_plane = to_lowercase (plane_debug (n_plane n)),
     nu_trust = tier_debug (n_trust_tier n), nu_status = status_debug (n_status n),
     nu_embedding = map_option vv_data (n_embedding n)\<rparr>"

definition chosen_nodes :: "memory_node list \<Rightarrow> memory_node list" where
  "chosen_nodes ns =
     (let fed = filter (\<lambda>n. n_repo n = ''federation'') ns in if 2 \<le> length fed then fed else take LAYOUT_CAP ns)"

definition layout_edges :: "externals \<Rightarrow> string set \<Rightarrow> memory_node \<Rightarrow> raw_edge list \<Rightarrow> (gw_world, gw_exit, raw_edge list) action" where
  "layout_edges X ids n acc =
     sbind (gw_store_rd (out_edges X (node_id X n))) (\<lambda>es.
     sok (acc @ map (\<lambda>e. (to_hex (hex_encode X) (node_id X n), to_hex (hex_encode X) (e_to e), edge_kind_debug (e_kind e), e_quarantined e))
       (filter (\<lambda>e. to_hex (hex_encode X) (e_to e) \<in> ids) es)))"

definition build_layout :: "externals \<Rightarrow> gw_env \<Rightarrow> string \<Rightarrow> scene gw" where
  "build_layout X E oid w =
     (case gw_layout w of
        Some s \<Rightarrow> (Inr s, w)
      | None \<Rightarrow>
          sbind (gw_store_rd (all_nodes X)) (\<lambda>ns.
          let chosen = chosen_nodes ns; ids = set (map (\<lambda>n. to_hex (hex_encode X) (node_id X n)) chosen) in
          sbind (sfold (layout_edges X ids) chosen []) (\<lambda>es w.
          let s = build_scene (ge_scene E) oid (map (node_input_of X) chosen) es in
          (Inr s, w\<lparr>gw_layout := Some s\<rparr>))) w)"

definition scene_node_json :: "gw_env \<Rightarrow> scene_node \<Rightarrow> json" where
  "scene_node_json E n = (case sn_pos n of (x, y, z) \<Rightarrow> JObj
     [(''id'', JStr (sn_id n)), (''title'', JStr (sn_title n)), (''kind'', JStr (sn_kind n)), (''repo'', JStr (sn_repo n)),
      (''plane'', JStr (sn_plane n)), (''trust'', JStr (sn_trust n)), (''lane'', JStr (sn_lane n)),
      (''status'', JStr (sn_status n)), (''pos'', JArr [ge_f32_json E x, ge_f32_json E y, ge_f32_json E z]),
      (''degree'', jnat (unat (sn_degree n))), (''contradicted'', JBool (sn_contradicted n)),
      (''projected'', JBool (sn_projected n))])"

definition scene_json :: "gw_env \<Rightarrow> scene \<Rightarrow> json" where
  "scene_json E s = JObj
     [(''org'', JStr (sc_org s)), (''projection'', JStr (sc_projection s)), (''node_count'', jnat (sc_node_count s)),
      (''edge_count'', jnat (sc_edge_count s)), (''nodes'', JArr (map (scene_node_json E) (sc_nodes s))),
      (''edges'', JArr (map (\<lambda>e. JObj [(''from'', JStr (sg_from e)), (''to'', JStr (sg_to e)), (''kind'', JStr (sg_kind e)),
         (''quarantined'', JBool (sg_quarantined e))]) (sc_edges s)))]"

definition route_layout :: "externals \<Rightarrow> gw_env \<Rightarrow> app \<Rightarrow> headers \<Rightarrow> string \<Rightarrow> gw_response gw" where
  "route_layout X E app H oid =
     sbind (gate X E app H oid ''*'' Read ''layout'') (\<lambda>_.
     sbind (build_layout X E oid) (\<lambda>s. sok (GwJson 200 (scene_json E s))))"

section \<open>Writing routes\<close>

record assert_body =
  ab_repo :: string
  ab_content :: string
  ab_kind :: "string option"
  ab_valid_from :: "u64 option"

definition gw_store_run :: "('e \<Rightarrow> gw_exit) \<Rightarrow> (dag_store, 'e, 'a) action \<Rightarrow> 'a gw" where
  "gw_store_run g m w =
     (case m (mw_store (gw_mcp w)) of (r, s) \<Rightarrow> (map_err g r, w\<lparr>gw_mcp := (gw_mcp w)\<lparr>mw_store := s\<rparr>\<rparr>))"

definition drop_layout :: "unit gw" where
  "drop_layout w = (Inr (), w\<lparr>gw_layout := None\<rparr>)"

definition route_assert :: "externals \<Rightarrow> gw_env \<Rightarrow> app \<Rightarrow> headers \<Rightarrow> string \<Rightarrow> assert_body \<Rightarrow> gw_response gw" where
  "route_assert X E app H oid body =
     (if ab_repo body = [] then serr (bad_request ''repo required'')
      else if ab_content body = [] then serr (bad_request ''content required'')
      else
        sbind (gate X E app H oid (repo_resource (ab_repo body)) Write ''assert'') (\<lambda>sub.
        let kind = parse_kind (case ab_kind body of None \<Rightarrow> ''rationale'' | Some k \<Rightarrow> k);
            asserter = for_principal X (ap_signing_key app) sub;
            (embedding, warning) =
              (case ap_embedder app of
                 Some (_, e) \<Rightarrow> (case e (ab_content body) of Inr v \<Rightarrow> (Some v, None) | Inl err \<Rightarrow> (None, Some (embed_error_text err)))
               | None \<Rightarrow> (None, Some ''gateway has no embedder configured''))
        in sbind (gw_now E) (\<lambda>now.
        let node = assert_node_with X asserter (ab_repo body) kind (ab_content body)
              (case ab_valid_from body of None \<Rightarrow> now | Some v \<Rightarrow> v) now embedding in
        sbind (gw_store_run (\<lambda>e. ise (store_error_text e)) (put_node X node)) (\<lambda>nid.
        sbind drop_layout (\<lambda>_.
        sok (GwJson 200 (JObj [(''id'', JStr (to_hex (hex_encode X) nid)), (''repo'', JStr (ab_repo body)),
          (''author'', JStr (as_pubkey_hex asserter)), (''embedded'', JBool (warning = None)),
          (''warning'', jopt JStr warning)])))))))"

definition sign_checkpoint :: "externals \<Rightarrow> gw_env \<Rightarrow> key256 \<Rightarrow> chain_anchor_record \<Rightarrow> (gw_exit, json) result" where
  "sign_checkpoint X E key rec =
     rbind (map_err ise (chain_to_json (ge_chain E) rec)) (\<lambda>b.
     Inr (JObj [(''record'', ge_record_json E rec), (''signature'', JStr (hex_encode X (ed25519_sign X key b))),
       (''gateway_pubkey'', JStr (hex_encode X (hash_bytes (ed25519_public X key)))), (''alg'', JStr ''ed25519''),
       (''signed_over'', JStr (''compact-json(record) '' @ em_dash @ '' the exact bytes are signed_payload_hex'')),
       (''signed_payload_hex'', JStr (hex_encode X b))]))"

fun map_sync_err :: "sync_error \<Rightarrow> gw_exit" where
  "map_sync_err (Chain m) = Api 502 (''chain checkpoint failed: '' @ m)"
| "map_sync_err other = ise (sync_error_text other)"

definition route_submit_checkpoint ::
    "externals \<Rightarrow> gw_env \<Rightarrow> app \<Rightarrow> headers \<Rightarrow> string \<Rightarrow> string \<Rightarrow> string \<Rightarrow> gw_response gw" where
  "route_submit_checkpoint X E app H oid repo raw_root =
     (if repo = [] then serr (bad_request ''repo required'')
      else let root = trim raw_root in
      if root = [] then serr (bad_request ''root required'')
      else if length root > 256 then serr (bad_request ''root too long (max 256 chars; submit a hash, not a document)'')
      else
        sbind (gate X E app H oid (repo_resource repo) Write ''checkpoint'') (\<lambda>_.
        sbind (slift (ok_or (Api 503 (''chain RPC not configured '' @ em_dash @ '' external checkpoint binding is disabled''))
          (ap_chain_rpc app))) (\<lambda>rpc.
        sbind (gw_now E) (\<lambda>now.
        sbind (gw_store_run map_sync_err (checkpoint_external_root X (ge_chain E) (ge_rpc E) repo root rpc CHAIN_ID_40204 now)) (\<lambda>rec.
        sbind (slift (sign_checkpoint X E (ap_signing_key app) rec)) (\<lambda>j.
        sok (GwJson 200 j)))))))"

definition gw_sync_rd :: "(dag_store \<Rightarrow> (sync_error, 'a) result) \<Rightarrow> 'a gw" where
  "gw_sync_rd f w = (map_err map_sync_err (f (mw_store (gw_mcp w))), w)"

definition route_read_checkpoint ::
    "externals \<Rightarrow> gw_env \<Rightarrow> app \<Rightarrow> headers \<Rightarrow> string \<Rightarrow> string \<Rightarrow> gw_response gw" where
  "route_read_checkpoint X E app H oid repo =
     (if repo = [] then serr (bad_request ''repo query param required'')
      else
        sbind (gate X E app H oid (repo_resource repo) Read ''checkpoint_read'') (\<lambda>_.
        sbind (gw_sync_rd (latest_external_checkpoint X (ge_chain E) repo)) (\<lambda>rec.
        case rec of
          None \<Rightarrow> sok GwNoContent
        | Some r \<Rightarrow> sbind (slift (sign_checkpoint X E (ap_signing_key app) r)) (\<lambda>j. sok (GwJson 200 j)))))"

section \<open>The GitHub webhook\<close>

definition allowed_owner :: "gw_env \<Rightarrow> string" where
  "allowed_owner E =
     (case map_option trim (ge_allowed_owner E) of
        Some s \<Rightarrow> if s = [] then ''CitrateNetwork'' else s
      | None \<Rightarrow> ''CitrateNetwork'')"

definition verify_webhook :: "externals \<Rightarrow> gw_env \<Rightarrow> bytes \<Rightarrow> string option \<Rightarrow> bytes \<Rightarrow> bool" where
  "verify_webhook X E secret signature_header body =
     (if secret = [] then False
      else case signature_header of
        None \<Rightarrow> False
      | Some h \<Rightarrow>
          (case strip_prefix ''sha256='' h of
             None \<Rightarrow> False
           | Some hex_sig \<Rightarrow>
               if hex_sig = [] then False
               else (case hex_decode X hex_sig of Inl _ \<Rightarrow> False | Inr provided \<Rightarrow> provided = ge_hmac_sha256 E secret body)))"

definition ascii_alphanumeric :: "char \<Rightarrow> bool" where
  "ascii_alphanumeric c \<longleftrightarrow> (let n = of_char c :: nat in (48 \<le> n \<and> n \<le> 57) \<or> (65 \<le> n \<and> n \<le> 90) \<or> (97 \<le> n \<and> n \<le> 122))"

definition is_safe_repo_name :: "string \<Rightarrow> bool" where
  "is_safe_repo_name name =
     (if name = [] \<or> name = ''.'' \<or> name = ''..'' \<or> length name > 100 then False
      else list_all (\<lambda>c. ascii_alphanumeric c \<or> c = CHR ''-'' \<or> c = CHR ''_'' \<or> c = CHR ''.'') name)"

definition allowed_repo :: "gw_env \<Rightarrow> string \<Rightarrow> string option" where
  "allowed_repo E full_name =
     Option.bind (split_once_char (CHR ''/'') full_name) (\<lambda>(owner, repo).
     if owner \<noteq> allowed_owner E then None
     else if \<not> is_safe_repo_name repo then None
     else Some repo)"

definition parse_push_event :: "gw_env \<Rightarrow> bytes \<Rightarrow> push_event option" where
  "parse_push_event E body =
     (case me_parse (ge_mcp E) (of_bytes body) of
        Inl _ \<Rightarrow> None
      | Inr v \<Rightarrow>
          Option.bind (json_get ''repository'' v) (\<lambda>r.
          Option.bind (json_get ''full_name'' r) (\<lambda>f.
          Option.bind (json_as_str f) (\<lambda>full_name.
          Option.bind (allowed_repo E full_name) (\<lambda>repo.
          Option.bind (json_get ''ref'' v) (\<lambda>g.
          Option.bind (json_as_str g) (\<lambda>git_ref.
          Some \<lparr>pe_repo = repo, pe_git_ref = git_ref,
            pe_after = (case Option.bind (json_get ''after'' v) json_as_str of None \<Rightarrow> [] | Some a \<Rightarrow> a)\<rparr>)))))))"

definition route_webhook :: "externals \<Rightarrow> gw_env \<Rightarrow> headers \<Rightarrow> bytes \<Rightarrow> gw_response gw" where
  "route_webhook X E H body w =
     (if ge_webhook_secret E = [] then
        (Inl (Api 503 ''ingest webhook disabled (MEM_INGEST_WEBHOOK_SECRET unset)''), w)
      else if \<not> verify_webhook X E (as_bytes (ge_webhook_secret E)) (H ''x-hub-signature-256'') body then
        (Inl (unauthorized ''invalid or missing webhook signature''), w)
      else if H ''x-github-event'' = Some ''ping'' then (Inr (GwJson 200 (JObj [(''pong'', JBool True)])), w)
      else case parse_push_event E body of
        Some ev \<Rightarrow>
          let q = gw_queue w @ [ev] in
          (Inr (GwJson 202 (JObj [(''queued'', JStr (pe_repo ev)), (''ref'', JStr (pe_git_ref ev)),
             (''queue_depth'', jnat (length q))])), w\<lparr>gw_queue := q\<rparr>)
      | None \<Rightarrow> (Inl (bad_request ''not an in-scope CitrateNetwork push event''), w))"

section \<open>Connect tokens and the model's own session\<close>

definition TTL_SECS :: u64 where "TTL_SECS = 15 * 60"

definition route_connect_token :: "gw_env \<Rightarrow> app \<Rightarrow> headers \<Rightarrow> gw_response gw" where
  "route_connect_token E app H =
     sbind (authenticate E app H) (\<lambda>sub.
     sbind (slift (ok_or (Api 501 ''connect minting not configured'') (ap_connect_secret app))) (\<lambda>secret.
     sbind (gw_now E) (\<lambda>now.
     sbind (slift (map_err (\<lambda>_. Api 500 ''mint failed'')
       (mint_connect_token (ge_jwt E) secret (ap_org_id app) sub (Some ''read'') [] (now div 1000) TTL_SECS))) (\<lambda>token.
     sok (GwJson 200 (JObj [(''connect_token'', JStr token), (''sub'', JStr sub), (''scope'', JStr ''read''),
       (''expires_in'', jnat (unat TTL_SECS))]))))))"

datatype cred = Oidc principal | Connect connect_claims

definition cred_sub :: "cred \<Rightarrow> string" where
  "cred_sub c = (case c of Oidc p \<Rightarrow> pr_sub p | Connect cl \<Rightarrow> cn_sub cl)"

definition byom_credential :: "gw_env \<Rightarrow> app \<Rightarrow> string \<Rightarrow> cred gw" where
  "byom_credential E app token w =
     (case Option.bind (ap_oidc app) (\<lambda>V. case verify_principal (ge_jwt E) V (tick_of w) token of Inl _ \<Rightarrow> None | Inr p \<Rightarrow> Some p) of
        Some p \<Rightarrow> (Inr (Oidc p), w)
      | None \<Rightarrow>
          (case ap_connect_secret app of
             None \<Rightarrow> (Inl (Api 501 ''BYOM connect not configured''), w)
           | Some secret \<Rightarrow>
               (case verify_connect_token (ge_jwt E) secret (tick_of w) token of
                  Inl _ \<Rightarrow> (Inl (unauthorized ''token rejected''), w)
                | Inr c \<Rightarrow>
                    if cn_org c \<noteq> Some (ap_org_id app) then (Inl (forbidden ''connect token not issued for this org''), w)
                    else (Inr (Connect c), w))))"

definition byom_membership :: "gw_env \<Rightarrow> app \<Rightarrow> string \<Rightarrow> cred \<Rightarrow> membership gw" where
  "byom_membership E app sub c =
     sbind (existing_membership sub (ap_org_id app)) (\<lambda>existing.
     case existing of
       Some m \<Rightarrow> sok m
     | None \<Rightarrow>
         (case c of
            Oidc p \<Rightarrow>
              sbind (jit_provision E app p (ap_org_id app)) (\<lambda>r. slift (ok_or (forbidden ''no membership in org'') r))
          | Connect _ \<Rightarrow> serr (forbidden ''no membership in org'')))"

text \<open>The grant of the session a request opens.\<close>

definition byom_grant :: "externals \<Rightarrow> gw_env \<Rightarrow> app \<Rightarrow> headers \<Rightarrow> string \<Rightarrow> capability_grant gw" where
  "byom_grant X E app H sub =
     sbind (slift (ok_or (unauthorized ''missing bearer token'') (bearer H))) (\<lambda>token.
     sbind (byom_credential E app token) (\<lambda>c.
     if cred_sub c \<noteq> sub then serr (forbidden ''token sub mismatch'')
     else
       sbind (byom_membership E app sub c) (\<lambda>m.
       sbind (gw_now E) (\<lambda>now.
       let grant = mint_grant X (ap_signing_key app) (ap_issuer app) m now GRANT_TTL_MS in
       case c of
         Connect cl \<Rightarrow> sbind (gw_now E) (\<lambda>now2. sok (attenuate_grant X now2 grant cl (ap_signing_key app)))
       | Oidc _ \<Rightarrow> sok grant))))"

definition byom_lines :: "string \<Rightarrow> string list" where
  "byom_lines body = filter (\<lambda>l. l \<noteq> []) (map trim (str_lines body))"

definition counts_as_call :: "gw_env \<Rightarrow> string \<Rightarrow> bool" where
  "counts_as_call E line =
     (case me_parse (ge_mcp E) line of
        Inl _ \<Rightarrow> True
      | Inr v \<Rightarrow> (case Option.bind (json_get ''method'' v) json_as_str of None \<Rightarrow> True | Some m \<Rightarrow> m = ''tools/call''))"

definition byom_session :: "externals \<Rightarrow> app \<Rightarrow> string \<Rightarrow> capability_grant \<Rightarrow> mcp_server" where
  "byom_session X app sub grant =
     (let S = with_write_gate (new_with_asserter grant (for_principal X (ap_signing_key app) sub))
      in case ap_embedder app of Some (_, e) \<Rightarrow> with_query_embedder e S | None \<Rightarrow> S)"

fun byom_run :: "externals \<Rightarrow> mcp_env \<Rightarrow> string list \<Rightarrow> string \<Rightarrow> mcp_server \<times> mcp_world \<Rightarrow> string option \<times> mcp_world" where
  "byom_run X M [] out Sw = (Some out, snd Sw)"
| "byom_run X M (line # ls) out Sw =
     (case handle_line X M line Sw of
        (None, _, w) \<Rightarrow> (None, w)
      | (Some None, Sw') \<Rightarrow> byom_run X M ls out Sw'
      | (Some (Some resp), Sw') \<Rightarrow> byom_run X M ls (if out = [] then resp else out @ nl @ resp) Sw')"

definition spend_or_refuse :: "gw_env \<Rightarrow> string \<Rightarrow> nat \<Rightarrow> u64 \<Rightarrow> unit gw" where
  "spend_or_refuse E sub calls now w =
     (case try_spend E sub calls now w of
        (True, w') \<Rightarrow> (Inr (), w')
      | (False, w') \<Rightarrow> (Inl (Api 429 ''BYOM call budget exhausted; retry later''), w'))"

definition enter_or_refuse :: "string \<Rightarrow> unit gw" where
  "enter_or_refuse sub w =
     (case try_enter sub w of
        (True, w') \<Rightarrow> (Inr (), w')
      | (False, w') \<Rightarrow> (Inl (Api 429 ''too many concurrent BYOM requests for this principal''), w'))"

text \<open>The execution on the blocking pool: a panic there is an error of the join, and the claim of
  the principal is released either way.\<close>

definition execute_lines :: "externals \<Rightarrow> gw_env \<Rightarrow> app \<Rightarrow> string \<Rightarrow> capability_grant \<Rightarrow> string list \<Rightarrow> gw_response gw" where
  "execute_lines X E app sub grant ls w =
     (case byom_run X (ge_mcp E) ls [] (byom_session X app sub grant, gw_mcp w) of
        (Some out, m) \<Rightarrow> (Inr (GwText out), leave sub (w\<lparr>gw_mcp := m\<rparr>))
      | (None, m) \<Rightarrow> (Inl (ise (ge_join_error E)), leave sub (w\<lparr>gw_mcp := m\<rparr>)))"

definition route_byom :: "externals \<Rightarrow> gw_env \<Rightarrow> app \<Rightarrow> headers \<Rightarrow> string \<Rightarrow> string \<Rightarrow> gw_response gw" where
  "route_byom X E app H sub body =
     sbind (byom_grant X E app H sub) (\<lambda>grant.
     let ls = byom_lines body in
     if length ls > BYOM_MAX_LINES then
       serr (Api 413 (''too many JSON-RPC calls in one request (max '' @ decimal BYOM_MAX_LINES @ '')''))
     else
       sbind (gw_now E) (\<lambda>now.
       sbind (spend_or_refuse E sub (length (filter (counts_as_call E) ls)) now) (\<lambda>_.
       sbind (enter_or_refuse sub) (\<lambda>_.
       execute_lines X E app sub grant ls))))"

section \<open>Routing\<close>

datatype gw_request =
    GetHealth | GetConnector | PostConnectToken | GetLayout string | GetRecall string query | GetSearch string query
  | GetNeighbors string query | GetVerify string query | GetReview string query | PostAssert string assert_body
  | GetOrgHealth string | PostCheckpoint string string string | GetCheckpoint string string | GetOps
  | PostByom string string | PostWebhook bytes

fun serve_request :: "externals \<Rightarrow> gw_env \<Rightarrow> app \<Rightarrow> headers \<Rightarrow> gw_request \<Rightarrow> gw_response gw" where
  "serve_request X E app H GetHealth = sok (GwJson 200 (JObj [(''ok'', JBool True), (''service'', JStr ''mem-gateway'')]))"
| "serve_request X E app H GetConnector = sok (GwText (ge_connector_script E))"
| "serve_request X E app H PostConnectToken = route_connect_token E app H"
| "serve_request X E app H (GetLayout oid) = route_layout X E app H oid"
| "serve_request X E app H (GetRecall oid q) = route_recall X E app H oid q"
| "serve_request X E app H (GetSearch oid q) = route_search X E app H oid q"
| "serve_request X E app H (GetNeighbors oid q) = route_neighbors X E app H oid q"
| "serve_request X E app H (GetVerify oid q) = route_verify X E app H oid q"
| "serve_request X E app H (GetReview oid q) = route_review X E app H oid q"
| "serve_request X E app H (PostAssert oid body) = route_assert X E app H oid body"
| "serve_request X E app H (GetOrgHealth oid) = route_org_health X E app H oid"
| "serve_request X E app H (PostCheckpoint oid repo root) = route_submit_checkpoint X E app H oid repo root"
| "serve_request X E app H (GetCheckpoint oid repo) = route_read_checkpoint X E app H oid repo"
| "serve_request X E app H GetOps = route_ops X E app H"
| "serve_request X E app H (PostByom sub body) = route_byom X E app H sub body"
| "serve_request X E app H (PostWebhook body) = route_webhook X E H body"

end
