(* ===== verification/Gateway_Safety.thy ===== *)
theory Gateway_Safety
  imports Gateway Mcp_Safety
begin

text \<open>
  What a request of the HTTP gateway may do. Every route of an organisation answers, and writes,
  only for an authenticated member whose role and scopes allow it, with an audit record; the
  session a model's own client gets is no stronger than the membership and the token; only
  authenticated pushes of the own organisation reach the ingest queue; and two gaps: a
  membership that could not be saved is honoured by the next request, and the session route
  does not look at the status of the organisation.
\<close>

named_theorems steady_rules \<open>actions after the gate: the log grows, control plane and queue stay\<close>
named_theorems calm_rules \<open>actions that also leave the store alone\<close>

section \<open>Actions after the gate\<close>

definition steady :: "'a gw \<Rightarrow> bool" where
  "steady m \<longleftrightarrow> (\<forall>w. log_extends (gw_mcp w) (gw_mcp (snd (m w))) \<and> gw_control (snd (m w)) = gw_control w \<and>
     gw_queue (snd (m w)) = gw_queue w)"

definition calm :: "'a gw \<Rightarrow> bool" where
  "calm m \<longleftrightarrow> (\<forall>w. mw_store (gw_mcp (snd (m w))) = mw_store (gw_mcp w) \<and> gw_queue (snd (m w)) = gw_queue w)"

lemma steady_basic [steady_rules]: "steady (sok x)" "steady (serr e)" "steady (slift r)"
  by (simp_all add: steady_def sok_def serr_def slift_def)

lemma calm_basic [calm_rules]: "calm (sok x)" "calm (serr e)" "calm (slift r)"
  by (simp_all add: calm_def sok_def serr_def slift_def)

lemma steady_sbind [steady_rules]: "steady m \<Longrightarrow> (\<And>x. steady (f x)) \<Longrightarrow> steady (sbind m f)"
  unfolding steady_def sbind_def by (auto split: prod.splits sum.splits intro: log_extends_trans) (metis log_extends_trans snd_conv)+

lemma calm_sbind [calm_rules]: "calm m \<Longrightarrow> (\<And>x. calm (f x)) \<Longrightarrow> calm (sbind m f)"
  unfolding calm_def sbind_def by (auto split: prod.splits sum.splits) (metis snd_conv)+

lemma steady_sfold [steady_rules]: "(\<And>x a. steady (f x a)) \<Longrightarrow> steady (sfold f xs a)"
  by (induction xs arbitrary: a) (auto intro: steady_rules)

lemma calm_sfold [calm_rules]: "(\<And>x a. calm (f x a)) \<Longrightarrow> calm (sfold f xs a)"
  by (induction xs arbitrary: a) (auto intro: calm_rules)

lemma steady_prims [steady_rules]:
  "steady (gw_now E)" "steady (gw_store_rd rd)" "steady (gw_sync_rd sr)" "steady drop_layout"
  "steady (gw_search X E app rc repo query b)" "steady (gw_store_run g m)"
  by (auto simp: steady_def gw_now_def gw_store_rd_def gw_sync_rd_def drop_layout_def gw_search_def gw_store_run_def
      log_extends_def Let_def split: prod.splits)

lemma calm_prims [calm_rules]:
  "calm (gw_now E)" "calm (gw_store_rd rd)" "calm (gw_sync_rd sr)" "calm drop_layout"
  "calm (gw_search X E app rc repo query b)"
  by (auto simp: calm_def gw_now_def gw_store_rd_def gw_sync_rd_def drop_layout_def gw_search_def Let_def split: prod.splits)

lemma log_extends_same [simp]:
  "log_extends w (w'\<lparr>mw_tick := t\<rparr>) \<longleftrightarrow> mw_tick w \<le> t \<and> (\<exists>rs. ac_records (mw_chain w') = ac_records (mw_chain w) @ rs)"
  by (simp add: log_extends_def)

lemma audit_event_run:
  assumes "audit_event X E ev actor resource detail w = (r, w')"
  shows "log_extends (gw_mcp w) (gw_mcp w')" "gw_control w' = gw_control w" "gw_queue w' = gw_queue w"
    "mw_store (gw_mcp w') = mw_store (gw_mcp w)"
    and "r = Inr () \<Longrightarrow> \<exists>q. ac_records (mw_chain (gw_mcp w')) = ac_records (mw_chain (gw_mcp w)) @ [q] \<and> ar_event q = ev \<and>
      ar_actor q = actor \<and> ar_resource_id q = resource"
proof -
  obtain q m where a: "audit_append X (ge_mcp E) ev actor resource detail (me_now (ge_mcp E) (tick_of w))
      ((gw_mcp w)\<lparr>mw_tick := tick_of w + 1\<rparr>) = (q, m)" by fastforce
  have w': "w' = w\<lparr>gw_mcp := m\<rparr>" and r: "\<And>e. q = Inl e \<Longrightarrow> r \<noteq> Inr ()"
    using assms a by (auto simp: audit_event_def sbind_def gw_now_def split: sum.splits)
  note run = audit_append_run [OF a]
  show "gw_control w' = gw_control w" "gw_queue w' = gw_queue w" "mw_store (gw_mcp w') = mw_store (gw_mcp w)"
    using run(1) by (simp_all add: w')
  show "log_extends (gw_mcp w) (gw_mcp w')"
    using run(2-) by (cases q) (auto simp: w' log_extends_def)
  show "\<exists>q. ac_records (mw_chain (gw_mcp w')) = ac_records (mw_chain (gw_mcp w)) @ [q] \<and> ar_event q = ev \<and>
      ar_actor q = actor \<and> ar_resource_id q = resource" if "r = Inr ()"
    using run(4) r that by (cases q) (auto simp: w')
qed

lemma steady_audit [steady_rules]: "steady (audit_event X E ev actor resource detail)"
  and calm_audit [calm_rules]: "calm (audit_event X E ev actor resource detail)"
proof -
  let ?m = "audit_event X E ev actor resource detail"
  have "log_extends (gw_mcp w) (gw_mcp (snd (?m w))) \<and> gw_control (snd (?m w)) = gw_control w \<and>
      gw_queue (snd (?m w)) = gw_queue w \<and> mw_store (gw_mcp (snd (?m w))) = mw_store (gw_mcp w)" for w
  proof -
    obtain r w' where run: "?m w = (r, w')" by (cases "?m w")
    show ?thesis unfolding run snd_conv by (intro conjI audit_event_run(1-4) [OF run])
  qed
  then show "steady ?m" "calm ?m" by (simp_all add: steady_def calm_def)
qed

lemma best_effort_rules [steady_rules, calm_rules]:
  "steady m \<Longrightarrow> steady (best_effort m)" "calm m \<Longrightarrow> calm (best_effort m)"
  by (simp_all add: steady_def calm_def best_effort_def)

section \<open>The gate\<close>

text \<open>What a request has shown when it is past the gate: it acts for an authenticated principal who is
  a member of the active organisation of this gateway, whose membership allows the operation on
  the resource, and the audit log has a new record of it.\<close>

definition gate_passed ::
    "gw_env \<Rightarrow> app \<Rightarrow> headers \<Rightarrow> string \<Rightarrow> string \<Rightarrow> op \<Rightarrow> gw_world \<Rightarrow> gw_world \<Rightarrow> bool" where
  "gate_passed E app H oid res operation w w' \<longleftrightarrow> oid = ap_org_id app \<and>
     (\<exists>og. find_org oid (gw_control w) = Some og \<and> og_status og = OrgActive) \<and>
     (\<exists>p m. authenticate_principal E app H w = (Inr p, w) \<and> find_membership (pr_sub p) oid (gw_control w') = Some m \<and>
        may_do m operation res \<and>
        (\<exists>r \<in> set (drop (length (ac_records (mw_chain (gw_mcp w)))) (ac_records (mw_chain (gw_mcp w')))).
           ar_event r = event_for operation \<and> ar_actor r = pr_sub p \<and> ar_resource_id r = res))"

lemma gate_passed_later:
  assumes "gate_passed E app H oid res operation w v" "log_extends (gw_mcp v) (gw_mcp v')" "gw_control v' = gw_control v"
  shows "gate_passed E app H oid res operation w v'"
proof -
  from assms(2) obtain rs where "ac_records (mw_chain (gw_mcp v')) = ac_records (mw_chain (gw_mcp v)) @ rs"
    by (auto simp: log_extends_def)
  with assms(1,3) show ?thesis unfolding gate_passed_def by (auto simp: drop_append)
qed

lemma authenticate_state: "authenticate_principal E app H w = (r, w') \<Longrightarrow> w' = w"
  by (auto simp: authenticate_principal_def split: option.splits if_splits)

lemma jit_run:
  assumes "jit_provision E app p oid w = (r, w')"
  shows "gw_mcp w' = gw_mcp w" "gw_queue w' = gw_queue w" "ct_orgs (gw_control w') = ct_orgs (gw_control w)"
    and "r = Inr (Some m) \<Longrightarrow> find_membership (pr_sub p) oid (gw_control w') = Some m"
  using assms
  by (auto simp: jit_provision_def Let_def upsert_membership_full_def split: option.splits if_splits prod.splits sum.splits)

lemma gate_membership_run:
  assumes "gate_membership X E app p oid res w = (r, w')"
  shows "log_extends (gw_mcp w) (gw_mcp w')" "mw_store (gw_mcp w') = mw_store (gw_mcp w)" "gw_queue w' = gw_queue w"
    and "r = Inr m \<Longrightarrow> find_membership (pr_sub p) oid (gw_control w') = Some m \<and>
      (\<exists>og. find_org oid (gw_control w) = Some og \<and> og_status og = OrgActive)"
proof -
  have "log_extends (gw_mcp w) (gw_mcp w') \<and> mw_store (gw_mcp w') = mw_store (gw_mcp w) \<and> gw_queue w' = gw_queue w \<and>
    (\<forall>m. r = Inr m \<longrightarrow> find_membership (pr_sub p) oid (gw_control w') = Some m \<and>
      (\<exists>og. find_org oid (gw_control w) = Some og \<and> og_status og = OrgActive))"
  proof (cases "\<exists>og. find_org oid (gw_control w) = Some og \<and> og_status og = OrgActive")
    case False
    with assms show ?thesis
      by (auto simp: gate_membership_def sbind_def check_org_def split: option.splits if_splits)
  next
    case True
    then have c: "check_org oid w = (Inr (), w)" by (auto simp: check_org_def)
    show ?thesis
    proof (cases "find_membership (pr_sub p) oid (gw_control w)")
      case (Some m)
      with assms True show ?thesis
        by (auto simp: gate_membership_def sbind_def c existing_membership_def sok_def)
    next
      case None
      obtain q v where j: "jit_provision E app p oid w = (q, v)" by (cases "jit_provision E app p oid w")
      have "\<exists>y. q = Inr y"
        using j by (auto simp: jit_provision_def Let_def split: option.splits if_splits prod.splits sum.splits)
      then obtain y where y: "q = Inr y" by blast
      define ev where "ev = (if y = None then EvDenied else EvWrite)"
      define detail where "detail = (if y = None then ''no membership'' else ''jit-provision membership'')"
      obtain a v' where a: "audit_event X E ev (pr_sub p) res detail v = (a, v')"
        by (cases "audit_event X E ev (pr_sub p) res detail v")
      have "w' = v'" and r: "r = (case y of None \<Rightarrow> Inl (forbidden ''no membership in org'') | Some m \<Rightarrow> Inr m)"
        using assms a None y
        by (auto simp: gate_membership_def sbind_def c existing_membership_def j best_effort_def sok_def serr_def
            ev_def detail_def split: option.splits)
      with audit_event_run(1-4) [OF a] jit_run [OF j] y True show ?thesis
        by (auto split: option.splits)
    qed
  qed
  then show "log_extends (gw_mcp w) (gw_mcp w')" "mw_store (gw_mcp w') = mw_store (gw_mcp w)" "gw_queue w' = gw_queue w"
    "r = Inr m \<Longrightarrow> find_membership (pr_sub p) oid (gw_control w') = Some m \<and>
      (\<exists>og. find_org oid (gw_control w) = Some og \<and> og_status og = OrgActive)"
    by blast+
qed

lemma mint_check:
  assumes "ed25519_ok X"
  shows "check X (mint_grant X sk issuer m now ttl) res operation t = Inr () \<longleftrightarrow>
    t < saturating_add_u64 now ttl \<and> may_do m operation res"
  using sign_with_verifies [OF assms]
  by (simp add: check_ok mint_grant_def first_scope_def flip: resources_for_decide)

lemma gate_with_grant_run:
  assumes X: "ed25519_ok X" and run: "gate_with_grant X E app H oid res operation detail w = (r, w')"
  shows "mw_store (gw_mcp w') = mw_store (gw_mcp w) \<and> gw_queue w' = gw_queue w \<and>
    (\<forall>x. r = Inr x \<longrightarrow> gate_passed E app H oid res operation w w')"
proof (cases "oid = ap_org_id app \<and> (\<exists>p. authenticate_principal E app H w = (Inr p, w))")
  case False
  with run show ?thesis
    by (cases "authenticate_principal E app H w")
      (auto simp: gate_with_grant_def serr_def sbind_def split: if_splits sum.splits dest: authenticate_state)
next
  case True
  then obtain p where p: "oid = ap_org_id app" "authenticate_principal E app H w = (Inr p, w)" by blast
  obtain q v where g: "gate_membership X E app p oid res w = (q, v)" by (cases "gate_membership X E app p oid res w")
  note gm = gate_membership_run [OF g]
  show ?thesis
  proof (cases q)
    case (Inl e)
    with run p g gm(1-3) show ?thesis by (auto simp: gate_with_grant_def sbind_def)
  next
    case (Inr m)
    define v1 where "v1 = v\<lparr>gw_mcp := (gw_mcp v)\<lparr>mw_tick := tick_of v + 1\<rparr>\<rparr>"
    define now where "now = me_now (ge_mcp E) (tick_of v)"
    let ?grant = "mint_grant X (ap_signing_key app) (ap_issuer app) m now GRANT_TTL_MS"
    have n: "gw_now E v = (Inr now, v1)" by (simp add: gw_now_def v1_def now_def)
    have v1: "log_extends (gw_mcp w) (gw_mcp v1)" "mw_store (gw_mcp v1) = mw_store (gw_mcp w)" "gw_queue v1 = gw_queue w"
      "gw_control v1 = gw_control v"
      using gm(1-3) by (auto simp: v1_def log_extends_def)
    show ?thesis
    proof (cases "check X ?grant res operation now")
      case (Inl e)
      obtain a v2 where a: "audit_event X E EvDenied (pr_sub p) res (authz_error_text e) v1 = (a, v2)"
        by (cases "audit_event X E EvDenied (pr_sub p) res (authz_error_text e) v1")
      have "w' = v2" "\<exists>e. r = Inl e"
        using run p g Inr n Inl a by (auto simp: gate_with_grant_def sbind_def best_effort_def serr_def Let_def)
      with audit_event_run(1-4) [OF a] v1 show ?thesis by auto
    next
      case ok: (Inr u)
      obtain a v2 where a: "audit_event X E (event_for operation) (pr_sub p) res detail v1 = (a, v2)"
        by (cases "audit_event X E (event_for operation) (pr_sub p) res detail v1")
      have r: "w' = v2" "\<forall>x. r = Inr x \<longrightarrow> a = Inr ()"
        using run p g Inr n ok a by (auto simp: gate_with_grant_def sbind_def sok_def Let_def split: sum.splits)
      have may: "may_do m operation res" using ok mint_check [OF X] by simp
      have "gate_passed E app H oid res operation w v2" if "a = Inr ()"
      proof -
        from audit_event_run(5) [OF a that] obtain rec where
          rec: "ac_records (mw_chain (gw_mcp v2)) = ac_records (mw_chain (gw_mcp v1)) @ [rec]" "ar_event rec = event_for operation"
            "ar_actor rec = pr_sub p" "ar_resource_id rec = res" by blast
        obtain rs where "ac_records (mw_chain (gw_mcp v1)) = ac_records (mw_chain (gw_mcp w)) @ rs"
          using v1(1) by (auto simp: log_extends_def)
        with rec have "rec \<in> set (drop (length (ac_records (mw_chain (gw_mcp w)))) (ac_records (mw_chain (gw_mcp v2))))" by simp
        with rec gm(4) [OF Inr] p may v1(4) audit_event_run(2) [OF a] show ?thesis
          unfolding gate_passed_def by auto
      qed
      with r audit_event_run(1-4) [OF a] v1 show ?thesis by auto
    qed
  qed
qed

text \<open>A route behind the gate: it answers, or changes the store, only past the gate, and it never
  touches the ingest queue.\<close>

definition gated :: "gw_env \<Rightarrow> app \<Rightarrow> headers \<Rightarrow> string \<Rightarrow> string \<Rightarrow> op \<Rightarrow> 'a gw \<Rightarrow> bool" where
  "gated E app H oid res operation m \<longleftrightarrow> (\<forall>w r w'. m w = (r, w') \<longrightarrow> gw_queue w' = gw_queue w \<and>
     ((\<exists>x. r = Inr x) \<or> mw_store (gw_mcp w') \<noteq> mw_store (gw_mcp w) \<longrightarrow> gate_passed E app H oid res operation w w'))"

lemma gated_bind:
  assumes "ed25519_ok X" "\<And>x. steady (f x)"
  shows "gated E app H oid res operation (sbind (gate_with_grant X E app H oid res operation detail) f)"
  unfolding gated_def
proof (intro allI impI)
  fix w r w'
  assume run: "sbind (gate_with_grant X E app H oid res operation detail) f w = (r, w')"
  obtain q v where g: "gate_with_grant X E app H oid res operation detail w = (q, v)"
    by (cases "gate_with_grant X E app H oid res operation detail w")
  note gp = gate_with_grant_run [OF assms(1) g]
  show "gw_queue w' = gw_queue w \<and> ((\<exists>x. r = Inr x) \<or> mw_store (gw_mcp w') \<noteq> mw_store (gw_mcp w) \<longrightarrow>
      gate_passed E app H oid res operation w w')"
  proof (cases q)
    case (Inl e)
    with run g gp show ?thesis by (auto simp: sbind_def)
  next
    case (Inr x)
    with run g have "w' = snd (f x v)" by (auto simp: sbind_def dest: arg_cong [where f = snd])
    with assms(2) [of x] have "log_extends (gw_mcp v) (gw_mcp w')" "gw_control w' = gw_control v" "gw_queue w' = gw_queue v"
      by (auto simp: steady_def)
    with gp Inr show ?thesis by (auto intro: gate_passed_later)
  qed
qed

lemma gated_gate:
  assumes "ed25519_ok X" "\<And>x. steady (f x)"
  shows "gated E app H oid res operation (sbind (gate X E app H oid res operation detail) f)"
proof -
  have "sbind (gate X E app H oid res operation detail) f = sbind (gate_with_grant X E app H oid res operation detail) (\<lambda>(sub, _). f sub)"
    by (auto simp: gate_def sbind_def sok_def fun_eq_iff split: prod.splits sum.splits)
  then show ?thesis using gated_bind [OF assms(1), of "\<lambda>(sub, _). f sub"] assms(2) by (auto split: prod.splits)
qed

lemma gated_basic:
  "gated E app H oid res operation (serr e)"
  "(\<And>x. r = Inr x \<Longrightarrow> gated E app H oid res operation (f x)) \<Longrightarrow> gated E app H oid res operation (sbind (slift r) f)"
  by (auto simp: gated_def serr_def slift_def sbind_def split: sum.splits)

lemma calm_gate: 
  assumes "ed25519_ok X"
  shows "calm (gate_with_grant X E app H oid res operation detail)" "calm (gate X E app H oid res operation detail)"
proof -
  show "calm (gate_with_grant X E app H oid res operation detail)"
    using gate_with_grant_run [OF assms] unfolding calm_def by (metis surjective_pairing)
  then show "calm (gate X E app H oid res operation detail)"
    unfolding gate_def by (rule calm_sbind) (auto intro: calm_rules)
qed

section \<open>Routes of an organisation\<close>

definition repo_of :: "query \<Rightarrow> string" where
  "repo_of q = (case qparam q ''repo'' of None \<Rightarrow> [] | Some repo \<Rightarrow> repo)"

text \<open>The organisation, the resource and the operation a request is about; none for the public
  routes and the ones with a protocol of their own.\<close>

fun request_target :: "app \<Rightarrow> gw_request \<Rightarrow> (string \<times> string \<times> op) option" where
  "request_target app (GetLayout oid) = Some (oid, ''*'', Read)"
| "request_target app (GetRecall oid q) = Some (oid, repo_resource (repo_of q), Read)"
| "request_target app (GetSearch oid q) = Some (oid, repo_resource (repo_of q), Read)"
| "request_target app (GetNeighbors oid q) = Some (oid, repo_resource (repo_of q), Read)"
| "request_target app (GetVerify oid q) = Some (oid, repo_resource (repo_of q), Read)"
| "request_target app (GetReview oid q) = Some (oid, repo_resource (repo_of q), Read)"
| "request_target app (PostAssert oid body) = Some (oid, repo_resource (ab_repo body), Write)"
| "request_target app (GetOrgHealth oid) = Some (oid, ''*'', Read)"
| "request_target app (PostCheckpoint oid repo root) = Some (oid, repo_resource repo, Write)"
| "request_target app (GetCheckpoint oid repo) = Some (oid, repo_resource repo, Read)"
| "request_target app GetOps = Some (ap_org_id app, ''*'', Read)"
| "request_target app _ = None"

lemma steady_layout [steady_rules]: "steady (build_layout X E oid)"
  and calm_layout [calm_rules]: "calm (build_layout X E oid)"
proof -
  have edges: "steady (layout_edges X ids n acc)" "calm (layout_edges X ids n acc)" for ids n acc
    unfolding layout_edges_def by (intro steady_rules calm_rules)+
  have store: "steady (\<lambda>w. (Inr s, w\<lparr>gw_layout := Some s\<rparr>))" "calm (\<lambda>w. (Inr s, w\<lparr>gw_layout := Some s\<rparr>))" for s
    by (simp_all add: steady_def calm_def)
  let ?m = "sbind (gw_store_rd (all_nodes X)) (\<lambda>ns.
          let chosen = chosen_nodes ns; ids = set (map (\<lambda>n. to_hex (hex_encode X) (node_id X n)) chosen) in
          sbind (sfold (layout_edges X ids) chosen []) (\<lambda>es w.
          let s = build_scene (ge_scene E) oid (map (node_input_of X) chosen) es in
          (Inr s, w\<lparr>gw_layout := Some s\<rparr>)))"
  have "steady ?m" "calm ?m"
    unfolding Let_def by (intro steady_rules calm_rules edges store)+
  then show "steady (build_layout X E oid)" "calm (build_layout X E oid)"
    by (auto simp: steady_def calm_def build_layout_def split: option.splits)
qed

lemma steady_reads [steady_rules]:
  "steady (resolve_in_tenant X repo prefix)" "steady (readable_neighbors X E grant repo nid b)"
  unfolding resolve_in_tenant_def
  by (intro steady_rules) (auto intro!: steady_rules simp: steady_def readable_neighbors_def gw_store_rd_def split: option.splits)

lemma calm_reads [calm_rules]:
  "calm (resolve_in_tenant X repo prefix)" "calm (readable_neighbors X E grant repo nid b)"
  unfolding resolve_in_tenant_def
  by (intro calm_rules) (auto intro!: calm_rules simp: calm_def readable_neighbors_def gw_store_rd_def split: option.splits)

lemma steady_state_fun: "(\<And>w. snd (f w) = w) \<Longrightarrow> steady f"
  by (simp add: steady_def)

lemma calm_state_fun: "(\<And>w. snd (f w) = w) \<Longrightarrow> calm f"
  by (simp add: calm_def)

lemma steady_cases [steady_rules]:
  "(\<And>a b. steady (f a b)) \<Longrightarrow> steady (case p of (a, b) \<Rightarrow> f a b)"
  "steady m \<Longrightarrow> (\<And>x. steady (g x)) \<Longrightarrow> steady (case y of None \<Rightarrow> m | Some x \<Rightarrow> g x)"
  by (auto split: prod.splits option.splits)

lemma calm_cases [calm_rules]:
  "(\<And>a b. calm (f a b)) \<Longrightarrow> calm (case p of (a, b) \<Rightarrow> f a b)"
  "calm m \<Longrightarrow> (\<And>x. calm (g x)) \<Longrightarrow> calm (case y of None \<Rightarrow> m | Some x \<Rightarrow> g x)"
  "calm m \<Longrightarrow> calm n \<Longrightarrow> calm (if c then m else n)"
  by (auto split: prod.splits option.splits)

lemma calm_param [calm_rules]: "calm (need_param q key)"
  unfolding need_param_def by (rule calm_rules)

lemma gated_param:
  "(\<And>repo. gated E app H oid (repo_resource repo) operation (f repo)) \<Longrightarrow>
     gated E app H oid (repo_resource (repo_of q)) operation (sbind (need_param q ''repo'') f)"
  "(\<And>x. gated E app H oid res operation (g x)) \<Longrightarrow> gated E app H oid res operation (sbind (need_param q key) g)"
  unfolding need_param_def
  by (rule gated_basic(2), simp add: repo_of_def ok_or_def split: option.splits) (rule gated_basic(2))

lemma gated_if:
  "gated E app H oid res operation a \<Longrightarrow> gated E app H oid res operation b \<Longrightarrow>
     gated E app H oid res operation (if c then a else b)"
  by simp

lemma reading_routes_gated:
  assumes X: "ed25519_ok X"
  shows "gated E app H oid ''*'' Read (route_layout X E app H oid)"
    "gated E app H oid ''*'' Read (route_org_health X E app H oid)"
    "gated E app H oid (repo_resource (repo_of q)) Read (route_recall X E app H oid q)"
    "gated E app H oid (repo_resource (repo_of q)) Read (route_search X E app H oid q)"
    "gated E app H oid (repo_resource (repo_of q)) Read (route_neighbors X E app H oid q)"
    "gated E app H oid (repo_resource (repo_of q)) Read (route_verify X E app H oid q)"
    "gated E app H oid (repo_resource (repo_of q)) Read (route_review X E app H oid q)"
    "gated E app H oid (repo_resource repo) Read (route_read_checkpoint X E app H oid repo)"
    "gated E app H (ap_org_id app) ''*'' Read (route_ops X E app H)"
  unfolding route_layout_def route_org_health_def route_recall_def route_search_def route_neighbors_def route_verify_def
    route_review_def route_read_checkpoint_def route_ops_def Let_def
  by (intro gated_param(1) gated_param(2) gated_if gated_basic(1) gated_gate [OF X] gated_bind [OF X] steady_rules
      steady_state_fun snd_conv)+

lemma writing_routes_gated:
  assumes X: "ed25519_ok X"
  shows "gated E app H oid (repo_resource (ab_repo body)) Write (route_assert X E app H oid body)"
    "gated E app H oid (repo_resource repo) Write (route_submit_checkpoint X E app H oid repo root)"
  unfolding route_assert_def route_submit_checkpoint_def Let_def
  by (intro gated_if gated_basic(1) gated_gate [OF X] steady_rules)+

lemma routes_gated:
  assumes "ed25519_ok X" "request_target app req = Some (oid, res, operation)"
  shows "gated E app H oid res operation (serve_request X E app H req)"
  using assms(2) reading_routes_gated [OF assms(1)] writing_routes_gated [OF assms(1)] by (cases req) auto

lemma reading_routes_calm:
  assumes "ed25519_ok X" "request_target app req = Some (oid, res, Read)"
  shows "calm (serve_request X E app H req)"
proof -
  note g = calm_gate [OF assms(1)]
  have "calm (route_layout X E app H oid)" "calm (route_org_health X E app H oid)" "calm (route_recall X E app H oid q)"
    "calm (route_search X E app H oid q)" "calm (route_neighbors X E app H oid q)" "calm (route_verify X E app H oid q)"
    "calm (route_review X E app H oid q)" "calm (route_read_checkpoint X E app H oid repo)" "calm (route_ops X E app H)" for oid q repo
    unfolding route_layout_def route_org_health_def route_recall_def route_search_def route_neighbors_def route_verify_def
      route_review_def route_read_checkpoint_def route_ops_def Let_def
    by (intro calm_rules g calm_state_fun snd_conv)+
  with assms(2) show ?thesis by (cases req) auto
qed

text \<open>C15. A route of an organisation serves members only: a request answers without an error, or leaves
  the store changed, only if it acts for an authenticated principal who is a member of the
  active organisation of this gateway, whose role and scopes allow the operation of the route on
  its resource, and whose operation has a new record in the audit log. A reading route never
  changes the store, and none of them touches the ingest queue.\<close>

theorem organisation_routes_are_gated:
  assumes "ed25519_ok X" "request_target app req = Some (oid, res, operation)"
    and "serve_request X E app H req w = (r, w')"
  shows "((\<exists>resp. r = Inr resp) \<or> mw_store (gw_mcp w') \<noteq> mw_store (gw_mcp w) \<longrightarrow>
      gate_passed E app H oid res operation w w') \<and>
    (operation = Read \<longrightarrow> mw_store (gw_mcp w') = mw_store (gw_mcp w)) \<and> gw_queue w' = gw_queue w"
  using routes_gated [OF assms(1,2), of E H] reading_routes_calm [OF assms(1), of app req oid res E H] assms(2,3)
  unfolding gated_def calm_def by (metis snd_conv)

section \<open>A model's own session\<close>

lemma attenuate_fields:
  "cg_revoked (attenuate_grant X now g c sk) = cg_revoked g" "cg_recipient (attenuate_grant X now g c sk) = cg_recipient g"
  "cg_expires_at_ms (attenuate_grant X now g c sk) = cg_expires_at_ms g"
  "cg_allowed_resources (attenuate_grant X now g c sk) =
     (case cn_tenants c of
        Some tenants \<Rightarrow> map (tenant_scope X g (token_allows_write c) now) tenants
      | None \<Rightarrow> map (\<lambda>r. r\<lparr>rs_can_write := (rs_can_write r \<and> token_allows_write c)\<rparr>) (cg_allowed_resources g))"
  by (simp_all add: attenuate_grant_def Let_def split: option.splits)

lemma attenuate_verifies: "ed25519_ok X \<Longrightarrow> verify_signature X (attenuate_grant X now g c sk) = Inr ()"
  unfolding attenuate_grant_def Let_def by (rule sign_with_verifies)

lemma repo_resource_exact: "resource_matches (repo_resource t) res \<longleftrightarrow> res = repo_resource t"
  by (auto simp: resource_matches_def repo_resource_def)

text \<open>An attenuated grant allows at most what the grant allows, within the scope and the tenants of
  the token.\<close>

lemma attenuate_narrows:
  assumes "verify_signature X g = Inr ()" "check X (attenuate_grant X now g c sk) res operation t = Inr ()"
  shows "check X g res operation t = Inr () \<and> (operation = Write \<longrightarrow> token_allows_write c) \<and>
    (\<forall>ts. cn_tenants c = Some ts \<longrightarrow> res \<in> repo_resource ` set ts)"
proof -
  from assms(2) obtain r where live: "\<not> cg_revoked g" "t < cg_expires_at_ms g" and
    r: "List.find (\<lambda>r. resource_matches (rs_resource_id r) res) (cg_allowed_resources (attenuate_grant X now g c sk)) = Some r"
      "scope_allows r operation"
    by (auto simp: check_ok attenuate_fields first_scope_def)
  show ?thesis
  proof (cases "cn_tenants c")
    case None
    with r obtain r0 where "List.find (\<lambda>r. resource_matches (rs_resource_id r) res) (cg_allowed_resources g) = Some r0"
      "r = r0\<lparr>rs_can_write := (rs_can_write r0 \<and> token_allows_write c)\<rparr>"
      by (auto simp: attenuate_fields find_map)
    with r(2) live assms(1) None show ?thesis
      by (cases operation) (auto simp: check_ok first_scope_def scope_allows_def)
  next
    case (Some ts)
    with r(1) obtain x where f: "List.find (\<lambda>x. resource_matches (repo_resource x) res) ts = Some x"
      and r0: "r = tenant_scope X g (token_allows_write c) now x"
      by (auto simp: attenuate_fields find_map tenant_scope_def Let_def)
    have "x \<in> set ts \<and> res = repo_resource x" using f repo_resource_exact by (fastforce simp: find_Some_iff)
    with r0 have x: "x \<in> set ts" "res = repo_resource x" "r = tenant_scope X g (token_allows_write c) now x" by simp_all
    with r(2) have "check X g res operation now = Inr ()" "operation = Write \<longrightarrow> token_allows_write c"
      by (cases operation; simp add: scope_allows_def tenant_scope_def Let_def)+
    with live x(1,2) Some show ?thesis by (auto simp: check_ok)
  qed
qed

lemma byom_membership_run:
  assumes "byom_membership E app sub c w = (Inr m, w')" "cred_sub c = sub"
  shows "find_membership sub (ap_org_id app) (gw_control w') = Some m"
proof (cases "find_membership sub (ap_org_id app) (gw_control w)")
  case (Some m0)
  with assms(1) show ?thesis by (auto simp: byom_membership_def sbind_def existing_membership_def sok_def)
next
  case None
  with assms obtain p where p: "c = Oidc p" "pr_sub p = sub" "jit_provision E app p (ap_org_id app) w = (Inr (Some m), w')"
    by (cases c; cases "jit_provision E app (case c of Oidc p \<Rightarrow> p) (ap_org_id app) w")
      (auto simp: byom_membership_def sbind_def existing_membership_def serr_def slift_def cred_sub_def ok_or_def
        split: sum.splits option.splits)
  with jit_run(4) [OF p(3)] show ?thesis by simp
qed

text \<open>How a session's credential was shown: a verified identity token, or a connect token minted for
  this organisation.\<close>

definition presented :: "gw_env \<Rightarrow> app \<Rightarrow> headers \<Rightarrow> nat \<Rightarrow> cred \<Rightarrow> bool" where
  "presented E app H tick c \<longleftrightarrow>
     (\<exists>token. bearer H = Some token \<and>
        (case c of
           Oidc p \<Rightarrow> \<exists>V. ap_oidc app = Some V \<and> verify_principal (ge_jwt E) V tick token = Inr p
         | Connect cl \<Rightarrow> cn_org cl = Some (ap_org_id app) \<and>
             (\<exists>secret. ap_connect_secret app = Some secret \<and> verify_connect_token (ge_jwt E) secret tick token = Inr cl)))"

lemma byom_grant_cases:
  assumes "byom_grant X E app H sub w = (Inr g, w')"
  obtains c m now where "presented E app H (tick_of w) c" "cred_sub c = sub"
    "find_membership sub (ap_org_id app) (gw_control w') = Some m"
    "case c of
       Oidc _ \<Rightarrow> g = mint_grant X (ap_signing_key app) (ap_issuer app) m now GRANT_TTL_MS
     | Connect cl \<Rightarrow> \<exists>now2. g = attenuate_grant X now2 (mint_grant X (ap_signing_key app) (ap_issuer app) m now GRANT_TTL_MS) cl (ap_signing_key app)"
proof -
  from assms obtain token where token: "bearer H = Some token"
    by (auto simp: byom_grant_def slift_bind ok_or_def split: option.splits)
  obtain q w1 where c0: "byom_credential E app token w = (q, w1)" by (cases "byom_credential E app token w")
  with assms token obtain c where q: "q = Inr c"
    by (cases q) (auto simp: byom_grant_def slift_bind sbind_def)
  have c: "presented E app H (tick_of w) c" "w1 = w"
    using c0 token unfolding q presented_def byom_credential_def
    by (cases "ap_oidc app"; cases "verify_principal (ge_jwt E) (the (ap_oidc app)) (tick_of w) token";
        auto split: option.splits sum.splits if_splits)+
  have sub: "cred_sub c = sub"
    using assms token c0 q by (auto simp: byom_grant_def slift_bind sbind_def serr_def split: if_splits)
  obtain y v where m0: "byom_membership E app sub c w = (y, v)" by (cases "byom_membership E app sub c w")
  with assms token c0 q c(2) sub obtain m where y: "y = Inr m"
    by (cases y) (auto simp: byom_grant_def slift_bind sbind_def)
  note mem = byom_membership_run [OF m0 [unfolded y] sub]
  have "gw_control w' = gw_control v \<and> (\<exists>now. case c of
       Oidc _ \<Rightarrow> g = mint_grant X (ap_signing_key app) (ap_issuer app) m now GRANT_TTL_MS
     | Connect cl \<Rightarrow> \<exists>now2. g = attenuate_grant X now2 (mint_grant X (ap_signing_key app) (ap_issuer app) m now GRANT_TTL_MS) cl (ap_signing_key app))"
    using assms token c0 q c(2) sub m0 y
    by (cases c) (auto simp: byom_grant_def slift_bind sbind_def gw_now_def sok_def Let_def)
  with c(1) sub mem that show thesis by auto
qed

text \<open>C16. The session a model's own client gets is never stronger than its membership or its token: its
  grant names the subject of the path, who is a member of the organisation; the bearer token is
  an identity token of that subject, or a connect token minted for that subject and this
  organisation; whatever the grant allows, the membership allows; and under a connect token a
  write needs a scope that names it, and a list of tenants confines reads and writes to them.\<close>

theorem own_model_session_is_attenuated:
  assumes "ed25519_ok X" "byom_grant X E app H sub w = (Inr g, w')"
  shows "cg_recipient g = sub \<and>
    (\<exists>c m. presented E app H (tick_of w) c \<and> cred_sub c = sub \<and>
       find_membership sub (ap_org_id app) (gw_control w') = Some m \<and>
       (\<forall>res operation t. check X g res operation t = Inr () \<longrightarrow> may_do m operation res \<and>
          (\<forall>cl. c = Connect cl \<longrightarrow> (operation = Write \<longrightarrow> token_allows_write cl) \<and>
             (\<forall>ts. cn_tenants cl = Some ts \<longrightarrow> res \<in> repo_resource ` set ts))))"
proof -
  from assms(2) obtain c m now where c: "presented E app H (tick_of w) c" "cred_sub c = sub"
    and m: "find_membership sub (ap_org_id app) (gw_control w') = Some m"
    and g: "case c of
       Oidc _ \<Rightarrow> g = mint_grant X (ap_signing_key app) (ap_issuer app) m now GRANT_TTL_MS
     | Connect cl \<Rightarrow> \<exists>now2. g = attenuate_grant X now2 (mint_grant X (ap_signing_key app) (ap_issuer app) m now GRANT_TTL_MS) cl (ap_signing_key app)"
    by (rule byom_grant_cases)
  let ?g = "mint_grant X (ap_signing_key app) (ap_issuer app) m now GRANT_TTL_MS"
  have v: "verify_signature X ?g = Inr ()" unfolding mint_grant_def by (rule sign_with_verifies [OF assms(1)])
  have rcpt: "cg_recipient g = sub"
    using g find_membership_sub [OF m] by (cases c) (auto simp: attenuate_fields mint_grant_def)
  have "may_do m operation res \<and> (\<forall>cl. c = Connect cl \<longrightarrow> (operation = Write \<longrightarrow> token_allows_write cl) \<and>
      (\<forall>ts. cn_tenants cl = Some ts \<longrightarrow> res \<in> repo_resource ` set ts))"
    if ok: "check X g res operation t = Inr ()" for res operation t
  proof (cases c)
    case (Oidc p)
    with g ok show ?thesis using mint_check [OF assms(1)] by simp
  next
    case (Connect cl)
    with g obtain now2 where "g = attenuate_grant X now2 ?g cl (ap_signing_key app)" by auto
    with ok attenuate_narrows [OF v] have "check X ?g res operation t = Inr ()" "operation = Write \<longrightarrow> token_allows_write cl"
      "\<forall>ts. cn_tenants cl = Some ts \<longrightarrow> res \<in> repo_resource ` set ts" by blast+
    with Connect show ?thesis using mint_check [OF assms(1)] by simp
  qed
  with rcpt c m show ?thesis by blast
qed

section \<open>Who becomes a member\<close>

text \<open>A principal without a membership got the one of an allowlist entry that carries its verified
  email or its wallet.\<close>

definition provisioned :: "gw_env \<Rightarrow> app \<Rightarrow> principal \<Rightarrow> gw_world \<Rightarrow> gw_world \<Rightarrow> bool" where
  "provisioned E app p w w' \<longleftrightarrow>
     (\<exists>path entry. ap_team_allowlist_path app = Some path \<and>
        entry \<in> set (load_or_empty (ge_allow_parse E) (ge_allow_file E (tick_of w) path)) \<and>
        ((pr_email_verified p \<and> claimed_id (pr_email p) \<noteq> None \<and> claimed_id (ae_email entry) = claimed_id (pr_email p)) \<or>
         (claimed_id (pr_wallet_address p) \<noteq> None \<and> claimed_id (ae_wallet entry) = claimed_id (pr_wallet_address p))) \<and>
        find_membership (pr_sub p) (ap_org_id app) (gw_control w) = None \<and>
        gw_control w' = snd (upsert_membership_full (pr_sub p) (ap_org_id app) (ae_role entry) (ae_scopes entry) (gw_control w)))"

definition identified :: "gw_env \<Rightarrow> app \<Rightarrow> headers \<Rightarrow> gw_world \<Rightarrow> principal \<Rightarrow> bool" where
  "identified E app H w p \<longleftrightarrow> authenticate_principal E app H w = (Inr p, w) \<or> presented E app H (tick_of w) (Oidc p)"

definition admits :: "gw_env \<Rightarrow> app \<Rightarrow> headers \<Rightarrow> 'a gw \<Rightarrow> bool" where
  "admits E app H m \<longleftrightarrow> (\<forall>w r w'. m w = (r, w') \<longrightarrow> gw_queue w' = gw_queue w \<and>
     (gw_control w' = gw_control w \<or> (\<exists>p. identified E app H w p \<and> provisioned E app p w w')))"

lemma jit_control:
  assumes "jit_provision E app p (ap_org_id app) w = (r, w')"
  shows "gw_control w' = gw_control w \<or> provisioned E app p w w'"
proof (cases "ap_team_allowlist_path app")
  case None
  with assms show ?thesis by (simp add: jit_provision_def)
next
  case (Some path)
  let ?members = "load_or_empty (ge_allow_parse E) (ge_allow_file E (tick_of w) path)"
  show ?thesis
  proof (cases "match_identity ?members (pr_email p) (pr_email_verified p) (pr_wallet_address p)")
    case None
    with assms Some show ?thesis by (simp add: jit_provision_def)
  next
    case hit: (Some entry)
    show ?thesis
    proof (cases "find_membership (pr_sub p) (ap_org_id app) (gw_control w)")
      case None
      with assms Some hit have "gw_control w' =
          snd (upsert_membership_full (pr_sub p) (ap_org_id app) (ae_role entry) (ae_scopes entry) (gw_control w))"
        by (auto simp: jit_provision_def Let_def split: prod.splits sum.splits)
      with Some None match_identity_hit [OF hit] show ?thesis unfolding provisioned_def by blast
    qed (use assms Some hit in \<open>simp add: jit_provision_def\<close>)
  qed
qed

lemma provisioned_cong: "gw_control v = gw_control w' \<Longrightarrow> provisioned E app p w v \<longleftrightarrow> provisioned E app p w w'"
  by (simp add: provisioned_def)

definition keeps :: "'a gw \<Rightarrow> bool" where
  "keeps m \<longleftrightarrow> (\<forall>w. gw_control (snd (m w)) = gw_control w \<and> gw_queue (snd (m w)) = gw_queue w)"

lemma steady_keeps: "steady m \<Longrightarrow> keeps m"
  by (simp add: steady_def keeps_def)

lemma gw_keeps_sbind: "keeps m \<Longrightarrow> (\<And>x. keeps (f x)) \<Longrightarrow> keeps (sbind m f)"
  unfolding keeps_def sbind_def by (auto split: prod.splits sum.splits) (metis snd_conv)+

lemma admits_later:
  assumes "admits E app H m" "\<And>x. keeps (f x)"
  shows "admits E app H (sbind m f)"
  unfolding admits_def
proof (intro allI impI)
  fix w r w'
  assume run: "sbind m f w = (r, w')"
  obtain q v where m: "m w = (q, v)" by (cases "m w")
  note a = assms(1) [unfolded admits_def, rule_format, OF m]
  show "gw_queue w' = gw_queue w \<and> (gw_control w' = gw_control w \<or> (\<exists>p. identified E app H w p \<and> provisioned E app p w w'))"
  proof (cases q)
    case (Inl e)
    with run m a show ?thesis by (simp add: sbind_def)
  next
    case (Inr x)
    with run m have "w' = snd (f x v)" by (simp add: sbind_def)
    with assms(2) [of x] have "gw_control w' = gw_control v" "gw_queue w' = gw_queue v" by (auto simp: keeps_def)
    with a show ?thesis by (auto simp: provisioned_cong [of v w'])
  qed
qed

lemma admits_keeps: "keeps m \<Longrightarrow> admits E app H m"
  unfolding keeps_def admits_def by (metis snd_conv)

lemma admits_slift: "(\<And>x. admits E app H (f x)) \<Longrightarrow> admits E app H (sbind (slift r) f)"
  by (auto simp: admits_def slift_def sbind_def split: sum.splits)

lemma gate_membership_control:
  assumes "gate_membership X E app p (ap_org_id app) res w = (r, w')"
  shows "gw_control w' = gw_control w \<or> provisioned E app p w w'"
proof -
  obtain q v where j: "jit_provision E app p (ap_org_id app) w = (q, v)" by (cases "jit_provision E app p (ap_org_id app) w")
  have aud: "gw_control (snd (best_effort (audit_event X E ev actor res d) u)) = gw_control u" for ev actor d u
    using best_effort_rules(1) [OF steady_audit, of X E ev actor res d] by (simp add: steady_def)
  have "gw_control w' = gw_control w \<or> gw_control w' = gw_control v"
    using assms j aud
    by (auto simp: gate_membership_def check_org_def existing_membership_def sbind_def sok_def serr_def best_effort_def
        split: option.splits if_splits sum.splits)
  with jit_control [OF j] show ?thesis by (auto simp: provisioned_cong [of v w'])
qed

lemma gate_admits:
  assumes "ed25519_ok X"
  shows "admits E app H (gate_with_grant X E app H oid res operation detail)"
  unfolding admits_def
proof (intro allI impI conjI)
  fix w r w'
  assume run: "gate_with_grant X E app H oid res operation detail w = (r, w')"
  show "gw_queue w' = gw_queue w" using gate_with_grant_run [OF assms run] by blast
  show "gw_control w' = gw_control w \<or> (\<exists>p. identified E app H w p \<and> provisioned E app p w w')"
  proof (cases "oid = ap_org_id app \<and> (\<exists>p. authenticate_principal E app H w = (Inr p, w))")
    case False
    with run show ?thesis
      by (cases "authenticate_principal E app H w")
        (auto simp: gate_with_grant_def serr_def sbind_def split: if_splits sum.splits dest: authenticate_state)
  next
    case True
    then obtain p where p: "oid = ap_org_id app" "authenticate_principal E app H w = (Inr p, w)" by blast
    define rest where "rest = (\<lambda>m. sbind (gw_now E) (\<lambda>now.
        let grant = mint_grant X (ap_signing_key app) (ap_issuer app) m now GRANT_TTL_MS in
        case check X grant res operation now of
          Inr _ \<Rightarrow> sbind (audit_event X E (event_for operation) (pr_sub p) res detail) (\<lambda>_. sok (pr_sub p, grant))
        | Inl e \<Rightarrow> sbind (best_effort (audit_event X E EvDenied (pr_sub p) res (authz_error_text e))) (\<lambda>_.
            serr (forbidden ''not authorized for resource''))))"
    have "steady (rest m)" for m
      unfolding rest_def Let_def by (intro steady_rules) (auto intro!: steady_rules split: sum.splits)
    moreover obtain q v where g: "gate_membership X E app p oid res w = (q, v)" by (cases "gate_membership X E app p oid res w")
    have "(r, w') = sbind (gate_membership X E app p oid res) rest w"
      using run p by (simp add: gate_with_grant_def sbind_def rest_def)
    ultimately have "gw_control w' = gw_control v"
      using g unfolding steady_def sbind_def by (cases q) (auto, metis snd_conv)
    with gate_membership_control [of X E app p res w q v] g p show ?thesis
      by (auto simp: identified_def provisioned_cong [of v w'])
  qed
qed

lemma admits_gate:
  assumes "ed25519_ok X" "\<And>x. steady (f x)"
  shows "admits E app H (sbind (gate X E app H oid res operation detail) f)"
proof -
  have "steady (case x of (sub, _) \<Rightarrow> sok sub)" for x :: "string \<times> capability_grant"
    by (rule steady_rules)+
  then have "admits E app H (gate X E app H oid res operation detail)"
    unfolding gate_def by (intro admits_later [OF gate_admits [OF assms(1)]] steady_keeps)
  then show ?thesis using assms(2) by (rule admits_later [OF _ steady_keeps])
qed

lemma admits_gate_with_grant:
  assumes "ed25519_ok X" "\<And>x. steady (f x)"
  shows "admits E app H (sbind (gate_with_grant X E app H oid res operation detail) f)"
  using gate_admits [OF assms(1)] assms(2) by (rule admits_later [OF _ steady_keeps])

lemma admits_if: "admits E app H a \<Longrightarrow> admits E app H b \<Longrightarrow> admits E app H (if c then a else b)"
  by simp

lemma admits_param: "(\<And>x. admits E app H (f x)) \<Longrightarrow> admits E app H (sbind (need_param q key) f)"
  unfolding need_param_def by (rule admits_slift)

lemma organisation_routes_admit:
  assumes X: "ed25519_ok X" and "request_target app req = Some tgt"
  shows "admits E app H (serve_request X E app H req)"
proof -
  have serr: "admits E app H (serr e)" for e by (intro admits_keeps steady_keeps steady_rules)
  have "admits E app H (route_layout X E app H oid)" "admits E app H (route_org_health X E app H oid)"
    "admits E app H (route_recall X E app H oid q)" "admits E app H (route_search X E app H oid q)"
    "admits E app H (route_neighbors X E app H oid q)" "admits E app H (route_verify X E app H oid q)"
    "admits E app H (route_review X E app H oid q)" "admits E app H (route_read_checkpoint X E app H oid repo)"
    "admits E app H (route_ops X E app H)" "admits E app H (route_assert X E app H oid body)"
    "admits E app H (route_submit_checkpoint X E app H oid repo root)" for oid q repo body root
    unfolding route_layout_def route_org_health_def route_recall_def route_search_def route_neighbors_def route_verify_def
      route_review_def route_read_checkpoint_def route_ops_def route_assert_def route_submit_checkpoint_def Let_def
    by (intro admits_param admits_if serr admits_gate [OF X] admits_gate_with_grant [OF X] steady_rules steady_state_fun snd_conv)+
  then show ?thesis using assms(2) by (cases req) auto
qed

lemma byom_grant_admits: "admits E app H (byom_grant X E app H sub)"
  unfolding admits_def
proof (intro allI impI)
  fix w r w'
  assume run: "byom_grant X E app H sub w = (r, w')"
  show "gw_queue w' = gw_queue w \<and> (gw_control w' = gw_control w \<or> (\<exists>p. identified E app H w p \<and> provisioned E app p w w'))"
  proof (cases "bearer H")
    case None
    with run show ?thesis by (simp add: byom_grant_def slift_bind)
  next
    case token: (Some token)
    obtain q w1 where c0: "byom_credential E app token w = (q, w1)" by (cases "byom_credential E app token w")
    have w1: "w1 = w" using c0 by (auto simp: byom_credential_def split: option.splits sum.splits if_splits)
    show ?thesis
    proof (cases "\<exists>c. q = Inr c \<and> cred_sub c = sub")
      case False
      with run token c0 w1 show ?thesis
        by (cases q) (auto simp: byom_grant_def slift_bind sbind_def serr_def)
    next
      case True
      then obtain c where c: "q = Inr c" "cred_sub c = sub" by blast
      obtain y v where m: "byom_membership E app sub c w = (y, v)" by (cases "byom_membership E app sub c w")
      have "gw_control w' = gw_control v \<and> gw_queue w' = gw_queue v"
        using run token c0 w1 c m
        by (cases y; cases c) (auto simp: byom_grant_def slift_bind sbind_def gw_now_def sok_def Let_def)
      moreover have "gw_queue v = gw_queue w \<and> (gw_control v = gw_control w \<or> (\<exists>p. c = Oidc p \<and> provisioned E app p w v))"
      proof (cases "find_membership sub (ap_org_id app) (gw_control w)")
        case None
        show ?thesis
        proof (cases c)
          case (Oidc p)
          obtain z u where "jit_provision E app p (ap_org_id app) w = (z, u)" by (cases "jit_provision E app p (ap_org_id app) w")
          with m None Oidc jit_run(2) [OF this] jit_control [OF this] show ?thesis
            by (cases z) (auto simp: byom_membership_def sbind_def existing_membership_def slift_def)
        qed (use m None in \<open>auto simp: byom_membership_def sbind_def existing_membership_def serr_def\<close>)
      qed (use m in \<open>auto simp: byom_membership_def sbind_def existing_membership_def sok_def\<close>)
      moreover have "presented E app H (tick_of w) c"
        using c0 token w1 c(1) unfolding presented_def byom_credential_def
        by (cases "ap_oidc app"; cases "verify_principal (ge_jwt E) (the (ap_oidc app)) (tick_of w) token";
            auto split: option.splits sum.splits if_splits)
      ultimately show ?thesis by (auto simp: identified_def provisioned_cong [of v w'])
    qed
  qed
qed

lemma byom_admits: "admits E app H (route_byom X E app H sub body)"
proof -
  have run: "keeps (spend_or_refuse E sub n now)" "keeps (enter_or_refuse sub)" "keeps (execute_lines X E app sub g ls)" for n now g ls
    by (auto simp: keeps_def spend_or_refuse_def try_spend_def enter_or_refuse_def try_enter_def execute_lines_def leave_def Let_def
        split: prod.splits bool.splits option.splits if_splits)
  have if_keeps: "keeps a \<Longrightarrow> keeps b \<Longrightarrow> keeps (if c then a else b)" for a b :: "gw_response gw" and c by simp
  show ?thesis
    unfolding route_byom_def Let_def
    by (intro admits_later [OF byom_grant_admits] if_keeps gw_keeps_sbind run) (intro steady_keeps steady_rules)+
qed

lemma steady_authenticate [steady_rules]: "steady (authenticate_principal E app H)"
  by (rule steady_state_fun) (metis authenticate_state surjective_pairing)

lemma connect_admits: "admits E app H (route_connect_token E app H)"
  unfolding route_connect_token_def authenticate_def by (intro admits_keeps steady_keeps steady_rules)

lemma requests_admit:
  assumes "ed25519_ok X"
  shows "admits E app H (serve_request X E app H req) \<or> (\<exists>body. req = PostWebhook body)"
proof (cases "request_target app req")
  case None
  have "admits E app H (sok x)" for x by (intro admits_keeps steady_keeps steady_rules)
  with None byom_admits connect_admits show ?thesis by (cases req) auto
qed (use organisation_routes_admit [OF assms] in blast)

text \<open>C17. Nobody lets himself in: whatever a request asks for, the control plane changes only by giving
  a first membership of this organisation to the principal its token identifies, with the role and
  the scopes of an allowlist entry that names the principal's wallet or an email the issuer has
  verified. No other membership and no organisation is touched.\<close>

theorem members_come_from_the_allowlist:
  assumes "ed25519_ok X" "serve_request X E app H req w = (r, w')" "gw_control w' \<noteq> gw_control w"
  shows "ct_orgs (gw_control w') = ct_orgs (gw_control w) \<and>
    (\<exists>p. identified E app H w p \<and> provisioned E app p w w' \<and>
       (\<forall>sub oid. (sub, oid) \<noteq> (pr_sub p, ap_org_id app) \<longrightarrow>
          find_membership sub oid (gw_control w') = find_membership sub oid (gw_control w)))"
proof -
  note requests_admit [OF assms(1), of E app H req]
  moreover have "gw_control w' = gw_control w" if "req = PostWebhook body" for body
    using assms(2) that by (auto simp: route_webhook_def Let_def split: if_splits option.splits)
  ultimately obtain p where p: "identified E app H w p" "provisioned E app p w w'"
    using assms(2,3) unfolding admits_def by blast
  then obtain rl ss where "gw_control w' = snd (upsert_membership_full (pr_sub p) (ap_org_id app) rl ss (gw_control w))"
    unfolding provisioned_def by blast
  with p show ?thesis
    by (auto simp: upsert_membership_full_find) (auto simp: upsert_membership_full_def split: option.splits)
qed

section \<open>The webhook\<close>

lemma verify_webhook_mac:
  assumes "verify_webhook X E secret hdr body"
  obtains h where "hdr = Some (''sha256='' @ h)" "hex_decode X h = Inr (ge_hmac_sha256 E secret body)"
proof -
  from assms obtain s h where s: "hdr = Some s" "strip_prefix ''sha256='' s = Some h"
      "hex_decode X h = Inr (ge_hmac_sha256 E secret body)"
    by (auto simp: verify_webhook_def split: if_splits option.splits sum.splits)
  from s(2) have "s = ''sha256='' @ h"
    unfolding strip_prefix_def by (metis append_take_drop_id option.distinct(1) option.inject)
  with s that show thesis by blast
qed

lemma json_as_str_Some [simp]: "json_as_str j = Some s \<longleftrightarrow> j = JStr s"
  by (cases j) auto

lemma parse_push_event_repo:
  assumes "parse_push_event E body = Some ev"
  obtains v f where "me_parse (ge_mcp E) (of_bytes body) = Inr v"
    "Option.bind (json_get ''repository'' v) (json_get ''full_name'') = Some (JStr f)" "allowed_repo E f = Some (pe_repo ev)"
  using assms by (auto simp: parse_push_event_def Option.bind_eq_Some_conv split: sum.splits)

lemma allowed_repo_safe:
  assumes "allowed_repo E f = Some repo"
  shows "f = allowed_owner E @ ''/'' @ repo" "is_safe_repo_name repo"
  using assms by (auto simp: allowed_repo_def Option.bind_eq_Some_conv dest!: split_once_parts split: if_splits)

lemma safe_name_chars:
  "is_safe_repo_name s \<Longrightarrow> s \<noteq> [] \<and> length s \<le> 100 \<and> s \<noteq> ''.'' \<and> s \<noteq> ''..'' \<and>
     (\<forall>c \<in> set s. ascii_alphanumeric c \<or> c \<in> {CHR ''-'', CHR ''_'', CHR ''.''})"
  unfolding is_safe_repo_name_def list_all_iff by (simp split: if_splits)

text \<open>C18. Only authentic pushes of the own organisation reach the ingest queue: a request changes the
  queue only by appending one event, when a webhook secret is configured, the body carries the
  MAC of that secret, and the repository is one of the allowed owner, with a name of at most
  a hundred letters, digits, hyphens, underscores and dots that is not a directory reference.\<close>

theorem queued_pushes_are_authentic:
  assumes "ed25519_ok X" "serve_request X E app H req w = (r, w')" "gw_queue w' \<noteq> gw_queue w"
  shows "\<exists>body ev. req = PostWebhook body \<and> gw_queue w' = gw_queue w @ [ev] \<and> ge_webhook_secret E \<noteq> [] \<and>
    (\<exists>h. H ''x-hub-signature-256'' = Some (''sha256='' @ h) \<and>
       hex_decode X h = Inr (ge_hmac_sha256 E (as_bytes (ge_webhook_secret E)) body)) \<and>
    (\<exists>v f. me_parse (ge_mcp E) (of_bytes body) = Inr v \<and>
       Option.bind (json_get ''repository'' v) (json_get ''full_name'') = Some (JStr f) \<and>
       f = allowed_owner E @ ''/'' @ pe_repo ev) \<and>
    pe_repo ev \<noteq> [] \<and> length (pe_repo ev) \<le> 100 \<and> pe_repo ev \<noteq> ''.'' \<and> pe_repo ev \<noteq> ''..'' \<and>
    (\<forall>c \<in> set (pe_repo ev). ascii_alphanumeric c \<or> c \<in> {CHR ''-'', CHR ''_'', CHR ''.''})"
proof -
  have "\<exists>body. req = PostWebhook body"
    using requests_admit [OF assms(1), of E app H req] assms(2,3) unfolding admits_def by blast
  then obtain body where req: "req = PostWebhook body" by blast
  with assms(2,3) obtain ev where q: "gw_queue w' = gw_queue w @ [ev]" "ge_webhook_secret E \<noteq> []"
    and mac: "verify_webhook X E (as_bytes (ge_webhook_secret E)) (H ''x-hub-signature-256'') body"
    and ev: "parse_push_event E body = Some ev"
    by (auto simp: route_webhook_def Let_def split: if_splits option.splits)
  from ev obtain v f where v: "me_parse (ge_mcp E) (of_bytes body) = Inr v"
    "Option.bind (json_get ''repository'' v) (json_get ''full_name'') = Some (JStr f)" "allowed_repo E f = Some (pe_repo ev)"
    by (rule parse_push_event_repo)
  from mac obtain h where h: "H ''x-hub-signature-256'' = Some (''sha256='' @ h)"
      "hex_decode X h = Inr (ge_hmac_sha256 E (as_bytes (ge_webhook_secret E)) body)" by (rule verify_webhook_mac)
  have "\<exists>h. H ''x-hub-signature-256'' = Some (''sha256='' @ h) \<and>
       hex_decode X h = Inr (ge_hmac_sha256 E (as_bytes (ge_webhook_secret E)) body)" using h by blast
  moreover have "\<exists>v f. me_parse (ge_mcp E) (of_bytes body) = Inr v \<and>
       Option.bind (json_get ''repository'' v) (json_get ''full_name'') = Some (JStr f) \<and>
       f = allowed_owner E @ ''/'' @ pe_repo ev" using v allowed_repo_safe(1) [OF v(3)] by blast
  ultimately show ?thesis
    using req q safe_name_chars [OF allowed_repo_safe(2) [OF v(3)]] by (intro exI [of _ body] exI [of _ ev]) simp
qed

section \<open>Two gaps\<close>

lemma save_control_fails:
  assumes "ci_rename io = Some e"
  shows "\<exists>err d'. save_control C io c d = (Inl err, d') \<and> cd_live d' = cd_live d"
  using assms by (cases "ci_mkdir io"; cases "cc_print C c"; cases "ci_write io") (auto simp: save_control_def)

text \<open>A membership that could not be saved is honoured: when the save of a just-in-time membership
  fails, the request is refused and nothing reaches the file, but the membership stays in memory,
  and the next request of the principal passes as a member.\<close>

theorem unsaved_membership_is_honoured:
  assumes "ap_team_allowlist_path app = Some path"
    and "match_identity (load_or_empty (ge_allow_parse E) (ge_allow_file E (tick_of w) path))
      (pr_email p) (pr_email_verified p) (pr_wallet_address p) = Some entry"
    and "find_membership (pr_sub p) oid (gw_control w) = None"
    and "ci_rename (ge_control_io E (tick_of w)) = Some e"
  shows "\<exists>w' m. jit_provision E app p oid w = (Inr None, w') \<and> cd_live (gw_disk w') = cd_live (gw_disk w) \<and>
    mb_role m = ae_role entry \<and> mb_scopes m = ae_scopes entry \<and>
    (\<forall>X res v og. gw_control v = gw_control w' \<and> find_org oid (gw_control v) = Some og \<and> og_status og = OrgActive \<longrightarrow>
       gate_membership X E app p oid res v = (Inr m, v))"
proof -
  let ?c = "snd (upsert_membership_full (pr_sub p) oid (ae_role entry) (ae_scopes entry) (gw_control w))"
  let ?m = "\<lparr>mb_sub = pr_sub p, mb_org = oid, mb_role = ae_role entry, mb_scopes = ae_scopes entry, mb_parent = None\<rparr>"
  obtain err d where d: "save_control (ge_control E) (ge_control_io E (tick_of w)) ?c (gw_disk w) = (Inl err, d)"
    and live: "cd_live d = cd_live (gw_disk w)"
    using save_control_fails [OF assms(4)] by blast
  have "jit_provision E app p oid w = (Inr None, w\<lparr>gw_control := ?c, gw_disk := d\<rparr>)"
    using assms(1-3) d by (simp add: jit_provision_def Let_def)
  moreover have m: "find_membership (pr_sub p) oid ?c = Some ?m" using assms(3) by (simp add: upsert_membership_full_find)
  have "gate_membership X E app p oid res v = (Inr ?m, v)"
    if "gw_control v = ?c" "find_org oid (gw_control v) = Some og" "og_status og = OrgActive" for X res v og
    using that m by (simp add: gate_membership_def sbind_def check_org_def existing_membership_def sok_def)
  ultimately show ?thesis
    using live by (intro exI [of _ "w\<lparr>gw_control := ?c, gw_disk := d\<rparr>"] exI [of _ ?m]) auto
qed

text \<open>A suspended organisation refuses every route behind the gate, and its members still get sessions
  for their own models.\<close>

theorem suspended_organisation_still_opens_sessions:
  assumes "find_org (ap_org_id app) (gw_control w) = Some og" "og_status og = OrgSuspended"
    and "bearer H = Some token" "byom_credential E app token w = (Inr c, w)"
    and "find_membership (cred_sub c) (ap_org_id app) (gw_control w) = Some m"
  shows "(\<forall>res operation detail. \<exists>e. fst (gate X E app H (ap_org_id app) res operation detail w) = Inl e) \<and>
    (\<exists>g w'. byom_grant X E app H (cred_sub c) w = (Inr g, w'))"
proof
  have "\<exists>e. fst (gate_with_grant X E app H (ap_org_id app) res operation detail w) = Inl e" for res operation detail
    using assms(1,2)
    by (cases "authenticate_principal E app H w")
      (auto simp: gate_with_grant_def gate_membership_def check_org_def sbind_def dest!: authenticate_state split: sum.splits)
  then show "\<forall>res operation detail. \<exists>e. fst (gate X E app H (ap_org_id app) res operation detail w) = Inl e"
    by (auto simp: gate_def sbind_def split: prod.splits sum.splits) (metis fst_conv sum.distinct(1))
  show "\<exists>g w'. byom_grant X E app H (cred_sub c) w = (Inr g, w')"
    using assms(3-5)
    by (cases c) (auto simp: byom_grant_def slift_bind sbind_def byom_membership_def existing_membership_def gw_now_def sok_def Let_def)
qed

section \<open>Applications\<close>

text \<open>A gateway without an identity provider whose clock counts its readings; every connect token is
  one of ann for reading repository \<open>chain\<close>, every identity token one of bob, and the allowlist
  names bob.\<close>

definition sample_gateway :: "json \<Rightarrow> gw_env" where
  "sample_gateway req = \<lparr>ge_mcp = fixed_request req,
     ge_jwt = \<lparr>jw_key_set = (\<lambda>_. Inr []), jw_rsa = (\<lambda>_. Inr ()), jw_header_kid = (\<lambda>_. Inr None),
       jw_decode_rs256 = (\<lambda>_ _ _ _ _. Inr \<lparr>cl_sub = ''bob'', cl_email = Some ''bob'', cl_email_verified = Some True, cl_wallet_address = None\<rparr>),
       jw_decode_hs256 = (\<lambda>_ _ _. Inr \<lparr>cn_sub = ''ann'', cn_scope = Some ''read'', cn_tenants = Some [''chain''], cn_org = Some ''org''\<rparr>),
       jw_encode_hs256 = (\<lambda>_ _. Inr ''token''), jw_order = id\<rparr>,
     ge_control = \<lparr>cc_print = (\<lambda>_. Inr ''{}''), cc_parse = (\<lambda>_. Inl ''bad'')\<rparr>,
     ge_control_io = (\<lambda>_. \<lparr>ci_read = None, ci_mkdir = None, ci_write = None, ci_partial = None, ci_rename = None\<rparr>),
     ge_allow_parse = (\<lambda>_. Inr [\<lparr>ae_name = None, ae_email = Some ''bob'', ae_wallet = None, ae_role = ReadOnlyMember, ae_scopes = []\<rparr>]),
     ge_allow_file = (\<lambda>_ _. Some ''{}''), ge_hmac_sha256 = (\<lambda>_ _. as_bytes ''m''), ge_webhook_secret = ''s'', ge_allowed_owner = None,
     ge_rpc = \<lparr>http_post_json = (\<lambda>_ _. Inl ''down''), json_text = (\<lambda>_. [])\<rparr>,
     ge_chain = \<lparr>chain_to_json = (\<lambda>_. Inl ''bad''), chain_from_json = (\<lambda>_. Inl ''bad'')\<rparr>,
     ge_record_json = (\<lambda>_. JNull), ge_f32_json = (\<lambda>_. JNull),
     ge_scene = \<lparr>se_f32 = ideal_f32, se_sub = (\<lambda>a _. a), se_cos = id, se_sin = id\<rparr>, ge_connector_script = [], ge_join_error = [],
     ge_f64 = \<lparr>f64_of_nat = of_nat, f64_add = (\<lambda>a b. a + b), f64_sub = (\<lambda>a b. a - b), f64_mul = (\<lambda>a b. a * b),
       f64_div = (\<lambda>a b. a div b), f64_min = min, f64_less = (\<lambda>a b. a < b)\<rparr>\<rparr>"

definition sample_app :: "oidc_verifier option \<Rightarrow> app" where
  "sample_app V = \<lparr>ap_embedder = None, ap_signing_key = 5, ap_org_id = ''org'', ap_store_path = [], ap_chain_rpc = None,
     ap_issuer = ''gw'', ap_oidc = V, ap_connect_secret = Some ''k'', ap_allow_dev_auth = True,
     ap_team_allowlist_path = Some ''allow.json''\<rparr>"

definition sample_world :: gw_world where
  "sample_world = \<lparr>gw_mcp = new_world (new_encrypted kv_new),
     gw_control = \<lparr>ct_orgs = [\<lparr>og_id = ''org'', og_name = ''org'', og_created_at_ms = 0, og_store_path = [], og_status = OrgActive\<rparr>],
       ct_memberships = [\<lparr>mb_sub = ''ann'', mb_org = ''org'', mb_role = OrgOwner, mb_scopes = [], mb_parent = None\<rparr>]\<rparr>,
     gw_disk = \<lparr>cd_live = None, cd_tmp = None\<rparr>, gw_layout = None, gw_queue = [], gw_buckets = Map.empty, gw_inflight = Map.empty\<rparr>"

lemmas sample_defs = sample_gateway_def sample_app_def sample_world_def

text \<open>C15, the owner asks for the health of the organisation.\<close>

theorem organisation_routes_are_gated_witness:
  "\<exists>resp w'. serve_request ideal_externals (sample_gateway JNull) (sample_app None) (\<lambda>k. if k = ''x-dev-sub'' then Some ''ann'' else None)
       (GetOrgHealth ''org'') sample_world = (Inr resp, w') \<and> mw_store (gw_mcp w') = new_encrypted kv_new \<and>
     gate_passed (sample_gateway JNull) (sample_app None) (\<lambda>k. if k = ''x-dev-sub'' then Some ''ann'' else None) ''org'' ''*'' Read sample_world w'"
proof -
  let ?X = ideal_externals and ?E = "sample_gateway JNull" and ?app = "sample_app None"
    and ?H = "\<lambda>k. if k = ''x-dev-sub'' then Some ''ann'' else None"
  have check: "check ?X (mint_grant ?X 5 ''gw'' \<lparr>mb_sub = ''ann'', mb_org = ''org'', mb_role = OrgOwner, mb_scopes = [], mb_parent = None\<rparr> 0 GRANT_TTL_MS) ''*'' Read 0 = Inr ()"
    by (simp add: mint_check [OF ideal_ed25519_ok] may_do_def saturating_add_u64_def GRANT_TTL_MS_def)
  obtain r w' where run: "serve_request ?X ?E ?app ?H (GetOrgHealth ''org'') sample_world = (r, w')"
    by (cases "serve_request ?X ?E ?app ?H (GetOrgHealth ''org'') sample_world")
  have "\<exists>resp. r = Inr resp"
    using run check
    by (auto simp: route_org_health_def gate_def gate_with_grant_def gate_membership_def sbind_def authenticate_principal_def
        check_org_def existing_membership_def find_org_def find_membership_def gw_now_def sok_def audit_event_def audit_append_def
        append_record_eq sample_defs new_world_def new_chain_def fixed_request_def Let_def)
  then obtain resp where r: "r = Inr resp" by blast
  from organisation_routes_are_gated [OF ideal_ed25519_ok _ run, of "''org''" "''*''" Read] r
  have "gate_passed ?E ?app ?H ''org'' ''*'' Read sample_world w'" "mw_store (gw_mcp w') = mw_store (gw_mcp sample_world)" by simp_all
  with run r show ?thesis by (auto simp: sample_world_def new_world_def)
qed

abbreviation bearer_header :: headers where
  "bearer_header \<equiv> \<lambda>k. if k = ''authorization'' then Some ''Bearer x'' else None"

lemma sample_bearer: "bearer bearer_header = Some ''x''"
proof -
  have "trim ''x'' = ''x''" by code_simp
  then show ?thesis by (simp add: bearer_def strip_prefix_def)
qed

text \<open>C16, the owner's connect token for reading repository \<open>chain\<close> never writes.\<close>

theorem own_model_session_is_attenuated_witness:
  "\<exists>g w'. byom_grant ideal_externals (sample_gateway JNull) (sample_app None) bearer_header ''ann'' sample_world = (Inr g, w') \<and>
     cg_recipient g = ''ann'' \<and> (\<forall>res t. check ideal_externals g res Write t \<noteq> Inr ())"
proof -
  let ?X = ideal_externals and ?E = "sample_gateway JNull" and ?app = "sample_app None"
  let ?cl = "\<lparr>cn_sub = ''ann'', cn_scope = Some ''read'', cn_tenants = Some [''chain''], cn_org = Some ''org''\<rparr>"
  have "\<not> token_allows_write ?cl" by code_simp
  moreover have only: "c = Connect ?cl" if "presented ?E ?app bearer_header k c" for c k
    using that by (cases c) (auto simp: presented_def verify_connect_token_def sample_defs)
  moreover obtain g w' where run: "byom_grant ?X ?E ?app bearer_header ''ann'' sample_world = (Inr g, w')"
    by (simp add: byom_grant_def slift_bind sample_bearer sbind_def byom_credential_def verify_connect_token_def cred_sub_def
        byom_membership_def existing_membership_def find_membership_def gw_now_def sok_def sample_defs Let_def)
  ultimately show ?thesis
    using own_model_session_is_attenuated [OF ideal_ed25519_ok run] by blast
qed

text \<open>C17, bob, whose verified email the allowlist names, opens his first session.\<close>

theorem members_come_from_the_allowlist_witness:
  "\<exists>r w'. serve_request ideal_externals (sample_gateway JNull)
       (sample_app (Some \<lparr>ov_issuer = [], ov_audience = [], ov_by_kid = [], ov_anonymous = [(''n'', ''e'')]\<rparr>))
       bearer_header (PostByom ''bob'' []) sample_world = (r, w') \<and>
     gw_control w' \<noteq> gw_control sample_world \<and> ct_orgs (gw_control w') = ct_orgs (gw_control sample_world)"
proof -
  let ?X = ideal_externals and ?E = "sample_gateway JNull"
    and ?app = "sample_app (Some \<lparr>ov_issuer = [], ov_audience = [], ov_by_kid = [], ov_anonymous = [(''n'', ''e'')]\<rparr>)"
  have bob: "claimed_id (Some ''bob'') = Some ''bob''" by code_simp
  obtain r w' where run: "serve_request ?X ?E ?app bearer_header (PostByom ''bob'' []) sample_world = (r, w')"
    by (cases "serve_request ?X ?E ?app bearer_header (PostByom ''bob'' []) sample_world")
  have lines: "byom_lines [] = []" by code_simp
  have "find_membership ''bob'' ''org'' (gw_control w') \<noteq> None"
    using run
    by (auto simp: route_byom_def byom_grant_def slift_bind sample_bearer sbind_def byom_credential_def verify_principal_def
        candidates_def cred_sub_def byom_membership_def existing_membership_def find_membership_def gw_now_def sok_def sample_defs Let_def
        jit_provision_def match_identity_def load_or_empty_def entry_hit_def bob upsert_membership_full_def save_control_def slift_def
        lines BYOM_MAX_LINES_def spend_or_refuse_def try_spend_def enter_or_refuse_def try_enter_def execute_lines_def leave_def
        BYOM_BURST_CALLS_def BYOM_MAX_CONCURRENT_PER_PRINCIPAL_def new_world_def)
  moreover have "find_membership ''bob'' ''org'' (gw_control sample_world) = None" by (simp add: sample_world_def find_membership_def)
  ultimately have "gw_control w' \<noteq> gw_control sample_world" by auto
  with run members_come_from_the_allowlist [OF ideal_ed25519_ok run] show ?thesis by blast
qed

text \<open>C18, a push to \<open>x\<close> of the allowed owner.\<close>

theorem queued_pushes_are_authentic_witness:
  "\<exists>r w' ev. serve_request ideal_externals
       (sample_gateway (JObj [(''repository'', JObj [(''full_name'', JStr ''CitrateNetwork/x'')]), (''ref'', JStr ''main'')]))
       (sample_app None) (\<lambda>k. if k = ''x-hub-signature-256'' then Some ''sha256=m'' else None) (PostWebhook []) sample_world = (r, w') \<and>
     gw_queue w' = [ev] \<and> pe_repo ev \<noteq> ''..''"
proof -
  let ?X = ideal_externals and ?H = "\<lambda>k. if k = ''x-hub-signature-256'' then Some ''sha256=m'' else None"
    and ?E = "sample_gateway (JObj [(''repository'', JObj [(''full_name'', JStr ''CitrateNetwork/x'')]), (''ref'', JStr ''main'')])"
  obtain r w' where run: "serve_request ?X ?E (sample_app None) ?H (PostWebhook []) sample_world = (r, w')"
    by (cases "serve_request ?X ?E (sample_app None) ?H (PostWebhook []) sample_world")
  have mac: "verify_webhook ?X ?E (as_bytes ''s'') (Some ''sha256=m'') []"
    by (simp add: verify_webhook_def strip_prefix_def as_bytes_def sample_gateway_def ideal_externals_def)
  have "split_once_char (CHR ''/'') ''CitrateNetwork/x'' = Some (''CitrateNetwork'', ''x'')" "is_safe_repo_name ''x''" by code_simp+
  then have "\<exists>ev. parse_push_event ?E [] = Some ev"
    by (simp add: parse_push_event_def allowed_repo_def allowed_owner_def sample_gateway_def fixed_request_def)
  then have "gw_queue w' \<noteq> gw_queue sample_world"
    using run mac by (auto simp: route_webhook_def sample_gateway_def Let_def)
  from queued_pushes_are_authentic [OF ideal_ed25519_ok run this] obtain ev
    where "gw_queue w' = gw_queue sample_world @ [ev]" "pe_repo ev \<noteq> ''..''" by blast
  with run show ?thesis by (auto simp: sample_world_def)
qed

end
