(* ===== verification/Lexis.thy ===== *)
theory Lexis
  imports Split
begin

text \<open>
  Lexical facts the text formats share: visible characters and trimming, digits and the decimal
  form of numbers.
\<close>

section \<open>Visible characters\<close>

text \<open>Text that starts and ends with a visible ASCII character is already trimmed.\<close>

definition visible :: "byte \<Rightarrow> bool" where
  "visible a \<longleftrightarrow> 33 \<le> a \<and> a \<le> 126"

definition graphic :: "char \<Rightarrow> bool" where
  "graphic c \<longleftrightarrow> visible (of_char c)"

lemma visible_bounds:
  assumes "visible a"
  shows "\<not> (9 \<le> a \<and> a \<le> 13)" "a \<noteq> 32" "a \<noteq> 0xC2" "a \<noteq> 0xE1" "a \<noteq> 0xE2" "a \<noteq> 0xE3" "a \<noteq> 10" "a \<noteq> 13" "a \<noteq> 0"
  using assms by (auto simp: visible_def word_le_nat_alt)

lemma visible_not_white: "visible a \<Longrightarrow> \<not> all_white (a # bs)"
  by (simp add: visible_bounds)

lemma white_len_visible: "visible a \<Longrightarrow> white_len (a # bs) = 0"
  by (simp add: visible_not_white visible_bounds del: all_white.simps)

lemma not_visible: "a \<le> 32 \<Longrightarrow> \<not> visible a" "0x7F \<le> a \<Longrightarrow> \<not> visible a"
  by (auto simp: visible_def word_le_nat_alt)

lemma white_cases:
  assumes "all_white (a # bs)"
  obtains "\<not> visible a" "all_white bs" | b r where "bs = b # r" "\<not> visible b" "all_white r"
    | b c r where "bs = b # c # r" "\<not> visible c" "all_white r"
proof -
  have nv: "\<not> visible a" using assms visible_not_white by blast
  have c: "\<not> visible c" if "0x80 \<le> c \<and> c \<le> 0x8A \<or> c = 0xA8 \<or> c = 0xA9 \<or> c = 0xAF \<or> c = 0x9F \<or> c = 0x80 \<or> c = 0x85 \<or> c = (0xA0 :: byte)" for c
    using that by (intro not_visible(2)) (auto simp: word_le_nat_alt)
  consider "(9 \<le> a \<and> a \<le> 13) \<or> a = 32" | "\<not> ((9 \<le> a \<and> a \<le> 13) \<or> a = 32)" "a = 0xC2"
    | "\<not> ((9 \<le> a \<and> a \<le> 13) \<or> a = 32)" "a \<noteq> 0xC2" by blast
  then show ?thesis
  proof cases
    case 1
    with assms nv that(1) show ?thesis by simp
  next
    case 2
    with assms c that(2) show ?thesis by (auto split: list.splits)
  next
    case 3
    with assms c that(3) show ?thesis by (simp split: if_splits list.splits) blast+
  qed
qed

lemma white_last: "all_white b \<Longrightarrow> b \<noteq> [] \<Longrightarrow> \<not> visible (last b)"
proof (induction "length b" arbitrary: b rule: less_induct)
  case less
  then obtain a bs where b: "b = a # bs" by (cases b) auto
  have IH: "r \<noteq> [] \<Longrightarrow> all_white r \<Longrightarrow> length r < length b \<Longrightarrow> \<not> visible (last r)" for r using less(1) by blast
  from less(2) have "all_white (a # bs)" by (simp only: b)
  then show ?case
  proof (cases rule: white_cases)
    case 1
    then show ?thesis using IH [of bs] b by auto
  next
    case (2 b' r)
    then show ?thesis using IH [of r] b by auto
  next
    case (3 b' c r)
    then show ?thesis using IH [of r] b by auto
  qed
qed

lemma as_bytes_hd: "s \<noteq> [] \<Longrightarrow> hd (as_bytes s) = of_char (hd s)"
  and as_bytes_last: "s \<noteq> [] \<Longrightarrow> last (as_bytes s) = of_char (last s)"
  by (simp_all add: as_bytes_def hd_map last_map)

lemma trim_start_visible: "visible (hd b) \<Longrightarrow> trim_start b = b"
  by (cases b) (simp_all add: trim_start.simps white_len_visible del: white_len.simps)

lemma trim_end_visible:
  assumes "visible (last b)"
  shows "trim_end b = b"
proof -
  have "\<not> all_white (drop k b)" if "k < length b" for k
    using white_last [of "drop k b"] that assms by auto
  then have "List.find (\<lambda>k. all_white (drop k b)) [0..<length b] = None" by (simp add: find_None_iff)
  then show ?thesis by (simp add: trim_end_def)
qed

lemma trim_graphic:
  assumes "s \<noteq> []" "graphic (hd s)" "graphic (last s)"
  shows "trim s = s"
proof -
  have "visible (hd (as_bytes s))" "visible (last (as_bytes s))"
    using assms by (simp_all add: graphic_def as_bytes_hd as_bytes_last)
  then show ?thesis by (simp add: trim_def trim_start_visible trim_end_visible)
qed

lemma trim_start_not_blank:
  assumes "s \<noteq> []" "graphic (hd s)"
  shows "trim s \<noteq> []"
proof -
  have v: "visible (hd (as_bytes s))" and ne: "as_bytes s \<noteq> []"
    using assms as_bytes_hd [of s] by (simp_all add: graphic_def) (simp add: as_bytes_def)
  then have start: "trim_start (as_bytes s) = as_bytes s" by (simp add: trim_start_visible)
  have "take k (as_bytes s) \<noteq> []" if "List.find (\<lambda>k. all_white (drop k (as_bytes s))) [0..<length (as_bytes s)] = Some k" for k
  proof -
    have "all_white (drop k (as_bytes s))" using that by (auto simp: find_Some_iff)
    moreover have "\<not> all_white (as_bytes s)"
      using visible_not_white [OF v, of "tl (as_bytes s)"] ne by (simp del: all_white.simps)
    ultimately have "k \<noteq> 0" by (intro notI) simp
    then show ?thesis using ne by simp
  qed
  then have "trim_end (as_bytes s) \<noteq> []" using ne by (auto simp: trim_end_def split: option.splits)
  then show ?thesis by (simp add: trim_def start of_bytes_def)
qed

section \<open>Digits\<close>

definition is_digit :: "char \<Rightarrow> bool" where
  "is_digit c \<longleftrightarrow> 48 \<le> (of_char c :: nat) \<and> of_char c \<le> (57 :: nat)"

lemma graphic_nat: "graphic c \<longleftrightarrow> 33 \<le> (of_char c :: nat) \<and> of_char c \<le> (126 :: nat)"
  by (simp add: graphic_def visible_def word_le_nat_alt)

lemma digit_graphic: "is_digit c \<Longrightarrow> graphic c"
  by (simp add: is_digit_def graphic_nat)

lemma print_digits: "list_all is_digit (print_radix 10 n)"
proof (induction n rule: less_induct)
  case (less n)
  have d: "d < 10 \<Longrightarrow> is_digit (digit_char d)" for d by (simp add: is_digit_def)
  show ?case
  proof (cases "n < 10")
    case True
    then show ?thesis using d by (simp add: print_radix.simps [of 10 n])
  next
    case False
    then have "list_all is_digit (print_radix 10 (n div 10))" by (intro less) simp
    then show ?thesis using False d by (simp add: print_radix.simps [of 10 n])
  qed
qed

lemma print_ne [simp]: "print_radix r n \<noteq> []"
  by (subst print_radix.simps) simp

lemma digits_value_append:
  "digits_value r acc (s @ t) = (case digits_value r acc s of None \<Rightarrow> None | Some a \<Rightarrow> digits_value r a t)"
  by (induction r acc s rule: digits_value.induct) (auto split: option.splits)

lemma print_value: "digits_value 10 0 (print_radix 10 n) = Some n"
proof (induction n rule: less_induct)
  case (less n)
  have d: "d < 10 \<Longrightarrow> to_digit 10 (digit_char d) = Some d" for d by (rule to_digit_digit_char) simp_all
  show ?case
  proof (cases "n < 10")
    case True
    then show ?thesis using d by (simp add: print_radix.simps [of 10 n] del: digit_char.simps)
  next
    case False
    then have "digits_value 10 0 (print_radix 10 (n div 10)) = Some (n div 10)" by (intro less) simp
    then show ?thesis using False d [of "n mod 10"]
      by (simp add: print_radix.simps [of 10 n] digits_value_append del: digit_char.simps)
  qed
qed

end
