(* ===== verification/Frontmatter.thy ===== *)
theory Frontmatter
  imports Lexis "HOL-Library.Signed_Division"
begin

text \<open>
  \<^verbatim>\<open>crates/mem-ingest/src/frontmatter.rs\<close>: the fenced header of a document and the date in it. Integers of
  type \<^verbatim>\<open>i64\<close> are integers with the wrap-around of a release build written out (\<open>w64\<close>). The date
  arithmetic is compared with a calendar that only counts: a date is what a number of days after
  the first of January 1970 arrives at, one day at a time.
\<close>

section \<open>Standard library\<close>

definition w64 :: "int \<Rightarrow> int" where
  "w64 x = (x + 2 ^ 63) mod 2 ^ 64 - 2 ^ 63"

definition checked_i64 :: "int \<Rightarrow> int option" where
  "checked_i64 x = (if - (2 ^ 63) \<le> x \<and> x < 2 ^ 63 then Some x else None)"

text \<open>\<^verbatim>\<open>str::parse\<close> to an unsigned integer below a bound, and to an \<^verbatim>\<open>i64\<close>; the error is not used.\<close>

definition parse_below :: "nat \<Rightarrow> string \<Rightarrow> nat option" where
  "parse_below bound s =
     (let ds = (if s \<noteq> [] \<and> hd s = CHR ''+'' then tl s else s)
      in if ds = [] then None
         else case digits_value 10 0 ds of None \<Rightarrow> None | Some n \<Rightarrow> if n < bound then Some n else None)"

definition parse_u32 :: "string \<Rightarrow> nat option" where
  "parse_u32 s = parse_below (2 ^ 32) s"

definition parse_i64 :: "string \<Rightarrow> int option" where
  "parse_i64 s =
     (if s \<noteq> [] \<and> hd s = CHR ''-'' then
        (if tl s = [] then None
         else case digits_value 10 0 (tl s) of
                None \<Rightarrow> None
              | Some n \<Rightarrow> if n \<le> 2 ^ 63 then Some (- int n) else None)
      else map_option int (parse_below (2 ^ 63) s))"

fun split_inclusive :: "char \<Rightarrow> string \<Rightarrow> string list" where
  "split_inclusive c [] = []"
| "split_inclusive c (x # xs) =
     (if x = c then [x] # split_inclusive c xs
      else case split_inclusive c xs of [] \<Rightarrow> [[x]] | p # ps \<Rightarrow> (x # p) # ps)"

definition trim_end_chars :: "char set \<Rightarrow> string \<Rightarrow> string" where
  "trim_end_chars cs s = rev (dropWhile (\<lambda>c. c \<in> cs) (rev s))"

section \<open>The header of a document\<close>

definition NL :: char where "NL = char_of (10 :: nat)"
definition CR :: char where "CR = char_of (13 :: nat)"

definition insert_kv :: "string \<Rightarrow> (string \<rightharpoonup> string) \<Rightarrow> (string \<rightharpoonup> string)" where
  "insert_kv line m =
     (case split_once_char CHR '':'' line of
        None \<Rightarrow> m
      | Some (k, v) \<Rightarrow> if trim k = [] then m else m(trim k \<mapsto> trim v))"

definition parse_kv :: "string \<Rightarrow> (string \<rightharpoonup> string)" where
  "parse_kv s = fold insert_kv (str_lines s) Map.empty"

fun find_fence :: "string \<Rightarrow> string list \<Rightarrow> (string \<times> string) option" where
  "find_fence pre [] = None"
| "find_fence pre (l # ls) =
     (if trim_end_chars {NL, CR} l = ''---'' then Some (pre, concat ls) else find_fence (pre @ l) ls)"

definition parse_frontmatter :: "string \<Rightarrow> (string \<rightharpoonup> string) \<times> string" where
  "parse_frontmatter txt =
     (case (case strip_prefix (''---'' @ [NL]) txt of Some r \<Rightarrow> Some r | None \<Rightarrow> strip_prefix (''---'' @ [CR, NL]) txt) of
        None \<Rightarrow> (Map.empty, txt)
      | Some rest \<Rightarrow>
          (case find_fence [] (split_inclusive NL rest) of
             None \<Rightarrow> (Map.empty, txt)
           | Some (fm, body) \<Rightarrow> (parse_kv fm, body)))"

section \<open>Dates\<close>

definition days_from_civil :: "int \<Rightarrow> nat \<Rightarrow> nat \<Rightarrow> int" where
  "days_from_civil year m d =
     (let y = (if m \<le> 2 then w64 (year - 1) else year);
          era = (if y \<ge> 0 then y else w64 (y - 399)) sdiv 400;
          yoe = w64 (y - w64 (era * 400));
          mp = int ((m + 9) mod 12);
          doy = (153 * mp + 2) sdiv 5 + int d - 1;
          doe = w64 (w64 (w64 (yoe * 365) + yoe sdiv 4) - yoe sdiv 100 + doy)
      in w64 (w64 (w64 (era * 146097) + doe) - 719468))"

definition clock_secs :: "string \<Rightarrow> (nat \<times> nat \<times> nat) option" where
  "clock_secs time =
     (let t1 = trim_end_chars {CHR ''Z''} time;
          t2 = takeWhile (\<lambda>c. c \<noteq> CHR ''+'') t1;
          t3 = hd (split_char CHR ''.'' t2)
      in if t3 = [] then Some (0, 0, 0)
         else
           let parts = split_char CHR '':'' t3;
               field = (\<lambda>i. if i < length parts then parse_u32 (parts ! i) else Some 0)
           in case (field 0, field 1, field 2) of
                (Some h, Some mi, Some s) \<Rightarrow>
                  if length parts > 3 \<or> h \<ge> 24 \<or> mi \<ge> 60 \<or> s \<ge> 60 then None else Some (h, mi, s)
              | _ \<Rightarrow> None)"

definition parse_iso8601_ms :: "string \<Rightarrow> nat option" where
  "parse_iso8601_ms txt =
     (let s = trim txt;
          (date, time) = (case split_once_char CHR ''T'' s of
                            Some p \<Rightarrow> p
                          | None \<Rightarrow> (case split_once_char CHR '' '' s of Some p \<Rightarrow> p | None \<Rightarrow> (s, [])))
      in case split_char CHR ''-'' date of
           [ys, ms, ds] \<Rightarrow>
             (case (parse_i64 ys, parse_u32 ms, parse_u32 ds) of
                (Some year, Some month, Some day) \<Rightarrow>
                  if month < 1 \<or> 12 < month \<or> day < 1 \<or> 31 < day then None
                  else
                    (case clock_secs time of
                       None \<Rightarrow> None
                     | Some (h, mi, sec) \<Rightarrow>
                         let days = days_from_civil year month day;
                             secs = w64 (w64 (w64 (w64 (days * 86400) + int h * 3600) + int mi * 60) + int sec)
                         in case checked_i64 (secs * 1000) of
                              None \<Rightarrow> None
                            | Some ms \<Rightarrow> if ms < 0 then None else Some (nat ms))
              | _ \<Rightarrow> None)
         | _ \<Rightarrow> None)"

definition created_ms :: "(string \<rightharpoonup> string) \<Rightarrow> nat option" where
  "created_ms fm = Option.bind (fm ''created'') parse_iso8601_ms"

section \<open>The calendar\<close>

definition leap :: "int \<Rightarrow> bool" where
  "leap y \<longleftrightarrow> y mod 4 = 0 \<and> (y mod 100 \<noteq> 0 \<or> y mod 400 = 0)"

definition month_days :: "int \<Rightarrow> nat \<Rightarrow> nat" where
  "month_days y m = (if m = 2 then (if leap y then 29 else 28) else if m \<in> {4, 6, 9, 11} then 30 else 31)"

type_synonym date = "int \<times> nat \<times> nat"

fun next_day :: "date \<Rightarrow> date" where
  "next_day (y, m, d) =
     (if d < month_days y m then (y, m, d + 1) else if m < 12 then (y, m + 1, 1) else (y + 1, 1, 1))"

definition nth_day :: "nat \<Rightarrow> date" where
  "nth_day n = (next_day ^^ n) (1970, 1, 1)"

definition date_ok :: "date \<Rightarrow> bool" where
  "date_ok = (\<lambda>(y, m, d). 1970 \<le> y \<and> 1 \<le> m \<and> m \<le> 12 \<and> 1 \<le> d \<and> d \<le> month_days y m)"

text \<open>The day number without machine arithmetic: whole years since March of year zero, then whole
  months since March.\<close>

definition march_days :: "int \<Rightarrow> int" where
  "march_days y = 365 * y + y div 4 - y div 100 + y div 400"

definition month_offset :: "nat \<Rightarrow> int" where
  "month_offset m = (153 * int ((m + 9) mod 12) + 2) div 5"

definition day_number :: "date \<Rightarrow> int" where
  "day_number = (\<lambda>(y, m, d). march_days (if m \<le> 2 then y - 1 else y) + month_offset m + int d - 719469)"

lemma div_step: "0 < k \<Longrightarrow> (y :: int) div k = (y - 1) div k + (if y mod k = 0 then 1 else 0)"
proof -
  assume k: "0 < k"
  have "(y - 1) div k = (if y mod k = 0 then y div k - 1 else y div k)"
  proof (cases "y mod k = 0")
    case True
    then obtain q where "y = k * q" by (auto elim: dvdE simp: mod_eq_0_iff_dvd)
    then show ?thesis using k by (simp add: int_div_pos_eq [of "k * q - 1" k "q - 1" "k - 1"] algebra_simps)
  next
    case False
    have y: "y - 1 = k * (y div k) + (y mod k - 1)" by simp
    have "0 \<le> y mod k - 1" "y mod k - 1 < k" using k False pos_mod_sign [OF k, of y] pos_mod_bound [OF k, of y] by linarith+
    with y have "(y - 1) div k = y div k" by (intro int_div_pos_eq) auto
    with False show ?thesis by simp
  qed
  then show ?thesis by simp
qed

lemma leap_count:
  assumes "y mod 100 = 0 \<Longrightarrow> y mod 4 = 0" "y mod 400 = 0 \<Longrightarrow> y mod 100 = 0"
    and "a = a' + (if y mod 4 = 0 then 1 else 0)" "b = b' + (if y mod 100 = 0 then 1 else 0)"
    and "c = c' + (if y mod 400 = 0 then 1 else (0 :: int))"
  shows "365 * y + a - b + c = 365 * (y - 1) + a' - b' + c' + (if leap y then 366 else 365)"
  using assms by (cases "y mod 4 = 0"; cases "y mod 100 = 0"; cases "y mod 400 = 0") (simp_all add: leap_def)

lemma march_step: "march_days y = march_days (y - 1) + (if leap y then 366 else 365)"
proof -
  have "(4 :: int) dvd 100" "(100 :: int) dvd 400" by simp_all
  then have m: "y mod 100 = 0 \<Longrightarrow> y mod 4 = 0" "y mod 400 = 0 \<Longrightarrow> y mod 100 = 0"
    unfolding mod_eq_0_iff_dvd by (blast intro: dvd_trans)+
  show ?thesis unfolding march_days_def
    by (rule leap_count [OF m div_step div_step div_step]) simp_all
qed

lemma month_cases: "1 \<le> (m :: nat) \<Longrightarrow> m \<le> 12 \<Longrightarrow> m \<in> {1, 2, 3, 4, 5, 6, 7, 8, 9, 10, 11, 12}"
  by simp presburger

lemma day_number_next:
  assumes "date_ok (y, m, d)"
  shows "day_number (next_day (y, m, d)) = day_number (y, m, d) + 1"
proof (cases "d < month_days y m")
  case True
  then show ?thesis by (simp add: day_number_def)
next
  case False
  with assms have d: "d = month_days y m" and m: "m \<in> {1, 2, 3, 4, 5, 6, 7, 8, 9, 10, 11, 12}"
    using month_cases [of m] by (simp_all add: date_ok_def)
  show ?thesis using m d march_step [of y]
    by (auto simp: day_number_def month_days_def month_offset_def)
qed

lemma date_ok_next: "date_ok t \<Longrightarrow> date_ok (next_day t)"
  by (cases t) (auto simp: date_ok_def month_days_def)

lemma date_ok_nth: "date_ok (nth_day n)"
  by (induction n) (simp_all add: nth_day_def date_ok_next, simp add: date_ok_def month_days_def)

lemma day_number_nth: "day_number (nth_day n) = int n"
proof (induction n)
  case 0
  show ?case by (simp add: nth_day_def day_number_def march_days_def month_offset_def)
next
  case (Suc n)
  obtain y m d where t: "nth_day n = (y, m, d)" by (cases "nth_day n")
  with date_ok_nth [of n] have "day_number (next_day (nth_day n)) = day_number (nth_day n) + 1"
    using day_number_next by simp
  with Suc show ?case by (simp add: nth_day_def)
qed

section \<open>The code's day number\<close>

lemma w64_id: "- (2 ^ 63) \<le> x \<Longrightarrow> x < 2 ^ 63 \<Longrightarrow> w64 x = x"
  by (simp add: w64_def)

lemma sdiv_nonneg: "0 \<le> a \<Longrightarrow> 0 < b \<Longrightarrow> (a :: int) sdiv b = a div b"
  by (cases "a = 0") (auto simp: signed_divide_int_def)

lemma era_split:
  assumes "0 \<le> (y :: int)"
  shows "y div 400 * 146097 + ((y - y div 400 * 400) * 365 + (y - y div 400 * 400) div 4 - (y - y div 400 * 400) div 100) = march_days y"
proof -
  have "(y - y div 400 * 400) div 4 = y div 4 - y div 400 * 100"
    "(y - y div 400 * 400) div 100 = y div 100 - y div 400 * 4"
    using div_mult_self1 [of 4 y "- (y div 400 * 100)"] div_mult_self1 [of 100 y "- (y div 400 * 4)"] by (simp_all add: mult.commute)
  then show ?thesis by (simp add: march_days_def)
qed

lemma days_from_civil_exact:
  assumes "date_ok (y, m, d)" "y \<le> 2 ^ 40"
  shows "days_from_civil y m d = day_number (y, m, d)"
proof -
  have ym: "1970 \<le> y" "1 \<le> m" "m \<le> 12" "1 \<le> d" "d \<le> 31" using assms by (auto simp: date_ok_def month_days_def split: if_splits)
  define z where "z = (if m \<le> 2 then y - 1 else y)"
  have z: "0 \<le> z" "z \<le> 2 ^ 40" using ym assms(2) by (auto simp: z_def)
  define era where "era = z div 400"
  define yoe where "yoe = z - era * 400"
  have yoe: "0 \<le> yoe" "yoe < 400" unfolding yoe_def era_def by (simp_all add: minus_div_mult_eq_mod)
  have era: "0 \<le> era" "era * 400 \<le> z" using z yoe by (simp_all add: era_def yoe_def pos_imp_zdiv_nonneg_iff)
  then have era': "era \<le> 2 ^ 40" "0 \<le> era * 400" using z by simp_all
  have mo: "0 \<le> month_offset m" "month_offset m \<le> 400"
    using month_cases [OF ym(2,3)] by (auto simp: month_offset_def)
  have mp: "(153 * int ((m + 9) mod 12) + 2) sdiv 5 = month_offset m" by (simp add: month_offset_def sdiv_nonneg)
  have yq: "yoe sdiv 4 = yoe div 4" "yoe sdiv 100 = yoe div 100" "0 \<le> yoe div 4" "yoe div 4 < 100" "0 \<le> yoe div 100" "yoe div 100 < 4"
    using yoe by (simp_all add: sdiv_nonneg)
  have doe: "w64 (w64 (w64 (yoe * 365) + yoe sdiv 4) - yoe sdiv 100 + (month_offset m + int d - 1)) =
    yoe * 365 + yoe div 4 - yoe div 100 + month_offset m + int d - 1"
    using yoe yq ym mo by (simp add: w64_id)
  have wz: "(if m \<le> 2 then w64 (y - 1) else y) = z" using ym assms(2) by (auto simp: z_def w64_id)
  have "days_from_civil y m d = era * 146097 + (yoe * 365 + yoe div 4 - yoe div 100 + month_offset m + int d - 1) - 719468"
    unfolding days_from_civil_def Let_def wz mp
    using z era era' yoe yq mo ym doe by (simp add: sdiv_nonneg w64_id flip: era_def yoe_def)
  also have "\<dots> = day_number (y, m, d)"
    using era_split [OF z(1)] by (simp add: day_number_def era_def yoe_def z_def algebra_simps split: if_splits)
  finally show ?thesis .
qed

section \<open>Reading a printed date\<close>

definition pad2 :: "nat \<Rightarrow> string" where
  "pad2 n = (if n < 10 then ''0'' else []) @ print_radix 10 n"

definition print_date :: "date \<Rightarrow> string" where
  "print_date = (\<lambda>(y, m, d). print_radix 10 (nat y) @ ''-'' @ pad2 m @ ''-'' @ pad2 d)"

definition print_clock :: "nat \<Rightarrow> nat \<Rightarrow> nat \<Rightarrow> string" where
  "print_clock h mi s = pad2 h @ '':'' @ pad2 mi @ '':'' @ pad2 s"

definition print_instant :: "nat \<Rightarrow> nat \<Rightarrow> nat \<Rightarrow> nat \<Rightarrow> string" where
  "print_instant n h mi s = print_date (nth_day n) @ ''T'' @ print_clock h mi s @ ''Z''"

lemma pad2_digits: "list_all is_digit (pad2 n)"
  using print_digits [of n] by (simp add: pad2_def is_digit_def)

lemma pad2_ne [simp]: "pad2 n \<noteq> []"
  by (simp add: pad2_def)

lemma pad2_value: "digits_value 10 0 (pad2 n) = Some n"
  by (simp add: pad2_def print_value to_digit_def)

lemma digits_avoid: "list_all is_digit s \<Longrightarrow> \<not> is_digit c \<Longrightarrow> c \<notin> set s"
  by (auto simp: list_all_iff)

lemma parse_below_digits:
  assumes "list_all is_digit s" "s \<noteq> []" "digits_value 10 0 s = Some n" "n < bound"
  shows "parse_below bound s = Some n"
proof -
  have "hd s \<noteq> CHR ''+''" using assms(1,2) by (cases s) (auto simp: is_digit_def)
  then show ?thesis using assms by (simp add: parse_below_def)
qed

lemma parse_i64_digits:
  assumes "list_all is_digit s" "s \<noteq> []" "digits_value 10 0 s = Some n" "n < 2 ^ 63"
  shows "parse_i64 s = Some (int n)"
proof -
  have "hd s \<noteq> CHR ''-''" using assms(1,2) by (cases s) (auto simp: is_digit_def)
  then show ?thesis using parse_below_digits [OF assms] by (simp add: parse_i64_def)
qed

lemma split_three:
  assumes "c \<notin> set a" "c \<notin> set b" "c \<notin> set d"
  shows "split_char c (a @ [c] @ b @ [c] @ d) = [a, b, d]"
  using assms by (simp add: split_char_append split_char_none)

lemma clock_read:
  assumes "h < 24" "mi < 60" "s < 60"
  shows "clock_secs (print_clock h mi s @ ''Z'') = Some (h, mi, s)"
proof -
  let ?t = "print_clock h mi s"
  have no: "c \<notin> set ?t" if "\<not> is_digit c" "c \<noteq> CHR '':''" for c
    using that digits_avoid [OF pad2_digits] by (auto simp: print_clock_def)
  have ne: "?t \<noteq> []" by (simp add: print_clock_def)
  have "CHR ''Z'' \<notin> set ?t" by (rule no) (simp_all add: is_digit_def)
  then have "last ?t \<noteq> CHR ''Z''" using last_in_set [OF ne] by metis
  then have t1: "trim_end_chars {CHR ''Z''} (?t @ ''Z'') = ?t"
    by (cases ?t rule: rev_cases) (simp_all add: trim_end_chars_def)
  have t2: "takeWhile (\<lambda>c. c \<noteq> CHR ''+'') ?t = ?t"
    using no [of "CHR ''+''"] by (auto simp: takeWhile_eq_all_conv is_digit_def)
  have t3: "split_char CHR ''.'' ?t = [?t]"
    using no [of "CHR ''.''"] by (intro split_char_none) (simp add: is_digit_def)
  have col: "CHR '':'' \<notin> set (pad2 n)" for n by (rule digits_avoid [OF pad2_digits]) (simp add: is_digit_def)
  have t4: "split_char CHR '':'' ?t = [pad2 h, pad2 mi, pad2 s]"
    unfolding print_clock_def using split_three [OF col col col, of h mi s] by simp
  have p: "n < 60 \<Longrightarrow> parse_u32 (pad2 n) = Some n" for n
    unfolding parse_u32_def by (rule parse_below_digits [OF pad2_digits _ pad2_value]) simp_all
  show ?thesis
    unfolding clock_secs_def Let_def t1 t2 t3 list.sel t4 using ne p [of h] p [of mi] p [of s] assms by simp
qed

lemma nth_day_year:
  assumes "nth_day n = (y, m, d)" "n < 2 ^ 40"
  shows "1970 \<le> y" "y \<le> 2 ^ 40" "1 \<le> m" "m \<le> 12" "1 \<le> d" "d \<le> 31"
proof -
  have ok: "date_ok (y, m, d)" using date_ok_nth [of n] assms by simp
  then show b: "1970 \<le> y" "1 \<le> m" "m \<le> 12" "1 \<le> d" "d \<le> 31"
    by (auto simp: date_ok_def month_days_def split: if_splits)
  define z where "z = (if m \<le> 2 then y - 1 else y)"
  have z: "0 \<le> z" "y \<le> z + 1" using b by (auto simp: z_def)
  have "z div 100 \<le> z div 4" "0 \<le> z div 400" using z zdiv_mono2 [of z 4 100] by simp_all
  then have "365 * z \<le> march_days z" by (simp add: march_days_def)
  moreover have "0 \<le> month_offset m" using month_cases [OF b(2,3)] by (auto simp: month_offset_def)
  moreover have "march_days z + month_offset m + int d - 719469 = int n"
    using day_number_nth [of n] assms(1) by (simp add: day_number_def z_def)
  ultimately show "y \<le> 2 ^ 40" using z assms(2) by simp
qed

text \<open>C38. A timestamp is read exactly: the date that is \<open>n\<close> days after the first of January 1970, counted
  one day at a time through leap years and months, with a time of day, is parsed to the
  milliseconds that passed since then, whenever they fit the integer the code multiplies in.\<close>

theorem iso8601_roundtrip:
  assumes "h < 24" "mi < 60" "s < 60" "1000 * (86400 * n + 3600 * h + 60 * mi + s) < 2 ^ 63"
  shows "parse_iso8601_ms (print_instant n h mi s) = Some (1000 * (86400 * n + 3600 * h + 60 * mi + s))"
proof -
  obtain y m d where t: "nth_day n = (y, m, d)" by (cases "nth_day n")
  have n: "n < 2 ^ 40" using assms(4) by simp
  note b = nth_day_year [OF t n]
  let ?date = "print_date (y, m, d)" and ?clock = "print_clock h mi s @ ''Z''"
  have shape: "print_instant n h mi s = ?date @ CHR ''T'' # ?clock" by (simp add: print_instant_def t)
  have dash: "CHR ''-'' \<notin> set (pad2 k)" "CHR ''-'' \<notin> set (print_radix 10 k)" for k
    by (rule digits_avoid [OF pad2_digits] digits_avoid [OF print_digits], simp add: is_digit_def)+
  have "CHR ''T'' \<notin> set (pad2 k)" "CHR ''T'' \<notin> set (print_radix 10 k)" for k
    by (rule digits_avoid [OF pad2_digits] digits_avoid [OF print_digits], simp add: is_digit_def)+
  then have "CHR ''T'' \<notin> set ?date" by (simp add: print_date_def)
  then have split: "split_once_char CHR ''T'' (print_instant n h mi s) = Some (?date, ?clock)"
    unfolding shape by (rule split_once_append)
  have parts: "split_char CHR ''-'' ?date = [print_radix 10 (nat y), pad2 m, pad2 d]"
    using split_three [OF dash(2) dash(1) dash(1), of "nat y" m d] by (simp add: print_date_def)
  have hd: "graphic (hd (print_instant n h mi s))"
    using print_digits [of "nat y"] by (cases "print_radix 10 (nat y)") (auto simp: shape print_date_def digit_graphic)
  have "trim (print_instant n h mi s) = print_instant n h mi s"
    by (rule trim_graphic [OF _ hd]) (simp_all add: print_instant_def graphic_nat)
  then have tr: "trim (print_instant n h mi s) = print_instant n h mi s" .
  have py: "parse_i64 (print_radix 10 (nat y)) = Some y"
    using parse_i64_digits [OF print_digits _ print_value, of "nat y"] b by simp
  have pm: "k \<le> 31 \<Longrightarrow> parse_u32 (pad2 k) = Some k" for k
    unfolding parse_u32_def by (rule parse_below_digits [OF pad2_digits _ pad2_value]) simp_all
  have days: "days_from_civil y m d = int n"
    using days_from_civil_exact [of y m d] date_ok_nth [of n] day_number_nth [of n] t b by simp
  have fits: "int n * 86400 < 2 ^ 63" "int n * 86400 + int h * 3600 < 2 ^ 63" "int n * 86400 + int h * 3600 + int mi * 60 < 2 ^ 63"
    "int n * 86400 + int h * 3600 + int mi * 60 + int s < 2 ^ 63"
    "(int n * 86400 + int h * 3600 + int mi * 60 + int s) * 1000 < 2 ^ 63" using assms(4) by simp_all
  show ?thesis
    unfolding parse_iso8601_ms_def Let_def tr split
    using b py pm [of m] pm [of d] clock_read [OF assms(1-3)] fits
    by (simp add: parts days w64_id checked_i64_def nat_eq_iff algebra_simps)
qed

text \<open>C38, the 59th day of 1970.\<close>

theorem iso8601_roundtrip_witness:
  "print_instant 59 11 45 7 = ''1970-03-01T11:45:07Z'' \<and> parse_iso8601_ms (print_instant 59 11 45 7) = Some 5139907000"
proof -
  have "print_instant 59 11 45 7 = ''1970-03-01T11:45:07Z''" by code_simp
  with iso8601_roundtrip [of 11 45 7 59] show ?thesis by simp
qed

text \<open>What the comments of the code do not say: an offset west of Greenwich makes the timestamp
  unreadable instead of being ignored like one to the east, and a day that the month does not have
  is read as a day of the next month.\<close>

lemma date_read:
  assumes "s \<noteq> []" "graphic (hd s)" "graphic (last s)" "split_once_char CHR ''T'' s = Some (date, time)"
    and "split_char CHR ''-'' date = [ys, ms, ds]"
    and "parse_i64 ys = Some y" "parse_u32 ms = Some m" "parse_u32 ds = Some d" "1 \<le> m" "m \<le> 12" "1 \<le> d" "d \<le> 31"
  shows "parse_iso8601_ms s =
     (case clock_secs time of
        None \<Rightarrow> None
      | Some (h, mi, sec) \<Rightarrow>
          (case checked_i64 (w64 (w64 (w64 (w64 (days_from_civil y m d * 86400) + int h * 3600) + int mi * 60) + int sec) * 1000) of
             None \<Rightarrow> None
           | Some ms \<Rightarrow> if ms < 0 then None else Some (nat ms)))"
  using assms trim_graphic [OF assms(1-3)] by (cases "clock_secs time") (auto simp: parse_iso8601_ms_def Let_def)

lemmas clock_eval = clock_secs_def trim_end_chars_def parse_u32_def parse_below_def to_digit_def

lemma western_offset_unreadable:
  "parse_iso8601_ms ''2026-06-08T03:30:00-05:00'' = None"
  "parse_iso8601_ms ''2026-06-08T03:30:00+02:00'' = parse_iso8601_ms ''2026-06-08T03:30:00Z''"
proof -
  have date: "split_char CHR ''-'' ''2026-06-08'' = [''2026'', ''06'', ''08'']" by code_simp
  have nums: "parse_i64 ''2026'' = Some 2026" "parse_u32 ''06'' = Some 6" "parse_u32 ''08'' = Some 8"
    by (simp_all add: parse_i64_def clock_eval)
  have clocks: "clock_secs ''03:30:00-05:00'' = None" "clock_secs ''03:30:00+02:00'' = clock_secs ''03:30:00Z''"
    by (simp_all add: clock_eval)
  have splits: "split_once_char CHR ''T'' ''2026-06-08T03:30:00-05:00'' = Some (''2026-06-08'', ''03:30:00-05:00'')"
    "split_once_char CHR ''T'' ''2026-06-08T03:30:00+02:00'' = Some (''2026-06-08'', ''03:30:00+02:00'')"
    "split_once_char CHR ''T'' ''2026-06-08T03:30:00Z'' = Some (''2026-06-08'', ''03:30:00Z'')" by code_simp+
  note read = date_read [OF _ _ _ _ date nums]
  show "parse_iso8601_ms ''2026-06-08T03:30:00-05:00'' = None"
    by (subst read [OF _ _ _ splits(1)]) (simp_all add: graphic_nat clocks)
  show "parse_iso8601_ms ''2026-06-08T03:30:00+02:00'' = parse_iso8601_ms ''2026-06-08T03:30:00Z''"
    by (subst read [OF _ _ _ splits(2)], simp_all add: graphic_nat, subst read [OF _ _ _ splits(3)]) (simp_all add: graphic_nat clocks)
qed

lemma february_overflows: "days_from_civil 2026 2 31 = days_from_civil 2026 3 3"
  by code_simp

end
