(* ===== verification/Trailers.thy ===== *)
theory Trailers
  imports Frontmatter Node
begin

text \<open>
  \<^verbatim>\<open>crates/mem-ingest/src/trailers.rs\<close> and the pure half of \<^verbatim>\<open>docs.rs\<close>: the directives of a commit message and
  of the fenced blocks of a document, and what kind of node a document is.
\<close>

section \<open>Trailers\<close>

record trailer =
  tr_key :: string
  tr_value :: string

definition ascii_alpha :: "char \<Rightarrow> bool" where
  "ascii_alpha c = (let n = of_char c :: nat in (65 \<le> n \<and> n \<le> 90) \<or> (97 \<le> n \<and> n \<le> 122))"

definition ascii_alnum :: "char \<Rightarrow> bool" where
  "ascii_alnum c \<longleftrightarrow> ascii_alpha c \<or> is_digit c"

definition parse_line :: "string \<Rightarrow> trailer option" where
  "parse_line line =
     (case split_once_char CHR '':'' line of
        None \<Rightarrow> None
      | Some (k, v) \<Rightarrow>
          let key = trim k; val = trim v
          in if key = [] \<or> val = [] then None
             else if ascii_alpha (hd key) \<and> list_all (\<lambda>c. ascii_alnum c \<or> c = CHR ''-'' \<or> c = CHR ''_'') key
             then Some \<lparr>tr_key = key, tr_value = val\<rparr>
             else None)"

text \<open>\<^verbatim>\<open>split\<close> at a blank line.\<close>

fun split_paragraphs :: "string \<Rightarrow> string list" where
  "split_paragraphs [] = [[]]"
| "split_paragraphs [a] = [[a]]"
| "split_paragraphs (a # b # s) =
     (if a = NL \<and> b = NL then [] # split_paragraphs s
      else (let ps = split_paragraphs (b # s) in (a # hd ps) # tl ps))"

definition parse_trailers :: "string \<Rightarrow> trailer list" where
  "parse_trailers body =
     (let blocks = filter (\<lambda>b. trim b \<noteq> []) (split_paragraphs body)
      in if blocks = [] then []
         else
           let ls = str_lines (last blocks); parsed = List.map_filter parse_line ls
           in if ls \<noteq> [] \<and> length parsed = length (filter (\<lambda>l. trim l \<noteq> []) ls) then parsed else [])"

definition block_line :: "string \<Rightarrow> bool \<times> trailer list \<Rightarrow> bool \<times> trailer list" where
  "block_line line = (\<lambda>(in_block, out).
     let t = trim line
     in if \<not> in_block \<and> (t = ''```agentile'' \<or> t = ''~~~agentile'') then (True, out)
        else if in_block \<and> (t = ''```'' \<or> t = ''~~~'') then (False, out)
        else if in_block then (in_block, out @ (case parse_line line of Some tr \<Rightarrow> [tr] | None \<Rightarrow> []))
        else (in_block, out))"

definition parse_agentile_blocks :: "string \<Rightarrow> trailer list" where
  "parse_agentile_blocks txt = snd (fold block_line (str_lines txt) (False, []))"

definition map_trailer :: "string \<Rightarrow> edge_kind option" where
  "map_trailer key =
     (let k = to_ascii_lowercase key
      in if k = ''agentile-implements'' then Some Implements
         else if k = ''agentile-decides'' then Some Decides
         else if k = ''agentile-supersedes'' then Some Supersedes
         else if k = ''agentile-refutes'' then Some Refutes
         else if k = ''agentile-depends-on'' then Some DependsOn
         else if k = ''agentile-caused-by'' then Some CausedBy
         else if k = ''agentile-references'' \<or> k = ''agentile-ref'' \<or> k = ''agentile-see-also'' then Some References
         else None)"

section \<open>Documents\<close>

definition eq_ignore_case :: "string \<Rightarrow> string \<Rightarrow> bool" where
  "eq_ignore_case a b \<longleftrightarrow> to_ascii_lowercase a = to_ascii_lowercase b"

fun contains_str :: "string \<Rightarrow> string \<Rightarrow> bool" where
  "contains_str p [] \<longleftrightarrow> p = []"
| "contains_str p (c # s) \<longleftrightarrow> starts_with p (c # s) \<or> contains_str p s"

function trim_end_str :: "string \<Rightarrow> string \<Rightarrow> string" where
  "trim_end_str p s =
     (if p \<noteq> [] \<and> length p \<le> length s \<and> drop (length s - length p) s = p
      then trim_end_str p (take (length s - length p) s) else s)"
  by pat_completeness auto
termination
  by (relation "measure (length \<circ> snd)") (auto intro!: diff_less)

declare trim_end_str.simps [simp del]

definition file_name :: "string \<Rightarrow> string" where
  "file_name p = last (split_char CHR ''/'' p)"

definition claim_status_from_body :: "string \<Rightarrow> claim_status option" where
  "claim_status_from_body body =
     (let blocks = parse_agentile_blocks body
      in if \<not> list_ex (\<lambda>t. eq_ignore_case (tr_key t) ''node'' \<and> eq_ignore_case (tr_value t) ''claim'') blocks then None
         else case List.find (\<lambda>t. eq_ignore_case (tr_key t) ''claim-status'') blocks of
                None \<Rightarrow> None
              | Some t \<Rightarrow>
                  let v = to_ascii_lowercase (tr_value t)
                  in if v = ''confirmed'' then Some Confirmed
                     else if v = ''corrected'' then Some Corrected
                     else if v = ''refined'' then Some Refined
                     else None)"

definition classify :: "string \<Rightarrow> (string \<rightharpoonup> string) \<Rightarrow> string \<Rightarrow> node_kind" where
  "classify rel_path fm body =
     (let p = ''/'' @ to_ascii_lowercase rel_path; file = file_name p
      in case claim_status_from_body body of
           Some cs \<Rightarrow> Claim cs
         | None \<Rightarrow>
             if starts_with ''adr-'' file \<or> contains_str ''/adrs/'' p then Adr
             else if contains_str ''/sprints/'' p \<or> fm ''sprint'' \<noteq> None then
               Sprint (if contains_str ''retro'' file \<or> fm ''status'' = Some ''archived'' then Close else Kickoff)
             else if contains_str ''/journal/'' p \<or> contains_str ''/journals/'' p then Narrative Journal
             else if contains_str ''/essays/'' p then Narrative Essay
             else if contains_str ''/case_studies/'' p \<or> contains_str ''/case-studies/'' p then Narrative CaseStudy
             else if contains_str ''/handoffs/'' p \<or> contains_str ''handoff'' file then Handoff
             else Doc)"

definition map_block_directive :: "string \<Rightarrow> edge_kind option" where
  "map_block_directive key =
     (let k = to_ascii_lowercase key
      in if k = ''implements'' then Some Implements
         else if k = ''decides'' then Some Decides
         else if k = ''supersedes'' then Some Supersedes
         else if k = ''refutes'' then Some Refutes
         else if k = ''depends-on'' then Some DependsOn
         else if k = ''references'' \<or> k = ''ref'' \<or> k = ''see-also'' then Some References
         else None)"

definition heading :: "string \<Rightarrow> string option" where
  "heading line =
     (case strip_prefix ''# '' (trim line) of
        None \<Rightarrow> None
      | Some h \<Rightarrow> if trim h = [] then None else Some (trim h))"

definition doc_title :: "string \<Rightarrow> (string \<rightharpoonup> string) \<Rightarrow> string \<Rightarrow> string" where
  "doc_title rel_path fm body =
     (case List.map_filter heading (str_lines body) of
        h # _ \<Rightarrow> h
      | [] \<Rightarrow>
          (case (case fm ''title'' of Some t \<Rightarrow> Some t | None \<Rightarrow> fm ''sprint'') of
             Some t \<Rightarrow> if t \<noteq> [] then t else trim_end_str ''.md'' (file_name rel_path)
           | None \<Rightarrow> trim_end_str ''.md'' (file_name rel_path)))"

definition status_from_fm :: "(string \<rightharpoonup> string) \<Rightarrow> status" where
  "status_from_fm fm =
     (if fm ''status'' = Some ''superseded'' then Superseded
      else if fm ''status'' = Some ''archived'' then Archived else Active)"

section \<open>What a directive is\<close>

text \<open>A trailer is a line of the message: its key is one token that starts with a letter, and key and
  value are not empty.\<close>

definition trailer_ok :: "trailer \<Rightarrow> bool" where
  "trailer_ok t \<longleftrightarrow> tr_key t \<noteq> [] \<and> tr_value t \<noteq> [] \<and> ascii_alpha (hd (tr_key t)) \<and>
     list_all (\<lambda>c. ascii_alnum c \<or> c = CHR ''-'' \<or> c = CHR ''_'') (tr_key t)"

lemma parse_line_ok: "parse_line l = Some t \<Longrightarrow> trailer_ok t"
  by (auto simp: parse_line_def trailer_ok_def Let_def split: option.splits if_splits)

lemma parse_trailers_lines:
  "t \<in> set (parse_trailers body) \<Longrightarrow>
     \<exists>l \<in> set (str_lines (last (filter (\<lambda>b. trim b \<noteq> []) (split_paragraphs body)))). parse_line l = Some t"
  by (auto simp: parse_trailers_def Let_def List.map_filter_def split: if_splits)


end
