(* ===== verification/Git_Log.thy ===== *)
theory Git_Log
  imports Trailers Recall
begin

text \<open>
  \<^verbatim>\<open>crates/mem-ingest/src/git.rs\<close> and the listing half of \<^verbatim>\<open>docs.rs\<close>: history, branches and tracked documents
  as \<^verbatim>\<open>git\<close> prints them. The program \<^verbatim>\<open>git\<close> is a parameter: for a directory and arguments it cannot be
  started, or ends with a success flag and what it wrote. One ingest pass sees one state of the
  repository.
\<close>

record git_output =
  go_success :: bool
  go_stdout :: bytes
  go_stderr :: bytes

record git_env =
  git_run :: "string \<Rightarrow> string list \<Rightarrow> (string, git_output) result"
  git_str_debug :: "string \<Rightarrow> string"

definition lossy :: "bytes \<Rightarrow> string" where
  "lossy b = of_bytes (utf8_lossy b)"

text \<open>\<^verbatim>\<open>Command::output\<close> with the two errors every caller makes of it.\<close>

definition git_stdout :: "git_env \<Rightarrow> string \<Rightarrow> string list \<Rightarrow> string \<Rightarrow> string \<Rightarrow> (ingest_error, string) result" where
  "git_stdout G path args start_text fail_text =
     (case git_run G path args of
        Inl e \<Rightarrow> Inl (IngestGit (start_text @ e))
      | Inr out \<Rightarrow>
          if \<not> go_success out then Inl (IngestGit (fail_text @ trim (lossy (go_stderr out))))
          else Inr (lossy (go_stdout out)))"

definition run_failed :: string where
  "run_failed = ''failed to run git: ''"

definition repo_root :: "git_env \<Rightarrow> string \<Rightarrow> (ingest_error, string) result" where
  "repo_root G path =
     rbind (git_stdout G path [''rev-parse'', ''--show-toplevel''] run_failed ''not a git repo: '') (\<lambda>out. Inr (trim out))"

section \<open>The commit log\<close>

record commit_record =
  cr_sha :: string
  cr_parents :: "string list"
  cr_author :: string
  cr_time_secs :: int
  cr_subject :: string
  cr_body :: string

definition US :: char where "US = char_of (31 :: nat)"
definition NUL :: char where "NUL = char_of (0 :: nat)"

definition is_sha40 :: "string \<Rightarrow> bool" where
  "is_sha40 s \<longleftrightarrow> length s = 40 \<and>
     list_all (\<lambda>c. is_digit c \<or> (97 \<le> (of_char c :: nat) \<and> of_char c \<le> (102 :: nat))) s"

definition split_whitespace :: "string \<Rightarrow> string list" where
  "split_whitespace s = map of_bytes (split_white [] (as_bytes s))"

definition parse_record :: "git_env \<Rightarrow> string \<Rightarrow> (ingest_error, commit_record option) result" where
  "parse_record G piece =
     (let raw = dropWhile (\<lambda>c. c = NL) piece
      in if trim raw = [] then Inr None
         else case splitn_char 6 US raw of
                [f0, f1, f2, f3, f4, f5] \<Rightarrow>
                  if \<not> is_sha40 (trim f0) then
                    Inl (IngestGit (''malformed git-log record: leading field '' @ git_str_debug G (trim f0) @
                      '' is not a 40-hex sha (possible separator injection)''))
                  else Inr (Some \<lparr>cr_sha = trim f0, cr_parents = split_whitespace f1, cr_author = f2,
                    cr_time_secs = (case parse_i64 (trim f3) of Some t \<Rightarrow> t | None \<Rightarrow> 0), cr_subject = f4, cr_body = f5\<rparr>)
              | parts \<Rightarrow>
                  Inl (IngestGit (''malformed git-log record: expected 6 fields, got '' @ decimal (length parts) @
                    '' (possible separator injection)'')))"

definition push_record :: "git_env \<Rightarrow> string \<Rightarrow> commit_record list \<Rightarrow> (ingest_error, commit_record list) result" where
  "push_record G piece recs =
     rbind (parse_record G piece) (\<lambda>r. Inr (case r of Some c \<Rightarrow> recs @ [c] | None \<Rightarrow> recs))"

definition parse_commit_log :: "git_env \<Rightarrow> string \<Rightarrow> (ingest_error, commit_record list) result" where
  "parse_commit_log G txt = rfold (push_record G) (split_char NUL txt) []"

definition commit_pretty :: string where
  "commit_pretty = ''--pretty=tformat:%H'' @ [US] @ ''%P'' @ [US] @ ''%an'' @ [US] @ ''%at'' @ [US] @ ''%s'' @ [US] @ ''%b%x00''"

definition read_commits_range :: "git_env \<Rightarrow> string \<Rightarrow> string option \<Rightarrow> (ingest_error, commit_record list) result" where
  "read_commits_range G repo since =
     rbind (git_stdout G repo ([''log'', ''--reverse'', ''--no-color'', commit_pretty] @
         (case since of Some s \<Rightarrow> [s @ ''..HEAD''] | None \<Rightarrow> [])) run_failed ''git log failed: '')
       (parse_commit_log G)"

definition read_commits :: "git_env \<Rightarrow> string \<Rightarrow> (ingest_error, commit_record list) result" where
  "read_commits G repo = read_commits_range G repo None"

definition read_commits_between :: "git_env \<Rightarrow> string \<Rightarrow> string \<Rightarrow> string \<Rightarrow> (ingest_error, commit_record list) result" where
  "read_commits_between G repo exclude include =
     rbind (git_stdout G repo [''log'', ''--reverse'', ''--no-color'', commit_pretty, exclude @ ''..'' @ include]
         run_failed ''git log range failed: '')
       (parse_commit_log G)"

section \<open>Branches\<close>

record branch_ref =
  br_name :: string
  br_tip :: string

definition ref_exists :: "git_env \<Rightarrow> string \<Rightarrow> string \<Rightarrow> bool" where
  "ref_exists G repo cand =
     (case git_run G repo [''rev-parse'', ''--verify'', ''--quiet'', cand] of Inl _ \<Rightarrow> False | Inr out \<Rightarrow> go_success out)"

definition default_branch_ref :: "git_env \<Rightarrow> string \<Rightarrow> (ingest_error, string) result" where
  "default_branch_ref G repo =
     (case git_run G repo [''rev-parse'', ''--abbrev-ref'', ''origin/HEAD''] of
        Inl e \<Rightarrow> Inl (IngestGit (run_failed @ e))
      | Inr out \<Rightarrow>
          let r = trim (lossy (go_stdout out))
          in if go_success out \<and> r \<noteq> [] \<and> r \<noteq> ''origin/HEAD'' then Inr r
             else case List.find (ref_exists G repo) [''origin/main'', ''origin/master''] of
                    Some cand \<Rightarrow> Inr cand
                  | None \<Rightarrow> Inl (IngestGit ''could not resolve default branch (origin/HEAD)''))"

definition REMOTE_PREFIX :: string where
  "REMOTE_PREFIX = ''refs/remotes/origin/''"

definition branch_line :: "string \<Rightarrow> string \<Rightarrow> branch_ref option" where
  "branch_line default_name line =
     (case split_once_char US line of
        None \<Rightarrow> None
      | Some (refname, tip) \<Rightarrow>
          (case strip_prefix REMOTE_PREFIX refname of
             None \<Rightarrow> None
           | Some name \<Rightarrow>
               if name = [] \<or> name = ''HEAD'' \<or> name = default_name then None
               else Some \<lparr>br_name = name, br_tip = trim tip\<rparr>))"

definition list_branches :: "git_env \<Rightarrow> string \<Rightarrow> string \<Rightarrow> (ingest_error, branch_ref list) result" where
  "list_branches G repo default_ref =
     rbind (git_stdout G repo [''for-each-ref'', ''--format=%(refname)'' @ [US] @ ''%(objectname)'', REMOTE_PREFIX]
         run_failed ''for-each-ref failed: '') (\<lambda>out.
     let default_name = (case strip_prefix ''origin/'' default_ref of Some n \<Rightarrow> n | None \<Rightarrow> default_ref)
     in Inr (List.map_filter (branch_line default_name) (str_lines out)))"

definition head_sha :: "git_env \<Rightarrow> string \<Rightarrow> (ingest_error, string) result" where
  "head_sha G repo = rbind (git_stdout G repo [''rev-parse'', ''HEAD''] run_failed ''rev-parse HEAD failed: '') (\<lambda>out. Inr (trim out))"

definition commit_count :: "git_env \<Rightarrow> string \<Rightarrow> (ingest_error, nat) result" where
  "commit_count G repo =
     rbind (git_stdout G repo [''rev-list'', ''--count'', ''HEAD''] run_failed ''rev-list --count failed: '') (\<lambda>out.
     case from_str_radix 10 (trim out) of
       Inl e \<Rightarrow> Inl (IngestGit (''bad rev-list count: '' @ parse_int_text e))
     | Inr n \<Rightarrow> Inr (unat n))"

definition is_ancestor :: "git_env \<Rightarrow> string \<Rightarrow> string \<Rightarrow> (ingest_error, bool) result" where
  "is_ancestor G repo ancestor =
     (case git_run G repo [''merge-base'', ''--is-ancestor'', ancestor, ''HEAD''] of
        Inl e \<Rightarrow> Inl (IngestGit (run_failed @ e))
      | Inr out \<Rightarrow> Inr (go_success out))"

section \<open>Tracked documents\<close>

definition list_md_files :: "git_env \<Rightarrow> string \<Rightarrow> (ingest_error, string list) result" where
  "list_md_files G repo =
     rbind (git_stdout G repo [''ls-files'', ''--'', ''*.md''] ''failed to run git ls-files: '' ''git ls-files failed: '') (\<lambda>out.
     Inr (filter (\<lambda>l. l \<noteq> []) (map trim (str_lines out))))"

definition blob_line :: "string \<Rightarrow> (string \<rightharpoonup> string) \<Rightarrow> (string \<rightharpoonup> string)" where
  "blob_line line m =
     (case split_once_char (char_of (9 :: nat)) line of
        None \<Rightarrow> m
      | Some (meta, path) \<Rightarrow> (case split_whitespace meta of _ # sha # _ \<Rightarrow> m(trim path \<mapsto> sha) | _ \<Rightarrow> m))"

definition list_md_blobs :: "git_env \<Rightarrow> string \<Rightarrow> (ingest_error, string \<rightharpoonup> string) result" where
  "list_md_blobs G repo =
     rbind (git_stdout G repo [''ls-files'', ''-s'', ''--'', ''*.md''] ''failed to run git ls-files -s: '' ''git ls-files -s failed: '') (\<lambda>out.
     Inr (fold blob_line (str_lines out) Map.empty))"

section \<open>Reading a printed log\<close>

text \<open>The log as \<^verbatim>\<open>git log\<close> prints it for the format above: fields separated by the unit separator, a
  record ended by the null character and the newline that \<^verbatim>\<open>tformat\<close> adds.\<close>

definition print_signed :: "int \<Rightarrow> string" where
  "print_signed t = (if t < 0 then ''-'' else []) @ print_radix 10 (nat \<bar>t\<bar>)"

fun join_spaces :: "string list \<Rightarrow> string" where
  "join_spaces [] = []"
| "join_spaces [w] = w"
| "join_spaces (w # ws) = w @ '' '' @ join_spaces ws"

definition record_text :: "commit_record \<Rightarrow> string" where
  "record_text c = cr_sha c @ US # join_spaces (cr_parents c) @ US # cr_author c @ US # print_signed (cr_time_secs c) @ US #
     cr_subject c @ US # cr_body c"

definition log_text :: "commit_record list \<Rightarrow> string" where
  "log_text cs = concat (map (\<lambda>c. record_text c @ [NUL, NL]) cs)"

text \<open>What \<^verbatim>\<open>git\<close> guarantees of a commit: ids are full hexadecimal hashes, no field holds a null character, and
  no field in front of the body a unit separator. The body may hold anything else.\<close>

definition record_ok :: "commit_record \<Rightarrow> bool" where
  "record_ok c \<longleftrightarrow> is_sha40 (cr_sha c) \<and> list_all is_sha40 (cr_parents c) \<and>
     US \<notin> set (cr_author c) \<and> NUL \<notin> set (cr_author c) \<and> US \<notin> set (cr_subject c) \<and> NUL \<notin> set (cr_subject c) \<and>
     NUL \<notin> set (cr_body c) \<and> - (2 ^ 63) \<le> cr_time_secs c \<and> cr_time_secs c < 2 ^ 63"

lemma sha_graphic: "is_sha40 s \<Longrightarrow> list_all graphic s"
  by (auto simp: is_sha40_def list_all_iff graphic_nat is_digit_def)

lemma sha_ne: "is_sha40 s \<Longrightarrow> s \<noteq> []"
  by (auto simp: is_sha40_def)

lemma graphic_trim: "list_all graphic s \<Longrightarrow> trim s = s"
proof (cases "s = []")
  case True
  then show ?thesis by (simp add: trim_def trim_start.simps trim_end_def of_bytes_def as_bytes_def)
next
  case False
  assume "list_all graphic s"
  with False show ?thesis by (intro trim_graphic) (auto simp: list_all_iff)
qed

lemma graphic_separators: "\<not> graphic US" "\<not> graphic NUL" "\<not> graphic NL"
  by (simp_all add: graphic_nat US_def NUL_def NL_def)

lemma separators [simp]: "US \<noteq> NUL" "NUL \<noteq> US" "NUL \<noteq> NL" "NL \<noteq> NUL" "US \<noteq> CHR '' ''" "NUL \<noteq> CHR '' ''"
  unfolding US_def NUL_def NL_def by code_simp+

lemma graphic_avoid: "list_all graphic s \<Longrightarrow> \<not> graphic c \<Longrightarrow> c \<notin> set s"
  by (auto simp: list_all_iff)

lemma split_white_word: "list_all visible w \<Longrightarrow> split_white cur (w @ rest) = split_white (cur @ w) rest"
proof (induction w arbitrary: cur)
  case (Cons a w)
  then have "split_white cur ((a # w) @ rest) = split_white (cur @ [a]) (w @ rest)"
    by (subst split_white.simps) (simp add: white_len_visible del: white_len.simps)
  with Cons show ?case by simp
qed simp

lemma split_white_space: "split_white cur (32 # rest) = (if cur = [] then [] else [cur]) @ split_white [] rest"
  by (subst split_white.simps) simp

lemma split_white_end: "split_white cur [] = (if cur = [] then [] else [cur])"
  by (subst split_white.simps) simp

lemma bytes_visible: "list_all graphic s \<Longrightarrow> list_all visible (as_bytes s)"
  by (auto simp: list_all_iff graphic_def as_bytes_def)

lemma as_bytes_Nil [simp]: "as_bytes s = [] \<longleftrightarrow> s = []"
  by (simp add: as_bytes_def)

lemma split_words: "list_all (\<lambda>w. w \<noteq> [] \<and> list_all graphic w) ws \<Longrightarrow> split_whitespace (join_spaces ws) = ws"
proof (induction ws rule: join_spaces.induct)
  case 1
  then show ?case by (simp add: split_whitespace_def split_white_end as_bytes_def)
next
  case (2 w)
  then show ?case
    using split_white_word [OF bytes_visible, of w "[]" "[]"] by (simp add: split_whitespace_def split_white_end)
next
  case (3 w v ws)
  have "as_bytes (join_spaces (w # v # ws)) = as_bytes w @ as_bytes '' '' @ as_bytes (join_spaces (v # ws))"
    by (simp only: join_spaces.simps(3) as_bytes_append)
  then have j: "as_bytes (join_spaces (w # v # ws)) = as_bytes w @ 32 # as_bytes (join_spaces (v # ws))"
    by (simp add: as_bytes_def [of "'' ''"] del: join_spaces.simps)
  have w: "w \<noteq> []" "list_all graphic w" and rest: "list_all (\<lambda>w. w \<noteq> [] \<and> list_all graphic w) (v # ws)"
    using 3(2) by simp_all
  show ?case
    using split_white_word [OF bytes_visible [OF w(2)], of "[]" "32 # as_bytes (join_spaces (v # ws))"] w 3(1) [OF rest]
    by (simp only: split_whitespace_def j split_white_space append_Nil as_bytes_Nil if_False append_Cons list.map of_bytes_as_bytes)
qed

lemma int_graphic: "list_all graphic (print_signed t)"
  using print_digits [of "nat \<bar>t\<bar>"] by (auto simp: print_signed_def list_all_iff digit_graphic) (simp add: graphic_nat)

lemma parse_print_int:
  assumes "- (2 ^ 63) \<le> t" "t < 2 ^ 63"
  shows "parse_i64 (print_signed t) = Some t"
proof (cases "t < 0")
  case True
  then show ?thesis using assms print_value [of "nat (- t)"] by (simp add: print_signed_def parse_i64_def)
next
  case False
  then show ?thesis
    using parse_i64_digits [OF print_digits _ print_value, of "nat t"] assms by (simp add: print_signed_def)
qed

lemma six_fields:
  assumes "US \<notin> set a" "US \<notin> set b" "US \<notin> set c" "US \<notin> set d" "US \<notin> set e"
  shows "splitn_char 6 US (a @ US # b @ US # c @ US # d @ US # e @ US # f) = [a, b, c, d, e, f]"
  using assms by (simp add: eval_nat_numeral split_once_append)

lemma join_avoid: "list_all is_sha40 ws \<Longrightarrow> \<not> graphic c \<Longrightarrow> c \<noteq> CHR '' '' \<Longrightarrow> c \<notin> set (join_spaces ws)"
  by (induction ws rule: join_spaces.induct) (auto dest: sha_graphic graphic_avoid)

lemma record_read:
  assumes "record_ok c" "set pre \<subseteq> {NL}"
  shows "parse_record G (pre @ record_text c) = Inr (Some c)"
proof -
  have sha: "is_sha40 (cr_sha c)" and par: "list_all is_sha40 (cr_parents c)" using assms(1) by (auto simp: record_ok_def)
  note g = sha_graphic [OF sha]
  have hd: "record_text c \<noteq> []" "graphic (hd (record_text c))"
    using g sha_ne [OF sha] by (cases "cr_sha c"; auto simp: record_text_def)+
  have raw: "dropWhile (\<lambda>c. c = NL) (pre @ record_text c) = record_text c"
  proof -
    have "hd (record_text c) \<noteq> NL" using hd(2) graphic_separators(3) by metis
    then have "dropWhile (\<lambda>c. c = NL) (record_text c) = record_text c"
      using hd(1) by (cases "record_text c") auto
    then show ?thesis using assms(2) by (subst dropWhile_append2) auto
  qed
  have "US \<notin> set (print_signed (cr_time_secs c))" "US \<notin> set (cr_sha c)" "US \<notin> set (join_spaces (cr_parents c))"
    by (simp_all add: graphic_avoid [OF int_graphic] graphic_avoid [OF g] graphic_separators join_avoid [OF par])
  then have six: "splitn_char 6 US (record_text c) =
      [cr_sha c, join_spaces (cr_parents c), cr_author c, print_signed (cr_time_secs c), cr_subject c, cr_body c]"
    unfolding record_text_def using assms(1) by (intro six_fields) (auto simp: record_ok_def)
  have "list_all (\<lambda>w. w \<noteq> [] \<and> list_all graphic w) (cr_parents c)"
    using par by (rule list.pred_mono_strong) (simp add: sha_ne sha_graphic)
  then have words: "split_whitespace (join_spaces (cr_parents c)) = cr_parents c" by (rule split_words)
  have "parse_i64 (print_signed (cr_time_secs c)) = Some (cr_time_secs c)"
    using assms(1) by (intro parse_print_int) (auto simp: record_ok_def)
  then show ?thesis
    unfolding parse_record_def Let_def raw
    using trim_start_not_blank [OF hd] by (simp add: six words sha graphic_trim [OF g] graphic_trim [OF int_graphic])
qed

lemma record_no_nul:
  assumes "record_ok c"
  shows "NUL \<notin> set (record_text c)"
proof -
  have sha: "is_sha40 (cr_sha c)" and par: "list_all is_sha40 (cr_parents c)" using assms by (auto simp: record_ok_def)
  have "NUL \<notin> set (cr_sha c)" "NUL \<notin> set (print_signed (cr_time_secs c))" "NUL \<notin> set (join_spaces (cr_parents c))"
    by (simp_all add: graphic_avoid [OF int_graphic] graphic_avoid [OF sha_graphic [OF sha]] graphic_separators join_avoid [OF par])
  with assms show ?thesis by (simp add: record_text_def record_ok_def)
qed

lemma blank_record: "set pre \<subseteq> {NL} \<Longrightarrow> parse_record G pre = Inr None"
proof -
  assume "set pre \<subseteq> {NL}"
  then have pre: "dropWhile (\<lambda>c. c = NL) pre = []" by auto
  have "trim [] = []" using graphic_trim [of "[]"] by simp
  then show ?thesis unfolding parse_record_def Let_def pre by simp
qed

lemma log_read:
  assumes "list_all record_ok cs" "set pre \<subseteq> {NL}"
  shows "rfold (push_record G) (split_char NUL (pre @ log_text cs)) acc = Inr (acc @ cs)"
  using assms
proof (induction cs arbitrary: pre acc)
  case Nil
  then have "split_char NUL (pre @ log_text []) = [pre]" by (auto simp: log_text_def intro!: split_char_none)
  then show ?case using Nil by (simp add: push_record_def blank_record)
next
  case (Cons c cs)
  have "NUL \<notin> set (pre @ record_text c)" using Cons.prems record_no_nul [of c] by auto
  then have "split_char NUL (pre @ log_text (c # cs)) = (pre @ record_text c) # split_char NUL ([NL] @ log_text cs)"
    using split_char_append [of NUL "pre @ record_text c" "[NL] @ log_text cs"] by (simp add: log_text_def)
  moreover have "parse_record G (pre @ record_text c) = Inr (Some c)" using Cons.prems by (intro record_read) auto
  ultimately show ?case using Cons.IH [of "[NL]" "acc @ [c]"] Cons.prems by (simp add: push_record_def)
qed

text \<open>Well-formed output is read as it is.\<close>

lemma lossy_step:
  assumes "utf8_tail a = Some want" "utf8_have a want bs = want" "utf8_lossy (drop want bs) = drop want bs"
  shows "utf8_lossy (a # bs) = a # bs"
  using assms by (simp add: Let_def)

lemma lead_two:
  assumes "utf8_valid (a # bs)" "\<not> a < 0x80" "0xC2 \<le> a \<and> a \<le> 0xDF"
  obtains r where "utf8_tail a = Some 1" "utf8_have a 1 bs = 1" "drop 1 bs = r" "utf8_valid r" "length r < length bs"
proof -
  have ne: "a \<noteq> 0xE0" "a \<noteq> 0xED" "a \<noteq> 0xF0" "a \<noteq> 0xF4" using assms(3) by (auto simp: word_le_nat_alt)
  from assms obtain c r where "bs = c # r" "utf8_cont c" "utf8_valid r" by (cases bs) simp_all
  with assms ne show ?thesis by (intro that [of r]) (simp_all add: utf8_tail_def utf8_have_def second_ok_def)
qed

lemma lead_three:
  assumes "utf8_valid (a # bs)" "\<not> a < 0x80" "\<not> (0xC2 \<le> a \<and> a \<le> 0xDF)" "0xE0 \<le> a \<and> a \<le> 0xEF"
  obtains r where "utf8_tail a = Some 2" "utf8_have a 2 bs = 2" "drop 2 bs = r" "utf8_valid r" "length r < length bs"
proof -
  have ne: "a \<noteq> 0xF0" "a \<noteq> 0xF4" using assms(4) by (auto simp: word_le_nat_alt)
  obtain c d r where bs: "bs = c # d # r" using assms by (cases bs; cases "tl bs") simp_all
  with assms have "utf8_cont c \<and> utf8_cont d \<and> (a = 0xE0 \<longrightarrow> 0xA0 \<le> c) \<and> (a = 0xED \<longrightarrow> c \<le> 0x9F) \<and> utf8_valid r"
    by (simp only: utf8_valid.simps if_False if_True list.case simp_thms) blast
  with assms ne bs show ?thesis by (intro that [of r]) (simp_all add: utf8_tail_def utf8_have_def second_ok_def)
qed

lemma lead_four:
  assumes "utf8_valid (a # bs)" "\<not> a < 0x80" "\<not> (0xC2 \<le> a \<and> a \<le> 0xDF)" "\<not> (0xE0 \<le> a \<and> a \<le> 0xEF)"
  obtains r where "utf8_tail a = Some 3" "utf8_have a 3 bs = 3" "drop 3 bs = r" "utf8_valid r" "length r < length bs"
proof -
  have a: "0xF0 \<le> a \<and> a \<le> 0xF4"
  proof (rule ccontr)
    assume "\<not> ?thesis"
    with assms show False by (simp only: utf8_valid.simps if_False if_True)
  qed
  then have ne: "a \<noteq> 0xE0" "a \<noteq> 0xED" by (auto simp: word_le_nat_alt)
  obtain c d e r where bs: "bs = c # d # e # r" using assms a by (cases bs; cases "tl bs"; cases "tl (tl bs)") simp_all
  with assms a have "utf8_cont c \<and> utf8_cont d \<and> utf8_cont e \<and> (a = 0xF0 \<longrightarrow> 0x90 \<le> c) \<and> (a = 0xF4 \<longrightarrow> c \<le> 0x8F) \<and> utf8_valid r"
    by (simp only: utf8_valid.simps if_False if_True list.case simp_thms) blast
  with assms a ne bs show ?thesis
    by (intro that [of r]) (simp_all add: utf8_tail_def utf8_have_def second_ok_def eval_nat_numeral)
qed

lemma utf8_lossy_valid: "utf8_valid b \<Longrightarrow> utf8_lossy b = b"
proof (induction "length b" arbitrary: b rule: less_induct)
  case less
  show ?case
  proof (cases b)
    case (Cons a bs)
    with less.prems have v: "utf8_valid (a # bs)" by simp
    have IH: "utf8_lossy r = r" if "utf8_valid r" "length r \<le> length bs" for r
      using less.hyps [of r] that Cons by simp
    have "\<exists>k. utf8_tail a = Some k \<and> utf8_have a k bs = k \<and> utf8_valid (drop k bs)"
    proof (cases "a < 0x80")
      case True
      with v show ?thesis by (intro exI [of _ 0]) (simp add: utf8_tail_def utf8_have_def split: list.splits)
    next
      case False
      show ?thesis
        using lead_two [OF v False] lead_three [OF v False] lead_four [OF v False] by metis
    qed
    then show ?thesis using lossy_step [of a _ bs] IH Cons by (metis length_drop diff_le_self)
  qed simp
qed


definition sample_commit :: commit_record where
  "sample_commit = \<lparr>cr_sha = replicate 40 (CHR ''a''), cr_parents = [], cr_author = ''eve'', cr_time_secs = 7,
     cr_subject = ''innocent'', cr_body = NL # replicate 40 (CHR ''b'') @ [US, US] @ ''root'' @ [US]\<rparr>"

definition sample_git :: git_env where
  "sample_git = \<lparr>git_run = (\<lambda>repo args. Inr \<lparr>go_success = True, go_stdout = as_bytes (log_text [sample_commit]), go_stderr = []\<rparr>),
     git_str_debug = (\<lambda>s. s)\<rparr>"

lemma sample_commit_ok: "record_ok sample_commit"
  by code_simp


end
