(* ===== verification/Ingest.thy ===== *)
theory Ingest
  imports Git_Log Vector_Index Cite
begin

text \<open>
  \<^verbatim>\<open>crates/mem-ingest/src/lib.rs\<close>: a repository's history, documents and branches as nodes and edges of the
  Derived plane. The builders are pure functions of what \<^verbatim>\<open>git\<close> and the file system answer; the passes of
  the \<^verbatim>\<open>Ingestor\<close> are actions on the store. Parameters are \<^verbatim>\<open>git\<close>, the file system, the embedder, the clock of the
  pass and the JSON of a watermark.
\<close>

section \<open>Environment\<close>

text \<open>\<^verbatim>\<open>symlink_metadata\<close> (is it a regular file, its length), \<^verbatim>\<open>canonicalize\<close>, and what opening and reading gives; each
  may fail.\<close>

record fs_env =
  fs_meta :: "string \<Rightarrow> (bool \<times> nat) option"
  fs_canonical :: "string \<Rightarrow> string option"
  fs_read :: "string \<Rightarrow> bytes option"

record embed_impl =
  ei_model :: string
  ei_dim :: nat
  ei_embed :: embedder

record ingest_env =
  ie_git :: git_env
  ie_fs :: fs_env
  ie_query :: query_env
  ie_watermark_json :: "watermark \<Rightarrow> (string, bytes) result"

record ingestor =
  ig_repo_name :: string
  ig_embedder :: embed_impl
  ig_authors :: "string set"

definition ingestor_new :: "externals \<Rightarrow> f32_env \<Rightarrow> (string \<Rightarrow> string list) \<Rightarrow> string \<Rightarrow> ingestor" where
  "ingestor_new X F tokens repo = \<lparr>ig_repo_name = repo,
     ig_embedder = \<lparr>ei_model = hashing_model_id EMBED_DIM, ei_dim = EMBED_DIM, ei_embed = hashing_embed X F tokens EMBED_DIM\<rparr>,
     ig_authors = {}\<rparr>"

definition with_embedder :: "string \<Rightarrow> embed_impl \<Rightarrow> ingestor" where
  "with_embedder repo e = \<lparr>ig_repo_name = repo, ig_embedder = e, ig_authors = {}\<rparr>"

definition with_authoritative_authors :: "string list \<Rightarrow> ingestor \<Rightarrow> ingestor" where
  "with_authoritative_authors authors g = g\<lparr>ig_authors := set authors\<rparr>"

definition branch_watermark_key :: "string \<Rightarrow> string \<Rightarrow> bytes" where
  "branch_watermark_key repo branch = as_bytes (''derived_branch_watermark:'' @ repo @ '':'' @ branch)"

record ingest_report =
  ir_commits :: nat
  ir_docs :: nat
  ir_nodes_in_store :: nat
  ir_edges_in_store :: nat
  ir_superseded :: nat
  ir_supersessions_rejected :: nat
  ir_watermark :: watermark

record branch_ingest_report =
  bi_branches_ingested :: nat
  bi_in_flight_commits :: nat
  bi_unchanged :: nat

record reap_report =
  rr_archived :: nat
  rr_merged :: nat
  rr_deleted :: nat
  rr_advanced :: nat

section \<open>Nodes and edges\<close>

type_synonym embed_reuse = "content_hash \<Rightarrow> versioned_vector option"

definition no_reuse :: embed_reuse where
  "no_reuse nid = None"

definition embed_or_reuse :: "externals \<Rightarrow> memory_node \<Rightarrow> string \<Rightarrow> embed_impl \<Rightarrow> embed_reuse \<Rightarrow> (ingest_error, memory_node) result" where
  "embed_or_reuse X node txt emb reuse =
     (case reuse (node_id X node) of
        Some v \<Rightarrow>
          if vv_model v = ei_model emb \<and> length (vv_data v) = ei_dim emb then Inr (node\<lparr>n_embedding := Some v\<rparr>)
          else rbind (map_err (\<lambda>e. IngestEmbed (embed_error_text e)) (ei_embed emb txt)) (\<lambda>w. Inr (node\<lparr>n_embedding := Some w\<rparr>))
      | None \<Rightarrow> rbind (map_err (\<lambda>e. IngestEmbed (embed_error_text e)) (ei_embed emb txt)) (\<lambda>w. Inr (node\<lparr>n_embedding := Some w\<rparr>)))"

definition commit_time :: "int \<Rightarrow> u64" where
  "commit_time secs = of_nat (min (nat (max 0 secs) * 1000) (2 ^ 64 - 1))"

definition commit_base :: "string \<Rightarrow> commit_record \<Rightarrow> u64 \<Rightarrow> memory_node" where
  "commit_base repo c now =
     \<lparr>n_schema_version = SCHEMA_VERSION, n_plane = Derived, n_kind = Commit, n_repo = repo, n_author = cr_author c,
      n_source_ref = GitCommit repo (cr_sha c), n_content = as_bytes (cr_subject c), n_valid_from = commit_time (cr_time_secs c),
      n_valid_to = None, n_observed_at = now, n_trust_tier = DerivedDeterministic, n_signature = None, n_embedding = None,
      n_confidence = [BTrue], n_anchors = [], n_status = Active\<rparr>"

definition ingest_commit_node ::
    "externals \<Rightarrow> string \<Rightarrow> commit_record \<Rightarrow> u64 \<Rightarrow> embed_impl \<Rightarrow> embed_reuse \<Rightarrow> (ingest_error, memory_node) result" where
  "ingest_commit_node X repo c now emb reuse =
     embed_or_reuse X (commit_base repo c now) (cr_subject c @ [NL] @ cr_body c) emb reuse"

definition ref_kind :: "string \<Rightarrow> node_kind" where
  "ref_kind ref = (if starts_with ''adr'' (to_ascii_lowercase ref) then Adr else WorkPackage)"

definition ref_node :: "string \<Rightarrow> string \<Rightarrow> u64 \<Rightarrow> memory_node" where
  "ref_node repo ref now =
     \<lparr>n_schema_version = SCHEMA_VERSION, n_plane = Derived, n_kind = ref_kind ref, n_repo = repo, n_author = ''ingest'',
      n_source_ref = DagNative (''ref:'' @ ref), n_content = as_bytes ref, n_valid_from = now,
      n_valid_to = None, n_observed_at = now, n_trust_tier = DerivedDeterministic, n_signature = None, n_embedding = None,
      n_confidence = [], n_anchors = [], n_status = Active\<rparr>"

definition make_edge :: "content_hash \<Rightarrow> content_hash \<Rightarrow> edge_kind \<Rightarrow> edge_method \<Rightarrow> u64 \<Rightarrow> string option \<Rightarrow> edge" where
  "make_edge a b kind method now evidence =
     \<lparr>e_from = a, e_to = b, e_kind = kind, e_plane = Derived, e_trust_tier = DerivedDeterministic,
      e_provenance = \<lparr>p_method = method, p_asserter = ''ingest'', p_at = now, p_evidence = evidence\<rparr>,
      e_confidence = [BTrue], e_quarantined = False, e_signature = None\<rparr>"

fun is_authority_bearing :: "edge_kind \<Rightarrow> bool" where
  "is_authority_bearing Supersedes = True"
| "is_authority_bearing Refutes = True"
| "is_authority_bearing _ = False"

definition make_trailer_edge ::
    "content_hash \<Rightarrow> content_hash \<Rightarrow> edge_kind \<Rightarrow> u64 \<Rightarrow> string option \<Rightarrow> string \<Rightarrow> string set \<Rightarrow> edge" where
  "make_trailer_edge a b kind now evidence author authoritative =
     \<lparr>e_from = a, e_to = b, e_kind = kind, e_plane = Derived, e_trust_tier = DerivedDeterministic,
      e_provenance = \<lparr>p_method = Trailer, p_asserter = author, p_at = now, p_evidence = evidence\<rparr>,
      e_confidence = [BTrue], e_quarantined = (is_authority_bearing kind \<and> author \<notin> authoritative), e_signature = None\<rparr>"

section \<open>The graph of a history\<close>

record graph =
  gr_shas :: "string \<rightharpoonup> content_hash"
  gr_refs :: "string \<rightharpoonup> content_hash"
  gr_nodes :: "memory_node list"
  gr_edges :: "edge list"

definition empty_graph :: graph where
  "empty_graph = \<lparr>gr_shas = Map.empty, gr_refs = Map.empty, gr_nodes = [], gr_edges = []\<rparr>"

text \<open>A commit joins the graph: its node, then an edge to each parent that is already in it, the first
  one on the spine.\<close>

definition parent_edges :: "(string \<rightharpoonup> content_hash) \<Rightarrow> content_hash \<Rightarrow> u64 \<Rightarrow> string list \<Rightarrow> edge list" where
  "parent_edges shas nid now parents =
     List.map_filter (\<lambda>(i, p). map_option (\<lambda>pid. make_edge nid pid (if i = 0 then TemporalNext else MergeParent) Ingest now (Some p)) (shas p))
       (enumerate 0 parents)"

definition add_commit :: "externals \<Rightarrow> u64 \<Rightarrow> commit_record \<Rightarrow> memory_node \<Rightarrow> graph \<Rightarrow> graph" where
  "add_commit X now c node g =
     (let nid = node_id X node; shas = (gr_shas g)(cr_sha c \<mapsto> nid)
      in g\<lparr>gr_shas := shas, gr_nodes := gr_nodes g @ [node],
           gr_edges := gr_edges g @ parent_edges shas nid now (cr_parents c)\<rparr>)"

text \<open>A directive joins the graph: the reference node of its value, once, and the edge to it.\<close>

definition intern_ref :: "externals \<Rightarrow> string \<Rightarrow> u64 \<Rightarrow> string \<Rightarrow> graph \<Rightarrow> content_hash \<times> graph" where
  "intern_ref X repo now ref g =
     (case gr_refs g ref of
        Some rid \<Rightarrow> (rid, g)
      | None \<Rightarrow>
          let rn = ref_node repo ref now; rid = node_id X rn
          in (rid, g\<lparr>gr_refs := (gr_refs g)(ref \<mapsto> rid), gr_nodes := gr_nodes g @ [rn]\<rparr>))"

definition add_directive ::
    "externals \<Rightarrow> (string \<Rightarrow> edge_kind option) \<Rightarrow> string \<Rightarrow> u64 \<Rightarrow> string \<Rightarrow> string set \<Rightarrow> content_hash \<Rightarrow> trailer \<Rightarrow> graph \<Rightarrow> graph" where
  "add_directive X kind_of repo now author authoritative nid t g =
     (case kind_of (tr_key t) of
        None \<Rightarrow> g
      | Some ek \<Rightarrow>
          let (rid, g') = intern_ref X repo now (tr_value t) g
          in g'\<lparr>gr_edges := gr_edges g' @ [make_trailer_edge nid rid ek now (Some (tr_key t)) author authoritative]\<rparr>)"

definition graph_commit ::
    "externals \<Rightarrow> string \<Rightarrow> u64 \<Rightarrow> embed_impl \<Rightarrow> string set \<Rightarrow> embed_reuse \<Rightarrow> commit_record \<Rightarrow> graph \<Rightarrow> (ingest_error, graph) result" where
  "graph_commit X repo now emb authoritative reuse c g =
     rbind (ingest_commit_node X repo c now emb reuse) (\<lambda>node.
     Inr (fold (add_directive X map_trailer repo now (cr_author c) authoritative (node_id X node))
       (parse_trailers (cr_body c)) (add_commit X now c node g)))"

definition build_graph_gated_reuse ::
    "externals \<Rightarrow> string \<Rightarrow> commit_record list \<Rightarrow> u64 \<Rightarrow> embed_impl \<Rightarrow> string set \<Rightarrow> embed_reuse \<Rightarrow>
     (ingest_error, memory_node list \<times> edge list) result" where
  "build_graph_gated_reuse X repo recs now emb authoritative reuse =
     rbind (rfold (graph_commit X repo now emb authoritative reuse) recs empty_graph) (\<lambda>g. Inr (gr_nodes g, gr_edges g))"

definition build_graph_gated ::
    "externals \<Rightarrow> string \<Rightarrow> commit_record list \<Rightarrow> u64 \<Rightarrow> embed_impl \<Rightarrow> string set \<Rightarrow> (ingest_error, memory_node list \<times> edge list) result" where
  "build_graph_gated X repo recs now emb authoritative = build_graph_gated_reuse X repo recs now emb authoritative no_reuse"

definition build_graph ::
    "externals \<Rightarrow> string \<Rightarrow> commit_record list \<Rightarrow> u64 \<Rightarrow> embed_impl \<Rightarrow> (ingest_error, memory_node list \<times> edge list) result" where
  "build_graph X repo recs now emb = build_graph_gated X repo recs now emb {}"

section \<open>The graph of a branch\<close>

definition is_marker_kind :: "node_kind \<Rightarrow> bool" where
  "is_marker_kind kind \<longleftrightarrow> kind = Branch"

definition branch_node :: "string \<Rightarrow> string \<Rightarrow> string \<Rightarrow> u64 \<Rightarrow> memory_node" where
  "branch_node repo name tip now =
     \<lparr>n_schema_version = SCHEMA_VERSION, n_plane = Derived, n_kind = Branch, n_repo = repo, n_author = ''ingest'',
      n_source_ref = DagNative (''branch:'' @ name), n_content = as_bytes (name @ ''@'' @ tip), n_valid_from = now,
      n_valid_to = None, n_observed_at = now, n_trust_tier = DerivedDeterministic, n_signature = None, n_embedding = None,
      n_confidence = [BTrue], n_anchors = [], n_status = Active\<rparr>"

definition branch_commit ::
    "externals \<Rightarrow> string \<Rightarrow> u64 \<Rightarrow> embed_impl \<Rightarrow> embed_reuse \<Rightarrow> string \<Rightarrow> content_hash \<Rightarrow> commit_record \<Rightarrow> graph \<Rightarrow> (ingest_error, graph) result" where
  "branch_commit X repo now emb reuse name bid c g =
     rbind (ingest_commit_node X repo c now emb reuse) (\<lambda>node.
     let g' = add_commit X now c node g
     in Inr (g'\<lparr>gr_edges := gr_edges g' @ [make_edge bid (node_id X node) BranchContains Ingest now (Some name)]\<rparr>))"

definition build_branch_graph ::
    "externals \<Rightarrow> string \<Rightarrow> string \<Rightarrow> string \<Rightarrow> commit_record list \<Rightarrow> u64 \<Rightarrow> embed_impl \<Rightarrow> embed_reuse \<Rightarrow>
     (ingest_error, memory_node list \<times> edge list) result" where
  "build_branch_graph X repo name tip recs now emb reuse =
     (let branch = branch_node repo name tip now
      in rbind (rfold (branch_commit X repo now emb reuse name (node_id X branch)) recs (empty_graph\<lparr>gr_nodes := [branch]\<rparr>)) (\<lambda>g.
         Inr (gr_nodes g, gr_edges g)))"

section \<open>The graph of the documents\<close>

definition MAX_DOC_BYTES :: nat where
  "MAX_DOC_BYTES = 4 * 1024 * 1024"

text \<open>\<^verbatim>\<open>Path::join\<close>, the components of a path, and \<^verbatim>\<open>Path::starts_with\<close> on components.\<close>

definition path_join :: "string \<Rightarrow> string \<Rightarrow> string" where
  "path_join root rel =
     (if starts_with ''/'' rel then rel
      else if root = [] \<or> last root = CHR ''/'' then root @ rel else root @ ''/'' @ rel)"

definition path_components :: "string \<Rightarrow> string list" where
  "path_components p =
     (if starts_with ''/'' p then [''/''] else []) @ filter (\<lambda>c. c \<noteq> [] \<and> c \<noteq> ''.'') (split_char CHR ''/'' p)"

definition path_starts_with :: "string \<Rightarrow> string \<Rightarrow> bool" where
  "path_starts_with p root \<longleftrightarrow> take (length (path_components root)) (path_components p) = path_components root"

definition read_tracked_doc :: "fs_env \<Rightarrow> string \<Rightarrow> string \<Rightarrow> bytes option" where
  "read_tracked_doc F root rel =
     (let path = path_join root rel
      in case fs_meta F path of
           None \<Rightarrow> None
         | Some (is_file, len) \<Rightarrow>
             if \<not> is_file \<or> len > MAX_DOC_BYTES then None
             else case (fs_canonical F root, fs_canonical F path) of
                    (Some base, Some real) \<Rightarrow>
                      if \<not> path_starts_with real base then None
                      else (case fs_read F real of
                              None \<Rightarrow> None
                            | Some content \<Rightarrow>
                                let buf = take (MAX_DOC_BYTES + 1) content
                                in if length buf > MAX_DOC_BYTES then None else Some buf)
                  | _ \<Rightarrow> None)"

definition doc_base :: "string \<Rightarrow> string \<Rightarrow> string \<Rightarrow> string \<Rightarrow> (string \<rightharpoonup> string) \<Rightarrow> node_kind \<Rightarrow> u64 \<Rightarrow> memory_node" where
  "doc_base repo rel title blob_sha fm kind now =
     \<lparr>n_schema_version = SCHEMA_VERSION, n_plane = Derived, n_kind = kind, n_repo = repo,
      n_author = (case fm ''author'' of Some a \<Rightarrow> a | None \<Rightarrow> ''ingest''),
      n_source_ref = Artifact repo rel blob_sha 0 0, n_content = as_bytes title,
      n_valid_from = (case created_ms fm of Some ms \<Rightarrow> of_nat ms | None \<Rightarrow> now),
      n_valid_to = None, n_observed_at = now, n_trust_tier = DerivedDeterministic, n_signature = None, n_embedding = None,
      n_confidence = [BTrue], n_anchors = [], n_status = status_from_fm fm\<rparr>"

definition doc_node ::
    "externals \<Rightarrow> string \<Rightarrow> string \<Rightarrow> string \<Rightarrow> string \<Rightarrow> (string \<rightharpoonup> string) \<Rightarrow> node_kind \<Rightarrow> string \<Rightarrow> u64 \<Rightarrow> embed_impl \<Rightarrow> embed_reuse \<Rightarrow>
     (ingest_error, memory_node) result" where
  "doc_node X repo rel title blob_sha fm kind body now emb reuse =
     embed_or_reuse X (doc_base repo rel title blob_sha fm kind now) (title @ [NL] @ chars_take 512 body) emb
       (if blob_sha = [] then no_reuse else reuse)"

definition graph_doc ::
    "externals \<Rightarrow> fs_env \<Rightarrow> string \<Rightarrow> string \<Rightarrow> u64 \<Rightarrow> embed_impl \<Rightarrow> embed_reuse \<Rightarrow> (string \<rightharpoonup> string) \<Rightarrow> string \<Rightarrow> graph \<times> nat \<Rightarrow>
     (ingest_error, graph \<times> nat) result" where
  "graph_doc X F repo root now emb reuse blobs rel = (\<lambda>(g, doc_count).
     case read_tracked_doc F root rel of
       None \<Rightarrow> Inr (g, doc_count)
     | Some b \<Rightarrow>
         let txt = lossy b;
             (fm, body) = parse_frontmatter txt;
             kind = classify rel fm body;
             title = doc_title rel fm body;
             author = (case fm ''author'' of Some a \<Rightarrow> a | None \<Rightarrow> ''ingest'');
             blob_sha = (case blobs rel of Some h \<Rightarrow> h | None \<Rightarrow> [])
         in rbind (doc_node X repo rel title blob_sha fm kind body now emb reuse) (\<lambda>node.
            Inr (fold (add_directive X map_block_directive repo now author {} (node_id X node)) (parse_agentile_blocks txt)
              (g\<lparr>gr_nodes := gr_nodes g @ [node]\<rparr>), doc_count + 1)))"

definition build_doc_graph ::
    "externals \<Rightarrow> git_env \<Rightarrow> fs_env \<Rightarrow> string \<Rightarrow> string \<Rightarrow> u64 \<Rightarrow> embed_impl \<Rightarrow> embed_reuse \<Rightarrow>
     (ingest_error, memory_node list \<times> edge list \<times> nat) result" where
  "build_doc_graph X G F repo root now emb reuse =
     rbind (list_md_files G root) (\<lambda>paths.
     rbind (list_md_blobs G root) (\<lambda>blobs.
     rbind (rfold (graph_doc X F repo root now emb reuse blobs) paths (empty_graph, 0)) (\<lambda>(g, n).
     Inr (gr_nodes g, gr_edges g, n))))"

section \<open>The passes of the ingestor\<close>

type_synonym 'a pass = "(dag_store, ingest_error, 'a) action"

definition store_reuse :: "externals \<Rightarrow> ingestor \<Rightarrow> dag_store \<Rightarrow> embed_reuse" where
  "store_reuse X I s nid =
     (case get_node X nid s of
        Inr (Some n) \<Rightarrow>
          (case n_embedding n of
             Some v \<Rightarrow> if vv_model v = ei_model (ig_embedder I) \<and> length (vv_data v) = ei_dim (ig_embedder I) then Some v else None
           | None \<Rightarrow> None)
      | _ \<Rightarrow> None)"

definition count_supersession :: "externals \<Rightarrow> edge \<Rightarrow> nat \<times> nat \<Rightarrow> (nat \<times> nat) pass" where
  "count_supersession X e = (\<lambda>(applied, rejected) s.
     case apply_supersession X e s of
       (Inr transitioned, s') \<Rightarrow> (Inr (applied + (if transitioned then 1 else 0), rejected), s')
     | (Inl (StoreErr m), s') \<Rightarrow> (Inl (IngestStore m), s')
     | (Inl _, s') \<Rightarrow> (Inr (applied, rejected + 1), s'))"

definition apply_supersessions :: "externals \<Rightarrow> edge list \<Rightarrow> (nat \<times> nat) pass" where
  "apply_supersessions X edges = sfold (count_supersession X) edges (0, 0)"

definition load_bearing :: "edge \<Rightarrow> bool" where
  "load_bearing e \<longleftrightarrow> e_kind e = Supersedes \<and> \<not> e_quarantined e"

text \<open>The common half of the two history passes: build, commit, apply.\<close>

definition derive ::
    "externals \<Rightarrow> ingest_env \<Rightarrow> ingestor \<Rightarrow> u64 \<Rightarrow> string \<Rightarrow> commit_record list \<Rightarrow> (nat \<times> nat \<times> nat) pass" where
  "derive X E I now root recs s =
     (let reuse = store_reuse X I s; repo = ig_repo_name I; emb = ig_embedder I
      in sbind (slift (build_graph_gated_reuse X repo recs now emb (ig_authors I) reuse)) (\<lambda>(nodes, edges).
         sbind (slift (build_doc_graph X (ie_git E) (ie_fs E) repo root now emb reuse)) (\<lambda>(doc_nodes, doc_edges, doc_count).
         let all_edges = edges @ doc_edges
         in sbind (smap_err IngestStore (commit X (nodes @ doc_nodes) (filter (\<lambda>e. \<not> load_bearing e) all_edges))) (\<lambda>_.
            sbind (apply_supersessions X (filter load_bearing all_edges)) (\<lambda>(superseded, rejected).
            sok (doc_count, superseded, rejected))))) s)"

definition stamp :: "externals \<Rightarrow> ingest_env \<Rightarrow> ingestor \<Rightarrow> bytes \<Rightarrow> watermark \<Rightarrow> unit pass" where
  "stamp X E I key w =
     sbind (slift (map_err IngestSerde (ie_watermark_json E w))) (\<lambda>b.
     smap_err IngestStore (put_meta X (ig_repo_name I) key b))"

definition report :: "nat \<Rightarrow> nat \<Rightarrow> nat \<Rightarrow> nat \<Rightarrow> watermark \<Rightarrow> ingest_report pass" where
  "report commits docs superseded rejected w =
     sbind (smap_err IngestStore (sread node_count)) (\<lambda>nodes.
     sbind (smap_err IngestStore (sread edge_count)) (\<lambda>edges.
     sok \<lparr>ir_commits = commits, ir_docs = docs, ir_nodes_in_store = nodes, ir_edges_in_store = edges,
       ir_superseded = superseded, ir_supersessions_rejected = rejected, ir_watermark = w\<rparr>))"

definition ingest :: "externals \<Rightarrow> ingest_env \<Rightarrow> ingestor \<Rightarrow> u64 \<Rightarrow> string \<Rightarrow> ingest_report pass" where
  "ingest X E I now path =
     sbind (slift (repo_root (ie_git E) path)) (\<lambda>root.
     sbind (slift (read_commits (ie_git E) root)) (\<lambda>recs.
     sbind (derive X E I now root recs) (\<lambda>(docs, superseded, rejected).
     let w = \<lparr>wm_repo = ig_repo_name I, wm_head = (if recs = [] then None else Some (cr_sha (last recs))),
              wm_head_count = length recs, wm_ingested_at_ms = now\<rparr>
     in sbind (stamp X E I (watermark_key (ig_repo_name I)) w) (\<lambda>_.
        report (length recs) docs superseded rejected w))))"

definition ingest_since :: "externals \<Rightarrow> ingest_env \<Rightarrow> ingestor \<Rightarrow> u64 \<Rightarrow> string \<Rightarrow> string \<Rightarrow> ingest_report pass" where
  "ingest_since X E I now root since =
     sbind (slift (read_commits_range (ie_git E) root (Some since))) (\<lambda>recs.
     sbind (derive X E I now root recs) (\<lambda>(docs, superseded, rejected).
     sbind (slift (head_sha (ie_git E) root)) (\<lambda>head.
     sbind (slift (commit_count (ie_git E) root)) (\<lambda>n.
     let w = \<lparr>wm_repo = ig_repo_name I, wm_head = Some head, wm_head_count = n, wm_ingested_at_ms = now\<rparr>
     in sbind (stamp X E I (watermark_key (ig_repo_name I)) w) (\<lambda>_.
        report (length recs) docs superseded rejected w)))))"

definition ingest_incremental :: "externals \<Rightarrow> ingest_env \<Rightarrow> ingestor \<Rightarrow> u64 \<Rightarrow> string \<Rightarrow> ingest_report pass" where
  "ingest_incremental X E I now path =
     sbind (slift (repo_root (ie_git E) path)) (\<lambda>root.
     sbind (sread (read_watermark X (ie_query E) (ig_repo_name I))) (\<lambda>prior.
     sbind (case Option.bind prior wm_head of
              None \<Rightarrow> sok None
            | Some head \<Rightarrow> sbind (slift (is_ancestor (ie_git E) root head)) (\<lambda>anc. sok (if anc then Some head else None))) (\<lambda>since.
     case since of
       None \<Rightarrow> ingest X E I now path
     | Some h \<Rightarrow> ingest_since X E I now root h)))"

definition branch_unchanged :: "externals \<Rightarrow> ingest_env \<Rightarrow> bytes \<Rightarrow> string \<Rightarrow> bool pass" where
  "branch_unchanged X E key tip =
     sbind (smap_err IngestStore (sread (get_meta X key))) (\<lambda>found.
     sok (case found of
            None \<Rightarrow> False
          | Some b \<Rightarrow> (case watermark_from_json (ie_query E) b of Inl _ \<Rightarrow> False | Inr w \<Rightarrow> wm_head w = Some tip)))"

definition ingest_branch ::
    "externals \<Rightarrow> ingest_env \<Rightarrow> ingestor \<Rightarrow> u64 \<Rightarrow> string \<Rightarrow> string \<Rightarrow> branch_ref \<Rightarrow> branch_ingest_report \<Rightarrow> branch_ingest_report pass" where
  "ingest_branch X E I now root default_ref br rep =
     (let key = branch_watermark_key (ig_repo_name I) (br_name br);
          wm = (\<lambda>n. \<lparr>wm_repo = ig_repo_name I, wm_head = Some (br_tip br), wm_head_count = n, wm_ingested_at_ms = now\<rparr>)
      in sbind (branch_unchanged X E key (br_tip br)) (\<lambda>same.
         if same then sok (rep\<lparr>bi_unchanged := bi_unchanged rep + 1\<rparr>)
         else
           sbind (slift (read_commits_between (ie_git E) root default_ref (br_tip br))) (\<lambda>recs.
           if recs = [] then
             sbind (stamp X E I key (wm 0)) (\<lambda>_. sok (rep\<lparr>bi_unchanged := bi_unchanged rep + 1\<rparr>))
           else
             sbind (\<lambda>s. slift (build_branch_graph X (ig_repo_name I) (br_name br) (br_tip br) recs now (ig_embedder I) (store_reuse X I s)) s) (\<lambda>(nodes, edges).
             sbind (smap_err IngestStore (commit X nodes edges)) (\<lambda>_.
             sbind (stamp X E I key (wm (length recs))) (\<lambda>_.
             sok (rep\<lparr>bi_branches_ingested := bi_branches_ingested rep + 1,
                      bi_in_flight_commits := bi_in_flight_commits rep + length recs\<rparr>)))))))"

definition ingest_branches :: "externals \<Rightarrow> ingest_env \<Rightarrow> ingestor \<Rightarrow> u64 \<Rightarrow> string \<Rightarrow> branch_ingest_report pass" where
  "ingest_branches X E I now path =
     sbind (slift (repo_root (ie_git E) path)) (\<lambda>root.
     sbind (slift (default_branch_ref (ie_git E) root)) (\<lambda>default_ref.
     sbind (slift (list_branches (ie_git E) root default_ref)) (\<lambda>branches.
     sfold (ingest_branch X E I now root default_ref) branches
       \<lparr>bi_branches_ingested = 0, bi_in_flight_commits = 0, bi_unchanged = 0\<rparr>)))"

definition read_branch_watermark ::
    "externals \<Rightarrow> ingest_env \<Rightarrow> ingestor \<Rightarrow> string \<Rightarrow> dag_store \<Rightarrow> (ingest_error, watermark option) result" where
  "read_branch_watermark X E I branch s =
     rbind (map_err IngestStore (get_meta X (branch_watermark_key (ig_repo_name I) branch) s)) (\<lambda>v.
     case v of
       None \<Rightarrow> Inr None
     | Some b \<Rightarrow> rbind (map_err IngestSerde (watermark_from_json (ie_query E) b)) (\<lambda>w. Inr (Some w)))"

datatype reap_reason = Deleted | Advanced | Merged

definition reap_verdict :: "git_env \<Rightarrow> string \<Rightarrow> (string \<rightharpoonup> string) \<Rightarrow> string \<Rightarrow> string \<Rightarrow> reap_reason option" where
  "reap_verdict G root live name tip =
     (case live name of
        None \<Rightarrow> Some Deleted
      | Some t \<Rightarrow>
          if t \<noteq> tip then Some Advanced
          else if is_ancestor G root tip = Inr True then Some Merged else None)"

definition reap_node ::
    "externals \<Rightarrow> ingest_env \<Rightarrow> ingestor \<Rightarrow> u64 \<Rightarrow> string \<Rightarrow> (string \<rightharpoonup> string) \<Rightarrow> memory_node \<Rightarrow> reap_report \<Rightarrow> reap_report pass" where
  "reap_node X E I now root live node rep =
     (if n_kind node \<noteq> Branch \<or> n_repo node \<noteq> ig_repo_name I \<or> n_status node \<noteq> Active then sok rep
      else
        case rsplit_once_char CHR ''@'' (lossy (n_content node)) of
          None \<Rightarrow> sok rep
        | Some (name, tip) \<Rightarrow>
            (case reap_verdict (ie_git E) root live name tip of
               None \<Rightarrow> sok rep
             | Some why \<Rightarrow>
                 sbind (smap_err IngestStore (set_node_status X (node_id X node) Archived (Some now))) (\<lambda>changed.
                 sok (if \<not> changed then rep
                      else rep\<lparr>rr_archived := rr_archived rep + 1,
                        rr_merged := rr_merged rep + (if why = Merged then 1 else 0),
                        rr_deleted := rr_deleted rep + (if why = Deleted then 1 else 0),
                        rr_advanced := rr_advanced rep + (if why = Advanced then 1 else 0)\<rparr>))))"

definition reap_branches :: "externals \<Rightarrow> ingest_env \<Rightarrow> ingestor \<Rightarrow> u64 \<Rightarrow> string \<Rightarrow> reap_report pass" where
  "reap_branches X E I now path =
     sbind (slift (repo_root (ie_git E) path)) (\<lambda>root.
     sbind (slift (default_branch_ref (ie_git E) root)) (\<lambda>default_ref.
     sbind (slift (list_branches (ie_git E) root default_ref)) (\<lambda>branches.
     sbind (smap_err IngestStore (sread (all_nodes X))) (\<lambda>nodes.
     sfold (reap_node X E I now root (fold (\<lambda>b m. m(br_name b \<mapsto> br_tip b)) branches Map.empty)) nodes
       \<lparr>rr_archived = 0, rr_merged = 0, rr_deleted = 0, rr_advanced = 0\<rparr>))))"

end
