(* ===== verification/Ingest_Safety.thy ===== *)
theory Ingest_Safety
  imports Ingest Write_Policy Anchor
begin

text \<open>
  What a pass of the ingestor may write: only Derived nodes of its own repository, and an edge that
  retracts or refutes something takes effect only when a commit of an authoritative author says so.
  Node ids are a function of what \<^verbatim>\<open>git\<close> reports, not of the clock, the embedder or what the store holds.
\<close>

section \<open>The policy\<close>

lemma commit_base_id: "node_id X (commit_base repo c now) = node_id X (commit_base repo c 0)"
proof -
  have "commit_base repo c now = (commit_base repo c 0)\<lparr>n_observed_at := now\<rparr>" by (simp add: commit_base_def)
  then show ?thesis by (simp add: compute_id_updates)
qed

lemma ref_node_id: "node_id X (ref_node repo r now) = node_id X (ref_node repo r 0)"
proof -
  have "ref_node repo r now = (ref_node repo r 0)\<lparr>n_valid_from := now, n_observed_at := now\<rparr>" by (simp add: ref_node_def)
  then show ?thesis by (simp add: compute_id_updates)
qed

text \<open>A commit of an authoritative author whose trailer asserts this edge.\<close>

definition vouched :: "externals \<Rightarrow> ingestor \<Rightarrow> commit_record set \<Rightarrow> edge \<Rightarrow> bool" where
  "vouched X I R e \<longleftrightarrow> (\<exists>c \<in> R. cr_author c \<in> ig_authors I \<and> e_from e = node_id X (commit_base (ig_repo_name I) c 0) \<and>
     (\<exists>t \<in> set (parse_trailers (cr_body c)). map_trailer (tr_key t) = Some (e_kind e) \<and>
        e_to e = node_id X (ref_node (ig_repo_name I) (tr_value t) 0)))"

definition edge_policy :: "externals \<Rightarrow> ingestor \<Rightarrow> commit_record set \<Rightarrow> edge \<Rightarrow> bool" where
  "edge_policy X I R e \<longleftrightarrow> e_plane e = Derived \<and>
     (is_authority_bearing (e_kind e) \<and> \<not> e_quarantined e \<longrightarrow> vouched X I R e)"

definition own_node :: "ingestor \<Rightarrow> memory_node \<Rightarrow> bool" where
  "own_node I n \<longleftrightarrow> n_repo n = ig_repo_name I \<and> n_plane n = Derived"

fun ingest_policy :: "externals \<Rightarrow> ingestor \<Rightarrow> commit_record set \<Rightarrow> item \<Rightarrow> bool" where
  "ingest_policy X I R (INode n) \<longleftrightarrow> own_node I n"
| "ingest_policy X I R (IEdge e) \<longleftrightarrow> edge_policy X I R e"

section \<open>What the builders make\<close>

definition finite_vectors :: "embed_impl \<Rightarrow> bool" where
  "finite_vectors emb \<longleftrightarrow> (\<forall>txt v. ei_embed emb txt = Inr v \<longrightarrow> list_all f32_finite (vv_data v))"

definition finite_reuse :: "embed_reuse \<Rightarrow> bool" where
  "finite_reuse reuse \<longleftrightarrow> (\<forall>nid v. reuse nid = Some v \<longrightarrow> list_all f32_finite (vv_data v))"

definition derived_graph :: "externals \<Rightarrow> ingestor \<Rightarrow> commit_record set \<Rightarrow> graph \<Rightarrow> bool" where
  "derived_graph X I R g \<longleftrightarrow>
     (\<forall>n \<in> set (gr_nodes g). own_node I n \<and> json_safe n) \<and>
     (\<forall>e \<in> set (gr_edges g). edge_policy X I R e \<and> (load_bearing e \<longrightarrow> e_to e \<in> node_id X ` set (gr_nodes g))) \<and>
     (\<forall>r rid. gr_refs g r = Some rid \<longrightarrow>
        rid = node_id X (ref_node (ig_repo_name I) r 0) \<and> rid \<in> node_id X ` set (gr_nodes g))"

lemma derived_graphD:
  assumes "derived_graph X I R g"
  shows "n \<in> set (gr_nodes g) \<Longrightarrow> own_node I n \<and> json_safe n"
    and "e \<in> set (gr_edges g) \<Longrightarrow> edge_policy X I R e"
    and "e \<in> set (gr_edges g) \<Longrightarrow> load_bearing e \<Longrightarrow> e_to e \<in> node_id X ` set (gr_nodes g)"
    and "gr_refs g r = Some rid \<Longrightarrow> rid = node_id X (ref_node (ig_repo_name I) r 0)"
    and "gr_refs g r = Some rid \<Longrightarrow> rid \<in> node_id X ` set (gr_nodes g)"
  using assms by (auto simp: derived_graph_def)

lemma derived_graph_empty: "derived_graph X I R empty_graph"
  by (simp add: derived_graph_def empty_graph_def)

lemma derived_graph_node:
  "derived_graph X I R g \<Longrightarrow> own_node I n \<Longrightarrow> json_safe n \<Longrightarrow> derived_graph X I R (g\<lparr>gr_nodes := gr_nodes g @ [n]\<rparr>)"
  by (auto simp: derived_graph_def)

lemma derived_graph_edges:
  assumes "derived_graph X I R g" "\<forall>e \<in> set es. edge_policy X I R e \<and> (load_bearing e \<longrightarrow> e_to e \<in> node_id X ` set (gr_nodes g))"
  shows "derived_graph X I R (g\<lparr>gr_edges := gr_edges g @ es\<rparr>)"
  using assms by (auto simp: derived_graph_def)

lemma derived_graph_shas: "derived_graph X I R (g\<lparr>gr_shas := m\<rparr>) = derived_graph X I R g"
  by (simp add: derived_graph_def)

lemma embed_keeps:
  assumes "embed_or_reuse X n txt emb reuse = Inr m"
  shows "\<exists>v. m = n\<lparr>n_embedding := v\<rparr>"
  using assms by (auto simp: embed_or_reuse_def rbind_def map_err_def split: option.splits if_splits sum.splits)

lemma embed_safe:
  assumes "finite_vectors emb" "finite_reuse reuse" "embed_or_reuse X n txt emb reuse = Inr m"
  shows "json_safe m"
  using assms
  by (auto simp: embed_or_reuse_def rbind_def map_err_def json_safe_def finite_vectors_def finite_reuse_def
      split: option.splits if_splits sum.splits)

lemma commit_node_ok:
  assumes "finite_vectors emb" "finite_reuse reuse" "ingest_commit_node X (ig_repo_name I) c now emb reuse = Inr n"
  shows "own_node I n" "json_safe n" "node_id X n = node_id X (commit_base (ig_repo_name I) c 0)"
proof -
  from assms(3) obtain v where n: "n = (commit_base (ig_repo_name I) c now)\<lparr>n_embedding := v\<rparr>"
    using embed_keeps by (fastforce simp: ingest_commit_node_def)
  then show "own_node I n" by (simp add: own_node_def commit_base_def)
  show "json_safe n" using embed_safe [OF assms(1,2)] assms(3) by (simp add: ingest_commit_node_def)
  show "node_id X n = node_id X (commit_base (ig_repo_name I) c 0)"
    using n commit_base_id [of X "ig_repo_name I" c now] by (simp add: compute_id_updates)
qed

lemma plain_edge_policy: "\<not> is_authority_bearing k \<Longrightarrow> edge_policy X I R (make_edge a b k m now ev)"
  "\<not> is_authority_bearing k \<Longrightarrow> \<not> load_bearing (make_edge a b k m now ev)"
  by (auto simp: edge_policy_def make_edge_def load_bearing_def)

lemma parent_edges_ok: "e \<in> set (parent_edges shas nid now ps) \<Longrightarrow> edge_policy X I R e \<and> \<not> load_bearing e"
  by (auto simp: parent_edges_def List.map_filter_def plain_edge_policy)

lemma add_commit_ok:
  assumes "derived_graph X I R g" "own_node I n" "json_safe n"
  shows "derived_graph X I R (add_commit X now c n g)"
proof -
  let ?shas = "(gr_shas g)(cr_sha c \<mapsto> node_id X n)"
  have "derived_graph X I R (g\<lparr>gr_shas := ?shas, gr_nodes := gr_nodes g @ [n]\<rparr>)"
    using derived_graph_node [OF derived_graph_shas [THEN iffD2, OF assms(1)] assms(2,3), of ?shas] by simp
  from derived_graph_edges [OF this, of "parent_edges ?shas (node_id X n) now (cr_parents c)"] parent_edges_ok
  show ?thesis by (fastforce simp: add_commit_def Let_def)
qed

lemma ref_node_ok: "own_node I (ref_node (ig_repo_name I) r now)" "json_safe (ref_node (ig_repo_name I) r now)"
  by (simp_all add: own_node_def ref_node_def json_safe_def)

lemma intern_ref_ok:
  assumes "derived_graph X I R g" "intern_ref X (ig_repo_name I) now r g = (rid, g')"
  shows "derived_graph X I R g'" "rid = node_id X (ref_node (ig_repo_name I) r 0)" "rid \<in> node_id X ` set (gr_nodes g')"
proof -
  have "derived_graph X I R g' \<and> rid = node_id X (ref_node (ig_repo_name I) r 0) \<and> rid \<in> node_id X ` set (gr_nodes g')"
  proof (cases "gr_refs g r")
    case None
    let ?n = "ref_node (ig_repo_name I) r now"
    have g': "g' = (g\<lparr>gr_nodes := gr_nodes g @ [?n]\<rparr>)\<lparr>gr_refs := (gr_refs g)(r \<mapsto> node_id X ?n)\<rparr>" "rid = node_id X ?n"
      using None assms(2) by (auto simp: intern_ref_def Let_def)
    have "derived_graph X I R (g\<lparr>gr_nodes := gr_nodes g @ [?n]\<rparr>)" by (rule derived_graph_node [OF assms(1) ref_node_ok])
    then show ?thesis using g' ref_node_id [of X "ig_repo_name I" r now] by (auto simp: derived_graph_def)
  next
    case (Some x)
    with assms derived_graphD(4,5) [OF assms(1) Some] show ?thesis by (simp add: intern_ref_def)
  qed
  then show "derived_graph X I R g'" "rid = node_id X (ref_node (ig_repo_name I) r 0)" "rid \<in> node_id X ` set (gr_nodes g')"
    by blast+
qed

text \<open>A directive under an author: it is load-bearing only when the author is authoritative, and then the
  commit vouches for it.\<close>

lemma add_directive_ok:
  assumes g: "derived_graph X I R g"
    and v: "\<And>ek. kind_of (tr_key t) = Some ek \<Longrightarrow> author \<in> A \<Longrightarrow>
      \<exists>c \<in> R. cr_author c \<in> ig_authors I \<and> nid = node_id X (commit_base (ig_repo_name I) c 0) \<and>
        t \<in> set (parse_trailers (cr_body c)) \<and> map_trailer (tr_key t) = Some ek"
  shows "derived_graph X I R (add_directive X kind_of (ig_repo_name I) now author A nid t g)"
proof (cases "kind_of (tr_key t)")
  case None
  with g show ?thesis by (simp add: add_directive_def)
next
  case (Some ek)
  obtain rid g' where r: "intern_ref X (ig_repo_name I) now (tr_value t) g = (rid, g')"
    by (cases "intern_ref X (ig_repo_name I) now (tr_value t) g")
  note ok = intern_ref_ok [OF g r]
  let ?e = "make_trailer_edge nid rid ek now (Some (tr_key t)) author A"
  have "vouched X I R ?e" if "author \<in> A"
    using v [OF Some that] ok(2) by (auto simp: vouched_def make_trailer_edge_def)
  then have "edge_policy X I R ?e" by (auto simp: edge_policy_def make_trailer_edge_def)
  moreover have "e_to ?e \<in> node_id X ` set (gr_nodes g')" using ok(3) by (simp add: make_trailer_edge_def)
  ultimately show ?thesis
    using derived_graph_edges [OF ok(1), of "[?e]"] Some r by (simp add: add_directive_def)
qed

lemma fold_directives_ok:
  assumes "derived_graph X I R g"
    and "\<And>t ek. t \<in> set ts \<Longrightarrow> kind_of (tr_key t) = Some ek \<Longrightarrow> author \<in> A \<Longrightarrow>
      \<exists>c \<in> R. cr_author c \<in> ig_authors I \<and> nid = node_id X (commit_base (ig_repo_name I) c 0) \<and>
        t \<in> set (parse_trailers (cr_body c)) \<and> map_trailer (tr_key t) = Some ek"
  shows "derived_graph X I R (fold (add_directive X kind_of (ig_repo_name I) now author A nid) ts g)"
  using assms
proof (induction ts arbitrary: g)
  case (Cons t ts)
  then show ?case using add_directive_ok [of X I R g kind_of t author A nid now] by simp
qed simp

lemma build_graph_ok:
  assumes "set recs \<subseteq> R" "finite_vectors emb" "finite_reuse reuse"
    and "build_graph_gated_reuse X (ig_repo_name I) recs now emb (ig_authors I) reuse = Inr (ns, es)"
  shows "\<exists>g. derived_graph X I R g \<and> ns = gr_nodes g \<and> es = gr_edges g"
proof -
  from assms(4) obtain g where g: "rfold (graph_commit X (ig_repo_name I) now emb (ig_authors I) reuse) recs empty_graph = Inr g"
      "ns = gr_nodes g" "es = gr_edges g"
    by (auto simp: build_graph_gated_reuse_def rbind_def split: sum.splits)
  have "derived_graph X I R g"
  proof (rule rfold_invariant [where I = "derived_graph X I R", OF _ derived_graph_empty g(1)])
    fix c h h'
    assume c: "c \<in> set recs" and h: "derived_graph X I R h"
      and "graph_commit X (ig_repo_name I) now emb (ig_authors I) reuse c h = Inr h'"
    then obtain n where n: "ingest_commit_node X (ig_repo_name I) c now emb reuse = Inr n"
        "h' = fold (add_directive X map_trailer (ig_repo_name I) now (cr_author c) (ig_authors I) (node_id X n))
          (parse_trailers (cr_body c)) (add_commit X now c n h)"
      by (auto simp: graph_commit_def rbind_def split: sum.splits)
    note ok = commit_node_ok [OF assms(2,3) n(1)]
    show "derived_graph X I R h'"
      unfolding n(2) using ok(3) c assms(1)
      by (intro fold_directives_ok add_commit_ok [OF h ok(1,2)]) auto
  qed
  with g show ?thesis by blast
qed

lemma doc_node_ok:
  assumes "finite_vectors emb" "finite_reuse reuse"
    and "doc_node X (ig_repo_name I) rel title blob fm kind body now emb reuse = Inr n"
  shows "own_node I n" "json_safe n"
proof -
  have r: "finite_reuse (if blob = [] then no_reuse else reuse)" using assms(2) by (simp add: finite_reuse_def no_reuse_def)
  from assms(3) obtain v where n: "n = (doc_base (ig_repo_name I) rel title blob fm kind now)\<lparr>n_embedding := v\<rparr>"
    unfolding doc_node_def using embed_keeps by blast
  then show "own_node I n" by (simp add: own_node_def doc_base_def)
  show "json_safe n" using embed_safe [OF assms(1) r] assms(3) unfolding doc_node_def by blast
qed

lemma build_doc_graph_ok:
  assumes "finite_vectors emb" "finite_reuse reuse"
    and "build_doc_graph X G F (ig_repo_name I) root now emb reuse = Inr (ns, es, k)"
  shows "\<exists>g. derived_graph X I R g \<and> ns = gr_nodes g \<and> es = gr_edges g"
proof -
  from assms(3) obtain paths blobs g where
      g: "rfold (graph_doc X F (ig_repo_name I) root now emb reuse blobs) paths (empty_graph, 0) = Inr (g, k)"
      "ns = gr_nodes g" "es = gr_edges g"
    by (auto simp: build_doc_graph_def rbind_def split: sum.splits)
  have "derived_graph X I R (fst (g, k))"
  proof (rule rfold_invariant [where I = "\<lambda>p. derived_graph X I R (fst p)", OF _ _ g(1)])
    fix rel p p'
    assume p: "derived_graph X I R (fst p)" and run: "graph_doc X F (ig_repo_name I) root now emb reuse blobs rel p = Inr p'"
    obtain h i where hi: "p = (h, i)" by (cases p)
    show "derived_graph X I R (fst p')"
    proof (cases "read_tracked_doc F root rel")
      case None
      with run p hi show ?thesis by (simp add: graph_doc_def)
    next
      case (Some b)
      obtain fm body where fm: "parse_frontmatter (lossy b) = (fm, body)" by (cases "parse_frontmatter (lossy b)")
      from run Some hi fm obtain n title blob kind author where
          n: "doc_node X (ig_repo_name I) rel title blob fm kind body now emb reuse = Inr n"
          "fst p' = fold (add_directive X map_block_directive (ig_repo_name I) now author {} (node_id X n))
            (parse_agentile_blocks (lossy b)) (h\<lparr>gr_nodes := gr_nodes h @ [n]\<rparr>)"
        by (auto simp: graph_doc_def Let_def rbind_def split: sum.splits)
      note ok = doc_node_ok [OF assms(1,2) n(1)]
      from p hi have "derived_graph X I R h" by simp
      then show ?thesis unfolding n(2) by (intro fold_directives_ok derived_graph_node ok) auto
    qed
  qed (simp add: derived_graph_empty)
  with g show ?thesis by auto
qed

lemma build_branch_graph_ok:
  assumes "finite_vectors emb" "finite_reuse reuse"
    and "build_branch_graph X (ig_repo_name I) name tip recs now emb reuse = Inr (ns, es)"
  shows "\<exists>g. derived_graph X I R g \<and> ns = gr_nodes g \<and> es = gr_edges g"
proof -
  let ?b = "branch_node (ig_repo_name I) name tip now"
  from assms(3) obtain g where
      g: "rfold (branch_commit X (ig_repo_name I) now emb reuse name (node_id X ?b)) recs (empty_graph\<lparr>gr_nodes := [?b]\<rparr>) = Inr g"
      "ns = gr_nodes g" "es = gr_edges g"
    by (auto simp: build_branch_graph_def Let_def rbind_def split: sum.splits)
  have "own_node I ?b" "json_safe ?b" by (simp_all add: own_node_def branch_node_def json_safe_def)
  then have start: "derived_graph X I R (empty_graph\<lparr>gr_nodes := [?b]\<rparr>)" by (simp add: derived_graph_def empty_graph_def)
  have "derived_graph X I R g"
  proof (rule rfold_invariant [where I = "derived_graph X I R", OF _ start g(1)])
    fix c h h'
    assume h: "derived_graph X I R h" and "branch_commit X (ig_repo_name I) now emb reuse name (node_id X ?b) c h = Inr h'"
    then obtain n where n: "ingest_commit_node X (ig_repo_name I) c now emb reuse = Inr n"
        "h' = (add_commit X now c n h)\<lparr>gr_edges := gr_edges (add_commit X now c n h) @
           [make_edge (node_id X ?b) (node_id X n) BranchContains Ingest now (Some name)]\<rparr>"
      by (auto simp: branch_commit_def Let_def rbind_def split: sum.splits)
    note ok = commit_node_ok [OF assms(1,2) n(1)]
    show "derived_graph X I R h'"
      unfolding n(2) using plain_edge_policy [of BranchContains] by (intro derived_graph_edges add_commit_ok [OF h ok(1,2)]) auto
  qed
  with g show ?thesis by blast
qed

section \<open>What the passes write\<close>

lemma allowed_trans: "allowed_effect X P s q \<Longrightarrow> allowed_effect X P q s' \<Longrightarrow> allowed_effect X P s s'"
  unfolding allowed_effect_def [of X P q s'] using allowed_step by blast

definition confines :: "externals \<Rightarrow> (item \<Rightarrow> bool) \<Rightarrow> (dag_store, 'e, 'a) action \<Rightarrow> bool" where
  "confines X P m \<longleftrightarrow> (\<forall>s r s'. store_ok X s \<and> m s = (r, s') \<longrightarrow> allowed_effect X P s s')"

lemma confines_sbind: "confines X P m \<Longrightarrow> (\<And>x. confines X P (f x)) \<Longrightarrow> confines X P (sbind m f)"
  unfolding confines_def
proof (intro allI impI, elim conjE)
  fix s r s'
  assume m: "\<forall>s r s'. store_ok X s \<and> m s = (r, s') \<longrightarrow> allowed_effect X P s s'"
    and f: "\<And>x. \<forall>s r s'. store_ok X s \<and> f x s = (r, s') \<longrightarrow> allowed_effect X P s s'"
    and ok: "store_ok X s" and run: "sbind m f s = (r, s')"
  obtain q t where q: "m s = (q, t)" by (cases "m s")
  with m ok have t: "allowed_effect X P s t" by blast
  show "allowed_effect X P s s'"
  proof (cases q)
    case (Inl e)
    with run q t show ?thesis by (auto simp: sbind_def)
  next
    case (Inr x)
    with run q have "f x t = (r, s')" by (simp add: sbind_def)
    with f allowed_ok [OF t] have "allowed_effect X P t s'" by blast
    then show ?thesis by (rule allowed_trans [OF t])
  qed
qed

lemma confines_still: "(\<And>s. snd (m s) = s) \<Longrightarrow> confines X P m"
  unfolding confines_def using allowed_refl by (metis snd_conv)

lemma confines_pure [intro]: "confines X P (sok x)" "confines X P (serr e)" "confines X P (slift v)" "confines X P (sread g)"
  by (rule confines_still, simp add: sok_def serr_def slift_def sread_def)+

lemma confines_slift: "(\<And>x. v = Inr x \<Longrightarrow> confines X P (f x)) \<Longrightarrow> confines X P (sbind (slift v) f)"
  by (cases v) (auto simp: confines_def sbind_def slift_def intro: allowed_refl)

lemma confines_err: "confines X P m \<Longrightarrow> confines X P (smap_err h m)"
  unfolding confines_def smap_err_def by (auto split: prod.splits)

lemma confines_if: "confines X P a \<Longrightarrow> confines X P b \<Longrightarrow> confines X P (if c then a else b)"
  by simp

lemma confines_sfold: "(\<And>x a. x \<in> set xs \<Longrightarrow> confines X P (f x a)) \<Longrightarrow> confines X P (sfold f xs a)"
proof (induction xs arbitrary: a)
  case (Cons x xs)
  then show ?case by (auto intro: confines_sbind)
qed auto

lemma confines_meta: "externals_ok X \<Longrightarrow> confines X P (put_meta X t k v)"
  unfolding confines_def using allowed_put_meta allowed_refl by blast

lemma stamp_confined: "externals_ok X \<Longrightarrow> confines X P (stamp X E I key w)"
  unfolding stamp_def by (intro confines_sbind confines_pure confines_err confines_meta)

lemma report_confined: "confines X P (report a b c d w)"
  unfolding report_def by (intro confines_sbind confines_err confines_pure)

lemma store_reuse_finite: "store_ok X s \<Longrightarrow> finite_reuse (store_reuse X I s)"
  using node_view_id(2) [of X s]
  by (auto simp: finite_reuse_def store_reuse_def get_node_eq json_safe_def split: option.splits if_splits) fastforce

lemma fold_nodes_own:
  assumes "k \<in> node_id X ` set ns"
  shows "\<exists>n \<in> set ns. fold (node_upd X) (map INode ns @ map IEdge es) m k = Some n"
proof -
  have e: "fold (node_upd X) (map IEdge es) m = m" for m by (induction es arbitrary: m) simp_all
  have "\<exists>n \<in> set ns. fold (node_upd X) (map INode ns) m k = Some n" using assms
  proof (induction ns rule: rev_induct)
    case (snoc n ns)
    then show ?case by (cases "k = node_id X n") auto
  qed simp
  then show ?thesis by (simp add: e)
qed

lemma commit_reads_back:
  assumes "effect X s q (commit_items X s ns es)" "k \<in> node_id X ` set ns"
  shows "\<exists>n \<in> set ns. node_view X q k = Some n"
  using fold_nodes_own [OF assms(2)] assms(1) unfolding effect_def commit_items_def by metis

lemma count_supersession_run:
  assumes "count_supersession X e p s = (r, s')"
  shows "\<exists>q. apply_supersession X e s = (q, s')"
  using assms by (cases p) (auto simp: count_supersession_def split: prod.splits sum.splits supersession_error.splits)

text \<open>Everything a build hands over may be written, and what it supersedes are its own nodes.\<close>

lemma write_graph_confined:
  assumes X: "externals_ok X" and ok: "store_ok X s" and g: "derived_graph X I R g"
    and run: "commit X (gr_nodes g) (filter (\<lambda>e. \<not> load_bearing e) (gr_edges g)) s = (Inr (), q)"
    and sup: "apply_supersessions X (filter load_bearing (gr_edges g)) q = (r, s')"
  shows "allowed_effect X (ingest_policy X I R) s s'"
proof -
  let ?P = "ingest_policy X I R"
  have safe: "\<forall>n \<in> set (gr_nodes g). json_safe n \<and> ?P (INode n)" using derived_graphD(1) [OF g] by auto
  have sq: "allowed_effect X ?P s q"
    by (rule allowed_commit [OF X allowed_refl [OF ok] safe _ run]) (use derived_graphD(2) [OF g] in auto)
  from commit_effect [OF X ok _ run] safe
  have eff: "effect X s q (commit_items X s (gr_nodes g) (filter (\<lambda>e. \<not> load_bearing e) (gr_edges g)))" by auto
  have own: "own_node I t" if "e \<in> set (gr_edges g)" "load_bearing e" "node_view X q (e_to e) = Some t" for e t
  proof -
    have "\<exists>n \<in> set (gr_nodes g). node_view X q (e_to e) = Some n"
      by (rule commit_reads_back [OF eff derived_graphD(3) [OF g that(1,2)]])
    with that(3) derived_graphD(1) [OF g] show ?thesis by auto
  qed
  have "allowed_effect X ?P q s'"
  proof (rule sfold_invariant [where I = "allowed_effect X ?P q", OF _ allowed_refl [OF allowed_ok [OF sq]] sup [unfolded apply_supersessions_def]])
    fix e a z b z'
    assume e: "e \<in> set (filter load_bearing (gr_edges g))" and z: "allowed_effect X ?P q z"
      and "count_supersession X e a z = (b, z')"
    then obtain p where p: "apply_supersession X e z = (p, z')" using count_supersession_run by blast
    show "allowed_effect X ?P q z'"
    proof (rule allowed_supersession [OF X z _ _ p])
      show "?P (IEdge e)" using e derived_graphD(2) [OF g] by simp
      fix t
      assume "node_view X z (e_to e) = Some t"
      with allowed_origin(1) [OF z] have "node_view X q (e_to e) = Some t \<or> own_node I t" by fastforce
      with own e have "own_node I t" by auto
      then show "?P (INode (supersede_target e t))" by (simp add: own_node_def supersede_target_def)
    qed
  qed
  with sq show ?thesis by (rule allowed_trans)
qed

lemma derived_graph_append:
  assumes "derived_graph X I R g" "derived_graph X I R h"
  shows "derived_graph X I R \<lparr>gr_shas = Map.empty, gr_refs = Map.empty, gr_nodes = gr_nodes g @ gr_nodes h, gr_edges = gr_edges g @ gr_edges h\<rparr>"
  using assms by (auto simp: derived_graph_def)

lemma derive_confined:
  assumes X: "externals_ok X" and emb: "finite_vectors (ig_embedder I)" and recs: "set recs \<subseteq> R"
  shows "confines X (ingest_policy X I R) (derive X E I now root recs)"
  unfolding confines_def
proof (intro allI impI, elim conjE)
  fix s r s'
  assume ok: "store_ok X s" and run: "derive X E I now root recs s = (r, s')"
  note reuse = store_reuse_finite [OF ok, of I]
  let ?P = "ingest_policy X I R"
  show "allowed_effect X ?P s s'"
  proof (cases "build_graph_gated_reuse X (ig_repo_name I) recs now (ig_embedder I) (ig_authors I) (store_reuse X I s)")
    case (Inl m)
    with run allowed_refl [OF ok] show ?thesis by (auto simp: derive_def bind_simps)
  next
    case (Inr ne)
    obtain ns es where ne: "ne = (ns, es)" by (cases ne)
    show ?thesis
    proof (cases "build_doc_graph X (ie_git E) (ie_fs E) (ig_repo_name I) root now (ig_embedder I) (store_reuse X I s)")
      case Inl2: (Inl m)
      with run Inr ne allowed_refl [OF ok] show ?thesis by (auto simp: derive_def bind_simps)
    next
      case Inr2: (Inr d)
      obtain dn de k where d: "d = (dn, de, k)" by (cases d)
      obtain g where g: "derived_graph X I R g" "ns = gr_nodes g" "es = gr_edges g"
        using build_graph_ok [OF recs emb reuse] Inr ne by blast
      obtain h where h: "derived_graph X I R h" "dn = gr_nodes h" "de = gr_edges h"
        using build_doc_graph_ok [OF emb reuse] Inr2 d by blast
      define u where "u = \<lparr>gr_shas = Map.empty, gr_refs = Map.empty, gr_nodes = ns @ dn, gr_edges = es @ de\<rparr>"
      have u: "derived_graph X I R u" using derived_graph_append [OF g(1) h(1)] g h by (simp add: u_def)
      obtain c q where c: "commit X (gr_nodes u) (filter (\<lambda>e. \<not> load_bearing e) (gr_edges u)) s = (c, q)"
        by (cases "commit X (gr_nodes u) (filter (\<lambda>e. \<not> load_bearing e) (gr_edges u)) s")
      have sq: "allowed_effect X ?P s q"
        by (rule allowed_commit [OF X allowed_refl [OF ok] _ _ c]) (use derived_graphD(1,2) [OF u] in auto)
      obtain a z where a: "apply_supersessions X (filter load_bearing (gr_edges u)) q = (a, z)"
        by (cases "apply_supersessions X (filter load_bearing (gr_edges u)) q")
      have "s' = (case c of Inl _ \<Rightarrow> q | Inr _ \<Rightarrow> z)"
        using run Inr ne Inr2 d c a
        by (auto simp: derive_def bind_simps u_def sbind_def smap_err_def map_err_def sok_def split: sum.splits prod.splits)
      then show ?thesis using sq write_graph_confined [OF X ok u _ a] c by (cases c) auto
    qed
  qed
qed

text \<open>The commits a pass over a directory can read.\<close>

definition history :: "git_env \<Rightarrow> string \<Rightarrow> commit_record set" where
  "history G path = {c. \<exists>root since recs. repo_root G path = Inr root \<and> read_commits_range G root since = Inr recs \<and> c \<in> set recs}"

lemma history_range: "repo_root G path = Inr root \<Longrightarrow> read_commits_range G root since = Inr recs \<Longrightarrow> set recs \<subseteq> history G path"
  by (auto simp: history_def)

lemma ingest_confined:
  assumes "externals_ok X" "finite_vectors (ig_embedder I)"
  shows "confines X (ingest_policy X I (history (ie_git E) path)) (ingest X E I now path)"
  unfolding ingest_def Let_def read_commits_def
  by (intro confines_slift confines_sbind derive_confined [OF assms] history_range stamp_confined [OF assms(1)] report_confined
      | simp split: prod.split | intro conjI allI impI)+

lemma ingest_since_confined:
  assumes "externals_ok X" "finite_vectors (ig_embedder I)" "repo_root (ie_git E) path = Inr root"
  shows "confines X (ingest_policy X I (history (ie_git E) path)) (ingest_since X E I now root since)"
  unfolding ingest_since_def Let_def
  by (intro confines_slift confines_sbind derive_confined [OF assms(1,2)] history_range [OF assms(3)] stamp_confined [OF assms(1)] report_confined
      | simp split: prod.split | intro conjI allI impI)+

lemma ingest_incremental_confined:
  assumes "externals_ok X" "finite_vectors (ig_embedder I)"
  shows "confines X (ingest_policy X I (history (ie_git E) path)) (ingest_incremental X E I now path)"
proof -
  let ?P = "ingest_policy X I (history (ie_git E) path)"
  have since: "confines X ?P (case Option.bind p wm_head of None \<Rightarrow> sok None
      | Some head \<Rightarrow> sbind (slift (is_ancestor (ie_git E) root head)) (\<lambda>anc. sok (if anc then Some head else None)))" for p root
    by (cases "Option.bind p wm_head") (auto intro: confines_slift)
  show ?thesis
    unfolding ingest_incremental_def
    by (intro confines_slift confines_sbind confines_pure since)
      (simp split: option.split add: ingest_confined [OF assms] ingest_since_confined [OF assms])
qed

lemma ingest_branch_confined:
  assumes "externals_ok X" "finite_vectors (ig_embedder I)"
  shows "confines X (ingest_policy X I R) (ingest_branch X E I now root dref br rep)"
proof -
  let ?P = "ingest_policy X I R"
  have build: "confines X ?P (sbind (\<lambda>s. slift (build_branch_graph X (ig_repo_name I) name tip recs now (ig_embedder I) (store_reuse X I s)) s)
      (\<lambda>(nodes, edges). sbind (smap_err IngestStore (commit X nodes edges)) f))"
    if f: "\<And>x. confines X ?P (f x)" for name tip recs f
    unfolding confines_def
  proof (intro allI impI, elim conjE)
    fix s r s'
    assume ok: "store_ok X s" and run: "sbind (\<lambda>s. slift (build_branch_graph X (ig_repo_name I) name tip recs now (ig_embedder I) (store_reuse X I s)) s)
      (\<lambda>(nodes, edges). sbind (smap_err IngestStore (commit X nodes edges)) f) s = (r, s')"
    show "allowed_effect X ?P s s'"
    proof (cases "build_branch_graph X (ig_repo_name I) name tip recs now (ig_embedder I) (store_reuse X I s)")
      case (Inl m)
      with run allowed_refl [OF ok] show ?thesis by (auto simp: sbind_def slift_def)
    next
      case (Inr ne)
      obtain ns es where ne: "ne = (ns, es)" by (cases ne)
      obtain g where g: "derived_graph X I R g" "ns = gr_nodes g" "es = gr_edges g"
        using build_branch_graph_ok [OF assms(2) store_reuse_finite [OF ok]] Inr ne by blast
      have "confines X ?P (commit X ns es)"
        unfolding confines_def using g derived_graphD(1,2) [OF g(1)]
        by (auto intro!: allowed_commit [OF assms(1) allowed_refl])
      then have "confines X ?P (sbind (smap_err IngestStore (commit X ns es)) f)" by (intro confines_sbind confines_err f)
      moreover have "sbind (smap_err IngestStore (commit X ns es)) f s = (r, s')"
        using run Inr ne by (simp add: sbind_def slift_def)
      ultimately show ?thesis using ok by (auto simp: confines_def)
    qed
  qed
  have unchanged: "confines X ?P (branch_unchanged X E key tip)" for key tip
    unfolding branch_unchanged_def by (intro confines_sbind confines_err confines_pure)
  show ?thesis
    unfolding ingest_branch_def Let_def
    by (intro confines_sbind [OF unchanged] confines_if confines_pure confines_slift build
        confines_sbind [OF stamp_confined [OF assms(1)]])
qed

lemma ingest_branches_confined:
  assumes "externals_ok X" "finite_vectors (ig_embedder I)"
  shows "confines X (ingest_policy X I R) (ingest_branches X E I now path)"
  unfolding ingest_branches_def by (intro confines_slift confines_sfold ingest_branch_confined [OF assms])

lemma authority_kinds: "is_authority_bearing k \<longleftrightarrow> k = Supersedes \<or> k = Refutes"
  by (cases k) simp_all

lemma fold_items_kept: "m k \<noteq> None \<Longrightarrow> fold (node_upd X) its m k \<noteq> None"
proof (induction its arbitrary: m)
  case (Cons it its)
  have "node_upd X it m k \<noteq> None" using Cons.prems by (cases it) auto
  then show ?case using Cons.IH by simp
qed simp

lemma allowed_keeps_nodes:
  "allowed_effect X P s s' \<Longrightarrow> \<forall>nid n. node_view X s nid = Some n \<longrightarrow> node_view X s' nid \<noteq> None"
  using fold_items_kept [of "node_view X s"] by (auto simp: allowed_effect_def effect_def)

text \<open>C19. Ingestion keeps to its repository and to the authority of the authors. Whatever a repository
  contains, after a full pass, an incremental pass or a pass over the branches, failed ones too,
  every node that reads differently is a Derived node of the ingested repository, and every edge
  that reads differently is a Derived one; it supersedes or refutes something only if it is
  quarantined, or a commit of an authoritative author carries the trailer for exactly this edge.
  Documents and unmerged branches never retract anything.\<close>

theorem ingestion_is_confined:
  assumes "externals_ok X" "store_ok X s" "finite_vectors (ig_embedder I)"
    and "(\<exists>r. ingest X E I now path s = (r, s')) \<or> (\<exists>r. ingest_incremental X E I now path s = (r, s')) \<or>
      (\<exists>r. ingest_branches X E I now path s = (r, s'))"
  shows "store_ok X s' \<and>
    (\<forall>nid n. node_view X s' nid = Some n \<longrightarrow>
       node_view X s nid = Some n \<or> n_repo n = ig_repo_name I \<and> n_plane n = Derived) \<and>
    (\<forall>nid n. node_view X s nid = Some n \<longrightarrow> node_view X s' nid \<noteq> None) \<and>
    (\<forall>k e. edge_view X s' k = Some e \<longrightarrow> edge_view X s k = Some e \<or> e_plane e = Derived \<and>
      (e_kind e \<in> {Supersedes, Refutes} \<and> \<not> e_quarantined e \<longrightarrow>
        (\<exists>c \<in> history (ie_git E) path. cr_author c \<in> ig_authors I \<and> e_from e = node_id X (commit_base (ig_repo_name I) c 0) \<and>
          (\<exists>t \<in> set (parse_trailers (cr_body c)). map_trailer (tr_key t) = Some (e_kind e) \<and>
             e_to e = node_id X (ref_node (ig_repo_name I) (tr_value t) 0)))))"
proof -
  note c = ingest_confined [OF assms(1,3), of E path now] ingest_incremental_confined [OF assms(1,3), of E path now]
    ingest_branches_confined [OF assms(1,3), of "history (ie_git E) path" E now path]
  have a: "allowed_effect X (ingest_policy X I (history (ie_git E) path)) s s'"
    using assms(4) c assms(2) by (auto simp: confines_def)
  have nodes: "\<forall>nid n. node_view X s' nid = Some n \<longrightarrow> node_view X s nid = Some n \<or> n_repo n = ig_repo_name I \<and> n_plane n = Derived"
    using allowed_origin(1) [OF a] by (fastforce simp: own_node_def)
  have edges: "edge_view X s k = Some e \<or> edge_policy X I (history (ie_git E) path) e" if "edge_view X s' k = Some e" for k e
    using allowed_origin(2) [OF a that] by simp
  show ?thesis
    by (intro conjI allowed_ok [OF a] nodes allowed_keeps_nodes [OF a] allI impI)
      (use edges authority_kinds in \<open>simp add: edge_policy_def vouched_def; blast\<close>)
qed

section \<open>Identity\<close>

text \<open>An edge without the time it was written.\<close>

definition timeless :: "edge \<Rightarrow> edge" where
  "timeless e = e\<lparr>e_provenance := (e_provenance e)\<lparr>p_at := 0\<rparr>\<rparr>"

definition same_graph :: "externals \<Rightarrow> graph \<Rightarrow> graph \<Rightarrow> bool" where
  "same_graph X g h \<longleftrightarrow> gr_shas g = gr_shas h \<and> gr_refs g = gr_refs h \<and>
     map (node_id X) (gr_nodes g) = map (node_id X) (gr_nodes h) \<and> map timeless (gr_edges g) = map timeless (gr_edges h)"

lemma rfold_related:
  assumes "\<And>x a b a' b'. rel a a' \<Longrightarrow> f x a = Inr b \<Longrightarrow> g x a' = Inr b' \<Longrightarrow> rel b b'"
    and "rel a a'" "rfold f xs a = Inr b" "rfold g xs a' = Inr b'"
  shows "rel b b'"
  using assms(2-)
proof (induction xs arbitrary: a a')
  case (Cons x xs)
  from Cons.prems obtain c c' where "f x a = Inr c" "rfold f xs c = Inr b" "g x a' = Inr c'" "rfold g xs c' = Inr b'"
    by (auto simp: rbind_def split: sum.splits)
  with Cons.IH [of c c'] assms(1) [OF Cons.prems(1)] show ?case by blast
qed simp

lemma timeless_make:
  "timeless (make_edge a b k m now ev) = make_edge a b k m 0 ev"
  "timeless (make_trailer_edge a b k now ev w A) = make_trailer_edge a b k 0 ev w A"
  by (simp_all add: timeless_def make_edge_def make_trailer_edge_def)

lemma timeless_parents: "map timeless (parent_edges shas nid now ps) = parent_edges shas nid 0 ps"
proof -
  have "map timeless (List.map_filter (\<lambda>(i, p). map_option (\<lambda>pid. make_edge nid pid (k i) Ingest now (Some p)) (shas p)) xs) =
      List.map_filter (\<lambda>(i, p). map_option (\<lambda>pid. make_edge nid pid (k i) Ingest 0 (Some p)) (shas p)) xs" for xs :: "(nat \<times> string) list" and k
    by (induction xs) (auto simp: map_filter_simps timeless_make split: option.splits)
  then show ?thesis by (simp add: parent_edges_def)
qed

lemma same_add_commit:
  assumes "same_graph X g h" "node_id X n = node_id X m"
  shows "same_graph X (add_commit X now c n g) (add_commit X now' c m h)"
  using assms by (simp add: same_graph_def add_commit_def Let_def timeless_parents)

lemma same_directive:
  assumes "same_graph X g h"
  shows "same_graph X (add_directive X kind_of repo now author A nid t g) (add_directive X kind_of repo now' author A nid t h)"
proof (cases "kind_of (tr_key t)")
  case None
  with assms show ?thesis by (simp add: add_directive_def)
next
  case (Some ek)
  show ?thesis
  proof (cases "gr_refs g (tr_value t)")
    case None
    then show ?thesis using assms Some ref_node_id [of X repo "tr_value t" now] ref_node_id [of X repo "tr_value t" now']
      by (simp add: same_graph_def add_directive_def intern_ref_def Let_def timeless_make)
  next
    case r: (Some rid)
    then show ?thesis using assms Some
      by (simp add: same_graph_def add_directive_def intern_ref_def timeless_make)
  qed
qed

lemma same_directives:
  "same_graph X g h \<Longrightarrow> same_graph X (fold (add_directive X kind_of repo now author A nid) ts g)
     (fold (add_directive X kind_of repo now' author A nid) ts h)"
  by (induction ts arbitrary: g h) (simp_all add: same_directive)

lemma embed_id: "embed_or_reuse X n txt emb reuse = Inr m \<Longrightarrow> node_id X m = node_id X n"
  by (drule embed_keeps) (auto simp: compute_id_updates)

lemma commit_id: "ingest_commit_node X repo c now emb reuse = Inr n \<Longrightarrow> node_id X n = node_id X (commit_base repo c 0)"
  unfolding ingest_commit_node_def using embed_id commit_base_id by metis

lemma doc_base_id: "node_id X (doc_base repo rel title blob fm kind now) = node_id X (doc_base repo rel title blob fm kind 0)"
proof -
  let ?b = "doc_base repo rel title blob fm kind 0"
  have "doc_base repo rel title blob fm kind now =
      ?b\<lparr>n_valid_from := n_valid_from (doc_base repo rel title blob fm kind now), n_observed_at := now\<rparr>" by (simp add: doc_base_def)
  then show ?thesis using compute_id_updates by metis
qed

lemma doc_id:
  "doc_node X repo rel title blob fm kind body now emb reuse = Inr n \<Longrightarrow> node_id X n = node_id X (doc_base repo rel title blob fm kind 0)"
  unfolding doc_node_def using embed_id doc_base_id by metis

lemma branch_id: "node_id X (branch_node repo name tip now) = node_id X (branch_node repo name tip 0)"
proof -
  have "branch_node repo name tip now = (branch_node repo name tip 0)\<lparr>n_valid_from := now, n_observed_at := now\<rparr>" by (simp add: branch_node_def)
  then show ?thesis by (simp add: compute_id_updates)
qed

lemma same_history:
  assumes "build_graph_gated_reuse X repo recs now emb A reuse = Inr (ns, es)"
    and "build_graph_gated_reuse X repo recs now' emb' A reuse' = Inr (ns', es')"
  shows "map (node_id X) ns = map (node_id X) ns'" "map timeless es = map timeless es'"
proof -
  from assms obtain g h where gh: "rfold (graph_commit X repo now emb A reuse) recs empty_graph = Inr g" "ns = gr_nodes g" "es = gr_edges g"
      "rfold (graph_commit X repo now' emb' A reuse') recs empty_graph = Inr h" "ns' = gr_nodes h" "es' = gr_edges h"
    by (auto simp: build_graph_gated_reuse_def rbind_def split: sum.splits)
  have "same_graph X g h"
  proof (rule rfold_related [where rel = "same_graph X", OF _ _ gh(1) gh(4)])
    fix c a b a' b'
    assume rel: "same_graph X a a'" and run: "graph_commit X repo now emb A reuse c a = Inr b" "graph_commit X repo now' emb' A reuse' c a' = Inr b'"
    then obtain n m where "ingest_commit_node X repo c now emb reuse = Inr n" "ingest_commit_node X repo c now' emb' reuse' = Inr m"
        "b = fold (add_directive X map_trailer repo now (cr_author c) A (node_id X n)) (parse_trailers (cr_body c)) (add_commit X now c n a)"
        "b' = fold (add_directive X map_trailer repo now' (cr_author c) A (node_id X m)) (parse_trailers (cr_body c)) (add_commit X now' c m a')"
      by (auto simp: graph_commit_def rbind_def split: sum.splits)
    moreover from this(1,2) have "node_id X n = node_id X m" by (simp add: commit_id)
    ultimately show "same_graph X b b'" using same_directives [OF same_add_commit [OF rel]] by simp
  qed (simp add: same_graph_def)
  then show "map (node_id X) ns = map (node_id X) ns'" "map timeless es = map timeless es'" using gh by (simp_all add: same_graph_def)
qed

lemma same_docs:
  assumes "build_doc_graph X G F repo root now emb reuse = Inr (ns, es, k)" "build_doc_graph X G F repo root now' emb' reuse' = Inr (ns', es', k')"
  shows "map (node_id X) ns = map (node_id X) ns'" "map timeless es = map timeless es'"
proof -
  from assms(1) obtain paths blobs where ls: "list_md_files G root = Inr paths" "list_md_blobs G root = Inr blobs"
    by (auto simp: build_doc_graph_def rbind_def split: sum.splits)
  with assms obtain g h where gh: "rfold (graph_doc X F repo root now emb reuse blobs) paths (empty_graph, 0) = Inr (g, k)" "ns = gr_nodes g" "es = gr_edges g"
      "rfold (graph_doc X F repo root now' emb' reuse' blobs) paths (empty_graph, 0) = Inr (h, k')" "ns' = gr_nodes h" "es' = gr_edges h"
    by (auto simp: build_doc_graph_def rbind_def split: sum.splits)
  have "same_graph X (fst (g, k)) (fst (h, k'))"
  proof (rule rfold_related [where rel = "\<lambda>p q. same_graph X (fst p) (fst q)", OF _ _ gh(1) gh(4)])
    fix rel a b a' b'
    assume R: "same_graph X (fst a) (fst a')" and run: "graph_doc X F repo root now emb reuse blobs rel a = Inr b"
      "graph_doc X F repo root now' emb' reuse' blobs rel a' = Inr b'"
    obtain u i u' i' where ui: "a = (u, i)" "a' = (u', i')" by (cases a; cases a')
    show "same_graph X (fst b) (fst b')"
    proof (cases "read_tracked_doc F root rel")
      case None
      with run R ui show ?thesis by (simp add: graph_doc_def)
    next
      case (Some d)
      obtain fm body where fm: "parse_frontmatter (lossy d) = (fm, body)" by (cases "parse_frontmatter (lossy d)")
      let ?author = "case fm ''author'' of Some a \<Rightarrow> a | None \<Rightarrow> ''ingest''" and ?blob = "case blobs rel of Some h \<Rightarrow> h | None \<Rightarrow> []"
      from run Some ui fm obtain n m where nm:
          "doc_node X repo rel (doc_title rel fm body) ?blob fm (classify rel fm body) body now emb reuse = Inr n"
          "doc_node X repo rel (doc_title rel fm body) ?blob fm (classify rel fm body) body now' emb' reuse' = Inr m"
          "fst b = fold (add_directive X map_block_directive repo now ?author {} (node_id X n)) (parse_agentile_blocks (lossy d)) (u\<lparr>gr_nodes := gr_nodes u @ [n]\<rparr>)"
          "fst b' = fold (add_directive X map_block_directive repo now' ?author {} (node_id X m)) (parse_agentile_blocks (lossy d)) (u'\<lparr>gr_nodes := gr_nodes u' @ [m]\<rparr>)"
        by (auto simp: graph_doc_def Let_def rbind_def split: sum.splits)
      have id: "node_id X n = node_id X m" using doc_id [OF nm(1)] doc_id [OF nm(2)] by simp
      moreover have "same_graph X (u\<lparr>gr_nodes := gr_nodes u @ [n]\<rparr>) (u'\<lparr>gr_nodes := gr_nodes u' @ [m]\<rparr>)"
        using R ui id by (simp add: same_graph_def)
      ultimately show ?thesis unfolding nm(3,4) using same_directives by simp
    qed
  qed (simp add: same_graph_def)
  then show "map (node_id X) ns = map (node_id X) ns'" "map timeless es = map timeless es'" using gh by (simp_all add: same_graph_def)
qed

lemma same_branch:
  assumes "build_branch_graph X repo name tip recs now emb reuse = Inr (ns, es)"
    and "build_branch_graph X repo name tip recs now' emb' reuse' = Inr (ns', es')"
  shows "map (node_id X) ns = map (node_id X) ns'" "map timeless es = map timeless es'"
proof -
  let ?b = "\<lambda>t. branch_node repo name tip t"
  from assms obtain g h where
      gh: "rfold (branch_commit X repo now emb reuse name (node_id X (?b now))) recs (empty_graph\<lparr>gr_nodes := [?b now]\<rparr>) = Inr g" "ns = gr_nodes g" "es = gr_edges g"
      "rfold (branch_commit X repo now' emb' reuse' name (node_id X (?b now'))) recs (empty_graph\<lparr>gr_nodes := [?b now']\<rparr>) = Inr h" "ns' = gr_nodes h" "es' = gr_edges h"
    by (auto simp: build_branch_graph_def Let_def rbind_def split: sum.splits)
  have bid: "node_id X (?b now) = node_id X (?b now')" using branch_id [of X repo name tip now] branch_id [of X repo name tip now'] by simp
  have "same_graph X g h"
  proof (rule rfold_related [where rel = "same_graph X", OF _ _ gh(1) gh(4)])
    fix c a b a' b'
    assume rel: "same_graph X a a'" and run: "branch_commit X repo now emb reuse name (node_id X (?b now)) c a = Inr b"
      "branch_commit X repo now' emb' reuse' name (node_id X (?b now')) c a' = Inr b'"
    then obtain n m where nm: "ingest_commit_node X repo c now emb reuse = Inr n" "ingest_commit_node X repo c now' emb' reuse' = Inr m"
        "b = (add_commit X now c n a)\<lparr>gr_edges := gr_edges (add_commit X now c n a) @ [make_edge (node_id X (?b now)) (node_id X n) BranchContains Ingest now (Some name)]\<rparr>"
        "b' = (add_commit X now' c m a')\<lparr>gr_edges := gr_edges (add_commit X now' c m a') @ [make_edge (node_id X (?b now')) (node_id X m) BranchContains Ingest now' (Some name)]\<rparr>"
      by (auto simp: branch_commit_def Let_def rbind_def split: sum.splits)
    then have "node_id X n = node_id X m" by (simp add: commit_id)
    with same_add_commit [OF rel this, of now c now'] bid show "same_graph X b b'"
      unfolding nm(3,4) by (simp add: same_graph_def timeless_make)
  qed (simp add: same_graph_def bid)
  then show "map (node_id X) ns = map (node_id X) ns'" "map timeless es = map timeless es'" using gh by (simp_all add: same_graph_def)
qed


section \<open>Reaping branches\<close>

text \<open>A stored branch marker that the remote no longer backs.\<close>

definition finished :: "ingest_env \<Rightarrow> ingestor \<Rightarrow> string \<Rightarrow> (string \<rightharpoonup> string) \<Rightarrow> memory_node \<Rightarrow> bool" where
  "finished E I root live n \<longleftrightarrow> n_kind n = Branch \<and> n_repo n = ig_repo_name I \<and> n_status n = Active \<and>
     (\<exists>name tip. rsplit_once_char CHR ''@'' (lossy (n_content n)) = Some (name, tip) \<and>
        (live name = None \<or> (\<exists>t. live name = Some t \<and> t \<noteq> tip) \<or> is_ancestor (ie_git E) root tip = Inr True))"

fun reap_policy :: "externals \<Rightarrow> ingest_env \<Rightarrow> ingestor \<Rightarrow> u64 \<Rightarrow> string \<Rightarrow> (string \<rightharpoonup> string) \<Rightarrow> dag_store \<Rightarrow> item \<Rightarrow> bool" where
  "reap_policy X E I now root live s (INode n) \<longleftrightarrow>
     (\<exists>old. node_view X s (node_id X n) = Some old \<and> finished E I root live old \<and> n = with_status Archived (Some now) old)"
| "reap_policy X E I now root live s (IEdge e) \<longleftrightarrow> False"

lemma reap_verdict_finished:
  "reap_verdict G root live name tip = Some why \<Longrightarrow>
     live name = None \<or> (\<exists>t. live name = Some t \<and> t \<noteq> tip) \<or> is_ancestor G root tip = Inr True"
  by (auto simp: reap_verdict_def split: option.splits if_splits)

lemma reap_node_step:
  assumes X: "externals_ok X" and old: "node_view X s (node_id X node) = Some node"
    and z: "allowed_effect X (reap_policy X E I now root live s) s z"
    and run: "reap_node X E I now root live node rep z = (r, z')"
  shows "allowed_effect X (reap_policy X E I now root live s) s z'"
proof -
  let ?P = "reap_policy X E I now root live s"
  consider "z' = z" | name tip why q where "n_kind node = Branch" "n_repo node = ig_repo_name I" "n_status node = Active"
      "rsplit_once_char CHR ''@'' (lossy (n_content node)) = Some (name, tip)"
      "reap_verdict (ie_git E) root live name tip = Some why"
      "set_node_status X (node_id X node) Archived (Some now) z = (q, z')"
    using run by (auto simp: reap_node_def sok_def sbind_def smap_err_def split: if_splits option.splits prod.splits sum.splits)
  then show ?thesis
  proof cases
    case 1
    with z show ?thesis by simp
  next
    case 2
    then have fin: "finished E I root live node" using reap_verdict_finished [OF 2(5)] by (auto simp: finished_def)
    from set_node_status_effect [OF X allowed_ok [OF z] 2(6)]
    consider "effect X z z' []" | "z' = z" | n where "node_view X z (node_id X node) = Some n" "n_status n \<noteq> Archived"
        "effect X z z' [INode (with_status Archived (Some now) n)]" by blast
    then show ?thesis
    proof cases
      case (3 n)
      have "n = node"
        using allowed_origin(1) [OF z 3(1)] old 3(2) by (auto simp: with_status_def Let_def)
      then have "?P (INode (with_status Archived (Some now) n))" using old fin by simp
      then show ?thesis using allowed_step [OF z 3(3)] by simp
    qed (use allowed_step [OF z, of z' "[]"] z in auto)
  qed
qed


section \<open>What a pass achieves\<close>

text \<open>The JSON of a watermark reads back and is not taken for a sealed row.\<close>

definition watermark_codec :: "externals \<Rightarrow> ingest_env \<Rightarrow> bool" where
  "watermark_codec X E \<longleftrightarrow> (\<forall>w b. ie_watermark_json E w = Inr b \<longrightarrow>
     watermark_from_json (ie_query E) b = Inr w \<and> parse_envelope X b = None)"

definition grows :: "externals \<Rightarrow> dag_store \<Rightarrow> dag_store \<Rightarrow> bool" where
  "grows X s s' \<longleftrightarrow> store_ok X s' \<and> (\<forall>nid. node_view X s nid \<noteq> None \<longrightarrow> node_view X s' nid \<noteq> None)"

lemma effect_grows: "effect X s s' its \<Longrightarrow> grows X s s'"
  unfolding grows_def effect_def using fold_items_kept [of "node_view X s"] by auto

lemma grows_trans: "grows X s q \<Longrightarrow> grows X q s' \<Longrightarrow> grows X s s'"
  by (auto simp: grows_def)

lemma apply_supersessions_grows:
  assumes "externals_ok X" "store_ok X q" "apply_supersessions X es q = (r, s')"
  shows "grows X q s'"
proof (rule sfold_invariant [where I = "grows X q", OF _ _ assms(3) [unfolded apply_supersessions_def]])
  show "grows X q q" using assms(2) by (simp add: grows_def)
  fix e a z b z'
  assume z: "grows X q z" and "count_supersession X e a z = (b, z')"
  then obtain p where p: "apply_supersession X e z = (p, z')" using count_supersession_run by blast
  have "store_ok X z" using z by (simp add: grows_def)
  then obtain its where "effect X z z' its" using apply_supersession_some_effect [OF assms(1) _ p] by blast
  then show "grows X q z'" by (rule grows_trans [OF z effect_grows])
qed

lemma build_graph_commits:
  assumes "build_graph_gated_reuse X repo recs now emb A reuse = Inr (ns, es)" "c \<in> set recs"
  shows "node_id X (commit_base repo c 0) \<in> node_id X ` set ns"
proof -
  have directive: "set (gr_nodes g) \<subseteq> set (gr_nodes (add_directive X k repo now a A nid t g))" for k a nid t g
    by (auto simp: add_directive_def intern_ref_def Let_def split: option.splits)
  have directives: "set (gr_nodes g) \<subseteq> set (gr_nodes (fold (add_directive X k repo now a A nid) ts g))" for k a nid ts g
  proof (induction ts arbitrary: g)
    case (Cons t ts)
    then show ?case using directive [of g k a nid t] by fastforce
  qed simp
  have step: "set (gr_nodes g) \<subseteq> set (gr_nodes h) \<and> node_id X (commit_base repo c 0) \<in> node_id X ` set (gr_nodes h)"
    if "graph_commit X repo now emb A reuse c g = Inr h" for c g h
  proof -
    from that obtain n where n: "ingest_commit_node X repo c now emb reuse = Inr n"
        "h = fold (add_directive X map_trailer repo now (cr_author c) A (node_id X n)) (parse_trailers (cr_body c)) (add_commit X now c n g)"
      by (auto simp: graph_commit_def rbind_def split: sum.splits)
    have "insert n (set (gr_nodes g)) \<subseteq> set (gr_nodes h)"
      using directives [of "add_commit X now c n g"] unfolding n(2) by (simp add: add_commit_def Let_def)
    then show ?thesis using commit_id [OF n(1)] by (metis image_eqI insert_subset)
  qed
  have "c \<in> set recs \<Longrightarrow> rfold (graph_commit X repo now emb A reuse) recs g = Inr h \<Longrightarrow>
      node_id X (commit_base repo c 0) \<in> node_id X ` set (gr_nodes h)" for g h
  proof (induction recs arbitrary: g)
    case (Cons d recs)
    from Cons.prems(2) obtain u where u: "graph_commit X repo now emb A reuse d g = Inr u" "rfold (graph_commit X repo now emb A reuse) recs u = Inr h"
      by (auto simp: rbind_def split: sum.splits)
    have "set (gr_nodes u) \<subseteq> set (gr_nodes h)"
      by (rule rfold_invariant [where I = "\<lambda>v. set (gr_nodes u) \<subseteq> set (gr_nodes v)", OF _ _ u(2)]) (use step in blast)+
    then show ?case using Cons step [OF u(1)] u(2) by auto
  qed simp
  with assms show ?thesis by (auto simp: build_graph_gated_reuse_def rbind_def split: sum.splits)
qed

lemma derive_run:
  assumes X: "externals_ok X" and ok: "store_ok X s" and emb: "finite_vectors (ig_embedder I)"
    and run: "derive X E I now root recs s = (Inr out, s')"
  obtains ns es dn de k q where
    "build_graph_gated_reuse X (ig_repo_name I) recs now (ig_embedder I) (ig_authors I) (store_reuse X I s) = Inr (ns, es)"
    "build_doc_graph X (ie_git E) (ie_fs E) (ig_repo_name I) root now (ig_embedder I) (store_reuse X I s) = Inr (dn, de, k)"
    "effect X s q (commit_items X s (ns @ dn) (filter (\<lambda>e. \<not> load_bearing e) (es @ de)))"
    "apply_supersessions X (filter load_bearing (es @ de)) q = (Inr (snd out), s')" "fst out = k"
proof -
  note reuse = store_reuse_finite [OF ok, of I]
  from run obtain ns es dn de k q p where d:
      "build_graph_gated_reuse X (ig_repo_name I) recs now (ig_embedder I) (ig_authors I) (store_reuse X I s) = Inr (ns, es)"
      "build_doc_graph X (ie_git E) (ie_fs E) (ig_repo_name I) root now (ig_embedder I) (store_reuse X I s) = Inr (dn, de, k)"
      "commit X (ns @ dn) (filter (\<lambda>e. \<not> load_bearing e) (es @ de)) s = (Inr (), q)"
      "apply_supersessions X (filter load_bearing (es @ de)) q = (Inr p, s')" "out = (k, p)"
    by (auto simp: derive_def Let_def sbind_def slift_def smap_err_def map_err_def sok_def split: sum.splits prod.splits)
  obtain g h where gh: "derived_graph X I (set recs) g" "ns = gr_nodes g" "derived_graph X I (set recs) h" "dn = gr_nodes h"
    using build_graph_ok [OF subset_refl emb reuse d(1)] build_doc_graph_ok [OF emb reuse d(2), of "set recs"] by blast
  then have "\<forall>n \<in> set (ns @ dn). json_safe n" using derived_graphD(1) [OF gh(1)] derived_graphD(1) [OF gh(3)] by auto
  from commit_effect [OF X ok this d(3)] d that show thesis by auto
qed

text \<open>C22. A successful pass is complete and says how far it got: every commit of the history is stored
  under its id, the report counts them, and the watermark that reads back names the last commit as
  the head.\<close>

theorem ingest_is_complete:
  assumes "externals_ok X" "store_ok X s" "finite_vectors (ig_embedder I)" "watermark_codec X E"
    and "ingest X E I now path s = (Inr rep, s')"
  shows "\<exists>root recs. repo_root (ie_git E) path = Inr root \<and> read_commits (ie_git E) root = Inr recs \<and>
    (\<forall>c \<in> set recs. \<exists>n. node_view X s' (node_id X (commit_base (ig_repo_name I) c 0)) = Some n) \<and>
    ir_commits rep = length recs \<and> read_watermark X (ie_query E) (ig_repo_name I) s' = Inr (Some (ir_watermark rep)) \<and>
    ir_watermark rep = \<lparr>wm_repo = ig_repo_name I, wm_head = (if recs = [] then None else Some (cr_sha (last recs))),
      wm_head_count = length recs, wm_ingested_at_ms = now\<rparr>"
proof -
  let ?key = "watermark_key (ig_repo_name I)"
  from assms(5) obtain root recs out q w b where r: "repo_root (ie_git E) path = Inr root" "read_commits (ie_git E) root = Inr recs"
      "derive X E I now root recs s = (Inr out, q)"
      "w = \<lparr>wm_repo = ig_repo_name I, wm_head = (if recs = [] then None else Some (cr_sha (last recs))), wm_head_count = length recs, wm_ingested_at_ms = now\<rparr>"
      "ie_watermark_json E w = Inr b" "put_meta X (ig_repo_name I) ?key b q = (Inr (), s')"
      "ir_commits rep = length recs" "ir_watermark rep = w"
    by (auto simp: ingest_def Let_def stamp_def report_def sbind_def slift_def smap_err_def map_err_def sread_def sok_def
        split: sum.splits prod.splits if_splits)
  obtain ns es dn de k z where d: "build_graph_gated_reuse X (ig_repo_name I) recs now (ig_embedder I) (ig_authors I) (store_reuse X I s) = Inr (ns, es)"
      "effect X s z (commit_items X s (ns @ dn) (filter (\<lambda>e. \<not> load_bearing e) (es @ de)))"
      "apply_supersessions X (filter load_bearing (es @ de)) z = (Inr (snd out), q)"
    by (rule derive_run [OF assms(1-3) r(3)])
  have zq: "grows X z q" by (rule apply_supersessions_grows [OF assms(1) effect_ok [OF d(2)] d(3)])
  note meta = put_meta_effect [OF assms(1) _ r(6)]
  have okq: "store_ok X q" using zq by (simp add: grows_def)
  then have zs: "grows X z s'" using grows_trans [OF zq effect_grows] meta by blast
  have "\<exists>n. node_view X s' (node_id X (commit_base (ig_repo_name I) c 0)) = Some n" if c: "c \<in> set recs" for c
  proof -
    have "node_id X (commit_base (ig_repo_name I) c 0) \<in> node_id X ` set (ns @ dn)" using build_graph_commits [OF d(1) c] by auto
    from commit_reads_back [OF d(2) this] have "node_view X z (node_id X (commit_base (ig_repo_name I) c 0)) \<noteq> None" by auto
    then show ?thesis using zs by (auto simp: grows_def)
  qed
  moreover have "read_watermark X (ie_query E) (ig_repo_name I) s' = Inr (Some w)"
    using meta [OF okq] assms(4) r(5) by (simp add: read_watermark_def watermark_codec_def)
  ultimately show ?thesis using r by auto
qed

text \<open>The commit of a pass overwrites what is stored under the ids it derives again, lifecycle included: if
  nothing is superseded in this pass, every node it derives reads as derived, whatever was known of
  it. So a document or a reference that was superseded earlier is active again after an incremental
  pass that meets it again, while the edge that superseded it stays.\<close>

lemma pass_overwrites_lifecycle:
  assumes "externals_ok X" "store_ok X s" "finite_vectors (ig_embedder I)"
    and "build_graph_gated_reuse X (ig_repo_name I) recs now (ig_embedder I) (ig_authors I) (store_reuse X I s) = Inr (ns, es)"
    and "build_doc_graph X (ie_git E) (ie_fs E) (ig_repo_name I) root now (ig_embedder I) (store_reuse X I s) = Inr (dn, de, k)"
    and "filter load_bearing (es @ de) = []" "derive X E I now root recs s = (Inr out, s')"
    and "n \<in> set (ns @ dn)" "\<forall>m \<in> set (ns @ dn). node_id X m = node_id X n \<longrightarrow> n_status m = Active"
  shows "\<exists>m. node_view X s' (node_id X n) = Some m \<and> n_status m = Active"
proof -
  obtain ns' es' dn' de' k' z where d:
      "build_graph_gated_reuse X (ig_repo_name I) recs now (ig_embedder I) (ig_authors I) (store_reuse X I s) = Inr (ns', es')"
      "build_doc_graph X (ie_git E) (ie_fs E) (ig_repo_name I) root now (ig_embedder I) (store_reuse X I s) = Inr (dn', de', k')"
      "effect X s z (commit_items X s (ns' @ dn') (filter (\<lambda>e. \<not> load_bearing e) (es' @ de')))"
      "apply_supersessions X (filter load_bearing (es' @ de')) z = (Inr (snd out), s')"
    by (rule derive_run [OF assms(1-3,7)])
  then have z: "effect X s s' (commit_items X s (ns @ dn) (filter (\<lambda>e. \<not> load_bearing e) (es @ de)))"
    using assms(4-6) by (simp add: apply_supersessions_def sok_def)
  obtain m where m: "m \<in> set (ns @ dn)" "node_view X s' (node_id X n) = Some m"
    using commit_reads_back [OF z, of "node_id X n"] assms(8) by blast
  have "node_id X m = node_id X n" using node_view_id(1) [OF effect_ok [OF z] m(2)] .
  with m assms(9) show ?thesis by blast
qed

section \<open>A sample repository\<close>

text \<open>The repository of the sample commit, without documents, ingested for an authoritative author.\<close>

definition sample_embedder :: embed_impl where
  "sample_embedder = \<lparr>ei_model = ''m'', ei_dim = 0, ei_embed = (\<lambda>t. Inr \<lparr>vv_model = ''m'', vv_data = []\<rparr>)\<rparr>"

definition sample_ingestor :: ingestor where
  "sample_ingestor = with_authoritative_authors [''eve''] (with_embedder ''chain'' sample_embedder)"

definition sample_watermark :: watermark where
  "sample_watermark = \<lparr>wm_repo = ''chain'', wm_head = Some (cr_sha sample_commit), wm_head_count = 1, wm_ingested_at_ms = 9\<rparr>"

definition sample_ingest_env :: ingest_env where
  "sample_ingest_env = \<lparr>ie_git = sample_git,
     ie_fs = \<lparr>fs_meta = (\<lambda>p. None), fs_canonical = (\<lambda>p. None), fs_read = (\<lambda>p. None)\<rparr>,
     ie_query = \<lparr>watermark_from_json = (\<lambda>b. Inr sample_watermark), f32_inverse_succ = (\<lambda>n. 0)\<rparr>,
     ie_watermark_json = (\<lambda>w. if w = sample_watermark then Inr [9] else Inl ''no'')\<rparr>"

lemma sample_finite: "finite_vectors (ig_embedder sample_ingestor)"
  by (simp add: sample_ingestor_def with_authoritative_authors_def with_embedder_def sample_embedder_def finite_vectors_def)

lemma sample_codec: "watermark_codec ideal_externals sample_ingest_env"
  by (simp add: watermark_codec_def sample_ingest_env_def parse_envelope_def ideal_externals_def untag_def)

lemma sample_log: "read_commits_range sample_git root None = Inr [sample_commit]"
proof -
  have "utf8_valid (as_bytes (log_text [sample_commit]))" by code_simp
  then have "lossy (as_bytes (log_text [sample_commit])) = log_text [sample_commit]" by (simp add: lossy_def utf8_lossy_valid)
  moreover have "parse_commit_log sample_git (log_text [sample_commit]) = Inr [sample_commit]"
    using log_read [of "[sample_commit]" "[]" sample_git "[]"] sample_commit_ok by (simp add: parse_commit_log_def)
  ultimately show ?thesis by (simp add: read_commits_range_def git_stdout_def sample_git_def)
qed

lemma sample_root: "\<exists>root. repo_root sample_git path = Inr root"
  by (simp add: repo_root_def git_stdout_def sample_git_def)

lemma sample_history: "sample_commit \<in> history sample_git path"
proof -
  obtain root where "repo_root sample_git path = Inr root" using sample_root by blast
  then show ?thesis using sample_log [of root] by (auto simp: history_def intro!: exI [of _ root] exI [of _ None] exI [of _ "[sample_commit]"])
qed

lemma sample_graph:
  "build_graph_gated_reuse X repo [sample_commit] now sample_embedder A no_reuse =
     Inr ([(commit_base repo sample_commit now)\<lparr>n_embedding := Some \<lparr>vv_model = ''m'', vv_data = []\<rparr>\<rparr>], [])"
proof -
  have "parse_trailers (cr_body sample_commit) = []" by code_simp
  moreover have "cr_parents sample_commit = []" by (simp add: sample_commit_def)
  ultimately show ?thesis
    by (simp add: build_graph_gated_reuse_def graph_commit_def ingest_commit_node_def embed_or_reuse_def no_reuse_def
        sample_embedder_def add_commit_def empty_graph_def parent_edges_def Let_def map_filter_simps)
qed

lemma sample_docs: "\<exists>k. build_doc_graph X sample_git (ie_fs sample_ingest_env) repo root now emb reuse = Inr ([], [], k)"
proof -
  have skip: "rfold (graph_doc X (ie_fs sample_ingest_env) repo root now emb reuse blobs) ps (empty_graph, 0) = Inr (empty_graph, 0)" for ps blobs
    by (induction ps) (simp_all add: graph_doc_def read_tracked_doc_def sample_ingest_env_def)
  show ?thesis
    by (simp add: build_doc_graph_def list_md_files_def list_md_blobs_def git_stdout_def sample_git_def skip)
      (simp add: empty_graph_def)
qed

lemma empty_reuse: "store_reuse X I (new kv_new) = no_reuse"
proof
  fix nid
  have "node_view X (new kv_new) nid = None" by (simp add: node_view_def new_def)
  then show "store_reuse X I (new kv_new) nid = no_reuse nid" by (simp add: store_reuse_def get_node_eq no_reuse_def)
qed

lemma counts_total: "store_ok X s \<Longrightarrow> \<exists>n. node_count s = Inr n" "store_ok X s \<Longrightarrow> \<exists>n. edge_count s = Inr n"
  using store_okD(2) [of X s] by (auto simp: node_count_def edge_count_def kv_rd_def elim!: mem_kv.iterE)

lemma sample_ingest:
  obtains rep s' where "ingest ideal_externals sample_ingest_env sample_ingestor 9 ''/repo'' (new kv_new) = (Inr rep, s')"
proof -
  let ?X = ideal_externals
  have names: "ig_repo_name sample_ingestor = ''chain''" "ig_embedder sample_ingestor = sample_embedder" "ie_git sample_ingest_env = sample_git"
    by (simp_all add: sample_ingestor_def with_authoritative_authors_def with_embedder_def sample_ingest_env_def)
  obtain root where root: "repo_root sample_git ''/repo'' = Inr root" using sample_root by blast
  obtain k where docs: "build_doc_graph ?X sample_git (ie_fs sample_ingest_env) ''chain'' root 9 sample_embedder no_reuse = Inr ([], [], k)"
    using sample_docs by blast
  let ?n = "(commit_base ''chain'' sample_commit 9)\<lparr>n_embedding := Some \<lparr>vv_model = ''m'', vv_data = []\<rparr>\<rparr>"
  have "json_safe ?n" by (simp add: json_safe_def)
  then obtain q where q: "commit ?X [?n] [] (new kv_new) = (Inr (), q)"
    using commit_total [OF ideal_externals_ok ideal_externals_total new_store_ok, of "[]" "[?n]"] by auto
  have okq: "store_ok ?X q"
    using commit_effect [OF ideal_externals_ok new_store_ok _ q] \<open>json_safe ?n\<close> effect_ok by auto
  have derive: "derive ?X sample_ingest_env sample_ingestor 9 root [sample_commit] (new kv_new) = (Inr (k, 0, 0), q)"
    by (simp add: derive_def names empty_reuse sample_graph docs bind_simps smap_err_def sbind_def q apply_supersessions_def sok_def)
  obtain s' where meta: "put_meta ?X ''chain'' (watermark_key ''chain'') [9] q = (Inr (), s')"
    using put_meta_total [OF ideal_externals_ok ideal_externals_total okq] by blast
  have ok': "store_ok ?X s'" using put_meta_effect [OF ideal_externals_ok okq meta] effect_ok by blast
  obtain a b where ab: "node_count s' = Inr a" "edge_count s' = Inr b" using counts_total [OF ok'] by blast
  have w: "ie_watermark_json sample_ingest_env \<lparr>wm_repo = ''chain'', wm_head = Some (cr_sha sample_commit), wm_head_count = Suc 0, wm_ingested_at_ms = 9\<rparr> = Inr [9]"
    by (simp add: sample_ingest_env_def sample_watermark_def)
  have "\<exists>rep. ingest ?X sample_ingest_env sample_ingestor 9 ''/repo'' (new kv_new) = (Inr rep, s')"
    by (simp add: ingest_def names root read_commits_def sample_log bind_simps sbind_def derive Let_def stamp_def w slift_def
        smap_err_def meta report_def sread_def ab sok_def)
  then show thesis using that by blast
qed

text \<open>C19, the sample repository in an empty store.\<close>

theorem ingestion_is_confined_witness:
  "\<exists>r s'. ingest ideal_externals sample_ingest_env sample_ingestor 9 ''/repo'' (new kv_new) = (r, s') \<and> store_ok ideal_externals s' \<and>
     (\<forall>nid n. node_view ideal_externals s' nid = Some n \<longrightarrow> n_repo n = ''chain'' \<and> n_plane n = Derived)"
proof -
  obtain r s' where run: "ingest ideal_externals sample_ingest_env sample_ingestor 9 ''/repo'' (new kv_new) = (r, s')"
    by (cases "ingest ideal_externals sample_ingest_env sample_ingestor 9 ''/repo'' (new kv_new)")
  have e: "node_view ideal_externals (new kv_new) nid = None" for nid by (simp add: node_view_def new_def)
  have "ig_repo_name sample_ingestor = ''chain''" by (simp add: sample_ingestor_def with_authoritative_authors_def with_embedder_def)
  with ingestion_is_confined [OF ideal_externals_ok new_store_ok sample_finite, of sample_ingest_env 9 "''/repo''" s'] run e
  show ?thesis by auto
qed



text \<open>C22, the sample repository: its commit is stored and the watermark names it.\<close>

theorem ingest_is_complete_witness:
  "\<exists>rep s'. ingest ideal_externals sample_ingest_env sample_ingestor 9 ''/repo'' (new kv_new) = (Inr rep, s') \<and>
     (\<exists>n. node_view ideal_externals s' (node_id ideal_externals (commit_base ''chain'' sample_commit 0)) = Some n) \<and>
     wm_head (ir_watermark rep) = Some (cr_sha sample_commit)"
proof (rule sample_ingest)
  fix rep s'
  assume run: "ingest ideal_externals sample_ingest_env sample_ingestor 9 ''/repo'' (new kv_new) = (Inr rep, s')"
  have names: "ig_repo_name sample_ingestor = ''chain''" "ie_git sample_ingest_env = sample_git"
    by (simp_all add: sample_ingestor_def with_authoritative_authors_def with_embedder_def sample_ingest_env_def)
  from ingest_is_complete [OF ideal_externals_ok new_store_ok sample_finite sample_codec run] run sample_log names
  show ?thesis by (auto simp: read_commits_def)
qed

end
