(* ===== verification/Chain_Ingest.thy ===== *)
theory Chain_Ingest
  imports Ingest Transport Mcp
begin

text \<open>
  \<^verbatim>\<open>crates/mem-ingest/src/chain.rs\<close>: the catalogue of deployed contracts and the blocks of a chain as nodes and
  edges of the reserved tenant \<^verbatim>\<open>chain-state\<close>. The JSON texts, the file system, the RPC client and the embedder are
  parameters; a block source is what the trait \<^verbatim>\<open>BlockSource\<close> says it is, a function from heights to blocks. The
  walk over the blocks is a loop on a 64-bit height, so it may wrap around: it is a partial function.
\<close>

section \<open>Environment\<close>

record event_cursor =
  ec_chain_id :: u64
  ec_next_block :: u64

record chain_env =
  ce_json :: "string \<Rightarrow> (string, json) result"
  ce_read_to_string :: "string \<Rightarrow> (string, string) result"
  ce_watermark_json :: "watermark \<Rightarrow> (string, bytes) result"
  ce_cursor_to_json :: "event_cursor \<Rightarrow> (string, bytes) result"
  ce_cursor_from_json :: "bytes \<Rightarrow> (string, event_cursor) result"
  ce_rpc :: rpc_env

definition CHAIN_STATE_TENANT :: string where
  "CHAIN_STATE_TENANT = ''chain-state''"

definition CATALOG_GROUPS :: "string list" where
  "CATALOG_GROUPS = [''aaStack'', ''contracts'', ''genesis'', ''precompiles'']"

section \<open>Quantities\<close>

definition quoted :: "string \<Rightarrow> string" where
  "quoted s = CHR 0x27 # s @ [CHR 0x27]"

definition strip_0x :: "string \<Rightarrow> string" where
  "strip_0x s = (case strip_prefix ''0x'' s of Some t \<Rightarrow> t | None \<Rightarrow> s)"

definition bad_quantity :: "string \<Rightarrow> parse_int_error \<Rightarrow> ingest_error" where
  "bad_quantity s e = IngestChain (''bad hex quantity '' @ quoted s @ '': '' @ parse_int_text e)"

definition hex_u64 :: "string \<Rightarrow> (ingest_error, u64) result" where
  "hex_u64 s = map_err (bad_quantity s) (from_str_radix 16 (strip_0x s))"

text \<open>\<^verbatim>\<open>u128::from_str_radix\<close>: the digits are read from the left, and the first one that is none or that
  overflows decides the error.\<close>

fun parse_digits_128 :: "nat \<Rightarrow> nat \<Rightarrow> string \<Rightarrow> (parse_int_error, nat) result" where
  "parse_digits_128 radix acc [] = Inr acc"
| "parse_digits_128 radix acc (c # cs) =
     (case to_digit radix c of
        None \<Rightarrow> Inl InvalidDigit
      | Some d \<Rightarrow> if acc * radix + d \<ge> 2 ^ 128 then Inl PosOverflow else parse_digits_128 radix (acc * radix + d) cs)"

definition hex_u128 :: "string \<Rightarrow> (ingest_error, 128 word) result" where
  "hex_u128 s =
     (let t = strip_0x s
      in map_err (bad_quantity s)
           (if t = [] then Inl EmptyInt
            else if t = ''+'' \<or> t = ''-'' then Inl InvalidDigit
            else rbind (parse_digits_128 16 0 (if hd t = CHR ''+'' then tl t else t)) (\<lambda>n. Inr (of_nat n))))"

definition norm_hex :: "string \<Rightarrow> string" where
  "norm_hex s = to_ascii_lowercase (trim s)"

section \<open>The catalogue\<close>

record catalog_entry =
  ct_group :: string
  ct_name :: string
  ct_address :: string

record chain_catalog =
  cat_chain_id :: u64
  cat_chain_name :: string
  cat_rpc_url :: string
  cat_explorer_url :: string
  cat_deployer :: string
  cat_entries :: "catalog_entry list"

fun json_as_object :: "json \<Rightarrow> (string \<times> json) list option" where
  "json_as_object (JObj kvs) = Some kvs"
| "json_as_object _ = None"

fun json_as_array :: "json \<Rightarrow> json list option" where
  "json_as_array (JArr xs) = Some xs"
| "json_as_array _ = None"

definition catalog_address ::
    "string \<Rightarrow> string \<times> json \<Rightarrow> ((string \<times> string) \<times> string) list \<Rightarrow> (ingest_error, ((string \<times> string) \<times> string) list) result" where
  "catalog_address grp = (\<lambda>(name, addr) tbl.
     rbind (ok_or (IngestChain (grp @ ''.'' @ name @ '' address is not a string'')) (json_as_str addr)) (\<lambda>a.
     Inr (bt_insert (grp, name) (norm_hex a) tbl)))"

definition catalog_group ::
    "json \<Rightarrow> string \<Rightarrow> ((string \<times> string) \<times> string) list \<Rightarrow> (ingest_error, ((string \<times> string) \<times> string) list) result" where
  "catalog_group v grp tbl =
     (case Option.bind (json_get grp v) json_as_object of
        None \<Rightarrow> Inr tbl
      | Some obj \<Rightarrow> rfold (catalog_address grp) obj tbl)"

definition parse_catalog :: "chain_env \<Rightarrow> string \<Rightarrow> (ingest_error, chain_catalog) result" where
  "parse_catalog E txt =
     rbind (map_err (\<lambda>e. IngestChain (''catalog is not JSON: '' @ e)) (ce_json E txt)) (\<lambda>v.
     rbind (ok_or (IngestChain (''catalog missing numeric '' @ quoted ''chainId'')) (Option.bind (json_get ''chainId'' v) json_as_u64)) (\<lambda>chain_id.
     let field = (\<lambda>k. case Option.bind (json_get k v) json_as_str of Some s \<Rightarrow> s | None \<Rightarrow> [])
     in rbind (rfold (catalog_group v) CATALOG_GROUPS []) (\<lambda>tbl.
        Inr \<lparr>cat_chain_id = chain_id, cat_chain_name = field ''chainName'', cat_rpc_url = field ''rpcUrl'',
             cat_explorer_url = field ''explorerUrl'', cat_deployer = norm_hex (field ''deployer''),
             cat_entries = map (\<lambda>((g, n), a). \<lparr>ct_group = g, ct_name = n, ct_address = a\<rparr>) tbl\<rparr>)))"

section \<open>Nodes and their keys\<close>

definition chain_base :: "node_kind \<Rightarrow> string \<Rightarrow> string \<Rightarrow> u64 \<Rightarrow> u64 \<Rightarrow> memory_node" where
  "chain_base kind key content valid_from now =
     \<lparr>n_schema_version = SCHEMA_VERSION, n_plane = Derived, n_kind = kind, n_repo = CHAIN_STATE_TENANT, n_author = ''ingest'',
      n_source_ref = DagNative key, n_content = as_bytes content, n_valid_from = valid_from,
      n_valid_to = None, n_observed_at = now, n_trust_tier = DerivedDeterministic, n_signature = None, n_embedding = None,
      n_confidence = [BTrue], n_anchors = [], n_status = Active\<rparr>"

definition chain_node ::
    "node_kind \<Rightarrow> string \<Rightarrow> string \<Rightarrow> u64 \<Rightarrow> u64 \<Rightarrow> embed_impl \<Rightarrow> (ingest_error, memory_node) result" where
  "chain_node kind key content valid_from now emb =
     rbind (map_err (\<lambda>e. IngestEmbed (embed_error_text e)) (ei_embed emb content)) (\<lambda>v.
     Inr ((chain_base kind key content valid_from now)\<lparr>n_embedding := Some v\<rparr>))"

definition chain_prefix :: "u64 \<Rightarrow> string" where
  "chain_prefix chain_id = ''chain:'' @ decimal (unat chain_id)"

definition network_key :: "u64 \<Rightarrow> string" where
  "network_key chain_id = chain_prefix chain_id"

definition contract_key :: "u64 \<Rightarrow> catalog_entry \<Rightarrow> string" where
  "contract_key chain_id e = chain_prefix chain_id @ ''/contract/'' @ ct_group e @ ''/'' @ ct_name e @ ''@'' @ ct_address e"

definition contract_logical_key :: "string \<Rightarrow> string" where
  "contract_logical_key key = (case rsplit_once_char CHR ''@'' key of Some (l, _) \<Rightarrow> l | None \<Rightarrow> key)"

definition block_prefix :: "u64 \<Rightarrow> string" where
  "block_prefix chain_id = chain_prefix chain_id @ ''/block/''"

definition checkpoint_key :: "u64 \<Rightarrow> u64 \<Rightarrow> string \<Rightarrow> string" where
  "checkpoint_key chain_id number hash = block_prefix chain_id @ decimal (unat number) @ ''@'' @ hash"

definition event_key :: "u64 \<Rightarrow> string \<Rightarrow> string" where
  "event_key chain_id tx_hash = chain_prefix chain_id @ ''/tx/'' @ tx_hash"

definition dag_key :: "memory_node \<Rightarrow> string option" where
  "dag_key n = (case n_source_ref n of DagNative key \<Rightarrow> Some key | _ \<Rightarrow> None)"

definition network_content :: "chain_catalog \<Rightarrow> string" where
  "network_content c = cat_chain_name c @ '' '' @ em_dash @ '' chainId '' @ decimal (unat (cat_chain_id c)) @ '', rpc '' @ cat_rpc_url c @
     '', explorer '' @ cat_explorer_url c @ '', deployer '' @ cat_deployer c"

definition contract_content :: "chain_catalog \<Rightarrow> catalog_entry \<Rightarrow> string" where
  "contract_content c e = ct_name e @ '' @ '' @ ct_address e @ '' ('' @ ct_group e @ '') on chain '' @ decimal (unat (cat_chain_id c))"

definition add_contract ::
    "externals \<Rightarrow> chain_catalog \<Rightarrow> u64 \<Rightarrow> embed_impl \<Rightarrow> content_hash \<Rightarrow> catalog_entry \<Rightarrow> memory_node list \<times> edge list \<Rightarrow>
     (ingest_error, memory_node list \<times> edge list) result" where
  "add_contract X cat now emb net_id e = (\<lambda>(nodes, edges).
     rbind (chain_node ChainContract (contract_key (cat_chain_id cat) e) (contract_content cat e) now now emb) (\<lambda>node.
     Inr (nodes @ [node], edges @ [make_edge (node_id X node) net_id References Ingest now (Some ''deployed-on'')])))"

definition build_catalog_graph ::
    "externals \<Rightarrow> chain_catalog \<Rightarrow> u64 \<Rightarrow> embed_impl \<Rightarrow> (ingest_error, memory_node list \<times> edge list) result" where
  "build_catalog_graph X cat now emb =
     rbind (chain_node ChainNetwork (network_key (cat_chain_id cat)) (network_content cat) now now emb) (\<lambda>network.
     rfold (add_contract X cat now emb (node_id X network)) (cat_entries cat) ([network], []))"

section \<open>The catalogue pass\<close>

record chain_catalog_report =
  ccr_chain_id :: u64
  ccr_contracts :: nat
  ccr_superseded :: nat
  ccr_supersessions_rejected :: nat
  ccr_watermark :: watermark

definition active_chain_nodes :: "externals \<Rightarrow> node_kind \<Rightarrow> dag_store \<Rightarrow> (ingest_error, memory_node list) result" where
  "active_chain_nodes X kind s =
     rbind (map_err IngestStore (all_nodes X s)) (\<lambda>ns.
     Inr (filter (\<lambda>n. n_repo n = CHAIN_STATE_TENANT \<and> n_kind n = kind \<and> n_status n = Active) ns))"

definition prior_contracts :: "externals \<Rightarrow> memory_node list \<Rightarrow> (string \<rightharpoonup> content_hash \<times> string)" where
  "prior_contracts X ns =
     fold (\<lambda>n m. case dag_key n of Some key \<Rightarrow> m(contract_logical_key key \<mapsto> (node_id X n, key)) | None \<Rightarrow> m) ns Map.empty"

definition redeploy :: "externals \<Rightarrow> (string \<rightharpoonup> content_hash \<times> string) \<Rightarrow> u64 \<Rightarrow> memory_node \<Rightarrow> edge option" where
  "redeploy X prior now n =
     (case dag_key n of
        None \<Rightarrow> None
      | Some key \<Rightarrow>
          (case prior (contract_logical_key key) of
             None \<Rightarrow> None
           | Some (old_id, old_key) \<Rightarrow>
               if old_key = key then None
               else Some (make_edge (node_id X n) old_id Supersedes Ingest now (Some ''catalog redeploy: same (group, name), new address''))))"

definition hash_hex :: "externals \<Rightarrow> string \<Rightarrow> string" where
  "hash_hex X txt = to_hex (hex_encode X) (blake3 X (as_bytes txt))"

definition ingest_chain_catalog_str ::
    "externals \<Rightarrow> chain_env \<Rightarrow> string \<Rightarrow> embed_impl \<Rightarrow> u64 \<Rightarrow> chain_catalog_report pass" where
  "ingest_chain_catalog_str X E txt emb now =
     sbind (slift (parse_catalog E txt)) (\<lambda>cat.
     sbind (slift (build_catalog_graph X cat now emb)) (\<lambda>(nodes, edges).
     sbind (sread (active_chain_nodes X ChainContract)) (\<lambda>active.
     let supersessions = List.map_filter (redeploy X (prior_contracts X active) now) (filter (\<lambda>n. n_kind n = ChainContract) nodes)
     in sbind (smap_err IngestStore (commit X nodes edges)) (\<lambda>_.
        sbind (apply_supersessions X supersessions) (\<lambda>(superseded, rejected).
        let w = \<lparr>wm_repo = CHAIN_STATE_TENANT, wm_head = Some (hash_hex X txt), wm_head_count = length nodes, wm_ingested_at_ms = now\<rparr>
        in sbind (slift (map_err IngestSerde (ce_watermark_json E w))) (\<lambda>b.
           sbind (smap_err IngestStore (put_meta X CHAIN_STATE_TENANT (watermark_key CHAIN_STATE_TENANT) b)) (\<lambda>_.
           sok \<lparr>ccr_chain_id = cat_chain_id cat, ccr_contracts = length (cat_entries cat), ccr_superseded = superseded,
                ccr_supersessions_rejected = rejected, ccr_watermark = w\<rparr>)))))))"

definition ingest_chain_catalog ::
    "externals \<Rightarrow> chain_env \<Rightarrow> string \<Rightarrow> embed_impl \<Rightarrow> u64 \<Rightarrow> chain_catalog_report pass" where
  "ingest_chain_catalog X E path emb now =
     sbind (slift (map_err (\<lambda>e. IngestChain (''read '' @ path @ '': '' @ e)) (ce_read_to_string E path))) (\<lambda>txt.
     ingest_chain_catalog_str X E txt emb now)"

section \<open>Blocks\<close>

record tx_record =
  tx_hash :: string
  tx_from :: string
  tx_to :: "string option"
  tx_value_wei :: "128 word"

record block_record =
  bl_number :: u64
  bl_hash :: string
  bl_parent_hash :: string
  bl_timestamp_secs :: u64
  bl_txs :: "tx_record list"

definition str_field :: "string \<Rightarrow> json \<Rightarrow> string \<Rightarrow> (ingest_error, string) result" where
  "str_field what v k =
     ok_or (IngestChain (what @ '' missing string field '' @ quoted k)) (Option.bind (json_get k v) json_as_str)"

definition tx_recipient :: "json \<Rightarrow> (ingest_error, string option) result" where
  "tx_recipient t =
     (case json_get ''to'' t of
        None \<Rightarrow> Inr None
      | Some JNull \<Rightarrow> Inr None
      | Some v \<Rightarrow> rbind (ok_or (IngestChain (''tx '' @ quoted ''to'' @ '' is neither null nor a string'')) (json_as_str v)) (\<lambda>s.
          Inr (Some (norm_hex s))))"

definition parse_tx :: "json \<Rightarrow> (ingest_error, tx_record) result" where
  "parse_tx t =
     rbind (tx_recipient t) (\<lambda>to.
     rbind (str_field ''tx'' t ''hash'') (\<lambda>h.
     rbind (str_field ''tx'' t ''from'') (\<lambda>sender.
     rbind (str_field ''tx'' t ''value'') (\<lambda>v.
     rbind (hex_u128 v) (\<lambda>wei.
     Inr \<lparr>tx_hash = norm_hex h, tx_from = norm_hex sender, tx_to = to, tx_value_wei = wei\<rparr>)))))"

definition push_tx :: "json \<Rightarrow> tx_record list \<Rightarrow> (ingest_error, tx_record list) result" where
  "push_tx t txs = rbind (parse_tx t) (\<lambda>r. Inr (txs @ [r]))"

definition parse_rpc_block :: "json \<Rightarrow> (ingest_error, block_record) result" where
  "parse_rpc_block v =
     rbind (str_field ''block'' v ''number'') (\<lambda>n.
     rbind (hex_u64 n) (\<lambda>number.
     rbind (str_field ''block'' v ''hash'') (\<lambda>h.
     rbind (str_field ''block'' v ''parentHash'') (\<lambda>p.
     rbind (str_field ''block'' v ''timestamp'') (\<lambda>t.
     rbind (hex_u64 t) (\<lambda>secs.
     rbind (ok_or (IngestChain (''block missing '' @ quoted ''transactions'' @ '' array (fetch with full tx bodies)''))
        (Option.bind (json_get ''transactions'' v) json_as_array)) (\<lambda>txs.
     rbind (rfold push_tx txs []) (\<lambda>records.
     Inr \<lparr>bl_number = number, bl_hash = norm_hex h, bl_parent_hash = norm_hex p, bl_timestamp_secs = secs, bl_txs = records\<rparr>))))))))"

type_synonym block_source = "u64 \<Rightarrow> (ingest_error, block_record option) result"

definition fixture_insert :: "json \<Rightarrow> (u64 \<rightharpoonup> block_record) \<Rightarrow> (ingest_error, u64 \<rightharpoonup> block_record) result" where
  "fixture_insert r blocks = rbind (parse_rpc_block r) (\<lambda>b. Inr (blocks(bl_number b \<mapsto> b)))"

definition from_transcript :: "chain_env \<Rightarrow> string \<Rightarrow> (ingest_error, u64 \<rightharpoonup> block_record) result" where
  "from_transcript E txt =
     rbind (map_err (\<lambda>e. IngestChain (''transcript is not JSON: '' @ e)) (ce_json E txt)) (\<lambda>v.
     rbind (ok_or (IngestChain (''transcript missing '' @ quoted ''results'' @ '' array'')) (Option.bind (json_get ''results'' v) json_as_array)) (\<lambda>results.
     rfold fixture_insert results Map.empty))"

definition fixture_block_by_number :: "(u64 \<rightharpoonup> block_record) \<Rightarrow> block_source" where
  "fixture_block_by_number blocks n = Inr (blocks n)"

definition rpc_connect :: "chain_env \<Rightarrow> string \<Rightarrow> u64 \<Rightarrow> (ingest_error, string) result" where
  "rpc_connect E rpc_url expected_chain_id =
     rbind (map_err (\<lambda>e. IngestChain (sync_error_text e)) (rpc_call (ce_rpc E) rpc_url ''eth_chainId'' (JArr []))) (\<lambda>v.
     rbind (ok_or (IngestChain ''eth_chainId result not a string'') (json_as_str v)) (\<lambda>s.
     rbind (hex_u64 s) (\<lambda>got.
     if got \<noteq> expected_chain_id then
       Inl (IngestChain (''chain id mismatch: RPC is '' @ decimal (unat got) @ '', expected '' @ decimal (unat expected_chain_id)))
     else Inr rpc_url)))"

definition rpc_block_by_number :: "chain_env \<Rightarrow> string \<Rightarrow> block_source" where
  "rpc_block_by_number E rpc_url n =
     rbind (map_err (\<lambda>e. IngestChain (sync_error_text e))
       (rpc_call (ce_rpc E) rpc_url ''eth_getBlockByNumber'' (JArr [JStr (''0x'' @ print_radix 16 (unat n)), JBool True]))) (\<lambda>v.
     if v = JNull then Inr None else rbind (parse_rpc_block v) (\<lambda>b. Inr (Some b)))"

section \<open>The walk\<close>

definition cursor_key :: "u64 \<Rightarrow> bytes" where
  "cursor_key chain_id = as_bytes (''chain_cursor:'' @ decimal (unat chain_id))"

definition read_chain_cursor :: "externals \<Rightarrow> chain_env \<Rightarrow> u64 \<Rightarrow> dag_store \<Rightarrow> (ingest_error, event_cursor option) result" where
  "read_chain_cursor X E chain_id s =
     rbind (map_err IngestStore (get_meta X (cursor_key chain_id) s)) (\<lambda>v.
     case v of
       None \<Rightarrow> Inr None
     | Some b \<Rightarrow> rbind (map_err IngestSerde (ce_cursor_from_json E b)) (\<lambda>c. Inr (Some c)))"

definition write_chain_cursor :: "externals \<Rightarrow> chain_env \<Rightarrow> event_cursor \<Rightarrow> unit pass" where
  "write_chain_cursor X E c =
     sbind (slift (map_err IngestSerde (ce_cursor_to_json E c))) (\<lambda>b.
     smap_err IngestStore (put_meta X CHAIN_STATE_TENANT (cursor_key (ec_chain_id c)) b))"

record chain_event_report =
  ev_blocks :: nat
  ev_events :: nat
  ev_reorgs_superseded :: nat
  ev_supersessions_rejected :: nat
  ev_cursor :: event_cursor

text \<open>What is fixed during a walk, and what the loop carries: the report so far, the checkpoints known at
  each height, and the block before.\<close>

record walk_params =
  wp_chain_id :: u64
  wp_watch :: "string set"
  wp_contracts :: "string \<rightharpoonup> content_hash"
  wp_embedder :: embed_impl
  wp_now :: u64

record walk_state =
  wk_report :: chain_event_report
  wk_heights :: "u64 \<Rightarrow> (content_hash \<times> string) list"
  wk_prev :: "(string \<times> content_hash) option"

definition contract_addresses :: "externals \<Rightarrow> memory_node list \<Rightarrow> (string \<rightharpoonup> content_hash)" where
  "contract_addresses X ns =
     fold (\<lambda>n m. case Option.bind (dag_key n) (rsplit_once_char CHR ''@'') of Some (_, addr) \<Rightarrow> m(addr \<mapsto> node_id X n) | None \<Rightarrow> m)
       ns Map.empty"

definition checkpoint_height :: "u64 \<Rightarrow> string \<Rightarrow> u64 option" where
  "checkpoint_height chain_id key =
     Option.bind (strip_prefix (block_prefix chain_id) key) (\<lambda>rest.
     Option.bind (split_once_char CHR ''@'' rest) (\<lambda>(h, _).
     case from_str_radix 10 h of Inr n \<Rightarrow> Some n | Inl _ \<Rightarrow> None))"

definition checkpoints_by_height :: "externals \<Rightarrow> u64 \<Rightarrow> memory_node list \<Rightarrow> u64 \<Rightarrow> (content_hash \<times> string) list" where
  "checkpoints_by_height X chain_id ns =
     fold (\<lambda>n m. case dag_key n of
         None \<Rightarrow> m
       | Some key \<Rightarrow> (case checkpoint_height chain_id key of
           None \<Rightarrow> m
         | Some h \<Rightarrow> m(h := m h @ [(node_id X n, key)]))) ns (\<lambda>_. [])"

definition saturating_millis :: "u64 \<Rightarrow> u64" where
  "saturating_millis secs = of_nat (min (unat secs * 1000) (2 ^ 64 - 1))"

definition checkpoint_content :: "u64 \<Rightarrow> block_record \<Rightarrow> string" where
  "checkpoint_content chain_id b = ''block '' @ decimal (unat (bl_number b)) @ '' on chain '' @ decimal (unat chain_id) @
     '' hash '' @ bl_hash b @ '' parent '' @ bl_parent_hash b"

definition event_content :: "u64 \<Rightarrow> block_record \<Rightarrow> tx_record \<Rightarrow> string" where
  "event_content chain_id b t = ''tx '' @ tx_hash t @ '': '' @ tx_from t @ '' -> '' @
     (case tx_to t of Some r \<Rightarrow> r | None \<Rightarrow> ''create'') @ '' value '' @ decimal (unat (tx_value_wei t)) @ '' wei in block '' @
     decimal (unat (bl_number b)) @ '' on chain '' @ decimal (unat chain_id)"

definition watched :: "string set \<Rightarrow> tx_record \<Rightarrow> bool" where
  "watched watch t \<longleftrightarrow> tx_from t \<in> watch \<or> (\<exists>r. tx_to t = Some r \<and> r \<in> watch)"

text \<open>The distinct parties of a transaction, in the order of the set they are collected in.\<close>

definition counterparties :: "tx_record \<Rightarrow> string list" where
  "counterparties t =
     (case tx_to t of
        None \<Rightarrow> [tx_from t]
      | Some r \<Rightarrow> if r = tx_from t then [r] else if r < tx_from t then [r, tx_from t] else [tx_from t, r])"

definition touch_edges :: "walk_params \<Rightarrow> content_hash \<Rightarrow> tx_record \<Rightarrow> edge list" where
  "touch_edges W ev_id t =
     List.map_filter (\<lambda>addr. map_option (\<lambda>cid. make_edge ev_id cid Touches Ingest (wp_now W) (Some addr)) (wp_contracts W addr)) (counterparties t)"

definition add_event ::
    "externals \<Rightarrow> walk_params \<Rightarrow> block_record \<Rightarrow> content_hash \<Rightarrow> tx_record \<Rightarrow> memory_node list \<times> edge list \<times> nat \<Rightarrow>
     (ingest_error, memory_node list \<times> edge list \<times> nat) result" where
  "add_event X W b cp_id t = (\<lambda>(nodes, edges, events).
     if \<not> watched (wp_watch W) t then Inr (nodes, edges, events)
     else
       rbind (chain_node ChainEvent (event_key (wp_chain_id W) (tx_hash t)) (event_content (wp_chain_id W) b t)
         (saturating_millis (bl_timestamp_secs b)) (wp_now W) (wp_embedder W)) (\<lambda>ev.
       Inr (nodes @ [ev],
         edges @ [make_edge cp_id (node_id X ev) Emits Ingest (wp_now W) (Some (tx_hash t))] @ touch_edges W (node_id X ev) t,
         events + 1)))"

definition checkpoint_node :: "walk_params \<Rightarrow> block_record \<Rightarrow> (ingest_error, memory_node) result" where
  "checkpoint_node W b =
     chain_node ChainCheckpoint (checkpoint_key (wp_chain_id W) (bl_number b) (bl_hash b)) (checkpoint_content (wp_chain_id W) b)
       (saturating_millis (bl_timestamp_secs b)) (wp_now W) (wp_embedder W)"

definition reorg_edges :: "walk_params \<Rightarrow> content_hash \<Rightarrow> string \<Rightarrow> (content_hash \<times> string) list \<Rightarrow> edge list" where
  "reorg_edges W cp_id cp_key prior =
     map (\<lambda>(old_id, _). make_edge cp_id old_id Supersedes Ingest (wp_now W) (Some ''re-org: same height, new hash''))
       (filter (\<lambda>(_, old_key). old_key \<noteq> cp_key) prior)"

definition spine_edge :: "walk_params \<Rightarrow> content_hash \<Rightarrow> block_record \<Rightarrow> (string \<times> content_hash) option \<Rightarrow> edge list" where
  "spine_edge W cp_id b prev =
     (case prev of
        Some (prev_hash, prev_id) \<Rightarrow>
          if prev_hash = bl_parent_hash b then [make_edge cp_id prev_id TemporalNext Ingest (wp_now W) (Some prev_hash)] else []
      | None \<Rightarrow> [])"

definition walk_block :: "externals \<Rightarrow> chain_env \<Rightarrow> walk_params \<Rightarrow> block_record \<Rightarrow> walk_state \<Rightarrow> walk_state pass" where
  "walk_block X E W b k =
     sbind (slift (checkpoint_node W b)) (\<lambda>cp.
     let cp_id = node_id X cp; cp_key = checkpoint_key (wp_chain_id W) (bl_number b) (bl_hash b);
         supersessions = reorg_edges W cp_id cp_key (wk_heights k (bl_number b))
     in sbind (slift (rfold (add_event X W b cp_id) (bl_txs b) ([cp], spine_edge W cp_id b (wk_prev k), ev_events (wk_report k)))) (\<lambda>(nodes, edges, events).
        sbind (smap_err IngestStore (commit X nodes edges)) (\<lambda>_.
        sbind (apply_supersessions X supersessions) (\<lambda>(applied, rej).
        let c = \<lparr>ec_chain_id = wp_chain_id W, ec_next_block = bl_number b + 1\<rparr>
        in sbind (write_chain_cursor X E c) (\<lambda>_.
           sok \<lparr>wk_report = \<lparr>ev_blocks = ev_blocks (wk_report k) + 1, ev_events = events,
                  ev_reorgs_superseded = ev_reorgs_superseded (wk_report k) + applied,
                  ev_supersessions_rejected = ev_supersessions_rejected (wk_report k) + rej, ev_cursor = c\<rparr>,
                wk_heights = (wk_heights k)(bl_number b := wk_heights k (bl_number b) @ [(cp_id, cp_key)]),
                wk_prev = Some (bl_hash b, cp_id)\<rparr>)))))"

partial_function (option) walk ::
    "externals \<Rightarrow> chain_env \<Rightarrow> walk_params \<Rightarrow> block_source \<Rightarrow> u64 \<Rightarrow> u64 \<Rightarrow> walk_state \<Rightarrow> dag_store \<Rightarrow>
     ((ingest_error, walk_state) result \<times> dag_store) option" where
  "walk X E W source to_block n k s =
     (if n > to_block then Some (Inr k, s)
      else case source n of
             Inl e \<Rightarrow> Some (Inl e, s)
           | Inr None \<Rightarrow> Some (Inr k, s)
           | Inr (Some b) \<Rightarrow>
               (case walk_block X E W b k s of
                  (Inl e, s') \<Rightarrow> Some (Inl e, s')
                | (Inr k', s') \<Rightarrow> walk X E W source to_block (n + 1) k' s'))"

definition start_walk ::
    "externals \<Rightarrow> chain_env \<Rightarrow> u64 \<Rightarrow> string list \<Rightarrow> u64 option \<Rightarrow> embed_impl \<Rightarrow> u64 \<Rightarrow> (u64 \<times> walk_params \<times> walk_state) pass" where
  "start_walk X E chain_id watch from_block emb now =
     sbind (case from_block of
              Some b \<Rightarrow> sok b
            | None \<Rightarrow> sbind (sread (read_chain_cursor X E chain_id)) (\<lambda>c. sok (case c of Some c \<Rightarrow> ec_next_block c | None \<Rightarrow> 0))) (\<lambda>start.
     sbind (sread (active_chain_nodes X ChainContract)) (\<lambda>contracts.
     sbind (sread (active_chain_nodes X ChainCheckpoint)) (\<lambda>checkpoints.
     sok (start,
       \<lparr>wp_chain_id = chain_id, wp_watch = norm_hex ` set watch, wp_contracts = contract_addresses X contracts,
        wp_embedder = emb, wp_now = now\<rparr>,
       \<lparr>wk_report = \<lparr>ev_blocks = 0, ev_events = 0, ev_reorgs_superseded = 0, ev_supersessions_rejected = 0,
          ev_cursor = \<lparr>ec_chain_id = chain_id, ec_next_block = start\<rparr>\<rparr>,
        wk_heights = checkpoints_by_height X chain_id checkpoints, wk_prev = None\<rparr>))))"

definition ingest_chain_events ::
    "externals \<Rightarrow> chain_env \<Rightarrow> block_source \<Rightarrow> u64 \<Rightarrow> string list \<Rightarrow> u64 option \<Rightarrow> u64 \<Rightarrow> embed_impl \<Rightarrow> u64 \<Rightarrow> dag_store \<Rightarrow>
     ((ingest_error, chain_event_report) result \<times> dag_store) option" where
  "ingest_chain_events X E source chain_id watch from_block to_block emb now s =
     (case start_walk X E chain_id watch from_block emb now s of
        (Inl e, s1) \<Rightarrow> Some (Inl e, s1)
      | (Inr (start, W, k), s1) \<Rightarrow>
          map_option (\<lambda>(r, s'). (rbind r (\<lambda>k. Inr (wk_report k)), s')) (walk X E W source to_block start k s1))"

end
