(* ===== verification/Federation_Meta.thy ===== *)
theory Federation_Meta
  imports Chain_Ingest
begin

text \<open>
  \<^verbatim>\<open>crates/mem-ingest/src/federation.rs\<close>: the repositories of the federation manifest and their dependencies as nodes
  and edges of the reserved tenant \<^verbatim>\<open>federation\<close>. The reader of the manifest is modelled on its text.
\<close>

section \<open>The manifest\<close>

definition FEDERATION_TENANT :: string where
  "FEDERATION_TENANT = ''federation''"

record manifest_repo =
  mr_name :: string
  mr_tier :: string
  mr_role :: string
  mr_visibility :: string
  mr_notes :: string

record drift_dep =
  dd_consumer :: string
  dd_dep_repo :: string

datatype manifest_section = SecRepo string | SecDrift | SecOther

definition QUOTE :: char where "QUOTE = CHR 0x22"

definition unquote :: "string \<Rightarrow> string" where
  "unquote s = trim_end_chars {QUOTE} (dropWhile (\<lambda>c. c = QUOTE) (trim s))"

record manifest_state =
  ms_repos :: "(string \<times> manifest_repo) list"
  ms_deps :: "((string \<times> string) \<times> unit) list"
  ms_section :: manifest_section
  ms_drift :: "string option \<times> string option"

definition flush_drift :: "manifest_state \<Rightarrow> manifest_state" where
  "flush_drift m =
     (case ms_drift m of
        (Some consumer, Some dep) \<Rightarrow> m\<lparr>ms_deps := bt_insert (consumer, dep) () (ms_deps m), ms_drift := (None, None)\<rparr>
      | _ \<Rightarrow> m\<lparr>ms_drift := (None, None)\<rparr>)"

definition fresh_repo :: "string \<Rightarrow> manifest_repo" where
  "fresh_repo name = \<lparr>mr_name = name, mr_tier = [], mr_role = [], mr_visibility = [], mr_notes = []\<rparr>"

definition manifest_header :: "string \<Rightarrow> manifest_state \<Rightarrow> manifest_state" where
  "manifest_header line m0 =
     (let m = flush_drift m0
      in if line = ''[[drift]]'' then m\<lparr>ms_section := SecDrift\<rparr>
         else case strip_prefix ''[repos.'' line of
                Some rest \<Rightarrow>
                  let name = unquote (trim_end_chars {CHR '']''} rest)
                  in m\<lparr>ms_repos := (if map_of (ms_repos m) name = None then bt_insert name (fresh_repo name) (ms_repos m) else ms_repos m),
                       ms_section := SecRepo name\<rparr>
              | None \<Rightarrow> m\<lparr>ms_section := SecOther\<rparr>)"

definition set_field :: "string \<Rightarrow> string \<Rightarrow> manifest_repo \<Rightarrow> manifest_repo" where
  "set_field key v r =
     (if key = ''tier'' then r\<lparr>mr_tier := v\<rparr>
      else if key = ''role'' then r\<lparr>mr_role := v\<rparr>
      else if key = ''visibility'' then r\<lparr>mr_visibility := v\<rparr>
      else if key = ''notes'' then r\<lparr>mr_notes := v\<rparr>
      else r)"

definition manifest_pair :: "string \<Rightarrow> string \<Rightarrow> manifest_state \<Rightarrow> manifest_state" where
  "manifest_pair key v m =
     (case ms_section m of
        SecRepo name \<Rightarrow>
          (case map_of (ms_repos m) name of
             Some r \<Rightarrow> m\<lparr>ms_repos := bt_insert name (set_field key v r) (ms_repos m)\<rparr>
           | None \<Rightarrow> m)
      | SecDrift \<Rightarrow>
          if key = ''consumer'' then m\<lparr>ms_drift := (Some v, snd (ms_drift m))\<rparr>
          else if key = ''dep_repo'' then m\<lparr>ms_drift := (fst (ms_drift m), Some v)\<rparr>
          else m
      | SecOther \<Rightarrow> m)"

definition manifest_line :: "string \<Rightarrow> manifest_state \<Rightarrow> manifest_state" where
  "manifest_line raw m =
     (let line = trim raw
      in if line = [] \<or> hd line = CHR ''#'' then m
         else if hd line = CHR ''['' then manifest_header line m
         else case split_once_char CHR ''='' line of
                None \<Rightarrow> m
              | Some (key, v) \<Rightarrow> manifest_pair (trim key) (unquote v) m)"

definition empty_manifest :: manifest_state where
  "empty_manifest = \<lparr>ms_repos = [], ms_deps = [], ms_section = SecOther, ms_drift = (None, None)\<rparr>"

definition parse_manifest :: "string \<Rightarrow> manifest_repo list \<times> drift_dep list" where
  "parse_manifest toml =
     (let m = flush_drift (fold manifest_line (str_lines toml) empty_manifest)
      in (map snd (ms_repos m), map (\<lambda>((c, d), _). \<lparr>dd_consumer = c, dd_dep_repo = d\<rparr>) (ms_deps m)))"

section \<open>The graph\<close>

definition or_unknown :: "string \<Rightarrow> string" where
  "or_unknown s = (if s = [] then ''?'' else s)"

definition tenant_content :: "manifest_repo \<Rightarrow> string" where
  "tenant_content r = mr_name r @ '' '' @ em_dash @ '' role: '' @ or_unknown (mr_role r) @ '', tier: '' @ or_unknown (mr_tier r) @
     '', visibility: '' @ or_unknown (mr_visibility r) @ (if mr_notes r = [] then [] else ''. '' @ mr_notes r)"

definition tenant_base :: "manifest_repo \<Rightarrow> u64 \<Rightarrow> memory_node" where
  "tenant_base r now =
     \<lparr>n_schema_version = SCHEMA_VERSION, n_plane = Derived, n_kind = Tenant, n_repo = FEDERATION_TENANT, n_author = ''ingest'',
      n_source_ref = DagNative (''tenant:'' @ mr_name r), n_content = as_bytes (tenant_content r), n_valid_from = now,
      n_valid_to = None, n_observed_at = now, n_trust_tier = DerivedDeterministic, n_signature = None, n_embedding = None,
      n_confidence = [BTrue], n_anchors = [], n_status = Active\<rparr>"

definition tenant_node :: "manifest_repo \<Rightarrow> u64 \<Rightarrow> embed_impl \<Rightarrow> (ingest_error, memory_node) result" where
  "tenant_node r now emb =
     rbind (map_err (\<lambda>e. IngestEmbed (embed_error_text e)) (ei_embed emb (tenant_content r))) (\<lambda>v.
     Inr ((tenant_base r now)\<lparr>n_embedding := Some v\<rparr>))"

definition depends_on :: "externals \<Rightarrow> memory_node \<Rightarrow> memory_node \<Rightarrow> u64 \<Rightarrow> edge" where
  "depends_on X a b now =
     \<lparr>e_from = node_id X a, e_to = node_id X b, e_kind = DependsOn, e_plane = Derived, e_trust_tier = DerivedDeterministic,
      e_provenance = \<lparr>p_method = Ingest, p_asserter = ''ingest'', p_at = now, p_evidence = Some ''manifest [[drift]]''\<rparr>,
      e_confidence = [BTrue], e_quarantined = False, e_signature = None\<rparr>"

record meta_report =
  mt_tenants :: nat
  mt_depends_on :: nat
  mt_skipped_deps :: nat
  mt_watermark :: watermark

definition insert_tenant ::
    "u64 \<Rightarrow> embed_impl \<Rightarrow> manifest_repo \<Rightarrow> (string \<times> memory_node) list \<Rightarrow> (ingest_error, (string \<times> memory_node) list) result" where
  "insert_tenant now emb r nodes = rbind (tenant_node r now emb) (\<lambda>n. Inr (bt_insert (mr_name r) n nodes))"

definition link_dep :: "externals \<Rightarrow> u64 \<Rightarrow> (string \<times> memory_node) list \<Rightarrow> drift_dep \<Rightarrow> edge list \<times> nat \<Rightarrow> edge list \<times> nat" where
  "link_dep X now nodes d = (\<lambda>(edges, skipped).
     case (map_of nodes (dd_consumer d), map_of nodes (dd_dep_repo d)) of
       (Some a, Some b) \<Rightarrow> (edges @ [depends_on X a b now], skipped)
     | _ \<Rightarrow> (edges, skipped + 1))"

definition ingest_federation_meta_str ::
    "externals \<Rightarrow> chain_env \<Rightarrow> string \<Rightarrow> embed_impl \<Rightarrow> u64 \<Rightarrow> meta_report pass" where
  "ingest_federation_meta_str X E manifest emb now =
     (let (repos, deps) = parse_manifest manifest
      in sbind (slift (rfold (insert_tenant now emb) repos [])) (\<lambda>nodes.
         let (edges, skipped) = fold (link_dep X now nodes) deps ([], 0);
             w = \<lparr>wm_repo = FEDERATION_TENANT, wm_head = Some (hash_hex X manifest), wm_head_count = length nodes, wm_ingested_at_ms = now\<rparr>
         in sbind (smap_err IngestStore (commit X (map snd nodes) edges)) (\<lambda>_.
            sbind (slift (map_err IngestSerde (ce_watermark_json E w))) (\<lambda>b.
            sbind (smap_err IngestStore (put_meta X FEDERATION_TENANT (watermark_key FEDERATION_TENANT) b)) (\<lambda>_.
            sok \<lparr>mt_tenants = length nodes, mt_depends_on = length edges, mt_skipped_deps = skipped, mt_watermark = w\<rparr>)))))"

definition ingest_federation_meta :: "externals \<Rightarrow> chain_env \<Rightarrow> string \<Rightarrow> embed_impl \<Rightarrow> u64 \<Rightarrow> meta_report pass" where
  "ingest_federation_meta X E path emb now =
     sbind (slift (map_err (\<lambda>e. IngestGit (''read '' @ path @ '': '' @ e)) (ce_read_to_string E path))) (\<lambda>manifest.
     ingest_federation_meta_str X E manifest emb now)"

section \<open>Reading back a manifest\<close>

end
