(* ===== verification/Meta_Frame.thy ===== *)
theory Meta_Frame
  imports Supersession Erasure
begin

text \<open>
  Writing nodes and edges leaves the operational records of a store (watermarks, cursors, anchors) as
  they read: the frame of the meta column under \<^verbatim>\<open>commit\<close>, \<^verbatim>\<open>apply_supersession\<close> and a failed \<^verbatim>\<open>put_meta\<close>.
\<close>

definition meta_kept :: "externals \<Rightarrow> dag_store \<Rightarrow> dag_store \<Rightarrow> bool" where
  "meta_kept X s s' \<longleftrightarrow> store_ok X s' \<and> ds_encrypt s' = ds_encrypt s \<and> rows s' META = rows s META \<and>
     (\<forall>b. sealed_ok X s b \<longrightarrow> sealed_ok X s' b \<and> (\<forall>k. meta_view X (usable X s') k b = meta_view X (usable X s) k b))"

lemma meta_kept_refl: "store_ok X s \<Longrightarrow> meta_kept X s s"
  by (simp add: meta_kept_def)

lemma meta_kept_trans: "meta_kept X s q \<Longrightarrow> meta_kept X q s' \<Longrightarrow> meta_kept X s s'"
  by (simp add: meta_kept_def)

lemma meta_kept_ok: "meta_kept X s s' \<Longrightarrow> store_ok X s'"
  by (simp add: meta_kept_def)

lemma meta_kept_grow: "store_ok X s \<Longrightarrow> keys_grow X s s' \<Longrightarrow> meta_kept X s s'"
  by (simp add: meta_kept_def store_ok_grow sealed_ok_grow meta_view_grow keys_grow_encrypt) (simp add: keys_grow_def)

lemma good_ops_meta: "list_all2 (good_ops X s) its opss \<Longrightarrow> fold view_op (concat opss) R META = R META"
proof (induction arbitrary: R rule: list_all2_induct)
  case (Cons it its ops opss)
  have "fold view_op ops R META = R META" using Cons.hyps(1) by (cases it) auto
  then show ?case using Cons.IH by simp
qed simp

lemma meta_kept_batch:
  assumes ok: "store_ok X s" and ops: "list_all2 (good_ops X s) its opss"
    and run: "kv_wr (kv_write_batch (concat opss)) s = (r, s')"
  shows "meta_kept X s s'"
proof -
  obtain q where q: "kv_wr (kv_write_batch (concat opss)) s = (Inr (), q)" "kv_live (ds_kv q)"
      "rows q = fold view_op (concat opss) (rows s)" "ds_encrypt q = ds_encrypt s"
    by (rule kv_wr_batch [OF store_okD(2) [OF ok]])
  have "store_ok X q" "rows q KEYS = rows s KEYS" using apply_items [OF ok ops q(2,3)] by simp_all
  moreover have "rows q META = rows s META" by (simp add: q(3) good_ops_meta [OF ops])
  ultimately show ?thesis using q(1,4) run same_keys [of q s X] by (simp add: meta_kept_def)
qed

lemma meta_kept_get:
  assumes "store_ok X s" "meta_ok X s" "meta_kept X s s'"
  shows "meta_ok X s'" "get_meta X k s' = get_meta X k s"
proof -
  show "meta_ok X s'" using assms(2,3) by (auto simp: meta_ok_def meta_kept_def)
  show "get_meta X k s' = get_meta X k s"
    using assms by (auto simp: get_meta_eq [OF store_okD(1)] meta_kept_def meta_ok_def split: option.split)
qed

lemma commit_keeps_meta:
  assumes X: "externals_ok X" and ok: "store_ok X s" and safe: "\<forall>n \<in> set nodes. json_safe n"
    and run: "commit X nodes edges s = (r, s')"
  shows "meta_kept X s s'"
proof -
  obtain q t where q: "sfold (commit_node X) nodes ([], Map.empty) s = (q, t)"
    by (cases "sfold (commit_node X) nodes ([], Map.empty) s")
  note nodes = commit_nodes_run [OF X store_okD(1) [OF ok] safe q]
  have t: "meta_kept X s t" using nodes meta_kept_grow [OF ok] by blast
  show ?thesis
  proof (cases q)
    case (Inl m)
    with run q t show ?thesis by (auto simp: commit_def sbind_def)
  next
    case (Inr p)
    obtain ops batch where p: "p = (ops, batch)" by (cases p)
    obtain q' u where q': "sfold (commit_edge X batch) edges ops t = (q', u)"
      by (cases "sfold (commit_edge X batch) edges ops t")
    note edges = commit_edges_run [OF X meta_kept_ok [OF t] q']
    have tu: "meta_kept X t u" using edges meta_kept_grow [OF meta_kept_ok [OF t]] by blast
    show ?thesis
    proof (cases q')
      case (Inl m)
      with run q Inr p q' meta_kept_trans [OF t tu] show ?thesis by (auto simp: commit_def sbind_def)
    next
      case ops': (Inr ops')
      from nodes Inr p obtain o1 where o1: "ops = concat o1" "list_all2 (good_ops X t) (map INode nodes) o1" by auto
      from edges ops' obtain o2 its where o2: "ops' = ops @ concat o2" "list_all2 (good_ops X u) its o2" by auto
      have all: "list_all2 (good_ops X u) (map INode nodes @ its) (o1 @ o2)"
        by (rule list_all2_appendI [OF good_ops_all_grow [OF _ o1(2)] o2(2)]) (use edges in blast)
      obtain w v where w: "kv_wr (kv_write_batch (concat (o1 @ o2))) u = (w, v)"
        by (cases "kv_wr (kv_write_batch (concat (o1 @ o2))) u")
      have "s' = v" using run q Inr p q' ops' w o1 o2 by (auto simp: commit_def sbind_def split: sum.splits)
      then show ?thesis
        using meta_kept_batch [OF meta_kept_ok [OF tu] all w] meta_kept_trans [OF meta_kept_trans [OF t tu]] by blast
    qed
  qed
qed

lemma supersede_keeps_meta:
  assumes X: "externals_ok X" and ok: "store_ok X s" and target: "node_view X s (e_to e) = Some target"
    and run: "supersede_write X e target s = (r, s')"
  shows "meta_kept X s s'"
proof -
  obtain p q where p: "edge_put_ops X e Map.empty s = (p, q)" by (cases "edge_put_ops X e Map.empty s")
  have q: "meta_kept X s q" by (rule meta_kept_grow [OF ok edge_put_ops_cases(1) [OF X store_okD(1) [OF ok] p]])
  show ?thesis
  proof (cases p)
    case (Inl m)
    with run p q show ?thesis by (auto simp: supersede_write_def sbind_def smap_err_def)
  next
    case (Inr ops)
    let ?node = "if n_status target = Active then
              sbind (smap_err StoreErr (encode_node X (supersede_target e target))) (\<lambda>b.
              sok (ops @ [Put NODES (hash_bytes (e_to e)) b]))
            else sok ops"
    obtain v u where u: "?node q = (v, u)" by (cases "?node q")
    note wr = supersede_write_ops [OF X ok target p [unfolded Inr] u]
    have eu: "meta_kept X s u" by (rule meta_kept_grow [OF ok conjunct1 [OF wr]])
    show ?thesis
    proof (cases v)
      case (Inl m)
      with run p Inr u eu show ?thesis by (auto simp: supersede_write_def sbind_def smap_err_def)
    next
      case ops': (Inr ops')
      with wr obtain opss where opss: "ops' = concat opss" "list_all2 (good_ops X u) (supersede_items e target) opss" by auto
      obtain w x where w: "kv_wr (kv_write_batch (concat opss)) u = (w, x)" by (cases "kv_wr (kv_write_batch (concat opss)) u")
      have "s' = x" using run p Inr u ops' opss(1) w
        by (auto simp: supersede_write_def sbind_def smap_err_def sok_def split: sum.splits)
      then show ?thesis using meta_kept_batch [OF meta_kept_ok [OF eu] opss(2) w] meta_kept_trans [OF eu] by blast
    qed
  qed
qed

lemma supersession_keeps_meta:
  assumes "externals_ok X" "store_ok X s" "apply_supersession X e s = (r, s')"
  shows "meta_kept X s s'"
proof (cases "supersede_refusal X s e")
  case None
  then obtain target where t: "node_view X s (e_to e) = Some target" by (rule supersede_refusal_None)
  with None assms show ?thesis using supersede_keeps_meta [OF assms(1,2) t] by (simp add: apply_supersession_eq)
next
  case (Some m)
  with assms show ?thesis by (auto simp: apply_supersession_eq meta_kept_refl)
qed

lemma put_meta_failed:
  assumes X: "externals_ok X" and ok: "store_ok X s" and run: "put_meta X t k v s = (Inl e, s')"
  shows "meta_kept X s s'"
proof -
  obtain q u where q: "meta_encode X t k v s = (q, u)" by (cases "meta_encode X t k v s")
  have u: "meta_kept X s u" by (rule meta_kept_grow [OF ok meta_encode_cases(1) [OF X store_okD(1) [OF ok] q]])
  show ?thesis
  proof (cases q)
    case (Inl m)
    with run q u show ?thesis by (auto simp: put_meta_eq sbind_def)
  next
    case (Inr b)
    then have "kv_wr (kv_put META k b) u = (Inl e, s')" using run q by (simp add: put_meta_eq sbind_def)
    then show ?thesis using kv_put_meta_effect [OF meta_kept_ok [OF u]] by blast
  qed
qed

end
