(* ===== verification/Chain_Ingest_Safety.thy ===== *)
theory Chain_Ingest_Safety
  imports Federation_Meta Ingest_Safety Meta_Frame
begin

text \<open>
  What the ingestors of the chain and of the federation manifest may write: nodes of their reserved
  tenant and edges between such nodes; and that a block is taken in when nothing is in the way.
\<close>

section \<open>The policy of a reserved tenant\<close>

definition in_tenant :: "externals \<Rightarrow> string \<Rightarrow> content_hash \<Rightarrow> bool" where
  "in_tenant X T i \<longleftrightarrow> (\<exists>n. n_repo n = T \<and> node_id X n = i)"

fun tenant_policy :: "externals \<Rightarrow> string \<Rightarrow> item \<Rightarrow> bool" where
  "tenant_policy X T (INode n) \<longleftrightarrow> n_repo n = T"
| "tenant_policy X T (IEdge e) \<longleftrightarrow> e_plane e = Derived \<and> \<not> e_quarantined e \<and> in_tenant X T (e_from e) \<and> in_tenant X T (e_to e)"

definition lives :: "externals \<Rightarrow> string \<Rightarrow> dag_store \<Rightarrow> content_hash \<Rightarrow> bool" where
  "lives X T s i \<longleftrightarrow> (\<exists>n. node_view X s i = Some n \<and> n_repo n = T)"

lemma lives_in_tenant: "store_ok X s \<Longrightarrow> lives X T s i \<Longrightarrow> in_tenant X T i"
  unfolding lives_def in_tenant_def using node_view_id(1) by blast

lemma lives_kept:
  assumes "allowed_effect X (tenant_policy X T) s s'" "lives X T s i"
  shows "lives X T s' i"
proof -
  from assms obtain n where n: "node_view X s i = Some n" "n_repo n = T" by (auto simp: lives_def)
  then obtain m where m: "node_view X s' i = Some m" using allowed_keeps_nodes [OF assms(1)] by blast
  with allowed_origin(1) [OF assms(1) m] n show ?thesis by (auto simp: lives_def)
qed

lemma make_edge_policy:
  "tenant_policy X T (IEdge (make_edge a b k m now ev)) \<longleftrightarrow> in_tenant X T a \<and> in_tenant X T b"
  by (simp add: make_edge_def)

lemma supersessions_confined:
  assumes X: "externals_ok X" and ok: "store_ok X s"
    and es: "\<forall>e \<in> set es. tenant_policy X T (IEdge e) \<and> lives X T s (e_to e)"
    and run: "apply_supersessions X es s = (r, s')"
  shows "allowed_effect X (tenant_policy X T) s s'"
proof (rule sfold_invariant [where I = "allowed_effect X (tenant_policy X T) s", OF _ allowed_refl [OF ok] run [unfolded apply_supersessions_def]])
  fix e a z b z'
  assume e: "e \<in> set es" and z: "allowed_effect X (tenant_policy X T) s z" and "count_supersession X e a z = (b, z')"
  then obtain p where p: "apply_supersession X e z = (p, z')" using count_supersession_run by blast
  have "lives X T z (e_to e)" using lives_kept [OF z] es e by blast
  then show "allowed_effect X (tenant_policy X T) s z'"
    using es e by (intro allowed_supersession [OF X z _ _ p]) (auto simp: lives_def supersede_target_def)
qed

section \<open>The nodes of the chain\<close>

lemma chain_base_id: "node_id X ((chain_base kind key content vf now)\<lparr>n_embedding := v\<rparr>) = node_id X (chain_base kind key content 0 0)"
proof -
  have "chain_base kind key content vf now = (chain_base kind key content 0 0)\<lparr>n_valid_from := vf, n_observed_at := now\<rparr>"
    by (simp add: chain_base_def)
  then show ?thesis by (simp add: compute_id_updates)
qed

lemma chain_node_ok:
  assumes "finite_vectors emb" "chain_node kind key content vf now emb = Inr n"
  shows "n_repo n = CHAIN_STATE_TENANT" "json_safe n" "n_status n = Active" "n_kind n = kind"
    "node_id X n = node_id X (chain_base kind key content 0 0)" "in_tenant X CHAIN_STATE_TENANT (node_id X n)"
proof -
  from assms(2) obtain v where v: "ei_embed emb content = Inr v" "n = (chain_base kind key content vf now)\<lparr>n_embedding := Some v\<rparr>"
    by (auto simp: chain_node_def)
  then show "n_repo n = CHAIN_STATE_TENANT" "n_status n = Active" "n_kind n = kind" by (simp_all add: chain_base_def)
  then show "in_tenant X CHAIN_STATE_TENANT (node_id X n)" by (auto simp: in_tenant_def)
  show "json_safe n" using assms(1) v by (auto simp: json_safe_def finite_vectors_def)
  show "node_id X n = node_id X (chain_base kind key content 0 0)" using v(2) chain_base_id by simp
qed

abbreviation chain_policy :: "externals \<Rightarrow> item \<Rightarrow> bool" where
  "chain_policy X \<equiv> tenant_policy X CHAIN_STATE_TENANT"

abbreviation on_chain :: "externals \<Rightarrow> content_hash \<Rightarrow> bool" where
  "on_chain X \<equiv> in_tenant X CHAIN_STATE_TENANT"

definition chain_nodes_ok :: "memory_node list \<Rightarrow> bool" where
  "chain_nodes_ok ns \<longleftrightarrow> (\<forall>n \<in> set ns. n_repo n = CHAIN_STATE_TENANT \<and> json_safe n \<and> n_status n = Active)"

definition chain_edges_ok :: "externals \<Rightarrow> edge list \<Rightarrow> bool" where
  "chain_edges_ok X es \<longleftrightarrow> (\<forall>e \<in> set es. chain_policy X (IEdge e) \<and> e_kind e \<noteq> Supersedes)"

lemma chain_ok_append [simp]:
  "chain_nodes_ok (ns @ ms) \<longleftrightarrow> chain_nodes_ok ns \<and> chain_nodes_ok ms" "chain_nodes_ok []"
  "chain_edges_ok X (es @ fs) \<longleftrightarrow> chain_edges_ok X es \<and> chain_edges_ok X fs" "chain_edges_ok X []"
  by (auto simp: chain_nodes_ok_def chain_edges_ok_def)

lemma chain_ok_single [simp]:
  "chain_nodes_ok [n] \<longleftrightarrow> n_repo n = CHAIN_STATE_TENANT \<and> json_safe n \<and> n_status n = Active"
  "chain_edges_ok X (make_edge a b k m now ev # es) \<longleftrightarrow> on_chain X a \<and> on_chain X b \<and> k \<noteq> Supersedes \<and> chain_edges_ok X es"
  by (auto simp: chain_nodes_ok_def chain_edges_ok_def make_edge_def)

lemma chain_commit_allowed:
  assumes "externals_ok X" "store_ok X s" "chain_nodes_ok ns" "chain_edges_ok X es" "commit X ns es s = (r, s')"
  shows "allowed_effect X (chain_policy X) s s'"
  using assms by (intro allowed_commit [OF assms(1) allowed_refl [OF assms(2)] _ _ assms(5)])
    (auto simp: chain_nodes_ok_def chain_edges_ok_def)

lemma active_chain_nodes_live:
  assumes "store_ok X s" "active_chain_nodes X kind s = Inr ns" "n \<in> set ns"
  shows "node_view X s (node_id X n) = Some n" "lives X CHAIN_STATE_TENANT s (node_id X n)" "n_status n = Active"
proof -
  obtain all where all: "all_nodes X s = Inr all" "\<And>n. n \<in> set all \<longleftrightarrow> node_view X s (node_id X n) = Some n"
    by (rule all_nodes_spec [OF assms(1)]) (rule that)
  have "ns = filter (\<lambda>n. n_repo n = CHAIN_STATE_TENANT \<and> n_kind n = kind \<and> n_status n = Active) all"
    using assms(2) all(1) by (simp add: active_chain_nodes_def)
  with assms(3) have "n \<in> set all" "n_repo n = CHAIN_STATE_TENANT" "n_status n = Active" by simp_all
  with all(2) [THEN iffD1, OF this(1)]
  have n: "node_view X s (node_id X n) = Some n" "n_repo n = CHAIN_STATE_TENANT" "n_status n = Active" by blast+
  then show "node_view X s (node_id X n) = Some n" "lives X CHAIN_STATE_TENANT s (node_id X n)" "n_status n = Active"
    by (auto simp: lives_def)
qed

section \<open>The catalogue pass\<close>

lemma catalog_graph_ok:
  assumes emb: "finite_vectors emb" and run: "build_catalog_graph X cat now emb = Inr (ns, es)"
  shows "chain_nodes_ok ns" "chain_edges_ok X es"
proof -
  from run obtain net where net: "chain_node ChainNetwork (network_key (cat_chain_id cat)) (network_content cat) now now emb = Inr net"
      "rfold (add_contract X cat now emb (node_id X net)) (cat_entries cat) ([net], []) = Inr (ns, es)"
    by (auto simp: build_catalog_graph_def)
  note ok = chain_node_ok [OF emb net(1)]
  have "chain_nodes_ok (fst (ns, es)) \<and> chain_edges_ok X (snd (ns, es))"
  proof (rule rfold_invariant [where I = "\<lambda>p. chain_nodes_ok (fst p) \<and> chain_edges_ok X (snd p)", OF _ _ net(2)])
    show "chain_nodes_ok (fst ([net], [])) \<and> chain_edges_ok X (snd ([net], []))" using ok by simp
    fix e p q
    assume p: "chain_nodes_ok (fst p) \<and> chain_edges_ok X (snd p)" and "add_contract X cat now emb (node_id X net) e p = Inr q"
    then obtain n where n: "chain_node ChainContract (contract_key (cat_chain_id cat) e) (contract_content cat e) now now emb = Inr n"
        "q = (fst p @ [n], snd p @ [make_edge (node_id X n) (node_id X net) References Ingest now (Some ''deployed-on'')])"
      by (cases p) (auto simp: add_contract_def)
    show "chain_nodes_ok (fst q) \<and> chain_edges_ok X (snd q)"
      using p ok chain_node_ok [OF emb n(1)] by (simp add: n(2))
  qed
  then show "chain_nodes_ok ns" "chain_edges_ok X es" by simp_all
qed

lemma prior_contracts_origin:
  assumes "prior_contracts X ns l = Some (i, key)"
  shows "\<exists>n \<in> set ns. i = node_id X n"
proof -
  let ?f = "\<lambda>n m. case dag_key n of Some key \<Rightarrow> m(contract_logical_key key \<mapsto> (node_id X n, key)) | None \<Rightarrow> m"
  have "fold ?f ns m l = Some (i, key) \<Longrightarrow> m l = Some (i, key) \<or> (\<exists>n \<in> set ns. i = node_id X n)" for m
  proof (induction ns arbitrary: m)
    case (Cons n ns)
    then have "?f n m l = Some (i, key) \<or> (\<exists>n \<in> set ns. i = node_id X n)" by fastforce
    then show ?case by (auto split: option.splits if_splits)
  qed simp
  from this [of Map.empty] assms show ?thesis by (simp add: prior_contracts_def)
qed

lemma redeploy_target:
  assumes "redeploy X (prior_contracts X ns) now n = Some e"
  shows "\<exists>m \<in> set ns. \<exists>ev. e = make_edge (node_id X n) (node_id X m) Supersedes Ingest now ev"
  using assms prior_contracts_origin by (fastforce simp: redeploy_def split: option.splits if_splits)

lemma catalog_str_confined:
  assumes X: "externals_ok X" and emb: "finite_vectors emb"
  shows "confines X (chain_policy X) (ingest_chain_catalog_str X E txt emb now)"
  unfolding confines_def
proof (intro allI impI, elim conjE)
  fix s r s'
  assume ok: "store_ok X s" and run: "ingest_chain_catalog_str X E txt emb now s = (r, s')"
  show "allowed_effect X (chain_policy X) s s'"
  proof (cases "\<exists>cat ns es act. parse_catalog E txt = Inr cat \<and> build_catalog_graph X cat now emb = Inr (ns, es) \<and>
      active_chain_nodes X ChainContract s = Inr act")
    case False
    with run have "s' = s"
      by (auto simp: ingest_chain_catalog_str_def bind_simps split: sum.splits)
    with ok show ?thesis by (simp add: allowed_refl)
  next
    case True
    then obtain cat ns es act where d: "parse_catalog E txt = Inr cat" "build_catalog_graph X cat now emb = Inr (ns, es)"
        "active_chain_nodes X ChainContract s = Inr act"
      by blast
    define sup where "sup = List.map_filter (redeploy X (prior_contracts X act) now) (filter (\<lambda>n. n_kind n = ChainContract) ns)"
    note g = catalog_graph_ok [OF emb d(2)]
    obtain c q where c: "commit X ns es s = (c, q)" by (cases "commit X ns es s")
    have sq: "allowed_effect X (chain_policy X) s q" by (rule chain_commit_allowed [OF X ok g c])
    have sup_ok: "\<forall>e \<in> set sup. chain_policy X (IEdge e) \<and> lives X CHAIN_STATE_TENANT q (e_to e)"
    proof
      fix e
      assume "e \<in> set sup"
      then obtain n where n: "n \<in> set ns" "redeploy X (prior_contracts X act) now n = Some e"
        by (auto simp: sup_def List.map_filter_def)
      then obtain m ev where m: "m \<in> set act" "e = make_edge (node_id X n) (node_id X m) Supersedes Ingest now ev"
        using redeploy_target by blast
      note live = active_chain_nodes_live [OF ok d(3) m(1)]
      have "on_chain X (node_id X n)" using g(1) n(1) by (auto simp: chain_nodes_ok_def in_tenant_def)
      then show "chain_policy X (IEdge e) \<and> lives X CHAIN_STATE_TENANT q (e_to e)"
        using lives_kept [OF sq live(2)] lives_in_tenant [OF ok live(2)] m(2) make_edge_policy by (simp add: make_edge_def)
    qed
    define rest where "rest = (\<lambda>_ :: unit. sbind (apply_supersessions X sup) (\<lambda>(superseded, rejected).
        let w = \<lparr>wm_repo = CHAIN_STATE_TENANT, wm_head = Some (hash_hex X txt), wm_head_count = length ns, wm_ingested_at_ms = now\<rparr>
        in sbind (slift (map_err IngestSerde (ce_watermark_json E w))) (\<lambda>b.
           sbind (smap_err IngestStore (put_meta X CHAIN_STATE_TENANT (watermark_key CHAIN_STATE_TENANT) b)) (\<lambda>_.
           sok \<lparr>ccr_chain_id = cat_chain_id cat, ccr_contracts = length (cat_entries cat), ccr_superseded = superseded,
                ccr_supersessions_rejected = rejected, ccr_watermark = w\<rparr>))))"
    have go: "sbind (smap_err IngestStore (commit X ns es)) rest s = (r, s')"
      using run d by (simp add: ingest_chain_catalog_str_def bind_simps rest_def sup_def Let_def)
    show ?thesis
    proof (cases c)
      case (Inl m)
      with go c sq show ?thesis by (auto simp: sbind_def smap_err_def map_err_def)
    next
      case (Inr u)
      with go c have r: "rest () q = (r, s')" by (simp add: sbind_def smap_err_def)
      obtain a z where a: "apply_supersessions X sup q = (a, z)" by (cases "apply_supersessions X sup q")
      have qz: "allowed_effect X (chain_policy X) q z" by (rule supersessions_confined [OF X allowed_ok [OF sq] sup_ok a])
      have fin: "confines X (chain_policy X) (case a of Inl e \<Rightarrow> serr e | Inr (superseded, rejected) \<Rightarrow>
          let w = \<lparr>wm_repo = CHAIN_STATE_TENANT, wm_head = Some (hash_hex X txt), wm_head_count = length ns, wm_ingested_at_ms = now\<rparr>
          in sbind (slift (map_err IngestSerde (ce_watermark_json E w))) (\<lambda>b.
           sbind (smap_err IngestStore (put_meta X CHAIN_STATE_TENANT (watermark_key CHAIN_STATE_TENANT) b)) (\<lambda>_.
           sok \<lparr>ccr_chain_id = cat_chain_id cat, ccr_contracts = length (cat_entries cat), ccr_superseded = superseded,
                ccr_supersessions_rejected = rejected, ccr_watermark = w\<rparr>)))"
        unfolding Let_def by (cases a) (auto intro!: confines_sbind confines_pure confines_err confines_meta [OF X])
      have "allowed_effect X (chain_policy X) z s'"
        using fin [unfolded confines_def] allowed_ok [OF qz] r a
        by (auto simp: rest_def sbind_def [of "apply_supersessions X sup"] split: sum.splits)
      then show ?thesis by (rule allowed_trans [OF allowed_trans [OF sq qz]])
    qed
  qed
qed

lemma catalog_confined:
  "externals_ok X \<Longrightarrow> finite_vectors emb \<Longrightarrow> confines X (chain_policy X) (ingest_chain_catalog X E path emb now)"
  unfolding ingest_chain_catalog_def by (intro confines_slift catalog_str_confined)

section \<open>One block\<close>

definition walk_ok :: "externals \<Rightarrow> walk_params \<Rightarrow> walk_state \<Rightarrow> dag_store \<Rightarrow> bool" where
  "walk_ok X W k s \<longleftrightarrow> finite_vectors (wp_embedder W) \<and>
     (\<forall>h i key. (i, key) \<in> set (wk_heights k h) \<longrightarrow> lives X CHAIN_STATE_TENANT s i) \<and>
     (\<forall>a i. wp_contracts W a = Some i \<longrightarrow> on_chain X i) \<and>
     (\<forall>p i. wk_prev k = Some (p, i) \<longrightarrow> on_chain X i)"

lemma touch_edges_ok: "walk_ok X W k s \<Longrightarrow> on_chain X i \<Longrightarrow> chain_edges_ok X (touch_edges W i t)"
  by (auto simp: chain_edges_ok_def touch_edges_def List.map_filter_def walk_ok_def make_edge_def)

lemma spine_ok: "walk_ok X W k s \<Longrightarrow> on_chain X i \<Longrightarrow> chain_edges_ok X (spine_edge W i b (wk_prev k))"
  by (auto simp: spine_edge_def walk_ok_def split: option.splits)

lemma events_ok:
  assumes k: "walk_ok X W k s" and cp: "checkpoint_node W b = Inr cp"
    and run: "rfold (add_event X W b (node_id X cp)) txs ([cp], spine_edge W (node_id X cp) b (wk_prev k), n) = Inr (ns, es, m)"
  shows "chain_nodes_ok ns" "chain_edges_ok X es" "cp \<in> set ns"
proof -
  have emb: "finite_vectors (wp_embedder W)" using k by (simp add: walk_ok_def)
  note c = chain_node_ok [OF emb cp [unfolded checkpoint_node_def]]
  let ?I = "\<lambda>p :: memory_node list \<times> edge list \<times> nat. chain_nodes_ok (fst p) \<and> chain_edges_ok X (fst (snd p)) \<and> cp \<in> set (fst p)"
  have "?I (ns, es, m)"
  proof (rule rfold_invariant [where I = ?I, OF _ _ run])
    show "?I ([cp], spine_edge W (node_id X cp) b (wk_prev k), n)" using c spine_ok [OF k c(6)] by simp
    fix t p q
    assume p: "?I p" and step: "add_event X W b (node_id X cp) t p = Inr q"
    show "?I q"
    proof (cases "watched (wp_watch W) t")
      case False
      with p step show ?thesis by (auto simp: add_event_def split: prod.splits)
    next
      case True
      with step obtain ev where ev: "chain_node ChainEvent (event_key (wp_chain_id W) (tx_hash t)) (event_content (wp_chain_id W) b t)
            (saturating_millis (bl_timestamp_secs b)) (wp_now W) (wp_embedder W) = Inr ev"
          "fst q = fst p @ [ev]"
          "fst (snd q) = fst (snd p) @ [make_edge (node_id X cp) (node_id X ev) Emits Ingest (wp_now W) (Some (tx_hash t))] @
            touch_edges W (node_id X ev) t"
        by (auto simp: add_event_def split: prod.splits)
      note e = chain_node_ok [OF emb ev(1)]
      show ?thesis
        using p e(1-4) e(6) [of X] c(6) [of X] touch_edges_ok [OF k e(6), of t] unfolding ev(2,3) by simp
    qed
  qed
  then show "chain_nodes_ok ns" "chain_edges_ok X es" "cp \<in> set ns" by simp_all
qed

text \<open>The ways one block can end: before anything is written, in the commit, in the supersessions, or with the
  writing of the cursor.\<close>

lemma walk_block_cases:
  assumes run: "walk_block X E W b k s = (r, s')"
  obtains (nothing) e where "r = Inl e" "s' = s"
  | (written) cp ns es n c q where "checkpoint_node W b = Inr cp"
      "rfold (add_event X W b (node_id X cp)) (bl_txs b) ([cp], spine_edge W (node_id X cp) b (wk_prev k), ev_events (wk_report k)) = Inr (ns, es, n)"
      "commit X ns es s = (c, q)"
      "(\<exists>e m. c = Inl m \<and> r = Inl e \<and> s' = q) \<or>
       (\<exists>a z. c = Inr () \<and> apply_supersessions X (reorg_edges W (node_id X cp) (checkpoint_key (wp_chain_id W) (bl_number b) (bl_hash b))
            (wk_heights k (bl_number b))) q = (a, z) \<and>
          ((\<exists>e. a = Inl e \<and> r = Inl e \<and> s' = z) \<or>
           (\<exists>ap rj w. a = Inr (ap, rj) \<and>
              write_chain_cursor X E \<lparr>ec_chain_id = wp_chain_id W, ec_next_block = bl_number b + 1\<rparr> z = (w, s') \<and>
              ((\<exists>e. w = Inl e \<and> r = Inl e) \<or>
               w = Inr () \<and> r = Inr \<lparr>wk_report = \<lparr>ev_blocks = ev_blocks (wk_report k) + 1, ev_events = n,
                  ev_reorgs_superseded = ev_reorgs_superseded (wk_report k) + ap,
                  ev_supersessions_rejected = ev_supersessions_rejected (wk_report k) + rj,
                  ev_cursor = \<lparr>ec_chain_id = wp_chain_id W, ec_next_block = bl_number b + 1\<rparr>\<rparr>,
                wk_heights = (wk_heights k)(bl_number b := wk_heights k (bl_number b) @
                  [(node_id X cp, checkpoint_key (wp_chain_id W) (bl_number b) (bl_hash b))]),
                wk_prev = Some (bl_hash b, node_id X cp)\<rparr>))))"
proof (cases "checkpoint_node W b")
  case (Inl e)
  with run have "r = Inl e" "s' = s" by (simp_all add: walk_block_def bind_simps)
  then show thesis by (rule nothing)
next
  case cp: (Inr cp)
  let ?id = "node_id X cp" and ?key = "checkpoint_key (wp_chain_id W) (bl_number b) (bl_hash b)"
  show thesis
  proof (cases "rfold (add_event X W b ?id) (bl_txs b) ([cp], spine_edge W ?id b (wk_prev k), ev_events (wk_report k))")
    case (Inl e)
    with run cp have "r = Inl e" "s' = s" by (simp_all add: walk_block_def bind_simps Let_def)
    then show thesis by (rule nothing)
  next
    case (Inr p)
    obtain ns es n where p: "p = (ns, es, n)" by (cases p)
    obtain c q where c: "commit X ns es s = (c, q)" by (cases "commit X ns es s")
    obtain a z where a: "apply_supersessions X (reorg_edges W ?id ?key (wk_heights k (bl_number b))) q = (a, z)"
      by (cases "apply_supersessions X (reorg_edges W ?id ?key (wk_heights k (bl_number b))) q")
    let ?c = "\<lparr>ec_chain_id = wp_chain_id W, ec_next_block = bl_number b + 1\<rparr>"
    obtain w y where w: "write_chain_cursor X E ?c z = (w, y)" by (cases "write_chain_cursor X E ?c z")
    show thesis
      by (rule written [OF cp Inr [unfolded p] c])
        (use run cp Inr p c a w in \<open>auto simp: walk_block_def bind_simps Let_def sbind_def smap_err_def map_err_def sok_def
          split: sum.splits prod.splits\<close>)
  qed
qed

lemma walk_ok_kept: "allowed_effect X (chain_policy X) s s' \<Longrightarrow> walk_ok X W k s \<Longrightarrow> walk_ok X W k s'"
  unfolding walk_ok_def using lives_kept by blast

lemma cursor_confined: "externals_ok X \<Longrightarrow> confines X P (write_chain_cursor X E c)"
  unfolding write_chain_cursor_def by (intro confines_sbind confines_pure confines_err confines_meta)

lemma reorg_edges_ok:
  assumes "walk_ok X W k s" "store_ok X s" "on_chain X i"
  shows "\<forall>e \<in> set (reorg_edges W i key (wk_heights k h)). chain_policy X (IEdge e) \<and> lives X CHAIN_STATE_TENANT s (e_to e)"
proof
  fix e
  assume "e \<in> set (reorg_edges W i key (wk_heights k h))"
  then obtain old old_key ev where e: "(old, old_key) \<in> set (wk_heights k h)" "e = make_edge i old Supersedes Ingest (wp_now W) ev"
    by (auto simp: reorg_edges_def)
  then have l: "lives X CHAIN_STATE_TENANT s old" using assms(1) by (auto simp: walk_ok_def)
  show "chain_policy X (IEdge e) \<and> lives X CHAIN_STATE_TENANT s (e_to e)"
    unfolding e(2) make_edge_policy using l lives_in_tenant [OF assms(2) l] assms(3) by (simp add: make_edge_def)
qed

lemma walk_block_confined:
  assumes X: "externals_ok X" and ok: "store_ok X s" and k: "walk_ok X W k s" and run: "walk_block X E W b k s = (r, s')"
  shows "allowed_effect X (chain_policy X) s s'" "r = Inr k' \<Longrightarrow> walk_ok X W k' s'"
proof -
  let ?P = "chain_policy X"
  have "allowed_effect X ?P s s' \<and> (\<forall>k'. r = Inr k' \<longrightarrow> walk_ok X W k' s')"
    using run
  proof (cases rule: walk_block_cases)
    case (nothing e)
    then show ?thesis using allowed_refl [OF ok] by simp
  next
    case (written cp ns es n c q)
    have emb: "finite_vectors (wp_embedder W)" using k by (simp add: walk_ok_def)
    note cp = chain_node_ok [OF emb written(1) [unfolded checkpoint_node_def]]
    note g = events_ok [OF k written(1,2)]
    have sq: "allowed_effect X ?P s q" by (rule chain_commit_allowed [OF X ok g(1,2) written(3)])
    note kq = walk_ok_kept [OF sq k]
    have sz: "allowed_effect X ?P s z"
      if "apply_supersessions X (reorg_edges W (node_id X cp) key (wk_heights k (bl_number b))) q = (a, z)" for key a z
      by (rule allowed_trans [OF sq supersessions_confined [OF X allowed_ok [OF sq] reorg_edges_ok [OF kq allowed_ok [OF sq] cp(6)] that]])
    have wr: "allowed_effect X ?P s s'" if "allowed_effect X ?P s z" "write_chain_cursor X E cur z = (w, s')" for cur z w
      using cursor_confined [OF X, of ?P E cur] that allowed_ok [OF that(1)] allowed_trans [OF that(1)] unfolding confines_def by blast
    have cp_live: "lives X CHAIN_STATE_TENANT s' (node_id X cp)" if c: "c = Inr ()" and qs: "allowed_effect X ?P q s'"
    proof -
      have "effect X s q (commit_items X s ns es)"
        using commit_effect [OF X ok _ written(3)] g(1) c by (auto simp: chain_nodes_ok_def)
      from commit_reads_back [OF this, of "node_id X cp"] g(3) obtain m where "m \<in> set ns" "node_view X q (node_id X cp) = Some m"
        by blast
      then have "lives X CHAIN_STATE_TENANT q (node_id X cp)" using g(1) by (auto simp: lives_def chain_nodes_ok_def)
      then show ?thesis by (rule lives_kept [OF qs])
    qed
    from written(4) show ?thesis
    proof (elim disjE exE conjE)
      fix a z e ap rj w
      assume z: "apply_supersessions X (reorg_edges W (node_id X cp) (checkpoint_key (wp_chain_id W) (bl_number b) (bl_hash b))
            (wk_heights k (bl_number b))) q = (a, z)"
        and w: "write_chain_cursor X E \<lparr>ec_chain_id = wp_chain_id W, ec_next_block = bl_number b + 1\<rparr> z = (w, s')"
        and c: "c = Inr ()"
        and r: "r = Inr \<lparr>wk_report = \<lparr>ev_blocks = ev_blocks (wk_report k) + 1, ev_events = n,
                  ev_reorgs_superseded = ev_reorgs_superseded (wk_report k) + ap,
                  ev_supersessions_rejected = ev_supersessions_rejected (wk_report k) + rj,
                  ev_cursor = \<lparr>ec_chain_id = wp_chain_id W, ec_next_block = bl_number b + 1\<rparr>\<rparr>,
                wk_heights = (wk_heights k)(bl_number b := wk_heights k (bl_number b) @
                  [(node_id X cp, checkpoint_key (wp_chain_id W) (bl_number b) (bl_hash b))]),
                wk_prev = Some (bl_hash b, node_id X cp)\<rparr>"
      have qz: "allowed_effect X ?P q z"
        by (rule supersessions_confined [OF X allowed_ok [OF sq] reorg_edges_ok [OF kq allowed_ok [OF sq] cp(6)] z])
      have qs: "allowed_effect X ?P q s'"
        using cursor_confined [OF X, of ?P E] w allowed_ok [OF qz] allowed_trans [OF qz] unfolding confines_def by blast
      note ss = allowed_trans [OF sq qs]
      show ?thesis
        using ss walk_ok_kept [OF ss k] cp_live [OF c qs] cp(6) [of X] by (auto simp: r walk_ok_def)
    qed (use sq sz wr in blast)+
  qed
  then show "allowed_effect X (chain_policy X) s s'" "r = Inr k' \<Longrightarrow> walk_ok X W k' s'" by blast+
qed

section \<open>The walk\<close>

lemma walk_confined:
  assumes "walk X E W source to_block n k s = Some y" "externals_ok X" "store_ok X s" "walk_ok X W k s"
  shows "allowed_effect X (chain_policy X) s (snd y)"
proof -
  have "externals_ok X \<longrightarrow> store_ok X s \<longrightarrow> walk_ok X W k s \<longrightarrow> allowed_effect X (chain_policy X) s (snd y)"
    using assms(1)
  proof (rule walk.raw_induct [rotated])
    fix rec X E W source to_block n k s y
    assume IH: "\<And>X E W source to_block n k s y. rec X E W source to_block n k s = Some y \<Longrightarrow>
        externals_ok X \<longrightarrow> store_ok X s \<longrightarrow> walk_ok X W k s \<longrightarrow> allowed_effect X (chain_policy X) s (snd y)"
      and body: "(if n > to_block then Some (Inr k, s)
      else case source n of
             Inl e \<Rightarrow> Some (Inl e, s)
           | Inr None \<Rightarrow> Some (Inr k, s)
           | Inr (Some b) \<Rightarrow>
               (case walk_block X E W b k s of
                  (Inl e, s') \<Rightarrow> Some (Inl e, s')
                | (Inr k', s') \<Rightarrow> rec X E W source to_block (n + 1) k' s')) = Some y"
    show "externals_ok X \<longrightarrow> store_ok X s \<longrightarrow> walk_ok X W k s \<longrightarrow> allowed_effect X (chain_policy X) s (snd y)"
    proof (intro impI)
      assume a: "externals_ok X" "store_ok X s" "walk_ok X W k s"
      show "allowed_effect X (chain_policy X) s (snd y)"
      proof (cases "\<exists>b. \<not> n > to_block \<and> source n = Inr (Some b)")
        case False
        with body have "snd y = s" by (auto split: if_splits sum.splits option.splits)
        with a(2) show ?thesis by (simp add: allowed_refl)
      next
        case True
        then obtain b where b: "\<not> n > to_block" "source n = Inr (Some b)" by blast
        obtain r s1 where r: "walk_block X E W b k s = (r, s1)" by (cases "walk_block X E W b k s")
        note blk = walk_block_confined [OF a r]
        show ?thesis
        proof (cases r)
          case (Inl e)
          with body b r have "snd y = s1" by auto
          with blk(1) show ?thesis by simp
        next
          case (Inr k')
          with body b r have "rec X E W source to_block (n + 1) k' s1 = Some y" by simp
          with IH a(1) allowed_ok [OF blk(1)] blk(2) [OF Inr] have "allowed_effect X (chain_policy X) s1 (snd y)" by blast
          then show ?thesis by (rule allowed_trans [OF blk(1)])
        qed
      qed
    qed
  qed
  with assms show ?thesis by blast
qed

lemma contract_addresses_origin: "contract_addresses X ns a = Some i \<Longrightarrow> \<exists>n \<in> set ns. i = node_id X n"
proof -
  let ?f = "\<lambda>n m. case Option.bind (dag_key n) (rsplit_once_char CHR ''@'') of Some (_, addr) \<Rightarrow> m(addr \<mapsto> node_id X n) | None \<Rightarrow> m"
  have "fold ?f ns m a = Some i \<Longrightarrow> m a = Some i \<or> (\<exists>n \<in> set ns. i = node_id X n)" for m
  proof (induction ns arbitrary: m)
    case (Cons n ns)
    then have "?f n m a = Some i \<or> (\<exists>n \<in> set ns. i = node_id X n)" by fastforce
    then show ?case by (auto split: option.splits if_splits)
  qed simp
  from this [of Map.empty] show "contract_addresses X ns a = Some i \<Longrightarrow> ?thesis" by (simp add: contract_addresses_def)
qed

lemma heights_mem:
  "(i, key) \<in> set (checkpoints_by_height X cid ns h) \<longleftrightarrow>
     (\<exists>n \<in> set ns. i = node_id X n \<and> dag_key n = Some key \<and> checkpoint_height cid key = Some h)"
proof -
  let ?f = "\<lambda>n m. case dag_key n of
         None \<Rightarrow> m
       | Some key \<Rightarrow> (case checkpoint_height cid key of
           None \<Rightarrow> m
         | Some h \<Rightarrow> m(h := m h @ [(node_id X n, key)]))"
  have "(i, key) \<in> set (fold ?f ns m h) \<longleftrightarrow> (i, key) \<in> set (m h) \<or>
     (\<exists>n \<in> set ns. i = node_id X n \<and> dag_key n = Some key \<and> checkpoint_height cid key = Some h)" for m
  proof (induction ns arbitrary: m)
    case (Cons n ns)
    have "(i, key) \<in> set (?f n m h) \<longleftrightarrow> (i, key) \<in> set (m h) \<or>
        (i = node_id X n \<and> dag_key n = Some key \<and> checkpoint_height cid key = Some h)"
      by (auto split: option.splits)
    then show ?case by (simp add: Cons.IH)
  qed simp
  from this [of "\<lambda>_. []"] show ?thesis by (simp add: checkpoints_by_height_def)
qed

lemma start_walk_run:
  assumes "start_walk X E cid watch from_block emb now s = (r, s')"
  shows "s' = s" and "r = Inr (start, W, k) \<Longrightarrow> \<exists>cs cps. active_chain_nodes X ChainContract s = Inr cs \<and>
      active_chain_nodes X ChainCheckpoint s = Inr cps \<and>
      W = \<lparr>wp_chain_id = cid, wp_watch = norm_hex ` set watch, wp_contracts = contract_addresses X cs, wp_embedder = emb, wp_now = now\<rparr> \<and>
      k = \<lparr>wk_report = \<lparr>ev_blocks = 0, ev_events = 0, ev_reorgs_superseded = 0, ev_supersessions_rejected = 0,
          ev_cursor = \<lparr>ec_chain_id = cid, ec_next_block = start\<rparr>\<rparr>, wk_heights = checkpoints_by_height X cid cps, wk_prev = None\<rparr>"
    and "r = Inr (start, W, k) \<Longrightarrow> from_block = Some h \<Longrightarrow> start = h"
    and "r = Inr (start, W, k) \<Longrightarrow> from_block = None \<Longrightarrow>
      \<exists>c. read_chain_cursor X E cid s = Inr c \<and> start = (case c of Some c \<Rightarrow> ec_next_block c | None \<Rightarrow> 0)"
  using assms by (auto simp: start_walk_def sbind_def split: option.splits sum.splits prod.splits)

lemma start_walk_ok:
  assumes "store_ok X s" "finite_vectors emb" "start_walk X E cid watch from_block emb now s = (Inr (start, W, k), s')"
  shows "walk_ok X W k s"
proof -
  obtain cs cps where d: "active_chain_nodes X ChainContract s = Inr cs" "active_chain_nodes X ChainCheckpoint s = Inr cps"
      "wp_contracts W = contract_addresses X cs" "wp_embedder W = emb" "wk_heights k = checkpoints_by_height X cid cps" "wk_prev k = None"
    using start_walk_run(2) [OF assms(3) refl] by auto
  have "on_chain X i" if "contract_addresses X cs a = Some i" for a i
    using contract_addresses_origin [OF that] active_chain_nodes_live(2) [OF assms(1) d(1)] lives_in_tenant [OF assms(1)] by blast
  moreover have "lives X CHAIN_STATE_TENANT s i" if "(i, key) \<in> set (checkpoints_by_height X cid cps h)" for h i key
    using that active_chain_nodes_live(2) [OF assms(1) d(2)] by (auto simp: heights_mem)
  ultimately show ?thesis using assms(2) d by (simp add: walk_ok_def)
qed

lemma events_confined:
  assumes "externals_ok X" "store_ok X s" "finite_vectors emb"
    and "ingest_chain_events X E source cid watch from_block to_block emb now s = Some (r, s')"
  shows "allowed_effect X (chain_policy X) s s'"
proof -
  obtain p s1 where p: "start_walk X E cid watch from_block emb now s = (p, s1)" by (cases "start_walk X E cid watch from_block emb now s")
  note st = start_walk_run(1) [OF p]
  show ?thesis
  proof (cases p)
    case (Inl e)
    with assms p st show ?thesis by (auto simp: ingest_chain_events_def allowed_refl)
  next
    case (Inr q)
    obtain start W k where q: "q = (start, W, k)" by (cases q)
    have k: "walk_ok X W k s" by (rule start_walk_ok [OF assms(2,3) p [unfolded Inr q]])
    from assms(4) p Inr q st obtain y where "walk X E W source to_block start k s = Some y" "s' = snd y"
      by (auto simp: ingest_chain_events_def)
    with walk_confined [OF this(1) assms(1,2) k] show ?thesis by simp
  qed
qed

section \<open>The federation manifest\<close>

definition manifest_ok :: "manifest_state \<Rightarrow> bool" where
  "manifest_ok m \<longleftrightarrow> bt_ok (ms_repos m) \<and> bt_ok (ms_deps m) \<and> (\<forall>(name, r) \<in> set (ms_repos m). mr_name r = name)"

lemma bt_insert_values: "p \<in> set (bt_insert k v m) \<Longrightarrow> p = (k, v) \<or> p \<in> set m"
  by (induction k v m rule: bt_insert.induct) (auto split: if_splits)

lemma manifest_line_ok: "manifest_ok m \<Longrightarrow> manifest_ok (manifest_line raw m)"
proof -
  assume m: "manifest_ok m"
  have flush: "manifest_ok (flush_drift m)"
    using m by (auto simp: manifest_ok_def flush_drift_def split: prod.splits option.splits)
  have header: "manifest_ok (manifest_header l m)" for l
    using flush by (auto simp: manifest_ok_def manifest_header_def Let_def fresh_repo_def split: option.splits dest!: bt_insert_values)
  have field: "mr_name (set_field key v r) = mr_name r" for key v r by (simp add: set_field_def)
  have pair: "manifest_ok (manifest_pair key v m)" for key v
    using m by (auto simp: manifest_ok_def manifest_pair_def field split: manifest_section.splits option.splits
        dest!: bt_insert_values map_of_SomeD)
  show ?thesis using m header pair by (auto simp: manifest_line_def Let_def split: option.splits)
qed

lemma parse_manifest_distinct:
  assumes "parse_manifest txt = (repos, deps)"
  shows "distinct (map mr_name repos)"
proof -
  define m where "m = flush_drift (fold manifest_line (str_lines txt) empty_manifest)"
  have "manifest_ok (fold manifest_line ls m0)" if "manifest_ok m0" for ls m0
    using that by (induction ls arbitrary: m0) (simp_all add: manifest_line_ok)
  moreover have "manifest_ok empty_manifest" by (simp add: manifest_ok_def empty_manifest_def)
  ultimately have "manifest_ok (fold manifest_line (str_lines txt) empty_manifest)" by blast
  then have m: "manifest_ok m" by (auto simp: m_def manifest_ok_def flush_drift_def split: prod.splits option.splits)
  have "repos = map snd (ms_repos m)" using assms by (simp add: parse_manifest_def Let_def m_def)
  then have "map mr_name repos = map fst (ms_repos m)" using m by (auto simp: manifest_ok_def)
  moreover have "distinct (map fst (ms_repos m))" using m bt_ok_distinct [of "ms_repos m"] by (simp add: manifest_ok_def)
  ultimately show ?thesis by simp
qed

lemma tenant_node_ok:
  assumes "finite_vectors emb" "tenant_node r now emb = Inr n"
  shows "n_repo n = FEDERATION_TENANT" "json_safe n" "node_id X n = node_id X (tenant_base r 0)"
proof -
  from assms(2) obtain v where v: "ei_embed emb (tenant_content r) = Inr v" "n = (tenant_base r now)\<lparr>n_embedding := Some v\<rparr>"
    by (auto simp: tenant_node_def)
  then show "n_repo n = FEDERATION_TENANT" by (simp add: tenant_base_def)
  show "json_safe n" using assms(1) v by (auto simp: json_safe_def finite_vectors_def)
  have "tenant_base r now = (tenant_base r 0)\<lparr>n_valid_from := now, n_observed_at := now\<rparr>" by (simp add: tenant_base_def)
  then show "node_id X n = node_id X (tenant_base r 0)" by (simp add: v(2) compute_id_updates)
qed

lemma tenants_ok:
  assumes "finite_vectors emb" "rfold (insert_tenant now emb) repos [] = Inr nodes" "distinct (map mr_name repos)"
  shows "length nodes = length repos"
    and "(name, n) \<in> set nodes \<Longrightarrow> n_repo n = FEDERATION_TENANT \<and> json_safe n"
    and "r \<in> set repos \<Longrightarrow> \<exists>n. map_of nodes (mr_name r) = Some n \<and> (mr_name r, n) \<in> set nodes \<and> node_id X n = node_id X (tenant_base r 0)"
    and "map_of nodes name = Some n \<Longrightarrow> \<exists>r \<in> set repos. mr_name r = name \<and> node_id X n = node_id X (tenant_base r 0)"
proof -
  have gen: "rfold (insert_tenant now emb) rs ns = Inr ms \<Longrightarrow> distinct (map mr_name rs) \<Longrightarrow> bt_ok ns \<Longrightarrow>
      fst ` set ns \<inter> mr_name ` set rs = {} \<Longrightarrow>
      bt_ok ms \<and> fst ` set ms = fst ` set ns \<union> mr_name ` set rs \<and>
      (\<forall>name n. map_of ms name = Some n \<longrightarrow> map_of ns name = Some n \<or> (\<exists>r \<in> set rs. mr_name r = name \<and> tenant_node r now emb = Inr n))" for rs ns ms
  proof (induction rs arbitrary: ns)
    case (Cons r rs)
    from Cons.prems(1) obtain n where n: "tenant_node r now emb = Inr n" "rfold (insert_tenant now emb) rs (bt_insert (mr_name r) n ns) = Inr ms"
      by (auto simp: insert_tenant_def [of now emb r])
    note IH = Cons.IH [OF n(2)]
    have "bt_ok ms \<and> fst ` set ms = fst ` set (bt_insert (mr_name r) n ns) \<union> mr_name ` set rs \<and>
      (\<forall>name m. map_of ms name = Some m \<longrightarrow> map_of (bt_insert (mr_name r) n ns) name = Some m \<or>
         (\<exists>r \<in> set rs. mr_name r = name \<and> tenant_node r now emb = Inr m))"
      by (rule IH) (use Cons.prems in auto)
    then show ?case using n(1) by (auto split: if_splits)
  qed auto
  have ok: "bt_ok nodes" and dom: "fst ` set nodes = mr_name ` set repos"
    and from_repo: "\<And>name n. map_of nodes name = Some n \<Longrightarrow> \<exists>r \<in> set repos. mr_name r = name \<and> tenant_node r now emb = Inr n"
    using gen [OF assms(2,3)] by simp_all
  have "length nodes = card (fst ` set nodes)" using bt_ok_distinct [OF ok] distinct_card [of "map fst nodes"] by simp
  moreover have "card (mr_name ` set repos) = length repos" using distinct_card [OF assms(3)] by simp
  ultimately show "length nodes = length repos" using dom by simp
  show origin: "\<exists>r \<in> set repos. mr_name r = name \<and> node_id X n = node_id X (tenant_base r 0)" if "map_of nodes name = Some n" for name n
    using from_repo [OF that] tenant_node_ok(3) [OF assms(1)] by blast
  show "n_repo n = FEDERATION_TENANT \<and> json_safe n" if "(name, n) \<in> set nodes"
  proof -
    have "map_of nodes name = Some n" using that bt_ok_mem_iff [OF ok] by blast
    then show ?thesis using from_repo tenant_node_ok(1,2) [OF assms(1)] by blast
  qed
  show "\<exists>n. map_of nodes (mr_name r) = Some n \<and> (mr_name r, n) \<in> set nodes \<and> node_id X n = node_id X (tenant_base r 0)" if r: "r \<in> set repos"
  proof -
    have "mr_name r \<in> fst ` set nodes" using dom r by simp
    then obtain n where n: "map_of nodes (mr_name r) = Some n" by (metis map_of_eq_None_iff option.exhaust)
    from origin [OF n] obtain r' where r': "r' \<in> set repos" "mr_name r' = mr_name r" "node_id X n = node_id X (tenant_base r' 0)" by blast
    have "r' = r" using r' r assms(3) by (simp add: distinct_map inj_on_def)
    with n map_of_SomeD [OF n] r'(3) show ?thesis by simp
  qed
qed

lemma links_ok:
  "(\<forall>e \<in> set (fst (fold (link_dep X now nodes) deps p)). e \<in> set (fst p) \<or>
      (\<exists>a b. a \<in> snd ` set nodes \<and> b \<in> snd ` set nodes \<and> e = depends_on X a b now)) \<and>
   length (fst (fold (link_dep X now nodes) deps p)) + snd (fold (link_dep X now nodes) deps p) = length (fst p) + snd p + length deps \<and>
   set (fst p) \<subseteq> set (fst (fold (link_dep X now nodes) deps p)) \<and>
   (\<forall>d \<in> set deps. \<forall>a b. map_of nodes (dd_consumer d) = Some a \<longrightarrow> map_of nodes (dd_dep_repo d) = Some b \<longrightarrow>
      depends_on X a b now \<in> set (fst (fold (link_dep X now nodes) deps p)))"
proof (induction deps arbitrary: p)
  case (Cons d deps)
  have step: "\<forall>e \<in> set (fst (link_dep X now nodes d p)). e \<in> set (fst p) \<or>
      (\<exists>a b. a \<in> snd ` set nodes \<and> b \<in> snd ` set nodes \<and> e = depends_on X a b now)"
    "length (fst (link_dep X now nodes d p)) + snd (link_dep X now nodes d p) = Suc (length (fst p) + snd p)"
    "set (fst p) \<subseteq> set (fst (link_dep X now nodes d p))"
    by (fastforce simp: link_dep_def split: prod.splits option.splits dest!: map_of_SomeD)+
  have link: "depends_on X a b now \<in> set (fst (link_dep X now nodes d p))"
    if "map_of nodes (dd_consumer d) = Some a" "map_of nodes (dd_dep_repo d) = Some b" for a b
    using that by (cases p) (simp add: link_dep_def)
  note IH = Cons.IH [of "link_dep X now nodes d p"]
  show ?case
  proof (intro conjI ballI allI impI)
    show "e \<in> set (fst p) \<or> (\<exists>a b. a \<in> snd ` set nodes \<and> b \<in> snd ` set nodes \<and> e = depends_on X a b now)"
      if "e \<in> set (fst (fold (link_dep X now nodes) (d # deps) p))" for e
      using that IH step(1) by (metis (no_types, lifting) fold_simps(2))
    show "length (fst (fold (link_dep X now nodes) (d # deps) p)) + snd (fold (link_dep X now nodes) (d # deps) p) =
        length (fst p) + snd p + length (d # deps)" using IH step(2) by simp
    show "set (fst p) \<subseteq> set (fst (fold (link_dep X now nodes) (d # deps) p))" using IH step(3) by auto
    show "depends_on X a b now \<in> set (fst (fold (link_dep X now nodes) (d # deps) p))"
      if "c \<in> set (d # deps)" "map_of nodes (dd_consumer c) = Some a" "map_of nodes (dd_dep_repo c) = Some b" for c a b
      using that IH link [of a b] by auto
  qed
qed simp

lemma meta_graph_ok:
  assumes "finite_vectors emb" "rfold (insert_tenant now emb) repos [] = Inr nodes" "distinct (map mr_name repos)"
    and "fold (link_dep X now nodes) deps ([], 0) = (edges, skipped)"
  shows "\<forall>n \<in> set (map snd nodes). json_safe n \<and> tenant_policy X FEDERATION_TENANT (INode n)"
    and "\<forall>e \<in> set edges. tenant_policy X FEDERATION_TENANT (IEdge e)"
proof -
  show nodes: "\<forall>n \<in> set (map snd nodes). json_safe n \<and> tenant_policy X FEDERATION_TENANT (INode n)"
    using tenants_ok(2) [OF assms(1-3)] by auto
  show "\<forall>e \<in> set edges. tenant_policy X FEDERATION_TENANT (IEdge e)"
  proof
    fix e
    assume "e \<in> set edges"
    then have "\<exists>a b. a \<in> snd ` set nodes \<and> b \<in> snd ` set nodes \<and> e = depends_on X a b now"
      using links_ok [of X now nodes deps "([], 0)", unfolded assms(4)] by simp
    then show "tenant_policy X FEDERATION_TENANT (IEdge e)" using nodes by (auto simp: depends_on_def in_tenant_def)
  qed
qed

lemma federation_str_confined:
  assumes X: "externals_ok X" and emb: "finite_vectors emb"
  shows "confines X (tenant_policy X FEDERATION_TENANT) (ingest_federation_meta_str X E manifest emb now)"
proof -
  obtain repos deps where m: "parse_manifest manifest = (repos, deps)" by (cases "parse_manifest manifest")
  have commits: "confines X (tenant_policy X FEDERATION_TENANT) (commit X (map snd nodes) edges)"
    if "rfold (insert_tenant now emb) repos [] = Inr nodes" "fold (link_dep X now nodes) deps ([], 0) = (edges, skipped)" for nodes edges skipped
    unfolding confines_def using meta_graph_ok [OF emb that(1) parse_manifest_distinct [OF m] that(2)]
    by (auto intro!: allowed_commit [OF X allowed_refl])
  show ?thesis
    unfolding ingest_federation_meta_str_def m Let_def prod.case
  proof (rule confines_slift)
    fix nodes
    assume nodes: "rfold (insert_tenant now emb) repos [] = Inr nodes"
    obtain edges skipped where e: "fold (link_dep X now nodes) deps ([], 0) = (edges, skipped)"
      by (cases "fold (link_dep X now nodes) deps ([], 0)")
    show "confines X (tenant_policy X FEDERATION_TENANT) (case fold (link_dep X now nodes) deps ([], 0) of (edges, skipped) \<Rightarrow>
         sbind (smap_err IngestStore (commit X (map snd nodes) edges)) (\<lambda>_.
            sbind (slift (map_err IngestSerde (ce_watermark_json E \<lparr>wm_repo = FEDERATION_TENANT, wm_head = Some (hash_hex X manifest),
                wm_head_count = length nodes, wm_ingested_at_ms = now\<rparr>))) (\<lambda>b.
            sbind (smap_err IngestStore (put_meta X FEDERATION_TENANT (watermark_key FEDERATION_TENANT) b)) (\<lambda>_.
            sok \<lparr>mt_tenants = length nodes, mt_depends_on = length edges, mt_skipped_deps = skipped,
              mt_watermark = \<lparr>wm_repo = FEDERATION_TENANT, wm_head = Some (hash_hex X manifest),
                wm_head_count = length nodes, wm_ingested_at_ms = now\<rparr>\<rparr>))))"
      unfolding e prod.case
      by (intro confines_sbind confines_err confines_pure confines_meta [OF X] commits [OF nodes e])
  qed
qed

lemma federation_confined:
  "externals_ok X \<Longrightarrow> finite_vectors emb \<Longrightarrow> confines X (tenant_policy X FEDERATION_TENANT) (ingest_federation_meta X E path emb now)"
  unfolding ingest_federation_meta_def by (intro confines_slift federation_str_confined)

lemma commit_edges_read:
  assumes "effect X s q (commit_items X s ns es)" "\<forall>e \<in> set es. \<not> e_quarantined e" "e \<in> set es"
  shows "\<exists>e' \<in> set es. edge_view X q (edge_key e') = Some e' \<and> edge_key e' = edge_key e"
proof -
  have "filter (\<lambda>e. \<not> demoting X s e) es = es" using assms(2) by (simp add: demoting_def)
  then have view: "edge_view X q = fold (\<lambda>e m. m(edge_key e \<mapsto> e)) es (edge_view X s)"
    using assms(1) by (simp add: effect_def commit_items_def)
  have "e \<in> set es \<Longrightarrow> \<exists>e' \<in> set es. fold (\<lambda>e m. m(edge_key e \<mapsto> e)) es m (edge_key e) = Some e' \<and> edge_key e' = edge_key e" for m
  proof (induction es rule: rev_induct)
    case (snoc x es)
    then show ?case by (cases "edge_key e = edge_key x") auto
  qed simp
  from this [OF assms(3), of "edge_view X s"] obtain e' where "e' \<in> set es" "edge_view X q (edge_key e) = Some e'" "edge_key e' = edge_key e"
    unfolding view by blast
  then show ?thesis by (intro bexI [of _ e']) simp_all
qed

text \<open>A federation pass that succeeds has stored what the manifest declares: a node per repository, and an
  edge for every dependency between two declared repositories; the others are counted.\<close>

theorem federation_meta_complete:
  assumes "externals_ok X" "store_ok X s" "finite_vectors emb" "parse_manifest manifest = (repos, deps)"
    and "ingest_federation_meta_str X E manifest emb now s = (Inr rep, s')"
  shows "mt_tenants rep = length repos \<and> mt_depends_on rep + mt_skipped_deps rep = length deps \<and>
    (\<forall>r \<in> set repos. node_view X s' (node_id X (tenant_base r 0)) \<noteq> None) \<and>
    (\<forall>d \<in> set deps. \<forall>a \<in> set repos. \<forall>b \<in> set repos. mr_name a = dd_consumer d \<longrightarrow> mr_name b = dd_dep_repo d \<longrightarrow>
       (\<exists>e. edge_view X s' (edge_key e) = Some e \<and> e_kind e = DependsOn \<and> \<not> e_quarantined e \<and>
          e_from e = node_id X (tenant_base a 0) \<and> e_to e = node_id X (tenant_base b 0)))"
proof -
  note dist = parse_manifest_distinct [OF assms(4)]
  from assms(4,5) obtain nodes where nodes: "rfold (insert_tenant now emb) repos [] = Inr nodes"
    by (auto simp: ingest_federation_meta_str_def sbind_Inr_iff)
  obtain edges skipped where fold: "fold (link_dep X now nodes) deps ([], 0) = (edges, skipped)"
    by (cases "fold (link_dep X now nodes) deps ([], 0)")
  from assms(4,5) nodes fold obtain q b where d: "rfold (insert_tenant now emb) repos [] = Inr nodes"
      "fold (link_dep X now nodes) deps ([], 0) = (edges, skipped)" "commit X (map snd nodes) edges s = (Inr (), q)"
      "put_meta X FEDERATION_TENANT (watermark_key FEDERATION_TENANT) b q = (Inr (), s')"
      "mt_tenants rep = length nodes" "mt_depends_on rep = length edges" "mt_skipped_deps rep = skipped"
    by (auto simp: ingest_federation_meta_str_def Let_def sbind_Inr_iff)
  note t = tenants_ok [OF assms(3) d(1) dist]
  note links = links_ok [of X now nodes deps "([], 0)", unfolded d(2)]
  have eff: "effect X s q (commit_items X s (map snd nodes) edges)"
    using commit_effect [OF assms(1,2) _ d(3)] meta_graph_ok(1) [OF assms(3) d(1) dist d(2)] by auto
  have meta: "effect X q s' []" using put_meta_effect [OF assms(1) effect_ok [OF eff] d(4)] by blast
  then have view: "node_view X s' = node_view X q" "edge_view X s' = edge_view X q" by (simp_all add: effect_def)
  have stored: "node_view X s' (node_id X (tenant_base r 0)) \<noteq> None" if r: "r \<in> set repos" for r
  proof -
    obtain n where n: "(mr_name r, n) \<in> set nodes" "node_id X n = node_id X (tenant_base r 0)" using t(3) [OF r] by blast
    from n(1) have "n \<in> set (map snd nodes)" by (simp add: rev_image_eqI)
    then have "node_id X (tenant_base r 0) \<in> node_id X ` set (map snd nodes)" unfolding n(2) [symmetric] by (rule imageI)
    from commit_reads_back [OF eff this] show ?thesis by (auto simp: view)
  qed
  have plain: "\<forall>e \<in> set edges. \<not> e_quarantined e" using meta_graph_ok(2) [OF assms(3) d(1) dist d(2)] by auto
  have linked: "\<exists>e. edge_view X s' (edge_key e) = Some e \<and> e_kind e = DependsOn \<and> \<not> e_quarantined e \<and>
          e_from e = node_id X (tenant_base a 0) \<and> e_to e = node_id X (tenant_base b 0)"
    if c: "c \<in> set deps" "a \<in> set repos" "b \<in> set repos" "mr_name a = dd_consumer c" "mr_name b = dd_dep_repo c" for c a b
  proof -
    obtain m n where mn: "map_of nodes (dd_consumer c) = Some m" "node_id X m = node_id X (tenant_base a 0)"
        "map_of nodes (dd_dep_repo c) = Some n" "node_id X n = node_id X (tenant_base b 0)"
      using t(3) [OF c(2), of X] t(3) [OF c(3), of X] c(4,5) by auto
    then have "depends_on X m n now \<in> set edges" using links c(1) by simp
    from commit_edges_read [OF eff plain this] obtain e where e: "e \<in> set edges" "edge_view X q (edge_key e) = Some e"
        "edge_key e = edge_key (depends_on X m n now)"
      by blast
    from e(3) mn have "e_kind e = DependsOn" "e_from e = node_id X (tenant_base a 0)" "e_to e = node_id X (tenant_base b 0)"
      by (simp_all add: edge_key_inject depends_on_def)
    with plain e(1,2) show ?thesis unfolding view by blast
  qed
  show ?thesis using t(1) d(5-7) links stored linked by simp
qed

text \<open>C24. The projections keep to their reserved tenants. Whatever a catalogue, a block source or a manifest
  says, after a pass over it, a failed one too, every node that reads differently belongs to the
  tenant \<^verbatim>\<open>chain-state\<close>, respectively \<^verbatim>\<open>federation\<close>, and every edge that reads differently is a confirmed Derived edge
  between two nodes of that tenant. No node disappears.\<close>

theorem projections_are_confined:
  assumes "externals_ok X" "store_ok X s" "finite_vectors emb"
    and "(\<exists>r. ingest_chain_catalog X E path emb now s = (r, s')) \<and> T = CHAIN_STATE_TENANT \<or>
      (\<exists>r. ingest_chain_events X E source cid watch from_block to_block emb now s = Some (r, s')) \<and> T = CHAIN_STATE_TENANT \<or>
      (\<exists>r. ingest_federation_meta X E path emb now s = (r, s')) \<and> T = FEDERATION_TENANT"
  shows "store_ok X s' \<and>
    (\<forall>nid n. node_view X s' nid = Some n \<longrightarrow> node_view X s nid = Some n \<or> n_repo n = T) \<and>
    (\<forall>nid. node_view X s nid \<noteq> None \<longrightarrow> node_view X s' nid \<noteq> None) \<and>
    (\<forall>k e. edge_view X s' k = Some e \<longrightarrow> edge_view X s k = Some e \<or>
       e_plane e = Derived \<and> \<not> e_quarantined e \<and>
       (\<exists>a b. n_repo a = T \<and> n_repo b = T \<and> e_from e = node_id X a \<and> e_to e = node_id X b))"
proof -
  have "allowed_effect X (tenant_policy X T) s s'"
    using assms(4) catalog_confined [OF assms(1,3), of E path now] federation_confined [OF assms(1,3), of E path now]
      events_confined [OF assms(1-3)] assms(2)
    unfolding confines_def by blast
  note a = this
  show ?thesis
  proof (intro conjI allI impI)
    show "store_ok X s'" by (rule allowed_ok [OF a])
    show "node_view X s nid = Some n \<or> n_repo n = T" if "node_view X s' nid = Some n" for nid n
      using allowed_origin(1) [OF a that] by simp
    show "node_view X s' nid \<noteq> None" if "node_view X s nid \<noteq> None" for nid
      using allowed_keeps_nodes [OF a] that by blast
    show "edge_view X s k = Some e \<or> e_plane e = Derived \<and> \<not> e_quarantined e \<and>
       (\<exists>a b. n_repo a = T \<and> n_repo b = T \<and> e_from e = node_id X a \<and> e_to e = node_id X b)" if "edge_view X s' k = Some e" for k e
      using allowed_origin(2) [OF a that] by (simp add: in_tenant_def) metis
  qed
qed

section \<open>Nothing in the way\<close>

text \<open>A step can fail for the embedder, for an encoder or for the store. When none of them does, a block is
  always taken in.\<close>

definition unhindered :: "externals \<Rightarrow> chain_env \<Rightarrow> embed_impl \<Rightarrow> bool" where
  "unhindered X E emb \<longleftrightarrow> externals_total X \<and> (\<forall>t. \<exists>v. ei_embed emb t = Inr v) \<and> (\<forall>c. \<exists>b. ce_cursor_to_json E c = Inr b)"

lemma chain_node_total:
  assumes "unhindered X E emb"
  shows "\<exists>n. chain_node kind key content vf now emb = Inr n"
proof -
  obtain v where "ei_embed emb content = Inr v" using assms by (auto simp: unhindered_def)
  then show ?thesis by (simp add: chain_node_def)
qed

lemma events_total:
  assumes "unhindered X E (wp_embedder W)"
  shows "\<exists>q. rfold (add_event X W b cp) txs p = Inr q"
proof (induction txs arbitrary: p)
  case (Cons t txs)
  obtain ns es n where p: "p = (ns, es, n)" by (cases p)
  obtain ev where "chain_node ChainEvent (event_key (wp_chain_id W) (tx_hash t)) (event_content (wp_chain_id W) b t)
      (saturating_millis (bl_timestamp_secs b)) (wp_now W) (wp_embedder W) = Inr ev"
    using chain_node_total [OF assms] by blast
  then have "\<exists>q. add_event X W b cp t p = Inr q" by (simp add: add_event_def p)
  then obtain q where q: "add_event X W b cp t p = Inr q" by blast
  with Cons.IH [of q] show ?case by simp
next
  case Nil
  show ?case by (cases p) simp
qed

lemma supersessions_total:
  assumes X: "externals_ok X" "externals_total X" and s: "store_ok X s" "\<not> ds_encrypt s"
  shows "\<exists>p s'. apply_supersessions X es s = (Inr p, s') \<and> store_ok X s'"
proof -
  have "\<exists>p s'. sfold (count_supersession X) es (0, 0) s = (Inr p, s') \<and> store_ok X s' \<and> \<not> ds_encrypt s'"
  proof (rule sfold_total [where I = "\<lambda>_ z. store_ok X z \<and> \<not> ds_encrypt z"])
    fix e and a :: "nat \<times> nat" and z
    assume z: "store_ok X z \<and> \<not> ds_encrypt z"
    obtain r z' where r: "apply_supersession X e z = (r, z')" by (cases "apply_supersession X e z")
    have "\<forall>x. r \<noteq> Inl (StoreErr x)"
    proof (cases "supersede_refusal X z e")
      case None
      obtain z'' where "supersede_write X e (the (node_view X z (e_to e))) z =
          (Inr (n_status (the (node_view X z (e_to e))) = Active), z'')"
        using supersede_write_total [OF X] z by blast
      with r z None show ?thesis by (auto simp: apply_supersession_eq)
    next
      case (Some m)
      then have "\<forall>x. m \<noteq> StoreErr x" by (auto simp: supersede_refusal_def split: if_splits option.splits)
      with r z Some show ?thesis by (auto simp: apply_supersession_eq)
    qed
    then have "\<exists>b. count_supersession X e a z = (Inr b, z')"
      using r by (auto simp: count_supersession_def split: sum.splits supersession_error.splits prod.splits)
    moreover have "store_ok X z' \<and> \<not> ds_encrypt z'"
      using apply_supersession_effect [OF X(1) _ r] z by (auto simp: effect_def)
    ultimately show "\<exists>b z'. count_supersession X e a z = (Inr b, z') \<and> store_ok X z' \<and> \<not> ds_encrypt z'" by blast
  qed (use s in simp)
  then show ?thesis by (auto simp: apply_supersessions_def)
qed

lemma walk_block_total:
  assumes X: "externals_ok X" and s: "store_ok X s" "\<not> ds_encrypt s" and k: "walk_ok X W k s" and free: "unhindered X E (wp_embedder W)"
  shows "\<exists>k' s'. walk_block X E W b k s = (Inr k', s') \<and> \<not> ds_encrypt s'"
proof -
  have T: "externals_total X" using free by (simp add: unhindered_def)
  let ?c = "\<lparr>ec_chain_id = wp_chain_id W, ec_next_block = bl_number b + 1\<rparr>"
  obtain cp where cp: "checkpoint_node W b = Inr cp" using chain_node_total [OF free] unfolding checkpoint_node_def by blast
  let ?ds = "reorg_edges W (node_id X cp) (checkpoint_key (wp_chain_id W) (bl_number b) (bl_hash b)) (wk_heights k (bl_number b))"
  obtain ns es n where ev: "rfold (add_event X W b (node_id X cp)) (bl_txs b)
      ([cp], spine_edge W (node_id X cp) b (wk_prev k), ev_events (wk_report k)) = Inr (ns, es, n)"
    using events_total [OF free] by (metis prod_cases3)
  have safe: "\<forall>n \<in> set ns. json_safe n" using events_ok(1) [OF k cp ev] by (simp add: chain_nodes_ok_def)
  obtain q where q: "commit X ns es s = (Inr (), q)" using commit_total [OF X T s(1) _ safe] s(2) by blast
  have "effect X s q (commit_items X s ns es)" using commit_effect [OF X s(1) safe q] by auto
  then have okq: "store_ok X q" "\<not> ds_encrypt q" using s(2) by (auto simp: effect_def)
  obtain p z where z: "apply_supersessions X ?ds q = (Inr p, z)" "store_ok X z"
    using supersessions_total [OF X T okq] by blast
  obtain j where j: "ce_cursor_to_json E ?c = Inr j" using free by (auto simp: unhindered_def)
  obtain s' where s': "put_meta X CHAIN_STATE_TENANT (cursor_key (wp_chain_id W)) j z = (Inr (), s')"
    using put_meta_total [OF X T z(2)] by blast
  have "\<exists>k'. walk_block X E W b k s = (Inr k', s')"
    using cp ev q z(1) j s' by (cases p) (simp add: walk_block_def write_chain_cursor_def Let_def bind_simps smap_err_def sbind_def sok_def slift_def)
  then obtain k' where run: "walk_block X E W b k s = (Inr k', s')" by blast
  from walk_block_confined(1) [OF X s(1) k run] s(2) have "\<not> ds_encrypt s'" by (auto simp: allowed_effect_def effect_def)
  with run show ?thesis by blast
qed

lemma succ_height: "n \<le> t \<Longrightarrow> t \<noteq> - 1 \<Longrightarrow> unat (n + 1 :: u64) = Suc (unat n)"
proof -
  assume "n \<le> t" "t \<noteq> - 1"
  then have "n \<noteq> - 1" using word_order.extremum_uniqueI by blast
  then have "1 + n \<noteq> 0" by (metis add.commute add_eq_0_iff)
  then show ?thesis by (simp add: unatSuc add.commute)
qed

lemma start_walk_total:
  assumes "store_ok X s" "from_block = None \<Longrightarrow> read_chain_cursor X E cid s = Inr c"
  shows "\<exists>start W k. start_walk X E cid watch from_block emb now s = (Inr (start, W, k), s)"
proof -
  obtain all where "all_nodes X s = Inr all" by (rule all_nodes_spec [OF assms(1)]) (rule that)
  then have "\<exists>ns. active_chain_nodes X kind s = Inr ns" for kind by (simp add: active_chain_nodes_def)
  then obtain cs cps where "active_chain_nodes X ChainContract s = Inr cs" "active_chain_nodes X ChainCheckpoint s = Inr cps" by meson
  with assms(2) show ?thesis by (simp add: start_walk_def sbind_def sread_def sok_def split: option.splits)
qed

lemma one_block_run:
  assumes "source h = Inr (Some b)" "h \<noteq> - 1" "walk_block X E W b k s = (r, s')"
  shows "walk X E W source h h k s = Some (r, s')"
proof -
  have "h + 1 > h" using succ_height [of h h] assms(2) by (simp add: word_less_nat_alt)
  then have "walk X E W source h (h + 1) k1 s1 = Some (Inr k1, s1)" for k1 s1 by (simp add: walk.simps)
  then show ?thesis using assms(1,3) by (auto simp: walk.simps [of X E W source h h] split: sum.splits)
qed

lemma one_block_succeeds:
  assumes X: "externals_ok X" and s: "store_ok X s" "\<not> ds_encrypt s" and emb: "finite_vectors emb" and free: "unhindered X E emb"
    and b: "source h = Inr (Some b)" "h \<noteq> - 1"
  shows "\<exists>rep s'. ingest_chain_events X E source cid watch (Some h) h emb now s = Some (Inr rep, s')"
proof -
  obtain start W k where st: "start_walk X E cid watch (Some h) emb now s = (Inr (start, W, k), s)"
    using start_walk_total [OF s(1), of "Some h"] by blast
  have W: "start = h" "wp_embedder W = emb" using start_walk_run(2) [OF st refl] start_walk_run(3) [OF st refl refl] by auto
  obtain k' s' where "walk_block X E W b k s = (Inr k', s')"
    using walk_block_total [OF X s start_walk_ok [OF s(1) emb st]] free W(2) by blast
  from one_block_run [where source = source, OF b this] st W(1) show ?thesis by (simp add: ingest_chain_events_def)
qed

section \<open>A sample chain\<close>

definition sample_block :: block_record where
  "sample_block = \<lparr>bl_number = 0, bl_hash = ''0xaa'', bl_parent_hash = ''0x00'', bl_timestamp_secs = 1,
     bl_txs = [\<lparr>tx_hash = ''0x01'', tx_from = ''0xf0'', tx_to = None, tx_value_wei = 5\<rparr>]\<rparr>"

definition sample_source :: block_source where
  "sample_source n = Inr (if n = 0 then Some sample_block else None)"

definition sample_chain_env :: chain_env where
  "sample_chain_env = \<lparr>ce_json = (\<lambda>_. Inl ''not parsed''), ce_read_to_string = (\<lambda>_. Inl ''no file''),
     ce_watermark_json = (\<lambda>_. Inl ''not written''),
     ce_cursor_to_json = (\<lambda>c. Inr (9 # nat_le 8 (unat (ec_chain_id c)) @ nat_le 8 (unat (ec_next_block c)))),
     ce_cursor_from_json = (\<lambda>b. Inr \<lparr>ec_chain_id = of_nat (nat_of_le (take 8 (tl b))),
       ec_next_block = of_nat (nat_of_le (drop 8 (tl b)))\<rparr>),
     ce_rpc = \<lparr>http_post_json = (\<lambda>_ _. Inl ''offline''), json_text = (\<lambda>_. [])\<rparr>\<rparr>"

lemma sample_embedder_finite: "finite_vectors sample_embedder"
  using sample_finite by (simp add: sample_ingestor_def with_authoritative_authors_def with_embedder_def)

lemma sample_unhindered: "unhindered ideal_externals sample_chain_env sample_embedder"
  using ideal_externals_total by (simp add: unhindered_def sample_chain_env_def sample_embedder_def)

text \<open>C24, a walk over the sample block in an empty store.\<close>

theorem projections_are_confined_witness:
  "\<exists>rep s'. ingest_chain_events ideal_externals sample_chain_env sample_source 40204 [''0xf0''] (Some 0) 0 sample_embedder 9 (new kv_new) =
       Some (Inr rep, s') \<and>
     store_ok ideal_externals s' \<and> (\<forall>nid n. node_view ideal_externals s' nid = Some n \<longrightarrow> n_repo n = ''chain-state'')"
proof -
  have b: "sample_source 0 = Inr (Some sample_block)" "(0 :: u64) \<noteq> - 1" by (simp_all add: sample_source_def)
  have plain: "\<not> ds_encrypt (new kv_new)" by (simp add: new_def)
  obtain rep s' where run: "ingest_chain_events ideal_externals sample_chain_env sample_source 40204 [''0xf0''] (Some 0) 0 sample_embedder 9 (new kv_new) =
      Some (Inr rep, s')"
    using one_block_succeeds [where source = sample_source, OF ideal_externals_ok new_store_ok plain sample_embedder_finite sample_unhindered b] by blast
  have "node_view ideal_externals (new kv_new) nid = None" for nid by (simp add: node_view_def new_def)
  with projections_are_confined [OF ideal_externals_ok new_store_ok sample_embedder_finite, of sample_chain_env _ 9 s' CHAIN_STATE_TENANT
      sample_source 40204 "[''0xf0'']" "Some 0" 0] run
  show ?thesis by (auto simp: CHAIN_STATE_TENANT_def)
qed

end
