(* ===== verification/Walk_Resume.thy ===== *)
theory Walk_Resume
  imports Chain_Ingest_Safety
begin

text \<open>
  A walk over the blocks of a chain can be killed at any point and resumed: whatever state it leaves, the
  stored cursor is a height below which every block has been committed. And what the supersession of
  an orphaned checkpoint does not cover: a re-organisation that is undone.
\<close>

section \<open>The cursor\<close>

definition checkpoint_id :: "externals \<Rightarrow> u64 \<Rightarrow> block_record \<Rightarrow> content_hash" where
  "checkpoint_id X cid b =
     node_id X (chain_base ChainCheckpoint (checkpoint_key cid (bl_number b) (bl_hash b)) (checkpoint_content cid b) 0 0)"

text \<open>The JSON of a cursor reads back and is not taken for a sealed row.\<close>

definition cursor_codec :: "externals \<Rightarrow> chain_env \<Rightarrow> bool" where
  "cursor_codec X E \<longleftrightarrow> (\<forall>c b. ce_cursor_to_json E c = Inr b \<longrightarrow> ce_cursor_from_json E b = Inr c \<and> parse_envelope X b = None)"

definition next_height :: "event_cursor option \<Rightarrow> u64" where
  "next_height c = (case c of Some c \<Rightarrow> ec_next_block c | None \<Rightarrow> 0)"

lemma read_cursor_kept:
  assumes "store_ok X s" "meta_ok X s" "meta_kept X s s'"
  shows "read_chain_cursor X E cid s' = read_chain_cursor X E cid s"
  by (simp add: read_chain_cursor_def meta_kept_get(2) [OF assms])

lemma supersessions_keep_meta:
  assumes "externals_ok X" "store_ok X s" "apply_supersessions X es s = (r, s')"
  shows "meta_kept X s s'"
proof (rule sfold_invariant [where I = "meta_kept X s", OF _ meta_kept_refl [OF assms(2)] assms(3) [unfolded apply_supersessions_def]])
  fix e a z b z'
  assume z: "meta_kept X s z" and "count_supersession X e a z = (b, z')"
  then obtain p where "apply_supersession X e z = (p, z')" using count_supersession_run by blast
  from supersession_keeps_meta [OF assms(1) meta_kept_ok [OF z] this] show "meta_kept X s z'" by (rule meta_kept_trans [OF z])
qed

lemma write_cursor_run:
  assumes X: "externals_ok X" and ok: "store_ok X s" "meta_ok X s" and E: "cursor_codec X E"
    and run: "write_chain_cursor X E c s = (r, s')"
  shows "meta_ok X s'" "r = Inl e \<Longrightarrow> read_chain_cursor X E cid s' = read_chain_cursor X E cid s"
    "r = Inr () \<Longrightarrow> read_chain_cursor X E (ec_chain_id c) s' = Inr (Some c)"
proof -
  have "meta_ok X s' \<and> (\<forall>e. r = Inl e \<longrightarrow> meta_kept X s s') \<and> (r = Inr () \<longrightarrow> read_chain_cursor X E (ec_chain_id c) s' = Inr (Some c))"
  proof (cases "ce_cursor_to_json E c")
    case (Inl m)
    with run ok show ?thesis by (auto simp: write_chain_cursor_def bind_simps meta_kept_refl)
  next
    case (Inr b)
    then have b: "ce_cursor_from_json E b = Inr c" "parse_envelope X b = None" using E by (auto simp: cursor_codec_def)
    obtain p where p: "put_meta X CHAIN_STATE_TENANT (cursor_key (ec_chain_id c)) b s = (p, s')" "r = map_err IngestStore p"
      using run Inr by (auto simp: write_chain_cursor_def bind_simps smap_err_def split: prod.splits)
    show ?thesis
    proof (cases p)
      case (Inl m)
      have k: "meta_kept X s s'" by (rule put_meta_failed [OF X ok(1) p(1) [unfolded Inl]])
      with p(2) Inl meta_kept_get(1) [OF ok k] show ?thesis by simp
    next
      case u: (Inr u)
      have put: "put_meta X CHAIN_STATE_TENANT (cursor_key (ec_chain_id c)) b s = (Inr (), s')" using p(1) u by simp
      have "meta_ok X s'" by (rule put_meta_other(1) [OF X ok _ put]) (simp add: b)
      moreover have "get_meta X (cursor_key (ec_chain_id c)) s' = Inr (Some b)" using put_meta_effect [OF X ok(1) put] b by simp
      ultimately show ?thesis using b p(2) u by (simp add: read_chain_cursor_def)
    qed
  qed
  then show "meta_ok X s'" "r = Inl e \<Longrightarrow> read_chain_cursor X E cid s' = read_chain_cursor X E cid s"
    "r = Inr () \<Longrightarrow> read_chain_cursor X E (ec_chain_id c) s' = Inr (Some c)"
    using read_cursor_kept [OF ok] by blast+
qed

text \<open>One block: if it fails, the cursor reads as before; if it succeeds, the block has been committed and the
  cursor is the height after it.\<close>

lemma walk_block_cursor:
  assumes X: "externals_ok X" and ok: "store_ok X s" "meta_ok X s" and k: "walk_ok X W k s" and E: "cursor_codec X E"
    and run: "walk_block X E W b k s = (r, s')"
  shows "meta_ok X s' \<and>
    (\<forall>e. r = Inl e \<longrightarrow> read_chain_cursor X E (wp_chain_id W) s' = read_chain_cursor X E (wp_chain_id W) s) \<and>
    (\<forall>k'. r = Inr k' \<longrightarrow> node_view X s' (checkpoint_id X (wp_chain_id W) b) \<noteq> None \<and>
       ev_cursor (wk_report k') = \<lparr>ec_chain_id = wp_chain_id W, ec_next_block = bl_number b + 1\<rparr> \<and>
       read_chain_cursor X E (wp_chain_id W) s' = Inr (Some (ev_cursor (wk_report k'))))"
  using run
proof (cases rule: walk_block_cases)
  case (nothing e)
  then show ?thesis using ok by simp
next
  case (written cp ns es n c q)
  let ?c = "\<lparr>ec_chain_id = wp_chain_id W, ec_next_block = bl_number b + 1\<rparr>"
  have emb: "finite_vectors (wp_embedder W)" using k by (simp add: walk_ok_def)
  note g = events_ok [OF k written(1,2)]
  have id: "node_id X cp = checkpoint_id X (wp_chain_id W) b"
    using chain_node_ok(5) [OF emb written(1) [unfolded checkpoint_node_def]] by (simp add: checkpoint_id_def)
  have sq: "meta_kept X s q" by (rule commit_keeps_meta [OF X ok(1) _ written(3)]) (use g(1) in \<open>simp add: chain_nodes_ok_def\<close>)
  note mq = meta_kept_get(1) [OF ok sq]
  from written(4) show ?thesis
  proof (elim disjE exE conjE)
    fix e m
    assume "c = Inl m" "r = Inl e" "s' = q"
    then show ?thesis using mq read_cursor_kept [OF ok sq] by simp
  next
    fix a z e
    assume z: "apply_supersessions X (reorg_edges W (node_id X cp) (checkpoint_key (wp_chain_id W) (bl_number b) (bl_hash b))
        (wk_heights k (bl_number b))) q = (a, z)" and "r = Inl e" "s' = z"
    moreover have "meta_kept X s z" by (rule meta_kept_trans [OF sq supersessions_keep_meta [OF X meta_kept_ok [OF sq] z]])
    ultimately show ?thesis using meta_kept_get(1) [OF ok] read_cursor_kept [OF ok] by simp
  next
    fix a z ap rj w e
    assume z: "apply_supersessions X (reorg_edges W (node_id X cp) (checkpoint_key (wp_chain_id W) (bl_number b) (bl_hash b))
        (wk_heights k (bl_number b))) q = (a, z)"
      and w: "write_chain_cursor X E ?c z = (w, s')" and r: "w = Inl e" "r = Inl e"
    have sz: "meta_kept X s z" by (rule meta_kept_trans [OF sq supersessions_keep_meta [OF X meta_kept_ok [OF sq] z]])
    note cur = write_cursor_run [OF X meta_kept_ok [OF sz] meta_kept_get(1) [OF ok sz] E w]
    show ?thesis using cur(1) cur(2) [OF r(1)] r read_cursor_kept [OF ok sz] by simp
  next
    fix a z ap rj w
    assume c: "c = Inr ()" and z: "apply_supersessions X (reorg_edges W (node_id X cp) (checkpoint_key (wp_chain_id W) (bl_number b) (bl_hash b))
        (wk_heights k (bl_number b))) q = (a, z)"
      and w: "write_chain_cursor X E ?c z = (w, s')" and r: "w = Inr ()" 
      "r = Inr \<lparr>wk_report = \<lparr>ev_blocks = ev_blocks (wk_report k) + 1, ev_events = n,
                  ev_reorgs_superseded = ev_reorgs_superseded (wk_report k) + ap,
                  ev_supersessions_rejected = ev_supersessions_rejected (wk_report k) + rj,
                  ev_cursor = ?c\<rparr>,
                wk_heights = (wk_heights k)(bl_number b := wk_heights k (bl_number b) @
                  [(node_id X cp, checkpoint_key (wp_chain_id W) (bl_number b) (bl_hash b))]),
                wk_prev = Some (bl_hash b, node_id X cp)\<rparr>"
    have sz: "meta_kept X s z" by (rule meta_kept_trans [OF sq supersessions_keep_meta [OF X meta_kept_ok [OF sq] z]])
    note cur = write_cursor_run [OF X meta_kept_ok [OF sz] meta_kept_get(1) [OF ok sz] E w]
    have eff: "effect X s q (commit_items X s ns es)"
      using commit_effect [OF X ok(1) _ written(3)] g(1) c by (auto simp: chain_nodes_ok_def)
    have "node_view X q (node_id X cp) \<noteq> None" using commit_reads_back [OF eff, of "node_id X cp"] g(3) by auto
    moreover have "grows X q z" by (rule apply_supersessions_grows [OF X meta_kept_ok [OF sq] z])
    moreover have "allowed_effect X (\<lambda>_. True) z s'"
      using cursor_confined [OF X, of "\<lambda>_. True" E ?c] w meta_kept_ok [OF sz] unfolding confines_def by blast
    ultimately have "node_view X s' (node_id X cp) \<noteq> None"
      using allowed_keeps_nodes by (fastforce simp: grows_def)
    then show ?thesis using cur(1) cur(3) [OF r(1)] r(2) id by simp
  qed
qed

section \<open>The walk\<close>

definition witnessed :: "externals \<Rightarrow> block_source \<Rightarrow> u64 \<Rightarrow> dag_store \<Rightarrow> u64 \<Rightarrow> bool" where
  "witnessed X source cid s h \<longleftrightarrow> (\<exists>b. source h = Inr (Some b) \<and> node_view X s (checkpoint_id X cid b) \<noteq> None)"

lemma witnessed_grows: "grows X s s' \<Longrightarrow> witnessed X source cid s h \<Longrightarrow> witnessed X source cid s' h"
  unfolding witnessed_def grows_def by blast

lemma allowed_grows: "allowed_effect X P s s' \<Longrightarrow> grows X s s'"
  unfolding grows_def using allowed_ok allowed_keeps_nodes by blast

text \<open>A walk that has stopped at cursor \<open>c\<close>: everything from the start up to there is committed, and a
  walk that succeeded has reached its end or the end of the chain.\<close>

definition free_walk :: "externals \<Rightarrow> chain_env \<Rightarrow> block_source \<Rightarrow> embed_impl \<Rightarrow> dag_store \<Rightarrow> bool" where
  "free_walk X E source emb s \<longleftrightarrow> unhindered X E emb \<and> \<not> ds_encrypt s \<and> (\<forall>n e. source n \<noteq> Inl e)"

definition walk_stopped ::
    "externals \<Rightarrow> chain_env \<Rightarrow> block_source \<Rightarrow> u64 \<Rightarrow> u64 \<Rightarrow> u64 \<Rightarrow> (ingest_error, chain_event_report) result \<Rightarrow> dag_store \<Rightarrow> bool" where
  "walk_stopped X E source cid to_block n r s' \<longleftrightarrow> store_ok X s' \<and> meta_ok X s' \<and>
     (\<exists>c. read_chain_cursor X E cid s' = Inr c \<and> n \<le> next_height c \<and>
        (\<forall>h. n \<le> h \<and> h < next_height c \<longrightarrow> witnessed X source cid s' h) \<and>
        (\<forall>rep. r = Inr rep \<longrightarrow> ec_next_block (ev_cursor rep) = next_height c \<and>
           (to_block < next_height c \<or> source (next_height c) = Inr None)))"

text \<open>A source that answers a height with the block of that height, as a recorded transcript does: the law
  that the walk relies on and does not check.\<close>

locale numbered_source =
  fixes source :: block_source
  assumes numbered: "source n = Inr (Some b) \<Longrightarrow> bl_number b = n"
begin

lemma walk_stops:
  assumes X: "externals_ok X" and E: "cursor_codec X E" and last: "to_block \<noteq> - 1"
    and "store_ok X s" "meta_ok X s" "walk_ok X W k s"
    and "read_chain_cursor X E (wp_chain_id W) s = Inr c" "next_height c = n" "ec_next_block (ev_cursor (wk_report k)) = n"
  shows "\<exists>r s'. walk X E W source to_block n k s = Some (r, s') \<and> grows X s s' \<and>
    walk_stopped X E source (wp_chain_id W) to_block n (rbind r (\<lambda>k. Inr (wk_report k))) s' \<and>
    (free_walk X E source (wp_embedder W) s \<longrightarrow> (\<exists>k. r = Inr k))"
  using assms(4-)
proof (induction "unat to_block + 1 - unat n" arbitrary: n k s c rule: less_induct)
  case less
  note ok = less.prems(1,2) and k = less.prems(3) and cur = less.prems(4-6)
  let ?cid = "wp_chain_id W"
  have stay: "walk_stopped X E source ?cid to_block n (rbind r (\<lambda>k. Inr (wk_report k))) s"
    if "r = Inr k \<Longrightarrow> to_block < n \<or> source n = Inr None" "\<And>k'. r = Inr k' \<Longrightarrow> k' = k" for r
    using ok cur that by (auto simp: walk_stopped_def)
  have here: "grows X s s" using ok by (simp add: grows_def)
  show ?case
  proof (cases "n > to_block")
    case True
    then have "walk X E W source to_block n k s = Some (Inr k, s)" by (simp add: walk.simps)
    with here stay [of "Inr k"] True show ?thesis by blast
  next
    case False
    then have le: "n \<le> to_block" by simp
    note succ = succ_height [OF le last]
    show ?thesis
    proof (cases "\<exists>b. source n = Inr (Some b)")
      case no: False
      show ?thesis
      proof (cases "source n")
        case (Inl e)
        then have "walk X E W source to_block n k s = Some (Inl e, s)" using False by (simp add: walk.simps)
        with here stay [of "Inl e"] Inl show ?thesis by (auto simp: free_walk_def)
      next
        case (Inr o')
        with no have "source n = Inr None" by (cases o') auto
        moreover from this have "walk X E W source to_block n k s = Some (Inr k, s)" using False by (simp add: walk.simps)
        ultimately show ?thesis using here stay [of "Inr k"] by blast
      qed
    next
      case True
      then obtain b where b: "source n = Inr (Some b)" by blast
      obtain r s1 where r: "walk_block X E W b k s = (r, s1)" by (cases "walk_block X E W b k s")
      note conf = walk_block_confined [OF X ok(1) k r]
      note blk = walk_block_cursor [OF X ok k E r]
      have g1: "grows X s s1" by (rule allowed_grows [OF conf(1)])
      show ?thesis
      proof (cases r)
        case (Inl e)
        then have "walk X E W source to_block n k s = Some (Inl e, s1)" using False b r by (simp add: walk.simps)
        moreover have "walk_stopped X E source ?cid to_block n (Inl e) s1"
          using blk Inl cur(1,2) allowed_ok [OF conf(1)] by (auto simp: walk_stopped_def)
        moreover have "\<not> free_walk X E source (wp_embedder W) s"
          using walk_block_total [OF X ok(1) _ k, of E b] r Inl by (auto simp: free_walk_def)
        ultimately show ?thesis using g1 by fastforce
      next
        case (Inr k1)
        have num: "bl_number b = n" by (rule numbered [OF b])
        have rec: "walk X E W source to_block n k s = walk X E W source to_block (n + 1) k1 s1"
          using False b r Inr by (subst walk.simps) simp
        have w: "witnessed X source ?cid s1 n" using b blk Inr by (auto simp: witnessed_def)
        have "\<exists>r s'. walk X E W source to_block (n + 1) k1 s1 = Some (r, s') \<and> grows X s1 s' \<and>
            walk_stopped X E source ?cid to_block (n + 1) (rbind r (\<lambda>k. Inr (wk_report k))) s' \<and>
            (free_walk X E source (wp_embedder W) s1 \<longrightarrow> (\<exists>k. r = Inr k))"
        proof (rule less.hyps)
          show "unat to_block + 1 - unat (n + 1) < unat to_block + 1 - unat n"
            using le succ by (simp add: word_le_nat_alt)
          show "store_ok X s1" by (rule allowed_ok [OF conf(1)])
          show "walk_ok X W k1 s1" by (rule conf(2) [OF Inr])
          show "meta_ok X s1" "read_chain_cursor X E ?cid s1 = Inr (Some (ev_cursor (wk_report k1)))"
            "next_height (Some (ev_cursor (wk_report k1))) = n + 1" "ec_next_block (ev_cursor (wk_report k1)) = n + 1"
            using blk Inr num by (simp_all add: next_height_def)
        qed
        then obtain r' s' where go: "walk X E W source to_block (n + 1) k1 s1 = Some (r', s')" "grows X s1 s'"
            "walk_stopped X E source ?cid to_block (n + 1) (rbind r' (\<lambda>k. Inr (wk_report k))) s'"
            "free_walk X E source (wp_embedder W) s1 \<longrightarrow> (\<exists>k. r' = Inr k)"
          by blast
        have split: "h = n \<or> n + 1 \<le> h" if "n \<le> h" for h
          using that succ by (auto simp: word_le_nat_alt word_unat_eq_iff)
        have up: "n \<le> h" if "n + 1 \<le> h" for h using that succ by (simp add: word_le_nat_alt)
        have "walk_stopped X E source ?cid to_block n (rbind r' (\<lambda>k. Inr (wk_report k))) s'"
          using go(3) split up witnessed_grows [OF go(2) w] unfolding walk_stopped_def by blast
        moreover have "ds_encrypt s1 = ds_encrypt s" using conf(1) by (auto simp: allowed_effect_def effect_def)
        ultimately show ?thesis using go(1,4) rec grows_trans [OF g1 go(2)] by (auto simp: free_walk_def)
      qed
    qed
  qed
qed

lemma resumed_walk_stops:
  assumes X: "externals_ok X" and ok: "store_ok X s" "meta_ok X s" and emb: "finite_vectors emb" and E: "cursor_codec X E"
    and last: "to_block \<noteq> - 1" and cur: "read_chain_cursor X E cid s = Inr c"
  shows "\<exists>r s'. ingest_chain_events X E source cid watch None to_block emb now s = Some (r, s') \<and>
    walk_stopped X E source cid to_block (next_height c) r s' \<and> (free_walk X E source emb s \<longrightarrow> (\<exists>rep. r = Inr rep))"
proof -
  obtain p s1 where p: "start_walk X E cid watch None emb now s = (p, s1)" by (cases "start_walk X E cid watch None emb now s")
  note st = start_walk_run [OF p]
  show ?thesis
  proof (cases p)
    case (Inl e)
    then show ?thesis using p start_walk_total [OF ok(1) cur, of watch None emb now] by auto
  next
    case (Inr q)
    obtain start W k where q: "q = (start, W, k)" by (cases q)
    note run = p [unfolded Inr q]
    have W: "wp_chain_id W = cid" "wp_embedder W = emb" "ec_next_block (ev_cursor (wk_report k)) = start"
      using st(2) [OF Inr [unfolded q]] by auto
    have n: "next_height c = start" using st(4) [OF Inr [unfolded q] refl] cur by (auto simp: next_height_def)
    have k: "walk_ok X W k s" by (rule start_walk_ok [OF ok(1) emb run])
    obtain r s' where "walk X E W source to_block start k s = Some (r, s')"
        "walk_stopped X E source cid to_block start (rbind r (\<lambda>k. Inr (wk_report k))) s'"
        "free_walk X E source emb s \<longrightarrow> (\<exists>k. r = Inr k)"
      using walk_stops [OF X E last ok k, of c start] W cur n by auto
    then show ?thesis using run st(1) n by (auto simp: ingest_chain_events_def)
  qed
qed

end

text \<open>A transcript answers with the blocks it was built from, each under its own number.\<close>

definition transcript_blocks :: "block_record list \<Rightarrow> (u64 \<rightharpoonup> block_record)" where
  "transcript_blocks bs = fold (\<lambda>b m. m(bl_number b \<mapsto> b)) bs Map.empty"

lemma transcript_number: "transcript_blocks bs n = Some b \<Longrightarrow> bl_number b = n"
proof -
  have "fold (\<lambda>b m. m(bl_number b \<mapsto> b)) bs m n = Some b \<Longrightarrow> (\<forall>n b. m n = Some b \<longrightarrow> bl_number b = n) \<Longrightarrow> bl_number b = n" for m
  proof (induction bs arbitrary: m)
    case (Cons x bs)
    then show ?case by (auto split: if_splits)
  qed auto
  then show "transcript_blocks bs n = Some b \<Longrightarrow> ?thesis" by (auto simp: transcript_blocks_def)
qed

lemma from_transcript_blocks:
  assumes "from_transcript E txt = Inr blocks"
  shows "\<exists>bs. blocks = transcript_blocks bs"
proof -
  have "rfold fixture_insert rs m = Inr blocks \<Longrightarrow> \<exists>bs. blocks = fold (\<lambda>b m. m(bl_number b \<mapsto> b)) bs m" for rs m
  proof (induction rs arbitrary: m)
    case Nil
    then show ?case by (auto intro: exI [of _ "[]"])
  next
    case (Cons r rs)
    from Cons.prems obtain b where "rfold fixture_insert rs (m(bl_number b \<mapsto> b)) = Inr blocks" by (auto simp: fixture_insert_def [of r])
    from Cons.IH [OF this] obtain bs where bs: "blocks = fold (\<lambda>b m. m(bl_number b \<mapsto> b)) bs (m(bl_number b \<mapsto> b))" by blast
    show ?case by (rule exI [of _ "b # bs"]) (simp only: bs fold_simps)
  qed
  with assms show ?thesis by (auto simp: from_transcript_def transcript_blocks_def)
qed

interpretation fixture: numbered_source "fixture_block_by_number (transcript_blocks bs)" for bs
  by unfold_locales (simp add: fixture_block_by_number_def transcript_number)

text \<open>So a recorded transcript is walked safely whatever it holds.\<close>

lemma fixture_walk:
  assumes "externals_ok X" "store_ok X s" "meta_ok X s" "finite_vectors emb" "cursor_codec X E" "to_block \<noteq> - 1"
    and "read_chain_cursor X E cid s = Inr c" "from_transcript E' txt = Inr blocks"
  shows "\<exists>r s'. ingest_chain_events X E (fixture_block_by_number blocks) cid watch None to_block emb now s = Some (r, s') \<and>
    walk_stopped X E (fixture_block_by_number blocks) cid to_block (next_height c) r s' \<and>
    (free_walk X E (fixture_block_by_number blocks) emb s \<longrightarrow> (\<exists>rep. r = Inr rep))"
  using from_transcript_blocks [OF assms(8)] fixture.resumed_walk_stops [OF assms(1-7)] by blast


section \<open>The key of a checkpoint\<close>

lemma decimal_print: "decimal n = print_radix 10 n"
proof (induction n rule: decimal.induct)
  case (1 n)
  then show ?case by (cases "n < 10") (simp_all add: decimal.simps [of n] print_radix.simps [of 10 n])
qed

text \<open>The height is read back from the key, whatever the hash.\<close>

lemma checkpoint_height_key: "checkpoint_height cid (checkpoint_key cid h hash) = Some h"
proof -
  have at: "CHR ''@'' \<notin> set (decimal (unat h))" "CHR ''+'' \<notin> set (decimal (unat h))" "CHR ''-'' \<notin> set (decimal (unat h))"
    by (unfold decimal_print) (rule digits_avoid [OF print_digits], simp add: is_digit_def)+
  have ne: "decimal (unat h) \<noteq> []" by (simp add: decimal.simps [of "unat h"])
  have "parse_digits 10 0 (decimal (unat h)) = Inr (unat h)"
    unfolding decimal_print by (rule parse_print) (use unsigned_less [of h] in simp_all)
  with at ne have "from_str_radix 10 (decimal (unat h)) = Inr h" by (cases "decimal (unat h)") (auto simp: from_str_radix_def)
  with split_once_append [OF at(1), of hash] show ?thesis by (simp add: checkpoint_height_def checkpoint_key_def)
qed

section \<open>A re-organisation that is undone\<close>

definition both_active :: "externals \<Rightarrow> content_hash \<Rightarrow> content_hash \<Rightarrow> edge \<Rightarrow> dag_store \<Rightarrow> bool" where
  "both_active X old newer e s \<longleftrightarrow> store_ok X s \<and> (\<exists>n. node_view X s old = Some n \<and> n_status n = Active) \<and>
     (\<exists>n. node_view X s newer = Some n \<and> n_status n = Active) \<and> edge_view X s (edge_key e) = Some e"

text \<open>Supersessions by \<open>newer\<close> while an edge already says that \<open>old\<close> supersedes \<open>newer\<close>: the one of \<open>old\<close> is refused
  as a cycle.\<close>

lemma undone_step:
  assumes X: "externals_ok X" and both: "both_active X old newer e s" "old \<noteq> newer"
    and e: "e_kind e = Supersedes" "e_from e = old" "e_to e = newer" and d: "e_from d = newer" "e_kind d = Supersedes"
    and run: "apply_supersession X d s = (r, s')"
  shows "both_active X old newer e s'" "e_to d = old \<Longrightarrow> \<exists>m. r = Inl m \<and> (\<forall>x. m \<noteq> StoreErr x)"
proof -
  have ok: "store_ok X s" using both(1) by (simp add: both_active_def)
  have link: "(old, newer) \<in> links X s Supersedes" using both(1) e by (auto simp: both_active_def links_def)
  have refused: "\<exists>m. supersede_refusal X s d = Some m \<and> (\<forall>x. m \<noteq> StoreErr x)" if "e_to d = old"
    using that d link by (auto simp: supersede_refusal_def split: option.splits)
  then show "e_to d = old \<Longrightarrow> \<exists>m. r = Inl m \<and> (\<forall>x. m \<noteq> StoreErr x)" using run ok by (auto simp: apply_supersession_eq)
  from apply_supersession_effect [OF X ok run] show "both_active X old newer e s'"
  proof (elim disjE exE conjE)
    fix m
    assume "effect X s s' []"
    then show ?thesis using both(1) by (simp add: both_active_def effect_def)
  next
    fix t
    assume t: "supersede_refusal X s d = None" "node_view X s (e_to d) = Some t" and eff: "effect X s s' (supersede_items d t)"
    have "e_to d \<noteq> old" using refused t(1) by auto
    moreover have "e_to d \<noteq> newer" using t(1) d by (auto simp: supersede_refusal_def split: if_splits)
    moreover have "node_id X t = e_to d" by (rule node_view_id(1) [OF ok t(2)])
    ultimately have "node_view X s' old = node_view X s old" "node_view X s' newer = node_view X s newer"
      using eff by (auto simp: effect_def supersede_items_def)
    moreover have "edge_key d \<noteq> edge_key e" using d e both(2) by (simp add: edge_key_inject)
    then have "edge_view X s' (edge_key e) = edge_view X s (edge_key e)" using eff by (auto simp: effect_def supersede_items_def)
    ultimately show ?thesis using both(1) effect_ok [OF eff] by (simp add: both_active_def)
  qed
qed

lemma undone_supersessions:
  assumes X: "externals_ok X" and "old \<noteq> newer" "e_kind e = Supersedes" "e_from e = old" "e_to e = newer"
    and "both_active X old newer e s" "\<forall>d \<in> set ds. e_from d = newer \<and> e_kind d = Supersedes"
    and "sfold (count_supersession X) ds (a, r) s = (Inr (a', r'), s')"
  shows "both_active X old newer e s' \<and> r \<le> r' \<and> (old \<in> e_to ` set ds \<longrightarrow> r < r')"
  using assms(6-)
proof (induction ds arbitrary: a r s)
  case (Cons d ds)
  obtain p z where p: "apply_supersession X d s = (p, z)" by (cases "apply_supersession X d s")
  note step = undone_step [OF X Cons.prems(1) assms(2-5) _ _ p]
  obtain v y where v: "count_supersession X d (a, r) s = (Inr v, y)" "sfold (count_supersession X) ds v y = (Inr (a', r'), s')"
    using Cons.prems(3) by (auto simp: sbind_Inr_iff)
  obtain a1 r1 where a1: "v = (a1, r1)" by (cases v)
  have "y = z" using v(1) p by (auto simp: count_supersession_def split: sum.splits supersession_error.splits)
  then have one: "count_supersession X d (a, r) s = (Inr (a1, r1), z)" "sfold (count_supersession X) ds (a1, r1) z = (Inr (a', r'), s')"
    using v a1 by simp_all
  have up: "r \<le> r1 \<and> (e_to d = old \<longrightarrow> r < r1)"
    using one(1) p step(2) Cons.prems(2) by (auto simp: count_supersession_def split: sum.splits supersession_error.splits)
  have "both_active X old newer e s' \<and> r1 \<le> r' \<and> (old \<in> e_to ` set ds \<longrightarrow> r1 < r')"
    by (rule Cons.IH [OF _ _ one(2)]) (use step(1) Cons.prems(2) in auto)
  with up show ?case by auto
qed simp

text \<open>The walk starts with every active checkpoint under its height.\<close>

lemma active_checkpoint_listed:
  assumes ok: "store_ok X s" and n: "node_view X s i = Some n" "n_repo n = CHAIN_STATE_TENANT" "n_kind n = ChainCheckpoint"
      "n_status n = Active" "dag_key n = Some (checkpoint_key cid h hash)"
    and cps: "active_chain_nodes X ChainCheckpoint s = Inr cps"
  shows "(i, checkpoint_key cid h hash) \<in> set (checkpoints_by_height X cid cps h)"
proof -
  have id: "node_id X n = i" by (rule node_view_id(1) [OF ok n(1)])
  obtain all where all: "all_nodes X s = Inr all" "\<And>n. n \<in> set all \<longleftrightarrow> node_view X s (node_id X n) = Some n"
    by (rule all_nodes_spec [OF ok]) (rule that)
  have "n \<in> set all" using all(2) [THEN iffD2] n(1) id by blast
  moreover have "cps = filter (\<lambda>n. n_repo n = CHAIN_STATE_TENANT \<and> n_kind n = ChainCheckpoint \<and> n_status n = Active) all"
    using cps all(1) by (simp add: active_chain_nodes_def)
  ultimately have "n \<in> set cps" using n by simp
  then show ?thesis using id n(5) checkpoint_height_key unfolding heights_mem by blast
qed

text \<open>The block itself.\<close>

lemma undone_block:
  assumes X: "externals_ok X" and ok: "store_ok X s" and k: "walk_ok X W k s"
    and old: "node_view X s old = Some n" "n_status n = Active"
      "(old, key) \<in> set (wk_heights k (bl_number b))" "key \<noteq> checkpoint_key (wp_chain_id W) (bl_number b) (bl_hash b)"
      "old \<noteq> checkpoint_id X (wp_chain_id W) b"
    and e: "edge_view X s (edge_key e) = Some e" "e_kind e = Supersedes" "e_from e = old" "e_to e = checkpoint_id X (wp_chain_id W) b"
    and run: "walk_block X E W b k s = (Inr k', s')"
  shows "both_active X old (checkpoint_id X (wp_chain_id W) b) e s' \<and>
    ev_supersessions_rejected (wk_report k) < ev_supersessions_rejected (wk_report k')"
  using run
proof (cases rule: walk_block_cases)
  case (written cp ns es m c q)
  let ?newer = "checkpoint_id X (wp_chain_id W) b"
  let ?ds = "reorg_edges W (node_id X cp) (checkpoint_key (wp_chain_id W) (bl_number b) (bl_hash b)) (wk_heights k (bl_number b))"
  have emb: "finite_vectors (wp_embedder W)" using k by (simp add: walk_ok_def)
  have id: "node_id X cp = ?newer"
    using chain_node_ok(5) [OF emb written(1) [unfolded checkpoint_node_def]] by (simp add: checkpoint_id_def)
  note g = events_ok [OF k written(1,2)]
  from written(4) obtain ap rj z where z: "c = Inr ()" "apply_supersessions X ?ds q = (Inr (ap, rj), z)"
      "write_chain_cursor X E \<lparr>ec_chain_id = wp_chain_id W, ec_next_block = bl_number b + 1\<rparr> z = (Inr (), s')"
      "ev_supersessions_rejected (wk_report k') = ev_supersessions_rejected (wk_report k) + rj"
    by auto
  let ?P = "\<lambda>it. case it of INode x \<Rightarrow> n_status x = Active | IEdge x \<Rightarrow> e_kind x \<noteq> Supersedes"
  have sq: "allowed_effect X ?P s q"
    by (rule allowed_commit [OF X allowed_refl [OF ok] _ _ written(3)])
      (use g(1,2) in \<open>auto simp: chain_nodes_ok_def chain_edges_ok_def\<close>)
  have eff: "effect X s q (commit_items X s ns es)"
    using commit_effect [OF X ok _ written(3)] g(1) z(1) by (auto simp: chain_nodes_ok_def)
  obtain x where x: "node_view X q old = Some x" using allowed_keeps_nodes [OF sq] old(1) by blast
  with allowed_origin(1) [OF sq x] old(1,2) have "\<exists>n. node_view X q old = Some n \<and> n_status n = Active" by auto
  moreover have "?newer \<in> node_id X ` set ns" using g(3) id by (metis imageI)
  from commit_reads_back [OF eff this] g(1) have "\<exists>n. node_view X q ?newer = Some n \<and> n_status n = Active"
    by (auto simp: chain_nodes_ok_def)
  moreover have "edge_view X q (edge_key e) = Some e"
    using allowed_protects(2) [OF sq, of "edge_key e"] e(1,2) by (auto simp: edge_key_inject)
  ultimately have "both_active X old ?newer e q" using allowed_ok [OF sq] by (simp add: both_active_def)
  moreover have "\<forall>d \<in> set ?ds. e_from d = ?newer \<and> e_kind d = Supersedes" by (auto simp: reorg_edges_def make_edge_def id)
  moreover have "old \<in> e_to ` set ?ds" using old(3,4) by (force simp: reorg_edges_def make_edge_def)
  ultimately have fin: "both_active X old ?newer e z" "0 < rj"
    using undone_supersessions [OF X old(5) e(2-4), of q ?ds 0 0 ap rj z] z(2) by (auto simp: apply_supersessions_def)
  have "effect X z s' []"
    using z(3) put_meta_effect [OF X] fin(1) by (auto simp: write_chain_cursor_def sbind_Inr_iff both_active_def)
  then have "both_active X old ?newer e s'" using fin(1) by (simp add: both_active_def effect_def)
  with fin(2) z(4) show ?thesis by simp
qed simp

text \<open>C26. What a re-organisation and its undoing leave behind: let the block \<open>b\<close> have been orphaned, so that the checkpoint
  \<open>old\<close> of another hash at its height is the active one and supersedes it. When \<open>b\<close> is the canonical block again, a
  successful walk over that height makes its checkpoint active again, but cannot supersede the
  other one: that would close a cycle, so it is only counted as rejected. Two checkpoints of
  one height are active from then on.\<close>

theorem undone_reorg_leaves_two_active:
  assumes "externals_ok X" "store_ok X s" "finite_vectors emb" "source h = Inr (Some b)" "bl_number b = h" "h \<noteq> - 1"
    and "node_view X s old = Some n" "n_repo n = CHAIN_STATE_TENANT" "n_kind n = ChainCheckpoint" "n_status n = Active"
    and "dag_key n = Some (checkpoint_key cid h hash)" "hash \<noteq> bl_hash b" "old \<noteq> checkpoint_id X cid b"
    and "edge_view X s (edge_key e) = Some e" "e_kind e = Supersedes" "e_from e = old" "e_to e = checkpoint_id X cid b"
    and "ingest_chain_events X E source cid watch (Some h) h emb now s = Some (Inr rep, s')"
  shows "ev_supersessions_rejected rep > 0 \<and>
    (\<exists>m. node_view X s' old = Some m \<and> n_status m = Active) \<and>
    (\<exists>m. node_view X s' (checkpoint_id X cid b) = Some m \<and> n_status m = Active)"
proof -
  from assms(18) obtain start W k where st: "start_walk X E cid watch (Some h) emb now s = (Inr (start, W, k), s)"
      and go: "\<exists>k'. walk X E W source h start k s = Some (Inr k', s') \<and> rep = wk_report k'"
    using start_walk_run(1) [of X E cid watch "Some h" emb now s]
    by (auto simp: ingest_chain_events_def split: prod.splits sum.splits)
  have start: "start = h" by (rule start_walk_run(3) [OF st refl refl])
  obtain cps where W: "wp_chain_id W = cid" "ev_supersessions_rejected (wk_report k) = 0"
      "wk_heights k = checkpoints_by_height X cid cps" "active_chain_nodes X ChainCheckpoint s = Inr cps"
    using start_walk_run(2) [OF st refl] by auto
  obtain k' where blk: "walk_block X E W b k s = (Inr k', s')" and rep: "rep = wk_report k'"
    using go start one_block_run [where source = source, OF assms(4,6)] by (metis Pair_inject option.inject surj_pair)
  have "(old, checkpoint_key cid h hash) \<in> set (wk_heights k (bl_number b))"
    using active_checkpoint_listed [OF assms(2,7-11) W(4)] assms(5) by (simp add: W(3))
  moreover have "checkpoint_key cid h hash \<noteq> checkpoint_key cid h (bl_hash b)" using assms(12) by (simp add: checkpoint_key_def)
  ultimately show ?thesis
    using undone_block [OF assms(1,2) start_walk_ok [OF assms(2,3) st] assms(7,10) _ _ _ assms(14-16) _ blk] assms(5,13,17) W(1,2) rep
    by (auto simp: both_active_def)
qed

section \<open>Two walks over a sample chain\<close>

lemma sample_cursor_codec: "cursor_codec ideal_externals sample_chain_env"
proof -
  have "of_nat (unat w mod 256 ^ 8) = (w :: u64)" for w using unat_bound [of w] by simp
  then show ?thesis
    by (auto simp: cursor_codec_def sample_chain_env_def nat_of_le_nat_le parse_envelope_def ideal_externals_def untag_def)
qed

lemma new_meta: "meta_ok X (new kv_new)" "read_chain_cursor X E cid (new kv_new) = Inr None"
proof -
  have empty: "rows (new kv_new) META = Map.empty" by (simp add: new_def)
  then show "meta_ok X (new kv_new)" by (simp add: meta_ok_def)
  have "get_meta X k (new kv_new) = Inr None" for k by (simp add: get_meta_eq [OF store_okD(1) [OF new_store_ok]] empty)
  then show "read_chain_cursor X E cid (new kv_new) = Inr None" by (simp add: read_chain_cursor_def)
qed


text \<open>Another block of height 0, which orphaned the sample block.\<close>

definition rival_block :: block_record where
  "rival_block = sample_block\<lparr>bl_hash := ''0xab'', bl_parent_hash := ''0x01''\<rparr>"

definition block_node :: "block_record \<Rightarrow> status \<Rightarrow> memory_node" where
  "block_node b st = (chain_base ChainCheckpoint (checkpoint_key 40204 (bl_number b) (bl_hash b)) (checkpoint_content 40204 b) 0 0)\<lparr>n_status := st\<rparr>"

lemma block_node_id: "node_id ideal_externals (block_node b st) = checkpoint_id ideal_externals 40204 b"
  by (simp add: block_node_def checkpoint_id_def compute_id_updates)

lemma rival_id: "checkpoint_id ideal_externals 40204 rival_block \<noteq> checkpoint_id ideal_externals 40204 sample_block"
proof -
  let ?p = "\<lambda>b. as_bytes (''block '' @ decimal 0 @ '' on chain '' @ decimal 40204 @ '' hash '' @ bl_hash b @ '' parent 0x0'')"
  have "unat (node_id ideal_externals (block_node rival_block Active)) mod 256 = unat (49 :: byte)"
    by (rule ideal_id_last [of _ "?p rival_block"])
      (simp add: block_node_def chain_base_def checkpoint_content_def rival_block_def sample_block_def as_bytes_def)
  moreover have "unat (node_id ideal_externals (block_node sample_block Active)) mod 256 = unat (48 :: byte)"
    by (rule ideal_id_last [of _ "?p sample_block"])
      (simp add: block_node_def chain_base_def checkpoint_content_def sample_block_def as_bytes_def)
  ultimately show ?thesis unfolding block_node_id by force
qed

definition rival_edge :: edge where
  "rival_edge = make_edge (checkpoint_id ideal_externals 40204 rival_block) (checkpoint_id ideal_externals 40204 sample_block)
     Supersedes Ingest 0 None"

lemma orphaned_store:
  obtains s where "store_ok ideal_externals s" "\<not> ds_encrypt s"
    "node_view ideal_externals s (checkpoint_id ideal_externals 40204 rival_block) = Some (block_node rival_block Active)"
    "node_view ideal_externals s (checkpoint_id ideal_externals 40204 sample_block) = Some (block_node sample_block Superseded)"
    "edge_view ideal_externals s (edge_key rival_edge) = Some rival_edge"
proof -
  let ?X = ideal_externals
  have safe: "json_safe (block_node b st)" for b st by (simp add: json_safe_def block_node_def chain_base_def)
  obtain s1 where s1: "effect ?X (new kv_new) s1 [INode (block_node rival_block Active)]"
    by (rule put_fresh [OF new_store_ok safe])
  obtain s2 where s2: "effect ?X s1 s2 [INode (block_node sample_block Superseded)]"
    by (rule put_fresh [OF effect_ok [OF s1] safe])
  have plain: "\<not> ds_encrypt s2" using s1 s2 by (simp add: effect_def new_def)
  obtain s3 where s3: "add_edge ?X rival_edge s2 = (Inr (), s3)"
    using add_edge_plain_total [OF ideal_externals_ok ideal_externals_total effect_ok [OF s2] plain] by blast
  have "\<not> demoting ?X s2 rival_edge" by (simp add: demoting_def rival_edge_def make_edge_def)
  then have e3: "effect ?X s2 s3 [IEdge rival_edge]"
    using add_edge_effect [OF ideal_externals_ok effect_ok [OF s2] s3] by simp
  show thesis
  proof (rule that [of s3])
    show "store_ok ?X s3" by (rule effect_ok [OF e3])
    show "\<not> ds_encrypt s3" using e3 plain by (simp add: effect_def)
  qed (use s1 s2 e3 rival_id in \<open>auto simp: effect_def block_node_id\<close>)
qed

text \<open>C26, the sample block canonical again after the rival block had orphaned it.\<close>

theorem undone_reorg_leaves_two_active_witness:
  "\<exists>s rep s'. ingest_chain_events ideal_externals sample_chain_env sample_source 40204 [] (Some 0) 0 sample_embedder 9 s = Some (Inr rep, s') \<and>
     ev_supersessions_rejected rep > 0 \<and>
     (\<exists>m. node_view ideal_externals s' (checkpoint_id ideal_externals 40204 rival_block) = Some m \<and> n_status m = Active) \<and>
     (\<exists>m. node_view ideal_externals s' (checkpoint_id ideal_externals 40204 sample_block) = Some m \<and> n_status m = Active)"
proof -
  let ?X = ideal_externals
  obtain s where s: "store_ok ?X s" "\<not> ds_encrypt s"
      "node_view ?X s (checkpoint_id ?X 40204 rival_block) = Some (block_node rival_block Active)"
      "edge_view ?X s (edge_key rival_edge) = Some rival_edge"
    by (rule orphaned_store)
  have n: "n_repo (block_node rival_block Active) = CHAIN_STATE_TENANT" "n_kind (block_node rival_block Active) = ChainCheckpoint"
      "n_status (block_node rival_block Active) = Active" "dag_key (block_node rival_block Active) = Some (checkpoint_key 40204 0 ''0xab'')"
      "''0xab'' \<noteq> bl_hash sample_block" "sample_source 0 = Inr (Some sample_block)" "bl_number sample_block = 0" "(0 :: u64) \<noteq> - 1"
    by (simp_all add: block_node_def chain_base_def dag_key_def rival_block_def sample_block_def sample_source_def)
  obtain rep s' where run: "ingest_chain_events ?X sample_chain_env sample_source 40204 [] (Some 0) 0 sample_embedder 9 s = Some (Inr rep, s')"
    using one_block_succeeds [where source = sample_source, OF ideal_externals_ok s(1,2) sample_embedder_finite sample_unhindered n(6,8)] by blast
  have e: "e_kind rival_edge = Supersedes" "e_from rival_edge = checkpoint_id ?X 40204 rival_block" "e_to rival_edge = checkpoint_id ?X 40204 sample_block"
    by (simp_all add: rival_edge_def make_edge_def)
  from undone_reorg_leaves_two_active [OF ideal_externals_ok s(1) sample_embedder_finite n(6-8) s(3) n(1-5) rival_id s(4) e run] run
  show ?thesis by blast
qed

end
