(* ===== verification/Spec2Isabelle.thy ===== *)
theory Spec2Isabelle
  imports Transport Chain_Anchor Seal_Migration Mcp_Session Gateway_Safety Ingest_Safety Walk_Resume
begin

text \<open>
  Verification of citrate-memories, a content-addressed knowledge graph with per-tenant sealing,
  signed assertions, capability grants, federation and semantic recall.

  \<^bold>\<open>The program.\<close> Nodes and edges (\<^verbatim>\<open>mem-core\<close>) are stored by content hash in a key-value backend,
  sealed under a data key per tenant that can be destroyed (\<^verbatim>\<open>mem-store\<close>). Writers hold signing
  keys and hand over diffs of signed assertions (\<^verbatim>\<open>mem-assert\<close>); replicas exchange bundles, merge
  them under a grant and anchor Merkle roots to a chain (\<^verbatim>\<open>mem-sync\<close>). Every access is decided by
  a signed capability grant and recorded in a hash-chained audit log (\<^verbatim>\<open>mem-authz\<close>). Readers get
  a storyline, snapshots, neighbourhoods, verification, critique and semantic search over exact
  or approximate vector indexes (\<^verbatim>\<open>mem-query\<close>, \<^verbatim>\<open>mem-index\<close>). An MCP server (\<^verbatim>\<open>mem-mcp\<close>) offers all of this
  to agents as tools of a JSON-RPC session. The Derived plane is built from git repositories: commits, documents and branches become
  nodes and edges (\<^verbatim>\<open>mem-ingest\<close>). A gateway (\<^verbatim>\<open>mem-gateway\<close>) offers it over HTTP to the members of an organisation:
  it authenticates them, mints a short-lived grant from their membership and runs the same queries,
  writes and sessions.

  \<^bold>\<open>Conventions.\<close> Machine integers are words of their width; a Rust string is the list of its UTF-8
  bytes as characters. A fallible pure function returns a \<^verbatim>\<open>result\<close> (a sum, left the error), a
  stateful one is an \<^verbatim>\<open>action\<close> from a state to a result and a state, so the state reached on an
  error path is part of the model; the question mark operator is \<^verbatim>\<open>rbind\<close>, \<^verbatim>\<open>sbind\<close> and their folds. An
  operation that can panic or diverge returns an option, with \<^verbatim>\<open>None\<close> for not returning.
  B-tree maps and sets are lists kept sorted by key, hash maps are HOL maps, so that iteration order is modelled where
  the source has one.

  \<^bold>\<open>Theories and sources.\<close>
  \<^item> \<^verbatim>\<open>Prelude\<close>: results and actions, UTF-8, lines, little-endian and tag-length-value encodings,
    sorted maps. \<^verbatim>\<open>Text\<close>: the standard library's string functions.
  \<^item> \<^verbatim>\<open>Crdt\<close>: the locale of a state-based replicated value and its convergence; instances in
    \<^verbatim>\<open>Belnap\<close> (\<^verbatim>\<open>belnap.rs\<close>) and \<^verbatim>\<open>Join\<close> (\<^verbatim>\<open>mem-assert/join.rs\<close>).
  \<^item> \<^verbatim>\<open>Identity\<close>, \<^verbatim>\<open>Node\<close>: \<^verbatim>\<open>identity.rs\<close>, \<^verbatim>\<open>node.rs\<close>, \<^verbatim>\<open>edge.rs\<close>. The hashed bytes of a node determine
    its identity fields.
  \<^item> \<^verbatim>\<open>Kv\<close>: \<^verbatim>\<open>kv.rs\<close>, the \<^verbatim>\<open>KvStore\<close> trait as a locale with \<^verbatim>\<open>InMemoryKv\<close> as its instance.
    \<^verbatim>\<open>Shred\<close>: \<^verbatim>\<open>shred.rs\<close>. \<^verbatim>\<open>Ideal\<close>: an instance of the called crates in which all their laws hold.
  \<^item> \<^verbatim>\<open>Store\<close>: \<^verbatim>\<open>mem-store/lib.rs\<close>; the record \<^verbatim>\<open>dag_store\<close> is \<^verbatim>\<open>MemoryDagStore\<close> with its backend,
    keyring, caches and generation counter. \<^verbatim>\<open>Store_Inv\<close>: the well-formedness invariant and how
    decoding depends on rows and usable keys. \<^verbatim>\<open>Store_Ops\<close>: the effect of each write as a list
    of items. \<^verbatim>\<open>Dag_Spec\<close>: the abstract graph, and the refinement of it by reads and commits.
  \<^item> \<^verbatim>\<open>Superseded_Dag\<close>: the state machine of \<^verbatim>\<open>specs/SupersededDag.tla\<close>. \<^verbatim>\<open>Supersession\<close>:
    breadth-first reachability, \<^verbatim>\<open>apply_supersession\<close> and \<^verbatim>\<open>confirm_edge\<close>, and the refinement.
  \<^item> \<^verbatim>\<open>Erasure\<close>: \<^verbatim>\<open>shred_tenant\<close> and permanence of erasure. \<^verbatim>\<open>Seal_Migration\<close>: \<^verbatim>\<open>migrate_seal_v2\<close>.
  \<^item> \<^verbatim>\<open>Grant\<close>, \<^verbatim>\<open>Audit_Log\<close>: \<^verbatim>\<open>grant.rs\<close> and \<^verbatim>\<open>audit.rs\<close>, the second over an explicit file system with
    a fault plan.
  \<^item> \<^verbatim>\<open>Asserter\<close>, \<^verbatim>\<open>Write_Policy\<close>, \<^verbatim>\<open>Diff_Safety\<close>: \<^verbatim>\<open>mem-assert/lib.rs\<close>.
    \<^verbatim>\<open>Sync\<close>, \<^verbatim>\<open>Sync_Safety\<close>, \<^verbatim>\<open>Anchor\<close>: \<^verbatim>\<open>mem-sync/lib.rs\<close>. \<^verbatim>\<open>Chain_Anchor\<close>: \<^verbatim>\<open>chain.rs\<close>.
    \<^verbatim>\<open>Transport\<close>: \<^verbatim>\<open>transport.rs\<close>, byte-level requests and answers.
  \<^item> \<^verbatim>\<open>Recall\<close>, \<^verbatim>\<open>Recall_Safety\<close>, \<^verbatim>\<open>Search\<close>, \<^verbatim>\<open>Search_Safety\<close>: \<^verbatim>\<open>mem-query/lib.rs\<close>.
    \<^verbatim>\<open>Vector_Index\<close>: \<^verbatim>\<open>index.rs\<close> and \<^verbatim>\<open>embed.rs\<close>. \<^verbatim>\<open>Hnsw\<close>, \<^verbatim>\<open>Hnsw_Safety\<close>: \<^verbatim>\<open>hnsw.rs\<close>.
  \<^item> \<^verbatim>\<open>Cite\<close>: \<^verbatim>\<open>mem-corpus/cite.rs\<close>, the citation of a passage. \<^verbatim>\<open>Mcp\<close>: the session server of \<^verbatim>\<open>mem-mcp/lib.rs\<close>,
    its authorization gate and the rendering of answers. The record \<^verbatim>\<open>mcp_server\<close> is what one session
    owns (grant, signing identity, request context), \<^verbatim>\<open>mcp_world\<close> what it shares (store, index cache,
    audit chain and its files). A tool is an action on the world that ends in a value, an early
    answer, a JSON-RPC error or a panic; each reading of the clock is a tick of the world.
    \<^verbatim>\<open>Mcp_Schema\<close>: the advertised tools. \<^verbatim>\<open>Mcp_Tools\<close>: the eleven handlers, dispatch, \<^verbatim>\<open>handle_line\<close> and the
    connection loop. \<^verbatim>\<open>Mcp_Safety\<close>, \<^verbatim>\<open>Mcp_Session\<close>: what a session may do.
  \<^item> \<^verbatim>\<open>Control\<close>: \<^verbatim>\<open>control.rs\<close>, \<^verbatim>\<open>allowlist.rs\<close> and the minting half of \<^verbatim>\<open>auth.rs\<close>. \<^verbatim>\<open>Split\<close>: the splitting functions of
    strings. \<^verbatim>\<open>Scene\<close>: \<^verbatim>\<open>scene.rs\<close>. \<^verbatim>\<open>Gateway_Gate\<close>: the token verifiers of \<^verbatim>\<open>auth.rs\<close>, and of \<^verbatim>\<open>http.rs\<close> the
    state, the gate, the attenuation and the limits. \<^verbatim>\<open>Gateway\<close>: the handlers, \<^verbatim>\<open>webhook.rs\<close> and the router. The
    record \<^verbatim>\<open>app\<close> is the constant half of \<^verbatim>\<open>AppState\<close>, \<^verbatim>\<open>gw_world\<close> the half behind locks: the world of a
    session with the control plane and its file, the cached layout, the ingest queue, the call
    budgets and the counts of running requests. A handler is an action that ends in a response, in
    an \<^verbatim>\<open>ApiError\<close> or in a panic. \<^verbatim>\<open>Gateway_Safety\<close>: what a request may do.
  \<^item> \<^verbatim>\<open>Lexis\<close>: trimming and printing of text, shared by the readers. \<^verbatim>\<open>Frontmatter\<close>: \<^verbatim>\<open>frontmatter.rs\<close> and a calendar
    counted day by day as its reference. \<^verbatim>\<open>Trailers\<close>: \<^verbatim>\<open>trailers.rs\<close> and the pure half of \<^verbatim>\<open>docs.rs\<close>. \<^verbatim>\<open>Git_Log\<close>:
    \<^verbatim>\<open>git.rs\<close> and the listings of \<^verbatim>\<open>docs.rs\<close>, over the record \<^verbatim>\<open>git_env\<close> of what \<^verbatim>\<open>git\<close> answers to an argument list. \<^verbatim>\<open>Ingest\<close>:
    \<^verbatim>\<open>mem-ingest/lib.rs\<close>; the builders are pure functions, and the full, the incremental, the branch and the
    reaping pass of an \<^verbatim>\<open>Ingestor\<close> are actions on the store. \<^verbatim>\<open>Ingest_Safety\<close>: what a pass may do.
  \<^item> \<^verbatim>\<open>Chain_Ingest\<close>: \<^verbatim>\<open>mem-ingest/chain.rs\<close>; a block source is a function from heights to blocks, and the walk over a range
    of blocks carries its report, the checkpoints known at each height and the block before.
    \<^verbatim>\<open>Federation_Meta\<close>: \<^verbatim>\<open>mem-ingest/federation.rs\<close>. \<^verbatim>\<open>Meta_Frame\<close>: writing nodes and edges leaves the operational records of a store
    alone. \<^verbatim>\<open>Chain_Ingest_Safety\<close>: what these passes may do. \<^verbatim>\<open>Walk_Resume\<close>: the stored cursor, resuming a walk, and a
    re-organisation that is undone.

  \<^bold>\<open>What is shown.\<close> Storage: commits refine an atomic update of an abstract graph, reads answer
  it exactly, confirmed edges are never demoted, supersession stays acyclic in every interleaving
  of operations, erasure is permanent, rows cannot be moved between slots, the migration changes
  no answer. Authority: the grant gate decides exactly the covered requests; a diff changes only
  its caller's nodes and edges; a bundle only the granted repositories; every effect of the
  transport is covered by a credential; asserted items of a replica stay signed. History: the
  audit log is durable before it is visible, resumes after a crash, and its head commits to every
  record. Reading: the storyline and the snapshot return the right nodes in order, the grant-aware queries
  do not depend on unreadable tenants, and searches are exact or, over the approximate index, safe.
  Sessions: every change a line causes is covered by the grants in force and by a new audit record,
  no tool succeeds without one, a grant in a request can only narrow, a contested edge needs a second
  party, the advertised tools are those dispatched with their required arguments, and a refused
  merge discloses the tenant of a node the caller cannot read. Gateway: a minted grant is exactly the
  membership, a route serves and changes only what an audited member may do, the session of an own
  model is never stronger than membership or token, memberships come only from the allowlist, and
  only authentic pushes are queued; a membership whose saving failed is honoured by the next request,
  and a suspended organisation still opens sessions. Ingestion: a hostile commit message cannot
  forge, split or hide a commit, a pass changes only Derived nodes of its repository and retracts something only
  on the word of an authoritative author, two machines derive the same graph, a successful pass
  is complete, reaping archives only what has ended, and timestamps are read exactly. The projections of the chain
  and of the federation manifest keep to their reserved tenants; a walk over blocks returns, can be resumed from
  its stored cursor wherever it stopped, and reaches the end when nothing fails, but a re-organisation that
  is undone leaves two active checkpoints of one height.

  \<^bold>\<open>Loops and bounds.\<close> No definition uses fuel. The walk over blocks counts in 64 bits and could wrap around at the last height,
  so it is a partial function, shown to return for every last height below the largest 64-bit number. Breadth-first loops terminate by the number of hashes not yet visited,
  which is finite because a content hash is a 256-bit word; the greedy descent of the approximate
  index by the number of scores above the current one, its beam by unvisited nodes and frontier;
  parsers by the length of the input. Vector arithmetic that could index out of range returns an
  option, and the safety theorem shows the option is never \<^verbatim>\<open>None\<close>.

  \<^bold>\<open>Parameters.\<close> Code outside the repository is an argument: the record \<^verbatim>\<open>externals\<close> (BLAKE3, AEAD,
  ed25519, hex, serde_json for stored rows), \<^verbatim>\<open>audit_codec\<close>, \<^verbatim>\<open>anchor_codec\<close>, \<^verbatim>\<open>chain_codec\<close>, \<^verbatim>\<open>query_env\<close> (JSON of
  the log, the anchors and the watermark), \<^verbatim>\<open>io_env\<close> (which file operation fails), \<^verbatim>\<open>rpc_env\<close> and
  \<^verbatim>\<open>wire\<close> (HTTP client and bundle encoding), \<^verbatim>\<open>f32_env\<close> (rounding of float arithmetic, sort of
  incomparable floats), \<^verbatim>\<open>mcp_env\<close> (clock, JSON text, formats of floats, Unicode tables), \<^verbatim>\<open>gw_env\<close>
  with \<^verbatim>\<open>jwt_env\<close>, \<^verbatim>\<open>f64_env\<close> and \<^verbatim>\<open>scene_env\<close> (tokens, HMAC, budget arithmetic, trigonometry), \<^verbatim>\<open>ingest_env\<close> with \<^verbatim>\<open>git_env\<close> and \<^verbatim>\<open>fs_env\<close> (the answers of \<^verbatim>\<open>git\<close> and of the file
  system, fixed during one pass), \<^verbatim>\<open>chain_env\<close> (JSON and files of the catalogue, the cursor and the manifest), and embedders. The laws a theorem relies on are its hypotheses
  (\<^verbatim>\<open>externals_ok\<close>, \<^verbatim>\<open>codec_ok\<close> and the like), and its witness instantiates them.

  \<^bold>\<open>Not modelled.\<close> The RocksDB backend and the transformer embedder are bindings to libraries. The corpus builder (beyond citations) and the
  command lines, endpoints and threads of the MCP daemon and the gateway are drivers over file trees, sockets and an HTTP
  framework; the gateway's ingest worker spawns git, its \<^verbatim>\<open>oidc.rs\<close> is a verifier no route uses, and a request
  that waits for one of the four slots is a request that runs later. Two threads are modelled only where a lock makes their steps a sequence.
\<close>

end
